(* ===== verification/Prelude.thy ===== *)
theory Prelude
  imports Main "HOL-Library.AList" "HOL-Library.Multiset"
begin

text \<open>
  Generic material the components share: association lists used as insertion-ordered maps
  (the behaviour of a JavaScript \<open>Map\<close> and of an object's own properties), a stable
  insertion sort over an arbitrary comparison (the behaviour of \<open>Array.prototype.sort\<close>
  with a comparator), first-index search and order-preserving removal of duplicates. The
  collection \<open>js_simps\<close> gathers the rewriting facts about JavaScript values, and
  \<open>alist_simps\<close> those about association lists.
\<close>

named_theorems js_simps
named_theorems alist_simps

section \<open>Insertion-ordered maps\<close>

text \<open>
  \<open>AList.update\<close> keeps the position of a key that is already bound and appends a new
  key at the end; \<open>AList.delete\<close> removes the key.
\<close>

lemma map_of_update [alist_simps]:
  "map_of (AList.update k v al) k' = (if k = k' then Some v else map_of al k')"
  by (simp add: update_conv')

lemma map_of_delete [alist_simps]:
  "map_of (AList.delete k al) k' = (if k = k' then None else map_of al k')"
  by (simp add: delete_conv')

lemma keys_update: "fst ` set (AList.update k v al) = insert k (fst ` set al)"
  by (induction al) auto

lemma distinct_keys_update:
  "distinct (map fst al) \<Longrightarrow> distinct (map fst (AList.update k v al))"
  by (rule distinct_update)

lemma map_fst_update:
  "map fst (AList.update k v al) = (if k \<in> fst ` set al then map fst al else map fst al @ [k])"
  by (induction al) (auto simp: image_iff)

lemma map_of_Some_mem: "map_of al k = Some v \<Longrightarrow> (k, v) \<in> set al"
  by (rule map_of_SomeD)

lemma map_of_None_key: "map_of al k = None \<longleftrightarrow> k \<notin> fst ` set al"
  by (rule map_of_eq_None_iff)

section \<open>Stable insertion sort over a comparison\<close>

text \<open>
  \<open>le a b\<close> stands for \<open>compare(a, b) <= 0\<close>. The sort inserts from the right and puts
  an element before the first one it does not exceed, so elements that compare equal keep
  their order, as ECMAScript requires of \<open>Array.prototype.sort\<close>.
\<close>

fun insert_by :: "('a \<Rightarrow> 'a \<Rightarrow> bool) \<Rightarrow> 'a \<Rightarrow> 'a list \<Rightarrow> 'a list" where
  "insert_by le x [] = [x]"
| "insert_by le x (y # ys) = (if le x y then x # y # ys else y # insert_by le x ys)"

fun sort_by :: "('a \<Rightarrow> 'a \<Rightarrow> bool) \<Rightarrow> 'a list \<Rightarrow> 'a list" where
  "sort_by le [] = []"
| "sort_by le (x # xs) = insert_by le x (sort_by le xs)"

lemma mset_insert_by [simp]: "mset (insert_by le x xs) = add_mset x (mset xs)"
  by (induction xs) auto

lemma mset_sort_by [simp]: "mset (sort_by le xs) = mset xs"
  by (induction xs) auto

lemma set_insert_by [simp]: "set (insert_by le x xs) = insert x (set xs)"
  by (metis mset_insert_by set_mset_add_mset_insert set_mset_mset)

lemma set_sort_by [simp]: "set (sort_by le xs) = set xs"
  by (metis mset_sort_by set_mset_mset)

lemma length_sort_by [simp]: "length (sort_by le xs) = length xs"
  by (metis mset_sort_by size_mset)

lemma distinct_sort_by [simp]: "distinct (sort_by le xs) = distinct xs"
  by (rule mset_eq_imp_distinct_iff) simp

definition total_preorder :: "('a \<Rightarrow> 'a \<Rightarrow> bool) \<Rightarrow> bool" where
  "total_preorder le \<longleftrightarrow> (\<forall>a b. le a b \<or> le b a) \<and> (\<forall>a b c. le a b \<longrightarrow> le b c \<longrightarrow> le a c)"

lemma total_preorderD:
  assumes "total_preorder le"
  shows "le a b \<or> le b a" and "le a b \<Longrightarrow> le b c \<Longrightarrow> le a c"
  using assms unfolding total_preorder_def by blast+

lemma sorted_insert_by:
  assumes "total_preorder le" and "sorted_wrt le xs"
  shows "sorted_wrt le (insert_by le x xs)"
  using assms(2)
proof (induction xs)
  case Nil
  then show ?case by simp
next
  case (Cons y ys)
  then show ?case
    using total_preorderD[OF assms(1)] by (auto dest: total_preorderD(2)[OF assms(1)])
qed

lemma sorted_sort_by: "total_preorder le \<Longrightarrow> sorted_wrt le (sort_by le xs)"
  by (induction xs) (auto intro: sorted_insert_by)

lemma insert_by_hd: "\<forall>y\<in>set xs. le x y \<Longrightarrow> insert_by le x xs = x # xs"
  by (cases xs) auto

lemma sort_by_sorted: "sorted_wrt le xs \<Longrightarrow> sort_by le xs = xs"
  by (induction xs) (auto simp: insert_by_hd)

section \<open>First index\<close>

text \<open>\<open>Array.prototype.findIndex\<close>, with \<open>None\<close> for its \<open>-1\<close>.\<close>

fun find_index :: "('a \<Rightarrow> bool) \<Rightarrow> 'a list \<Rightarrow> nat option" where
  "find_index P [] = None"
| "find_index P (x # xs) = (if P x then Some 0 else map_option Suc (find_index P xs))"

lemma find_index_Some:
  "find_index P xs = Some i \<Longrightarrow> i < length xs \<and> P (xs ! i) \<and> (\<forall>j<i. \<not> P (xs ! j))"
proof (induction xs arbitrary: i)
  case Nil
  then show ?case by simp
next
  case (Cons x xs)
  show ?case
  proof (cases "P x")
    case True
    with Cons.prems show ?thesis by simp
  next
    case False
    with Cons.prems obtain k where k: "find_index P xs = Some k" and i: "i = Suc k" by auto
    from Cons.IH[OF k] False i show ?thesis by (auto simp: nth_Cons split: nat.splits)
  qed
qed

lemma find_index_None: "find_index P xs = None \<longleftrightarrow> (\<forall>x\<in>set xs. \<not> P x)"
  by (induction xs) auto

section \<open>Order-preserving duplicate removal\<close>

text \<open>
  The loop \<open>for (v of xs) if (!out.includes(v)) out.push(v)\<close>, which keeps the first
  occurrence of each element.
\<close>

definition push_new :: "'a list \<Rightarrow> 'a \<Rightarrow> 'a list" where
  "push_new out v = (if v \<in> set out then out else out @ [v])"

definition uniq :: "'a list \<Rightarrow> 'a list" where
  "uniq xs = foldl push_new [] xs"

lemma foldl_push_new_set: "set (foldl push_new out xs) = set out \<union> set xs"
  by (induction xs arbitrary: out) (auto simp: push_new_def)

lemma foldl_push_new_distinct: "distinct out \<Longrightarrow> distinct (foldl push_new out xs)"
  by (induction xs arbitrary: out) (auto simp: push_new_def)

lemma set_uniq [simp]: "set (uniq xs) = set xs"
  by (simp add: uniq_def foldl_push_new_set)

lemma distinct_uniq [simp]: "distinct (uniq xs)"
  by (simp add: uniq_def foldl_push_new_distinct)

lemma uniq_Nil [simp]: "uniq [] = []"
  by (simp add: uniq_def)

lemma foldl_push_new_distinct_id:
  "distinct (out @ xs) \<Longrightarrow> foldl push_new out xs = out @ xs"
  by (induction xs arbitrary: out) (auto simp: push_new_def)

lemma uniq_distinct: "distinct xs \<Longrightarrow> uniq xs = xs"
  using foldl_push_new_distinct_id[of "[]" xs] by (simp add: uniq_def)

lemma uniq_uniq [simp]: "uniq (uniq xs) = uniq xs"
  by (rule uniq_distinct) simp

lemma foldl_push_new_prefix: "\<exists>ys. foldl push_new out xs = out @ ys"
proof (induction xs arbitrary: out)
  case Nil
  then show ?case by simp
next
  case (Cons a xs)
  obtain ys where "foldl push_new (push_new out a) xs = push_new out a @ ys"
    using Cons.IH by blast
  moreover have "\<exists>zs. push_new out a = out @ zs" by (auto simp: push_new_def)
  ultimately show ?case by auto
qed

lemma hd_uniq [simp]: "xs \<noteq> [] \<Longrightarrow> hd (uniq xs) = hd xs"
proof (cases xs)
  case (Cons x rest)
  obtain ys where "foldl push_new [x] rest = [x] @ ys" using foldl_push_new_prefix by blast
  with Cons show ?thesis by (simp add: uniq_def push_new_def)
qed simp

lemma uniq_eq_Nil [simp]: "uniq xs = [] \<longleftrightarrow> xs = []"
  by (metis set_empty set_uniq)

lemma find_SomeD: "find P xs = Some x \<Longrightarrow> x \<in> set xs \<and> P x"
  by (induction xs) (auto split: if_splits)

lemma option_eqI: "(\<And>c. x = Some c \<longleftrightarrow> y = Some c) \<Longrightarrow> x = y"
  by (cases x) force+

lemma sorted_map_split:
  assumes "sorted_wrt (<) (map f xs)"
  shows "sorted_wrt (<) (map f (drop n xs))" "\<forall>x \<in> set (take n xs). \<forall>y \<in> set (drop n xs). f x < f y"
proof -
  have "map f xs = map f (take n xs) @ map f (drop n xs)" by (metis append_take_drop_id map_append)
  with assms show "sorted_wrt (<) (map f (drop n xs))" "\<forall>x \<in> set (take n xs). \<forall>y \<in> set (drop n xs). f x < f y"
    by (simp_all only: sorted_wrt_append set_map) auto
qed

end
