(* ===== verification/JSValue.thy ===== *)
theory JSValue
  imports Complex_Main Prelude
begin

text \<open>
  The JavaScript values the program computes with, and the parts of the language and of its
  standard library that the modelled sources use: truthiness, optional chaining, \<open>||\<close> and
  \<open>??\<close>, \<open>String.prototype.trim\<close>, \<open>Number(...)\<close>, \<open>Math.trunc\<close>,
  \<open>Number.isInteger\<close>, \<open>String(...)\<close>, own-property reads and writes, errors.

  Conventions. A number is an exact rational, an infinity or \<open>NaN\<close>: the rounding of
  binary64 is not part of the model, except where a component writes it out. A string is a
  list of characters, each standing for one UTF-16 code unit below 256. An object is an
  association list in insertion order with its own enumerable properties; every object of
  the model is a plain one (prototype \<open>Object.prototype\<close>), and property names that
  are array indices keep insertion order too. A property that is absent reads as
  \<open>Undefined\<close>; one that is present with the value \<open>undefined\<close> is told apart by
  \<open>has_own\<close>.
\<close>

section \<open>Values\<close>

datatype jsnum = Fin rat | PosInf | NegInf | NaN

datatype jsval =
    Undefined
  | Null
  | JBool bool
  | JNum jsnum
  | JStr string
  | JArr "jsval list"
  | JObj "(string \<times> jsval) list"

type_synonym jsobj = "(string \<times> jsval) list"

datatype js_error = TypeError string | GenericError string

fun truthy :: "jsval \<Rightarrow> bool" where
  "truthy Undefined = False"
| "truthy Null = False"
| "truthy (JBool b) = b"
| "truthy (JNum n) = (case n of Fin q \<Rightarrow> q \<noteq> 0 | NaN \<Rightarrow> False | _ \<Rightarrow> True)"
| "truthy (JStr s) = (s \<noteq> [])"
| "truthy (JArr _) = True"
| "truthy (JObj _) = True"

fun nullish :: "jsval \<Rightarrow> bool" where
  "nullish Undefined = True"
| "nullish Null = True"
| "nullish _ = False"

text \<open>\<open>a || b\<close> and \<open>a ?? b\<close>.\<close>

definition js_or :: "jsval \<Rightarrow> jsval \<Rightarrow> jsval" where
  "js_or a b = (if truthy a then a else b)"

definition js_nc :: "jsval \<Rightarrow> jsval \<Rightarrow> jsval" where
  "js_nc a b = (if nullish a then b else a)"

lemma js_or_simps [simp]:
  "truthy a \<Longrightarrow> js_or a b = a" "\<not> truthy a \<Longrightarrow> js_or a b = b"
  by (simp_all add: js_or_def)

lemma js_nc_simps [simp]:
  "nullish a \<Longrightarrow> js_nc a b = b" "\<not> nullish a \<Longrightarrow> js_nc a b = a"
  by (simp_all add: js_nc_def)

lemma truthy_not_nullish: "truthy v \<Longrightarrow> \<not> nullish v"
  by (cases v) auto

lemma nullish_not_truthy: "nullish v \<Longrightarrow> \<not> truthy v"
  by (cases v) auto

section \<open>Own properties\<close>

definition oget :: "jsobj \<Rightarrow> string \<Rightarrow> jsval" where
  "oget ps k = (case map_of ps k of None \<Rightarrow> Undefined | Some v \<Rightarrow> v)"

definition has_own :: "jsobj \<Rightarrow> string \<Rightarrow> bool" where
  "has_own ps k = (map_of ps k \<noteq> None)"

abbreviation oset :: "jsobj \<Rightarrow> string \<Rightarrow> jsval \<Rightarrow> jsobj" where
  "oset ps k v \<equiv> AList.update k v ps"

abbreviation odel :: "jsobj \<Rightarrow> string \<Rightarrow> jsobj" where
  "odel ps k \<equiv> AList.delete k ps"

lemma oget_Nil [simp]: "oget [] k = Undefined"
  by (simp add: oget_def)

lemma oget_Cons [simp]: "oget ((k, v) # ps) k' = (if k = k' then v else oget ps k')"
  by (simp add: oget_def)

lemma oget_oset [simp]: "oget (oset ps k v) k' = (if k = k' then v else oget ps k')"
  by (simp add: oget_def alist_simps)

lemma oget_odel [simp]: "oget (odel ps k) k' = (if k = k' then Undefined else oget ps k')"
  by (simp add: oget_def alist_simps)

lemma has_own_Nil [simp]: "\<not> has_own [] k"
  by (simp add: has_own_def)

lemma has_own_Cons [simp]: "has_own ((k, v) # ps) k' = (k = k' \<or> has_own ps k')"
  by (simp add: has_own_def)

lemma has_own_oset [simp]: "has_own (oset ps k v) k' = (k = k' \<or> has_own ps k')"
  by (simp add: has_own_def alist_simps)

lemma has_own_odel [simp]: "has_own (odel ps k) k' = (k \<noteq> k' \<and> has_own ps k')"
  by (simp add: has_own_def alist_simps)

lemma has_own_keys: "has_own ps k \<longleftrightarrow> k \<in> fst ` set ps"
  by (simp add: has_own_def map_of_None_key)

lemma oget_not_own: "\<not> has_own ps k \<Longrightarrow> oget ps k = Undefined"
  by (simp add: has_own_def oget_def)

text \<open>The object spread \<open>{ ...a, ...b }\<close>.\<close>

definition ospread :: "jsobj \<Rightarrow> jsobj \<Rightarrow> jsobj" where
  "ospread a b = foldl (\<lambda>acc (k, v). oset acc k v) a b"

lemma ospread_Nil [simp]: "ospread a [] = a"
  by (simp add: ospread_def)

lemma ospread_Cons [simp]: "ospread a ((k, v) # b) = ospread (oset a k v) b"
  by (simp add: ospread_def)

lemma has_own_ospread [simp]: "has_own (ospread a b) k = (has_own a k \<or> has_own b k)"
  by (induction b arbitrary: a) auto

lemma oget_ospread:
  "distinct (map fst b) \<Longrightarrow> oget (ospread a b) k = (if has_own b k then oget b k else oget a k)"
proof (induction b arbitrary: a)
  case (Cons p b)
  obtain k0 v where [simp]: "p = (k0, v)" by (cases p)
  have "k = k0 \<Longrightarrow> \<not> has_own b k" using Cons.prems by (auto simp: has_own_keys)
  with Cons show ?case by auto
qed simp

text \<open>\<open>v?.k\<close>: reading a property of something that is not an object gives \<open>undefined\<close>.\<close>

fun pget :: "jsval \<Rightarrow> string \<Rightarrow> jsval" where
  "pget (JObj ps) k = oget ps k"
| "pget _ _ = Undefined"

text \<open>The own properties a value contributes to a spread: only objects have any here.\<close>

fun props_of :: "jsval \<Rightarrow> jsobj" where
  "props_of (JObj ps) = ps"
| "props_of _ = []"

fun is_obj :: "jsval \<Rightarrow> bool" where
  "is_obj (JObj _) = True"
| "is_obj _ = False"

fun is_arr :: "jsval \<Rightarrow> bool" where
  "is_arr (JArr _) = True"
| "is_arr _ = False"

fun is_str :: "jsval \<Rightarrow> bool" where
  "is_str (JStr _) = True"
| "is_str _ = False"

fun arr_of :: "jsval \<Rightarrow> jsval list" where
  "arr_of (JArr xs) = xs"
| "arr_of _ = []"

section \<open>Strings\<close>

definition js_space :: "char \<Rightarrow> bool" where
  "js_space c = ((of_char c :: nat) \<in> {9, 10, 11, 12, 13, 32, 160})"

definition js_trim :: "string \<Rightarrow> string" where
  "js_trim s = rev (dropWhile js_space (rev (dropWhile js_space s)))"

lemma dropWhile_head: "dropWhile P xs = y # ys \<Longrightarrow> \<not> P y"
  by (metis hd_dropWhile list.sel(1) list.simps(3))

lemma dropWhile_idem_hd: "xs \<noteq> [] \<Longrightarrow> \<not> P (hd xs) \<Longrightarrow> dropWhile P xs = xs"
  by (cases xs) auto

lemma hd_rev_dropWhile_rev:
  "rev (dropWhile P (rev xs)) \<noteq> [] \<Longrightarrow> hd (rev (dropWhile P (rev xs))) = hd xs"
proof -
  assume ne: "rev (dropWhile P (rev xs)) \<noteq> []"
  have "xs = rev (dropWhile P (rev xs)) @ rev (takeWhile P (rev xs))"
    by (metis rev_append rev_rev_ident takeWhile_dropWhile_id)
  with ne show ?thesis by (metis hd_append2)
qed

lemma js_trim_trim [simp]: "js_trim (js_trim s) = js_trim s"
proof -
  define t where "t = dropWhile js_space s"
  define u where "u = rev (dropWhile js_space (rev t))"
  have u: "js_trim s = u" by (simp add: js_trim_def t_def u_def)
  have "dropWhile js_space u = u"
  proof (cases "u = []")
    case False
    then have "hd u = hd t" unfolding u_def by (rule hd_rev_dropWhile_rev)
    moreover from False have "t \<noteq> []" by (auto simp: u_def)
    then have "\<not> js_space (hd t)" unfolding t_def by (rule hd_dropWhile)
    ultimately show ?thesis using False by (simp add: dropWhile_idem_hd)
  qed simp
  moreover have "dropWhile js_space (rev u) = rev u" by (simp add: u_def)
  ultimately have "js_trim u = u" by (simp add: js_trim_def)
  with u show ?thesis by simp
qed

lemma js_trim_Nil [simp]: "js_trim [] = []"
  by (simp add: js_trim_def)

text \<open>The source's \<open>typeof v === 'string' ? v.trim() : ''\<close>.\<close>

fun trim_or_empty :: "jsval \<Rightarrow> string" where
  "trim_or_empty (JStr s) = js_trim s"
| "trim_or_empty _ = []"

lemma trim_or_empty_trimmed [simp]: "js_trim (trim_or_empty v) = trim_or_empty v"
  by (cases v) auto

definition starts_with :: "string \<Rightarrow> string \<Rightarrow> bool" where
  "starts_with s p = (take (length p) s = p)"

definition ends_with :: "string \<Rightarrow> string \<Rightarrow> bool" where
  "ends_with s p = (length p \<le> length s \<and> drop (length s - length p) s = p)"

text \<open>
  Case conversion of the characters below 256; the two whose uppercase form lies outside are left as they are.
\<close>

definition lower_char :: "char \<Rightarrow> char" where
  "lower_char c = (let n = of_char c :: nat in if 65 \<le> n \<and> n \<le> 90 \<or> 192 \<le> n \<and> n \<le> 222 \<and> n \<noteq> 215 then char_of (n + 32) else c)"

definition toLowerCase :: "string \<Rightarrow> string" where
  "toLowerCase s = map lower_char s"

definition upper_char :: "char \<Rightarrow> string" where
  "upper_char c = (let n = of_char c :: nat in
     if n = 223 then ''SS''
     else if 97 \<le> n \<and> n \<le> 122 \<or> 224 \<le> n \<and> n \<le> 254 \<and> n \<noteq> 247 then [char_of (n - 32)] else [c])"

definition toUpperCase :: "string \<Rightarrow> string" where
  "toUpperCase s = concat (map upper_char s)"

lemma lower_char_again: "lower_char (lower_char c) = lower_char c"
proof -
  have "of_char c < (256 :: nat)" by simp
  then show ?thesis by (auto simp: lower_char_def Let_def)
qed

lemma toLowerCase_again [simp]: "toLowerCase (toLowerCase s) = toLowerCase s"
  by (simp add: toLowerCase_def lower_char_again)

section \<open>Numbers\<close>

definition js_trunc :: "rat \<Rightarrow> int" where
  "js_trunc q = (if 0 \<le> q then \<lfloor>q\<rfloor> else \<lceil>q\<rceil>)"

definition max_safe_integer :: rat where
  "max_safe_integer = 9007199254740991"

fun is_finite_num :: "jsval \<Rightarrow> bool" where
  "is_finite_num (JNum (Fin _)) = True"
| "is_finite_num _ = False"

fun num_is_integer :: "jsnum \<Rightarrow> bool" where
  "num_is_integer (Fin q) = (of_int \<lfloor>q\<rfloor> = q)"
| "num_is_integer _ = False"

lemma js_trunc_of_int [simp]: "js_trunc (of_int i) = i"
  by (simp add: js_trunc_def)

lemma js_trunc_of_nat [simp]: "js_trunc (of_nat n) = int n"
  by (metis js_trunc_of_int of_int_of_nat_eq)

lemma js_trunc_numeral [simp]: "js_trunc (numeral k) = numeral k" "js_trunc 0 = 0" "js_trunc 1 = 1"
  by (metis js_trunc_of_int of_int_numeral) (simp_all add: js_trunc_def)

lemma js_trunc_nonneg: "0 \<le> q \<Longrightarrow> 0 \<le> js_trunc q"
  by (simp add: js_trunc_def)

lemma js_trunc_ge1: "1 \<le> q \<Longrightarrow> 1 \<le> js_trunc q"
  by (simp add: js_trunc_def)

lemma js_trunc_mono: "p \<le> q \<Longrightarrow> js_trunc p \<le> js_trunc q"
proof -
  assume le: "p \<le> q"
  show ?thesis
  proof (cases "0 \<le> p")
    case True
    with le show ?thesis by (simp add: js_trunc_def floor_mono)
  next
    case neg: False
    show ?thesis
    proof (cases "0 \<le> q")
      case True
      have "\<lceil>p\<rceil> \<le> 0" using neg by (simp add: ceiling_le_iff)
      also have "0 \<le> \<lfloor>q\<rfloor>" using True by simp
      finally show ?thesis using neg True by (simp add: js_trunc_def)
    next
      case False
      with neg le show ?thesis by (simp add: js_trunc_def ceiling_mono)
    qed
  qed
qed

text \<open>
  \<open>Number(v)\<close>. The string grammar is StringNumericLiteral: blank strings give 0, then a
  signed decimal literal or \<open>Infinity\<close>, or an unsigned hexadecimal, octal or binary one.
\<close>

definition digit_val :: "char \<Rightarrow> nat option" where
  "digit_val c = (let n = of_char c :: nat in
     if 48 \<le> n \<and> n \<le> 57 then Some (n - 48)
     else if 97 \<le> n \<and> n \<le> 122 then Some (n - 87)
     else if 65 \<le> n \<and> n \<le> 90 then Some (n - 55) else None)"

definition is_digit_in :: "nat \<Rightarrow> char \<Rightarrow> bool" where
  "is_digit_in base c = (case digit_val c of Some d \<Rightarrow> d < base | None \<Rightarrow> False)"

abbreviation is_dec_digit :: "char \<Rightarrow> bool" where
  "is_dec_digit \<equiv> is_digit_in 10"

definition digits_val :: "nat \<Rightarrow> string \<Rightarrow> nat" where
  "digits_val base s =
     foldl (\<lambda>n c. base * n + (case digit_val c of Some d \<Rightarrow> d | None \<Rightarrow> 0)) 0 s"

definition parse_int_digits :: "string \<Rightarrow> int option" where
  "parse_int_digits s =
     (let (neg, ds) = (case s of c # cs \<Rightarrow> if c = CHR ''-'' then (True, cs)
                                            else if c = CHR ''+'' then (False, cs) else (False, s)
                       | [] \<Rightarrow> (False, []))
      in if ds \<noteq> [] \<and> list_all is_dec_digit ds
         then Some (if neg then - int (digits_val 10 ds) else int (digits_val 10 ds)) else None)"

definition parse_exponent :: "string \<Rightarrow> int option" where
  "parse_exponent s = (case s of [] \<Rightarrow> Some 0
     | c # cs \<Rightarrow> if c = CHR ''e'' \<or> c = CHR ''E'' then parse_int_digits cs else None)"

definition parse_unsigned_decimal :: "string \<Rightarrow> jsnum" where
  "parse_unsigned_decimal s =
     (let ip = takeWhile is_dec_digit s; r = dropWhile is_dec_digit s;
          (fp, r') = (case r of c # t \<Rightarrow> if c = CHR ''.''
                        then (takeWhile is_dec_digit t, dropWhile is_dec_digit t) else ([], r)
                      | [] \<Rightarrow> ([], []))
      in if ip = [] \<and> fp = [] then (if s = ''Infinity'' then PosInf else NaN)
         else (case parse_exponent r' of None \<Rightarrow> NaN
               | Some e \<Rightarrow> Fin (of_nat (digits_val 10 (ip @ fp)) * power_int 10 (e - int (length fp)))))"

fun neg_num :: "jsnum \<Rightarrow> jsnum" where
  "neg_num (Fin q) = Fin (- q)"
| "neg_num PosInf = NegInf"
| "neg_num NegInf = PosInf"
| "neg_num NaN = NaN"

definition parse_radix :: "nat \<Rightarrow> string \<Rightarrow> jsnum" where
  "parse_radix base ds =
     (if ds \<noteq> [] \<and> list_all (is_digit_in base) ds then Fin (of_nat (digits_val base ds)) else NaN)"

definition string_to_number :: "string \<Rightarrow> jsnum" where
  "string_to_number s0 = (let s = js_trim s0 in
     if s = [] then Fin 0
     else if take 2 s = ''0x'' \<or> take 2 s = ''0X'' then parse_radix 16 (drop 2 s)
     else if take 2 s = ''0o'' \<or> take 2 s = ''0O'' then parse_radix 8 (drop 2 s)
     else if take 2 s = ''0b'' \<or> take 2 s = ''0B'' then parse_radix 2 (drop 2 s)
     else if hd s = CHR ''-'' then neg_num (parse_unsigned_decimal (tl s))
     else if hd s = CHR ''+'' then parse_unsigned_decimal (tl s)
     else parse_unsigned_decimal s)"

text \<open>
  An array is converted through its string: empty gives 0, one element converts like that
  element's string (\<open>true\<close>, \<open>false\<close> and objects give \<open>NaN\<close>), two or more hold a
  comma.
\<close>

fun array_element_number :: "jsval \<Rightarrow> jsnum" where
  "array_element_number (JArr []) = Fin 0"
| "array_element_number (JArr [v]) = array_element_number v"
| "array_element_number (JArr _) = NaN"
| "array_element_number Undefined = Fin 0"
| "array_element_number Null = Fin 0"
| "array_element_number (JBool _) = NaN"
| "array_element_number (JNum n) = n"
| "array_element_number (JStr s) = string_to_number s"
| "array_element_number (JObj _) = NaN"

fun js_Number :: "jsval \<Rightarrow> jsnum" where
  "js_Number Undefined = NaN"
| "js_Number Null = Fin 0"
| "js_Number (JBool b) = Fin (if b then 1 else 0)"
| "js_Number (JNum n) = n"
| "js_Number (JStr s) = string_to_number s"
| "js_Number (JArr xs) = array_element_number (JArr xs)"
| "js_Number (JObj _) = NaN"

text \<open>
  \<open>String(v)\<close>. Whole numbers print in decimal; a fraction prints its exact decimal
  expansion, cut after 17 digits.
\<close>

fun nat_digits :: "nat \<Rightarrow> string" where
  "nat_digits n = (if n < 10 then [char_of (48 + n)] else nat_digits (n div 10) @ [char_of (48 + n mod 10)])"

declare nat_digits.simps [simp del]

definition int_string :: "int \<Rightarrow> string" where
  "int_string i = (if i < 0 then CHR ''-'' # nat_digits (nat (- i)) else nat_digits (nat i))"

fun fraction_digits :: "nat \<Rightarrow> rat \<Rightarrow> string" where
  "fraction_digits 0 q = []"
| "fraction_digits (Suc n) q =
     (if q = 0 then [] else char_of (48 + nat \<lfloor>10 * q\<rfloor>) # fraction_digits n (10 * q - of_int \<lfloor>10 * q\<rfloor>))"

fun num_string :: "jsnum \<Rightarrow> string" where
  "num_string (Fin q) =
     (let a = \<bar>q\<bar>; whole = nat_digits (nat \<lfloor>a\<rfloor>); frac = fraction_digits 17 (a - of_int \<lfloor>a\<rfloor>)
      in (if q < 0 then ''-'' else []) @ whole @ (if frac = [] then [] else CHR ''.'' # frac))"
| "num_string PosInf = ''Infinity''"
| "num_string NegInf = ''-Infinity''"
| "num_string NaN = ''NaN''"

fun join_with :: "string \<Rightarrow> string list \<Rightarrow> string" where
  "join_with sep [] = []"
| "join_with sep [x] = x"
| "join_with sep (x # y # ys) = x @ sep @ join_with sep (y # ys)"

fun js_String :: "jsval \<Rightarrow> string" where
  "js_String Undefined = ''undefined''"
| "js_String Null = ''null''"
| "js_String (JBool b) = (if b then ''true'' else ''false'')"
| "js_String (JNum n) = num_string n"
| "js_String (JStr s) = s"
| "js_String (JArr xs) = join_with '','' (map (\<lambda>x. if nullish x then [] else js_String x) xs)"
| "js_String (JObj _) = ''[object Object]''"

section \<open>Fallible computations\<close>

text \<open>
  An exception is an \<open>Inl\<close>. \<open>try_map\<close> is \<open>Array.prototype.map\<close> with a callback
  that may throw: it stops at the first exception.
\<close>

definition and_then :: "'e + 'a \<Rightarrow> ('a \<Rightarrow> 'e + 'b) \<Rightarrow> 'e + 'b" where
  "and_then r f = (case r of Inl e \<Rightarrow> Inl e | Inr a \<Rightarrow> f a)"

lemma and_then_simps [simp]:
  "and_then (Inl e) f = Inl e" "and_then (Inr a) f = f a"
  by (simp_all add: and_then_def)

lemma and_then_Inr: "and_then r f = Inr b \<longleftrightarrow> (\<exists>a. r = Inr a \<and> f a = Inr b)"
  by (cases r) auto

fun try_map :: "('a \<Rightarrow> 'e + 'b) \<Rightarrow> 'a list \<Rightarrow> 'e + 'b list" where
  "try_map f [] = Inr []"
| "try_map f (x # xs) = and_then (f x) (\<lambda>y. and_then (try_map f xs) (\<lambda>ys. Inr (y # ys)))"

lemma try_map_cong [fundef_cong]:
  "xs = ys \<Longrightarrow> (\<And>x. x \<in> set ys \<Longrightarrow> f x = g x) \<Longrightarrow> try_map f xs = try_map g ys"
  by (induction xs arbitrary: ys) (auto simp: and_then_def split: sum.splits)

lemma try_map_length: "try_map f xs = Inr ys \<Longrightarrow> length ys = length xs"
  by (induction xs arbitrary: ys) (auto simp: and_then_Inr)

lemma try_map_Inr_iff:
  "try_map f xs = Inr ys \<longleftrightarrow> list_all2 (\<lambda>x y. f x = Inr y) xs ys"
  by (induction xs arbitrary: ys) (auto simp: and_then_Inr list_all2_Cons1)

end
