(* ===== verification/UpwardChain.thy ===== *)
theory UpwardChain
  imports Prelude
begin

text \<open>
  The interface every walk up the session tree offers. A walk starts at a session and follows
  the parent link until there is none or until it would revisit a session. The locale
  \<open>upward_chain\<close> states what such a walk promises; inside it the ids walked are shown to be
  exactly the ids reachable through parent links, and the list is determined by the links, so
  that two walks over the same links agree.
\<close>

section \<open>Reachability through parent links\<close>

definition links_to :: "('k \<Rightarrow> 'k option) \<Rightarrow> 'k \<Rightarrow> 'k \<Rightarrow> bool" where
  "links_to up x y = (up x = Some y)"

lemma links_to_fun: "links_to up x y \<Longrightarrow> links_to up x z \<Longrightarrow> y = z"
  by (simp add: links_to_def)

text \<open>
  A chain over \<open>up\<close>: consecutive elements are linked, none repeats, and the walk ends
  where there is no parent or the parent was already visited.
\<close>

fun linked :: "('k \<Rightarrow> 'k option) \<Rightarrow> 'k list \<Rightarrow> bool" where
  "linked up [] = True"
| "linked up [x] = True"
| "linked up (x # y # ys) = (up x = Some y \<and> linked up (y # ys))"

lemma linked_snoc: "linked up (xs @ [x]) \<Longrightarrow> up x = Some y \<Longrightarrow> linked up (xs @ [x, y])"
  by (induction up xs rule: linked.induct) auto

lemma linked_snoc_last: "xs \<noteq> [] \<Longrightarrow> linked up xs \<Longrightarrow> up (last xs) = Some y \<Longrightarrow> linked up (xs @ [y])"
  by (metis append_butlast_last_id append.assoc append_Cons append_Nil linked_snoc)

lemma linked_nth: "linked up xs \<Longrightarrow> Suc i < length xs \<Longrightarrow> up (xs ! i) = Some (xs ! Suc i)"
proof (induction up xs arbitrary: i rule: linked.induct)
  case (3 up x y ys)
  then show ?case by (cases i) auto
qed auto

lemma linked_reach: "linked up (x # xs) \<Longrightarrow> y \<in> set (x # xs) \<Longrightarrow> (links_to up)\<^sup>*\<^sup>* x y"
proof (induction xs arbitrary: x)
  case Nil
  then show ?case by simp
next
  case (Cons z zs)
  then have step: "links_to up x z" by (simp add: links_to_def)
  show ?case
  proof (cases "y = x")
    case False
    with Cons have "(links_to up)\<^sup>*\<^sup>* z y" by auto
    with step show ?thesis by (rule converse_rtranclp_into_rtranclp)
  qed simp
qed

definition closed_end :: "('k \<Rightarrow> 'k option) \<Rightarrow> 'k list \<Rightarrow> bool" where
  "closed_end up ks = (case up (last ks) of None \<Rightarrow> True | Some p \<Rightarrow> p \<in> set ks)"

lemma closed_step:
  assumes "linked up ks" "closed_end up ks" "x \<in> set ks" "up x = Some y"
  shows "y \<in> set ks"
proof -
  from assms(3) obtain i where i: "i < length ks" "ks ! i = x" by (auto simp: in_set_conv_nth)
  show ?thesis
  proof (cases "Suc i < length ks")
    case True
    with linked_nth[OF assms(1) this] i assms(4) have "ks ! Suc i = y" by simp
    with True show ?thesis by auto
  next
    case False
    with i have "last ks = x" by (metis Suc_lessI diff_Suc_1 last_conv_nth length_0_conv less_nat_zero_code)
    with assms(2,4) show ?thesis by (simp add: closed_end_def)
  qed
qed

lemma closed_reach:
  assumes "linked up ks" "closed_end up ks" "(links_to up)\<^sup>*\<^sup>* x y" "x \<in> set ks"
  shows "y \<in> set ks"
  using assms(3,4)
proof (induction rule: rtranclp_induct)
  case (step y z)
  then show ?case using closed_step[OF assms(1,2)] by (auto simp: links_to_def)
qed simp

lemma chain_reachable_set:
  assumes "ks \<noteq> []" "hd ks = v" "linked up ks" "closed_end up ks"
  shows "set ks = {k. (links_to up)\<^sup>*\<^sup>* v k}"
proof -
  from assms(1,2) obtain xs where ks: "ks = v # xs" by (cases ks) auto
  show ?thesis
  proof
    show "set ks \<subseteq> {k. (links_to up)\<^sup>*\<^sup>* v k}"
      using linked_reach[of up v xs] assms(3) ks by auto
    show "{k. (links_to up)\<^sup>*\<^sup>* v k} \<subseteq> set ks"
      using closed_reach[OF assms(3,4)] ks by auto
  qed
qed

text \<open>Two chains from the same start are prefixes of one another.\<close>

lemma linked_nth_unique:
  assumes "linked up ks" "linked up ks'" "ks \<noteq> []" "ks' \<noteq> []" "hd ks = hd ks'"
  shows "i < length ks \<Longrightarrow> i < length ks' \<Longrightarrow> ks ! i = ks' ! i"
proof (induction i)
  case 0
  with assms show ?case by (simp add: hd_conv_nth)
next
  case (Suc i)
  then have "ks ! i = ks' ! i" by simp
  with linked_nth[OF assms(1) Suc.prems(1)] linked_nth[OF assms(2) Suc.prems(2)]
  show ?case by simp
qed

lemma linked_unique:
  assumes "linked up ks" "linked up ks'" "ks \<noteq> []" "ks' \<noteq> []" "hd ks = hd ks'"
    and "distinct ks" "distinct ks'" "closed_end up ks" "closed_end up ks'"
  shows "ks = ks'"
proof -
  have "set ks = set ks'"
    using chain_reachable_set[of ks "hd ks" up] chain_reachable_set[of ks' "hd ks" up] assms by simp
  then have len: "length ks = length ks'"
    using assms(6,7) by (metis distinct_card)
  show ?thesis
    by (rule nth_equalityI) (use len linked_nth_unique[OF assms(1-5)] in auto)
qed

section \<open>The interface\<close>

text \<open>
  \<open>up\<close> is the parent link the walk follows, \<open>chain v\<close> the ids it returns when it
  returns, nearest first, and \<open>ok\<close> the start ids it accepts.
\<close>

locale upward_chain =
  fixes up :: "'k \<Rightarrow> 'k option"
    and chain :: "'k \<Rightarrow> 'k list option"
    and ok :: "'k \<Rightarrow> bool"
  assumes chain_start: "ok v \<Longrightarrow> chain v = Some ks \<Longrightarrow> ks \<noteq> [] \<and> hd ks = v"
    and chain_linked: "ok v \<Longrightarrow> chain v = Some ks \<Longrightarrow> linked up ks"
    and chain_distinct: "ok v \<Longrightarrow> chain v = Some ks \<Longrightarrow> distinct ks"
    and chain_closed: "ok v \<Longrightarrow> chain v = Some ks \<Longrightarrow> closed_end up ks"
begin

lemma chain_set: "ok v \<Longrightarrow> chain v = Some ks \<Longrightarrow> set ks = {k. (links_to up)\<^sup>*\<^sup>* v k}"
  using chain_start chain_linked chain_closed chain_reachable_set by metis

lemma chain_self: "ok v \<Longrightarrow> chain v = Some ks \<Longrightarrow> v \<in> set ks"
  using chain_set by auto

lemma chain_mono:
  assumes "ok v" "chain v = Some ks" "w \<in> set ks" "ok w" "chain w = Some ls"
  shows "set ls \<subseteq> set ks"
  using chain_set[OF assms(1,2)] chain_set[OF assms(4,5)] assms(3) by (auto elim: rtranclp_trans)

lemma chain_unique:
  assumes "ok v" "chain v = Some ks" "ls \<noteq> []" "hd ls = v" "linked up ls" "distinct ls" "closed_end up ls"
  shows "ls = ks"
  using linked_unique[of up ls ks] chain_start[OF assms(1,2)] chain_linked[OF assms(1,2)]
    chain_distinct[OF assms(1,2)] chain_closed[OF assms(1,2)] assms by simp

end

section \<open>Unvisited ids\<close>

text \<open>
  What makes a walk end: the ids that have a parent link form a finite set, and a step to an
  id outside the visited list uses one of them up.
\<close>

lemma unvisited_decreases:
  "finite D \<Longrightarrow> x \<in> D \<Longrightarrow> x \<notin> set vs \<Longrightarrow> card (D - set (vs @ [x])) < card (D - set vs)"
  by (intro psubset_card_mono) auto

end
