(* ===== verification/SessionAncestry.thy ===== *)
theory SessionAncestry
  imports JSValue UpwardChain
begin

text \<open>
  The session-ancestry module \<open>src/shared/session-ancestry.mjs\<close> and the actor scope built
  on it, \<open>src/shared/session-actors.mjs\<close>: the parent link of a session record, the lookup
  made from a function, a \<open>Map\<close> or an array, the walk up (\<open>isAncestorOrSelf\<close>,
  \<open>ancestryChain\<close>), the walk down (\<open>descendantSessionIDs\<close>) and the owner ids a viewer
  may see. The walks up are loops that stop only when the chain of parent links does, so
  they are option-valued: \<open>None\<close> is a walk that never returns.
\<close>

section \<open>Session records and lookups\<close>

definition SESSION_SCOPE_POLICY_ancestorsVisible :: bool where
  "SESSION_SCOPE_POLICY_ancestorsVisible = True"

definition normalizeSessionID :: "jsval \<Rightarrow> string" where
  "normalizeSessionID v = trim_or_empty v"

definition sessionParentID :: "jsval \<Rightarrow> string" where
  "sessionParentID session =
     (if nullish session then []
      else let p = normalizeSessionID (pget session ''parentSessionID'')
           in if p \<noteq> [] then p else normalizeSessionID (pget session ''parentSessionId''))"

datatype session_source =
    FunSource "string \<Rightarrow> jsval"
  | MapSource "(string \<times> jsval) list"
  | ArrSource "jsval list"
  | OtherSource

definition index_session :: "(string \<times> jsval) list \<Rightarrow> jsval \<Rightarrow> (string \<times> jsval) list" where
  "index_session byID session =
     (let k = normalizeSessionID (pget session ''id'')
      in if k \<noteq> [] \<and> map_of byID k = None then AList.update k session byID else byID)"

fun toSessionLookup :: "session_source \<Rightarrow> string \<Rightarrow> jsval" where
  "toSessionLookup (FunSource f) k = f k"
| "toSessionLookup (MapSource m) k = oget m k"
| "toSessionLookup (ArrSource sessions) k = oget (foldl index_session [] sessions) k"
| "toSessionLookup OtherSource k = Undefined"

lemma toSessionLookup_fun [simp]:
  "toSessionLookup (MapSource m) = oget m"
  "toSessionLookup (ArrSource sessions) = oget (foldl index_session [] sessions)"
  by auto

declare toSessionLookup.simps(2,3) [simp del] toSessionLookup_fun(2) [simp del]

section \<open>The walk up\<close>

partial_function (option) ancestor_loop ::
  "(string \<Rightarrow> jsval) \<Rightarrow> string \<Rightarrow> string list \<Rightarrow> string \<Rightarrow> bool option" where
  "ancestor_loop lookup ancestor visited current =
     (let session = lookup current in
      if nullish session then Some False
      else let parent = sessionParentID session in
        if parent = [] then Some False
        else if parent = ancestor then Some True
        else if parent \<in> set visited then Some False
        else ancestor_loop lookup ancestor (visited @ [parent]) parent)"

definition isAncestorOrSelf :: "jsval \<Rightarrow> jsval \<Rightarrow> session_source \<Rightarrow> bool option" where
  "isAncestorOrSelf ancestorSessionID descendantSessionID getSession =
     (let ancestor = normalizeSessionID ancestorSessionID;
          descendant = normalizeSessionID descendantSessionID
      in if ancestor = [] \<or> descendant = [] then Some False
         else if ancestor = descendant then Some True
         else ancestor_loop (toSessionLookup getSession) ancestor [descendant] descendant)"

definition isVisibleTo :: "jsval \<Rightarrow> jsval \<Rightarrow> session_source \<Rightarrow> bool option" where
  "isVisibleTo viewerSessionID ownerSessionID getSession =
     isAncestorOrSelf ownerSessionID viewerSessionID getSession"

definition isOwnedBy :: "jsval \<Rightarrow> jsval \<Rightarrow> session_source \<Rightarrow> bool option" where
  "isOwnedBy viewerSessionID ownerSessionID getSession =
     isAncestorOrSelf ownerSessionID viewerSessionID getSession"

definition isSessionVisibleTo :: "jsval \<Rightarrow> jsval \<Rightarrow> session_source \<Rightarrow> bool option" where
  "isSessionVisibleTo viewerSessionID ownerSessionID getSession =
     isAncestorOrSelf ownerSessionID viewerSessionID getSession"

text \<open>The set \<open>seen\<close> of the source holds exactly the elements of \<open>owners\<close>.\<close>

partial_function (option) chain_loop ::
  "(string \<Rightarrow> jsval) \<Rightarrow> string list \<Rightarrow> string \<Rightarrow> string list option" where
  "chain_loop lookup owners current =
     (let session = lookup current in
      if nullish session then Some owners
      else let parent = sessionParentID session in
        if parent = [] \<or> parent \<in> set owners then Some owners
        else chain_loop lookup (owners @ [parent]) parent)"

definition ancestryChain :: "jsval \<Rightarrow> session_source \<Rightarrow> string list option" where
  "ancestryChain viewerSessionID source =
     (let viewer = normalizeSessionID viewerSessionID
      in if viewer = [] then Some []
         else chain_loop (toSessionLookup source) [viewer] viewer)"

section \<open>The walk down\<close>

definition add_child :: "(string \<times> string list) list \<Rightarrow> jsval \<Rightarrow> (string \<times> string list) list" where
  "add_child childrenByParent session =
     (let k = normalizeSessionID (pget session ''id''); parent = sessionParentID session
      in if k = [] \<or> parent = [] then childrenByParent
         else AList.update parent
                (case map_of childrenByParent parent of None \<Rightarrow> [k] | Some cs \<Rightarrow> cs @ [k]) childrenByParent)"

definition children_of :: "(string \<times> string list) list \<Rightarrow> string \<Rightarrow> string list" where
  "children_of childrenByParent p = (case map_of childrenByParent p of None \<Rightarrow> [] | Some cs \<Rightarrow> cs)"

definition all_children :: "(string \<times> string list) list \<Rightarrow> string set" where
  "all_children childrenByParent = (\<Union>(_, cs)\<in>set childrenByParent. set cs)"

lemma children_of_Nil [simp]: "children_of [] p = []"
  by (simp add: children_of_def)

lemma children_of_all: "set (children_of m p) \<subseteq> all_children m"
proof (cases "map_of m p")
  case (Some cs)
  then have "(p, cs) \<in> set m" by (rule map_of_SomeD)
  with Some show ?thesis by (force simp: children_of_def all_children_def)
qed (simp add: children_of_def)

lemma finite_all_children [simp]: "finite (all_children m)"
  by (auto simp: all_children_def)

text \<open>
  The inner loop appends the children that are not in \<open>scope\<close> yet, to \<open>scope\<close> and to
  the queue alike. The outer loop reads the queue by a growing index; \<open>pending\<close> is the
  queue from that index on.
\<close>

definition visit_child :: "string list \<times> string list \<Rightarrow> string \<Rightarrow> string list \<times> string list" where
  "visit_child = (\<lambda>(scope, pending) c. if c \<in> set scope then (scope, pending) else (scope @ [c], pending @ [c]))"

lemma visit_children_scope:
  "fst (foldl visit_child (scope, pending) cs) = foldl push_new scope cs"
  by (induction cs arbitrary: scope pending) (auto simp: visit_child_def push_new_def)

lemma visit_children_pending:
  "\<exists>new. foldl visit_child (scope, pending) cs = (scope @ new, pending @ new) \<and> set new \<subseteq> set cs
     \<and> set new \<inter> set scope = {} \<and> set (scope @ new) = set scope \<union> set cs
     \<and> (distinct scope \<longrightarrow> distinct (scope @ new))"
proof (induction cs arbitrary: scope pending)
  case Nil
  then show ?case by (intro exI[of _ "[]"]) auto
next
  case (Cons c cs)
  show ?case
  proof (cases "c \<in> set scope")
    case True
    with Cons.IH[of scope pending] show ?thesis by (auto simp: visit_child_def)
  next
    case False
    obtain new where new: "foldl visit_child (scope @ [c], pending @ [c]) cs = (scope @ [c] @ new, pending @ [c] @ new)"
      "set new \<subseteq> set cs" "set new \<inter> set (scope @ [c]) = {}"
      "set (scope @ [c] @ new) = set (scope @ [c]) \<union> set cs"
      "distinct (scope @ [c]) \<longrightarrow> distinct (scope @ [c] @ new)"
      using Cons.IH[of "scope @ [c]" "pending @ [c]"] by auto
    from False have "foldl visit_child (scope, pending) (c # cs) = (scope @ (c # new), pending @ (c # new))"
      using new(1) by (simp add: visit_child_def)
    moreover have "set (scope @ (c # new)) = set scope \<union> set (c # cs)" using new(4) by auto
    moreover have "distinct scope \<longrightarrow> distinct (scope @ (c # new))" using new(5) False by auto
    moreover have "set (c # new) \<subseteq> set (c # cs)" "set (c # new) \<inter> set scope = {}"
      using new(2,3) False by auto
    ultimately show ?thesis by (intro exI[of _ "c # new"]) blast
  qed
qed

function descendants_loop :: "(string \<times> string list) list \<Rightarrow> string list \<Rightarrow> string list \<Rightarrow> string list" where
  "descendants_loop m [] scope = scope"
| "descendants_loop m (current # pending) scope =
     descendants_loop m (snd (foldl visit_child (scope, pending) (children_of m current)))
       (fst (foldl visit_child (scope, pending) (children_of m current)))"
  by pat_completeness auto
termination
proof (relation "measures [\<lambda>(m, pending, scope). card (all_children m - set scope), \<lambda>(m, pending, scope). length pending]",
    goal_cases)
  case 1
  then show ?case by simp
next
  case (2 m current pending scope)
  obtain new where new: "foldl visit_child (scope, pending) (children_of m current) = (scope @ new, pending @ new)"
    "set new \<subseteq> set (children_of m current)" "set new \<inter> set scope = {}"
    using visit_children_pending by blast
  show ?case
  proof (cases "new = []")
    case True
    with new(1) show ?thesis by simp
  next
    case False
    then obtain n where "n \<in> set new" by (cases new) auto
    with new(2,3) children_of_all[of m current] have "n \<in> all_children m - set scope"
      by auto
    with \<open>n \<in> set new\<close> have "card (all_children m - set (scope @ new)) < card (all_children m - set scope)"
      by (intro psubset_card_mono) auto
    with new(1) show ?thesis by simp
  qed
qed

fun list_of_source :: "session_source \<Rightarrow> jsval list" where
  "list_of_source (ArrSource sessions) = sessions"
| "list_of_source _ = []"

definition descendantSessionIDs :: "jsval \<Rightarrow> session_source \<Rightarrow> string list" where
  "descendantSessionIDs viewerSessionID sessions =
     (let viewer = normalizeSessionID viewerSessionID
      in if viewer = [] then []
         else descendants_loop (foldl add_child [] (list_of_source sessions)) [viewer] [viewer])"

definition visibleOwnerIDs :: "jsval \<Rightarrow> session_source \<Rightarrow> string list option" where
  "visibleOwnerIDs viewerSessionID sessions =
     (let viewer = normalizeSessionID viewerSessionID
      in if viewer = [] then Some []
         else if SESSION_SCOPE_POLICY_ancestorsVisible then ancestryChain (JStr viewer) sessions
         else Some (descendantSessionIDs (JStr viewer) (ArrSource (list_of_source sessions))))"

section \<open>Actor scope\<close>

definition push_id :: "string list \<Rightarrow> jsval \<Rightarrow> string list" where
  "push_id output value = (let k = normalizeSessionID value
     in if k = [] \<or> k \<in> set output then output else output @ [k])"

definition uniqueStrings :: "jsval \<Rightarrow> string list" where
  "uniqueStrings values = foldl push_id [] (arr_of values)"

fun call_source :: "session_source \<Rightarrow> string \<Rightarrow> jsval" where
  "call_source (FunSource f) k = f k"
| "call_source _ k = Null"

definition scope_ids :: "string \<Rightarrow> jsval \<Rightarrow> session_source \<Rightarrow> string list option" where
  "scope_ids field sessionID getSession =
     map_option (\<lambda>chain. uniqueStrings (JArr (concat (map (\<lambda>k. arr_of (pget (call_source getSession k) field)) chain))))
       (ancestryChain sessionID getSession)"

definition effectiveSessionAgentIDs :: "jsval \<Rightarrow> session_source \<Rightarrow> string list option" where
  "effectiveSessionAgentIDs sessionID getSession = scope_ids ''participantAgentIDs'' sessionID getSession"

definition effectiveSessionTeamIDs :: "jsval \<Rightarrow> session_source \<Rightarrow> string list option" where
  "effectiveSessionTeamIDs sessionID getSession = scope_ids ''teamIDs'' sessionID getSession"

section \<open>The walks up return, and what they return\<close>

definition session_up :: "(string \<Rightarrow> jsval) \<Rightarrow> string \<Rightarrow> string option" where
  "session_up lookup k = (let p = sessionParentID (lookup k) in if p = [] then None else Some p)"

lemma sessionParentID_nullish [simp]: "nullish v \<Longrightarrow> sessionParentID v = []"
  by (simp add: sessionParentID_def)

lemma sessionParentID_trimmed [simp]: "js_trim (sessionParentID v) = sessionParentID v"
  by (simp add: sessionParentID_def normalizeSessionID_def Let_def)

lemma session_up_trimmed: "session_up lookup k = Some p \<Longrightarrow> js_trim p = p \<and> p \<noteq> []"
  by (auto simp: session_up_def Let_def split: if_splits)

lemma normalizeSessionID_str [simp]: "normalizeSessionID (JStr s) = js_trim s"
  by (simp add: normalizeSessionID_def)

lemma normalizeSessionID_trimmed [simp]: "js_trim (normalizeSessionID v) = normalizeSessionID v"
  by (simp add: normalizeSessionID_def)

lemma chain_loop_step:
  "chain_loop lookup owners current =
     (case session_up lookup current of None \<Rightarrow> Some owners
      | Some p \<Rightarrow> if p \<in> set owners then Some owners else chain_loop lookup (owners @ [p]) p)"
  by (subst chain_loop.simps) (auto simp: session_up_def Let_def)

lemma ancestor_loop_step:
  "ancestor_loop lookup a visited current =
     (case session_up lookup current of None \<Rightarrow> Some False
      | Some p \<Rightarrow> if p = a then Some True else if p \<in> set visited then Some False
                 else ancestor_loop lookup a (visited @ [p]) p)"
  by (subst ancestor_loop.simps) (auto simp: session_up_def Let_def)

lemma chain_loop_total:
  assumes "finite (dom (session_up lookup))" "owners \<noteq> []" "last owners = current"
    and "linked (session_up lookup) owners" "distinct owners"
  shows "\<exists>ks. chain_loop lookup owners current = Some (owners @ ks) \<and> linked (session_up lookup) (owners @ ks)
     \<and> distinct (owners @ ks) \<and> closed_end (session_up lookup) (owners @ ks)
     \<and> (\<forall>a. a \<notin> set owners \<longrightarrow> ancestor_loop lookup a owners current = Some (a \<in> set ks))"
  using assms(2-)
proof (induction "card (dom (session_up lookup) - set (butlast owners))" arbitrary: owners current rule: less_induct)
  case less
  let ?up = "session_up lookup"
  show ?case
  proof (cases "?up current")
    case None
    with less.prems show ?thesis
      by (intro exI[of _ "[]"]) (simp add: chain_loop_step[of _ owners] ancestor_loop_step[of _ _ owners] closed_end_def)
  next
    case (Some p)
    show ?thesis
    proof (cases "p \<in> set owners")
      case True
      with less.prems Some show ?thesis
        by (intro exI[of _ "[]"]) (auto simp: chain_loop_step[of _ owners] ancestor_loop_step[of _ _ owners] closed_end_def)
    next
      case False
      have own: "owners = butlast owners @ [current]" using less.prems(1,2) by (metis append_butlast_last_id)
      then have notin: "current \<notin> set (butlast owners)" 
        using less.prems(1,2,4) by (metis append_butlast_last_id distinct_append distinct.simps(2) disjoint_iff list.set_intros(1))
      have "card (dom ?up - set (butlast (owners @ [p]))) < card (dom ?up - set (butlast owners))"
        using unvisited_decreases[OF assms(1), of current "butlast owners"] Some notin own by auto
      moreover have "linked ?up (owners @ [p])" using linked_snoc_last[of owners ?up p] less.prems Some by simp
      moreover have "distinct (owners @ [p])" using less.prems(4) False by simp
      ultimately obtain ks where ks: "chain_loop lookup (owners @ [p]) p = Some ((owners @ [p]) @ ks)"
        "linked ?up ((owners @ [p]) @ ks)" "distinct ((owners @ [p]) @ ks)" "closed_end ?up ((owners @ [p]) @ ks)"
        "\<forall>a. a \<notin> set (owners @ [p]) \<longrightarrow> ancestor_loop lookup a (owners @ [p]) p = Some (a \<in> set ks)"
        using less.hyps[of "owners @ [p]" p] by auto
      show ?thesis
        using ks Some False
        by (intro exI[of _ "p # ks"]) (auto simp: chain_loop_step[of _ owners] ancestor_loop_step[of _ _ owners])
    qed
  qed
qed

lemma chain_loop_spec:
  assumes "finite (dom (session_up lookup))"
  obtains ks where "chain_loop lookup [v] v = Some (v # ks)" "linked (session_up lookup) (v # ks)"
    "distinct (v # ks)" "closed_end (session_up lookup) (v # ks)"
    "\<And>a. a \<noteq> v \<Longrightarrow> ancestor_loop lookup a [v] v = Some (a \<in> set ks)"
  using chain_loop_total[OF assms, of "[v]" v] by auto

text \<open>
  The ancestry chain provides the walk interface, for every lookup with finitely many
  parent links.
\<close>

interpretation ancestry: upward_chain "session_up lookup" "\<lambda>v. chain_loop lookup [v] v"
  "\<lambda>v. finite (dom (session_up lookup))" for lookup
proof unfold_locales
  fix v ks
  assume fin: "finite (dom (session_up lookup))" and ret: "chain_loop lookup [v] v = Some ks"
  obtain ks' where "chain_loop lookup [v] v = Some (v # ks')" "linked (session_up lookup) (v # ks')"
    "distinct (v # ks')" "closed_end (session_up lookup) (v # ks')"
    using chain_loop_spec[OF fin, of v] by metis
  with ret show "ks \<noteq> [] \<and> hd ks = v" "linked (session_up lookup) ks" "distinct ks" "closed_end (session_up lookup) ks"
    by auto
qed

abbreviation finite_links :: "session_source \<Rightarrow> bool" where
  "finite_links src \<equiv> finite (dom (session_up (toSessionLookup src)))"

abbreviation parent_path :: "session_source \<Rightarrow> string \<Rightarrow> string \<Rightarrow> bool" where
  "parent_path src \<equiv> (links_to (session_up (toSessionLookup src)))\<^sup>*\<^sup>*"

lemma session_up_oget_dom: "dom (session_up (oget m)) \<subseteq> fst ` set m"
proof
  fix k assume "k \<in> dom (session_up (oget m))"
  then have "oget m k \<noteq> Undefined" by (auto simp: session_up_def Let_def split: if_splits)
  then show "k \<in> fst ` set m" by (metis has_own_keys oget_not_own)
qed

lemma finite_links_data [simp]:
  "finite_links (ArrSource sessions)" "finite_links (MapSource m)" "finite_links OtherSource"
proof -
  show "finite_links (ArrSource sessions)"
    by (rule finite_subset[of _ "fst ` set (foldl index_session [] sessions)"])
      (use session_up_oget_dom[of "foldl index_session [] sessions"] in \<open>simp_all add: toSessionLookup_fun(2)\<close>)
  show "finite_links (MapSource m)"
    by (rule finite_subset[of _ "fst ` set m"])
      (use session_up_oget_dom[of m] in simp_all)
  show "finite_links OtherSource"
    by (simp add: session_up_def sessionParentID_def dom_def)
qed

lemma ancestryChain_spec:
  assumes "finite_links src"
  shows "\<exists>ks. ancestryChain v src = Some ks \<and> distinct ks
     \<and> set ks = {k. normalizeSessionID v \<noteq> [] \<and> parent_path src (normalizeSessionID v) k}"
proof (cases "normalizeSessionID v = []")
  case True
  then show ?thesis by (simp add: ancestryChain_def)
next
  case False
  obtain ks where ks: "chain_loop (toSessionLookup src) [normalizeSessionID v] (normalizeSessionID v) = Some ks"
    using chain_loop_spec[OF assms, of "normalizeSessionID v"] by metis
  with ancestry.chain_set[OF assms ks] ancestry.chain_distinct[OF assms ks] False
  show ?thesis by (simp add: ancestryChain_def)
qed

lemma isAncestorOrSelf_chain:
  assumes "finite_links src"
  shows "\<exists>ks. ancestryChain d src = Some ks
     \<and> isAncestorOrSelf a d src = Some (normalizeSessionID a \<noteq> [] \<and> normalizeSessionID a \<in> set ks)"
proof (cases "normalizeSessionID d = []")
  case True
  then show ?thesis by (simp add: ancestryChain_def isAncestorOrSelf_def)
next
  case False
  obtain ks where "chain_loop (toSessionLookup src) [normalizeSessionID d] (normalizeSessionID d) = Some (normalizeSessionID d # ks)"
    "\<And>a. a \<noteq> normalizeSessionID d \<Longrightarrow>
       ancestor_loop (toSessionLookup src) a [normalizeSessionID d] (normalizeSessionID d) = Some (a \<in> set ks)"
    using chain_loop_spec[OF assms, of "normalizeSessionID d"] by metis
  with False show ?thesis
    by (intro exI[of _ "normalizeSessionID d # ks"]) (auto simp: ancestryChain_def isAncestorOrSelf_def Let_def)
qed

section \<open>The walk down finds exactly the descendants\<close>

definition child_links :: "(string \<Rightarrow> string list) \<Rightarrow> string \<Rightarrow> string \<Rightarrow> bool" where
  "child_links children x y = (y \<in> set (children x))"

lemma descendants_loop_spec:
  assumes "set pending \<subseteq> set scope" "\<forall>x \<in> set scope - set pending. set (children_of m x) \<subseteq> set scope"
  shows "set scope \<subseteq> set (descendants_loop m pending scope)
    \<and> (\<forall>x \<in> set (descendants_loop m pending scope). set (children_of m x) \<subseteq> set (descendants_loop m pending scope))
    \<and> (\<forall>y \<in> set (descendants_loop m pending scope). \<exists>x \<in> set scope. (child_links (children_of m))\<^sup>*\<^sup>* x y)"
  using assms
proof (induction m pending scope rule: descendants_loop.induct)
  case (1 m scope)
  then show ?case by auto
next
  case (2 m current pending scope)
  obtain new where new: "foldl visit_child (scope, pending) (children_of m current) = (scope @ new, pending @ new)"
    "set new \<subseteq> set (children_of m current)" "set (scope @ new) = set scope \<union> set (children_of m current)"
    using visit_children_pending by blast
  have "set (pending @ new) \<subseteq> set (scope @ new)" using "2.prems"(1) by auto
  moreover have "\<forall>x \<in> set (scope @ new) - set (pending @ new). set (children_of m x) \<subseteq> set (scope @ new)"
  proof
    fix x assume x: "x \<in> set (scope @ new) - set (pending @ new)"
    show "set (children_of m x) \<subseteq> set (scope @ new)"
    proof (cases "x = current")
      case True
      with new(3) show ?thesis by blast
    next
      case False
      with x have "x \<in> set scope - set (current # pending)" by auto
      with "2.prems"(2) show ?thesis by auto
    qed
  qed
  ultimately have IH: "set (scope @ new) \<subseteq> set (descendants_loop m (pending @ new) (scope @ new))"
    "\<forall>x \<in> set (descendants_loop m (pending @ new) (scope @ new)).
       set (children_of m x) \<subseteq> set (descendants_loop m (pending @ new) (scope @ new))"
    "\<forall>y \<in> set (descendants_loop m (pending @ new) (scope @ new)).
       \<exists>x \<in> set (scope @ new). (child_links (children_of m))\<^sup>*\<^sup>* x y"
    using "2.IH" new(1) by auto
  have eq: "descendants_loop m (current # pending) scope = descendants_loop m (pending @ new) (scope @ new)"
    using new(1) by simp
  have "\<exists>x \<in> set scope. (child_links (children_of m))\<^sup>*\<^sup>* x y"
    if y: "y \<in> set (descendants_loop m (pending @ new) (scope @ new))" for y
  proof -
    from IH(3) y obtain x where x: "x \<in> set (scope @ new)" "(child_links (children_of m))\<^sup>*\<^sup>* x y" by blast
    show ?thesis
    proof (cases "x \<in> set scope")
      case False
      with x(1) new(2) have "child_links (children_of m) current x" by (auto simp: child_links_def)
      then have "(child_links (children_of m))\<^sup>*\<^sup>* current y" using x(2) by (rule converse_rtranclp_into_rtranclp)
      moreover have "current \<in> set scope" using "2.prems"(1) by simp
      ultimately show ?thesis by blast
    qed (use x in blast)
  qed
  with IH eq show ?case by auto
qed

lemma descendants_loop_distinct: "distinct scope \<Longrightarrow> distinct (descendants_loop m pending scope)"
proof (induction m pending scope rule: descendants_loop.induct)
  case (2 m current pending scope)
  obtain new where new: "foldl visit_child (scope, pending) (children_of m current) = (scope @ new, pending @ new)"
    "distinct scope \<longrightarrow> distinct (scope @ new)"
    using visit_children_pending by blast
  with 2 show ?case by simp
qed simp

lemma descendants_loop_reach:
  "set (descendants_loop m [v] [v]) = {d. (child_links (children_of m))\<^sup>*\<^sup>* v d}"
proof
  have spec: "set [v] \<subseteq> set (descendants_loop m [v] [v])"
    "\<forall>x \<in> set (descendants_loop m [v] [v]). set (children_of m x) \<subseteq> set (descendants_loop m [v] [v])"
    "\<forall>y \<in> set (descendants_loop m [v] [v]). \<exists>x \<in> set [v]. (child_links (children_of m))\<^sup>*\<^sup>* x y"
    using descendants_loop_spec[of "[v]" "[v]" m] by auto
  show "set (descendants_loop m [v] [v]) \<subseteq> {d. (child_links (children_of m))\<^sup>*\<^sup>* v d}"
    using spec(3) by auto
  show "{d. (child_links (children_of m))\<^sup>*\<^sup>* v d} \<subseteq> set (descendants_loop m [v] [v])"
  proof
    fix d assume "d \<in> {d. (child_links (children_of m))\<^sup>*\<^sup>* v d}"
    then have "(child_links (children_of m))\<^sup>*\<^sup>* v d" by simp
    then show "d \<in> set (descendants_loop m [v] [v])"
    proof (induction rule: rtranclp_induct)
      case base
      show ?case using spec(1) by simp
    next
      case (step y z)
      then show ?case using spec(2) by (auto simp: child_links_def)
    qed
  qed
qed

abbreviation session_key :: "jsval \<Rightarrow> string" where
  "session_key session \<equiv> normalizeSessionID (pget session ''id'')"

lemma children_of_add_child:
  "children_of (add_child m s) p =
     children_of m p @ (if session_key s \<noteq> [] \<and> sessionParentID s = p \<and> p \<noteq> [] then [session_key s] else [])"
  by (auto simp: add_child_def children_of_def Let_def alist_simps split: option.splits)

lemma children_of_index:
  "children_of (foldl add_child m sessions) p =
     children_of m p @ map session_key (filter (\<lambda>s. session_key s \<noteq> [] \<and> sessionParentID s = p \<and> p \<noteq> []) sessions)"
  by (induction sessions arbitrary: m) (auto simp: children_of_add_child)

text \<open>The records that carry an id, and the case in which no id is carried twice.\<close>

definition unique_ids :: "jsval list \<Rightarrow> bool" where
  "unique_ids sessions = distinct (filter (\<lambda>k. k \<noteq> []) (map session_key sessions))"

lemma index_lookup:
  "map_of (foldl index_session m sessions) k =
     (case map_of m k of Some s \<Rightarrow> Some s
      | None \<Rightarrow> if k = [] then None else find (\<lambda>s. session_key s = k) sessions)"
proof (induction sessions arbitrary: m)
  case (Cons s sessions)
  then show ?case
    by (cases "session_key s = []"; cases "map_of m (session_key s)")
      (auto simp: index_session_def Let_def alist_simps split: option.splits)
qed (auto split: option.splits)

lemma lookup_arr:
  "toSessionLookup (ArrSource sessions) k =
     (if k = [] then Undefined else case find (\<lambda>s. session_key s = k) sessions of None \<Rightarrow> Undefined | Some s \<Rightarrow> s)"
  by (auto simp: toSessionLookup_fun(2) oget_def index_lookup split: option.splits)

lemma find_unique:
  assumes "unique_ids sessions" "s \<in> set sessions" "session_key s \<noteq> []"
  shows "find (\<lambda>t. session_key t = session_key s) sessions = Some s"
  using assms
proof (induction sessions)
  case (Cons t ts)
  show ?case
  proof (cases "t = s")
    case False
    with Cons.prems have mem: "s \<in> set ts" by simp
    have "session_key t \<noteq> session_key s"
    proof
      assume eq: "session_key t = session_key s"
      from mem Cons.prems(3) have "session_key s \<in> set (filter (\<lambda>k. k \<noteq> []) (map session_key ts))" by auto
      with Cons.prems(1,3) eq show False by (simp add: unique_ids_def)
    qed
    moreover have "unique_ids ts" using Cons.prems(1) by (auto simp: unique_ids_def split: if_splits)
    ultimately show ?thesis using Cons mem by simp
  qed simp
qed simp

lemma child_link_iff_up:
  assumes "unique_ids sessions"
  shows "child_links (children_of (foldl add_child [] sessions)) p y
     \<longleftrightarrow> links_to (session_up (toSessionLookup (ArrSource sessions))) y p \<and> y \<noteq> []"
proof
  assume "child_links (children_of (foldl add_child [] sessions)) p y"
  then have "y \<in> set (children_of (foldl add_child [] sessions) p)" by (simp add: child_links_def)
  then have "\<exists>s \<in> set sessions. y = session_key s \<and> session_key s \<noteq> [] \<and> sessionParentID s = p \<and> p \<noteq> []"
    by (auto simp: children_of_index)
  then obtain s where s: "s \<in> set sessions" "session_key s = y" "y \<noteq> []" "sessionParentID s = p" "p \<noteq> []"
    by auto
  from find_unique[OF assms s(1)] s have "find (\<lambda>t. session_key t = y) sessions = Some s" by simp
  with s show "links_to (session_up (toSessionLookup (ArrSource sessions))) y p \<and> y \<noteq> []"
    by (simp add: links_to_def session_up_def lookup_arr)
next
  assume a: "links_to (session_up (toSessionLookup (ArrSource sessions))) y p \<and> y \<noteq> []"
  then have par: "sessionParentID (toSessionLookup (ArrSource sessions) y) = p" "p \<noteq> []"
    by (auto simp: links_to_def session_up_def Let_def split: if_splits)
  then obtain s where s: "find (\<lambda>t. session_key t = y) sessions = Some s" "sessionParentID s = p"
    using a by (auto simp: lookup_arr split: option.splits)
  then have "s \<in> set sessions" "session_key s = y" by (auto simp: find_Some_iff)
  with a par s(2) show "child_links (children_of (foldl add_child [] sessions)) p y"
    by (auto simp: child_links_def children_of_index)
qed

lemma child_path_iff_up:
  assumes "unique_ids sessions" "v \<noteq> []"
  shows "(child_links (children_of (foldl add_child [] sessions)))\<^sup>*\<^sup>* v d
     \<longleftrightarrow> d \<noteq> [] \<and> parent_path (ArrSource sessions) d v"
proof
  assume "(child_links (children_of (foldl add_child [] sessions)))\<^sup>*\<^sup>* v d"
  then show "d \<noteq> [] \<and> parent_path (ArrSource sessions) d v"
  proof (induction rule: rtranclp_induct)
    case (step y z)
    then show ?case
      using child_link_iff_up[OF assms(1), of y z] by (auto intro: converse_rtranclp_into_rtranclp)
  qed (use assms in simp)
next
  assume a: "d \<noteq> [] \<and> parent_path (ArrSource sessions) d v"
  then have "parent_path (ArrSource sessions) d v" by simp
  then have "d \<noteq> [] \<longrightarrow> (child_links (children_of (foldl add_child [] sessions)))\<^sup>*\<^sup>* v d"
  proof (induction rule: converse_rtranclp_induct)
    case (step y z)
    show ?case
    proof
      assume "y \<noteq> []"
      with step child_link_iff_up[OF assms(1), of z y] have cl: "child_links (children_of (foldl add_child [] sessions)) z y" by auto
      have "z \<noteq> []" using step(1) session_up_trimmed by (auto simp: links_to_def)
      with step cl show "(child_links (children_of (foldl add_child [] sessions)))\<^sup>*\<^sup>* v y" by auto
    qed
  qed simp
  with a show "(child_links (children_of (foldl add_child [] sessions)))\<^sup>*\<^sup>* v d" by simp
qed

lemma descendantSessionIDs_set:
  assumes "unique_ids sessions"
  shows "set (descendantSessionIDs v (ArrSource sessions)) =
     {d. normalizeSessionID v \<noteq> [] \<and> d \<noteq> [] \<and> parent_path (ArrSource sessions) d (normalizeSessionID v)}"
  using child_path_iff_up[OF assms, of "normalizeSessionID v"]
  by (auto simp: descendantSessionIDs_def Let_def descendants_loop_reach simp del: descendants_loop.simps)

section \<open>Properties\<close>

lemma uniqueStrings_set: "set (uniqueStrings (JArr vs)) = normalizeSessionID ` set vs - {[]}"
proof -
  have "set (foldl push_id out vs) = set out \<union> (normalizeSessionID ` set vs - {[]})" for out
    by (induction vs arbitrary: out) (auto simp: push_id_def Let_def)
  then show ?thesis by (simp add: uniqueStrings_def)
qed

lemma distinct_uniqueStrings: "distinct (uniqueStrings values)"
proof -
  have "distinct out \<Longrightarrow> distinct (foldl push_id out vs)" for out vs
    by (induction vs arbitrary: out) (auto simp: push_id_def Let_def)
  then show ?thesis by (simp add: uniqueStrings_def)
qed

definition example_tree :: "jsval list" where
  "example_tree =
     [JObj [(''id'', JStr ''root'')],
      JObj [(''id'', JStr ''kid''), (''parentSessionID'', JStr ''root'')],
      JObj [(''id'', JStr ''leaf''), (''parentSessionID'', JStr '' ''), (''parentSessionId'', JStr ''kid'')]]"

text \<open>
  C3: An item owned by a session is visible to a viewer exactly when the owner lies on the
  viewer's parent path (itself included) and both ids are non-blank; the check returns for
  every tree with finitely many parent links, cyclic ones included, and the owner list
  \<open>visibleOwnerIDs\<close> contains exactly the owners the check accepts, each once.
\<close>

theorem visible_iff_on_parent_path:
  assumes "finite_links src"
  shows "isVisibleTo viewer owner src =
      Some (normalizeSessionID owner \<noteq> [] \<and> normalizeSessionID viewer \<noteq> []
            \<and> parent_path src (normalizeSessionID viewer) (normalizeSessionID owner))
    \<and> (\<exists>ks. visibleOwnerIDs viewer src = Some ks \<and> distinct ks
         \<and> (isVisibleTo viewer owner src = Some (normalizeSessionID owner \<noteq> [] \<and> normalizeSessionID owner \<in> set ks)))"
proof -
  obtain ks where ks: "ancestryChain viewer src = Some ks" "distinct ks"
    "set ks = {k. normalizeSessionID viewer \<noteq> [] \<and> parent_path src (normalizeSessionID viewer) k}"
    using ancestryChain_spec[OF assms] by blast
  have vis: "isVisibleTo viewer owner src = Some (normalizeSessionID owner \<noteq> [] \<and> normalizeSessionID owner \<in> set ks)"
    using isAncestorOrSelf_chain[OF assms, of viewer owner] ks(1) by (simp add: isVisibleTo_def)
  have "visibleOwnerIDs viewer src = Some ks"
    using ks(1) by (auto simp: visibleOwnerIDs_def Let_def ancestryChain_def SESSION_SCOPE_POLICY_ancestorsVisible_def)
  with vis ks(2,3) show ?thesis by auto
qed

theorem visible_iff_on_parent_path_witness:
  "finite_links (ArrSource example_tree) \<and>
   isVisibleTo (JStr ''leaf'') (JStr ''root'') (ArrSource example_tree) =
      Some (normalizeSessionID (JStr ''root'') \<noteq> [] \<and> normalizeSessionID (JStr ''leaf'') \<noteq> []
            \<and> parent_path (ArrSource example_tree) (normalizeSessionID (JStr ''leaf'')) (normalizeSessionID (JStr ''root'')))"
  using visible_iff_on_parent_path[OF finite_links_data(1), of "JStr ''leaf''" "JStr ''root''" example_tree] by simp

text \<open>
  C4: The walk down is the exact converse of the walk up: when no session id occurs twice, a
  session is among the descendants of \<open>v\<close> precisely when \<open>v\<close>'s items are visible to it.
\<close>

theorem descendants_dual_to_visibility:
  assumes "unique_ids sessions"
  shows "normalizeSessionID d \<in> set (descendantSessionIDs v (ArrSource sessions))
     \<longleftrightarrow> isVisibleTo d v (ArrSource sessions) = Some True"
proof -
  obtain ks where "ancestryChain d (ArrSource sessions) = Some ks"
    "set ks = {k. normalizeSessionID d \<noteq> [] \<and> parent_path (ArrSource sessions) (normalizeSessionID d) k}"
    using ancestryChain_spec[OF finite_links_data(1)] by blast
  with isAncestorOrSelf_chain[OF finite_links_data(1), of d sessions v]
  show ?thesis by (auto simp: descendantSessionIDs_set[OF assms] isVisibleTo_def)
qed

theorem descendants_dual_to_visibility_witness:
  "unique_ids example_tree \<and>
   (normalizeSessionID (JStr ''leaf'') \<in> set (descendantSessionIDs (JStr ''root'') (ArrSource example_tree))
     \<longleftrightarrow> isVisibleTo (JStr ''leaf'') (JStr ''root'') (ArrSource example_tree) = Some True)"
proof -
  have u: "unique_ids example_tree"
    by (simp add: unique_ids_def example_tree_def js_trim_def js_space_def)
  show ?thesis using u descendants_dual_to_visibility[OF u] by blast
qed

text \<open>
  A parent never sees what its descendants own: in a tree whose parent links decrease some
  rank (such as the stored generation), visibility between two different sessions holds in at
  most one direction.
\<close>

theorem visibility_one_way:
  fixes rank :: "string \<Rightarrow> nat"
  assumes "finite_links src"
    and rank: "\<And>x y. session_up (toSessionLookup src) x = Some y \<Longrightarrow> rank y < rank x"
    and "isVisibleTo viewer owner src = Some True"
    and "normalizeSessionID viewer \<noteq> normalizeSessionID owner"
  shows "isVisibleTo owner viewer src = Some False"
proof -
  have le: "parent_path src x y \<Longrightarrow> x = y \<or> rank y < rank x" for x y
    by (induction rule: rtranclp_induct) (auto simp: links_to_def dest: rank)
  obtain ks where ks: "ancestryChain viewer src = Some ks"
    "set ks = {k. normalizeSessionID viewer \<noteq> [] \<and> parent_path src (normalizeSessionID viewer) k}"
    using ancestryChain_spec[OF assms(1)] by blast
  obtain ls where ls: "ancestryChain owner src = Some ls"
    "set ls = {k. normalizeSessionID owner \<noteq> [] \<and> parent_path src (normalizeSessionID owner) k}"
    using ancestryChain_spec[OF assms(1)] by blast
  have "parent_path src (normalizeSessionID viewer) (normalizeSessionID owner)"
    using assms(3) ks isAncestorOrSelf_chain[OF assms(1), of viewer owner] by (simp add: isVisibleTo_def)
  then have "rank (normalizeSessionID owner) < rank (normalizeSessionID viewer)" using le assms(4) by blast
  then have "\<not> parent_path src (normalizeSessionID owner) (normalizeSessionID viewer)"
    using le assms(4) by fastforce
  with ls isAncestorOrSelf_chain[OF assms(1), of owner viewer] show ?thesis by (simp add: isVisibleTo_def)
qed

lemma example_tree_lookup:
  "toSessionLookup (ArrSource example_tree) =
     oget [(''root'', JObj [(''id'', JStr ''root'')]),
           (''kid'', JObj [(''id'', JStr ''kid''), (''parentSessionID'', JStr ''root'')]),
           (''leaf'', JObj [(''id'', JStr ''leaf''), (''parentSessionID'', JStr '' ''), (''parentSessionId'', JStr ''kid'')])]"
  by (simp add: toSessionLookup_fun(2) example_tree_def index_session_def Let_def js_trim_def js_space_def)

lemma example_tree_up:
  "session_up (toSessionLookup (ArrSource example_tree)) x =
     (if x = ''kid'' then Some ''root'' else if x = ''leaf'' then Some ''kid'' else None)"
  unfolding session_up_def example_tree_lookup
  by (auto simp: sessionParentID_def normalizeSessionID_def js_trim_def js_space_def)

theorem visibility_one_way_witness:
  "isVisibleTo (JStr ''leaf'') (JStr ''root'') (ArrSource example_tree) = Some True
   \<and> isVisibleTo (JStr ''root'') (JStr ''leaf'') (ArrSource example_tree) = Some False"
proof -
  have vis: "isVisibleTo (JStr ''leaf'') (JStr ''root'') (ArrSource example_tree) = Some True"
    by (simp add: isVisibleTo_def isAncestorOrSelf_def ancestor_loop_step example_tree_up js_trim_def js_space_def)
  have "isVisibleTo (JStr ''root'') (JStr ''leaf'') (ArrSource example_tree) = Some False"
    by (rule visibility_one_way[where rank = "\<lambda>x. if x = ''leaf'' then 2 else if x = ''kid'' then 1 else 0", OF _ _ vis])
      (auto simp: example_tree_up js_trim_def js_space_def split: if_splits)
  with vis show ?thesis by simp
qed

text \<open>
  Actor assignments are inherited downwards only: when \<open>owner\<close>'s items are visible to
  \<open>viewer\<close>, every agent in the effective scope of \<open>owner\<close> is in the effective scope of
  \<open>viewer\<close>, and each scope lists an agent once.
\<close>

theorem agents_inherited_by_descendants:
  assumes "finite_links (FunSource f)"
    and "isVisibleTo viewer owner (FunSource f) = Some True"
  shows "\<exists>as bs. effectiveSessionAgentIDs owner (FunSource f) = Some as
     \<and> effectiveSessionAgentIDs viewer (FunSource f) = Some bs
     \<and> set as \<subseteq> set bs \<and> distinct as \<and> distinct bs"
proof -
  let ?src = "FunSource f"
  obtain ks where ks: "ancestryChain viewer ?src = Some ks"
    "set ks = {k. normalizeSessionID viewer \<noteq> [] \<and> parent_path ?src (normalizeSessionID viewer) k}"
    using ancestryChain_spec[OF assms(1)] by blast
  obtain ls where ls: "ancestryChain owner ?src = Some ls"
    "set ls = {k. normalizeSessionID owner \<noteq> [] \<and> parent_path ?src (normalizeSessionID owner) k}"
    using ancestryChain_spec[OF assms(1)] by blast
  have "normalizeSessionID owner \<in> set ks"
    using assms(2) ks isAncestorOrSelf_chain[OF assms(1), of viewer owner] by (simp add: isVisibleTo_def)
  with ks(2) ls(2) have "set ls \<subseteq> set ks" by (auto intro: rtranclp_trans)
  then show ?thesis
    using ks(1) ls(1) by (auto simp: effectiveSessionAgentIDs_def scope_ids_def uniqueStrings_set distinct_uniqueStrings)
qed

theorem agents_inherited_by_descendants_witness:
  "\<exists>as bs. effectiveSessionAgentIDs (JStr ''root'') (FunSource (toSessionLookup (ArrSource example_tree))) = Some as
     \<and> effectiveSessionAgentIDs (JStr ''leaf'') (FunSource (toSessionLookup (ArrSource example_tree))) = Some bs
     \<and> set as \<subseteq> set bs \<and> distinct as \<and> distinct bs"
proof (rule agents_inherited_by_descendants)
  have eq: "toSessionLookup (FunSource f) = f" for f by (rule ext) simp
  show "finite_links (FunSource (toSessionLookup (ArrSource example_tree)))"
    unfolding eq by (rule finite_links_data(1))
  show "isVisibleTo (JStr ''leaf'') (JStr ''root'') (FunSource (toSessionLookup (ArrSource example_tree))) = Some True"
    by (simp add: isVisibleTo_def isAncestorOrSelf_def ancestor_loop_step eq example_tree_up js_trim_def js_space_def)
qed

end
