(* ===== verification/CoordinatorScope.thy ===== *)
theory CoordinatorScope
  imports SessionAncestry
begin

text \<open>
  Coordinator resolution across the session tree and the authority predicate derived from it
  (\<open>src/core/agents/coordinator-scope.mjs\<close>), and the bounded walk down to a subtree
  (\<open>src/core/agents/session-subtree.mjs\<close>). Sessions come from a lookup; the injected
  \<open>persistCoordinator\<close> is an argument that answers a value or throws.
\<close>

section \<open>Normalizers\<close>

definition normalizeID :: "jsval \<Rightarrow> string" where
  "normalizeID v = trim_or_empty v"

definition push_normalized :: "string list \<Rightarrow> jsval \<Rightarrow> string list" where
  "push_normalized list value = (let k = normalizeID value
     in if k \<noteq> [] \<and> k \<notin> set list then list @ [k] else list)"

definition normalizeIDList :: "jsval \<Rightarrow> string list" where
  "normalizeIDList values = foldl push_normalized [] (arr_of values)"

definition parentSessionIDOf :: "jsval \<Rightarrow> string" where
  "parentSessionIDOf session =
     (if nullish session then []
      else let p = normalizeID (pget session ''parentSessionID'')
           in if p \<noteq> [] then p else normalizeID (pget session ''parentSessionId''))"

definition participantAgentIDsOf :: "jsval \<Rightarrow> string list" where
  "participantAgentIDsOf session = normalizeIDList (pget session ''participantAgentIDs'')"

definition index_by_id :: "(string \<times> jsval) list \<Rightarrow> jsval \<Rightarrow> (string \<times> jsval) list" where
  "index_by_id byID session =
     (let k = normalizeID (pget session ''id'')
      in if k \<noteq> [] \<and> map_of byID k = None then AList.update k session byID else byID)"

definition toLookup :: "session_source \<Rightarrow> string \<Rightarrow> jsval" where
  "toLookup getSession k =
     (case getSession of FunSource f \<Rightarrow> f k | MapSource m \<Rightarrow> oget m k
      | ArrSource sessions \<Rightarrow> oget (foldl index_by_id [] sessions) k | OtherSource \<Rightarrow> Undefined)"

definition COORDINATOR_MAX_ANCESTOR_DEPTH :: nat where
  "COORDINATOR_MAX_ANCESTOR_DEPTH = 64"

section \<open>The ancestor chain\<close>

datatype walk_stop = StopRoot | StopMissing | StopCycle | StopDepth

record ancestor_walk =
  aw_chain :: "string list"
  aw_stopped :: walk_stop
  aw_cycleDetected :: bool
  aw_missingSessionID :: "string option"
  aw_truncated :: bool

text \<open>The set \<open>seen\<close> of the source holds the ids of \<open>chain\<close> whenever it is tested.\<close>

function walk_loop :: "(string \<Rightarrow> jsval) \<Rightarrow> nat \<Rightarrow> string list \<Rightarrow> string \<Rightarrow> ancestor_walk" where
  "walk_loop getSession maxDepth chain current =
     (if maxDepth \<le> length chain
      then \<lparr>aw_chain = chain, aw_stopped = StopDepth, aw_cycleDetected = False, aw_missingSessionID = None, aw_truncated = True\<rparr>
      else if current \<in> set chain
      then \<lparr>aw_chain = chain, aw_stopped = StopCycle, aw_cycleDetected = True, aw_missingSessionID = None, aw_truncated = False\<rparr>
      else if nullish (getSession current)
      then \<lparr>aw_chain = chain, aw_stopped = StopMissing, aw_cycleDetected = False, aw_missingSessionID = Some current, aw_truncated = False\<rparr>
      else if parentSessionIDOf (getSession current) = []
      then \<lparr>aw_chain = chain @ [current], aw_stopped = StopRoot, aw_cycleDetected = False, aw_missingSessionID = None, aw_truncated = False\<rparr>
      else walk_loop getSession maxDepth (chain @ [current]) (parentSessionIDOf (getSession current)))"
  by pat_completeness auto
termination
  by (relation "measure (\<lambda>(_, maxDepth, chain, _). maxDepth - length chain)") auto

declare walk_loop.simps [simp del]

definition walk_max_depth :: "jsval \<Rightarrow> nat" where
  "walk_max_depth maxDepth = (case js_Number maxDepth of
     Fin q \<Rightarrow> if 0 < q then nat (js_trunc q) else COORDINATOR_MAX_ANCESTOR_DEPTH
   | _ \<Rightarrow> COORDINATOR_MAX_ANCESTOR_DEPTH)"

definition resolveAncestorChain :: "jsval \<Rightarrow> (string \<Rightarrow> jsval) \<Rightarrow> jsval \<Rightarrow> ancestor_walk" where
  "resolveAncestorChain sessionID getSession maxDepth =
     (let start = normalizeID sessionID
      in if start = []
         then \<lparr>aw_chain = [], aw_stopped = StopMissing, aw_cycleDetected = False, aw_missingSessionID = None, aw_truncated = False\<rparr>
         else walk_loop getSession (walk_max_depth maxDepth) [] start)"

definition ancestorSessionIDs :: "jsval \<Rightarrow> (string \<Rightarrow> jsval) \<Rightarrow> jsval \<Rightarrow> string list" where
  "ancestorSessionIDs sessionID getSession maxDepth = aw_chain (resolveAncestorChain sessionID getSession maxDepth)"

section \<open>The resolver\<close>

datatype coordinator_source = SrcExplicit | SrcInherited | SrcPromoted | SrcNone

record coordinator_result =
  cr_sessionID :: string
  cr_coordinatorAgentID :: "string option"
  cr_source :: coordinator_source
  cr_ownerSessionID :: "string option"
  cr_promoted :: bool
  cr_persisted :: bool
  cr_chain :: "string list"
  cr_stopped :: walk_stop
  cr_cycleDetected :: bool
  cr_missingSessionID :: "string option"

type_synonym persist_fn = "string \<Rightarrow> string \<Rightarrow> js_error + jsval"

text \<open>
  The test \<open>explicit && participants.includes(explicit)\<close>, which the source repeats for every
  session it looks at: the coordinator recorded on a session, while it is a participant.
\<close>

definition recorded_coordinator :: "jsval \<Rightarrow> string option" where
  "recorded_coordinator session =
     (let explicit = normalizeID (pget session ''coordinatorAgentID'')
      in if explicit \<noteq> [] \<and> explicit \<in> set (participantAgentIDsOf session) then Some explicit else None)"

fun first_recorded :: "(string \<Rightarrow> jsval) \<Rightarrow> string list \<Rightarrow> (string \<times> string) option" where
  "first_recorded getSession [] = None"
| "first_recorded getSession (k # ks) =
     (case recorded_coordinator (getSession k) of
        Some agent \<Rightarrow> Some (k, agent) | None \<Rightarrow> first_recorded getSession ks)"

definition persist_promotion :: "persist_fn option \<Rightarrow> string \<Rightarrow> string \<Rightarrow> bool" where
  "persist_promotion persist owner agent =
     (case persist of None \<Rightarrow> False
      | Some f \<Rightarrow> (case f owner agent of Inl _ \<Rightarrow> False | Inr v \<Rightarrow> v \<noteq> JBool False))"

definition resolveSessionCoordinator ::
  "jsval \<Rightarrow> session_source \<Rightarrow> persist_fn option \<Rightarrow> jsval \<Rightarrow> coordinator_result" where
  "resolveSessionCoordinator sessionID getSession persist maxDepth =
     (let lookup = toLookup getSession;
          walk = resolveAncestorChain sessionID lookup maxDepth;
          result = \<lparr>cr_sessionID = normalizeID sessionID, cr_coordinatorAgentID = None, cr_source = SrcNone,
            cr_ownerSessionID = None, cr_promoted = False, cr_persisted = False, cr_chain = aw_chain walk,
            cr_stopped = aw_stopped walk, cr_cycleDetected = aw_cycleDetected walk,
            cr_missingSessionID = aw_missingSessionID walk\<rparr>
      in case aw_chain walk of
           [] \<Rightarrow> result
         | nearest # ancestors \<Rightarrow>
           (case recorded_coordinator (lookup nearest) of
              Some explicit \<Rightarrow> result\<lparr>cr_coordinatorAgentID := Some explicit, cr_source := SrcExplicit,
                                cr_ownerSessionID := Some nearest\<rparr>
            | None \<Rightarrow>
              (case first_recorded lookup ancestors of
                 Some (ancestorID, agent) \<Rightarrow> result\<lparr>cr_coordinatorAgentID := Some agent, cr_source := SrcInherited,
                                               cr_ownerSessionID := Some ancestorID\<rparr>
               | None \<Rightarrow>
                 (case find (\<lambda>k. participantAgentIDsOf (lookup k) \<noteq> []) (rev (nearest # ancestors)) of
                    None \<Rightarrow> result
                  | Some promotionSessionID \<Rightarrow>
                    let promotedAgentID = hd (participantAgentIDsOf (lookup promotionSessionID))
                    in result\<lparr>cr_coordinatorAgentID := Some promotedAgentID, cr_source := SrcPromoted,
                         cr_ownerSessionID := Some promotionSessionID, cr_promoted := True,
                         cr_persisted := persist_promotion persist promotionSessionID promotedAgentID\<rparr>))))"

definition coordinatorAgentIDFor ::
  "jsval \<Rightarrow> session_source \<Rightarrow> persist_fn option \<Rightarrow> jsval \<Rightarrow> string option" where
  "coordinatorAgentIDFor sessionID getSession persist maxDepth =
     cr_coordinatorAgentID (resolveSessionCoordinator sessionID getSession persist maxDepth)"

text \<open>One step of the chain of responsible coordinators: the pairs pushed so far and \<open>seen\<close>.\<close>

definition push_coordinator ::
  "(string \<Rightarrow> jsval) \<Rightarrow> bool \<Rightarrow> (string \<times> string) list \<times> string list \<Rightarrow> string \<Rightarrow> (string \<times> string) list \<times> string list" where
  "push_coordinator lookup includeRepeatedAgents acc chainSessionID =
     (case acc of (chain, seen) \<Rightarrow>
      case recorded_coordinator (lookup chainSessionID) of
        None \<Rightarrow> (chain, seen)
      | Some explicit \<Rightarrow>
          if \<not> includeRepeatedAgents \<and> explicit \<in> set seen then (chain, seen)
          else (chain @ [(explicit, chainSessionID)], seen @ [explicit]))"

definition resolveCoordinatorChain ::
  "jsval \<Rightarrow> session_source \<Rightarrow> bool \<Rightarrow> jsval \<Rightarrow> (string \<times> string) list \<times> ancestor_walk" where
  "resolveCoordinatorChain sessionID getSession includeRepeatedAgents maxDepth =
     (let lookup = toLookup getSession; walk = resolveAncestorChain sessionID lookup maxDepth
      in (fst (foldl (push_coordinator lookup includeRepeatedAgents) ([], []) (aw_chain walk)), walk))"

fun first_coordinated_by :: "(string \<Rightarrow> jsval) \<Rightarrow> string \<Rightarrow> string list \<Rightarrow> string option" where
  "first_coordinated_by lookup agentID [] = None"
| "first_coordinated_by lookup agentID (k # ks) =
     (if recorded_coordinator (lookup k) = Some agentID then Some k else first_coordinated_by lookup agentID ks)"

definition nearestAncestorCoordinator :: "jsval \<Rightarrow> jsval \<Rightarrow> session_source \<Rightarrow> jsval \<Rightarrow> string option \<times> ancestor_walk" where
  "nearestAncestorCoordinator sessionID agentID getSession maxDepth =
     (let lookup = toLookup getSession; walk = resolveAncestorChain sessionID lookup maxDepth
      in (first_coordinated_by lookup (normalizeID agentID) (tl (aw_chain walk)), walk))"

section \<open>The authority predicate\<close>

datatype authority_reason = BySelf | ByAncestor | NotCoordinator | UnknownSession

record authority =
  au_allowed :: bool
  au_reason :: authority_reason
  au_ownerSessionID :: "string option"
  au_chain :: "string list"
  au_promoted :: bool

text \<open>
  \<open>targetSessionID\<close> is \<open>options.targetSessionID ?? options.sessionID\<close>.
\<close>

definition hasCoordinatorAuthority :: "jsval \<Rightarrow> jsval \<Rightarrow> jsval \<Rightarrow> session_source \<Rightarrow> jsval \<Rightarrow> authority" where
  "hasCoordinatorAuthority agentID targetSession sessionID getSession maxDepth =
     (let actorAgentID = normalizeID agentID;
          targetSessionID = normalizeID (js_nc targetSession sessionID);
          lookup = toLookup getSession;
          empty = \<lparr>au_allowed = False, au_reason = UnknownSession, au_ownerSessionID = None, au_chain = [], au_promoted = False\<rparr>
      in if actorAgentID = [] \<or> targetSessionID = [] then empty
         else let walk = resolveAncestorChain (JStr targetSessionID) lookup maxDepth
         in if aw_chain walk = [] then empty
         else case first_coordinated_by lookup actorAgentID (aw_chain walk) of
           Some chainSessionID \<Rightarrow>
             \<lparr>au_allowed = True, au_reason = (if chainSessionID = hd (aw_chain walk) then BySelf else ByAncestor),
              au_ownerSessionID = Some chainSessionID, au_chain = aw_chain walk, au_promoted = False\<rparr>
         | None \<Rightarrow>
             let resolution = resolveSessionCoordinator (JStr targetSessionID) (FunSource lookup) None maxDepth
             in if cr_source resolution = SrcPromoted \<and> cr_coordinatorAgentID resolution = Some actorAgentID
                then \<lparr>au_allowed = True,
                      au_reason = (if cr_ownerSessionID resolution = Some targetSessionID then BySelf else ByAncestor),
                      au_ownerSessionID = cr_ownerSessionID resolution, au_chain = aw_chain walk, au_promoted = True\<rparr>
                else \<lparr>au_allowed = False, au_reason = NotCoordinator, au_ownerSessionID = None,
                      au_chain = aw_chain walk, au_promoted = False\<rparr>)"

definition resolveLocalCoordinatorAgentID :: "jsval \<Rightarrow> jsval \<Rightarrow> string option" where
  "resolveLocalCoordinatorAgentID session participantAgentIDs =
     (let participants = normalizeIDList (js_nc participantAgentIDs (pget session ''participantAgentIDs''));
          explicit = normalizeID (pget session ''coordinatorAgentID'')
      in if explicit \<noteq> [] \<and> explicit \<in> set participants then Some explicit
         else case participants of [] \<Rightarrow> None | p # _ \<Rightarrow> Some p)"

section \<open>The two modules read the same records\<close>

lemma normalizeID_eq: "normalizeID v = normalizeSessionID v"
  by (simp add: normalizeID_def normalizeSessionID_def)

lemma normalizeID_str [simp]: "normalizeID (JStr s) = js_trim s"
  by (simp add: normalizeID_def)

lemma normalizeID_trimmed [simp]: "js_trim (normalizeID v) = normalizeID v"
  by (simp add: normalizeID_def)

lemma parentSessionIDOf_eq: "parentSessionIDOf v = sessionParentID v"
  by (simp add: parentSessionIDOf_def sessionParentID_def normalizeID_eq Let_def)

lemma toLookup_eq: "toLookup src = toSessionLookup src"
proof (rule ext)
  fix k
  have "index_by_id = index_session"
    by (intro ext) (simp add: index_by_id_def index_session_def normalizeID_eq)
  then show "toLookup src k = toSessionLookup src k"
    by (cases src) (simp_all add: toLookup_def toSessionLookup_fun)
qed

lemma toLookup_Fun [simp]: "toLookup (FunSource f) = f"
  by (rule ext) (simp add: toLookup_def)

lemma normalizeIDList_eq: "normalizeIDList v = uniqueStrings v"
proof -
  have "push_normalized = push_id"
    by (intro ext) (simp add: push_normalized_def push_id_def normalizeID_eq Let_def)
  then show ?thesis by (simp add: normalizeIDList_def uniqueStrings_def)
qed

lemma normalizeIDList_set: "set (normalizeIDList v) = normalizeID ` set (arr_of v) - {[]}"
  using uniqueStrings_set[of "arr_of v"] by (cases v) (simp_all add: normalizeIDList_eq uniqueStrings_def normalizeID_eq)

lemma participants_nonblank: "a \<in> set (participantAgentIDsOf s) \<Longrightarrow> a \<noteq> [] \<and> js_trim a = a"
  by (auto simp: participantAgentIDsOf_def normalizeIDList_set)

lemma recorded_coordinator_Some:
  "recorded_coordinator s = Some a \<longleftrightarrow>
     a = normalizeID (pget s ''coordinatorAgentID'') \<and> a \<noteq> [] \<and> a \<in> set (participantAgentIDsOf s)"
  by (auto simp: recorded_coordinator_def Let_def)

lemma first_recorded_Some:
  "first_recorded lookup ks = Some (k, a) \<Longrightarrow>
     k \<in> set ks \<and> recorded_coordinator (lookup k) = Some a"
  by (induction ks) (auto split: option.splits)

lemma first_recorded_None:
  "first_recorded lookup ks = None \<longleftrightarrow> (\<forall>k\<in>set ks. recorded_coordinator (lookup k) = None)"
  by (induction ks) (auto split: option.splits)

lemma first_coordinated_by_Some:
  "first_coordinated_by lookup a ks = Some k \<Longrightarrow> k \<in> set ks \<and> recorded_coordinator (lookup k) = Some a"
  by (induction ks) (auto split: if_splits)

lemma first_coordinated_by_None:
  "first_coordinated_by lookup a ks = None \<longleftrightarrow> (\<forall>k\<in>set ks. recorded_coordinator (lookup k) \<noteq> Some a)"
  by (induction ks) auto

section \<open>The bounded walk is a walk up\<close>

definition loaded_up :: "(string \<Rightarrow> jsval) \<Rightarrow> string \<Rightarrow> string option" where
  "loaded_up lookup k = (case session_up lookup k of None \<Rightarrow> None
     | Some p \<Rightarrow> if nullish (lookup p) then None else Some p)"

lemma walk_loop_stop:
  "d \<le> length chain \<Longrightarrow> walk_loop lookup d chain current =
     \<lparr>aw_chain = chain, aw_stopped = StopDepth, aw_cycleDetected = False, aw_missingSessionID = None, aw_truncated = True\<rparr>"
  "length chain < d \<Longrightarrow> current \<in> set chain \<Longrightarrow> walk_loop lookup d chain current =
     \<lparr>aw_chain = chain, aw_stopped = StopCycle, aw_cycleDetected = True, aw_missingSessionID = None, aw_truncated = False\<rparr>"
  "length chain < d \<Longrightarrow> current \<notin> set chain \<Longrightarrow> nullish (lookup current) \<Longrightarrow> walk_loop lookup d chain current =
     \<lparr>aw_chain = chain, aw_stopped = StopMissing, aw_cycleDetected = False, aw_missingSessionID = Some current, aw_truncated = False\<rparr>"
  "length chain < d \<Longrightarrow> current \<notin> set chain \<Longrightarrow> \<not> nullish (lookup current) \<Longrightarrow> session_up lookup current = None
     \<Longrightarrow> walk_loop lookup d chain current =
     \<lparr>aw_chain = chain @ [current], aw_stopped = StopRoot, aw_cycleDetected = False, aw_missingSessionID = None, aw_truncated = False\<rparr>"
  by (subst walk_loop.simps, simp add: session_up_def parentSessionIDOf_eq Let_def split: if_splits)+

lemma walk_loop_go:
  "length chain < d \<Longrightarrow> current \<notin> set chain \<Longrightarrow> \<not> nullish (lookup current) \<Longrightarrow> session_up lookup current = Some p
     \<Longrightarrow> walk_loop lookup d chain current = walk_loop lookup d (chain @ [current]) p"
  by (subst walk_loop.simps) (auto simp: session_up_def parentSessionIDOf_eq Let_def split: if_splits)

lemma walk_loop_cases:
  assumes "d \<le> length chain \<Longrightarrow> P"
    and "length chain < d \<Longrightarrow> current \<in> set chain \<Longrightarrow> P"
    and "length chain < d \<Longrightarrow> current \<notin> set chain \<Longrightarrow> nullish (lookup current) \<Longrightarrow> P"
    and "length chain < d \<Longrightarrow> current \<notin> set chain \<Longrightarrow> \<not> nullish (lookup current) \<Longrightarrow> session_up lookup current = None \<Longrightarrow> P"
    and "\<And>p. length chain < d \<Longrightarrow> current \<notin> set chain \<Longrightarrow> \<not> nullish (lookup current) \<Longrightarrow> session_up lookup current = Some p \<Longrightarrow> P"
  shows P
  using assms by (metis not_le option.exhaust)

text \<open>A walk in progress: the ids walked are loaded, linked and distinct, and lead to \<open>current\<close>.\<close>

definition walking :: "(string \<Rightarrow> jsval) \<Rightarrow> string list \<Rightarrow> string \<Rightarrow> bool" where
  "walking lookup chain current \<longleftrightarrow> distinct chain \<and> linked (session_up lookup) chain
     \<and> (\<forall>k \<in> set chain. \<not> nullish (lookup k)) \<and> (chain \<noteq> [] \<longrightarrow> session_up lookup (last chain) = Some current)"

lemma walking_start [simp]: "walking lookup [] current"
  by (simp add: walking_def)

lemma walking_step:
  assumes "walking lookup chain current" "current \<notin> set chain" "\<not> nullish (lookup current)"
  shows "distinct (chain @ [current])" "linked (session_up lookup) (chain @ [current])"
    "\<forall>k \<in> set (chain @ [current]). \<not> nullish (lookup k)"
    "session_up lookup current = Some p \<Longrightarrow> walking lookup (chain @ [current]) p"
  using assms linked_snoc_last[of chain "session_up lookup" current]
  by (cases "chain = []"; auto simp: walking_def)+

definition walk_end :: "(string \<Rightarrow> jsval) \<Rightarrow> ancestor_walk \<Rightarrow> bool" where
  "walk_end lookup w \<longleftrightarrow> (case aw_missingSessionID w of
      Some m \<Rightarrow> nullish (lookup m) \<and> (aw_chain w \<noteq> [] \<longrightarrow> session_up lookup (last (aw_chain w)) = Some m)
    | None \<Rightarrow> aw_truncated w \<or> (aw_chain w \<noteq> [] \<and> closed_end (session_up lookup) (aw_chain w)))"

lemma walk_loop_spec:
  assumes "walking lookup chain current"
  shows "\<exists>rest. aw_chain (walk_loop lookup d chain current) = chain @ rest
    \<and> distinct (chain @ rest) \<and> linked (session_up lookup) (chain @ rest)
    \<and> (\<forall>k \<in> set (chain @ rest). \<not> nullish (lookup k))
    \<and> length (chain @ rest) \<le> max d (length chain)
    \<and> (rest \<noteq> [] \<longrightarrow> hd rest = current)
    \<and> (rest = [] \<longrightarrow> d \<le> length chain \<or> current \<in> set chain \<or> nullish (lookup current))
    \<and> walk_end lookup (walk_loop lookup d chain current)"
  using assms
proof (induction "d - length chain" arbitrary: chain current rule: less_induct)
  case less
  note inv = less.prems[unfolded walking_def]
  show ?case
  proof (rule walk_loop_cases[of d chain _ current lookup], goal_cases)
    case 1
    with inv show ?case by (intro exI[of _ "[]"]) (simp add: walk_loop_stop walk_end_def)
  next
    case 2
    with inv have "chain \<noteq> []" "closed_end (session_up lookup) chain"
      by (auto simp: closed_end_def)
    with 2 inv show ?case by (intro exI[of _ "[]"]) (simp add: walk_loop_stop walk_end_def)
  next
    case 3
    with inv show ?case by (intro exI[of _ "[]"]) (simp add: walk_loop_stop walk_end_def)
  next
    case 4
    with walking_step(1-3)[OF less.prems] show ?case
      by (intro exI[of _ "[current]"]) (simp add: walk_loop_stop walk_end_def closed_end_def)
  next
    case (5 p)
    have "walking lookup (chain @ [current]) p"
      using walking_step(4)[OF less.prems] 5 by simp
    then obtain rest where "aw_chain (walk_loop lookup d (chain @ [current]) p) = (chain @ [current]) @ rest
      \<and> distinct ((chain @ [current]) @ rest) \<and> linked (session_up lookup) ((chain @ [current]) @ rest)
      \<and> (\<forall>k \<in> set ((chain @ [current]) @ rest). \<not> nullish (lookup k))
      \<and> length ((chain @ [current]) @ rest) \<le> max d (length (chain @ [current]))
      \<and> walk_end lookup (walk_loop lookup d (chain @ [current]) p)"
      using less.hyps[of "chain @ [current]" p] 5 by fastforce
    with 5 show ?case by (intro exI[of _ "current # rest"]) (simp add: walk_loop_go)
  qed
qed

lemma walk_from:
  "distinct (aw_chain (walk_loop lookup d [] v)) \<and> linked (session_up lookup) (aw_chain (walk_loop lookup d [] v))
    \<and> (\<forall>k \<in> set (aw_chain (walk_loop lookup d [] v)). \<not> nullish (lookup k))
    \<and> length (aw_chain (walk_loop lookup d [] v)) \<le> d
    \<and> (aw_chain (walk_loop lookup d [] v) \<noteq> [] \<longrightarrow> hd (aw_chain (walk_loop lookup d [] v)) = v)
    \<and> (aw_chain (walk_loop lookup d [] v) = [] \<longrightarrow> d = 0 \<or> nullish (lookup v))
    \<and> walk_end lookup (walk_loop lookup d [] v)"
  using walk_loop_spec[of lookup "[]" v d] by auto

lemma linked_loaded:
  "linked (session_up lookup) ks \<Longrightarrow> \<forall>k \<in> set ks. \<not> nullish (lookup k) \<Longrightarrow> linked (loaded_up lookup) ks"
  by (induction "session_up lookup" ks rule: linked.induct) (auto simp: loaded_up_def)

lemma closed_loaded: "closed_end (session_up lookup) ks \<Longrightarrow> closed_end (loaded_up lookup) ks"
  by (auto simp: closed_end_def loaded_up_def split: option.splits)

definition walk_chain :: "(string \<Rightarrow> jsval) \<Rightarrow> nat \<Rightarrow> string \<Rightarrow> string list option" where
  "walk_chain lookup d v = (let w = walk_loop lookup d [] v in if aw_truncated w then None else Some (aw_chain w))"

lemma walk_loop_depth_missing: "aw_missingSessionID (walk_loop lookup d [] v) \<noteq> None \<Longrightarrow> \<not> aw_truncated (walk_loop lookup d [] v)"
proof -
  have "aw_missingSessionID (walk_loop lookup d chain v) \<noteq> None \<Longrightarrow> \<not> aw_truncated (walk_loop lookup d chain v)" for chain
  proof (induction "d - length chain" arbitrary: chain v rule: less_induct)
    case less
    show ?case
    proof (rule walk_loop_cases[of d chain _ v lookup], goal_cases)
      case (5 p)
      then show ?case using less.hyps[of "chain @ [v]" p] less.prems by (simp add: walk_loop_go)
    qed (use less.prems in \<open>simp_all add: walk_loop_stop\<close>)
  qed
  then show "aw_missingSessionID (walk_loop lookup d [] v) \<noteq> None \<Longrightarrow> \<not> aw_truncated (walk_loop lookup d [] v)" .
qed

text \<open>
  The bounded walk provides the same interface as \<open>ancestryChain\<close>, over the parent links
  whose target is loaded, whenever it was not cut off by the depth.
\<close>

interpretation coordinator: upward_chain "loaded_up lookup" "walk_chain lookup d" "\<lambda>v. \<not> nullish (lookup v)" for lookup d
proof unfold_locales
  fix v ks
  assume ok: "\<not> nullish (lookup v)" and ret: "walk_chain lookup d v = Some ks"
  let ?w = "walk_loop lookup d [] v"
  from ret have ks: "ks = aw_chain ?w" and nt: "\<not> aw_truncated ?w"
    by (auto simp: walk_chain_def Let_def split: if_splits)
  have "d \<noteq> 0" using nt by (intro notI) (simp add: walk_loop_stop)
  with walk_from[of lookup d v] ok ks show ne: "ks \<noteq> [] \<and> hd ks = v" by auto
  from walk_from[of lookup d v] ks show "distinct ks" "linked (loaded_up lookup) ks"
    by (auto intro: linked_loaded)
  from walk_from[of lookup d v] nt ne ks show "closed_end (loaded_up lookup) ks"
    by (auto simp: walk_end_def closed_end_def loaded_up_def split: option.splits)
qed

abbreviation missing_ids :: "ancestor_walk \<Rightarrow> string list" where
  "missing_ids w \<equiv> (case aw_missingSessionID w of None \<Rightarrow> [] | Some m \<Rightarrow> [m])"

lemma walk_extends_to_ancestry:
  assumes "finite (dom (session_up lookup))" "\<not> aw_truncated (walk_loop lookup d [] v)"
  shows "chain_loop lookup [v] v = Some (aw_chain (walk_loop lookup d [] v) @ missing_ids (walk_loop lookup d [] v))"
proof -
  let ?w = "walk_loop lookup d [] v"
  note wf = walk_from[of lookup d v]
  have d: "d \<noteq> 0" using assms(2) by (intro notI) (simp add: walk_loop_stop)
  obtain ks where ks: "chain_loop lookup [v] v = Some ks"
    using chain_loop_spec[OF assms(1), of v] by metis
  have miss: "nullish (lookup v) \<Longrightarrow> missing_ids ?w = [v]"
    using d by (simp add: walk_loop_stop)
  have "aw_chain ?w @ missing_ids ?w = ks"
  proof (rule ancestry.chain_unique[OF assms(1) ks])
    show "aw_chain ?w @ missing_ids ?w \<noteq> []" using wf d miss by auto
    show "hd (aw_chain ?w @ missing_ids ?w) = v" using wf d miss by (cases "aw_chain ?w") auto
    show "linked (session_up lookup) (aw_chain ?w @ missing_ids ?w)"
      using wf linked_snoc_last[of "aw_chain ?w" "session_up lookup"]
      by (cases "aw_chain ?w = []") (auto simp: walk_end_def split: option.splits)
    show "distinct (aw_chain ?w @ missing_ids ?w)"
      using wf by (auto simp: walk_end_def split: option.splits)
    show "closed_end (session_up lookup) (aw_chain ?w @ missing_ids ?w)"
      using wf assms(2) by (auto simp: walk_end_def closed_end_def session_up_def split: option.splits)
  qed
  with ks show ?thesis by simp
qed

lemma walk_chain_set:
  assumes "finite (dom (session_up lookup))" "\<not> aw_truncated (walk_loop lookup d [] v)"
  shows "set (aw_chain (walk_loop lookup d [] v)) =
     {k. (links_to (session_up lookup))\<^sup>*\<^sup>* v k \<and> \<not> nullish (lookup k)}"
proof -
  let ?w = "walk_loop lookup d [] v"
  have "set (aw_chain ?w @ missing_ids ?w) = {k. (links_to (session_up lookup))\<^sup>*\<^sup>* v k}"
    by (rule ancestry.chain_set[OF assms(1) walk_extends_to_ancestry[OF assms]])
  moreover have "set (missing_ids ?w) \<inter> {k. \<not> nullish (lookup k)} = {}"
    using walk_from[of lookup d v] by (auto simp: walk_end_def split: option.splits)
  moreover have "\<forall>k \<in> set (aw_chain ?w). \<not> nullish (lookup k)" using walk_from[of lookup d v] by simp
  ultimately show ?thesis by auto
qed

text \<open>The walk a resolve makes, and the sessions on it.\<close>

abbreviation coordinator_walk :: "jsval \<Rightarrow> session_source \<Rightarrow> jsval \<Rightarrow> ancestor_walk" where
  "coordinator_walk sessionID src maxDepth \<equiv> resolveAncestorChain sessionID (toLookup src) maxDepth"

lemma coordinator_walk_props:
  "distinct (aw_chain (coordinator_walk s src d))"
  "k \<in> set (aw_chain (coordinator_walk s src d)) \<Longrightarrow> \<not> nullish (toLookup src k)"
  "aw_chain (coordinator_walk s src d) \<noteq> [] \<Longrightarrow> hd (aw_chain (coordinator_walk s src d)) = normalizeID s"
  "length (aw_chain (coordinator_walk s src d)) \<le> walk_max_depth d"
  using walk_from[of "toLookup src" "walk_max_depth d" "normalizeID s"]
  by (cases "normalizeID s = []"; simp add: resolveAncestorChain_def Let_def)+

lemma coordinator_walk_set:
  assumes "finite_links src" "\<not> aw_truncated (coordinator_walk s src d)"
  shows "k \<in> set (aw_chain (coordinator_walk s src d))
     \<longleftrightarrow> normalizeID s \<noteq> [] \<and> parent_path src (normalizeID s) k \<and> \<not> nullish (toLookup src k)"
  using walk_chain_set[of "toSessionLookup src" "walk_max_depth d" "normalizeID s"] assms
  by (auto simp: resolveAncestorChain_def Let_def toLookup_eq split: if_splits)

lemma coordinator_walk_visible:
  assumes "finite_links src" "\<not> aw_truncated (coordinator_walk s src d)" "js_trim k = k" "k \<noteq> []"
  shows "k \<in> set (aw_chain (coordinator_walk s src d))
     \<longleftrightarrow> isVisibleTo s (JStr k) src = Some True \<and> \<not> nullish (toLookup src k)"
proof -
  obtain ks where ks: "ancestryChain s src = Some ks"
    "set ks = {k. normalizeSessionID s \<noteq> [] \<and> parent_path src (normalizeSessionID s) k}"
    using ancestryChain_spec[OF assms(1)] by blast
  with isAncestorOrSelf_chain[OF assms(1), of s "JStr k"] assms(3,4) coordinator_walk_set[OF assms(1,2)]
  show ?thesis by (auto simp: isVisibleTo_def normalizeID_eq)
qed

lemma parent_path_trimmed: "parent_path src v k \<Longrightarrow> js_trim v = v \<Longrightarrow> v \<noteq> [] \<Longrightarrow> js_trim k = k \<and> k \<noteq> []"
  by (induction rule: rtranclp_induct) (auto simp: links_to_def dest: session_up_trimmed)

lemma nullish_unrecorded: "nullish s \<Longrightarrow> recorded_coordinator s = None"
  by (cases s) (simp_all add: recorded_coordinator_def participantAgentIDsOf_def normalizeIDList_def)

section \<open>What the resolver answers\<close>

lemma first_recorded_tail:
  "first_recorded lookup (k # ks) = Some (o1, a) \<Longrightarrow> recorded_coordinator (lookup k) = None \<Longrightarrow> first_recorded lookup ks = Some (o1, a)"
  by simp

text \<open>The three rules of the resolver, over the sessions \<open>ks\<close> walked.\<close>

definition resolves :: "(string \<Rightarrow> jsval) \<Rightarrow> string list \<Rightarrow> coordinator_result \<Rightarrow> bool" where
  "resolves lookup ks r \<longleftrightarrow>
     (case first_recorded lookup ks of
        Some (k, a) \<Rightarrow> cr_coordinatorAgentID r = Some a \<and> cr_ownerSessionID r = Some k \<and> \<not> cr_promoted r
          \<and> cr_source r = (if k = hd ks then SrcExplicit else SrcInherited)
      | None \<Rightarrow> (case find (\<lambda>k. participantAgentIDsOf (lookup k) \<noteq> []) (rev ks) of
            Some k \<Rightarrow> cr_coordinatorAgentID r = Some (hd (participantAgentIDsOf (lookup k)))
              \<and> cr_ownerSessionID r = Some k \<and> cr_promoted r \<and> cr_source r = SrcPromoted
          | None \<Rightarrow> cr_coordinatorAgentID r = None \<and> cr_ownerSessionID r = None \<and> \<not> cr_promoted r \<and> cr_source r = SrcNone))"

lemma resolver_resolves:
  "resolves (toLookup src) (aw_chain (coordinator_walk s src d)) (resolveSessionCoordinator s src persist d)"
proof (cases "aw_chain (coordinator_walk s src d)")
  case Nil
  then show ?thesis by (simp add: resolves_def resolveSessionCoordinator_def Let_def)
next
  case (Cons n ns)
  have n: "n \<notin> set ns" using coordinator_walk_props(1)[of s src d] Cons by simp
  show ?thesis
  proof (cases "recorded_coordinator (toLookup src n)")
    case (Some a)
    with Cons show ?thesis by (simp add: resolves_def resolveSessionCoordinator_def Let_def)
  next
    case None
    show ?thesis
    proof (cases "first_recorded (toLookup src) ns")
      case None
      with Cons \<open>recorded_coordinator (toLookup src n) = None\<close> show ?thesis
        by (simp add: resolves_def resolveSessionCoordinator_def Let_def split: option.splits)
    next
      case (Some ka)
      obtain k a where ka: "ka = (k, a)" by (cases ka)
      with first_recorded_Some Some n have "k \<noteq> n" by fastforce
      with Cons Some ka \<open>recorded_coordinator (toLookup src n) = None\<close> show ?thesis
        by (simp add: resolves_def resolveSessionCoordinator_def Let_def)
    qed
  qed
qed

lemma resolver_chain: "cr_chain (resolveSessionCoordinator s src persist d) = aw_chain (coordinator_walk s src d)"
  by (simp add: resolveSessionCoordinator_def Let_def split: list.split option.split prod.split)

lemma resolver_owner:
  assumes "cr_coordinatorAgentID (resolveSessionCoordinator s src persist d) = Some a"
  obtains k where "cr_ownerSessionID (resolveSessionCoordinator s src persist d) = Some k"
    "k \<in> set (aw_chain (coordinator_walk s src d))" "a \<in> set (participantAgentIDsOf (toLookup src k))"
    "if cr_promoted (resolveSessionCoordinator s src persist d)
     then a = hd (participantAgentIDsOf (toLookup src k)) \<and> first_recorded (toLookup src) (aw_chain (coordinator_walk s src d)) = None
     else recorded_coordinator (toLookup src k) = Some a"
proof (cases "first_recorded (toLookup src) (aw_chain (coordinator_walk s src d))")
  case (Some ka)
  obtain k b where ka: "ka = (k, b)" by (cases ka)
  with Some assms resolver_resolves[of src s d persist]
  have "a = b" "cr_ownerSessionID (resolveSessionCoordinator s src persist d) = Some k" "\<not> cr_promoted (resolveSessionCoordinator s src persist d)"
    by (auto simp: resolves_def)
  with first_recorded_Some[OF Some[unfolded ka]] show thesis
    by (intro that[of k]) (auto simp: recorded_coordinator_Some)
next
  case None
  with assms resolver_resolves[of src s d persist] obtain k where k:
    "find (\<lambda>k. participantAgentIDsOf (toLookup src k) \<noteq> []) (rev (aw_chain (coordinator_walk s src d))) = Some k"
    "a = hd (participantAgentIDsOf (toLookup src k))" "cr_ownerSessionID (resolveSessionCoordinator s src persist d) = Some k"
    by (auto simp: resolves_def split: option.splits)
  then have "k \<in> set (aw_chain (coordinator_walk s src d))" "participantAgentIDsOf (toLookup src k) \<noteq> []"
    using find_SomeD[OF k(1)] by auto
  with k None resolver_resolves[of src s d persist] show thesis
    by (intro that[of k]) (auto simp: resolves_def)
qed

lemma resolver_none:
  "cr_coordinatorAgentID (resolveSessionCoordinator s src persist d) = None \<longleftrightarrow>
     (\<forall>k \<in> set (aw_chain (coordinator_walk s src d)). participantAgentIDsOf (toLookup src k) = [])"
proof
  assume none: "cr_coordinatorAgentID (resolveSessionCoordinator s src persist d) = None"
  then have "find (\<lambda>k. participantAgentIDsOf (toLookup src k) \<noteq> []) (rev (aw_chain (coordinator_walk s src d))) = None"
    using resolver_resolves[of src s d persist] by (auto simp: resolves_def split: option.splits)
  then show "\<forall>k \<in> set (aw_chain (coordinator_walk s src d)). participantAgentIDsOf (toLookup src k) = []"
    by (simp add: find_None_iff)
next
  assume none: "\<forall>k \<in> set (aw_chain (coordinator_walk s src d)). participantAgentIDsOf (toLookup src k) = []"
  show "cr_coordinatorAgentID (resolveSessionCoordinator s src persist d) = None"
  proof (rule ccontr)
    assume "cr_coordinatorAgentID (resolveSessionCoordinator s src persist d) \<noteq> None"
    then obtain a where "cr_coordinatorAgentID (resolveSessionCoordinator s src persist d) = Some a" by auto
    from resolver_owner[OF this] none show False by (metis list.set(1) empty_iff)
  qed
qed

section \<open>Persisting a promotion\<close>

definition set_coordinator :: "jsval \<Rightarrow> string \<Rightarrow> jsval" where
  "set_coordinator session agent = JObj (oset (props_of session) ''coordinatorAgentID'' (JStr agent))"

lemma participants_obj: "participantAgentIDsOf session \<noteq> [] \<Longrightarrow> \<exists>ps. session = JObj ps"
  by (cases session) (auto simp: participantAgentIDsOf_def normalizeIDList_def)

lemma set_coordinator_reads:
  assumes "session = JObj ps"
  shows "participantAgentIDsOf (set_coordinator session a) = participantAgentIDsOf session"
    "sessionParentID (set_coordinator session a) = sessionParentID session"
    "nullish (set_coordinator session a) = nullish session"
    "pget (set_coordinator session a) ''coordinatorAgentID'' = JStr a"
  using assms by (simp_all add: set_coordinator_def participantAgentIDsOf_def sessionParentID_def Let_def)

lemma walk_loop_cong:
  assumes "\<And>k. nullish (l k) = nullish (l' k)" "session_up l = session_up l'"
  shows "walk_loop l d chain v = walk_loop l' d chain v"
proof (induction "d - length chain" arbitrary: chain v rule: less_induct)
  case less
  show ?case
  proof (rule walk_loop_cases[of d chain _ v l], goal_cases)
    case (5 p)
    with less.hyps[of "chain @ [v]" p] assms show ?case by (simp add: walk_loop_go)
  qed (use assms in \<open>simp_all add: walk_loop_stop\<close>)
qed

lemma persist_walk:
  assumes "toLookup src k = JObj ps"
  shows "coordinator_walk s (FunSource ((toLookup src)(k := set_coordinator (toLookup src k) a))) d = coordinator_walk s src d"
proof -
  let ?l = "toLookup src" and ?l' = "(toLookup src)(k := set_coordinator (toLookup src k) a)"
  have "\<And>x. nullish (?l x) = nullish (?l' x)" "session_up ?l = session_up ?l'"
    using set_coordinator_reads[OF assms, of a] by (auto simp: session_up_def fun_eq_iff)
  from walk_loop_cong[OF this] show ?thesis
    by (simp add: resolveAncestorChain_def Let_def)
qed

lemma first_recorded_unique:
  assumes "first_recorded l ks = None" "k \<in> set ks" "recorded_coordinator v = Some a"
  shows "first_recorded (l(k := v)) ks = Some (k, a)"
  using assms
proof (induction ks)
  case (Cons x xs)
  then show ?case by (cases "x = k") (auto split: option.splits)
qed simp

definition example_promotion :: "jsval list" where
  "example_promotion =
     [JObj [(''id'', JStr ''root''), (''participantAgentIDs'', JArr [JStr ''alice'', JStr ''bob''])],
      JObj [(''id'', JStr ''kid''), (''parentSessionID'', JStr ''root''), (''coordinatorAgentID'', JStr ''carl''),
            (''participantAgentIDs'', JArr [JStr ''carl''])],
      JObj [(''id'', JStr ''lone''), (''parentSessionID'', JStr ''root'')]]"

lemmas trim_eval = js_trim_def js_space_def

lemma example_promotion_lookup:
  "toLookup (ArrSource example_promotion) =
     oget [(''root'', example_promotion ! 0), (''kid'', example_promotion ! 1), (''lone'', example_promotion ! 2)]"
  by (rule ext) (simp add: toLookup_def example_promotion_def index_by_id_def Let_def trim_eval)

lemma example_promotion_reads:
  "session_up (toLookup (ArrSource example_promotion)) x = (if x = ''kid'' \<or> x = ''lone'' then Some ''root'' else None)"
  "nullish (toLookup (ArrSource example_promotion) x) \<longleftrightarrow> x \<noteq> ''root'' \<and> x \<noteq> ''kid'' \<and> x \<noteq> ''lone''"
  "participantAgentIDsOf (toLookup (ArrSource example_promotion) x) =
     (if x = ''root'' then [''alice'', ''bob''] else if x = ''kid'' then [''carl''] else [])"
  "recorded_coordinator (toLookup (ArrSource example_promotion) x) = (if x = ''kid'' then Some ''carl'' else None)"
  unfolding example_promotion_lookup session_up_def recorded_coordinator_def
  by (simp_all add: example_promotion_def sessionParentID_def normalizeSessionID_def participantAgentIDsOf_def
      normalizeIDList_def push_normalized_def trim_eval normalizeID_def)

lemma example_promotion_walk:
  "aw_chain (coordinator_walk (JStr ''lone'') (ArrSource example_promotion) Undefined) = [''lone'', ''root'']"
  "aw_chain (coordinator_walk (JStr ''kid'') (ArrSource example_promotion) Undefined) = [''kid'', ''root'']"
  by (simp_all add: resolveAncestorChain_def trim_eval walk_max_depth_def COORDINATOR_MAX_ANCESTOR_DEPTH_def
      walk_loop_go walk_loop_stop example_promotion_reads)

lemmas coordinator_eval = resolveSessionCoordinator_def example_promotion_reads example_promotion_walk

lemma example_finite: "finite_links (ArrSource example_promotion)"
  by (rule finite_links_data)

section \<open>Authority\<close>

lemma normalizeID_nonempty_str: "normalizeID v \<noteq> [] \<Longrightarrow> normalizeID (js_nc v w) = normalizeID v"
  by (cases v) (simp_all add: normalizeID_def js_nc_def)

lemma walk_renormalized: "coordinator_walk (JStr (normalizeID t)) src d = coordinator_walk t src d"
  by (simp add: resolveAncestorChain_def)

lemma resolve_renormalized:
  "cr_source (resolveSessionCoordinator (JStr (normalizeID t)) (FunSource (toLookup src)) p d) = cr_source (resolveSessionCoordinator t src p d)"
  "cr_coordinatorAgentID (resolveSessionCoordinator (JStr (normalizeID t)) (FunSource (toLookup src)) p d)
     = cr_coordinatorAgentID (resolveSessionCoordinator t src p d)"
  "cr_ownerSessionID (resolveSessionCoordinator (JStr (normalizeID t)) (FunSource (toLookup src)) p d)
     = cr_ownerSessionID (resolveSessionCoordinator t src p d)"
  by (simp_all add: resolveSessionCoordinator_def walk_renormalized Let_def split: list.split option.split prod.split)

lemma first_coordinated_imp_recorded:
  "first_recorded lookup ks = Some (k, a) \<Longrightarrow> first_coordinated_by lookup a ks \<noteq> None"
  by (auto simp: first_coordinated_by_None dest: first_recorded_Some)

lemma promoted_source:
  "cr_source (resolveSessionCoordinator s src p d) = SrcPromoted \<longleftrightarrow> cr_promoted (resolveSessionCoordinator s src p d)"
  using resolver_resolves[of src s d p] by (auto simp: resolves_def split: option.splits if_splits)

lemma promoted_any_persist:
  "cr_promoted (resolveSessionCoordinator s src p d) = cr_promoted (resolveSessionCoordinator s src q d)"
  "cr_coordinatorAgentID (resolveSessionCoordinator s src p d) = cr_coordinatorAgentID (resolveSessionCoordinator s src q d)"
  by (simp_all add: resolveSessionCoordinator_def Let_def split: list.split option.split prod.split)

lemma authority_cases:
  "au_allowed (hasCoordinatorAuthority actor target sid src d) \<longleftrightarrow>
     (let t = js_nc target sid; ks = aw_chain (coordinator_walk t src d) in
      normalizeID actor \<noteq> [] \<and> normalizeID t \<noteq> [] \<and> ks \<noteq> []
      \<and> ((\<exists>k \<in> set ks. recorded_coordinator (toLookup src k) = Some (normalizeID actor))
         \<or> (cr_promoted (resolveSessionCoordinator t src None d)
            \<and> cr_coordinatorAgentID (resolveSessionCoordinator t src None d) = Some (normalizeID actor))))"
proof (cases "first_coordinated_by (toLookup src) (normalizeID actor) (aw_chain (coordinator_walk (js_nc target sid) src d))")
  case None
  from None first_coordinated_by_None
  have "\<not> (\<exists>k \<in> set (aw_chain (coordinator_walk (js_nc target sid) src d)). recorded_coordinator (toLookup src k) = Some (normalizeID actor))"
    by blast
  with None show ?thesis
    by (simp add: hasCoordinatorAuthority_def Let_def walk_renormalized resolve_renormalized promoted_source)
next
  case (Some k)
  with first_coordinated_by_Some[OF Some] show ?thesis
    by (auto simp: hasCoordinatorAuthority_def Let_def walk_renormalized)
qed

section \<open>Properties\<close>

text \<open>
  The resolver leaves a session without a coordinator exactly when no session on its chain has
  participants; otherwise the coordinator is a participant of the session that owns the answer,
  that session is on the chain, and promotion happens only when no session of the chain
  records a coordinator of its own, in which case the first participant is taken.
\<close>

theorem coordinator_accountable:
  assumes r: "r = resolveSessionCoordinator s src persist d"
  shows "(cr_coordinatorAgentID r = None \<longleftrightarrow> (\<forall>k \<in> set (cr_chain r). participantAgentIDsOf (toLookup src k) = []))
    \<and> (\<forall>a. cr_coordinatorAgentID r = Some a \<longrightarrow> (\<exists>k. cr_ownerSessionID r = Some k \<and> k \<in> set (cr_chain r)
         \<and> a \<in> set (participantAgentIDsOf (toLookup src k))
         \<and> (if cr_promoted r
            then a = hd (participantAgentIDsOf (toLookup src k)) \<and> (\<forall>x \<in> set (cr_chain r). recorded_coordinator (toLookup src x) = None)
            else recorded_coordinator (toLookup src k) = Some a)))"
proof -
  have chain: "cr_chain r = aw_chain (coordinator_walk s src d)"
    by (simp add: r resolver_chain)
  have some: "\<exists>k. cr_ownerSessionID r = Some k \<and> k \<in> set (cr_chain r) \<and> a \<in> set (participantAgentIDsOf (toLookup src k))
      \<and> (if cr_promoted r
         then a = hd (participantAgentIDsOf (toLookup src k)) \<and> (\<forall>x \<in> set (cr_chain r). recorded_coordinator (toLookup src x) = None)
         else recorded_coordinator (toLookup src k) = Some a)" if a: "cr_coordinatorAgentID r = Some a" for a
  proof -
    obtain k where k: "cr_ownerSessionID r = Some k" "k \<in> set (cr_chain r)" "a \<in> set (participantAgentIDsOf (toLookup src k))"
      "if cr_promoted r
       then a = hd (participantAgentIDsOf (toLookup src k)) \<and> first_recorded (toLookup src) (cr_chain r) = None
       else recorded_coordinator (toLookup src k) = Some a"
      using resolver_owner[OF a[unfolded r]] unfolding r resolver_chain by metis
    show ?thesis by (rule exI[of _ k]) (use k in \<open>auto simp: first_recorded_None split: if_splits\<close>)
  qed
  have "cr_coordinatorAgentID r = None \<longleftrightarrow> (\<forall>k \<in> set (cr_chain r). participantAgentIDsOf (toLookup src k) = [])"
    unfolding r resolver_chain by (rule resolver_none)
  with some show ?thesis by blast
qed

theorem coordinator_accountable_witness:
  "cr_coordinatorAgentID (resolveSessionCoordinator (JStr ''lone'') (ArrSource example_promotion) None Undefined) \<noteq> None"
proof -
  let ?r = "resolveSessionCoordinator (JStr ''lone'') (ArrSource example_promotion) None Undefined"
  have "cr_chain ?r = [''lone'', ''root'']"
    by (simp add: coordinator_eval Let_def)
  with coordinator_accountable[OF refl, of "JStr ''lone''" "ArrSource example_promotion" None Undefined]
  show ?thesis by (simp add: example_promotion_reads)
qed

text \<open>
  C5: A promotion is stable: once the promoted agent is written to the record of the session that
  was promoted, resolving again gives the same coordinator and the same owner, and nothing is
  promoted any more.
\<close>

theorem persisted_promotion_stable:
  assumes r: "r = resolveSessionCoordinator s src persist d"
    and promoted: "cr_promoted r" "cr_ownerSessionID r = Some k" "cr_coordinatorAgentID r = Some a"
    and r': "r' = resolveSessionCoordinator s (FunSource ((toLookup src)(k := set_coordinator (toLookup src k) a))) persist' d"
  shows "cr_coordinatorAgentID r' = Some a \<and> cr_ownerSessionID r' = Some k \<and> \<not> cr_promoted r'"
proof -
  let ?ks = "aw_chain (coordinator_walk s src d)" and ?v = "set_coordinator (toLookup src k) a"
  have k: "k \<in> set ?ks" "a \<in> set (participantAgentIDsOf (toLookup src k))" "first_recorded (toLookup src) ?ks = None"
    using resolver_owner[of s src persist d a] promoted r by fastforce+
  then obtain ps where ps: "toLookup src k = JObj ps" using participants_obj by (metis list.set(1) empty_iff)
  have "recorded_coordinator ?v = Some a"
    using participants_nonblank[OF k(2)] k(2) set_coordinator_reads[OF ps, of a] by (simp add: recorded_coordinator_Some)
  from first_recorded_unique[OF k(3,1) this] show ?thesis
    using resolver_resolves[of "FunSource ((toLookup src)(k := ?v))" s d persist'] persist_walk[OF ps, of s a d] r'
    by (simp add: resolves_def)
qed

theorem persisted_promotion_stable_witness:
  "let r = resolveSessionCoordinator (JStr ''lone'') (ArrSource example_promotion) None Undefined;
       r' = resolveSessionCoordinator (JStr ''lone'')
              (FunSource ((toLookup (ArrSource example_promotion))
                 (''root'' := set_coordinator (toLookup (ArrSource example_promotion) ''root'') ''alice''))) None Undefined
   in cr_promoted r \<and> cr_coordinatorAgentID r' = Some ''alice'' \<and> \<not> cr_promoted r'"
proof -
  have "cr_promoted (resolveSessionCoordinator (JStr ''lone'') (ArrSource example_promotion) None Undefined)"
    "cr_ownerSessionID (resolveSessionCoordinator (JStr ''lone'') (ArrSource example_promotion) None Undefined) = Some ''root''"
    "cr_coordinatorAgentID (resolveSessionCoordinator (JStr ''lone'') (ArrSource example_promotion) None Undefined) = Some ''alice''"
    by (simp_all add: coordinator_eval Let_def)
  from this persisted_promotion_stable[OF refl this refl] show ?thesis by (simp add: Let_def)
qed

text \<open>
  C2: Authority is what visibility and the records say: on a walk that the depth bound did not
  cut off, an agent has coordinator authority over a session precisely when some loaded session
  whose items the target can see records it as its coordinator, or none of them records any
  coordinator and the agent is the one a resolve of the target promotes.
\<close>

theorem authority_iff_visible_coordinator:
  assumes "finite_links src" "\<not> aw_truncated (coordinator_walk target src d)" "normalizeID actor \<noteq> []"
  shows "au_allowed (hasCoordinatorAuthority actor target Undefined src d) \<longleftrightarrow>
     (\<exists>k. isVisibleTo target (JStr k) src = Some True \<and> js_trim k = k
        \<and> recorded_coordinator (toLookup src k) = Some (normalizeID actor))
     \<or> (cr_promoted (resolveSessionCoordinator target src None d)
        \<and> coordinatorAgentIDFor target src None d = Some (normalizeID actor))"
proof (cases "normalizeID target = []")
  case True
  then have "isVisibleTo target (JStr k) src = Some False" for k
    by (simp add: isVisibleTo_def isAncestorOrSelf_def normalizeID_eq)
  moreover have "aw_chain (coordinator_walk target src d) = []" using True by (simp add: resolveAncestorChain_def)
  moreover from this have "\<not> cr_promoted (resolveSessionCoordinator target src None d)"
    by (simp add: resolveSessionCoordinator_def Let_def)
  moreover have "normalizeID (js_nc target Undefined) = []" using True by (cases target) (simp_all add: js_nc_def normalizeID_def)
  ultimately show ?thesis by (simp add: authority_cases)
next
  case False
  let ?ks = "aw_chain (coordinator_walk target src d)" and ?P = "\<lambda>k. recorded_coordinator (toLookup src k) = Some (normalizeID actor)"
  have t: "js_nc target Undefined = target" using False by (cases target) (simp_all add: js_nc_def normalizeID_def)
  have vis: "k \<in> set ?ks \<longleftrightarrow> isVisibleTo target (JStr k) src = Some True \<and> \<not> nullish (toLookup src k)"
    if "js_trim k = k" "k \<noteq> []" for k
    by (rule coordinator_walk_visible[OF assms(1,2) that])
  have trimmed: "js_trim k = k \<and> k \<noteq> []" if "k \<in> set ?ks" for k
    using coordinator_walk_set[OF assms(1,2), of k] that False
    by (intro parent_path_trimmed[of src "normalizeID target"]) auto
  have nb: "k \<noteq> []" if "isVisibleTo target (JStr k) src = Some True" for k
    using that by (intro notI) (simp add: isVisibleTo_def isAncestorOrSelf_def js_trim_def)
  have ex: "(\<exists>k \<in> set ?ks. ?P k) \<longleftrightarrow> (\<exists>k. isVisibleTo target (JStr k) src = Some True \<and> js_trim k = k \<and> ?P k)"
    (is "?L \<longleftrightarrow> ?R")
  proof
    assume ?L
    then obtain k where "k \<in> set ?ks" "?P k" by blast
    with vis[of k] trimmed[of k] show ?R by blast
  next
    assume ?R
    then obtain k where k: "isVisibleTo target (JStr k) src = Some True" "js_trim k = k" "?P k" by blast
    from k(3) have "\<not> nullish (toLookup src k)" using nullish_unrecorded by fastforce
    with k vis[OF k(2) nb[OF k(1)]] show ?L by blast
  qed
  have ne: "?ks \<noteq> []" if "(\<exists>k \<in> set ?ks. ?P k) \<or> cr_promoted (resolveSessionCoordinator target src None d)"
    using that by (auto simp: resolveSessionCoordinator_def Let_def)
  show ?thesis
    unfolding authority_cases t Let_def ex[symmetric] coordinatorAgentIDFor_def using False assms(3) ne by blast
qed

theorem authority_iff_visible_coordinator_witness:
  "au_allowed (hasCoordinatorAuthority (JStr ''carl'') (JStr ''kid'') Undefined (ArrSource example_promotion) Undefined) \<longleftrightarrow>
     (\<exists>k. isVisibleTo (JStr ''kid'') (JStr k) (ArrSource example_promotion) = Some True \<and> js_trim k = k
        \<and> recorded_coordinator (toLookup (ArrSource example_promotion) k) = Some (normalizeID (JStr ''carl'')))
     \<or> (cr_promoted (resolveSessionCoordinator (JStr ''kid'') (ArrSource example_promotion) None Undefined)
        \<and> coordinatorAgentIDFor (JStr ''kid'') (ArrSource example_promotion) None Undefined = Some (normalizeID (JStr ''carl'')))"
proof (rule authority_iff_visible_coordinator[OF example_finite])
  show "\<not> aw_truncated (coordinator_walk (JStr ''kid'') (ArrSource example_promotion) Undefined)"
    by (simp add: resolveAncestorChain_def trim_eval walk_max_depth_def COORDINATOR_MAX_ANCESTOR_DEPTH_def
      walk_loop_go walk_loop_stop example_promotion_reads)
  show "normalizeID (JStr ''carl'') \<noteq> []" by (simp add: trim_eval)
qed

text \<open>
  C7: Whoever the resolver answers for a session has authority over it: \<open>hasCoordinatorAuthority\<close>
  allows the resolved coordinator of the target, recorded, inherited or promoted, on every tree and
  at every depth bound.
\<close>

theorem resolved_coordinator_has_authority:
  assumes "coordinatorAgentIDFor target src persist d = Some a"
  shows "au_allowed (hasCoordinatorAuthority (JStr a) target Undefined src d)"
proof -
  from assms have a: "cr_coordinatorAgentID (resolveSessionCoordinator target src persist d) = Some a"
    by (simp add: coordinatorAgentIDFor_def)
  obtain k where k: "k \<in> set (aw_chain (coordinator_walk target src d))" "a \<in> set (participantAgentIDsOf (toLookup src k))"
    "\<not> cr_promoted (resolveSessionCoordinator target src persist d) \<Longrightarrow> recorded_coordinator (toLookup src k) = Some a"
    using resolver_owner[OF a] by metis
  have "normalizeID target \<noteq> []" using k(1) by (intro notI) (simp add: resolveAncestorChain_def)
  then have "js_nc target Undefined = target" by (cases target) (simp_all add: js_nc_def normalizeID_def)
  moreover have "normalizeID (JStr a) = a" "a \<noteq> []" using participants_nonblank[OF k(2)] by auto
  ultimately show ?thesis
    using k a \<open>normalizeID target \<noteq> []\<close> promoted_any_persist[of target src None d persist]
    by (auto simp: authority_cases Let_def)
qed

theorem resolved_coordinator_has_authority_witness:
  "au_allowed (hasCoordinatorAuthority (JStr ''alice'') (JStr ''lone'') Undefined (ArrSource example_promotion) Undefined)"
  by (rule resolved_coordinator_has_authority[where persist = None])
    (simp add: coordinatorAgentIDFor_def coordinator_eval Let_def)

text \<open>
  A promoted coordinator that was never written down does not answer identically: over a
  child that has a coordinator of its own, the agent that promotion picks for the parent is refused,
  and the same agent is allowed as soon as the promotion is persisted.
\<close>

theorem unpersisted_promotion_denied_below:
  "let src = ArrSource example_promotion;
       src' = FunSource ((toLookup src)(''root'' := set_coordinator (toLookup src ''root'') ''alice''))
   in coordinatorAgentIDFor (JStr ''root'') src None Undefined = Some ''alice''
      \<and> \<not> au_allowed (hasCoordinatorAuthority (JStr ''alice'') (JStr ''kid'') Undefined src Undefined)
      \<and> au_allowed (hasCoordinatorAuthority (JStr ''alice'') (JStr ''kid'') Undefined src' Undefined)"
proof -
  let ?src = "ArrSource example_promotion"
  have root: "aw_chain (coordinator_walk (JStr ''root'') ?src Undefined) = [''root'']"
    by (simp add: resolveAncestorChain_def trim_eval walk_max_depth_def COORDINATOR_MAX_ANCESTOR_DEPTH_def
      walk_loop_go walk_loop_stop example_promotion_reads)
  obtain ps where ps: "toLookup ?src ''root'' = JObj ps"
    using participants_obj[of "toLookup ?src ''root''"] by (auto simp: example_promotion_reads)
  have rec: "recorded_coordinator (set_coordinator (toLookup ?src ''root'') ''alice'') = Some ''alice''"
    using set_coordinator_reads[OF ps, of "''alice''"]
    by (simp add: recorded_coordinator_Some example_promotion_reads trim_eval)
  show ?thesis
    unfolding authority_cases Let_def coordinatorAgentIDFor_def
    using rec persist_walk[OF ps, of "JStr ''kid''" "''alice''" Undefined]
    by (simp add: js_nc_def coordinator_eval root Let_def trim_eval)
qed

end
