(* ===== verification/SessionSubtree.thy ===== *)
theory SessionSubtree
  imports SessionAncestry
begin

text \<open>
  The bounded walk down the session tree, \<open>src/core/agents/session-subtree.mjs\<close>: the fan-out
  set of a subtree operation such as a halt. It stops at a node cap and says so. Its own copies
  of \<open>normalizeID\<close> and \<open>parentSessionIDOf\<close> have the text of \<open>normalizeSessionID\<close> and
  \<open>sessionParentID\<close>.
\<close>

section \<open>The walk\<close>

definition childrenIndexFrom :: "jsval \<Rightarrow> string \<Rightarrow> string list" where
  "childrenIndexFrom sessions parentID =
     children_of (foldl add_child [] (arr_of sessions)) (normalizeSessionID (JStr parentID))"

text \<open>
  \<open>ChildrenOf\<close> is the injected child source, answering an array or nothing; \<open>ListedSessions\<close>
  the array passed as \<open>options.sessions\<close>; \<open>NoChildren\<close> neither.
\<close>

datatype children_source =
    ChildrenOf "string \<Rightarrow> jsval list option"
  | ListedSessions "jsval list"
  | NoChildren

record subtree =
  st_sessionIDs :: "string list"
  st_truncated :: bool

text \<open>The inner loop over the children of one session; it breaks at the cap.\<close>

fun take_children :: "nat \<Rightarrow> jsval list \<Rightarrow> string list \<Rightarrow> string list \<Rightarrow> string list \<times> string list \<times> bool" where
  "take_children maxNodes [] sessionIDs queue = (sessionIDs, queue, False)"
| "take_children maxNodes (childID # rest) sessionIDs queue =
     (let k = normalizeSessionID childID
      in if k = [] \<or> k \<in> set sessionIDs then take_children maxNodes rest sessionIDs queue
         else if maxNodes \<le> length sessionIDs then (sessionIDs, queue, True)
         else take_children maxNodes rest (sessionIDs @ [k]) (queue @ [k]))"

lemma take_children_grows:
  "\<exists>new. fst (take_children n cs ids q) = ids @ new \<and> fst (snd (take_children n cs ids q)) = q @ new
    \<and> (length ids \<le> n \<longrightarrow> length (ids @ new) \<le> n) \<and> (distinct ids \<longrightarrow> distinct (ids @ new))
    \<and> (n \<le> length ids \<longrightarrow> new = [])"
proof (induction n cs ids q rule: take_children.induct)
  case (2 n c cs ids q)
  let ?k = "normalizeSessionID c"
  show ?case
  proof (cases "?k = [] \<or> ?k \<in> set ids \<or> n \<le> length ids")
    case True
    with "2.IH"(1) show ?thesis by (auto simp: Let_def)
  next
    case False
    then obtain new where "fst (take_children n cs (ids @ [?k]) (q @ [?k])) = (ids @ [?k]) @ new
      \<and> fst (snd (take_children n cs (ids @ [?k]) (q @ [?k]))) = (q @ [?k]) @ new
      \<and> (length (ids @ [?k]) \<le> n \<longrightarrow> length ((ids @ [?k]) @ new) \<le> n)
      \<and> (distinct (ids @ [?k]) \<longrightarrow> distinct ((ids @ [?k]) @ new))"
      using "2.IH"(2)[OF refl] by auto
    with False show ?thesis by (intro exI[of _ "?k # new"]) (simp add: Let_def)
  qed
qed simp

function subtree_loop :: "(string \<Rightarrow> jsval list) \<Rightarrow> nat \<Rightarrow> string list \<Rightarrow> string list \<Rightarrow> subtree" where
  "subtree_loop childrenOf maxNodes sessionIDs [] = \<lparr>st_sessionIDs = sessionIDs, st_truncated = False\<rparr>"
| "subtree_loop childrenOf maxNodes sessionIDs (current # queue) =
     (if snd (snd (take_children maxNodes (childrenOf current) sessionIDs queue))
      then \<lparr>st_sessionIDs = fst (take_children maxNodes (childrenOf current) sessionIDs queue), st_truncated = True\<rparr>
      else subtree_loop childrenOf maxNodes (fst (take_children maxNodes (childrenOf current) sessionIDs queue))
             (fst (snd (take_children maxNodes (childrenOf current) sessionIDs queue))))"
  by pat_completeness auto
termination
proof (relation "measures [\<lambda>(_, n, ids, _). n - length ids, \<lambda>(_, _, _, q). length q]", goal_cases)
  case (2 f n ids c q)
  obtain new where "fst (take_children n (f c) ids q) = ids @ new" "fst (snd (take_children n (f c) ids q)) = q @ new"
    "length ids \<le> n \<longrightarrow> length (ids @ new) \<le> n" "n \<le> length ids \<longrightarrow> new = []"
    using take_children_grows[of n "f c" ids q] by blast
  then show ?case by (cases new) auto
qed simp

definition max_nodes :: "jsval \<Rightarrow> nat" where
  "max_nodes maxNodes = (case js_Number maxNodes of
     Fin q \<Rightarrow> if 0 < q then nat (js_trunc q) else 1000 | _ \<Rightarrow> 1000)"

definition resolveSubtreeSessionIDs :: "jsval \<Rightarrow> children_source \<Rightarrow> jsval \<Rightarrow> subtree" where
  "resolveSubtreeSessionIDs rootSessionID src maxNodes =
     (let root = normalizeSessionID rootSessionID
      in if root = [] then \<lparr>st_sessionIDs = [], st_truncated = False\<rparr>
         else case src of
           ChildrenOf f \<Rightarrow> subtree_loop (\<lambda>k. case f k of None \<Rightarrow> [] | Some cs \<Rightarrow> cs) (max_nodes maxNodes) [root] [root]
         | ListedSessions sessions \<Rightarrow>
             subtree_loop (\<lambda>k. map JStr (childrenIndexFrom (JArr sessions) k)) (max_nodes maxNodes) [root] [root]
         | NoChildren \<Rightarrow> \<lparr>st_sessionIDs = [root], st_truncated = False\<rparr>)"

definition subtreeSessionIDs :: "jsval \<Rightarrow> children_source \<Rightarrow> jsval \<Rightarrow> string list" where
  "subtreeSessionIDs rootSessionID src maxNodes = st_sessionIDs (resolveSubtreeSessionIDs rootSessionID src maxNodes)"

section \<open>Bounds\<close>

lemma subtree_loop_bounded:
  assumes "length ids \<le> max 1 n" "distinct ids"
  shows "length (st_sessionIDs (subtree_loop f n ids q)) \<le> max 1 n \<and> distinct (st_sessionIDs (subtree_loop f n ids q))"
  using assms
proof (induction f n ids q rule: subtree_loop.induct)
  case (2 f n ids c q)
  obtain new where new: "fst (take_children n (f c) ids q) = ids @ new" "length ids \<le> n \<longrightarrow> length (ids @ new) \<le> n"
    "distinct ids \<longrightarrow> distinct (ids @ new)" "n \<le> length ids \<longrightarrow> new = []"
    using take_children_grows[of n "f c" ids q] by blast
  then have "length (ids @ new) \<le> max 1 n" "distinct (ids @ new)" using "2.prems" by (cases "length ids \<le> n"; auto)+
  with "2.IH" new(1) show ?case by simp
qed simp_all

section \<open>The capped walk is a prefix of the whole walk\<close>

lemma visit_child_simps:
  "visit_child (ids, q) c = (if c \<in> set ids then (ids, q) else (ids @ [c], q @ [c]))"
  by (simp add: visit_child_def)

lemma visit_children_grow: "\<exists>new. foldl visit_child (ids, q) cs = (ids @ new, q @ new)"
  using visit_children_pending by blast

lemma descendants_loop_grows: "\<exists>more. descendants_loop m q ids = ids @ more"
proof (induction m q ids rule: descendants_loop.induct)
  case (2 m c q ids)
  obtain new where "foldl visit_child (ids, q) (children_of m c) = (ids @ new, q @ new)"
    using visit_children_grow by blast
  with 2 show ?case by auto
qed simp

text \<open>The children loop against the uncapped one, for children that are normalized ids.\<close>

lemma take_children_visit:
  assumes "\<forall>c \<in> set cs. js_trim c = c \<and> c \<noteq> []" "length ids \<le> n"
  shows "case foldl visit_child (ids, q) cs of (ids', q') \<Rightarrow>
    if length ids' \<le> n then take_children n (map JStr cs) ids q = (ids', q', False)
    else fst (take_children n (map JStr cs) ids q) = take n ids' \<and> snd (snd (take_children n (map JStr cs) ids q))"
  using assms
proof (induction cs arbitrary: ids q)
  case (Cons c cs)
  show ?case
  proof (cases "c \<in> set ids")
    case True
    with Cons.IH[of ids q] Cons.prems visit_child_simps[of ids q c] show ?thesis by (auto split: prod.splits if_splits)
  next
    case False
    obtain new where new: "foldl visit_child (ids @ [c], q @ [c]) cs = ((ids @ [c]) @ new, (q @ [c]) @ new)"
      using visit_children_grow by blast
    with False have step: "foldl visit_child (ids, q) (c # cs) = (ids @ c # new, q @ c # new)"
      by (simp add: visit_child_simps)
    show ?thesis
    proof (cases "length ids = n")
      case True
      with False Cons.prems step show ?thesis by simp
    next
      case neq: False
      with Cons.prems Cons.IH[of "ids @ [c]" "q @ [c]"] new step False show ?thesis by (auto split: if_splits)
    qed
  qed
qed simp

lemma child_ids_normal: "c \<in> set (children_of (foldl add_child [] sessions) p) \<Longrightarrow> js_trim c = c \<and> c \<noteq> []"
  by (auto simp: children_of_index)

lemma index_children: "childrenIndexFrom (JArr sessions) k = children_of (foldl add_child [] sessions) (js_trim k)"
  by (simp add: childrenIndexFrom_def)

lemma subtree_loop_prefix:
  assumes "length ids \<le> n" "\<forall>k \<in> set q. js_trim k = k"
  shows "subtree_loop (\<lambda>k. map JStr (childrenIndexFrom (JArr sessions) k)) n ids q =
    \<lparr>st_sessionIDs = take n (descendants_loop (foldl add_child [] sessions) q ids),
     st_truncated = (n < length (descendants_loop (foldl add_child [] sessions) q ids))\<rparr>"
  using assms
proof (induction "foldl add_child [] sessions" q ids rule: descendants_loop.induct)
  case (2 c q ids)
  let ?m = "foldl add_child [] sessions"
  let ?cs = "children_of ?m c"
  have kids: "childrenIndexFrom (JArr sessions) c = ?cs" using "2.prems" by (simp add: index_children)
  obtain new where new: "foldl visit_child (ids, q) ?cs = (ids @ new, q @ new)" "set new \<subseteq> set ?cs"
    using visit_children_pending by blast
  have norm: "\<forall>k \<in> set ?cs. js_trim k = k \<and> k \<noteq> []" using child_ids_normal by blast
  note tc = take_children_visit[OF norm "2.prems"(1), of q]
  obtain more where more: "descendants_loop ?m (q @ new) (ids @ new) = (ids @ new) @ more"
    using descendants_loop_grows by blast
  show ?case
  proof (cases "length (ids @ new) \<le> n")
    case True
    with tc new have "take_children n (map JStr ?cs) ids q = (ids @ new, q @ new, False)" by simp
    moreover have "\<forall>k \<in> set (q @ new). js_trim k = k" using norm new(2) "2.prems"(2) by auto
    ultimately show ?thesis using "2.hyps" True new kids by simp
  next
    case False
    with tc new obtain q' where "take_children n (map JStr ?cs) ids q = (take n (ids @ new), q', True)"
      by (cases "take_children n (map JStr ?cs) ids q") auto
    with False new kids more show ?thesis by simp
  qed
qed simp

section \<open>Property\<close>

text \<open>
  C6: The capped walk returns exactly the first \<open>maxNodes\<close> ids of the full list of descendants
  (which is the list the visibility module computes), in the same breadth-first order, and reports
  \<open>truncated\<close> precisely when some descendant was left out.
\<close>

theorem subtree_is_prefix_of_descendants:
  assumes "1 \<le> max_nodes maxNodes"
  shows "resolveSubtreeSessionIDs rootID (ListedSessions sessions) maxNodes =
     \<lparr>st_sessionIDs = take (max_nodes maxNodes) (descendantSessionIDs rootID (ArrSource sessions)),
      st_truncated = (max_nodes maxNodes < length (descendantSessionIDs rootID (ArrSource sessions)))\<rparr>"
proof (cases "normalizeSessionID rootID = []")
  case True
  then show ?thesis by (simp add: resolveSubtreeSessionIDs_def descendantSessionIDs_def)
next
  case False
  with assms show ?thesis
    by (simp add: resolveSubtreeSessionIDs_def descendantSessionIDs_def Let_def subtree_loop_prefix
        del: descendants_loop.simps subtree_loop.simps)
qed

theorem subtree_is_prefix_of_descendants_witness:
  "resolveSubtreeSessionIDs (JStr ''root'') (ListedSessions example_tree) (JNum (Fin 2)) =
     \<lparr>st_sessionIDs = [''root'', ''kid''], st_truncated = True\<rparr>"
proof -
  have n: "max_nodes (JNum (Fin 2)) = 2" by (simp add: max_nodes_def js_trunc_def)
  have "descendantSessionIDs (JStr ''root'') (ArrSource example_tree) = [''root'', ''kid'', ''leaf'']"
    by (simp add: descendantSessionIDs_def example_tree_def add_child_def sessionParentID_def Let_def
        children_of_def visit_child_def js_trim_def js_space_def)
  with n subtree_is_prefix_of_descendants[of "JNum (Fin 2)" "JStr ''root''" example_tree] show ?thesis by simp
qed

end
