(* ===== verification/HybridClock.thy ===== *)
theory HybridClock
  imports JSValue "HOL-Library.List_Lexorder" "HOL-Library.Char_ord"
begin

text \<open>
  The hybrid logical clock that stamps commits, \<open>src/core/clock/hybrid-logical-clock.mjs\<close>:
  the clock's state, \<open>tick\<close>, \<open>observe\<close>, \<open>seed\<close>, and the text form of a stamp. What
  \<open>this.now()\<close> and \<open>defaultUnixMicros()\<close> answer are arguments of the operations; a
  number of microseconds is a natural number, and the product by 1000 is exact.
\<close>

section \<open>Text form\<close>

definition padStart :: "nat \<Rightarrow> string \<Rightarrow> string" where
  "padStart width s = replicate (width - length s) (CHR ''0'') @ s"

definition formatClock :: "nat \<Rightarrow> nat \<Rightarrow> string \<Rightarrow> nat \<Rightarrow> string" where
  "formatClock physicalMicros logical runnerID logicalWidth =
     padStart 16 (nat_digits physicalMicros) @ ''-'' @ padStart logicalWidth (nat_digits logical) @ ''-'' @ runnerID"

text \<open>The characters that \<open>.\<close> does not match in a regular expression.\<close>

definition line_terminator :: "char \<Rightarrow> bool" where
  "line_terminator c = ((of_char c :: nat) \<in> {10, 13})"

record parsed_clock =
  pc_physicalMicros :: nat
  pc_logical :: nat
  pc_runnerID :: string

definition parse_clock_string :: "string \<Rightarrow> parsed_clock option" where
  "parse_clock_string s =
     (let physical = take 16 s; sep1 = take 1 (drop 16 s); logical = take 6 (drop 17 s);
          sep2 = take 1 (drop 23 s); runner = drop 24 s
      in if length physical = 16 \<and> list_all is_dec_digit physical \<and> sep1 = ''-''
            \<and> length logical = 6 \<and> list_all is_dec_digit logical \<and> sep2 = ''-''
            \<and> runner \<noteq> [] \<and> list_all (\<lambda>c. \<not> line_terminator c) runner
         then if of_nat (digits_val 10 physical) \<le> max_safe_integer \<and> of_nat (digits_val 10 logical) \<le> max_safe_integer
              then Some \<lparr>pc_physicalMicros = digits_val 10 physical, pc_logical = digits_val 10 logical, pc_runnerID = runner\<rparr>
              else None
         else None)"

fun parseClock :: "jsval \<Rightarrow> parsed_clock option" where
  "parseClock (JStr s) = parse_clock_string s"
| "parseClock _ = None"

section \<open>Runner ids and readings\<close>

definition runner_char :: "char \<Rightarrow> bool" where
  "runner_char c = (let n = of_char c :: nat in
     (97 \<le> n \<and> n \<le> 122) \<or> (65 \<le> n \<and> n \<le> 90) \<or> (48 \<le> n \<and> n \<le> 57) \<or> c = CHR ''_'' \<or> c = CHR ''-'')"

text \<open>The first replacement turns every maximal run of other characters into one dash.\<close>

fun dash_runs :: "bool \<Rightarrow> string \<Rightarrow> string" where
  "dash_runs in_run [] = []"
| "dash_runs in_run (c # cs) =
     (if runner_char c then c # dash_runs False cs
      else if in_run then dash_runs True cs else CHR ''-'' # dash_runs True cs)"

definition strip_dashes :: "string \<Rightarrow> string" where
  "strip_dashes s = rev (dropWhile (\<lambda>c. c = CHR ''-'') (rev (dropWhile (\<lambda>c. c = CHR ''-'') s)))"

definition normalizeRunnerID :: "jsval \<Rightarrow> string" where
  "normalizeRunnerID value =
     (let normalized = strip_dashes (dash_runs False (js_trim (js_String (js_or value (JStr ''runner'')))))
      in if normalized = [] then ''runner'' else normalized)"

definition normalizeMicros :: "jsval \<Rightarrow> nat \<Rightarrow> nat" where
  "normalizeMicros value defaultUnixMicros =
     (case js_Number value of
        Fin q \<Rightarrow> if q < 0 then defaultUnixMicros
                 else let truncated = nat (js_trunc q)
                      in if truncated < 100000000000000 then truncated * 1000 else truncated
      | _ \<Rightarrow> defaultUnixMicros)"

section \<open>The clock\<close>

record hybrid_clock =
  hc_runnerID :: string
  hc_logicalWidth :: nat
  hc_lastPhysicalMicros :: nat
  hc_logical :: nat

definition DEFAULT_LOGICAL_WIDTH :: nat where
  "DEFAULT_LOGICAL_WIDTH = 6"

text \<open>\<open>randomUUID\<close> is what the function of that name answers.\<close>

definition new_clock :: "jsval \<Rightarrow> nat option \<Rightarrow> string \<Rightarrow> hybrid_clock" where
  "new_clock runnerID logicalWidth randomUUID =
     \<lparr>hc_runnerID = normalizeRunnerID (js_or runnerID (JStr randomUUID)),
      hc_logicalWidth = (case logicalWidth of Some (Suc n) \<Rightarrow> Suc n | _ \<Rightarrow> DEFAULT_LOGICAL_WIDTH),
      hc_lastPhysicalMicros = 0, hc_logical = 0\<rparr>"

record clock_stamp_result =
  cs_at :: nat
  cs_clock :: string

definition stamp_of :: "hybrid_clock \<Rightarrow> clock_stamp_result" where
  "stamp_of c = \<lparr>cs_at = hc_lastPhysicalMicros c,
     cs_clock = formatClock (hc_lastPhysicalMicros c) (hc_logical c) (hc_runnerID c) (hc_logicalWidth c)\<rparr>"

definition tick :: "jsval \<Rightarrow> nat \<Rightarrow> hybrid_clock \<Rightarrow> hybrid_clock \<times> clock_stamp_result" where
  "tick now dflt c =
     (let physicalMicros = normalizeMicros now dflt;
          c' = (if hc_lastPhysicalMicros c < physicalMicros
                then c\<lparr>hc_lastPhysicalMicros := physicalMicros, hc_logical := 0\<rparr>
                else c\<lparr>hc_logical := hc_logical c + 1\<rparr>)
      in (c', stamp_of c'))"

definition observe :: "jsval \<Rightarrow> jsval \<Rightarrow> nat \<Rightarrow> hybrid_clock \<Rightarrow> hybrid_clock \<times> clock_stamp_result" where
  "observe clock now dflt c =
     (case parseClock clock of
        None \<Rightarrow> tick now dflt c
      | Some parsed \<Rightarrow>
          (let physicalMicros = normalizeMicros now dflt;
               maxPhysicalMicros = max physicalMicros (max (hc_lastPhysicalMicros c) (pc_physicalMicros parsed));
               logical = (if maxPhysicalMicros = hc_lastPhysicalMicros c \<and> maxPhysicalMicros = pc_physicalMicros parsed
                          then max (hc_logical c) (pc_logical parsed) + 1
                          else if maxPhysicalMicros = hc_lastPhysicalMicros c then hc_logical c + 1
                          else if maxPhysicalMicros = pc_physicalMicros parsed then pc_logical parsed + 1
                          else 0);
               c' = c\<lparr>hc_logical := logical, hc_lastPhysicalMicros := maxPhysicalMicros\<rparr>
           in (c', stamp_of c')))"

definition seed :: "jsval \<Rightarrow> hybrid_clock \<Rightarrow> hybrid_clock" where
  "seed clock c =
     (case parseClock clock of
        None \<Rightarrow> c
      | Some parsed \<Rightarrow>
          if hc_lastPhysicalMicros c < pc_physicalMicros parsed
          then c\<lparr>hc_lastPhysicalMicros := pc_physicalMicros parsed, hc_logical := pc_logical parsed\<rparr>
          else if pc_physicalMicros parsed = hc_lastPhysicalMicros c
          then c\<lparr>hc_logical := max (hc_logical c) (pc_logical parsed)\<rparr> else c)"

section \<open>Fixed-width decimal digits\<close>

fun fixed_digits :: "nat \<Rightarrow> nat \<Rightarrow> string" where
  "fixed_digits 0 n = []"
| "fixed_digits (Suc w) n = fixed_digits w (n div 10) @ [char_of (48 + n mod 10)]"

lemma length_fixed_digits [simp]: "length (fixed_digits w n) = w"
  by (induction w arbitrary: n) auto

lemma fixed_digits_0: "fixed_digits w 0 = replicate w (CHR ''0'')"
  by (induction w) (simp_all add: replicate_append_same[symmetric] char_of_def bit_0)

lemma nat_digits_nonempty [simp]: "nat_digits n \<noteq> []"
  by (subst nat_digits.simps) simp

lemma padStart_fixed: "n < 10 ^ w \<Longrightarrow> 0 < w \<Longrightarrow> padStart w (nat_digits n) = fixed_digits w n"
proof (induction w arbitrary: n)
  case (Suc w)
  show ?case
  proof (cases "n < 10")
    case True
    then have "nat_digits n = [char_of (48 + n)]" by (subst nat_digits.simps) simp
    with True show ?thesis by (simp add: padStart_def fixed_digits_0)
  next
    case False
    with Suc.prems have w: "0 < w" by (cases w) auto
    have "n div 10 < 10 ^ w" using Suc.prems(1) by (simp add: less_mult_imp_div_less mult.commute)
    from Suc.IH[OF this w] have ih: "padStart w (nat_digits (n div 10)) = fixed_digits w (n div 10)" .
    from False have "nat_digits n = nat_digits (n div 10) @ [char_of (48 + n mod 10)]" by (subst nat_digits.simps) simp
    with ih show ?thesis by (simp add: padStart_def)
  qed
qed simp

lemma digit_char:
  assumes "d < 10"
  shows "digit_val (char_of (48 + d)) = Some d" "is_dec_digit (char_of (48 + d))"
proof -
  have "(of_char (char_of (48 + d) :: char) :: nat) = 48 + d" using assms by simp
  then show "digit_val (char_of (48 + d)) = Some d" using assms by (simp add: digit_val_def)
  then show "is_dec_digit (char_of (48 + d))" using assms by (simp add: is_digit_in_def)
qed

lemma digits_val_snoc: "digits_val b (s @ [c]) = b * digits_val b s + (case digit_val c of Some d \<Rightarrow> d | None \<Rightarrow> 0)"
  by (simp add: digits_val_def)

lemma fixed_digits_value: "n < 10 ^ w \<Longrightarrow> digits_val 10 (fixed_digits w n) = n"
proof (induction w arbitrary: n)
  case (Suc w)
  have "n div 10 < 10 ^ w" using Suc.prems by (simp add: less_mult_imp_div_less mult.commute)
  with Suc.IH[of "n div 10"] show ?case by (simp add: digits_val_snoc digit_char)
qed (simp add: digits_val_def)

lemma fixed_digits_digits: "list_all is_dec_digit (fixed_digits w n)"
  by (induction w arbitrary: n) (simp_all add: digit_char)

lemma line_free_digits: "list_all is_dec_digit s \<Longrightarrow> list_all (\<lambda>c. \<not> line_terminator c) s"
  by (auto simp: list_all_iff is_digit_in_def digit_val_def line_terminator_def Let_def split: if_splits option.splits)

section \<open>Lexicographic order of equally long texts\<close>

lemma lex_append_less:
  fixes a b c d :: "'a::linorder list"
  assumes "length a = length b"
  shows "a @ c < b @ d \<longleftrightarrow> a < b \<or> (a = b \<and> c < d)"
  using assms by (induction a b rule: list_induct2) (auto simp: less_list_code)

lemma digit_char_less:
  fixes m n :: nat
  assumes "m < 10" "n < 10"
  shows "(char_of (48 + m) :: char) < char_of (48 + n) \<longleftrightarrow> m < n"
  using assms by (simp add: less_char_def)

lemma digit_char_eq:
  fixes m n :: nat
  assumes "m < 10" "n < 10"
  shows "(char_of (48 + m) :: char) = char_of (48 + n) \<longleftrightarrow> m = n"
  using digit_char_less[OF assms] digit_char_less[OF assms(2,1)] by (metis less_irrefl linorder_neqE_nat)

lemma radix_less: "(b::nat) < 10 \<Longrightarrow> d < 10 \<Longrightarrow> 10 * a + b < 10 * c + d \<longleftrightarrow> a < c \<or> (a = c \<and> b < d)"
  by arith

lemma div_mod_less: "(m::nat) < n \<longleftrightarrow> m div 10 < n div 10 \<or> (m div 10 = n div 10 \<and> m mod 10 < n mod 10)"
  using radix_less[of "m mod 10" "n mod 10" "m div 10" "n div 10"] by simp

lemma fixed_digits_inj: "m < 10 ^ w \<Longrightarrow> n < 10 ^ w \<Longrightarrow> fixed_digits w m = fixed_digits w n \<longleftrightarrow> m = n"
  by (metis fixed_digits_value)

lemma fixed_digits_less: "m < 10 ^ w \<Longrightarrow> n < 10 ^ w \<Longrightarrow> fixed_digits w m < fixed_digits w n \<longleftrightarrow> m < n"
proof (induction w arbitrary: m n)
  case (Suc w)
  then have b: "m div 10 < 10 ^ w" "n div 10 < 10 ^ w" by (simp_all add: less_mult_imp_div_less mult.commute)
  have "fixed_digits (Suc w) m < fixed_digits (Suc w) n \<longleftrightarrow>
      fixed_digits w (m div 10) < fixed_digits w (n div 10)
      \<or> (fixed_digits w (m div 10) = fixed_digits w (n div 10) \<and> m mod 10 < n mod 10)"
    by (simp add: lex_append_less less_list_code digit_char_less)
  also have "\<dots> \<longleftrightarrow> m < n"
    using Suc.IH[OF b] fixed_digits_inj[OF b] div_mod_less[of m n] by simp
  finally show ?case .
qed simp

section \<open>Stamps and their order\<close>

datatype stamp = Stamp (st_physical: nat) (st_logical: nat) (st_runner: string)

instantiation stamp :: linorder
begin

definition less_eq_stamp :: "stamp \<Rightarrow> stamp \<Rightarrow> bool" where
  "less_eq_stamp a b = (st_physical a < st_physical b \<or> (st_physical a = st_physical b
     \<and> (st_logical a < st_logical b \<or> (st_logical a = st_logical b \<and> st_runner a \<le> st_runner b))))"

definition less_stamp :: "stamp \<Rightarrow> stamp \<Rightarrow> bool" where
  "less_stamp a b = (st_physical a < st_physical b \<or> (st_physical a = st_physical b
     \<and> (st_logical a < st_logical b \<or> (st_logical a = st_logical b \<and> st_runner a < st_runner b))))"

instance
  by standard (auto simp: less_eq_stamp_def less_stamp_def intro: stamp.expand)

end

definition clock_stamp :: "hybrid_clock \<Rightarrow> stamp" where
  "clock_stamp c = Stamp (hc_lastPhysicalMicros c) (hc_logical c) (hc_runnerID c)"

definition stamp_text :: "nat \<Rightarrow> stamp \<Rightarrow> string" where
  "stamp_text width s = formatClock (st_physical s) (st_logical s) (st_runner s) width"

text \<open>The stamps whose parts fill their columns exactly.\<close>

definition fits :: "nat \<Rightarrow> stamp \<Rightarrow> bool" where
  "fits width s \<longleftrightarrow> 0 < width \<and> st_physical s < 10 ^ 16 \<and> st_logical s < 10 ^ width"

lemma stamp_text_fixed:
  "fits w s \<Longrightarrow> stamp_text w s = fixed_digits 16 (st_physical s) @ ''-'' @ fixed_digits w (st_logical s) @ ''-'' @ st_runner s"
  by (simp add: stamp_text_def formatClock_def fits_def padStart_fixed del: fixed_digits.simps)

lemma stamp_text_less:
  assumes "fits w s" "fits w t"
  shows "stamp_text w s < stamp_text w t \<longleftrightarrow> s < t"
proof -
  have "st_physical s < 10 ^ 16" "st_physical t < 10 ^ 16" "st_logical s < 10 ^ w" "st_logical t < 10 ^ w"
    using assms by (simp_all add: fits_def)
  then show ?thesis
    by (simp add: stamp_text_fixed assms lex_append_less fixed_digits_less fixed_digits_inj less_stamp_def less_list_code
        del: fixed_digits.simps)
qed

lemma stamp_text_parse:
  assumes "fits 6 s" "st_physical s \<le> 9007199254740991" "st_runner s \<noteq> []" "list_all (\<lambda>c. \<not> line_terminator c) (st_runner s)"
  shows "parseClock (JStr (stamp_text 6 s)) =
    Some \<lparr>pc_physicalMicros = st_physical s, pc_logical = st_logical s, pc_runnerID = st_runner s\<rparr>"
proof -
  have "(of_nat (st_physical s) :: rat) \<le> 9007199254740991" using assms(2) by (metis of_nat_le_iff of_nat_numeral)
  moreover have "st_logical s < 1000000" using assms(1) by (simp add: fits_def)
  then have "(of_nat (st_logical s) :: rat) \<le> 9007199254740991" by linarith
  ultimately show ?thesis
    using assms fixed_digits_value[of "st_physical s" 16] fixed_digits_value[of "st_logical s" 6]
    by (simp add: parse_clock_string_def stamp_text_fixed fits_def fixed_digits_digits max_safe_integer_def
        del: fixed_digits.simps)
qed

section \<open>The interface of a stamping clock\<close>

text \<open>
  Every operation moves the clock's reading forward, and one that issues a stamp moves it strictly.
  \<open>run_ops\<close> collects, for each stamp issued, the state that issued it.
\<close>

fun run_ops :: "('i \<Rightarrow> 's \<Rightarrow> 's \<times> 'o option) \<Rightarrow> 'i list \<Rightarrow> 's \<Rightarrow> ('s \<times> 'o) list" where
  "run_ops step [] s = []"
| "run_ops step (i # is) s =
     (case step i s of
        (s', None) \<Rightarrow> run_ops step is s'
      | (s', Some r) \<Rightarrow> (s', r) # run_ops step is s')"

locale stamping_clock =
  fixes step :: "'i \<Rightarrow> 's \<Rightarrow> 's \<times> 'o option"
    and reading :: "'s \<Rightarrow> 'k::linorder"
    and shows_reading :: "'s \<Rightarrow> 'o \<Rightarrow> bool"
    and keeps :: "'s \<Rightarrow> 's \<Rightarrow> bool"
  assumes silent: "step i s = (s', None) \<Longrightarrow> reading s \<le> reading s' \<and> keeps s s'"
    and issues: "step i s = (s', Some r) \<Longrightarrow> reading s < reading s' \<and> shows_reading s' r \<and> keeps s s'"
    and keeps_trans: "keeps s s' \<Longrightarrow> keeps s' s'' \<Longrightarrow> keeps s s''"
begin

lemma run_increases:
  "sorted_wrt (<) (map (reading \<circ> fst) (run_ops step is s))
    \<and> (\<forall>(s', r) \<in> set (run_ops step is s). reading s < reading s' \<and> shows_reading s' r \<and> keeps s s')"
proof (induction "is" arbitrary: s)
  case (Cons i "is")
  obtain s' o1 where st: "step i s = (s', o1)" by (cases "step i s")
  note IH = Cons.IH[of s']
  show ?case
  proof (cases o1)
    case None
    with st silent have "reading s \<le> reading s'" "keeps s s'" by auto
    with IH st None show ?thesis by (auto intro: keeps_trans dest: le_less_trans)
  next
    case (Some r)
    with st issues have "reading s < reading s'" "shows_reading s' r" "keeps s s'" by auto
    with IH st Some show ?thesis by (auto intro: keeps_trans less_trans)
  qed
qed simp

end

datatype clock_input = TickIn jsval nat | ObserveIn jsval jsval nat | SeedIn jsval

fun clock_step :: "clock_input \<Rightarrow> hybrid_clock \<Rightarrow> hybrid_clock \<times> clock_stamp_result option" where
  "clock_step (TickIn now dflt) c = (case tick now dflt c of (c', r) \<Rightarrow> (c', Some r))"
| "clock_step (ObserveIn clock now dflt) c = (case observe clock now dflt c of (c', r) \<Rightarrow> (c', Some r))"
| "clock_step (SeedIn clock) c = (seed clock c, None)"

definition same_runner :: "hybrid_clock \<Rightarrow> hybrid_clock \<Rightarrow> bool" where
  "same_runner c c' \<longleftrightarrow> hc_runnerID c' = hc_runnerID c \<and> hc_logicalWidth c' = hc_logicalWidth c"

lemma tick_advances:
  "tick now dflt c = (c', r) \<Longrightarrow> clock_stamp c < clock_stamp c' \<and> r = stamp_of c' \<and> same_runner c c'"
  by (auto simp: tick_def Let_def clock_stamp_def less_stamp_def same_runner_def split: if_splits)

lemma observe_advances:
  assumes "observe clock now dflt c = (c', r)"
  shows "clock_stamp c < clock_stamp c' \<and> r = stamp_of c' \<and> same_runner c c'"
proof (cases "parseClock clock")
  case None
  with assms tick_advances show ?thesis by (simp add: observe_def)
next
  case (Some p)
  with assms show ?thesis
    by (auto simp: observe_def Let_def clock_stamp_def less_stamp_def same_runner_def max_def split: if_splits)
qed

lemma observe_exceeds:
  assumes "observe clock now dflt c = (c', r)" "parseClock clock = Some p"
  shows "Stamp (pc_physicalMicros p) (pc_logical p) runner < clock_stamp c'"
  using assms by (auto simp: observe_def Let_def clock_stamp_def less_stamp_def max_def split: if_splits)

lemma seed_advances: "clock_stamp c \<le> clock_stamp (seed clock c) \<and> same_runner c (seed clock c)"
  by (auto simp: seed_def clock_stamp_def less_eq_stamp_def same_runner_def split: option.splits)

interpretation hybrid: stamping_clock clock_step clock_stamp "\<lambda>c r. r = stamp_of c" same_runner
proof unfold_locales
  fix i s s' assume "clock_step i s = (s', None)"
  then show "clock_stamp s \<le> clock_stamp s' \<and> same_runner s s'"
    using seed_advances by (cases i) (auto split: prod.splits)
next
  fix i s s' r assume "clock_step i s = (s', Some r)"
  then show "clock_stamp s < clock_stamp s' \<and> r = stamp_of s' \<and> same_runner s s'"
    using tick_advances observe_advances by (cases i) (auto split: prod.splits)
next
  fix s s' s'' assume "same_runner s s'" "same_runner s' s''"
  then show "same_runner s s''" by (simp add: same_runner_def)
qed

lemma stamp_of_text: "cs_clock (stamp_of c) = stamp_text (hc_logicalWidth c) (clock_stamp c)"
  by (simp add: stamp_of_def stamp_text_def clock_stamp_def)

section \<open>Runner ids can be parsed back\<close>

lemma dash_runs_chars: "list_all runner_char (dash_runs b s)"
  by (induction b s rule: dash_runs.induct) (auto simp: runner_char_def)

lemma strip_dashes_subset: "set (strip_dashes s) \<subseteq> set s"
proof
  fix x assume "x \<in> set (strip_dashes s)"
  then have "x \<in> set (dropWhile (\<lambda>c. c = CHR ''-'') s)"
    unfolding strip_dashes_def set_rev by (metis set_dropWhileD set_rev)
  then show "x \<in> set s" by (rule set_dropWhileD)
qed

lemma runner_char_line: "runner_char c \<Longrightarrow> \<not> line_terminator c"
  by (auto simp: runner_char_def line_terminator_def Let_def)

lemma normalizeRunnerID_ok:
  "normalizeRunnerID v \<noteq> [] \<and> list_all (\<lambda>c. \<not> line_terminator c) (normalizeRunnerID v)"
proof -
  have "list_all runner_char (normalizeRunnerID v)"
    using strip_dashes_subset[of "dash_runs False (js_trim (js_String (js_or v (JStr ''runner''))))"]
      dash_runs_chars[of False "js_trim (js_String (js_or v (JStr ''runner'')))"]
    by (auto simp: normalizeRunnerID_def Let_def list_all_iff runner_char_def)
  then show ?thesis by (auto simp: normalizeRunnerID_def Let_def list_all_iff runner_char_line)
qed

section \<open>Properties\<close>

text \<open>
  Inputs under which every stamp keeps to its columns: the wall clock and the clock's own time have at most sixteen digits, and the
  counter, as it starts and as it is heard from other clocks, has room for one step for each input.
\<close>

fun wall_reading :: "clock_input \<Rightarrow> nat" where
  "wall_reading (TickIn now dflt) = normalizeMicros now dflt"
| "wall_reading (ObserveIn clock now dflt) = normalizeMicros now dflt"
| "wall_reading (SeedIn clock) = 0"

fun heard_counter :: "clock_input \<Rightarrow> nat" where
  "heard_counter (TickIn now dflt) = 0"
| "heard_counter (ObserveIn clock now dflt) = (case parseClock clock of Some p \<Rightarrow> pc_logical p | None \<Rightarrow> 0)"
| "heard_counter (SeedIn clock) = (case parseClock clock of Some p \<Rightarrow> pc_logical p | None \<Rightarrow> 0)"

definition columns_hold :: "clock_input list \<Rightarrow> hybrid_clock \<Rightarrow> bool" where
  "columns_hold inputs c \<longleftrightarrow> 0 < hc_logicalWidth c \<and> hc_lastPhysicalMicros c < 10 ^ 16
     \<and> hc_logical c + length inputs < 10 ^ hc_logicalWidth c
     \<and> (\<forall>i \<in> set inputs. wall_reading i < 10 ^ 16 \<and> heard_counter i + length inputs < 10 ^ hc_logicalWidth c)"

lemma digits_val_bound: "list_all is_dec_digit s \<Longrightarrow> digits_val 10 s < 10 ^ length s"
proof (induction s rule: rev_induct)
  case (snoc c s)
  then have "digit_val c \<noteq> None \<and> the (digit_val c) < 10" by (auto simp: is_digit_in_def split: option.splits)
  with snoc show ?case by (auto simp: digits_val_snoc)
qed (simp add: digits_val_def)

lemma parsed_physical: "parseClock v = Some p \<Longrightarrow> pc_physicalMicros p < 10 ^ 16"
proof (cases v)
  case (JStr s)
  assume "parseClock v = Some p"
  with JStr have "pc_physicalMicros p = digits_val 10 (take 16 s)" "length (take 16 s) = 16" "list_all is_dec_digit (take 16 s)"
    by (auto simp: parse_clock_string_def Let_def split: if_splits)
  then show ?thesis using digits_val_bound[of "take 16 s"] by (metis)
qed simp_all

lemma step_columns:
  assumes "clock_step i c = (c', r)" "hc_lastPhysicalMicros c < 10 ^ 16" "wall_reading i < 10 ^ 16"
  shows "hc_lastPhysicalMicros c' < 10 ^ 16" "hc_logical c' \<le> max (hc_logical c) (heard_counter i) + 1"
proof -
  have "hc_lastPhysicalMicros c' < 10 ^ 16 \<and> hc_logical c' \<le> max (hc_logical c) (heard_counter i) + 1"
  proof (cases i)
    case (TickIn now dflt)
    with assms show ?thesis by (auto simp: tick_def Let_def split: if_splits)
  next
    case (ObserveIn clock now dflt)
    with assms parsed_physical[of clock] show ?thesis
      by (cases "parseClock clock") (auto simp: observe_def tick_def Let_def split: if_splits)
  next
    case (SeedIn clock)
    with assms parsed_physical[of clock] show ?thesis
      by (cases "parseClock clock") (auto simp: seed_def split: if_splits)
  qed
  then show "hc_lastPhysicalMicros c' < 10 ^ 16" "hc_logical c' \<le> max (hc_logical c) (heard_counter i) + 1" by simp_all
qed

lemma run_columns:
  assumes "hc_lastPhysicalMicros c < 10 ^ 16" "hc_logical c + length inputs \<le> m"
    and "\<forall>i \<in> set inputs. wall_reading i < 10 ^ 16 \<and> heard_counter i + length inputs \<le> m"
  shows "\<forall>(c', r) \<in> set (run_ops clock_step inputs c). hc_lastPhysicalMicros c' < 10 ^ 16 \<and> hc_logical c' \<le> m"
  using assms
proof (induction inputs arbitrary: c)
  case (Cons i inputs)
  obtain c1 r where st: "clock_step i c = (c1, r)" by (cases "clock_step i c")
  note c1 = step_columns[OF st Cons.prems(1)]
  have "hc_lastPhysicalMicros c1 < 10 ^ 16" "hc_logical c1 + length inputs \<le> m" using c1 Cons.prems(2,3) by fastforce+
  moreover have "\<forall>j \<in> set inputs. wall_reading j < 10 ^ 16 \<and> heard_counter j + length inputs \<le> m" using Cons.prems(3) by fastforce
  ultimately show ?case using Cons.IH[of c1] st by (auto split: option.splits)
qed simp

lemma texts_increase_in_columns:
  assumes "\<forall>(c', r) \<in> set (run_ops clock_step inputs c). fits (hc_logicalWidth c) (clock_stamp c')"
  shows "sorted_wrt (<) (map (cs_clock \<circ> snd) (run_ops clock_step inputs c))"
proof -
  have shown: "cs_clock r = stamp_text (hc_logicalWidth c) (clock_stamp c')"
    if "(c', r) \<in> set (run_ops clock_step inputs c)" for c' r
    using hybrid.run_increases[of inputs c] that by (auto simp: stamp_of_text same_runner_def)
  have "sorted_wrt (\<lambda>x y. clock_stamp (fst x) < clock_stamp (fst y)) (run_ops clock_step inputs c)"
    using hybrid.run_increases[of inputs c] by (simp add: sorted_wrt_map)
  then have "sorted_wrt (\<lambda>x y. cs_clock (snd x) < cs_clock (snd y)) (run_ops clock_step inputs c)"
  proof (rule sorted_wrt_mono_rel[rotated])
    fix x y assume mem: "x \<in> set (run_ops clock_step inputs c)" "y \<in> set (run_ops clock_step inputs c)"
      and lt: "clock_stamp (fst x) < clock_stamp (fst y)"
    have "fits (hc_logicalWidth c) (clock_stamp (fst x))" "fits (hc_logicalWidth c) (clock_stamp (fst y))"
      using assms mem by (auto simp: case_prod_unfold)
    with lt show "cs_clock (snd x) < cs_clock (snd y)"
      using shown[of "fst x" "snd x"] shown[of "fst y" "snd y"] mem stamp_text_less by simp
  qed
  then show ?thesis by (simp add: sorted_wrt_map)
qed

text \<open>
  C18: Whatever the wall clock does (standing still or running backwards included), the stamps one clock issues through any sequence
  of \<open>tick\<close>, \<open>observe\<close> and \<open>seed\<close> are strictly increasing as triples of time, counter and runner; and their
  texts are strictly increasing as strings when the columns hold: the times read, heard and kept have at most sixteen digits, and the
  counter, as it starts and as it is heard, leaves room in its width for one step for each input. Past that the texts are not in
  order (lemma full_counter_sorts_back).
\<close>

theorem clock_texts_strictly_increase:
  "sorted_wrt (<) (map (clock_stamp \<circ> fst) (run_ops clock_step inputs c))
   \<and> (columns_hold inputs c \<longrightarrow> sorted_wrt (<) (map (cs_clock \<circ> snd) (run_ops clock_step inputs c)))"
proof (intro conjI impI)
  show "sorted_wrt (<) (map (clock_stamp \<circ> fst) (run_ops clock_step inputs c))" using hybrid.run_increases[of inputs c] by simp
  assume col: "columns_hold inputs c"
  have "\<forall>(c', r) \<in> set (run_ops clock_step inputs c). hc_lastPhysicalMicros c' < 10 ^ 16 \<and> hc_logical c' \<le> 10 ^ hc_logicalWidth c - 1"
    using col by (intro run_columns) (auto simp: columns_hold_def)
  then have "\<forall>(c', r) \<in> set (run_ops clock_step inputs c). fits (hc_logicalWidth c) (clock_stamp c')"
    using col by (fastforce simp: fits_def clock_stamp_def columns_hold_def)
  then show "sorted_wrt (<) (map (cs_clock \<circ> snd) (run_ops clock_step inputs c))" by (rule texts_increase_in_columns)
qed

theorem clock_texts_strictly_increase_witness:
  "sorted_wrt (<) (map (cs_clock \<circ> snd)
     (run_ops clock_step [TickIn (JNum (Fin 7)) 0, TickIn (JNum (Fin 3)) 0] (new_clock (JStr ''a b'') None [])))"
proof -
  have "columns_hold [TickIn (JNum (Fin 7)) 0, TickIn (JNum (Fin 3)) 0] (new_clock (JStr ''a b'') None [])"
    by (simp add: normalizeMicros_def new_clock_def DEFAULT_LOGICAL_WIDTH_def columns_hold_def Let_def)
  with clock_texts_strictly_increase show ?thesis by blast
qed

text \<open>A counter past its column: the clock stands at the last counter of six digits, ticks once more, and the text sorts before.\<close>

lemma full_counter_sorts_back:
  fixes c :: hybrid_clock
  defines "c \<equiv> \<lparr>hc_runnerID = ''a'', hc_logicalWidth = 6, hc_lastPhysicalMicros = 5000, hc_logical = 999998\<rparr>"
  shows "\<exists>a b. map snd (run_ops clock_step [TickIn (JNum (Fin 1)) 0, TickIn (JNum (Fin 1)) 0] c) = [a, b] \<and> cs_clock b < cs_clock a"
proof -
  have "nat_digits 1000000 = ''1000000''" "nat_digits 999999 = ''999999''"
    by (simp_all add: nat_digits.simps char_of_def bit_0)
  then show ?thesis
    by (simp add: c_def tick_def normalizeMicros_def Let_def stamp_of_def formatClock_def padStart_def lex_append_less less_list_code less_char_def)
qed

text \<open>
  Causality: a stamp issued on observing another clock's stamp sorts strictly after it, and
  after everything the observing clock issued before.
\<close>

theorem observed_stamp_sorts_before:
  assumes "fits 6 s" "st_physical s \<le> 9007199254740991" "st_runner s \<noteq> []"
    and "list_all (\<lambda>c. \<not> line_terminator c) (st_runner s)"
    and "observe (JStr (stamp_text 6 s)) now dflt c = (c', r)"
    and "hc_logicalWidth c = 6" "fits 6 (clock_stamp c')"
  shows "stamp_text 6 s < cs_clock r \<and> clock_stamp c < clock_stamp c'"
proof -
  have "Stamp (st_physical s) (st_logical s) (st_runner s) < clock_stamp c'"
    using observe_exceeds[OF assms(5) stamp_text_parse[OF assms(1-4)], of "st_runner s"] by simp
  moreover have "cs_clock r = stamp_text 6 (clock_stamp c')" "clock_stamp c < clock_stamp c'"
    using observe_advances[OF assms(5)] assms(6) by (auto simp: stamp_of_text same_runner_def)
  ultimately show ?thesis using stamp_text_less[OF assms(1,7)] by simp
qed

theorem observed_stamp_sorts_before_witness:
  "\<exists>c' r. observe (JStr (stamp_text 6 (Stamp 5000 1 ''b''))) (JNum (Fin 3)) 0 (new_clock (JStr ''a'') None []) = (c', r)
     \<and> stamp_text 6 (Stamp 5000 1 ''b'') < cs_clock r"
proof -
  let ?c = "new_clock (JStr ''a'') None []" and ?s = "Stamp 5000 1 ''b''"
  have line: "list_all (\<lambda>c. \<not> line_terminator c) ''b''" by (simp add: line_terminator_def)
  have s: "fits 6 ?s" by (simp add: fits_def)
  have "parseClock (JStr (stamp_text 6 ?s)) = Some \<lparr>pc_physicalMicros = 5000, pc_logical = 1, pc_runnerID = ''b''\<rparr>"
    using stamp_text_parse[OF s] line by simp
  then have ob: "observe (JStr (stamp_text 6 ?s)) (JNum (Fin 3)) 0 ?c
      = (?c\<lparr>hc_logical := 2, hc_lastPhysicalMicros := 5000\<rparr>, stamp_of (?c\<lparr>hc_logical := 2, hc_lastPhysicalMicros := 5000\<rparr>))"
    by (simp add: observe_def normalizeMicros_def new_clock_def Let_def numeral_2_eq_2)
  have "fits 6 (clock_stamp (?c\<lparr>hc_logical := 2, hc_lastPhysicalMicros := 5000\<rparr>))" "hc_logicalWidth ?c = 6"
    by (simp_all add: fits_def clock_stamp_def new_clock_def DEFAULT_LOGICAL_WIDTH_def)
  with observed_stamp_sorts_before[OF s _ _ _ ob] line ob show ?thesis by simp
qed

text \<open>
  Round trip: the text of every stamp a clock of the default width issues parses back to the
  clock's physical time, counter and runner id, for any \<open>runnerID\<close> option, while the time is a
  safe integer and the counter has at most six digits.
\<close>

theorem issued_stamp_parses_back:
  assumes "(c, r) \<in> set (run_ops clock_step inputs (new_clock runnerID None uuid))"
    and "hc_lastPhysicalMicros c \<le> 9007199254740991" "hc_logical c < 1000000"
  shows "parseClock (JStr (cs_clock r)) = Some \<lparr>pc_physicalMicros = hc_lastPhysicalMicros c,
    pc_logical = hc_logical c, pc_runnerID = normalizeRunnerID (js_or runnerID (JStr uuid))\<rparr>"
proof -
  have "r = stamp_of c" "same_runner (new_clock runnerID None uuid) c"
    using hybrid.run_increases[of inputs "new_clock runnerID None uuid"] assms(1) by auto
  moreover from this have "fits 6 (clock_stamp c)" "hc_logicalWidth c = 6"
    "hc_runnerID c = normalizeRunnerID (js_or runnerID (JStr uuid))"
    using assms(2,3) by (simp_all add: fits_def clock_stamp_def same_runner_def new_clock_def DEFAULT_LOGICAL_WIDTH_def)
  ultimately show ?thesis
    using stamp_text_parse[of "clock_stamp c"] assms(2) normalizeRunnerID_ok[of "js_or runnerID (JStr uuid)"]
    by (simp add: stamp_of_text clock_stamp_def)
qed

theorem issued_stamp_parses_back_witness:
  "\<exists>r. run_ops clock_step [TickIn (JNum (Fin 7)) 0] (new_clock (JStr ''a'') None []) =
        [(new_clock (JStr ''a'') None []\<lparr>hc_lastPhysicalMicros := 7000, hc_logical := 0\<rparr>, r)]
     \<and> parseClock (JStr (cs_clock r)) = Some \<lparr>pc_physicalMicros = 7000, pc_logical = 0,
        pc_runnerID = normalizeRunnerID (js_or (JStr ''a'') (JStr []))\<rparr>"
proof -
  let ?c = "new_clock (JStr ''a'') None []\<lparr>hc_lastPhysicalMicros := 7000, hc_logical := 0\<rparr>"
  have run: "run_ops clock_step [TickIn (JNum (Fin 7)) 0] (new_clock (JStr ''a'') None []) = [(?c, stamp_of ?c)]"
    by (simp add: tick_def normalizeMicros_def Let_def new_clock_def)
  have "parseClock (JStr (cs_clock (stamp_of ?c))) = Some \<lparr>pc_physicalMicros = hc_lastPhysicalMicros ?c,
      pc_logical = hc_logical ?c, pc_runnerID = normalizeRunnerID (js_or (JStr ''a'') (JStr []))\<rparr>"
    by (rule issued_stamp_parses_back[of _ _ "[TickIn (JNum (Fin 7)) 0]"]) (simp only: run, simp_all)
  with run show ?thesis by (intro exI[of _ "stamp_of ?c"]) simp
qed

text \<open>A clock configured with another \<open>logicalWidth\<close> issues stamps that do not parse.\<close>

lemma wide_clock_unparsable:
  assumes "p < 10 ^ 16" "l < 10 ^ 8"
  shows "parseClock (JStr (formatClock p l runner 8)) = None"
proof -
  have "is_dec_digit (fixed_digits 8 l ! 6)"
    using fixed_digits_digits[of 8 l] by (simp add: list_all_length del: fixed_digits.simps)
  then have "fixed_digits 8 l ! 6 \<noteq> CHR ''-''" by (auto simp: is_digit_in_def digit_val_def)
  moreover have "take 1 (drop 23 (formatClock p l runner 8)) = [fixed_digits 8 l ! 6]"
    using assms by (simp add: formatClock_def padStart_fixed take_Suc_conv_app_nth hd_drop_conv_nth take_Suc
        del: fixed_digits.simps)
  ultimately show ?thesis by (simp add: parse_clock_string_def Let_def)
qed

end
