(* ===== verification/DeepMerge.thy ===== *)
theory DeepMerge
  imports JSValue
begin

text \<open>
  The patch operation on frames, \<open>src/core/frames/deep-merge.mjs\<close>: a \<open>null\<close> in the patch
  deletes a key, arrays replace, objects merge, and the keys that reach a prototype are skipped.
  Every object of the model is a plain one, so \<open>isPlainObject\<close> is \<open>is_obj\<close>. The
  lookups \<open>patch[key]\<close> read the pairs of the patch in order, which is the same for an
  object because its keys are distinct (\<open>wf_value\<close>).
\<close>

section \<open>The operations\<close>

definition isPlainObject :: "jsval \<Rightarrow> bool" where
  "isPlainObject v = is_obj v"

definition unsafe_key :: "string \<Rightarrow> bool" where
  "unsafe_key k = (k = ''__proto__'' \<or> k = ''prototype'' \<or> k = ''constructor'')"

fun cloneValue :: "jsval \<Rightarrow> jsval" and clone_props :: "jsobj \<Rightarrow> jsobj" where
  "cloneValue (JArr vs) = JArr (map cloneValue vs)"
| "cloneValue (JObj ps) = JObj (clone_props ps)"
| "cloneValue v = v"
| "clone_props [] = []"
| "clone_props ((k, v) # ps) = (if unsafe_key k then clone_props ps else (k, cloneValue v) # clone_props ps)"

fun deepMerge :: "jsval \<Rightarrow> jsval \<Rightarrow> jsval" and merge_keys :: "jsobj \<Rightarrow> jsobj \<Rightarrow> jsobj" where
  "deepMerge target (JObj patch) = JObj (merge_keys (props_of target) patch)"
| "deepMerge target patch = cloneValue patch"
| "merge_keys result [] = result"
| "merge_keys result ((k, value) # patch) =
     merge_keys
       (if unsafe_key k then result
        else if value = Null then odel result k
        else if is_arr value then oset result k (JArr (map cloneValue (arr_of value)))
        else if is_obj value then oset result k (deepMerge (oget result k) value)
        else oset result k (cloneValue value)) patch"

text \<open>What one key of a patch puts under that key: \<open>None\<close> is a deletion.\<close>

definition merged_value :: "jsval \<Rightarrow> jsval \<Rightarrow> jsval option" where
  "merged_value old value = (if value = Null then None else Some (deepMerge old value))"

definition merge_key :: "jsobj \<Rightarrow> string \<Rightarrow> jsval \<Rightarrow> jsobj" where
  "merge_key result k value =
     (if unsafe_key k then result
      else case merged_value (oget result k) value of None \<Rightarrow> odel result k | Some v \<Rightarrow> oset result k v)"

lemma merge_keys_Cons: "merge_keys result ((k, v) # patch) = merge_keys (merge_key result k v) patch"
  by (cases v) (simp_all add: merge_key_def merged_value_def)

declare merge_keys.simps(2) [simp del]
declare merge_keys_Cons [simp]

section \<open>What a merge reads back\<close>

lemma merge_key_other: "k \<noteq> k' \<Longrightarrow> oget (merge_key r k v) k' = oget r k'"
  "k \<noteq> k' \<Longrightarrow> has_own (merge_key r k v) k' = has_own r k'"
  by (auto simp: merge_key_def split: option.splits)

lemma merge_keys_absent:
  "k \<notin> fst ` set patch \<Longrightarrow> oget (merge_keys r patch) k = oget r k \<and> has_own (merge_keys r patch) k = has_own r k"
proof (induction patch arbitrary: r)
  case (Cons p patch)
  then show ?case by (cases p) (auto simp: merge_key_other)
qed simp

lemma merge_keys_unsafe:
  "unsafe_key k \<Longrightarrow> oget (merge_keys r patch) k = oget r k \<and> has_own (merge_keys r patch) k = has_own r k"
proof (induction patch arbitrary: r)
  case (Cons p patch)
  obtain k' v where p: "p = (k', v)" by (cases p)
  have "oget (merge_key r k' v) k = oget r k \<and> has_own (merge_key r k' v) k = has_own r k"
  proof (cases "k' = k")
    case True
    with Cons.prems show ?thesis by (simp add: merge_key_def)
  qed (simp add: merge_key_other)
  with Cons p show ?case by simp
qed simp

lemma merge_keys_present:
  assumes "distinct (map fst patch)" "(k, v) \<in> set patch" "\<not> unsafe_key k"
  shows "map_of (merge_keys r patch) k = merged_value (oget r k) v"
  using assms
proof (induction patch arbitrary: r)
  case (Cons p patch)
  obtain k' v' where p: "p = (k', v')" by (cases p)
  show ?case
  proof (cases "k' = k")
    case True
    with Cons.prems p have v: "v' = v" by (force simp: image_iff)
    from Cons.prems(1) p True have "k \<notin> fst ` set patch" by simp
    from merge_keys_absent[OF this, of "merge_key r k v"]
    have "map_of (merge_keys (merge_key r k v) patch) k = map_of (merge_key r k v) k"
      by (auto simp: oget_def has_own_def split: option.splits)
    with p True v Cons.prems(3) show ?thesis
      by (auto simp: merge_key_def alist_simps split: option.splits)
  next
    case False
    with Cons p have "map_of (merge_keys (merge_key r k' v') patch) k = merged_value (oget (merge_key r k' v') k) v"
      by auto
    with p False show ?thesis by (simp add: merge_key_other)
  qed
qed simp

section \<open>Replaying a patch\<close>

text \<open>Objects carry each key once, at every depth.\<close>

fun wf_value :: "jsval \<Rightarrow> bool" and wf_props :: "jsobj \<Rightarrow> bool" where
  "wf_value (JArr vs) = list_all wf_value vs"
| "wf_value (JObj ps) = (distinct (map fst ps) \<and> wf_props ps)"
| "wf_value v = True"
| "wf_props [] = True"
| "wf_props ((k, v) # ps) = (wf_value v \<and> wf_props ps)"

lemma oset_same: "map_of ps k = Some v \<Longrightarrow> oset ps k v = ps"
  by (induction ps) auto

lemma odel_absent: "map_of ps k = None \<Longrightarrow> odel ps k = ps"
  by (simp add: map_of_None_key delete_idem)

lemma merge_key_settled: "map_of r k = merged_value (oget r k) v \<Longrightarrow> merge_key r k v = r"
  by (auto simp: merge_key_def oset_same odel_absent split: option.splits)

lemma merge_keys_settled:
  "(\<And>k v. (k, v) \<in> set patch \<Longrightarrow> \<not> unsafe_key k \<Longrightarrow> map_of r k = merged_value (oget r k) v) \<Longrightarrow> merge_keys r patch = r"
proof (induction patch)
  case (Cons p patch)
  obtain k v where p: "p = (k, v)" by (cases p)
  have "merge_key r k v = r"
  proof (cases "unsafe_key k")
    case True
    then show ?thesis by (simp add: merge_key_def)
  next
    case False
    with Cons.prems[of k v] p merge_key_settled show ?thesis by simp
  qed
  with Cons p show ?case by simp
qed simp

lemma wf_props_mem: "wf_props ps \<Longrightarrow> (k, v) \<in> set ps \<Longrightarrow> wf_value v"
  by (induction ps) auto

lemma deepMerge_idem: "wf_value patch \<Longrightarrow> deepMerge (deepMerge target patch) patch = deepMerge target patch"
proof (induction "size patch" arbitrary: target patch rule: less_induct)
  case less
  show ?case
  proof (cases patch)
    case (JObj ps)
    let ?r = "merge_keys (props_of target) ps"
    have d: "distinct (map fst ps)" and w: "wf_props ps" using less.prems JObj by auto
    have "map_of ?r k = merged_value (oget ?r k) v" if "(k, v) \<in> set ps" "\<not> unsafe_key k" for k v
    proof (cases "v = Null")
      case True
      with merge_keys_present[OF d that] show ?thesis by (simp add: merged_value_def)
    next
      case False
      have "size v < size patch"
        using that(1) JObj size_list_estimation'[OF that(1), of _ "size_prod (\<lambda>_. 0) size"] by fastforce
      with less.hyps wf_props_mem[OF w that(1)]
      have "deepMerge (deepMerge (oget (props_of target) k) v) v = deepMerge (oget (props_of target) k) v" by blast
      with merge_keys_present[OF d that, of "props_of target"] False show ?thesis by (simp add: merged_value_def oget_def)
    qed
    then have "merge_keys ?r ps = ?r" by (rule merge_keys_settled)
    with JObj show ?thesis by simp
  qed simp_all
qed

section \<open>Properties\<close>

text \<open>
  The keys of the merged object are decided key by key: an unsafe key and a key the patch does not
  name keep what the target has, a \<open>null\<close> removes the key, and any other value is merged into
  the old one (recursively for objects, replaced by a copy otherwise).
\<close>

theorem merge_decides_each_key:
  assumes "distinct (map fst patch)"
  shows "\<exists>out. deepMerge (JObj ps) (JObj patch) = JObj out \<and>
    (\<forall>k. map_of out k = (if unsafe_key k \<or> map_of patch k = None then map_of ps k
       else if map_of patch k = Some Null then None
       else Some (deepMerge (oget ps k) (the (map_of patch k)))))"
proof -
  have keep: "map_of (merge_keys ps patch) k = map_of ps k"
    if "oget (merge_keys ps patch) k = oget ps k \<and> has_own (merge_keys ps patch) k = has_own ps k" for k
    using that by (auto simp: oget_def has_own_def split: option.splits)
  have "map_of (merge_keys ps patch) k = (if unsafe_key k \<or> map_of patch k = None then map_of ps k
       else if map_of patch k = Some Null then None
       else Some (deepMerge (oget ps k) (the (map_of patch k))))" for k
  proof (cases "unsafe_key k \<or> map_of patch k = None")
    case True
    then show ?thesis using keep merge_keys_unsafe merge_keys_absent by (auto simp: map_of_None_key)
  next
    case False
    then obtain v where v: "map_of patch k = Some v" "\<not> unsafe_key k" by auto
    with merge_keys_present[OF assms map_of_SomeD[OF v(1)] v(2), of ps] show ?thesis
      by (auto simp: merged_value_def)
  qed
  then show ?thesis by simp
qed

theorem merge_decides_each_key_witness:
  "\<exists>out. deepMerge (JObj [(''a'', JNum (Fin 1))]) (JObj [(''a'', Null), (''b'', JStr ''x'')]) = JObj out
     \<and> map_of out ''a'' = None \<and> map_of out ''b'' = Some (JStr ''x'')"
proof -
  have "distinct (map fst [(''a'', Null), (''b'', JStr ''x'')])" by simp
  from merge_decides_each_key[OF this, of "[(''a'', JNum (Fin 1))]"] show ?thesis
    by (auto simp: unsafe_key_def)
qed

text \<open>
  Applying a patch twice is applying it once, at every depth and including the order of the keys:
  replaying a frame's patch on a frame that already has it changes nothing.
\<close>

theorem merge_replay_is_noop:
  assumes "wf_value patch"
  shows "deepMerge (deepMerge target patch) patch = deepMerge target patch"
  using assms by (rule deepMerge_idem)

theorem merge_replay_is_noop_witness:
  "let patch = JObj [(''a'', JObj [(''b'', Null), (''c'', JArr [Null])]), (''__proto__'', JStr ''x'')]
   in deepMerge (deepMerge Undefined patch) patch = deepMerge Undefined patch"
proof -
  have "wf_value (JObj [(''a'', JObj [(''b'', Null), (''c'', JArr [Null])]), (''__proto__'', JStr ''x'')])" by simp
  from merge_replay_is_noop[OF this] show ?thesis unfolding Let_def .
qed

end
