(* ===== verification/FrameEngine.thy ===== *)
theory FrameEngine
  imports DeepMerge HybridClock
begin

text \<open>
  The frame store, \<open>src/core/frames/frame-engine.mjs\<close>. Frames are objects on an explicit heap,
  because the version history, the current frames and the results of a merge share them and
  \<open>_applyCommitOrder\<close> writes to them: \<open>_frames\<close> maps an id to an address and \<open>_history\<close>
  an id to the addresses of its versions. The injected collaborators (the logical clock, the id
  generator, the commit validator) are the fields of \<open>engine_config\<close>; the clock and the id
  generator act on a state of their own, of type \<open>'c\<close>. Events are appended to a log, in
  the order of emission. Frame ids are primitive values, so \<open>===\<close> and \<open>Map\<close> keys are
  equality. \<open>localeCompare\<close> is an argument of the comparisons that use it.
\<close>

section \<open>Constants and small normalizers\<close>

definition MERGEABLE_FIELDS :: "string list" where
  "MERGEABLE_FIELDS = [''content'', ''hidden'', ''deleted'', ''updatedAt'', ''state'']"

definition DEFAULT_HISTORY_LIMIT :: nat where "DEFAULT_HISTORY_LIMIT = 200"

definition DEFAULT_COMMIT_LIMIT :: nat where "DEFAULT_COMMIT_LIMIT = 2000"

definition TERMINAL_CONTENT_STATUSES :: "string list" where
  "TERMINAL_CONTENT_STATUSES = [''break'', ''complete'', ''completed'', ''deleted'', ''empty'', ''error'',
     ''finalized'', ''forwarded'', ''null-response'', ''respond-and-continue'']"

definition normalizePositiveLimit :: "jsval \<Rightarrow> nat \<Rightarrow> nat" where
  "normalizePositiveLimit v fallback = (case js_Number v of
     Fin q \<Rightarrow> if of_int \<lfloor>q\<rfloor> = q \<and> 1 \<le> q then nat \<lfloor>q\<rfloor> else fallback
   | _ \<Rightarrow> fallback)"

definition numberOr :: "jsval \<Rightarrow> jsval \<Rightarrow> jsval" where
  "numberOr v fallback = (if is_finite_num v then v else fallback)"

definition stringOr :: "jsval \<Rightarrow> jsval \<Rightarrow> jsval" where
  "stringOr v fallback = (case v of JStr s \<Rightarrow> if js_trim s \<noteq> [] then v else if fallback = Undefined then Null else fallback
     | _ \<Rightarrow> if fallback = Undefined then Null else fallback)"

fun sanitizeStoredOrder :: "jsval \<Rightarrow> rat" where
  "sanitizeStoredOrder (JNum (Fin q)) = (if q < max_safe_integer then q else 0)"
| "sanitizeStoredOrder _ = 0"

text \<open>
  \<open>++\<close> on a counter, with the rounding of binary64 above \<open>2^53\<close>, where consecutive
  representable integers are 2 and then at least 4 apart (ties go to the even significand).
\<close>

definition js_inc :: "rat \<Rightarrow> rat" where
  "js_inc q = (if q < 9007199254740992 then q + 1
     else if q < 18014398509481984 then (if even \<lfloor>q / 2\<rfloor> then q else q + 2) else q)"

definition normalizeTerminalStatus :: "jsval \<Rightarrow> string" where
  "normalizeTerminalStatus status = trim_or_empty status"

definition shouldCloseLifecycle :: "jsobj \<Rightarrow> jsval \<Rightarrow> bool" where
  "shouldCloseLifecycle lifecycle content =
     (oget lifecycle ''status'' = JStr ''closed''
      \<or> normalizeTerminalStatus (pget content ''status'') \<in> set TERMINAL_CONTENT_STATUSES)"

definition normalizeLifecycleState :: "jsval \<Rightarrow> jsval \<Rightarrow> jsval \<Rightarrow> jsval \<Rightarrow> jsval \<Rightarrow> jsval" where
  "normalizeLifecycleState inputState existingState content updatedAt updatedClock =
     (let state = cloneValue (js_or (js_or inputState existingState) (JObj []));
          lifecycle = (if is_obj (pget state ''lifecycle'') then props_of (pget state ''lifecycle'') else [])
      in if \<not> shouldCloseLifecycle lifecycle content then state
         else let l1 = oset lifecycle ''status'' (JStr ''closed'');
                  l2 = oset l1 ''closedAt'' (numberOr (oget l1 ''closedAt'') updatedAt);
                  l3 = oset l2 ''closedClock'' (stringOr (oget l2 ''closedClock'') updatedClock);
                  terminal = normalizeTerminalStatus (pget content ''status'');
                  l4 = oset l3 ''reason'' (stringOr (oget l3 ''reason'') (JStr (if terminal = [] then ''closed'' else terminal)))
              in JObj (oset (props_of state) ''lifecycle'' (JObj l4)))"

definition isToolCallFrameType :: "jsval \<Rightarrow> jsval \<Rightarrow> bool" where
  "isToolCallFrameType type content =
     (type = JStr ''ToolCall''
      \<or> (ends_with (js_String (js_or type (JStr []))) ''ToolFrame'' \<and> pget content ''phase'' = JStr ''call''))"

definition or_null :: "jsval \<Rightarrow> jsval" where
  "or_null v = js_nc v Null"

definition normalizeProcessingTimes :: "jsobj \<Rightarrow> jsval \<Rightarrow> jsval \<Rightarrow> jsval \<Rightarrow> jsval \<Rightarrow> jsval \<Rightarrow> jsval \<times> jsval" where
  "normalizeProcessingTimes input existing type content createdAt updatedAt =
     (let hasStarted = has_own input ''startedProcessingAt''; hasFinished = has_own input ''finishedProcessingAt''
      in if hasStarted \<or> hasFinished
         then (or_null (if hasStarted then oget input ''startedProcessingAt'' else pget existing ''startedProcessingAt''),
               or_null (if hasFinished then oget input ''finishedProcessingAt'' else pget existing ''finishedProcessingAt''))
         else if \<not> nullish existing \<and> (has_own (props_of existing) ''startedProcessingAt'' \<or> has_own (props_of existing) ''finishedProcessingAt'')
         then (or_null (pget existing ''startedProcessingAt''), or_null (pget existing ''finishedProcessingAt''))
         else if isToolCallFrameType type content
         then (or_null (js_nc createdAt updatedAt), Null)
         else (or_null (js_nc createdAt updatedAt), or_null (js_nc createdAt updatedAt)))"

section \<open>State\<close>

type_synonym addr = nat

record change =
  ch_frameID :: jsval
  ch_operation :: string
  ch_sourceFrameID :: jsval

record commit =
  cm_id :: jsval
  cm_order :: rat
  cm_parentOrder :: "rat option"
  cm_timestamp :: jsval
  cm_clock :: jsval
  cm_authorType :: jsval
  cm_authorID :: jsval
  cm_silent :: bool
  cm_changes :: "change list"

datatype engine_event =
    FrameEvent string addr "addr option"
  | PhantomRejected addr addr
  | CommitRejected jsval commit
  | CommitEvent commit "addr list"
  | RefCreated string rat
  | RefUpdated string "rat option" rat

record 'c engine_config =
  cf_history :: bool
  cf_tick :: "'c \<Rightarrow> 'c \<times> jsval \<times> jsval"
  cf_seed :: "jsval \<Rightarrow> 'c \<Rightarrow> 'c"
  cf_idGenerator :: "'c \<Rightarrow> 'c \<times> jsval"
  cf_commitValidator :: "(commit \<Rightarrow> jsobj list \<Rightarrow> jsval \<Rightarrow> jsval) option"
  cf_historyLimit :: nat
  cf_commitLimit :: nat

record 'c engine =
  en_clock :: 'c
  en_frameOrder :: rat
  en_commitOrder :: rat
  en_frames :: "(jsval \<times> addr) list"
  en_history :: "(jsval \<times> addr list) list"
  en_children :: "(jsval \<times> jsval list) list"
  en_commits :: "commit list"
  en_commitsByOrder :: "rat \<Rightarrow> commit option"
  en_refs :: "(string \<times> rat) list"
  en_heap :: "jsobj list"
  en_emitted :: "engine_event list"

definition configure :: "bool \<Rightarrow> ('c \<Rightarrow> 'c \<times> jsval \<times> jsval) \<Rightarrow> (jsval \<Rightarrow> 'c \<Rightarrow> 'c) \<Rightarrow> ('c \<Rightarrow> 'c \<times> jsval)
    \<Rightarrow> (commit \<Rightarrow> jsobj list \<Rightarrow> jsval \<Rightarrow> jsval) option \<Rightarrow> jsval \<Rightarrow> jsval \<Rightarrow> 'c engine_config" where
  "configure history tickf seedf newID validator historyLimit commitLimit =
     \<lparr>cf_history = history, cf_tick = tickf, cf_seed = seedf, cf_idGenerator = newID, cf_commitValidator = validator,
      cf_historyLimit = normalizePositiveLimit historyLimit DEFAULT_HISTORY_LIMIT,
      cf_commitLimit = normalizePositiveLimit commitLimit DEFAULT_COMMIT_LIMIT\<rparr>"

definition new_engine :: "'c \<Rightarrow> 'c engine" where
  "new_engine clock = \<lparr>en_clock = clock, en_frameOrder = 0, en_commitOrder = 0, en_frames = [], en_history = [],
     en_children = [], en_commits = [], en_commitsByOrder = Map.empty, en_refs = [], en_heap = [], en_emitted = []\<rparr>"

definition frame_at :: "'c engine \<Rightarrow> addr \<Rightarrow> jsobj" where
  "frame_at st a = en_heap st ! a"

text \<open>\<open>get\<close> answers an address; \<open>frame_value\<close> the frame or \<open>undefined\<close>.\<close>

definition engine_get :: "'c engine \<Rightarrow> jsval \<Rightarrow> addr option" where
  "engine_get st k = map_of (en_frames st) k"

definition frame_value :: "'c engine \<Rightarrow> jsval \<Rightarrow> jsval" where
  "frame_value st k = (case engine_get st k of None \<Rightarrow> Undefined | Some a \<Rightarrow> JObj (frame_at st a))"

definition alloc :: "jsobj \<Rightarrow> 'c engine \<Rightarrow> 'c engine \<times> addr" where
  "alloc frame st = (st\<lparr>en_heap := en_heap st @ [frame]\<rparr>, length (en_heap st))"

definition nextStamp :: "'c engine_config \<Rightarrow> 'c engine \<Rightarrow> 'c engine \<times> jsval \<times> jsval" where
  "nextStamp cf st = (case cf_tick cf (en_clock st) of (c, micros, clock) \<Rightarrow> (st\<lparr>en_clock := c\<rparr>, micros, clock))"

definition seedClock :: "'c engine_config \<Rightarrow> jsval \<Rightarrow> 'c engine \<Rightarrow> 'c engine" where
  "seedClock cf clock st = st\<lparr>en_clock := cf_seed cf clock (en_clock st)\<rparr>"

definition appendHistory :: "'c engine_config \<Rightarrow> jsval \<Rightarrow> addr \<Rightarrow> 'c engine \<Rightarrow> 'c engine" where
  "appendHistory cf k a st =
     (if cf_history cf
      then let versions = (case map_of (en_history st) k of None \<Rightarrow> [] | Some vs \<Rightarrow> vs) @ [a]
           in st\<lparr>en_history := AList.update k (drop (length versions - cf_historyLimit cf) versions) (en_history st)\<rparr>
      else st\<lparr>en_history := AList.update k [a] (en_history st)\<rparr>)"

definition addChild :: "jsval \<Rightarrow> jsval \<Rightarrow> 'c engine \<Rightarrow> 'c engine" where
  "addChild parentID childID st =
     (let children = (case map_of (en_children st) parentID of None \<Rightarrow> [] | Some cs \<Rightarrow> cs)
      in st\<lparr>en_children := AList.update parentID
             (if childID \<in> set children then children else children @ [childID]) (en_children st)\<rparr>)"

section \<open>Normalizing a frame\<close>

definition normalizeFrame :: "'c engine_config \<Rightarrow> bool \<Rightarrow> jsobj \<Rightarrow> 'c engine \<Rightarrow> 'c engine \<times> jsobj" where
  "normalizeFrame cf stampMissingTime input st0 =
     (let existing = frame_value st0 (oget input ''id'');
          (st1, micros, clock) = (if stampMissingTime then nextStamp cf st0 else (st0, JNum (Fin 0), Null));
          timestamp = numberOr (oget input ''timestamp'') micros;
          createdAt = numberOr (oget input ''createdAt'') (js_or (pget existing ''createdAt'') timestamp);
          updatedAt = numberOr (oget input ''updatedAt'') timestamp;
          createdClock = stringOr (oget input ''createdClock'') (js_or (pget existing ''createdClock'') clock);
          updatedClock = stringOr (oget input ''updatedClock'') (if nullish existing then createdClock else clock);
          st2 = (if truthy (pget existing ''order'') then st1 else st1\<lparr>en_frameOrder := js_inc (en_frameOrder st1)\<rparr>);
          order = numberOr (oget input ''order'')
            (if truthy (pget existing ''order'') then pget existing ''order'' else JNum (Fin (en_frameOrder st2)));
          content = cloneValue (js_or (oget input ''content'') (JObj []));
          (started, finished) = normalizeProcessingTimes input existing (oget input ''type'') content createdAt updatedAt;
          state = normalizeLifecycleState (oget input ''state'') (pget existing ''state'') content updatedAt updatedClock
      in (st2, ospread (clone_props input)
           [(''id'', oget input ''id''), (''type'', oget input ''type''), (''order'', order), (''timestamp'', timestamp),
            (''createdAt'', createdAt), (''updatedAt'', updatedAt), (''createdClock'', createdClock), (''updatedClock'', updatedClock),
            (''startedProcessingAt'', started), (''finishedProcessingAt'', finished),
            (''hidden'', js_nc (js_nc (oget input ''hidden'') (pget existing ''hidden'')) (JBool True)),
            (''deleted'', js_nc (js_nc (oget input ''deleted'') (pget existing ''deleted'')) (JBool False)),
            (''targets'', JArr (arr_of (oget input ''targets''))),
            (''recipients'', if is_arr (oget input ''recipients'') then oget input ''recipients''
                             else js_or (pget existing ''recipients'') (JArr [])),
            (''parentID'', or_null (js_nc (oget input ''parentID'') (oget input ''parentId''))),
            (''groupID'', or_null (js_nc (oget input ''groupID'') (oget input ''groupId''))),
            (''groupType'', or_null (oget input ''groupType'')),
            (''phantom'', JBool (oget input ''phantom'' = JBool True)),
            (''content'', content), (''state'', state)]))"

section \<open>Merging\<close>

text \<open>The local lists a merge builds up, beside the engine.\<close>

record 'c merging =
  mg_engine :: "'c engine"
  mg_results :: "addr list"
  mg_changes :: "change list"
  mg_events :: "engine_event list"

definition queueEvent :: "string \<Rightarrow> addr \<Rightarrow> addr option \<Rightarrow> 'c merging \<Rightarrow> 'c merging" where
  "queueEvent name frame previous m =
     (let k = oget (frame_at (mg_engine m) frame) ''id''
      in m\<lparr>mg_events := mg_events m @ FrameEvent name frame previous #
             (if truthy k then [FrameEvent (name @ '':'' @ js_String k) frame previous] else [])\<rparr>)"

text \<open>Installing a new version of the frame \<open>k\<close>: the steps every branch of a merge ends with.\<close>

definition install_version :: "'c engine_config \<Rightarrow> jsval \<Rightarrow> addr \<Rightarrow> change \<Rightarrow> 'c merging \<Rightarrow> 'c merging" where
  "install_version cf k a c m =
     (let st = mg_engine m; st' = appendHistory cf k a (st\<lparr>en_frames := AList.update k a (en_frames st)\<rparr>)
      in m\<lparr>mg_engine := st', mg_changes := mg_changes m @ [c], mg_results := mg_results m @ [a]\<rparr>)"

definition storeFrame :: "'c engine_config \<Rightarrow> addr \<Rightarrow> 'c merging \<Rightarrow> 'c merging" where
  "storeFrame cf frame m =
     (let k = oget (frame_at (mg_engine m) frame) ''id'';
          parentID = oget (frame_at (mg_engine m) frame) ''parentID'';
          previous = engine_get (mg_engine m) k;
          operation = (if previous = None then ''create'' else ''update'');
          m1 = install_version cf k frame \<lparr>ch_frameID = k, ch_operation = operation, ch_sourceFrameID = Undefined\<rparr> m;
          m2 = (if previous = None \<and> truthy parentID then m1\<lparr>mg_engine := addChild parentID k (mg_engine m1)\<rparr> else m1)
      in if previous = None then queueEvent ''frame:added'' frame None m2
         else queueEvent ''frame:updated'' frame previous m2)"

definition stampUpdated :: "'c engine_config \<Rightarrow> jsobj \<Rightarrow> 'c engine \<Rightarrow> 'c engine \<times> jsobj" where
  "stampUpdated cf frame st =
     (case nextStamp cf st of (st', micros, clock) \<Rightarrow> (st', oset (oset frame ''updatedAt'' micros) ''updatedClock'' clock))"

text \<open>A new version of an existing frame: stamped, allocated, installed and announced.\<close>

definition update_existing :: "'c engine_config \<Rightarrow> jsval \<Rightarrow> jsval \<Rightarrow> jsobj \<Rightarrow> addr \<Rightarrow> 'c merging \<Rightarrow> 'c merging" where
  "update_existing cf k sourceID frame previous m =
     (let (st1, updated) = stampUpdated cf frame (mg_engine m); (st2, a) = alloc updated st1
      in queueEvent ''frame:updated'' a (Some previous)
           (install_version cf k a \<lparr>ch_frameID = k, ch_operation = ''update'', ch_sourceFrameID = sourceID\<rparr>
              (m\<lparr>mg_engine := st2\<rparr>)))"

definition merge_field :: "jsobj \<Rightarrow> jsobj \<Rightarrow> jsobj \<Rightarrow> string \<Rightarrow> jsobj" where
  "merge_field target source update key =
     (if \<not> has_own source key then update
      else if key = ''content'' \<or> key = ''state''
      then oset update key (deepMerge (js_or (oget target key) (JObj [])) (js_or (oget source key) (JObj [])))
      else oset update key (cloneValue (oget source key)))"

definition mergeTarget :: "'c engine_config \<Rightarrow> jsobj \<Rightarrow> jsval list \<times> 'c merging \<Rightarrow> jsval \<Rightarrow> jsval list \<times> 'c merging" where
  "mergeTarget cf source acc targetID =
     (case acc of (seen, m) \<Rightarrow>
      if \<not> truthy targetID \<or> targetID = oget source ''id'' \<or> targetID \<in> set seen then (seen, m)
      else (seen @ [targetID],
        case engine_get (mg_engine m) targetID of
          None \<Rightarrow> m
        | Some a \<Rightarrow>
            let target = frame_at (mg_engine m) a
            in update_existing cf targetID (oget source ''id'')
                 (foldl (merge_field target source) target MERGEABLE_FIELDS) a m))"

definition mergeTargets :: "'c engine_config \<Rightarrow> jsobj \<Rightarrow> 'c merging \<Rightarrow> 'c merging" where
  "mergeTargets cf source m = snd (foldl (mergeTarget cf source) ([], m) (arr_of (oget source ''targets'')))"

definition emit :: "engine_event \<Rightarrow> 'c merging \<Rightarrow> 'c merging" where
  "emit e m = m\<lparr>mg_engine := (mg_engine m)\<lparr>en_emitted := en_emitted (mg_engine m) @ [e]\<rparr>\<rparr>"

definition mergePhantom :: "'c engine_config \<Rightarrow> addr \<Rightarrow> 'c merging \<Rightarrow> 'c merging" where
  "mergePhantom cf a m =
     (let frame = frame_at (mg_engine m) a; groupID = oget frame ''groupID''; groupType = oget frame ''groupType''
      in if \<not> truthy groupID then queueEvent ''frame:phantom'' a None m
         else case engine_get (mg_engine m) groupID of
           None \<Rightarrow>
             let (st1, group) = normalizeFrame cf True
                   (ospread frame [(''id'', groupID), (''type'', js_or groupType (oget frame ''type'')), (''phantom'', JBool False),
                      (''targets'', JArr []), (''hidden'', JBool True), (''deleted'', JBool False)]) (mg_engine m);
                 (st2, g) = alloc group st1
             in storeFrame cf g (m\<lparr>mg_engine := st2\<rparr>)
         | Some existing \<Rightarrow>
             let ex = frame_at (mg_engine m) existing
             in if truthy groupType \<and> groupType \<noteq> oget ex ''type'' then emit (PhantomRejected a existing) m
                else update_existing cf (oget ex ''id'') (oget frame ''id'')
                       (oset ex ''content'' (deepMerge (js_or (oget ex ''content'') (JObj [])) (js_or (oget frame ''content'') (JObj []))))
                       existing m)"

definition mergeInput :: "'c engine_config \<Rightarrow> 'c merging \<Rightarrow> jsval \<Rightarrow> 'c merging" where
  "mergeInput cf m input =
     (if \<not> truthy (pget input ''id'') \<or> \<not> truthy (pget input ''type'') then m
      else let (st1, frame) = normalizeFrame cf True (props_of input) (mg_engine m);
               (st2, a) = alloc frame st1; m' = m\<lparr>mg_engine := st2\<rparr>
           in if truthy (oget frame ''phantom'') then mergePhantom cf a m'
              else mergeTargets cf frame (storeFrame cf a m'))"

definition createCommit :: "'c engine_config \<Rightarrow> change list \<Rightarrow> jsval \<Rightarrow> 'c engine \<Rightarrow> 'c engine \<times> commit" where
  "createCommit cf changes options st =
     (let order = js_inc (en_commitOrder st);
          (st1, micros, clock) = nextStamp cf (st\<lparr>en_commitOrder := order\<rparr>);
          (st2, cid) = (if truthy (pget options ''commitID'') then (st1, pget options ''commitID'')
                        else case cf_idGenerator cf (en_clock st1) of (c, k) \<Rightarrow> (st1\<lparr>en_clock := c\<rparr>, k))
      in (st2, \<lparr>cm_id = cid, cm_order = order, cm_parentOrder = (if 1 < order then Some (order - 1) else None),
           cm_timestamp = micros, cm_clock = clock, cm_authorType = js_or (pget options ''authorType'') (JStr ''system''),
           cm_authorID = js_or (pget options ''authorID'') Null, cm_silent = (pget options ''silent'' = JBool True),
           cm_changes = changes\<rparr>))"

definition recordCommit :: "'c engine_config \<Rightarrow> commit \<Rightarrow> 'c engine \<Rightarrow> 'c engine" where
  "recordCommit cf c st =
     (let commits = en_commits st @ [c]; byOrder = (en_commitsByOrder st)(cm_order c := Some c);
          excess = length commits - cf_commitLimit cf
      in st\<lparr>en_commits := drop excess commits,
            en_commitsByOrder := foldl (\<lambda>f r. f(cm_order r := None)) byOrder (take excess commits)\<rparr>)"

definition write_commit_order :: "rat \<Rightarrow> addr \<Rightarrow> 'c engine \<Rightarrow> 'c engine" where
  "write_commit_order order a st =
     st\<lparr>en_heap := (en_heap st)[a := oset (frame_at st a) ''commitOrder'' (JNum (Fin order))]\<rparr>"

definition apply_commit_order_step :: "rat \<Rightarrow> jsval list \<times> 'c engine \<Rightarrow> addr \<Rightarrow> jsval list \<times> 'c engine" where
  "apply_commit_order_step commitOrder acc a =
     (case acc of (seen, st) \<Rightarrow>
      let k = oget (frame_at st a) ''id''
      in if \<not> truthy k \<or> k \<in> set seen then (seen, st)
         else let st1 = write_commit_order commitOrder a st
              in (seen @ [k], case engine_get st1 k of None \<Rightarrow> st1 | Some current \<Rightarrow> write_commit_order commitOrder current st1))"

definition applyCommitOrder :: "addr list \<Rightarrow> rat \<Rightarrow> 'c engine \<Rightarrow> 'c engine" where
  "applyCommitOrder frames commitOrder st = snd (foldl (apply_commit_order_step commitOrder) ([], st) frames)"

definition engine_restore :: "'c engine \<Rightarrow> 'c engine \<Rightarrow> 'c engine" where
  "engine_restore snapshot st =
     st\<lparr>en_frameOrder := en_frameOrder snapshot, en_commitOrder := en_commitOrder snapshot, en_frames := en_frames snapshot,
        en_history := en_history snapshot, en_children := en_children snapshot, en_commits := en_commits snapshot,
        en_commitsByOrder := foldl (\<lambda>f c. f(cm_order c := Some c)) Map.empty (en_commits snapshot),
        en_refs := en_refs snapshot\<rparr>"

definition emit_all :: "engine_event list \<Rightarrow> 'c engine \<Rightarrow> 'c engine" where
  "emit_all es st = st\<lparr>en_emitted := en_emitted st @ es\<rparr>"

definition rejects :: "jsval \<Rightarrow> bool" where
  "rejects validation = (validation = JBool False \<or> pget validation ''allowed'' = JBool False)"

definition record_merge :: "'c engine_config \<Rightarrow> bool \<Rightarrow> commit \<Rightarrow> 'c merging \<Rightarrow> 'c engine \<Rightarrow> 'c engine \<times> addr list" where
  "record_merge cf events c m st =
     (let st1 = recordCommit cf c st;
          st2 = st1\<lparr>en_refs := AList.update ''heads/main'' (cm_order c) (en_refs st1)\<rparr>;
          st3 = applyCommitOrder (mg_results m) (cm_order c) st2
      in (if events then emit_all (mg_events m @ [CommitEvent c (mg_results m)]) st3 else st3, mg_results m))"

text \<open>
  The end of a merge, once the inputs are folded: nothing changed, a commit that the validator
  refuses, or a commit that is recorded.
\<close>

definition finish_merge :: "'c engine_config \<Rightarrow> jsval \<Rightarrow> 'c engine \<Rightarrow> 'c merging \<Rightarrow> 'c engine \<times> addr list" where
  "finish_merge cf options snapshot m =
     (let events = (pget options ''events'' \<noteq> JBool False)
      in if mg_changes m = [] then (if events then emit_all (mg_events m) (mg_engine m) else mg_engine m, [])
         else let (st1, c) = createCommit cf (mg_changes m) options (mg_engine m);
                  validation = (case cf_commitValidator cf of None \<Rightarrow> None
                    | Some f \<Rightarrow> Some (f c (map (frame_at st1) (mg_results m)) (js_or (pget options ''actorContext'') Null)))
              in case validation of
                   Some v \<Rightarrow>
                     if rejects v
                     then (emit_all [CommitRejected (js_or (pget v ''reason'') (JStr ''Commit rejected'')) c] (engine_restore snapshot st1), [])
                     else record_merge cf events c m st1
                 | None \<Rightarrow> record_merge cf events c m st1)"

definition start_merge :: "'c engine \<Rightarrow> 'c merging" where
  "start_merge st = \<lparr>mg_engine = st, mg_results = [], mg_changes = [], mg_events = []\<rparr>"

definition engine_merge :: "'c engine_config \<Rightarrow> jsval \<Rightarrow> jsval \<Rightarrow> 'c engine \<Rightarrow> js_error + ('c engine \<times> addr list)" where
  "engine_merge cf frames options st =
     (case frames of
        JArr inputs \<Rightarrow>
          if inputs = [] then Inr (st, [])
          else Inr (finish_merge cf options st (foldl (mergeInput cf) (start_merge st) inputs))
      | _ \<Rightarrow> Inl (TypeError ''FrameEngine.merge() requires an array of frames''))"

section \<open>Hydration\<close>

definition hydrate_input :: "'c engine_config \<Rightarrow> 'c engine \<Rightarrow> jsval \<Rightarrow> 'c engine" where
  "hydrate_input cf st input =
     (if \<not> truthy (pget input ''id'') \<or> \<not> truthy (pget input ''type'') then st
      else let (st1, frame) = normalizeFrame cf False (props_of input) st;
               st2 = seedClock cf (oget frame ''updatedClock'') (seedClock cf (oget frame ''createdClock'') st1);
               k = oget frame ''id'';
               (st3, a) = alloc frame st2;
               st4 = appendHistory cf k a (st3\<lparr>en_frames := AList.update k a (en_frames st3)\<rparr>);
               st5 = (if truthy (oget frame ''parentID'') then addChild (oget frame ''parentID'') k st4 else st4);
               storedOrder = sanitizeStoredOrder (oget frame ''order'');
               storedCommitOrder = (let c = sanitizeStoredOrder (oget frame ''commitOrder'') in if c \<noteq> 0 then c else storedOrder)
           in st5\<lparr>en_frameOrder := max (en_frameOrder st5) storedOrder,
                  en_commitOrder := max (en_commitOrder st5) storedCommitOrder\<rparr>)"

definition engine_hydrate :: "'c engine_config \<Rightarrow> jsval \<Rightarrow> rat option \<Rightarrow> 'c engine \<Rightarrow> js_error + 'c engine" where
  "engine_hydrate cf frames headOrder st =
     (case frames of
        JArr inputs \<Rightarrow>
          let st0 = st\<lparr>en_frames := [], en_history := [], en_children := [], en_commits := [],
                       en_commitsByOrder := Map.empty, en_refs := [], en_frameOrder := 0, en_commitOrder := 0\<rparr>;
              st1 = foldl (hydrate_input cf) st0 inputs;
              st2 = (case headOrder of None \<Rightarrow> st1 | Some h \<Rightarrow> st1\<lparr>en_commitOrder := max (en_commitOrder st1) h\<rparr>)
          in Inr (if 0 < en_commitOrder st2
                  then st2\<lparr>en_refs := AList.update ''heads/main'' (en_commitOrder st2) (en_refs st2)\<rparr> else st2)
      | _ \<Rightarrow> Inl (TypeError ''FrameEngine.hydrate() requires an array of frames''))"

section \<open>The order of frames\<close>

definition isClosedAgentMessage :: "jsobj \<Rightarrow> bool" where
  "isClosedAgentMessage frame =
     (oget frame ''type'' = JStr ''AgentMessage''
      \<and> (pget (pget (oget frame ''state'') ''lifecycle'') ''status'' = JStr ''closed''
         \<or> pget (oget frame ''content'') ''status'' = JStr ''complete''))"

definition logicalSortClock :: "jsobj \<Rightarrow> jsval" where
  "logicalSortClock frame =
     (if isClosedAgentMessage frame
      then js_or (js_or (pget (pget (oget frame ''state'') ''lifecycle'') ''closedClock'') (oget frame ''updatedClock''))
             (oget frame ''createdClock'')
      else oget frame ''createdClock'')"

definition logicalSortTime :: "jsobj \<Rightarrow> jsval" where
  "logicalSortTime frame =
     (if isClosedAgentMessage frame
      then numberOr (pget (pget (oget frame ''state'') ''lifecycle'') ''closedAt'')
             (numberOr (oget frame ''updatedAt'') (oget frame ''createdAt''))
      else oget frame ''createdAt'')"

definition sortCommitOrder :: "jsobj \<Rightarrow> jsval" where
  "sortCommitOrder frame =
     (if is_finite_num (oget frame ''commitOrder'') then oget frame ''commitOrder''
      else js_or (oget frame ''order'') (JNum (Fin 0)))"

definition compareClock :: "(string \<Rightarrow> string \<Rightarrow> int) \<Rightarrow> jsval \<Rightarrow> jsval \<Rightarrow> rat" where
  "compareClock localeCompare a b =
     (if \<not> truthy a \<or> \<not> truthy b then 0
      else if a \<noteq> b then of_int (localeCompare (js_String a) (js_String b)) else 0)"

fun num_or_zero :: "jsval \<Rightarrow> rat" where
  "num_or_zero (JNum (Fin q)) = q"
| "num_or_zero _ = 0"

definition compareNumber :: "jsval \<Rightarrow> jsval \<Rightarrow> rat" where
  "compareNumber a b = num_or_zero a - num_or_zero b"

definition compareFrameOrder :: "(string \<Rightarrow> string \<Rightarrow> int) \<Rightarrow> jsobj \<Rightarrow> jsobj \<Rightarrow> rat" where
  "compareFrameOrder localeCompare a b =
     (let c1 = compareClock localeCompare (logicalSortClock a) (logicalSortClock b);
          c2 = compareNumber (logicalSortTime a) (logicalSortTime b);
          c3 = compareNumber (oget a ''order'') (oget b ''order'');
          c4 = compareNumber (sortCommitOrder a) (sortCommitOrder b)
      in if c1 \<noteq> 0 then c1 else if c2 \<noteq> 0 then c2 else if c3 \<noteq> 0 then c3 else if c4 \<noteq> 0 then c4
         else of_int (localeCompare (js_String (oget a ''id'')) (js_String (oget b ''id''))))"

definition sort_frames :: "(string \<Rightarrow> string \<Rightarrow> int) \<Rightarrow> jsobj list \<Rightarrow> jsobj list" where
  "sort_frames localeCompare fs = sort_by (\<lambda>a b. compareFrameOrder localeCompare a b \<le> 0) fs"

section \<open>Reads\<close>

definition present_frames :: "'c engine \<Rightarrow> jsval list \<Rightarrow> jsobj list" where
  "present_frames st ks = map (frame_at st) (List.map_filter (engine_get st) ks)"

definition getChildren :: "(string \<Rightarrow> string \<Rightarrow> int) \<Rightarrow> 'c engine \<Rightarrow> jsval \<Rightarrow> jsobj list" where
  "getChildren localeCompare st parentID =
     sort_frames localeCompare (present_frames st (case map_of (en_children st) parentID of None \<Rightarrow> [] | Some cs \<Rightarrow> cs))"

definition getVersionHistory :: "'c engine \<Rightarrow> jsval \<Rightarrow> jsobj list" where
  "getVersionHistory st k = map (frame_at st) (case map_of (en_history st) k of None \<Rightarrow> [] | Some vs \<Rightarrow> vs)"

definition engine_toArray :: "(string \<Rightarrow> string \<Rightarrow> int) \<Rightarrow> 'c engine \<Rightarrow> jsobj list" where
  "engine_toArray localeCompare st = sort_frames localeCompare (map (frame_at st \<circ> snd) (en_frames st))"

definition getCommit :: "'c engine \<Rightarrow> rat \<Rightarrow> commit option" where
  "getCommit st order = en_commitsByOrder st order"

fun num_le :: "jsnum \<Rightarrow> jsnum \<Rightarrow> bool" where
  "num_le NaN _ = False"
| "num_le _ NaN = False"
| "num_le NegInf _ = True"
| "num_le _ NegInf = False"
| "num_le _ PosInf = True"
| "num_le PosInf _ = False"
| "num_le (Fin p) (Fin q) = (p \<le> q)"

definition num_lt :: "jsnum \<Rightarrow> jsnum \<Rightarrow> bool" where
  "num_lt a b = (num_le a b \<and> a \<noteq> b)"

definition getCommits :: "'c engine \<Rightarrow> jsnum \<Rightarrow> jsnum \<Rightarrow> commit list" where
  "getCommits st fromOrder toOrder =
     filter (\<lambda>c. num_lt fromOrder (Fin (cm_order c)) \<and> num_le (Fin (cm_order c)) toOrder) (en_commits st)"

definition getLatestCommit :: "'c engine \<Rightarrow> commit option" where
  "getLatestCommit st = (if en_commits st = [] then None else Some (last (en_commits st)))"

section \<open>Refs\<close>

definition assertCommitOrder :: "'c engine \<Rightarrow> rat \<Rightarrow> js_error + unit" where
  "assertCommitOrder st order =
     (if order \<noteq> 0 \<and> getCommit st order = None
      then Inl (GenericError (''Commit order does not exist: '' @ num_string (Fin order))) else Inr ())"

definition createRef :: "string \<Rightarrow> rat option \<Rightarrow> 'c engine \<Rightarrow> js_error + 'c engine" where
  "createRef name commitOrder st =
     (let order = (case commitOrder of Some q \<Rightarrow> q
                   | None \<Rightarrow> (case getLatestCommit st of None \<Rightarrow> 0 | Some c \<Rightarrow> cm_order c))
      in and_then (assertCommitOrder st order)
           (\<lambda>_. Inr (emit_all [RefCreated name order] (st\<lparr>en_refs := AList.update name order (en_refs st)\<rparr>))))"

definition getRef :: "'c engine \<Rightarrow> string \<Rightarrow> rat option" where
  "getRef st name = map_of (en_refs st) name"

definition updateRef :: "string \<Rightarrow> rat \<Rightarrow> 'c engine \<Rightarrow> js_error + 'c engine" where
  "updateRef name commitOrder st =
     and_then (assertCommitOrder st commitOrder)
       (\<lambda>_. Inr (emit_all [RefUpdated name (getRef st name) commitOrder]
          (st\<lparr>en_refs := AList.update name commitOrder (en_refs st)\<rparr>)))"

definition listRefs :: "'c engine \<Rightarrow> string \<Rightarrow> (string \<times> rat) list" where
  "listRefs st prefix = filter (\<lambda>(name, _). prefix = [] \<or> starts_with name prefix) (en_refs st)"

definition resolveCommitOrder :: "'c engine \<Rightarrow> jsval \<Rightarrow> js_error + jsnum" where
  "resolveCommitOrder st v =
     (case v of
        JNum n \<Rightarrow> Inr n
      | JStr name \<Rightarrow> (case getRef st name of None \<Rightarrow> Inl (GenericError (''Unknown ref: '' @ name)) | Some q \<Rightarrow> Inr (Fin q))
      | _ \<Rightarrow> Inl (TypeError ''Commit order must be a number or ref name''))"

definition diffFrames :: "(string \<Rightarrow> string \<Rightarrow> int) \<Rightarrow> 'c engine \<Rightarrow> jsval \<Rightarrow> jsval \<Rightarrow> js_error + jsobj list" where
  "diffFrames localeCompare st fromOrder toOrder =
     and_then (resolveCommitOrder st fromOrder) (\<lambda>from_order.
     and_then (resolveCommitOrder st toOrder) (\<lambda>to_order.
       Inr (sort_frames localeCompare (present_frames st
         (uniq (map ch_frameID (concat (map cm_changes (getCommits st from_order to_order)))))))))"

end
