(* ===== verification/FrameStore.thy ===== *)
theory FrameStore
  imports FrameEngine
begin

text \<open>
  The invariant of the frame store and what a merge promises: the version history of every frame
  is bounded and ends with the current version, the commit log is bounded and agrees with its
  index, a refused commit leaves the store as it was, and every change of a recorded commit is
  readable as a current frame that carries the order of the commit.
\<close>

section \<open>Steps that leave the store alone\<close>

definition same_store :: "'c engine \<Rightarrow> 'c engine \<Rightarrow> bool" where
  "same_store st st' \<longleftrightarrow> en_frames st' = en_frames st \<and> en_history st' = en_history st \<and> en_children st' = en_children st
     \<and> en_commits st' = en_commits st \<and> en_commitsByOrder st' = en_commitsByOrder st \<and> en_refs st' = en_refs st
     \<and> en_heap st' = en_heap st \<and> en_commitOrder st' = en_commitOrder st \<and> en_emitted st' = en_emitted st"

lemma same_store_refl [simp]: "same_store st st"
  by (simp add: same_store_def)

lemma nextStamp_same: "nextStamp cf st = (st', micros, clock) \<Longrightarrow> same_store st st' \<and> en_frameOrder st' = en_frameOrder st"
  by (auto simp: nextStamp_def same_store_def split: prod.splits)

lemma oget_ospread_same: "distinct (map fst b) \<Longrightarrow> has_own b k \<Longrightarrow> oget (ospread a b) k = oget b k"
  by (simp add: oget_ospread)

lemma normalizeFrame_props:
  assumes "normalizeFrame cf stamped input st = (st', frame)"
  shows "same_store st st'" "oget frame ''id'' = oget input ''id''" "oget frame ''type'' = oget input ''type''"
proof -
  obtain st1 micros clock where s1: "(if stamped then nextStamp cf st else (st, JNum (Fin 0), Null)) = (st1, micros, clock)"
    by (metis prod_cases3)
  then have ss: "same_store st st1"
    using nextStamp_same[of cf st st1 micros clock] by (auto split: if_splits)
  show "same_store st st'" "oget frame ''id'' = oget input ''id''" "oget frame ''type'' = oget input ''type''"
    using assms ss unfolding normalizeFrame_def s1
    by (auto simp: Let_def oget_ospread_same same_store_def split: prod.splits if_splits)
qed

section \<open>The invariant\<close>

definition frame_ok :: "'c engine \<Rightarrow> jsval \<Rightarrow> addr \<Rightarrow> bool" where
  "frame_ok st k a \<longleftrightarrow> a < length (en_heap st) \<and> oget (frame_at st a) ''id'' = k \<and> truthy k"

definition history_ok :: "'c engine_config \<Rightarrow> 'c engine \<Rightarrow> jsval \<Rightarrow> bool" where
  "history_ok cf st k \<longleftrightarrow>
     (case (map_of (en_frames st) k, map_of (en_history st) k) of
        (None, None) \<Rightarrow> True
      | (Some a, Some vs) \<Rightarrow> vs \<noteq> [] \<and> last vs = a \<and> length vs \<le> cf_historyLimit cf \<and> (\<forall>v \<in> set vs. frame_ok st k v)
      | _ \<Rightarrow> False)"

definition engine_ok :: "'c engine_config \<Rightarrow> 'c engine \<Rightarrow> bool" where
  "engine_ok cf st \<longleftrightarrow> 1 \<le> cf_historyLimit cf \<and> (\<forall>k. history_ok cf st k)"

lemma engine_ok_current:
  assumes "engine_ok cf st" "engine_get st k = Some a"
  shows "frame_ok st k a"
proof -
  from assms have "history_ok cf st k" by (simp add: engine_ok_def)
  with assms(2) show ?thesis
    by (auto simp: history_ok_def engine_get_def split: option.splits)
qed

text \<open>Growing the heap, and the fields the invariant does not read.\<close>

lemma frame_ok_mono: "frame_ok st k a \<Longrightarrow> en_heap st' = en_heap st @ extra \<Longrightarrow> frame_ok st' k a"
  by (simp add: frame_ok_def frame_at_def nth_append)

lemma engine_ok_grow:
  assumes "engine_ok cf st" "en_frames st' = en_frames st" "en_history st' = en_history st" "en_heap st' = en_heap st @ extra"
  shows "engine_ok cf st'"
proof -
  have "history_ok cf st' k" for k
  proof -
    have "history_ok cf st k" using assms(1) by (simp add: engine_ok_def)
    with frame_ok_mono[OF _ assms(4)] show ?thesis
      by (auto simp: history_ok_def assms(2,3) split: option.splits)
  qed
  with assms(1) show ?thesis by (simp add: engine_ok_def)
qed

lemma engine_ok_same: "engine_ok cf st \<Longrightarrow> same_store st st' \<Longrightarrow> engine_ok cf st'"
  by (rule engine_ok_grow[of cf st st' "[]"]) (simp_all add: same_store_def)

lemma history_versions:
  assumes "engine_ok cf st"
  shows "\<forall>v \<in> set (case map_of (en_history st) k of None \<Rightarrow> [] | Some vs \<Rightarrow> vs). frame_ok st k v"
proof -
  have "history_ok cf st k" using assms by (simp add: engine_ok_def)
  then show ?thesis by (auto simp: history_ok_def split: option.splits)
qed

lemma install_engine_ok:
  assumes ok: "engine_ok cf st" and new: "frame_ok st k a"
  shows "engine_ok cf (appendHistory cf k a (st\<lparr>en_frames := AList.update k a (en_frames st)\<rparr>))" (is "engine_ok cf ?st'")
proof -
  let ?vs = "(case map_of (en_history st) k of None \<Rightarrow> [] | Some vs \<Rightarrow> vs) @ [a]"
  let ?kept = "if cf_history cf then drop (length ?vs - cf_historyLimit cf) ?vs else [a]"
  have limit: "1 \<le> cf_historyLimit cf" using ok by (simp add: engine_ok_def)
  have frames: "en_frames ?st' = AList.update k a (en_frames st)" and heap: "en_heap ?st' = en_heap st"
    and hist: "en_history ?st' = AList.update k ?kept (en_history st)"
    by (simp_all add: appendHistory_def Let_def)
  have fok: "frame_ok ?st' k' v \<longleftrightarrow> frame_ok st k' v" for k' v
    by (simp add: frame_ok_def frame_at_def heap)
  have "set ?kept \<subseteq> set ?vs"
  proof (cases "cf_history cf")
    case True
    then show ?thesis by (simp only: if_True set_drop_subset)
  qed simp
  moreover have "\<forall>v \<in> set ?vs. frame_ok st k v" using history_versions[OF ok, of k] new by auto
  ultimately have kept: "\<forall>v \<in> set ?kept. frame_ok st k v" by blast
  have nonempty: "?kept \<noteq> [] \<and> last ?kept = a \<and> length ?kept \<le> cf_historyLimit cf"
    using limit by (auto simp: last_drop)
  have "history_ok cf ?st' k'" for k'
  proof (cases "k' = k")
    case True
    with kept nonempty show ?thesis by (simp add: history_ok_def frames hist alist_simps fok)
  next
    case False
    have "history_ok cf st k'" using ok by (simp add: engine_ok_def)
    with False show ?thesis by (auto simp: history_ok_def frames hist alist_simps fok split: option.splits)
  qed
  with limit show ?thesis by (simp add: engine_ok_def)
qed

section \<open>The invariant of a merge in progress\<close>

text \<open>
  \<open>unrecorded\<close>: what a merge does not touch before it records a commit, and the frames of the
  heap it started from.
\<close>

definition unrecorded :: "'c engine \<Rightarrow> 'c engine \<Rightarrow> bool" where
  "unrecorded st0 st \<longleftrightarrow> en_commits st = en_commits st0 \<and> en_commitsByOrder st = en_commitsByOrder st0
     \<and> en_refs st = en_refs st0 \<and> en_commitOrder st = en_commitOrder st0 \<and> (\<exists>extra. en_heap st = en_heap st0 @ extra)"

lemma unrecorded_trans: "unrecorded st0 st1 \<Longrightarrow> unrecorded st1 st2 \<Longrightarrow> unrecorded st0 st2"
  by (auto simp: unrecorded_def)

lemma unrecorded_refl [simp]: "unrecorded st st"
  by (simp add: unrecorded_def)

lemma same_store_unrecorded: "same_store st st' \<Longrightarrow> unrecorded st st'"
  by (simp add: same_store_def unrecorded_def)

definition changed_ok :: "'c merging \<Rightarrow> change \<Rightarrow> bool" where
  "changed_ok m c \<longleftrightarrow> (\<exists>a \<in> set (mg_results m). engine_get (mg_engine m) (ch_frameID c) = Some a)"

definition merging_ok :: "'c engine_config \<Rightarrow> 'c engine \<Rightarrow> 'c merging \<Rightarrow> bool" where
  "merging_ok cf st0 m \<longleftrightarrow> engine_ok cf (mg_engine m) \<and> unrecorded st0 (mg_engine m)
     \<and> (\<forall>a \<in> set (mg_results m). \<exists>k. frame_ok (mg_engine m) k a)
     \<and> (\<forall>c \<in> set (mg_changes m). changed_ok m c)
     \<and> (mg_changes m = [] \<longrightarrow> en_frames (mg_engine m) = en_frames st0 \<and> en_history (mg_engine m) = en_history st0
          \<and> en_children (mg_engine m) = en_children st0)"

lemma merging_ok_start: "engine_ok cf st \<Longrightarrow> merging_ok cf st (start_merge st)"
  by (simp add: merging_ok_def start_merge_def)

text \<open>Replacing the engine by one that keeps the store and may have a longer heap.\<close>

definition extends :: "'c engine \<Rightarrow> 'c engine \<Rightarrow> bool" where
  "extends st st' \<longleftrightarrow> en_frames st' = en_frames st \<and> en_history st' = en_history st \<and> en_children st' = en_children st
     \<and> unrecorded st st'"

lemma extends_refl [simp]: "extends st st"
  by (simp add: extends_def)

lemma extends_trans: "extends st st' \<Longrightarrow> extends st' st'' \<Longrightarrow> extends st st''"
  by (auto simp: extends_def intro: unrecorded_trans)

lemma same_store_extends: "same_store st st' \<Longrightarrow> extends st st'"
  by (simp add: extends_def same_store_unrecorded) (simp add: same_store_def)

lemma alloc_extends: "alloc f st = (st', a) \<Longrightarrow> extends st st' \<and> a < length (en_heap st') \<and> frame_at st' a = f"
  by (auto simp: alloc_def extends_def unrecorded_def frame_at_def)

lemma extends_frame_ok: "extends st st' \<Longrightarrow> frame_ok st k a \<Longrightarrow> frame_ok st' k a \<and> frame_at st' a = frame_at st a"
  by (auto simp: extends_def unrecorded_def frame_ok_def frame_at_def nth_append)

lemma merging_ok_extends:
  assumes "merging_ok cf st0 m" "extends (mg_engine m) st'"
  shows "merging_ok cf st0 (m\<lparr>mg_engine := st'\<rparr>)"
proof -
  from assms(2) obtain extra where heap: "en_heap st' = en_heap (mg_engine m) @ extra"
    by (auto simp: extends_def unrecorded_def)
  have "engine_ok cf st'"
    using assms heap engine_ok_grow by (auto simp: merging_ok_def extends_def)
  moreover have "unrecorded st0 st'"
    using assms unrecorded_trans by (auto simp: merging_ok_def extends_def)
  moreover have "\<exists>k. frame_ok st' k a" if "a \<in> set (mg_results m)" for a
    using that assms(1) extends_frame_ok[OF assms(2)] unfolding merging_ok_def by blast
  moreover have "changed_ok (m\<lparr>mg_engine := st'\<rparr>) c" if "c \<in> set (mg_changes m)" for c
    using that assms by (auto simp: merging_ok_def changed_ok_def extends_def engine_get_def)
  ultimately show ?thesis
    using assms by (simp add: merging_ok_def extends_def)
qed

lemma queueEvent_engine [simp]:
  "mg_engine (queueEvent name a p m) = mg_engine m" "mg_results (queueEvent name a p m) = mg_results m"
  "mg_changes (queueEvent name a p m) = mg_changes m"
  by (simp_all add: queueEvent_def Let_def)

lemma merging_ok_cong:
  "mg_engine m' = mg_engine m \<Longrightarrow> mg_results m' = mg_results m \<Longrightarrow> mg_changes m' = mg_changes m \<Longrightarrow>
     merging_ok cf st0 m' = merging_ok cf st0 m"
  by (simp add: merging_ok_def changed_ok_def)

lemma queueEvent_ok [simp]: "merging_ok cf st0 (queueEvent name a p m) = merging_ok cf st0 m"
  by (rule merging_ok_cong) simp_all

lemma install_ok:
  assumes ok: "merging_ok cf st0 m" and new: "frame_ok (mg_engine m) k a" and c: "ch_frameID c = k"
  shows "merging_ok cf st0 (install_version cf k a c m)"
proof -
  let ?st = "mg_engine m" and ?m' = "install_version cf k a c m"
  have eng: "engine_ok cf (mg_engine ?m')"
    using install_engine_ok[OF _ new] ok by (simp add: merging_ok_def install_version_def Let_def)
  have frames: "en_frames (mg_engine ?m') = AList.update k a (en_frames ?st)" and heap: "en_heap (mg_engine ?m') = en_heap ?st"
    and unrec: "unrecorded ?st (mg_engine ?m')"
    by (simp_all add: install_version_def appendHistory_def Let_def unrecorded_def)
  have fok: "frame_ok (mg_engine ?m') k' v \<longleftrightarrow> frame_ok ?st k' v" for k' v
    by (simp add: frame_ok_def frame_at_def heap)
  have res: "mg_results ?m' = mg_results m @ [a]" and chs: "mg_changes ?m' = mg_changes m @ [c]"
    by (simp_all add: install_version_def Let_def)
  have "changed_ok ?m' d" if "d \<in> set (mg_changes m) \<or> d = c" for d
  proof (cases "ch_frameID d = k")
    case True
    then show ?thesis by (simp add: changed_ok_def res frames engine_get_def alist_simps)
  next
    case False
    with that c ok have "changed_ok m d" by (auto simp: merging_ok_def)
    with False show ?thesis by (auto simp: changed_ok_def res frames engine_get_def alist_simps)
  qed
  with ok eng unrec new show ?thesis
    by (auto simp: merging_ok_def res chs fok intro: unrecorded_trans)
qed

lemma addChild_simps [simp]:
  "en_frames (addChild p c st) = en_frames st" "en_history (addChild p c st) = en_history st"
  "en_heap (addChild p c st) = en_heap st" "unrecorded st (addChild p c st)"
  "engine_get (addChild p c st) k = engine_get st k" "frame_ok (addChild p c st) k a = frame_ok st k a"
  by (simp_all add: addChild_def Let_def unrecorded_def engine_get_def frame_ok_def frame_at_def)

lemma addChild_engine_ok: "engine_ok cf st \<Longrightarrow> engine_ok cf (addChild p c st)"
  by (rule engine_ok_grow[of cf st _ "[]"]) simp_all

lemma addChild_ok:
  assumes "merging_ok cf st0 m" "mg_changes m \<noteq> []"
  shows "merging_ok cf st0 (m\<lparr>mg_engine := addChild p c (mg_engine m)\<rparr>)"
proof -
  have "unrecorded st0 (addChild p c (mg_engine m))"
    using assms(1) by (auto simp: merging_ok_def intro: unrecorded_trans[of st0 "mg_engine m"])
  moreover have "engine_ok cf (addChild p c (mg_engine m))" using assms(1) addChild_engine_ok by (auto simp: merging_ok_def)
  ultimately show ?thesis using assms by (simp add: merging_ok_def changed_ok_def)
qed

section \<open>Every step of a merge keeps it\<close>

lemma storeFrame_ok:
  assumes "merging_ok cf st0 m" "frame_ok (mg_engine m) k a"
  shows "merging_ok cf st0 (storeFrame cf a m)"
proof -
  have k: "oget (frame_at (mg_engine m) a) ''id'' = k" using assms(2) by (simp add: frame_ok_def)
  have m1: "merging_ok cf st0 (install_version cf k a \<lparr>ch_frameID = k, ch_operation = p, ch_sourceFrameID = s\<rparr> m)" for p s
    by (rule install_ok[OF assms]) simp
  have "mg_changes (install_version cf k a c m) \<noteq> []" for c by (simp add: install_version_def Let_def)
  from addChild_ok[OF m1 this] m1 show ?thesis
    unfolding storeFrame_def k Let_def
    by (cases "engine_get (mg_engine m) k"; cases "truthy (oget (frame_at (mg_engine m) a) ''parentID'')") simp_all
qed

lemma update_existing_ok:
  assumes ok: "merging_ok cf st0 m" and f: "oget f ''id'' = k" "truthy k"
  shows "merging_ok cf st0 (update_existing cf k src f prev m)"
proof -
  obtain st1 u where s: "stampUpdated cf f (mg_engine m) = (st1, u)" by (cases "stampUpdated cf f (mg_engine m)")
  obtain st2 a where al: "alloc u st1 = (st2, a)" by (cases "alloc u st1")
  have u: "oget u ''id'' = k" "same_store (mg_engine m) st1"
    using s f by (auto simp: stampUpdated_def dest: nextStamp_same split: prod.splits)
  have ext: "extends (mg_engine m) st2"
    using extends_trans[OF same_store_extends[OF u(2)]] alloc_extends[OF al] by blast
  have "merging_ok cf st0 (m\<lparr>mg_engine := st2\<rparr>)" by (rule merging_ok_extends[OF ok ext])
  moreover have "frame_ok (mg_engine (m\<lparr>mg_engine := st2\<rparr>)) k a"
    using alloc_extends[OF al] u(1) f(2) by (simp add: frame_ok_def)
  ultimately show ?thesis
    by (simp add: update_existing_def s al Let_def install_ok)
qed

lemma merge_field_id: "key \<noteq> ''id'' \<Longrightarrow> oget (merge_field target source update key) ''id'' = oget update ''id''"
  by (simp add: merge_field_def)

lemma merge_fields_id: "oget (foldl (merge_field target source) update MERGEABLE_FIELDS) ''id'' = oget update ''id''"
  by (simp add: MERGEABLE_FIELDS_def merge_field_id)

lemma mergeTarget_ok:
  assumes "merging_ok cf st0 (snd acc)"
  shows "merging_ok cf st0 (snd (mergeTarget cf source acc targetID))"
proof -
  obtain seen m where acc: "acc = (seen, m)" by (cases acc)
  show ?thesis
  proof (cases "\<not> truthy targetID \<or> targetID = oget source ''id'' \<or> targetID \<in> set seen \<or> engine_get (mg_engine m) targetID = None")
    case True
    with assms acc show ?thesis by (auto simp: mergeTarget_def)
  next
    case False
    then obtain a where a: "engine_get (mg_engine m) targetID = Some a" and t: "truthy targetID" by auto
    have "frame_ok (mg_engine m) targetID a"
      using engine_ok_current[OF _ a] assms acc by (auto simp: merging_ok_def)
    then have "oget (foldl (merge_field (frame_at (mg_engine m) a) source) (frame_at (mg_engine m) a) MERGEABLE_FIELDS) ''id'' = targetID"
      by (simp add: merge_fields_id frame_ok_def)
    from update_existing_ok[OF _ this t] assms acc a False show ?thesis
      by (auto simp: mergeTarget_def Let_def)
  qed
qed

lemma mergeTargets_ok: "merging_ok cf st0 m \<Longrightarrow> merging_ok cf st0 (mergeTargets cf source m)"
proof -
  have "merging_ok cf st0 (snd acc) \<Longrightarrow> merging_ok cf st0 (snd (foldl (mergeTarget cf source) acc ts))" for ts acc
  proof (induction ts arbitrary: acc)
    case (Cons t ts)
    from Cons.IH[OF mergeTarget_ok[OF Cons.prems]] show ?case by simp
  qed simp
  then show "merging_ok cf st0 m \<Longrightarrow> merging_ok cf st0 (mergeTargets cf source m)"
    by (simp add: mergeTargets_def)
qed

lemma emit_ok: "merging_ok cf st0 m \<Longrightarrow> merging_ok cf st0 (emit e m)"
  using merging_ok_extends[of cf st0 m "(mg_engine m)\<lparr>en_emitted := en_emitted (mg_engine m) @ [e]\<rparr>"]
  by (simp add: emit_def extends_def unrecorded_def)

lemma normalized_alloc_ok:
  assumes "merging_ok cf st0 m" "normalizeFrame cf stamped input (mg_engine m) = (st1, frame)" "alloc frame st1 = (st2, a)"
    and "truthy (oget input ''id'')"
  shows "merging_ok cf st0 (m\<lparr>mg_engine := st2\<rparr>)" "frame_ok st2 (oget input ''id'') a" "frame_at st2 a = frame"
proof -
  have "extends (mg_engine m) st2"
    using extends_trans same_store_extends normalizeFrame_props(1)[OF assms(2)] alloc_extends[OF assms(3)] by blast
  with assms(1) show "merging_ok cf st0 (m\<lparr>mg_engine := st2\<rparr>)" by (rule merging_ok_extends)
  show "frame_ok st2 (oget input ''id'') a" "frame_at st2 a = frame"
    using alloc_extends[OF assms(3)] normalizeFrame_props(2)[OF assms(2)] assms(4) by (simp_all add: frame_ok_def)
qed

lemma mergePhantom_ok:
  assumes ok: "merging_ok cf st0 m"
  shows "merging_ok cf st0 (mergePhantom cf a m)"
proof -
  let ?frame = "frame_at (mg_engine m) a"
  let ?g = "oget ?frame ''groupID''"
  show ?thesis
  proof (cases "truthy ?g")
    case False
    with ok show ?thesis by (simp add: mergePhantom_def Let_def)
  next
    case g: True
    show ?thesis
    proof (cases "engine_get (mg_engine m) ?g")
      case None
      let ?input = "ospread ?frame [(''id'', ?g), (''type'', js_or (oget ?frame ''groupType'') (oget ?frame ''type'')), (''phantom'', JBool False),
                      (''targets'', JArr []), (''hidden'', JBool True), (''deleted'', JBool False)]"
      obtain st1 group where n: "normalizeFrame cf True ?input (mg_engine m) = (st1, group)" by (metis prod.exhaust)
      obtain st2 ga where al: "alloc group st1 = (st2, ga)" by (metis prod.exhaust)
      have k: "oget ?input ''id'' = ?g" by (simp add: oget_ospread_same)
      note na = normalized_alloc_ok[OF ok n al, unfolded k, OF g]
      have "merging_ok cf st0 (storeFrame cf ga (m\<lparr>mg_engine := st2\<rparr>))"
        by (rule storeFrame_ok[OF na(1)]) (use na(2) in simp)
      with g None n al show ?thesis by (simp add: mergePhantom_def Let_def)
    next
      case (Some existing)
      have fok: "frame_ok (mg_engine m) ?g existing"
        using engine_ok_current[OF _ Some] ok by (auto simp: merging_ok_def)
      then have k: "oget (frame_at (mg_engine m) existing) ''id'' = ?g" by (simp add: frame_ok_def)
      show ?thesis
      proof (cases "truthy (oget ?frame ''groupType'') \<and> oget ?frame ''groupType'' \<noteq> oget (frame_at (mg_engine m) existing) ''type''")
        case True
        with g Some emit_ok[OF ok] show ?thesis by (simp add: mergePhantom_def Let_def)
      next
        case False
        with g Some k show ?thesis
          unfolding mergePhantom_def Let_def by (auto intro!: update_existing_ok[OF ok])
      qed
    qed
  qed
qed

lemma mergeInput_ok:
  assumes ok: "merging_ok cf st0 m"
  shows "merging_ok cf st0 (mergeInput cf m input)"
proof (cases "truthy (pget input ''id'') \<and> truthy (pget input ''type'')")
  case False
  with ok show ?thesis by (auto simp: mergeInput_def)
next
  case True
  then obtain ps where ps: "input = JObj ps" by (cases input) auto
  obtain st1 frame where n: "normalizeFrame cf True ps (mg_engine m) = (st1, frame)" by (metis prod.exhaust)
  obtain st2 a where al: "alloc frame st1 = (st2, a)" by (metis prod.exhaust)
  have "truthy (oget ps ''id'')" using True ps by simp
  note na = normalized_alloc_ok[OF ok n al this]
  have "merging_ok cf st0 (mergePhantom cf a (m\<lparr>mg_engine := st2\<rparr>))" by (rule mergePhantom_ok[OF na(1)])
  moreover have "merging_ok cf st0 (mergeTargets cf frame (storeFrame cf a (m\<lparr>mg_engine := st2\<rparr>)))"
    by (rule mergeTargets_ok[OF storeFrame_ok[OF na(1)]]) (use na(2) in simp)
  ultimately show ?thesis using True ps n al by (simp add: mergeInput_def Let_def)
qed

lemma merge_inputs_ok:
  assumes "engine_ok cf st"
  shows "merging_ok cf st (foldl (mergeInput cf) (start_merge st) inputs)"
proof -
  have "merging_ok cf st m \<Longrightarrow> merging_ok cf st (foldl (mergeInput cf) m inputs)" for m
  proof (induction inputs arbitrary: m)
    case (Cons i "is")
    from Cons.IH[OF mergeInput_ok[OF Cons.prems]] show ?case by simp
  qed simp
  with merging_ok_start[OF assms] show ?thesis by blast
qed

section \<open>Stamping the commit order\<close>

definition ordered :: "rat \<Rightarrow> 'c engine \<Rightarrow> jsval \<Rightarrow> bool" where
  "ordered order st k \<longleftrightarrow> (case engine_get st k of None \<Rightarrow> True
     | Some a \<Rightarrow> oget (frame_at st a) ''commitOrder'' = JNum (Fin order))"

lemma write_commit_order_simps [simp]:
  "en_frames (write_commit_order order a st) = en_frames st" "en_history (write_commit_order order a st) = en_history st"
  "en_commits (write_commit_order order a st) = en_commits st" "en_refs (write_commit_order order a st) = en_refs st"
  "en_commitsByOrder (write_commit_order order a st) = en_commitsByOrder st"
  "en_commitOrder (write_commit_order order a st) = en_commitOrder st"
  "engine_get (write_commit_order order a st) k = engine_get st k"
  "length (en_heap (write_commit_order order a st)) = length (en_heap st)"
  by (simp_all add: write_commit_order_def engine_get_def)

lemma write_commit_order_at:
  "a < length (en_heap st) \<Longrightarrow> frame_at (write_commit_order order a st) b =
     (if b = a then oset (frame_at st a) ''commitOrder'' (JNum (Fin order)) else frame_at st b)"
  by (simp add: write_commit_order_def frame_at_def)

lemma write_commit_order_out: "\<not> a < length (en_heap st) \<Longrightarrow> write_commit_order order a st = st"
  by (cases st) (simp add: write_commit_order_def list_update_beyond)

lemma write_commit_order_id [simp]:
  "key \<noteq> ''commitOrder'' \<Longrightarrow> oget (frame_at (write_commit_order order a st) b) key = oget (frame_at st b) key"
  by (cases "a < length (en_heap st)") (simp_all add: write_commit_order_at write_commit_order_out)

lemma write_commit_order_ordered:
  "oget (frame_at st b) ''commitOrder'' = JNum (Fin order) \<Longrightarrow>
     oget (frame_at (write_commit_order order a st) b) ''commitOrder'' = JNum (Fin order)"
  by (cases "a < length (en_heap st)") (simp_all add: write_commit_order_at write_commit_order_out)

lemma frame_ok_write [simp]: "frame_ok (write_commit_order order b st) = frame_ok st"
  by (intro ext) (simp add: frame_ok_def)

lemma engine_ok_write [simp]: "engine_ok cf (write_commit_order order a st) = engine_ok cf st"
  by (simp add: engine_ok_def history_ok_def cong: option.case_cong)

text \<open>What one pass over the results keeps, and what it establishes for the ids it has seen.\<close>

definition stamping :: "'c engine_config \<Rightarrow> rat \<Rightarrow> 'c engine \<Rightarrow> jsval list \<times> 'c engine \<Rightarrow> bool" where
  "stamping cf order st0 acc \<longleftrightarrow> engine_ok cf (snd acc) \<and> (\<forall>k \<in> set (fst acc). ordered order (snd acc) k)
     \<and> en_frames (snd acc) = en_frames st0 \<and> en_commits (snd acc) = en_commits st0 \<and> en_history (snd acc) = en_history st0
     \<and> en_commitsByOrder (snd acc) = en_commitsByOrder st0 \<and> en_refs (snd acc) = en_refs st0
     \<and> en_commitOrder (snd acc) = en_commitOrder st0
     \<and> length (en_heap (snd acc)) = length (en_heap st0)
     \<and> (\<forall>b. oget (frame_at (snd acc) b) ''id'' = oget (frame_at st0 b) ''id'')"

lemma stamping_step:
  assumes "stamping cf order st0 acc"
  shows "stamping cf order st0 (apply_commit_order_step order acc a)
    \<and> set (fst acc) \<subseteq> set (fst (apply_commit_order_step order acc a))
    \<and> (truthy (oget (frame_at st0 a) ''id'') \<longrightarrow> oget (frame_at st0 a) ''id'' \<in> set (fst (apply_commit_order_step order acc a)))"
proof -
  obtain seen st where acc: "acc = (seen, st)" by (cases acc)
  let ?k = "oget (frame_at st a) ''id''"
  have k: "oget (frame_at st0 a) ''id'' = ?k" using assms acc by (simp add: stamping_def)
  show ?thesis
  proof (cases "\<not> truthy ?k \<or> ?k \<in> set seen")
    case True
    with assms acc k show ?thesis by (auto simp: apply_commit_order_step_def Let_def)
  next
    case False
    let ?st1 = "write_commit_order order a st"
    have w: "ordered order (write_commit_order order b st') k'" if "ordered order st' k'" for b st' k'
      using that by (auto simp: ordered_def write_commit_order_ordered split: option.splits)
    show ?thesis
    proof (cases "engine_get st ?k")
      case None
      then have "ordered order ?st1 ?k" by (simp add: ordered_def)
      with False None assms acc k w show ?thesis
        by (auto simp: apply_commit_order_step_def Let_def stamping_def)
    next
      case (Some b)
      then have "b < length (en_heap st)"
        using engine_ok_current[of cf st ?k b] assms acc by (auto simp: stamping_def frame_ok_def)
      then have "ordered order (write_commit_order order b ?st1) ?k"
        using Some by (simp add: ordered_def write_commit_order_at)
      with False Some assms acc k show ?thesis
        by (auto simp: apply_commit_order_step_def Let_def stamping_def intro!: w)
    qed
  qed
qed

lemma applyCommitOrder_spec:
  assumes "engine_ok cf st"
  shows "engine_ok cf (applyCommitOrder as order st)"
    "en_frames (applyCommitOrder as order st) = en_frames st" "en_commits (applyCommitOrder as order st) = en_commits st"
    "en_history (applyCommitOrder as order st) = en_history st"
    "en_commitsByOrder (applyCommitOrder as order st) = en_commitsByOrder st" "en_refs (applyCommitOrder as order st) = en_refs st"
    "en_commitOrder (applyCommitOrder as order st) = en_commitOrder st"
    "a \<in> set as \<Longrightarrow> truthy (oget (frame_at st a) ''id'') \<Longrightarrow> ordered order (applyCommitOrder as order st) (oget (frame_at st a) ''id'')"
proof -
  have fold: "stamping cf order st acc \<Longrightarrow> stamping cf order st (foldl (apply_commit_order_step order) acc as)
      \<and> set (fst acc) \<subseteq> set (fst (foldl (apply_commit_order_step order) acc as))
      \<and> (\<forall>a \<in> set as. truthy (oget (frame_at st a) ''id'') \<longrightarrow>
           oget (frame_at st a) ''id'' \<in> set (fst (foldl (apply_commit_order_step order) acc as)))" for acc
  proof (induction as arbitrary: acc)
    case (Cons b as)
    let ?acc = "apply_commit_order_step order acc b"
    from stamping_step[OF Cons.prems, of b] Cons.IH[of ?acc] show ?case by auto
  qed simp
  have "stamping cf order st ([], st)" using assms by (simp add: stamping_def)
  from fold[OF this]
  show "engine_ok cf (applyCommitOrder as order st)"
    "en_frames (applyCommitOrder as order st) = en_frames st" "en_commits (applyCommitOrder as order st) = en_commits st"
    "en_history (applyCommitOrder as order st) = en_history st"
    "en_commitsByOrder (applyCommitOrder as order st) = en_commitsByOrder st" "en_refs (applyCommitOrder as order st) = en_refs st"
    "en_commitOrder (applyCommitOrder as order st) = en_commitOrder st"
    "a \<in> set as \<Longrightarrow> truthy (oget (frame_at st a) ''id'') \<Longrightarrow> ordered order (applyCommitOrder as order st) (oget (frame_at st a) ''id'')"
    by (auto simp: applyCommitOrder_def stamping_def)
qed

section \<open>The commit log\<close>

definition commits_ok :: "'c engine_config \<Rightarrow> 'c engine \<Rightarrow> bool" where
  "commits_ok cf st \<longleftrightarrow> sorted_wrt (<) (map cm_order (en_commits st)) \<and> (\<forall>c \<in> set (en_commits st). cm_order c \<le> en_commitOrder st)
     \<and> length (en_commits st) \<le> cf_commitLimit cf
     \<and> (\<forall>q c. en_commitsByOrder st q = Some c \<longleftrightarrow> c \<in> set (en_commits st) \<and> cm_order c = q)"

lemma fold_unset:
  "foldl (\<lambda>f r. f(cm_order r := None)) byOrder cs q = (if q \<in> cm_order ` set cs then None else byOrder q)"
  by (induction cs arbitrary: byOrder) auto

lemma fold_set:
  "sorted_wrt (<) (map cm_order cs) \<Longrightarrow>
     foldl (\<lambda>f c. f(cm_order c := Some c)) byOrder cs q = Some c
     \<longleftrightarrow> (c \<in> set cs \<and> cm_order c = q) \<or> (q \<notin> cm_order ` set cs \<and> byOrder q = Some c)"
proof (induction cs arbitrary: byOrder)
  case (Cons d ds)
  then have "cm_order d \<notin> cm_order ` set ds" by auto
  with Cons show ?case by auto
qed auto

lemma rebuilt_index:
  assumes "commits_ok cf st"
  shows "foldl (\<lambda>f c. f(cm_order c := Some c)) Map.empty (en_commits st) = en_commitsByOrder st"
proof
  fix q
  show "foldl (\<lambda>f c. f(cm_order c := Some c)) Map.empty (en_commits st) q = en_commitsByOrder st q"
  proof (rule option_eqI)
    fix c
    show "foldl (\<lambda>f c. f(cm_order c := Some c)) Map.empty (en_commits st) q = Some c \<longleftrightarrow> en_commitsByOrder st q = Some c"
      using assms fold_set[of "en_commits st" Map.empty q c] by (simp add: commits_ok_def)
  qed
qed

lemma recordCommit_ok:
  assumes ok: "commits_ok cf st" and new: "\<forall>d \<in> set (en_commits st). cm_order d < cm_order c" "cm_order c \<le> en_commitOrder st"
    and limit: "1 \<le> cf_commitLimit cf"
  shows "commits_ok cf (recordCommit cf c st)" "last (en_commits (recordCommit cf c st)) = c"
    "en_commits (recordCommit cf c st) \<noteq> []"
proof -
  let ?cs = "en_commits st @ [c]" and ?n = "length (en_commits st @ [c]) - cf_commitLimit cf"
  have sorted: "sorted_wrt (<) (map cm_order ?cs)"
    using ok new by (auto simp: commits_ok_def sorted_wrt_append)
  have parts: "take ?n ?cs @ drop ?n ?cs = ?cs" by (rule append_take_drop_id)
  note sd = sorted_map_split(1)[OF sorted, of ?n] and lt = sorted_map_split(2)[OF sorted, of ?n]
  have mem: "x \<in> set ?cs \<longleftrightarrow> x \<in> set (take ?n ?cs) \<or> x \<in> set (drop ?n ?cs)" for x
    using parts by (metis Un_iff set_append)
  have idx0: "((en_commitsByOrder st)(cm_order c := Some c)) q = Some d \<longleftrightarrow> d \<in> set ?cs \<and> cm_order d = q" for q d
    using ok new by (auto simp: commits_ok_def)
  have commits: "en_commits (recordCommit cf c st) = drop ?n ?cs"
    and index: "en_commitsByOrder (recordCommit cf c st) =
      foldl (\<lambda>f r. f(cm_order r := None)) ((en_commitsByOrder st)(cm_order c := Some c)) (take ?n ?cs)"
    and co: "en_commitOrder (recordCommit cf c st) = en_commitOrder st"
    by (simp_all only: recordCommit_def Let_def) simp_all
  have idx: "en_commitsByOrder (recordCommit cf c st) q = Some d \<longleftrightarrow> d \<in> set (drop ?n ?cs) \<and> cm_order d = q" for q d
  proof
    assume "en_commitsByOrder (recordCommit cf c st) q = Some d"
    then have "q \<notin> cm_order ` set (take ?n ?cs)" "((en_commitsByOrder st)(cm_order c := Some c)) q = Some d"
      unfolding index fold_unset by (metis option.distinct(1))+
    with idx0 mem show "d \<in> set (drop ?n ?cs) \<and> cm_order d = q" by (metis imageI)
  next
    assume d: "d \<in> set (drop ?n ?cs) \<and> cm_order d = q"
    with lt have "q \<notin> cm_order ` set (take ?n ?cs)" by (metis (no_types, lifting) imageE less_irrefl)
    moreover have "((en_commitsByOrder st)(cm_order c := Some c)) q = Some d" using idx0 mem d by blast
    ultimately show "en_commitsByOrder (recordCommit cf c st) q = Some d" unfolding index fold_unset by simp
  qed
  have bound: "\<forall>d \<in> set (drop ?n ?cs). cm_order d \<le> en_commitOrder st"
  proof -
    have "\<forall>d \<in> set ?cs. cm_order d \<le> en_commitOrder st" using ok new(2) by (auto simp: commits_ok_def)
    with mem show ?thesis by blast
  qed
  have len: "length (drop ?n ?cs) \<le> cf_commitLimit cf" by (simp del: drop_append)
  show "commits_ok cf (recordCommit cf c st)"
    unfolding commits_ok_def commits co using sd bound len idx by blast
  have "drop ?n ?cs \<noteq> [] \<and> last (drop ?n ?cs) = c" using limit by (simp add: last_drop del: drop_append)
  then show "last (en_commits (recordCommit cf c st)) = c" "en_commits (recordCommit cf c st) \<noteq> []"
    unfolding commits by auto
qed

section \<open>The end of a merge\<close>

lemma js_inc_up: "q < 9007199254740992 \<Longrightarrow> js_inc q = q + 1"
  by (simp add: js_inc_def)

lemma createCommit_props:
  assumes "createCommit cf changes options st = (st1, c)"
  shows "cm_order c = js_inc (en_commitOrder st)" "cm_changes c = changes"
    "st1 = st\<lparr>en_clock := en_clock st1, en_commitOrder := cm_order c\<rparr>"
  using assms by (auto simp: createCommit_def nextStamp_def Let_def split: prod.splits if_splits)

lemma createCommit_store:
  assumes "createCommit cf changes options st = (st1, c)"
  shows "en_frames st1 = en_frames st" "en_history st1 = en_history st" "en_children st1 = en_children st"
    "en_commits st1 = en_commits st" "en_commitsByOrder st1 = en_commitsByOrder st" "en_refs st1 = en_refs st"
    "en_heap st1 = en_heap st" "en_commitOrder st1 = cm_order c"
  using assms by (auto simp: createCommit_def nextStamp_def Let_def split: prod.splits if_splits)

lemma record_simps [simp]:
  "en_frames (recordCommit cf c st) = en_frames st" "en_history (recordCommit cf c st) = en_history st"
  "en_heap (recordCommit cf c st) = en_heap st" "en_refs (recordCommit cf c st) = en_refs st"
  "en_commitOrder (recordCommit cf c st) = en_commitOrder st"
  by (simp_all add: recordCommit_def Let_def)

lemma emit_all_simps [simp]:
  "en_frames (emit_all es st) = en_frames st" "en_history (emit_all es st) = en_history st"
  "en_children (emit_all es st) = en_children st"
  "en_commits (emit_all es st) = en_commits st" "en_commitsByOrder (emit_all es st) = en_commitsByOrder st"
  "en_refs (emit_all es st) = en_refs st" "en_heap (emit_all es st) = en_heap st" "en_commitOrder (emit_all es st) = en_commitOrder st"
  "engine_get (emit_all es st) k = engine_get st k" "frame_at (emit_all es st) a = frame_at st a"
  "engine_ok cf (emit_all es st) = engine_ok cf st" "commits_ok cf (emit_all es st) = commits_ok cf st"
  "getLatestCommit (emit_all es st) = getLatestCommit st" "getCommit (emit_all es st) q = getCommit st q"
  "getRef (emit_all es st) r = getRef st r"
  by (simp_all add: emit_all_def engine_get_def frame_at_def engine_ok_def history_ok_def frame_ok_def commits_ok_def
      getLatestCommit_def getCommit_def getRef_def cong: option.case_cong)

text \<open>The state a recorded commit leaves, before its events are emitted.\<close>

definition recorded :: "'c engine_config \<Rightarrow> commit \<Rightarrow> 'c merging \<Rightarrow> 'c engine \<Rightarrow> 'c engine" where
  "recorded cf c m st = (let st1 = recordCommit cf c st
     in applyCommitOrder (mg_results m) (cm_order c) (st1\<lparr>en_refs := AList.update ''heads/main'' (cm_order c) (en_refs st1)\<rparr>))"

lemma record_merge_recorded:
  "record_merge cf events c m st =
     ((if events then emit_all (mg_events m @ [CommitEvent c (mg_results m)]) (recorded cf c m st) else recorded cf c m st), mg_results m)"
  by (simp add: record_merge_def recorded_def Let_def)

definition commit_readable :: "'c engine \<Rightarrow> commit \<Rightarrow> bool" where
  "commit_readable st c \<longleftrightarrow> (\<forall>ch \<in> set (cm_changes c). \<exists>a. engine_get st (ch_frameID ch) = Some a
     \<and> oget (frame_at st a) ''commitOrder'' = JNum (Fin (cm_order c)))"

lemma recorded_ok:
  assumes m: "merging_ok cf st0 m" and cok: "commits_ok cf st0" and limit: "1 \<le> cf_commitLimit cf"
    and order: "en_commitOrder st0 < 9007199254740992"
    and cc: "createCommit cf (mg_changes m) options (mg_engine m) = (st1, c)"
  shows "engine_ok cf (recorded cf c m st1)" "commits_ok cf (recorded cf c m st1)"
    "getLatestCommit (recorded cf c m st1) = Some c" "getCommit (recorded cf c m st1) (cm_order c) = Some c"
    "getRef (recorded cf c m st1) ''heads/main'' = Some (cm_order c)"
    "cm_order c = en_commitOrder st0 + 1" "commit_readable (recorded cf c m st1) c"
    "cm_changes c = mg_changes m"
proof -
  note cs = createCommit_store[OF cc]
  have unrec: "unrecorded st0 (mg_engine m)" using m by (simp add: merging_ok_def)
  show ord: "cm_order c = en_commitOrder st0 + 1"
    using createCommit_props(1)[OF cc] unrec order by (simp add: unrecorded_def js_inc_up)
  show chs: "cm_changes c = mg_changes m" by (rule createCommit_props(2)[OF cc])
  let ?st2 = "recordCommit cf c st1"
  let ?st3 = "?st2\<lparr>en_refs := AList.update ''heads/main'' (cm_order c) (en_refs ?st2)\<rparr>"
  let ?st4 = "applyCommitOrder (mg_results m) (cm_order c) ?st3"
  have r: "recorded cf c m st1 = ?st4" by (simp add: recorded_def Let_def)
  have ok1: "engine_ok cf ?st3"
    by (rule engine_ok_grow[of cf "mg_engine m" _ "[]"]) (use m cs in \<open>simp_all add: merging_ok_def\<close>)
  note ap = applyCommitOrder_spec[OF ok1]
  have "commits_ok cf st1"
    using cok cs unrec ord by (auto simp: commits_ok_def unrecorded_def)
  moreover have "\<forall>d \<in> set (en_commits st1). cm_order d < cm_order c"
    using cok cs unrec ord by (fastforce simp: commits_ok_def unrecorded_def)
  ultimately have rc: "commits_ok cf ?st2" "last (en_commits ?st2) = c" "en_commits ?st2 \<noteq> []"
    using recordCommit_ok[of cf st1 c] cs(8) limit by auto
  show "engine_ok cf (recorded cf c m st1)" unfolding r by (rule ap(1))
  show ck: "commits_ok cf (recorded cf c m st1)"
    using rc(1) unfolding r commits_ok_def ap(3,5,7) by simp
  show lc: "getLatestCommit (recorded cf c m st1) = Some c"
    using rc(2,3) unfolding r getLatestCommit_def ap(3) by simp
  then have "c \<in> set (en_commits (recorded cf c m st1))"
    unfolding getLatestCommit_def by (metis last_in_set option.distinct(1) option.inject)
  with ck show "getCommit (recorded cf c m st1) (cm_order c) = Some c"
    by (simp add: getCommit_def commits_ok_def)
  show "getRef (recorded cf c m st1) ''heads/main'' = Some (cm_order c)"
    unfolding r getRef_def ap(6) by (simp add: alist_simps)
  show "commit_readable (recorded cf c m st1) c"
    unfolding commit_readable_def
  proof
    fix ch assume "ch \<in> set (cm_changes c)"
    then obtain a where a: "a \<in> set (mg_results m)" "engine_get (mg_engine m) (ch_frameID ch) = Some a"
      using m chs by (auto simp: merging_ok_def changed_ok_def)
    have fok: "frame_ok (mg_engine m) (ch_frameID ch) a"
      using engine_ok_current[OF _ a(2), of cf] m by (simp add: merging_ok_def)
    have at3: "frame_at ?st3 a = frame_at (mg_engine m) a" by (simp add: frame_at_def cs)
    have "ordered (cm_order c) ?st4 (ch_frameID ch)"
      using ap(8)[OF a(1), of "cm_order c"] fok at3 by (simp add: frame_ok_def)
    moreover have "engine_get ?st4 (ch_frameID ch) = Some a"
      using a(2) unfolding engine_get_def ap(2) by (simp add: cs)
    ultimately show "\<exists>a. engine_get (recorded cf c m st1) (ch_frameID ch) = Some a
        \<and> oget (frame_at (recorded cf c m st1) a) ''commitOrder'' = JNum (Fin (cm_order c))"
      unfolding r by (simp add: ordered_def)
  qed
qed

text \<open>The three ways a merge ends.\<close>

lemma engine_merge_cases:
  assumes ok: "engine_ok cf st" and ret: "engine_merge cf (JArr inputs) options st = Inr (st', results)"
  obtains (unchanged) m where "merging_ok cf st m" "mg_changes m = []" "results = []"
      "st' = mg_engine m \<or> st' = emit_all (mg_events m) (mg_engine m)"
    | (rejected) m st1 c v where "merging_ok cf st m" "createCommit cf (mg_changes m) options (mg_engine m) = (st1, c)" "results = []"
      "st' = emit_all [CommitRejected v c] (engine_restore st st1)"
    | (recorded) m st1 c es where "merging_ok cf st m" "createCommit cf (mg_changes m) options (mg_engine m) = (st1, c)"
      "mg_changes m \<noteq> []" "results = mg_results m" "st' = emit_all es (recorded cf c m st1)"
proof (cases "inputs = []")
  case True
  with ret have "st' = mg_engine (start_merge st)" "results = []"
    by (simp_all add: engine_merge_def start_merge_def)
  moreover have "mg_changes (start_merge st) = []" by (simp add: start_merge_def)
  ultimately show thesis using unchanged[OF merging_ok_start[OF ok]] by blast
next
  case False
  define m where "m = foldl (mergeInput cf) (start_merge st) inputs"
  have mok: "merging_ok cf st m" unfolding m_def by (rule merge_inputs_ok[OF ok])
  have fin: "finish_merge cf options st m = (st', results)" using ret False by (simp add: engine_merge_def m_def)
  show thesis
  proof (cases "mg_changes m = []")
    case True
    with fin show thesis by (intro unchanged[OF mok True]) (auto simp: finish_merge_def Let_def split: if_splits)
  next
    case False
    obtain st1 c where cc: "createCommit cf (mg_changes m) options (mg_engine m) = (st1, c)" by (metis prod.exhaust)
    have "emit_all [] x = x" for x :: "'a engine" by (simp add: emit_all_def)
    then have rec: thesis if "record_merge cf events c m st1 = (st', results)" for events
      using that recorded[OF mok cc False, of "if events then mg_events m @ [CommitEvent c (mg_results m)] else []"]
      by (auto simp: record_merge_recorded split: if_splits)
    show thesis
    proof (cases "cf_commitValidator cf")
      case None
      with fin False cc rec show thesis by (auto simp: finish_merge_def Let_def)
    next
      case (Some f)
      let ?v = "f c (map (frame_at st1) (mg_results m)) (js_or (pget options ''actorContext'') Null)"
      show thesis
      proof (cases "rejects ?v")
        case True
        with fin False cc Some show thesis by (intro rejected[OF mok cc]) (auto simp: finish_merge_def Let_def)
      next
        case no: False
        with fin False cc Some rec show thesis by (auto simp: finish_merge_def Let_def)
      qed
    qed
  qed
qed

lemma recorded_results: "merging_ok cf st m \<Longrightarrow> mg_changes m \<noteq> [] \<Longrightarrow> mg_results m \<noteq> []"
  by (cases "mg_changes m") (auto simp: merging_ok_def changed_ok_def)

text \<open>Two engines that hold the same frames, versions, commits and refs.\<close>

definition same_contents :: "'c engine \<Rightarrow> 'c engine \<Rightarrow> bool" where
  "same_contents st st' \<longleftrightarrow> en_frames st' = en_frames st \<and> en_history st' = en_history st \<and> en_children st' = en_children st
     \<and> en_commits st' = en_commits st \<and> en_commitsByOrder st' = en_commitsByOrder st \<and> en_refs st' = en_refs st
     \<and> en_commitOrder st' = en_commitOrder st
     \<and> (\<forall>k. frame_value st' k = frame_value st k) \<and> (\<forall>k. getVersionHistory st' k = getVersionHistory st k)"

lemma same_contentsI:
  assumes "engine_ok cf st" "en_frames st' = en_frames st" "en_history st' = en_history st" "en_children st' = en_children st"
    "en_commits st' = en_commits st" "en_commitsByOrder st' = en_commitsByOrder st" "en_refs st' = en_refs st"
    "en_commitOrder st' = en_commitOrder st" "en_heap st' = en_heap st @ extra"
  shows "same_contents st st'"
proof -
  have fr: "frame_at st' a = frame_at st a" if "frame_ok st k a" for k a
    using that assms(9) by (simp add: frame_ok_def frame_at_def nth_append)
  have "frame_value st' k = frame_value st k" for k
    using fr engine_ok_current[OF assms(1), of k]
    by (auto simp: frame_value_def engine_get_def assms(2) split: option.splits)
  moreover have "getVersionHistory st' k = getVersionHistory st k" for k
    using history_versions[OF assms(1), of k] by (auto simp: getVersionHistory_def assms(3) intro: fr)
  ultimately show ?thesis by (simp add: same_contents_def assms)
qed

lemma merge_empty_result:
  assumes ok: "engine_ok cf st" "commits_ok cf st"
    and ret: "engine_merge cf (JArr inputs) options st = Inr (st', [])"
  shows "same_contents st st'"
  using ok(1) ret
proof (cases rule: engine_merge_cases)
  case (unchanged m)
  then have "en_frames st' = en_frames st" "en_history st' = en_history st" "en_children st' = en_children st"
    "unrecorded st st'" by (auto simp: merging_ok_def unrecorded_def)
  with same_contentsI[OF ok(1)] show ?thesis by (auto simp: unrecorded_def)
next
  case (rejected m st1 c v)
  then obtain extra where "en_heap st1 = en_heap st @ extra"
    using createCommit_store[OF rejected(2)] by (auto simp: merging_ok_def unrecorded_def)
  with rejected(4) rebuilt_index[OF ok(2)] show ?thesis
    by (intro same_contentsI[OF ok(1)]) (simp_all add: engine_restore_def)
next
  case (recorded m st1 c es)
  with recorded_results[OF recorded(1,3)] show ?thesis by simp
qed

lemma same_contents_ok:
  assumes "engine_ok cf st" "same_contents st st'" "en_heap st' = en_heap st @ extra"
  shows "engine_ok cf st'"
  using engine_ok_grow[OF assms(1) _ _ assms(3)] assms(2) by (simp add: same_contents_def)

lemma merge_keeps_ok:
  assumes ok: "engine_ok cf st" "commits_ok cf st" and limit: "1 \<le> cf_commitLimit cf"
    and order: "en_commitOrder st < 9007199254740992"
    and ret: "engine_merge cf (JArr inputs) options st = Inr (st', results)"
  shows "engine_ok cf st' \<and> commits_ok cf st'"
  using ok(1) ret
proof (cases rule: engine_merge_cases)
  case (unchanged m)
  then show ?thesis using ok(2) by (auto simp: merging_ok_def unrecorded_def commits_ok_def)
next
  case (rejected m st1 c v)
  then obtain extra where heap: "en_heap st' = en_heap st @ extra"
    using createCommit_store[OF rejected(2)] by (auto simp: merging_ok_def unrecorded_def engine_restore_def)
  have "same_contents st st'" using merge_empty_result[OF ok] ret rejected(3) by simp
  with same_contents_ok[OF ok(1) _ heap] ok(2) show ?thesis
    by (simp add: same_contents_def commits_ok_def)
next
  case (recorded m st1 c es)
  with recorded_ok[OF recorded(1) ok(2) limit order recorded(2)] show ?thesis by simp
qed

section \<open>Hydration\<close>

lemma seed_simps [simp]:
  "en_frames (seedClock cf v st) = en_frames st" "en_history (seedClock cf v st) = en_history st"
  "en_heap (seedClock cf v st) = en_heap st" "en_commits (seedClock cf v st) = en_commits st"
  "en_commitsByOrder (seedClock cf v st) = en_commitsByOrder st" "en_children (seedClock cf v st) = en_children st"
  by (simp_all add: seedClock_def)

definition hydrating :: "'c engine_config \<Rightarrow> 'c engine \<Rightarrow> bool" where
  "hydrating cf st \<longleftrightarrow> engine_ok cf st \<and> en_commits st = [] \<and> en_commitsByOrder st = Map.empty"

lemma hydrate_input_ok:
  assumes ok: "hydrating cf st"
  shows "hydrating cf (hydrate_input cf st input)"
proof (cases "truthy (pget input ''id'') \<and> truthy (pget input ''type'')")
  case False
  with ok show ?thesis by (auto simp: hydrate_input_def)
next
  case True
  then obtain ps where ps: "input = JObj ps" by (cases input) auto
  obtain st1 frame where n: "normalizeFrame cf False ps st = (st1, frame)" by (metis prod.exhaust)
  let ?st2 = "seedClock cf (oget frame ''updatedClock'') (seedClock cf (oget frame ''createdClock'') st1)"
  obtain st3 a where al: "alloc frame ?st2 = (st3, a)" by (metis prod.exhaust)
  note np = normalizeFrame_props[OF n]
  have k: "oget frame ''id'' = oget ps ''id''" "truthy (oget frame ''id'')" using np(2) True ps by simp_all
  have heap: "en_heap st3 = en_heap st @ [frame]" and a: "a = length (en_heap st)" and keep: "en_frames st3 = en_frames st"
    "en_history st3 = en_history st" "en_commits st3 = []" "en_commitsByOrder st3 = Map.empty"
    using al np(1) ok by (auto simp: alloc_def same_store_def hydrating_def)
  have "engine_ok cf st3" using engine_ok_grow[OF _ keep(1,2) heap] ok by (simp add: hydrating_def)
  moreover have "frame_ok st3 (oget frame ''id'') a" using heap a k by (simp add: frame_ok_def frame_at_def)
  ultimately have e: "engine_ok cf (appendHistory cf (oget frame ''id'') a (st3\<lparr>en_frames := AList.update (oget frame ''id'') a (en_frames st3)\<rparr>))"
    by (rule install_engine_ok)
  have cs: "en_commits (appendHistory cf (oget frame ''id'') a (st3\<lparr>en_frames := x\<rparr>)) = []"
    "en_commitsByOrder (appendHistory cf (oget frame ''id'') a (st3\<lparr>en_frames := x\<rparr>)) = Map.empty" for x
    using keep by (simp_all add: appendHistory_def Let_def)
  have orders: "hydrating cf (s\<lparr>en_frameOrder := p, en_commitOrder := q\<rparr>) = hydrating cf s" for s p q
    by (simp add: hydrating_def engine_ok_def history_ok_def frame_ok_def frame_at_def cong: option.case_cong)
  have h: "hydrating cf (appendHistory cf (oget frame ''id'') a (st3\<lparr>en_frames := AList.update (oget frame ''id'') a (en_frames st3)\<rparr>))"
    using e cs by (simp add: hydrating_def)
  have "hydrating cf (addChild p c s)" if "hydrating cf s" for p c s
    using that addChild_engine_ok[of cf s p c] by (simp add: hydrating_def) (simp add: addChild_def Let_def)
  with h show ?thesis using True ps n al by (simp add: hydrate_input_def Let_def orders)
qed

lemma hydrate_ok:
  assumes "1 \<le> cf_historyLimit cf" "engine_hydrate cf frames headOrder st = Inr st'"
  shows "engine_ok cf st' \<and> commits_ok cf st'"
proof -
  obtain inputs where frames: "frames = JArr inputs"
    using assms(2) by (cases frames) (simp_all add: engine_hydrate_def)
  let ?st0 = "st\<lparr>en_frames := [], en_history := [], en_children := [], en_commits := [],
                 en_commitsByOrder := Map.empty, en_refs := [], en_frameOrder := 0, en_commitOrder := 0\<rparr>"
  have "hydrating cf s \<Longrightarrow> hydrating cf (foldl (hydrate_input cf) s inputs)" for s
  proof (induction inputs arbitrary: s)
    case (Cons i "is")
    from Cons.IH[OF hydrate_input_ok[OF Cons.prems]] show ?case by simp
  qed simp
  moreover have "hydrating cf ?st0" using assms(1) by (simp add: hydrating_def engine_ok_def history_ok_def)
  ultimately have h: "hydrating cf (foldl (hydrate_input cf) ?st0 inputs)" by blast
  have upd: "engine_ok cf (s\<lparr>en_commitOrder := q, en_refs := r\<rparr>) = engine_ok cf s"
    "engine_ok cf (s\<lparr>en_commitOrder := q\<rparr>) = engine_ok cf s" "engine_ok cf (s\<lparr>en_refs := r\<rparr>) = engine_ok cf s" for s q r
    by (simp_all add: engine_ok_def history_ok_def frame_ok_def frame_at_def cong: option.case_cong)
  have "commits_ok cf s" if "en_commits s = []" "en_commitsByOrder s = Map.empty" for s
    using that by (simp add: commits_ok_def)
  with h upd assms(2) frames show ?thesis
    by (auto simp: engine_hydrate_def Let_def hydrating_def split: option.splits if_splits)
qed

section \<open>Reachable engines\<close>

text \<open>
  The engines a client can reach through the mutating operations, while the commit counter is
  below \<open>2^53\<close>, where it stops counting.
\<close>

inductive engine_reachable :: "'c engine_config \<Rightarrow> 'c engine \<Rightarrow> bool" for cf :: "'c engine_config" where
  created: "engine_reachable cf (new_engine c)"
| merged: "engine_reachable cf st \<Longrightarrow> en_commitOrder st < 9007199254740992 \<Longrightarrow>
     engine_merge cf frames options st = Inr (st', results) \<Longrightarrow> engine_reachable cf st'"
| hydrated: "engine_reachable cf st \<Longrightarrow> engine_hydrate cf frames headOrder st = Inr st' \<Longrightarrow> engine_reachable cf st'"
| ref_created: "engine_reachable cf st \<Longrightarrow> createRef name order st = Inr st' \<Longrightarrow> engine_reachable cf st'"
| ref_updated: "engine_reachable cf st \<Longrightarrow> updateRef name q st = Inr st' \<Longrightarrow> engine_reachable cf st'"

lemma refs_ok: "engine_ok cf (st\<lparr>en_refs := r\<rparr>) = engine_ok cf st" "commits_ok cf (st\<lparr>en_refs := r\<rparr>) = commits_ok cf st"
  by (simp_all add: engine_ok_def history_ok_def frame_ok_def frame_at_def commits_ok_def cong: option.case_cong)

lemma reachable_ok:
  assumes "engine_reachable cf st" "1 \<le> cf_historyLimit cf" "1 \<le> cf_commitLimit cf"
  shows "engine_ok cf st \<and> commits_ok cf st"
  using assms(1)
proof induction
  case (created c)
  with assms(2) show ?case by (simp add: new_engine_def engine_ok_def history_ok_def commits_ok_def)
next
  case (merged st frames options st' results)
  then obtain inputs where "frames = JArr inputs" by (cases frames) (simp_all add: engine_merge_def)
  with merged merge_keeps_ok[of cf st inputs options st' results] assms(3) show ?case by simp
next
  case (hydrated st frames headOrder st')
  with hydrate_ok assms(2) show ?case by blast
next
  case (ref_created st name order st')
  then show ?case
    by (auto simp: createRef_def assertCommitOrder_def Let_def refs_ok split: if_splits)
next
  case (ref_updated st name q st')
  then show ?case
    by (auto simp: updateRef_def assertCommitOrder_def refs_ok split: if_splits)
qed

definition demo_config :: "nat engine_config" where
  "demo_config = configure True (\<lambda>n. (Suc n, JNum (Fin (of_nat n)), JStr ''t'')) (\<lambda>_ n. n) (\<lambda>n. (n, JStr ''c'')) None Undefined Undefined"

definition demo_frames :: jsval where
  "demo_frames = JArr [JObj [(''id'', JStr ''a''), (''type'', JStr ''UserMessage'')]]"

lemma demo_limits [simp]: "cf_historyLimit demo_config = 200" "cf_commitLimit demo_config = 2000"
  by (simp_all add: demo_config_def configure_def normalizePositiveLimit_def DEFAULT_HISTORY_LIMIT_def DEFAULT_COMMIT_LIMIT_def)

lemma demo_merge: "map_sum id snd (engine_merge demo_config demo_frames (JObj []) (new_engine 0)) = Inr [0]"
  by code_simp

lemma demo_merge_obtain:
  obtains st' where "engine_merge demo_config demo_frames (JObj []) (new_engine 0) = Inr (st', [0])"
  using demo_merge by (cases "engine_merge demo_config demo_frames (JObj []) (new_engine 0)") auto

section \<open>Properties\<close>

text \<open>
  Every recorded commit can be read back from the frames: after a merge that returned frames, the
  newest commit is the one recorded, its order is the previous one plus one, it is found by its order
  and through \<open>heads/main\<close>, and each of its changes names a current frame that carries that order.
\<close>

theorem recorded_commit_readable:
  assumes "engine_reachable cf st" "1 \<le> cf_historyLimit cf" "1 \<le> cf_commitLimit cf" "en_commitOrder st < 9007199254740992"
    and "engine_merge cf frames options st = Inr (st', results)" "results \<noteq> []"
  shows "\<exists>c. getLatestCommit st' = Some c \<and> cm_order c = en_commitOrder st + 1 \<and> getCommit st' (cm_order c) = Some c
    \<and> getRef st' ''heads/main'' = Some (cm_order c) \<and> cm_changes c \<noteq> []
    \<and> (\<forall>ch \<in> set (cm_changes c). \<exists>a. engine_get st' (ch_frameID ch) = Some a
         \<and> oget (frame_at st' a) ''commitOrder'' = JNum (Fin (cm_order c)))"
proof -
  obtain inputs where inputs: "frames = JArr inputs" using assms(5) by (cases frames) (simp_all add: engine_merge_def)
  have ok: "engine_ok cf st" "commits_ok cf st" using reachable_ok[OF assms(1-3)] by auto
  from ok(1) assms(5)[unfolded inputs] show ?thesis
  proof (cases rule: engine_merge_cases)
    case (recorded m st1 c es)
    note r = recorded_ok[OF recorded(1) ok(2) assms(3,4) recorded(2)]
    show ?thesis
      using r(3-8) recorded(3) unfolding recorded(5) commit_readable_def by (intro exI[of _ c]) simp
  qed (use assms(6) in simp_all)
qed

theorem recorded_commit_readable_witness:
  "\<exists>st' c. engine_merge demo_config demo_frames (JObj []) (new_engine 0) = Inr (st', [0]) \<and> getLatestCommit st' = Some c
    \<and> cm_order c = 1 \<and> cm_changes c \<noteq> []"
proof -
  obtain st' where "engine_merge demo_config demo_frames (JObj []) (new_engine 0) = Inr (st', [0])" by (rule demo_merge_obtain)
  from recorded_commit_readable[OF engine_reachable.created _ _ _ this] this show ?thesis
    by (auto simp: new_engine_def)
qed

text \<open>
  C8: A merge that returns no frames, because its inputs changed nothing or because the commit
  validator refused the commit, leaves every frame, every version history, the children, the commit log
  with its index, the refs and the commit counter exactly as they were.
\<close>

theorem refused_merge_changes_nothing:
  assumes "engine_reachable cf st" "1 \<le> cf_historyLimit cf" "1 \<le> cf_commitLimit cf"
    and "engine_merge cf frames options st = Inr (st', [])"
  shows "same_contents st st'"
proof -
  obtain inputs where "frames = JArr inputs" using assms(4) by (cases frames) (simp_all add: engine_merge_def)
  with merge_empty_result reachable_ok[OF assms(1-3)] assms(4) show ?thesis by blast
qed

definition refusing_config :: "nat engine_config" where
  "refusing_config = demo_config\<lparr>cf_commitValidator := Some (\<lambda>_ _ _. JBool False)\<rparr>"

theorem refused_merge_changes_nothing_witness:
  "\<exists>st'. engine_merge refusing_config demo_frames (JObj []) (new_engine 0) = Inr (st', []) \<and> same_contents (new_engine 0) st'"
proof -
  have "map_sum id snd (engine_merge refusing_config demo_frames (JObj []) (new_engine 0)) = Inr []" by code_simp
  then obtain st' where "engine_merge refusing_config demo_frames (JObj []) (new_engine 0) = Inr (st', [])"
    by (cases "engine_merge refusing_config demo_frames (JObj []) (new_engine 0)") auto
  with refused_merge_changes_nothing[OF engine_reachable.created _ _ this] show ?thesis
    by (simp add: refusing_config_def)
qed

text \<open>
  Retention: in every reachable engine each current frame heads a version history of at most
  \<open>historyLimit\<close> versions of the same id whose newest is the current frame, at most \<open>commitLimit\<close>
  commits are kept, and the index by order finds exactly the commits that are kept.
\<close>

theorem retention_bounded:
  assumes "engine_reachable cf st" "1 \<le> cf_historyLimit cf" "1 \<le> cf_commitLimit cf"
  shows "length (en_commits st) \<le> cf_commitLimit cf
    \<and> (\<forall>q c. getCommit st q = Some c \<longleftrightarrow> c \<in> set (en_commits st) \<and> cm_order c = q)
    \<and> (\<forall>k a. engine_get st k = Some a \<longrightarrow>
         getVersionHistory st k \<noteq> [] \<and> last (getVersionHistory st k) = frame_at st a
         \<and> length (getVersionHistory st k) \<le> cf_historyLimit cf
         \<and> (\<forall>f \<in> set (getVersionHistory st k). oget f ''id'' = k))"
proof -
  have ok: "engine_ok cf st" "commits_ok cf st" using reachable_ok[OF assms] by auto
  have "getVersionHistory st k \<noteq> [] \<and> last (getVersionHistory st k) = frame_at st a
      \<and> length (getVersionHistory st k) \<le> cf_historyLimit cf \<and> (\<forall>f \<in> set (getVersionHistory st k). oget f ''id'' = k)"
    if "engine_get st k = Some a" for k a
  proof -
    have "history_ok cf st k" using ok(1) by (simp add: engine_ok_def)
    with that show ?thesis
      by (auto simp: history_ok_def engine_get_def getVersionHistory_def last_map frame_ok_def split: option.splits)
  qed
  with ok(2) show ?thesis by (simp add: commits_ok_def getCommit_def)
qed

theorem retention_bounded_witness: "\<exists>st. engine_reachable demo_config st \<and> getLatestCommit st \<noteq> None \<and> length (en_commits st) \<le> 2000"
proof -
  obtain st' where m: "engine_merge demo_config demo_frames (JObj []) (new_engine 0) = Inr (st', [0])" by (rule demo_merge_obtain)
  have r: "engine_reachable demo_config st'" by (rule engine_reachable.merged[OF engine_reachable.created _ m]) (simp add: new_engine_def)
  have "map_sum id (\<lambda>(st, _). getLatestCommit st \<noteq> None) (engine_merge demo_config demo_frames (JObj []) (new_engine 0)) = Inr True"
    by code_simp
  with m have "getLatestCommit st' \<noteq> None" by simp
  with r retention_bounded[OF r] show ?thesis by auto
qed

text \<open>
  The sanitizer of stored orders does not keep a single stored value from pinning a counter: a
  frame stored with order \<open>2^53 - 2\<close> is accepted, and the counter stops after two increments.
\<close>

lemma stored_order_pins_counter:
  "let w = sanitizeStoredOrder (JNum (Fin 9007199254740990))
   in w = 9007199254740990 \<and> js_inc (js_inc (js_inc w)) = js_inc (js_inc w)"
  by (simp add: max_safe_integer_def js_inc_def Let_def)

end
