(* ===== verification/FramePriority.thy ===== *)
theory FramePriority
  imports JSValue
begin

text \<open>
  Delivery priorities and the priority queue of the router, \<open>src/shared/frame-priority.mjs\<close>: the
  tier of a frame, and the insertion that keeps arrival order inside a tier and never goes below a
  given index. The queue is polymorphic in its items; \<open>prio\<close> reads \<open>framePriorityOrder\<close> of one.
\<close>

section \<open>Tiers\<close>

definition FRAME_PRIORITY :: "string \<Rightarrow> rat" where
  "FRAME_PRIORITY tier =
     (if tier = ''message'' then 10 else if tier = ''activity'' then 20 else if tier = ''unknown'' then 25
      else if tier = ''command'' then 30 else if tier = ''maintenance'' then 40 else 60)"

definition framePriority :: "jsval \<Rightarrow> rat" where
  "framePriority frameOrType =
     (let frame = (case frameOrType of JObj ps \<Rightarrow> ps | JArr _ \<Rightarrow> []
                   | v \<Rightarrow> [(''type'', JStr (js_String (js_or v (JStr []))))]);
          type = (case oget frame ''type'' of JStr s \<Rightarrow> s | _ \<Rightarrow> [])
      in if oget frame ''hidden'' = JBool True then FRAME_PRIORITY ''hidden''
         else if type = ''UserMessage''
         then (if oget frame ''authorType'' = JStr ''user'' then FRAME_PRIORITY ''message'' else FRAME_PRIORITY ''command'')
         else if type \<in> {''AgentMessage'', ''Question'', ''AgentError'', ''SystemNotice''} then FRAME_PRIORITY ''message''
         else if type \<in> {''AgentProgress'', ''AgentThinking'', ''BeginTyping'', ''EndTyping''} then FRAME_PRIORITY ''activity''
         else if type \<in> {''CompactionFrame'', ''MessageDone''} then FRAME_PRIORITY ''maintenance''
         else if type \<in> {''ToolCall'', ''ToolResult'', ''OcrFrame''} \<or> ends_with type ''ToolFrame'' then FRAME_PRIORITY ''command''
         else if type = ''UserDraft'' then FRAME_PRIORITY ''hidden''
         else FRAME_PRIORITY ''unknown'')"

definition framePriorityOrder :: "jsval \<Rightarrow> rat" where
  "framePriorityOrder priority = (case priority of JNum (Fin q) \<Rightarrow> q | _ \<Rightarrow> FRAME_PRIORITY ''unknown'')"

section \<open>Insertion\<close>

fun scan_back :: "('a \<Rightarrow> rat) \<Rightarrow> 'a list \<Rightarrow> 'a \<Rightarrow> nat \<Rightarrow> nat \<Rightarrow> nat" where
  "scan_back prio queue item minIndex 0 = 0"
| "scan_back prio queue item minIndex (Suc i) =
     (if minIndex < Suc i \<and> prio item < prio (queue ! i) then scan_back prio queue item minIndex i else Suc i)"

definition insertByFramePriority :: "('a \<Rightarrow> rat) \<Rightarrow> nat \<Rightarrow> 'a \<Rightarrow> 'a list \<Rightarrow> 'a list" where
  "insertByFramePriority prio minIndex item queue =
     (let index = scan_back prio queue item minIndex (length queue)
      in take index queue @ item # drop index queue)"

lemma scan_back_spec:
  assumes "i \<le> length q"
  shows "scan_back prio q x m i \<le> i"
    "m \<le> i \<Longrightarrow> m \<le> scan_back prio q x m i"
    "j < i \<Longrightarrow> scan_back prio q x m i \<le> j \<Longrightarrow> prio x < prio (q ! j)"
    "m < scan_back prio q x m i \<Longrightarrow> \<not> prio x < prio (q ! (scan_back prio q x m i - 1))"
  using assms
proof (induction i)
  case (Suc i)
  { case 1 then show ?case using Suc.IH(1) by auto }
  { case 2 then show ?case using Suc.IH(2) by auto }
  { case 3 then show ?case using Suc.IH(3) by (cases "j = i") (auto split: if_splits) }
  { case 4 then show ?case using Suc.IH(4) by (auto split: if_splits) }
qed auto

text \<open>The insertion splits the queue: everything it jumps has a strictly larger priority number.\<close>

lemma insert_split:
  obtains pre post where "queue = pre @ post" "insertByFramePriority prio m x queue = pre @ x # post"
    "min m (length queue) \<le> length pre" "\<forall>y \<in> set post. prio x < prio y"
    "pre \<noteq> [] \<Longrightarrow> m < length pre \<Longrightarrow> prio (last pre) \<le> prio x"
proof
  let ?i = "scan_back prio queue x m (length queue)"
  note spec = scan_back_spec[where i = "length queue" and q = queue and prio = prio and x = x and m = m]
  show "queue = take ?i queue @ drop ?i queue" by simp
  show "insertByFramePriority prio m x queue = take ?i queue @ x # drop ?i queue"
    by (simp add: insertByFramePriority_def Let_def)
  show "min m (length queue) \<le> length (take ?i queue)"
  proof (cases "m \<le> length queue")
    case True
    with spec(1,2) show ?thesis by auto
  next
    case False
    then have "scan_back prio queue x m i = i" if "i \<le> length queue" for i using that by (cases i) auto
    then show ?thesis by simp
  qed
  show "\<forall>y \<in> set (drop ?i queue). prio x < prio y"
  proof
    fix y assume "y \<in> set (drop ?i queue)"
    then obtain j where "j < length (drop ?i queue)" "y = drop ?i queue ! j" by (metis in_set_conv_nth)
    with spec(3)[of "?i + j"] spec(1) show "prio x < prio y" by (simp add: less_diff_conv add.commute)
  qed
  show "prio (last (take ?i queue)) \<le> prio x" if "take ?i queue \<noteq> []" "m < length (take ?i queue)"
    using that spec(1,4) by (auto simp: last_conv_nth not_less)
qed

section \<open>The interface of a ranked queue\<close>

text \<open>
  \<open>ins\<close> puts an item behind everything it may not jump. Started from an empty queue it is the
  stable sort of the arrivals.
\<close>

locale ranked_queue =
  fixes ins :: "'a \<Rightarrow> 'a list \<Rightarrow> 'a list"
    and rank :: "'a \<Rightarrow> 'k::linorder"
  assumes places: "sorted (map rank queue) \<Longrightarrow> \<exists>pre post. queue = pre @ post \<and> ins x queue = pre @ x # post
    \<and> (\<forall>y \<in> set pre. rank y \<le> rank x) \<and> (\<forall>y \<in> set post. rank x < rank y)"
begin

lemma ins_sorted: "sorted (map rank queue) \<Longrightarrow> sorted (map rank (ins x queue))"
proof -
  assume s: "sorted (map rank queue)"
  then obtain pre post where p: "queue = pre @ post" "ins x queue = pre @ x # post" "\<forall>y \<in> set pre. rank y \<le> rank x"
    "\<forall>y \<in> set post. rank x < rank y" using places by blast
  then have "\<forall>y \<in> set post. rank x \<le> rank y" by (simp add: less_imp_le)
  with s p show ?thesis by (auto simp: sorted_append)
qed

lemma ins_fifo:
  assumes "sorted (map rank queue)"
  shows "filter (\<lambda>y. rank y = k) (ins x queue) = filter (\<lambda>y. rank y = k) (queue @ [x])"
proof -
  obtain pre post where "queue = pre @ post" "ins x queue = pre @ x # post" "\<forall>y \<in> set post. rank x < rank y"
    using places[OF assms] by blast
  moreover from this have "rank x = k \<Longrightarrow> filter (\<lambda>y. rank y = k) post = []" by (auto simp: filter_empty_conv)
  ultimately show ?thesis by auto
qed

lemma arrivals_sorted_stably: "foldl (\<lambda>q x. ins x q) [] xs = sort_key rank xs"
proof (rule properties_for_sort_key[symmetric])
  have inv: "sorted (map rank (foldl (\<lambda>q x. ins x q) [] xs))
     \<and> (\<forall>k. filter (\<lambda>y. rank y = k) (foldl (\<lambda>q x. ins x q) [] xs) = filter (\<lambda>y. rank y = k) xs)
     \<and> mset (foldl (\<lambda>q x. ins x q) [] xs) = mset xs"
  proof (induction xs rule: rev_induct)
    case (snoc x xs)
    let ?q = "foldl (\<lambda>q x. ins x q) [] xs"
    obtain pre post where "?q = pre @ post" "ins x ?q = pre @ x # post" using places[of ?q x] snoc by blast
    then have "mset (ins x ?q) = mset ?q + {#x#}" by simp
    with snoc ins_sorted ins_fifo[of ?q] show ?case by simp
  qed simp
  from inv show "mset (foldl (\<lambda>q x. ins x q) [] xs) = mset xs"
    "sorted (map rank (foldl (\<lambda>q x. ins x q) [] xs))" by auto
  show "filter (\<lambda>y. rank k = rank y) (foldl (\<lambda>q x. ins x q) [] xs) = filter (\<lambda>y. rank k = rank y) xs"
    if "k \<in> set (foldl (\<lambda>q x. ins x q) [] xs)" for k
    using inv by (simp add: eq_commute[of "rank k"])
qed

end

interpretation priority_queue: ranked_queue "insertByFramePriority prio 0" prio for prio :: "'a \<Rightarrow> rat"
proof
  fix queue :: "'a list" and x
  assume sorted: "sorted (map prio queue)"
  obtain pre post where s: "queue = pre @ post" "insertByFramePriority prio 0 x queue = pre @ x # post"
    "\<forall>y \<in> set post. prio x < prio y" "pre \<noteq> [] \<Longrightarrow> 0 < length pre \<Longrightarrow> prio (last pre) \<le> prio x"
    using insert_split[of queue prio 0 x] by metis
  have "\<forall>y \<in> set pre. prio y \<le> prio x"
  proof (cases pre rule: rev_cases)
    case (snoc zs z)
    with sorted s(1) have "\<forall>y \<in> set pre. prio y \<le> prio z" by (auto simp: sorted_append)
    with s(4) snoc show ?thesis by fastforce
  qed simp
  with s show "\<exists>pre post. queue = pre @ post \<and> insertByFramePriority prio 0 x queue = pre @ x # post
    \<and> (\<forall>y \<in> set pre. prio y \<le> prio x) \<and> (\<forall>y \<in> set post. prio x < prio y)" by blast
qed

section \<open>Property\<close>

text \<open>
  A session chain that nothing has been taken from holds its tasks stably sorted by priority:
  inserting any sequence of arrivals gives the lower numbers first and arrival order inside a tier.
\<close>

theorem queue_is_stable_priority_sort:
  "foldl (\<lambda>queue item. insertByFramePriority prio 0 item queue) [] arrivals = sort_key prio arrivals"
  by (rule priority_queue.arrivals_sorted_stably)

end
