(* ===== verification/SelectorCompiler.thy ===== *)
theory SelectorCompiler
  imports JSValue
begin

text \<open>
  Compilation of a route selector to a predicate on frames, \<open>src/core/routing/selector-compiler.mjs\<close>.
  The regular expressions are written out as scanners: \<open>type_prefix\<close> for the anchored, greedy
  \<open>type:\<close> and \<open>author:\<close> matches, \<open>property_matches\<close> for the global scan of \<open>[path=value]\<close>,
  \<open>remove_brackets\<close> for the replacement that leaves what no rule consumed.
\<close>

section \<open>Scanners\<close>

definition token_char :: "char \<Rightarrow> bool" where
  "token_char c = (let n = of_char c :: nat in
     (65 \<le> n \<and> n \<le> 90) \<or> (97 \<le> n \<and> n \<le> 122) \<or> (48 \<le> n \<and> n \<le> 57) \<or> c \<in> set ''_*:-'')"

definition type_prefix :: "string \<Rightarrow> string \<Rightarrow> string \<Rightarrow> (string \<times> string) option" where
  "type_prefix lower upper s =
     (if starts_with s (lower @ '':'') \<or> starts_with s (upper @ '':'')
      then let rest = drop (length lower + 1) s; token = takeWhile token_char rest
           in if token = [] then None else Some (token, dropWhile token_char rest)
      else None)"

definition split_at :: "char \<Rightarrow> string \<Rightarrow> string \<times> string" where
  "split_at c s = (takeWhile (\<lambda>x. x \<noteq> c) s, drop 1 (dropWhile (\<lambda>x. x \<noteq> c) s))"

text \<open>A match of \<open>\[([^=\]]+)=([^\]]*)\]\<close> at the head of the text, with what follows it.\<close>

definition path_char :: "char \<Rightarrow> bool" where
  "path_char x = (x \<noteq> CHR ''='' \<and> x \<noteq> CHR '']'')"

definition value_char :: "char \<Rightarrow> bool" where
  "value_char x = (x \<noteq> CHR '']'')"

lemma stop_chars [simp]: "\<not> path_char (CHR ''='')" "\<not> value_char (CHR '']'')"
  by (simp_all add: path_char_def value_char_def)

definition property_match :: "string \<Rightarrow> (string \<times> string \<times> string) option" where
  "property_match s =
     (case s of [] \<Rightarrow> None
      | c # cs \<Rightarrow>
          if c \<noteq> CHR ''['' \<or> takeWhile path_char cs = [] \<or> dropWhile path_char cs = [] \<or> hd (dropWhile path_char cs) \<noteq> CHR ''=''
             \<or> dropWhile value_char (tl (dropWhile path_char cs)) = []
          then None
          else Some (takeWhile path_char cs, takeWhile value_char (tl (dropWhile path_char cs)),
                     tl (dropWhile value_char (tl (dropWhile path_char cs)))))"

lemma property_match_shorter:
  assumes "property_match s = Some (p, e, r)"
  shows "length r < length s"
proof -
  obtain c cs where s: "s = c # cs" using assms by (cases s) (simp_all add: property_match_def)
  with assms have r: "r = tl (dropWhile value_char (tl (dropWhile path_char cs)))"
    by (simp add: property_match_def split: if_splits)
  have "length (dropWhile value_char (tl (dropWhile path_char cs))) \<le> length (tl (dropWhile path_char cs))"
    "length (dropWhile path_char cs) \<le> length cs" by (rule length_dropWhile_le)+
  with r s show ?thesis by simp
qed

function property_matches :: "string \<Rightarrow> (string \<times> string) list" where
  "property_matches s =
     (case property_match s of
        Some (path, expected, rest) \<Rightarrow> (path, expected) # property_matches rest
      | None \<Rightarrow> (case s of [] \<Rightarrow> [] | _ # cs \<Rightarrow> property_matches cs))"
  by pat_completeness auto
termination
  by (relation "measure length") (auto dest: property_match_shorter)

declare property_matches.simps [simp del]

text \<open>\<open>replace(/\[[^\]]+\]/g, '')\<close>.\<close>

function remove_brackets :: "string \<Rightarrow> string" where
  "remove_brackets [] = []"
| "remove_brackets (c # cs) =
     (if c = CHR ''['' \<and> takeWhile value_char cs \<noteq> [] \<and> dropWhile value_char cs \<noteq> []
      then remove_brackets (tl (dropWhile value_char cs)) else c # remove_brackets cs)"
  by pat_completeness auto
termination
proof (relation "measure length", goal_cases)
  case (2 c cs)
  have "length (dropWhile value_char cs) \<le> length cs" by (rule length_dropWhile_le)
  then show ?case by simp
qed auto

declare remove_brackets.simps(2) [simp del]

definition stripQuotes :: "string \<Rightarrow> string" where
  "stripQuotes s =
     (if (starts_with s [CHR 0x22] \<and> ends_with s [CHR 0x22]) \<or> (starts_with s [CHR 0x27] \<and> ends_with s [CHR 0x27])
      then butlast (tl s) else s)"

section \<open>Reading a path\<close>

text \<open>
  \<open>current[part]\<close> on a value that is not null: own properties of objects, indices and
  \<open>length\<close> of arrays and strings.
\<close>

fun js_member :: "jsval \<Rightarrow> string \<Rightarrow> jsval" where
  "js_member (JObj ps) part = oget ps part"
| "js_member (JArr xs) part =
     (if part = ''length'' then JNum (Fin (of_nat (length xs)))
      else case find (\<lambda>i. nat_digits i = part) [0..<length xs] of Some i \<Rightarrow> xs ! i | None \<Rightarrow> Undefined)"
| "js_member (JStr s) part =
     (if part = ''length'' then JNum (Fin (of_nat (length s)))
      else case find (\<lambda>i. nat_digits i = part) [0..<length s] of Some i \<Rightarrow> JStr [s ! i] | None \<Rightarrow> Undefined)"
| "js_member _ part = Undefined"

fun read_parts :: "jsval \<Rightarrow> string list \<Rightarrow> jsval" where
  "read_parts current [] = current"
| "read_parts current (part # parts) = (if nullish current then Undefined else read_parts (js_member current part) parts)"

fun split_dots :: "string \<Rightarrow> string list" where
  "split_dots [] = [[]]"
| "split_dots (c # cs) =
     (if c = CHR ''.'' then [] # split_dots cs
      else case split_dots cs of [] \<Rightarrow> [[c]] | p # ps \<Rightarrow> (c # p) # ps)"

definition readPath :: "jsval \<Rightarrow> string \<Rightarrow> jsval" where
  "readPath object path = read_parts object (split_dots path)"

section \<open>Compilation\<close>

datatype selector = FunSelector "jsval \<Rightarrow> js_error + bool" | ValueSelector jsval

type_synonym matcher = "jsval \<Rightarrow> js_error + bool"

definition token_matcher :: "string \<Rightarrow> string \<Rightarrow> jsval \<Rightarrow> bool" where
  "token_matcher field token frame = (token = ''*'' \<or> pget frame field = JStr token)"

definition property_matcher :: "string \<times> string \<Rightarrow> jsval \<Rightarrow> bool" where
  "property_matcher m frame = (js_String (readPath frame (js_trim (fst m))) = stripQuotes (js_trim (snd m)))"

definition compile_string :: "string \<Rightarrow> js_error + matcher" where
  "compile_string s =
     (let trimmed = js_trim s
      in if trimmed \<in> {''*'', ''type:*'', ''Type:*''} then Inr (\<lambda>_. Inr True)
         else let (typeMatchers, remaining1) =
                    (case type_prefix ''type'' ''Type'' trimmed of
                       None \<Rightarrow> ([], trimmed) | Some (token, rest) \<Rightarrow> ([token_matcher ''type'' token], rest));
                  (authorMatchers, remaining2) =
                    (case type_prefix ''author'' ''Author'' remaining1 of
                       None \<Rightarrow> ([], remaining1) | Some (token, rest) \<Rightarrow> ([token_matcher ''authorType'' token], rest));
                  matchers = typeMatchers @ authorMatchers @ map property_matcher (property_matches remaining2)
              in if js_trim (remove_brackets remaining2) \<noteq> [] \<or> matchers = []
                 then Inl (GenericError (''Invalid selector: '' @ s))
                 else Inr (\<lambda>frame. Inr (list_all (\<lambda>m. m frame) matchers)))"

definition compile_selector :: "selector \<Rightarrow> js_error + matcher" where
  "compile_selector selector =
     (case selector of
        FunSelector f \<Rightarrow> Inr f
      | ValueSelector (JStr s) \<Rightarrow>
          if s = [] then Inl (TypeError ''Selector must be a non-empty string or function'') else compile_string s
      | ValueSelector _ \<Rightarrow> Inl (TypeError ''Selector must be a non-empty string or function''))"

section \<open>Well-formed selectors\<close>

definition render_property :: "string \<times> string \<Rightarrow> string" where
  "render_property m = ''['' @ fst m @ ''='' @ snd m @ '']''"

definition property_ok :: "string \<times> string \<Rightarrow> bool" where
  "property_ok m \<longleftrightarrow> fst m \<noteq> [] \<and> CHR ''='' \<notin> set (fst m) \<and> CHR '']'' \<notin> set (fst m) \<and> CHR '']'' \<notin> set (snd m)"

lemma takeWhile_stop: "\<forall>x \<in> set xs. P x \<Longrightarrow> \<not> P y \<Longrightarrow> takeWhile P (xs @ y # ys) = xs \<and> dropWhile P (xs @ y # ys) = y # ys"
  by (induction xs) auto

lemma property_match_render:
  assumes "property_ok m"
  shows "property_match (render_property m @ rest) = Some (fst m, snd m, rest)"
proof -
  have p: "\<forall>x \<in> set (fst m). path_char x" and e: "\<forall>x \<in> set (snd m). value_char x"
    using assms by (auto simp: property_ok_def path_char_def value_char_def)
  have 1: "takeWhile path_char (fst m @ CHR ''='' # snd m @ CHR '']'' # rest) = fst m"
    "dropWhile path_char (fst m @ CHR ''='' # snd m @ CHR '']'' # rest) = CHR ''='' # snd m @ CHR '']'' # rest"
    using takeWhile_stop[OF p, of "CHR ''=''"] by simp_all
  have 2: "takeWhile value_char (snd m @ CHR '']'' # rest) = snd m"
    "dropWhile value_char (snd m @ CHR '']'' # rest) = CHR '']'' # rest"
    using takeWhile_stop[OF e, of "CHR '']''"] by simp_all
  from assms show ?thesis by (simp add: property_match_def render_property_def 1 2 property_ok_def)
qed

lemma property_matches_render:
  "list_all property_ok ms \<Longrightarrow> property_matches (concat (map render_property ms)) = ms"
proof (induction ms)
  case Nil
  show ?case by (subst property_matches.simps) (simp add: property_match_def)
next
  case (Cons m ms)
  then show ?case by (subst property_matches.simps) (simp add: property_match_render)
qed

lemma remove_brackets_render: "list_all property_ok ms \<Longrightarrow> remove_brackets (concat (map render_property ms)) = []"
proof (induction ms)
  case (Cons m ms)
  have inner: "\<forall>x \<in> set (fst m @ CHR ''='' # snd m). value_char x" using Cons.prems by (auto simp: property_ok_def value_char_def)
  have w: "takeWhile value_char (fst m @ CHR ''='' # snd m @ CHR '']'' # rest) = fst m @ CHR ''='' # snd m"
    "dropWhile value_char (fst m @ CHR ''='' # snd m @ CHR '']'' # rest) = CHR '']'' # rest" for rest
    using takeWhile_stop[OF inner, of "CHR '']''" rest] by simp_all
  have "render_property m @ rest = CHR ''['' # fst m @ CHR ''='' # snd m @ CHR '']'' # rest" for rest
    by (simp add: render_property_def)
  with Cons show ?case by (simp add: remove_brackets.simps(2) w)
qed simp

lemma type_prefix_token:
  assumes "tok \<noteq> []" "list_all token_char tok" "rest = [] \<or> \<not> token_char (hd rest)"
  shows "type_prefix ''type'' ''Type'' (''type:'' @ tok @ rest) = Some (tok, rest)"
proof -
  have "takeWhile token_char (tok @ rest) = tok \<and> dropWhile token_char (tok @ rest) = rest"
  proof (cases rest)
    case (Cons y ys)
    with assms(3) takeWhile_stop[of tok token_char y ys] assms(2) show ?thesis by (simp add: list_all_iff)
  qed (use assms(2) in \<open>simp add: list_all_iff\<close>)
  with assms(1) show ?thesis by (simp add: type_prefix_def starts_with_def Let_def)
qed

text \<open>After a type token the text never starts with a token character, so no author can follow.\<close>

lemma no_author_after_type:
  "type_prefix l u s = Some (tok, rest) \<Longrightarrow> type_prefix ''author'' ''Author'' rest = None"
proof -
  assume "type_prefix l u s = Some (tok, rest)"
  then have r: "rest = dropWhile token_char (drop (length l + 1) s)"
    by (auto simp: type_prefix_def Let_def split: if_splits)
  show ?thesis
  proof (cases rest)
    case (Cons c cs)
    with r have "\<not> token_char c" by (metis dropWhile_head)
    then have "c \<noteq> CHR ''a'' \<and> c \<noteq> CHR ''A''" by (auto simp: token_char_def)
    with Cons show ?thesis by (simp add: type_prefix_def starts_with_def)
  qed (simp add: type_prefix_def starts_with_def)
qed

section \<open>Properties\<close>

text \<open>
  A selector written from a type token and a list of \<open>[path=value]\<close> conditions compiles, and the
  predicate it compiles to accepts a frame exactly when the type is the token (or the token is a
  star) and every path reads, as a string, the unquoted value.
\<close>

theorem rendered_selector_means_itself:
  assumes "tok \<noteq> []" "list_all token_char tok" "list_all property_ok ms"
    and s: "s = ''type:'' @ tok @ concat (map render_property ms)" and trimmed: "js_trim s = s" and star: "tok = ''*'' \<longrightarrow> ms \<noteq> []"
  shows "\<exists>matcher. compile_selector (ValueSelector (JStr s)) = Inr matcher
    \<and> (\<forall>frame. matcher frame = Inr ((tok = ''*'' \<or> pget frame ''type'' = JStr tok)
         \<and> (\<forall>m \<in> set ms. js_String (readPath frame (js_trim (fst m))) = stripQuotes (js_trim (snd m)))))"
proof -
  let ?rest = "concat (map render_property ms)"
  have hd: "?rest = [] \<or> \<not> token_char (hd ?rest)"
    by (cases ms) (simp_all add: render_property_def token_char_def)
  have tp: "type_prefix ''type'' ''Type'' s = Some (tok, ?rest)"
    unfolding s by (rule type_prefix_token[OF assms(1,2) hd])
  have "s \<noteq> ''*'' \<and> s \<noteq> ''Type:*'' \<and> s \<noteq> ''type:*''"
    using star assms(1) by (cases ms) (auto simp: s render_property_def append_eq_Cons_conv)
  then have "compile_string s = Inr (\<lambda>frame. Inr (list_all (\<lambda>m. m frame) (token_matcher ''type'' tok # map property_matcher ms)))"
    using no_author_after_type[OF tp] assms(3)
    by (simp add: compile_string_def trimmed tp property_matches_render remove_brackets_render Let_def)
  moreover have "s \<noteq> []" by (simp add: s)
  ultimately show ?thesis
    by (auto simp: compile_selector_def token_matcher_def property_matcher_def list_all_iff)
qed

theorem rendered_selector_means_itself_witness:
  "\<exists>matcher. compile_selector (ValueSelector (JStr ''type:UserMessage[content.kind=note]'')) = Inr matcher
    \<and> (\<forall>frame. matcher frame = Inr (pget frame ''type'' = JStr ''UserMessage''
         \<and> js_String (readPath frame ''content.kind'') = ''note''))"
proof -
  have "\<exists>matcher. compile_selector (ValueSelector (JStr ''type:UserMessage[content.kind=note]'')) = Inr matcher
    \<and> (\<forall>frame. matcher frame = Inr ((''UserMessage'' = ''*'' \<or> pget frame ''type'' = JStr ''UserMessage'')
         \<and> (\<forall>m \<in> set [(''content.kind'', ''note'')]. js_String (readPath frame (js_trim (fst m))) = stripQuotes (js_trim (snd m)))))"
    by (rule rendered_selector_means_itself)
      (simp_all add: token_char_def property_ok_def render_property_def js_trim_def js_space_def)
  then show ?thesis by (simp add: js_trim_def js_space_def stripQuotes_def starts_with_def)
qed

end
