(* ===== verification/FrameRouter.thy ===== *)
theory FrameRouter
  imports FrameEngine FramePriority SelectorCompiler
begin

text \<open>
  The router that delivers recorded commits to plugins, \<open>src/core/routing/frame-router.mjs\<close>: the
  priority queue of commits, the resolution of the frame version a commit made, the chain of plugins,
  the serial chains of agent runs per session and the flush waiters. A plugin is its script of calls to
  \<open>next\<close> and \<open>done\<close>. Between two awaits the router runs to completion, so its asynchronous loops
  are steps of a state machine: \<open>RouteDone\<close>, \<open>BackgroundSettled\<close> and \<open>ChainContinue\<close> are the
  resumptions, in any order.
\<close>

section \<open>Registrations\<close>

record 'p registration =
  rg_selector :: selector
  rg_matcher :: matcher
  rg_PluginClass :: 'p
  rg_pluginName :: jsval

text \<open>\<open>PluginClass\<close> is \<open>None\<close> when it is not a function.\<close>

definition registerSelector :: "selector \<Rightarrow> 'p option \<Rightarrow> jsval \<Rightarrow> 'p registration list \<Rightarrow> js_error + 'p registration list" where
  "registerSelector sel PluginClass pluginName regs =
     (case PluginClass of
        None \<Rightarrow> Inl (TypeError ''PluginClass must be a class/function'')
      | Some p \<Rightarrow> and_then (compile_selector sel) (\<lambda>matcher.
          Inr (regs @ [\<lparr>rg_selector = sel, rg_matcher = matcher, rg_PluginClass = p, rg_pluginName = pluginName\<rparr>])))"

fun loadFromRegistry :: "(selector \<times> 'p option \<times> jsval) list \<Rightarrow> 'p registration list \<Rightarrow> js_error + 'p registration list" where
  "loadFromRegistry [] regs = Inr regs"
| "loadFromRegistry ((s, p, n) # entries) regs = and_then (registerSelector s p n regs) (loadFromRegistry entries)"

definition matchingRegistrations :: "'p registration list \<Rightarrow> jsval \<Rightarrow> 'p registration list" where
  "matchingRegistrations regs frame = filter (\<lambda>r. rg_matcher r frame = Inr True) regs"

section \<open>Commits and the versions they made\<close>

record routed_commit =
  rc_order :: rat
  rc_silent :: bool
  rc_frameIDs :: "jsval list"
  rc_scheduledDispatch :: bool

definition routed :: "commit \<Rightarrow> routed_commit" where
  "routed c = \<lparr>rc_order = cm_order c, rc_silent = cm_silent c, rc_frameIDs = map ch_frameID (cm_changes c),
     rc_scheduledDispatch = False\<rparr>"

definition resolveCommitFrame :: "jsobj list \<Rightarrow> routed_commit \<Rightarrow> jsobj option \<times> jsobj option" where
  "resolveCommitFrame versions c =
     (case (case find_index (\<lambda>f. oget f ''commitOrder'' = JNum (Fin (rc_order c))) versions of
              Some i \<Rightarrow> Some i | None \<Rightarrow> if versions = [] then None else Some (length versions - 1)) of
        None \<Rightarrow> (None, None)
      | Some i \<Rightarrow> (Some (versions ! i), if 0 < i then Some (versions ! (i - 1)) else None))"

definition commitPriority :: "(jsval \<Rightarrow> jsobj list) \<Rightarrow> routed_commit \<Rightarrow> jsobj list \<Rightarrow> rat" where
  "commitPriority versionsOf c frames =
     (if frames \<noteq> [] then foldl (\<lambda>p f. min p (framePriority (JObj f))) (FRAME_PRIORITY ''unknown'') frames
      else foldl (\<lambda>p k. case fst (resolveCommitFrame (versionsOf k) c) of
                          None \<Rightarrow> p | Some f \<Rightarrow> min p (framePriority (JObj f)))
             (FRAME_PRIORITY ''unknown'') (rc_frameIDs c))"

definition commitFrameIDs :: "routed_commit \<Rightarrow> jsobj list \<Rightarrow> jsval list" where
  "commitFrameIDs c frames =
     uniq (filter truthy (if frames \<noteq> [] then map (\<lambda>f. oget f ''id'') frames else rc_frameIDs c))"

definition frameIDsOverlap :: "jsval list \<Rightarrow> jsval list \<Rightarrow> bool" where
  "frameIDsOverlap left right = list_ex (\<lambda>k. k \<in> set left) right"

lemma frameIDsOverlap_sym: "frameIDsOverlap a b \<longleftrightarrow> frameIDsOverlap b a"
  by (auto simp: frameIDsOverlap_def list_ex_iff)

text \<open>\<open>sameValue\<close> is \<open>===\<close>, which compares nested objects by identity.\<close>

record frame_change =
  fc_propName :: string
  fc_previousValue :: jsval
  fc_newValue :: jsval

definition computeChanges :: "(jsval \<Rightarrow> jsval \<Rightarrow> bool) \<Rightarrow> jsobj option \<Rightarrow> jsobj \<Rightarrow> frame_change list" where
  "computeChanges sameValue previousFrame newFrame =
     (case previousFrame of
        None \<Rightarrow> []
      | Some prev \<Rightarrow> map (\<lambda>k. \<lparr>fc_propName = k, fc_previousValue = oget prev k, fc_newValue = oget newFrame k\<rparr>)
          (filter (\<lambda>k. \<not> sameValue (oget prev k) (oget newFrame k)) (uniq (map fst prev @ map fst newFrame))))"

definition normalizeScheduledAt :: "(string \<Rightarrow> rat option) \<Rightarrow> jsval \<Rightarrow> jsnum" where
  "normalizeScheduledAt dateParse v =
     (case v of
        JStr s \<Rightarrow>
          if js_trim s \<noteq> []
          then (case js_Number v of
                  Fin q \<Rightarrow> Fin q
                | n \<Rightarrow> (case dateParse s of Some q \<Rightarrow> Fin (q * 1000) | None \<Rightarrow> n))
          else js_Number v
      | _ \<Rightarrow> js_Number v)"

definition shouldDeferScheduledFrame :: "(string \<Rightarrow> rat option) \<Rightarrow> jsobj \<Rightarrow> routed_commit \<Rightarrow> bool" where
  "shouldDeferScheduledFrame dateParse frame c =
     (if rc_scheduledDispatch c then False
      else case normalizeScheduledAt dateParse (oget frame ''scheduledAt'') of
             Fin q \<Rightarrow> 0 < q \<and> oget frame ''scheduledStatus'' \<noteq> JStr ''fired'' \<and> oget frame ''scheduledStatus'' \<noteq> JStr ''cancelled''
           | _ \<Rightarrow> False)"

section \<open>The plugin chain\<close>

record route_context =
  cx_frameID :: jsval
  cx_previousFrame :: "jsobj option"
  cx_newFrame :: jsobj
  cx_changes :: "frame_change list"

text \<open>What one \<open>process(next, done)\<close> does, in order; \<open>CallNext None\<close> passes the own context on.\<close>

datatype 'x plugin_action = CallNext "'x option" | CallDone | Throw

record ('p, 'x) chain_state =
  xs_remaining :: "'p registration list"
  xs_stopped :: bool
  xs_trace :: "('p registration \<times> 'x) list"

text \<open>
  \<open>run_next\<close> is \<open>next\<close> with a bound on the depth of nested calls; each call takes one registration,
  so a depth of one more than their number is never reached (\<open>chain_complete\<close>).
\<close>

fun run_next :: "nat \<Rightarrow> ('p \<Rightarrow> 'x \<Rightarrow> 'x plugin_action list) \<Rightarrow> 'x \<Rightarrow> ('p, 'x) chain_state \<Rightarrow> ('p, 'x) chain_state"
  and run_actions :: "nat \<Rightarrow> ('p \<Rightarrow> 'x \<Rightarrow> 'x plugin_action list) \<Rightarrow> 'x \<Rightarrow> bool \<Rightarrow> 'x plugin_action list
    \<Rightarrow> ('p, 'x) chain_state \<Rightarrow> bool \<times> ('p, 'x) chain_state" where
  "run_next 0 process ctx st = st"
| "run_next (Suc n) process ctx st =
     (if xs_stopped st then st
      else case xs_remaining st of
        [] \<Rightarrow> st
      | r # rs \<Rightarrow>
          (case run_actions n process ctx False (process (rg_PluginClass r) ctx)
                  (st\<lparr>xs_remaining := rs, xs_trace := xs_trace st @ [(r, ctx)]\<rparr>) of
             (called, st') \<Rightarrow> if \<not> called \<and> \<not> xs_stopped st' then run_next n process ctx st' else st'))"
| "run_actions n process ctx called [] st = (called, st)"
| "run_actions n process ctx called (CallNext c # as) st =
     run_actions n process ctx True as (run_next n process (case c of None \<Rightarrow> ctx | Some c' \<Rightarrow> c') st)"
| "run_actions n process ctx called (CallDone # as) st = run_actions n process ctx True as (st\<lparr>xs_stopped := True\<rparr>)"
| "run_actions n process ctx called (Throw # as) st = (called, st)"

definition executeChain :: "('p \<Rightarrow> 'x \<Rightarrow> 'x plugin_action list) \<Rightarrow> 'p registration list \<Rightarrow> 'x \<Rightarrow> ('p registration \<times> 'x) list" where
  "executeChain process regs ctx =
     xs_trace (run_next (length regs + 1) process ctx \<lparr>xs_remaining = regs, xs_stopped = False, xs_trace = []\<rparr>)"

text \<open>\<open>BaseFramePlugin.process\<close>: it passes its context on.\<close>

definition base_plugin :: "'x \<Rightarrow> 'x plugin_action list" where
  "base_plugin ctx = [CallNext (Some ctx)]"

definition createContext :: "(jsval \<Rightarrow> jsval \<Rightarrow> bool) \<Rightarrow> jsval \<Rightarrow> jsobj \<Rightarrow> jsobj option \<Rightarrow> route_context" where
  "createContext sameValue k frame previousFrame =
     \<lparr>cx_frameID = k, cx_previousFrame = previousFrame, cx_newFrame = frame,
      cx_changes = computeChanges sameValue previousFrame frame\<rparr>"

text \<open>The plugins run for one change, and for the whole commit.\<close>

definition route_change :: "(jsval \<Rightarrow> jsval \<Rightarrow> bool) \<Rightarrow> (string \<Rightarrow> rat option) \<Rightarrow> ('p \<Rightarrow> route_context \<Rightarrow> route_context plugin_action list)
    \<Rightarrow> 'p registration list \<Rightarrow> (jsval \<Rightarrow> jsobj list) \<Rightarrow> routed_commit \<Rightarrow> jsval \<Rightarrow> ('p registration \<times> route_context) list" where
  "route_change sameValue dateParse process regs versionsOf c k =
     (case resolveCommitFrame (versionsOf k) c of
        (None, _) \<Rightarrow> []
      | (Some frame, previousFrame) \<Rightarrow>
          if shouldDeferScheduledFrame dateParse frame c then []
          else executeChain process (matchingRegistrations regs (JObj frame)) (createContext sameValue k frame previousFrame))"

definition routeCommit :: "(jsval \<Rightarrow> jsval \<Rightarrow> bool) \<Rightarrow> (string \<Rightarrow> rat option) \<Rightarrow> ('p \<Rightarrow> route_context \<Rightarrow> route_context plugin_action list)
    \<Rightarrow> 'p registration list \<Rightarrow> (jsval \<Rightarrow> jsobj list) \<Rightarrow> routed_commit \<Rightarrow> ('p registration \<times> route_context) list" where
  "routeCommit sameValue dateParse process regs versionsOf c =
     (if rc_silent c then []
      else concat (map (route_change sameValue dateParse process regs versionsOf c) (rc_frameIDs c)))"

section \<open>The state machine\<close>

text \<open>\<open>qi_arrival\<close> numbers the commits in the order they were enqueued; only the proofs read it.\<close>

record queue_item =
  qi_commit :: routed_commit
  qi_priority :: rat
  qi_frameIDs :: "jsval list"
  qi_arrival :: nat

record serial_task =
  tk_id :: nat
  tk_priority :: rat

record router =
  rt_queue :: "queue_item list"
  rt_processing :: bool
  rt_backgroundTasks :: "nat list"
  rt_flushWaiters :: "(nat \<times> bool) list"
  rt_sessionChains :: "(string \<times> nat option \<times> serial_task list) list"
  rt_routed :: "queue_item list"
  rt_flushed :: "nat list"
  rt_arrivals :: nat

definition new_router :: router where
  "new_router = \<lparr>rt_queue = [], rt_processing = False, rt_backgroundTasks = [], rt_flushWaiters = [],
     rt_sessionChains = [], rt_routed = [], rt_flushed = [], rt_arrivals = 0\<rparr>"

definition hasQueuedSessionTasks :: "router \<Rightarrow> bool" where
  "hasQueuedSessionTasks st = list_ex (\<lambda>(_, _, queue). queue \<noteq> []) (rt_sessionChains st)"

definition isFlushReady :: "router \<Rightarrow> bool \<Rightarrow> bool" where
  "isFlushReady st waitForBackground =
     (\<not> rt_processing st \<and> rt_queue st = []
      \<and> (\<not> waitForBackground \<or> (rt_backgroundTasks st = [] \<and> \<not> hasQueuedSessionTasks st)))"

definition resolveFlushWaiters :: "router \<Rightarrow> router" where
  "resolveFlushWaiters st =
     st\<lparr>rt_flushWaiters := filter (\<lambda>(_, w). \<not> isFlushReady st w) (rt_flushWaiters st),
        rt_flushed := rt_flushed st @ map fst (filter (\<lambda>(_, w). isFlushReady st w) (rt_flushWaiters st))\<rparr>"

text \<open>One turn of \<open>_processQueue\<close>: the next item is taken and routed, or the loop ends.\<close>

definition process_next :: "router \<Rightarrow> router" where
  "process_next st =
     (case rt_queue st of
        [] \<Rightarrow> resolveFlushWaiters (st\<lparr>rt_processing := False\<rparr>)
      | item # queue \<Rightarrow> st\<lparr>rt_processing := True, rt_queue := queue, rt_routed := rt_routed st @ [item]\<rparr>)"

definition min_index :: "jsval list \<Rightarrow> queue_item list \<Rightarrow> nat" where
  "min_index frameIDs queue =
     foldl (\<lambda>m i. if frameIDsOverlap (qi_frameIDs (queue ! i)) frameIDs then i + 1 else m) 0 [0..<length queue]"

definition enqueue :: "(jsval \<Rightarrow> jsobj list) \<Rightarrow> routed_commit \<Rightarrow> jsobj list \<Rightarrow> router \<Rightarrow> router" where
  "enqueue versionsOf c frames st =
     (let frameIDs = commitFrameIDs c frames;
          item = \<lparr>qi_commit = c, qi_priority = commitPriority versionsOf c frames, qi_frameIDs = frameIDs,
                  qi_arrival = rt_arrivals st\<rparr>;
          st' = st\<lparr>rt_queue := insertByFramePriority qi_priority (min_index frameIDs (rt_queue st)) item (rt_queue st),
                   rt_arrivals := rt_arrivals st + 1\<rparr>
      in if rt_processing st then st' else process_next st')"

definition enqueueCommit :: "(jsval \<Rightarrow> jsobj list) \<Rightarrow> routed_commit option \<Rightarrow> jsobj list \<Rightarrow> router \<Rightarrow> router" where
  "enqueueCommit versionsOf c frames st =
     (case c of None \<Rightarrow> st | Some c' \<Rightarrow> if rc_silent c' then st else enqueue versionsOf c' frames st)"

definition runBackground :: "nat \<Rightarrow> router \<Rightarrow> router" where
  "runBackground t st = st\<lparr>rt_backgroundTasks := rt_backgroundTasks st @ [t]\<rparr>"

definition background_settled :: "nat \<Rightarrow> router \<Rightarrow> router" where
  "background_settled t st = resolveFlushWaiters (st\<lparr>rt_backgroundTasks := filter (\<lambda>x. x \<noteq> t) (rt_backgroundTasks st)\<rparr>)"

text \<open>
  The loop of \<open>_pumpSessionChain\<close> from its head to its next await. A task that throws before it
  returns a promise (\<open>throws\<close>) is rejected and the loop goes on.
\<close>

fun pump_loop :: "(nat \<Rightarrow> bool) \<Rightarrow> string \<Rightarrow> serial_task list \<Rightarrow> router \<Rightarrow> router" where
  "pump_loop throws key [] st = resolveFlushWaiters (st\<lparr>rt_sessionChains := AList.delete key (rt_sessionChains st)\<rparr>)"
| "pump_loop throws key (t # queue) st =
     (if throws (tk_id t)
      then pump_loop throws key queue
             (resolveFlushWaiters (st\<lparr>rt_sessionChains := AList.update key (Some (tk_id t), queue) (rt_sessionChains st)\<rparr>))
      else runBackground (tk_id t) (st\<lparr>rt_sessionChains := AList.update key (Some (tk_id t), queue) (rt_sessionChains st)\<rparr>))"

definition runSerial :: "(nat \<Rightarrow> bool) \<Rightarrow> string \<Rightarrow> nat \<Rightarrow> jsval \<Rightarrow> router \<Rightarrow> router" where
  "runSerial throws key t priority st =
     (let task = \<lparr>tk_id = t, tk_priority = framePriorityOrder priority\<rparr>;
          (running, queue) = (case map_of (rt_sessionChains st) key of None \<Rightarrow> (None, []) | Some c \<Rightarrow> c);
          queue' = insertByFramePriority tk_priority 0 task queue;
          st' = st\<lparr>rt_sessionChains := AList.update key (running, queue') (rt_sessionChains st)\<rparr>
      in if running = None then pump_loop throws key queue' st' else st')"

definition chain_continue :: "(nat \<Rightarrow> bool) \<Rightarrow> string \<Rightarrow> router \<Rightarrow> router option" where
  "chain_continue throws key st =
     (case map_of (rt_sessionChains st) key of
        Some (Some _, queue) \<Rightarrow> Some (pump_loop throws key queue (resolveFlushWaiters st))
      | _ \<Rightarrow> None)"

definition flush :: "nat \<Rightarrow> bool \<Rightarrow> router \<Rightarrow> router" where
  "flush waiter waitForBackground st =
     (if isFlushReady st waitForBackground then st\<lparr>rt_flushed := rt_flushed st @ [waiter]\<rparr>
      else st\<lparr>rt_flushWaiters := rt_flushWaiters st @ [(waiter, waitForBackground)]\<rparr>)"

datatype router_event =
    Enqueue "jsval \<Rightarrow> jsobj list" "routed_commit option" "jsobj list"
  | RouteDone
  | Background nat
  | BackgroundSettled nat
  | RunSerial string nat jsval
  | ChainContinue string
  | Flush nat bool

fun router_step :: "(nat \<Rightarrow> bool) \<Rightarrow> router_event \<Rightarrow> router \<Rightarrow> router option" where
  "router_step throws (Enqueue versionsOf c frames) st = Some (enqueueCommit versionsOf c frames st)"
| "router_step throws RouteDone st = (if rt_processing st then Some (process_next st) else None)"
| "router_step throws (Background t) st = Some (runBackground t st)"
| "router_step throws (BackgroundSettled t) st =
     (if t \<in> set (rt_backgroundTasks st) then Some (background_settled t st) else None)"
| "router_step throws (RunSerial key t priority) st = Some (runSerial throws key t priority st)"
| "router_step throws (ChainContinue key) st = chain_continue throws key st"
| "router_step throws (Flush waiter w) st = Some (flush waiter w st)"

inductive router_reachable :: "(nat \<Rightarrow> bool) \<Rightarrow> router \<Rightarrow> bool" for throws where
  new: "router_reachable throws new_router"
| step: "router_reachable throws st \<Longrightarrow> router_step throws e st = Some st' \<Longrightarrow> router_reachable throws st'"

section \<open>The plugin chain runs registrations in order\<close>

lemma chain_prefix:
  "map fst (xs_trace (run_next n process ctx st)) @ xs_remaining (run_next n process ctx st)
     = map fst (xs_trace st) @ xs_remaining st"
  "map fst (xs_trace (snd (run_actions n process ctx called as st))) @ xs_remaining (snd (run_actions n process ctx called as st))
     = map fst (xs_trace st) @ xs_remaining st"
proof (induction n process ctx st and n process ctx called as st rule: run_next_run_actions.induct)
  case (2 n process ctx st)
  show ?case
  proof (cases "xs_stopped st \<or> xs_remaining st = []")
    case True
    then show ?thesis by (auto split: list.splits)
  next
    case False
    then obtain r rs where r: "xs_remaining st = r # rs" by (cases "xs_remaining st") auto
    obtain called st' where ra: "run_actions n process ctx False (process (rg_PluginClass r) ctx)
        (st\<lparr>xs_remaining := rs, xs_trace := xs_trace st @ [(r, ctx)]\<rparr>) = (called, st')" by (metis prod.exhaust)
    with "2.IH"(1)[OF _ r] False r have "map fst (xs_trace st') @ xs_remaining st' = map fst (xs_trace st) @ xs_remaining st"
      by simp
    with "2.IH"(2)[OF _ r ra[symmetric]] False r ra show ?thesis by simp
  qed
qed simp_all

lemma chain_complete:
  assumes nodone: "\<And>p x. CallDone \<notin> set (process p x)"
  shows "\<not> xs_stopped st \<Longrightarrow> length (xs_remaining st) < n \<Longrightarrow>
      xs_remaining (run_next n process ctx st) = [] \<and> \<not> xs_stopped (run_next n process ctx st)"
    and "\<not> xs_stopped st \<Longrightarrow> length (xs_remaining st) < n \<Longrightarrow> CallDone \<notin> set as \<Longrightarrow> (called \<longrightarrow> xs_remaining st = []) \<Longrightarrow>
      \<not> xs_stopped (snd (run_actions n process ctx called as st))
      \<and> (fst (run_actions n process ctx called as st) \<longrightarrow> xs_remaining (snd (run_actions n process ctx called as st)) = [])
      \<and> length (xs_remaining (snd (run_actions n process ctx called as st))) \<le> length (xs_remaining st)"
  using nodone
proof (induction n process ctx st and n process ctx called as st rule: run_next_run_actions.induct)
  case (2 n process ctx st)
  show ?case
  proof (cases "xs_remaining st")
    case Nil
    with 2 show ?thesis by simp
  next
    case (Cons r rs)
    obtain called st' where ra: "run_actions n process ctx False (process (rg_PluginClass r) ctx)
        (st\<lparr>xs_remaining := rs, xs_trace := xs_trace st @ [(r, ctx)]\<rparr>) = (called, st')" by (metis prod.exhaust)
    with "2.IH"(1)[OF _ Cons] "2.prems" Cons
    have "\<not> xs_stopped st'" "called \<longrightarrow> xs_remaining st' = []" "length (xs_remaining st') \<le> length rs" by auto
    with "2.IH"(2)[OF _ Cons ra[symmetric]] "2.prems" Cons ra show ?thesis by auto
  qed
next
  case (4 n process ctx called c as st)
  then show ?case by auto
qed simp_all

section \<open>The invariant of the state machine\<close>

definition waiters_wait :: "router \<Rightarrow> bool" where
  "waiters_wait st \<longleftrightarrow> (\<forall>(w, b) \<in> set (rt_flushWaiters st). \<not> isFlushReady st b)"

definition arrival_order :: "queue_item \<Rightarrow> queue_item \<Rightarrow> bool" where
  "arrival_order a b \<longleftrightarrow> (frameIDsOverlap (qi_frameIDs a) (qi_frameIDs b) \<longrightarrow> qi_arrival a < qi_arrival b)"

definition router_ok :: "router \<Rightarrow> bool" where
  "router_ok st \<longleftrightarrow> (\<not> rt_processing st \<longrightarrow> rt_queue st = []) \<and> waiters_wait st
     \<and> sorted_wrt arrival_order (rt_routed st @ rt_queue st)
     \<and> (\<forall>i \<in> set (rt_routed st @ rt_queue st). qi_arrival i < rt_arrivals st)"

lemma isFlushReady_waiters [simp]:
  "isFlushReady (st\<lparr>rt_flushWaiters := a, rt_flushed := b\<rparr>) w = isFlushReady st w"
  "isFlushReady (st\<lparr>rt_flushWaiters := a\<rparr>) w = isFlushReady st w"
  "isFlushReady (st\<lparr>rt_flushed := b\<rparr>) w = isFlushReady st w"
  by (simp_all add: isFlushReady_def hasQueuedSessionTasks_def)

lemma resolve_wait [simp]: "waiters_wait (resolveFlushWaiters st)"
  by (auto simp: waiters_wait_def resolveFlushWaiters_def)

lemma resolve_simps [simp]:
  "rt_queue (resolveFlushWaiters st) = rt_queue st" "rt_processing (resolveFlushWaiters st) = rt_processing st"
  "rt_routed (resolveFlushWaiters st) = rt_routed st" "rt_arrivals (resolveFlushWaiters st) = rt_arrivals st"
  "rt_sessionChains (resolveFlushWaiters st) = rt_sessionChains st"
  by (simp_all add: resolveFlushWaiters_def)

lemma process_next_ok:
  assumes "sorted_wrt arrival_order (rt_routed st @ rt_queue st)" "\<forall>i \<in> set (rt_routed st @ rt_queue st). qi_arrival i < rt_arrivals st"
  shows "router_ok (process_next st)"
proof (cases "rt_queue st")
  case Nil
  with assms show ?thesis by (simp add: router_ok_def process_next_def)
next
  case (Cons i q)
  then have "\<not> isFlushReady (process_next st) b" for b by (simp add: process_next_def isFlushReady_def)
  with assms Cons show ?thesis by (auto simp: router_ok_def process_next_def waiters_wait_def)
qed

lemma min_index_spec:
  "min_index ids q \<le> length q" "min_index ids q \<le> j \<Longrightarrow> j < length q \<Longrightarrow> \<not> frameIDsOverlap (qi_frameIDs (q ! j)) ids"
proof -
  let ?f = "\<lambda>m i. if frameIDsOverlap (qi_frameIDs (q ! i)) ids then i + 1 else m"
  have "foldl ?f 0 [0..<n] \<le> n \<and> (\<forall>j. foldl ?f 0 [0..<n] \<le> j \<longrightarrow> j < n \<longrightarrow> \<not> frameIDsOverlap (qi_frameIDs (q ! j)) ids)" for n
    by (induction n) (auto simp: less_Suc_eq)
  from this[of "length q"]
  show "min_index ids q \<le> length q" "min_index ids q \<le> j \<Longrightarrow> j < length q \<Longrightarrow> \<not> frameIDsOverlap (qi_frameIDs (q ! j)) ids"
    by (auto simp: min_index_def)
qed

lemma enqueued_sorted:
  assumes "sorted_wrt arrival_order (before @ q)" "\<forall>i \<in> set (before @ q). qi_arrival i < qi_arrival item"
  shows "sorted_wrt arrival_order (before @ insertByFramePriority prio (min_index (qi_frameIDs item) q) item q)
    \<and> set (insertByFramePriority prio (min_index (qi_frameIDs item) q) item q) = insert item (set q)"
proof -
  obtain pre post where s: "q = pre @ post" "insertByFramePriority prio (min_index (qi_frameIDs item) q) item q = pre @ item # post"
    "min (min_index (qi_frameIDs item) q) (length q) \<le> length pre"
    using insert_split[of q prio "min_index (qi_frameIDs item) q" item] by metis
  have len: "min_index (qi_frameIDs item) q \<le> length pre" using s(3) min_index_spec(1)[of "qi_frameIDs item" q] by simp
  have post: "arrival_order item y" if "y \<in> set post" for y
  proof -
    from that obtain j where j: "j < length post" "y = post ! j" by (metis in_set_conv_nth)
    then have "\<not> frameIDsOverlap (qi_frameIDs (q ! (length pre + j))) (qi_frameIDs item)"
      using min_index_spec(2)[of "qi_frameIDs item" q "length pre + j"] len s(1) by simp
    with j s(1) have "\<not> frameIDsOverlap (qi_frameIDs y) (qi_frameIDs item)" by simp
    then show ?thesis using frameIDsOverlap_sym by (auto simp: arrival_order_def)
  qed
  have "arrival_order y item" if "y \<in> set before \<union> set pre" for y
    using assms(2) s(1) that by (auto simp: arrival_order_def)
  with assms(1) s post show ?thesis by (auto simp: sorted_wrt_append)
qed

lemma enqueue_ok:
  assumes ok: "router_ok st"
  shows "router_ok (enqueue versionsOf c frames st)"
proof -
  define item where "item = \<lparr>qi_commit = c, qi_priority = commitPriority versionsOf c frames,
    qi_frameIDs = commitFrameIDs c frames, qi_arrival = rt_arrivals st\<rparr>"
  let ?q = "insertByFramePriority qi_priority (min_index (qi_frameIDs item) (rt_queue st)) item (rt_queue st)"
  let ?st = "st\<lparr>rt_queue := ?q, rt_arrivals := rt_arrivals st + 1\<rparr>"
  have "\<forall>i \<in> set (rt_routed st @ rt_queue st). qi_arrival i < qi_arrival item"
    using ok by (simp add: router_ok_def item_def)
  from enqueued_sorted[OF _ this, of qi_priority] ok
  have sorted: "sorted_wrt arrival_order (rt_routed ?st @ rt_queue ?st)" and mem: "set ?q = insert item (set (rt_queue st))"
    by (simp_all add: router_ok_def)
  have arr: "\<forall>i \<in> set (rt_routed ?st @ rt_queue ?st). qi_arrival i < rt_arrivals ?st"
    using ok mem by (auto simp: router_ok_def item_def less_Suc_eq)
  have eq: "enqueue versionsOf c frames st = (if rt_processing st then ?st else process_next ?st)"
    by (simp add: enqueue_def item_def Let_def)
  show ?thesis
  proof (cases "rt_processing st")
    case True
    then have "waiters_wait ?st" by (auto simp: waiters_wait_def isFlushReady_def)
    with True sorted arr show ?thesis unfolding eq by (simp add: router_ok_def)
  next
    case False
    with process_next_ok[OF sorted arr] show ?thesis unfolding eq by simp
  qed
qed

text \<open>Steps that touch neither the commit queue nor what was routed.\<close>

definition same_queue :: "router \<Rightarrow> router \<Rightarrow> bool" where
  "same_queue st st' \<longleftrightarrow> rt_queue st' = rt_queue st \<and> rt_processing st' = rt_processing st
     \<and> rt_routed st' = rt_routed st \<and> rt_arrivals st' = rt_arrivals st"

lemma same_queue_ok: "router_ok st \<Longrightarrow> same_queue st st' \<Longrightarrow> waiters_wait st' \<Longrightarrow> router_ok st'"
  by (simp add: router_ok_def same_queue_def)

lemma pump_loop_same: "same_queue st (pump_loop throws key q st)"
  by (induction throws key q st rule: pump_loop.induct) (simp_all add: same_queue_def runBackground_def)

definition busy_for_queue :: "router \<Rightarrow> bool" where
  "busy_for_queue st \<longleftrightarrow> (\<forall>(w, b) \<in> set (rt_flushWaiters st). b \<or> \<not> isFlushReady st False)"

lemma waiters_busy: "waiters_wait st \<Longrightarrow> busy_for_queue st"
  by (auto simp: waiters_wait_def busy_for_queue_def isFlushReady_def)

lemma busy_chains [simp]: "busy_for_queue (st\<lparr>rt_sessionChains := c\<rparr>) = busy_for_queue st"
  by (simp add: busy_for_queue_def isFlushReady_def)

lemma busy_background: "busy_for_queue st \<Longrightarrow> waiters_wait (runBackground t st)"
  by (auto simp: busy_for_queue_def waiters_wait_def runBackground_def isFlushReady_def)

lemma pump_loop_wait: "busy_for_queue st \<Longrightarrow> waiters_wait (pump_loop throws key q st)"
proof (induction throws key q st rule: pump_loop.induct)
  case (2 throws key t queue st)
  then show ?case using waiters_busy[OF resolve_wait] by (simp add: busy_background)
qed simp

lemma runSerial_ok:
  assumes ok: "router_ok st"
  shows "router_ok (runSerial throws key t priority st)"
proof -
  obtain running queue where c: "(case map_of (rt_sessionChains st) key of None \<Rightarrow> (None, []) | Some c \<Rightarrow> c) = (running, queue)"
    by (metis prod.exhaust)
  let ?task = "\<lparr>tk_id = t, tk_priority = framePriorityOrder priority\<rparr>"
  let ?q = "insertByFramePriority tk_priority 0 ?task queue"
  let ?st = "st\<lparr>rt_sessionChains := AList.update key (running, ?q) (rt_sessionChains st)\<rparr>"
  have eq: "runSerial throws key t priority st = (if running = None then pump_loop throws key ?q ?st else ?st)"
    by (simp add: runSerial_def c Let_def)
  have busy: "busy_for_queue ?st" using ok waiters_busy by (simp add: router_ok_def)
  have same: "same_queue st ?st" by (simp add: same_queue_def)
  show ?thesis
  proof (cases "running = None")
    case True
    have "same_queue st (pump_loop throws key ?q ?st)"
      using pump_loop_same[of ?st throws key ?q] by (simp add: same_queue_def)
    from same_queue_ok[OF ok this pump_loop_wait[OF busy]] True show ?thesis unfolding eq by simp
  next
    case False
    obtain pre post where "?q = pre @ ?task # post" using insert_split[of queue tk_priority 0 ?task] by metis
    then have "hasQueuedSessionTasks ?st"
      using map_of_update[of key "(running, ?q)" "rt_sessionChains st" key] map_of_SomeD
      by (force simp: hasQueuedSessionTasks_def list_ex_iff)
    then have "waiters_wait ?st" using busy by (auto simp: busy_for_queue_def waiters_wait_def isFlushReady_def)
    from same_queue_ok[OF ok same this] False show ?thesis unfolding eq by auto
  qed
qed

lemma step_ok:
  assumes ok: "router_ok st" and step: "router_step throws e st = Some st'"
  shows "router_ok st'"
proof (cases e)
  case (Enqueue versionsOf c frames)
  with ok step enqueue_ok show ?thesis by (auto simp: enqueueCommit_def split: option.splits if_splits)
next
  case RouteDone
  with ok step process_next_ok[of st] show ?thesis by (simp add: router_ok_def split: if_splits)
next
  case (Background t)
  with ok step have st': "st' = runBackground t st" by simp
  have "same_queue st st'" by (simp add: st' same_queue_def runBackground_def)
  moreover have "waiters_wait st'" unfolding st' by (rule busy_background[OF waiters_busy]) (use ok in \<open>simp add: router_ok_def\<close>)
  ultimately show ?thesis by (rule same_queue_ok[OF ok])
next
  case (BackgroundSettled t)
  with step have st': "st' = background_settled t st" by (simp split: if_splits)
  show ?thesis by (rule same_queue_ok[OF ok]) (simp_all add: st' background_settled_def same_queue_def)
next
  case (RunSerial key t priority)
  with ok step runSerial_ok show ?thesis by auto
next
  case (ChainContinue key)
  with step obtain q where st': "st' = pump_loop throws key q (resolveFlushWaiters st)"
    by (auto simp: chain_continue_def split: option.splits)
  have "same_queue st st'" using pump_loop_same[of "resolveFlushWaiters st" throws key q] by (simp add: st' same_queue_def)
  moreover have "waiters_wait st'" unfolding st' by (rule pump_loop_wait[OF waiters_busy[OF resolve_wait]])
  ultimately show ?thesis by (rule same_queue_ok[OF ok])
next
  case (Flush waiter w)
  with ok step show ?thesis by (auto simp: flush_def router_ok_def waiters_wait_def split: if_splits)
qed

lemma reachable_router_ok: "router_reachable throws st \<Longrightarrow> router_ok st"
proof (induction rule: router_reachable.induct)
  case new
  show ?case by (simp add: new_router_def router_ok_def waiters_wait_def)
next
  case (step st e st')
  then show ?case using step_ok by blast
qed

section \<open>Properties\<close>

text \<open>
  C19: Ordering: however enqueueing, routing, background work and session chains interleave, two commits
  that touch a common frame are routed in the order they were enqueued, whatever their priorities.
\<close>

theorem overlapping_commits_routed_in_order:
  assumes "router_reachable throws st"
  shows "sorted_wrt (\<lambda>a b. frameIDsOverlap (qi_frameIDs a) (qi_frameIDs b) \<longrightarrow> qi_arrival a < qi_arrival b)
    (rt_routed st @ rt_queue st)"
proof -
  have "sorted_wrt arrival_order (rt_routed st @ rt_queue st)"
    using reachable_router_ok[OF assms] by (simp add: router_ok_def)
  then show ?thesis unfolding arrival_order_def .
qed

definition demo_commit :: "rat \<Rightarrow> jsval list \<Rightarrow> routed_commit" where
  "demo_commit order ids = \<lparr>rc_order = order, rc_silent = False, rc_frameIDs = ids, rc_scheduledDispatch = False\<rparr>"

definition demo_versions :: "jsval \<Rightarrow> jsobj list" where
  "demo_versions k = (if k = JStr ''m'' then [[(''type'', JStr ''AgentMessage'')]] else [[(''type'', JStr ''ToolCall'')]])"

definition demo_router :: router where
  "demo_router = foldl (\<lambda>st e. the (router_step (\<lambda>_. False) e st)) new_router
     [Enqueue demo_versions (Some (demo_commit 1 [JStr ''x''])) [], Enqueue demo_versions (Some (demo_commit 2 [JStr ''t''])) [],
      Enqueue demo_versions (Some (demo_commit 3 [JStr ''m''])) [], Flush 0 False]"

lemma reachable_the:
  "router_reachable throws st \<Longrightarrow> router_reachable throws (the (router_step throws (Enqueue v c f) st))"
  "router_reachable throws st \<Longrightarrow> router_reachable throws (the (router_step throws (Flush w b) st))"
  by (erule router_reachable.step[where e = "Enqueue v c f"], simp only: router_step.simps option.sel)
    (erule router_reachable.step[where e = "Flush w b"], simp only: router_step.simps option.sel)

lemma demo_router_reachable: "router_reachable (\<lambda>_. False) demo_router"
  unfolding demo_router_def foldl.simps by (intro reachable_the router_reachable.new)

theorem overlapping_commits_routed_in_order_witness:
  "sorted_wrt (\<lambda>a b. frameIDsOverlap (qi_frameIDs a) (qi_frameIDs b) \<longrightarrow> qi_arrival a < qi_arrival b)
     (rt_routed demo_router @ rt_queue demo_router)
   \<and> map (rc_order \<circ> qi_commit) (rt_queue demo_router) = [3, 2]"
proof
  show "map (rc_order \<circ> qi_commit) (rt_queue demo_router) = [3, 2]" by code_simp
qed (rule overlapping_commits_routed_in_order[OF demo_router_reachable])

text \<open>
  C20: No wakeup is lost and no commit is stranded: in every reachable state each flush still waiting
  waits for something that is not yet done, and an idle router has an empty queue.
\<close>

theorem no_flush_waiter_left_behind:
  assumes "router_reachable throws st"
  shows "(\<forall>(waiter, background) \<in> set (rt_flushWaiters st). \<not> isFlushReady st background)
    \<and> (\<not> rt_processing st \<longrightarrow> rt_queue st = [])"
  using reachable_router_ok[OF assms] by (simp add: router_ok_def waiters_wait_def)

theorem no_flush_waiter_left_behind_witness:
  "rt_flushWaiters demo_router = [(0, False)] \<and> \<not> isFlushReady demo_router False"
proof -
  have "rt_flushWaiters demo_router = [(0, False)]" by code_simp
  with no_flush_waiter_left_behind[OF demo_router_reachable] show ?thesis by simp
qed

text \<open>
  The plugin chain offers the frame to the matching registrations in the order they were made, each at
  most once however often a plugin calls \<open>next\<close> or throws, and to all of them when none calls \<open>done\<close>.
\<close>

theorem chain_runs_in_registration_order:
  "\<exists>skipped. map fst (executeChain process regs ctx) @ skipped = regs
    \<and> ((\<forall>p x. CallDone \<notin> set (process p x)) \<longrightarrow> skipped = [])"
proof -
  let ?st = "\<lparr>xs_remaining = regs, xs_stopped = False, xs_trace = []\<rparr>"
  have "map fst (executeChain process regs ctx) @ xs_remaining (run_next (length regs + 1) process ctx ?st) = regs"
    using chain_prefix(1)[of "length regs + 1" process ctx ?st] by (simp add: executeChain_def)
  moreover have "xs_remaining (run_next (length regs + 1) process ctx ?st) = []" if "\<forall>p x. CallDone \<notin> set (process p x)"
    using chain_complete(1)[of process ?st "length regs + 1" ctx] that by simp
  ultimately show ?thesis by blast
qed

theorem chain_runs_in_registration_order_witness:
  "\<exists>regs :: nat registration list. regs \<noteq> [] \<and> map fst (executeChain (\<lambda>_. base_plugin) regs ()) = regs"
proof -
  let ?regs = "[\<lparr>rg_selector = ValueSelector (JStr ''*''), rg_matcher = (\<lambda>_. Inr True), rg_PluginClass = 0, rg_pluginName = Null\<rparr>] :: nat registration list"
  have "\<forall>p x. CallDone \<notin> set ((\<lambda>_ :: nat. base_plugin) p x)" by (simp add: base_plugin_def)
  with chain_runs_in_registration_order[of "\<lambda>_. base_plugin" ?regs "()"] have "map fst (executeChain (\<lambda>_. base_plugin) ?regs ()) = ?regs"
    by auto
  then show ?thesis by (intro exI[of _ ?regs]) simp
qed

end
