(* ===== verification/FrameManager.thy ===== *)
theory FrameManager
  imports JSValue
begin

text \<open>
  The projection of frames to thread messages, \<open>src/shared/frame-manager/frame-manager.mjs\<close>: the
  upsert of live frames, the collapse of tool calls with their results, the display order and the
  incremental count of visible messages. A frame is a value read with optional chaining;
  \<open>localeCompare\<close> is an argument. In \<open>countMessageFrames\<close> the entries are mutable objects that
  several maps share, so they live in a list and the maps hold their positions.
\<close>

section \<open>Kinds of frames\<close>

definition LIVE_VISIBLE_PHANTOM_TYPES :: "string list" where
  "LIVE_VISIBLE_PHANTOM_TYPES = [''AgentThinking'', ''AgentMessageDelta'']"

definition STABLE_FRAME_FIELDS :: "string list" where
  "STABLE_FRAME_FIELDS = [''order'', ''createdAt'', ''createdClock'', ''timestamp'', ''sessionID'', ''interactionID'',
     ''parentID'', ''authorType'', ''authorID'']"

text \<open>\<open>stringOr(v)\<close> with the default \<open>null\<close>, which is only tested and compared: blank is the empty text.\<close>

fun nonblank :: "jsval \<Rightarrow> string" where
  "nonblank (JStr s) = (if js_trim s = [] then [] else s)"
| "nonblank _ = []"

definition numberOr :: "jsval \<Rightarrow> jsval \<Rightarrow> jsval" where
  "numberOr v fallback = (if is_finite_num v then v else fallback)"

definition frame_content :: "jsval \<Rightarrow> string \<Rightarrow> jsval" where
  "frame_content frame k = pget (pget frame ''content'') k"

definition isToolFrame :: "jsval \<Rightarrow> bool" where
  "isToolFrame frame =
     (truthy (frame_content frame ''toolName'')
      \<and> (pget frame ''type'' = JStr ''ToolCall'' \<or> pget frame ''type'' = JStr ''ToolResult''
         \<or> frame_content frame ''phase'' = JStr ''call'' \<or> frame_content frame ''phase'' = JStr ''result''
         \<or> ends_with (js_String (js_or (pget frame ''type'') (JStr []))) ''ToolFrame''))"

definition isToolCallFrame :: "jsval \<Rightarrow> bool" where
  "isToolCallFrame frame =
     (isToolFrame frame \<and> (frame_content frame ''phase'' = JStr ''call'' \<or> pget frame ''type'' = JStr ''ToolCall''))"

definition isToolResultFrame :: "jsval \<Rightarrow> bool" where
  "isToolResultFrame frame =
     (isToolFrame frame \<and> (frame_content frame ''phase'' = JStr ''result'' \<or> pget frame ''type'' = JStr ''ToolResult''))"

definition isMessageDoneFrame :: "jsval \<Rightarrow> bool" where
  "isMessageDoneFrame frame = (pget frame ''type'' = JStr ''MessageDone'')"

definition isVisibleThreadFrame :: "jsval \<Rightarrow> bool" where
  "isVisibleThreadFrame frame =
     (truthy (pget frame ''id'') \<and> pget frame ''hidden'' \<noteq> JBool True \<and> pget frame ''deleted'' \<noteq> JBool True
      \<and> pget frame ''phantom'' \<noteq> JBool True \<and> \<not> isMessageDoneFrame frame)"

definition isCompletedResponseFrame :: "jsval \<Rightarrow> bool" where
  "isCompletedResponseFrame frame =
     (pget frame ''type'' = JStr ''AgentMessage'' \<and> pget frame ''phantom'' \<noteq> JBool True
      \<and> frame_content frame ''status'' = JStr ''complete'')"

definition isVisibleAgentResponseFrame :: "jsval \<Rightarrow> bool" where
  "isVisibleAgentResponseFrame frame =
     (pget frame ''type'' = JStr ''AgentMessage'' \<and> pget frame ''hidden'' \<noteq> JBool True \<and> pget frame ''phantom'' \<noteq> JBool True
      \<and> (frame_content frame ''status'' = JStr ''complete'' \<or> nonblank (frame_content frame ''text'') \<noteq> []))"

definition isResponseFramePhantom :: "jsval \<Rightarrow> bool" where
  "isResponseFramePhantom frame =
     (pget frame ''phantom'' = JBool True \<and> nonblank (pget frame ''responseFrameID'') \<noteq> []
      \<and> (pget frame ''type'' = JStr ''AgentThinking'' \<or> pget frame ''type'' = JStr ''AgentMessageDelta''))"

section \<open>Display order\<close>

definition liveSortWeight :: "jsval \<Rightarrow> rat" where
  "liveSortWeight frame = (if pget frame ''type'' = JStr ''BeginTyping'' then 1 else 0)"

fun num_or :: "rat \<Rightarrow> jsval \<Rightarrow> rat" where
  "num_or d (JNum (Fin q)) = q"
| "num_or d _ = d"

definition sortCommitOrder :: "jsval \<Rightarrow> rat" where
  "sortCommitOrder frame = num_or (num_or max_safe_integer (pget frame ''order'')) (pget frame ''commitOrder'')"

definition lifecycle_of :: "jsval \<Rightarrow> string \<Rightarrow> jsval" where
  "lifecycle_of frame k = pget (pget (pget frame ''state'') ''lifecycle'') k"

definition visibleSortClock :: "jsval \<Rightarrow> jsval" where
  "visibleSortClock frame =
     (if isVisibleAgentResponseFrame frame
      then js_or (js_or (lifecycle_of frame ''closedClock'') (pget frame ''updatedClock'')) (pget frame ''createdClock'')
      else pget frame ''createdClock'')"

definition visibleSortTime :: "jsval \<Rightarrow> jsval" where
  "visibleSortTime frame =
     (if isVisibleAgentResponseFrame frame
      then numberOr (lifecycle_of frame ''closedAt'') (numberOr (pget frame ''updatedAt'') (pget frame ''createdAt''))
      else pget frame ''createdAt'')"

definition compareClock :: "(string \<Rightarrow> string \<Rightarrow> int) \<Rightarrow> jsval \<Rightarrow> jsval \<Rightarrow> rat" where
  "compareClock localeCompare a b =
     (if \<not> truthy a \<or> \<not> truthy b then 0
      else if a \<noteq> b then of_int (localeCompare (js_String a) (js_String b)) else 0)"

definition compareNumber :: "jsval \<Rightarrow> jsval \<Rightarrow> rat" where
  "compareNumber a b = num_or 0 a - num_or 0 b"

definition compareFrameOrder :: "(string \<Rightarrow> string \<Rightarrow> int) \<Rightarrow> jsval \<Rightarrow> jsval \<Rightarrow> rat" where
  "compareFrameOrder localeCompare a b =
     (let c1 = liveSortWeight a - liveSortWeight b; c2 = compareClock localeCompare (visibleSortClock a) (visibleSortClock b);
          c3 = compareNumber (visibleSortTime a) (visibleSortTime b); c4 = compareNumber (pget a ''order'') (pget b ''order'')
      in if c1 \<noteq> 0 then c1 else if c2 \<noteq> 0 then c2 else if c3 \<noteq> 0 then c3 else if c4 \<noteq> 0 then c4
         else sortCommitOrder a - sortCommitOrder b)"

definition sortFrames :: "(string \<Rightarrow> string \<Rightarrow> int) \<Rightarrow> jsval list \<Rightarrow> jsval list" where
  "sortFrames localeCompare frames = sort_by (\<lambda>a b. compareFrameOrder localeCompare a b \<le> 0) frames"

section \<open>Merging content\<close>

fun merge_entries :: "jsobj \<Rightarrow> jsobj \<Rightarrow> jsobj" and merge_entry :: "jsval \<Rightarrow> jsval \<Rightarrow> jsval" where
  "merge_entries output [] = output"
| "merge_entries output ((k, v) # patch) = merge_entries (oset output k (merge_entry (oget output k) v)) patch"
| "merge_entry old (JObj patch) = (case old of JObj ps \<Rightarrow> JObj (merge_entries ps patch) | _ \<Rightarrow> JObj patch)"
| "merge_entry old v = v"

definition mergeContent :: "jsval \<Rightarrow> jsval \<Rightarrow> jsval" where
  "mergeContent previous patch = JObj (merge_entries (props_of previous) (props_of patch))"

text \<open>Fields that an update keeps from the frame it replaces when it does not carry them.\<close>

definition keep_stable :: "jsval \<Rightarrow> jsobj \<Rightarrow> string \<Rightarrow> jsobj" where
  "keep_stable existing output fieldName =
     (if nullish (oget output fieldName) \<and> \<not> nullish (pget existing fieldName)
      then oset output fieldName (pget existing fieldName) else output)"

definition keep_fields :: "jsval \<Rightarrow> jsobj \<Rightarrow> jsobj" where
  "keep_fields existing output =
     (let o1 = foldl (keep_stable existing) output STABLE_FRAME_FIELDS
      in if \<not> truthy (oget o1 ''authorDisplayName'') \<and> truthy (pget existing ''authorDisplayName'')
         then oset o1 ''authorDisplayName'' (pget existing ''authorDisplayName'') else o1)"

definition mergeToolCallAndResultFrame :: "jsval \<Rightarrow> jsval \<Rightarrow> jsval" where
  "mergeToolCallAndResultFrame callFrame resultFrame =
     (let content = mergeContent (js_or (pget callFrame ''content'') (JObj [])) (js_or (pget resultFrame ''content'') (JObj []))
      in JObj (ospread (props_of callFrame)
           [(''type'', js_or (pget resultFrame ''type'') (pget callFrame ''type'')),
            (''updatedAt'', js_or (pget resultFrame ''updatedAt'') (pget callFrame ''updatedAt'')),
            (''updatedClock'', js_or (pget resultFrame ''updatedClock'') (pget callFrame ''updatedClock'')),
            (''commitOrder'', js_nc (pget resultFrame ''commitOrder'') (pget callFrame ''commitOrder'')),
            (''hidden'', js_nc (js_nc (pget resultFrame ''hidden'') (pget callFrame ''hidden'')) (JBool False)),
            (''deleted'', js_nc (js_nc (pget resultFrame ''deleted'') (pget callFrame ''deleted'')) (JBool False)),
            (''state'', JObj (ospread (props_of (pget callFrame ''state'')) (props_of (pget resultFrame ''state'')))),
            (''content'', JObj (ospread (props_of content)
               [(''phase'', JStr ''result''),
                (''toolResultFrameID'', js_or (js_or (pget resultFrame ''id'') (pget content ''toolResultFrameID'')) Null)]))]))"

definition mergeToolFrame :: "jsval \<Rightarrow> jsval \<Rightarrow> jsval" where
  "mergeToolFrame existingFrame nextFrame =
     (if isToolCallFrame nextFrame \<and> isToolResultFrame existingFrame
      then mergeToolCallAndResultFrame nextFrame existingFrame
      else let output = keep_fields existingFrame (ospread (props_of existingFrame) (props_of nextFrame))
           in if is_obj (oget output ''content'') \<and> is_obj (pget existingFrame ''content'')
              then JObj (oset output ''content'' (mergeContent (pget existingFrame ''content'') (oget output ''content'')))
              else JObj output)"

section \<open>Collapsing tool frames\<close>

definition findToolCallFrameIndex :: "jsval list \<Rightarrow> jsval \<Rightarrow> nat option" where
  "findToolCallFrameIndex frames resultFrame =
     (let callID = nonblank (frame_content resultFrame ''toolCallFrameID'');
          callFrameID = (if callID \<noteq> [] then callID else nonblank (pget resultFrame ''parentID''));
          toolCallID = nonblank (frame_content resultFrame ''toolCallID'')
      in find_index (\<lambda>candidate.
           isToolFrame candidate \<and> pget candidate ''id'' \<noteq> pget resultFrame ''id''
           \<and> ((callFrameID \<noteq> [] \<and> pget candidate ''id'' = JStr callFrameID)
              \<or> (toolCallID \<noteq> [] \<and> frame_content candidate ''toolCallID'' = JStr toolCallID))) frames)"

definition findToolResultFrameIndex :: "jsval list \<Rightarrow> jsval \<Rightarrow> nat option" where
  "findToolResultFrameIndex frames callFrame =
     (let callFrameID = nonblank (pget callFrame ''id''); toolCallID = nonblank (frame_content callFrame ''toolCallID'')
      in find_index (\<lambda>candidate.
           isToolResultFrame candidate \<and> pget candidate ''id'' \<noteq> pget callFrame ''id''
           \<and> ((callFrameID \<noteq> [] \<and> (frame_content candidate ''toolCallFrameID'' = JStr callFrameID
                                   \<or> pget candidate ''parentID'' = JStr callFrameID))
              \<or> (toolCallID \<noteq> [] \<and> frame_content candidate ''toolCallID'' = JStr toolCallID))) frames)"

definition remove_at :: "nat \<Rightarrow> 'a list \<Rightarrow> 'a list" where
  "remove_at i xs = take i xs @ drop (i + 1) xs"

definition upsert_tool_by_id :: "jsval list \<Rightarrow> jsval \<Rightarrow> jsval list" where
  "upsert_tool_by_id frames frame =
     (case find_index (\<lambda>c. pget c ''id'' = pget frame ''id'') frames of
        None \<Rightarrow> frames @ [frame]
      | Some i \<Rightarrow> frames[i := mergeToolFrame (frames ! i) frame])"

definition upsert_tool_call :: "jsval list \<Rightarrow> jsval \<Rightarrow> jsval list" where
  "upsert_tool_call frames frame =
     (case (if isToolCallFrame frame then findToolResultFrameIndex frames frame else None) of
        None \<Rightarrow> upsert_tool_by_id frames frame
      | Some resultIndex \<Rightarrow>
          (let mergedFrame = mergeToolCallAndResultFrame frame (frames ! resultIndex);
               withoutResult = remove_at resultIndex frames
           in if find_index (\<lambda>c. pget c ''id'' = pget frame ''id'') frames \<noteq> None
              then map (\<lambda>c. if pget c ''id'' = pget frame ''id'' then mergedFrame else c) withoutResult
              else take resultIndex withoutResult @ mergedFrame # drop resultIndex withoutResult))"

definition upsertToolDisplayFrame :: "jsval list \<Rightarrow> jsval \<Rightarrow> jsval list" where
  "upsertToolDisplayFrame frames frame0 =
     (let frame = JObj (oset (props_of frame0) ''hidden'' (js_nc (pget frame0 ''hidden'') (JBool False)))
      in case (if isToolResultFrame frame then findToolCallFrameIndex frames frame else None) of
           Some callIndex \<Rightarrow> frames[callIndex := mergeToolCallAndResultFrame (frames ! callIndex) frame]
         | None \<Rightarrow> upsert_tool_call frames frame)"

definition collapse_step :: "jsval list \<Rightarrow> jsval \<Rightarrow> jsval list" where
  "collapse_step output frame =
     (if isToolFrame frame then upsertToolDisplayFrame output frame
      else if \<not> isMessageDoneFrame frame then output @ [frame] else output)"

definition collapseToolDisplayFrames :: "jsval list \<Rightarrow> jsval list" where
  "collapseToolDisplayFrames frames = foldl collapse_step [] frames"

definition projectFrameMessages :: "(string \<Rightarrow> string \<Rightarrow> int) \<Rightarrow> jsval \<Rightarrow> jsval list" where
  "projectFrameMessages localeCompare frames = collapseToolDisplayFrames (sortFrames localeCompare (arr_of frames))"

section \<open>Live frames\<close>

definition normalizeLiveFrame :: "jsval \<Rightarrow> jsval" where
  "normalizeLiveFrame frame =
     (if pget frame ''type'' = JStr ''BeginTyping'' \<or> pget frame ''type'' = JStr ''EndTyping''
      then let agentID = js_or (js_or (pget frame ''authorID'') (frame_content frame ''agentID'')) (JStr ''default'')
           in JObj (ospread (props_of frame)
                [(''id'', JStr (''typing:'' @ js_String agentID)), (''authorID'', agentID), (''hidden'', JBool False)])
      else if truthy (pget frame ''phantom'') \<and> truthy (pget frame ''groupID'')
      then JObj (oset (props_of frame) ''id'' (pget frame ''groupID'')) else frame)"

definition removeFramesForLiveTransition :: "jsval list \<Rightarrow> jsval \<Rightarrow> jsval list" where
  "removeFramesForLiveTransition frames frame =
     (if pget frame ''type'' = JStr ''EndTyping'' then filter (\<lambda>c. pget c ''id'' \<noteq> pget frame ''id'') frames
      else if pget frame ''type'' = JStr ''AgentMessage''
      then filter (\<lambda>c. truthy c \<and> (pget c ''id'' = pget frame ''id'' \<or> pget c ''parentID'' \<noteq> pget frame ''parentID''
              \<or> (pget c ''type'' \<noteq> JStr ''AgentThinking'' \<and> pget c ''type'' \<noteq> JStr ''AgentMessageDelta''))) frames
      else frames)"

definition removeResponseFramePhantoms :: "jsval list \<Rightarrow> jsval \<Rightarrow> jsval list" where
  "removeResponseFramePhantoms frames frame =
     (let responseFrameID = pget frame ''responseFrameID''
      in filter (\<lambda>c. truthy c \<and> \<not> (pget c ''id'' = pget frame ''id'' \<and> pget c ''id'' \<noteq> responseFrameID)
            \<and> \<not> (truthy (pget c ''phantom'') \<and> pget c ''responseFrameID'' = responseFrameID \<and> pget c ''id'' \<noteq> responseFrameID)) frames)"

definition responseFramePhantomContent :: "jsval \<Rightarrow> jsval" where
  "responseFramePhantomContent frame =
     (let content = js_or (pget frame ''content'') (JObj [])
      in if pget frame ''type'' = JStr ''AgentThinking''
         then JObj [(''thinking'', js_or (pget content ''thinking'')
                (JObj [(''text'', js_or (pget content ''text'') (JStr [])), (''status'', JStr ''streaming'')]))]
         else if pget frame ''type'' = JStr ''AgentMessageDelta''
         then JObj (oset (props_of content) ''status'' (js_or (pget content ''status'') (JStr ''streaming'')))
         else content)"

definition mergeResponseFramePhantom :: "jsval \<Rightarrow> jsval \<Rightarrow> string \<Rightarrow> jsval" where
  "mergeResponseFramePhantom existing frame responseFrameID =
     (let content = mergeContent (js_or (pget existing ''content'') (JObj [])) (responseFramePhantomContent frame);
          hasOutputText = (case pget content ''text'' of JStr s \<Rightarrow> s \<noteq> [] | _ \<Rightarrow> False);
          shouldShow = (pget frame ''type'' = JStr ''AgentMessageDelta'' \<or> pget existing ''hidden'' = JBool False \<or> hasOutputText);
          either = (\<lambda>k. js_or (pget existing k) (pget frame k)); newer = (\<lambda>k. js_or (pget frame k) (pget existing k))
      in JObj (ospread (props_of existing)
           [(''id'', JStr responseFrameID), (''type'', js_or (pget existing ''type'') (JStr ''AgentMessage'')),
            (''sessionID'', either ''sessionID''), (''interactionID'', either ''interactionID''),
            (''parentID'', js_nc (js_nc (pget existing ''parentID'') (pget frame ''parentID'')) Null),
            (''authorType'', js_or (either ''authorType'') (JStr ''agent'')),
            (''authorID'', js_or (js_or (either ''authorID'') (frame_content frame ''agentID'')) Null),
            (''authorDisplayName'', js_or (js_or (either ''authorDisplayName'') (frame_content frame ''agentName'')) Null),
            (''order'', js_nc (pget existing ''order'') (pget frame ''order'')),
            (''commitOrder'', js_nc (pget existing ''commitOrder'') (pget frame ''commitOrder'')),
            (''timestamp'', either ''timestamp''), (''createdAt'', either ''createdAt''), (''updatedAt'', newer ''updatedAt''),
            (''createdClock'', either ''createdClock''), (''updatedClock'', newer ''updatedClock''),
            (''hidden'', if shouldShow then JBool False else js_nc (pget existing ''hidden'') (JBool True)),
            (''deleted'', js_nc (js_nc (pget existing ''deleted'') (pget frame ''deleted'')) (JBool False)),
            (''phantom'', JBool False), (''responseFrameID'', JStr responseFrameID), (''content'', content)]))"

definition upsertResponseFramePhantom :: "jsval list \<Rightarrow> jsval \<Rightarrow> jsval list" where
  "upsertResponseFramePhantom frames frame =
     (let responseFrameID = trim_or_empty (pget frame ''responseFrameID'');
          transitionFrames = removeResponseFramePhantoms frames frame
      in case find_index (\<lambda>c. pget c ''id'' = JStr responseFrameID) transitionFrames of
           None \<Rightarrow> transitionFrames @ [mergeResponseFramePhantom Null frame responseFrameID]
         | Some i \<Rightarrow>
             if isCompletedResponseFrame (transitionFrames ! i) then transitionFrames
             else transitionFrames[i := mergeResponseFramePhantom (transitionFrames ! i) frame responseFrameID])"

text \<open>The version of an ordinary frame that an upsert stores over \<open>existing\<close>, \<open>None\<close> for a new id.\<close>

definition next_frame :: "jsval option \<Rightarrow> jsval \<Rightarrow> jsval" where
  "next_frame existing frame =
     (let n0 = oset (props_of frame) ''hidden'' (js_nc (pget frame ''hidden'') (JBool False));
          n1 = (case existing of
                  None \<Rightarrow> n0
                | Some ex \<Rightarrow>
                    let kept = keep_fields ex n0
                    in if is_obj (oget kept ''content'')
                       then oset kept ''content'' (mergeContent (js_or (pget ex ''content'') (JObj [])) (oget kept ''content''))
                       else kept)
      in JObj (if truthy (pget frame ''phantom'') \<and> (\<exists>t \<in> set LIVE_VISIBLE_PHANTOM_TYPES. pget frame ''type'' = JStr t)
               then oset n1 ''hidden'' (JBool False) else n1))"

definition upsertFrameArray :: "jsval list \<Rightarrow> jsval \<Rightarrow> jsval list" where
  "upsertFrameArray frames frame0 =
     (let frame = normalizeLiveFrame frame0
      in if isResponseFramePhantom frame then upsertResponseFramePhantom frames frame
         else if isToolFrame frame then upsertToolDisplayFrame frames frame
         else let transitionFrames = removeFramesForLiveTransition frames frame
              in if pget frame ''type'' = JStr ''EndTyping'' then transitionFrames
                 else case find_index (\<lambda>c. pget c ''id'' = pget frame ''id'') transitionFrames of
                        None \<Rightarrow> transitionFrames @ [next_frame None frame]
                      | Some i \<Rightarrow> transitionFrames[i := next_frame (Some (js_or (transitionFrames ! i) (JObj []))) frame])"

definition upsertFrameMessages :: "(string \<Rightarrow> string \<Rightarrow> int) \<Rightarrow> jsval \<Rightarrow> jsval \<Rightarrow> jsval list" where
  "upsertFrameMessages localeCompare messages frames =
     projectFrameMessages localeCompare (JArr
       (foldl (\<lambda>ms frame. if truthy (pget frame ''id'') then upsertFrameArray ms frame else ms) (arr_of messages) (arr_of frames)))"

text \<open>The manager is its list of messages.\<close>

definition hydrate :: "(string \<Rightarrow> string \<Rightarrow> int) \<Rightarrow> jsval \<Rightarrow> jsval list" where
  "hydrate localeCompare frames = projectFrameMessages localeCompare frames"

definition consume :: "(string \<Rightarrow> string \<Rightarrow> int) \<Rightarrow> jsval list \<Rightarrow> jsval \<Rightarrow> jsval list" where
  "consume localeCompare messages frame = upsertFrameMessages localeCompare (JArr messages) (JArr [frame])"

definition consumeAll :: "(string \<Rightarrow> string \<Rightarrow> int) \<Rightarrow> jsval list \<Rightarrow> jsval \<Rightarrow> jsval list" where
  "consumeAll localeCompare messages frames = upsertFrameMessages localeCompare (JArr messages) frames"

section \<open>The incremental count\<close>

text \<open>
  The entries are objects that several maps share and that later frames update, so they live in a list, \<open>ct_store\<close>,
  and the maps hold positions of it.
\<close>

record entry =
  et_id :: jsval
  et_isCall :: bool
  et_toolCallID :: string
  et_hidden :: jsval
  et_deleted :: jsval
  et_phantom :: jsval

record counting =
  ct_store :: "entry list"
  ct_entries :: "(jsval \<times> nat) list"
  ct_callsByID :: "(jsval \<times> nat) list"
  ct_callsByToolCallID :: "(string \<times> nat) list"
  ct_resultsByID :: "(jsval \<times> nat) list"
  ct_resultsByToolCallID :: "(string \<times> nat) list"
  ct_count :: nat

definition new_counting :: counting where
  "new_counting = \<lparr>ct_store = [], ct_entries = [], ct_callsByID = [], ct_callsByToolCallID = [], ct_resultsByID = [],
     ct_resultsByToolCallID = [], ct_count = 0\<rparr>"

definition entry_value :: "entry \<Rightarrow> jsval" where
  "entry_value e = JObj [(''id'', et_id e), (''kind'', JStr (if et_isCall e then ''call'' else ''result'')),
     (''toolCallID'', if et_toolCallID e = [] then Null else JStr (et_toolCallID e)), (''hidden'', et_hidden e),
     (''deleted'', et_deleted e), (''phantom'', et_phantom e)]"

definition createEntry :: "jsval \<Rightarrow> bool \<Rightarrow> entry" where
  "createEntry frame isCall = \<lparr>et_id = pget frame ''id'', et_isCall = isCall, et_toolCallID = nonblank (frame_content frame ''toolCallID''),
     et_hidden = js_nc (pget frame ''hidden'') (JBool False), et_deleted = pget frame ''deleted'', et_phantom = pget frame ''phantom''\<rparr>"

definition addEntry :: "entry \<Rightarrow> counting \<Rightarrow> counting" where
  "addEntry e ct0 =
     (let a = length (ct_store ct0);
          ct = ct0\<lparr>ct_store := ct_store ct0 @ [e], ct_entries := AList.update (et_id e) a (ct_entries ct0)\<rparr>
      in if et_isCall e
         then ct\<lparr>ct_callsByID := AList.update (et_id e) a (ct_callsByID ct),
                 ct_callsByToolCallID := (if et_toolCallID e = [] then ct_callsByToolCallID ct
                                          else AList.update (et_toolCallID e) a (ct_callsByToolCallID ct))\<rparr>
         else ct\<lparr>ct_resultsByID := AList.update (et_id e) a (ct_resultsByID ct),
                 ct_resultsByToolCallID := (if et_toolCallID e = [] then ct_resultsByToolCallID ct
                                            else AList.update (et_toolCallID e) a (ct_resultsByToolCallID ct))\<rparr>)"

text \<open>\<open>if (map.get(k) === entry) map.delete(k)\<close>.\<close>

definition drop_if :: "'k \<Rightarrow> nat \<Rightarrow> ('k \<times> nat) list \<Rightarrow> ('k \<times> nat) list" where
  "drop_if k a m = (if map_of m k = Some a then AList.delete k m else m)"

definition removeEntry :: "nat \<Rightarrow> counting \<Rightarrow> counting" where
  "removeEntry a ct0 =
     (let e = ct_store ct0 ! a; ct = ct0\<lparr>ct_entries := drop_if (et_id e) a (ct_entries ct0)\<rparr>
      in if et_isCall e
         then ct\<lparr>ct_callsByID := drop_if (et_id e) a (ct_callsByID ct),
                 ct_callsByToolCallID := (if et_toolCallID e = [] then ct_callsByToolCallID ct
                                          else drop_if (et_toolCallID e) a (ct_callsByToolCallID ct))\<rparr>
         else ct\<lparr>ct_resultsByID := drop_if (et_id e) a (ct_resultsByID ct),
                 ct_resultsByToolCallID := (if et_toolCallID e = [] then ct_resultsByToolCallID ct
                                            else drop_if (et_toolCallID e) a (ct_resultsByToolCallID ct))\<rparr>)"

definition update_entry :: "nat \<Rightarrow> (entry \<Rightarrow> entry) \<Rightarrow> counting \<Rightarrow> counting" where
  "update_entry a f ct = ct\<lparr>ct_store := (ct_store ct)[a := f (ct_store ct ! a)]\<rparr>"

definition mergeResultVisibility :: "jsval \<Rightarrow> entry \<Rightarrow> entry" where
  "mergeResultVisibility frame e =
     e\<lparr>et_hidden := js_nc (pget frame ''hidden'') (JBool False), et_deleted := js_nc (pget frame ''deleted'') (et_deleted e)\<rparr>"

definition mergeCallVisibility :: "jsval \<Rightarrow> entry \<Rightarrow> entry" where
  "mergeCallVisibility frame e =
     e\<lparr>et_hidden := js_nc (pget frame ''hidden'') (JBool False), et_deleted := js_nc (pget frame ''deleted'') (et_deleted e),
       et_phantom := (if pget frame ''phantom'' \<noteq> Undefined then pget frame ''phantom'' else et_phantom e)\<rparr>"

fun orElse :: "'a option \<Rightarrow> 'a option \<Rightarrow> 'a option" where
  "orElse (Some a) _ = Some a"
| "orElse None b = b"

definition result_target :: "counting \<Rightarrow> jsval \<Rightarrow> nat option" where
  "result_target ct frame =
     (let toolCallID = nonblank (frame_content frame ''toolCallID''); callID = nonblank (frame_content frame ''toolCallFrameID'');
          callFrameID = (if callID \<noteq> [] then callID else nonblank (pget frame ''parentID''))
      in orElse
           (if callFrameID = [] then None
            else orElse (map_of (ct_callsByID ct) (JStr callFrameID)) (map_of (ct_entries ct) (JStr callFrameID)))
           (if toolCallID = [] then None
            else orElse (map_of (ct_callsByToolCallID ct) toolCallID) (map_of (ct_resultsByToolCallID ct) toolCallID)))"

definition count_result :: "counting \<Rightarrow> jsval \<Rightarrow> counting" where
  "count_result ct frame =
     (let own = (case map_of (ct_resultsByID ct) (pget frame ''id'') of
                   Some a \<Rightarrow> update_entry a (mergeResultVisibility frame) ct
                 | None \<Rightarrow> addEntry (createEntry frame False) ct)
      in case result_target ct frame of
           Some a \<Rightarrow> if et_id (ct_store ct ! a) \<noteq> pget frame ''id'' then update_entry a (mergeResultVisibility frame) ct else own
         | None \<Rightarrow> own)"

definition inherit_result :: "entry \<Rightarrow> entry \<Rightarrow> entry" where
  "inherit_result r e = e\<lparr>et_hidden := js_nc (js_nc (et_hidden r) (et_hidden e)) (JBool False), et_deleted := js_nc (et_deleted r) (et_deleted e)\<rparr>"

definition count_call :: "counting \<Rightarrow> jsval \<Rightarrow> counting" where
  "count_call ct frame =
     (let toolCallID = nonblank (frame_content frame ''toolCallID'');
          result = orElse (map_of (ct_resultsByID ct) (pget frame ''id''))
                     (if toolCallID = [] then None else map_of (ct_resultsByToolCallID ct) toolCallID);
          existing = map_of (ct_callsByID ct) (pget frame ''id'');
          own = (case existing of Some a \<Rightarrow> update_entry a (mergeCallVisibility frame) ct
                 | None \<Rightarrow> addEntry (createEntry frame True) ct)
      in case result of
           None \<Rightarrow> own
         | Some r \<Rightarrow>
             if et_id (ct_store ct ! r) = pget frame ''id'' then own
             else (case existing of
                     Some a \<Rightarrow> update_entry a (inherit_result (ct_store ct ! r)) (removeEntry r ct)
                   | None \<Rightarrow> update_entry (length (ct_store ct)) (inherit_result (ct_store ct ! r))
                               (addEntry (createEntry frame True) (removeEntry r ct))))"

definition count_step :: "counting \<Rightarrow> jsval \<Rightarrow> counting" where
  "count_step ct frame =
     (if \<not> isToolFrame frame then (if isVisibleThreadFrame frame then ct\<lparr>ct_count := ct_count ct + 1\<rparr> else ct)
      else if isToolResultFrame frame then count_result ct frame else count_call ct frame)"

definition countMessageFrames :: "(string \<Rightarrow> string \<Rightarrow> int) \<Rightarrow> jsval \<Rightarrow> nat" where
  "countMessageFrames localeCompare frames =
     (let ct = foldl count_step new_counting (sortFrames localeCompare (arr_of frames))
      in ct_count ct + length (filter (\<lambda>(k, a). isVisibleThreadFrame (entry_value (ct_store ct ! a))) (ct_entries ct)))"

definition messageCount :: "(string \<Rightarrow> string \<Rightarrow> int) \<Rightarrow> jsval list \<Rightarrow> nat" where
  "messageCount localeCompare messages = countMessageFrames localeCompare (JArr messages)"

section \<open>The count and the projection\<close>

definition no_locale :: "string \<Rightarrow> string \<Rightarrow> int" where
  "no_locale a b = 0"

definition tool_demo :: "jsval list" where
  "tool_demo =
    [JObj [(''id'', JStr ''c1''), (''type'', JStr ''ToolCall''), (''createdAt'', JNum (Fin 1)),
           (''content'', JObj [(''toolName'', JStr ''ls''), (''toolCallID'', JStr ''t'')])],
     JObj [(''id'', JStr ''r''), (''type'', JStr ''ToolResult''), (''createdAt'', JNum (Fin 2)),
           (''content'', JObj [(''toolName'', JStr ''ls''), (''toolCallID'', JStr ''t'')])],
     JObj [(''id'', JStr ''c2''), (''type'', JStr ''ToolCall''), (''createdAt'', JNum (Fin 3)),
           (''content'', JObj [(''toolName'', JStr ''ls''), (''toolCallID'', JStr ''t'')])]]"

text \<open>
  The incremental count is not the count of the projection: for a call, its result and a second call that
  carries the same tool call id, it counts two messages where the projection shows one.
\<close>

theorem repeated_tool_call_counted_twice:
  "countMessageFrames no_locale (JArr tool_demo) = 2
     \<and> length (filter isVisibleThreadFrame (projectFrameMessages no_locale (JArr tool_demo))) = 1"
  by code_simp

end
