(* ===== verification/SessionPreferences.thy ===== *)
theory SessionPreferences
  imports SessionAncestry
begin

text \<open>
  Session preferences: the schema and the cascade of \<open>src/shared/session-preferences.mjs\<close>, which the
  client runs on loaded records, and the resolver of \<open>src/core/preferences/session-preferences.mjs\<close>, which
  the server runs over a cache and a loader. The walks up the parent links are option-valued loops;
  a lookup or a loader that throws is an \<open>Inl\<close>.
\<close>

section \<open>The schema\<close>

definition OCR_IMAGE_PROXY_PREFERENCE :: string where
  "OCR_IMAGE_PROXY_PREFERENCE = ''ocr.image_proxy''"

definition SESSION_PREFERENCE_DEFAULTS :: jsobj where
  "SESSION_PREFERENCE_DEFAULTS = [(OCR_IMAGE_PROXY_PREFERENCE, JBool True)]"

definition MAX_PREFERENCE_KEY_LENGTH :: nat where
  "MAX_PREFERENCE_KEY_LENGTH = 128"

definition MAX_PREFERENCE_STRING_LENGTH :: nat where
  "MAX_PREFERENCE_STRING_LENGTH = 10000"

definition alnum_char :: "char \<Rightarrow> bool" where
  "alnum_char c = (let n = of_char c :: nat in 65 \<le> n \<and> n \<le> 90 \<or> 97 \<le> n \<and> n \<le> 122 \<or> 48 \<le> n \<and> n \<le> 57)"

definition PREFERENCE_KEY_PATTERN :: "string \<Rightarrow> bool" where
  "PREFERENCE_KEY_PATTERN s =
     (case s of [] \<Rightarrow> False
      | c # cs \<Rightarrow> alnum_char c \<and> list_all (\<lambda>d. alnum_char d \<or> d \<in> set ''._:-'') cs)"

definition RESERVED_PREFERENCE_KEYS :: "string list" where
  "RESERVED_PREFERENCE_KEYS = [''__proto__'', ''prototype'', ''constructor'']"

definition normalizePreferenceKey :: "jsval \<Rightarrow> js_error + string" where
  "normalizePreferenceKey key =
     (case key of
        JStr s \<Rightarrow>
          (let normalized = js_trim s
           in if normalized = [] then Inl (TypeError ''Preference key must be a non-empty string'')
              else if length normalized > MAX_PREFERENCE_KEY_LENGTH
              then Inl (TypeError (''Preference key must be at most '' @ nat_digits MAX_PREFERENCE_KEY_LENGTH @ '' characters''))
              else if normalized \<in> set RESERVED_PREFERENCE_KEYS then Inl (TypeError (''Reserved preference key: '' @ s))
              else if \<not> PREFERENCE_KEY_PATTERN normalized then Inl (TypeError (''Invalid preference key: '' @ s))
              else Inr normalized)
      | _ \<Rightarrow> Inl (TypeError ''Preference key must be a string''))"

definition normalizePreferenceValue :: "jsval \<Rightarrow> js_error + jsval" where
  "normalizePreferenceValue v =
     (case v of
        JBool b \<Rightarrow> Inr v
      | JNum n \<Rightarrow> (if is_finite_num v then Inr v else Inl (TypeError ''Preference number must be finite''))
      | JStr s \<Rightarrow> (if length s > MAX_PREFERENCE_STRING_LENGTH
                   then Inl (TypeError (''Preference string must be at most '' @ nat_digits MAX_PREFERENCE_STRING_LENGTH @ '' characters''))
                   else Inr v)
      | _ \<Rightarrow> Inl (TypeError ''Preference value must be a boolean, number, or string''))"

fun normalize_entries :: "jsobj \<Rightarrow> jsobj \<Rightarrow> js_error + jsobj" where
  "normalize_entries preferences [] = Inr preferences"
| "normalize_entries preferences ((key, v) # entries) =
     and_then (normalizePreferenceKey (JStr key)) (\<lambda>k.
       and_then (normalizePreferenceValue v) (\<lambda>w. normalize_entries (oset preferences k w) entries))"

definition normalizePreferences :: "jsval \<Rightarrow> js_error + jsobj" where
  "normalizePreferences input =
     (if nullish input then Inr []
      else case input of JObj ps \<Rightarrow> normalize_entries [] ps
           | _ \<Rightarrow> Inl (TypeError ''Session preferences must be an object''))"

fun merge_layers :: "jsobj \<Rightarrow> jsval list \<Rightarrow> js_error + jsobj" where
  "merge_layers preferences [] = Inr preferences"
| "merge_layers preferences (layer # layers) =
     and_then (normalizePreferences layer) (\<lambda>n. merge_layers (ospread preferences n) layers)"

definition mergePreferenceLayers :: "jsval \<Rightarrow> jsobj \<Rightarrow> js_error + jsobj" where
  "mergePreferenceLayers layers defaults = merge_layers defaults (arr_of layers)"

definition normalizeSafePreferences :: "jsval \<Rightarrow> jsobj" where
  "normalizeSafePreferences input = (case normalizePreferences input of Inl _ \<Rightarrow> [] | Inr n \<Rightarrow> n)"

definition effectivePreference :: "jsval \<Rightarrow> jsval \<Rightarrow> jsval \<Rightarrow> js_error + jsval" where
  "effectivePreference preferences key fallback =
     and_then (normalizePreferenceKey key) (\<lambda>k.
       Inr (if has_own (props_of preferences) k then oget (props_of preferences) k else fallback))"

section \<open>Resolving over loaded sessions\<close>

datatype sessions_by_id = ByMap "(string \<times> jsval) list" | ByObject jsobj | NoSessions

fun createSessionLookup :: "sessions_by_id \<Rightarrow> string \<Rightarrow> jsval" where
  "createSessionLookup (ByMap m) k = js_or (oget m k) Null"
| "createSessionLookup (ByObject ps) k = js_or (oget ps k) Null"
| "createSessionLookup NoSessions k = Null"

text \<open>\<open>null\<close> is the empty text: the results are only tested and used as ids.\<close>

definition normalizeOptionalSessionID :: "jsval \<Rightarrow> string" where
  "normalizeOptionalSessionID v = trim_or_empty v"

record walked =
  wk_chain :: "jsval list"
  wk_complete :: bool
  wk_missingSessionID :: "string option"
  wk_cycleDetected :: bool

partial_function (option) loaded_loop ::
  "(string \<Rightarrow> jsval) \<Rightarrow> string list \<Rightarrow> jsval list \<Rightarrow> string \<Rightarrow> walked option" where
  "loaded_loop lookup seen chain k =
     (if k = [] then Some \<lparr>wk_chain = chain, wk_complete = True, wk_missingSessionID = None, wk_cycleDetected = False\<rparr>
      else if k \<in> set seen
      then Some \<lparr>wk_chain = chain, wk_complete = False, wk_missingSessionID = None, wk_cycleDetected = True\<rparr>
      else let session = lookup k in
        if \<not> truthy (pget session ''id'')
        then Some \<lparr>wk_chain = chain, wk_complete = False, wk_missingSessionID = Some k, wk_cycleDetected = False\<rparr>
        else loaded_loop lookup (k # seen) (chain @ [session]) (normalizeOptionalSessionID (pget session ''parentSessionID'')))"

record resolved_preferences =
  rp_sessionID :: string
  rp_preferences :: jsobj
  rp_ownPreferences :: jsobj
  rp_chain :: "jsval list"
  rp_complete :: bool
  rp_missingSessionID :: "string option"
  rp_cycleDetected :: bool

definition last_or_undefined :: "jsval list \<Rightarrow> jsval" where
  "last_or_undefined vs = (if vs = [] then Undefined else last vs)"

definition resolvePreferencesFromSessions :: "sessions_by_id \<Rightarrow> jsval \<Rightarrow> jsval \<Rightarrow> (js_error + resolved_preferences) option" where
  "resolvePreferencesFromSessions sessionsByID sessionID options =
     (let defaults = (if truthy (pget options ''defaults'') then props_of (pget options ''defaults'') else SESSION_PREFERENCE_DEFAULTS);
          k = normalizeOptionalSessionID sessionID
      in map_option (\<lambda>w.
           let ordered = rev (wk_chain w)
           in and_then (mergePreferenceLayers (JArr (map (\<lambda>s. pget s ''preferences'') ordered)) defaults) (\<lambda>merged.
                Inr \<lparr>rp_sessionID = k, rp_preferences = merged,
                     rp_ownPreferences = normalizeSafePreferences (pget (last_or_undefined ordered) ''preferences''),
                     rp_chain = map (\<lambda>s. pget s ''id'') ordered, rp_complete = (wk_complete w \<and> wk_chain w \<noteq> []),
                     rp_missingSessionID = wk_missingSessionID w, rp_cycleDetected = wk_cycleDetected w\<rparr>))
         (loaded_loop (createSessionLookup sessionsByID) [] [] k))"

section \<open>Resolving over a cache and a loader\<close>

record preference_sources =
  ps_cache :: "(string \<times> jsval) list option"
  ps_getSession :: "(string \<Rightarrow> js_error + jsval) option"
  ps_loadSession :: "(string \<Rightarrow> js_error + jsval) option"

definition load_session :: "preference_sources \<Rightarrow> string \<Rightarrow> js_error + jsval" where
  "load_session src sessionID =
     and_then (case ps_getSession src of None \<Rightarrow> Inr Null | Some getSession \<Rightarrow> getSession sessionID) (\<lambda>session.
       if \<not> truthy session then (case ps_loadSession src of None \<Rightarrow> Inr session | Some loadSession \<Rightarrow> loadSession sessionID)
       else Inr session)"

definition loadCachedSession :: "preference_sources \<Rightarrow> string \<Rightarrow> js_error + (preference_sources \<times> jsval)" where
  "loadCachedSession src sessionID =
     (case ps_cache src of
        None \<Rightarrow> and_then (load_session src sessionID) (\<lambda>session. Inr (src, js_or session Null))
      | Some cache \<Rightarrow>
          if has_own cache sessionID then Inr (src, oget cache sessionID)
          else and_then (load_session src sessionID) (\<lambda>session.
                 Inr (if truthy session then src\<lparr>ps_cache := Some (AList.update sessionID session cache)\<rparr> else src,
                      js_or session Null)))"

definition storedPreferences :: "jsval \<Rightarrow> jsobj" where
  "storedPreferences session = (case normalizePreferences (pget session ''preferences'') of Inl _ \<Rightarrow> [] | Inr n \<Rightarrow> n)"

partial_function (option) loading_loop ::
  "preference_sources \<Rightarrow> string list \<Rightarrow> jsval list \<Rightarrow> string \<Rightarrow> (js_error + (preference_sources \<times> walked)) option" where
  "loading_loop src seen chain k =
     (if k = [] then Some (Inr (src, \<lparr>wk_chain = chain, wk_complete = True, wk_missingSessionID = None, wk_cycleDetected = False\<rparr>))
      else if k \<in> set seen
      then Some (Inr (src, \<lparr>wk_chain = chain, wk_complete = False, wk_missingSessionID = None, wk_cycleDetected = True\<rparr>))
      else case loadCachedSession src k of
        Inl e \<Rightarrow> Some (Inl e)
      | Inr (src', session) \<Rightarrow>
          if \<not> truthy (pget session ''id'')
          then Some (Inr (src', \<lparr>wk_chain = chain, wk_complete = False, wk_missingSessionID = Some k, wk_cycleDetected = False\<rparr>))
          else loading_loop src' (k # seen) (chain @ [session]) (normalizeOptionalSessionID (pget session ''parentSessionID'')))"

definition resolve_walked :: "string \<Rightarrow> jsobj \<Rightarrow> walked \<Rightarrow> js_error + resolved_preferences" where
  "resolve_walked k defaults w =
     (let ordered = rev (wk_chain w)
      in and_then (mergePreferenceLayers (JArr (map (\<lambda>s. JObj (storedPreferences s)) ordered)) defaults) (\<lambda>merged.
           Inr \<lparr>rp_sessionID = k, rp_preferences = merged, rp_ownPreferences = storedPreferences (last_or_undefined ordered),
                rp_chain = map (\<lambda>s. pget s ''id'') ordered, rp_complete = (wk_complete w \<and> wk_chain w \<noteq> []),
                rp_missingSessionID = wk_missingSessionID w, rp_cycleDetected = wk_cycleDetected w\<rparr>))"

definition resolveEffectivePreferences ::
  "jsval \<Rightarrow> jsval \<Rightarrow> preference_sources \<Rightarrow> (js_error + (preference_sources \<times> resolved_preferences)) option" where
  "resolveEffectivePreferences sessionID defaultsOption src =
     (let defaults = (if truthy defaultsOption then props_of defaultsOption else SESSION_PREFERENCE_DEFAULTS);
          k = normalizeOptionalSessionID sessionID
      in map_option (\<lambda>r. and_then r (\<lambda>(src', w). and_then (resolve_walked k defaults w) (\<lambda>res. Inr (src', res))))
           (loading_loop src [] [] k))"

section \<open>Normal preferences\<close>

definition normal_preferences :: "jsobj \<Rightarrow> bool" where
  "normal_preferences n \<longleftrightarrow> distinct (map fst n) \<and>
     (\<forall>(k, v) \<in> set n. normalizePreferenceKey (JStr k) = Inr k \<and> normalizePreferenceValue v = Inr v)"

lemma normalizePreferenceKey_again:
  "normalizePreferenceKey v = Inr k \<Longrightarrow> normalizePreferenceKey (JStr k) = Inr k"
  by (auto simp: normalizePreferenceKey_def Let_def split: jsval.splits if_splits)

lemma normalizePreferenceValue_same: "normalizePreferenceValue v = Inr w \<Longrightarrow> w = v"
  by (auto simp: normalizePreferenceValue_def split: jsval.splits if_splits)

lemma set_oset: "set (oset ps k v) \<subseteq> insert (k, v) (set ps)"
  by (induction ps) auto

lemma normal_preferences_oset:
  assumes "normal_preferences n" "normalizePreferenceKey (JStr k) = Inr k" "normalizePreferenceValue v = Inr v"
  shows "normal_preferences (oset n k v)"
  using assms set_oset[of k v n] by (fastforce simp: normal_preferences_def distinct_keys_update)

lemma normalize_entries_normal:
  "normal_preferences p \<Longrightarrow> normalize_entries p ps = Inr n \<Longrightarrow> normal_preferences n"
proof (induction ps arbitrary: p)
  case (Cons e ps)
  obtain key v where e: "e = (key, v)" by (cases e)
  with Cons.prems(2) obtain k w where kw: "normalizePreferenceKey (JStr key) = Inr k" "normalizePreferenceValue v = Inr w"
    "normalize_entries (oset p k w) ps = Inr n" by (auto simp: and_then_Inr)
  have "w = v" using normalizePreferenceValue_same kw(2) .
  with kw Cons.prems(1) have "normal_preferences (oset p k w)"
    by (auto intro: normal_preferences_oset normalizePreferenceKey_again)
  with Cons.IH kw(3) show ?case by blast
qed simp

lemma normalizePreferences_normal: "normalizePreferences v = Inr n \<Longrightarrow> normal_preferences n"
proof -
  have "normal_preferences []" by (simp add: normal_preferences_def)
  then show "normalizePreferences v = Inr n \<Longrightarrow> normal_preferences n"
    by (cases v) (auto simp: normalizePreferences_def intro: normalize_entries_normal)
qed

lemma storedPreferences_normal: "normal_preferences (storedPreferences s)"
proof (cases "normalizePreferences (pget s ''preferences'')")
  case (Inr n)
  then show ?thesis using normalizePreferences_normal by (simp add: storedPreferences_def)
qed (simp add: storedPreferences_def normal_preferences_def)

lemma normalize_entries_of_normal:
  "normal_preferences n \<Longrightarrow> \<forall>k \<in> fst ` set n. \<not> has_own p k \<Longrightarrow> normalize_entries p n = Inr (p @ n)"
proof (induction n arbitrary: p)
  case (Cons e n)
  obtain k v where e: "e = (k, v)" by (cases e)
  from Cons.prems e have kv: "normalizePreferenceKey (JStr k) = Inr k" "normalizePreferenceValue v = Inr v"
    "normal_preferences n" "k \<notin> fst ` set n" "\<not> has_own p k"
    by (auto simp: normal_preferences_def image_iff)
  have app: "oset p k v = p @ [(k, v)]"
    using kv(5) by (induction p) (auto simp: has_own_def split: if_splits)
  have "\<forall>k' \<in> fst ` set n. \<not> has_own (p @ [(k, v)]) k'"
    using Cons.prems(2) kv(4) e by (auto simp flip: app)
  with Cons.IH[OF kv(3)] kv(1,2) e app show ?case by simp
qed simp

lemma normalizePreferences_of_normal: "normal_preferences n \<Longrightarrow> normalizePreferences (JObj n) = Inr n"
  using normalize_entries_of_normal[of n "[]"] by (simp add: normalizePreferences_def)

lemma merge_layers_normal:
  "\<forall>n \<in> set ns. normal_preferences n \<Longrightarrow> merge_layers d (map JObj ns) = Inr (foldl ospread d ns)"
  by (induction ns arbitrary: d) (simp_all add: normalizePreferences_of_normal)

lemma oget_layers:
  assumes "\<forall>n \<in> set ns. normal_preferences n"
  shows "oget (foldl ospread d ns) k = (case find (\<lambda>n. has_own n k) (rev ns) of Some n \<Rightarrow> oget n k | None \<Rightarrow> oget d k)"
  using assms
proof (induction ns rule: rev_induct)
  case (snoc n ns)
  then have "distinct (map fst n)" by (simp add: normal_preferences_def)
  with snoc show ?case by (simp add: oget_ospread)
qed simp

lemma find_map_preferences:
  fixes d :: jsval
  shows "(case find (\<lambda>n. has_own n k) (map f xs) of Some n \<Rightarrow> oget n k | None \<Rightarrow> d)
     = (case find (\<lambda>x. has_own (f x) k) xs of Some x \<Rightarrow> oget (f x) k | None \<Rightarrow> d)"
  by (induction xs) auto

lemma resolve_walked_merged:
  "resolve_walked k defaults w = Inr
     \<lparr>rp_sessionID = k, rp_preferences = foldl ospread defaults (map storedPreferences (rev (wk_chain w))),
      rp_ownPreferences = storedPreferences (last_or_undefined (rev (wk_chain w))),
      rp_chain = map (\<lambda>s. pget s ''id'') (rev (wk_chain w)), rp_complete = (wk_complete w \<and> wk_chain w \<noteq> []),
      rp_missingSessionID = wk_missingSessionID w, rp_cycleDetected = wk_cycleDetected w\<rparr>"
  using merge_layers_normal[of "map storedPreferences (rev (wk_chain w))" defaults]
  by (simp add: resolve_walked_def mergePreferenceLayers_def Let_def storedPreferences_normal comp_def)

section \<open>The two resolvers agree\<close>

definition serves :: "preference_sources \<Rightarrow> (string \<Rightarrow> jsval) \<Rightarrow> bool" where
  "serves src lookup \<longleftrightarrow> (\<forall>k. \<exists>s. load_session src k = Inr s \<and> js_or s Null = lookup k)
     \<and> (\<forall>cache k. ps_cache src = Some cache \<longrightarrow> has_own cache k \<longrightarrow> oget cache k = lookup k)"

lemma serves_load:
  assumes "serves src lookup"
  shows "\<exists>src'. loadCachedSession src k = Inr (src', lookup k) \<and> serves src' lookup"
proof -
  from assms obtain s where s: "load_session src k = Inr s" "js_or s Null = lookup k" unfolding serves_def by blast
  have upd: "load_session (src\<lparr>ps_cache := c\<rparr>) k' = load_session src k'" for c k' by (simp add: load_session_def cong: if_cong option.case_cong)
  show ?thesis
  proof (cases "ps_cache src")
    case None
    with s assms show ?thesis by (simp add: loadCachedSession_def)
  next
    case (Some cache)
    show ?thesis
    proof (cases "has_own cache k")
      case True
      with Some assms show ?thesis by (auto simp: loadCachedSession_def serves_def)
    next
      case False
      have "serves (src\<lparr>ps_cache := Some (AList.update k s cache)\<rparr>) lookup" if "truthy s"
        using assms Some s(2) that by (auto simp: serves_def upd)
      with False Some s assms show ?thesis by (simp add: loadCachedSession_def)
    qed
  qed
qed

lemma createSessionLookup_keys: "\<exists>K. finite K \<and> (\<forall>k. truthy (createSessionLookup S k) \<longrightarrow> k \<in> K)"
proof (cases S)
  case (ByMap m)
  have "truthy (createSessionLookup S k) \<longrightarrow> k \<in> fst ` set m" for k
    using ByMap oget_not_own[of m k] by (cases "has_own m k") (auto simp: has_own_keys)
  then show ?thesis by (meson finite_imageI List.finite_set)
next
  case (ByObject m)
  have "truthy (createSessionLookup S k) \<longrightarrow> k \<in> fst ` set m" for k
    using ByObject oget_not_own[of m k] by (cases "has_own m k") (auto simp: has_own_keys)
  then show ?thesis by (meson finite_imageI List.finite_set)
next
  case NoSessions
  then show ?thesis by (intro exI[of _ "{}"]) simp
qed

lemma pget_truthy: "truthy (pget v k) \<Longrightarrow> truthy v"
  by (cases v) auto

lemma loops_agree:
  assumes "finite K" "\<forall>k. truthy (lookup k) \<longrightarrow> k \<in> K"
  shows "serves src lookup \<Longrightarrow> \<exists>w src'. loaded_loop lookup seen chain k = Some w
    \<and> loading_loop src seen chain k = Some (Inr (src', w)) \<and> set (wk_chain w) \<subseteq> set chain \<union> range lookup"
proof (induction "card (K - set seen)" arbitrary: src seen chain k rule: less_induct)
  case less
  show ?case
  proof (cases "k = [] \<or> k \<in> set seen")
    case True
    then show ?thesis by (subst loaded_loop.simps, subst loading_loop.simps) auto
  next
    case new: False
    obtain src' where src': "loadCachedSession src k = Inr (src', lookup k)" "serves src' lookup"
      using serves_load[OF less.prems] by blast
    show ?thesis
    proof (cases "truthy (pget (lookup k) ''id'')")
      case False
      with new src' show ?thesis by (subst loaded_loop.simps, subst loading_loop.simps) auto
    next
      case True
      then have "k \<in> K" using assms(2) pget_truthy by blast
      with new assms(1) have "card (K - set (k # seen)) < card (K - set seen)"
        by (intro psubset_card_mono) auto
      from less.hyps[OF this src'(2), of "chain @ [lookup k]" "normalizeOptionalSessionID (pget (lookup k) ''parentSessionID'')"]
      obtain w s2 where w: "loaded_loop lookup (k # seen) (chain @ [lookup k]) (normalizeOptionalSessionID (pget (lookup k) ''parentSessionID'')) = Some w"
        "loading_loop src' (k # seen) (chain @ [lookup k]) (normalizeOptionalSessionID (pget (lookup k) ''parentSessionID'')) = Some (Inr (s2, w))"
        "set (wk_chain w) \<subseteq> set chain \<union> range lookup" by auto
      from new True w(1) have "loaded_loop lookup seen chain k = Some w" by (subst loaded_loop.simps) simp
      moreover from new True src'(1) w(2) have "loading_loop src seen chain k = Some (Inr (s2, w))"
        by (subst loading_loop.simps) simp
      ultimately show ?thesis using w(3) by blast
    qed
  qed
qed

lemma merge_layers_stored:
  "\<forall>s \<in> set ss. \<exists>n. normalizePreferences (pget s ''preferences'') = Inr n \<Longrightarrow>
   merge_layers d (map (\<lambda>s. pget s ''preferences'') ss) = Inr (foldl ospread d (map storedPreferences ss))"
  by (induction ss arbitrary: d) (auto simp: storedPreferences_def)

section \<open>Properties\<close>

text \<open>
  C22: The server's resolver answers whenever its walk up the parent links ends, whatever is stored as preferences: for
  every key the value of the nearest session of the walk whose valid stored preferences set it, else the default. Only a
  loader that throws can make it throw.
\<close>

theorem nearest_preference_wins:
  assumes "loading_loop src [] [] (normalizeOptionalSessionID sessionID) = Some (Inr (src', w))"
  shows "\<exists>r. resolveEffectivePreferences sessionID (JObj defaults) src = Some (Inr (src', r)) \<and>
    (\<forall>k. oget (rp_preferences r) k =
       (case find (\<lambda>s. has_own (storedPreferences s) k) (wk_chain w) of
          Some s \<Rightarrow> oget (storedPreferences s) k | None \<Rightarrow> oget defaults k))"
proof -
  let ?ns = "map storedPreferences (rev (wk_chain w))"
  have "oget (foldl ospread defaults ?ns) k =
      (case find (\<lambda>s. has_own (storedPreferences s) k) (wk_chain w) of
         Some s \<Rightarrow> oget (storedPreferences s) k | None \<Rightarrow> oget defaults k)" for k
    using oget_layers[of ?ns defaults k] find_map_preferences[where f = storedPreferences and xs = "wk_chain w" and d = "oget defaults k" and k = k]
    by (simp add: storedPreferences_normal rev_map)
  with assms show ?thesis by (simp add: resolveEffectivePreferences_def resolve_walked_merged)
qed

definition demo_sources :: preference_sources where
  "demo_sources = \<lparr>ps_cache = Some [], ps_getSession = None, ps_loadSession = Some (\<lambda>k. Inr (
     if k = ''child'' then JObj [(''id'', JStr ''child''), (''parentSessionID'', JStr ''home''), (''preferences'', JNum (Fin 3))]
     else if k = ''home'' then JObj [(''id'', JStr ''home''), (''preferences'', JObj [(''ocr.image_proxy'', JBool False)])] else Null))\<rparr>"

lemma demo_walk:
  "\<exists>src' w. loading_loop demo_sources [] [] (normalizeOptionalSessionID (JStr ''child'')) = Some (Inr (src', w))
     \<and> map (\<lambda>s. pget s ''id'') (wk_chain w) = [JStr ''child'', JStr ''home'']
     \<and> map storedPreferences (wk_chain w) = [[], [(''ocr.image_proxy'', JBool False)]]"
proof -
  have ids: "normalizeOptionalSessionID (JStr ''child'') = ''child''" "normalizeOptionalSessionID (JStr ''home'') = ''home''"
    "normalizeOptionalSessionID Undefined = []" by code_simp+
  have st: "storedPreferences (JObj [(''id'', JStr ''child''), (''parentSessionID'', JStr ''home''), (''preferences'', JNum (Fin 3))]) = []"
    "storedPreferences (JObj [(''id'', JStr ''home''), (''preferences'', JObj [(''ocr.image_proxy'', JBool False)])]) = [(''ocr.image_proxy'', JBool False)]"
    by code_simp+
  show ?thesis
    by (simp add: ids loading_loop.simps demo_sources_def loadCachedSession_def load_session_def st)
qed

theorem nearest_preference_wins_witness:
  "\<exists>src' r. resolveEffectivePreferences (JStr ''child'') (JObj SESSION_PREFERENCE_DEFAULTS) demo_sources = Some (Inr (src', r))
     \<and> oget (rp_preferences r) ''ocr.image_proxy'' = JBool False"
proof -
  from demo_walk obtain src' w where w: "loading_loop demo_sources [] [] (normalizeOptionalSessionID (JStr ''child'')) = Some (Inr (src', w))"
    "map storedPreferences (wk_chain w) = [[], [(''ocr.image_proxy'', JBool False)]]" by (elim exE conjE)
  from w(2) obtain a b where ch: "wk_chain w = [a, b]" "storedPreferences a = []" "storedPreferences b = [(''ocr.image_proxy'', JBool False)]"
    by auto
  from nearest_preference_wins[OF w(1), of SESSION_PREFERENCE_DEFAULTS] ch show ?thesis by auto
qed

text \<open>
  Server and client resolve the same preferences: when the cache and the loader of the server serve the records the
  client has loaded, and every record stores valid preferences, both resolvers return, neither throws, and the two
  results are equal in every field.
\<close>

theorem client_and_server_preferences_agree:
  assumes "serves src (createSessionLookup sessionsByID)"
    and "\<forall>k. \<exists>n. normalizePreferences (pget (createSessionLookup sessionsByID k) ''preferences'') = Inr n"
  shows "\<exists>src' r. resolvePreferencesFromSessions sessionsByID sessionID options = Some (Inr r)
    \<and> resolveEffectivePreferences sessionID (pget options ''defaults'') src = Some (Inr (src', r))"
proof -
  let ?f = "createSessionLookup sessionsByID"
  obtain K where K: "finite K" "\<forall>k. truthy (?f k) \<longrightarrow> k \<in> K" using createSessionLookup_keys by blast
  from loops_agree[OF K assms(1), of "[]" "[]" "normalizeOptionalSessionID sessionID"]
  obtain w src' where w: "loaded_loop ?f [] [] (normalizeOptionalSessionID sessionID) = Some w"
    "loading_loop src [] [] (normalizeOptionalSessionID sessionID) = Some (Inr (src', w))" "set (wk_chain w) \<subseteq> range ?f" by auto
  have "\<forall>s \<in> set (rev (wk_chain w)). \<exists>n. normalizePreferences (pget s ''preferences'') = Inr n"
    using w(3) assms(2) by auto
  note merged = merge_layers_stored[OF this]
  have "normalizeSafePreferences (pget s ''preferences'') = storedPreferences s" for s
    by (simp add: normalizeSafePreferences_def storedPreferences_def)
  then show ?thesis
    using w(1,2) merged
    by (simp add: resolvePreferencesFromSessions_def resolveEffectivePreferences_def Let_def mergePreferenceLayers_def
        resolve_walked_merged)
qed

theorem client_and_server_preferences_agree_witness:
  "\<exists>src' r. resolvePreferencesFromSessions (ByMap [(''home'', JObj [(''id'', JStr ''home'')])]) (JStr ''home'') Undefined = Some (Inr r)
    \<and> resolveEffectivePreferences (JStr ''home'') Undefined
        \<lparr>ps_cache = Some [], ps_getSession = Some (\<lambda>k. Inr (oget [(''home'', JObj [(''id'', JStr ''home'')])] k)), ps_loadSession = None\<rparr>
      = Some (Inr (src', r))"
proof -
  let ?m = "[(''home'', JObj [(''id'', JStr ''home'')])]"
  let ?src = "\<lparr>ps_cache = Some [], ps_getSession = Some (\<lambda>k. Inr (oget ?m k)), ps_loadSession = None\<rparr>"
  have "serves ?src (createSessionLookup (ByMap ?m))" by (simp add: serves_def load_session_def)
  moreover have "\<forall>k. \<exists>n. normalizePreferences (pget (createSessionLookup (ByMap ?m) k) ''preferences'') = Inr n"
    by (simp add: normalizePreferences_def js_or_def)
  ultimately show ?thesis
    using client_and_server_preferences_agree[of ?src "ByMap ?m" "JStr ''home''" Undefined] by simp
qed

text \<open>
  A corrupt stored preference takes the client's resolver down but not the server's: on the same single session
  whose preferences are a number, the server answers the defaults and the client throws.
\<close>

theorem corrupt_preferences_stop_only_the_client:
  "resolvePreferencesFromSessions (ByMap [(''s'', JObj [(''id'', JStr ''s''), (''preferences'', JNum (Fin 3))])]) (JStr ''s'') Undefined
     = Some (Inl (TypeError ''Session preferences must be an object''))
   \<and> (\<exists>src' r. resolveEffectivePreferences (JStr ''s'') Undefined
        \<lparr>ps_cache = None, ps_getSession = Some (\<lambda>k. Inr (JObj [(''id'', JStr ''s''), (''preferences'', JNum (Fin 3))])), ps_loadSession = None\<rparr>
      = Some (Inr (src', r)) \<and> rp_preferences r = SESSION_PREFERENCE_DEFAULTS)"
proof -
  have ids: "normalizeOptionalSessionID (JStr ''s'') = ''s''" "normalizeOptionalSessionID Undefined = []" by code_simp+
  have bad: "normalizePreferences (JNum (Fin 3)) = Inl (TypeError ''Session preferences must be an object'')"
    by (simp add: normalizePreferences_def)
  have "storedPreferences (JObj [(''id'', JStr ''s''), (''preferences'', JNum (Fin 3))]) = []"
    by (simp add: storedPreferences_def bad)
  then show ?thesis
    by (simp add: resolvePreferencesFromSessions_def resolveEffectivePreferences_def ids loaded_loop.simps loading_loop.simps
        mergePreferenceLayers_def bad loadCachedSession_def load_session_def resolve_walked_merged Let_def ospread_def)
qed

end
