(* ===== verification/DocumentUtils.thy ===== *)
theory DocumentUtils
  imports JSValue
begin

text \<open>
  The helpers every document store shares, \<open>src/core/database/document-utils.mjs\<close>: paths, the selection and
  ordering of descendants, globs and the merge-patch. Strings compare by code units, as \<open><\<close> does in JavaScript.
  The regular expression that \<open>matchSegment\<close> builds is written out as its matcher. \<open>applyMergePatch\<close> is
  read on own properties: an assignment to \<open>__proto__\<close> makes none.
\<close>

section \<open>Paths\<close>

definition normalizePath :: "jsval \<Rightarrow> js_error + string" where
  "normalizePath path =
     (case path of
        JStr s \<Rightarrow> (if s = [] then Inl (TypeError ''Database path must be a non-empty string'')
                   else Inr (CHR ''/'' # rev (dropWhile (\<lambda>c. c = CHR ''/'') (rev (dropWhile (\<lambda>c. c = CHR ''/'') s)))))
      | _ \<Rightarrow> Inl (TypeError ''Database path must be a non-empty string''))"

definition basename :: "string \<Rightarrow> string" where
  "basename key = rev (takeWhile (\<lambda>c. c \<noteq> CHR ''/'') (rev key))"

definition pathBounds :: "string \<Rightarrow> string \<times> string" where
  "pathBounds base = (if base = ''/'' then (''/'', ''0'') else (base @ ''/'', base @ ''0''))"

definition relativePath :: "string \<Rightarrow> string \<Rightarrow> string" where
  "relativePath base key = (if base = ''/'' then drop 1 key else drop (length base + 1) key)"

definition unit_of :: "char \<Rightarrow> nat" where
  "unit_of c = of_char c"

fun str_less :: "string \<Rightarrow> string \<Rightarrow> bool" where
  "str_less s [] = False"
| "str_less [] (d # t) = True"
| "str_less (c # s) (d # t) = (unit_of c < unit_of d \<or> c = d \<and> str_less s t)"

section \<open>Globs\<close>

fun split_on :: "char \<Rightarrow> string \<Rightarrow> string list" where
  "split_on sep [] = [[]]"
| "split_on sep (c # s) = (if c = sep then [] # split_on sep s
     else case split_on sep s of p # ps \<Rightarrow> (c # p) # ps | [] \<Rightarrow> [[c]])"

definition regexp_dot :: "char \<Rightarrow> bool" where
  "regexp_dot c = (unit_of c \<noteq> 10 \<and> unit_of c \<noteq> 13)"

function (sequential) matchSegment :: "string \<Rightarrow> string \<Rightarrow> bool" where
  "matchSegment v [] = (v = [])"
| "matchSegment v (p # ps) =
     (if p = CHR ''*'' then matchSegment v ps \<or> (case v of [] \<Rightarrow> False | c # cs \<Rightarrow> regexp_dot c \<and> matchSegment cs (p # ps))
      else case v of [] \<Rightarrow> False
           | c # cs \<Rightarrow> (if p = CHR ''?'' then regexp_dot c else c = p) \<and> matchSegment cs ps)"
  by pat_completeness auto
termination by (relation "measure (\<lambda>(v, ps). length v + length ps)") auto

text \<open>\<open>paths\<close> and \<open>patterns\<close> are the segments from the two indices on; a skip past the end of the path leaves none.\<close>

function (sequential) matchSegments :: "string list \<Rightarrow> string list \<Rightarrow> bool" and skip_segments :: "string list \<Rightarrow> string list \<Rightarrow> bool" where
  "matchSegments paths [] = (paths = [])"
| "matchSegments paths (pattern # patterns) =
     (if pattern = ''**'' then patterns = [] \<or> skip_segments paths patterns
      else case paths of [] \<Rightarrow> False | p # ps \<Rightarrow> matchSegment p pattern \<and> matchSegments ps patterns)"
| "skip_segments paths patterns =
     (matchSegments paths patterns \<or> (case paths of [] \<Rightarrow> False | p # ps \<Rightarrow> skip_segments ps patterns))"
  by pat_completeness auto
termination
  by (relation "measure (\<lambda>x. case x of Inl (ps, qs) \<Rightarrow> 2 * (length ps + length qs) | Inr (ps, qs) \<Rightarrow> 2 * (length ps + length qs) + 1)") auto

definition matchGlob :: "string \<Rightarrow> string \<Rightarrow> bool" where
  "matchGlob relative pattern = matchSegments (split_on (CHR ''/'') relative) (split_on (CHR ''/'') pattern)"

section \<open>Selecting documents\<close>

definition compareByBasenameThenPath :: "string \<Rightarrow> string \<Rightarrow> int" where
  "compareByBasenameThenPath left right =
     (if str_less (basename left) (basename right) then -1 else if str_less (basename right) (basename left) then 1
      else if str_less left right then -1 else if str_less right left then 1 else 0)"

definition path_in_scope :: "string \<Rightarrow> bool \<Rightarrow> string \<Rightarrow> bool" where
  "path_in_scope base recursive key =
     (let boundary = (if base = ''/'' then ''/'' else base @ ''/'')
      in \<not> (key = base \<or> \<not> starts_with key boundary) \<and> \<not> (\<not> recursive \<and> CHR ''/'' \<in> set (relativePath base key)))"

definition selectDocumentPaths :: "string list \<Rightarrow> jsval \<Rightarrow> jsval \<Rightarrow> js_error + string list" where
  "selectDocumentPaths paths prefix options =
     and_then (normalizePath prefix) (\<lambda>base.
       let candidates = filter (path_in_scope base (pget options ''recursive'' = JBool True)) paths
       in case js_or (pget options ''glob'') (JStr ''**'') of
            JStr glob \<Rightarrow> Inr (sort_by (\<lambda>a b. compareByBasenameThenPath a b \<le> 0)
                             (filter (\<lambda>key. matchGlob (relativePath base key) glob) candidates))
          | _ \<Rightarrow> if candidates = [] then Inr [] else Inl (TypeError ''pattern.split is not a function''))"

fun nat_option :: "jsval \<Rightarrow> nat option" where
  "nat_option (JNum (Fin q)) = (if num_is_integer (Fin q) \<and> 0 \<le> q then Some (nat \<lfloor>q\<rfloor>) else None)"
| "nat_option _ = None"

definition paginate :: "'a list \<Rightarrow> jsval \<Rightarrow> 'a list" where
  "paginate matches options =
     (let offset = (case nat_option (pget options ''offset'') of Some n \<Rightarrow> n | None \<Rightarrow> 0)
      in case nat_option (pget options ''limit'') of None \<Rightarrow> drop offset matches | Some limit \<Rightarrow> take limit (drop offset matches))"

section \<open>The merge-patch\<close>

fun applyMergePatch :: "jsval \<Rightarrow> jsval \<Rightarrow> jsval" and patch_entries :: "jsobj \<Rightarrow> jsobj \<Rightarrow> jsobj" where
  "applyMergePatch target (JObj patch) = JObj (patch_entries (props_of target) patch)"
| "applyMergePatch target patch = patch"
| "patch_entries output [] = output"
| "patch_entries output ((key, v) # patch) =
     patch_entries
       (if v = Null then odel output key else if key = ''__proto__'' then output
        else oset output key (applyMergePatch (oget output key) v)) patch"

section \<open>Bounds of the descendants\<close>

lemma unit_of_inj: "unit_of c = unit_of d \<longleftrightarrow> c = d"
  by (simp add: unit_of_def)

lemma str_less_irrefl [simp]: "\<not> str_less s s"
  by (induction s) auto

lemma str_less_append [simp]: "str_less (p @ s) (p @ t) = str_less s t"
  by (induction p) auto

lemma slash_bounds: "\<not> str_less key ''/'' \<and> str_less key ''0'' \<longleftrightarrow> (\<exists>rest. key = CHR ''/'' # rest)"
proof (cases key)
  case (Cons c rest)
  have "unit_of (CHR ''/'') = 47" "unit_of (CHR ''0'') = 48" by (simp_all add: unit_of_def)
  with Cons unit_of_inj[of c "CHR ''/''"] show ?thesis by auto
qed simp

text \<open>A string between two strings with a common prefix has it.\<close>

lemma str_between_prefix:
  "\<not> str_less key (p @ s) \<Longrightarrow> str_less key (p @ t) \<Longrightarrow> \<exists>rest. key = p @ rest \<and> \<not> str_less rest s \<and> str_less rest t"
proof (induction p arbitrary: key)
  case (Cons c p)
  then show ?case by (cases key) auto
qed simp

text \<open>
  The half-open bounds that the indexed scans use select exactly the descendants that the scan of the keys selects: a key lies
  between the two bounds, by code units, exactly when it starts with the base and a slash.
\<close>

theorem bounds_are_descendants:
  "\<not> str_less key (fst (pathBounds base)) \<and> str_less key (snd (pathBounds base))
     \<longleftrightarrow> starts_with key (if base = ''/'' then ''/'' else base @ ''/'')"
proof (cases "base = ''/''")
  case True
  then show ?thesis using slash_bounds[of key] by (cases key) (auto simp: pathBounds_def starts_with_def)
next
  case False
  have "starts_with key (base @ ''/'') \<longleftrightarrow> (\<exists>rest. key = base @ CHR ''/'' # rest)"
    by (auto simp: starts_with_def) (metis append_take_drop_id append_Cons append_assoc self_append_conv2)
  moreover have "\<not> str_less key (base @ ''/'') \<and> str_less key (base @ ''0'') \<longleftrightarrow> (\<exists>rest. key = base @ CHR ''/'' # rest)"
    using str_between_prefix[of key base "''/''" "''0''"] slash_bounds by (auto simp: unit_of_def)
  ultimately show ?thesis using False by (simp add: pathBounds_def)
qed

end
