(* ===== verification/DocumentRanges.thy ===== *)
theory DocumentRanges
  imports DocumentUtils
begin

text \<open>
  Ranged reads of a stored document, \<open>src/core/database/document-ranges.mjs\<close>, with the errors of
  \<open>document-errors.mjs\<close> and \<open>database-error.mjs\<close> it raises. A stored body is the list of its UTF-16 code
  units; the walk by \<open>codePointAt\<close> is the list of its code points, and the byte ranges go through the UTF-8
  encoder and the lossy decoder of \<open>Buffer\<close>, both written out (a lone surrogate encodes as U+FFFD, and each
  maximal ill-formed run of bytes decodes to one). Arguments of the model: the reader of stored
  documents, the SHA-256 hash, \<open>JSON.parse\<close> and \<open>JSON.stringify\<close>. Starts and ends are whole numbers, as the
  range checks make them.
\<close>

section \<open>Text\<close>

type_synonym utext = "nat list"

definition high_surrogate :: "nat \<Rightarrow> bool" where
  "high_surrogate u = (55296 \<le> u \<and> u < 56320)"

definition low_surrogate :: "nat \<Rightarrow> bool" where
  "low_surrogate u = (56320 \<le> u \<and> u < 57344)"

fun code_points :: "utext \<Rightarrow> nat list" where
  "code_points (u # v # us) =
     (if high_surrogate u \<and> low_surrogate v then (65536 + (u - 55296) * 1024 + (v - 56320)) # code_points us
      else u # code_points (v # us))"
| "code_points us = us"

definition from_code_point :: "nat \<Rightarrow> utext" where
  "from_code_point c = (if c < 65536 then [c] else [55296 + (c - 65536) div 1024, 56320 + (c - 65536) mod 1024])"

definition text_of :: "nat list \<Rightarrow> utext" where
  "text_of cs = concat (map from_code_point cs)"

definition utf8_char :: "nat \<Rightarrow> nat list" where
  "utf8_char c =
     (if c < 128 then [c]
      else if c < 2048 then [192 + c div 64, 128 + c mod 64]
      else if high_surrogate c \<or> low_surrogate c then [239, 191, 189]
      else if c < 65536 then [224 + c div 4096, 128 + c div 64 mod 64, 128 + c mod 64]
      else [240 + c div 262144, 128 + c div 4096 mod 64, 128 + c div 64 mod 64, 128 + c mod 64])"

definition utf8_chars :: "nat list \<Rightarrow> nat list" where
  "utf8_chars cs = concat (map utf8_char cs)"

definition utf8_encode :: "utext \<Rightarrow> nat list" where
  "utf8_encode t = utf8_chars (code_points t)"

text \<open>The decoder holds the number of bytes still needed, the bits so far and the bounds of the next byte.\<close>

type_synonym decoder = "nat \<times> nat \<times> nat \<times> nat"

definition idle :: decoder where
  "idle = (0, 0, 128, 191)"

definition dec_start :: "nat \<Rightarrow> nat list \<times> decoder" where
  "dec_start b =
     (if b < 128 then ([b], idle)
      else if 194 \<le> b \<and> b \<le> 223 then ([], (1, b - 192, 128, 191))
      else if 224 \<le> b \<and> b \<le> 239 then ([], (2, b - 224, if b = 224 then 160 else 128, if b = 237 then 159 else 191))
      else if 240 \<le> b \<and> b \<le> 244 then ([], (3, b - 240, if b = 240 then 144 else 128, if b = 244 then 143 else 191))
      else ([65533], idle))"

fun utf8_decode_from :: "decoder \<Rightarrow> nat list \<Rightarrow> nat list" where
  "utf8_decode_from (n, cp, lower, upper) [] = (if n = 0 then [] else [65533])"
| "utf8_decode_from (n, cp, lower, upper) (b # bs) =
     (if n = 0 then fst (dec_start b) @ utf8_decode_from (snd (dec_start b)) bs
      else if lower \<le> b \<and> b \<le> upper
      then (if n = 1 then (cp * 64 + (b - 128)) # utf8_decode_from idle bs
            else utf8_decode_from (n - 1, cp * 64 + (b - 128), 128, 191) bs)
      else 65533 # fst (dec_start b) @ utf8_decode_from (snd (dec_start b)) bs)"

definition utf8_toString :: "nat list \<Rightarrow> utext" where
  "utf8_toString bs = text_of (utf8_decode_from idle bs)"

definition byteLength :: "utext \<Rightarrow> nat" where
  "byteLength t = length (utf8_encode t)"

section \<open>Errors\<close>

record database_error =
  de_message :: string
  de_status :: nat
  de_code :: "string option"

datatype range_error = DatabaseError database_error | LanguageError js_error

definition invalidRange :: "string \<Rightarrow> range_error" where
  "invalidRange message = DatabaseError \<lparr>de_message = message, de_status = 400, de_code = Some ''invalid_range''\<rparr>"

definition staleDocument :: "string \<Rightarrow> range_error" where
  "staleDocument message = DatabaseError \<lparr>de_message = message, de_status = 409, de_code = Some ''conflict''\<rparr>"

definition notFound :: "string \<Rightarrow> range_error" where
  "notFound path = DatabaseError \<lparr>de_message = ''Database document not found: '' @ path, de_status = 404, de_code = Some ''not_found''\<rparr>"

definition statusMessage :: "nat \<Rightarrow> string" where
  "statusMessage status =
     (if status = 404 then ''HTTP 404 Not Found'' else if status = 401 then ''HTTP 401 Unauthorized''
      else if status = 403 then ''HTTP 403 Forbidden'' else if status = 409 then ''HTTP 409 Conflict''
      else if status = 500 then ''HTTP 500 Internal Server Error'' else ''HTTP '' @ nat_digits status @ '' Error'')"

definition codeForStatus :: "nat \<Rightarrow> string option" where
  "codeForStatus status =
     (if status = 404 then Some ''not_found'' else if status = 401 then Some ''unauthorized''
      else if status = 403 then Some ''forbidden'' else if status = 409 then Some ''conflict'' else None)"

definition forStatus :: "nat \<Rightarrow> string \<Rightarrow> range_error" where
  "forStatus status message =
     DatabaseError \<lparr>de_message = (if message = [] then statusMessage status else message), de_status = status,
       de_code = codeForStatus status\<rparr>"

text \<open>\<open>clampInteger\<close> with a numeric default, as every caller passes one.\<close>

definition clampInteger :: "jsval \<Rightarrow> rat \<Rightarrow> int \<Rightarrow> int \<Rightarrow> int" where
  "clampInteger v defaultValue low high =
     min high (max low (js_trunc (case js_Number v of Fin q \<Rightarrow> q | _ \<Rightarrow> defaultValue)))"

fun error_code :: "range_error \<Rightarrow> string option" where
  "error_code (DatabaseError e) = de_code e"
| "error_code (LanguageError e) = None"

fun error_message :: "range_error \<Rightarrow> string" where
  "error_message (DatabaseError e) = de_message e"
| "error_message (LanguageError (TypeError m)) = m"
| "error_message (LanguageError (GenericError m)) = m"

section \<open>Range specifications\<close>

definition DEFAULT_RANGE_MAX_BYTES :: nat where
  "DEFAULT_RANGE_MAX_BYTES = 4 * 1024 * 1024"

definition ABSOLUTE_RANGE_MAX_BYTES :: nat where
  "ABSOLUTE_RANGE_MAX_BYTES = 16 * 1024 * 1024"

definition normalizeMaxBytes :: "jsval \<Rightarrow> range_error + nat" where
  "normalizeMaxBytes v =
     (if nullish v then Inr DEFAULT_RANGE_MAX_BYTES
      else let bad = Inl (invalidRange (''Invalid max_bytes: must be between 1 and '' @ nat_digits ABSOLUTE_RANGE_MAX_BYTES))
           in case js_Number v of
                Fin q \<Rightarrow> (if \<not> num_is_integer (Fin q) \<or> q < 1 \<or> q > of_nat ABSOLUTE_RANGE_MAX_BYTES then bad else Inr (nat \<lfloor>q\<rfloor>))
              | _ \<Rightarrow> bad)"

definition normalizeNonNegativeInteger :: "jsval \<Rightarrow> string \<Rightarrow> range_error + nat" where
  "normalizeNonNegativeInteger v fieldName =
     (let bad = Inl (invalidRange (fieldName @ '' must be a non-negative integer''))
      in case js_Number v of
           Fin q \<Rightarrow> (if \<not> num_is_integer (Fin q) \<or> q < 0 then bad else Inr (nat \<lfloor>q\<rfloor>))
         | _ \<Rightarrow> bad)"

datatype range_spec =
    LinesRange "nat option" "nat option"
  | CharsRange "nat option" "nat option"
  | BytesRange "nat option" "nat option"
  | PointerRange string

definition optional_bound :: "jsval \<Rightarrow> string \<Rightarrow> range_error + nat option" where
  "optional_bound v fieldName =
     (if nullish v then Inr None else and_then (normalizeNonNegativeInteger v fieldName) (\<lambda>n. Inr (Some n)))"

definition range_mode :: "jsval \<Rightarrow> string" where
  "range_mode spec =
     (let mode = js_trim (js_String (js_or (js_or (pget spec ''mode'') (pget spec ''type'')) (JStr [])))
      in if mode = ''line'' then ''lines'' else if mode = ''char'' then ''chars''
         else if mode = ''byte'' then ''bytes'' else if mode = ''jsonPointer'' then ''json_pointer'' else mode)"

definition normalizeRangeSpec :: "jsval \<Rightarrow> range_error + range_spec" where
  "normalizeRangeSpec item =
     (let spec = (if is_obj (pget item ''range'') \<or> is_arr (pget item ''range'') then pget item ''range'' else item);
          mode = range_mode spec;
          bounds = (\<lambda>make. and_then (optional_bound (pget spec ''start'') ''start'') (\<lambda>s.
                             and_then (optional_bound (pget spec ''end'') ''end'') (\<lambda>e. Inr (make s e))))
      in if mode = ''json_pointer''
         then (case js_nc (js_nc (pget spec ''pointer'') (pget spec ''json_pointer'')) (pget spec ''jsonPointer'') of
                 JStr p \<Rightarrow> (if p = [] then Inl (invalidRange ''json_pointer range requires pointer'') else Inr (PointerRange p))
               | _ \<Rightarrow> Inl (invalidRange ''json_pointer range requires pointer''))
         else if mode = ''lines'' then bounds LinesRange
         else if mode = ''chars'' then bounds CharsRange
         else if mode = ''bytes'' then bounds BytesRange
         else Inl (invalidRange ''range mode must be lines, chars, bytes, or json_pointer''))"

section \<open>Extraction\<close>

record extraction =
  ex_mode :: string
  ex_content :: utext
  ex_truncated :: bool
  ex_start :: "nat option"
  ex_end :: "nat option"
  ex_pointer :: "string option"

definition pushLimited :: "utext \<Rightarrow> utext \<Rightarrow> nat \<Rightarrow> bool" where
  "pushLimited out character limit = (byteLength out + byteLength character \<le> limit)"

fun past :: "nat option \<Rightarrow> nat \<Rightarrow> bool" where
  "past None n = False"
| "past (Some e) n = (n > e)"

text \<open>One loop over the characters: \<open>held\<close> and \<open>heldSelected\<close> are the pending CR of the source.\<close>

fun lines_loop :: "nat \<Rightarrow> nat \<Rightarrow> nat option \<Rightarrow> utext \<Rightarrow> nat \<Rightarrow> bool \<Rightarrow> bool \<Rightarrow> nat list \<Rightarrow> utext \<times> bool" where
  "lines_loop limit start end out line held heldSelected [] = (out, False)"
| "lines_loop limit start end out line held heldSelected (c # cs) =
     (if held \<and> c = 10
      then (if heldSelected \<and> \<not> pushLimited out [c] limit then (out, True)
            else if past end (line + 1) then (out, False)
            else lines_loop limit start end out (line + 1) False heldSelected cs)
      else let line' = (if held then line + 1 else line)
           in if held \<and> past end line' then (out, False)
              else let selected = (start \<le> line' \<and> \<not> past end line'); out' = (if selected then out @ from_code_point c else out)
                   in if selected \<and> \<not> pushLimited out (from_code_point c) limit then (out, True)
                      else if c = 13 then lines_loop limit start end out' line' True selected cs
                      else if c = 10
                      then (if past end (line' + 1) then (out', False)
                            else lines_loop limit start end out' (line' + 1) False heldSelected cs)
                      else lines_loop limit start end out' line' False heldSelected cs)"

definition bad_order :: "nat \<Rightarrow> nat option \<Rightarrow> bool" where
  "bad_order start end = (case end of None \<Rightarrow> False | Some e \<Rightarrow> e < start)"

definition extractLines :: "utext \<Rightarrow> nat \<Rightarrow> nat option \<Rightarrow> nat \<Rightarrow> range_error + extraction" where
  "extractLines t start end limit =
     (if start < 1 then Inl (invalidRange ''Line ranges are 1-based; start must be at least 1'')
      else if bad_order start end then Inl (invalidRange ''Range end must be greater than or equal to start'')
      else let (out, truncated) = lines_loop limit start end [] 1 False False (code_points t)
           in Inr \<lparr>ex_mode = ''lines'', ex_content = out, ex_truncated = truncated, ex_start = Some start, ex_end = end, ex_pointer = None\<rparr>)"

fun chars_loop :: "nat \<Rightarrow> nat \<Rightarrow> nat option \<Rightarrow> utext \<Rightarrow> nat \<Rightarrow> nat list \<Rightarrow> utext \<times> bool" where
  "chars_loop limit start end out current [] = (out, False)"
| "chars_loop limit start end out current (c # cs) =
     (if (case end of None \<Rightarrow> False | Some e \<Rightarrow> e \<le> current) then (out, False)
      else if start \<le> current
      then (if \<not> pushLimited out (from_code_point c) limit then (out, True)
            else chars_loop limit start end (out @ from_code_point c) (current + 1) cs)
      else chars_loop limit start end out (current + 1) cs)"

definition extractChars :: "utext \<Rightarrow> nat \<Rightarrow> nat option \<Rightarrow> nat \<Rightarrow> range_error + extraction" where
  "extractChars t start end limit =
     (if bad_order start end then Inl (invalidRange ''Range end must be greater than or equal to start'')
      else let (out, truncated) = chars_loop limit start end [] 0 (code_points t)
           in Inr \<lparr>ex_mode = ''chars'', ex_content = out, ex_truncated = truncated, ex_start = Some start, ex_end = end, ex_pointer = None\<rparr>)"

definition extractBytes :: "utext \<Rightarrow> nat \<Rightarrow> nat option \<Rightarrow> nat \<Rightarrow> range_error + extraction" where
  "extractBytes t start end limit =
     (if bad_order start end then Inl (invalidRange ''Range end must be greater than or equal to start'')
      else let buffer = utf8_encode t; clampedStart = min start (length buffer);
               end0 = (case end of None \<Rightarrow> length buffer | Some e \<Rightarrow> min e (length buffer));
               clampedEnd = (if end0 < clampedStart then clampedStart else end0);
               slice = drop clampedStart (take clampedEnd buffer)
           in Inr \<lparr>ex_mode = ''bytes'', ex_content = utf8_toString (if length slice > limit then take limit slice else slice),
                   ex_truncated = (length slice > limit), ex_start = Some start, ex_end = end, ex_pointer = None\<rparr>)"

text \<open>\<open>(buffer[end] & 0xc0) === 0x80\<close>: the two high bits of the byte are 10.\<close>

definition continuation_byte :: "nat \<Rightarrow> bool" where
  "continuation_byte b = (b div 64 = 2)"

fun utf8_boundary :: "nat list \<Rightarrow> nat \<Rightarrow> nat" where
  "utf8_boundary buffer 0 = 0"
| "utf8_boundary buffer (Suc n) = (if continuation_byte (buffer ! Suc n) then utf8_boundary buffer n else Suc n)"

definition truncateUTF8 :: "utext \<Rightarrow> nat \<Rightarrow> utext" where
  "truncateUTF8 t maxBytes =
     (let buffer = utf8_encode t
      in if length buffer \<le> maxBytes then t else utf8_toString (take (utf8_boundary buffer maxBytes) buffer))"

section \<open>JSON pointers\<close>

fun unescape_slash :: "string \<Rightarrow> string" where
  "unescape_slash (c # d # s) = (if c = CHR ''~'' \<and> d = CHR ''1'' then CHR ''/'' # unescape_slash s else c # unescape_slash (d # s))"
| "unescape_slash s = s"

fun unescape_tilde :: "string \<Rightarrow> string" where
  "unescape_tilde (c # d # s) = (if c = CHR ''~'' \<and> d = CHR ''0'' then CHR ''~'' # unescape_tilde s else c # unescape_tilde (d # s))"
| "unescape_tilde s = s"

definition unescape_segment :: "string \<Rightarrow> string" where
  "unescape_segment segment = unescape_tilde (unescape_slash segment)"

definition array_index :: "string \<Rightarrow> nat option" where
  "array_index key =
     (if key = ''0'' \<or> (key \<noteq> [] \<and> hd key \<noteq> CHR ''0'' \<and> list_all is_dec_digit key) then Some (digits_val 10 key) else None)"

definition pointer_step :: "jsval \<Rightarrow> string \<Rightarrow> jsval" where
  "pointer_step current key =
     (case current of
        JArr vs \<Rightarrow> (case array_index key of None \<Rightarrow> Undefined | Some i \<Rightarrow> if i < length vs then vs ! i else Undefined)
      | JObj ps \<Rightarrow> (if has_own ps key then oget ps key else Undefined)
      | _ \<Rightarrow> Undefined)"

fun pointer_walk :: "jsval \<Rightarrow> string list \<Rightarrow> jsval" where
  "pointer_walk current [] = current"
| "pointer_walk current (segment # segments) =
     (let nxt = pointer_step current (unescape_segment segment)
      in if nxt = Undefined then Undefined else pointer_walk nxt segments)"

definition resolveJSONPointer :: "jsval \<Rightarrow> string \<Rightarrow> jsval" where
  "resolveJSONPointer v pointer =
     (case pointer of [] \<Rightarrow> v
      | c # rest \<Rightarrow> if c \<noteq> CHR ''/'' then Undefined else pointer_walk v (split_on (CHR ''/'') rest))"

record json_library =
  js_parse :: "utext \<Rightarrow> jsval option"
  js_stringify :: "jsval \<Rightarrow> utext"

definition extractJSONPointer :: "json_library \<Rightarrow> utext \<Rightarrow> string \<Rightarrow> nat \<Rightarrow> range_error + extraction" where
  "extractJSONPointer json t pointer limit =
     (if pointer = [] then Inl (invalidRange ''json_pointer range requires pointer'')
      else case js_parse json t of
        None \<Rightarrow> Inl (invalidRange ''Stored file is not valid JSON'')
      | Some v \<Rightarrow>
          (let selected = resolveJSONPointer v pointer
           in if selected = Undefined then Inl (invalidRange (''JSON pointer not found: '' @ pointer))
              else let raw = (case selected of JStr s \<Rightarrow> map unit_of s | _ \<Rightarrow> js_stringify json selected)
                   in Inr \<lparr>ex_mode = ''json_pointer'', ex_content = (if byteLength raw > limit then truncateUTF8 raw limit else raw),
                           ex_truncated = (byteLength raw > limit), ex_start = None, ex_end = None, ex_pointer = Some pointer\<rparr>))"

fun or_default :: "nat option \<Rightarrow> nat \<Rightarrow> nat" where
  "or_default None d = d"
| "or_default (Some n) d = n"

fun extract_spec :: "json_library \<Rightarrow> utext \<Rightarrow> range_spec \<Rightarrow> nat \<Rightarrow> range_error + extraction" where
  "extract_spec json t (LinesRange s e) limit = extractLines t (or_default s 1) e limit"
| "extract_spec json t (CharsRange s e) limit = extractChars t (or_default s 0) e limit"
| "extract_spec json t (BytesRange s e) limit = extractBytes t (or_default s 0) e limit"
| "extract_spec json t (PointerRange p) limit = extractJSONPointer json t p limit"

definition extractRange :: "json_library \<Rightarrow> utext \<Rightarrow> range_spec \<Rightarrow> jsval \<Rightarrow> range_error + extraction" where
  "extractRange json t spec maxBytes = and_then (normalizeMaxBytes maxBytes) (extract_spec json t spec)"

section \<open>Fetching\<close>

record document_row =
  dr_body :: utext
  dr_raw :: bool
  dr_updated_at :: jsval

record fetched =
  ft_id :: jsval
  ft_path :: string
  ft_name :: string
  ft_size :: nat
  ft_updated_at :: jsnum
  ft_content_hash :: string
  ft_content_type :: string
  ft_range :: extraction
  ft_source_size :: nat

record range_failure =
  rf_id :: jsval
  rf_path :: "string option"
  rf_status :: string
  rf_message :: string

record document_store =
  ds_readDocument :: "string \<Rightarrow> range_error + document_row option"
  ds_contentHash :: "utext \<Rightarrow> string"
  ds_json :: json_library

text \<open>\<open>Number(a) !== b\<close>: \<open>NaN\<close> differs from itself.\<close>

definition num_differs :: "jsnum \<Rightarrow> jsnum \<Rightarrow> bool" where
  "num_differs a b = (a = NaN \<or> a \<noteq> b)"

fun language_error :: "js_error + 'a \<Rightarrow> range_error + 'a" where
  "language_error (Inl e) = Inl (LanguageError e)"
| "language_error (Inr a) = Inr a"

definition fetch_row :: "document_store \<Rightarrow> jsval \<Rightarrow> jsval \<Rightarrow> string \<Rightarrow> document_row \<Rightarrow> range_error + fetched" where
  "fetch_row ds item defaultMaxBytes path row =
     (let body = dr_body row; hash = ds_contentHash ds body; updatedAt = js_Number (dr_updated_at row)
      in if \<not> nullish (pget item ''if_content_hash'') \<and> js_String (pget item ''if_content_hash'') \<noteq> hash
         then Inl (staleDocument ''File content hash changed'')
         else if \<not> nullish (pget item ''if_updated_at'') \<and> num_differs (js_Number (pget item ''if_updated_at'')) updatedAt
         then Inl (staleDocument ''File updated_at changed'')
         else and_then (normalizeRangeSpec item) (\<lambda>spec.
                and_then (extractRange (ds_json ds) body spec
                    (js_nc (js_nc (pget item ''max_bytes'') (pget item ''maxBytes'')) defaultMaxBytes)) (\<lambda>ex.
                  Inr \<lparr>ft_id = js_nc (pget item ''id'') Null, ft_path = path, ft_name = basename path, ft_size = byteLength body,
                       ft_updated_at = updatedAt, ft_content_hash = hash,
                       ft_content_type = (if dr_raw row then ''text/plain'' else ''application/json''), ft_range = ex,
                       ft_source_size = byteLength body\<rparr>)))"

definition fetchOneRange :: "document_store \<Rightarrow> jsval \<Rightarrow> jsval \<Rightarrow> range_error + fetched" where
  "fetchOneRange ds item defaultMaxBytes =
     (if \<not> is_obj item then Inl (invalidRange ''getRanges() items must be objects'')
      else case pget item ''path'' of
        JStr p \<Rightarrow>
          (if p = [] then Inl (invalidRange ''getRanges() item.path must be a non-empty string'')
           else and_then (language_error (normalizePath (JStr p))) (\<lambda>path.
                and_then (ds_readDocument ds path) (\<lambda>found.
                  case found of None \<Rightarrow> Inl (notFound path) | Some row \<Rightarrow> fetch_row ds item defaultMaxBytes path row)))
      | _ \<Rightarrow> Inl (invalidRange ''getRanges() item.path must be a non-empty string''))"

definition rangeErrorItem :: "jsval \<Rightarrow> range_error \<Rightarrow> range_error + range_failure" where
  "rangeErrorItem item error =
     and_then (if is_str (pget item ''path'') then map_sum id Some (language_error (normalizePath (pget item ''path''))) else Inr None) (\<lambda>rawPath.
       Inr \<lparr>rf_id = js_nc (pget item ''id'') Null, rf_path = rawPath,
            rf_status = (if error_code error = Some ''not_found'' then ''not_found''
                         else if error_code error = Some ''conflict'' then ''stale'' else ''invalid''),
            rf_message = error_message error\<rparr>)"

fun fetch_items :: "document_store \<Rightarrow> bool \<Rightarrow> jsval \<Rightarrow> (fetched + range_failure) list \<Rightarrow> bool \<Rightarrow> jsval list
    \<Rightarrow> range_error + ((fetched + range_failure) list \<times> bool)" where
  "fetch_items ds continueOnError dflt results hasErrors [] = Inr (results, hasErrors)"
| "fetch_items ds continueOnError dflt results hasErrors (item # items) =
     (case fetchOneRange ds item dflt of
        Inr r \<Rightarrow> fetch_items ds continueOnError dflt (results @ [Inl r]) hasErrors items
      | Inl e \<Rightarrow> (if \<not> continueOnError then Inl e
                  else and_then (rangeErrorItem item e) (\<lambda>f. fetch_items ds continueOnError dflt (results @ [Inr f]) True items)))"

definition fetchDocumentRanges :: "document_store \<Rightarrow> jsval \<Rightarrow> jsval \<Rightarrow> range_error + ((fetched + range_failure) list \<times> bool)" where
  "fetchDocumentRanges ds items options =
     (case items of
        JArr xs \<Rightarrow> fetch_items ds
          (pget options ''continueOnError'' = JBool True \<or> pget options ''continue_on_error'' = JBool True)
          (js_nc (pget options ''maxBytes'') (pget options ''max_bytes'')) [] False xs
      | _ \<Rightarrow> Inl (LanguageError (TypeError ''getRanges() items must be an array'')))"

section \<open>Encoding and decoding\<close>

definition scalar :: "nat \<Rightarrow> bool" where
  "scalar c = (c < 1114112 \<and> \<not> high_surrogate c \<and> \<not> low_surrogate c)"

lemma text_of_simps [simp]:
  "text_of [] = []" "text_of (c # cs) = from_code_point c @ text_of cs" "text_of (cs @ ds) = text_of cs @ text_of ds"
  by (simp_all add: text_of_def)

lemma utf8_chars_simps [simp]:
  "utf8_chars [] = []" "utf8_chars (c # cs) = utf8_char c @ utf8_chars cs" "utf8_chars (cs @ ds) = utf8_chars cs @ utf8_chars ds"
  by (simp_all add: utf8_chars_def)

lemma code_points_skip: "\<not> high_surrogate u \<Longrightarrow> code_points (u # us) = u # code_points us"
  by (cases us) auto

lemma code_points_text_of [simp]: "list_all scalar cs \<Longrightarrow> code_points (text_of cs) = cs"
proof (induction cs)
  case (Cons c cs)
  then have IH: "code_points (text_of cs) = cs" and sc: "scalar c" by simp_all
  show ?case
  proof (cases "c < 65536")
    case True
    with IH sc show ?thesis by (simp add: from_code_point_def code_points_skip scalar_def)
  next
    case False
    define d where "d = c - 65536"
    from False sc have c: "c = 65536 + d" and d: "d < 1048576" by (auto simp: d_def scalar_def)
    have "d div 1024 < 1024" "d mod 1024 < 1024" using d by auto
    then have "high_surrogate (55296 + d div 1024)" "low_surrogate (56320 + d mod 1024)"
      by (auto simp: high_surrogate_def low_surrogate_def)
    moreover have "d div 1024 * 1024 + d mod 1024 = d" by simp
    ultimately show ?thesis using c IH by (simp add: from_code_point_def)
  qed
qed simp

lemma byteLength_text_of [simp]: "list_all scalar cs \<Longrightarrow> byteLength (text_of cs) = length (utf8_chars cs)"
  by (simp add: byteLength_def utf8_encode_def)

lemma decode_two:
  assumes "128 \<le> c" "c < 2048"
  shows "utf8_decode_from idle ([192 + c div 64, 128 + c mod 64] @ bs) = c # utf8_decode_from idle bs"
proof -
  have "2 \<le> c div 64" "c div 64 < 32" "c mod 64 < 64" using assms by auto
  then show ?thesis by (simp add: idle_def dec_start_def)
qed

lemma digits_64:
  fixes c :: nat
  shows "c = c div 4096 * 4096 + c div 64 mod 64 * 64 + c mod 64"
    and "c = c div 262144 * 262144 + c div 4096 mod 64 * 4096 + c div 64 mod 64 * 64 + c mod 64"
proof -
  have d: "c div 64 div 64 = c div 4096" "c div 4096 div 64 = c div 262144" by (simp_all flip: div_mult2_eq)
  have "c = c div 64 * 64 + c mod 64" "c div 64 = c div 4096 * 64 + c div 64 mod 64"
    "c div 4096 = c div 262144 * 64 + c div 4096 mod 64"
    using div_mult_mod_eq[of "c div 64" 64] div_mult_mod_eq[of "c div 4096" 64] unfolding d by simp_all
  then show "c = c div 4096 * 4096 + c div 64 mod 64 * 64 + c mod 64"
    "c = c div 262144 * 262144 + c div 4096 mod 64 * 4096 + c div 64 mod 64 * 64 + c mod 64" by linarith+
qed

lemma decode_three:
  assumes "2048 \<le> c" "c < 65536" "\<not> high_surrogate c" "\<not> low_surrogate c"
  shows "utf8_decode_from idle ([224 + c div 4096, 128 + c div 64 mod 64, 128 + c mod 64] @ bs) = c # utf8_decode_from idle bs"
proof -
  define x y z where xyz: "x = c div 4096" "y = c div 64 mod 64" "z = c mod 64"
  have c: "c = x * 4096 + y * 64 + z" using digits_64(1)[of c] unfolding xyz .
  have b: "x < 16" "y < 64" "z < 64" using assms(2) less_mult_imp_div_less[of c 16 4096] unfolding xyz by simp_all
  have "x = 0 \<Longrightarrow> 32 \<le> y" "x = 13 \<Longrightarrow> y < 32"
    using assms b unfolding c high_surrogate_def low_surrogate_def by auto
  then have "utf8_decode_from idle ([224 + x, 128 + y, 128 + z] @ bs) = (x * 4096 + y * 64 + z) # utf8_decode_from idle bs"
    using b by (auto simp: idle_def dec_start_def)
  then show ?thesis unfolding c[symmetric] unfolding xyz .
qed

lemma decode_four:
  assumes "65536 \<le> c" "c < 1114112"
  shows "utf8_decode_from idle ([240 + c div 262144, 128 + c div 4096 mod 64, 128 + c div 64 mod 64, 128 + c mod 64] @ bs)
    = c # utf8_decode_from idle bs"
proof -
  define w x y z where wxyz: "w = c div 262144" "x = c div 4096 mod 64" "y = c div 64 mod 64" "z = c mod 64"
  have c: "c = w * 262144 + x * 4096 + y * 64 + z" using digits_64(2)[of c] unfolding wxyz .
  have b: "w < 5" "x < 64" "y < 64" "z < 64"
    using assms(2) less_mult_imp_div_less[of c 5 262144] unfolding wxyz by simp_all
  have "w = 0 \<Longrightarrow> 16 \<le> x" "w = 4 \<Longrightarrow> x < 16" using assms b unfolding c by auto
  then have "utf8_decode_from idle ([240 + w, 128 + x, 128 + y, 128 + z] @ bs)
      = (w * 262144 + x * 4096 + y * 64 + z) # utf8_decode_from idle bs"
    using b by (auto simp: idle_def dec_start_def)
  then show ?thesis unfolding c[symmetric] unfolding wxyz .
qed

lemma decode_char: "scalar c \<Longrightarrow> utf8_decode_from idle (utf8_char c @ bs) = c # utf8_decode_from idle bs"
  using decode_two[of c bs] decode_three[of c bs] decode_four[of c bs]
  by (auto simp: utf8_char_def scalar_def) (simp_all add: idle_def dec_start_def)

lemma decode_chars: "list_all scalar cs \<Longrightarrow> utf8_decode_from idle (utf8_chars cs) = cs"
  by (induction cs) (simp_all add: decode_char, simp add: idle_def)

lemma toString_chars: "list_all scalar cs \<Longrightarrow> utf8_toString (utf8_chars cs) = text_of cs"
  by (simp add: utf8_toString_def decode_chars)

section \<open>The longest prefix that fits\<close>

fun fitting :: "nat \<Rightarrow> nat list \<Rightarrow> nat list" where
  "fitting limit [] = []"
| "fitting limit (c # cs) = (if length (utf8_char c) \<le> limit then c # fitting (limit - length (utf8_char c)) cs else [])"

lemma fitting_prefix: "\<exists>rest. cs = fitting limit cs @ rest"
  by (induction limit cs rule: fitting.induct) auto

lemma fitting_scalar: "list_all scalar cs \<Longrightarrow> list_all scalar (fitting limit cs)"
  by (metis fitting_prefix list_all_append)

lemma fitting_bound: "length (utf8_chars (fitting limit cs)) \<le> limit"
  by (induction limit cs rule: fitting.induct) auto

lemma fitting_all: "length (utf8_chars cs) \<le> limit \<Longrightarrow> fitting limit cs = cs"
  by (induction limit cs rule: fitting.induct) auto

lemma chars_loop_fitting:
  assumes "list_all scalar cs" "list_all scalar os" "length (utf8_chars os) \<le> limit"
  shows "chars_loop limit start end (text_of os) current cs =
    (let wanted = drop (start - current) (case end of None \<Rightarrow> cs | Some e \<Rightarrow> take (e - current) cs);
         fit = fitting (limit - length (utf8_chars os)) wanted
     in (text_of (os @ fit), fit \<noteq> wanted))"
  using assms
proof (induction cs arbitrary: os current)
  case (Cons c cs)
  have sc: "scalar c" "list_all scalar cs" using Cons.prems by simp_all
  have push: "pushLimited (text_of os) (from_code_point c) limit \<longleftrightarrow> length (utf8_chars os) + length (utf8_char c) \<le> limit"
    using Cons.prems(2) sc byteLength_text_of[of "[c]"] by (simp add: pushLimited_def)
  show ?case
  proof (cases "(case end of None \<Rightarrow> False | Some e \<Rightarrow> e \<le> current)")
    case True
    then show ?thesis by (auto split: option.splits)
  next
    case False
    then have w: "(case end of None \<Rightarrow> c # cs | Some e \<Rightarrow> take (e - current) (c # cs))
        = c # (case end of None \<Rightarrow> cs | Some e \<Rightarrow> take (e - (current + 1)) cs)"
      by (auto split: option.splits simp: take_Cons')
    show ?thesis
    proof (cases "start \<le> current")
      case True
      then have d: "start - current = 0" "start - (current + 1) = 0" by simp_all
      have IH: "list_all scalar (os @ [c]) \<Longrightarrow> length (utf8_chars (os @ [c])) \<le> limit
          \<Longrightarrow> length (utf8_char c) \<le> limit - length (utf8_chars os) \<Longrightarrow> ?thesis"
        using Cons.IH[OF sc(2), of "os @ [c]" "current + 1"] True False push unfolding w d by (simp add: Let_def diff_diff_left)
      show ?thesis
      proof (cases "length (utf8_chars os) + length (utf8_char c) \<le> limit")
        case True
        then show ?thesis using IH Cons.prems(2) sc by simp
      next
        case no: False
        then have "\<not> length (utf8_char c) \<le> limit - length (utf8_chars os)" using Cons.prems(3) by arith
        with no True False push show ?thesis unfolding w d by simp
      qed
    next
      case before: False
      then have "start - current = Suc (start - (current + 1))" by simp
      with before False Cons.IH[OF sc(2) Cons.prems(2,3), of "current + 1"] show ?thesis unfolding w by simp
    qed
  qed
qed (simp add: Let_def split: option.splits)

section \<open>Truncation at a character boundary\<close>

lemma utf8_char_bytes:
  "scalar c \<Longrightarrow> \<exists>b bs. utf8_char c = b # bs \<and> \<not> continuation_byte b \<and> list_all continuation_byte bs"
proof -
  assume sc: "scalar c"
  have "c < 64 * 2 \<Longrightarrow> c div 64 \<noteq> 2" "x < 64 \<Longrightarrow> (128 + x) div 64 = 2" "64 \<le> x \<Longrightarrow> (128 + x) div 64 \<noteq> 2" for x :: nat by auto
  then show ?thesis using sc
    by (auto simp: utf8_char_def continuation_byte_def scalar_def)
qed

lemma boundary_inside:
  "list_all continuation_byte bs \<Longrightarrow> m \<le> length bs \<Longrightarrow> utf8_boundary (b # bs @ rest) m = 0"
  by (induction m) (auto simp: list_all_length nth_append)

lemma boundary_append:
  assumes "b # bs \<noteq> []" "\<not> continuation_byte b" "\<And>x. as \<noteq> []"
  shows "utf8_boundary (as @ b # bs) (length as + m) = length as + utf8_boundary (b # bs) m"
proof (induction m)
  case 0
  obtain n where "length as = Suc n" using assms(3) by (cases as) auto
  then show ?case using assms(2) by (metis add_0_right nth_append_length utf8_boundary.simps)
next
  case (Suc m)
  have "(as @ b # bs) ! (length as + Suc m) = (b # bs) ! Suc m" by (simp add: nth_append)
  with Suc show ?case by simp
qed

lemma boundary_fitting:
  "list_all scalar cs \<Longrightarrow> m < length (utf8_chars cs) \<Longrightarrow> utf8_boundary (utf8_chars cs) m = length (utf8_chars (fitting m cs))"
proof (induction cs arbitrary: m)
  case (Cons c cs)
  obtain b bs where u: "utf8_char c = b # bs" "list_all continuation_byte bs"
    using utf8_char_bytes[of c] Cons.prems(1) by auto
  show ?case
  proof (cases "length (utf8_char c) \<le> m")
    case False
    with u have "m \<le> length bs" by simp
    from boundary_inside[OF u(2) this] False u(1) show ?thesis by simp
  next
    case True
    define n where "n = m - length (utf8_char c)"
    with True Cons.prems(2) have m: "m = length (utf8_char c) + n" and n: "n < length (utf8_chars cs)" by auto
    from n obtain d ds where cs: "cs = d # ds" by (cases cs) auto
    obtain b' bs' where v: "utf8_char d = b' # bs'" "\<not> continuation_byte b'"
      using utf8_char_bytes[of d] Cons.prems(1) cs by auto
    have "utf8_boundary (utf8_char c @ utf8_chars cs) m = length (utf8_char c) + utf8_boundary (utf8_chars cs) n"
      using boundary_append[of b' "bs' @ utf8_chars ds" "utf8_char c" n] v u(1) cs by (simp add: m)
    with Cons.IH[OF _ n] Cons.prems(1) True show ?thesis by (simp add: n_def)
  qed
qed simp

section \<open>Lines\<close>

text \<open>The lines of a text with the CR or LF that ends each; the last one may be empty.\<close>

fun lines_of :: "nat list \<Rightarrow> nat list list" where
  "lines_of [] = [[]]"
| "lines_of (c # cs) = (if c = 10 \<or> c = 13 then [c] # lines_of cs
     else case lines_of cs of l # ls \<Rightarrow> (c # l) # ls | [] \<Rightarrow> [[c]])"

definition line_wanted :: "nat \<Rightarrow> nat option \<Rightarrow> nat \<Rightarrow> bool" where
  "line_wanted start end line = (start \<le> line \<and> \<not> past end line)"

fun wanted_chars :: "nat \<Rightarrow> nat option \<Rightarrow> nat \<Rightarrow> nat list \<Rightarrow> nat list" where
  "wanted_chars start end line [] = []"
| "wanted_chars start end line (c # cs) =
     (if line_wanted start end line then [c] else []) @ wanted_chars start end (if c = 10 \<or> c = 13 then line + 1 else line) cs"

fun wanted_lines :: "nat \<Rightarrow> nat option \<Rightarrow> nat \<Rightarrow> nat list list \<Rightarrow> nat list" where
  "wanted_lines start end line [] = []"
| "wanted_lines start end line (l # ls) = (if line_wanted start end line then l else []) @ wanted_lines start end (line + 1) ls"

lemma lines_of_not_Nil: "lines_of cs \<noteq> []"
  by (induction cs) (auto split: list.splits)

lemma wanted_chars_lines: "wanted_chars start end line cs = wanted_lines start end line (lines_of cs)"
proof (induction cs arbitrary: line)
  case (Cons c cs)
  obtain l ls where "lines_of cs = l # ls" using lines_of_not_Nil by (cases "lines_of cs") auto
  with Cons show ?case by simp
qed simp

lemma wanted_lines_slice:
  "wanted_lines start end line ls = concat (drop (start - line) (case end of None \<Rightarrow> ls | Some e \<Rightarrow> take (e + 1 - line) ls))"
proof (induction ls arbitrary: line)
  case (Cons l ls)
  then show ?case
    by (cases "end"; cases "start \<le> line") (auto simp: line_wanted_def take_Cons' drop_Cons' Suc_diff_le not_le)
qed (simp split: option.splits)

lemma wanted_chars_past: "past end line \<Longrightarrow> wanted_chars start end line cs = []"
proof (induction cs arbitrary: line)
  case (Cons c cs)
  then have "past end (line + 1)" by (cases "end") auto
  with Cons show ?case by (simp add: line_wanted_def)
qed simp

fun no_crlf :: "bool \<Rightarrow> nat list \<Rightarrow> bool" where
  "no_crlf held [] = True"
| "no_crlf held (c # cs) = (\<not> (held \<and> c = 10) \<and> no_crlf (c = 13) cs)"

text \<open>One character joins the output or does not fit.\<close>

lemma fitting_step:
  assumes "scalar c" "list_all scalar os" "length (utf8_chars os) \<le> limit"
  shows "pushLimited (text_of os) (from_code_point c) limit \<longleftrightarrow> length (utf8_char c) \<le> limit - length (utf8_chars os)"
    and "\<not> pushLimited (text_of os) (from_code_point c) limit \<Longrightarrow> fitting (limit - length (utf8_chars os)) (c # ds) = []"
    and "pushLimited (text_of os) (from_code_point c) limit \<Longrightarrow>
      fitting (limit - length (utf8_chars os)) (c # ds) = c # fitting (limit - length (utf8_chars (os @ [c]))) ds
      \<and> list_all scalar (os @ [c]) \<and> length (utf8_chars (os @ [c])) \<le> limit"
  using assms byteLength_text_of[of "[c]"] by (auto simp: pushLimited_def)

lemma lines_loop_fitting:
  assumes "list_all scalar cs" "list_all scalar os" "length (utf8_chars os) \<le> limit" "no_crlf held cs"
  shows "lines_loop limit start end (text_of os) line held hs cs =
    (let wanted = wanted_chars start end (if held then line + 1 else line) cs; fit = fitting (limit - length (utf8_chars os)) wanted
     in (text_of (os @ fit), fit \<noteq> wanted))"
  using assms
proof (induction cs arbitrary: os line held hs)
  case (Cons c cs)
  define L where "L = (if held then line + 1 else line)"
  define L' where "L' = (if c = 10 \<or> c = 13 then L + 1 else L)"
  have sc: "scalar c" "list_all scalar cs" "\<not> (held \<and> c = 10)" "no_crlf (c = 13) cs" using Cons.prems by simp_all
  show ?case
  proof (cases "held \<and> past end L")
    case True
    then have h: "held" "past end (Suc line)" by (auto simp: L_def)
    from wanted_chars_past[OF h(2)] have "wanted_chars start end (Suc line) (c # cs) = []" .
    with h sc(3) show ?thesis by (simp del: wanted_chars.simps)
  next
    case go: False
    have rec: "(if c = 13 then lines_loop limit start end (text_of os') L True sel cs
        else if c = 10 then (if past end (L + 1) then (text_of os', False) else lines_loop limit start end (text_of os') (L + 1) False hs cs)
        else lines_loop limit start end (text_of os') L False hs cs)
      = (let wanted = wanted_chars start end L' cs; fit = fitting (limit - length (utf8_chars os')) wanted
         in (text_of (os' @ fit), fit \<noteq> wanted))"
      if "list_all scalar os'" "length (utf8_chars os') \<le> limit" for os' sel
    proof -
      note IH = Cons.IH[OF sc(2) that]
      show ?thesis
        using IH[of True L sel] IH[of False "L + 1" hs] IH[of False L hs] sc(4) wanted_chars_past[of "end" "L + 1" start cs]
        by (auto simp: L'_def)
    qed
    have unfolded: "lines_loop limit start end (text_of os) line held hs (c # cs) =
      (let selected = line_wanted start end L; out' = (if selected then text_of os @ from_code_point c else text_of os)
       in if selected \<and> \<not> pushLimited (text_of os) (from_code_point c) limit then (text_of os, True)
          else if c = 13 then lines_loop limit start end out' L True selected cs
          else if c = 10 then (if past end (L + 1) then (out', False) else lines_loop limit start end out' (L + 1) False hs cs)
          else lines_loop limit start end out' L False hs cs)"
      using sc(3) go by (auto simp: L_def line_wanted_def Let_def)
    note step = fitting_step[OF sc(1) Cons.prems(2,3)]
    show ?thesis
    proof (cases "line_wanted start end L")
      case False
      with rec[OF Cons.prems(2,3), of False] show ?thesis unfolding unfolded by (simp add: L_def L'_def)
    next
      case sel: True
      then have w: "wanted_chars start end L (c # cs) = c # wanted_chars start end L' cs" by (simp add: L'_def)
      show ?thesis
      proof (cases "pushLimited (text_of os) (from_code_point c) limit")
        case False
        with sel step(2)[OF False] show ?thesis unfolding unfolded L_def[symmetric] w by (simp del: fitting.simps)
      next
        case True
        have os': "list_all scalar (os @ [c])" "length (utf8_chars (os @ [c])) \<le> limit" using step(3)[OF True] by auto
        have t: "text_of (os @ [c]) = text_of os @ from_code_point c" by simp
        from sel True step(3)[OF True, of "wanted_chars start end L' cs"] rec[OF os', of True, unfolded t]
        show ?thesis unfolding unfolded L_def[symmetric] w by (simp add: Let_def del: fitting.simps split del: if_split cong: if_cong)
      qed
    qed
  qed
qed simp

section \<open>Pointers\<close>

fun escape_segment :: "string \<Rightarrow> string" where
  "escape_segment [] = []"
| "escape_segment (c # s) = (if c = CHR ''~'' then ''~0'' else if c = CHR ''/'' then ''~1'' else [c]) @ escape_segment s"

definition pointer_of :: "string list \<Rightarrow> string" where
  "pointer_of keys = concat (map (\<lambda>k. CHR ''/'' # escape_segment k) keys)"

fun escape_tildes :: "string \<Rightarrow> string" where
  "escape_tildes [] = []"
| "escape_tildes (c # s) = (if c = CHR ''~'' then ''~0'' else [c]) @ escape_tildes s"

lemma unescape_slash_plain: "c \<noteq> CHR ''~'' \<Longrightarrow> unescape_slash (c # s) = c # unescape_slash s"
  by (cases s) auto

lemma unescape_tilde_plain: "c \<noteq> CHR ''~'' \<Longrightarrow> unescape_tilde (c # s) = c # unescape_tilde s"
  by (cases s) auto

lemma unescape_escape: "unescape_segment (escape_segment s) = s"
proof -
  have "unescape_slash (escape_segment s) = escape_tildes s"
    by (induction s) (auto simp: unescape_slash_plain)
  moreover have "unescape_tilde (escape_tildes s) = s"
    by (induction s) (auto simp: unescape_tilde_plain)
  ultimately show ?thesis by (simp add: unescape_segment_def)
qed

lemma escape_no_slash: "CHR ''/'' \<notin> set (escape_segment s)"
  by (induction s) auto

lemma split_on_append: "sep \<notin> set a \<Longrightarrow> split_on sep (a @ sep # s) = a # split_on sep s"
  by (induction a) auto

lemma split_on_whole: "sep \<notin> set a \<Longrightarrow> split_on sep a = [a]"
  by (induction a) auto

lemma split_pointer: "split_on (CHR ''/'') (escape_segment k @ pointer_of ks) = escape_segment k # map escape_segment ks"
proof (induction ks arbitrary: k)
  case (Cons k' ks)
  then show ?case by (simp add: pointer_of_def split_on_append escape_no_slash)
qed (simp add: pointer_of_def split_on_whole escape_no_slash)

lemma pointer_step_Undefined [simp]: "pointer_step Undefined k = Undefined"
  by (simp add: pointer_step_def)

lemma pointer_walk_steps: "pointer_walk v (map escape_segment ks) = foldl pointer_step v ks"
proof (induction ks arbitrary: v)
  case (Cons k ks)
  have "foldl pointer_step Undefined xs = Undefined" for xs by (induction xs) auto
  with Cons show ?case by (simp add: unescape_escape Let_def)
qed simp

section \<open>Batches\<close>

lemma rangeErrorItem_fails: "(\<exists>e'. rangeErrorItem item e = Inl e') \<longleftrightarrow> pget item ''path'' = JStr []"
  by (cases "pget item ''path''") (auto simp: rangeErrorItem_def normalizePath_def)

lemma fetchOneRange_empty_path: "pget item ''path'' = JStr [] \<Longrightarrow> \<exists>e. fetchOneRange ds item dflt = Inl e"
  by (auto simp: fetchOneRange_def)

lemma fetch_items_answers:
  "case fetch_items ds True dflt results hasErrors items of
     Inl e \<Rightarrow> \<not> list_all (\<lambda>item. pget item ''path'' \<noteq> JStr []) items
   | Inr (rs, failed) \<Rightarrow> length rs = length results + length items \<and> list_all (\<lambda>item. pget item ''path'' \<noteq> JStr []) items"
proof (induction items arbitrary: results hasErrors)
  case (Cons item items)
  show ?case
  proof (cases "fetchOneRange ds item dflt")
    case (Inr r)
    then have "pget item ''path'' \<noteq> JStr []" using fetchOneRange_empty_path[of item ds dflt] by auto
    with Inr Cons.IH[of "results @ [Inl r]" hasErrors] show ?thesis by (simp split: sum.splits prod.splits)
  next
    case (Inl e)
    show ?thesis
    proof (cases "rangeErrorItem item e")
      case (Inl e')
      then have "pget item ''path'' = JStr []" using rangeErrorItem_fails by blast
      with \<open>fetchOneRange ds item dflt = Inl e\<close> Inl show ?thesis by simp
    next
      case (Inr f)
      then have "pget item ''path'' \<noteq> JStr []" using rangeErrorItem_fails[of item e] by auto
      with \<open>fetchOneRange ds item dflt = Inl e\<close> Inr Cons.IH[of "results @ [Inr f]" True] show ?thesis
        by (simp split: sum.splits prod.splits)
    qed
  qed
qed simp

section \<open>Properties\<close>

text \<open>
  C23: A range of characters is exact: on a well-formed document it returns the characters from \<open>start\<close> up to \<open>end\<close>,
  cut to the longest prefix whose UTF-8 encoding fits in the limit, and reports truncation exactly when something was cut.
\<close>

theorem char_range_is_longest_fitting_slice:
  assumes "list_all scalar cs" "\<not> bad_order start end"
  shows "\<exists>ex. extractChars (text_of cs) start end limit = Inr ex \<and>
    (let wanted = drop start (case end of None \<Rightarrow> cs | Some e \<Rightarrow> take e cs); fit = fitting limit wanted
     in ex_content ex = text_of fit \<and> (ex_truncated ex \<longleftrightarrow> fit \<noteq> wanted) \<and> byteLength (ex_content ex) \<le> limit)"
proof -
  have sc: "list_all scalar (drop start (case end of None \<Rightarrow> cs | Some e \<Rightarrow> take e cs))"
    using assms(1) by (auto simp: list_all_iff split: option.splits dest: in_set_dropD in_set_takeD)
  with chars_loop_fitting[OF assms(1), of "[]" limit start "end" 0] assms show ?thesis
    by (cases "end") (simp_all add: extractChars_def Let_def fitting_scalar fitting_bound)
qed

theorem char_range_is_longest_fitting_slice_witness:
  "\<exists>ex. extractChars (text_of [104, 233, 128512]) 1 (Some 3) 5 = Inr ex \<and> ex_content ex = [233] \<and> ex_truncated ex"
proof -
  have "list_all scalar [104, 233, 128512]" "\<not> bad_order 1 (Some 3)"
    by (simp_all add: scalar_def high_surrogate_def low_surrogate_def bad_order_def)
  from char_range_is_longest_fitting_slice[OF this, of 5] show ?thesis
    by (auto simp: utf8_char_def high_surrogate_def low_surrogate_def from_code_point_def Let_def)
qed

text \<open>
  A range of lines is exact on a well-formed document without CRLF pairs: it returns the lines from \<open>start\<close> through
  \<open>end\<close> with their terminators, cut to the longest prefix of characters that fits in the limit, and reports truncation
  exactly when something was cut.
\<close>

theorem line_range_is_exact:
  assumes "list_all scalar cs" "no_crlf False cs" "1 \<le> start" "\<not> bad_order start end"
  shows "\<exists>ex. extractLines (text_of cs) start end limit = Inr ex \<and>
    (let wanted = concat (drop (start - 1) (case end of None \<Rightarrow> lines_of cs | Some e \<Rightarrow> take e (lines_of cs)));
         fit = fitting limit wanted
     in ex_content ex = text_of fit \<and> (ex_truncated ex \<longleftrightarrow> fit \<noteq> wanted))"
proof -
  let ?wanted = "concat (drop (start - 1) (case end of None \<Rightarrow> lines_of cs | Some e \<Rightarrow> take e (lines_of cs)))"
  have w: "wanted_chars start end 1 cs = ?wanted"
    by (cases "end") (simp_all add: wanted_chars_lines wanted_lines_slice)
  have "lines_loop limit start end [] 1 False False cs = (text_of (fitting limit ?wanted), fitting limit ?wanted \<noteq> ?wanted)"
    using lines_loop_fitting[OF assms(1) _ _ assms(2), of "[]" limit start "end" 1 False] unfolding w[symmetric] by (simp add: Let_def)
  with assms show ?thesis by (simp add: extractLines_def Let_def)
qed

theorem line_range_is_exact_witness:
  "\<exists>ex. extractLines (text_of [97, 10, 98, 13, 99]) 2 (Some 2) 100 = Inr ex \<and> ex_content ex = [98, 13] \<and> \<not> ex_truncated ex"
proof -
  have "list_all scalar [97, 10, 98, 13, 99]" "no_crlf False [97, 10, 98, 13, 99]" "(1::nat) \<le> 2" "\<not> bad_order 2 (Some 2)"
    by (simp_all add: scalar_def high_surrogate_def low_surrogate_def bad_order_def)
  from line_range_is_exact[OF this, of 100] show ?thesis
    by (auto simp: utf8_char_def from_code_point_def Let_def)
qed

text \<open>
  With CRLF line ends the extractor loses the LF of every pair it selects although it reports no truncation: the whole
  of a two-line document comes back one character short.
\<close>

lemma crlf_loses_its_linefeed:
  "extractLines (text_of [97, 13, 10, 98]) 1 None 100 = Inr \<lparr>ex_mode = ''lines'', ex_content = text_of [97, 13, 98],
     ex_truncated = False, ex_start = Some 1, ex_end = None, ex_pointer = None\<rparr>"
  by (simp add: extractLines_def bad_order_def from_code_point_def high_surrogate_def pushLimited_def byteLength_def
      utf8_encode_def utf8_char_def)

text \<open>
  The truncation of a selected value respects characters: \<open>truncateUTF8\<close> of a well-formed text is the longest prefix of whole
  characters whose encoding fits in the limit, so decoding the cut bytes never makes a replacement character.
\<close>

theorem truncation_keeps_whole_characters:
  assumes "list_all scalar cs"
  shows "truncateUTF8 (text_of cs) limit = text_of (fitting limit cs) \<and> byteLength (truncateUTF8 (text_of cs) limit) \<le> limit"
proof -
  have enc: "utf8_encode (text_of cs) = utf8_chars cs" using assms by (simp add: utf8_encode_def)
  have "truncateUTF8 (text_of cs) limit = text_of (fitting limit cs)"
  proof (cases "length (utf8_chars cs) \<le> limit")
    case True
    then show ?thesis by (simp add: truncateUTF8_def enc fitting_all)
  next
    case False
    obtain rest where "cs = fitting limit cs @ rest" using fitting_prefix by blast
    then have "utf8_chars cs = utf8_chars (fitting limit cs) @ utf8_chars rest" by (metis utf8_chars_simps(3))
    then have "take (utf8_boundary (utf8_chars cs) limit) (utf8_chars cs) = utf8_chars (fitting limit cs)"
      using boundary_fitting[OF assms] False by (metis append_eq_conv_conj not_le)
    with False show ?thesis by (simp add: truncateUTF8_def enc Let_def toString_chars fitting_scalar assms)
  qed
  then show ?thesis using assms by (simp add: fitting_scalar fitting_bound)
qed

theorem truncation_keeps_whole_characters_witness:
  "truncateUTF8 (text_of [104, 233, 128512]) 6 = [104, 233]"
proof -
  have "list_all scalar [104, 233, 128512]" by (simp add: scalar_def high_surrogate_def low_surrogate_def)
  from truncation_keeps_whole_characters[OF this, of 6] show ?thesis
    by (simp add: utf8_char_def high_surrogate_def low_surrogate_def from_code_point_def)
qed

text \<open>
  A range of bytes over the whole of a well-formed document that fits in the limit returns the document itself: the encoder and
  the lossy decoder are inverse there.
\<close>

lemma whole_byte_range_roundtrip:
  assumes "list_all scalar cs" "byteLength (text_of cs) \<le> limit"
  shows "\<exists>ex. extractBytes (text_of cs) 0 None limit = Inr ex \<and> ex_content ex = text_of cs \<and> \<not> ex_truncated ex"
  using assms by (simp add: extractBytes_def bad_order_def Let_def utf8_encode_def toString_chars)

text \<open>
  A JSON pointer spelled by escaping each key selects exactly the value at that path: every key, with slashes and tildes in it
  or empty, is read back as itself.
\<close>

theorem escaped_pointer_selects_path:
  "resolveJSONPointer v (pointer_of keys) = foldl pointer_step v keys"
proof (cases keys)
  case Nil
  then show ?thesis by (simp add: pointer_of_def resolveJSONPointer_def)
next
  case (Cons k ks)
  then have "pointer_of keys = CHR ''/'' # escape_segment k @ pointer_of ks" by (simp add: pointer_of_def)
  with Cons pointer_walk_steps[of v "k # ks"] show ?thesis by (simp add: resolveJSONPointer_def split_pointer)
qed

text \<open>
  With \<open>continueOnError\<close> a batch still fails as a whole exactly when some item has the empty text as its path: the error item
  that would report it throws itself. Otherwise every item is answered, in order, by a range or by an error.
\<close>

theorem continue_on_error_stops_at_empty_path:
  "(\<exists>results failed. fetchDocumentRanges ds (JArr items) (JObj [(''continueOnError'', JBool True)]) = Inr (results, failed)
      \<and> length results = length items)
   \<longleftrightarrow> list_all (\<lambda>item. pget item ''path'' \<noteq> JStr []) items"
  using fetch_items_answers[where ds = ds and dflt = Undefined and results = "[]" and hasErrors = False and items = items]
  by (cases "fetch_items ds True Undefined [] False items") (auto simp: fetchDocumentRanges_def)

end
