(* ===== verification/MutationAuthority.thy ===== *)
theory MutationAuthority
  imports CoordinatorScope
begin

text \<open>
  Which agent may change which other agent, \<open>src/core/agents/mutation-authority.mjs\<close>, and the loading of a
  session's ancestors and the end-of-turn notice of \<open>src/core/agents/end-turn-notification.mjs\<close>, both on top of the
  coordinator scope. The runtime's session loaders are arguments, those that reach the store answer a value or throw; posting
  the notice is left to the caller, the model says to whom and with which text.
\<close>

section \<open>Loading a session chain\<close>

record session_runtime =
  sr_ensureSessionEntry :: "(string \<Rightarrow> js_error + jsval) option"
  sr_storeLoadSession :: "(string \<Rightarrow> js_error + jsval) option"
  sr_getSession :: "(string \<Rightarrow> jsval) option"

definition MAX_ANCESTOR_DEPTH :: nat where
  "MAX_ANCESTOR_DEPTH = 64"

definition loadSession :: "session_runtime \<Rightarrow> string \<Rightarrow> jsval" where
  "loadSession runtime sessionID =
     (let ensured = (case sr_ensureSessionEntry runtime of None \<Rightarrow> Undefined
            | Some ensure \<Rightarrow> (case ensure sessionID of Inl _ \<Rightarrow> Undefined | Inr entry \<Rightarrow> pget entry ''session''))
      in if truthy ensured then ensured
         else case sr_storeLoadSession runtime of
           Some load \<Rightarrow> (case load sessionID of Inl _ \<Rightarrow> Null | Inr session \<Rightarrow> session)
         | None \<Rightarrow> (case sr_getSession runtime of None \<Rightarrow> Null | Some get \<Rightarrow> get sessionID))"

definition load_missing :: "session_runtime \<Rightarrow> jsobj \<Rightarrow> string \<Rightarrow> jsobj" where
  "load_missing runtime sessions current =
     (if has_own sessions current then sessions
      else let loaded = loadSession runtime current in if truthy loaded then oset sessions current loaded else sessions)"

text \<open>The loop, with the rounds left under the depth bound.\<close>

fun load_chain :: "session_runtime \<Rightarrow> nat \<Rightarrow> string list \<Rightarrow> jsobj \<Rightarrow> string \<Rightarrow> jsobj" where
  "load_chain runtime 0 seen sessions current = sessions"
| "load_chain runtime (Suc rounds) seen sessions current =
     (if current = [] \<or> current \<in> set seen then sessions
      else let loaded = load_missing runtime sessions current; session = oget loaded current
           in if \<not> truthy session then loaded
              else load_chain runtime rounds (current # seen) loaded
                     (normalizeID (js_or (pget session ''parentSessionID'') (pget session ''parentSessionId''))))"

definition loadSessionChain :: "session_runtime \<Rightarrow> jsval \<Rightarrow> jsobj" where
  "loadSessionChain runtime session =
     (let current = normalizeID (pget session ''id'')
      in load_chain runtime MAX_ANCESTOR_DEPTH [] (if current = [] then [] else [(current, session)]) current)"

section \<open>The check\<close>

datatype mutation_reason = MissingAgent | Self | MissingSession | NoCoordinator | NotInSession | UpstreamCoordinator
  | CoordinatorPromoted | CoordinatorDescendant

fun reason_text :: "mutation_reason \<Rightarrow> string" where
  "reason_text MissingAgent = ''missing-agent''"
| "reason_text Self = ''self''"
| "reason_text MissingSession = ''missing-session''"
| "reason_text NoCoordinator = ''not-coordinator''"
| "reason_text NotInSession = ''not-in-session''"
| "reason_text UpstreamCoordinator = ''upstream-coordinator''"
| "reason_text CoordinatorPromoted = ''coordinator-promoted''"
| "reason_text CoordinatorDescendant = ''coordinator-descendant''"

definition session_record :: "session_source \<Rightarrow> string \<Rightarrow> jsval" where
  "session_record getSession k = (case getSession of MapSource m \<Rightarrow> oget m k | FunSource f \<Rightarrow> f k | _ \<Rightarrow> Null)"

definition checkAgentMutationAllowed :: "jsval \<Rightarrow> jsval \<Rightarrow> jsval \<Rightarrow> session_source \<Rightarrow> bool \<times> mutation_reason" where
  "checkAgentMutationAllowed actor target currentSession getSession =
     (let actorAgentID = normalizeID actor; targetAgentID = normalizeID target; currentSessionID = normalizeID currentSession
      in if actorAgentID = [] \<or> targetAgentID = [] then (False, MissingAgent)
         else if actorAgentID = targetAgentID then (True, Self)
         else if currentSessionID = [] then (False, MissingSession)
         else if \<not> au_allowed (hasCoordinatorAuthority (JStr actorAgentID) (JStr currentSessionID) Undefined getSession Undefined)
         then (False, NoCoordinator)
         else if targetAgentID \<notin> set (participantAgentIDsOf (session_record getSession currentSessionID)) then (False, NotInSession)
         else let agents = map fst (fst (resolveCoordinatorChain (JStr currentSessionID) getSession False Undefined))
              in case find_index (\<lambda>a. a = actorAgentID) agents of
                   None \<Rightarrow> (True, CoordinatorPromoted)
                 | Some actorIndex \<Rightarrow> (if targetAgentID \<in> set (drop (actorIndex + 1) agents) then (False, UpstreamCoordinator)
                                     else (True, CoordinatorDescendant)))"

definition assertAgentMutationAllowed :: "jsval \<Rightarrow> jsval \<Rightarrow> jsval \<Rightarrow> session_source \<Rightarrow> js_error + (bool \<times> mutation_reason)" where
  "assertAgentMutationAllowed actor target currentSession getSession =
     (let result = checkAgentMutationAllowed actor target currentSession getSession;
          named = (\<lambda>v. if normalizeID v = [] then ''(unknown)'' else normalizeID v)
      in if \<not> fst result
         then Inl (GenericError (''Mutation refused: '' @ named actor @ '' may not modify '' @ named target @ '' ('' @ reason_text (snd result) @ '')''))
         else Inr result)"

definition checkAgentMutationAllowedForSession ::
  "jsval \<Rightarrow> jsval \<Rightarrow> jsval \<Rightarrow> session_runtime option \<Rightarrow> bool \<times> mutation_reason" where
  "checkAgentMutationAllowedForSession actor target session runtime =
     (case runtime of
        None \<Rightarrow> (False, MissingSession)
      | Some rt \<Rightarrow>
          if \<not> truthy session then (False, MissingSession)
          else checkAgentMutationAllowed actor target (pget session ''id'') (MapSource (loadSessionChain rt session)))"

section \<open>The end of a turn\<close>

definition end_turn_target :: "jsval \<Rightarrow> string \<Rightarrow> session_source \<Rightarrow> (string \<times> string) option" where
  "end_turn_target sessionID agentID getSession =
     (let candidates = filter (\<lambda>(a, s). a \<noteq> [] \<and> a \<noteq> agentID) (fst (resolveCoordinatorChain sessionID getSession True Undefined))
      in case candidates of [] \<Rightarrow> None
         | (a, s) # _ \<Rightarrow> Some (last (filter (\<lambda>c. fst c = a) candidates)))"

definition newline :: string where
  "newline = [char_of (10::nat)]"

definition VALIDATION_OBLIGATION :: string where
  "VALIDATION_OBLIGATION = ''Coordinator validation required: prove that all of the bot'' @ [char_of (39::nat)] @
     ''s work is complete and that no gaps remain. Perform the checks needed, then list the hypotheticals, unknowns, impossible cases, not-thought-of cases, and edge cases that you tested or verified, with proof for each, as a bulleted list of all checks you performed. If you cannot prove a claim, steer the bot or resume the work.''"

definition buildEndTurnNotice :: "jsval \<Rightarrow> jsval \<Rightarrow> jsval \<Rightarrow> jsval \<Rightarrow> string" where
  "buildEndTurnNotice agentID sessionID summary reason =
     (let bot = (if normalizeID agentID = [] then ''(unknown bot)'' else normalizeID agentID);
          session = (if normalizeID sessionID = [] then ''(unknown session)'' else normalizeID sessionID);
          message = (if normalizeID summary = [] then ''(The bot ended its turn without a visible summary.)'' else normalizeID summary);
          reasonLine = normalizeID reason
      in join_with newline
           ([''Bot '' @ bot @ '' in session '' @ session @ '' has stopped. It is either finished with its work, or needs assistance. Please check in on it. It finished its turn with the message:'',
             message] @ (if reasonLine = [] then [] else [[], ''Exit reason: '' @ reasonLine]) @ [[], VALIDATION_OBLIGATION]))"

text \<open>What \<open>notifyCoordinatorOfEndTurn\<close> posts: the session, the agent and the text.\<close>

datatype end_turn = MissingContext | MissingRuntime | NoParentCoordinator "(string \<times> string) list" | PostNotice string string string

definition notifyCoordinatorOfEndTurn ::
  "jsval \<Rightarrow> jsval \<Rightarrow> session_runtime option \<Rightarrow> jsval \<Rightarrow> jsval \<Rightarrow> jsval \<Rightarrow> end_turn" where
  "notifyCoordinatorOfEndTurn agent session runtime summary details reason =
     (let agentID = normalizeID (pget agent ''id''); sessionID = normalizeID (pget session ''id'');
          body = (if normalizeID summary = [] then normalizeID details else normalizeID summary)
      in if agentID = [] \<or> sessionID = [] \<or> (body = [] \<and> normalizeID reason = []) then MissingContext
         else case runtime of None \<Rightarrow> MissingRuntime
         | Some rt \<Rightarrow>
             (let sessions = loadSessionChain rt session;
                  lookup = FunSource (\<lambda>k. js_or (js_or (oget sessions k)
                    (case sr_getSession rt of None \<Rightarrow> Undefined | Some get \<Rightarrow> get k)) Null)
              in case end_turn_target (JStr sessionID) agentID lookup of
                   None \<Rightarrow> NoParentCoordinator (fst (resolveCoordinatorChain (JStr sessionID) lookup True Undefined))
                 | Some (a, s) \<Rightarrow> PostNotice s a (buildEndTurnNotice (JStr agentID) (JStr sessionID) (JStr body) reason)))"

section \<open>The deduplicated chain\<close>

lemma chain_agents:
  "map fst (fst (foldl (push_coordinator lookup False) (chain, seen) ks))
     = map fst chain @ drop (length seen) (foldl push_new seen (List.map_filter (\<lambda>k. recorded_coordinator (lookup k)) ks))"
proof (induction ks arbitrary: chain seen)
  case (Cons k ks)
  show ?case
  proof (cases "recorded_coordinator (lookup k)")
    case None
    with Cons show ?thesis by (simp add: push_coordinator_def map_filter_simps)
  next
    case (Some a)
    show ?thesis
    proof (cases "a \<in> set seen")
      case True
      with Some Cons show ?thesis by (simp add: push_coordinator_def map_filter_simps push_new_def)
    next
      case False
      obtain ys where "foldl push_new (seen @ [a]) (List.map_filter (\<lambda>k. recorded_coordinator (lookup k)) ks) = (seen @ [a]) @ ys"
        using foldl_push_new_prefix by blast
      moreover have "push_coordinator lookup False (chain, seen) k = (chain @ [(a, k)], seen @ [a])" "push_new seen a = seen @ [a]"
        using Some False by (simp_all add: push_coordinator_def push_new_def)
      ultimately show ?thesis using Some Cons[of "chain @ [(a, k)]" "seen @ [a]"] by (simp add: map_filter_simps)
    qed
  qed
qed (simp add: map_filter_simps)

abbreviation chain_coordinators :: "session_source \<Rightarrow> string list \<Rightarrow> string list" where
  "chain_coordinators src ks \<equiv> List.map_filter (\<lambda>k. recorded_coordinator (toLookup src k)) ks"

lemma chain_agents_uniq:
  "map fst (fst (resolveCoordinatorChain s src False d)) = uniq (chain_coordinators src (aw_chain (coordinator_walk s src d)))"
  using chain_agents[of "toLookup src" "[]" "[]"] by (simp add: resolveCoordinatorChain_def Let_def uniq_def)

lemma uniq_after:
  assumes "a \<notin> set xs"
  shows "\<exists>zs. uniq (xs @ a # ys) = uniq xs @ a # zs \<and> set zs = set ys - set xs - {a}"
proof -
  have "uniq (xs @ a # ys) = foldl push_new (uniq xs @ [a]) ys"
    using assms by (simp add: uniq_def push_new_def foldl_push_new_set)
  moreover obtain zs where zs: "foldl push_new (uniq xs @ [a]) ys = (uniq xs @ [a]) @ zs" using foldl_push_new_prefix by blast
  moreover have "set zs = set ys - set xs - {a}"
  proof -
    have "distinct (uniq xs @ [a])" using assms by simp
    then have "distinct ((uniq xs @ [a]) @ zs)" using foldl_push_new_distinct zs by metis
    moreover have "set ((uniq xs @ [a]) @ zs) = set (uniq xs @ [a]) \<union> set ys" using foldl_push_new_set zs by metis
    ultimately show ?thesis by auto
  qed
  ultimately show ?thesis by simp
qed

lemma find_index_split: "a \<notin> set xs \<Longrightarrow> find_index (\<lambda>x. x = a) (xs @ a # ys) = Some (length xs)"
  by (induction xs) auto

lemma drop_after_actor:
  assumes "a \<notin> set xs"
  shows "\<exists>i. find_index (\<lambda>x. x = a) (uniq (xs @ a # ys)) = Some i \<and> set (drop (i + 1) (uniq (xs @ a # ys))) = set ys - set xs - {a}"
proof -
  obtain zs where zs: "uniq (xs @ a # ys) = uniq xs @ a # zs" "set zs = set ys - set xs - {a}" using uniq_after[OF assms] by blast
  have "a \<notin> set (uniq xs)" using assms by simp
  from find_index_split[OF this, of zs] zs show ?thesis by simp
qed

lemma resolve_again: "resolveSessionCoordinator (JStr (normalizeID t)) src p d = resolveSessionCoordinator t src p d"
  by (simp only: resolveSessionCoordinator_def Let_def walk_renormalized normalizeID_str normalizeID_trimmed)

section \<open>Properties\<close>

text \<open>
  C24: An agent that may change another agent has coordinator authority over the session, the other agent participates in it, and it
  never reaches upwards past a coordinator that holds no role at or below its own: if the target coordinates a session above the
  nearest one the actor coordinates, then it also coordinates a session of the chain below that one.
\<close>

theorem mutation_stays_below_the_actor:
  assumes "checkAgentMutationAllowed actor target current src = (True, reason)" "normalizeID actor \<noteq> normalizeID target"
  shows "au_allowed (hasCoordinatorAuthority actor current Undefined src Undefined)
    \<and> normalizeID target \<in> set (participantAgentIDsOf (session_record src (normalizeID current)))
    \<and> (\<forall>below k above. aw_chain (coordinator_walk current src Undefined) = below @ k # above
         \<longrightarrow> recorded_coordinator (toLookup src k) = Some (normalizeID actor)
         \<longrightarrow> normalizeID actor \<notin> set (chain_coordinators src below)
         \<longrightarrow> normalizeID target \<in> set (chain_coordinators src above)
         \<longrightarrow> normalizeID target \<in> set (chain_coordinators src below))"
proof -
  let ?a = "normalizeID actor" and ?t = "normalizeID target"
  let ?agents = "uniq (chain_coordinators src (aw_chain (coordinator_walk current src Undefined)))"
  have c: "normalizeID current \<noteq> []" "?a \<noteq> []" using assms by (auto simp: checkAgentMutationAllowed_def Let_def split: if_splits)
  have walk: "map fst (fst (resolveCoordinatorChain (JStr (normalizeID current)) src False Undefined)) = ?agents"
    unfolding chain_agents_uniq walk_renormalized ..
  have au: "au_allowed (hasCoordinatorAuthority (JStr ?a) (JStr (normalizeID current)) Undefined src Undefined)"
    and part: "?t \<in> set (participantAgentIDsOf (session_record src (normalizeID current)))"
    using assms by (auto simp: checkAgentMutationAllowed_def Let_def split: if_splits)
  have up: "?t \<notin> set (drop (i + 1) ?agents)" if "find_index (\<lambda>x. x = ?a) ?agents = Some i" for i
    using assms that by (auto simp: checkAgentMutationAllowed_def Let_def walk split: if_splits)
  have "js_nc current Undefined = current" using c(1) by (cases current) (simp_all add: js_nc_def normalizeID_def)
  moreover have "js_nc (JStr (normalizeID current)) Undefined = JStr (normalizeID current)" by (simp add: js_nc_def)
  ultimately have "au_allowed (hasCoordinatorAuthority actor current Undefined src Undefined)"
    using au unfolding authority_cases Let_def by (simp add: walk_renormalized resolve_again)
  moreover have "?t \<in> set (chain_coordinators src below)"
    if chain: "aw_chain (coordinator_walk current src Undefined) = below @ k # above"
      and k: "recorded_coordinator (toLookup src k) = Some ?a" and below: "?a \<notin> set (chain_coordinators src below)"
      and above: "?t \<in> set (chain_coordinators src above)" for below k above
  proof -
    have "chain_coordinators src (below @ k # above) = chain_coordinators src below @ ?a # chain_coordinators src above"
      using k by (induction below) (auto simp: map_filter_simps split: option.splits)
    with drop_after_actor[OF below, of "chain_coordinators src above"] up chain obtain i where
      "?t \<notin> set (chain_coordinators src above) - set (chain_coordinators src below) - {?a}" by metis
    with above assms(2) show ?thesis by auto
  qed
  ultimately show ?thesis using part by blast
qed

definition example_office :: session_source where
  "example_office = MapSource
     [(''root'', JObj [(''id'', JStr ''root''), (''coordinatorAgentID'', JStr ''ann''), (''participantAgentIDs'', JArr [JStr ''ann''])]),
      (''mid'', JObj [(''id'', JStr ''mid''), (''parentSessionID'', JStr ''root''), (''coordinatorAgentID'', JStr ''ben''),
         (''participantAgentIDs'', JArr [JStr ''ben''])]),
      (''leaf'', JObj [(''id'', JStr ''leaf''), (''parentSessionID'', JStr ''mid''), (''coordinatorAgentID'', JStr ''ann''),
         (''participantAgentIDs'', JArr [JStr ''ann'', JStr ''ben'', JStr ''cy''])])]"

theorem mutation_stays_below_the_actor_witness:
  "au_allowed (hasCoordinatorAuthority (JStr ''ben'') (JStr ''leaf'') Undefined example_office Undefined)"
proof -
  have "checkAgentMutationAllowed (JStr ''ben'') (JStr ''cy'') (JStr ''leaf'') example_office = (True, CoordinatorDescendant)"
    by code_simp
  moreover have "normalizeID (JStr ''ben'') \<noteq> normalizeID (JStr ''cy'')" by code_simp
  ultimately show ?thesis using mutation_stays_below_the_actor by blast
qed

text \<open>
  The check against changing a coordinator above oneself can be passed by: where one agent coordinates both the current session and
  the root, the coordinator of the session between them may change it, while that agent, who has authority over the session
  between them, may not change the other.
\<close>

theorem repeated_coordinator_escapes_upstream_check:
  "checkAgentMutationAllowed (JStr ''ben'') (JStr ''ann'') (JStr ''leaf'') example_office = (True, CoordinatorDescendant)
   \<and> checkAgentMutationAllowed (JStr ''ann'') (JStr ''ben'') (JStr ''leaf'') example_office = (False, UpstreamCoordinator)
   \<and> au_allowed (hasCoordinatorAuthority (JStr ''ann'') (JStr ''mid'') Undefined example_office Undefined)
   \<and> \<not> au_allowed (hasCoordinatorAuthority (JStr ''ben'') (JStr ''root'') Undefined example_office Undefined)"
  by code_simp

end
