(* ===== verification/RecurringRule.thy ===== *)
theory RecurringRule
  imports JSValue
begin

text \<open>
  Recurrence rules, \<open>src/core/scheduling/recurring-rule.mjs\<close>, and the bound on further occurrences,
  \<open>shouldRecur\<close> of \<open>recurring-timer-schedule.mjs\<close>. Instants are exact rationals in milliseconds. The time
  zone data of \<open>Intl\<close> is an argument: which zones exist, and the wall-clock parts it formats for an instant. The
  calendar of \<open>Date.UTC\<close> and its inverse are written out with integer division; the years 0 to 99, which
  \<open>Date.UTC\<close> moves to 1900, are moved here too.
\<close>

section \<open>Normalized rules\<close>

record zone_data =
  zd_valid :: "string \<Rightarrow> bool"
  zd_parts :: "string \<Rightarrow> int \<Rightarrow> int \<times> int \<times> int \<times> int \<times> int"

definition DEFAULT_TIMEZONE :: string where
  "DEFAULT_TIMEZONE = ''UTC''"

definition normalizeTimezone :: "zone_data \<Rightarrow> jsval \<Rightarrow> string option" where
  "normalizeTimezone zd v =
     (if nullish v \<or> v = JStr [] then Some DEFAULT_TIMEZONE
      else case v of JStr s \<Rightarrow> if zd_valid zd s then Some s else None | _ \<Rightarrow> None)"

definition in_range :: "int \<Rightarrow> int \<Rightarrow> jsnum \<Rightarrow> bool" where
  "in_range low high n = (case n of Fin q \<Rightarrow> num_is_integer n \<and> of_int low \<le> q \<and> q \<le> of_int high | _ \<Rightarrow> False)"

text \<open>\<open>/^(\d{1,2}):(\d{2})$/\<close> on the trimmed text.\<close>

definition match_wall_clock :: "string \<Rightarrow> (string \<times> string) option" where
  "match_wall_clock s =
     (let hh = takeWhile is_dec_digit s; rest = dropWhile is_dec_digit s
      in if 1 \<le> length hh \<and> length hh \<le> 2 \<and> length rest = 3 \<and> hd rest = CHR '':'' \<and> list_all is_dec_digit (tl rest)
         then Some (hh, tl rest) else None)"

definition wall_clock_of :: "jsnum \<Rightarrow> jsnum \<Rightarrow> jsval option" where
  "wall_clock_of hh mm =
     (if in_range 0 23 hh \<and> in_range 0 59 mm then Some (JObj [(''hh'', JNum hh), (''mm'', JNum mm)]) else None)"

definition normalizeWallClock :: "jsval \<Rightarrow> jsval option" where
  "normalizeWallClock v =
     (if is_obj v \<or> is_arr v then wall_clock_of (js_Number (pget v ''hh'')) (js_Number (pget v ''mm''))
      else case match_wall_clock (js_trim (js_String (js_nc v (JStr [])))) of
             None \<Rightarrow> None
           | Some (hh, mm) \<Rightarrow> wall_clock_of (js_Number (JStr hh)) (js_Number (JStr mm)))"

definition UNIT_SPAN_MS :: "(string \<times> nat) list" where
  "UNIT_SPAN_MS = [(''minute'', 60000), (''hour'', 3600000), (''day'', 86400000), (''week'', 604800000)]"

text \<open>
  The test \<open>!UNIT_SPAN_MS[unit]\<close> reads a plain object, so it also finds the two all-lowercase names that every object
  inherits; what it finds there is no number.
\<close>

definition unit_known :: "string \<Rightarrow> bool" where
  "unit_known unit = (map_of UNIT_SPAN_MS unit \<noteq> None \<or> unit = ''constructor'' \<or> unit = ''__proto__'')"

text \<open>\<open>a - b <= 0\<close> on the numbers that are left after the filter.\<close>

definition num_le :: "jsnum \<Rightarrow> jsnum \<Rightarrow> bool" where
  "num_le a b = (case (a, b) of (Fin p, Fin q) \<Rightarrow> p \<le> q | _ \<Rightarrow> True)"

definition normalize_days :: "jsval \<Rightarrow> jsval list" where
  "normalize_days v =
     map JNum (sort_by num_le
       (filter (in_range 0 6) (uniq (map js_Number (arr_of v)))))"

definition normalizeRecurringRule :: "zone_data \<Rightarrow> jsval \<Rightarrow> jsval \<Rightarrow> jsval option" where
  "normalizeRecurringRule zd rule anchorAt =
     (if \<not> (is_obj rule \<or> is_arr rule) then None
      else case normalizeTimezone zd (pget rule ''timezone'') of None \<Rightarrow> None
      | Some timezone \<Rightarrow>
         (if pget rule ''type'' = JStr ''every''
          then let unit = toLowerCase (js_String (js_nc (pget rule ''unit'') (JStr [])))
               in case (js_Number (pget rule ''n''), js_Number (js_nc (pget rule ''anchorAt'') anchorAt)) of
                    (Fin n, Fin anchor) \<Rightarrow>
                      (if \<not> unit_known unit \<or> n < 1 \<or> of_int (js_trunc n) \<noteq> n \<or> anchor \<le> 0 then None
                       else Some (JObj [(''type'', JStr ''every''), (''n'', JNum (Fin n)), (''unit'', JStr unit),
                              (''anchorAt'', JNum (Fin anchor)), (''timezone'', JStr timezone)]))
                  | _ \<Rightarrow> None
          else if pget rule ''type'' = JStr ''daily''
          then map_option (\<lambda>time. JObj [(''type'', JStr ''daily''), (''time'', time), (''timezone'', JStr timezone)])
                 (normalizeWallClock (pget rule ''time''))
          else if pget rule ''type'' = JStr ''weekly''
          then (case normalizeWallClock (pget rule ''time'') of None \<Rightarrow> None
                | Some time \<Rightarrow>
                    if normalize_days (pget rule ''days'') = [] then None
                    else Some (JObj [(''type'', JStr ''weekly''), (''time'', time), (''days'', JArr (normalize_days (pget rule ''days''))),
                           (''timezone'', JStr timezone)]))
          else None))"

section \<open>Calendar and zones\<close>

definition days_from_civil :: "int \<Rightarrow> int \<Rightarrow> int \<Rightarrow> int" where
  "days_from_civil y m d =
     (let y' = (if m \<le> 2 then y - 1 else y); era = y' div 400; yoe = y' mod 400;
          doy = (153 * (if m > 2 then m - 3 else m + 9) + 2) div 5 + d - 1; doe = yoe * 365 + yoe div 4 - yoe div 100 + doy
      in era * 146097 + doe - 719468)"

definition civil_from_days :: "int \<Rightarrow> int \<times> int \<times> int" where
  "civil_from_days z =
     (let z' = z + 719468; era = z' div 146097; doe = z' mod 146097;
          yoe = (doe - doe div 1460 + doe div 36524 - doe div 146096) div 365;
          doy = doe - (365 * yoe + yoe div 4 - yoe div 100); mp = (5 * doy + 2) div 153;
          m = (if mp < 10 then mp + 3 else mp - 9)
      in (yoe + era * 400 + (if m \<le> 2 then 1 else 0), m, doy - (153 * mp + 2) div 5 + 1))"

text \<open>\<open>Date.UTC(y, m - 1, d, hh, mm, 0)\<close> for a month from 1 to 12; the day may overflow its month.\<close>

definition date_utc :: "int \<Rightarrow> int \<Rightarrow> int \<Rightarrow> int \<Rightarrow> int \<Rightarrow> int" where
  "date_utc y m d hh mm =
     (let year = (if 0 \<le> y \<and> y \<le> 99 then 1900 + y else y)
      in (days_from_civil year m 1 + (d - 1)) * 86400000 + hh * 3600000 + mm * 60000)"

definition utc_day :: "int \<Rightarrow> int" where
  "utc_day days = (days + 4) mod 7"

definition localParts :: "zone_data \<Rightarrow> string \<Rightarrow> int \<Rightarrow> int \<times> int \<times> int \<times> int \<times> int" where
  "localParts zd tz utcMs = (case zd_parts zd tz utcMs of (y, m, d, hh, mm) \<Rightarrow> (y, m, d, hh mod 24, mm))"

text \<open>\<open>utcMs % 60_000\<close> takes the sign of \<open>utcMs\<close>.\<close>

definition js_rem :: "int \<Rightarrow> int \<Rightarrow> int" where
  "js_rem a b = (if 0 \<le> a then a mod b else - ((- a) mod b))"

definition timezoneOffsetMs :: "zone_data \<Rightarrow> string \<Rightarrow> int \<Rightarrow> int" where
  "timezoneOffsetMs zd tz utcMs =
     (case localParts zd tz utcMs of (y, m, d, hh, mm) \<Rightarrow> date_utc y m d hh mm - (utcMs - js_rem utcMs 60000))"

definition utcFromLocal :: "zone_data \<Rightarrow> string \<Rightarrow> int \<Rightarrow> int \<Rightarrow> int \<Rightarrow> int \<Rightarrow> int \<Rightarrow> int" where
  "utcFromLocal zd tz y m d hh mm =
     (let naive = date_utc y m d hh mm; offset = timezoneOffsetMs zd tz naive; instant = naive - offset;
          refined = timezoneOffsetMs zd tz instant
      in if refined \<noteq> offset then naive - refined else instant)"

section \<open>The next occurrence\<close>

definition day_candidate :: "zone_data \<Rightarrow> jsval \<Rightarrow> string \<Rightarrow> int \<Rightarrow> int option" where
  "day_candidate zd rule tz days =
     (if pget rule ''type'' = JStr ''weekly'' \<and> JNum (Fin (of_int (utc_day days))) \<notin> set (arr_of (pget rule ''days'')) then None
      else case civil_from_days days of (y, m, d) \<Rightarrow>
        Some (utcFromLocal zd tz y m d (case pget (pget rule ''time'') ''hh'' of JNum (Fin q) \<Rightarrow> \<lfloor>q\<rfloor> | _ \<Rightarrow> 0)
                (case pget (pget rule ''time'') ''mm'' of JNum (Fin q) \<Rightarrow> \<lfloor>q\<rfloor> | _ \<Rightarrow> 0)))"

fun first_candidate :: "zone_data \<Rightarrow> jsval \<Rightarrow> string \<Rightarrow> rat \<Rightarrow> nat \<Rightarrow> int \<Rightarrow> int option" where
  "first_candidate zd rule tz after 0 day = None"
| "first_candidate zd rule tz after (Suc left) day =
     (case day_candidate zd rule tz day of
        Some candidate \<Rightarrow> if of_int candidate > after then Some candidate else first_candidate zd rule tz after left (day + 1)
      | None \<Rightarrow> first_candidate zd rule tz after left (day + 1))"

definition every_occurrence :: "string \<Rightarrow> rat \<Rightarrow> rat \<Rightarrow> rat \<Rightarrow> rat option" where
  "every_occurrence unit n anchor after =
     (if anchor > after then Some anchor
      else case map_of UNIT_SPAN_MS unit of None \<Rightarrow> None
      | Some ms \<Rightarrow>
         (let span = of_nat ms * n; steps = of_int \<lfloor>(after - anchor) / span\<rfloor> + 1; nxt = anchor + steps * span
          in if nxt > after then Some nxt else None))"

text \<open>Beyond the range of \<open>Date\<close> the formatter throws.\<close>

definition nextOccurrence :: "zone_data \<Rightarrow> jsval \<Rightarrow> jsval \<Rightarrow> jsval \<Rightarrow> js_error + rat option" where
  "nextOccurrence zd rule afterMs timezone =
     (case normalizeRecurringRule zd (if nullish timezone then rule else JObj (oset (props_of rule) ''timezone'' timezone)) Null of
        None \<Rightarrow> Inr None
      | Some r \<Rightarrow>
         (case js_Number afterMs of
            Fin after \<Rightarrow>
              (case (pget r ''type'' = JStr ''every'', pget r ''unit'', pget r ''n'', pget r ''anchorAt'') of
                 (True, JStr unit, JNum (Fin n), JNum (Fin anchor)) \<Rightarrow> Inr (every_occurrence unit n anchor after)
               | _ \<Rightarrow>
                  if \<bar>js_trunc after\<bar> > 8640000000000000 then Inl (GenericError ''Invalid time value'')
                  else let tz = js_String (pget r ''timezone'')
                       in case localParts zd tz (js_trunc after) of (y, m, d, _, _) \<Rightarrow>
                            Inr (map_option of_int (first_candidate zd r tz after 14 (date_utc y m d 0 0 div 86400000))))
          | _ \<Rightarrow> Inr None))"

definition shouldRecur :: "jsval \<Rightarrow> jsval \<Rightarrow> jsval \<Rightarrow> rat option \<Rightarrow> jsval \<Rightarrow> bool" where
  "shouldRecur endAt limit firedCount nextAt now =
     (case nextAt of None \<Rightarrow> False
      | Some t \<Rightarrow>
          \<not> (\<not> nullish endAt \<and> (case js_Number endAt of Fin e \<Rightarrow> t > e | NegInf \<Rightarrow> True | _ \<Rightarrow> False))
          \<and> \<not> (\<not> nullish limit \<and> (case (js_Number (js_nc firedCount (JNum (Fin 0))), js_Number limit) of
                 (NaN, _) \<Rightarrow> False | (_, NaN) \<Rightarrow> False | (PosInf, _) \<Rightarrow> True | (_, NegInf) \<Rightarrow> True
               | (Fin f, Fin l) \<Rightarrow> f \<ge> l | _ \<Rightarrow> False))
          \<and> \<not> (case js_Number now of Fin w \<Rightarrow> t \<le> w | PosInf \<Rightarrow> True | _ \<Rightarrow> False))"

section \<open>Normalizing again\<close>

lemma of_char_of_small: "n < 256 \<Longrightarrow> of_char (char_of n :: char) = (n :: nat)"
  by simp

lemma normalizeTimezone_again:
  "zd_valid zd ''UTC'' \<Longrightarrow> normalizeTimezone zd v = Some tz \<Longrightarrow> normalizeTimezone zd (JStr tz) = Some tz"
  by (cases v) (auto simp: normalizeTimezone_def DEFAULT_TIMEZONE_def split: if_splits)

lemma normalizeWallClock_again:
  "normalizeWallClock v = Some t \<Longrightarrow> normalizeWallClock t = Some t"
  by (auto simp: normalizeWallClock_def wall_clock_of_def split: if_splits option.splits prod.splits)

lemma sorted_insert_num:
  "\<forall>x \<in> set (a # xs). \<exists>q. x = Fin q \<Longrightarrow> sorted_wrt num_le xs \<Longrightarrow> sorted_wrt num_le (insert_by num_le a xs)"
proof (induction xs)
  case (Cons y ys)
  then obtain p q where pq: "a = Fin p" "y = Fin q" by auto
  show ?case
  proof (cases "num_le a y")
    case True
    have "num_le a z" if "z \<in> set ys" for z
      using that Cons.prems True pq by (fastforce simp: num_le_def)
    with True Cons.prems show ?thesis by simp
  next
    case False
    with pq have "num_le y a" by (simp add: num_le_def)
    with False Cons show ?thesis by auto
  qed
qed simp

lemma sorted_sort_num: "\<forall>x \<in> set xs. \<exists>q. x = Fin q \<Longrightarrow> sorted_wrt num_le (sort_by num_le xs)"
proof (induction xs)
  case (Cons a xs)
  with sorted_insert_num[of a "sort_by num_le xs"] show ?case by simp
qed simp

lemma normalize_days_again: "normalize_days (JArr (normalize_days v)) = normalize_days v"
proof -
  let ?fs = "filter (in_range 0 6) (uniq (map js_Number (arr_of v)))"
  let ?ds = "sort_by num_le ?fs"
  have ds: "set ?ds \<subseteq> {x. in_range 0 6 x}" "distinct ?ds" by auto
  have fin: "\<forall>x \<in> set ?fs. \<exists>q. x = Fin q" by (auto simp: in_range_def split: jsnum.splits)
  have "filter (in_range 0 6) (uniq ?ds) = ?ds" using ds by (simp add: uniq_distinct filter_id_conv subset_iff)
  moreover have "sort_by num_le ?ds = ?ds" using sorted_sort_num[OF fin] by (rule sort_by_sorted)
  ultimately show ?thesis by (simp add: normalize_days_def comp_def)
qed

section \<open>Properties\<close>

text \<open>
  A normalized rule is canonical: normalizing it again, with whatever anchor, returns it unchanged, for each of the three kinds of
  rule.
\<close>

theorem normalized_rule_is_canonical:
  assumes "normalizeRecurringRule zd rule anchor = Some r" "zd_valid zd ''UTC''"
  shows "normalizeRecurringRule zd r anchor' = Some r"
proof -
  obtain tz where tz: "normalizeTimezone zd (pget rule ''timezone'') = Some tz"
    using assms(1) by (auto simp: normalizeRecurringRule_def split: if_splits option.splits)
  note again = normalizeTimezone_again[OF assms(2) tz]
  from assms(1) tz consider
      (every) "\<exists>n a u. r = JObj [(''type'', JStr ''every''), (''n'', JNum (Fin n)), (''unit'', JStr u), (''anchorAt'', JNum (Fin a)),
         (''timezone'', JStr tz)] \<and> toLowerCase u = u \<and> unit_known u \<and> \<not> n < 1 \<and> of_int (js_trunc n) = n \<and> \<not> a \<le> 0"
    | (daily) "\<exists>t. r = JObj [(''type'', JStr ''daily''), (''time'', t), (''timezone'', JStr tz)] \<and> normalizeWallClock t = Some t"
    | (weekly) "\<exists>t ds. r = JObj [(''type'', JStr ''weekly''), (''time'', t), (''days'', JArr ds), (''timezone'', JStr tz)]
         \<and> normalizeWallClock t = Some t \<and> normalize_days (JArr ds) = ds \<and> ds \<noteq> []"
    unfolding normalizeRecurringRule_def
    by (auto simp: Let_def split: if_splits option.splits jsnum.splits simp: normalize_days_again dest: normalizeWallClock_again)
  then show ?thesis
    by cases (auto simp: normalizeRecurringRule_def again js_nc_def)
qed

definition all_zones :: zone_data where
  "all_zones = \<lparr>zd_valid = \<lambda>s. s \<noteq> [], zd_parts = \<lambda>tz t. (1970, 1, 1, 0, t div 60000)\<rparr>"

definition weekly_demo :: jsval where
  "weekly_demo = JObj [(''type'', JStr ''weekly''), (''time'', JStr '' 7:05''), (''days'', JArr [JNum (Fin 5), JStr ''1'', JNum (Fin 5), JNum (Fin 9)])]"

lemma weekly_demo_normal:
  "normalizeRecurringRule all_zones weekly_demo Null = Some (JObj [(''type'', JStr ''weekly''),
     (''time'', JObj [(''hh'', JNum (Fin 7)), (''mm'', JNum (Fin 5))]), (''days'', JArr [JNum (Fin 1), JNum (Fin 5)]), (''timezone'', JStr ''UTC'')])"
  by code_simp

theorem normalized_rule_is_canonical_witness:
  "\<exists>r. normalizeRecurringRule all_zones weekly_demo Null = Some r \<and> normalizeRecurringRule all_zones r Null = Some r"
proof -
  have "zd_valid all_zones ''UTC''" by (simp add: all_zones_def)
  from normalized_rule_is_canonical[OF weekly_demo_normal this] weekly_demo_normal show ?thesis by blast
qed

text \<open>
  An interval rule that names a real unit always has a next occurrence, and it is the least instant strictly after the given one that
  lies a whole number of intervals from the anchor.
\<close>

theorem interval_rule_fires_next:
  assumes "normalizeRecurringRule zd rule Null = Some (JObj [(''type'', JStr ''every''), (''n'', JNum (Fin n)), (''unit'', JStr unit),
      (''anchorAt'', JNum (Fin anchor)), (''timezone'', JStr tz)])"
    and "map_of UNIT_SPAN_MS unit = Some ms" "js_Number afterMs = Fin after"
  shows "\<exists>t k. nextOccurrence zd rule afterMs Null = Inr (Some t) \<and> t > after \<and> t = anchor + of_nat k * (of_nat ms * n)
    \<and> \<not> (\<exists>j. anchor + of_nat j * (of_nat ms * n) > after \<and> anchor + of_nat j * (of_nat ms * n) < t)"
proof -
  let ?span = "of_nat ms * n"
  have "ms > 0" using assms(2) by (auto simp: UNIT_SPAN_MS_def split: if_splits)
  moreover have "n \<ge> 1" using assms(1) by (auto simp: normalizeRecurringRule_def Let_def split: if_splits option.splits jsnum.splits)
  ultimately have span: "?span > 0" by simp
  have nxt: "nextOccurrence zd rule afterMs Null = Inr (every_occurrence unit n anchor after)"
    using assms by (simp add: nextOccurrence_def)
  show ?thesis
  proof (cases "anchor > after")
    case True
    then have "every_occurrence unit n anchor after = Some anchor" by (simp add: every_occurrence_def)
    with nxt True span show ?thesis
      by (intro exI[of _ anchor] exI[of _ 0]) (auto simp: not_less)
  next
    case False
    define f where "f = \<lfloor>(after - anchor) / ?span\<rfloor>"
    have f: "of_int f * ?span \<le> after - anchor" "after - anchor < (of_int f + 1) * ?span" "0 \<le> f"
      using span False floor_divide_lower[of ?span "after - anchor"] floor_divide_upper[of ?span "after - anchor"]
      unfolding f_def by (simp_all add: zero_le_divide_iff)
    let ?t = "anchor + (of_int f + 1) * ?span"
    have "every_occurrence unit n anchor after = Some ?t"
      using False assms(2) f(2) unfolding every_occurrence_def f_def by (simp add: Let_def)
    moreover have "?t = anchor + of_nat (nat (f + 1)) * ?span" using f(3) by simp
    moreover have "\<not> (anchor + of_nat j * ?span > after \<and> anchor + of_nat j * ?span < ?t)" for j
    proof
      assume j: "anchor + of_nat j * ?span > after \<and> anchor + of_nat j * ?span < ?t"
      have "of_nat j * ?span < (of_int f + 1) * ?span" "of_int f * ?span < of_nat j * ?span" using j f(1) by linarith+
      then have "(of_nat j :: rat) < of_int (f + 1)" "(of_int f :: rat) < of_nat j"
        using span mult_less_cancel_right_pos[of ?span] by simp_all
      then have "int j < f + 1" "f < int j" by (metis of_int_less_iff of_int_of_nat_eq)+
      then show False by simp
    qed
    moreover have "?t > after" using f(2) by linarith
    ultimately show ?thesis using nxt by metis
  qed
qed

theorem interval_rule_fires_next_witness:
  "\<exists>t. nextOccurrence all_zones (JObj [(''type'', JStr ''every''), (''n'', JNum (Fin 2)), (''unit'', JStr ''hour''), (''anchorAt'', JNum (Fin 1000))])
     (JNum (Fin 8000000)) Null = Inr (Some t) \<and> t > 8000000"
proof -
  have "normalizeRecurringRule all_zones (JObj [(''type'', JStr ''every''), (''n'', JNum (Fin 2)), (''unit'', JStr ''hour''), (''anchorAt'', JNum (Fin 1000))]) Null
    = Some (JObj [(''type'', JStr ''every''), (''n'', JNum (Fin 2)), (''unit'', JStr ''hour''), (''anchorAt'', JNum (Fin 1000)), (''timezone'', JStr ''UTC'')])"
    by (simp add: normalizeRecurringRule_def normalizeTimezone_def DEFAULT_TIMEZONE_def toLowerCase_def lower_char_def
        unit_known_def UNIT_SPAN_MS_def js_nc_def)
  moreover have "map_of UNIT_SPAN_MS ''hour'' = Some 3600000" by (simp add: UNIT_SPAN_MS_def)
  moreover have "js_Number (JNum (Fin 8000000)) = Fin 8000000" by simp
  ultimately show ?thesis using interval_rule_fires_next by blast
qed

text \<open>
  Daily and weekly occurrences keep the wall clock across a change of offset: in a zone whose offset changes once, from \<open>a\<close> to \<open>b\<close>
  at \<open>T\<close>, in either direction, the conversion of a wall-clock time that exists answers an instant whose wall clock is exactly
  that time.
\<close>

theorem wall_clock_exact_across_transition:
  assumes "\<And>t. t mod 60000 = 0 \<Longrightarrow> timezoneOffsetMs zd tz t = (if t < T then a else b)"
    and "a mod 60000 = 0" "b mod 60000 = 0"
    and "t0 mod 60000 = 0" "t0 + timezoneOffsetMs zd tz t0 = date_utc y m d hh mm"
  shows "let t = utcFromLocal zd tz y m d hh mm in t + timezoneOffsetMs zd tz t = date_utc y m d hh mm"
proof -
  let ?L = "date_utc y m d hh mm"
  have L: "?L mod 60000 = 0" by (simp add: date_utc_def Let_def mod_add_eq) 
  then have La: "(?L - a) mod 60000 = 0" and Lb: "(?L - b) mod 60000 = 0" using assms(2,3) by (simp_all add: mod_diff_eq[symmetric])
  from assms(1)[OF assms(4)] assms(5) have sol: "t0 = ?L - a \<and> t0 < T \<or> t0 = ?L - b \<and> \<not> t0 < T" by (auto split: if_splits)
  show ?thesis
    using sol by (auto simp: utcFromLocal_def Let_def assms(1)[OF L] assms(1)[OF La] assms(1)[OF Lb] split: if_splits)
qed

definition summer_zone :: zone_data where
  "summer_zone = \<lparr>zd_valid = \<lambda>s. s \<noteq> [],
     zd_parts = \<lambda>tz t. (1970, 1, 1, 0, (t + (if t < 7200000 then 3600000 else 7200000)) div 60000)\<rparr>"

lemma summer_offset:
  "t mod 60000 = 0 \<Longrightarrow> timezoneOffsetMs summer_zone tz t = (if t < 7200000 then 3600000 else 7200000)"
proof -
  assume t: "t mod 60000 = 0"
  define c where "c = (if t < 7200000 then 3600000 else 7200000 :: int)"
  have "days_from_civil 1970 1 1 = 0" by code_simp
  then have date: "date_utc 1970 1 1 0 k = k * 60000" for k by (simp add: date_utc_def)
  have "js_rem t 60000 = 0" using t by (simp add: js_rem_def zmod_zminus1_eq_if)
  moreover have "localParts summer_zone tz t = (1970, 1, 1, 0, (t + c) div 60000)"
    by (simp add: localParts_def summer_zone_def c_def)
  ultimately have "timezoneOffsetMs summer_zone tz t = (t + c) div 60000 * 60000 - t"
    by (simp only: timezoneOffsetMs_def prod.case date diff_0_right)
  moreover have "c mod 60000 = 0" by (simp add: c_def)
  with t have "(t + c) mod 60000 = 0" using mod_add_eq[of t 60000 c] by simp
  then have "(t + c) div 60000 * 60000 = t + c" using div_mult_mod_eq[of "t + c" 60000] by linarith
  ultimately show ?thesis by (simp only: c_def)
qed

theorem wall_clock_exact_across_transition_witness:
  "let t = utcFromLocal summer_zone ''Z'' 1970 1 1 4 30 in t + timezoneOffsetMs summer_zone ''Z'' t = date_utc 1970 1 1 4 30"
proof -
  have "date_utc 1970 1 1 4 30 = 16200000" by code_simp
  then have "9000000 + timezoneOffsetMs summer_zone ''Z'' 9000000 = date_utc 1970 1 1 4 30" by (simp add: summer_offset)
  from wall_clock_exact_across_transition[OF summer_offset _ _ _ this] show ?thesis by simp
qed

end
