(* ===== verification/ProviderRetry.thy ===== *)
theory ProviderRetry
  imports JSValue
begin

text \<open>
  The retrying of provider turns, \<open>src/core/agents/provider-retry.mjs\<close>. A provider is what one call of
  \<open>createProvider\<close> gives: the outputs its stream yields and how the stream ends. The generator's behaviour is the
  trace of everything its consumer and its callbacks see, and whether it returned or threw. The two regular expressions
  are written out as scans for a word between word boundaries; \<open>createProvider\<close>, \<open>isRetryable\<close>,
  \<open>onRetry\<close> and \<open>sleep\<close> are arguments, each of which may throw.
\<close>

section \<open>Which outputs and which errors\<close>

definition DEFAULT_PROVIDER_RETRY_DELAYS_MS :: "int list" where
  "DEFAULT_PROVIDER_RETRY_DELAYS_MS = [1000, 2000, 3000, 4000]"

definition RETRY_SAFE_OUTPUT_TYPES :: "string list" where
  "RETRY_SAFE_OUTPUT_TYPES = [''BeginTyping'', ''EndTyping'']"

definition RETRYABLE_NETWORK_CODES :: "string list" where
  "RETRYABLE_NETWORK_CODES = [''ECONNRESET'', ''ECONNREFUSED'', ''ETIMEDOUT'', ''EAI_AGAIN'', ''ENETRESET'', ''ENETUNREACH'',
     ''EPIPE'', ''UND_ERR_BODY_TIMEOUT'', ''UND_ERR_CONNECT_TIMEOUT'', ''UND_ERR_HEADERS_TIMEOUT'', ''UND_ERR_SOCKET'']"

definition RETRYABLE_TRANSIENT_PHRASES :: "string list" where
  "RETRYABLE_TRANSIENT_PHRASES = [''internal server error'', ''bad gateway'', ''service unavailable'', ''gateway timeout'',
     ''too many requests'']"

definition isSubstantiveProviderOutput :: "jsval \<Rightarrow> bool" where
  "isSubstantiveProviderOutput output =
     (if \<not> truthy output then True
      else case pget output ''type'' of
        JStr t \<Rightarrow> if pget output ''phantom'' = JBool True then False else t \<notin> set RETRY_SAFE_OUTPUT_TYPES
      | _ \<Rightarrow> True)"

definition normalizeStatus :: "jsval \<Rightarrow> rat option" where
  "normalizeStatus v =
     (case js_Number v of Fin q \<Rightarrow> if num_is_integer (Fin q) \<and> q > 0 then Some q else None | _ \<Rightarrow> None)"

definition normalizeCode :: "jsval \<Rightarrow> string" where
  "normalizeCode v = (case v of JStr s \<Rightarrow> if js_trim s \<noteq> [] then toUpperCase (js_trim s) else [] | _ \<Rightarrow> [])"

text \<open>\<open>\w\<close>, and \<open>\b\<close> between two neighbours, where a missing neighbour is no word character.\<close>

definition word_char :: "char \<Rightarrow> bool" where
  "word_char c = (let n = of_char c :: nat in
     48 \<le> n \<and> n \<le> 57 \<or> 65 \<le> n \<and> n \<le> 90 \<or> 97 \<le> n \<and> n \<le> 122 \<or> n = 95)"

definition word_at_end :: "string \<Rightarrow> bool" where
  "word_at_end s = (s \<noteq> [] \<and> word_char (last s))"

definition word_at_start :: "string \<Rightarrow> bool" where
  "word_at_start s = (s \<noteq> [] \<and> word_char (hd s))"

definition boundary :: "string \<Rightarrow> string \<Rightarrow> bool" where
  "boundary before after = (word_at_end before \<noteq> word_at_start after)"

text \<open>\<open>phrase\b\<close> at the start of \<open>rest\<close>; the case of letters does not count.\<close>

definition phrase_at :: "string \<Rightarrow> string \<Rightarrow> bool" where
  "phrase_at phrase rest =
     (starts_with (toLowerCase rest) phrase \<and> boundary (take (length phrase) rest) (drop (length phrase) rest))"

text \<open>\<open>HTTP\s+(?:429|5\d\d)\b\<close> at the start of \<open>rest\<close>.\<close>

definition http_status_at :: "string \<Rightarrow> bool" where
  "http_status_at rest =
     (starts_with (toLowerCase rest) ''http'' \<and>
      (let spaces = takeWhile js_space (drop 4 rest); code = dropWhile js_space (drop 4 rest)
       in spaces \<noteq> [] \<and> 3 \<le> length code \<and>
          (take 3 code = ''429'' \<or> hd code = CHR ''5'' \<and> list_all is_dec_digit (take 3 code)) \<and>
          boundary (take 3 code) (drop 3 code)))"

definition regex_test :: "(string \<Rightarrow> bool) \<Rightarrow> string \<Rightarrow> bool" where
  "regex_test at_start s = list_ex (\<lambda>i. boundary (take i s) (drop i s) \<and> at_start (drop i s)) [0..<Suc (length s)]"

definition isRetryableProviderError :: "jsval \<Rightarrow> bool" where
  "isRetryableProviderError error =
     (if \<not> truthy error \<or> pget error ''retryable'' = JBool False then False
      else if pget error ''retryable'' = JBool True then True
      else if (case normalizeStatus (js_nc (js_nc (pget error ''status'') (pget error ''statusCode'')) (pget (pget error ''response'') ''status''))
               of Some q \<Rightarrow> q = 429 \<or> 500 \<le> q \<and> q \<le> 599 | None \<Rightarrow> False) then True
      else let code = normalizeCode (js_nc (pget error ''code'') (pget (pget error ''cause'') ''code''))
           in if code \<noteq> [] \<and> (code \<in> set RETRYABLE_NETWORK_CODES \<or> starts_with code ''UND_ERR_'') then True
              else let message = js_String (js_or (pget error ''message'') (JStr []))
                   in regex_test http_status_at message \<or> list_ex (\<lambda>p. regex_test (phrase_at p) message) RETRYABLE_TRANSIENT_PHRASES)"

definition normalizeRetryDelays :: "jsval \<Rightarrow> int list" where
  "normalizeRetryDelays v =
     (case v of
        JArr ds \<Rightarrow> map (\<lambda>d. case js_Number d of Fin q \<Rightarrow> if q \<ge> 0 then js_trunc q else 0 | _ \<Rightarrow> 0) ds
      | _ \<Rightarrow> DEFAULT_PROVIDER_RETRY_DELAYS_MS)"

section \<open>The generator\<close>

text \<open>
  \<open>pv_runnable\<close> says whether \<open>run\<close> is a function; \<open>pv_failure\<close> is what the stream throws after its
  outputs, if it does; the two marks are read when it has failed.
\<close>

record provider =
  pv_runnable :: bool
  pv_outputs :: "jsval list"
  pv_failure :: "jsval option"
  pv_providerRetryUnsafe :: jsval
  pv_private_providerRetryUnsafe :: jsval

datatype retry_event =
    CreateProvider
  | Yield jsval
  | OnRetry nat nat int jsval
  | Sleep int

record retry_env =
  rv_createProvider :: "nat \<Rightarrow> jsval + provider"
  rv_isRetryable :: "jsval \<Rightarrow> jsval + bool"
  rv_onRetry :: "nat \<Rightarrow> jsval option"
  rv_sleep :: "nat \<Rightarrow> jsval option"

text \<open>\<open>error.providerAttempts = attempt + 1\<close>, on an object only.\<close>

definition note_attempts :: "nat \<Rightarrow> jsval \<Rightarrow> jsval" where
  "note_attempts attempt error =
     (case error of JObj ps \<Rightarrow> if attempt > 0 then JObj (oset ps ''providerAttempts'' (JNum (Fin (of_nat (attempt + 1))))) else error
      | _ \<Rightarrow> error)"

text \<open>\<open>canRetry\<close>; the test of the error is the last of the conjuncts and runs only when the others hold.\<close>

definition can_retry :: "retry_env \<Rightarrow> int list \<Rightarrow> nat \<Rightarrow> provider \<Rightarrow> jsval \<Rightarrow> jsval + bool" where
  "can_retry env delays attempt p error =
     (if \<not> list_ex isSubstantiveProviderOutput (pv_outputs p)
         \<and> pv_providerRetryUnsafe p \<noteq> JBool True \<and> pv_private_providerRetryUnsafe p \<noteq> JBool True \<and> attempt < length delays
      then rv_isRetryable env error else Inr False)"

function attempt_loop :: "retry_env \<Rightarrow> int list \<Rightarrow> nat \<Rightarrow> retry_event list \<times> (jsval + unit)" where
  "attempt_loop env delays attempt =
     (case rv_createProvider env attempt of
        Inl e \<Rightarrow> ([CreateProvider], Inl e)
      | Inr p \<Rightarrow>
          if \<not> pv_runnable p then ([CreateProvider], Inl (JObj [(''message'', JStr ''Provider does not provide run()'')]))
          else let es = CreateProvider # map Yield (pv_outputs p) in
            case pv_failure p of
              None \<Rightarrow> (es, Inr ())
            | Some error \<Rightarrow>
                (case can_retry env delays attempt p error of
                   Inl e \<Rightarrow> (es, Inl e)
                 | Inr retry \<Rightarrow>
                     if \<not> retry then (es, Inl (note_attempts attempt error))
                     else let es' = es @ [OnRetry (attempt + 2) (length delays + 1) (delays ! attempt) error] in
                       case rv_onRetry env attempt of
                         Some e \<Rightarrow> (es', Inl e)
                       | None \<Rightarrow> (case rv_sleep env attempt of
                           Some e \<Rightarrow> (es' @ [Sleep (delays ! attempt)], Inl e)
                         | None \<Rightarrow> (case attempt_loop env delays (attempt + 1) of
                             (rest, r) \<Rightarrow> (es' @ Sleep (delays ! attempt) # rest, r)))))"
  by pat_completeness auto
termination
  by (relation "measure (\<lambda>(env, delays, attempt). length delays - attempt)") (auto simp: can_retry_def split: if_splits)

declare attempt_loop.simps [simp del]

text \<open>The environment is \<open>None\<close> when \<open>createProvider\<close> is not a function.\<close>

definition runProviderWithRetry :: "retry_env option \<Rightarrow> jsval \<Rightarrow> retry_event list \<times> (jsval + unit)" where
  "runProviderWithRetry env retryDelaysMs =
     (case env of
        None \<Rightarrow> ([], Inl (JObj [(''message'', JStr ''runProviderWithRetry requires createProvider()'')]))
      | Some env \<Rightarrow> attempt_loop env (normalizeRetryDelays retryDelaysMs) 0)"

section \<open>What the consumer sees\<close>

definition quiet :: "retry_event list \<Rightarrow> bool" where
  "quiet es \<longleftrightarrow> (\<forall>v. Yield v \<in> set es \<longrightarrow> \<not> isSubstantiveProviderOutput v)"

definition creations :: "retry_event list \<Rightarrow> nat" where
  "creations es = length (filter (\<lambda>e. e = CreateProvider) es)"

definition sleeps :: "retry_event list \<Rightarrow> int list" where
  "sleeps es = concat (map (\<lambda>e. case e of Sleep d \<Rightarrow> [d] | _ \<Rightarrow> []) es)"

lemma trace_simps [simp]:
  "quiet []" "quiet (CreateProvider # es) = quiet es" "quiet (Yield v # es) = (\<not> isSubstantiveProviderOutput v \<and> quiet es)"
  "quiet (OnRetry a m d e # es) = quiet es" "quiet (Sleep d # es) = quiet es" "quiet (es @ fs) = (quiet es \<and> quiet fs)"
  "creations [] = 0" "creations (CreateProvider # es) = Suc (creations es)" "creations (Yield v # es) = creations es"
  "creations (OnRetry a m d e # es) = creations es" "creations (Sleep d # es) = creations es"
  "creations (es @ fs) = creations es + creations fs"
  "sleeps [] = []" "sleeps (CreateProvider # es) = sleeps es" "sleeps (Yield v # es) = sleeps es"
  "sleeps (OnRetry a m d e # es) = sleeps es" "sleeps (Sleep d # es) = d # sleeps es" "sleeps (es @ fs) = sleeps es @ sleeps fs"
  by (auto simp: quiet_def creations_def sleeps_def)

lemma yields_simps [simp]:
  "quiet (map Yield vs) = (\<not> list_ex isSubstantiveProviderOutput vs)" "creations (map Yield vs) = 0" "sleeps (map Yield vs) = []"
  by (induction vs) auto

text \<open>The four ways an attempt goes on.\<close>

lemma attempt_loop_cases:
  obtains (stop) es r where "attempt_loop env delays attempt = (CreateProvider # es, r)" "creations es = 0" "sleeps es = []"
  | (interrupted) es e a m d r where "attempt_loop env delays attempt = (CreateProvider # map Yield es @ [OnRetry a m d e], r)"
      "\<not> list_ex isSubstantiveProviderOutput es" "attempt < length delays"
  | (unslept) es e a m r where "attempt_loop env delays attempt = (CreateProvider # map Yield es @ [OnRetry a m (delays ! attempt) e, Sleep (delays ! attempt)], r)"
      "\<not> list_ex isSubstantiveProviderOutput es" "attempt < length delays"
  | (retried) es e a m where "attempt_loop env delays attempt =
        (CreateProvider # map Yield es @ OnRetry a m (delays ! attempt) e # Sleep (delays ! attempt) # fst (attempt_loop env delays (attempt + 1)),
         snd (attempt_loop env delays (attempt + 1)))"
      "\<not> list_ex isSubstantiveProviderOutput es" "attempt < length delays"
proof (cases "rv_createProvider env attempt")
  case (Inl e)
  then show thesis by (intro stop[of "[]"]) (simp_all add: attempt_loop.simps[of env])
next
  case p: (Inr p)
  show thesis
  proof (cases "pv_runnable p \<and> (\<exists>error. pv_failure p = Some error \<and> can_retry env delays attempt p error = Inr True)")
    case False
    with p have "\<exists>es r. attempt_loop env delays attempt = (CreateProvider # es, r) \<and> creations es = 0 \<and> sleeps es = []"
      by (subst attempt_loop.simps) (auto simp: Let_def split: option.splits sum.splits)
    then show thesis using stop by blast
  next
    case True
    then obtain error where run: "pv_runnable p" "pv_failure p = Some error" "can_retry env delays attempt p error = Inr True" by blast
    then have ok: "\<not> list_ex isSubstantiveProviderOutput (pv_outputs p)" "attempt < length delays"
      by (auto simp: can_retry_def split: if_splits)
    note step = attempt_loop.simps[of env delays attempt, unfolded p sum.case Let_def]
    show thesis
    proof (cases "rv_onRetry env attempt")
      case (Some e)
      with run have "attempt_loop env delays attempt = (CreateProvider # map Yield (pv_outputs p) @
        [OnRetry (attempt + 2) (length delays + 1) (delays ! attempt) error], Inl e)" by (subst step) simp
      with ok show thesis using interrupted by blast
    next
      case None
      show thesis
      proof (cases "rv_sleep env attempt")
        case (Some e)
        with None run have "attempt_loop env delays attempt = (CreateProvider # map Yield (pv_outputs p) @
          [OnRetry (attempt + 2) (length delays + 1) (delays ! attempt) error, Sleep (delays ! attempt)], Inl e)" by (subst step) simp
        with ok show thesis using unslept by blast
      next
        case None': None
        with None run have "attempt_loop env delays attempt = (CreateProvider # map Yield (pv_outputs p) @
          OnRetry (attempt + 2) (length delays + 1) (delays ! attempt) error # Sleep (delays ! attempt) # fst (attempt_loop env delays (attempt + 1)),
          snd (attempt_loop env delays (attempt + 1)))" by (subst step) (simp add: case_prod_unfold)
        with ok show thesis using retried by blast
      qed
    qed
  qed
qed

lemma split_at_creation:
  assumes "creations es = 0" "es @ fs = pre @ CreateProvider # post"
  shows "\<exists>us. pre = es @ us \<and> fs = us @ CreateProvider # post"
proof -
  from assms(2) obtain us where "es = pre @ us \<and> us @ fs = CreateProvider # post \<or> es @ us = pre \<and> fs = us @ CreateProvider # post"
    by (auto simp: append_eq_append_conv2)
  with assms(1) show ?thesis by (cases us) auto
qed

lemma no_creation_inside: "creations es = 0 \<Longrightarrow> es \<noteq> pre @ CreateProvider # post"
  using split_at_creation[of es "[]" pre post] by auto

lemma attempts_quiet:
  "fst (attempt_loop env delays attempt) = pre @ CreateProvider # post \<Longrightarrow> quiet pre"
proof (induction "length delays - attempt" arbitrary: attempt pre rule: less_induct)
  case less
  show ?case
  proof (cases pre)
    case Nil
    then show ?thesis by simp
  next
    case (Cons x pre')
    show ?thesis
    proof (cases rule: attempt_loop_cases[of env delays attempt])
      case (retried es e a m)
      let ?fs = "fst (attempt_loop env delays (attempt + 1))" and ?hd = "map Yield es @ [OnRetry a m (delays ! attempt) e, Sleep (delays ! attempt)]"
      from less.prems Cons retried(1) have "x = CreateProvider" "?hd @ ?fs = pre' @ CreateProvider # post" by auto
      moreover from split_at_creation[OF _ this(2)] obtain us where "pre' = ?hd @ us" "?fs = us @ CreateProvider # post" by auto
      moreover from this(2) less.hyps[of "attempt + 1" us] retried(3) have "quiet us" by simp
      ultimately show ?thesis using Cons retried(2) by simp
    next
      case (stop es r)
      with less.prems Cons no_creation_inside[of es pre' post] show ?thesis by simp
    next
      case (interrupted es e a m d r)
      with less.prems Cons no_creation_inside[of "map Yield es @ [OnRetry a m d e]" pre' post] show ?thesis by simp
    next
      case (unslept es e a m r)
      with less.prems Cons no_creation_inside[of "map Yield es @ [OnRetry a m (delays ! attempt) e, Sleep (delays ! attempt)]" pre' post]
      show ?thesis by simp
    qed
  qed
qed

lemma attempts_bounded:
  "\<exists>k. sleeps (fst (attempt_loop env delays attempt)) = take k (drop attempt delays)
     \<and> (creations (fst (attempt_loop env delays attempt)) \<in> {k, Suc k}) \<and> k \<le> length delays - attempt"
proof (induction "length delays - attempt" arbitrary: attempt rule: less_induct)
  case less
  show ?case
  proof (cases rule: attempt_loop_cases[of env delays attempt])
    case (retried es e a m)
    then have "length delays - (attempt + 1) < length delays - attempt" by simp
    from less.hyps[OF this] obtain k where k: "sleeps (fst (attempt_loop env delays (attempt + 1))) = take k (drop (attempt + 1) delays)"
      "creations (fst (attempt_loop env delays (attempt + 1))) \<in> {k, Suc k}" "k \<le> length delays - (attempt + 1)" by blast
    have "drop attempt delays = delays ! attempt # drop (attempt + 1) delays" using retried(3) by (simp add: Cons_nth_drop_Suc)
    with k retried(1,3) show ?thesis by (intro exI[of _ "Suc k"]) auto
  next
    case (stop es r)
    then show ?thesis by (intro exI[of _ 0]) simp
  next
    case (interrupted es e a m d r)
    then show ?thesis by (intro exI[of _ 0]) simp
  next
    case (unslept es e a m r)
    then have "drop attempt delays = delays ! attempt # drop (attempt + 1) delays" by (simp add: Cons_nth_drop_Suc)
    with unslept show ?thesis by (intro exI[of _ "Suc 0"]) simp
  qed
qed

section \<open>Properties\<close>

text \<open>
  C21: A provider is asked again only while nothing has been said: whenever an attempt is started, no output that counts as
  substantive has been yielded by the attempts before it, so a retry never repeats content or a tool call.
\<close>

theorem retry_never_repeats_output:
  assumes "fst (runProviderWithRetry env retryDelaysMs) = before @ CreateProvider # after" "Yield v \<in> set before"
  shows "\<not> isSubstantiveProviderOutput v"
proof (cases env)
  case None
  with assms show ?thesis by (simp add: runProviderWithRetry_def)
next
  case (Some env')
  with assms(1) attempts_quiet[of env' _ 0 before] have "quiet before" by (simp add: runProviderWithRetry_def)
  with assms(2) show ?thesis by (simp add: quiet_def)
qed

definition typing :: jsval where
  "typing = JObj [(''type'', JStr ''BeginTyping'')]"

definition busy :: jsval where
  "busy = JObj [(''status'', JNum (Fin 503))]"

definition flaky_env :: retry_env where
  "flaky_env = \<lparr>rv_createProvider = \<lambda>i. Inr (if i < 2
       then \<lparr>pv_runnable = True, pv_outputs = [typing], pv_failure = Some busy, pv_providerRetryUnsafe = Undefined,
              pv_private_providerRetryUnsafe = Undefined\<rparr>
       else \<lparr>pv_runnable = True, pv_outputs = [JObj [(''type'', JStr ''Message'')]], pv_failure = None, pv_providerRetryUnsafe = Undefined,
              pv_private_providerRetryUnsafe = Undefined\<rparr>),
     rv_isRetryable = \<lambda>e. Inr (isRetryableProviderError e), rv_onRetry = \<lambda>_. None, rv_sleep = \<lambda>_. None\<rparr>"

lemma busy_retryable: "isRetryableProviderError busy"
  by (simp add: isRetryableProviderError_def busy_def js_nc_def normalizeStatus_def)

theorem retry_never_repeats_output_witness:
  "let es = fst (runProviderWithRetry (Some flaky_env) (JArr [JNum (Fin 10), JNum (Fin 20)]))
   in es ! 1 = Yield typing \<and> es ! 4 = CreateProvider \<and> \<not> isSubstantiveProviderOutput typing"
proof -
  let ?es = "fst (runProviderWithRetry (Some flaky_env) (JArr [JNum (Fin 10), JNum (Fin 20)]))"
  have delays: "normalizeRetryDelays (JArr [JNum (Fin 10), JNum (Fin 20)]) = [10, 20]" by (simp add: normalizeRetryDelays_def)
  have es: "?es = [CreateProvider, Yield typing, OnRetry 2 3 10 busy, Sleep 10] @ CreateProvider #
      [Yield typing, OnRetry 3 3 20 busy, Sleep 20, CreateProvider, Yield (JObj [(''type'', JStr ''Message'')])]"
    using busy_retryable
    by (simp add: runProviderWithRetry_def delays attempt_loop.simps flaky_env_def can_retry_def numeral_2_eq_2
        isSubstantiveProviderOutput_def typing_def RETRY_SAFE_OUTPUT_TYPES_def)
  show ?thesis unfolding Let_def using retry_never_repeats_output[OF es, of typing] by (simp add: es)
qed

text \<open>
  A turn recovers from failures that come before any content: when the first \<open>k\<close> attempts fail with an error that may be
  retried before they said anything, and the next one runs through, then the consumer sees that attempt to its end and the
  generator returns, having waited the first \<open>k\<close> delays in order; \<open>k\<close> may be as large as the number of delays.
\<close>

theorem retry_recovers:
  assumes "k \<le> length (normalizeRetryDelays retryDelaysMs)"
    and "\<And>i. i < k \<Longrightarrow> \<exists>p error. rv_createProvider env i = Inr p \<and> pv_runnable p \<and> pv_failure p = Some error
      \<and> (\<forall>v \<in> set (pv_outputs p). \<not> isSubstantiveProviderOutput v) \<and> pv_providerRetryUnsafe p \<noteq> JBool True
      \<and> pv_private_providerRetryUnsafe p \<noteq> JBool True \<and> rv_isRetryable env error = Inr True"
    and "\<And>i. i < k \<Longrightarrow> rv_onRetry env i = None \<and> rv_sleep env i = None"
    and "rv_createProvider env k = Inr p" "pv_runnable p" "pv_failure p = None"
  shows "\<exists>before. runProviderWithRetry (Some env) retryDelaysMs = (before @ CreateProvider # map Yield (pv_outputs p), Inr ())
    \<and> sleeps before = take k (normalizeRetryDelays retryDelaysMs) \<and> creations before = k"
proof -
  let ?delays = "normalizeRetryDelays retryDelaysMs"
  have "\<exists>before. attempt_loop env ?delays (k - j) = (before @ CreateProvider # map Yield (pv_outputs p), Inr ())
      \<and> sleeps before = take j (drop (k - j) ?delays) \<and> creations before = j" if "j \<le> k" for j
    using that
  proof (induction j)
    case 0
    with assms(4-6) show ?case by (subst attempt_loop.simps) simp
  next
    case (Suc j)
    let ?i = "k - Suc j"
    from Suc.prems have i: "?i < k" "?i < length ?delays" "k - j = ?i + 1" using assms(1) by auto
    obtain q error where q: "rv_createProvider env ?i = Inr q" "pv_runnable q" "pv_failure q = Some error"
      "\<forall>v \<in> set (pv_outputs q). \<not> isSubstantiveProviderOutput v" "pv_providerRetryUnsafe q \<noteq> JBool True"
      "pv_private_providerRetryUnsafe q \<noteq> JBool True" "rv_isRetryable env error = Inr True"
      using assms(2)[OF i(1)] by blast
    have retry: "can_retry env ?delays ?i q error = Inr True" using q i(2) by (simp add: can_retry_def list_ex_iff)
    obtain before where b: "attempt_loop env ?delays (?i + 1) = (before @ CreateProvider # map Yield (pv_outputs p), Inr ())"
      "sleeps before = take j (drop (?i + 1) ?delays)" "creations before = j"
      using Suc.IH Suc.prems by (auto simp: i(3))
    have "attempt_loop env ?delays ?i = ((CreateProvider # map Yield (pv_outputs q) @
        OnRetry (?i + 2) (length ?delays + 1) (?delays ! ?i) error # Sleep (?delays ! ?i) # before) @ CreateProvider # map Yield (pv_outputs p), Inr ())"
      by (subst attempt_loop.simps) (simp only: q(1-3) retry b(1) assms(3)[OF i(1)] sum.case option.case Let_def prod.case, simp)
    moreover have "drop ?i ?delays = ?delays ! ?i # drop (?i + 1) ?delays" using i(2) by (simp add: Cons_nth_drop_Suc)
    ultimately show ?case using b(2,3) by (intro exI conjI) (assumption, simp_all)
  qed
  from this[of k] show ?thesis by (simp add: runProviderWithRetry_def)
qed

theorem retry_recovers_witness:
  "\<exists>before. runProviderWithRetry (Some flaky_env) (JArr [JNum (Fin 10), JNum (Fin 20)])
     = (before @ [CreateProvider, Yield (JObj [(''type'', JStr ''Message'')])], Inr ()) \<and> sleeps before = [10, 20]"
proof -
  have delays: "normalizeRetryDelays (JArr [JNum (Fin 10), JNum (Fin 20)]) = [10, 20]" by (simp add: normalizeRetryDelays_def)
  have failing: "\<exists>p error. rv_createProvider flaky_env i = Inr p \<and> pv_runnable p \<and> pv_failure p = Some error
      \<and> (\<forall>v \<in> set (pv_outputs p). \<not> isSubstantiveProviderOutput v) \<and> pv_providerRetryUnsafe p \<noteq> JBool True
      \<and> pv_private_providerRetryUnsafe p \<noteq> JBool True \<and> rv_isRetryable flaky_env error = Inr True" if "i < 2" for i
    using that busy_retryable
    by (simp add: flaky_env_def typing_def isSubstantiveProviderOutput_def RETRY_SAFE_OUTPUT_TYPES_def)
  have calls: "rv_onRetry flaky_env i = None \<and> rv_sleep flaky_env i = None" for i by (simp add: flaky_env_def)
  have last: "rv_createProvider flaky_env 2 = Inr \<lparr>pv_runnable = True, pv_outputs = [JObj [(''type'', JStr ''Message'')]],
      pv_failure = None, pv_providerRetryUnsafe = Undefined, pv_private_providerRetryUnsafe = Undefined\<rparr>"
    by (simp add: flaky_env_def)
  from retry_recovers[where retryDelaysMs = "JArr [JNum (Fin 10), JNum (Fin 20)]", OF _ failing calls last]
  show ?thesis by (auto simp: delays)
qed

text \<open>
  The generator always ends: whatever the providers and the callbacks do, it starts at most one attempt more than there are
  delays, and what it waits is a prefix of the normalized delays, one delay per failed attempt.
\<close>

theorem retry_ends_within_its_delays:
  "\<exists>k \<le> length (normalizeRetryDelays retryDelaysMs).
     sleeps (fst (runProviderWithRetry env retryDelaysMs)) = take k (normalizeRetryDelays retryDelaysMs)
     \<and> creations (fst (runProviderWithRetry env retryDelaysMs)) \<in> {k, Suc k}"
  using attempts_bounded[of _ _ 0] by (cases env) (force simp: runProviderWithRetry_def)+

end
