(* ===== verification/CompactorSelection.thy ===== *)
theory CompactorSelection
  imports CoordinatorScope
begin

text \<open>
  Which agent compacts a session, how large its input may be and how a retry finds its window again:
  \<open>effective-windows.mjs\<close>, \<open>select-compactor.mjs\<close>, \<open>compaction-budget.mjs\<close> and
  \<open>retry-window.mjs\<close> of \<open>src/core/compaction/\<close>. A provider class is a value of the type variable
  \<open>'p\<close>; what an instance of it answers for its context window, with \<open>None\<close> where the source catches an
  exception or finds no such method, is an argument, as are the agent manager, the plugin registry and the engine's frames.
\<close>

section \<open>Effective windows\<close>

definition DEFAULT_EFFECTIVE_CONTEXT_WINDOW_TOKENS :: int where
  "DEFAULT_EFFECTIVE_CONTEXT_WINDOW_TOKENS = 32768"

text \<open>An agent or an entry that carries one: its own data, and the class attached to it.\<close>

record 'p agent =
  ag_props :: jsval
  ag_providerClass :: "'p option"

record 'p entry =
  ey_props :: jsval
  ey_agent :: "'p agent option"
  ey_providerClass :: "'p option"

type_synonym 'p window_answer = "'p \<Rightarrow> jsval \<Rightarrow> jsval option"

definition class_or :: "'p option \<Rightarrow> 'p option \<Rightarrow> 'p option" where
  "class_or a b = (case a of Some p \<Rightarrow> Some p | None \<Rightarrow> b)"

definition entry_agent :: "'p entry \<Rightarrow> 'p agent" where
  "entry_agent e = (case ey_agent e of Some a \<Rightarrow> a | None \<Rightarrow> \<lparr>ag_props = ey_props e, ag_providerClass = ey_providerClass e\<rparr>)"

definition normalizePositiveInteger :: "jsval \<Rightarrow> int option" where
  "normalizePositiveInteger v =
     (if nullish v then None else case js_Number v of Fin q \<Rightarrow> if q < 1 then None else Some (js_trunc q) | _ \<Rightarrow> None)"

definition optional_string :: "jsval \<Rightarrow> string option" where
  "optional_string v = (case v of JStr s \<Rightarrow> if js_trim s \<noteq> [] then Some (js_trim s) else None | _ \<Rightarrow> None)"

definition resolveProviderWindow :: "'p window_answer \<Rightarrow> jsval \<Rightarrow> 'p option \<Rightarrow> int option" where
  "resolveProviderWindow ask agent providerClass =
     (case providerClass of None \<Rightarrow> None
      | Some p \<Rightarrow> (case ask p agent of None \<Rightarrow> None | Some v \<Rightarrow> normalizePositiveInteger v))"

fun catalog_loop :: "string option \<Rightarrow> string option \<Rightarrow> jsval list \<Rightarrow> int option" where
  "catalog_loop pluginID modelID [] = None"
| "catalog_loop pluginID modelID (entry # entries) =
     (if pluginID \<noteq> None \<and> optional_string (pget entry ''pluginID'') \<noteq> pluginID then catalog_loop pluginID modelID entries
      else if modelID \<noteq> None \<and> optional_string (pget entry ''id'') \<noteq> modelID then catalog_loop pluginID modelID entries
      else case normalizePositiveInteger (pget entry ''contextWindow'') of
        Some w \<Rightarrow> Some w | None \<Rightarrow> catalog_loop pluginID modelID entries)"

definition resolveCatalogWindow :: "jsval \<Rightarrow> jsval \<Rightarrow> int option" where
  "resolveCatalogWindow agent catalog =
     (let pluginID = optional_string (pget agent ''pluginID''); modelID = optional_string (pget (pget agent ''config'') ''model'')
      in if pluginID = None \<and> modelID = None then None else catalog_loop pluginID modelID (arr_of catalog))"

definition resolveEffectiveContextWindow :: "'p window_answer \<Rightarrow> 'p agent \<Rightarrow> 'p option \<Rightarrow> jsval \<Rightarrow> int" where
  "resolveEffectiveContextWindow ask agent providerClass catalog =
     (case normalizePositiveInteger (pget (pget (ag_props agent) ''config'') ''contextWindowTokens'') of
        Some w \<Rightarrow> w
      | None \<Rightarrow> (case resolveProviderWindow ask (ag_props agent) (class_or providerClass (ag_providerClass agent)) of
          Some w \<Rightarrow> w
        | None \<Rightarrow> (case resolveCatalogWindow (ag_props agent) catalog of
            Some w \<Rightarrow> w | None \<Rightarrow> DEFAULT_EFFECTIVE_CONTEXT_WINDOW_TOKENS)))"

text \<open>\<open>precomputedWindow\<close>: \<open>Number(undefined)\<close> is no number and \<open>Number(null)\<close> is below 1.\<close>

definition precomputedWindow :: "'p entry \<Rightarrow> int option" where
  "precomputedWindow e =
     (case js_Number (pget (ey_props e) ''window'') of Fin q \<Rightarrow> if q < 1 then None else Some (js_trunc q) | _ \<Rightarrow> None)"

definition entry_window :: "'p window_answer \<Rightarrow> jsval \<Rightarrow> 'p entry \<Rightarrow> int" where
  "entry_window ask catalog e =
     (case precomputedWindow e of
        Some w \<Rightarrow> w
      | None \<Rightarrow> resolveEffectiveContextWindow ask (entry_agent e) (ag_providerClass (entry_agent e)) catalog)"

definition keep_smaller :: "int option \<Rightarrow> int \<Rightarrow> int option" where
  "keep_smaller smallest w = (case smallest of None \<Rightarrow> Some w | Some s \<Rightarrow> if w < s then Some w else Some s)"

definition smallestParticipantWindow :: "'p window_answer \<Rightarrow> 'p entry list \<Rightarrow> jsval \<Rightarrow> int option" where
  "smallestParticipantWindow ask entries catalog = foldl (\<lambda>s e. keep_smaller s (entry_window ask catalog e)) None entries"

text \<open>
  \<open>resolveSessionWindows\<close>. \<open>load\<close> answers the agent, or \<open>None\<close> where the manager has none or throws;
  \<open>provider_of\<close> is the registry.
\<close>

definition participant_of :: "'p window_answer \<Rightarrow> (jsval \<Rightarrow> 'p option) \<Rightarrow> jsval \<Rightarrow> 'p agent \<Rightarrow> 'p entry" where
  "participant_of ask provider_of catalog agent =
     \<lparr>ey_props = JObj [(''window'', JNum (Fin (of_int (resolveEffectiveContextWindow ask agent (provider_of (pget (ag_props agent) ''pluginID'')) catalog))))],
      ey_agent = Some agent, ey_providerClass = provider_of (pget (ag_props agent) ''pluginID'')\<rparr>"

definition resolveSessionWindows ::
  "'p window_answer \<Rightarrow> (string \<Rightarrow> 'p agent option) \<Rightarrow> (jsval \<Rightarrow> 'p option) \<Rightarrow> jsval \<Rightarrow> jsval \<Rightarrow> 'p entry list \<times> int option" where
  "resolveSessionWindows ask load provider_of session catalog =
     (let agents = concat (map (\<lambda>k. case load k of Some a \<Rightarrow> if truthy (pget (ag_props a) ''id'') then [a] else [] | None \<Rightarrow> [])
            (normalizeIDList (pget session ''participantAgentIDs'')));
          participants = map (participant_of ask provider_of catalog) agents
      in (participants, smallestParticipantWindow ask participants catalog))"

section \<open>The compactor\<close>

datatype compactor_reason = ReasonSession | ReasonDesignated | ReasonCoordinator | ReasonLargest

record 'p participant =
  pa_id :: string
  pa_agent :: "'p agent"
  pa_window :: int

definition tagNumber :: "jsval \<Rightarrow> rat" where
  "tagNumber v = (case js_Number v of Fin q \<Rightarrow> q | _ \<Rightarrow> 0)"

definition agentTag :: "jsval \<Rightarrow> string \<Rightarrow> jsval" where
  "agentTag agent name =
     (case find (\<lambda>item. pget item ''name'' = JStr name \<and> (\<not> truthy (pget item ''target_type'') \<or> pget item ''target_type'' = JStr ''agent''))
        (arr_of (pget agent ''tags'')) of None \<Rightarrow> Undefined | Some tag \<Rightarrow> pget tag ''value'')"

definition normalizeParticipant :: "'p window_answer \<Rightarrow> (jsval \<Rightarrow> 'p option) \<Rightarrow> jsval \<Rightarrow> 'p entry \<Rightarrow> 'p participant list" where
  "normalizeParticipant ask provider_of catalog entry =
     (let agent = entry_agent entry
      in case (case optional_string (pget (ag_props agent) ''id'') of Some k \<Rightarrow> Some k | None \<Rightarrow> optional_string (pget (ey_props entry) ''id'')) of
        None \<Rightarrow> []
      | Some k \<Rightarrow> [\<lparr>pa_id = k, pa_agent = agent,
          pa_window = (case normalizePositiveInteger (pget (ey_props entry) ''window'') of
             Some w \<Rightarrow> w
           | None \<Rightarrow> resolveEffectiveContextWindow ask agent
               (class_or (ey_providerClass entry) (provider_of (pget (ag_props agent) ''pluginID''))) catalog)\<rparr>])"

definition normalizeParticipants :: "'p window_answer \<Rightarrow> (jsval \<Rightarrow> 'p option) \<Rightarrow> jsval \<Rightarrow> 'p entry list \<Rightarrow> 'p participant list" where
  "normalizeParticipants ask provider_of catalog entries = concat (map (normalizeParticipant ask provider_of catalog) entries)"

definition score_of :: "'p participant \<Rightarrow> rat" where
  "score_of p = tagNumber (agentTag (ag_props (pa_agent p)) ''compaction_score'')"

definition score_le :: "(string \<Rightarrow> string \<Rightarrow> int) \<Rightarrow> 'p participant \<Rightarrow> 'p participant \<Rightarrow> bool" where
  "score_le localeCompare a b =
     (if score_of a \<noteq> score_of b then score_of b - score_of a \<le> 0 else localeCompare (pa_id a) (pa_id b) \<le> 0)"

text \<open>\<open>resolveCoordinator\<close>: the answer with whether it counts as a designation.\<close>

definition resolveCoordinator :: "jsval \<Rightarrow> string list \<Rightarrow> session_source option \<Rightarrow> (string \<times> coordinator_source) option" where
  "resolveCoordinator session participantIDs getSession =
     (case getSession of
        None \<Rightarrow>
          (case optional_string (pget session ''coordinatorAgentID'') of None \<Rightarrow> None
           | Some localID \<Rightarrow>
               if resolveLocalCoordinatorAgentID session (JArr (map JStr participantIDs)) = Some localID then Some (localID, SrcExplicit) else None)
      | Some lookup \<Rightarrow>
          (let r = resolveSessionCoordinator (pget session ''id'') lookup None Undefined
           in case cr_coordinatorAgentID r of None \<Rightarrow> None | Some a \<Rightarrow> Some (a, cr_source r)))"

definition designated_of :: "string list \<Rightarrow> jsval list \<Rightarrow> string option" where
  "designated_of ids agents =
     (case find (\<lambda>a. case optional_string (pget a ''id'') of Some k \<Rightarrow> k \<in> set ids | None \<Rightarrow> False) agents of
        None \<Rightarrow> None | Some a \<Rightarrow> optional_string (pget a ''id''))"

definition coordinator_of :: "string list \<Rightarrow> jsval \<Rightarrow> session_source option \<Rightarrow> string option" where
  "coordinator_of ids session getSession =
     (case resolveCoordinator session ids getSession of
        Some (a, source) \<Rightarrow> if source \<in> {SrcExplicit, SrcInherited} \<and> a \<in> set ids then Some a else None
      | None \<Rightarrow> None)"

definition keep_larger :: "'p participant \<Rightarrow> 'p participant \<Rightarrow> 'p participant" where
  "keep_larger best p = (if pa_window p > pa_window best then p else best)"

definition session_bot :: "string list \<Rightarrow> jsval \<Rightarrow> string option" where
  "session_bot ids session =
     (case optional_string (pget session ''compactionAgentID'') of Some k \<Rightarrow> if k \<in> set ids then Some k else None | None \<Rightarrow> None)"

definition tagged_bots :: "(string \<Rightarrow> string \<Rightarrow> int) \<Rightarrow> 'p participant list \<Rightarrow> 'p participant list" where
  "tagged_bots localeCompare ps = sort_by (score_le localeCompare) (filter (\<lambda>q. score_of q > 0) ps)"

text \<open>
  \<open>listCompactionBots\<close> is what the agent manager answers, \<open>None\<close> where it throws or there is none.
\<close>

definition selectCompactor ::
  "'p window_answer \<Rightarrow> (jsval \<Rightarrow> 'p option) \<Rightarrow> (string \<Rightarrow> string \<Rightarrow> int) \<Rightarrow> jsval option \<Rightarrow> jsval \<Rightarrow> 'p entry list \<Rightarrow> jsval
     \<Rightarrow> session_source option \<Rightarrow> (string \<times> compactor_reason) option" where
  "selectCompactor ask provider_of localeCompare listCompactionBots session entries catalog getSession =
     (case normalizeParticipants ask provider_of catalog entries of
        [] \<Rightarrow> None
      | p # ps \<Rightarrow>
         (let ids = map pa_id (p # ps)
          in case session_bot ids session of
               Some k \<Rightarrow> Some (k, ReasonSession)
             | None \<Rightarrow> (case tagged_bots localeCompare (p # ps) of
                 t # _ \<Rightarrow> Some (pa_id t, ReasonDesignated)
               | [] \<Rightarrow> (case designated_of ids (case listCompactionBots of Some v \<Rightarrow> arr_of v | None \<Rightarrow> []) of
                   Some k \<Rightarrow> Some (k, ReasonDesignated)
                 | None \<Rightarrow> (case coordinator_of ids session getSession of
                     Some k \<Rightarrow> Some (k, ReasonCoordinator)
                   | None \<Rightarrow> Some (pa_id (foldl keep_larger p ps), ReasonLargest))))))"

section \<open>The budget of a compaction request\<close>

definition DEFAULT_COMPACTION_OUTPUT_RESERVE_TOKENS :: int where
  "DEFAULT_COMPACTION_OUTPUT_RESERVE_TOKENS = 4096"

definition SAFETY_RATIO_MIN_WINDOW_TOKENS :: int where
  "SAFETY_RATIO_MIN_WINDOW_TOKENS = 65536"

text \<open>
  \<open>live\<close> and \<open>fromClass\<close> are what \<open>resolveContextWindow\<close> of the instance and of the class
  answer, \<open>None\<close> where there is no such method or it throws.
\<close>

definition callResolveContextWindow :: "jsval option \<Rightarrow> int option" where
  "callResolveContextWindow answer = (case answer of None \<Rightarrow> None | Some v \<Rightarrow> normalizePositiveInteger v)"

definition resolveCompactorWindow ::
  "'p window_answer \<Rightarrow> 'p agent \<Rightarrow> jsval option \<Rightarrow> jsval option \<Rightarrow> 'p option \<Rightarrow> jsval \<Rightarrow> int option" where
  "resolveCompactorWindow ask compactorAgent live fromClass ProviderClass catalog =
     (case callResolveContextWindow live of
        Some w \<Rightarrow> Some w
      | None \<Rightarrow> (case callResolveContextWindow fromClass of
          Some w \<Rightarrow> Some w
        | None \<Rightarrow>
            (let resolved = resolveEffectiveContextWindow ask compactorAgent ProviderClass catalog
             in if resolved = DEFAULT_EFFECTIVE_CONTEXT_WINDOW_TOKENS then None else Some resolved)))"

definition positive_or :: "jsval \<Rightarrow> int \<Rightarrow> int" where
  "positive_or v fallback = (case normalizePositiveInteger v of Some w \<Rightarrow> w | None \<Rightarrow> fallback)"

definition nonnegative_or :: "jsval \<Rightarrow> int \<Rightarrow> int" where
  "nonnegative_or v fallback =
     (if nullish v then fallback else case js_Number v of Fin q \<Rightarrow> if q \<ge> 0 then js_trunc q else fallback | _ \<Rightarrow> fallback)"

definition normalizeSafetyRatio :: "jsval \<Rightarrow> rat" where
  "normalizeSafetyRatio v = (case js_Number v of Fin q \<Rightarrow> if 0 < q \<and> q \<le> 1 then q else 1 | _ \<Rightarrow> 1)"

text \<open>A missing \<open>outputReserveTokens\<close> or \<open>safetyRatio\<close> is given here as its default.\<close>

definition safe_window :: "jsval \<Rightarrow> jsval \<Rightarrow> jsval \<Rightarrow> int" where
  "safe_window window fallbackWindow safetyRatio =
     (let effectiveWindow = positive_or window (positive_or fallbackWindow 1); ratio = normalizeSafetyRatio safetyRatio
      in if ratio < 1 \<and> effectiveWindow \<ge> SAFETY_RATIO_MIN_WINDOW_TOKENS then max 1 \<lfloor>of_int effectiveWindow * ratio\<rfloor> else effectiveWindow)"

definition request_overhead :: "jsval \<Rightarrow> jsval \<Rightarrow> jsval \<Rightarrow> int" where
  "request_overhead instructionTokens metadataTokens outputReserveTokens =
     nonnegative_or instructionTokens 0 + nonnegative_or metadataTokens 0 + nonnegative_or outputReserveTokens 0"

definition computeCompactionBudget :: "jsval \<Rightarrow> jsval \<Rightarrow> jsval \<Rightarrow> jsval \<Rightarrow> jsval \<Rightarrow> jsval \<Rightarrow> int" where
  "computeCompactionBudget window fallbackWindow instructionTokens metadataTokens outputReserveTokens safetyRatio =
     max 1 (safe_window window fallbackWindow safetyRatio - request_overhead instructionTokens metadataTokens outputReserveTokens)"

section \<open>The window of a retry\<close>

record compaction_metadata =
  md_frameIDs :: jsval
  md_startFrameID :: jsval
  md_boundaryFrameID :: jsval
  md_boundaryOrder :: jsval
  md_contextTokens :: jsval

definition readCompactionMetadata :: "jsval \<Rightarrow> compaction_metadata" where
  "readCompactionMetadata frame =
     (let compaction = js_or (pget frame ''compaction'') (JObj []); content = js_or (pget frame ''content'') (JObj []);
          read = (\<lambda>k. js_nc (js_nc (pget compaction k) (pget content k)))
      in \<lparr>md_frameIDs = read ''frameIDs'' (JArr []), md_startFrameID = read ''startFrameID'' Null,
          md_boundaryFrameID = read ''boundaryFrameID'' Null, md_boundaryOrder = read ''boundaryOrder'' Null,
          md_contextTokens = read ''contextTokens'' Null\<rparr>)"

record retry_window =
  rw_frames :: "jsval list"
  rw_startFrameID :: jsval
  rw_boundaryFrameID :: jsval
  rw_boundaryOrder :: jsval
  rw_tokens :: jsnum
  rw_contextText :: string

definition finite_number :: "jsval \<Rightarrow> rat option" where
  "finite_number v = (case js_Number v of Fin q \<Rightarrow> Some q | _ \<Rightarrow> None)"

text \<open>\<open>get\<close> is the engine's; the stored ids are the trimmed, non-empty strings, each once.\<close>

definition buildRetryWindow :: "(string \<Rightarrow> jsval) \<Rightarrow> (jsval list \<Rightarrow> string) \<Rightarrow> jsval \<Rightarrow> retry_window option" where
  "buildRetryWindow get serializeFrames frame =
     (let metadata = readCompactionMetadata frame;
          windowFrames = filter truthy (map get (normalizeIDList (md_frameIDs metadata)))
      in if windowFrames = [] then None
         else Some \<lparr>rw_frames = windowFrames,
           rw_startFrameID = js_or (md_startFrameID metadata) (pget (hd windowFrames) ''id''),
           rw_boundaryFrameID = js_or (md_boundaryFrameID metadata) (pget (last windowFrames) ''id''),
           rw_boundaryOrder = (case finite_number (md_boundaryOrder metadata) of
               Some q \<Rightarrow> JNum (Fin q) | None \<Rightarrow> js_nc (pget (last windowFrames) ''order'') Null),
           rw_tokens = (case finite_number (md_contextTokens metadata) of Some q \<Rightarrow> Fin q | None \<Rightarrow> Fin 0),
           rw_contextText = serializeFrames windowFrames\<rparr>)"

section \<open>Windows\<close>

lemma normalizePositiveInteger_pos: "normalizePositiveInteger v = Some w \<Longrightarrow> 1 \<le> w"
  by (auto simp: normalizePositiveInteger_def js_trunc_ge1 split: if_splits jsnum.splits)

lemma catalog_loop_pos: "catalog_loop p m es = Some w \<Longrightarrow> 1 \<le> w"
  by (induction es) (auto simp: normalizePositiveInteger_pos split: if_splits option.splits)

lemma resolveEffectiveContextWindow_pos: "1 \<le> resolveEffectiveContextWindow ask agent p catalog"
  by (auto simp: resolveEffectiveContextWindow_def resolveProviderWindow_def resolveCatalogWindow_def Let_def
      DEFAULT_EFFECTIVE_CONTEXT_WINDOW_TOKENS_def dest: normalizePositiveInteger_pos catalog_loop_pos split: option.splits if_splits)

lemma keep_smaller_fold:
  "foldl (\<lambda>s e. keep_smaller s (f e)) (Some m) es = Some (Min (insert m (f ` set es)))"
proof (induction es arbitrary: m)
  case (Cons e es)
  have "keep_smaller (Some m) (f e) = Some (min m (f e))" by (auto simp: keep_smaller_def)
  moreover have "Min (insert (min m (f e)) (f ` set es)) = Min (insert m (insert (f e) (f ` set es)))"
    by (cases "es = []") (auto simp: Min_insert min.assoc)
  ultimately show ?case using Cons.IH by simp
qed simp

lemma smallestParticipantWindow_Min:
  "smallestParticipantWindow ask es catalog = (if es = [] then None else Some (Min (entry_window ask catalog ` set es)))"
proof (cases es)
  case (Cons e es')
  have "keep_smaller None (entry_window ask catalog e) = Some (entry_window ask catalog e)" by (simp add: keep_smaller_def)
  with Cons show ?thesis by (simp add: smallestParticipantWindow_def keep_smaller_fold)
qed (simp add: smallestParticipantWindow_def)

text \<open>The window computed for a participant of a session is found again on the entry.\<close>

lemma participant_window:
  "entry_window ask catalog (participant_of ask provider_of catalog a)
     = resolveEffectiveContextWindow ask a (provider_of (pget (ag_props a) ''pluginID'')) catalog"
  using resolveEffectiveContextWindow_pos[of ask a "provider_of (pget (ag_props a) ''pluginID'')" catalog]
  by (simp add: entry_window_def participant_of_def precomputedWindow_def)

section \<open>The ladder of the selection\<close>

lemma keep_larger_fold:
  "foldl keep_larger p ps \<in> set (p # ps) \<and> (\<forall>q \<in> set (p # ps). pa_window q \<le> pa_window (foldl keep_larger p ps))"
proof (induction ps arbitrary: p)
  case (Cons q ps)
  let ?b = "keep_larger p q"
  have "?b \<in> {p, q}" "pa_window p \<le> pa_window ?b" "pa_window q \<le> pa_window ?b" by (auto simp: keep_larger_def)
  with Cons.IH[of ?b] show ?case by (auto intro: order_trans)
qed simp

lemma tagged_bots_empty: "tagged_bots lc ps = [] \<Longrightarrow> q \<in> set ps \<Longrightarrow> score_of q \<le> 0"
  by (metis (mono_tags, lifting) filter_empty_conv linorder_not_less set_empty set_sort_by tagged_bots_def)

text \<open>The head of the tagged bots has the highest score, whatever \<open>localeCompare\<close> says of the ids.\<close>

lemma insert_by_head_score:
  "\<forall>q \<in> set (x # xs). score_of q \<le> score_of (hd (insert_by (score_le lc) x xs))"
  if "xs = [] \<or> (\<forall>q \<in> set xs. score_of q \<le> score_of (hd xs))"
  using that by (cases xs) (auto simp: score_le_def intro: order_trans split: if_splits)

lemma sort_by_head_score:
  "xs = [] \<or> (\<forall>q \<in> set xs. score_of q \<le> score_of (hd (sort_by (score_le lc) xs)))"
proof (induction xs)
  case (Cons x xs)
  then have "sort_by (score_le lc) xs = [] \<or> (\<forall>q \<in> set (sort_by (score_le lc) xs). score_of q \<le> score_of (hd (sort_by (score_le lc) xs)))"
    by auto
  from insert_by_head_score[OF this] show ?case by simp
qed simp

lemma tagged_bots_head:
  assumes "tagged_bots lc ps = t # ts"
  shows "t \<in> set ps" "score_of t > 0" "q \<in> set ps \<Longrightarrow> score_of q \<le> score_of t"
proof -
  let ?f = "filter (\<lambda>q. score_of q > 0) ps"
  have t: "t \<in> set ?f" using assms unfolding tagged_bots_def by (metis list.set_intros(1) set_sort_by)
  then show "t \<in> set ps" "score_of t > 0" by auto
  have "\<forall>q \<in> set ?f. score_of q \<le> score_of t" using sort_by_head_score[of ?f lc] assms t by (auto simp: tagged_bots_def)
  with \<open>score_of t > 0\<close> show "q \<in> set ps \<Longrightarrow> score_of q \<le> score_of t" by (cases "score_of q > 0") auto
qed

lemma designated_of_Some: "designated_of ids agents = Some k \<Longrightarrow> k \<in> set ids \<and> (\<exists>a \<in> set agents. optional_string (pget a ''id'') = Some k)"
  by (auto simp: designated_of_def dest!: find_SomeD split: option.splits)

lemma coordinator_of_recorded:
  assumes "coordinator_of ids session (Some src) = Some k"
  shows "\<exists>s \<in> set (cr_chain (resolveSessionCoordinator (pget session ''id'') src None Undefined)).
    recorded_coordinator (toLookup src s) = Some k"
proof -
  let ?r = "resolveSessionCoordinator (pget session ''id'') src None Undefined"
  from assms have k: "cr_coordinatorAgentID ?r = Some k" and source: "cr_source ?r \<in> {SrcExplicit, SrcInherited}"
    by (auto simp: coordinator_of_def resolveCoordinator_def Let_def split: option.splits if_splits)
  have "\<not> cr_promoted ?r"
    using source resolver_resolves[of src "pget session ''id''" Undefined None]
    by (auto simp: resolves_def split: option.splits prod.splits)
  with resolver_owner[OF k] show ?thesis by (metis resolver_chain)
qed

text \<open>The boundary order of a frame that recorded none is read as \<open>Number(null)\<close>, which is finite.\<close>

lemma missing_boundary_order_is_zero:
  "buildRetryWindow get ser frame = Some w \<Longrightarrow> md_boundaryOrder (readCompactionMetadata frame) = Null \<Longrightarrow> rw_boundaryOrder w = JNum (Fin 0)"
  by (auto simp: buildRetryWindow_def Let_def finite_number_def split: if_splits)

section \<open>Properties\<close>

text \<open>
  The compactor of a session: there is one exactly when the session has usable participants; it is always one of them, and
  the reason given is true of it: the session assigned it; or its score tag is positive and the highest of all; or the list of
  compaction bots names it and no participant carries a positive score; or a session on the chain records it as
  coordinator, a promotion not counting; or its window is the largest.
\<close>

theorem compactor_choice:
  assumes "ps = normalizeParticipants ask provider_of catalog entries"
  shows "case selectCompactor ask provider_of localeCompare bots session entries catalog (Some src) of
      None \<Rightarrow> ps = []
    | Some (k, reason) \<Rightarrow> k \<in> pa_id ` set ps \<and>
        (case reason of
           ReasonSession \<Rightarrow> optional_string (pget session ''compactionAgentID'') = Some k
         | ReasonDesignated \<Rightarrow>
             (\<exists>p \<in> set ps. pa_id p = k \<and> score_of p > 0 \<and> (\<forall>q \<in> set ps. score_of q \<le> score_of p))
             \<or> (\<exists>v a. bots = Some v \<and> a \<in> set (arr_of v) \<and> optional_string (pget a ''id'') = Some k) \<and> (\<forall>q \<in> set ps. score_of q \<le> 0)
         | ReasonCoordinator \<Rightarrow> \<exists>s \<in> set (cr_chain (resolveSessionCoordinator (pget session ''id'') src None Undefined)).
             recorded_coordinator (toLookup src s) = Some k
         | ReasonLargest \<Rightarrow> \<exists>p \<in> set ps. pa_id p = k \<and> (\<forall>q \<in> set ps. pa_window q \<le> pa_window p))"
proof (cases ps)
  case Nil
  with assms show ?thesis by (simp add: selectCompactor_def)
next
  case (Cons p ps')
  let ?bots = "case bots of Some v \<Rightarrow> arr_of v | None \<Rightarrow> []"
  have unfold: "selectCompactor ask provider_of localeCompare bots session entries catalog (Some src) =
    (case session_bot (map pa_id ps) session of Some k \<Rightarrow> Some (k, ReasonSession)
     | None \<Rightarrow> (case tagged_bots localeCompare ps of t # _ \<Rightarrow> Some (pa_id t, ReasonDesignated)
       | [] \<Rightarrow> (case designated_of (map pa_id ps) ?bots of Some k \<Rightarrow> Some (k, ReasonDesignated)
         | None \<Rightarrow> (case coordinator_of (map pa_id ps) session (Some src) of Some k \<Rightarrow> Some (k, ReasonCoordinator)
           | None \<Rightarrow> Some (pa_id (foldl keep_larger p ps'), ReasonLargest)))))"
    by (simp only: selectCompactor_def assms[symmetric] Cons list.case Let_def)
  show ?thesis
  proof (cases "session_bot (map pa_id ps) session")
    case (Some k)
    then show ?thesis by (auto simp: unfold session_bot_def split: option.splits if_splits)
  next
    case 1: None
    show ?thesis
    proof (cases "tagged_bots localeCompare ps")
      case (Cons t ts)
      from tagged_bots_head[OF this] show ?thesis by (auto simp: unfold 1 Cons)
    next
      case 2: Nil
      show ?thesis
      proof (cases "designated_of (map pa_id ps) ?bots")
        case (Some k)
        from designated_of_Some[OF this] have "k \<in> pa_id ` set ps" "\<exists>v a. bots = Some v \<and> a \<in> set (arr_of v) \<and> optional_string (pget a ''id'') = Some k"
          by (auto split: option.splits)
        with tagged_bots_empty[OF 2] show ?thesis by (simp add: unfold 1 2 Some)
      next
        case 3: None
        show ?thesis
        proof (cases "coordinator_of (map pa_id ps) session (Some src)")
          case (Some k)
          then have "k \<in> pa_id ` set ps" by (auto simp: coordinator_of_def split: option.splits if_splits)
          with coordinator_of_recorded[OF Some] show ?thesis by (simp add: unfold 1 2 3 Some)
        next
          case None
          with keep_larger_fold[of p ps', folded Cons] show ?thesis by (auto simp: unfold 1 2 3)
        qed
      qed
    qed
  qed
qed

definition plain_agent :: "string \<Rightarrow> nat \<Rightarrow> unit agent" where
  "plain_agent k window = \<lparr>ag_props = JObj [(''id'', JStr k), (''config'', JObj [(''contextWindowTokens'', JNum (Fin (of_nat window)))])],
     ag_providerClass = None\<rparr>"

definition plain_entries :: "unit entry list" where
  "plain_entries = map (\<lambda>a. \<lparr>ey_props = JObj [], ey_agent = Some a, ey_providerClass = None\<rparr>) [plain_agent ''small'' 8000, plain_agent ''large'' 200000]"

theorem compactor_choice_witness:
  "selectCompactor (\<lambda>_ _. None) (\<lambda>_. None) (\<lambda>_ _. 0) None (JObj [(''id'', JStr ''s'')]) plain_entries Undefined (Some (ArrSource []))
     = Some (''large'', ReasonLargest)
   \<and> (\<exists>p \<in> set (normalizeParticipants (\<lambda>_ _. None) (\<lambda>_. None) Undefined plain_entries). pa_id p = ''large''
        \<and> (\<forall>q \<in> set (normalizeParticipants (\<lambda>_ _. None) (\<lambda>_. None) Undefined plain_entries). pa_window q \<le> pa_window p))"
proof -
  have sel: "selectCompactor (\<lambda>_ _. None) (\<lambda>_. None) (\<lambda>_ _. 0) None (JObj [(''id'', JStr ''s'')]) plain_entries Undefined (Some (ArrSource []))
     = Some (''large'', ReasonLargest)"
    by (simp add: selectCompactor_def normalizeParticipants_def normalizeParticipant_def plain_entries_def plain_agent_def entry_agent_def
        optional_string_def resolveEffectiveContextWindow_def normalizePositiveInteger_def class_or_def session_bot_def tagged_bots_def
        score_of_def agentTag_def tagNumber_def designated_of_def coordinator_of_def resolveCoordinator_def resolveSessionCoordinator_def
        toLookup_def resolveAncestorChain_def walk_loop.simps keep_larger_def js_trim_def js_space_def walk_max_depth_def Let_def)
  with compactor_choice[OF refl, where ask = "\<lambda>_ _. None" and provider_of = "\<lambda>_. None" and localeCompare = "\<lambda>_ _. 0" and bots = None
      and session = "JObj [(''id'', JStr ''s'')]" and entries = plain_entries and catalog = Undefined and src = "ArrSource []"]
  show ?thesis by simp
qed

text \<open>
  The budget of a compaction request is at least one token and never larger than the compactor's window; and when the fixed
  overhead leaves room in the window, input of that size and the overhead together fit in it, with the share of a large window
  that the safety ratio holds back left free.
\<close>

theorem compaction_budget_fits:
  assumes "b = computeCompactionBudget window fallback instructions metadata reserve ratio"
    and "w = positive_or window (positive_or fallback 1)" and "overhead = request_overhead instructions metadata reserve"
  shows "1 \<le> b \<and> b \<le> w \<and> (overhead < safe_window window fallback ratio \<longrightarrow> b + overhead \<le> w
    \<and> (SAFETY_RATIO_MIN_WINDOW_TOKENS \<le> w \<longrightarrow> b + overhead \<le> max 1 \<lfloor>of_int w * normalizeSafetyRatio ratio\<rfloor>))"
proof -
  have w: "1 \<le> w" using assms(2) by (auto simp: positive_or_def dest: normalizePositiveInteger_pos split: option.splits)
  have ratio: "normalizeSafetyRatio ratio \<le> 1" by (auto simp: normalizeSafetyRatio_def split: jsnum.splits)
  have nonneg: "0 \<le> nonnegative_or v 0" for v by (auto simp: nonnegative_or_def js_trunc_nonneg split: jsnum.splits)
  then have overhead: "0 \<le> overhead" by (simp add: assms(3) request_overhead_def)
  have "of_int w * normalizeSafetyRatio ratio \<le> of_int w" using w ratio mult_left_mono[OF ratio, of "of_int w"] by simp
  then have le: "\<lfloor>of_int w * normalizeSafetyRatio ratio\<rfloor> \<le> w" by (simp add: floor_le_iff)
  with w have safe: "1 \<le> safe_window window fallback ratio" "safe_window window fallback ratio \<le> w"
    by (auto simp: safe_window_def Let_def assms(2)[symmetric])
  have big: "safe_window window fallback ratio \<le> max 1 \<lfloor>of_int w * normalizeSafetyRatio ratio\<rfloor>" if "SAFETY_RATIO_MIN_WINDOW_TOKENS \<le> w"
    using that ratio by (cases "normalizeSafetyRatio ratio = 1") (auto simp: safe_window_def Let_def assms(2)[symmetric])
  have b: "b = max 1 (safe_window window fallback ratio - overhead)" by (simp add: assms(1,3) computeCompactionBudget_def)
  from safe overhead w have "1 \<le> b" "b \<le> w" by (auto simp: b)
  moreover have "b + overhead = safe_window window fallback ratio" if "overhead < safe_window window fallback ratio" using that by (simp add: b)
  ultimately show ?thesis using safe big by auto
qed

theorem compaction_budget_fits_witness:
  "let b = computeCompactionBudget (JNum (Fin 100000)) Undefined (JNum (Fin 1000)) (JNum (Fin 200)) (JNum (Fin 4096)) (JNum (Fin (3/5)))
   in b = 54704 \<and> b + 5296 \<le> 100000"
proof -
  have o: "request_overhead (JNum (Fin 1000)) (JNum (Fin 200)) (JNum (Fin 4096)) = 5296"
    by (simp add: request_overhead_def nonnegative_or_def)
  have s: "safe_window (JNum (Fin 100000)) Undefined (JNum (Fin (3/5))) = 60000"
    by (simp add: safe_window_def positive_or_def normalizePositiveInteger_def normalizeSafetyRatio_def SAFETY_RATIO_MIN_WINDOW_TOKENS_def)
  have w: "(100000 :: int) = positive_or (JNum (Fin 100000)) (positive_or Undefined 1)"
    by (simp add: positive_or_def normalizePositiveInteger_def)
  from compaction_budget_fits[OF refl w o[symmetric], of "JNum (Fin (3/5))"] s
  show ?thesis by (simp add: computeCompactionBudget_def o s)
qed

end
