(* ===== verification/JSONText.thy ===== *)
theory JSONText
  imports JSValue
begin

text \<open>
  \<open>JSON.stringify\<close> without an indent, as the sources use it on the values of the model; \<open>None\<close> is its
  \<open>undefined\<close>. Numbers print as \<open>String\<close> prints them.
\<close>

definition hex_digit :: "nat \<Rightarrow> char" where
  "hex_digit n = char_of (if n < 10 then 48 + n else 87 + n)"

definition quote_char :: "char \<Rightarrow> string" where
  "quote_char c = (let n = of_char c :: nat; bs = char_of (92 :: nat) in
     if n = 34 \<or> n = 92 then [bs, c]
     else if n = 8 then [bs, CHR ''b''] else if n = 9 then [bs, CHR ''t''] else if n = 10 then [bs, CHR ''n'']
     else if n = 12 then [bs, CHR ''f''] else if n = 13 then [bs, CHR ''r'']
     else if n < 32 then bs # ''u00'' @ [hex_digit (n div 16), hex_digit (n mod 16)]
     else [c])"

definition json_quote :: "string \<Rightarrow> string" where
  "json_quote s = CHR 0x22 # concat (map quote_char s) @ [CHR 0x22]"

fun json_stringify :: "jsval \<Rightarrow> string option" where
  "json_stringify Undefined = None"
| "json_stringify Null = Some ''null''"
| "json_stringify (JBool b) = Some (if b then ''true'' else ''false'')"
| "json_stringify (JNum n) = Some (case n of Fin _ \<Rightarrow> num_string n | _ \<Rightarrow> ''null'')"
| "json_stringify (JStr s) = Some (json_quote s)"
| "json_stringify (JArr vs) =
     Some (''['' @ join_with '','' (map (\<lambda>v. case json_stringify v of None \<Rightarrow> ''null'' | Some s \<Rightarrow> s) vs) @ '']'')"
| "json_stringify (JObj ps) =
     Some (''{'' @ join_with '','' (concat (map (\<lambda>(k, v). case json_stringify v of None \<Rightarrow> [] | Some s \<Rightarrow> [json_quote k @ CHR '':'' # s]) ps)) @ ''}'')"

lemma json_stringify_Some: "v \<noteq> Undefined \<Longrightarrow> \<exists>s. json_stringify v = Some s"
  by (cases v) auto

end
