(* ===== verification/CompactionContext.thy ===== *)
theory CompactionContext
  imports JSONText FrameEngine
begin

text \<open>
  The context an agent sees and which of its frames are compacted, \<open>src/core/compaction/frame-context-builder.mjs\<close>: the
  text of a frame, the latest boundary, the frames after it, the window selected for compaction, the trigger and the trimming
  at the hard limit. The token estimator is an argument with whole numbers as answers; \<open>estimateTokens\<close> is the default.
  \<open>localeCompare\<close> is an argument.
\<close>

section \<open>Frames as text\<close>

definition COMPACTION_FRAME_TYPE :: string where
  "COMPACTION_FRAME_TYPE = ''CompactionFrame''"

definition COMPACTION_FRAME_KIND :: string where
  "COMPACTION_FRAME_KIND = ''compaction_frame''"

definition newline :: string where
  "newline = [CHR 0x0A]"

definition estimateTokens :: "string \<Rightarrow> nat" where
  "estimateTokens s = max 1 ((length s + 3) div 4)"

definition isCompactionFrame :: "jsval \<Rightarrow> bool" where
  "isCompactionFrame frame \<longleftrightarrow>
     pget frame ''type'' = JStr COMPACTION_FRAME_TYPE \<or> pget (pget frame ''content'') ''kind'' = JStr COMPACTION_FRAME_KIND"

definition or_empty :: "jsval \<Rightarrow> string" where
  "or_empty v = js_String (js_or v (JStr []))"

fun first_string :: "jsval list \<Rightarrow> string option" where
  "first_string [] = None"
| "first_string (v # vs) = (case v of JStr s \<Rightarrow> Some s | _ \<Rightarrow> first_string vs)"

text \<open>The captured message text of a \<open>UserMessage\<close>, when it is not blank.\<close>

definition captured_text :: "jsval \<Rightarrow> jsval" where
  "captured_text frame =
     (let text = pget (pget (pget frame ''content'') ''modelPrompt'') ''messageText''
      in if pget frame ''type'' = JStr ''UserMessage'' \<and> trim_or_empty text \<noteq> [] then text else Undefined)"

definition extractFrameText :: "jsval \<Rightarrow> string" where
  "extractFrameText frame =
     (let content = pget frame ''content''
      in if nullish content then []
         else if is_str content then js_String content
         else case first_string [captured_text frame, pget content ''text'', pget content ''summary'', pget content ''output''] of
           Some s \<Rightarrow> s
         | None \<Rightarrow> (case json_stringify content of Some s \<Rightarrow> s | None \<Rightarrow> []))"

definition frame_header :: "jsval \<Rightarrow> string" where
  "frame_header frame = join_with '' ''
     [''type='' @ or_empty (pget frame ''type''), ''id='' @ or_empty (pget frame ''id''),
      ''authorType='' @ or_empty (pget frame ''authorType''), ''authorID='' @ or_empty (pget frame ''authorID''),
      ''authorDisplayName='' @ or_empty (pget frame ''authorDisplayName''),
      ''createdAt='' @ or_empty (js_or (pget frame ''createdAt'') (pget frame ''timestamp''))]"

definition serializeFrameForContext :: "jsval \<Rightarrow> string" where
  "serializeFrameForContext frame =
     (if \<not> truthy frame then []
      else ''['' @ frame_header frame @ '']'' @ newline @
        (if isCompactionFrame frame
         then ''Compacted context memory:'' @ newline @
           or_empty (js_or (pget (pget frame ''content'') ''summary'') (pget (pget frame ''content'') ''text''))
         else extractFrameText frame))"

definition usable_frame :: "jsval \<Rightarrow> bool" where
  "usable_frame frame \<longleftrightarrow> truthy (pget frame ''id'') \<and> truthy (pget frame ''type'')"

definition normalizeFrames :: "jsval \<Rightarrow> jsval list" where
  "normalizeFrames frames = filter usable_frame (arr_of frames)"

definition CHUNK_SEPARATOR :: string where
  "CHUNK_SEPARATOR = newline @ newline @ ''---'' @ newline @ newline"

definition serializeFramesForCompaction :: "jsval list \<Rightarrow> string" where
  "serializeFramesForCompaction frames =
     join_with CHUNK_SEPARATOR (filter (\<lambda>t. js_trim t \<noteq> []) (map serializeFrameForContext (filter usable_frame frames)))"

section \<open>The context of an agent\<close>

definition positive_or :: "jsval \<Rightarrow> int \<Rightarrow> int" where
  "positive_or v fallback =
     (if nullish v then fallback else case js_Number v of Fin q \<Rightarrow> if q < 1 then fallback else js_trunc q | _ \<Rightarrow> fallback)"

definition nonnegative_or :: "jsval \<Rightarrow> int \<Rightarrow> int" where
  "nonnegative_or v fallback =
     (if nullish v then fallback else case js_Number v of Fin q \<Rightarrow> if q < 0 then fallback else js_trunc q | _ \<Rightarrow> fallback)"

definition normalizeRatio :: "jsval \<Rightarrow> rat \<Rightarrow> rat" where
  "normalizeRatio v fallback =
     (if nullish v then fallback else case js_Number v of Fin q \<Rightarrow> if q \<le> 0 then fallback else min q 1 | _ \<Rightarrow> fallback)"

record context_builder =
  cb_contextWindowTokens :: int
  cb_promptReserveTokens :: int
  cb_baseReserveTokens :: int
  cb_compactionTriggerRatio :: rat
  cb_hardLimitRatio :: rat
  cb_estimateTokens :: "string \<Rightarrow> nat"

text \<open>\<open>estimate\<close> is the option of that name when it is a function.\<close>

definition FrameContextBuilder :: "(string \<Rightarrow> nat) option \<Rightarrow> jsval \<Rightarrow> context_builder" where
  "FrameContextBuilder estimate options =
     (let reserve = nonnegative_or (pget options ''promptReserveTokens'') 8000
      in \<lparr>cb_contextWindowTokens = positive_or (pget options ''contextWindowTokens'') 128000,
          cb_promptReserveTokens = reserve, cb_baseReserveTokens = nonnegative_or (pget options ''baseReserveTokens'') reserve,
          cb_compactionTriggerRatio = normalizeRatio (pget options ''compactionTriggerRatio'') (7/10),
          cb_hardLimitRatio = normalizeRatio (pget options ''hardLimitRatio'') 1,
          cb_estimateTokens = (case estimate of Some e \<Rightarrow> e | None \<Rightarrow> estimateTokens)\<rparr>)"

definition frame_order :: "jsval \<Rightarrow> jsnum" where
  "frame_order frame = js_Number (js_or (pget frame ''order'') (JNum (Fin 0)))"

definition compactionBoundaryOrder :: "jsval \<Rightarrow> jsval" where
  "compactionBoundaryOrder frame =
     js_nc (js_nc (js_nc (pget (pget frame ''compaction'') ''boundaryOrder'') (pget (pget frame ''content'') ''boundaryOrder''))
       (pget frame ''order'')) (JNum (Fin 0))"

text \<open>\<open>Number(a) || 0\<close>, and the comparator of the boundaries; the difference of two equal infinities is \<open>NaN\<close>, which goes on too.\<close>

definition number_or_zero :: "jsval \<Rightarrow> jsnum" where
  "number_or_zero v = (case js_Number v of NaN \<Rightarrow> Fin 0 | n \<Rightarrow> n)"

definition boundary_le :: "(string \<Rightarrow> string \<Rightarrow> int) \<Rightarrow> jsval \<Rightarrow> jsval \<Rightarrow> bool" where
  "boundary_le localeCompare a b =
     (let order = (\<lambda>f. number_or_zero (compactionBoundaryOrder f));
          created = (\<lambda>f. number_or_zero (js_or (js_or (pget f ''createdAt'') (pget f ''timestamp'')) (JNum (Fin 0))))
      in if order a \<noteq> order b then num_lt (order a) (order b)
         else if created a \<noteq> created b then num_lt (created a) (created b)
         else localeCompare (or_empty (pget a ''id'')) (or_empty (pget b ''id'')) \<le> 0)"

definition boundary_compaction :: "jsval \<Rightarrow> bool" where
  "boundary_compaction frame \<longleftrightarrow> isCompactionFrame frame \<and> pget (pget frame ''content'') ''status'' \<noteq> JStr ''started''
     \<and> pget (pget frame ''content'') ''status'' \<noteq> JStr ''running''"

definition findLatestBoundaryCompaction :: "(string \<Rightarrow> string \<Rightarrow> int) \<Rightarrow> jsval list \<Rightarrow> jsval option" where
  "findLatestBoundaryCompaction localeCompare frames =
     (let compactFrames = sort_by (boundary_le localeCompare) (filter boundary_compaction (filter usable_frame frames))
      in if compactFrames = [] then None else Some (last compactFrames))"

text \<open>\<open>n > boundaryOrder\<close> with the boundary converted as the comparison does.\<close>

definition after_boundary :: "jsval \<Rightarrow> jsval \<Rightarrow> bool" where
  "after_boundary compaction frame = num_lt (js_Number (compactionBoundaryOrder compaction)) (frame_order frame)"

definition buildContextFramesAfterCompaction :: "jsval list \<Rightarrow> jsval option \<Rightarrow> jsval list" where
  "buildContextFramesAfterCompaction frames latestCompaction =
     (case latestCompaction of
        Some c \<Rightarrow> c # filter (\<lambda>f. pget f ''id'' \<noteq> pget c ''id'' \<and> pget f ''deleted'' \<noteq> JBool True \<and> \<not> isCompactionFrame f
            \<and> pget f ''hidden'' \<noteq> JBool True \<and> after_boundary c f) frames
      | None \<Rightarrow> filter (\<lambda>f. pget f ''deleted'' \<noteq> JBool True \<and> (pget f ''hidden'' \<noteq> JBool True \<or> isCompactionFrame f)) frames)"

definition isCompactableFrame :: "jsval \<Rightarrow> bool" where
  "isCompactableFrame frame \<longleftrightarrow> usable_frame frame \<and> pget frame ''deleted'' \<noteq> JBool True \<and> pget frame ''phantom'' \<noteq> JBool True
     \<and> (pget frame ''hidden'' \<noteq> JBool True \<or> isCompactionFrame frame)"

record compaction_window =
  cw_frames :: "jsval list"
  cw_tokens :: int
  cw_startFrameID :: jsval
  cw_boundaryFrameID :: jsval
  cw_boundaryOrder :: jsval
  cw_contextText :: string

text \<open>The loop over the candidates, with \<open>selected\<close> and \<open>tokens\<close>.\<close>

fun select_loop :: "(string \<Rightarrow> nat) \<Rightarrow> int \<Rightarrow> jsval list \<Rightarrow> int \<Rightarrow> jsval list \<Rightarrow> jsval list \<times> int" where
  "select_loop estimate tokenBudget selected tokens [] = (selected, tokens)"
| "select_loop estimate tokenBudget selected tokens (frame # candidates) =
     (if \<not> isCompactableFrame frame then select_loop estimate tokenBudget selected tokens candidates
      else let frameTokens = int (estimate (serializeFrameForContext frame))
           in if selected \<noteq> [] \<and> tokens + frameTokens > tokenBudget then (selected, tokens)
              else select_loop estimate tokenBudget (selected @ [frame]) (tokens + frameTokens) candidates)"

text \<open>\<open>activeIndex\<close> is \<open>None\<close> for the \<open>-1\<close> of \<open>findIndex\<close>.\<close>

definition candidate_frames :: "jsval list \<Rightarrow> jsval option \<Rightarrow> nat option \<Rightarrow> jsval list" where
  "candidate_frames frames latestCompaction activeIndex =
     (let activeOrder = (case activeIndex of Some i \<Rightarrow> if i < length frames then frame_order (frames ! i) else PosInf | None \<Rightarrow> PosInf)
      in case latestCompaction of
        Some c \<Rightarrow> c # filter (\<lambda>f. pget f ''id'' \<noteq> pget c ''id'' \<and> \<not> isCompactionFrame f \<and> after_boundary c f
            \<and> num_lt (frame_order f) activeOrder) frames
      | None \<Rightarrow> take (case activeIndex of Some i \<Rightarrow> i | None \<Rightarrow> length frames) frames)"

definition selectCompactionWindow ::
  "(string \<Rightarrow> nat) \<Rightarrow> jsval list \<Rightarrow> jsval option \<Rightarrow> nat option \<Rightarrow> int \<Rightarrow> compaction_window" where
  "selectCompactionWindow estimate frames latestCompaction activeIndex tokenBudget =
     (case select_loop estimate tokenBudget [] 0 (candidate_frames frames latestCompaction activeIndex) of (selected, tokens) \<Rightarrow>
        \<lparr>cw_frames = selected, cw_tokens = tokens,
         cw_startFrameID = (if selected = [] then Null else js_or (pget (hd selected) ''id'') Null),
         cw_boundaryFrameID = (if selected = [] then Null else js_or (pget (last selected) ''id'') Null),
         cw_boundaryOrder = (if selected = [] then Null else js_nc (pget (last selected) ''order'') Null),
         cw_contextText = serializeFramesForCompaction selected\<rparr>)"

definition countFrameTokens :: "(string \<Rightarrow> nat) \<Rightarrow> jsval list \<Rightarrow> int" where
  "countFrameTokens estimate frames = (\<Sum>f\<leftarrow>filter usable_frame frames. int (estimate (serializeFrameForContext f)))"

record context_result =
  cx_frames :: "jsval list"
  cx_latestCompaction :: "jsval option"
  cx_contextTokens :: int
  cx_hardLimit :: int
  cx_exceedsOwnWindow :: bool
  cx_shouldCompact :: bool
  cx_shouldWaitForCompaction :: bool
  cx_compactionWindow :: compaction_window

definition build :: "(string \<Rightarrow> string \<Rightarrow> int) \<Rightarrow> context_builder \<Rightarrow> jsval \<Rightarrow> jsval \<Rightarrow> context_result" where
  "build localeCompare cb frames options =
     (let allFrames = normalizeFrames frames;
          activeFrameID = trim_or_empty (pget options ''activeFrameID'');
          contextWindowTokens = positive_or (pget options ''agentContextWindowTokens'')
            (positive_or (pget options ''contextWindowTokens'') (cb_contextWindowTokens cb));
          baseReserveTokens = nonnegative_or (pget options ''baseReserveTokens'')
            (nonnegative_or (pget options ''promptReserveTokens'') (cb_baseReserveTokens cb));
          triggerRatio = normalizeRatio (pget options ''compactionTriggerRatio'') (cb_compactionTriggerRatio cb);
          hardLimitRatio = normalizeRatio (pget options ''hardLimitRatio'') (cb_hardLimitRatio cb);
          hardLimit = max 1 (contextWindowTokens - baseReserveTokens);
          latest = findLatestBoundaryCompaction localeCompare allFrames;
          contextFrames = buildContextFramesAfterCompaction allFrames latest;
          contextTokens = countFrameTokens (cb_estimateTokens cb) contextFrames + nonnegative_or (pget options ''usageOverheadTokens'') 0;
          activeIndex = (if activeFrameID \<noteq> [] then find_index (\<lambda>f. pget f ''id'' = JStr activeFrameID) allFrames else Some (length allFrames));
          window = selectCompactionWindow (cb_estimateTokens cb) allFrames latest activeIndex
            (positive_or (pget options ''compactionContextBudgetTokens'') hardLimit)
      in \<lparr>cx_frames = contextFrames, cx_latestCompaction = latest, cx_contextTokens = contextTokens, cx_hardLimit = hardLimit,
          cx_exceedsOwnWindow = contextTokens \<ge> hardLimit,
          cx_shouldCompact = (contextTokens \<ge> \<lfloor>of_int hardLimit * triggerRatio\<rfloor> \<and> cw_frames window \<noteq> []),
          cx_shouldWaitForCompaction = (contextTokens \<ge> \<lfloor>of_int hardLimit * hardLimitRatio\<rfloor> \<and> cw_frames window \<noteq> []),
          cx_compactionWindow = window\<rparr>)"

definition builder_context :: "(string \<Rightarrow> string \<Rightarrow> int) \<Rightarrow> jsval \<Rightarrow> jsval list \<times> jsval option" where
  "builder_context localeCompare frames =
     (let allFrames = normalizeFrames frames; latest = findLatestBoundaryCompaction localeCompare allFrames
      in (buildContextFramesAfterCompaction allFrames latest, latest))"

function trim_loop :: "(string \<Rightarrow> nat) \<Rightarrow> jsval set \<Rightarrow> int \<Rightarrow> jsval list \<Rightarrow> int \<Rightarrow> nat \<Rightarrow> jsval list \<times> int \<times> nat" where
  "trim_loop estimate preserve budget list tokens trimmed =
     (if tokens > budget
      then case find_index (\<lambda>f. pget f ''id'' \<notin> preserve) list of
          None \<Rightarrow> (list, tokens, trimmed)
        | Some i \<Rightarrow> trim_loop estimate preserve budget (take i list @ drop (Suc i) list)
            (tokens - int (estimate (serializeFrameForContext (list ! i)))) (trimmed + 1)
      else (list, tokens, trimmed))"
  by pat_completeness auto
termination
  by (relation "measure (\<lambda>(_, _, _, list, _, _). length list)") (auto dest: find_index_Some)

declare trim_loop.simps [simp del]

definition trimToFit :: "(string \<Rightarrow> nat) \<Rightarrow> jsval \<Rightarrow> jsval \<Rightarrow> jsval \<Rightarrow> jsval \<Rightarrow> jsval list \<times> int \<times> nat" where
  "trimToFit estimate frames tokenBudget preserveFrameIDs usageOverheadTokens =
     (let list = normalizeFrames frames;
          preserve = set (filter (\<lambda>v. is_str v \<and> truthy v) (arr_of preserveFrameIDs))
      in trim_loop estimate preserve (positive_or tokenBudget 1) list
           (nonnegative_or usageOverheadTokens 0 + countFrameTokens estimate list) 0)"

section \<open>The selected window\<close>

lemma select_loop_prefix:
  assumes "select_loop estimate budget selected tokens cands = (w, t)"
  shows "\<exists>ys zs. filter isCompactableFrame cands = ys @ zs \<and> w = selected @ ys \<and> (selected = [] \<and> zs \<noteq> [] \<longrightarrow> ys \<noteq> [])
    \<and> t = tokens + (\<Sum>f\<leftarrow>ys. int (estimate (serializeFrameForContext f)))
    \<and> (length w \<le> 1 \<or> selected = w \<or> t \<le> budget)"
  using assms
proof (induction estimate budget selected tokens cands rule: select_loop.induct)
  case (1 estimate tokenBudget selected tokens)
  then show ?case by auto
next
  case (2 estimate tokenBudget selected tokens frame candidates)
  let ?ft = "int (estimate (serializeFrameForContext frame))"
  show ?case
  proof (cases "isCompactableFrame frame")
    case False
    with 2 show ?thesis by simp
  next
    case c: True
    show ?thesis
    proof (cases "selected \<noteq> [] \<and> tokens + ?ft > tokenBudget")
      case True
      with 2(3) c show ?thesis by (auto simp: Let_def)
    next
      case False
      with 2(3) c have "select_loop estimate tokenBudget (selected @ [frame]) (tokens + ?ft) candidates = (w, t)" by (simp add: Let_def)
      from 2(2)[OF _ refl _ this] c False obtain ys zs where r: "filter isCompactableFrame candidates = ys @ zs" "w = (selected @ [frame]) @ ys"
        "t = tokens + ?ft + (\<Sum>f\<leftarrow>ys. int (estimate (serializeFrameForContext f)))" "length w \<le> 1 \<or> selected @ [frame] = w \<or> t \<le> tokenBudget"
        by auto
      have "length w \<le> 1 \<or> selected = w \<or> t \<le> tokenBudget"
        using r(2-4) False by (cases ys) auto
      with r c show ?thesis by (intro exI[of _ "frame # ys"] exI[of _ zs]) auto
    qed
  qed
qed

text \<open>
  Frames whose orders are positive numbers; and those whose orders also increase along the list. The frame engine lists frames by
  their clocks first, so the second is a condition on a session, not something every list has.
\<close>

definition orders_positive :: "jsval list \<Rightarrow> bool" where
  "orders_positive frames \<longleftrightarrow> (\<forall>f \<in> set frames. usable_frame f \<and> (\<exists>q > 0. pget f ''order'' = JNum (Fin q)))"

definition in_order :: "jsval list \<Rightarrow> bool" where
  "in_order frames \<longleftrightarrow> sorted_wrt (\<lambda>f g. num_lt (frame_order f) (frame_order g)) frames"

definition order_num :: "jsval \<Rightarrow> rat" where
  "order_num f = (case pget f ''order'' of JNum (Fin q) \<Rightarrow> q | _ \<Rightarrow> 0)"

lemma positive_order:
  assumes "orders_positive frames" "f \<in> set frames"
  shows "frame_order f = Fin (order_num f)" "pget f ''order'' = JNum (Fin (order_num f))" "0 < order_num f"
  using assms by (auto simp: orders_positive_def frame_order_def order_num_def)

lemma num_lt_Fin [simp]: "num_lt (Fin p) (Fin q) = (p < q)" "num_lt (Fin p) PosInf"
  by (auto simp: num_lt_def)

lemma in_order_sorted:
  assumes num: "orders_positive frames" and "in_order frames"
  shows "sorted_wrt (\<lambda>f g. order_num f < order_num g) frames"
proof -
  have "sorted_wrt (\<lambda>f g. num_lt (frame_order f) (frame_order g)) frames" using assms(2) by (simp add: in_order_def)
  then show ?thesis by (rule sorted_wrt_mono_rel[rotated]) (simp add: positive_order(1)[OF num])
qed

text \<open>A finished compaction frame that records the boundary of the window it was made from.\<close>

definition compacts :: "compaction_window \<Rightarrow> jsval \<Rightarrow> bool" where
  "compacts w c \<longleftrightarrow> usable_frame c \<and> boundary_compaction c \<and> pget (pget c ''compaction'') ''boundaryOrder'' = cw_boundaryOrder w"

definition boundary_key :: "jsval \<Rightarrow> rat" where
  "boundary_key f = (case number_or_zero (compactionBoundaryOrder f) of Fin q \<Rightarrow> q | _ \<Rightarrow> 0)"

definition numeric_boundary :: "jsval \<Rightarrow> bool" where
  "numeric_boundary f \<longleftrightarrow> js_Number (compactionBoundaryOrder f) = Fin (boundary_key f)"

lemma boundary_le_key:
  assumes "numeric_boundary a" "numeric_boundary b"
  shows "boundary_le lc a b \<Longrightarrow> boundary_key a \<le> boundary_key b" "\<not> boundary_le lc a b \<Longrightarrow> boundary_key b \<le> boundary_key a"
  using assms by (auto simp: boundary_le_def numeric_boundary_def number_or_zero_def Let_def split: if_splits)

lemma sort_by_key:
  assumes "\<And>a b. a \<in> set xs \<Longrightarrow> b \<in> set xs \<Longrightarrow> le a b \<Longrightarrow> key a \<le> (key b :: 'k :: linorder)"
    and "\<And>a b. a \<in> set xs \<Longrightarrow> b \<in> set xs \<Longrightarrow> \<not> le a b \<Longrightarrow> key b \<le> key a"
  shows "sorted_wrt (\<lambda>a b. key a \<le> key b) (sort_by le xs)"
  using assms
proof (induction xs)
  case (Cons x xs)
  have ins: "sorted_wrt (\<lambda>a b. key a \<le> key b) ys \<Longrightarrow> set ys \<subseteq> set (x # xs) \<Longrightarrow> sorted_wrt (\<lambda>a b. key a \<le> key b) (insert_by le x ys)" for ys
  proof (induction ys)
    case (Cons y ys)
    then show ?case using Cons.prems \<open>\<And>b a. a \<in> set (x # xs) \<Longrightarrow> b \<in> set (x # xs) \<Longrightarrow> le a b \<Longrightarrow> key a \<le> key b\<close>[of x y]
        \<open>\<And>b a. a \<in> set (x # xs) \<Longrightarrow> b \<in> set (x # xs) \<Longrightarrow> \<not> le a b \<Longrightarrow> key b \<le> key a\<close>[of x y]
      by (auto intro: order_trans)
  qed simp
  have "sorted_wrt (\<lambda>a b. key a \<le> key b) (sort_by le xs)" by (rule Cons.IH) (use Cons.prems in auto)
  then show ?case using ins[of "sort_by le xs"] by auto
qed simp

lemma last_sort_by_key:
  assumes "\<And>a b. a \<in> set xs \<Longrightarrow> b \<in> set xs \<Longrightarrow> le a b \<Longrightarrow> key a \<le> (key b :: 'k :: linorder)"
    and "\<And>a b. a \<in> set xs \<Longrightarrow> b \<in> set xs \<Longrightarrow> \<not> le a b \<Longrightarrow> key b \<le> key a"
    and "x \<in> set xs"
  shows "key x \<le> key (last (sort_by le xs))"
proof -
  have s: "sorted_wrt (\<lambda>a b. key a \<le> key b) (sort_by le xs)" by (rule sort_by_key) (use assms in auto)
  have ne: "sort_by le xs \<noteq> []" and x: "x \<in> set (sort_by le xs)" using assms(3) by (auto simp flip: set_empty)
  then obtain ys where ys: "sort_by le xs = ys @ [last (sort_by le xs)]" by (metis append_butlast_last_id)
  from x have "x \<in> set ys \<or> x = last (sort_by le xs)" by (subst (asm) ys) auto
  moreover from s have "\<forall>y \<in> set ys. key y \<le> key (last (sort_by le xs))" by (subst (asm) ys) (auto simp: sorted_wrt_append)
  ultimately show ?thesis by auto
qed

lemma latest_boundary:
  assumes "findLatestBoundaryCompaction lc frames = latest" "\<forall>f \<in> set frames. boundary_compaction f \<longrightarrow> numeric_boundary f"
  shows "latest = None \<Longrightarrow> f \<in> set frames \<Longrightarrow> usable_frame f \<Longrightarrow> \<not> boundary_compaction f"
    and "latest = Some l \<Longrightarrow> l \<in> set frames \<and> usable_frame l \<and> boundary_compaction l"
    and "latest = Some l \<Longrightarrow> f \<in> set frames \<Longrightarrow> usable_frame f \<Longrightarrow> boundary_compaction f \<Longrightarrow> boundary_key f \<le> boundary_key l"
proof -
  let ?xs = "filter boundary_compaction (filter usable_frame frames)" and ?le = "boundary_le lc"
  show "latest = None \<Longrightarrow> f \<in> set frames \<Longrightarrow> usable_frame f \<Longrightarrow> \<not> boundary_compaction f"
    using assms(1) by (auto simp: findLatestBoundaryCompaction_def Let_def simp flip: set_empty split: if_splits)
  assume l: "latest = Some l"
  then have ne: "sort_by ?le ?xs \<noteq> []" and last: "l = last (sort_by ?le ?xs)"
    using assms(1) by (auto simp: findLatestBoundaryCompaction_def Let_def split: if_splits)
  then have "l \<in> set ?xs" by (metis last_in_set set_sort_by)
  then show "l \<in> set frames \<and> usable_frame l \<and> boundary_compaction l" by auto
  assume f: "f \<in> set frames" "usable_frame f" "boundary_compaction f"
  show "boundary_key f \<le> boundary_key l"
    unfolding last by (rule last_sort_by_key) (use boundary_le_key assms(2) f in auto)
qed

lemma boundary_compaction_frame: "boundary_compaction f \<Longrightarrow> isCompactionFrame f"
  by (simp add: boundary_compaction_def)

text \<open>
  The ordinary frames among the candidates: those of the context up to the active frame. \<open>ordinary\<close> frames are the ones
  that a compaction is about.
\<close>

definition ordinary :: "jsval \<Rightarrow> bool" where
  "ordinary f \<longleftrightarrow> usable_frame f \<and> \<not> isCompactionFrame f \<and> pget f ''deleted'' \<noteq> JBool True \<and> pget f ''hidden'' \<noteq> JBool True
     \<and> pget f ''phantom'' \<noteq> JBool True"

lemma ordinary_compactable: "ordinary f \<Longrightarrow> isCompactableFrame f"
  by (simp add: ordinary_def isCompactableFrame_def)

lemma sorted_last: "sorted_wrt (\<lambda>f g. k f < (k g :: rat)) us \<Longrightarrow> f \<in> set us \<Longrightarrow> k f \<le> k (last us)"
proof (induction us)
  case (Cons u us)
  then show ?case by (cases us) (auto intro: less_imp_le dest!: bspec[of _ _ "last us"])
qed simp

text \<open>The candidates after the latest compaction frame that can be compacted, and the frame before them.\<close>

definition active_order :: "jsval list \<Rightarrow> nat option \<Rightarrow> jsnum" where
  "active_order frames activeIndex =
     (case activeIndex of Some i \<Rightarrow> if i < length frames then frame_order (frames ! i) else PosInf | None \<Rightarrow> PosInf)"

definition later_candidates :: "jsval list \<Rightarrow> jsval option \<Rightarrow> nat option \<Rightarrow> jsval list" where
  "later_candidates frames latest activeIndex = filter isCompactableFrame (case latest of
      Some l \<Rightarrow> filter (\<lambda>x. pget x ''id'' \<noteq> pget l ''id'' \<and> \<not> isCompactionFrame x \<and> after_boundary l x
          \<and> num_lt (frame_order x) (active_order frames activeIndex)) frames
    | None \<Rightarrow> take (case activeIndex of Some i \<Rightarrow> i | None \<Rightarrow> length frames) frames)"

definition first_candidate :: "jsval option \<Rightarrow> jsval list" where
  "first_candidate latest = (case latest of Some l \<Rightarrow> if isCompactableFrame l then [l] else [] | None \<Rightarrow> [])"

text \<open>A window that ends with a frame that is no compaction frame is a stretch of the later candidates behind the first one.\<close>

lemma window_parts:
  assumes w: "w = selectCompactionWindow estimate frames latest activeIndex budget"
    and latest: "\<forall>l. latest = Some l \<longrightarrow> isCompactionFrame l"
    and ne: "cw_frames w \<noteq> []" and last: "\<not> isCompactionFrame (last (cw_frames w))"
  obtains us zs where "cw_frames w = first_candidate latest @ us" "later_candidates frames latest activeIndex = us @ zs" "us \<noteq> []"
proof -
  obtain ys zs where sel: "filter isCompactableFrame (candidate_frames frames latest activeIndex) = ys @ zs" "cw_frames w = ys"
    using select_loop_prefix[of estimate budget "[]" 0 "candidate_frames frames latest activeIndex"]
    by (fastforce simp: w selectCompactionWindow_def split: prod.splits)
  have cand: "first_candidate latest @ later_candidates frames latest activeIndex = ys @ zs"
    using sel(1) by (auto simp: candidate_frames_def first_candidate_def later_candidates_def active_order_def Let_def split: option.splits)
  have pre: "\<forall>x \<in> set (first_candidate latest). isCompactionFrame x" using latest by (auto simp: first_candidate_def split: option.splits)
  have ys: "ys \<noteq> []" "\<not> isCompactionFrame (last ys)" using ne last sel(2) by auto
  from cand obtain us where "first_candidate latest = ys @ us \<and> us @ later_candidates frames latest activeIndex = zs
      \<or> first_candidate latest @ us = ys \<and> later_candidates frames latest activeIndex = us @ zs" by (auto simp: append_eq_append_conv2)
  then show thesis
  proof
    assume "first_candidate latest = ys @ us \<and> us @ later_candidates frames latest activeIndex = zs"
    with ys pre have False by (metis Un_iff last_in_set set_append)
    then show thesis ..
  next
    assume u: "first_candidate latest @ us = ys \<and> later_candidates frames latest activeIndex = us @ zs"
    with ys pre have "us \<noteq> []" by (metis append_Nil2 last_in_set)
    with u sel(2) that show thesis by blast
  qed
qed

text \<open>Its last frame, whose order is the boundary, whatever order the frames are listed in.\<close>

lemma window_last:
  assumes num: "orders_positive frames"
    and w: "w = selectCompactionWindow estimate frames latest activeIndex budget"
    and latest: "\<forall>l. latest = Some l \<longrightarrow> isCompactionFrame l"
    and ne: "cw_frames w \<noteq> []" and last: "\<not> isCompactionFrame (last (cw_frames w))"
  shows "last (cw_frames w) \<in> set frames" "cw_boundaryOrder w = JNum (Fin (order_num (last (cw_frames w))))"
    and "latest = Some l \<Longrightarrow> after_boundary l (last (cw_frames w))"
proof -
  obtain us zs where us: "cw_frames w = first_candidate latest @ us" "later_candidates frames latest activeIndex = us @ zs" "us \<noteq> []"
    using window_parts[OF w latest ne last] .
  then have b: "last (cw_frames w) \<in> set (later_candidates frames latest activeIndex)" by simp
  then show inb: "last (cw_frames w) \<in> set frames" by (auto simp: later_candidates_def dest: in_set_takeD split: option.splits)
  show "cw_boundaryOrder w = JNum (Fin (order_num (last (cw_frames w))))"
    using ne positive_order(2)[OF num inb]
    by (auto simp: w selectCompactionWindow_def split: prod.splits if_splits)
  show "latest = Some l \<Longrightarrow> after_boundary l (last (cw_frames w))" using b by (auto simp: later_candidates_def)
qed

lemma window_boundary:
  assumes num: "orders_positive frames" "in_order frames"
    and w: "w = selectCompactionWindow estimate frames latest activeIndex budget"
    and latest: "\<forall>l. latest = Some l \<longrightarrow> isCompactionFrame l"
    and ne: "cw_frames w \<noteq> []" and last: "\<not> isCompactionFrame (last (cw_frames w))"
    and f: "ordinary f" "f \<in> set (buildContextFramesAfterCompaction frames latest)"
  shows "f \<in> set (cw_frames w) \<longleftrightarrow> order_num f \<le> order_num (last (cw_frames w))"
proof -
  let ?b = "last (cw_frames w)" and ?rest = "later_candidates frames latest activeIndex"
  obtain us zs where us: "cw_frames w = first_candidate latest @ us" "?rest = us @ zs" "us \<noteq> []"
    using window_parts[OF w latest ne last] .
  have sorted: "sorted_wrt (\<lambda>f g. order_num f < order_num g) frames" by (rule in_order_sorted[OF num])
  then have sorted_rest: "sorted_wrt (\<lambda>f g. order_num f < order_num g) ?rest"
    by (auto simp: later_candidates_def sorted_wrt_filter sorted_wrt_take split: option.splits)
  have b: "?b = last us" "?b \<in> set ?rest" using us by auto
  have inb: "?b \<in> set frames" by (rule window_last(1)[OF num(1) w latest ne last])
  have inf: "f \<in> set frames"
    using f latest by (auto simp: buildContextFramesAfterCompaction_def ordinary_def split: option.splits)
  have "f \<in> set (cw_frames w) \<longleftrightarrow> f \<in> set us"
    using us(1) latest f(1) by (auto simp: ordinary_def first_candidate_def split: option.splits if_splits)
  moreover have "f \<in> set us \<Longrightarrow> order_num f \<le> order_num ?b"
    using sorted_rest us(2) b(1) by (auto simp: sorted_wrt_append intro: sorted_last)
  moreover have "order_num f \<le> order_num ?b \<Longrightarrow> f \<in> set us"
  proof (rule ccontr)
    assume le: "order_num f \<le> order_num ?b" and "f \<notin> set us"
    have "f \<notin> set zs"
    proof
      assume "f \<in> set zs"
      with sorted_rest us b(1) have "order_num ?b < order_num f" by (auto simp: sorted_wrt_append)
      with le show False by simp
    qed
    with \<open>f \<notin> set us\<close> have notin: "f \<notin> set ?rest" using us(2) by simp
    show False
    proof (cases latest)
      case None
      let ?n = "case activeIndex of Some i \<Rightarrow> i | None \<Rightarrow> length frames"
      from notin None inf ordinary_compactable[OF f(1)] have "f \<in> set (drop ?n frames)" "?b \<in> set (take ?n frames)"
        using b(2) by (auto simp: later_candidates_def) (metis Un_iff append_take_drop_id set_append)
      moreover have "sorted_wrt (\<lambda>f g. order_num f < order_num g) (take ?n frames @ drop ?n frames)" using sorted by simp
      ultimately have "order_num ?b < order_num f" unfolding sorted_wrt_append by blast
      with le show False by simp
    next
      case (Some l)
      with f inf ordinary_compactable[OF f(1)] notin latest have "\<not> num_lt (frame_order f) (active_order frames activeIndex)"
        by (auto simp: later_candidates_def buildContextFramesAfterCompaction_def ordinary_def)
      moreover have "num_lt (frame_order ?b) (active_order frames activeIndex)" using b(2) Some by (auto simp: later_candidates_def)
      ultimately show False using le positive_order(1)[OF num(1) inf] positive_order(1)[OF num(1) inb]
        by (cases "active_order frames activeIndex") (auto simp: num_lt_def)
    qed
  qed
  ultimately show ?thesis by blast
qed

lemma normalize_numbered: "orders_positive frames \<Longrightarrow> normalizeFrames (JArr frames) = frames"
  by (auto simp: orders_positive_def normalizeFrames_def intro: filter_True)

lemma build_window:
  assumes "orders_positive frames"
  obtains activeIndex budget where "cx_compactionWindow (build lc cb (JArr frames) options)
      = selectCompactionWindow (cb_estimateTokens cb) frames (findLatestBoundaryCompaction lc frames) activeIndex budget"
    "cx_frames (build lc cb (JArr frames) options) = buildContextFramesAfterCompaction frames (findLatestBoundaryCompaction lc frames)"
  using assms by (simp add: build_def Let_def normalize_numbered)

section \<open>Trimming at the hard limit\<close>

lemma trim_loop_props:
  assumes "trim_loop estimate preserve budget frames tokens n = (frames', tokens', n')"
    and "tokens = overhead + (\<Sum>f\<leftarrow>frames. int (estimate (serializeFrameForContext f)))"
  shows "tokens' = overhead + (\<Sum>f\<leftarrow>frames'. int (estimate (serializeFrameForContext f)))
    \<and> filter (\<lambda>f. pget f ''id'' \<in> preserve) frames' = filter (\<lambda>f. pget f ''id'' \<in> preserve) frames
    \<and> (tokens' \<le> budget \<or> (\<forall>f \<in> set frames'. pget f ''id'' \<in> preserve)) \<and> length frames' + n' = length frames + n"
  using assms
proof (induction "length frames" arbitrary: frames tokens n rule: less_induct)
  case less
  let ?i = "find_index (\<lambda>f. pget f ''id'' \<notin> preserve) frames"
  show ?case
  proof (cases "tokens > budget \<and> ?i \<noteq> None")
    case False
    then have "tokens > budget \<Longrightarrow> ?i = None" by blast
    then have "trim_loop estimate preserve budget frames tokens n = (frames, tokens, n)" by (subst trim_loop.simps) simp
    moreover have "tokens \<le> budget \<or> (\<forall>f \<in> set frames. pget f ''id'' \<in> preserve)" using False find_index_None[of "\<lambda>f. pget f ''id'' \<notin> preserve" frames] by auto
    ultimately show ?thesis using less.prems by auto
  next
    case True
    then obtain i where i: "?i = Some i" by auto
    note props = find_index_Some[OF i]
    let ?rest = "take i frames @ drop (Suc i) frames" and ?t = "int (estimate (serializeFrameForContext (frames ! i)))"
    have split: "frames = take i frames @ frames ! i # drop (Suc i) frames" using props id_take_nth_drop by blast
    from less.prems(1) True i have step: "trim_loop estimate preserve budget ?rest (tokens - ?t) (n + 1) = (frames', tokens', n')"
      by (subst (asm) trim_loop.simps) simp
    have "tokens = overhead + (\<Sum>f\<leftarrow>take i frames @ frames ! i # drop (Suc i) frames. int (estimate (serializeFrameForContext f)))"
      using less.prems(2) split by simp
    then have "tokens - ?t = overhead + (\<Sum>f\<leftarrow>?rest. int (estimate (serializeFrameForContext f)))" by simp
    moreover have "length ?rest < length frames" using conjunct1[OF props] by (cases "length frames") simp_all
    ultimately have "tokens' = overhead + (\<Sum>f\<leftarrow>frames'. int (estimate (serializeFrameForContext f)))
      \<and> filter (\<lambda>f. pget f ''id'' \<in> preserve) frames' = filter (\<lambda>f. pget f ''id'' \<in> preserve) ?rest
      \<and> (tokens' \<le> budget \<or> (\<forall>f \<in> set frames'. pget f ''id'' \<in> preserve)) \<and> length frames' + n' = length ?rest + (n + 1)"
      using less.hyps[OF _ step] by blast
    moreover have "filter (\<lambda>f. pget f ''id'' \<in> preserve) ?rest = filter (\<lambda>f. pget f ''id'' \<in> preserve) frames"
    proof -
      have "filter (\<lambda>f. pget f ''id'' \<in> preserve) frames
        = filter (\<lambda>f. pget f ''id'' \<in> preserve) (take i frames) @ filter (\<lambda>f. pget f ''id'' \<in> preserve) (frames ! i # drop (Suc i) frames)"
        by (metis split filter_append)
      with props show ?thesis by simp
    qed
    moreover have "length ?rest + (n + 1) = length frames + n" using conjunct1[OF props] by (cases "length frames") simp_all
    ultimately show ?thesis by metis
  qed
qed

text \<open>What the next context keeps: the ordinary frames past the order of the last compacted frame.\<close>

lemma next_context_by_order:
  assumes "orders_positive frames" "\<forall>x \<in> set frames. boundary_compaction x \<longrightarrow> numeric_boundary x"
    and "r = build lc cb (JArr frames) options" "w = cx_compactionWindow r"
    and "cw_frames w \<noteq> []" "\<not> isCompactionFrame (last (cw_frames w))"
    and "compacts w c" "pget c ''id'' \<notin> (\<lambda>x. pget x ''id'') ` set frames"
    and "ordinary f" "f \<in> set (cx_frames r)"
  shows "hd (fst (builder_context lc (JArr (frames @ [c])))) = c
    \<and> (f \<in> set (fst (builder_context lc (JArr (frames @ [c])))) \<longleftrightarrow> order_num (last (cw_frames w)) < order_num f)"
proof -
  let ?latest = "findLatestBoundaryCompaction lc frames" and ?b = "last (cw_frames w)"
  note latest = latest_boundary[OF refl assms(2), of lc]
  obtain i budget where w: "w = selectCompactionWindow (cb_estimateTokens cb) frames ?latest i budget"
    "cx_frames r = buildContextFramesAfterCompaction frames ?latest"
    using build_window[OF assms(1), of lc cb options] assms(3,4) by metis
  have l: "\<forall>l. ?latest = Some l \<longrightarrow> isCompactionFrame l" using latest(2) boundary_compaction_frame by blast
  have f: "f \<in> set (buildContextFramesAfterCompaction frames ?latest)" using assms(10) w(2) by simp
  note window = window_last[OF assms(1) w(1) l assms(5,6)]
  have cbo: "compactionBoundaryOrder c = JNum (Fin (order_num ?b))"
    using assms(7) window(2) by (simp add: compacts_def compactionBoundaryOrder_def)
  then have key: "boundary_key c = order_num ?b" "numeric_boundary c"
    by (simp_all add: boundary_key_def numeric_boundary_def number_or_zero_def)
  have c: "usable_frame c" "boundary_compaction c" using assms(7) by (simp_all add: compacts_def)
  have older: "boundary_key x < order_num ?b" if x: "x \<in> set frames" "boundary_compaction x" for x
  proof -
    have u: "usable_frame x" using assms(1) x(1) by (simp add: orders_positive_def)
    with latest(1) x obtain l where l: "?latest = Some l" by (cases ?latest) auto
    from latest(2)[OF l] assms(2) have "numeric_boundary l" by blast
    with window(3)[OF l] have "boundary_key l < order_num ?b"
      using positive_order(1)[OF assms(1) window(1)] by (simp add: after_boundary_def numeric_boundary_def)
    with latest(3)[OF l x(1) u x(2)] show ?thesis by simp
  qed
  have "\<forall>x \<in> set (frames @ [c]). boundary_compaction x \<longrightarrow> numeric_boundary x" using assms(2) key(2) by auto
  note latest' = latest_boundary[OF refl this, of lc]
  obtain l' where l': "findLatestBoundaryCompaction lc (frames @ [c]) = Some l'"
    using latest'(1)[of c] c by (cases "findLatestBoundaryCompaction lc (frames @ [c])") auto
  have "l' = c"
    using latest'(2)[OF l'] latest'(3)[OF l', of c] c key(1) older[of l'] by fastforce
  moreover have "normalizeFrames (JArr (frames @ [c])) = frames @ [c]"
    using normalize_numbered[OF assms(1)] c by (simp add: normalizeFrames_def)
  ultimately have ctx: "fst (builder_context lc (JArr (frames @ [c]))) = buildContextFramesAfterCompaction (frames @ [c]) (Some c)"
    by (simp add: builder_context_def l' Let_def)
  have inf: "f \<in> set frames" using f assms(9) l by (auto simp: buildContextFramesAfterCompaction_def ordinary_def split: option.splits)
  have "f \<noteq> c" using assms(9) c boundary_compaction_frame by (auto simp: ordinary_def)
  moreover have "after_boundary c f \<longleftrightarrow> order_num ?b < order_num f"
    using positive_order(1)[OF assms(1) inf] by (simp add: after_boundary_def cbo)
  moreover have "pget f ''id'' \<noteq> pget c ''id''" using assms(8) inf by (metis image_eqI)
  ultimately have "f \<in> set (buildContextFramesAfterCompaction (frames @ [c]) (Some c)) \<longleftrightarrow> order_num ?b < order_num f"
    using assms(9) inf by (auto simp: buildContextFramesAfterCompaction_def ordinary_def)
  then show ?thesis unfolding ctx by (auto simp: buildContextFramesAfterCompaction_def)
qed

section \<open>Properties\<close>

text \<open>
  C16: What a compaction does to memory, when the window ends with an ordinary frame, the finished compaction records its boundary
  and the frames have positive orders: the next context starts with the compaction frame, and an ordinary frame of the old context
  is in it exactly when its order is past the order of the last compacted frame. So memory is conserved when the frames are listed in
  the order of their numbers: every ordinary frame of the old context is either one of those that were compacted or still in the
  new context, never both and never neither. A frame listed out of its order is not safe (the two lemmas after the theorem).
\<close>

theorem compaction_conserves_memory:
  assumes "orders_positive frames" "\<forall>x \<in> set frames. boundary_compaction x \<longrightarrow> numeric_boundary x"
    and "r = build lc cb (JArr frames) options" "w = cx_compactionWindow r"
    and "cw_frames w \<noteq> []" "\<not> isCompactionFrame (last (cw_frames w))"
    and "compacts w c" "pget c ''id'' \<notin> (\<lambda>x. pget x ''id'') ` set frames"
    and "ordinary f" "f \<in> set (cx_frames r)"
  shows "hd (fst (builder_context lc (JArr (frames @ [c])))) = c
    \<and> (f \<in> set (fst (builder_context lc (JArr (frames @ [c])))) \<longleftrightarrow> order_num (last (cw_frames w)) < order_num f)
    \<and> (in_order frames \<longrightarrow> (f \<in> set (fst (builder_context lc (JArr (frames @ [c])))) \<longleftrightarrow> f \<notin> set (cw_frames w)))"
proof -
  note next_context = next_context_by_order[OF assms]
  obtain i budget where w: "w = selectCompactionWindow (cb_estimateTokens cb) frames (findLatestBoundaryCompaction lc frames) i budget"
    "cx_frames r = buildContextFramesAfterCompaction frames (findLatestBoundaryCompaction lc frames)"
    using build_window[OF assms(1), of lc cb options] assms(3,4) by metis
  have l: "\<forall>l. findLatestBoundaryCompaction lc frames = Some l \<longrightarrow> isCompactionFrame l"
    using latest_boundary[OF refl assms(2), of lc] boundary_compaction_frame by blast
  have "in_order frames \<Longrightarrow> f \<in> set (cw_frames w) \<longleftrightarrow> order_num f \<le> order_num (last (cw_frames w))"
    using window_boundary[OF assms(1) _ w(1) l assms(5,6,9)] assms(10) w(2) by simp
  then show ?thesis using next_context by auto
qed

definition numbered_message :: "string \<Rightarrow> rat \<Rightarrow> jsval" where
  "numbered_message k n = JObj [(''id'', JStr k), (''type'', JStr ''UserMessage''), (''order'', JNum (Fin n)), (''content'', JObj [(''text'', JStr ''hello'')])]"

definition compaction_at :: "string \<Rightarrow> rat \<Rightarrow> rat \<Rightarrow> jsval" where
  "compaction_at k n boundary = JObj [(''id'', JStr k), (''type'', JStr COMPACTION_FRAME_TYPE), (''order'', JNum (Fin n)),
     (''compaction'', JObj [(''boundaryOrder'', JNum (Fin boundary))]),
     (''content'', JObj [(''status'', JStr ''complete''), (''summary'', JStr ''notes'')])]"

lemma example_text:
  "length (serializeFrameForContext (numbered_message k n)) = 80 + length k" "length (serializeFrameForContext (compaction_at k n b)) = 110 + length k"
  "usable_frame (numbered_message k n) = (k \<noteq> [])" "usable_frame (compaction_at k n b) = (k \<noteq> [])"
  "\<not> isCompactionFrame (numbered_message k n)" "boundary_compaction (compaction_at k n b)" "isCompactionFrame (compaction_at k n b)"
  "isCompactableFrame (numbered_message k n) = (k \<noteq> [])" "isCompactableFrame (compaction_at k n b) = (k \<noteq> [])"
  "numbered_message k n = numbered_message k' n' \<longleftrightarrow> k = k' \<and> n = n'"
  by (simp_all add: numbered_message_def compaction_at_def serializeFrameForContext_def isCompactionFrame_def newline_def usable_frame_def
      boundary_compaction_def COMPACTION_FRAME_TYPE_def extractFrameText_def captured_text_def Let_def frame_header_def or_empty_def
      isCompactableFrame_def js_or_def)

text \<open>
  The other case: when the next frame does not fit beside the old compaction frame, the window is that frame alone, and the
  boundary recorded is its own order, which is past the frames that came while it was made. Those are in no window and not in
  the next context.
\<close>

definition cb_default :: context_builder where
  "cb_default = FrameContextBuilder None (JObj [])"

lemma singleton_window_loses_frames:
  "let frames = [numbered_message ''m9'' 9, compaction_at ''c'' 11 8];
       r = build (\<lambda>_ _. 0) cb_default (JArr frames) (JObj [(''compactionContextBudgetTokens'', JNum (Fin 40))]);
       w = cx_compactionWindow r
   in cx_frames r = [compaction_at ''c'' 11 8, numbered_message ''m9'' 9] \<and> cw_frames w = [compaction_at ''c'' 11 8]
     \<and> cw_boundaryOrder w = JNum (Fin 11)
     \<and> fst (builder_context (\<lambda>_ _. 0) (JArr (frames @ [compaction_at ''d'' 12 11]))) = [compaction_at ''d'' 12 11]"
proof -
  let ?m = "numbered_message ''m9'' 9" and ?c = "compaction_at ''c'' 11 8" and ?d = "compaction_at ''d'' 12 11"
  have norm: "normalizeFrames (JArr [?m, ?c]) = [?m, ?c]" "normalizeFrames (JArr [?m, ?c, ?d]) = [?m, ?c, ?d]"
    by (simp_all add: normalizeFrames_def example_text)
  have nb: "\<not> boundary_compaction ?m" using example_text(5) boundary_compaction_frame by blast
  have le: "boundary_le (\<lambda>_ _. 0) ?c ?d" by (simp add: boundary_le_def compactionBoundaryOrder_def compaction_at_def number_or_zero_def)
  have latest: "findLatestBoundaryCompaction (\<lambda>_ _. 0) [?m, ?c] = Some ?c" "findLatestBoundaryCompaction (\<lambda>_ _. 0) [?m, ?c, ?d] = Some ?d"
    using nb le by (simp_all add: findLatestBoundaryCompaction_def example_text)
  have reads: "pget ?m ''id'' = JStr ''m9''" "pget ?c ''id'' = JStr ''c''" "pget ?d ''id'' = JStr ''d''"
    "pget ?m ''deleted'' = Undefined" "pget ?m ''hidden'' = Undefined" "frame_order ?m = Fin 9"
    "js_Number (compactionBoundaryOrder ?c) = Fin 8" "js_Number (compactionBoundaryOrder ?d) = Fin 11" "pget ?c ''order'' = JNum (Fin 11)"
    by (simp_all add: numbered_message_def compaction_at_def frame_order_def compactionBoundaryOrder_def)
  have after: "after_boundary ?c ?m" "\<not> after_boundary ?d ?m" by (simp_all add: after_boundary_def reads)
  have tokens: "estimateTokens (serializeFrameForContext ?m) = 21" "estimateTokens (serializeFrameForContext ?c) = 28"
    by (simp_all add: estimateTokens_def example_text)
  have "select_loop estimateTokens 40 [] 0 [?c, ?m] = ([?c], 28)" by (simp add: example_text tokens Let_def)
  moreover have "candidate_frames [?m, ?c] (Some ?c) (Some (length [?m, ?c])) = [?c, ?m]"
    by (simp add: candidate_frames_def reads after example_text)
  ultimately show ?thesis
    by (simp add: build_def builder_context_def norm latest Let_def buildContextFramesAfterCompaction_def reads after example_text
        selectCompactionWindow_def positive_or_def cb_default_def FrameContextBuilder_def)
qed

text \<open>Three messages of 21 tokens each and a budget for two: the first two are compacted.\<close>

definition three_messages :: "rat \<Rightarrow> rat \<Rightarrow> rat \<Rightarrow> jsval list" where
  "three_messages p q r = [numbered_message ''m1'' p, numbered_message ''m2'' q, numbered_message ''m3'' r]"

definition for_two :: "jsval list \<Rightarrow> context_result" where
  "for_two frames = build (\<lambda>_ _. 0) cb_default (JArr frames) (JObj [(''compactionContextBudgetTokens'', JNum (Fin 45))])"

lemma message_reads:
  "pget (numbered_message k n) ''order'' = JNum (Fin n)" "pget (numbered_message k n) ''id'' = JStr k"
  "pget (numbered_message k n) ''deleted'' = Undefined" "pget (numbered_message k n) ''hidden'' = Undefined"
  "pget (numbered_message k n) ''phantom'' = Undefined" "order_num (numbered_message k n) = n"
  "frame_order (numbered_message k n) = Fin n" "ordinary (numbered_message (x # k) n)" "\<not> boundary_compaction (numbered_message k n)"
proof -
  show "\<not> boundary_compaction (numbered_message k n)" using example_text(5) boundary_compaction_frame by blast
  show r: "pget (numbered_message k n) ''order'' = JNum (Fin n)" "pget (numbered_message k n) ''id'' = JStr k"
    "pget (numbered_message k n) ''deleted'' = Undefined" "pget (numbered_message k n) ''hidden'' = Undefined"
    "pget (numbered_message k n) ''phantom'' = Undefined" for k n
    by (simp_all add: numbered_message_def)
  then show "order_num (numbered_message k n) = n" "frame_order (numbered_message k n) = Fin n"
    by (simp_all add: order_num_def frame_order_def js_or_def)
  show "ordinary (numbered_message (x # k) n)" by (simp add: ordinary_def example_text r)
qed

lemma three_compacted:
  assumes "0 < p" "0 < q" "0 < r"
  shows "orders_positive (three_messages p q r)" "cw_frames (cx_compactionWindow (for_two (three_messages p q r))) = take 2 (three_messages p q r)"
    "cx_frames (for_two (three_messages p q r)) = three_messages p q r"
    "compacts (cx_compactionWindow (for_two (three_messages p q r))) (compaction_at ''c'' 4 q)"
proof -
  let ?fs = "three_messages p q r"
  show num: "orders_positive ?fs" using assms by (auto simp: orders_positive_def three_messages_def example_text message_reads)
  have latest: "findLatestBoundaryCompaction (\<lambda>_ _. 0) ?fs = None"
    by (simp add: findLatestBoundaryCompaction_def three_messages_def example_text message_reads)
  have tokens: "estimateTokens (serializeFrameForContext (numbered_message [a, b] n)) = 21" for a b n by (simp add: estimateTokens_def example_text)
  have "select_loop estimateTokens 45 [] 0 ?fs = (take 2 ?fs, 42)" by (simp add: three_messages_def example_text tokens Let_def)
  moreover have "candidate_frames ?fs None (Some (length ?fs)) = ?fs" by (simp add: candidate_frames_def)
  ultimately have "cw_frames (cx_compactionWindow (for_two ?fs)) = take 2 ?fs \<and> cw_boundaryOrder (cx_compactionWindow (for_two ?fs)) = JNum (Fin q)
      \<and> cx_frames (for_two ?fs) = ?fs"
    by (simp add: for_two_def build_def normalize_numbered[OF num] latest Let_def buildContextFramesAfterCompaction_def
        selectCompactionWindow_def positive_or_def cb_default_def FrameContextBuilder_def)
      (simp add: three_messages_def message_reads js_nc_def)
  then show "cw_frames (cx_compactionWindow (for_two ?fs)) = take 2 ?fs" "cx_frames (for_two ?fs) = ?fs"
    "compacts (cx_compactionWindow (for_two ?fs)) (compaction_at ''c'' 4 q)"
    by (simp_all add: compacts_def example_text) (simp add: compaction_at_def)
qed

lemma after_three:
  assumes "0 < p" "0 < q" "0 < r" "f \<in> set (three_messages p q r)"
  shows "f \<in> set (fst (builder_context (\<lambda>_ _. 0) (JArr (three_messages p q r @ [compaction_at ''c'' 4 q])))) \<longleftrightarrow> q < order_num f"
proof -
  have c: "pget (compaction_at ''c'' 4 q) ''id'' = JStr ''c''" by (simp add: compaction_at_def)
  have "ordinary f" using assms(4) by (auto simp: three_messages_def message_reads)
  from next_context_by_order[OF three_compacted(1)[OF assms(1-3)] _ for_two_def refl _ _ three_compacted(4)[OF assms(1-3)] _ this]
  show ?thesis using assms(4) three_compacted(2,3)[OF assms(1-3)] c
    by (auto simp: three_messages_def message_reads example_text)
qed

text \<open>
  The frame engine lists a frame by its clocks, and an agent message by the clock it was closed at, so orders need not increase
  along the list. A message listed behind the last compacted frame with a smaller order is lost: it is in no window and not in the
  next context. A compacted message with a larger order is there twice, in the summary and in the next context.
\<close>

lemma listed_late_is_lost:
  "numbered_message ''m3'' 2 \<in> set (cx_frames (for_two (three_messages 1 3 2)))
   \<and> numbered_message ''m3'' 2 \<notin> set (cw_frames (cx_compactionWindow (for_two (three_messages 1 3 2))))
   \<and> numbered_message ''m3'' 2 \<notin> set (fst (builder_context (\<lambda>_ _. 0) (JArr (three_messages 1 3 2 @ [compaction_at ''c'' 4 3]))))"
  using after_three[of 1 3 2 "numbered_message ''m3'' 2"] three_compacted(2,3)[of 1 3 2]
  by (simp add: three_messages_def message_reads example_text)

lemma listed_early_is_doubled:
  "numbered_message ''m1'' 3 \<in> set (cw_frames (cx_compactionWindow (for_two (three_messages 3 1 2))))
   \<and> numbered_message ''m1'' 3 \<in> set (fst (builder_context (\<lambda>_ _. 0) (JArr (three_messages 3 1 2 @ [compaction_at ''c'' 4 1]))))"
  using after_three[of 3 1 2 "numbered_message ''m1'' 3"] three_compacted(2)[of 3 1 2]
  by (simp add: three_messages_def message_reads example_text)

theorem compaction_conserves_memory_witness:
  "let frames = three_messages 1 2 3; w = cx_compactionWindow (for_two frames);
       context' = fst (builder_context (\<lambda>_ _. 0) (JArr (frames @ [compaction_at ''c'' 4 2])))
   in hd context' = compaction_at ''c'' 4 2 \<and> numbered_message ''m3'' 3 \<in> set context' \<and> numbered_message ''m3'' 3 \<notin> set (cw_frames w)"
proof -
  let ?fs = "three_messages 1 2 3" and ?c = "compaction_at ''c'' 4 2"
  note t = three_compacted[of 1 2 3, simplified]
  have "in_order ?fs" by (simp add: in_order_def three_messages_def message_reads)
  moreover have "pget ?c ''id'' = JStr ''c''" by (simp add: compaction_at_def)
  ultimately show ?thesis
    using compaction_conserves_memory[OF t(1) _ for_two_def refl _ _ t(4) _ message_reads(8), of "CHR ''m''" "''3''" 3] t(2,3)
    by (simp add: Let_def three_messages_def message_reads example_text)
qed

end
