(* ===== verification/ChunkedCompaction.thy ===== *)
theory ChunkedCompaction
  imports CompactionContext
begin

text \<open>
  Compaction in pieces, \<open>src/core/compaction/chunked-compaction.mjs\<close>: the frames are split, oldest first, into
  chunks that each fit the budget; a frame too large alone is truncated with a marker that counts what was left out; the
  summaries are compacted together until they fit, and when the depth is exhausted the oldest frames are dropped. The injected
  \<open>compactOnce\<close> may answer differently at every call: it is a function of the calls before and of the frames it is
  given, and it may throw.
\<close>

definition MAX_CHUNK_DEPTH :: int where
  "MAX_CHUNK_DEPTH = 4"

definition DEFAULT_CHARS_PER_TOKEN :: nat where
  "DEFAULT_CHARS_PER_TOKEN = 4"

definition TRUNCATED_FRAME_TYPE :: string where
  "TRUNCATED_FRAME_TYPE = ''TruncatedFrame''"

section \<open>Chunks\<close>

record chunk =
  ck_frames :: "jsval list"
  ck_oversized :: bool

definition close_chunk :: "jsval list option \<Rightarrow> chunk list" where
  "close_chunk current = (case current of None \<Rightarrow> [] | Some fs \<Rightarrow> [\<lparr>ck_frames = fs, ck_oversized = False\<rparr>])"

fun plan_loop :: "(string \<Rightarrow> nat) \<Rightarrow> nat \<Rightarrow> nat \<Rightarrow> jsval list option \<Rightarrow> nat \<Rightarrow> jsval list \<Rightarrow> chunk list" where
  "plan_loop estimate budget separatorTokens current currentTokens [] = close_chunk current"
| "plan_loop estimate budget separatorTokens current currentTokens (frame # frames) =
     (let frameTokens = estimate (serializeFrameForContext frame);
          added = (if current \<noteq> None then frameTokens + separatorTokens else frameTokens)
      in if frameTokens > budget
         then close_chunk current @ \<lparr>ck_frames = [frame], ck_oversized = True\<rparr> # plan_loop estimate budget separatorTokens None 0 frames
         else if current \<noteq> None \<and> currentTokens + added > budget
         then close_chunk current @ plan_loop estimate budget separatorTokens (Some [frame]) frameTokens frames
         else plan_loop estimate budget separatorTokens (Some ((case current of Some fs \<Rightarrow> fs | None \<Rightarrow> []) @ [frame])) (currentTokens + added) frames)"

definition planCompactionChunks :: "(string \<Rightarrow> nat) \<Rightarrow> jsval \<Rightarrow> jsval \<Rightarrow> chunk list" where
  "planCompactionChunks estimate frames budgetTokens =
     plan_loop estimate (nat (positive_or budgetTokens 1)) (estimate CHUNK_SEPARATOR) None 0 (normalizeFrames frames)"

section \<open>Truncation\<close>

definition truncation_marker :: "nat \<Rightarrow> string" where
  "truncation_marker omitted = ''[truncated: '' @ nat_digits omitted @ '' characters omitted]''"

definition truncated_frame :: "jsval \<Rightarrow> string \<Rightarrow> jsval" where
  "truncated_frame frame text' =
     JObj [(''id'', pget frame ''id''), (''type'', JStr TRUNCATED_FRAME_TYPE), (''content'', JObj [(''text'', JStr text')])]"

text \<open>
  The characters kept beside a marker that counts \<open>omitted\<close>, and the loop that settles the count; the subtraction on
  \<open>nat\<close> is the \<open>Math.max(0, ...)\<close> of the source.
\<close>

definition kept_chars :: "nat \<Rightarrow> nat \<Rightarrow> nat \<Rightarrow> nat" where
  "kept_chars maxChars headerLength omitted = maxChars - headerLength - 1 - length (truncation_marker omitted)"

fun settle :: "nat \<Rightarrow> nat \<Rightarrow> nat \<Rightarrow> nat \<Rightarrow> nat \<Rightarrow> nat" where
  "settle 0 maxChars headerLength textLength omitted = omitted"
| "settle (Suc attempts) maxChars headerLength textLength omitted =
     (let nextOmitted = textLength - kept_chars maxChars headerLength omitted
      in if nextOmitted = omitted then omitted else settle attempts maxChars headerLength textLength nextOmitted)"

definition truncateFrameToBudget :: "(string \<Rightarrow> nat) \<Rightarrow> nat \<Rightarrow> jsval \<Rightarrow> jsval" where
  "truncateFrameToBudget estimate budgetTokens frame =
     (let serialized = serializeFrameForContext frame
      in if estimate serialized \<le> budgetTokens then frame
         else let maxChars = budgetTokens * DEFAULT_CHARS_PER_TOKEN;
                  header = serializeFrameForContext (truncated_frame frame []);
                  omitted = settle 6 maxChars (length header) (length serialized) (length serialized);
                  marker = truncation_marker omitted;
                  keep = kept_chars maxChars (length header) omitted
              in truncated_frame frame (if keep > 0 then take keep serialized @ newline @ marker else marker))"

section \<open>Dropping the oldest frames\<close>

definition createMarkerFrame :: "string \<Rightarrow> jsval" where
  "createMarkerFrame text' =
     JObj [(''id'', JStr (''compaction-trim-marker-'' @ nat_digits (length text'))), (''type'', JStr ''TruncationNote''),
       (''content'', JObj [(''text'', JStr text')])]"

definition withMarker :: "jsval list \<Rightarrow> nat \<Rightarrow> jsval list" where
  "withMarker frames droppedCount =
     createMarkerFrame (''[trimmed: '' @ nat_digits droppedCount @ '' older frame(s) omitted to fit the compactor window]'') # frames"

text \<open>\<open>while (working.length > 1 && too large) working.shift()\<close>, where the size may depend on how many were dropped.\<close>

fun drop_oldest :: "(jsval list \<Rightarrow> nat \<Rightarrow> bool) \<Rightarrow> jsval list \<Rightarrow> nat \<Rightarrow> jsval list \<times> nat" where
  "drop_oldest tooLarge [] droppedCount = ([], droppedCount)"
| "drop_oldest tooLarge (f # fs) droppedCount =
     (if fs \<noteq> [] \<and> tooLarge (f # fs) droppedCount then drop_oldest tooLarge fs (droppedCount + 1) else (f # fs, droppedCount))"

record trimmed =
  tm_frames :: "jsval list"
  tm_droppedCount :: nat
  tm_truncated :: bool

definition over_budget :: "(string \<Rightarrow> nat) \<Rightarrow> nat \<Rightarrow> jsval list \<Rightarrow> bool" where
  "over_budget estimate budget frames = (estimate (serializeFramesForCompaction frames) > budget)"

definition trimOldestToFit :: "(string \<Rightarrow> nat) \<Rightarrow> jsval \<Rightarrow> jsval \<Rightarrow> trimmed" where
  "trimOldestToFit estimate frames budgetTokens =
     (let budget = nat (positive_or budgetTokens 1);
          (working, dropped) = drop_oldest (\<lambda>w _. over_budget estimate budget w) (normalizeFrames frames) 0
      in if working = [] then \<lparr>tm_frames = [createMarkerFrame ''[trimmed: older frames omitted to fit the compactor window]''],
            tm_droppedCount = dropped, tm_truncated = False\<rparr>
         else if tl working = [] \<and> over_budget estimate budget working
         then \<lparr>tm_frames = [truncateFrameToBudget estimate budget (hd working)], tm_droppedCount = dropped, tm_truncated = True\<rparr>
         else if dropped = 0 then \<lparr>tm_frames = working, tm_droppedCount = dropped, tm_truncated = False\<rparr>
         else case drop_oldest (\<lambda>w d. over_budget estimate budget (withMarker w d)) working dropped of
           (working', dropped') \<Rightarrow>
             if \<not> over_budget estimate budget (withMarker working' dropped')
             then \<lparr>tm_frames = withMarker working' dropped', tm_droppedCount = dropped', tm_truncated = False\<rparr>
             else if tl working' = []
             then \<lparr>tm_frames = [truncateFrameToBudget estimate budget (hd working')], tm_droppedCount = dropped', tm_truncated = True\<rparr>
             else \<lparr>tm_frames = working', tm_droppedCount = dropped', tm_truncated = False\<rparr>)"

section \<open>The compaction\<close>

definition createSummaryFrame :: "nat \<times> string \<Rightarrow> jsval" where
  "createSummaryFrame p = (case p of (index, text') \<Rightarrow>
     JObj [(''id'', JStr (''compaction-summary-'' @ nat_digits (index + 1))), (''type'', JStr ''CompactionSummary''),
       (''content'', JObj [(''text'', JStr text')])])"

type_synonym compact_fn = "jsval list list \<Rightarrow> jsval list \<Rightarrow> jsval + jsval"

definition chunk_group :: "(string \<Rightarrow> nat) \<Rightarrow> nat \<Rightarrow> chunk \<Rightarrow> jsval list" where
  "chunk_group estimate budget c =
     (if ck_oversized c then [truncateFrameToBudget estimate budget (hd (ck_frames c))] else ck_frames c)"

text \<open>The loop over the chunks: the calls made so far, and the summaries that are not blank, or what a call threw.\<close>

fun summarize_chunks :: "compact_fn \<Rightarrow> jsval list list \<Rightarrow> string list \<Rightarrow> jsval list list \<Rightarrow> jsval list list \<times> (jsval + string list)" where
  "summarize_chunks compactOnce calls summaries [] = (calls, Inr summaries)"
| "summarize_chunks compactOnce calls summaries (g # groups) =
     (case compactOnce calls g of
        Inl e \<Rightarrow> (calls @ [g], Inl e)
      | Inr summary \<Rightarrow> summarize_chunks compactOnce (calls @ [g])
          (case summary of JStr s \<Rightarrow> if js_trim s \<noteq> [] then summaries @ [s] else summaries | _ \<Rightarrow> summaries) groups)"

function chunked_loop :: "(string \<Rightarrow> nat) \<Rightarrow> compact_fn \<Rightarrow> nat \<Rightarrow> nat \<Rightarrow> nat \<Rightarrow> jsval list list \<Rightarrow> jsval list \<Rightarrow> jsval list list \<times> (jsval + jsval)" where
  "chunked_loop estimate compactOnce budget limit depth calls frames =
     (let list = filter usable_frame frames
      in if list = [] then (calls, Inr (JStr []))
         else let chunks = plan_loop estimate budget (estimate CHUNK_SEPARATOR) None 0 list
              in if length chunks = 1 \<and> \<not> ck_oversized (hd chunks) then (calls @ [list], compactOnce calls list)
                 else if depth \<ge> limit
                 then (let trimmed = trimOldestToFit estimate (JArr list) (JNum (Fin (of_nat budget)))
                       in (calls @ [tm_frames trimmed], compactOnce calls (tm_frames trimmed)))
                 else (case summarize_chunks compactOnce calls [] (map (chunk_group estimate budget) chunks) of
                     (calls', Inl e) \<Rightarrow> (calls', Inl e)
                   | (calls', Inr []) \<Rightarrow> (calls', Inr (JStr []))
                   | (calls', Inr [s]) \<Rightarrow> (calls', Inr (JStr s))
                   | (calls', Inr summaries) \<Rightarrow>
                       chunked_loop estimate compactOnce budget limit (depth + 1) calls' (map createSummaryFrame (enumerate 0 summaries))))"
  by pat_completeness auto
termination by (relation "measure (\<lambda>(_, _, _, limit, depth, _, _). limit - depth)") auto

declare chunked_loop.simps [simp del]

text \<open>The calls of \<open>compactOnce\<close> in order, and what the compaction answers.\<close>

definition runChunkedCompaction :: "(string \<Rightarrow> nat) \<Rightarrow> compact_fn option \<Rightarrow> jsval \<Rightarrow> jsval \<Rightarrow> jsval \<Rightarrow> jsval \<Rightarrow> jsval list list \<times> (jsval + jsval)" where
  "runChunkedCompaction estimate compactOnce frames budgetTokens depth maxDepth =
     (if normalizeFrames frames = [] then ([], Inr (JStr []))
      else case compactOnce of
        None \<Rightarrow> ([], Inl (JObj [(''message'', JStr ''runChunkedCompaction requires a compactOnce function'')]))
      | Some f \<Rightarrow> chunked_loop estimate f (nat (positive_or budgetTokens 1)) (nat (positive_or maxDepth MAX_CHUNK_DEPTH))
          (nat (nonnegative_or depth 0)) [] (normalizeFrames frames))"

section \<open>What a chunk holds\<close>

text \<open>What the proofs use of a token estimator: longer texts are not smaller, and a text is not larger than its parts together.\<close>

locale token_estimator =
  fixes estimate :: "string \<Rightarrow> nat"
  assumes estimate_mono: "length s \<le> length t \<Longrightarrow> estimate s \<le> estimate t"
    and estimate_append: "estimate (s @ t) \<le> estimate s + estimate t"
begin

definition chunk_tokens :: "jsval list \<Rightarrow> nat" where
  "chunk_tokens fs = (\<Sum>f\<leftarrow>fs. estimate (serializeFrameForContext f)) + estimate CHUNK_SEPARATOR * (length fs - 1)"

lemma join_bound:
  "ts \<noteq> [] \<Longrightarrow> estimate (join_with sep (filter P ts)) \<le> (\<Sum>t\<leftarrow>ts. estimate t) + estimate sep * (length ts - 1)"
proof (induction ts rule: induct_list012)
  case 1
  then show ?case by simp
next
  case (2 t)
  then show ?case using estimate_mono[of "[]" t] by simp
next
  case (3 t u us)
  let ?F = "filter P (u # us)" and ?B = "(\<Sum>t\<leftarrow>u # us. estimate t) + estimate sep * length us"
  from 3 have IH: "estimate (join_with sep ?F) \<le> ?B" by simp
  have rhs: "(\<Sum>t\<leftarrow>t # u # us. estimate t) + estimate sep * (length (t # u # us) - 1) = estimate t + estimate sep + ?B" by simp
  have "estimate (join_with sep (t # ?F)) \<le> estimate t + estimate sep + ?B"
  proof (cases ?F)
    case Nil
    then show ?thesis by (simp del: filter.simps)
  next
    case (Cons x xs)
    have "estimate (t @ sep @ join_with sep ?F) \<le> estimate t + (estimate sep + estimate (join_with sep ?F))"
      using estimate_append[of t "sep @ join_with sep ?F"] estimate_append[of sep "join_with sep ?F"] by linarith
    with IH show ?thesis unfolding Cons by simp
  qed
  with IH rhs show ?case by (cases "P t") (simp_all del: filter.simps(2) add: filter.simps(2)[of P t])
qed

lemma chunk_text_bound:
  assumes "fs \<noteq> []" "\<forall>f \<in> set fs. usable_frame f"
  shows "estimate (serializeFramesForCompaction fs) \<le> chunk_tokens fs"
  using join_bound[of "map serializeFrameForContext fs" CHUNK_SEPARATOR "\<lambda>t. js_trim t \<noteq> []"] assms
  by (simp add: serializeFramesForCompaction_def chunk_tokens_def o_def)

lemma plan_loop_chunks:
  assumes "case current of None \<Rightarrow> True | Some c \<Rightarrow> c \<noteq> [] \<and> currentTokens = chunk_tokens c \<and> chunk_tokens c \<le> budget"
    and "c \<in> set (plan_loop estimate budget (estimate CHUNK_SEPARATOR) current (if current = None then 0 else currentTokens) fs)"
  shows "ck_frames c \<noteq> [] \<and> (if ck_oversized c then \<exists>f. ck_frames c = [f] \<and> estimate (serializeFrameForContext f) > budget
    else chunk_tokens (ck_frames c) \<le> budget)"
  using assms
proof (induction fs arbitrary: current currentTokens)
  case Nil
  then show ?case by (auto simp: close_chunk_def split: option.splits)
next
  case (Cons f fs)
  let ?t = "estimate (serializeFrameForContext f)"
  have single: "chunk_tokens [f] = ?t" by (simp add: chunk_tokens_def)
  have more: "cur \<noteq> [] \<Longrightarrow> chunk_tokens (cur @ [f]) = chunk_tokens cur + (?t + estimate CHUNK_SEPARATOR)" for cur
    by (cases cur) (simp_all add: chunk_tokens_def)
  show ?case
  proof (cases current)
    case None
    then show ?thesis
      using Cons.IH[where current = None and currentTokens = 0] Cons.IH[where current = "Some [f]" and currentTokens = ?t] Cons.prems(2) single by (auto simp: Let_def close_chunk_def split: if_splits)
  next
    case (Some cur)
    with Cons.prems(1) have cur: "cur \<noteq> []" "currentTokens = chunk_tokens cur" "chunk_tokens cur \<le> budget" by auto
    have closed: "c = \<lparr>ck_frames = cur, ck_oversized = False\<rparr> \<Longrightarrow> ?thesis" using cur by simp
    consider "?t > budget" | "\<not> ?t > budget" "chunk_tokens (cur @ [f]) > budget" | "\<not> ?t > budget" "\<not> chunk_tokens (cur @ [f]) > budget" by blast
    then show ?thesis
    proof cases
      case 1
      then show ?thesis using Cons.IH[where current = None and currentTokens = 0] Cons.prems(2) cur closed Some by (auto simp: Let_def close_chunk_def)
    next
      case 2
      then show ?thesis using Cons.IH[where current = "Some [f]" and currentTokens = ?t] Cons.prems(2) cur closed Some single more by (auto simp: Let_def close_chunk_def)
    next
      case 3
      then show ?thesis using Cons.IH[where current = "Some (cur @ [f])" and currentTokens = "chunk_tokens (cur @ [f])"] Cons.prems(2) cur Some more
        by (auto simp: Let_def close_chunk_def)
    qed
  qed
qed

end

lemma plan_loop_concat:
  "concat (map ck_frames (plan_loop estimate budget sep current ct fs)) = (case current of None \<Rightarrow> [] | Some c \<Rightarrow> c) @ fs"
  by (induction fs arbitrary: current ct) (auto simp: Let_def close_chunk_def split: option.splits)

interpretation chars: token_estimator estimateTokens
  by unfold_locales (auto simp: estimateTokens_def)

section \<open>The settled count of a truncation\<close>

abbreviation digits :: "nat \<Rightarrow> nat" where
  "digits n \<equiv> length (nat_digits n)"

lemma digits_rec: "digits n = (if n < 10 then 1 else digits (n div 10) + 1)"
  by (subst nat_digits.simps) simp

lemma digits_mono: "m \<le> n \<Longrightarrow> digits m \<le> digits n"
proof (induction n arbitrary: m rule: less_induct)
  case (less n)
  show ?case
  proof (cases "m < 10")
    case True
    then show ?thesis using digits_rec[of n] digits_rec[of m] by simp
  next
    case False
    with less.prems less.IH[of "n div 10" "m div 10"] show ?thesis using digits_rec[of n] digits_rec[of m] by (simp add: div_le_mono)
  qed
qed

lemma digits_pos: "1 \<le> digits n"
  using digits_rec[of n] by simp

lemma digits_bound: "n < 10 ^ k \<Longrightarrow> 1 \<le> k \<Longrightarrow> digits n \<le> k"
proof (induction k arbitrary: n)
  case (Suc k)
  show ?case
  proof (cases "n < 10")
    case True
    with Suc.prems show ?thesis using digits_rec[of n] by simp
  next
    case False
    with Suc.prems(1) have "n div 10 < 10 ^ k" "1 \<le> k" by (auto simp: less_mult_imp_div_less mult.commute) (cases k, auto)
    with Suc.IH[of "n div 10"] False show ?thesis using digits_rec[of n] by simp
  qed
qed simp

lemma digits_near: "d \<le> 16 \<Longrightarrow> digits (m + d) \<le> digits m + 1"
proof (cases "m < 2")
  case True
  moreover assume "d \<le> 16"
  ultimately have "m + d < 10 ^ 2" by simp
  then have "digits (m + d) \<le> 2" using digits_bound[of "m + d" 2] by simp
  then show ?thesis using digits_pos[of m] by linarith
next
  case False
  moreover assume "d \<le> 16"
  ultimately have "digits (m + d) \<le> digits (10 * m)" by (intro digits_mono) linarith
  also have "\<dots> \<le> digits m + 1" using digits_rec[of "10 * m"] by simp
  finally show ?thesis .
qed

lemma marker_length: "length (truncation_marker n) = digits n + 32"
  by (simp add: truncation_marker_def)

lemma settle_fixpoint:
  fixes maxChars headerLength textLength
  defines "next \<equiv> \<lambda>omitted. textLength - kept_chars maxChars headerLength omitted"
  assumes "next ((next ^^ j) n) = (next ^^ j) n" "j \<le> attempts"
  shows "next (settle attempts maxChars headerLength textLength n) = settle attempts maxChars headerLength textLength n"
  using assms(2,3)
proof (induction attempts arbitrary: n j)
  case (Suc a)
  show ?case
  proof (cases "next n = n")
    case True
    then show ?thesis by (simp add: next_def Let_def)
  next
    case False
    with Suc.prems(1) obtain i where "j = Suc i" by (cases j) auto
    with Suc.prems have "next ((next ^^ i) (next n)) = (next ^^ i) (next n)" "i \<le> a" by (simp_all add: funpow_swap1)
    with Suc.IH False show ?thesis by (simp add: next_def Let_def)
  qed
qed simp

lemma settled:
  assumes "textLength < 10 ^ 16" "headerLength + 1 + length (truncation_marker textLength) < maxChars" "maxChars < textLength"
  shows "let omitted = settle 6 maxChars headerLength textLength textLength
     in 0 < kept_chars maxChars headerLength omitted \<and> omitted + kept_chars maxChars headerLength omitted = textLength
       \<and> headerLength + kept_chars maxChars headerLength omitted + 1 + length (truncation_marker omitted) = maxChars"
proof -
  let ?next = "\<lambda>omitted. textLength - kept_chars maxChars headerLength omitted"
  define m where "m = textLength - (maxChars - headerLength - 33)"
  have step: "?next r = m + digits r" if "r \<le> textLength" for r
  proof -
    have "digits r \<le> digits textLength" using that by (rule digits_mono)
    then show ?thesis using assms(2,3) unfolding kept_chars_def marker_length m_def by linarith
  qed
  have bound: "?next r \<le> textLength" for r by simp
  let ?o1 = "?next textLength" and ?o2 = "?next (?next textLength)" and ?o3 = "?next (?next (?next textLength))"
  have d: "digits textLength \<le> 16" using digits_bound[of textLength 16] assms(1) by simp
  have o1: "?o1 = m + digits textLength" by (rule step) simp
  have o2: "?o2 = m + digits ?o1" by (rule step[OF bound])
  have o3: "?o3 = m + digits ?o2" by (rule step[OF bound])
  have o4: "?next ?o3 = m + digits ?o3" by (rule step[OF bound])
  have range: "digits m \<le> digits ?o1" "digits ?o1 \<le> digits m + 1" using digits_near[OF d, of m] digits_mono[of m ?o1] by (simp_all add: o1)
  have d1: "digits ?o1 \<le> digits textLength" by (rule digits_mono[OF bound])
  have "?o2 \<le> ?o1" using d1 o1 o2 by linarith
  then have d2: "digits ?o2 \<le> digits ?o1" by (rule digits_mono)
  have "?o3 \<le> ?o2" using d2 o2 o3 by linarith
  then have d3: "digits ?o3 \<le> digits ?o2" by (rule digits_mono)
  have "m \<le> ?o2" "m \<le> ?o3" using o2 o3 by linarith+
  note low = this[THEN digits_mono]
  have "digits ?o1 = digits ?o2 \<or> digits ?o2 = digits ?o3" using range low d2 d3 by linarith
  then have "?o3 = ?o2 \<or> ?next ?o3 = ?o3" using o2 o3 o4 by auto
  then have "?next ((?next ^^ 2) textLength) = (?next ^^ 2) textLength \<or> ?next ((?next ^^ 3) textLength) = (?next ^^ 3) textLength"
    by (simp add: numeral_2_eq_2 numeral_3_eq_3)
  then obtain j where "?next ((?next ^^ j) textLength) = (?next ^^ j) textLength" "j \<le> 6" by fastforce
  note stable = settle_fixpoint[OF this]
  define r where "r = settle 6 maxChars headerLength textLength textLength"
  have "r \<le> textLength" using stable bound[of r] by (simp add: r_def)
  then have "digits r \<le> digits textLength" by (rule digits_mono)
  then have "0 < kept_chars maxChars headerLength r \<and> headerLength + kept_chars maxChars headerLength r + 1 + length (truncation_marker r) = maxChars"
    using assms(2) unfolding kept_chars_def marker_length by linarith
  with stable \<open>r \<le> textLength\<close> assms(3) show ?thesis unfolding r_def[symmetric] Let_def by linarith
qed

lemma truncated_frame_text:
  "serializeFrameForContext (truncated_frame frame t) = serializeFrameForContext (truncated_frame frame []) @ t"
  by (simp add: truncated_frame_def serializeFrameForContext_def isCompactionFrame_def TRUNCATED_FRAME_TYPE_def
      COMPACTION_FRAME_TYPE_def extractFrameText_def captured_text_def Let_def frame_header_def)

definition has_room :: "nat \<Rightarrow> jsval \<Rightarrow> bool" where
  "has_room budget frame \<longleftrightarrow> length (serializeFrameForContext frame) < 10 ^ 16
     \<and> length (serializeFrameForContext (truncated_frame frame [])) + 49 < budget * DEFAULT_CHARS_PER_TOKEN"

lemma truncation_text:
  assumes "has_room budget frame" "estimateTokens (serializeFrameForContext frame) > budget"
  shows "\<exists>n k. n + k = length (serializeFrameForContext frame) \<and> 0 < k
    \<and> serializeFrameForContext (truncateFrameToBudget estimateTokens budget frame)
        = serializeFrameForContext (truncated_frame frame []) @ take k (serializeFrameForContext frame) @ newline @ truncation_marker n
    \<and> length (serializeFrameForContext (truncateFrameToBudget estimateTokens budget frame)) = budget * 4"
proof -
  let ?s = "serializeFrameForContext frame" and ?h = "serializeFrameForContext (truncated_frame frame [])"
  define n where "n = settle 6 (budget * 4) (length ?h) (length ?s) (length ?s)"
  define k where "k = kept_chars (budget * 4) (length ?h) n"
  have room: "length ?h + 49 < budget * 4" "length ?s < 10 ^ 16" using assms(1) by (simp_all add: has_room_def DEFAULT_CHARS_PER_TOKEN_def)
  have "digits (length ?s) \<le> 16" using digits_bound[of "length ?s" 16] room by simp
  moreover have "budget * 4 < length ?s" using assms(2) room by (simp add: estimateTokens_def max_def split: if_splits)
  ultimately have nk: "0 < k" "n + k = length ?s" "length ?h + k + 1 + length (truncation_marker n) = budget * 4"
    using settled[of "length ?s" "length ?h" "budget * 4"] room unfolding n_def k_def by (simp_all add: marker_length Let_def)
  have "truncateFrameToBudget estimateTokens budget frame = truncated_frame frame (take k ?s @ newline @ truncation_marker n)"
    using assms(2) nk(1) by (simp add: truncateFrameToBudget_def DEFAULT_CHARS_PER_TOKEN_def Let_def n_def[symmetric] k_def[symmetric])
  then have "serializeFrameForContext (truncateFrameToBudget estimateTokens budget frame) = ?h @ take k ?s @ newline @ truncation_marker n"
    by (simp only: truncated_frame_text[of frame "take k ?s @ newline @ truncation_marker n"])
  moreover have "length (?h @ take k ?s @ newline @ truncation_marker n) = length ?h + k + 1 + length (truncation_marker n)"
    using nk(2) by (simp add: newline_def)
  ultimately show ?thesis using nk by metis
qed

section \<open>Every request fits\<close>

definition request_fits :: "nat \<Rightarrow> jsval list \<Rightarrow> bool" where
  "request_fits budget frames \<longleftrightarrow> estimateTokens (serializeFramesForCompaction frames) \<le> budget"

lemma fits_over: "over_budget estimateTokens budget frames = (\<not> request_fits budget frames)"
  by (auto simp: over_budget_def request_fits_def)

lemma fits_single: "estimateTokens (serializeFrameForContext f) \<le> budget \<Longrightarrow> request_fits budget [f]"
  using chars.estimate_mono[of "[]" "serializeFrameForContext f"] by (auto simp: request_fits_def serializeFramesForCompaction_def)

lemma fits_more: "request_fits b g \<Longrightarrow> b \<le> b' \<Longrightarrow> request_fits b' g"
  by (simp add: request_fits_def)

text \<open>
  A truncated frame keeps a header with the frame's id and a marker whatever the budget is, so no request goes below the room these
  take: for ids of at most \<open>idLength\<close> characters, the limit is the budget or that room.
\<close>

definition small_frame :: "nat \<Rightarrow> jsval \<Rightarrow> bool" where
  "small_frame idLength frame \<longleftrightarrow> length (serializeFrameForContext frame) < 10 ^ 16 \<and> length (or_empty (pget frame ''id'')) \<le> idLength"

definition request_limit :: "nat \<Rightarrow> nat \<Rightarrow> nat" where
  "request_limit budget idLength = max budget ((idLength + 129) div 4)"

lemma request_limit_ge: "budget \<le> request_limit budget idLength"
  by (simp add: request_limit_def)

lemma truncated_header_length: "length (serializeFrameForContext (truncated_frame f [])) = 78 + length (or_empty (pget f ''id''))"
  by (simp add: truncated_frame_def serializeFrameForContext_def isCompactionFrame_def TRUNCATED_FRAME_TYPE_def newline_def
      COMPACTION_FRAME_TYPE_def extractFrameText_def captured_text_def Let_def frame_header_def or_empty_def)

lemma settle_le: "r \<le> n \<Longrightarrow> settle attempts maxChars headerLength n r \<le> n"
  by (induction attempts arbitrary: r) (simp_all add: Let_def)

lemma truncation_fits:
  assumes "small_frame idLength f"
  shows "request_fits (request_limit b idLength) [truncateFrameToBudget estimateTokens b f]"
proof (cases "estimateTokens (serializeFrameForContext f) \<le> b")
  case True
  then show ?thesis by (intro fits_more[OF fits_single request_limit_ge]) (simp add: truncateFrameToBudget_def)
next
  case False
  let ?s = "serializeFrameForContext f" and ?h = "serializeFrameForContext (truncated_frame f [])"
  define n where "n = settle 6 (b * 4) (length ?h) (length ?s) (length ?s)"
  define k where "k = kept_chars (b * 4) (length ?h) n"
  define t where "t = (if k > 0 then take k ?s @ newline @ truncation_marker n else truncation_marker n)"
  have "n \<le> length ?s" unfolding n_def by (rule settle_le) simp
  then have "n < 10 ^ 16" using assms unfolding small_frame_def by linarith
  then have marker: "length (truncation_marker n) \<le> 48" using digits_bound[of n 16] by (simp add: marker_length)
  have "length (take k ?s) \<le> k" by simp
  then have "length t \<le> (if k > 0 then k + 1 + length (truncation_marker n) else 48)"
    using marker unfolding t_def by (simp add: newline_def)
  then have "length ?h + length t \<le> max (b * 4) (length ?h + 48)" using k_def unfolding kept_chars_def by (simp split: if_splits)
  moreover have "length ?h \<le> 78 + idLength" using assms by (simp add: truncated_header_length small_frame_def)
  ultimately have len: "length (?h @ t) \<le> max (b * 4) (126 + idLength)" unfolding length_append by linarith
  have "truncateFrameToBudget estimateTokens b f = truncated_frame f t"
    using False by (simp add: truncateFrameToBudget_def DEFAULT_CHARS_PER_TOKEN_def Let_def n_def[symmetric] k_def[symmetric] t_def)
  then have whole: "serializeFrameForContext (truncateFrameToBudget estimateTokens b f) = ?h @ t"
    by (simp only: truncated_frame_text[of f t])
  have "(length (?h @ t) + 3) div 4 \<le> max b ((idLength + 129) div 4)" using len by (auto simp: max_def split: if_splits)
  then show ?thesis unfolding request_limit_def by (intro fits_single) (simp add: estimateTokens_def whole)
qed

lemma drop_oldest_props:
  assumes "drop_oldest P fs n = (w, d)" "fs \<noteq> []"
  shows "w \<noteq> []" "set w \<subseteq> set fs" "tl w = [] \<or> \<not> P w d"
  using assms by (induction P fs n rule: drop_oldest.induct) (auto split: if_splits)

lemma positive_or_nat: "1 \<le> b \<Longrightarrow> nat (positive_or (JNum (Fin (of_nat b))) 1) = b"
  by (simp add: positive_or_def)

lemma trim_fits:
  assumes "fs \<noteq> []" "\<forall>f \<in> set fs. usable_frame f \<and> small_frame idLength f" "1 \<le> b"
  shows "request_fits (request_limit b idLength) (tm_frames (trimOldestToFit estimateTokens (JArr fs) (JNum (Fin (of_nat b)))))"
proof -
  have norm: "normalizeFrames (JArr fs) = fs" using assms(2) by (simp add: normalizeFrames_def)
  obtain w d where w: "drop_oldest (\<lambda>w _. over_budget estimateTokens b w) fs 0 = (w, d)" by fastforce
  note wp = drop_oldest_props[OF w assms(1)]
  obtain w' d' where w': "drop_oldest (\<lambda>w d. over_budget estimateTokens b (withMarker w d)) w d = (w', d')" by fastforce
  note wp' = drop_oldest_props[OF w' wp(1)]
  have room: "small_frame idLength (hd w)" "small_frame idLength (hd w')" using wp wp' assms(2) by (meson hd_in_set subsetD)+
  note step = trimOldestToFit_def[of estimateTokens "JArr fs" "JNum (Fin (of_nat b))", unfolded Let_def norm positive_or_nat[OF assms(3)] w w' prod.case]
  have le: "request_fits b g \<Longrightarrow> request_fits (request_limit b idLength) g" for g by (erule fits_more) (rule request_limit_ge)
  show ?thesis
    unfolding step using wp wp' truncation_fits[OF room(1), of b] truncation_fits[OF room(2), of b] le by (auto simp: fits_over)
qed

lemma summary_room:
  assumes "i < 10 ^ 15" "length s < 10 ^ 15" "35 \<le> idLength"
  shows "small_frame idLength (createSummaryFrame (i, s)) \<and> usable_frame (createSummaryFrame (i, s))"
proof -
  have d: "digits (i + 1) \<le> 16" using digits_bound[of "i + 1" 16] assms(1) by simp
  then have "length (serializeFrameForContext (createSummaryFrame (i, s))) \<le> 200 + length s"
    by (simp add: createSummaryFrame_def serializeFrameForContext_def isCompactionFrame_def newline_def
      COMPACTION_FRAME_TYPE_def extractFrameText_def captured_text_def Let_def frame_header_def or_empty_def)
  moreover have "length (or_empty (pget (createSummaryFrame (i, s)) ''id'')) \<le> 35" using d
    by (simp add: createSummaryFrame_def or_empty_def)
  ultimately show ?thesis using assms(2,3)
    by (simp add: small_frame_def usable_frame_def) (simp add: createSummaryFrame_def)
qed

text \<open>What the compactor may answer: a text as long as a string can be.\<close>

definition short_answers :: "compact_fn \<Rightarrow> bool" where
  "short_answers f \<longleftrightarrow> (\<forall>calls g s. f calls g = Inr (JStr s) \<longrightarrow> length s < 10 ^ 15)"

lemma summarize_chunks_props:
  assumes "summarize_chunks f calls acc gs = (calls', r)" "short_answers f" "\<forall>s \<in> set acc. length s < 10 ^ 15"
  shows "\<exists>k. calls' = calls @ take k gs" "r = Inr acc' \<Longrightarrow> length acc' \<le> length acc + length gs \<and> (\<forall>s \<in> set acc'. length s < 10 ^ 15)"
proof -
  have "(\<exists>k. calls' = calls @ take k gs) \<and> (r = Inr acc' \<longrightarrow> length acc' \<le> length acc + length gs \<and> (\<forall>s \<in> set acc'. length s < 10 ^ 15))"
    using assms(1,3)
  proof (induction gs arbitrary: calls acc)
    case Nil
    then show ?case by auto
  next
    case (Cons g gs)
    show ?case
    proof (cases "f calls g")
      case (Inl e)
      with Cons.prems(1) show ?thesis by (auto intro: exI[of _ 1])
    next
      case (Inr v)
      define acc1 where "acc1 = (case v of JStr s \<Rightarrow> if js_trim s \<noteq> [] then acc @ [s] else acc | _ \<Rightarrow> acc)"
      have "summarize_chunks f (calls @ [g]) acc1 gs = (calls', r)" using Cons.prems(1) Inr by (simp add: acc1_def)
      moreover have "\<forall>s \<in> set acc1. length s < 10 ^ 15" "length acc1 \<le> Suc (length acc)"
        using Cons.prems(2) assms(2) Inr by (auto simp: acc1_def short_answers_def split: jsval.splits)
      ultimately have "(\<exists>k. calls' = (calls @ [g]) @ take k gs)
          \<and> (r = Inr acc' \<longrightarrow> length acc' \<le> length acc1 + length gs \<and> (\<forall>s \<in> set acc'. length s < 10 ^ 15))"
        using Cons.IH by blast
      then obtain k where "calls' = (calls @ [g]) @ take k gs"
          "r = Inr acc' \<longrightarrow> length acc' \<le> length acc1 + length gs \<and> (\<forall>s \<in> set acc'. length s < 10 ^ 15)" by blast
      with \<open>length acc1 \<le> Suc (length acc)\<close> show ?thesis by (intro conjI exI[of _ "Suc k"]) auto
    qed
  qed
  then show "\<exists>k. calls' = calls @ take k gs" "r = Inr acc' \<Longrightarrow> length acc' \<le> length acc + length gs \<and> (\<forall>s \<in> set acc'. length s < 10 ^ 15)"
    by auto
qed

lemma plan_loop_length: "length (plan_loop estimate budget sep current ct fs) \<le> (if current = None then 0 else 1) + length fs"
proof (induction fs arbitrary: current ct)
  case (Cons f fs)
  show ?case
    using Cons.IH[where current = None and ct = 0] Cons.IH[where current = "Some [f]" and ct = "estimate (serializeFrameForContext f)"]
      Cons.IH[where current = "Some ((case current of Some fs \<Rightarrow> fs | None \<Rightarrow> []) @ [f])"
        and ct = "ct + (if current \<noteq> None then estimate (serializeFrameForContext f) + sep else estimate (serializeFrameForContext f))"]
    by (auto simp: Let_def close_chunk_def split: option.splits)
qed (simp add: close_chunk_def split: option.split)

lemma chunk_fits:
  assumes "c \<in> set (plan_loop estimateTokens b (estimateTokens CHUNK_SEPARATOR) None 0 fs)" "\<forall>f \<in> set fs. usable_frame f \<and> small_frame idLength f"
  shows "request_fits (request_limit b idLength) (chunk_group estimateTokens b c)"
proof -
  from chars.plan_loop_chunks[where current = None and budget = b and c = c and fs = fs] assms(1)
  have c: "ck_frames c \<noteq> []" "if ck_oversized c then \<exists>f. ck_frames c = [f] \<and> estimateTokens (serializeFrameForContext f) > b
    else chars.chunk_tokens (ck_frames c) \<le> b" by auto
  have "set (concat (map ck_frames (plan_loop estimateTokens b (estimateTokens CHUNK_SEPARATOR) None 0 fs))) = set fs"
    by (simp only: plan_loop_concat) simp
  with assms(1) have "set (ck_frames c) \<subseteq> set fs" by auto
  then have "\<forall>f \<in> set (ck_frames c). usable_frame f \<and> small_frame idLength f" using assms(2) by auto
  with c show ?thesis
    using truncation_fits[of idLength "hd (ck_frames c)" b] chars.chunk_text_bound[of "ck_frames c"]
      le_trans[OF _ request_limit_ge[of b idLength]]
    by (cases "ck_oversized c") (auto simp: chunk_group_def request_fits_def)
qed

lemma chunked_loop_calls:
  assumes "short_answers f" "1 \<le> b \<and> 35 \<le> idLength" "length frames < 10 ^ 15" "\<forall>x \<in> set frames. usable_frame x \<longrightarrow> small_frame idLength x"
    and "\<forall>g \<in> set calls. request_fits (request_limit b idLength) g"
  shows "(\<forall>g \<in> set (fst (chunked_loop estimateTokens f b limit depth calls frames)). request_fits (request_limit b idLength) g)
    \<and> length (fst (chunked_loop estimateTokens f b limit depth calls frames)) \<le> length calls + length frames * (limit - depth) + 1"
  using assms(3-5)
proof (induction "limit - depth" arbitrary: depth calls frames rule: less_induct)
  case less
  let ?list = "filter usable_frame frames"
  let ?chunks = "plan_loop estimateTokens b (estimateTokens CHUNK_SEPARATOR) None 0 ?list"
  let ?groups = "map (chunk_group estimateTokens b) ?chunks"
  have list: "\<forall>x \<in> set ?list. usable_frame x \<and> small_frame idLength x" using less.prems(2) by auto
  note step = chunked_loop.simps[of estimateTokens f b limit depth calls frames, unfolded Let_def]
  have groups: "\<forall>g \<in> set ?groups. request_fits (request_limit b idLength) g" using chunk_fits[OF _ list] by auto
  have le: "length ?chunks \<le> length frames"
    using plan_loop_length[of estimateTokens b "estimateTokens CHUNK_SEPARATOR" None 0 ?list] length_filter_le[of usable_frame frames] by (simp del: length_filter_le)
  show ?case
  proof (cases "?list = [] \<or> (length ?chunks = 1 \<and> \<not> ck_oversized (hd ?chunks)) \<or> depth \<ge> limit")
    case True
    consider "?list = []" | "?list \<noteq> []" "length ?chunks = 1" "\<not> ck_oversized (hd ?chunks)"
      | "?list \<noteq> []" "\<not> (length ?chunks = 1 \<and> \<not> ck_oversized (hd ?chunks))" "depth \<ge> limit" using True by blast
    then show ?thesis
    proof cases
      case 1
      with less.prems(3) show ?thesis by (simp only: step if_True fst_conv) simp
    next
      case 2
      then obtain c where c: "?chunks = [c]" by (metis One_nat_def length_0_conv length_Suc_conv)
      with 2 plan_loop_concat[of estimateTokens b "estimateTokens CHUNK_SEPARATOR" None 0 ?list] have "?list = chunk_group estimateTokens b c"
        by (simp add: chunk_group_def)
      with groups c have "request_fits (request_limit b idLength) ?list" by simp
      with 2 less.prems(3) show ?thesis by (simp add: step)
    next
      case 3
      have "request_fits (request_limit b idLength) (tm_frames (trimOldestToFit estimateTokens (JArr ?list) (JNum (Fin (of_nat b)))))"
        using trim_fits[OF 3(1) list] assms(2) by simp
      moreover have "chunked_loop estimateTokens f b limit depth calls frames
        = (let t = tm_frames (trimOldestToFit estimateTokens (JArr ?list) (JNum (Fin (of_nat b)))) in (calls @ [t], f calls t))"
        unfolding step using 3 by (simp only: if_False if_True Let_def)
      ultimately show ?thesis using less.prems(3) by (simp add: Let_def)
    qed
  next
    case False
    obtain calls' r where sum: "summarize_chunks f calls [] ?groups = (calls', r)" by fastforce
    note props = summarize_chunks_props[OF sum assms(1), simplified]
    from props(1) obtain k where k: "calls' = calls @ take k ?groups" by auto
    then have calls': "\<forall>g \<in> set calls'. request_fits (request_limit b idLength) g" using groups less.prems(3) set_take_subset[of k ?groups] by auto
    have len: "length calls' \<le> length calls + length frames" using k le by simp
    have lt: "depth < limit" using False by (metis not_le)
    have next_step: "chunked_loop estimateTokens f b limit depth calls frames = (case summarize_chunks f calls [] ?groups of
          (calls', Inl e) \<Rightarrow> (calls', Inl e) | (calls', Inr []) \<Rightarrow> (calls', Inr (JStr [])) | (calls', Inr [s]) \<Rightarrow> (calls', Inr (JStr s))
        | (calls', Inr summaries) \<Rightarrow>
            chunked_loop estimateTokens f b limit (depth + 1) calls' (map createSummaryFrame (enumerate 0 summaries)))"
      unfolding step using False by (simp only: if_False de_Morgan_disj)
    from lt have "limit - depth = Suc (limit - (depth + 1))" by simp
    then have mult: "length frames * (limit - depth) = length frames + length frames * (limit - (depth + 1))" by simp
    show ?thesis
    proof (cases "\<exists>s s' ss. r = Inr (s # s' # ss)")
      case True
      then obtain s s' ss where r: "r = Inr (s # s' # ss)" by blast
      let ?next = "map createSummaryFrame (enumerate 0 (s # s' # ss))"
      from props(2)[OF r] have answers: "length (s # s' # ss) \<le> length frames" "\<forall>x \<in> set (s # s' # ss). length x < 10 ^ 15" using le by auto
      have "\<forall>x \<in> set ?next. small_frame idLength x"
      proof
        fix x assume "x \<in> set ?next"
        then obtain i t where it: "x = createSummaryFrame (i, t)" "(i, t) \<in> set (enumerate 0 (s # s' # ss))" by auto
        then have "i < length (s # s' # ss)" "t \<in> set (s # s' # ss)" by (auto simp: in_set_enumerate_eq)
        with answers less.prems(1) show "small_frame idLength x" using summary_room[of i t idLength] assms(2) unfolding it by auto
      qed
      moreover have "length ?next < 10 ^ 15" using answers(1) less.prems(1) by simp
      moreover have "limit - (depth + 1) < limit - depth" using lt by simp
      ultimately have IH: "(\<forall>g \<in> set (fst (chunked_loop estimateTokens f b limit (depth + 1) calls' ?next)). request_fits (request_limit b idLength) g)
        \<and> length (fst (chunked_loop estimateTokens f b limit (depth + 1) calls' ?next)) \<le> length calls' + length ?next * (limit - (depth + 1)) + 1"
        using less.hyps[of "depth + 1" ?next calls'] calls' by blast
      have "length ?next * (limit - (depth + 1)) \<le> length frames * (limit - (depth + 1))" using answers(1) by (intro mult_le_mono1) simp
      with IH len mult show ?thesis by (simp add: next_step sum r)
    next
      case stop: False
      then have "fst (chunked_loop estimateTokens f b limit depth calls frames) = calls'"
        using stop sum by (auto simp: next_step split: sum.splits list.splits)
      with calls' len mult show ?thesis by simp
    qed
  qed
qed

section \<open>Properties\<close>

text \<open>
  C17: Every request a chunked compaction makes fits the compactor's budget or the room a truncated frame takes, whichever is larger,
  at every level of the reduction and also when the depth is exhausted, whatever the compactor answers or throws; and there are at
  most as many calls as frames for each level left, and one more. The room of a truncated frame is a quarter of 129 more than the
  length of the longest id, so a budget of at least that (41 tokens for ids of 36 characters) is never exceeded; a smaller one can be
  (lemma small_budget_exceeded). The tokens are those of the default estimator, and the lengths are those a string or an array can have.
\<close>

theorem every_compactor_request_fits:
  assumes "short_answers f" "35 \<le> idLength" "\<forall>x \<in> set (normalizeFrames frames). small_frame idLength x"
    and "length (normalizeFrames frames) < 10 ^ 15"
    and "calls = fst (runChunkedCompaction estimateTokens (Some f) frames budgetTokens depth maxDepth)"
  shows "(\<forall>g \<in> set calls. int (estimateTokens (serializeFramesForCompaction g)) \<le> max (positive_or budgetTokens 1) (int ((idLength + 129) div 4)))
    \<and> length calls \<le> length (normalizeFrames frames) * nat (positive_or maxDepth MAX_CHUNK_DEPTH - nonnegative_or depth 0) + 1"
proof (cases "normalizeFrames frames = []")
  case True
  with assms(5) show ?thesis by (simp add: runChunkedCompaction_def)
next
  case False
  let ?b = "nat (positive_or budgetTokens 1)"
  have "0 \<le> nonnegative_or depth 0" by (auto simp: nonnegative_or_def js_trunc_nonneg split: jsnum.splits)
  then have levels: "nat (positive_or maxDepth MAX_CHUNK_DEPTH) - nat (nonnegative_or depth 0) = nat (positive_or maxDepth MAX_CHUNK_DEPTH - nonnegative_or depth 0)"
    by (simp add: nat_diff_distrib')
  have calls: "calls = fst (chunked_loop estimateTokens f ?b (nat (positive_or maxDepth MAX_CHUNK_DEPTH)) (nat (nonnegative_or depth 0)) [] (normalizeFrames frames))"
    using False assms(5) by (simp add: runChunkedCompaction_def)
  have pos: "1 \<le> positive_or budgetTokens 1" by (simp add: positive_or_def js_trunc_def split: jsnum.splits)
  then have "1 \<le> ?b \<and> 35 \<le> idLength" using assms(2) by linarith
  from chunked_loop_calls[OF assms(1) this assms(4), of "[]" "nat (positive_or maxDepth MAX_CHUNK_DEPTH)" "nat (nonnegative_or depth 0)"] assms(3)
  have "(\<forall>g \<in> set calls. request_fits (request_limit ?b idLength) g)
    \<and> length calls \<le> length (normalizeFrames frames) * (nat (positive_or maxDepth MAX_CHUNK_DEPTH) - nat (nonnegative_or depth 0)) + 1"
    by (simp add: calls)
  moreover have "int (request_limit ?b idLength) = max (positive_or budgetTokens 1) (int ((idLength + 129) div 4))"
    using pos by (simp add: request_limit_def of_nat_max)
  ultimately show ?thesis unfolding levels by (auto simp: request_fits_def simp flip: of_nat_le_iff[where 'a = int])
qed

definition long_frame :: jsval where
  "long_frame = JObj [(''id'', JStr ''m1''), (''type'', JStr ''UserMessage''), (''content'', JObj [(''text'', JStr (replicate 1000 (CHR ''x'')))])]"

lemma long_frame_text:
  "length (serializeFrameForContext long_frame) = 1077" "usable_frame long_frame" "small_frame 35 long_frame"
  "has_room 64 long_frame"
proof -
  show len: "length (serializeFrameForContext long_frame) = 1077" "usable_frame long_frame"
    by (simp_all add: long_frame_def serializeFrameForContext_def isCompactionFrame_def newline_def usable_frame_def
      COMPACTION_FRAME_TYPE_def extractFrameText_def captured_text_def Let_def frame_header_def or_empty_def)
  then show "small_frame 35 long_frame" by (simp add: small_frame_def) (simp add: long_frame_def or_empty_def)
  from len show "has_room 64 long_frame"
    by (simp add: has_room_def truncated_header_length DEFAULT_CHARS_PER_TOKEN_def) (simp add: long_frame_def or_empty_def)
qed

text \<open>A budget of one token: the frame is truncated to nothing but its header and the marker, which are 29 tokens.\<close>

lemma small_budget_exceeded:
  "\<exists>g. fst (runChunkedCompaction estimateTokens (Some (\<lambda>_ _. Inr (JStr ''memory''))) (JArr [long_frame]) (JNum (Fin 1)) Null Null) = [g]
     \<and> estimateTokens (serializeFramesForCompaction g) = 29"
proof -
  have norm: "normalizeFrames (JArr [long_frame]) = [long_frame]" by (simp add: normalizeFrames_def long_frame_text)
  have tokens: "estimateTokens (serializeFrameForContext long_frame) = 270" by (simp add: estimateTokens_def long_frame_text(1))
  let ?t = "truncateFrameToBudget estimateTokens 1 long_frame"
  have "length (serializeFrameForContext (truncated_frame long_frame [])) = 80"
    by (simp add: truncated_header_length) (simp add: long_frame_def or_empty_def)
  moreover have "settle 6 4 80 1077 1077 = 1077" by (simp add: kept_chars_def eval_nat_numeral)
  ultimately have t: "?t = truncated_frame long_frame (truncation_marker 1077)"
    by (simp add: truncateFrameToBudget_def tokens long_frame_text(1) DEFAULT_CHARS_PER_TOKEN_def kept_chars_def)
  have "serializeFrameForContext ?t = serializeFrameForContext (truncated_frame long_frame []) @ truncation_marker 1077"
    unfolding t by (rule truncated_frame_text)
  moreover have "digits 1077 = 4" by (simp add: nat_digits.simps)
  ultimately have "length (serializeFrameForContext ?t) = 116"
    by (simp add: marker_length truncated_header_length) (simp add: long_frame_def or_empty_def)
  moreover have "fst (runChunkedCompaction estimateTokens (Some (\<lambda>_ _. Inr (JStr ''memory''))) (JArr [long_frame]) (JNum (Fin 1)) Null Null) = [[?t]]"
    by (simp add: runChunkedCompaction_def norm chunked_loop.simps long_frame_text(2) Let_def close_chunk_def MAX_CHUNK_DEPTH_def
        positive_or_def nonnegative_or_def tokens chunk_group_def js_trim_def js_space_def)
  moreover have "js_trim (serializeFrameForContext ?t) \<noteq> []"
    unfolding t by (simp add: truncated_frame_def serializeFrameForContext_def isCompactionFrame_def TRUNCATED_FRAME_TYPE_def newline_def
      COMPACTION_FRAME_TYPE_def extractFrameText_def captured_text_def Let_def frame_header_def long_frame_def or_empty_def
      truncation_marker_def js_trim_def js_space_def)
  moreover have "usable_frame ?t" unfolding t by (simp add: truncated_frame_def usable_frame_def long_frame_def TRUNCATED_FRAME_TYPE_def)
  ultimately show ?thesis by (simp add: serializeFramesForCompaction_def estimateTokens_def)
qed

theorem every_compactor_request_fits_witness:
  "let calls = fst (runChunkedCompaction estimateTokens (Some (\<lambda>_ _. Inr (JStr ''memory''))) (JArr [long_frame, long_frame]) (JNum (Fin 64)) Null Null)
   in calls \<noteq> [] \<and> (\<forall>g \<in> set calls. int (estimateTokens (serializeFramesForCompaction g)) \<le> 64)"
proof -
  let ?calls = "fst (runChunkedCompaction estimateTokens (Some (\<lambda>_ _. Inr (JStr ''memory''))) (JArr [long_frame, long_frame]) (JNum (Fin 64)) Null Null)"
  have norm: "normalizeFrames (JArr [long_frame, long_frame]) = [long_frame, long_frame]" by (simp add: normalizeFrames_def long_frame_text)
  have budget: "positive_or (JNum (Fin 64)) 1 = 64" by (simp add: positive_or_def)
  have "\<forall>g \<in> set ?calls. int (estimateTokens (serializeFramesForCompaction g)) \<le> 64"
    using every_compactor_request_fits[where f = "\<lambda>_ _. Inr (JStr ''memory'')" and budgetTokens = "JNum (Fin 64)"
        and frames = "JArr [long_frame, long_frame]" and depth = Null and maxDepth = Null and idLength = 35, OF _ _ _ _ refl]
    by (simp add: short_answers_def norm budget long_frame_text(3))
  moreover have "estimateTokens (serializeFrameForContext long_frame) = 270" by (simp add: estimateTokens_def long_frame_text(1))
  then have "?calls \<noteq> []"
    by (simp add: runChunkedCompaction_def norm budget chunked_loop.simps long_frame_text(2) Let_def close_chunk_def MAX_CHUNK_DEPTH_def
        positive_or_def nonnegative_or_def)
  ultimately show ?thesis by (simp add: Let_def)
qed

text \<open>
  The chunks are the frames: read one after the other they are the usable frames in their order, none lost and none
  twice; a chunk is one frame too large for the budget, or it is not empty and its text fits the budget, separators included.
\<close>

theorem chunks_keep_every_frame:
  "concat (map ck_frames (planCompactionChunks estimateTokens frames budgetTokens)) = normalizeFrames frames
   \<and> (\<forall>c \<in> set (planCompactionChunks estimateTokens frames budgetTokens).
        if ck_oversized c
        then \<exists>x. ck_frames c = [x] \<and> int (estimateTokens (serializeFrameForContext x)) > positive_or budgetTokens 1
        else ck_frames c \<noteq> [] \<and> int (estimateTokens (serializeFramesForCompaction (ck_frames c))) \<le> positive_or budgetTokens 1)"
proof -
  let ?b = "nat (positive_or budgetTokens 1)" and ?p = "planCompactionChunks estimateTokens frames budgetTokens"
  have pos: "1 \<le> positive_or budgetTokens 1" by (auto simp: positive_or_def js_trunc_ge1 split: jsnum.splits)
  have partition: "concat (map ck_frames ?p) = normalizeFrames frames" by (simp add: planCompactionChunks_def plan_loop_concat)
  have "if ck_oversized c then \<exists>x. ck_frames c = [x] \<and> int (estimateTokens (serializeFrameForContext x)) > positive_or budgetTokens 1
      else ck_frames c \<noteq> [] \<and> int (estimateTokens (serializeFramesForCompaction (ck_frames c))) \<le> positive_or budgetTokens 1"
    if c: "c \<in> set ?p" for c
  proof -
    from c chars.plan_loop_chunks[where current = None and budget = ?b and c = c and fs = "normalizeFrames frames"]
    have props: "ck_frames c \<noteq> []" "if ck_oversized c then \<exists>f. ck_frames c = [f] \<and> estimateTokens (serializeFrameForContext f) > ?b
      else chars.chunk_tokens (ck_frames c) \<le> ?b" by (auto simp: planCompactionChunks_def)
    have "set (ck_frames c) \<subseteq> set (normalizeFrames frames)" using c partition[symmetric] by auto
    then have "\<forall>f \<in> set (ck_frames c). usable_frame f" by (auto simp: normalizeFrames_def)
    from chars.chunk_text_bound[OF props(1) this] props pos show ?thesis by (auto split: if_splits)
  qed
  with partition show ?thesis by blast
qed

theorem chunks_keep_every_frame_witness:
  "concat (map ck_frames (planCompactionChunks estimateTokens (JArr [long_frame]) (JNum (Fin 64)))) = [long_frame]"
  using chunks_keep_every_frame[of "JArr [long_frame]" "JNum (Fin 64)"] by (simp add: normalizeFrames_def long_frame_text)

text \<open>
  A frame too large for the budget is truncated to exactly the budget, and the marker tells the truth: what is kept is a
  prefix of the frame's text, and the number in the marker is the number of characters that are missing.
\<close>

theorem truncation_counts_what_it_omits:
  assumes "has_room budget frame" "estimateTokens (serializeFrameForContext frame) > budget"
  shows "\<exists>n k. n + k = length (serializeFrameForContext frame) \<and> 0 < k
    \<and> serializeFrameForContext (truncateFrameToBudget estimateTokens budget frame)
        = serializeFrameForContext (truncated_frame frame []) @ take k (serializeFrameForContext frame) @ newline
          @ ''[truncated: '' @ nat_digits n @ '' characters omitted]''
    \<and> estimateTokens (serializeFrameForContext (truncateFrameToBudget estimateTokens budget frame)) = budget"
proof -
  have "1 \<le> budget" using assms(1) by (cases budget) (simp_all add: has_room_def)
  then have "max 1 ((budget * 4 + 3) div 4) = budget" by simp
  with truncation_text[OF assms] show ?thesis unfolding truncation_marker_def by (metis estimateTokens_def)
qed

theorem truncation_counts_what_it_omits_witness:
  "estimateTokens (serializeFrameForContext (truncateFrameToBudget estimateTokens 64 long_frame)) = 64"
  using truncation_counts_what_it_omits[of 64 long_frame] long_frame_text by (auto simp: estimateTokens_def)

end
