(* ===== verification/CompactionSummary.thy ===== *)
theory CompactionSummary
  imports CompactionContext
begin

text \<open>
  The stored form of a compaction: the summary in three priority sections,
  \<open>src/core/compaction/compaction-summary.mjs\<close>, and the frame that records it with the window it was made from,
  \<open>src/core/compaction/compaction-frame.mjs\<close>. The pattern of a section tag is written out: a line that is, up to
  blanks and case, a level in brackets.
\<close>

section \<open>Sections\<close>

datatype level = High | Medium | Low

fun level_name :: "level \<Rightarrow> string" where
  "level_name High = ''high''"
| "level_name Medium = ''medium''"
| "level_name Low = ''low''"

definition COMPACTION_LEVELS :: "level list" where
  "COMPACTION_LEVELS = [High, Medium, Low]"

definition SMALL_CONTEXT_WINDOW_TOKENS :: rat where
  "SMALL_CONTEXT_WINDOW_TOKENS = 16384"

definition MEDIUM_CONTEXT_WINDOW_TOKENS :: rat where
  "MEDIUM_CONTEXT_WINDOW_TOKENS = 65536"

definition COMPACTION_SECTION_HEADER :: string where
  "COMPACTION_SECTION_HEADER = ''Prioritized context memory:''"

type_synonym sections = "level \<Rightarrow> string list"

text \<open>\<open>split(/\r?\n/)\<close>: at every line feed, with a carriage return before it.\<close>

fun split_newlines :: "string \<Rightarrow> string list" where
  "split_newlines [] = [[]]"
| "split_newlines (c # cs) =
     (if c = CHR 0x0A then [] # split_newlines cs
      else if c = CHR 0x0D \<and> cs \<noteq> [] \<and> hd cs = CHR 0x0A then split_newlines cs
      else (case split_newlines cs of l # ls \<Rightarrow> (c # l) # ls | [] \<Rightarrow> [[c]]))"

definition section_tag :: "string \<Rightarrow> level option" where
  "section_tag rawLine =
     (let t = js_trim rawLine
      in if 2 \<le> length t \<and> hd t = CHR ''['' \<and> last t = CHR '']''
         then find (\<lambda>l. level_name l = toLowerCase (js_trim (butlast (tl t)))) COMPACTION_LEVELS
         else None)"

record parse_state =
  ps_sections :: sections
  ps_preamble :: "string list"
  ps_current :: "level option"

text \<open>One line of the loop; \<open>found\<close> holds exactly when there is a current level.\<close>

definition parse_line :: "parse_state \<Rightarrow> string \<Rightarrow> parse_state" where
  "parse_line st rawLine =
     (case section_tag rawLine of
        Some l \<Rightarrow>
          (if ps_current st = None \<and> ps_preamble st \<noteq> []
           then st\<lparr>ps_sections := (ps_sections st)(High := ps_sections st High @ ps_preamble st), ps_current := Some l\<rparr>
           else st\<lparr>ps_current := Some l\<rparr>)
      | None \<Rightarrow>
          (let line = js_trim rawLine
           in if line = [] then st
              else case ps_current st of
                Some l \<Rightarrow> st\<lparr>ps_sections := (ps_sections st)(l := ps_sections st l @ [line])\<rparr>
              | None \<Rightarrow> st\<lparr>ps_preamble := ps_preamble st @ [line]\<rparr>))"

text \<open>The sections, and whether the text was unstructured.\<close>

definition parseCompactionSections :: "jsval \<Rightarrow> sections \<times> bool" where
  "parseCompactionSections text' =
     (let source = (case text' of JStr s \<Rightarrow> s | _ \<Rightarrow> []);
          st = foldl parse_line \<lparr>ps_sections = (\<lambda>_. []), ps_preamble = [], ps_current = None\<rparr> (split_newlines source)
      in case ps_current st of
           None \<Rightarrow> ((\<lambda>_. [])(High := ps_preamble st), True)
         | Some _ \<Rightarrow> (ps_sections st, False))"

definition sections_json :: "sections \<times> bool \<Rightarrow> jsval" where
  "sections_json p = JObj [(''high'', JArr (map JStr (fst p High))), (''medium'', JArr (map JStr (fst p Medium))),
     (''low'', JArr (map JStr (fst p Low))), (''unstructured'', JBool (snd p))]"

definition buildCompactionSummaryJSON :: "jsval \<Rightarrow> jsval" where
  "buildCompactionSummaryJSON text' = sections_json (parseCompactionSections text')"

definition normalizeLines :: "jsval \<Rightarrow> string list" where
  "normalizeLines v =
     (case v of
        JArr vs \<Rightarrow> filter (\<lambda>l. l \<noteq> []) (map trim_or_empty vs)
      | JStr s \<Rightarrow> filter (\<lambda>l. l \<noteq> []) (map js_trim (split_newlines s))
      | _ \<Rightarrow> [])"

definition normalizeSections :: "jsval \<Rightarrow> sections" where
  "normalizeSections v l = normalizeLines (pget v (level_name l))"

definition normalizeLevels :: "jsval \<Rightarrow> level list" where
  "normalizeLevels levels =
     (let allowed = filter (\<lambda>l. JStr (level_name l) \<in> set (arr_of levels)) COMPACTION_LEVELS
      in if allowed = [] then COMPACTION_LEVELS else allowed)"

definition render_lines :: "sections \<Rightarrow> level list \<Rightarrow> string list" where
  "render_lines parsed present = concat (map (\<lambda>l. (''['' @ level_name l @ '']'') # parsed l) present)"

definition renderCompactionSections :: "jsval \<Rightarrow> jsval \<Rightarrow> string" where
  "renderCompactionSections sections levels =
     (let parsed = normalizeSections sections; allowed0 = normalizeLevels levels;
          allowed = (if High \<in> set allowed0 then allowed0 else High # allowed0);
          present = filter (\<lambda>l. parsed l \<noteq> []) allowed
      in if present = [] then []
         else (if length present > 1 then COMPACTION_SECTION_HEADER @ newline else []) @ join_with newline (render_lines parsed present))"

definition normalizeWindow :: "jsval \<Rightarrow> rat option" where
  "normalizeWindow v =
     (if nullish v \<or> v = JStr [] then None else case js_Number v of Fin q \<Rightarrow> if q \<le> 0 then None else Some q | _ \<Rightarrow> None)"

definition selectCompactionLevels :: "jsval \<Rightarrow> level list" where
  "selectCompactionLevels contextWindow =
     (case normalizeWindow contextWindow of
        None \<Rightarrow> COMPACTION_LEVELS
      | Some w \<Rightarrow> if w < SMALL_CONTEXT_WINDOW_TOKENS then [High]
          else if w < MEDIUM_CONTEXT_WINDOW_TOKENS then [High, Medium] else COMPACTION_LEVELS)"

definition hasCompactionSections :: "jsval \<Rightarrow> bool" where
  "hasCompactionSections json = ((is_obj json \<or> is_arr json) \<and> list_ex (\<lambda>l. normalizeSections json l \<noteq> []) COMPACTION_LEVELS)"

section \<open>The compaction frame\<close>

definition normalize_issue :: "jsval \<Rightarrow> jsval \<Rightarrow> jsval list" where
  "normalize_issue at' entry =
     (case entry of
        JStr s \<Rightarrow> if js_trim s \<noteq> [] then [JObj [(''message'', JStr (js_trim s)), (''at'', at'), (''kind'', JStr ''compaction'')]] else []
      | JObj ps \<Rightarrow> let message = trim_or_empty (oget ps ''message'') in
          if message = [] then []
          else [JObj [(''message'', JStr message), (''at'', js_nc (oget ps ''at'') at'),
            (''kind'', if trim_or_empty (oget ps ''kind'') \<noteq> [] then oget ps ''kind'' else JStr ''compaction'')]]
      | _ \<Rightarrow> [])"

definition normalizeIssueEntries :: "jsval \<Rightarrow> jsval \<Rightarrow> jsval list" where
  "normalizeIssueEntries entries at' =
     concat (map (normalize_issue at') (case entries of JArr es \<Rightarrow> es | _ \<Rightarrow> if nullish entries then [] else [entries]))"

record compaction_input =
  ci_id :: jsval
  ci_now :: jsval
  ci_session :: jsval
  ci_compactorAgent :: jsval
  ci_window :: compaction_window
  ci_summary :: jsval
  ci_summaryJSON :: jsval
  ci_status :: string
  ci_hidden :: bool
  ci_manual :: bool
  ci_requestedByFrameID :: jsval
  ci_message :: jsval
  ci_warnings :: jsval
  ci_errors :: jsval
  ci_merge :: jsval

definition or_null :: "jsval \<Rightarrow> jsval" where
  "or_null v = js_or v Null"

definition merge_entry :: "jsval \<Rightarrow> jsobj" where
  "merge_entry m = (if truthy m then [(''merge'', m)] else [])"

definition buildCompactionFrame :: "compaction_input \<Rightarrow> jsval" where
  "buildCompactionFrame ci =
     (let w = ci_window ci; agent = ci_compactorAgent ci; now = ci_now ci;
          frameIDs = map (\<lambda>f. pget f ''id'') (cw_frames w);
          boundaryFrame = (if cw_frames w = [] then Undefined else last (cw_frames w));
          frameTime = (if ci_manual ci then now else js_or (js_or (pget boundaryFrame ''createdAt'') (pget boundaryFrame ''timestamp'')) now);
          hasSummary = (trim_or_empty (ci_summary ci) \<noteq> []);
          sections = (if truthy (ci_summaryJSON ci) then ci_summaryJSON ci
            else if hasSummary then buildCompactionSummaryJSON (ci_summary ci) else Null);
          warnings = JArr (normalizeIssueEntries (ci_warnings ci) now); errors = JArr (normalizeIssueEntries (ci_errors ci) now);
          count = JNum (Fin (of_nat (length frameIDs)))
      in JObj [(''id'', ci_id ci), (''type'', JStr COMPACTION_FRAME_TYPE), (''sessionID'', pget (ci_session ci) ''id''),
        (''interactionID'', JStr (''compaction-'' @ js_String (js_or (cw_boundaryFrameID w) now))),
        (''parentID'', or_null (cw_boundaryFrameID w)), (''authorType'', JStr ''system''), (''authorID'', JStr ''internal:compaction''),
        (''authorDisplayName'', JStr ''Kikx compaction''),
        (''timestamp'', if ci_manual ci then now else js_or (pget boundaryFrame ''timestamp'') now),
        (''createdAt'', frameTime), (''updatedAt'', now), (''hidden'', JBool (ci_hidden ci)), (''deleted'', JBool False),
        (''compaction'', JObj ([(''kind'', JStr COMPACTION_FRAME_KIND), (''status'', JStr (ci_status ci)), (''manual'', JBool (ci_manual ci)),
           (''requestedByFrameID'', ci_requestedByFrameID ci), (''compactorAgentID'', or_null (pget agent ''id'')),
           (''compactorAgentName'', or_null (js_or (pget agent ''name'') (pget agent ''id''))), (''frameCount'', count),
           (''frameIDs'', JArr frameIDs), (''startFrameID'', cw_startFrameID w), (''boundaryFrameID'', cw_boundaryFrameID w),
           (''boundaryOrder'', cw_boundaryOrder w), (''contextTokens'', JNum (Fin (of_int (cw_tokens w)))),
           (''warnings'', warnings), (''errors'', errors)] @ merge_entry (ci_merge ci) @ [(''createdAt'', now)])),
        (''content'', JObj ([(''kind'', JStr COMPACTION_FRAME_KIND), (''status'', JStr (ci_status ci)),
           (''text'', js_or (js_or (ci_message ci) (ci_summary ci)) (JStr [])), (''summary'', if hasSummary then ci_summary ci else JStr []),
           (''summaryJSON'', sections), (''warnings'', warnings), (''errors'', errors), (''manual'', JBool (ci_manual ci)),
           (''requestedByFrameID'', ci_requestedByFrameID ci)] @ merge_entry (ci_merge ci) @
          [(''compactorAgentID'', or_null (pget agent ''id'')), (''frameCount'', count), (''frameIDs'', JArr frameIDs),
           (''startFrameID'', cw_startFrameID w), (''boundaryFrameID'', cw_boundaryFrameID w), (''boundaryOrder'', cw_boundaryOrder w)]))])"

text \<open>
  The update of a running frame. A summary that is a string is authoritative; \<open>warnings\<close> and \<open>errors\<close> that are
  missing keep the existing ones. The \<open>frameIDs\<close> of the content stay as they were.
\<close>

definition buildCompactionFrameUpdate ::
  "jsval \<Rightarrow> jsval \<Rightarrow> compaction_window \<Rightarrow> string \<Rightarrow> jsval \<Rightarrow> jsval \<Rightarrow> jsval \<Rightarrow> jsval \<Rightarrow> jsval \<Rightarrow> jsval \<Rightarrow> jsval" where
  "buildCompactionFrameUpdate existing now w status summary summaryJSON message compactorAgent warnings errors =
     (let frameIDs = map (\<lambda>f. pget f ''id'') (cw_frames w); count = JNum (Fin (of_nat (length frameIDs)));
          content = pget existing ''content''; compaction = pget existing ''compaction'';
          sections = (if truthy summaryJSON then summaryJSON
            else if is_str summary then buildCompactionSummaryJSON summary else pget content ''summaryJSON'');
          warningsValue = (if nullish warnings then js_or (pget content ''warnings'') (JArr []) else JArr (normalizeIssueEntries warnings now));
          errorsValue = (if nullish errors then js_or (pget content ''errors'') (JArr []) else JArr (normalizeIssueEntries errors now))
      in JObj (ospread (props_of existing)
        [(''updatedAt'', now),
         (''compaction'', JObj (ospread (props_of compaction)
           [(''status'', JStr status),
            (''compactorAgentID'', or_null (js_or (pget compactorAgent ''id'') (pget compaction ''compactorAgentID''))),
            (''compactorAgentName'', or_null (js_or (js_or (pget compactorAgent ''name'') (pget compactorAgent ''id''))
                (pget compaction ''compactorAgentName''))),
            (''frameCount'', count), (''frameIDs'', JArr frameIDs), (''startFrameID'', cw_startFrameID w),
            (''boundaryFrameID'', cw_boundaryFrameID w), (''boundaryOrder'', cw_boundaryOrder w),
            (''contextTokens'', JNum (Fin (of_int (cw_tokens w)))), (''warnings'', warningsValue), (''errors'', errorsValue), (''updatedAt'', now)])),
         (''content'', JObj (ospread (props_of content)
           [(''kind'', JStr COMPACTION_FRAME_KIND), (''status'', JStr status),
            (''text'', js_or (js_or (js_or message summary) (pget content ''text'')) (JStr [])),
            (''summary'', if is_str summary then summary else js_nc (pget content ''summary'') (JStr [])), (''summaryJSON'', sections),
            (''warnings'', warningsValue), (''errors'', errorsValue),
            (''compactorAgentID'', or_null (js_or (pget compactorAgent ''id'') (pget content ''compactorAgentID''))),
            (''frameCount'', count), (''startFrameID'', cw_startFrameID w), (''boundaryFrameID'', cw_boundaryFrameID w),
            (''boundaryOrder'', cw_boundaryOrder w)]))]))"

section \<open>Frames that record their window\<close>

lemma built_frame_compacts:
  "truthy (ci_id ci) \<Longrightarrow> ci_status ci \<notin> {''started'', ''running''} \<Longrightarrow> compacts (ci_window ci) (buildCompactionFrame ci)"
  by (simp add: buildCompactionFrame_def compacts_def usable_frame_def boundary_compaction_def isCompactionFrame_def Let_def COMPACTION_FRAME_TYPE_def)

lemma updated_frame_compacts:
  assumes "usable_frame existing" "pget existing ''type'' = JStr COMPACTION_FRAME_TYPE" "status \<notin> {''started'', ''running''}"
  shows "compacts w (buildCompactionFrameUpdate existing now w status summary summaryJSON message agent warnings errors)"
proof -
  have "distinct (map fst b) \<Longrightarrow> oget (ospread a b) k = (if has_own b k then oget b k else oget a k)" for a b k by (rule oget_ospread)
  then show ?thesis
    using assms by (cases existing) (simp_all add: buildCompactionFrameUpdate_def compacts_def usable_frame_def boundary_compaction_def
        isCompactionFrame_def Let_def COMPACTION_FRAME_TYPE_def del: ospread_Cons)
qed

section \<open>Sections parse back\<close>

definition clean_line :: "string \<Rightarrow> bool" where
  "clean_line l \<longleftrightarrow> l \<noteq> [] \<and> js_trim l = l \<and> CHR 0x0A \<notin> set l \<and> section_tag l = None"

lemma js_trim_last: "js_trim l = l \<Longrightarrow> l \<noteq> [] \<Longrightarrow> \<not> js_space (last l)"
proof -
  assume t: "js_trim l = l" "l \<noteq> []"
  then have "rev (dropWhile js_space (rev (dropWhile js_space l))) = l" by (simp add: js_trim_def)
  moreover from this t(2) have "dropWhile js_space (rev (dropWhile js_space l)) \<noteq> []" by (metis rev.simps(1))
  ultimately show ?thesis by (metis hd_dropWhile hd_rev rev_rev_ident)
qed

lemma split_newlines_line: "CHR 0x0A \<notin> set l \<Longrightarrow> split_newlines l = [l]"
proof (induction l)
  case (Cons c l)
  then show ?case by (cases l) (auto split: list.splits)
qed simp

lemma split_newlines_append:
  "CHR 0x0A \<notin> set l \<Longrightarrow> l = [] \<or> last l \<noteq> CHR 0x0D \<Longrightarrow> split_newlines (l @ CHR 0x0A # t) = l # split_newlines t"
proof (induction l)
  case (Cons c l)
  then show ?case by (cases l) (auto split: if_splits list.splits)
qed simp

lemma split_newlines_join:
  "ls \<noteq> [] \<Longrightarrow> \<forall>l \<in> set ls. CHR 0x0A \<notin> set l \<and> l \<noteq> [] \<and> last l \<noteq> CHR 0x0D \<Longrightarrow> split_newlines (join_with newline ls) = ls"
proof (induction ls rule: induct_list012)
  case (3 x y zs)
  then show ?case by (simp add: newline_def split_newlines_append)
qed (simp_all add: split_newlines_line)

lemma section_tag_name: "section_tag (''['' @ level_name l @ '']'') = Some l"
  by (cases l) (simp_all add: section_tag_def js_trim_def js_space_def Let_def COMPACTION_LEVELS_def toLowerCase_def lower_char_def)

lemma tag_line: "CHR 0x0A \<notin> set (''['' @ level_name l @ '']'') \<and> last (''['' @ level_name l @ '']'') \<noteq> CHR 0x0D"
  by (cases l) simp_all

lemma parse_clean:
  "\<forall>x \<in> set xs. clean_line x \<Longrightarrow> ps_current st = Some l \<Longrightarrow>
   foldl parse_line st xs = st\<lparr>ps_sections := (ps_sections st)(l := ps_sections st l @ xs)\<rparr>"
proof (induction xs arbitrary: st)
  case (Cons x xs)
  then have "parse_line st x = st\<lparr>ps_sections := (ps_sections st)(l := ps_sections st l @ [x])\<rparr>"
    by (simp add: parse_line_def clean_line_def Let_def)
  with Cons show ?case by (auto simp: fun_eq_iff intro!: parse_state.equality)
qed simp

lemma parse_rendered:
  "\<forall>l. \<forall>x \<in> set (S l). clean_line x \<Longrightarrow> distinct present \<Longrightarrow> ps_current st \<noteq> None \<or> ps_preamble st = [] \<Longrightarrow> present \<noteq> [] \<Longrightarrow>
   foldl parse_line st (render_lines S present)
     = st\<lparr>ps_sections := (\<lambda>l. if l \<in> set present then ps_sections st l @ S l else ps_sections st l), ps_current := Some (last present)\<rparr>"
proof (induction present arbitrary: st)
  case (Cons l ls)
  let ?st = "st\<lparr>ps_sections := (ps_sections st)(l := ps_sections st l @ S l), ps_current := Some l\<rparr>"
  have "parse_line st (''['' @ level_name l @ '']'') = st\<lparr>ps_current := Some l\<rparr>"
    using Cons.prems(3) section_tag_name[of l] by (auto simp: parse_line_def)
  then have first: "foldl parse_line st ((''['' @ level_name l @ '']'') # S l) = ?st"
    using parse_clean[of "S l" "st\<lparr>ps_current := Some l\<rparr>" l] Cons.prems(1) by simp
  have step: "foldl parse_line st (render_lines S (l # ls)) = foldl parse_line ?st (render_lines S ls)"
    by (simp only: render_lines_def list.map concat.simps foldl_append first)
  show ?case
  proof (cases "ls = []")
    case True
    then have "foldl parse_line st (render_lines S (l # ls)) = ?st" using step by (simp add: render_lines_def)
    with True show ?thesis by (auto simp: fun_eq_iff intro!: parse_state.equality)
  next
    case False
    then show ?thesis using Cons.IH[of ?st] Cons.prems by (auto simp: step fun_eq_iff)
  qed
qed simp

lemma clean_line_split: "clean_line x \<Longrightarrow> CHR 0x0A \<notin> set x \<and> x \<noteq> [] \<and> last x \<noteq> CHR 0x0D"
  using js_trim_last[of x] by (auto simp: clean_line_def js_space_def)

lemma clean_sections_json:
  assumes "\<forall>l. \<forall>x \<in> set (S l). clean_line x"
  shows "normalizeSections (sections_json (S, b)) = S"
proof
  fix l
  have "filter (\<lambda>x. x \<noteq> []) (map (trim_or_empty \<circ> JStr) (S l)) = S l"
  proof -
    have "map (trim_or_empty \<circ> JStr) (S l) = S l" using assms by (intro map_idI) (simp add: clean_line_def)
    then show ?thesis using assms by (simp add: filter_id_conv clean_line_def)
  qed
  then show "normalizeSections (sections_json (S, b)) l = S l"
    by (cases l) (simp_all add: normalizeSections_def sections_json_def normalizeLines_def)
qed

lemma header_line: "clean_line COMPACTION_SECTION_HEADER"
  by (simp add: clean_line_def section_tag_def COMPACTION_SECTION_HEADER_def js_trim_def js_space_def Let_def)

section \<open>Properties\<close>

text \<open>
  Sections survive being written out and read again: for sections whose lines are trimmed, not blank, without line feeds and
  no tags themselves, the text rendered from the stored form parses to the same three sections. When more than one section has
  lines, the header line of the rendering comes back as the first line of the high section; nothing else changes and no
  line moves to another level.
\<close>

theorem rendered_sections_parse_back:
  assumes "\<forall>l. \<forall>x \<in> set (S l). clean_line x" "S l0 \<noteq> []"
  shows "parseCompactionSections (JStr (renderCompactionSections (sections_json (S, b)) Null))
    = ((if length (filter (\<lambda>l. S l \<noteq> []) COMPACTION_LEVELS) > 1 then S(High := COMPACTION_SECTION_HEADER # S High) else S), False)"
proof -
  let ?present = "filter (\<lambda>l. S l \<noteq> []) COMPACTION_LEVELS"
  have levels: "normalizeLevels Null = COMPACTION_LEVELS" "High \<in> set COMPACTION_LEVELS" by (simp_all add: normalizeLevels_def COMPACTION_LEVELS_def)
  have all: "l \<in> set COMPACTION_LEVELS" for l by (cases l) (simp_all add: COMPACTION_LEVELS_def)
  have ne: "?present \<noteq> []" using assms(2) all[of l0] by (auto simp: filter_empty_conv)
  have dist: "distinct ?present" by (simp add: COMPACTION_LEVELS_def)
  have in_present: "l \<in> set ?present \<longleftrightarrow> S l \<noteq> []" for l using all by simp
  let ?header = "if length ?present > 1 then [COMPACTION_SECTION_HEADER] else []"
  let ?lines = "?header @ render_lines S ?present"
  have lines_ne: "render_lines S ?present \<noteq> []" using ne by (cases ?present) (simp_all add: render_lines_def)
  have render: "renderCompactionSections (sections_json (S, b)) Null = join_with newline ?lines"
    using ne lines_ne by (cases "render_lines S ?present") (auto simp: renderCompactionSections_def Let_def clean_sections_json[OF assms(1)] levels)
  have "\<forall>x \<in> set ?lines. CHR 0x0A \<notin> set x \<and> x \<noteq> [] \<and> last x \<noteq> CHR 0x0D"
    using assms(1) tag_line clean_line_split header_line by (auto simp: render_lines_def)
  then have split: "split_newlines (join_with newline ?lines) = ?lines" using lines_ne by (intro split_newlines_join) auto
  define st0 where "st0 = \<lparr>ps_sections = (\<lambda>_ :: level. [] :: string list), ps_preamble = [], ps_current = None\<rparr>"
  have parse: "parseCompactionSections (JStr (renderCompactionSections (sections_json (S, b)) Null))
    = (let st = foldl parse_line st0 ?lines in case ps_current st of None \<Rightarrow> ((\<lambda>_. [])(High := ps_preamble st), True) | Some _ \<Rightarrow> (ps_sections st, False))"
    unfolding parseCompactionSections_def jsval.case Let_def render split st0_def by (rule refl)
  show ?thesis
  proof (cases "length ?present > 1")
    case False
    then have "foldl parse_line st0 ?lines = foldl parse_line st0 (render_lines S ?present)" by simp
    also have "\<dots> = st0\<lparr>ps_sections := S, ps_current := Some (last ?present)\<rparr>"
      using parse_rendered[OF assms(1) dist, of st0] ne in_present by (auto simp: st0_def fun_eq_iff)
    finally show ?thesis using False unfolding parse by (simp add: Let_def)
  next
    case True
    obtain l ls where present: "?present = l # ls" using ne by (cases ?present) auto
    let ?st1 = "st0\<lparr>ps_preamble := [COMPACTION_SECTION_HEADER]\<rparr>"
    have header: "parse_line st0 COMPACTION_SECTION_HEADER = ?st1"
      using header_line by (simp add: parse_line_def clean_line_def st0_def Let_def)
    let ?st2 = "?st1\<lparr>ps_sections := (\<lambda>_. [])(High := [COMPACTION_SECTION_HEADER]), ps_current := Some l\<rparr>"
    have "parse_line ?st1 (''['' @ level_name l @ '']'') = ?st2" using section_tag_name[of l] by (simp add: parse_line_def st0_def)
    moreover have "parse_line ?st2 (''['' @ level_name l @ '']'') = ?st2" using section_tag_name[of l] by (simp add: parse_line_def st0_def)
    ultimately have "foldl parse_line ?st1 (render_lines S ?present) = foldl parse_line ?st2 (render_lines S ?present)"
      by (simp add: present render_lines_def)
    also have "\<dots> = ?st2\<lparr>ps_sections := S(High := COMPACTION_SECTION_HEADER # S High), ps_current := Some (last ?present)\<rparr>"
      using parse_rendered[OF assms(1) dist, of ?st2] ne in_present by (auto simp: fun_eq_iff)
    finally show ?thesis using True header unfolding parse by (simp add: Let_def)
  qed
qed

theorem rendered_sections_parse_back_witness:
  "let S = (\<lambda>l. case l of High \<Rightarrow> [''keep'', ''also''] | Medium \<Rightarrow> [] | Low \<Rightarrow> [])
   in parseCompactionSections (JStr (renderCompactionSections (sections_json (S, False)) Null)) = (S, False)"
proof -
  let ?S = "\<lambda>l. case l of High \<Rightarrow> [''keep'', ''also''] | Medium \<Rightarrow> [] | Low \<Rightarrow> []"
  have "\<forall>l. \<forall>x \<in> set (?S l). clean_line x"
    by (auto simp: clean_line_def section_tag_def js_trim_def js_space_def Let_def split: level.splits)
  from rendered_sections_parse_back[OF this, of High False] show ?thesis by (simp add: COMPACTION_LEVELS_def Let_def)
qed

end
