(* ===== verification/MergePlan.thy ===== *)
theory MergePlan
  imports FrameEngine
begin

text \<open>
  Which sessions of a merge are compacted first, \<open>src/core/merge/session-merge-plan.mjs\<close>. Token counts and the budget are
  JavaScript numbers, with the arithmetic of the infinities and of \<open>NaN\<close> written out; \<open>summaryTokensFor\<close> and
  \<open>localeCompare\<close> are arguments.
\<close>

section \<open>Numbers\<close>

fun num_add :: "jsnum \<Rightarrow> jsnum \<Rightarrow> jsnum" where
  "num_add (Fin p) (Fin q) = Fin (p + q)"
| "num_add NaN _ = NaN"
| "num_add _ NaN = NaN"
| "num_add PosInf NegInf = NaN"
| "num_add NegInf PosInf = NaN"
| "num_add PosInf _ = PosInf"
| "num_add _ PosInf = PosInf"
| "num_add NegInf _ = NegInf"
| "num_add _ NegInf = NegInf"

definition num_sub :: "jsnum \<Rightarrow> jsnum \<Rightarrow> jsnum" where
  "num_sub a b = num_add a (neg_num b)"

definition num_max :: "jsnum \<Rightarrow> jsnum \<Rightarrow> jsnum" where
  "num_max a b = (if a = NaN \<or> b = NaN then NaN else if num_le a b then b else a)"

definition num_min :: "jsnum \<Rightarrow> jsnum \<Rightarrow> jsnum" where
  "num_min a b = (if a = NaN \<or> b = NaN then NaN else if num_le a b then a else b)"

fun num_floor :: "jsnum \<Rightarrow> jsnum" where
  "num_floor (Fin q) = Fin (of_int \<lfloor>q\<rfloor>)"
| "num_floor n = n"

text \<open>\<open>n || d\<close> on a number.\<close>

definition num_or :: "jsnum \<Rightarrow> jsnum \<Rightarrow> jsnum" where
  "num_or n d = (if n = NaN \<or> n = Fin 0 then d else n)"

section \<open>The plan\<close>

definition DEFAULT_MERGE_SUMMARY_MIN_TOKENS :: jsnum where
  "DEFAULT_MERGE_SUMMARY_MIN_TOKENS = Fin 512"

definition session_tokens :: "jsval \<Rightarrow> jsnum" where
  "session_tokens session = num_max (Fin 0) (num_or (js_Number (pget session ''tokens'')) (Fin 0))"

definition plan_budget :: "jsval \<Rightarrow> jsnum" where
  "plan_budget budgetTokens = num_max (Fin 1) (num_or (js_Number budgetTokens) (Fin 1))"

definition merge_le :: "(string \<Rightarrow> string \<Rightarrow> int) \<Rightarrow> jsval \<Rightarrow> jsval \<Rightarrow> jsval \<Rightarrow> bool" where
  "merge_le localeCompare target l r =
     (let tokens = (\<lambda>s. js_Number (js_or (pget s ''tokens'') (JNum (Fin 0))))
      in if pget l ''sessionID'' = target then True
         else if pget r ''sessionID'' = target then False
         else if num_lt (tokens r) (tokens l) then True
         else if num_lt (tokens l) (tokens r) then False
         else localeCompare (js_String (pget l ''sessionID'')) (js_String (pget r ''sessionID'')) \<le> 0)"

definition sessionMergeOrder :: "(string \<Rightarrow> string \<Rightarrow> int) \<Rightarrow> jsval \<Rightarrow> jsval \<Rightarrow> jsval list" where
  "sessionMergeOrder localeCompare sessions targetSessionID = sort_by (merge_le localeCompare targetSessionID) (arr_of sessions)"

definition plan_sessions :: "jsval \<Rightarrow> jsval list" where
  "plan_sessions sessions =
     map (\<lambda>s. JObj (oset (props_of s) ''tokens'' (JNum (session_tokens s)))) (filter (\<lambda>s. truthy (pget s ''sessionID'')) (arr_of sessions))"

record merge_plan =
  mp_selectedSessionIDs :: "jsval list"
  mp_order :: "jsval list"
  mp_projectedTokens :: jsnum
  mp_fitsWithoutCompaction :: bool
  mp_totalTokens :: jsnum

definition tokens_of :: "jsval \<Rightarrow> jsnum" where
  "tokens_of session = js_Number (pget session ''tokens'')"

definition summary_tokens :: "(jsval \<Rightarrow> jsnum \<Rightarrow> jsnum) \<Rightarrow> jsnum \<Rightarrow> jsval \<Rightarrow> jsnum" where
  "summary_tokens summaryTokensFor budget session = num_max (Fin 1) (num_floor (num_or (summaryTokensFor session budget) (Fin 0)))"

fun compaction_loop :: "(jsval \<Rightarrow> jsnum \<Rightarrow> jsnum) \<Rightarrow> jsnum \<Rightarrow> jsval list \<Rightarrow> jsnum \<Rightarrow> jsval list \<Rightarrow> jsval list \<times> jsnum" where
  "compaction_loop summaryTokensFor budget [] projected selected = (selected, projected)"
| "compaction_loop summaryTokensFor budget (session # order) projected selected =
     (if num_le projected budget then (selected, projected)
      else compaction_loop summaryTokensFor budget order
        (num_add (num_sub projected (tokens_of session)) (summary_tokens summaryTokensFor budget session))
        (selected @ [pget session ''sessionID'']))"

definition planSessionCompactions ::
  "(string \<Rightarrow> string \<Rightarrow> int) \<Rightarrow> (jsval \<Rightarrow> jsnum \<Rightarrow> jsnum) \<Rightarrow> jsval \<Rightarrow> jsval \<Rightarrow> jsval \<Rightarrow> merge_plan" where
  "planSessionCompactions localeCompare summaryTokensFor sessions targetSessionID budgetTokens =
     (let list = plan_sessions sessions; budget = plan_budget budgetTokens;
          total = foldl (\<lambda>sum s. num_add sum (tokens_of s)) (Fin 0) list;
          order = sessionMergeOrder localeCompare (JArr list) targetSessionID
      in if num_le total budget
         then \<lparr>mp_selectedSessionIDs = [], mp_order = order, mp_projectedTokens = total, mp_fitsWithoutCompaction = True, mp_totalTokens = total\<rparr>
         else case compaction_loop summaryTokensFor budget order total [] of (selected, projected) \<Rightarrow>
           \<lparr>mp_selectedSessionIDs = selected, mp_order = order, mp_projectedTokens = projected, mp_fitsWithoutCompaction = False, mp_totalTokens = total\<rparr>)"

definition defaultSummaryTokensFor :: "jsval \<Rightarrow> jsnum \<Rightarrow> jsnum" where
  "defaultSummaryTokensFor session budgetTokens =
     (let tokens = session_tokens session; budget = num_max (Fin 1) (num_or budgetTokens (Fin 1));
          share = (case budget of Fin q \<Rightarrow> Fin (of_int \<lfloor>q / 25\<rfloor>) | n \<Rightarrow> n)
      in num_min tokens (num_max DEFAULT_MERGE_SUMMARY_MIN_TOKENS share))"

section \<open>Finite plans\<close>

definition finite_tokens :: "jsval \<Rightarrow> rat" where
  "finite_tokens session = (case tokens_of session of Fin q \<Rightarrow> q | _ \<Rightarrow> 0)"

definition finite_summary :: "(jsval \<Rightarrow> jsnum \<Rightarrow> jsnum) \<Rightarrow> jsnum \<Rightarrow> jsval \<Rightarrow> rat" where
  "finite_summary f budget session = (case summary_tokens f budget session of Fin q \<Rightarrow> q | _ \<Rightarrow> 0)"

text \<open>What the merge needs when the first \<open>k\<close> sessions of the order are summarized.\<close>

definition projected_after :: "(jsval \<Rightarrow> rat) \<Rightarrow> jsval list \<Rightarrow> nat \<Rightarrow> rat" where
  "projected_after summary order k = (\<Sum>s\<leftarrow>take k order. summary s) + (\<Sum>s\<leftarrow>drop k order. finite_tokens s)"

lemma num_le_Fin_budget: "num_le (Fin p) (plan_budget b) \<longleftrightarrow> (case plan_budget b of Fin q \<Rightarrow> p \<le> q | _ \<Rightarrow> True)"
  by (auto simp: plan_budget_def num_max_def num_or_def split: jsnum.splits)

lemma total_finite:
  "\<forall>s \<in> set xs. tokens_of s = Fin (finite_tokens s) \<Longrightarrow>
   foldl (\<lambda>sum s. num_add sum (tokens_of s)) (Fin a) xs = Fin (a + (\<Sum>s\<leftarrow>xs. finite_tokens s))"
  by (induction xs arbitrary: a) (auto simp: add.assoc)

lemma compaction_loop_prefix:
  assumes "\<forall>s \<in> set order. tokens_of s = Fin (finite_tokens s) \<and> summary_tokens f budget s = Fin (finite_summary f budget s)"
    and "compaction_loop f budget order (Fin p) selected = (ids, projected)"
  shows "\<exists>k \<le> length order. ids = selected @ map (\<lambda>s. pget s ''sessionID'') (take k order)
    \<and> projected = Fin (p - (\<Sum>s\<leftarrow>order. finite_tokens s) + projected_after (finite_summary f budget) order k)
    \<and> (num_le projected budget \<or> k = length order)
    \<and> (\<forall>j<k. \<not> num_le (Fin (p - (\<Sum>s\<leftarrow>order. finite_tokens s) + projected_after (finite_summary f budget) order j)) budget)"
  using assms
proof (induction order arbitrary: p selected)
  case Nil
  then show ?case by (simp add: projected_after_def)
next
  case (Cons s order)
  show ?case
  proof (cases "num_le (Fin p) budget")
    case True
    with Cons.prems show ?thesis by (intro exI[of _ 0]) (simp add: projected_after_def)
  next
    case False
    let ?p' = "p - finite_tokens s + finite_summary f budget s"
    from Cons.prems False have "compaction_loop f budget order (Fin ?p') (selected @ [pget s ''sessionID'']) = (ids, projected)"
      by (simp add: num_sub_def)
    from Cons.IH[OF _ this] Cons.prems(1) obtain k where k: "k \<le> length order" "ids = (selected @ [pget s ''sessionID'']) @ map (\<lambda>s. pget s ''sessionID'') (take k order)"
      "projected = Fin (?p' - (\<Sum>s\<leftarrow>order. finite_tokens s) + projected_after (finite_summary f budget) order k)"
      "num_le projected budget \<or> k = length order"
      "\<forall>j<k. \<not> num_le (Fin (?p' - (\<Sum>s\<leftarrow>order. finite_tokens s) + projected_after (finite_summary f budget) order j)) budget" by auto
    have shift: "?p' - (\<Sum>s\<leftarrow>order. finite_tokens s) + projected_after (finite_summary f budget) order j
        = p - (\<Sum>s\<leftarrow>s # order. finite_tokens s) + projected_after (finite_summary f budget) (s # order) (Suc j)" for j
      by (simp add: projected_after_def)
    have "\<not> num_le (Fin (p - (\<Sum>s\<leftarrow>s # order. finite_tokens s) + projected_after (finite_summary f budget) (s # order) j)) budget"
      if "j < Suc k" for j
      using that k(5) False unfolding shift by (cases j) (simp_all add: projected_after_def)
    with k show ?thesis unfolding shift by (intro exI[of _ "Suc k"]) auto
  qed
qed

section \<open>Properties\<close>

text \<open>
  The plan is the shortest prefix that fits: the order is a permutation of the usable sessions, the selected ones are its first
  \<open>k\<close>, the projected size counts their summaries and the full size of the rest, with every shorter prefix the merge
  would exceed the budget, and the plan stops above the budget only when every session is compacted.
\<close>

theorem merge_plan_is_shortest_prefix:
  assumes "p = planSessionCompactions localeCompare f sessions target budgetTokens" "budget = plan_budget budgetTokens"
    and "\<forall>s \<in> set (plan_sessions sessions). tokens_of s = Fin (finite_tokens s) \<and> summary_tokens f budget s = Fin (finite_summary f budget s)"
  shows "mset (mp_order p) = mset (plan_sessions sessions)
    \<and> (\<exists>k \<le> length (mp_order p). mp_selectedSessionIDs p = map (\<lambda>s. pget s ''sessionID'') (take k (mp_order p))
        \<and> mp_projectedTokens p = Fin (projected_after (finite_summary f budget) (mp_order p) k)
        \<and> (num_le (mp_projectedTokens p) budget \<or> k = length (mp_order p))
        \<and> (\<forall>j<k. \<not> num_le (Fin (projected_after (finite_summary f budget) (mp_order p) j)) budget))"
proof -
  let ?list = "plan_sessions sessions" and ?order = "sessionMergeOrder localeCompare (JArr (plan_sessions sessions)) target"
  have order: "mset ?order = mset ?list" by (simp add: sessionMergeOrder_def)
  then have sum: "(\<Sum>s\<leftarrow>?order. finite_tokens s) = (\<Sum>s\<leftarrow>?list. finite_tokens s)" by (metis mset_map sum_mset_sum_list)
  have fin: "\<forall>s \<in> set ?order. tokens_of s = Fin (finite_tokens s) \<and> summary_tokens f budget s = Fin (finite_summary f budget s)"
    using assms(3) order by (metis set_mset_mset)
  define total where "total = (\<Sum>s\<leftarrow>?order. finite_tokens s)"
  have total: "foldl (\<lambda>sum s. num_add sum (tokens_of s)) (Fin 0) ?list = Fin total"
    using total_finite[of ?list 0] assms(3) by (simp add: total_def sum)
  show ?thesis
  proof (cases "num_le (Fin total) budget")
    case True
    then have "p = \<lparr>mp_selectedSessionIDs = [], mp_order = ?order, mp_projectedTokens = Fin total, mp_fitsWithoutCompaction = True, mp_totalTokens = Fin total\<rparr>"
      by (simp add: assms(1,2) planSessionCompactions_def total Let_def)
    with order True show ?thesis by (auto simp: projected_after_def total_def intro!: exI[of _ 0])
  next
    case False
    obtain ids projected where loop: "compaction_loop f budget ?order (Fin total) [] = (ids, projected)" by fastforce
    from compaction_loop_prefix[OF fin loop] obtain k where k: "k \<le> length ?order" "ids = map (\<lambda>s. pget s ''sessionID'') (take k ?order)"
      "projected = Fin (projected_after (finite_summary f budget) ?order k)" "num_le projected budget \<or> k = length ?order"
      "\<forall>j<k. \<not> num_le (Fin (projected_after (finite_summary f budget) ?order j)) budget"
      by (auto simp: total_def)
    from False loop have "p = \<lparr>mp_selectedSessionIDs = ids, mp_order = ?order, mp_projectedTokens = projected, mp_fitsWithoutCompaction = False, mp_totalTokens = Fin total\<rparr>"
      by (simp add: assms(1,2) planSessionCompactions_def total Let_def)
    with order k show ?thesis by auto
  qed
qed

definition merge_example :: jsval where
  "merge_example = JArr [JObj [(''sessionID'', JStr ''a''), (''tokens'', JNum (Fin 1000))], JObj [(''sessionID'', JStr ''b''), (''tokens'', JNum (Fin 5000))]]"

theorem merge_plan_is_shortest_prefix_witness:
  "let p = planSessionCompactions (\<lambda>_ _. 0) defaultSummaryTokensFor merge_example (JStr ''t'') (JNum (Fin 3000))
   in mp_selectedSessionIDs p = [JStr ''b''] \<and> mp_projectedTokens p = Fin 1512
     \<and> (\<exists>k. mp_selectedSessionIDs p = map (\<lambda>s. pget s ''sessionID'') (take k (mp_order p)))"
proof -
  let ?p = "planSessionCompactions (\<lambda>_ _. 0) defaultSummaryTokensFor merge_example (JStr ''t'') (JNum (Fin 3000))"
  have list: "plan_sessions merge_example = [JObj [(''sessionID'', JStr ''a''), (''tokens'', JNum (Fin 1000))], JObj [(''sessionID'', JStr ''b''), (''tokens'', JNum (Fin 5000))]]"
    by (simp add: plan_sessions_def merge_example_def session_tokens_def num_max_def num_or_def)
  have budget: "plan_budget (JNum (Fin 3000)) = Fin 3000" by (simp add: plan_budget_def num_max_def num_or_def)
  have fin: "\<forall>s \<in> set (plan_sessions merge_example). tokens_of s = Fin (finite_tokens s)
      \<and> summary_tokens defaultSummaryTokensFor (Fin 3000) s = Fin (finite_summary defaultSummaryTokensFor (Fin 3000) s)"
    by (simp add: list tokens_of_def finite_tokens_def summary_tokens_def finite_summary_def defaultSummaryTokensFor_def session_tokens_def
        num_max_def num_min_def num_or_def DEFAULT_MERGE_SUMMARY_MIN_TOKENS_def)
  from merge_plan_is_shortest_prefix[OF refl budget[symmetric] fin, of "\<lambda>_ _. 0" "JStr ''t''"]
  have "\<exists>k. mp_selectedSessionIDs ?p = map (\<lambda>s. pget s ''sessionID'') (take k (mp_order ?p))" by blast
  moreover have "mp_selectedSessionIDs ?p = [JStr ''b''] \<and> mp_projectedTokens ?p = Fin 1512"
    by (simp add: planSessionCompactions_def list budget tokens_of_def sessionMergeOrder_def merge_le_def num_lt_def num_sub_def
        summary_tokens_def defaultSummaryTokensFor_def session_tokens_def num_max_def num_min_def num_or_def DEFAULT_MERGE_SUMMARY_MIN_TOKENS_def Let_def)
  ultimately show ?thesis by (simp add: Let_def)
qed

end
