(* ===== verification/ForkSource.thy ===== *)
theory ForkSource
  imports JSValue
begin

text \<open>
  The frames a forked session starts from, \<open>src/core/context/session-fork-source.mjs\<close>: the running agent's own
  engine, a cached engine, or the pages of the frame store. The runtime's \<open>ensureSessionEntry\<close> and the store's
  \<open>listFrames\<close> are arguments that may throw; a page is whatever the store answers. The offsets asked for are part of the
  result.
\<close>

definition MAX_FORK_PARENT_FRAMES :: int where
  "MAX_FORK_PARENT_FRAMES = 20000"

definition FRAME_PAGE_SIZE :: int where
  "FRAME_PAGE_SIZE = 500"

text \<open>\<open>toArray\<close> is a function of the engine or missing; \<open>frames\<close> is its property.\<close>

record fork_engine =
  fe_toArray :: "jsval list option"
  fe_frames :: jsval

definition engineFrames :: "fork_engine option \<Rightarrow> jsval list option" where
  "engineFrames engine =
     (case engine of None \<Rightarrow> None
      | Some e \<Rightarrow> (case fe_toArray e of Some fs \<Rightarrow> Some fs | None \<Rightarrow> (case fe_frames e of JArr fs \<Rightarrow> Some fs | _ \<Rightarrow> None)))"

record session_entry =
  se_framesLoaded :: jsval
  se_frameEngine :: "fork_engine option"

type_synonym list_frames = "string \<Rightarrow> int \<Rightarrow> nat \<Rightarrow> js_error + jsval"

record fork_runtime =
  fr_ensureSessionEntry :: "(string \<Rightarrow> js_error + session_entry option) option"
  fr_listFrames :: "list_frames option"

record fork_context =
  fc_sessionID :: jsval
  fc_servicesEngine :: "fork_engine option"
  fc_frameEngine :: "fork_engine option"

definition normalizeID :: "jsval \<Rightarrow> string" where
  "normalizeID v = trim_or_empty v"

definition positive_option :: "jsval \<Rightarrow> int \<Rightarrow> int" where
  "positive_option v fallback = (case js_Number v of Fin q \<Rightarrow> if q > 0 then js_trunc q else fallback | _ \<Rightarrow> fallback)"

definition refusal :: "int \<Rightarrow> js_error" where
  "refusal maxFrames = GenericError (''session-create refuses to fork more than '' @ int_string maxFrames @ '' parent frames; set freshContext:true for an empty child or compact the parent first'')"

text \<open>
  The loop over the pages; \<open>offset\<close> is the number of frames read. It ends because every page that lets it go on adds a frame and
  the number of frames is bounded.
\<close>

function page_loop :: "list_frames \<Rightarrow> string \<Rightarrow> int \<Rightarrow> int \<Rightarrow> jsval list \<Rightarrow> nat list \<times> (js_error + jsval list)" where
  "page_loop listFrames sessionID maxFrames pageSize frames =
     (let offset = length frames
      in case listFrames sessionID pageSize offset of
           Inl e \<Rightarrow> ([offset], Inl e)
         | Inr page \<Rightarrow>
             (case page of
                JArr fs \<Rightarrow>
                  if fs = [] then ([offset], Inr frames)
                  else if int (length (frames @ fs)) > maxFrames then ([offset], Inl (refusal maxFrames))
                  else if int (length fs) < pageSize then ([offset], Inr (frames @ fs))
                  else (case page_loop listFrames sessionID maxFrames pageSize (frames @ fs) of (offsets, r) \<Rightarrow> (offset # offsets, r))
              | _ \<Rightarrow> ([offset], Inr frames)))"
  by pat_completeness auto
termination
  by (relation "measure (\<lambda>(_, _, maxFrames, _, frames). nat (maxFrames + 1 - int (length frames)))") (auto simp: neq_Nil_conv)

declare page_loop.simps [simp del]

definition listAllFrames :: "list_frames \<Rightarrow> string \<Rightarrow> int \<Rightarrow> int \<Rightarrow> nat list \<times> (js_error + jsval list)" where
  "listAllFrames listFrames sessionID maxFrames pageSize = page_loop listFrames sessionID maxFrames pageSize []"

text \<open>A missing \<open>maxFrames\<close> or \<open>pageSize\<close> is given as \<open>Undefined\<close>, which is no number either.\<close>

definition resolveForkParentFrames ::
  "fork_runtime option \<Rightarrow> jsval \<Rightarrow> fork_context \<Rightarrow> jsval \<Rightarrow> jsval \<Rightarrow> nat list \<times> (js_error + jsval list)" where
  "resolveForkParentFrames runtime sourceSession context' maxFrames pageSize =
     (let sourceSessionID = normalizeID (pget sourceSession ''id''); limit = positive_option maxFrames MAX_FORK_PARENT_FRAMES;
          liveEngine = (case fc_servicesEngine context' of Some e \<Rightarrow> Some e | None \<Rightarrow> fc_frameEngine context');
          liveFrames = (if normalizeID (fc_sessionID context') = sourceSessionID then engineFrames liveEngine else None);
          read_store = (\<lambda>rt. case fr_listFrames rt of
             None \<Rightarrow> ([], Inl (GenericError ''session-create cannot fork: frame store does not expose listFrames(); set freshContext:true for an empty child''))
           | Some listFrames \<Rightarrow> listAllFrames listFrames sourceSessionID limit (positive_option pageSize FRAME_PAGE_SIZE))
      in if sourceSessionID = [] then ([], Inr [])
         else case liveFrames of
           Some fs \<Rightarrow> ([], Inr fs)
         | None \<Rightarrow> (case runtime of
             None \<Rightarrow> ([], Inl (GenericError ''session-create requires frameRuntime to resolve parent frames''))
           | Some rt \<Rightarrow> (case fr_ensureSessionEntry rt of
               None \<Rightarrow> read_store rt
             | Some ensure \<Rightarrow> (case ensure sourceSessionID of
                 Inl e \<Rightarrow> ([], Inl e)
               | Inr entry \<Rightarrow>
                   (case (case entry of None \<Rightarrow> None
                      | Some se \<Rightarrow> if se_framesLoaded se \<noteq> JBool False then engineFrames (se_frameEngine se) else None) of
                      Some fs \<Rightarrow> ([], Inr fs) | None \<Rightarrow> read_store rt)))))"

section \<open>Reading pages\<close>

lemma page_loop_bounded:
  "sorted_wrt (<) (fst (page_loop listFrames k maxFrames pageSize frames))
   \<and> (\<forall>n \<in> set (fst (page_loop listFrames k maxFrames pageSize frames)). length frames \<le> n \<and> (n = length frames \<or> int n \<le> maxFrames))"
proof (induction listFrames k maxFrames pageSize frames rule: page_loop.induct)
  case (1 listFrames k maxFrames pageSize frames)
  show ?case
  proof (cases "\<exists>fs. listFrames k pageSize (length frames) = Inr (JArr fs) \<and> fs \<noteq> [] \<and> \<not> int (length (frames @ fs)) > maxFrames
      \<and> \<not> int (length fs) < pageSize")
    case False
    then show ?thesis by (subst page_loop.simps, subst (2) page_loop.simps) (auto simp: Let_def split: sum.split jsval.split)
  next
    case True
    then obtain fs where fs: "listFrames k pageSize (length frames) = Inr (JArr fs)" "fs \<noteq> []" "\<not> int (length (frames @ fs)) > maxFrames"
      "\<not> int (length fs) < pageSize" by blast
    let ?r = "page_loop listFrames k maxFrames pageSize (frames @ fs)"
    have step: "page_loop listFrames k maxFrames pageSize frames = (length frames # fst ?r, snd ?r)"
      using fs by (subst page_loop.simps) (simp add: case_prod_unfold)
    have pos: "0 < length fs" using fs(2) by simp
    note IH = 1[OF refl fs(1) refl fs(2-4)]
    have later: "length frames < n \<and> int n \<le> maxFrames" if "n \<in> set (fst ?r)" for n
      using IH that pos fs(3) by (metis add_lessD1 length_append less_add_same_cancel1 not_le order_less_le_trans)
    with IH show ?thesis unfolding step by auto
  qed
qed

text \<open>
  What a read that ends well gives, whatever the store answers: the pages, each asked for at the number of frames read before it; all
  but the last are full, and the last is empty or shorter than a page.
\<close>

definition page_at :: "list_frames \<Rightarrow> string \<Rightarrow> int \<Rightarrow> nat \<Rightarrow> jsval list" where
  "page_at listFrames k pageSize offset = (case listFrames k pageSize offset of Inr (JArr fs) \<Rightarrow> fs | _ \<Rightarrow> [])"

definition pages_read :: "list_frames \<Rightarrow> string \<Rightarrow> int \<Rightarrow> nat \<Rightarrow> nat list \<Rightarrow> bool" where
  "pages_read listFrames k pageSize start offsets \<longleftrightarrow> offsets \<noteq> []
     \<and> (\<forall>i < length offsets. offsets ! i = start + length (concat (map (page_at listFrames k pageSize) (take i offsets))))
     \<and> (\<forall>offset \<in> set (butlast offsets). page_at listFrames k pageSize offset \<noteq> [] \<and> pageSize \<le> int (length (page_at listFrames k pageSize offset)))
     \<and> (page_at listFrames k pageSize (last offsets) = [] \<or> int (length (page_at listFrames k pageSize (last offsets))) < pageSize)"

lemma pages_read_one:
  "page_at listFrames k pageSize start = [] \<or> int (length (page_at listFrames k pageSize start)) < pageSize
   \<Longrightarrow> pages_read listFrames k pageSize start [start]"
  by (simp add: pages_read_def)

lemma pages_read_more:
  assumes "pages_read listFrames k pageSize (start + length (page_at listFrames k pageSize start)) offsets"
    and "page_at listFrames k pageSize start \<noteq> []" "pageSize \<le> int (length (page_at listFrames k pageSize start))"
  shows "pages_read listFrames k pageSize start (start # offsets)"
proof -
  have "(start # offsets) ! i = start + length (concat (map (page_at listFrames k pageSize) (take i (start # offsets))))"
    if "i < length (start # offsets)" for i
    using assms(1) that by (cases i) (auto simp: pages_read_def)
  with assms show ?thesis by (auto simp: pages_read_def)
qed

lemma page_loop_pages:
  assumes "page_loop listFrames k maxFrames pageSize frames = (offsets, Inr all)" "int (length frames) \<le> maxFrames"
  shows "pages_read listFrames k pageSize (length frames) offsets \<and> all = frames @ concat (map (page_at listFrames k pageSize) offsets)
    \<and> int (length all) \<le> maxFrames"
  using assms
proof (induction listFrames k maxFrames pageSize frames arbitrary: offsets rule: page_loop.induct)
  case (1 listFrames k maxFrames pageSize frames)
  let ?page = "page_at listFrames k pageSize (length frames)"
  note run = 1(2)[unfolded page_loop.simps[of listFrames k maxFrames pageSize frames] Let_def]
  show ?case
  proof (cases "\<exists>fs. listFrames k pageSize (length frames) = Inr (JArr fs) \<and> fs \<noteq> [] \<and> \<not> int (length (frames @ fs)) > maxFrames
      \<and> \<not> int (length fs) < pageSize")
    case False
    with run have "offsets = [length frames] \<and> all = frames @ ?page \<and> (?page = [] \<or> int (length ?page) < pageSize \<and> int (length all) \<le> maxFrames)"
      by (auto simp: page_at_def split: sum.splits jsval.splits if_splits)
    with 1(3) pages_read_one[of listFrames k pageSize "length frames"] show ?thesis by auto
  next
    case True
    then obtain fs where fs: "listFrames k pageSize (length frames) = Inr (JArr fs)" "fs \<noteq> []" "\<not> int (length (frames @ fs)) > maxFrames"
      "\<not> int (length fs) < pageSize" by blast
    then have page: "?page = fs" by (simp add: page_at_def)
    obtain offsets' where rest: "page_loop listFrames k maxFrames pageSize (frames @ fs) = (offsets', Inr all)" "offsets = length frames # offsets'"
      using run fs by (cases "page_loop listFrames k maxFrames pageSize (frames @ fs)") auto
    have "int (length (frames @ fs)) \<le> maxFrames" using fs(3) by simp
    from 1(1)[OF refl fs(1) refl fs(2-4) rest(1) this] pages_read_more[of listFrames k pageSize "length frames" offsets'] fs(2,4)
    show ?thesis by (auto simp: page rest(2))
  qed
qed

text \<open>A store that pages over a list of frames as its options say.\<close>

definition pages_over :: "jsval list \<Rightarrow> list_frames \<Rightarrow> bool" where
  "pages_over all listFrames \<longleftrightarrow> (\<forall>k l offset. 1 \<le> l \<longrightarrow> listFrames k l offset = Inr (JArr (take (nat l) (drop offset all))))"

lemma page_loop_complete:
  assumes "pages_over all listFrames" "1 \<le> pageSize" "frames = take (length frames) all" "int (length frames) \<le> maxFrames"
  shows "snd (page_loop listFrames k maxFrames pageSize frames) = (if int (length all) \<le> maxFrames then Inr all else Inl (refusal maxFrames))"
  using assms
proof (induction listFrames k maxFrames pageSize frames rule: page_loop.induct)
  case (1 listFrames k maxFrames pageSize frames)
  let ?page = "take (nat pageSize) (drop (length frames) all)"
  have page: "listFrames k pageSize (length frames) = Inr (JArr ?page)" using 1(2,3) by (simp add: pages_over_def)
  have grown: "frames @ ?page = take (length frames + length ?page) all"
  proof -
    have "frames @ ?page = take (length frames + nat pageSize) all" using 1(4) by (metis take_add)
    also have "\<dots> = take (length frames + length ?page) all" by (simp add: min_def)
    finally show ?thesis .
  qed
  note step = page_loop.simps[of listFrames k maxFrames pageSize frames, unfolded Let_def page sum.case jsval.case]
  show ?case
  proof (cases "?page = []")
    case True
    with 1(3) have "length all \<le> length frames" by simp
    with 1(4) have "frames = all" by (metis take_all)
    with True 1(5) show ?thesis unfolding step by simp
  next
    case False
    show ?thesis
    proof (cases "int (length (frames @ ?page)) > maxFrames")
      case True
      moreover have "length (frames @ ?page) \<le> length all" by (subst grown) simp
      ultimately show ?thesis using False unfolding step by auto
    next
      case fits: False
      show ?thesis
      proof (cases "int (length ?page) < pageSize")
        case True
        then have "length all \<le> length frames + length ?page" by auto
        with grown have eq: "frames @ ?page = all" by simp
        have "snd (page_loop listFrames k maxFrames pageSize frames) = Inr (frames @ ?page)"
          unfolding step using False fits True by (simp only: if_False if_True snd_conv)
        moreover have "int (length all) \<le> maxFrames" using fits eq by (metis not_less)
        ultimately show ?thesis by (simp only: eq if_True)
      next
        case full: False
        have "length (frames @ ?page) = length frames + length ?page" by simp
        with grown have "frames @ ?page = take (length (frames @ ?page)) all" by simp
        from 1(1)[OF refl page refl False fits full 1(2,3) this] fits
        have "snd (page_loop listFrames k maxFrames pageSize (frames @ ?page)) = (if int (length all) \<le> maxFrames then Inr all else Inl (refusal maxFrames))" by simp
        then show ?thesis unfolding step using False fits full by (simp add: case_prod_unfold)
      qed
    qed
  qed
qed

section \<open>Properties\<close>

lemma store_read_bounded:
  "0 \<le> maxFrames \<Longrightarrow> sorted_wrt (<) (fst (listAllFrames listFrames k maxFrames pageSize))
   \<and> int (length (fst (listAllFrames listFrames k maxFrames pageSize))) \<le> maxFrames + 1"
proof -
  assume limit: "0 \<le> maxFrames"
  let ?os = "fst (page_loop listFrames k maxFrames pageSize [])"
  from page_loop_bounded[of listFrames k maxFrames pageSize "[]"] have os: "sorted_wrt (<) ?os" "\<forall>n \<in> set ?os. n = 0 \<or> int n \<le> maxFrames" by auto
  have "set ?os \<subseteq> {..nat maxFrames}" using os(2) limit by auto
  then have "card (set ?os) \<le> card {..nat maxFrames}" by (rule card_mono[rotated]) simp
  moreover have "card (set ?os) = length ?os" using os(1) by (simp add: distinct_card strict_sorted_iff)
  ultimately have "length ?os \<le> nat maxFrames + 1" by simp
  with os(1) limit show ?thesis by (simp add: listAllFrames_def)
qed

text \<open>The offsets are empty when no page was asked for; otherwise they are those of the loop over the store's pages.\<close>

lemma fork_reads:
  assumes "resolveForkParentFrames runtime sourceSession context' maxFrames pageSize = (offsets, r)" "offsets \<noteq> []"
  obtains rt listFrames where "runtime = Some rt" "fr_listFrames rt = Some listFrames"
    "listAllFrames listFrames (normalizeID (pget sourceSession ''id'')) (positive_option maxFrames MAX_FORK_PARENT_FRAMES)
       (positive_option pageSize FRAME_PAGE_SIZE) = (offsets, r)"
  using assms by (auto simp: resolveForkParentFrames_def Let_def split: option.splits sum.splits if_splits)

text \<open>
  C25: Collecting the parent frames of a fork always ends, whatever the store answers, page after page: the offsets asked for strictly
  increase and at most one more page than the limit is read. When pages were read and the fork gets frames, they are the pages one
  after the other, each asked for at the number of frames before it, no more frames than the limit; every page but the last was full,
  and the last was empty or shorter than a page. (So a page the store shortens ends the read, see the lemma of ForkStore.)
\<close>

theorem fork_is_the_pages_read:
  assumes "resolveForkParentFrames runtime sourceSession context' maxFrames pageSize = (offsets, r)"
    and "limit = positive_option maxFrames MAX_FORK_PARENT_FRAMES" "pageLimit = positive_option pageSize FRAME_PAGE_SIZE"
    and "k = normalizeID (pget sourceSession ''id'')"
  shows "sorted_wrt (<) offsets \<and> int (length offsets) \<le> limit + 1
    \<and> (\<forall>frames. r = Inr frames \<and> offsets \<noteq> [] \<longrightarrow> int (length frames) \<le> limit
        \<and> (\<exists>rt listFrames. runtime = Some rt \<and> fr_listFrames rt = Some listFrames \<and> pages_read listFrames k pageLimit 0 offsets
             \<and> frames = concat (map (page_at listFrames k pageLimit) offsets)))"
proof (cases "offsets = []")
  case True
  then show ?thesis by (simp add: assms(2) positive_option_def MAX_FORK_PARENT_FRAMES_def js_trunc_nonneg split: jsnum.split)
next
  case False
  have limit: "0 \<le> limit" by (auto simp: assms(2) positive_option_def MAX_FORK_PARENT_FRAMES_def js_trunc_nonneg split: jsnum.split)
  obtain rt listFrames where f: "runtime = Some rt" "fr_listFrames rt = Some listFrames" "listAllFrames listFrames k limit pageLimit = (offsets, r)"
    by (rule fork_reads[OF assms(1) False]) (simp add: assms(2-4))
  have "pages_read listFrames k pageLimit 0 offsets \<and> frames = concat (map (page_at listFrames k pageLimit) offsets) \<and> int (length frames) \<le> limit"
    if "r = Inr frames" for frames
    using page_loop_pages[of listFrames k limit pageLimit "[]" offsets frames] f(3) that limit by (auto simp: listAllFrames_def)
  with f store_read_bounded[OF limit, of listFrames k pageLimit] show ?thesis by auto
qed

text \<open>
  When the store pages over the session's frames exactly as its options say, a fork from a cold session starts from all of them in their
  order, or is refused because they are more than the limit. The repository's own store does not: it leaves frames out of a page.
\<close>

lemma cold_fork_is_complete_or_refused:
  assumes "normalizeID (pget sourceSession ''id'') = k" "k \<noteq> []" "normalizeID (fc_sessionID context') \<noteq> k"
    and "fr_ensureSessionEntry rt = Some (\<lambda>_. Inr (Some entry))" "se_framesLoaded entry = JBool False"
    and "fr_listFrames rt = Some listFrames" "pages_over all listFrames" "1 \<le> positive_option pageSize FRAME_PAGE_SIZE"
  shows "snd (resolveForkParentFrames (Some rt) sourceSession context' maxFrames pageSize)
    = (if int (length all) \<le> positive_option maxFrames MAX_FORK_PARENT_FRAMES then Inr all
       else Inl (refusal (positive_option maxFrames MAX_FORK_PARENT_FRAMES)))"
proof -
  have limit: "0 \<le> positive_option maxFrames MAX_FORK_PARENT_FRAMES"
    by (auto simp: positive_option_def MAX_FORK_PARENT_FRAMES_def js_trunc_nonneg split: jsnum.split)
  show ?thesis
    using assms(1-6) page_loop_complete[OF assms(7,8), of "[]" "positive_option maxFrames MAX_FORK_PARENT_FRAMES" k] limit
    by (simp add: resolveForkParentFrames_def listAllFrames_def Let_def)
qed

definition example_store :: list_frames where
  "example_store k l offset = Inr (JArr (take (nat l) (drop offset [JStr ''f1'', JStr ''f2'', JStr ''f3''])))"

theorem fork_is_the_pages_read_witness:
  "resolveForkParentFrames (Some \<lparr>fr_ensureSessionEntry = None, fr_listFrames = Some example_store\<rparr>) (JObj [(''id'', JStr ''parent'')])
     \<lparr>fc_sessionID = JStr ''other'', fc_servicesEngine = None, fc_frameEngine = None\<rparr> Undefined (JNum (Fin 2))
   = ([0, 2], Inr [JStr ''f1'', JStr ''f2'', JStr ''f3'']) \<and> pages_read example_store ''parent'' 2 0 [0, 2]"
proof -
  let ?r = "resolveForkParentFrames (Some \<lparr>fr_ensureSessionEntry = None, fr_listFrames = Some example_store\<rparr>) (JObj [(''id'', JStr ''parent'')])
     \<lparr>fc_sessionID = JStr ''other'', fc_servicesEngine = None, fc_frameEngine = None\<rparr> Undefined (JNum (Fin 2))"
  have k: "normalizeID (pget (JObj [(''id'', JStr ''parent'')]) ''id'') = ''parent''" "normalizeID (JStr ''other'') = ''other''"
    by (simp_all add: normalizeID_def js_trim_def js_space_def)
  have r: "?r = ([0, 2], Inr [JStr ''f1'', JStr ''f2'', JStr ''f3''])"
    using k by (simp add: resolveForkParentFrames_def Let_def listAllFrames_def page_loop.simps example_store_def positive_option_def
        MAX_FORK_PARENT_FRAMES_def FRAME_PAGE_SIZE_def)
  have "pages_read example_store ''parent'' 2 0 [0, 2]"
    using fork_is_the_pages_read[OF r refl refl refl] k(1) by (auto simp: positive_option_def)
  with r show ?thesis by simp
qed

end
