(* ===== verification/SingleMerge.thy ===== *)
theory SingleMerge
  imports FrameStore
begin

text \<open>
  What a merge of one ordinary frame does to the engine of \<open>src/core/frames/frame-engine.mjs\<close> when no validator is
  configured: the frame is the current one of its id, the properties the engine does not normalize are copies of the
  input's, and every other frame stays as it was. The components that write a frame through the engine (the queue of
  scheduled frames, the timers) rest on it.
\<close>

section \<open>Ordinary frames\<close>

definition plain_frame :: "jsobj \<Rightarrow> bool" where
  "plain_frame f \<longleftrightarrow> truthy (oget f ''id'') \<and> truthy (oget f ''type'') \<and> oget f ''phantom'' \<noteq> JBool True \<and> arr_of (oget f ''targets'') = []"

definition NORMALIZED_KEYS :: "string set" where
  "NORMALIZED_KEYS = {''id'', ''type'', ''order'', ''timestamp'', ''createdAt'', ''updatedAt'', ''createdClock'', ''updatedClock'',
     ''startedProcessingAt'', ''finishedProcessingAt'', ''hidden'', ''deleted'', ''targets'', ''recipients'', ''parentID'', ''groupID'',
     ''groupType'', ''phantom'', ''content'', ''state'', ''commitOrder''}"

definition free_key :: "string \<Rightarrow> bool" where
  "free_key k \<longleftrightarrow> k \<notin> NORMALIZED_KEYS \<and> \<not> unsafe_key k"

lemma free_keys [simp]:
  "free_key ''scheduledStatus''" "free_key ''scheduledAt''" "free_key ''targetAgentID''" "free_key ''continuation''"
  "free_key ''authorType''" "free_key ''sessionID''"
  by (simp_all add: free_key_def NORMALIZED_KEYS_def unsafe_key_def)

lemma oget_clone_props: "\<not> unsafe_key k \<Longrightarrow> oget (clone_props ps) k = cloneValue (oget ps k)"
  by (induction ps) auto

lemma normalized_frame:
  assumes "normalizeFrame cf stamped f st = (st', g)"
  shows "same_store st st'" "oget g ''id'' = oget f ''id''" "oget g ''type'' = oget f ''type''"
    "oget g ''phantom'' = JBool (oget f ''phantom'' = JBool True)" "oget g ''targets'' = JArr (arr_of (oget f ''targets''))"
    "free_key k \<Longrightarrow> oget g k = cloneValue (oget f k)"
    "\<not> nullish (oget f ''deleted'') \<Longrightarrow> oget g ''deleted'' = oget f ''deleted''"
proof -
  show "same_store st st'" "oget g ''id'' = oget f ''id''" "oget g ''type'' = oget f ''type''"
    by (rule normalizeFrame_props[OF assms])+
  obtain st1 micros clock where s1: "(if stamped then nextStamp cf st else (st, JNum (Fin 0), Null)) = (st1, micros, clock)"
    by (metis prod_cases3)
  have "\<exists>v1 v2 v3 v4 v5 v6 v7 v8 v9 v11 v12 v13 v14 v15 v16. g = ospread (clone_props f)
     [(''id'', oget f ''id''), (''type'', oget f ''type''), (''order'', v1), (''timestamp'', v2), (''createdAt'', v3), (''updatedAt'', v4),
      (''createdClock'', v5), (''updatedClock'', v6), (''startedProcessingAt'', v7), (''finishedProcessingAt'', v8), (''hidden'', v9),
      (''deleted'', js_nc (js_nc (oget f ''deleted'') (pget (frame_value st (oget f ''id'')) ''deleted'')) (JBool False)), (''targets'', JArr (arr_of (oget f ''targets''))), (''recipients'', v11), (''parentID'', v12), (''groupID'', v13),
      (''groupType'', v14), (''phantom'', JBool (oget f ''phantom'' = JBool True)), (''content'', v15), (''state'', v16)]"
    using assms unfolding normalizeFrame_def s1 Let_def prod.case
    by (simp del: ospread_Cons ospread_Nil split: prod.splits) blast
  then show "oget g ''phantom'' = JBool (oget f ''phantom'' = JBool True)" "oget g ''targets'' = JArr (arr_of (oget f ''targets''))"
    "free_key k \<Longrightarrow> oget g k = cloneValue (oget f k)" "\<not> nullish (oget f ''deleted'') \<Longrightarrow> oget g ''deleted'' = oget f ''deleted''"
    by (auto simp: oget_ospread oget_clone_props free_key_def NORMALIZED_KEYS_def)
qed

section \<open>The merge\<close>

lemma apply_single:
  assumes "engine_get st k = Some a" "a < length (en_heap st)" "oget (frame_at st a) ''id'' = k" "truthy k"
  shows "en_frames (applyCommitOrder [a] order st) = en_frames st"
    "frame_at (applyCommitOrder [a] order st) b =
       (if b = a then oset (oset (frame_at st a) ''commitOrder'' (JNum (Fin order))) ''commitOrder'' (JNum (Fin order)) else frame_at st b)"
    "length (en_heap (applyCommitOrder [a] order st)) = length (en_heap st)"
  using assms by (simp_all add: applyCommitOrder_def apply_commit_order_step_def Let_def write_commit_order_at)

theorem single_merge:
  assumes ok: "engine_ok cf st" and free: "cf_commitValidator cf = None" and f: "plain_frame f"
  obtains st' a where "engine_merge cf (JArr [JObj f]) options st = Inr (st', [a])"
    "engine_ok cf st'" "engine_get st' (oget f ''id'') = Some a" "plain_frame (frame_at st' a)"
    "oget (frame_at st' a) ''id'' = oget f ''id''" "oget (frame_at st' a) ''type'' = oget f ''type''"
    "\<And>k. free_key k \<Longrightarrow> oget (frame_at st' a) k = cloneValue (oget f k)"
    "\<not> nullish (oget f ''deleted'') \<longrightarrow> oget (frame_at st' a) ''deleted'' = oget f ''deleted''"
    "\<And>k. k \<noteq> oget f ''id'' \<Longrightarrow> frame_value st' k = frame_value st k"
proof -
  let ?id = "oget f ''id''"
  obtain st1 g where n: "normalizeFrame cf True f st = (st1, g)" by (metis prod.exhaust)
  note g = normalized_frame[OF n]
  define a where "a = length (en_heap st)"
  define st2 where "st2 = st1\<lparr>en_heap := en_heap st1 @ [g]\<rparr>"
  have al: "alloc g st1 = (st2, a)" using g(1) by (simp add: alloc_def st2_def a_def same_store_def)
  have g_at: "frame_at st2 a = g" using g(1) by (simp add: frame_at_def st2_def a_def same_store_def nth_append)
  have s2: "en_frames st2 = en_frames st" "en_heap st2 = en_heap st @ [g]" using g(1) by (simp_all add: st2_def same_store_def)
  define m where "m = mergeInput cf (start_merge st) (JObj f)"
  have mok: "merging_ok cf st m"
    unfolding m_def by (rule mergeInput_ok[OF merging_ok_start[OF ok]])
  have m0: "m = storeFrame cf a ((start_merge st)\<lparr>mg_engine := st2\<rparr>)"
    using f n al g(4,5) by (simp add: m_def mergeInput_def plain_frame_def start_merge_def Let_def mergeTargets_def)
  have eng: "mg_results m = [a]" "mg_changes m \<noteq> []" "en_frames (mg_engine m) = AList.update ?id a (en_frames st)"
    "en_heap (mg_engine m) = en_heap st @ [g]"
    using s2 g(2) unfolding m0
    by (simp_all add: storeFrame_def Let_def g_at start_merge_def install_version_def appendHistory_def)
  obtain st3 c where cc: "createCommit cf (mg_changes m) options (mg_engine m) = (st3, c)" by (metis prod.exhaust)
  note cs = createCommit_store[OF cc]
  define st4 where "st4 = (recordCommit cf c st3)\<lparr>en_refs := AList.update ''heads/main'' (cm_order c) (en_refs (recordCommit cf c st3))\<rparr>"
  define st5 where "st5 = applyCommitOrder [a] (cm_order c) st4"
  have rec: "recorded cf c m st3 = st5" by (simp add: recorded_def st5_def st4_def eng(1) Let_def)
  have s4: "en_frames st4 = AList.update ?id a (en_frames st)" "en_heap st4 = en_heap st @ [g]"
    using cs eng by (simp_all add: st4_def)
  have get4: "engine_get st4 ?id = Some a" by (simp add: engine_get_def s4 alist_simps)
  have at4: "frame_at st4 a = g" "a < length (en_heap st4)" by (simp_all add: frame_at_def s4 a_def)
  have idok: "truthy ?id" "oget g ''id'' = ?id" using f g(2) by (simp_all add: plain_frame_def)
  note ap = apply_single[OF get4 at4(2) at4(1)[THEN arg_cong, of "\<lambda>f. oget f ''id''", unfolded idok(2)] idok(1)]
  have ok5: "engine_ok cf st5"
  proof -
    have "engine_ok cf st4"
      by (rule engine_ok_grow[of cf "mg_engine m" _ "[]"]) (use mok cs in \<open>simp_all add: merging_ok_def st4_def\<close>)
    then show ?thesis unfolding st5_def by (rule applyCommitOrder_spec(1))
  qed
  define ev where "ev = (if pget options ''events'' \<noteq> JBool False then mg_events m @ [CommitEvent c [a]] else [])"
  define st' where "st' = emit_all ev st5"
  have ret: "engine_merge cf (JArr [JObj f]) options st = Inr (st', [a])"
    using eng(1,2) cc free
    by (simp add: engine_merge_def m_def[symmetric] finish_merge_def Let_def record_merge_recorded rec st'_def ev_def emit_all_def)
  have fin: "frame_at st' b = frame_at st5 b" "engine_get st' k = engine_get st5 k" for b k
    by (simp_all add: st'_def)
  have get': "engine_get st' k = (if k = ?id then Some a else engine_get st k)" for k
    using fin(2) ap(1) by (simp add: engine_get_def st5_def s4 alist_simps)
  have at': "frame_at st' a = oset (oset g ''commitOrder'' (JNum (Fin (cm_order c)))) ''commitOrder'' (JNum (Fin (cm_order c)))"
    using fin(1) ap(2) at4 by (simp add: st5_def)
  show thesis
  proof (rule that[OF ret])
    show "engine_ok cf st'" using ok5 by (simp add: st'_def)
    show "engine_get st' ?id = Some a" by (simp add: get')
    show "plain_frame (frame_at st' a)" using f g by (simp add: at' plain_frame_def)
    show "oget (frame_at st' a) ''id'' = ?id" "oget (frame_at st' a) ''type'' = oget f ''type''" using g by (simp_all add: at')
    show "oget (frame_at st' a) k = cloneValue (oget f k)" if "free_key k" for k
      using that g(6)[of k] by (auto simp: at' free_key_def NORMALIZED_KEYS_def)
    show "\<not> nullish (oget f ''deleted'') \<longrightarrow> oget (frame_at st' a) ''deleted'' = oget f ''deleted''" using g(7) by (simp add: at')
    show "frame_value st' k = frame_value st k" if "k \<noteq> ?id" for k
    proof (cases "engine_get st k")
      case (Some b)
      then have "b < length (en_heap st)" using engine_ok_current[OF ok] by (auto simp: frame_ok_def)
      then have "frame_at st' b = frame_at st b"
        using fin(1) ap(2) by (simp add: st5_def a_def frame_at_def s4 nth_append)
      with Some that show ?thesis by (simp add: frame_value_def get')
    qed (use that in \<open>simp add: frame_value_def get'\<close>)
  qed
qed

end
