(* ===== verification/ScheduledQueue.thy ===== *)
theory ScheduledQueue
  imports FrameRouter SingleMerge
begin

text \<open>
  The queue of scheduled frames, \<open>src/core/runtime/scheduled-frame-queue.mjs\<close>, on the frame engines of the
  live sessions. The state is the runtime: the clock, the engines by session id, the sessions opened without their frames, the pins, the tracked entries in the
  order of their \<open>Map\<close> and the flags of the worker. \<open>runtime_merge\<close> is a merge on the engine of a session together
  with the runtime's own listener (\<open>connectFrameEngine\<close>), which tracks the frames of every recorded commit.

  What runs while a dispatch waits for the router (the handlers, the agent's turn, other sessions) is the argument
  \<open>route\<close>, a function on the runtime that may fail. The durable store is \<open>store\<close>: the manifest and the newest frames of
  a session. The clock stands still between two waits. \<open>Date.parse\<close> and \<open>localeCompare\<close> are arguments.
\<close>

section \<open>State\<close>

record scheduled_entry =
  se_frame :: jsval
  se_frameID :: jsval
  se_sessionID :: jsval
  se_scheduledAt :: jsnum

record 'c runtime =
  ru_clock :: rat
  ru_sessions :: "(jsval \<times> 'c engine) list"
  ru_partial :: "jsval list"
  ru_pins :: "jsval list"
  sq_entries :: "(jsval \<times> scheduled_entry) list"
  sq_started :: bool
  sq_armed :: bool
  sq_processing :: bool
  sq_nudgePending :: bool

record 'c queue_env =
  qe_dateParse :: "string \<Rightarrow> rat option"
  qe_localeCompare :: "string \<Rightarrow> string \<Rightarrow> int"
  qe_engine :: "'c engine_config"
  qe_store :: "jsval \<Rightarrow> jsval list option"
  qe_clock0 :: 'c

definition DEFAULT_WORKER_INTERVAL_MS :: int where
  "DEFAULT_WORKER_INTERVAL_MS = 1000"

definition SCHEDULER_AUTHOR_ID :: string where
  "SCHEDULER_AUTHOR_ID = ''internal:scheduled-frame-queue''"

definition normalizeWorkerInterval :: "jsval \<Rightarrow> int" where
  "normalizeWorkerInterval v =
     (case js_Number v of Fin q \<Rightarrow> if q \<le> 0 then DEFAULT_WORKER_INTERVAL_MS else js_trunc q | _ \<Rightarrow> DEFAULT_WORKER_INTERVAL_MS)"

definition isPendingScheduledFrame :: "(string \<Rightarrow> rat option) \<Rightarrow> jsval \<Rightarrow> bool" where
  "isPendingScheduledFrame dateParse frame =
     (if \<not> truthy (pget frame ''id'') \<or> \<not> truthy (pget frame ''type'') \<or> pget frame ''deleted'' = JBool True then False
      else case normalizeScheduledAt dateParse (pget frame ''scheduledAt'') of
             Fin q \<Rightarrow> 0 < q \<and> pget frame ''scheduledStatus'' \<noteq> JStr ''fired'' \<and> pget frame ''scheduledStatus'' \<noteq> JStr ''cancelled''
           | _ \<Rightarrow> False)"

text \<open>\<open>a - b\<close>; a difference that is not a number is falsy and leaves the decision to the ids.\<close>

definition compareEntries :: "(string \<Rightarrow> string \<Rightarrow> int) \<Rightarrow> scheduled_entry \<Rightarrow> scheduled_entry \<Rightarrow> rat" where
  "compareEntries lc a b =
     (case (se_scheduledAt a, se_scheduledAt b) of
        (Fin p, Fin q) \<Rightarrow> if p - q \<noteq> 0 then p - q else of_int (lc (js_String (se_frameID a)) (js_String (se_frameID b)))
      | _ \<Rightarrow> of_int (lc (js_String (se_frameID a)) (js_String (se_frameID b))))"

definition compareScheduledEntries :: "(string \<Rightarrow> string \<Rightarrow> int) \<Rightarrow> scheduled_entry \<Rightarrow> scheduled_entry \<Rightarrow> rat" where
  "compareScheduledEntries lc a b =
     (let d = framePriority (se_frame a) - framePriority (se_frame b) in if d \<noteq> 0 then d else compareEntries lc a b)"

text \<open>A frame with a known id replaces the earlier one at its place.\<close>

definition uniqueFrames :: "jsval list \<Rightarrow> jsval list" where
  "uniqueFrames frames =
     map snd (foldl (\<lambda>m f. if truthy (pget f ''id'') then AList.update (pget f ''id'') f m else m) [] frames)"

section \<open>Tracking\<close>

definition is_due :: "'c runtime \<Rightarrow> scheduled_entry \<Rightarrow> bool" where
  "is_due w e = FrameEngine.num_le (se_scheduledAt e) (Fin (ru_clock w))"

definition nudge :: "'c runtime \<Rightarrow> 'c runtime" where
  "nudge w =
     (if \<not> sq_started w \<or> sq_nudgePending w then w
      else if \<not> list_ex (is_due w) (map snd (sq_entries w)) then w
      else w\<lparr>sq_nudgePending := True\<rparr>)"

definition drop_entry :: "jsval \<Rightarrow> 'c runtime \<Rightarrow> 'c runtime" where
  "drop_entry k w = w\<lparr>sq_entries := AList.delete k (sq_entries w)\<rparr>"

definition trackFrame :: "(string \<Rightarrow> rat option) \<Rightarrow> 'c runtime \<Rightarrow> jsval \<Rightarrow> 'c runtime" where
  "trackFrame dateParse w frame =
     (if \<not> truthy (pget frame ''id'') then w
      else if \<not> isPendingScheduledFrame dateParse frame then drop_entry (pget frame ''id'') w
      else nudge (w\<lparr>sq_entries := AList.update (pget frame ''id'')
             \<lparr>se_frame = frame, se_frameID = pget frame ''id'', se_sessionID = pget frame ''sessionID'',
              se_scheduledAt = normalizeScheduledAt dateParse (pget frame ''scheduledAt'')\<rparr> (sq_entries w)\<rparr>))"

definition trackFrames :: "(string \<Rightarrow> rat option) \<Rightarrow> jsval list \<Rightarrow> 'c runtime \<Rightarrow> 'c runtime" where
  "trackFrames dateParse frames w = foldl (trackFrame dateParse) w frames"

definition findPendingProcessWake :: "jsval \<Rightarrow> jsval \<Rightarrow> 'c runtime \<Rightarrow> scheduled_entry option" where
  "findPendingProcessWake sessionID agentID w =
     (if \<not> truthy sessionID \<or> \<not> truthy agentID then None
      else find (\<lambda>e. se_sessionID e = sessionID \<and> pget (se_frame e) ''targetAgentID'' = agentID
                   \<and> pget (pget (se_frame e) ''continuation'') ''kind'' = JStr ''exec-wake-on-completion''
                   \<and> pget (se_frame e) ''scheduledStatus'' \<noteq> JStr ''fired''
                   \<and> pget (se_frame e) ''scheduledStatus'' \<noteq> JStr ''cancelled'')
             (map snd (sq_entries w)))"

text \<open>The pages of \<open>load\<close>: \<open>page offset\<close> is one answer of the store. The fuel bounds the pages.\<close>

fun load_pages :: "nat \<Rightarrow> (nat \<Rightarrow> jsval list) \<Rightarrow> nat \<Rightarrow> jsval list \<Rightarrow> jsval list option" where
  "load_pages 0 page offset frames = None"
| "load_pages (Suc fuel) page offset frames =
     (if length (page offset) < 500 then Some (frames @ page offset)
      else load_pages fuel page (offset + length (page offset)) (frames @ page offset))"

definition queue_load :: "(string \<Rightarrow> rat option) \<Rightarrow> nat \<Rightarrow> (nat \<Rightarrow> jsval list) option \<Rightarrow> 'c runtime \<Rightarrow> 'c runtime option" where
  "queue_load dateParse fuel listScheduledFrames w =
     (case listScheduledFrames of None \<Rightarrow> Some w
      | Some page \<Rightarrow> map_option (\<lambda>frames. trackFrames dateParse frames w) (load_pages fuel page 0 []))"

text \<open>Starting: the frames the load answered (none when it failed) are tracked, the timer armed, the worker nudged.\<close>

definition queue_arm :: "'c runtime \<Rightarrow> 'c runtime" where
  "queue_arm w = (if sq_armed w \<or> \<not> sq_started w then w else w\<lparr>sq_armed := True\<rparr>)"

definition queue_start :: "(string \<Rightarrow> rat option) \<Rightarrow> jsval list option \<Rightarrow> 'c runtime \<Rightarrow> 'c runtime" where
  "queue_start dateParse loaded w =
     (if sq_started w then w
      else nudge (queue_arm (trackFrames dateParse (case loaded of None \<Rightarrow> [] | Some fs \<Rightarrow> fs) (w\<lparr>sq_started := True\<rparr>))))"

definition queue_stop :: "'c runtime \<Rightarrow> 'c runtime" where
  "queue_stop w = w\<lparr>sq_started := False, sq_armed := False, sq_nudgePending := False\<rparr>"

section \<open>Sessions and merges\<close>

text \<open>
  A live session answers its engine, after loading its newest frames when it was opened without them (\<open>ru_partial\<close>); another
  is loaded from its manifest and newest frames. A session the store does not know is an error with status 404. Every access
  moves the session to the end of the order, in which sessions past the cap are evicted; the cap is taken to be off.
\<close>

definition unknown_session :: "jsval \<Rightarrow> string" where
  "unknown_session sid = ''Unknown session: '' @ js_String sid"

definition put_session :: "jsval \<Rightarrow> 'c engine \<Rightarrow> 'c runtime \<Rightarrow> 'c runtime" where
  "put_session sid e w = w\<lparr>ru_sessions := AList.update sid e (ru_sessions w), ru_partial := filter (\<lambda>s. s \<noteq> sid) (ru_partial w)\<rparr>"

definition touchSession :: "jsval \<Rightarrow> 'c runtime \<Rightarrow> 'c runtime" where
  "touchSession sid w =
     (case map_of (ru_sessions w) sid of None \<Rightarrow> w
      | Some e \<Rightarrow> w\<lparr>ru_sessions := AList.delete sid (ru_sessions w) @ [(sid, e)]\<rparr>)"

definition ensureSessionEntry :: "'c queue_env \<Rightarrow> jsval \<Rightarrow> 'c runtime \<Rightarrow> string + 'c runtime" where
  "ensureSessionEntry env sid w =
     (let load = (\<lambda>frames e. case engine_hydrate (qe_engine env) (JArr frames) None e of
                    Inl _ \<Rightarrow> Inl ''Invalid frames'' | Inr e' \<Rightarrow> Inr (touchSession sid (put_session sid e' w)))
      in case map_of (ru_sessions w) sid of
           Some e \<Rightarrow> if sid \<in> set (ru_partial w) then load (case qe_store env sid of None \<Rightarrow> [] | Some frames \<Rightarrow> frames) e
                     else Inr (touchSession sid w)
         | None \<Rightarrow> (case qe_store env sid of
               None \<Rightarrow> Inl (unknown_session sid)
             | Some frames \<Rightarrow> load frames (new_engine (qe_clock0 env))))"

definition session_frame :: "'c runtime \<Rightarrow> jsval \<Rightarrow> jsval \<Rightarrow> jsval" where
  "session_frame w sid k = (case map_of (ru_sessions w) sid of None \<Rightarrow> Undefined | Some e \<Rightarrow> frame_value e k)"

definition runtime_merge :: "'c queue_env \<Rightarrow> jsval \<Rightarrow> jsval list \<Rightarrow> jsval \<Rightarrow> 'c runtime \<Rightarrow> 'c runtime \<times> jsval list" where
  "runtime_merge env sid frames options w =
     (case map_of (ru_sessions w) sid of None \<Rightarrow> (w, [])
      | Some e \<Rightarrow> (case engine_merge (qe_engine env) (JArr frames) options e of
            Inl _ \<Rightarrow> (w, [])
          | Inr (e', results) \<Rightarrow>
              (let merged = map (\<lambda>a. JObj (frame_at e' a)) results; w' = w\<lparr>ru_sessions := AList.update sid e' (ru_sessions w)\<rparr>
               in (if merged = [] then w' else trackFrames (qe_dateParse env) merged w', merged))))"

definition pinSession :: "jsval \<Rightarrow> 'c runtime \<Rightarrow> 'c runtime" where
  "pinSession sid w =
     (case map_of (ru_sessions w) sid of None \<Rightarrow> w | Some _ \<Rightarrow> touchSession sid (w\<lparr>ru_pins := sid # ru_pins w\<rparr>))"

definition unpinSession :: "jsval \<Rightarrow> 'c runtime \<Rightarrow> 'c runtime" where
  "unpinSession sid w =
     (case map_of (ru_sessions w) sid of None \<Rightarrow> w | Some _ \<Rightarrow> w\<lparr>ru_pins := remove1 sid (ru_pins w)\<rparr>)"

definition merge_options :: jsval where
  "merge_options = JObj [(''authorType'', JStr ''system''), (''authorID'', JStr SCHEDULER_AUTHOR_ID), (''silent'', JBool True)]"

definition now_value :: "'c runtime \<Rightarrow> jsval" where
  "now_value w = JNum (Fin (ru_clock w))"

definition status_update :: "jsval \<Rightarrow> jsval \<Rightarrow> string \<Rightarrow> jsobj \<Rightarrow> jsobj" where
  "status_update now frame status extra =
     (let updated = ospread (ospread (props_of frame) extra) [(''scheduledStatus'', JStr status), (''updatedAt'', now)]
      in if status = ''firing'' then oset updated ''scheduledFiringAt'' now
         else if status = ''fired'' then oset updated ''scheduledFiredAt'' now else updated)"

definition markFrameStatus :: "'c queue_env \<Rightarrow> jsval \<Rightarrow> jsval \<Rightarrow> string \<Rightarrow> jsobj \<Rightarrow> 'c runtime \<Rightarrow> 'c runtime \<times> jsval" where
  "markFrameStatus env sid frame status extra w =
     (let updated = JObj (status_update (now_value w) frame status extra);
          (w', merged) = runtime_merge env sid [updated] merge_options w
      in (w', case merged of m # _ \<Rightarrow> m
              | [] \<Rightarrow> js_or (session_frame w' sid (pget frame ''id'')) updated))"

section \<open>Coalescing process wakes\<close>

definition is_human_message :: "jsval \<Rightarrow> bool" where
  "is_human_message current = (pget current ''type'' = JStr ''UserMessage'' \<and> pget current ''authorType'' = JStr ''user'')"

definition sibling_wake :: "jsval \<Rightarrow> jsval \<Rightarrow> bool" where
  "sibling_wake current frame =
     ((is_human_message current \<or> pget frame ''targetAgentID'' = pget current ''targetAgentID'')
      \<and> pget (pget frame ''continuation'') ''kind'' = JStr ''exec-wake-on-completion''
      \<and> pget frame ''scheduledStatus'' \<notin> {JStr ''firing'', JStr ''cancelled'', JStr ''fired''})"

definition cancel_step :: "'c queue_env \<Rightarrow> scheduled_entry \<Rightarrow> jsval \<Rightarrow> 'c runtime \<times> nat \<Rightarrow> scheduled_entry \<Rightarrow> 'c runtime \<times> nat" where
  "cancel_step env entry current acc candidate =
     (case acc of (w, cancelled) \<Rightarrow>
      if se_frameID candidate = se_frameID entry \<or> se_sessionID candidate \<noteq> se_sessionID entry then (w, cancelled)
      else let frame = js_or (session_frame w (se_sessionID entry) (se_frameID candidate)) (se_frame candidate)
           in if \<not> sibling_wake current frame then (w, cancelled)
              else (drop_entry (se_frameID candidate)
                     (fst (markFrameStatus env (se_sessionID entry) frame ''cancelled''
                        [(''scheduledCancelledAt'', now_value w), (''scheduledCancelReason'', JStr ''coalesced-process-wake'')] w)),
                    cancelled + 1))"

definition cancelSiblingProcessWakes :: "'c queue_env \<Rightarrow> scheduled_entry \<Rightarrow> 'c runtime \<Rightarrow> 'c runtime \<times> nat" where
  "cancelSiblingProcessWakes env entry w =
     (let current = js_or (js_or (session_frame w (se_sessionID entry) (se_frameID entry)) (se_frame entry)) (JObj [])
      in if \<not> truthy (se_frameID entry) \<or> (\<not> truthy (pget current ''targetAgentID'') \<and> \<not> is_human_message current) then (w, 0)
         else foldl (cancel_step env entry current) (w, 0) (map snd (sq_entries w)))"

section \<open>Dispatching\<close>

type_synonym 'c route = "routed_commit \<Rightarrow> 'c runtime \<Rightarrow> 'c runtime \<times> string option"

definition dispatch_order :: "'c runtime \<Rightarrow> jsval \<Rightarrow> jsval \<Rightarrow> rat" where
  "dispatch_order w sid firing =
     (let latest = (case map_of (ru_sessions w) sid of None \<Rightarrow> 0
                    | Some e \<Rightarrow> (case getLatestCommit e of None \<Rightarrow> 0 | Some c \<Rightarrow> cm_order c));
          stored = js_or (pget firing ''commitOrder'') (js_or (pget firing ''order'') (JNum (Fin 0)))
      in if latest \<noteq> 0 then latest else (case stored of JNum (Fin q) \<Rightarrow> q | _ \<Rightarrow> 0))"

definition dispatch_commit :: "'c runtime \<Rightarrow> jsval \<Rightarrow> jsval \<Rightarrow> routed_commit" where
  "dispatch_commit w sid firing =
     \<lparr>rc_order = dispatch_order w sid firing, rc_silent = False, rc_frameIDs = [pget firing ''id''], rc_scheduledDispatch = True\<rparr>"

definition hydrate_entry :: "'c queue_env \<Rightarrow> scheduled_entry \<Rightarrow> 'c runtime \<Rightarrow> 'c runtime" where
  "hydrate_entry env entry w =
     (case map_of (ru_sessions w) (se_sessionID entry) of None \<Rightarrow> w
      | Some e \<Rightarrow>
          if truthy (frame_value e (se_frameID entry)) \<or> \<not> truthy (se_frame entry) then w
          else (case engine_hydrate (qe_engine env)
                       (JArr (uniqueFrames (map JObj (engine_toArray (qe_localeCompare env) e) @ [se_frame entry]))) None e of
                  Inl _ \<Rightarrow> w
                | Inr e' \<Rightarrow> w\<lparr>ru_sessions := AList.update (se_sessionID entry) e' (ru_sessions w)\<rparr>))"

text \<open>After the router: a failed route cancels the frame, another ends with its siblings cancelled and the frame fired.\<close>

definition settle_route :: "'c queue_env \<Rightarrow> scheduled_entry \<Rightarrow> jsval \<Rightarrow> string option \<Rightarrow> 'c runtime \<Rightarrow> 'c runtime \<times> jsval option" where
  "settle_route env entry firing failure w =
     (let sid = se_sessionID entry; live = (\<lambda>w'. js_or (session_frame w' sid (pget firing ''id'')) firing)
      in case failure of
           Some message \<Rightarrow>
             (drop_entry (se_frameID entry) (fst (markFrameStatus env sid (live w) ''cancelled''
                [(''scheduledCancelledAt'', now_value w), (''scheduledError'', JStr message)] w)), None)
         | None \<Rightarrow>
             (let w1 = fst (cancelSiblingProcessWakes env entry w);
                  (w2, fired) = markFrameStatus env sid (live w1) ''fired'' [] w1
              in (drop_entry (se_frameID entry) w2, Some fired)))"

definition dispatch_pinned :: "'c queue_env \<Rightarrow> 'c route \<Rightarrow> scheduled_entry \<Rightarrow> 'c runtime \<Rightarrow> 'c runtime \<times> jsval option" where
  "dispatch_pinned env route entry w0 =
     (let w = hydrate_entry env entry w0; frame = session_frame w (se_sessionID entry) (se_frameID entry)
      in if \<not> isPendingScheduledFrame (qe_dateParse env) frame then (drop_entry (se_frameID entry) w, None)
         else if \<not> FrameEngine.num_le (normalizeScheduledAt (qe_dateParse env) (pget frame ''scheduledAt'')) (Fin (ru_clock w))
         then (w, None)
         else let (w1, firing) = markFrameStatus env (se_sessionID entry) frame ''firing'' [] w;
                  w2 = fst (cancelSiblingProcessWakes env entry w1);
                  (w3, failure) = route (dispatch_commit w2 (se_sessionID entry) firing) w2
              in settle_route env entry firing failure w3)"

definition dispatch :: "'c queue_env \<Rightarrow> 'c route \<Rightarrow> scheduled_entry \<Rightarrow> 'c runtime \<Rightarrow> 'c runtime \<times> (string + jsval option)" where
  "dispatch env route entry w =
     (if \<not> truthy (se_sessionID entry) \<or> \<not> truthy (se_frameID entry) then (drop_entry (se_frameID entry) w, Inr None)
      else case ensureSessionEntry env (se_sessionID entry) w of
             Inl err \<Rightarrow> (w, Inl err)
           | Inr w1 \<Rightarrow> (case dispatch_pinned env route entry (pinSession (se_sessionID entry) w1) of
                (w2, result) \<Rightarrow> (unpinSession (se_sessionID entry) w2, Inr result)))"

fun dispatch_all :: "'c queue_env \<Rightarrow> 'c route \<Rightarrow> scheduled_entry list \<Rightarrow> 'c runtime \<Rightarrow> jsval list \<Rightarrow> 'c runtime \<times> (string + jsval list)" where
  "dispatch_all env route [] w dispatched = (w, Inr dispatched)"
| "dispatch_all env route (e # es) w dispatched =
     (case dispatch env route e w of
        (w', Inl err) \<Rightarrow> (w', Inl err)
      | (w', Inr None) \<Rightarrow> dispatch_all env route es w' dispatched
      | (w', Inr (Some f)) \<Rightarrow> dispatch_all env route es w' (dispatched @ [f]))"

definition due_entries :: "'c queue_env \<Rightarrow> 'c runtime \<Rightarrow> scheduled_entry list" where
  "due_entries env w = sort_by (\<lambda>a b. compareScheduledEntries (qe_localeCompare env) a b \<le> 0) (filter (is_due w) (map snd (sq_entries w)))"

definition processDue :: "'c queue_env \<Rightarrow> 'c route \<Rightarrow> 'c runtime \<Rightarrow> 'c runtime \<times> (string + jsval list)" where
  "processDue env route w =
     (if sq_processing w then (w, Inr [])
      else case dispatch_all env route (due_entries env w) (w\<lparr>sq_processing := True\<rparr>) [] of
             (w', r) \<Rightarrow> (w'\<lparr>sq_processing := False\<rparr>, r))"

text \<open>The microtask a nudge leaves behind.\<close>

definition run_nudge :: "'c queue_env \<Rightarrow> 'c route \<Rightarrow> 'c runtime \<Rightarrow> 'c runtime" where
  "run_nudge env route w = fst (processDue env route (w\<lparr>sq_nudgePending := False\<rparr>))"

section \<open>Writing a status\<close>

definition runtime_ok :: "'c queue_env \<Rightarrow> 'c runtime \<Rightarrow> bool" where
  "runtime_ok env w \<longleftrightarrow> (\<forall>sid e. map_of (ru_sessions w) sid = Some e \<longrightarrow> engine_ok (qe_engine env) e)"

text \<open>An ordinary frame with the id, as a value; a session that is live; an id that names ordinary frames only.\<close>

definition plain_value :: "jsval \<Rightarrow> jsval \<Rightarrow> bool" where
  "plain_value k v \<longleftrightarrow> (\<exists>f. v = JObj f \<and> plain_frame f \<and> oget f ''id'' = k)"

definition live :: "'c runtime \<Rightarrow> jsval \<Rightarrow> bool" where
  "live w sid \<longleftrightarrow> map_of (ru_sessions w) sid \<noteq> None \<and> sid \<notin> set (ru_partial w)"

definition plain_id :: "'c runtime \<Rightarrow> jsval \<Rightarrow> bool" where
  "plain_id w k \<longleftrightarrow> (\<forall>sid. session_frame w sid k = Undefined \<or> plain_value k (session_frame w sid k))"

definition tracked_ok :: "'c runtime \<Rightarrow> bool" where
  "tracked_ok w \<longleftrightarrow> distinct (map fst (sq_entries w))
     \<and> (\<forall>(k, c) \<in> set (sq_entries w). se_frameID c = k \<and> plain_value k (se_frame c) \<and> plain_id w k)"

definition extra_ok :: "jsobj \<Rightarrow> bool" where
  "extra_ok extra \<longleftrightarrow> distinct (map fst extra) \<and> fst ` set extra \<subseteq> {''scheduledCancelledAt'', ''scheduledCancelReason'', ''scheduledError''}"

lemma extra_other:
  "extra_ok extra \<Longrightarrow> k \<notin> {''scheduledCancelledAt'', ''scheduledCancelReason'', ''scheduledError''} \<Longrightarrow> oget (ospread ps extra) k = oget ps k"
  by (subst oget_ospread) (auto simp: extra_ok_def has_own_keys)

lemma status_update_reads:
  assumes "extra_ok extra"
  shows "oget (status_update now (JObj f) status extra) ''scheduledStatus'' = JStr status"
    "k \<notin> {''scheduledCancelledAt'', ''scheduledCancelReason'', ''scheduledError'', ''scheduledStatus'', ''updatedAt'', ''scheduledFiringAt'',
       ''scheduledFiredAt''} \<Longrightarrow> oget (status_update now (JObj f) status extra) k = oget f k"
  by (simp add: status_update_def Let_def) (auto simp: status_update_def Let_def extra_other[OF assms])

lemma status_update_plain:
  "extra_ok extra \<Longrightarrow> plain_frame f \<Longrightarrow> plain_frame (status_update now (JObj f) status extra)"
  by (simp add: plain_frame_def status_update_reads)

lemma nudge_simps [simp]:
  "ru_sessions (nudge w) = ru_sessions w" "sq_entries (nudge w) = sq_entries w" "ru_clock (nudge w) = ru_clock w"
  "ru_partial (nudge w) = ru_partial w" "ru_pins (nudge w) = ru_pins w" "sq_processing (nudge w) = sq_processing w"
  by (simp_all add: nudge_def)

lemma trackFrame_simps [simp]:
  "ru_sessions (trackFrame dp w frame) = ru_sessions w" "ru_clock (trackFrame dp w frame) = ru_clock w"
  "ru_partial (trackFrame dp w frame) = ru_partial w" "ru_pins (trackFrame dp w frame) = ru_pins w"
  "sq_processing (trackFrame dp w frame) = sq_processing w"
  by (simp_all add: trackFrame_def drop_entry_def)

lemma drop_entry_simps [simp]:
  "ru_sessions (drop_entry k w) = ru_sessions w" "ru_clock (drop_entry k w) = ru_clock w" "ru_partial (drop_entry k w) = ru_partial w"
  "map_of (sq_entries (drop_entry k w)) k' = (if k = k' then None else map_of (sq_entries w) k')"
  "session_frame (drop_entry k w) = session_frame w" "runtime_ok env (drop_entry k w) = runtime_ok env w"
  by (auto simp: drop_entry_def alist_simps session_frame_def[abs_def] runtime_ok_def)

text \<open>Touching a session changes the order of the sessions and nothing that is read of them.\<close>

lemma touch_map: "map_of (ru_sessions (touchSession sid w)) = map_of (ru_sessions w)"
  by (rule ext) (auto simp: touchSession_def map_add_def delete_conv' split: option.splits)

lemma touch_simps [simp]:
  "session_frame (touchSession sid w) = session_frame w" "live (touchSession sid w) = live w" "runtime_ok env (touchSession sid w) = runtime_ok env w"
  "plain_id (touchSession sid w) = plain_id w" "tracked_ok (touchSession sid w) = tracked_ok w"
  "sq_entries (touchSession sid w) = sq_entries w" "ru_clock (touchSession sid w) = ru_clock w" "ru_partial (touchSession sid w) = ru_partial w"
proof -
  show e: "sq_entries (touchSession sid w) = sq_entries w" and "ru_clock (touchSession sid w) = ru_clock w"
    by (simp_all add: touchSession_def split: option.split)
  show p: "ru_partial (touchSession sid w) = ru_partial w" by (simp add: touchSession_def split: option.split)
  show f: "session_frame (touchSession sid w) = session_frame w" by (intro ext) (simp add: session_frame_def touch_map)
  show "live (touchSession sid w) = live w" by (rule ext) (simp add: live_def touch_map p)
  show "runtime_ok env (touchSession sid w) = runtime_ok env w" by (simp add: runtime_ok_def touch_map)
  show "plain_id (touchSession sid w) = plain_id w" by (rule ext) (simp add: plain_id_def f)
  then show "tracked_ok (touchSession sid w) = tracked_ok w" by (simp add: tracked_ok_def e)
qed

lemma pin_simps [simp]:
  "session_frame (pinSession sid w) = session_frame w" "live (pinSession sid w) = live w" "runtime_ok env (pinSession sid w) = runtime_ok env w"
  "plain_id (pinSession sid w) = plain_id w" "tracked_ok (pinSession sid w) = tracked_ok w" "sq_entries (pinSession sid w) = sq_entries w"
  "ru_clock (pinSession sid w) = ru_clock w" "map_of (ru_sessions (pinSession sid w)) = map_of (ru_sessions w)"
  by (simp_all add: pinSession_def session_frame_def[abs_def] live_def[abs_def] runtime_ok_def plain_id_def[abs_def] tracked_ok_def touch_map
      split: option.split)

definition COPIED_KEYS :: "string list" where
  "COPIED_KEYS = [''targetAgentID'', ''continuation'', ''scheduledAt'', ''sessionID'', ''authorType'']"

lemma copied_keys [simp]:
  "''targetAgentID'' \<in> set COPIED_KEYS" "''continuation'' \<in> set COPIED_KEYS" "''scheduledAt'' \<in> set COPIED_KEYS"
  "''sessionID'' \<in> set COPIED_KEYS" "''authorType'' \<in> set COPIED_KEYS"
  by (simp_all add: COPIED_KEYS_def)

definition marks :: "'c queue_env \<Rightarrow> jsval \<Rightarrow> jsval \<Rightarrow> jsval \<Rightarrow> string \<Rightarrow> 'c runtime \<Rightarrow> 'c runtime \<Rightarrow> jsobj \<Rightarrow> bool" where
  "marks env sid k v status w w' f' \<longleftrightarrow>
     runtime_ok env w' \<and> plain_value k (JObj f') \<and> session_frame w' sid k = JObj f' \<and> oget f' ''scheduledStatus'' = JStr status
     \<and> (\<forall>key \<in> set COPIED_KEYS. oget f' key = cloneValue (pget v key))
     \<and> oget f' ''type'' = pget v ''type''
     \<and> (\<forall>sid' k'. sid' \<noteq> sid \<or> k' \<noteq> k \<longrightarrow> session_frame w' sid' k' = session_frame w sid' k')
     \<and> sq_entries w' = sq_entries (trackFrame (qe_dateParse env) w (JObj f'))
     \<and> ru_clock w' = ru_clock w \<and> (\<forall>s. live w' s = live w s)"

definition merges :: "'c queue_env \<Rightarrow> jsval \<Rightarrow> jsval \<Rightarrow> jsobj \<Rightarrow> 'c runtime \<Rightarrow> 'c runtime \<Rightarrow> jsobj \<Rightarrow> bool" where
  "merges env sid k u w w' f' \<longleftrightarrow>
     runtime_ok env w' \<and> plain_value k (JObj f') \<and> session_frame w' sid k = JObj f'
     \<and> (\<forall>key. free_key key \<longrightarrow> oget f' key = cloneValue (oget u key)) \<and> oget f' ''type'' = oget u ''type''
     \<and> (\<not> nullish (oget u ''deleted'') \<longrightarrow> oget f' ''deleted'' = oget u ''deleted'')
     \<and> (\<forall>sid' k'. sid' \<noteq> sid \<or> k' \<noteq> k \<longrightarrow> session_frame w' sid' k' = session_frame w sid' k')
     \<and> sq_entries w' = sq_entries (trackFrame (qe_dateParse env) w (JObj f'))
     \<and> ru_clock w' = ru_clock w \<and> (\<forall>s. live w' s = live w s)"

lemma runtime_merge_spec:
  assumes ok: "runtime_ok env w" "cf_commitValidator (qe_engine env) = None" and u: "live w sid" "plain_frame u" "oget u ''id'' = k"
  obtains w' f' where "runtime_merge env sid [JObj u] options w = (w', [JObj f'])" "merges env sid k u w w' f'"
proof -
  obtain e where e: "map_of (ru_sessions w) sid = Some e" using u(1) by (auto simp: live_def)
  have eok: "engine_ok (qe_engine env) e" using ok(1) e by (simp add: runtime_ok_def)
  obtain e' a where m: "engine_merge (qe_engine env) (JArr [JObj u]) options e = Inr (e', [a])"
    "engine_ok (qe_engine env) e'" "engine_get e' k = Some a" "plain_frame (frame_at e' a)" "oget (frame_at e' a) ''id'' = k"
    "oget (frame_at e' a) ''type'' = oget u ''type''"
    "\<And>key. free_key key \<Longrightarrow> oget (frame_at e' a) key = cloneValue (oget u key)"
    "\<not> nullish (oget u ''deleted'') \<longrightarrow> oget (frame_at e' a) ''deleted'' = oget u ''deleted''"
    "\<And>k'. k' \<noteq> k \<Longrightarrow> frame_value e' k' = frame_value e k'"
    using single_merge[OF eok ok(2) u(2), of options] unfolding u(3) by metis
  let ?s = "AList.update sid e' (ru_sessions w)" and ?f' = "frame_at e' a"
  let ?w' = "trackFrame (qe_dateParse env) (w\<lparr>ru_sessions := ?s\<rparr>) (JObj ?f')"
  have r: "runtime_merge env sid [JObj u] options w = (?w', [JObj ?f'])"
    by (simp add: runtime_merge_def e m(1) Let_def trackFrames_def)
  have sf: "session_frame ?w' sid' k' = (if sid' = sid then frame_value e' k' else session_frame w sid' k')" for sid' k'
    by (simp add: session_frame_def alist_simps)
  have "session_frame ?w' sid' k' = session_frame w sid' k'" if "sid' \<noteq> sid \<or> k' \<noteq> k" for sid' k'
    using that m(9) e by (auto simp: sf) (simp add: session_frame_def)
  moreover have "runtime_ok env ?w'" using ok(1) m(2) by (simp add: runtime_ok_def alist_simps)
  moreover have "plain_value k (JObj ?f')" using m(4,5) by (simp add: plain_value_def)
  moreover have "session_frame ?w' sid k = JObj ?f'" using m(3) sf[of sid k] by (simp add: frame_value_def)
  moreover have "sq_entries ?w' = sq_entries (trackFrame (qe_dateParse env) w (JObj ?f'))" by (simp add: trackFrame_def drop_entry_def)
  moreover have "live ?w' s = live w s" for s using e by (auto simp: live_def alist_simps)
  moreover have "ru_clock ?w' = ru_clock w" by simp
  ultimately have "merges env sid k u w ?w' ?f'" using m(6-8) unfolding merges_def by blast
  with r show thesis by (rule that)
qed

lemma markFrameStatus_spec:
  assumes ok: "runtime_ok env w" "cf_commitValidator (qe_engine env) = None" and f: "live w sid" "plain_value k v" "extra_ok extra"
  obtains w' f' where "markFrameStatus env sid v status extra w = (w', JObj f')" "marks env sid k v status w w' f'"
proof -
  obtain f0 where f0: "v = JObj f0" "plain_frame f0" "oget f0 ''id'' = k" using f(2) by (auto simp: plain_value_def)
  let ?u = "status_update (now_value w) (JObj f0) status extra"
  have pf: "plain_frame ?u" "oget ?u ''id'' = k"
    using f0 f(3) by (simp_all add: status_update_plain status_update_reads)
  obtain w' f' where r: "runtime_merge env sid [JObj ?u] merge_options w = (w', [JObj f'])" and m: "merges env sid k ?u w w' f'"
    by (rule runtime_merge_spec[OF ok f(1) pf])
  have fk: "oget f' key = cloneValue (oget ?u key)" if "free_key key" for key using m that by (simp add: merges_def)
  have "oget f' key = cloneValue (pget v key)" if "key \<in> set COPIED_KEYS" for key
  proof -
    from that have "free_key key" by (auto simp: COPIED_KEYS_def)
    moreover from that have "oget ?u key = oget f0 key" by (intro status_update_reads(2)[OF f(3)]) (auto simp: COPIED_KEYS_def)
    ultimately show ?thesis using fk[of key] by (simp add: f0(1))
  qed
  moreover have "oget f' ''scheduledStatus'' = JStr status" using fk status_update_reads(1)[OF f(3)] by simp
  moreover have "oget f' ''type'' = pget v ''type''" using m status_update_reads(2)[OF f(3)] by (simp add: f0(1) merges_def)
  ultimately have "marks env sid k v status w w' f'" using m unfolding marks_def merges_def by blast
  moreover have "markFrameStatus env sid v status extra w = (w', JObj f')"
    using r by (simp add: markFrameStatus_def f0(1) Let_def)
  ultimately show thesis using that by blast
qed

lemma not_pending:
  "oget f ''scheduledStatus'' \<in> {JStr ''fired'', JStr ''cancelled''} \<Longrightarrow> \<not> isPendingScheduledFrame dp (JObj f)"
  by (auto simp: isPendingScheduledFrame_def split: jsnum.splits)

section \<open>Coalescing\<close>

lemma plain_or: "runtime_ok env w \<Longrightarrow> plain_id w k \<Longrightarrow> plain_value k v \<Longrightarrow> plain_value k (js_or (session_frame w sid k) v)"
  unfolding plain_id_def js_or_def by (metis truthy.simps(1))

lemma track_retired:
  assumes "plain_value k (JObj f)" "oget f ''scheduledStatus'' \<in> {JStr ''fired'', JStr ''cancelled''}"
  shows "trackFrame dp w (JObj f) = drop_entry k w"
  using assms not_pending[OF assms(2)] by (auto simp: trackFrame_def plain_value_def plain_frame_def)

lemma plain_id_after:
  assumes "plain_value k (JObj f')" "session_frame w' sid k = JObj f'"
    and "\<And>sid' k'. sid' \<noteq> sid \<or> k' \<noteq> k \<Longrightarrow> session_frame w' sid' k' = session_frame w sid' k'" "plain_id w k'"
  shows "plain_id w' k'"
  using assms unfolding plain_id_def by metis

lemma keys_delete: "fst ` set (AList.delete k al) = fst ` set al - {k}"
  by (induction al) auto

definition entries_within :: "'c runtime \<Rightarrow> 'c runtime \<Rightarrow> bool" where
  "entries_within w' w \<longleftrightarrow> set (sq_entries w') \<subseteq> set (sq_entries w) \<and> (distinct (map fst (sq_entries w)) \<longrightarrow> distinct (map fst (sq_entries w')))"

lemma entries_within_delete: "sq_entries w' = AList.delete k (sq_entries w) \<Longrightarrow> entries_within w' w"
  by (auto simp: entries_within_def AList.delete_eq distinct_map_filter)

lemma entries_within_trans: "entries_within w2 w1 \<Longrightarrow> entries_within w1 w \<Longrightarrow> entries_within w2 w"
  by (auto simp: entries_within_def)

text \<open>What cancelling among the candidates \<open>cs\<close> does, and that it leaves none of them that should be cancelled.\<close>

definition cancels :: "'c queue_env \<Rightarrow> scheduled_entry \<Rightarrow> jsval set \<Rightarrow> 'c runtime \<Rightarrow> 'c runtime \<Rightarrow> bool" where
  "cancels env entry ids w w' \<longleftrightarrow> runtime_ok env w' \<and> (\<forall>s. live w' s = live w s) \<and> ru_clock w' = ru_clock w
     \<and> (\<forall>sid k. k \<notin> ids \<or> k = se_frameID entry \<longrightarrow> session_frame w' sid k = session_frame w sid k)
     \<and> (\<forall>k. plain_id w k \<longrightarrow> plain_id w' k) \<and> entries_within w' w"

definition left_alone :: "scheduled_entry \<Rightarrow> jsval \<Rightarrow> 'c runtime \<Rightarrow> scheduled_entry \<Rightarrow> bool" where
  "left_alone entry current w c \<longleftrightarrow>
     (se_frameID c \<in> fst ` set (sq_entries w) \<and> se_frameID c \<noteq> se_frameID entry \<and> se_sessionID c = se_sessionID entry \<longrightarrow>
        \<not> sibling_wake current (js_or (session_frame w (se_sessionID entry) (se_frameID c)) (se_frame c)))"

lemma cancel_step_spec:
  assumes ok: "runtime_ok env w" "cf_commitValidator (qe_engine env) = None" "live w (se_sessionID entry)"
    and c: "plain_value (se_frameID c) (se_frame c)" "plain_id w (se_frameID c)"
  obtains w' n' where "cancel_step env entry current (w, n) c = (w', n')" "cancels env entry {se_frameID c} w w'" "left_alone entry current w' c"
proof -
  let ?sid = "se_sessionID entry" and ?k = "se_frameID c"
  let ?frame = "js_or (session_frame w ?sid ?k) (se_frame c)"
  show thesis
  proof (cases "?k = se_frameID entry \<or> se_sessionID c \<noteq> ?sid \<or> \<not> sibling_wake current ?frame")
    case True
    then have "cancel_step env entry current (w, n) c = (w, n)" by (auto simp: cancel_step_def Let_def)
    then show thesis
      by (rule that) (use ok(1) True in \<open>auto simp: cancels_def entries_within_def left_alone_def\<close>)
  next
    case False
    have v: "plain_value ?k ?frame" by (rule plain_or[OF ok(1) c(2,1)])
    have x: "extra_ok [(''scheduledCancelledAt'', now_value w), (''scheduledCancelReason'', JStr ''coalesced-process-wake'')]"
      by (simp add: extra_ok_def)
    obtain w1 f1 where r: "markFrameStatus env ?sid ?frame ''cancelled''
        [(''scheduledCancelledAt'', now_value w), (''scheduledCancelReason'', JStr ''coalesced-process-wake'')] w = (w1, JObj f1)"
      and mk: "marks env ?sid ?k ?frame ''cancelled'' w w1 f1" by (rule markFrameStatus_spec[OF ok v x])
    have m: "runtime_ok env w1" "plain_value ?k (JObj f1)" "session_frame w1 ?sid ?k = JObj f1" "oget f1 ''scheduledStatus'' = JStr ''cancelled''"
      "sid' \<noteq> ?sid \<or> k' \<noteq> ?k \<Longrightarrow> session_frame w1 sid' k' = session_frame w sid' k'"
      "sq_entries w1 = sq_entries (trackFrame (qe_dateParse env) w (JObj f1))" "ru_clock w1 = ru_clock w" "live w1 s = live w s" for sid' k' s
      using mk by (simp_all add: marks_def)
    have e1: "sq_entries (drop_entry ?k w1) = AList.delete ?k (sq_entries w)"
      unfolding m(6) drop_entry_def using m(4) by (subst track_retired[OF m(2)]) (simp_all add: drop_entry_def m(6) track_retired[OF m(2)] delete_idem)
    have step: "cancel_step env entry current (w, n) c = (drop_entry ?k w1, n + 1)"
      using False r by (simp add: cancel_step_def Let_def)
    have "plain_id (drop_entry ?k w1) k" if "plain_id w k" for k
      using plain_id_after[OF m(2,3,5) that] by (simp add: plain_id_def)
    then show thesis
      using m(1,5,7,8) False
      by (intro that[OF step]) (auto simp: cancels_def entries_within_delete[OF e1] left_alone_def e1 keys_delete live_def)
  qed
qed

lemma cancel_loop:
  assumes "runtime_ok env w" "cf_commitValidator (qe_engine env) = None" "live w (se_sessionID entry)"
    and "\<forall>c \<in> set cs. plain_value (se_frameID c) (se_frame c) \<and> plain_id w (se_frameID c)" "distinct (map se_frameID cs)"
  shows "cancels env entry (se_frameID ` set cs) w (fst (foldl (cancel_step env entry current) (w, n) cs))
    \<and> (\<forall>c \<in> set cs. left_alone entry current (fst (foldl (cancel_step env entry current) (w, n) cs)) c)"
  using assms
proof (induction cs arbitrary: w n)
  case Nil
  then show ?case by (simp add: cancels_def entries_within_def)
next
  case (Cons c cs)
  have c: "plain_value (se_frameID c) (se_frame c)" "plain_id w (se_frameID c)" using Cons.prems(4) by auto
  obtain w1 n1 where s1: "cancel_step env entry current (w, n) c = (w1, n1)" "cancels env entry {se_frameID c} w w1" "left_alone entry current w1 c"
    by (rule cancel_step_spec[OF Cons.prems(1-3) c])
  let ?w2 = "fst (foldl (cancel_step env entry current) (w1, n1) cs)"
  have "live w1 (se_sessionID entry)" "\<forall>c \<in> set cs. plain_value (se_frameID c) (se_frame c) \<and> plain_id w1 (se_frameID c)"
    "runtime_ok env w1" "distinct (map se_frameID cs)"
    using s1(2) Cons.prems(3-5) by (auto simp: cancels_def)
  then have s2: "cancels env entry (se_frameID ` set cs) w1 ?w2" "\<forall>c \<in> set cs. left_alone entry current ?w2 c"
    using Cons.IH[OF _ Cons.prems(2)] by auto
  have "cancels env entry (se_frameID ` set (c # cs)) w ?w2"
    using s1(2) s2(1) entries_within_trans[of ?w2 w1 w] by (auto simp: cancels_def)
  moreover have "left_alone entry current ?w2 c"
  proof -
    have "session_frame ?w2 sid (se_frameID c) = session_frame w1 sid (se_frameID c)" for sid
      using s2(1) Cons.prems(5) by (auto simp: cancels_def)
    moreover have "fst ` set (sq_entries ?w2) \<subseteq> fst ` set (sq_entries w1)"
      using s2(1) by (auto simp: cancels_def entries_within_def)
    ultimately show ?thesis using s1(3) by (auto simp: left_alone_def)
  qed
  ultimately show ?case using s2(2) by (simp add: s1(1))
qed

lemma tracked_ids: "tracked_ok w \<Longrightarrow> map se_frameID (map snd (sq_entries w)) = map fst (sq_entries w)"
  unfolding tracked_ok_def by (auto intro!: map_cong)

lemma tracked_within: "tracked_ok w \<Longrightarrow> entries_within w' w \<Longrightarrow> (\<And>k. plain_id w k \<Longrightarrow> plain_id w' k) \<Longrightarrow> tracked_ok w'"
  unfolding tracked_ok_def entries_within_def by blast

lemma cancelSibling_spec:
  assumes ok: "runtime_ok env w" "cf_commitValidator (qe_engine env) = None" "live w (se_sessionID entry)" and t: "tracked_ok w"
    and cur: "js_or (session_frame w (se_sessionID entry) (se_frameID entry)) (se_frame entry) = JObj cur" "truthy (se_frameID entry)"
  obtains w' n' where "cancelSiblingProcessWakes env entry w = (w', n')" "cancels env entry UNIV w w'" "tracked_ok w'"
    "truthy (oget cur ''targetAgentID'') \<longrightarrow> (\<forall>c \<in> snd ` set (sq_entries w'). left_alone entry (JObj cur) w' c)"
proof (cases "\<not> truthy (oget cur ''targetAgentID'') \<and> \<not> is_human_message (JObj cur)")
  case True
  then have "cancelSiblingProcessWakes env entry w = (w, 0)"
    using cur by (simp add: cancelSiblingProcessWakes_def Let_def)
  then show thesis using that[of w 0] ok(1) t True by (simp add: cancels_def entries_within_def)
next
  case False
  let ?cs = "map snd (sq_entries w)"
  have "\<forall>c \<in> set ?cs. plain_value (se_frameID c) (se_frame c) \<and> plain_id w (se_frameID c)" "distinct (map se_frameID ?cs)"
    using t unfolding tracked_ids[OF t] tracked_ok_def by auto
  note l = cancel_loop[OF ok this, of "JObj cur" 0]
  obtain w' n' where f: "foldl (cancel_step env entry (JObj cur)) (w, 0) ?cs = (w', n')" by (metis prod.exhaust)
  have c: "cancels env entry UNIV w w'" using l by (auto simp: f cancels_def)
  then have t': "tracked_ok w'" by (intro tracked_within[OF t]) (auto simp: cancels_def)
  have "snd ` set (sq_entries w') \<subseteq> set ?cs" using c by (auto simp: cancels_def entries_within_def)
  moreover have "\<forall>c \<in> set ?cs. left_alone entry (JObj cur) w' c" using l by (simp add: f)
  ultimately have "\<forall>c \<in> snd ` set (sq_entries w'). left_alone entry (JObj cur) w' c" by blast
  then show thesis using that[of w' n'] c t' f False cur by (simp add: cancelSiblingProcessWakes_def Let_def)
qed

section \<open>A dispatch from the store to the end\<close>

definition dispatchable :: "'c queue_env \<Rightarrow> jsval \<Rightarrow> jsval \<Rightarrow> 'c runtime \<Rightarrow> bool" where
  "dispatchable env sid k w \<longleftrightarrow> runtime_ok env w \<and> tracked_ok w \<and> live w sid \<and> plain_id w k \<and> plain_value k (session_frame w sid k)"

text \<open>
  What is required of the rest of the program while a dispatch waits for the router: the pinned session stays live, its
  frame is not removed, and the tracked frames stay ordinary.
\<close>

definition route_ok :: "'c queue_env \<Rightarrow> 'c route \<Rightarrow> jsval \<Rightarrow> jsval \<Rightarrow> bool" where
  "route_ok env route sid k \<longleftrightarrow> (\<forall>c w. dispatchable env sid k w \<longrightarrow> dispatchable env sid k (fst (route c w)))"

definition opened :: "'c queue_env \<Rightarrow> scheduled_entry \<Rightarrow> 'c runtime \<Rightarrow> 'c runtime \<Rightarrow> bool" where
  "opened env entry w w0 \<longleftrightarrow> (\<exists>w1. ensureSessionEntry env (se_sessionID entry) w = Inr w1
     \<and> w0 = hydrate_entry env entry (pinSession (se_sessionID entry) w1))"

text \<open>Tracking the result of a merge keeps the queue's invariant.\<close>

lemma merged_tracked:
  fixes w w' :: "'c runtime"
  assumes t: "tracked_ok w" "plain_id w k" and f: "plain_value k (JObj f')" "session_frame w' sid k = JObj f'"
    and others: "\<And>sid' k'. sid' \<noteq> sid \<or> k' \<noteq> k \<Longrightarrow> session_frame w' sid' k' = session_frame w sid' k'"
    and entries: "sq_entries w' = sq_entries (trackFrame dp w (JObj f'))"
  shows "tracked_ok w'" "plain_id w k' \<Longrightarrow> plain_id w' k'"
proof -
  have pid: "plain_id w' k2" if "plain_id w k2" for k2 by (rule plain_id_after[OF f others that])
  then show "plain_id w k' \<Longrightarrow> plain_id w' k'" .
  have k: "oget f' ''id'' = k" "truthy k" using f(1) by (auto simp: plain_value_def plain_frame_def)
  let ?new = "\<lparr>se_frame = JObj f', se_frameID = k, se_sessionID = oget f' ''sessionID'',
     se_scheduledAt = normalizeScheduledAt dp (oget f' ''scheduledAt'')\<rparr>"
  have "sq_entries w' = AList.delete k (sq_entries w) \<or> sq_entries w' = AList.update k ?new (sq_entries w)"
    unfolding entries trackFrame_def using k by (simp add: drop_entry_def)
  then show "tracked_ok w'"
  proof
    assume "sq_entries w' = AList.delete k (sq_entries w)"
    then show ?thesis using tracked_within[OF t(1) entries_within_delete pid] by blast
  next
    assume u: "sq_entries w' = AList.update k ?new (sq_entries w)"
    have "p \<in> set (AList.update k ?new es) \<Longrightarrow> p = (k, ?new) \<or> p \<in> set es" for p es
      by (induction es) (auto split: if_splits)
    then have "\<forall>p \<in> set (sq_entries w'). p = (k, ?new) \<or> p \<in> set (sq_entries w)" unfolding u by blast
    moreover have "distinct (map fst (sq_entries w'))" using t(1) by (simp add: u tracked_ok_def distinct_keys_update)
    ultimately show ?thesis using t pid f(1) unfolding tracked_ok_def by fastforce
  qed
qed

lemma marked_dispatchable:
  assumes w: "dispatchable env sid k w" and free: "cf_commitValidator (qe_engine env) = None" and v: "plain_value k v" "extra_ok extra"
  obtains w' f' where "markFrameStatus env sid v status extra w = (w', JObj f')" "dispatchable env sid k w'" "marks env sid k v status w w' f'"
    "status \<in> {''fired'', ''cancelled''} \<longrightarrow> sq_entries w' = AList.delete k (sq_entries w)"
proof -
  have a: "runtime_ok env w" "live w sid" using w by (simp_all add: dispatchable_def)
  obtain w' f' where r: "markFrameStatus env sid v status extra w = (w', JObj f')" and mk: "marks env sid k v status w w' f'"
    by (rule markFrameStatus_spec[OF a(1) free a(2) v])
  have m: "runtime_ok env w'" "plain_value k (JObj f')" "session_frame w' sid k = JObj f'" "oget f' ''scheduledStatus'' = JStr status"
    "sid' \<noteq> sid \<or> k' \<noteq> k \<Longrightarrow> session_frame w' sid' k' = session_frame w sid' k'"
    "sq_entries w' = sq_entries (trackFrame (qe_dateParse env) w (JObj f'))" "live w' s = live w s" for sid' k' s
    using mk by (simp_all add: marks_def)
  have t: "tracked_ok w" "plain_id w k" using w by (simp_all add: dispatchable_def)
  have "dispatchable env sid k w'"
    using m a(2) t(2) merged_tracked[OF t m(2,3,5,6)] by (simp add: dispatchable_def)
  moreover have "sq_entries w' = AList.delete k (sq_entries w)" if "status \<in> {''fired'', ''cancelled''}"
    unfolding m(6) using that m(4) by (subst track_retired[OF m(2)]) (auto simp: drop_entry_def)
  ultimately show thesis using that[OF r _ mk] by blast
qed

lemma plain_self: "plain_value k (js_or (session_frame w sid k) v)" if "dispatchable env sid k w"
  using that by (auto simp: dispatchable_def plain_value_def js_or_def)

lemma drop_entry_keys: "fst ` set (sq_entries (drop_entry k w)) = fst ` set (sq_entries w) - {k}"
  by (simp add: drop_entry_def keys_delete)

lemma cancelled_dispatchable:
  assumes w: "dispatchable env (se_sessionID entry) (se_frameID entry) w" and free: "cf_commitValidator (qe_engine env) = None"
  obtains w' n cur where "cancelSiblingProcessWakes env entry w = (w', n)" "dispatchable env (se_sessionID entry) (se_frameID entry) w'"
    "session_frame w' (se_sessionID entry) (se_frameID entry) = session_frame w (se_sessionID entry) (se_frameID entry)"
    "session_frame w (se_sessionID entry) (se_frameID entry) = JObj cur" "ru_clock w' = ru_clock w"
    "truthy (oget cur ''targetAgentID'') \<longrightarrow> (\<forall>c \<in> snd ` set (sq_entries w'). left_alone entry (JObj cur) w' c)"
proof -
  have a: "runtime_ok env w" "live w (se_sessionID entry)" "tracked_ok w" using w by (simp_all add: dispatchable_def)
  obtain cur where cur: "session_frame w (se_sessionID entry) (se_frameID entry) = JObj cur" "truthy (se_frameID entry)"
    using w by (auto simp: dispatchable_def plain_value_def plain_frame_def)
  then have v: "js_or (session_frame w (se_sessionID entry) (se_frameID entry)) (se_frame entry) = JObj cur" by (simp add: js_or_def)
  obtain w' n where c: "cancelSiblingProcessWakes env entry w = (w', n)" "cancels env entry UNIV w w'" "tracked_ok w'"
    "truthy (oget cur ''targetAgentID'') \<longrightarrow> (\<forall>c \<in> snd ` set (sq_entries w'). left_alone entry (JObj cur) w' c)"
    by (rule cancelSibling_spec[OF a(1) free a(2,3) v cur(2)])
  show thesis
    by (rule that[OF c(1) _ _ cur(1) _ c(4)]) (use c(2,3) w in \<open>auto simp: cancels_def dispatchable_def\<close>)
qed

text \<open>How a dispatch that reached the router leaves the runtime: retired, untracked, and with no sibling wake for the agent.\<close>

definition retired :: "'c queue_env \<Rightarrow> scheduled_entry \<Rightarrow> bool \<Rightarrow> 'c runtime \<Rightarrow> bool" where
  "retired env entry ok w \<longleftrightarrow> dispatchable env (se_sessionID entry) (se_frameID entry) w
     \<and> pget (session_frame w (se_sessionID entry) (se_frameID entry)) ''scheduledStatus'' = JStr (if ok then ''fired'' else ''cancelled'')
     \<and> se_frameID entry \<notin> fst ` set (sq_entries w)
     \<and> (ok \<longrightarrow> (\<forall>agent. pget (session_frame w (se_sessionID entry) (se_frameID entry)) ''targetAgentID'' = JStr agent \<longrightarrow> agent \<noteq> [] \<longrightarrow>
          (\<forall>(k, c) \<in> set (sq_entries w). se_sessionID c = se_sessionID entry \<longrightarrow>
             \<not> sibling_wake (session_frame w (se_sessionID entry) (se_frameID entry))
                 (js_or (session_frame w (se_sessionID entry) k) (se_frame c)))))"

lemma cloneValue_str: "cloneValue v = JStr a \<longleftrightarrow> v = JStr a"
  by (cases v) auto

lemma sibling_wake_clone:
  assumes "oget f' ''type'' = oget f ''type''" "oget f' ''authorType'' = cloneValue (oget f ''authorType'')"
    "oget f' ''targetAgentID'' = cloneValue (oget f ''targetAgentID'')" "oget f' ''targetAgentID'' = JStr agent"
  shows "sibling_wake (JObj f') x = sibling_wake (JObj f) x"
proof -
  have "oget f ''targetAgentID'' = JStr agent" using assms(4) unfolding assms(3) by (simp only: cloneValue_str)
  then have "oget f ''targetAgentID'' = oget f' ''targetAgentID''" by (simp only: assms(4))
  moreover have "is_human_message (JObj f') = is_human_message (JObj f)"
    unfolding is_human_message_def pget.simps assms(1,2) by (simp only: cloneValue_str)
  ultimately show ?thesis unfolding sibling_wake_def pget.simps by (simp only:)
qed

lemma marksD:
  assumes "marks env sid k v status w w' f'"
  shows "session_frame w' sid k = JObj f'" "oget f' ''scheduledStatus'' = JStr status" "oget f' ''id'' = k"
    "oget f' ''type'' = pget v ''type''" "oget f' ''authorType'' = cloneValue (pget v ''authorType'')"
    "oget f' ''targetAgentID'' = cloneValue (pget v ''targetAgentID'')"
    "k' \<noteq> k \<Longrightarrow> session_frame w' sid k' = session_frame w sid k'"
proof -
  have c: "\<forall>key \<in> set COPIED_KEYS. oget f' key = cloneValue (pget v key)" using assms by (simp add: marks_def)
  show "oget f' ''authorType'' = cloneValue (pget v ''authorType'')" "oget f' ''targetAgentID'' = cloneValue (pget v ''targetAgentID'')"
    by (rule bspec[OF c]; simp)+
qed (use assms in \<open>simp_all add: marks_def plain_value_def\<close>)

lemma drop_dispatchable: "dispatchable env sid k w \<Longrightarrow> dispatchable env sid k (drop_entry k' w)"
proof -
  assume w: "dispatchable env sid k w"
  have "entries_within (drop_entry k' w) w" by (rule entries_within_delete[of _ k']) (simp add: drop_entry_def)
  moreover have "plain_id (drop_entry k' w) k = plain_id w k" for k by (simp add: plain_id_def)
  ultimately have "tracked_ok (drop_entry k' w)"
    using w tracked_within[of w "drop_entry k' w"] by (simp add: dispatchable_def)
  with w show ?thesis by (simp add: dispatchable_def live_def plain_id_def)
qed

lemma settle_retires:
  assumes w: "dispatchable env (se_sessionID entry) (se_frameID entry) w" and free: "cf_commitValidator (qe_engine env) = None"
    and k: "pget firing ''id'' = se_frameID entry"
  obtains w' r where "settle_route env entry firing failure w = (w', r)" "(r \<noteq> None) = (failure = None)" "retired env entry (failure = None) w'"
proof (cases failure)
  case (Some message)
  let ?sid = "se_sessionID entry" and ?k = "se_frameID entry"
  have x: "extra_ok [(''scheduledCancelledAt'', now_value w), (''scheduledError'', JStr message)]" by (simp add: extra_ok_def)
  obtain w1 f1 where m: "markFrameStatus env ?sid (js_or (session_frame w ?sid ?k) firing) ''cancelled''
      [(''scheduledCancelledAt'', now_value w), (''scheduledError'', JStr message)] w = (w1, JObj f1)" "dispatchable env ?sid ?k w1"
    "marks env ?sid ?k (js_or (session_frame w ?sid ?k) firing) ''cancelled'' w w1 f1"
    by (rule marked_dispatchable[OF w free plain_self[OF w] x])
  have "retired env entry False (drop_entry ?k w1)"
    unfolding retired_def using drop_dispatchable[OF m(2)] marksD(1,2)[OF m(3)] by (simp add: drop_entry_keys)
  then show thesis using that[of "drop_entry ?k w1" None] m(1) Some k by (simp add: settle_route_def Let_def)
next
  case None
  let ?sid = "se_sessionID entry" and ?k = "se_frameID entry"
  obtain w1 n cur where c: "cancelSiblingProcessWakes env entry w = (w1, n)" "dispatchable env ?sid ?k w1"
    "session_frame w1 ?sid ?k = session_frame w ?sid ?k" "session_frame w ?sid ?k = JObj cur" "ru_clock w1 = ru_clock w"
    "truthy (oget cur ''targetAgentID'') \<longrightarrow> (\<forall>c \<in> snd ` set (sq_entries w1). left_alone entry (JObj cur) w1 c)"
    by (rule cancelled_dispatchable[OF w free])
  have x: "extra_ok []" by (simp add: extra_ok_def)
  have live: "js_or (session_frame w1 ?sid ?k) firing = JObj cur" using c(3,4) by (simp add: js_or_def)
  have pv: "plain_value ?k (JObj cur)" using plain_self[OF c(2), of firing] live by simp
  obtain w2 f2 where m: "markFrameStatus env ?sid (JObj cur) ''fired'' [] w1 = (w2, JObj f2)" "dispatchable env ?sid ?k w2"
    "marks env ?sid ?k (JObj cur) ''fired'' w1 w2 f2"
    and e: "''fired'' \<in> {''fired'', ''cancelled''} \<longrightarrow> sq_entries w2 = AList.delete ?k (sq_entries w1)"
    by (rule marked_dispatchable[OF c(2) free pv x])
  have e2: "sq_entries w2 = AList.delete ?k (sq_entries w1)" using e by simp
  let ?w = "drop_entry ?k w2"
  have f2: "session_frame ?w ?sid ?k = JObj f2" "oget f2 ''scheduledStatus'' = JStr ''fired''" using marksD(1,2)[OF m(3)] by simp_all
  have "\<not> sibling_wake (JObj f2) (js_or (session_frame ?w ?sid k) (se_frame c))"
    if a: "oget f2 ''targetAgentID'' = JStr agent" "agent \<noteq> []" and kc: "(k, c) \<in> set (sq_entries ?w)" "se_sessionID c = ?sid" for agent k c
  proof -
    have sw: "sibling_wake (JObj f2) x = sibling_wake (JObj cur) x" for x
      by (rule sibling_wake_clone[of _ _ agent]) (use marksD(4-6)[OF m(3)] a in simp_all)
    have kc1: "(k, c) \<in> set (sq_entries w1)" "k \<noteq> ?k"
      using kc(1) by (auto simp: drop_entry_def e2 AList.delete_eq)
    have idc: "se_frameID c = k" using kc1(1) c(2) by (auto simp: dispatchable_def tracked_ok_def)
    have "truthy (oget cur ''targetAgentID'')"
      using a marksD(6)[OF m(3)] cloneValue_str[of "oget cur ''targetAgentID''" agent] by simp
    then have "left_alone entry (JObj cur) w1 c" using c(6) kc1(1) by force
    then have "\<not> sibling_wake (JObj cur) (js_or (session_frame w1 ?sid k) (se_frame c))"
      using kc1 kc(2) idc by (force simp: left_alone_def image_iff)
    moreover have "session_frame ?w ?sid k = session_frame w1 ?sid k" using marksD(7)[OF m(3) kc1(2)] by simp
    ultimately show ?thesis by (simp add: sw)
  qed
  then have "retired env entry True ?w"
    unfolding retired_def using drop_dispatchable[OF m(2)] f2 by (simp add: drop_entry_keys) blast
  then show thesis
    using that[of ?w "Some (JObj f2)"] c(1) m(1) live None k by (simp add: settle_route_def Let_def)
qed

lemma dispatch_retires:
  assumes free: "cf_commitValidator (qe_engine env) = None" and route: "route_ok env route (se_sessionID entry) (se_frameID entry)"
    and w0: "dispatchable env (se_sessionID entry) (se_frameID entry) w0"
    and pending: "isPendingScheduledFrame (qe_dateParse env) (session_frame w0 (se_sessionID entry) (se_frameID entry))"
    and due: "FrameEngine.num_le (normalizeScheduledAt (qe_dateParse env)
        (pget (session_frame w0 (se_sessionID entry) (se_frameID entry)) ''scheduledAt'')) (Fin (ru_clock w0))"
    and w0': "w0 = hydrate_entry env entry w"
  obtains w' r where "dispatch_pinned env route entry w = (w', r)" "retired env entry (r \<noteq> None) w'"
proof -
  let ?sid = "se_sessionID entry" and ?k = "se_frameID entry"
  have x: "extra_ok []" by (simp add: extra_ok_def)
  have pv: "plain_value ?k (session_frame w0 ?sid ?k)" using w0 by (simp add: dispatchable_def)
  obtain w1 f1 where m: "markFrameStatus env ?sid (session_frame w0 ?sid ?k) ''firing'' [] w0 = (w1, JObj f1)" "dispatchable env ?sid ?k w1"
    "marks env ?sid ?k (session_frame w0 ?sid ?k) ''firing'' w0 w1 f1"
    by (rule marked_dispatchable[OF w0 free pv x])
  obtain w2 n where c: "cancelSiblingProcessWakes env entry w1 = (w2, n)" "dispatchable env ?sid ?k w2"
    by (rule cancelled_dispatchable[OF m(2) free])
  obtain w3 failure where r: "route (dispatch_commit w2 ?sid (JObj f1)) w2 = (w3, failure)" by (metis prod.exhaust)
  have w3: "dispatchable env ?sid ?k w3" using route c(2) r unfolding route_ok_def by (metis fst_conv)
  have k: "pget (JObj f1) ''id'' = ?k" using marksD(3)[OF m(3)] by simp
  obtain w' res where s: "settle_route env entry (JObj f1) failure w3 = (w', res)" "(res \<noteq> None) = (failure = None)"
    "retired env entry (failure = None) w'"
    by (rule settle_retires[OF w3 free k])
  have "dispatch_pinned env route entry w = (w', res)"
    using pending due unfolding dispatch_pinned_def w0'[symmetric] Let_def by (simp add: m(1) c(1) r s(1))
  with s show thesis using that by simp
qed

lemma retired_again:
  assumes "retired env entry ok w" "truthy (se_sessionID entry)" "truthy (se_frameID entry)"
  shows "\<exists>w''. \<forall>route. dispatch env route entry w = (w'', Inr None)"
proof -
  let ?sid = "se_sessionID entry" and ?k = "se_frameID entry"
  obtain e where e: "map_of (ru_sessions w) ?sid = Some e"
    using assms(1) by (auto simp: retired_def dispatchable_def live_def)
  obtain f where f: "session_frame w ?sid ?k = JObj f" "oget f ''scheduledStatus'' \<in> {JStr ''fired'', JStr ''cancelled''}"
    using assms(1) by (auto simp: retired_def dispatchable_def plain_value_def)
  let ?w1 = "touchSession ?sid w"
  have en: "ensureSessionEntry env ?sid w = Inr ?w1" using assms(1) by (simp add: ensureSessionEntry_def e retired_def dispatchable_def live_def)
  have fv: "frame_value e ?k = JObj f" using f(1) e by (simp add: session_frame_def)
  have h: "hydrate_entry env entry (pinSession ?sid ?w1) = pinSession ?sid ?w1" by (simp add: hydrate_entry_def touch_map e fv)
  have sf: "session_frame (pinSession ?sid ?w1) ?sid ?k = JObj f" by (simp add: f(1))
  have "dispatch_pinned env route entry (pinSession ?sid ?w1) = (drop_entry ?k (pinSession ?sid ?w1), None)" for route
    unfolding dispatch_pinned_def Let_def h sf using not_pending[OF f(2)] by simp
  then show ?thesis using assms(2,3) en by (simp add: dispatch_def)
qed

lemma retired_unpin: "retired env entry ok (unpinSession sid w) = retired env entry ok w"
  by (simp add: retired_def dispatchable_def unpinSession_def runtime_ok_def tracked_ok_def live_def plain_id_def session_frame_def split: option.split)

lemma dispatch_reaches_end:
  assumes free: "cf_commitValidator (qe_engine env) = None" and ids: "truthy (se_sessionID entry)" "truthy (se_frameID entry)"
    and route: "route_ok env route (se_sessionID entry) (se_frameID entry)"
    and w0: "opened env entry w w0" "dispatchable env (se_sessionID entry) (se_frameID entry) w0"
    and pending: "isPendingScheduledFrame (qe_dateParse env) (session_frame w0 (se_sessionID entry) (se_frameID entry))"
    and due: "FrameEngine.num_le (normalizeScheduledAt (qe_dateParse env)
        (pget (session_frame w0 (se_sessionID entry) (se_frameID entry)) ''scheduledAt'')) (Fin (ru_clock w0))"
  obtains w' r where "dispatch env route entry w = (w', Inr r)" "retired env entry (r \<noteq> None) w'"
proof -
  obtain w1 where w1: "ensureSessionEntry env (se_sessionID entry) w = Inr w1" "w0 = hydrate_entry env entry (pinSession (se_sessionID entry) w1)"
    using w0(1) by (auto simp: opened_def)
  obtain w2 r where "dispatch_pinned env route entry (pinSession (se_sessionID entry) w1) = (w2, r)" "retired env entry (r \<noteq> None) w2"
    by (rule dispatch_retires[OF free route w0(2) pending due w1(2)])
  then show thesis
    using that[of "unpinSession (se_sessionID entry) w2" r] ids w1(1) by (simp add: dispatch_def retired_unpin)
qed

section \<open>Properties\<close>

text \<open>
  C13: A due frame is routed at most once. A dispatch that finds the frame pending and due ends, whatever the router and the
  rest of the program do meanwhile, with the frame marked fired, or cancelled when the route failed, and its entry out of the
  queue; dispatching the same entry again routes nothing and answers nothing.
\<close>

theorem due_frame_routed_at_most_once:
  assumes "cf_commitValidator (qe_engine env) = None" "truthy (se_sessionID entry)" "truthy (se_frameID entry)"
    and "route_ok env route (se_sessionID entry) (se_frameID entry)"
    and "opened env entry w w0" "dispatchable env (se_sessionID entry) (se_frameID entry) w0"
    and "isPendingScheduledFrame (qe_dateParse env) (session_frame w0 (se_sessionID entry) (se_frameID entry))"
    and "FrameEngine.num_le (normalizeScheduledAt (qe_dateParse env)
        (pget (session_frame w0 (se_sessionID entry) (se_frameID entry)) ''scheduledAt'')) (Fin (ru_clock w0))"
  shows "\<exists>w' r. dispatch env route entry w = (w', Inr r)
    \<and> pget (session_frame w' (se_sessionID entry) (se_frameID entry)) ''scheduledStatus'' = JStr (if r \<noteq> None then ''fired'' else ''cancelled'')
    \<and> se_frameID entry \<notin> fst ` set (sq_entries w')
    \<and> (\<exists>w''. \<forall>route'. dispatch env route' entry w' = (w'', Inr None))"
proof -
  obtain w' r where "dispatch env route entry w = (w', Inr r)" "retired env entry (r \<noteq> None) w'"
    by (rule dispatch_reaches_end[OF assms])
  moreover from this(2) have "\<exists>w''. \<forall>route'. dispatch env route' entry w' = (w'', Inr None)"
    by (rule retired_again[OF _ assms(2,3)])
  ultimately show ?thesis unfolding retired_def by blast
qed

definition demo_scheduled :: "string \<Rightarrow> string \<Rightarrow> rat \<Rightarrow> jsval" where
  "demo_scheduled k kind due = JObj [(''id'', JStr k), (''type'', JStr ''UserMessage''), (''sessionID'', JStr ''s''), (''targetAgentID'', JStr ''bot''),
     (''scheduledAt'', JNum (Fin due)), (''scheduledStatus'', JStr ''pending''), (''continuation'', JObj [(''kind'', JStr kind)])]"

definition queue_frames :: "jsval list" where
  "queue_frames = [demo_scheduled ''f'' ''exec-wake-on-completion'' 5, demo_scheduled ''h'' ''recurring-timer'' 99]"

definition demo_env :: "nat queue_env" where
  "demo_env = \<lparr>qe_dateParse = (\<lambda>_. None), qe_localeCompare = (\<lambda>_ _. 0), qe_engine = demo_config,
     qe_store = (\<lambda>sid. if sid = JStr ''s'' then Some queue_frames else None), qe_clock0 = 0\<rparr>"

definition demo_tracked :: "jsval \<Rightarrow> jsval \<times> scheduled_entry" where
  "demo_tracked f = (pget f ''id'', \<lparr>se_frame = f, se_frameID = pget f ''id'', se_sessionID = JStr ''s'',
     se_scheduledAt = normalizeScheduledAt (\<lambda>_. None) (pget f ''scheduledAt'')\<rparr>)"

definition demo_runtime :: "nat runtime" where
  "demo_runtime = \<lparr>ru_clock = 10, ru_sessions = [], ru_partial = [], ru_pins = [], sq_entries = map demo_tracked queue_frames, sq_started = True, sq_armed = True,
     sq_processing = False, sq_nudgePending = False\<rparr>"

definition demo_entry :: scheduled_entry where
  "demo_entry = snd (demo_tracked (hd queue_frames))"

fun plain_check :: "jsval \<Rightarrow> jsval \<Rightarrow> bool" where
  "plain_check k (JObj f) = (truthy (oget f ''id'') \<and> truthy (oget f ''type'') \<and> oget f ''phantom'' \<noteq> JBool True
     \<and> arr_of (oget f ''targets'') = [] \<and> oget f ''id'' = k)"
| "plain_check k _ = False"

lemma plain_check: "plain_check k v = plain_value k v"
  by (cases v) (auto simp: plain_value_def plain_frame_def)

lemma demo_hydrated:
  "(case engine_hydrate demo_config (JArr queue_frames) None (new_engine 0) of Inl _ \<Rightarrow> False
    | Inr e \<Rightarrow> (let v = frame_value e (JStr ''f'') in list_all (\<lambda>k. plain_check (JStr k) (frame_value e (JStr k))) [''f'', ''h'']
        \<and> isPendingScheduledFrame (\<lambda>_. None) v \<and> FrameEngine.num_le (normalizeScheduledAt (\<lambda>_. None) (pget v ''scheduledAt'')) (Fin 10)))"
  by code_simp

lemma demo_entries: "list_all (\<lambda>(k, c). se_frameID c = k \<and> plain_check k (se_frame c)) (map demo_tracked queue_frames)"
  "map fst (map demo_tracked queue_frames) = [JStr ''f'', JStr ''h'']"
  by code_simp+

text \<open>The demonstration queue opened on its first frame.\<close>

lemma demo_opened:
  obtains w0 where "opened demo_env demo_entry demo_runtime w0" "dispatchable demo_env (JStr ''s'') (JStr ''f'') w0"
    "isPendingScheduledFrame (qe_dateParse demo_env) (session_frame w0 (JStr ''s'') (JStr ''f''))"
    "FrameEngine.num_le (normalizeScheduledAt (qe_dateParse demo_env) (pget (session_frame w0 (JStr ''s'') (JStr ''f'')) ''scheduledAt''))
       (Fin (ru_clock w0))"
proof -
  obtain e where h: "engine_hydrate demo_config (JArr queue_frames) None (new_engine 0) = Inr e"
    using demo_hydrated by (cases "engine_hydrate demo_config (JArr queue_frames) None (new_engine 0)") auto
  have v: "list_all (\<lambda>k. plain_check (JStr k) (frame_value e (JStr k))) [''f'', ''h'']"
    "isPendingScheduledFrame (\<lambda>_. None) (frame_value e (JStr ''f''))"
    "FrameEngine.num_le (normalizeScheduledAt (\<lambda>_. None) (pget (frame_value e (JStr ''f'')) ''scheduledAt'')) (Fin 10)"
    using demo_hydrated unfolding h sum.case Let_def by blast+
  let ?w1 = "touchSession (JStr ''s'') (put_session (JStr ''s'') e demo_runtime)"
  let ?w0 = "pinSession (JStr ''s'') ?w1"
  have en: "ensureSessionEntry demo_env (JStr ''s'') demo_runtime = Inr ?w1"
    by (simp add: ensureSessionEntry_def Let_def) (simp add: demo_runtime_def demo_env_def h)
  have w1: "?w1 = demo_runtime\<lparr>ru_sessions := [(JStr ''s'', e)]\<rparr>" by (simp add: touchSession_def put_session_def demo_runtime_def)
  have sf: "session_frame ?w0 sid k = (if sid = JStr ''s'' then frame_value e k else Undefined)" for sid k
    by (simp add: w1) (simp add: session_frame_def)
  have pv: "plain_value (JStr k) (frame_value e (JStr k))" if "k \<in> {''f'', ''h''}" for k
    using v(1) that by (auto simp: plain_check)
  have entry: "se_sessionID demo_entry = JStr ''s''" "se_frameID demo_entry = JStr ''f''" by code_simp+
  have "truthy (frame_value e (JStr ''f''))" using pv[of "''f''"] by (auto simp: plain_value_def)
  then have op: "opened demo_env demo_entry demo_runtime ?w0"
    using en by (simp add: opened_def hydrate_entry_def entry del: One_nat_def) (simp add: w1 entry)
  have "engine_ok demo_config e" using hydrate_ok[OF _ h] by simp
  then have rt: "runtime_ok demo_env ?w0" by (simp add: w1) (simp add: runtime_ok_def demo_env_def)
  have pid: "plain_id ?w0 (JStr k)" if "k \<in> {''f'', ''h''}" for k using pv[OF that] sf by (simp add: plain_id_def)
  have ents: "sq_entries ?w0 = map demo_tracked queue_frames" by (simp add: w1) (simp add: demo_runtime_def)
  have keys: "fst p \<in> {JStr ''f'', JStr ''h''}" if "p \<in> set (map demo_tracked queue_frames)" for p
    using that demo_entries(2) by (metis (no_types) image_eqI list.set_map empty_set list.simps(15))
  have "tracked_ok ?w0"
    unfolding tracked_ok_def ents
  proof
    show "distinct (map fst (map demo_tracked queue_frames))" unfolding demo_entries(2) by simp
    show "\<forall>(k, c) \<in> set (map demo_tracked queue_frames). se_frameID c = k \<and> plain_value k (se_frame c) \<and> plain_id ?w0 k"
      using demo_entries(1) keys pid unfolding list_all_iff plain_check by fastforce
  qed
  then have "dispatchable demo_env (JStr ''s'') (JStr ''f'') ?w0"
    using pv[of "''f''"] pid[of "''f''"] rt sf by (simp add: dispatchable_def) (simp add: live_def put_session_def alist_simps)
  with op v(2,3) show thesis by (intro that[of ?w0]) (simp_all only: sf if_True refl, simp_all add: demo_runtime_def demo_env_def put_session_def)
qed

lemma idle_route_ok: "route_ok env (\<lambda>c w. (w, failure)) sid k"
  by (simp add: route_ok_def)

lemma demo_facts: "cf_commitValidator (qe_engine demo_env) = None" "se_sessionID demo_entry = JStr ''s''" "se_frameID demo_entry = JStr ''f''"
  by (simp add: demo_env_def demo_config_def configure_def) code_simp+

theorem due_frame_routed_at_most_once_witness:
  "\<exists>w' r w''. dispatch demo_env (\<lambda>c w. (w, None)) demo_entry demo_runtime = (w', Inr r)
     \<and> dispatch demo_env (\<lambda>c w. (w, Some ''again'')) demo_entry w' = (w'', Inr None)"
proof -
  obtain w0 where w0: "opened demo_env demo_entry demo_runtime w0" "dispatchable demo_env (JStr ''s'') (JStr ''f'') w0"
    "isPendingScheduledFrame (qe_dateParse demo_env) (session_frame w0 (JStr ''s'') (JStr ''f''))"
    "FrameEngine.num_le (normalizeScheduledAt (qe_dateParse demo_env) (pget (session_frame w0 (JStr ''s'') (JStr ''f'')) ''scheduledAt''))
       (Fin (ru_clock w0))" by (rule demo_opened)
  have t: "truthy (se_sessionID demo_entry)" "truthy (se_frameID demo_entry)" by (simp_all add: demo_facts)
  from due_frame_routed_at_most_once[OF demo_facts(1) t idle_route_ok[of demo_env None] w0(1) w0(2-4)[folded demo_facts(2,3)]]
  show ?thesis by blast
qed

text \<open>
  One wake serves an agent. When a dispatch has fired a frame aimed at an agent, no process wake of the same session and
  agent that is still pending is left in the queue, neither one queued before nor one that arrived while the turn ran.
\<close>

theorem one_wake_per_agent:
  assumes "cf_commitValidator (qe_engine env) = None" "truthy (se_sessionID entry)" "truthy (se_frameID entry)"
    and "route_ok env route (se_sessionID entry) (se_frameID entry)"
    and "opened env entry w w0" "dispatchable env (se_sessionID entry) (se_frameID entry) w0"
    and "isPendingScheduledFrame (qe_dateParse env) (session_frame w0 (se_sessionID entry) (se_frameID entry))"
    and "FrameEngine.num_le (normalizeScheduledAt (qe_dateParse env)
        (pget (session_frame w0 (se_sessionID entry) (se_frameID entry)) ''scheduledAt'')) (Fin (ru_clock w0))"
    and "dispatch env route entry w = (w', Inr (Some fired))"
    and "pget (session_frame w' (se_sessionID entry) (se_frameID entry)) ''targetAgentID'' = JStr agent" "agent \<noteq> []"
    and "(k, c) \<in> set (sq_entries w')" "se_sessionID c = se_sessionID entry"
  shows "\<not> (let frame = js_or (session_frame w' (se_sessionID entry) k) (se_frame c)
    in pget frame ''targetAgentID'' = JStr agent \<and> pget (pget frame ''continuation'') ''kind'' = JStr ''exec-wake-on-completion''
       \<and> pget frame ''scheduledStatus'' \<notin> {JStr ''firing'', JStr ''cancelled'', JStr ''fired''})"
proof -
  obtain w2 r where "dispatch env route entry w = (w2, Inr r)" "retired env entry (r \<noteq> None) w2"
    by (rule dispatch_reaches_end[OF assms(1-8)])
  with assms(9) have ret: "retired env entry True w'" by simp
  have "\<not> sibling_wake (session_frame w' (se_sessionID entry) (se_frameID entry)) (js_or (session_frame w' (se_sessionID entry) k) (se_frame c))"
    using ret assms(10-13) unfolding retired_def by blast
  then show ?thesis using assms(10) by (auto simp: sibling_wake_def Let_def)
qed

text \<open>The wake is fired, the agent's timer \<open>h\<close> is still queued.\<close>

lemma demo_dispatched:
  "(case dispatch demo_env (\<lambda>c w. (w, None)) demo_entry demo_runtime of
      (w', Inr (Some v)) \<Rightarrow> pget (session_frame w' (JStr ''s'') (JStr ''f'')) ''targetAgentID'' = JStr ''bot''
        \<and> map (\<lambda>(k, c). (k, se_sessionID c)) (sq_entries w') = [(JStr ''h'', JStr ''s'')]
    | _ \<Rightarrow> False)"
  by code_simp

theorem one_wake_per_agent_witness:
  "\<exists>w' v c. dispatch demo_env (\<lambda>c w. (w, None)) demo_entry demo_runtime = (w', Inr (Some v)) \<and> sq_entries w' = [(JStr ''h'', c)]
     \<and> \<not> (let frame = js_or (session_frame w' (JStr ''s'') (JStr ''h'')) (se_frame c)
       in pget frame ''targetAgentID'' = JStr ''bot'' \<and> pget (pget frame ''continuation'') ''kind'' = JStr ''exec-wake-on-completion''
          \<and> pget frame ''scheduledStatus'' \<notin> {JStr ''firing'', JStr ''cancelled'', JStr ''fired''})"
proof -
  obtain w0 where w0: "opened demo_env demo_entry demo_runtime w0" "dispatchable demo_env (JStr ''s'') (JStr ''f'') w0"
    "isPendingScheduledFrame (qe_dateParse demo_env) (session_frame w0 (JStr ''s'') (JStr ''f''))"
    "FrameEngine.num_le (normalizeScheduledAt (qe_dateParse demo_env) (pget (session_frame w0 (JStr ''s'') (JStr ''f'')) ''scheduledAt''))
       (Fin (ru_clock w0))" by (rule demo_opened)
  have t: "truthy (se_sessionID demo_entry)" "truthy (se_frameID demo_entry)" by (simp_all add: demo_facts)
  obtain w' v where d: "dispatch demo_env (\<lambda>c w. (w, None)) demo_entry demo_runtime = (w', Inr (Some v))"
    "pget (session_frame w' (JStr ''s'') (JStr ''f'')) ''targetAgentID'' = JStr ''bot''"
    "map (\<lambda>(k, c). (k, se_sessionID c)) (sq_entries w') = [(JStr ''h'', JStr ''s'')]"
    using demo_dispatched by (auto split: prod.splits sum.splits option.splits)
  then obtain c where c: "sq_entries w' = [(JStr ''h'', c)]" "se_sessionID c = JStr ''s''" by auto
  note one = one_wake_per_agent[OF demo_facts(1) t idle_route_ok[of demo_env None] w0(1) w0(2-4)[folded demo_facts(2,3)] d(1)]
  show ?thesis using one[of "''bot''" "JStr ''h''" c] d c by (simp add: demo_facts)
qed

text \<open>
  C14: An entry whose session cannot be loaded stops the queue: while it comes first among the due entries, a round dispatches
  nothing, fails, and leaves the queue exactly as it was, so every later round does the same.
\<close>

theorem unreachable_session_blocks_queue:
  assumes "due_entries env w = entry # later" "\<not> sq_processing w"
    and "truthy (se_sessionID entry)" "truthy (se_frameID entry)"
    and "map_of (ru_sessions w) (se_sessionID entry) = None" "qe_store env (se_sessionID entry) = None"
  shows "processDue env route w = (w, Inl (unknown_session (se_sessionID entry)))"
proof -
  have "dispatch env route entry (w\<lparr>sq_processing := True\<rparr>) = (w\<lparr>sq_processing := True\<rparr>, Inl (unknown_session (se_sessionID entry)))"
    using assms(3-6) by (simp add: dispatch_def ensureSessionEntry_def)
  with assms(1,2) show ?thesis by (simp add: processDue_def)
qed

definition orphan_entry :: scheduled_entry where
  "orphan_entry = demo_entry\<lparr>se_sessionID := JStr ''gone'', se_frameID := JStr ''a'', se_scheduledAt := Fin 4\<rparr>"

definition blocked_runtime :: "nat runtime" where
  "blocked_runtime = demo_runtime\<lparr>sq_entries := [(JStr ''f'', demo_entry), (JStr ''a'', orphan_entry)]\<rparr>"

theorem unreachable_session_blocks_queue_witness:
  "processDue demo_env (\<lambda>c w. (w, None)) blocked_runtime = (blocked_runtime, Inl ''Unknown session: gone'')"
proof -
  have due: "due_entries demo_env blocked_runtime = [orphan_entry, demo_entry]" by code_simp
  have "unknown_session (JStr ''gone'') = ''Unknown session: gone''" by code_simp
  with unreachable_session_blocks_queue[OF due, of "\<lambda>c w. (w, None)"] show ?thesis
    by (simp add: blocked_runtime_def demo_runtime_def orphan_entry_def demo_env_def)
qed

end
