(* ===== verification/RecurringTimer.thy ===== *)
theory RecurringTimer
  imports ScheduledQueue RecurringRule
begin

text \<open>
  Recurring timers on the queue of scheduled frames: \<open>src/core/scheduling/recurring-timer-schedule.mjs\<close> (building,
  arming, cancelling and listing), the plugin that re-arms a timer when it fires, \<open>recurring-timer-frame-plugin.mjs\<close>,
  and the unit conversion \<open>toScheduledAt\<close> they share with \<open>question-deadline-schedule.mjs\<close>. The runtime and its frame
  engines are those of the queue; the id generator's answer and the time zone data are arguments.
\<close>

section \<open>Units\<close>

definition toScheduledAt :: "jsval \<Rightarrow> rat option" where
  "toScheduledAt v =
     (if nullish v then None
      else case js_Number v of
             Fin millis \<Rightarrow> if millis \<le> 0 then None
               else if 100000000000000 \<le> millis then Some (of_int (js_trunc millis)) else Some (of_int (js_trunc (millis * 1000)))
           | _ \<Rightarrow> None)"

section \<open>The frame of an occurrence\<close>

definition RECURRING_TIMER_KIND :: string where
  "RECURRING_TIMER_KIND = ''recurring-timer''"

definition TIMER_AUTHOR_ID :: string where
  "TIMER_AUTHOR_ID = ''internal:recurring-timer''"

record timer_spec =
  ts_timerID :: jsval
  ts_prompt :: jsval
  ts_rule :: jsval
  ts_timezone :: jsval
  ts_endAt :: jsval
  ts_limit :: jsval
  ts_firedCount :: jsval
  ts_occurrence :: jsval

definition buildRecurringTimerFrame :: "jsval \<Rightarrow> jsval \<Rightarrow> jsval \<Rightarrow> timer_spec \<Rightarrow> jsval \<Rightarrow> jsval \<Rightarrow> jsobj option" where
  "buildRecurringTimerFrame newID sessionID targetAgentID spec occurrence now =
     (case toScheduledAt occurrence of None \<Rightarrow> None
      | Some scheduledAt \<Rightarrow>
          if \<not> truthy newID then None
          else let stamp = JNum (js_Number (js_nc now occurrence))
               in Some [(''id'', newID), (''type'', JStr ''UserMessage''), (''sessionID'', sessionID),
                 (''interactionID'', JStr (''recurring-timer:'' @ js_String (ts_timerID spec))),
                 (''authorType'', JStr ''system''), (''authorID'', JStr TIMER_AUTHOR_ID), (''targetAgentID'', targetAgentID),
                 (''timestamp'', stamp), (''createdAt'', stamp), (''updatedAt'', stamp),
                 (''hidden'', JBool True), (''deleted'', JBool False),
                 (''scheduledAt'', JNum (Fin scheduledAt)), (''scheduledStatus'', JStr ''pending''),
                 (''continuation'', JObj [(''kind'', JStr RECURRING_TIMER_KIND), (''timerID'', ts_timerID spec), (''prompt'', ts_prompt spec),
                    (''rule'', ts_rule spec), (''timezone'', ts_timezone spec), (''endAt'', or_null (ts_endAt spec)),
                    (''limit'', or_null (ts_limit spec)), (''firedCount'', js_nc (ts_firedCount spec) (JNum (Fin 0))),
                    (''occurrence'', occurrence), (''createdAt'', stamp)]),
                 (''content'', JObj [(''text'', ts_prompt spec), (''status'', JStr ''scheduled''),
                    (''scheduledKind'', JStr RECURRING_TIMER_KIND), (''timerID'', ts_timerID spec)])])"

section \<open>Cancelling\<close>

definition timer_options :: "bool \<Rightarrow> jsval" where
  "timer_options silent = JObj ([(''authorType'', JStr ''system''), (''authorID'', JStr TIMER_AUTHOR_ID)] @ (if silent then [(''silent'', JBool True)] else []))"

definition timer_target :: "jsval \<Rightarrow> scheduled_entry \<Rightarrow> bool" where
  "timer_target timerID c =
     (pget (pget (se_frame c) ''continuation'') ''timerID'' = timerID
      \<and> pget (se_frame c) ''scheduledStatus'' \<notin> {JStr ''fired'', JStr ''cancelled'', JStr ''firing''})"

definition cancel_update :: "jsval \<Rightarrow> jsval \<Rightarrow> jsobj" where
  "cancel_update stamp frame = ospread (props_of frame) [(''scheduledStatus'', JStr ''cancelled''), (''scheduledCancelledAt'', stamp),
     (''scheduledCancelReason'', JStr ''recurring-timer-cancelled''), (''updatedAt'', stamp)]"

text \<open>The session whose engine takes the cancellation: the given one, or the candidate's own when it can be opened.\<close>

definition timer_session :: "'c queue_env \<Rightarrow> jsval option \<Rightarrow> scheduled_entry \<Rightarrow> 'c runtime \<Rightarrow> 'c runtime \<times> jsval option" where
  "timer_session env sessionEntry c w =
     (case sessionEntry of
        Some sid \<Rightarrow> (w, Some sid)
      | None \<Rightarrow> if \<not> truthy (se_sessionID c) then (w, None)
                else case ensureSessionEntry env (se_sessionID c) w of Inl _ \<Rightarrow> (w, None) | Inr w' \<Rightarrow> (w', Some (se_sessionID c)))"

definition cancel_timer_step :: "'c queue_env \<Rightarrow> jsval option \<Rightarrow> jsval \<Rightarrow> 'c runtime \<times> nat \<Rightarrow> scheduled_entry \<Rightarrow> 'c runtime \<times> nat" where
  "cancel_timer_step env sessionEntry stamp acc c =
     (case acc of (w, cancelled) \<Rightarrow>
      case timer_session env sessionEntry c w of
        (w1, None) \<Rightarrow> (drop_entry (se_frameID c) w1, cancelled + 1)
      | (w1, Some sid) \<Rightarrow>
          (drop_entry (se_frameID c) (fst (runtime_merge env sid
             [JObj (cancel_update stamp (js_or (session_frame w1 sid (se_frameID c)) (se_frame c)))] (timer_options True) w1)), cancelled + 1))"

definition cancelRecurringTimer :: "'c queue_env \<Rightarrow> jsval \<Rightarrow> jsval option \<Rightarrow> jsval \<Rightarrow> 'c runtime \<Rightarrow> 'c runtime \<times> nat" where
  "cancelRecurringTimer env timerID sessionEntry now w =
     (if \<not> truthy timerID then (w, 0)
      else foldl (cancel_timer_step env sessionEntry (JNum (js_Number (js_nc now (now_value w))))) (w, 0)
             (filter (timer_target timerID) (map snd (sq_entries w))))"

section \<open>Arming\<close>

definition armRecurringTimer :: "'c queue_env \<Rightarrow> zone_data \<Rightarrow> jsval \<Rightarrow> jsval \<Rightarrow> jsval \<Rightarrow> timer_spec \<Rightarrow> jsval \<Rightarrow> 'c runtime
    \<Rightarrow> 'c runtime \<times> (string + jsval option)" where
  "armRecurringTimer env zd newID sessionID targetAgentID spec now w =
     (if \<not> truthy sessionID \<or> \<not> truthy (ts_timerID spec) then (w, Inr None)
      else case normalizeRecurringRule zd (ts_rule spec) (js_nc (pget (ts_rule spec) ''anchorAt'') now) of
        None \<Rightarrow> (w, Inr None)
      | Some rule \<Rightarrow>
        (case buildRecurringTimerFrame newID sessionID targetAgentID (spec\<lparr>ts_rule := rule\<rparr>) (ts_occurrence spec) now of
           None \<Rightarrow> (w, Inr None)
         | Some frame \<Rightarrow>
           (case ensureSessionEntry env sessionID w of
              Inl err \<Rightarrow> (w, Inl err)
            | Inr w1 \<Rightarrow>
              (let w2 = fst (cancelRecurringTimer env (ts_timerID spec) (Some sessionID) Null w1);
                   (w3, merged) = runtime_merge env sessionID [JObj frame] (timer_options False) w2
               in (w3, Inr (Some (case merged of m # _ \<Rightarrow> m | [] \<Rightarrow> JObj frame)))))))"

section \<open>Listing\<close>

definition timer_listed :: "jsval \<Rightarrow> jsval \<Rightarrow> jsval \<Rightarrow> bool" where
  "timer_listed sessionID agentID frame =
     (pget (pget frame ''continuation'') ''kind'' = JStr RECURRING_TIMER_KIND
      \<and> pget frame ''scheduledStatus'' \<notin> {JStr ''fired'', JStr ''cancelled''}
      \<and> \<not> (truthy sessionID \<and> pget frame ''sessionID'' \<noteq> sessionID)
      \<and> \<not> (truthy agentID \<and> pget frame ''targetAgentID'' \<noteq> agentID))"

definition timer_summary :: "jsval \<Rightarrow> jsobj" where
  "timer_summary frame =
     (let cont = pget frame ''continuation''
      in [(''timerID'', pget cont ''timerID''), (''sessionID'', pget frame ''sessionID''), (''targetAgentID'', pget frame ''targetAgentID''),
          (''prompt'', pget cont ''prompt''), (''rule'', pget cont ''rule''), (''timezone'', pget cont ''timezone''),
          (''firedCount'', js_nc (pget cont ''firedCount'') (JNum (Fin 0))), (''limit'', or_null (pget cont ''limit'')),
          (''endAt'', or_null (pget cont ''endAt'')), (''nextOccurrenceAt'', or_null (pget cont ''occurrence'')),
          (''scheduledAt'', or_null (pget frame ''scheduledAt'')), (''status'', pget frame ''scheduledStatus'')])"

text \<open>A difference that is not a number counts as equal for \<open>sort\<close>.\<close>

definition next_le :: "jsobj \<Rightarrow> jsobj \<Rightarrow> bool" where
  "next_le a b =
     (let x = js_Number (js_nc (oget a ''nextOccurrenceAt'') (JNum (Fin 0))); y = js_Number (js_nc (oget b ''nextOccurrenceAt'') (JNum (Fin 0)))
      in x = NaN \<or> y = NaN \<or> FrameEngine.num_le x y)"

definition listRecurringTimers :: "jsval \<Rightarrow> jsval \<Rightarrow> 'c runtime \<Rightarrow> jsobj list" where
  "listRecurringTimers sessionID agentID w =
     sort_by next_le (map timer_summary (filter (timer_listed sessionID agentID) (map (se_frame \<circ> snd) (sq_entries w))))"

section \<open>Firing\<close>

fun num_succ :: "jsnum \<Rightarrow> jsnum" where
  "num_succ (Fin q) = Fin (q + 1)"
| "num_succ n = n"

definition next_base :: "jsval \<Rightarrow> rat \<Rightarrow> rat" where
  "next_base occurrence frameNow = (case js_Number occurrence of Fin q \<Rightarrow> max q frameNow | _ \<Rightarrow> frameNow)"

text \<open>An error while arming is logged and swallowed; one while looking for the occurrence is not.\<close>

definition rearmNextOccurrence :: "'c queue_env \<Rightarrow> zone_data \<Rightarrow> jsval \<Rightarrow> jsval \<Rightarrow> 'c runtime \<Rightarrow> 'c runtime \<times> (js_error + jsval option)" where
  "rearmNextOccurrence env zd newID frame w =
     (let cont = js_or (pget frame ''continuation'') (JObj []); now = now_value w;
          firedCount = JNum (num_succ (js_Number (js_nc (pget cont ''firedCount'') (JNum (Fin 0)))))
      in case nextOccurrence zd (pget cont ''rule'') (JNum (Fin (next_base (pget cont ''occurrence'') (ru_clock w))))
                (js_or (pget cont ''timezone'') Null) of
           Inl err \<Rightarrow> (w, Inl err)
         | Inr nextAt \<Rightarrow>
             if \<not> shouldRecur (pget cont ''endAt'') (pget cont ''limit'') firedCount nextAt now then (w, Inr None)
             else case armRecurringTimer env zd newID (pget frame ''sessionID'') (pget frame ''targetAgentID'')
                     \<lparr>ts_timerID = pget cont ''timerID'', ts_prompt = pget cont ''prompt'', ts_rule = pget cont ''rule'',
                      ts_timezone = pget cont ''timezone'', ts_endAt = or_null (pget cont ''endAt''), ts_limit = or_null (pget cont ''limit''),
                      ts_firedCount = firedCount, ts_occurrence = (case nextAt of None \<Rightarrow> Null | Some t \<Rightarrow> JNum (Fin t))\<rparr> now w of
                    (w', Inl _) \<Rightarrow> (w', Inr None)
                  | (w', Inr armed) \<Rightarrow> (w', Inr armed))"

definition process_timer :: "'c queue_env \<Rightarrow> zone_data \<Rightarrow> jsval \<Rightarrow> jsval \<Rightarrow> bool \<Rightarrow> 'c runtime \<Rightarrow> 'c runtime \<times> jsval plugin_action list" where
  "process_timer env zd newID frame scheduledDispatch w =
     (if pget (pget frame ''continuation'') ''kind'' \<noteq> JStr RECURRING_TIMER_KIND then (w, [CallNext None])
      else if \<not> scheduledDispatch then (w, [CallDone])
      else case rearmNextOccurrence env zd newID frame w of
             (w', Inl _) \<Rightarrow> (w', [Throw])
           | (w', Inr _) \<Rightarrow> (w', [CallNext None]))"

section \<open>What cancelling and arming do\<close>

definition settled :: "'c queue_env \<Rightarrow> jsval \<Rightarrow> 'c runtime \<Rightarrow> bool" where
  "settled env sid w \<longleftrightarrow> runtime_ok env w \<and> tracked_ok w \<and> live w sid"

lemma cancel_update_reads:
  "oget (cancel_update stamp (JObj f)) ''scheduledStatus'' = JStr ''cancelled''" "plain_frame f \<Longrightarrow> plain_frame (cancel_update stamp (JObj f))"
  "oget (cancel_update stamp (JObj f)) ''id'' = oget f ''id''"
  by (simp_all add: cancel_update_def plain_frame_def)

lemma cancel_timer_step_spec:
  assumes w: "settled env sid w" and free: "cf_commitValidator (qe_engine env) = None"
    and c: "plain_value (se_frameID c) (se_frame c)" "plain_id w (se_frameID c)"
  obtains w' where "cancel_timer_step env (Some sid) stamp (w, n) c = (w', n + 1)" "settled env sid w'"
    "\<forall>k. plain_id w k \<longrightarrow> plain_id w' k" "sq_entries w' = AList.delete (se_frameID c) (sq_entries w)" "ru_clock w' = ru_clock w"
proof -
  let ?k = "se_frameID c"
  have ok: "runtime_ok env w" "tracked_ok w" "live w sid" using w by (simp_all add: settled_def)
  obtain f where f: "js_or (session_frame w sid ?k) (se_frame c) = JObj f" "plain_frame f" "oget f ''id'' = ?k"
    using plain_or[OF ok(1) c(2,1), of sid] by (auto simp: plain_value_def)
  let ?u = "cancel_update stamp (JObj f)"
  obtain w1 f1 where r: "runtime_merge env sid [JObj ?u] (timer_options True) w = (w1, [JObj f1])" and m: "merges env sid ?k ?u w w1 f1"
    using runtime_merge_spec[OF ok(1) free ok(3) cancel_update_reads(2)[OF f(2)]] cancel_update_reads(3) f(3) by metis
  have m': "runtime_ok env w1" "plain_value ?k (JObj f1)" "session_frame w1 sid ?k = JObj f1"
    "sid' \<noteq> sid \<or> k' \<noteq> ?k \<Longrightarrow> session_frame w1 sid' k' = session_frame w sid' k'"
    "sq_entries w1 = sq_entries (trackFrame (qe_dateParse env) w (JObj f1))" "ru_clock w1 = ru_clock w" "live w1 sid" for sid' k'
    using m ok(3) by (simp_all add: merges_def)
  have st: "oget f1 ''scheduledStatus'' = JStr ''cancelled''" using m by (simp add: merges_def cancel_update_reads)
  have ents: "sq_entries w1 = AList.delete ?k (sq_entries w)"
    unfolding m'(5) using st by (subst track_retired[OF m'(2)]) (simp_all add: drop_entry_def)
  have ents2: "sq_entries (drop_entry ?k w1) = AList.delete ?k (sq_entries w)" by (simp add: drop_entry_def ents delete_idem)
  have pid: "plain_id w1 k" if "plain_id w k" for k by (rule merged_tracked(2)[OF ok(2) c(2) m'(2-5) that])
  have "tracked_ok w1" by (rule merged_tracked(1)[OF ok(2) c(2) m'(2-5)])
  then have "tracked_ok (drop_entry ?k w1)"
    by (rule tracked_within[OF _ entries_within_delete[of _ ?k]]) (simp_all add: drop_entry_def plain_id_def session_frame_def)
  then have "settled env sid (drop_entry ?k w1)" using m'(1,7) by (simp add: settled_def live_def)
  moreover have "\<forall>k. plain_id w k \<longrightarrow> plain_id (drop_entry ?k w1) k" using pid by (simp add: plain_id_def)
  moreover have "cancel_timer_step env (Some sid) stamp (w, n) c = (drop_entry ?k w1, n + 1)"
    by (simp add: cancel_timer_step_def timer_session_def f(1) r)
  ultimately show thesis using that ents2 m'(6) by simp
qed

lemma cancel_timer_loop:
  assumes "settled env sid w" "cf_commitValidator (qe_engine env) = None"
    and "\<forall>c \<in> set cs. plain_value (se_frameID c) (se_frame c) \<and> plain_id w (se_frameID c)"
  shows "let w' = fst (foldl (cancel_timer_step env (Some sid) stamp) (w, n) cs) in settled env sid w'
    \<and> (\<forall>k. plain_id w k \<longrightarrow> plain_id w' k) \<and> ru_clock w' = ru_clock w
    \<and> set (sq_entries w') = {p \<in> set (sq_entries w). fst p \<notin> se_frameID ` set cs}"
  using assms
proof (induction cs arbitrary: w n)
  case Nil
  then show ?case by simp
next
  case (Cons c cs)
  have c: "plain_value (se_frameID c) (se_frame c)" "plain_id w (se_frameID c)" using Cons.prems(3) by auto
  obtain w1 where s: "cancel_timer_step env (Some sid) stamp (w, n) c = (w1, n + 1)" "settled env sid w1"
    "\<forall>k. plain_id w k \<longrightarrow> plain_id w1 k" "sq_entries w1 = AList.delete (se_frameID c) (sq_entries w)" "ru_clock w1 = ru_clock w"
    by (rule cancel_timer_step_spec[OF Cons.prems(1,2) c])
  have "\<forall>c \<in> set cs. plain_value (se_frameID c) (se_frame c) \<and> plain_id w1 (se_frameID c)" using Cons.prems(3) s(3) by simp
  note ih = Cons.IH[OF s(2) Cons.prems(2) this, of "n + 1"]
  have "set (sq_entries w1) = {p \<in> set (sq_entries w). fst p \<noteq> se_frameID c}" by (auto simp: s(4) AList.delete_eq)
  with ih s(1,3,5) show ?case by (auto simp: Let_def)
qed

lemma cancelled_timers:
  assumes w: "settled env sid w" and free: "cf_commitValidator (qe_engine env) = None" and t: "truthy timerID"
  obtains w' n where "cancelRecurringTimer env timerID (Some sid) now w = (w', n)" "settled env sid w'"
    "\<And>k. plain_id w k \<Longrightarrow> plain_id w' k" "ru_clock w' = ru_clock w"
    "set (sq_entries w') = {p \<in> set (sq_entries w). \<not> timer_target timerID (snd p)}"
proof -
  let ?cs = "filter (timer_target timerID) (map snd (sq_entries w))"
  have tr: "tracked_ok w" using w by (simp add: settled_def)
  then have "\<forall>c \<in> set ?cs. plain_value (se_frameID c) (se_frame c) \<and> plain_id w (se_frameID c)"
    unfolding tracked_ok_def by auto
  note l = cancel_timer_loop[OF w free this, of "JNum (js_Number (js_nc now (now_value w)))" 0]
  obtain w' n where f: "foldl (cancel_timer_step env (Some sid) (JNum (js_Number (js_nc now (now_value w))))) (w, 0) ?cs = (w', n)"
    by (metis prod.exhaust)
  have dist: "distinct (map fst (sq_entries w))" "\<forall>(k, c) \<in> set (sq_entries w). se_frameID c = k" using tr by (auto simp: tracked_ok_def)
  have "fst p \<in> se_frameID ` set ?cs \<longleftrightarrow> timer_target timerID (snd p)" if p: "p \<in> set (sq_entries w)" for p
  proof
    assume "fst p \<in> se_frameID ` set ?cs"
    then obtain q where "q \<in> set (sq_entries w)" "timer_target timerID (snd q)" "se_frameID (snd q) = fst p" by auto
    moreover from this dist(2) have "fst q = fst p" by auto
    moreover from this p \<open>q \<in> set (sq_entries w)\<close> have "q = p" using dist(1) by (metis eq_key_imp_eq_value prod.collapse)
    ultimately show "timer_target timerID (snd p)" by simp
  next
    assume "timer_target timerID (snd p)"
    then show "fst p \<in> se_frameID ` set ?cs" using p dist(2) by (force simp: image_iff)
  qed
  then have "set (sq_entries w') = {p \<in> set (sq_entries w). \<not> timer_target timerID (snd p)}" using l by (auto simp: f Let_def)
  then show thesis using that[of w' n] l f t by (auto simp: cancelRecurringTimer_def Let_def)
qed

lemma ensure_live:
  assumes "settled env sid w"
  obtains w1 where "ensureSessionEntry env sid w = Inr w1" "settled env sid w1" "\<And>k. plain_id w1 k = plain_id w k"
    "sq_entries w1 = sq_entries w" "ru_clock w1 = ru_clock w"
proof -
  obtain e where e: "map_of (ru_sessions w) sid = Some e" using assms by (auto simp: settled_def live_def)
  have "ensureSessionEntry env sid w = Inr (touchSession sid w)" using assms e by (simp add: ensureSessionEntry_def settled_def live_def)
  then show thesis using assms by (intro that[of "touchSession sid w"]) (simp_all add: settled_def)
qed

lemma pget_clone: "\<not> unsafe_key k \<Longrightarrow> pget (cloneValue v) k = cloneValue (pget v k)"
  by (cases v) (simp_all add: oget_clone_props)

text \<open>The parts of a built frame that the queue and the plugin read.\<close>

definition built_ok :: "jsval \<Rightarrow> timer_spec \<Rightarrow> rat \<Rightarrow> jsobj \<Rightarrow> bool" where
  "built_ok newID spec due f \<longleftrightarrow> plain_frame f \<and> oget f ''id'' = newID \<and> oget f ''type'' = JStr ''UserMessage''
     \<and> oget f ''scheduledAt'' = JNum (Fin due) \<and> oget f ''scheduledStatus'' = JStr ''pending'' \<and> oget f ''deleted'' = JBool False
     \<and> pget (oget f ''continuation'') ''timerID'' = ts_timerID spec"

lemma built_frame:
  assumes "toScheduledAt occurrence = Some due" "truthy newID"
  obtains f where "buildRecurringTimerFrame newID sid target spec occurrence now = Some f" "built_ok newID spec due f"
  using assms by (auto simp: buildRecurringTimerFrame_def Let_def built_ok_def plain_frame_def)

lemma armed_timer:
  assumes w: "settled env sid w" and free: "cf_commitValidator (qe_engine env) = None"
    and ids: "truthy sid" "ts_timerID spec = JStr t" "t \<noteq> []" "truthy newID" "plain_id w newID"
    and rule: "normalizeRecurringRule zd (ts_rule spec) (js_nc (pget (ts_rule spec) ''anchorAt'') now) = Some rule"
    and due: "toScheduledAt (ts_occurrence spec) = Some due" "0 < due"
  obtains w' f c where "armRecurringTimer env zd newID sid target spec now w = (w', Inr (Some (JObj f)))" "settled env sid w'"
    "oget f ''scheduledAt'' = JNum (Fin due)" "session_frame w' sid newID = JObj f"
    "timer_target (JStr t) c" "se_frame c = JObj f" "se_scheduledAt c = Fin due"
    "set (sq_entries w') = insert (newID, c) {p \<in> set (sq_entries w). \<not> timer_target (JStr t) (snd p) \<and> fst p \<noteq> newID}"
proof -
  obtain w1 where w1: "ensureSessionEntry env sid w = Inr w1" "settled env sid w1" "\<And>k. plain_id w1 k = plain_id w k"
    "sq_entries w1 = sq_entries w" "ru_clock w1 = ru_clock w"
    by (rule ensure_live[OF w]) blast
  have tt: "truthy (JStr t)" using ids(3) by simp
  obtain w2 n where w2: "cancelRecurringTimer env (JStr t) (Some sid) Null w1 = (w2, n)" "settled env sid w2"
    "\<And>k. plain_id w1 k \<Longrightarrow> plain_id w2 k" "ru_clock w2 = ru_clock w1"
    "set (sq_entries w2) = {p \<in> set (sq_entries w1). \<not> timer_target (JStr t) (snd p)}"
    by (rule cancelled_timers[OF w1(2) free tt, where now = Null]) blast
  obtain u where b: "buildRecurringTimerFrame newID sid target (spec\<lparr>ts_rule := rule\<rparr>) (ts_occurrence spec) now = Some u"
    and u: "built_ok newID (spec\<lparr>ts_rule := rule\<rparr>) due u"
    by (rule built_frame[OF due(1) ids(4)])
  have ok2: "runtime_ok env w2" "tracked_ok w2" "live w2 sid" using w2(2) by (simp_all add: settled_def)
  have pl: "plain_frame u" "oget u ''id'' = newID" using u by (simp_all add: built_ok_def)
  obtain w3 f where r: "runtime_merge env sid [JObj u] (timer_options False) w2 = (w3, [JObj f])" and m: "merges env sid newID u w2 w3 f"
    by (rule runtime_merge_spec[OF ok2(1) free ok2(3) pl])
  have mf: "oget f key = cloneValue (oget u key)" if "free_key key" for key using m that by (simp add: merges_def)
  have m': "runtime_ok env w3" "plain_value newID (JObj f)" "session_frame w3 sid newID = JObj f"
    "sid' \<noteq> sid \<or> k' \<noteq> newID \<Longrightarrow> session_frame w3 sid' k' = session_frame w2 sid' k'"
    "sq_entries w3 = sq_entries (trackFrame (qe_dateParse env) w2 (JObj f))" "live w3 sid" for sid' k'
    using m ok2(3) by (simp_all add: merges_def)
  have f: "oget f ''scheduledAt'' = JNum (Fin due)" "oget f ''scheduledStatus'' = JStr ''pending''"
    "pget (oget f ''continuation'') ''timerID'' = JStr t" "oget f ''type'' = JStr ''UserMessage''"
    using u mf m ids(2) by (simp_all add: built_ok_def pget_clone unsafe_key_def merges_def)
  let ?c = "\<lparr>se_frame = JObj f, se_frameID = newID, se_sessionID = oget f ''sessionID'', se_scheduledAt = Fin due\<rparr>"
  have pid: "plain_id w2 newID" using ids(5) w1(3) w2(3) by simp
  have idf: "oget f ''id'' = newID" using m'(2) by (simp add: plain_value_def)
  have norm: "normalizeScheduledAt dp (JNum (Fin due)) = Fin due" for dp by (simp add: normalizeScheduledAt_def)
  have "oget f ''deleted'' = JBool False" using m u by (simp add: merges_def built_ok_def)
  then have "isPendingScheduledFrame dp (JObj f)" for dp
    using f idf ids(4) due(2) norm by (simp add: isPendingScheduledFrame_def)
  then have upd: "sq_entries w3 = AList.update newID ?c (sq_entries w2)"
    unfolding m'(5) trackFrame_def using idf ids(4) f(1) norm by simp
  have dist: "distinct (map fst (sq_entries w2))" using ok2(2) by (simp add: tracked_ok_def)
  have "set (AList.update k v es) = insert (k, v) {p \<in> set es. fst p \<noteq> k}" if "distinct (map fst es)" for k :: jsval and v :: scheduled_entry and es
    using that by (induction es) (auto split: if_splits intro: rev_image_eqI)
  from this[OF dist, of newID ?c] have ents: "set (sq_entries w3) = insert (newID, ?c) {p \<in> set (sq_entries w). \<not> timer_target (JStr t) (snd p) \<and> fst p \<noteq> newID}"
    unfolding upd w2(5) w1(4) by auto
  have "tracked_ok w3" by (rule merged_tracked(1)[OF ok2(2) pid m'(2-5)])
  then have "settled env sid w3" using m'(1,6) by (simp add: settled_def)
  moreover have "timer_target (JStr t) ?c" using f by (simp add: timer_target_def)
  moreover have "armRecurringTimer env zd newID sid target spec now w = (w3, Inr (Some (JObj f)))"
    using ids(1-3) rule b w1(1) w2(1) r by (simp add: armRecurringTimer_def Let_def)
  ultimately show thesis using that[of w3 f ?c] f(1) m'(3) ents by simp
qed

section \<open>Occurrences of an interval\<close>

lemma every_occurrence_spec:
  assumes "map_of UNIT_SPAN_MS unit = Some ms" "1 \<le> n" "anchor \<le> after"
  obtains t k where "every_occurrence unit n anchor after = Some t" "after < t" "t \<le> after + of_nat ms * n"
    "t = anchor + of_nat k * (of_nat ms * n)"
proof -
  let ?span = "of_nat ms * n"
  have "ms > 0" using assms(1) by (auto simp: UNIT_SPAN_MS_def split: if_splits)
  with assms(2) have span: "?span > 0" by simp
  define f where "f = \<lfloor>(after - anchor) / ?span\<rfloor>"
  have f: "of_int f * ?span \<le> after - anchor" "after - anchor < (of_int f + 1) * ?span" "0 \<le> f"
    using span assms(3) floor_divide_lower[of ?span "after - anchor"] floor_divide_upper[of ?span "after - anchor"]
    unfolding f_def by (simp_all add: zero_le_divide_iff)
  let ?t = "anchor + (of_int f + 1) * ?span"
  have b: "after < ?t" using f(2) by linarith
  then have "every_occurrence unit n anchor after = Some ?t"
    using assms(1,3) unfolding every_occurrence_def f_def by (simp add: Let_def)
  moreover have "?t \<le> after + ?span" using f(1) by (simp add: distrib_right)
  moreover have "?t = anchor + of_nat (nat (f + 1)) * ?span" using f(3) by simp
  ultimately show thesis using that b by blast
qed

definition every_rule :: "rat \<Rightarrow> string \<Rightarrow> rat \<Rightarrow> string \<Rightarrow> jsval" where
  "every_rule n unit anchor tz = JObj [(''type'', JStr ''every''), (''n'', JNum (Fin n)), (''unit'', JStr unit),
     (''anchorAt'', JNum (Fin anchor)), (''timezone'', JStr tz)]"

lemma unit_lower: "map_of UNIT_SPAN_MS unit = Some ms \<Longrightarrow> toLowerCase unit = unit \<and> unit_known unit"
  by (auto simp: UNIT_SPAN_MS_def unit_known_def toLowerCase_def lower_char_def split: if_splits)

lemma every_rule_normal:
  assumes "map_of UNIT_SPAN_MS unit = Some ms" "1 \<le> n" "of_int (js_trunc n) = n" "0 < anchor" "zd_valid zd tz" "tz \<noteq> []"
  shows "normalizeRecurringRule zd (every_rule n unit anchor tz) a = Some (every_rule n unit anchor tz)"
  using assms unit_lower[OF assms(1)]
  by (simp add: normalizeRecurringRule_def every_rule_def normalizeTimezone_def js_nc_def Let_def)

lemma every_rule_zone: "oset (props_of (every_rule n unit anchor tz)) ''timezone'' (JStr tz) = props_of (every_rule n unit anchor tz)"
  by (simp add: every_rule_def)

text \<open>
  A fired interval timer is re-armed at the first interval point \<open>t\<close> after the later of its occurrence and the clock's
  reading, both taken as milliseconds.
\<close>

definition interval_cont :: "jsval \<Rightarrow> string \<Rightarrow> nat \<Rightarrow> string \<Rightarrow> int \<Rightarrow> string \<Rightarrow> bool" where
  "interval_cont cont t n unit a tz \<longleftrightarrow> pget cont ''timerID'' = JStr t \<and> pget cont ''rule'' = every_rule (of_nat n) unit (of_int a) tz
     \<and> pget cont ''timezone'' = JStr tz \<and> t \<noteq> [] \<and> tz \<noteq> [] \<and> 1 \<le> n \<and> 0 < a \<and> nullish (pget cont ''limit'')"

lemma rearm_occurrence:
  assumes c: "interval_cont cont t n unit a tz" and z: "zd_valid zd tz" "map_of UNIT_SPAN_MS unit = Some ms"
    and occ: "js_Number (pget cont ''occurrence'') = Fin occ" and a: "a \<le> m" "occ \<le> of_int m"
  obtains k where "nextOccurrence zd (pget cont ''rule'') (JNum (Fin (next_base (pget cont ''occurrence'') (of_int m))))
      (js_or (pget cont ''timezone'') Null) = Inr (Some (of_int (a + int (k * (ms * n)))))" "m < a + int (k * (ms * n))" "a + int (k * (ms * n)) \<le> m + int (ms * n)"
    "normalizeRecurringRule zd (pget cont ''rule'') anchor = Some (pget cont ''rule'')"
proof -
  have n: "(1 :: rat) \<le> of_nat n" "of_int (js_trunc (of_nat n)) = (of_nat n :: rat)" "(0 :: rat) < of_int a" using c by (simp_all add: interval_cont_def)
  have tz: "tz \<noteq> []" using c by (simp add: interval_cont_def)
  note norm = every_rule_normal[OF z(2) n z(1) tz]
  have base: "next_base (pget cont ''occurrence'') (of_int m) = of_int m" using occ a(2) by (simp add: next_base_def)
  have am: "(of_int a :: rat) \<le> of_int m" using a(1) by simp
  obtain q k where q: "every_occurrence unit (of_nat n) (of_int a) (of_int m) = Some q" "of_int m < q" "q \<le> of_int m + of_nat ms * of_nat n"
    "q = of_int a + of_nat k * (of_nat ms * of_nat n)"
    by (rule every_occurrence_spec[OF z(2) n(1) am])
  have q': "q = of_int (a + int (k * (ms * n)))" using q(4) by simp
  have "of_int m < (of_int (a + int (k * (ms * n))) :: rat)" "(of_int (a + int (k * (ms * n))) :: rat) \<le> of_int (m + int (ms * n))"
    using q(2,3) unfolding q' by simp_all
  then have b: "m < a + int (k * (ms * n))" "a + int (k * (ms * n)) \<le> m + int (ms * n)" by (simp_all only: of_int_less_iff of_int_le_iff)
  have rule: "pget cont ''rule'' = every_rule (of_nat n) unit (of_int a) tz" "js_or (pget cont ''timezone'') Null = JStr tz"
    using c by (simp_all add: interval_cont_def)
  have eq: "JObj (props_of (every_rule (of_nat n) unit (of_int a) tz)) = every_rule (of_nat n) unit (of_int a) tz" by (simp add: every_rule_def)
  have nx: "nextOccurrence zd (every_rule (of_nat n) unit (of_int a) tz) (JNum (Fin (of_int m))) (JStr tz) = Inr (Some q)"
    unfolding nextOccurrence_def using norm q(1) by (simp add: every_rule_zone eq) (simp add: every_rule_def)
  show thesis
    by (rule that[of k]) (use b nx norm in \<open>simp_all only: rule base q'\<close>)
qed

lemma of_int_trunc: "of_int (js_trunc (of_int i)) = (of_int i :: rat)"
  by simp

section \<open>Properties\<close>

text \<open>
  Arming never stacks occurrences. After a timer is armed exactly one live occurrence of it is queued, the new one, whatever
  was queued before; the entries of other timers and of other frames are untouched.
\<close>

theorem arming_never_stacks:
  assumes "settled env sid w" "cf_commitValidator (qe_engine env) = None" "truthy sid"
    and "ts_timerID spec = JStr t" "t \<noteq> []" "truthy newID" "plain_id w newID"
    and "normalizeRecurringRule zd (ts_rule spec) (js_nc (pget (ts_rule spec) ''anchorAt'') now) = Some rule"
    and "toScheduledAt (ts_occurrence spec) = Some due" "0 < due"
  shows "\<exists>w' f. armRecurringTimer env zd newID sid target spec now w = (w', Inr (Some f))
    \<and> {k. \<exists>c. (k, c) \<in> set (sq_entries w') \<and> timer_target (JStr t) c} = {newID}
    \<and> (\<forall>k c. k \<noteq> newID \<longrightarrow> \<not> timer_target (JStr t) c \<longrightarrow> (k, c) \<in> set (sq_entries w') \<longleftrightarrow> (k, c) \<in> set (sq_entries w))"
proof -
  obtain w' f c where a: "armRecurringTimer env zd newID sid target spec now w = (w', Inr (Some (JObj f)))" "timer_target (JStr t) c"
    "set (sq_entries w') = insert (newID, c) {p \<in> set (sq_entries w). \<not> timer_target (JStr t) (snd p) \<and> fst p \<noteq> newID}"
    by (rule armed_timer[OF assms(1-7) assms(8-10), where target = target]) blast
  from a(2,3) have "{k. \<exists>c. (k, c) \<in> set (sq_entries w') \<and> timer_target (JStr t) c} = {newID}" by auto
  moreover have "\<forall>k c. k \<noteq> newID \<longrightarrow> \<not> timer_target (JStr t) c \<longrightarrow> (k, c) \<in> set (sq_entries w') \<longleftrightarrow> (k, c) \<in> set (sq_entries w)"
    using a(3) by auto
  ultimately show ?thesis using a(1) by blast
qed

definition timer_demo_cont :: jsval where
  "timer_demo_cont = JObj [(''kind'', JStr RECURRING_TIMER_KIND), (''timerID'', JStr ''t''),
     (''rule'', every_rule 15 ''minute'' 1792700000000 ''UTC''), (''timezone'', JStr ''UTC''),
     (''occurrence'', JNum (Fin 1792700900000))]"

definition timer_demo_frame :: "string \<Rightarrow> jsval" where
  "timer_demo_frame k = JObj [(''id'', JStr k), (''type'', JStr ''UserMessage''), (''sessionID'', JStr ''s''), (''scheduledAt'', JNum (Fin 5)),
     (''scheduledStatus'', JStr ''pending''), (''continuation'', timer_demo_cont)]"

definition timer_demo :: "nat runtime" where
  "timer_demo = \<lparr>ru_clock = 1792700900000000, ru_sessions = [(JStr ''s'', new_engine 0)], ru_partial = [], ru_pins = [],
     sq_entries = [(JStr ''old'', \<lparr>se_frame = timer_demo_frame ''old'', se_frameID = JStr ''old'', se_sessionID = JStr ''s'', se_scheduledAt = Fin 5\<rparr>)],
     sq_started = True, sq_armed = True, sq_processing = False, sq_nudgePending = False\<rparr>"

lemma timer_demo_frames [simp]: "session_frame timer_demo sid k = Undefined"
  by (simp add: session_frame_def timer_demo_def frame_value_def engine_get_def new_engine_def)

lemma timer_demo_settled: "settled demo_env (JStr ''s'') timer_demo" "plain_id timer_demo k"
  "cf_commitValidator (qe_engine demo_env) = None"
proof -
  show pid: "plain_id timer_demo k" for k by (simp add: plain_id_def)
  have "engine_ok demo_config (new_engine 0)" by (simp add: engine_ok_def history_ok_def new_engine_def)
  then have "runtime_ok demo_env timer_demo" by (simp add: runtime_ok_def timer_demo_def demo_env_def)
  moreover have "plain_value (JStr ''old'') (timer_demo_frame ''old'')"
    by (simp add: plain_value_def timer_demo_frame_def plain_frame_def)
  with pid have "tracked_ok timer_demo" by (simp add: tracked_ok_def timer_demo_def)
  ultimately show "settled demo_env (JStr ''s'') timer_demo" by (simp add: settled_def live_def) (simp add: timer_demo_def)
  show "cf_commitValidator (qe_engine demo_env) = None" by (rule demo_facts(1))
qed

definition timer_demo_spec :: timer_spec where
  "timer_demo_spec = \<lparr>ts_timerID = JStr ''t'', ts_prompt = JStr ''look'', ts_rule = every_rule 15 ''minute'' 1792700000000 ''UTC'',
     ts_timezone = JStr ''UTC'', ts_endAt = Null, ts_limit = Null, ts_firedCount = JNum (Fin 0), ts_occurrence = JNum (Fin 1792701800000)\<rparr>"

lemma timer_demo_rule: "normalizeRecurringRule all_zones (every_rule 15 ''minute'' 1792700000000 ''UTC'') anchor
  = Some (every_rule 15 ''minute'' 1792700000000 ''UTC'')"
  by (rule every_rule_normal[where ms = 60000]) (simp_all add: UNIT_SPAN_MS_def all_zones_def)

text \<open>The old occurrence of the timer is replaced by the new one.\<close>

theorem arming_never_stacks_witness:
  "\<exists>w' f. armRecurringTimer demo_env all_zones (JStr ''new'') (JStr ''s'') (JStr ''bot'') timer_demo_spec Null timer_demo = (w', Inr (Some f))
     \<and> {k. \<exists>c. (k, c) \<in> set (sq_entries w') \<and> timer_target (JStr ''t'') c} = {JStr ''new''}
     \<and> {k. \<exists>c. (k, c) \<in> set (sq_entries timer_demo) \<and> timer_target (JStr ''t'') c} = {JStr ''old''}"
proof -
  have old: "{k. \<exists>c. (k, c) \<in> set (sq_entries timer_demo) \<and> timer_target (JStr ''t'') c} = {JStr ''old''}"
    by (simp add: timer_demo_def timer_target_def timer_demo_frame_def timer_demo_cont_def)
  have "\<exists>w' f. armRecurringTimer demo_env all_zones (JStr ''new'') (JStr ''s'') (JStr ''bot'') timer_demo_spec Null timer_demo = (w', Inr (Some f))
     \<and> {k. \<exists>c. (k, c) \<in> set (sq_entries w') \<and> timer_target (JStr ''t'') c} = {JStr ''new''}
     \<and> (\<forall>k c. k \<noteq> JStr ''new'' \<longrightarrow> \<not> timer_target (JStr ''t'') c \<longrightarrow> (k, c) \<in> set (sq_entries w') \<longleftrightarrow> (k, c) \<in> set (sq_entries timer_demo))"
    by (rule arming_never_stacks[OF timer_demo_settled(1,3), where due = 1792701800000000 and rule = "every_rule 15 ''minute'' 1792700000000 ''UTC''"])
      (simp_all add: timer_demo_spec_def timer_demo_settled(2) timer_demo_rule toScheduledAt_def)
  then show ?thesis
  proof (elim exE conjE)
    fix w' f assume "armRecurringTimer demo_env all_zones (JStr ''new'') (JStr ''s'') (JStr ''bot'') timer_demo_spec Null timer_demo = (w', Inr (Some f))"
      "{k. \<exists>c. (k, c) \<in> set (sq_entries w') \<and> timer_target (JStr ''t'') c} = {JStr ''new''}"
    then show ?thesis using old by (intro exI conjI)
  qed
qed

text \<open>
  With the microsecond clock of the runtime, a fired interval timer is re-armed a thousand times too early: the next occurrence
  of a timer with an interval of \<open>s\<close> milliseconds is due at most \<open>s\<close> microseconds after the clock's reading.
\<close>

theorem refire_within_interval_in_microseconds:
  assumes "settled env sid w" "cf_commitValidator (qe_engine env) = None" "truthy sid" "truthy newID" "plain_id w newID"
    and "interval_cont cont t n unit a tz" "zd_valid zd tz" "map_of UNIT_SPAN_MS unit = Some ms" "nullish (pget cont ''endAt'')"
    and "js_Number (pget cont ''occurrence'') = Fin occ" "occ \<le> of_int m" "a \<le> m"
    and "ru_clock w = of_int m" "100000000000000 \<le> m"
    and "pget frame ''sessionID'' = sid" "pget frame ''continuation'' = cont"
  shows "\<exists>w' f due. rearmNextOccurrence env zd newID frame w = (w', Inr (Some f)) \<and> pget f ''scheduledAt'' = JNum (Fin (of_int due))
    \<and> m < due \<and> due \<le> m + int (ms * n)"
proof -
  obtain k where k: "nextOccurrence zd (pget cont ''rule'') (JNum (Fin (next_base (pget cont ''occurrence'') (of_int m))))
      (js_or (pget cont ''timezone'') Null) = Inr (Some (of_int (a + int (k * (ms * n)))))" "m < a + int (k * (ms * n))" "a + int (k * (ms * n)) \<le> m + int (ms * n)"
    "normalizeRecurringRule zd (pget cont ''rule'') (js_nc (pget (pget cont ''rule'') ''anchorAt'') (now_value w)) = Some (pget cont ''rule'')"
    by (rule rearm_occurrence[OF assms(6-8,10,12,11), where anchor = "js_nc (pget (pget cont ''rule'') ''anchorAt'') (now_value w)"])
  define due where "due = a + int (k * (ms * n))"
  note k = k[folded due_def]
  have "is_obj cont" using assms(6) by (cases cont) (auto simp: interval_cont_def)
  then have cont: "js_or cont (JObj []) = cont" by (cases cont) (simp_all add: js_or_def)
  have c: "pget cont ''timerID'' = JStr t" "t \<noteq> []" "nullish (pget cont ''limit'')" using assms(6) by (simp_all add: interval_cont_def)
  let ?fc = "JNum (num_succ (js_Number (js_nc (pget cont ''firedCount'') (JNum (Fin 0)))))"
  let ?spec = "\<lparr>ts_timerID = pget cont ''timerID'', ts_prompt = pget cont ''prompt'', ts_rule = pget cont ''rule'',
                      ts_timezone = pget cont ''timezone'', ts_endAt = or_null (pget cont ''endAt''), ts_limit = or_null (pget cont ''limit''),
                      ts_firedCount = ?fc, ts_occurrence = JNum (Fin (of_int due))\<rparr>"
  have "(of_int 100000000000000 :: rat) \<le> of_int due" unfolding of_int_le_iff using assms(14) k(2) by linarith
  then have big: "(100000000000000 :: rat) \<le> of_int due" by simp
  then have sched: "toScheduledAt (ts_occurrence ?spec) = Some (of_int due)" by (simp add: toScheduledAt_def)
  have rule: "normalizeRecurringRule zd (ts_rule ?spec) (js_nc (pget (ts_rule ?spec) ''anchorAt'') (now_value w)) = Some (pget cont ''rule'')"
    using k(4) by simp
  have tid: "ts_timerID ?spec = JStr t" using c(1) by simp
  have pos: "(0 :: rat) < of_int due" using big by linarith
  obtain w' f where arm: "armRecurringTimer env zd newID sid (pget frame ''targetAgentID'') ?spec (now_value w) w = (w', Inr (Some (JObj f)))"
    "oget f ''scheduledAt'' = JNum (Fin (of_int due))"
    by (rule armed_timer[OF assms(1-3) tid c(2) assms(4,5) rule sched pos, where target = "pget frame ''targetAgentID''"]) blast
  have recur: "shouldRecur (pget cont ''endAt'') (pget cont ''limit'') ?fc (Some (of_int due)) (now_value w)"
    using assms(9,13) c(3) k(2) by (simp add: shouldRecur_def now_value_def)
  have "rearmNextOccurrence env zd newID frame w = (w', Inr (Some (JObj f)))"
    using arm(1) recur k(1) by (simp add: rearmNextOccurrence_def Let_def assms(13,15,16) cont)
  with arm(2) k(2,3) show ?thesis by (intro exI[of _ w'] exI[of _ "JObj f"] exI[of _ due]) simp
qed

text \<open>A quarter-hour timer fires again within 0.9 seconds.\<close>

theorem refire_within_interval_in_microseconds_witness:
  "\<exists>w' f due. rearmNextOccurrence demo_env all_zones (JStr ''new'') (timer_demo_frame ''old'') timer_demo = (w', Inr (Some f))
     \<and> pget f ''scheduledAt'' = JNum (Fin (of_int due)) \<and> 1792700900000000 < due \<and> due \<le> 1792700900000000 + 900000"
proof -
  have cont: "interval_cont timer_demo_cont ''t'' 15 ''minute'' 1792700000000 ''UTC''"
    by (simp add: interval_cont_def timer_demo_cont_def)
  have "\<exists>w' f due. rearmNextOccurrence demo_env all_zones (JStr ''new'') (timer_demo_frame ''old'') timer_demo = (w', Inr (Some f))
     \<and> pget f ''scheduledAt'' = JNum (Fin (of_int due)) \<and> 1792700900000000 < due \<and> due \<le> 1792700900000000 + int (60000 * 15)"
    by (rule refire_within_interval_in_microseconds[OF timer_demo_settled(1,3) _ _ timer_demo_settled(2) cont, where occ = "1792700900000"])
      (simp_all add: all_zones_def UNIT_SPAN_MS_def timer_demo_cont_def timer_demo_def timer_demo_frame_def)
  then show ?thesis by simp
qed

text \<open>For the same reason a timer with an end, in milliseconds, is not re-armed at all after its first fire.\<close>

lemma bounded_timer_stops_after_one_fire:
  assumes "interval_cont cont t n unit a tz" "zd_valid zd tz" "map_of UNIT_SPAN_MS unit = Some ms"
    and "pget cont ''endAt'' = JNum (Fin e)" "e < of_int m"
    and "js_Number (pget cont ''occurrence'') = Fin occ" "occ \<le> of_int m" "a \<le> m" "ru_clock w = of_int m"
    and "pget frame ''continuation'' = cont"
  shows "rearmNextOccurrence env zd newID frame w = (w, Inr None)"
proof -
  obtain k where k: "nextOccurrence zd (pget cont ''rule'') (JNum (Fin (next_base (pget cont ''occurrence'') (of_int m))))
      (js_or (pget cont ''timezone'') Null) = Inr (Some (of_int (a + int (k * (ms * n)))))" "m < a + int (k * (ms * n))"
    by (rule rearm_occurrence[OF assms(1-3,6,8,7), where anchor = Null])
  define due where "due = a + int (k * (ms * n))"
  have "is_obj cont" using assms(1) by (cases cont) (auto simp: interval_cont_def)
  then have cont: "js_or cont (JObj []) = cont" by (cases cont) (simp_all add: js_or_def)
  have "e < of_int due" using assms(5) k(2)[folded due_def] by (meson less_trans of_int_less_iff)
  then have "\<not> shouldRecur (pget cont ''endAt'') l f (Some (of_int due)) w'" for l f w'
    using assms(4) by (simp add: shouldRecur_def)
  then show ?thesis using k(1)[folded due_def] by (simp add: rearmNextOccurrence_def Let_def assms(9,10) cont)
qed

end
