(* ===== verification/QuestionDoc.thy ===== *)
theory QuestionDoc
  imports JSValue
begin

text \<open>
  The documents of questions an agent asks its user: the field normalizers of \<open>src/core/questions/question-fields.mjs\<close>
  and the document layer \<open>question-doc.mjs\<close>. A normalized document is the record \<open>question\<close>; \<open>question_obj\<close> is the
  object the store writes for it. A field that is not read back is lost at the next write, so the two are shown to be
  inverse on everything the store keeps.
\<close>

section \<open>Fields\<close>

definition DEFAULT_ANSWER_SOURCE :: string where
  "DEFAULT_ANSWER_SOURCE = ''default''"

definition USER_ANSWER_SOURCE :: string where
  "USER_ANSWER_SOURCE = ''user''"

definition AGENT_ANSWER_SOURCE :: string where
  "AGENT_ANSWER_SOURCE = ''agent''"

definition NO_RESPONSE_ANSWER_TEXT :: string where
  "NO_RESPONSE_ANSWER_TEXT = ''<User chose not to respond>''"

definition normalizeOptionalString :: "jsval \<Rightarrow> string" where
  "normalizeOptionalString v = (if nullish v then [] else js_trim (js_String v))"

text \<open>\<open>normalizeOptionalString(v) || null\<close>.\<close>

definition optional_string :: "jsval \<Rightarrow> string option" where
  "optional_string v = (let s = normalizeOptionalString v in if s = [] then None else Some s)"

datatype revision_intent = IntentChange | IntentConfirm

definition normalizeRevisionIntent :: "jsval \<Rightarrow> revision_intent" where
  "normalizeRevisionIntent v = (if toLowerCase (normalizeOptionalString v) = ''confirm'' then IntentConfirm else IntentChange)"

fun num_floor :: "jsnum \<Rightarrow> int option" where
  "num_floor (Fin q) = (if q < 0 then None else Some \<lfloor>q\<rfloor>)"
| "num_floor _ = None"

definition normalizeTimeoutMs :: "jsval \<Rightarrow> js_error + int option" where
  "normalizeTimeoutMs v =
     (if nullish v \<or> v = JStr [] then Inr None
      else case num_floor (js_Number v) of None \<Rightarrow> Inl (TypeError ''timeout must be a non-negative number'') | Some i \<Rightarrow> Inr (Some i))"

record context_ref =
  cr_type :: string
  cr_id :: string
  cr_label :: "string option"
  cr_sessionID :: "string option"
  cr_frameID :: "string option"
  cr_path :: "string option"

definition normalize_ref :: "jsval \<Rightarrow> context_ref option" where
  "normalize_ref r =
     (if normalizeOptionalString (pget r ''type'') = [] \<or> normalizeOptionalString (pget r ''id'') = [] then None
      else Some \<lparr>cr_type = normalizeOptionalString (pget r ''type''), cr_id = normalizeOptionalString (pget r ''id''),
             cr_label = optional_string (pget r ''label''), cr_sessionID = optional_string (pget r ''sessionID''),
             cr_frameID = optional_string (pget r ''frameID''), cr_path = optional_string (pget r ''path'')\<rparr>)"

definition normalizeContextRefs :: "jsval \<Rightarrow> context_ref list" where
  "normalizeContextRefs v = List.map_filter normalize_ref (arr_of v)"

definition normalizeQuestionText :: "jsval \<Rightarrow> js_error + string" where
  "normalizeQuestionText v =
     (case v of JStr s \<Rightarrow> if js_trim s = [] then Inl (TypeError ''question text must be a non-empty string'') else Inr (js_trim s)
      | _ \<Rightarrow> Inl (TypeError ''question text must be a non-empty string''))"

definition normalizeAnswerText :: "jsval \<Rightarrow> js_error + string" where
  "normalizeAnswerText v =
     (case v of JStr s \<Rightarrow> if js_trim s = [] then Inl (TypeError ''answer must be a non-empty string'') else Inr (js_trim s)
      | _ \<Rightarrow> Inl (TypeError ''answer must be a non-empty string''))"

datatype question_priority = LowPriority | NormalPriority | HighPriority

fun priority_text :: "question_priority \<Rightarrow> string" where
  "priority_text LowPriority = ''low''"
| "priority_text NormalPriority = ''normal''"
| "priority_text HighPriority = ''high''"

definition priority_of :: "string \<Rightarrow> question_priority option" where
  "priority_of s = (if s = ''low'' then Some LowPriority else if s = ''normal'' then Some NormalPriority
     else if s = ''high'' then Some HighPriority else None)"

definition normalizePriority :: "jsval \<Rightarrow> js_error + question_priority" where
  "normalizePriority v =
     (let s = toLowerCase (normalizeOptionalString v)
      in if s = [] then Inr NormalPriority
         else case priority_of s of None \<Rightarrow> Inl (TypeError ''priority must be one of low, normal, high'') | Some p \<Rightarrow> Inr p)"

datatype question_mode = ModeWait | ModeContinue

fun mode_text :: "question_mode \<Rightarrow> string" where
  "mode_text ModeWait = ''wait''"
| "mode_text ModeContinue = ''continue''"

definition mode_of :: "string \<Rightarrow> question_mode option" where
  "mode_of s = (if s = ''wait'' then Some ModeWait else if s = ''continue'' then Some ModeContinue else None)"

definition normalizeMode :: "jsval \<Rightarrow> js_error + question_mode" where
  "normalizeMode v =
     (let s = toLowerCase (normalizeOptionalString v)
      in if s = [] then Inr ModeWait
         else case mode_of s of None \<Rightarrow> Inl (TypeError ''mode must be one of wait, continue'') | Some m \<Rightarrow> Inr m)"

definition normalizeWakeSuppressed :: "jsval \<Rightarrow> bool" where
  "normalizeWakeSuppressed v = (v = JBool True)"

section \<open>Documents\<close>

datatype question_status = StOpen | StAnswered | StDismissed | StUndeliverable

fun status_text :: "question_status \<Rightarrow> string" where
  "status_text StOpen = ''open''"
| "status_text StAnswered = ''answered''"
| "status_text StDismissed = ''dismissed''"
| "status_text StUndeliverable = ''undeliverable''"

definition status_of :: "jsval \<Rightarrow> question_status option" where
  "status_of v = (if v = JStr ''open'' then Some StOpen else if v = JStr ''answered'' then Some StAnswered
     else if v = JStr ''dismissed'' then Some StDismissed else if v = JStr ''undeliverable'' then Some StUndeliverable else None)"

definition TERMINAL_STATUSES :: "question_status list" where
  "TERMINAL_STATUSES = [StAnswered, StDismissed, StUndeliverable]"

record question =
  qu_id :: string
  qu_groupID :: "string option"
  qu_index :: int
  qu_status :: question_status
  qu_mode :: question_mode
  qu_sessionID :: "string option"
  qu_agentID :: "string option"
  qu_interactionID :: "string option"
  qu_frameID :: "string option"
  qu_toolCallFrameID :: "string option"
  qu_toolOutputID :: "string option"
  qu_todoIDs :: "string list"
  qu_focusAtAsk :: "string option"
  qu_contextRefs :: "context_ref list"
  qu_text :: string
  qu_priority :: question_priority
  qu_answer :: "string option"
  qu_defaultAnswer :: "string option"
  qu_defaultTimeoutMs :: "int option"
  qu_defaultDueAt :: "jsnum option"
  qu_answerSource :: "string option"
  qu_supersededDefaultAnswer :: "string option"
  qu_supersededDefaultAt :: "jsnum option"
  qu_revisedAt :: "jsnum option"
  qu_acknowledgedAt :: "jsnum option"
  qu_wakeSuppressed :: bool
  qu_answeredAt :: jsval
  qu_answeredClock :: jsval
  qu_answeredByUserID :: "string option"
  qu_answeredByAgentID :: "string option"
  qu_answerFrameID :: "string option"
  qu_dismissalReason :: "string option"
  qu_deliveryAttempts :: int
  qu_deliveryLastReason :: "string option"
  qu_nextDeliveryAt :: "jsnum option"
  qu_askedAt :: jsval
  qu_askedClock :: jsval
  qu_createdAt :: jsval
  qu_updatedAt :: jsval
  qu_readAt :: jsval
  qu_deleted :: bool


definition opt_default :: "jsval \<Rightarrow> int \<Rightarrow> int" where
  "opt_default v d = (case v of JNum n \<Rightarrow> if num_is_integer n then (case n of Fin q \<Rightarrow> \<lfloor>q\<rfloor> | _ \<Rightarrow> d) else d | _ \<Rightarrow> d)"

definition opt_number :: "jsval \<Rightarrow> jsnum option" where
  "opt_number v = (if nullish v then None else Some (js_Number v))"

definition str_or_null :: "jsval \<Rightarrow> string option" where
  "str_or_null v = (case v of JStr s \<Rightarrow> Some s | _ \<Rightarrow> None)"

definition read_mode :: "jsval \<Rightarrow> question_mode" where
  "read_mode v = (if v = JStr ''continue'' then ModeContinue else ModeWait)"

text \<open>The fields of a readable document; the errors are those of the priority and of the timeout.\<close>

definition read_question :: "jsobj \<Rightarrow> string \<Rightarrow> string \<Rightarrow> question_status \<Rightarrow> js_error + question" where
  "read_question d qid qtext status =
     and_then (normalizePriority (oget d ''priority'')) (\<lambda>priority.
     and_then (normalizeTimeoutMs (oget d ''defaultTimeoutMs'')) (\<lambda>timeoutMs.
     Inr \<lparr>qu_id = js_trim qid,
       qu_groupID = optional_string (oget d ''groupID''), qu_index = opt_default (oget d ''index'') 1, qu_status = status,
       qu_mode = read_mode (oget d ''mode''), qu_sessionID = optional_string (oget d ''sessionID''),
       qu_agentID = optional_string (oget d ''agentID''), qu_interactionID = optional_string (oget d ''interactionID''),
       qu_frameID = optional_string (oget d ''frameID''), qu_toolCallFrameID = optional_string (oget d ''toolCallFrameID''),
       qu_toolOutputID = optional_string (oget d ''toolOutputID''), qu_todoIDs = map js_String (arr_of (oget d ''todoIDs'')),
       qu_focusAtAsk = optional_string (oget d ''focusAtAsk''), qu_contextRefs = normalizeContextRefs (oget d ''contextRefs''),
       qu_text = js_trim qtext, qu_priority = priority, qu_answer = str_or_null (oget d ''answer''),
       qu_defaultAnswer = optional_string (oget d ''defaultAnswer''), qu_defaultTimeoutMs = timeoutMs,
       qu_defaultDueAt = opt_number (oget d ''defaultDueAt''), qu_answerSource = optional_string (oget d ''answerSource''),
       qu_supersededDefaultAnswer = optional_string (oget d ''supersededDefaultAnswer''),
       qu_supersededDefaultAt = opt_number (oget d ''supersededDefaultAt''), qu_revisedAt = opt_number (oget d ''revisedAt''),
       qu_acknowledgedAt = opt_number (oget d ''acknowledgedAt''), qu_wakeSuppressed = normalizeWakeSuppressed (oget d ''wakeSuppressed''),
       qu_answeredAt = js_or (oget d ''answeredAt'') Null, qu_answeredClock = js_or (oget d ''answeredClock'') Null,
       qu_answeredByUserID = optional_string (oget d ''answeredByUserID''),
       qu_answeredByAgentID = optional_string (oget d ''answeredByAgentID''),
       qu_answerFrameID = optional_string (oget d ''answerFrameID''), qu_dismissalReason = optional_string (oget d ''dismissalReason''),
       qu_deliveryAttempts = opt_default (oget d ''deliveryAttempts'') 0,
       qu_deliveryLastReason = optional_string (oget d ''deliveryLastReason''), qu_nextDeliveryAt = opt_number (oget d ''nextDeliveryAt''),
       qu_askedAt = js_or (oget d ''askedAt'') (js_or (oget d ''createdAt'') (JNum (Fin 0))),
       qu_askedClock = js_or (oget d ''askedClock'') Null,
       qu_createdAt = js_or (oget d ''createdAt'') (js_or (oget d ''askedAt'') (JNum (Fin 0))),
       qu_updatedAt = js_or (oget d ''updatedAt'') (js_or (oget d ''createdAt'') (JNum (Fin 0))),
       qu_readAt = js_or (oget d ''readAt'') Null, qu_deleted = (oget d ''deleted'' = JBool True)\<rparr>))"

definition normalizeQuestionDoc :: "jsval \<Rightarrow> js_error + question option" where
  "normalizeQuestionDoc v =
     (case v of
        JObj d \<Rightarrow>
          (case (oget d ''id'', oget d ''text'', status_of (oget d ''status'')) of
             (JStr qid, JStr qtext, Some status) \<Rightarrow>
               if js_trim qid = [] \<or> js_trim qtext = [] then Inr None
               else and_then (read_question d qid qtext status) (\<lambda>q. Inr (Some q))
           | _ \<Rightarrow> Inr None)
      | _ \<Rightarrow> Inr None)"

text \<open>What the store writes.\<close>

fun str_val :: "string option \<Rightarrow> jsval" where
  "str_val None = Null"
| "str_val (Some s) = JStr s"

fun num_val :: "jsnum option \<Rightarrow> jsval" where
  "num_val None = Null"
| "num_val (Some n) = JNum n"

definition int_val :: "int \<Rightarrow> jsval" where
  "int_val i = JNum (Fin (of_int i))"

definition ref_obj :: "context_ref \<Rightarrow> jsval" where
  "ref_obj r = JObj [(''type'', JStr (cr_type r)), (''id'', JStr (cr_id r)), (''label'', str_val (cr_label r)),
     (''sessionID'', str_val (cr_sessionID r)), (''frameID'', str_val (cr_frameID r)), (''path'', str_val (cr_path r))]"

definition question_obj :: "question \<Rightarrow> jsobj" where
  "question_obj q =
     [(''id'', JStr (qu_id q)), (''groupID'', str_val (qu_groupID q)), (''index'', int_val (qu_index q)),
      (''status'', JStr (status_text (qu_status q))), (''mode'', JStr (mode_text (qu_mode q))), (''sessionID'', str_val (qu_sessionID q)),
      (''agentID'', str_val (qu_agentID q)), (''interactionID'', str_val (qu_interactionID q)), (''frameID'', str_val (qu_frameID q)),
      (''toolCallFrameID'', str_val (qu_toolCallFrameID q)), (''toolOutputID'', str_val (qu_toolOutputID q)),
      (''todoIDs'', JArr (map JStr (qu_todoIDs q))), (''focusAtAsk'', str_val (qu_focusAtAsk q)),
      (''contextRefs'', JArr (map ref_obj (qu_contextRefs q))), (''text'', JStr (qu_text q)),
      (''priority'', JStr (priority_text (qu_priority q))), (''answer'', str_val (qu_answer q)),
      (''defaultAnswer'', str_val (qu_defaultAnswer q)),
      (''defaultTimeoutMs'', case qu_defaultTimeoutMs q of None \<Rightarrow> Null | Some i \<Rightarrow> int_val i),
      (''defaultDueAt'', num_val (qu_defaultDueAt q)), (''answerSource'', str_val (qu_answerSource q)),
      (''supersededDefaultAnswer'', str_val (qu_supersededDefaultAnswer q)),
      (''supersededDefaultAt'', num_val (qu_supersededDefaultAt q)), (''revisedAt'', num_val (qu_revisedAt q)),
      (''acknowledgedAt'', num_val (qu_acknowledgedAt q)), (''wakeSuppressed'', JBool (qu_wakeSuppressed q)),
      (''answeredAt'', qu_answeredAt q), (''answeredClock'', qu_answeredClock q),
      (''answeredByUserID'', str_val (qu_answeredByUserID q)), (''answeredByAgentID'', str_val (qu_answeredByAgentID q)),
      (''answerFrameID'', str_val (qu_answerFrameID q)), (''dismissalReason'', str_val (qu_dismissalReason q)),
      (''deliveryAttempts'', int_val (qu_deliveryAttempts q)), (''deliveryLastReason'', str_val (qu_deliveryLastReason q)),
      (''nextDeliveryAt'', num_val (qu_nextDeliveryAt q)), (''askedAt'', qu_askedAt q), (''askedClock'', qu_askedClock q),
      (''createdAt'', qu_createdAt q), (''updatedAt'', qu_updatedAt q), (''readAt'', qu_readAt q), (''deleted'', JBool (qu_deleted q))]"


section \<open>Documents are read back\<close>

definition nonblank :: "string \<Rightarrow> bool" where
  "nonblank s \<longleftrightarrow> s \<noteq> [] \<and> js_trim s = s"

abbreviation opt_nonblank :: "string option \<Rightarrow> bool" where
  "opt_nonblank x \<equiv> pred_option nonblank x"

definition kept :: "jsval \<Rightarrow> bool" where
  "kept v \<longleftrightarrow> v = Null \<or> truthy v"

definition ref_ok :: "context_ref \<Rightarrow> bool" where
  "ref_ok r \<longleftrightarrow> nonblank (cr_type r) \<and> nonblank (cr_id r) \<and> opt_nonblank (cr_label r) \<and> opt_nonblank (cr_sessionID r)
     \<and> opt_nonblank (cr_frameID r) \<and> opt_nonblank (cr_path r)"

definition question_ok :: "question \<Rightarrow> bool" where
  "question_ok q \<longleftrightarrow> nonblank (qu_id q) \<and> nonblank (qu_text q)
     \<and> opt_nonblank (qu_groupID q) \<and> opt_nonblank (qu_sessionID q) \<and> opt_nonblank (qu_agentID q) \<and> opt_nonblank (qu_interactionID q)
     \<and> opt_nonblank (qu_frameID q) \<and> opt_nonblank (qu_toolCallFrameID q) \<and> opt_nonblank (qu_toolOutputID q)
     \<and> opt_nonblank (qu_focusAtAsk q) \<and> list_all ref_ok (qu_contextRefs q) \<and> opt_nonblank (qu_defaultAnswer q)
     \<and> pred_option (\<lambda>i. 0 \<le> i) (qu_defaultTimeoutMs q) \<and> opt_nonblank (qu_answerSource q)
     \<and> opt_nonblank (qu_supersededDefaultAnswer q) \<and> kept (qu_answeredAt q) \<and> kept (qu_answeredClock q)
     \<and> opt_nonblank (qu_answeredByUserID q) \<and> opt_nonblank (qu_answeredByAgentID q) \<and> opt_nonblank (qu_answerFrameID q)
     \<and> opt_nonblank (qu_dismissalReason q) \<and> opt_nonblank (qu_deliveryLastReason q)
     \<and> truthy (qu_askedAt q) \<and> truthy (qu_createdAt q) \<and> truthy (qu_updatedAt q) \<and> kept (qu_askedClock q) \<and> kept (qu_readAt q)"

lemma kept_or [simp]: "kept v \<Longrightarrow> js_or v Null = v"
  by (auto simp: kept_def js_or_def)

lemma truthy_or [simp]: "truthy v \<Longrightarrow> js_or v w = v"
  by (simp add: js_or_def)

lemma read_str_val [simp]: "opt_nonblank x \<Longrightarrow> optional_string (str_val x) = x"
  by (cases x) (auto simp: optional_string_def normalizeOptionalString_def nonblank_def)

lemma read_str [simp]: "nonblank s \<Longrightarrow> normalizeOptionalString (JStr s) = s"
  by (simp add: normalizeOptionalString_def nonblank_def)

lemma read_num_val [simp]: "opt_number (num_val x) = x"
  by (cases x) (auto simp: opt_number_def)

lemma read_int_val [simp]: "opt_default (int_val i) d = i"
  by (simp add: opt_default_def int_val_def)

lemma read_status [simp]: "status_of (JStr (status_text st)) = Some st"
  by (cases st) (simp_all add: status_of_def)

lemma read_mode_text [simp]: "read_mode (JStr (mode_text m)) = m"
  by (cases m) (simp_all add: read_mode_def)

lemma read_priority [simp]: "normalizePriority (JStr (priority_text p)) = Inr p"
  by (cases p) (simp_all add: normalizePriority_def normalizeOptionalString_def priority_of_def toLowerCase_def lower_char_def js_trim_def js_space_def)

lemma read_timeout [simp]:
  "pred_option (\<lambda>i. 0 \<le> i) x \<Longrightarrow> normalizeTimeoutMs (case x of None \<Rightarrow> Null | Some i \<Rightarrow> int_val i) = Inr x"
  by (cases x) (auto simp: normalizeTimeoutMs_def int_val_def)

lemma read_answer [simp]: "str_or_null (str_val x) = x"
  by (cases x) (simp_all add: str_or_null_def)

lemma read_ref [simp]: "ref_ok r \<Longrightarrow> normalize_ref (ref_obj r) = Some r"
  by (simp add: normalize_ref_def ref_obj_def ref_ok_def) (simp add: nonblank_def)

lemma read_refs [simp]: "list_all ref_ok rs \<Longrightarrow> normalizeContextRefs (JArr (map ref_obj rs)) = rs"
  by (induction rs) (auto simp: normalizeContextRefs_def List.map_filter_simps)

lemma read_todos [simp]: "map js_String (arr_of (JArr (map JStr xs))) = xs"
  by (simp add: comp_def)

lemma question_gets:
  "oget (question_obj q) ''id'' = JStr (qu_id q)" "oget (question_obj q) ''groupID'' = str_val (qu_groupID q)"
  "oget (question_obj q) ''index'' = int_val (qu_index q)" "oget (question_obj q) ''status'' = JStr (status_text (qu_status q))"
  "oget (question_obj q) ''mode'' = JStr (mode_text (qu_mode q))" "oget (question_obj q) ''sessionID'' = str_val (qu_sessionID q)"
  "oget (question_obj q) ''agentID'' = str_val (qu_agentID q)" "oget (question_obj q) ''interactionID'' = str_val (qu_interactionID q)"
  "oget (question_obj q) ''frameID'' = str_val (qu_frameID q)" "oget (question_obj q) ''toolCallFrameID'' = str_val (qu_toolCallFrameID q)"
  "oget (question_obj q) ''toolOutputID'' = str_val (qu_toolOutputID q)" "oget (question_obj q) ''todoIDs'' = JArr (map JStr (qu_todoIDs q))"
  "oget (question_obj q) ''focusAtAsk'' = str_val (qu_focusAtAsk q)"
  "oget (question_obj q) ''contextRefs'' = JArr (map ref_obj (qu_contextRefs q))" "oget (question_obj q) ''text'' = JStr (qu_text q)"
  "oget (question_obj q) ''priority'' = JStr (priority_text (qu_priority q))" "oget (question_obj q) ''answer'' = str_val (qu_answer q)"
  "oget (question_obj q) ''defaultAnswer'' = str_val (qu_defaultAnswer q)"
  "oget (question_obj q) ''defaultTimeoutMs'' = (case qu_defaultTimeoutMs q of None \<Rightarrow> Null | Some i \<Rightarrow> int_val i)"
  "oget (question_obj q) ''defaultDueAt'' = num_val (qu_defaultDueAt q)" "oget (question_obj q) ''answerSource'' = str_val (qu_answerSource q)"
  "oget (question_obj q) ''supersededDefaultAnswer'' = str_val (qu_supersededDefaultAnswer q)"
  "oget (question_obj q) ''supersededDefaultAt'' = num_val (qu_supersededDefaultAt q)" "oget (question_obj q) ''revisedAt'' = num_val (qu_revisedAt q)"
  "oget (question_obj q) ''acknowledgedAt'' = num_val (qu_acknowledgedAt q)" "oget (question_obj q) ''wakeSuppressed'' = JBool (qu_wakeSuppressed q)"
  "oget (question_obj q) ''answeredAt'' = qu_answeredAt q" "oget (question_obj q) ''answeredClock'' = qu_answeredClock q"
  "oget (question_obj q) ''answeredByUserID'' = str_val (qu_answeredByUserID q)"
  "oget (question_obj q) ''answeredByAgentID'' = str_val (qu_answeredByAgentID q)"
  "oget (question_obj q) ''answerFrameID'' = str_val (qu_answerFrameID q)" "oget (question_obj q) ''dismissalReason'' = str_val (qu_dismissalReason q)"
  "oget (question_obj q) ''deliveryAttempts'' = int_val (qu_deliveryAttempts q)"
  "oget (question_obj q) ''deliveryLastReason'' = str_val (qu_deliveryLastReason q)"
  "oget (question_obj q) ''nextDeliveryAt'' = num_val (qu_nextDeliveryAt q)" "oget (question_obj q) ''askedAt'' = qu_askedAt q"
  "oget (question_obj q) ''askedClock'' = qu_askedClock q" "oget (question_obj q) ''createdAt'' = qu_createdAt q"
  "oget (question_obj q) ''updatedAt'' = qu_updatedAt q" "oget (question_obj q) ''readAt'' = qu_readAt q"
  "oget (question_obj q) ''deleted'' = JBool (qu_deleted q)"
  by (simp_all add: question_obj_def)

text \<open>The keys that are read; what a document holds beside them is ignored.\<close>

definition QUESTION_KEYS :: "string list" where
  "QUESTION_KEYS = [''id'', ''groupID'', ''index'', ''status'', ''mode'', ''sessionID'', ''agentID'', ''interactionID'', ''frameID'',
     ''toolCallFrameID'', ''toolOutputID'', ''todoIDs'', ''focusAtAsk'', ''contextRefs'', ''text'', ''priority'', ''answer'', ''defaultAnswer'',
     ''defaultTimeoutMs'', ''defaultDueAt'', ''answerSource'', ''supersededDefaultAnswer'', ''supersededDefaultAt'', ''revisedAt'',
     ''acknowledgedAt'', ''wakeSuppressed'', ''answeredAt'', ''answeredClock'', ''answeredByUserID'', ''answeredByAgentID'', ''answerFrameID'',
     ''dismissalReason'', ''deliveryAttempts'', ''deliveryLastReason'', ''nextDeliveryAt'', ''askedAt'', ''askedClock'', ''createdAt'',
     ''updatedAt'', ''readAt'', ''deleted'']"

theorem question_read_back:
  assumes q: "question_ok q" and d: "\<forall>k \<in> set QUESTION_KEYS. oget d k = oget (question_obj q) k"
  shows "normalizeQuestionDoc (JObj d) = Inr (Some q)"
proof -
  have g: "list_all (\<lambda>k. oget d k = oget (question_obj q) k) QUESTION_KEYS" using d by (simp add: list_all_iff)
  note g = g[unfolded QUESTION_KEYS_def list.pred_inject question_gets]
  have ids: "nonblank (qu_id q)" "nonblank (qu_text q)" using q by (simp_all add: question_ok_def)
  note ok = q[unfolded question_ok_def]
  have trimmed: "js_trim (qu_id q) = qu_id q" "js_trim (qu_text q) = qu_text q" using ids by (simp_all add: nonblank_def)
  have "read_question d (qu_id q) (qu_text q) (qu_status q) = Inr q"
    unfolding read_question_def
    by (simp only: g ok trimmed read_priority read_timeout and_then_simps read_str_val read_int_val read_mode_text read_num_val read_todos
        read_refs read_answer kept_or truthy_or normalizeWakeSuppressed_def jsval.inject simp_thms) (cases q, simp)
  moreover have "qu_id q \<noteq> []" "qu_text q \<noteq> []" using ids by (simp_all add: nonblank_def)
  ultimately show ?thesis by (simp add: normalizeQuestionDoc_def g trimmed)
qed

lemma optional_string_ok [simp]: "opt_nonblank (optional_string v)"
  by (simp add: optional_string_def normalizeOptionalString_def nonblank_def Let_def)

lemma normalize_ref_ok: "normalize_ref v = Some r \<Longrightarrow> ref_ok r"
  by (auto simp: normalize_ref_def ref_ok_def nonblank_def normalizeOptionalString_def split: if_splits)

lemma contextRefs_ok [simp]: "list_all ref_ok (normalizeContextRefs v)"
  by (induction "arr_of v" arbitrary: v)
    (auto simp: normalizeContextRefs_def list_all_iff List.map_filter_def dest: normalize_ref_ok)

lemma num_floor_nonneg: "num_floor n = Some i \<Longrightarrow> 0 \<le> i"
  by (cases n) (auto split: if_splits)

lemma timeout_ok: "normalizeTimeoutMs v = Inr x \<Longrightarrow> pred_option (\<lambda>i. 0 \<le> i) x"
  by (cases x) (auto simp: normalizeTimeoutMs_def dest: num_floor_nonneg split: if_splits option.splits)

lemma kept_js_or [simp]: "kept (js_or v Null)"
  by (simp add: kept_def js_or_def)

lemma read_question_ok:
  assumes "normalizeQuestionDoc v = Inr (Some q)" "truthy (qu_askedAt q)" "truthy now"
  shows "question_ok (q\<lparr>qu_updatedAt := now\<rparr>)"
proof -
  obtain d qid qtext st where d: "js_trim qid \<noteq> []" "js_trim qtext \<noteq> []" "read_question d qid qtext st = Inr q"
    using assms(1) by (auto simp: normalizeQuestionDoc_def and_then_Inr split: jsval.splits option.splits if_splits)
  obtain pr tm where p: "normalizePriority (oget d ''priority'') = Inr pr" "normalizeTimeoutMs (oget d ''defaultTimeoutMs'') = Inr tm"
    using d(3) unfolding read_question_def and_then_Inr by blast
  note q = d(3)[unfolded read_question_def p and_then_simps sum.inject, symmetric]
  have asked: "truthy (js_or (oget d ''askedAt'') (js_or (oget d ''createdAt'') (JNum (Fin 0))))" using assms(2) q by simp
  then have created: "truthy (js_or (oget d ''createdAt'') (js_or (oget d ''askedAt'') (JNum (Fin 0))))"
    by (auto simp: js_or_def split: if_splits)
  show ?thesis
    unfolding q question_ok_def using d(1,2) assms(3) timeout_ok[OF p(2)] asked created by (simp add: nonblank_def)
qed

section \<open>Summaries\<close>

text \<open>An entry of the index of open questions is an object, because an index may hold entries of an older form.\<close>

definition summarizeQuestion :: "question \<Rightarrow> jsobj" where
  "summarizeQuestion q =
     [(''id'', JStr (qu_id q)), (''groupID'', str_val (qu_groupID q)), (''index'', int_val (qu_index q)),
      (''status'', JStr (status_text (qu_status q))), (''mode'', JStr (mode_text (qu_mode q))), (''sessionID'', str_val (qu_sessionID q)),
      (''agentID'', str_val (qu_agentID q)), (''text'', JStr (qu_text q)), (''priority'', JStr (priority_text (qu_priority q))),
      (''askedAt'', qu_askedAt q), (''askedClock'', qu_askedClock q), (''readAt'', qu_readAt q),
      (''contextRefs'', JArr (map ref_obj (qu_contextRefs q))), (''defaultAnswer'', str_val (qu_defaultAnswer q)),
      (''defaultTimeoutMs'', case qu_defaultTimeoutMs q of None \<Rightarrow> Null | Some i \<Rightarrow> int_val i),
      (''defaultDueAt'', num_val (qu_defaultDueAt q)), (''answerSource'', str_val (qu_answerSource q)),
      (''supersededDefaultAnswer'', str_val (qu_supersededDefaultAnswer q))]"

lemma summary_gets [simp]:
  "oget (summarizeQuestion q) ''id'' = JStr (qu_id q)" "oget (summarizeQuestion q) ''status'' = JStr (status_text (qu_status q))"
  "oget (summarizeQuestion q) ''sessionID'' = str_val (qu_sessionID q)" "oget (summarizeQuestion q) ''agentID'' = str_val (qu_agentID q)"
  "oget (summarizeQuestion q) ''text'' = JStr (qu_text q)" "oget (summarizeQuestion q) ''askedAt'' = qu_askedAt q"
  "oget (summarizeQuestion q) ''readAt'' = qu_readAt q"
  by (simp_all add: summarizeQuestion_def)

text \<open>As a comparator for \<open>sort\<close>: a difference that is not a number does not order.\<close>

fun sort_le :: "jsnum \<Rightarrow> jsnum \<Rightarrow> bool" where
  "sort_le (Fin p) (Fin q) = (p \<le> q)"
| "sort_le PosInf (Fin _) = False"
| "sort_le (Fin _) NegInf = False"
| "sort_le PosInf NegInf = False"
| "sort_le _ _ = True"

definition asked_before :: "(string \<Rightarrow> string \<Rightarrow> int) \<Rightarrow> jsval \<times> string \<Rightarrow> jsval \<times> string \<Rightarrow> bool" where
  "asked_before lc l r = (if fst l = fst r then lc (snd l) (snd r) \<le> 0 else sort_le (js_Number (fst l)) (js_Number (fst r)))"

definition compareQuestions :: "(string \<Rightarrow> string \<Rightarrow> int) \<Rightarrow> question \<Rightarrow> question \<Rightarrow> bool" where
  "compareQuestions lc l r = asked_before lc (qu_askedAt l, qu_id l) (qu_askedAt r, qu_id r)"

definition compareSummaries :: "(string \<Rightarrow> string \<Rightarrow> int) \<Rightarrow> jsval \<Rightarrow> jsval \<Rightarrow> bool" where
  "compareSummaries lc l r = asked_before lc (pget l ''askedAt'', js_String (pget l ''id'')) (pget r ''askedAt'', js_String (pget r ''id''))"

section \<open>Asking and guards\<close>

datatype store_error = NotFound string | Conflict string | Thrown js_error

record asked_question =
  aq_text :: string
  aq_priority :: question_priority
  aq_defaultAnswer :: "string option"
  aq_timeoutMs :: "int option"
  aq_contextRefs :: "context_ref list"

definition MAX_QUESTIONS_PER_CALL :: nat where
  "MAX_QUESTIONS_PER_CALL = 25"

fun times_1000 :: "jsnum \<Rightarrow> jsnum" where
  "times_1000 (Fin q) = Fin (q * 1000)"
| "times_1000 n = n"

definition timeout_of :: "jsobj \<Rightarrow> jsval" where
  "timeout_of e = js_nc (oget e ''timeoutMs'') (js_nc (oget e ''timeout_ms'')
     (if nullish (oget e ''timeoutSeconds'') \<and> nullish (oget e ''timeout_seconds'') then Null
      else JNum (times_1000 (js_Number (js_nc (oget e ''timeoutSeconds'') (oget e ''timeout_seconds''))))))"

definition normalize_asked :: "nat \<Rightarrow> jsval \<Rightarrow> js_error + asked_question" where
  "normalize_asked index v =
     (case v of
        JObj e \<Rightarrow>
          if has_own e ''options'' then Inl (TypeError (''questions['' @ nat_digits index @ ''] must not carry options; answers are free-form''))
          else and_then (normalizeQuestionText (oget e ''text'')) (\<lambda>qtext.
               and_then (normalizePriority (oget e ''priority'')) (\<lambda>priority.
               and_then (normalizeTimeoutMs (timeout_of e)) (\<lambda>timeoutMs.
               Inr \<lparr>aq_text = qtext, aq_priority = priority,
                    aq_defaultAnswer = optional_string (js_nc (oget e ''defaultAnswer'') (oget e ''default_answer'')),
                    aq_timeoutMs = timeoutMs,
                    aq_contextRefs = normalizeContextRefs (js_nc (oget e ''contextRefs'') (oget e ''context_refs''))\<rparr>)))
      | _ \<Rightarrow> Inl (TypeError (''questions['' @ nat_digits index @ ''] must be an object'')))"

definition normalizeQuestionList :: "jsval \<Rightarrow> js_error + asked_question list" where
  "normalizeQuestionList v =
     (if arr_of v = [] then Inl (TypeError ''ask-user requires at least one question'')
      else if MAX_QUESTIONS_PER_CALL < length (arr_of v) then Inl (TypeError ''ask-user accepts at most 25 questions per call'')
      else try_map (\<lambda>(i, e). normalize_asked i e) (zip [0..<length (arr_of v)] (arr_of v)))"

definition assertCanMarkUndeliverable :: "question \<Rightarrow> store_error option" where
  "assertCanMarkUndeliverable q =
     (if qu_deleted q then Some (Conflict (''Question '' @ qu_id q @ '' was deleted; it cannot be marked undeliverable''))
      else if qu_status q = StUndeliverable then Some (Conflict (''Question '' @ qu_id q @ '' is already undeliverable''))
      else if qu_status q = StDismissed then Some (Conflict (''Question '' @ qu_id q @ '' was dismissed; it cannot be marked undeliverable''))
      else None)"

definition assertOpen :: "question \<Rightarrow> string \<Rightarrow> store_error option" where
  "assertOpen q action =
     (if qu_deleted q then Some (Conflict (''Question '' @ qu_id q @ '' was deleted; it cannot be '' @ action))
      else if qu_status q \<in> set TERMINAL_STATUSES
      then Some (Conflict (''Question '' @ qu_id q @ '' is already '' @ status_text (qu_status q) @ ''; it cannot be '' @ action))
      else None)"

definition normalizeRequiredString :: "jsval \<Rightarrow> string \<Rightarrow> js_error + string" where
  "normalizeRequiredString v fieldName =
     (case v of JStr s \<Rightarrow> if js_trim s = [] then Inl (TypeError (fieldName @ '' must be a non-empty string'')) else Inr (js_trim s)
      | _ \<Rightarrow> Inl (TypeError (fieldName @ '' must be a non-empty string'')))"

end
