(* ===== verification/QuestionDedupe.thy ===== *)
theory QuestionDedupe
  imports QuestionDoc SessionAncestry DocumentUtils
begin

text \<open>
  Look before you ask: \<open>src/core/questions/question-dedupe.mjs\<close>. An agent may ask only when it presents the digest of the
  questions that are pending in its session and the sessions below it, and none of its questions is among them. The hash is an
  argument; the typographic quotes of the source lie outside the characters modelled here.
\<close>

section \<open>The text key\<close>

fun collapse_spaces :: "bool \<Rightarrow> string \<Rightarrow> string" where
  "collapse_spaces in_run [] = []"
| "collapse_spaces in_run (c # cs) =
     (if js_space c then (if in_run then collapse_spaces True cs else CHR '' '' # collapse_spaces True cs)
      else c # collapse_spaces False cs)"

definition drop_end :: "(char \<Rightarrow> bool) \<Rightarrow> string \<Rightarrow> string" where
  "drop_end P s = rev (dropWhile P (rev s))"

definition quote_or_space :: "char \<Rightarrow> bool" where
  "quote_or_space c = (js_space c \<or> c \<in> {CHR 0x22, CHR 0x27, CHR 0x60})"

definition terminal_mark :: "char \<Rightarrow> bool" where
  "terminal_mark c = (c \<in> set ''.?!,;:'')"

definition questionTextKey :: "jsval \<Rightarrow> string" where
  "questionTextKey v =
     (case v of
        JStr s \<Rightarrow> toLowerCase (js_trim (drop_end terminal_mark (drop_end quote_or_space (dropWhile quote_or_space
                    (collapse_spaces False (js_trim s))))))
      | _ \<Rightarrow> [])"

section \<open>The digest\<close>

definition VISIBLE_QUESTION_STATUSES :: "jsval list" where
  "VISIBLE_QUESTION_STATUSES = [JStr ''open'']"

definition visible_row :: "jsval \<Rightarrow> bool" where
  "visible_row summary =
     (truthy (pget summary ''id'') \<and> js_or (pget summary ''status'') (JStr ''open'') \<in> set VISIBLE_QUESTION_STATUSES)"

definition row_fields :: "jsval \<Rightarrow> string list" where
  "row_fields summary =
     [js_String (pget summary ''id''), js_String (js_or (pget summary ''status'') (JStr ''open'')),
      js_String (js_or (pget summary ''sessionID'') (JStr [])), questionTextKey (pget summary ''text''),
      js_String (js_nc (pget summary ''askedAt'') (JStr []))]"

definition canonicalVisibleQuestions :: "jsval list \<Rightarrow> string list" where
  "canonicalVisibleQuestions summaries =
     sort_by (\<lambda>a b. \<not> str_less b a) (map (\<lambda>s. join_with [CHR 0x00] (row_fields s)) (filter visible_row summaries))"

definition digest_payload :: "jsval list \<Rightarrow> string" where
  "digest_payload summaries =
     (let canonical = canonicalVisibleQuestions summaries
      in if canonical = [] then [] else join_with [CHR 0x0A] canonical @ [CHR 0x0A])"

definition visibleQuestionDigest :: "(string \<Rightarrow> string) \<Rightarrow> jsval list \<Rightarrow> string" where
  "visibleQuestionDigest sha256 summaries = sha256 (digest_payload summaries)"

section \<open>The visible sessions\<close>

definition tree_child :: "(string \<times> string list) list \<Rightarrow> jsval \<Rightarrow> (string \<times> string list) list" where
  "tree_child childrenByParent session =
     (let k = trim_or_empty (pget session ''id''); parent = trim_or_empty (pget session ''parentSessionID'')
      in if k = [] \<or> parent = [] then childrenByParent
         else AList.update parent
                (case map_of childrenByParent parent of None \<Rightarrow> [k] | Some cs \<Rightarrow> cs @ [k]) childrenByParent)"

definition resolveVisibleSessionIDs :: "jsval \<Rightarrow> jsval list \<Rightarrow> string list" where
  "resolveVisibleSessionIDs rootSessionID sessions =
     (let origin = trim_or_empty rootSessionID
      in if origin = [] then [] else descendants_loop (foldl tree_child [] sessions) [origin] [origin])"

definition selectVisiblePendingQuestions :: "jsval list \<Rightarrow> string list \<Rightarrow> jsval list" where
  "selectVisiblePendingQuestions summaries sessionIDs =
     filter (\<lambda>s. truthy (pget s ''id'') \<and> js_or (pget s ''status'') (JStr ''open'') = JStr ''open''
       \<and> pget s ''sessionID'' \<in> JStr ` set sessionIDs) summaries"

section \<open>Duplicates and the gate\<close>

definition remember_key :: "(string \<times> jsval) list \<Rightarrow> jsval \<Rightarrow> (string \<times> jsval) list" where
  "remember_key seen summary =
     (let key = questionTextKey (pget summary ''text'')
      in if \<not> truthy (pget summary ''id'') \<or> key = [] \<or> map_of seen key \<noteq> None then seen else AList.update key summary seen)"

definition asked_text :: "jsval \<Rightarrow> jsval" where
  "asked_text q = (if is_str q then q else pget q ''text'')"

definition duplicate_of :: "(string \<times> jsval) list \<Rightarrow> nat \<times> jsval \<Rightarrow> jsobj option" where
  "duplicate_of seen iq =
     (case iq of (index, q) \<Rightarrow>
        (let key = questionTextKey (asked_text q)
         in if key = [] then None
            else case map_of seen key of None \<Rightarrow> None
              | Some existing \<Rightarrow> Some [(''index'', JNum (Fin (of_nat index))), (''text'', JStr (js_String (js_nc (asked_text q) (JStr [])))),
                  (''existingQuestionID'', pget existing ''id''), (''existingStatus'', js_or (pget existing ''status'') (JStr ''open'')),
                  (''existingAskedAt'', js_nc (pget existing ''askedAt'') Null)]))"

definition findDuplicateQuestions :: "jsval list \<Rightarrow> jsval list \<Rightarrow> jsobj list" where
  "findDuplicateQuestions summaries questions =
     List.map_filter (duplicate_of (foldl remember_key [] summaries)) (zip [0..<length questions] questions)"

definition hex_char :: "char \<Rightarrow> bool" where
  "hex_char c = (c \<in> set ''0123456789abcdef'')"

definition digest_pattern :: "string \<Rightarrow> bool" where
  "digest_pattern s = (length s = 64 \<and> list_all hex_char s)"

definition normalizeOptionalDigest :: "jsval \<Rightarrow> js_error + string option" where
  "normalizeOptionalDigest v =
     (if nullish v \<or> v = JStr [] then Inr None
      else case v of
             JStr s \<Rightarrow> let d = toLowerCase (js_trim s)
                       in if digest_pattern d then Inr (Some d)
                          else Inl (TypeError ''observedQuestionDigest must be a 64-character sha256 hex digest, as returned by question-list'')
           | _ \<Rightarrow> Inl (TypeError ''observedQuestionDigest must be a string''))"

text \<open>The reasons for which an ask is refused; the texts of the errors are left out.\<close>

datatype ask_refusal = MalformedDigest js_error | DigestRequired | SetChanged | Duplicates "jsobj list"

definition assertAskPrecondition :: "jsval \<Rightarrow> string \<Rightarrow> jsobj list \<Rightarrow> ask_refusal option" where
  "assertAskPrecondition expectedDigest actualDigest duplicates =
     (case normalizeOptionalDigest expectedDigest of
        Inl e \<Rightarrow> Some (MalformedDigest e)
      | Inr None \<Rightarrow> Some DigestRequired
      | Inr (Some provided) \<Rightarrow>
          if provided \<noteq> actualDigest then Some SetChanged
          else if duplicates \<noteq> [] then Some (Duplicates duplicates)
          else None)"

section \<open>Lemmas\<close>

lemma split_at_mark:
  assumes "c \<notin> set a" "c \<notin> set b" "a @ c # r = b @ c # r'"
  shows "a = b \<and> r = r'"
proof -
  have "takeWhile (\<lambda>x. x \<noteq> c) (a @ c # r) = a @ takeWhile (\<lambda>x. x \<noteq> c) (c # r)"
    "takeWhile (\<lambda>x. x \<noteq> c) (b @ c # r') = b @ takeWhile (\<lambda>x. x \<noteq> c) (c # r')"
    by (rule takeWhile_append2; use assms(1,2) in auto)+
  then have t: "takeWhile (\<lambda>x. x \<noteq> c) (a @ c # r) = a" "takeWhile (\<lambda>x. x \<noteq> c) (b @ c # r') = b" by simp_all
  then have "a = b" using assms(3) by metis
  with assms(3) show ?thesis by simp
qed

lemma join_Cons: "xs \<noteq> [] \<Longrightarrow> join_with sep (x # xs) = x @ sep @ join_with sep xs"
  by (cases xs) auto

lemma join_inj:
  "length xs = length ys \<Longrightarrow> list_all (\<lambda>s. c \<notin> set s) xs \<Longrightarrow> list_all (\<lambda>s. c \<notin> set s) ys \<Longrightarrow>
    join_with [c] xs = join_with [c] ys \<Longrightarrow> xs = ys"
proof (induction xs ys rule: list_induct2')
  case (4 x xs y ys)
  show ?case
  proof (cases "xs = []")
    case True
    then show ?thesis using 4 by simp
  next
    case False
    then have "ys \<noteq> []" using "4.prems"(1) by auto
    with False 4 split_at_mark[of c x y "join_with [c] xs" "join_with [c] ys"] show ?thesis by (simp add: join_Cons)
  qed
qed simp_all

lemma join_lines_inj:
  "list_all (\<lambda>s. c \<notin> set s) xs \<Longrightarrow> list_all (\<lambda>s. c \<notin> set s) ys \<Longrightarrow> xs \<noteq> [] \<Longrightarrow> ys \<noteq> [] \<Longrightarrow>
    join_with [c] xs = join_with [c] ys \<Longrightarrow> xs = ys"
proof (induction xs ys rule: list_induct2')
  case (4 x xs y ys)
  have free: "c \<notin> set x" "c \<notin> set y" using "4.prems" by simp_all
  show ?case
  proof (cases "xs = []"; cases "ys = []")
    assume "xs \<noteq> []" "ys \<noteq> []"
    with 4 free split_at_mark[of c x y "join_with [c] xs" "join_with [c] ys"] show ?thesis by (simp add: join_Cons)
  next
    assume e: "xs = []" "ys \<noteq> []"
    then have "x = y @ c # join_with [c] ys" using "4.prems"(5) by (simp add: join_Cons)
    with free show ?thesis by simp
  next
    assume e: "xs \<noteq> []" "ys = []"
    then have "y = x @ c # join_with [c] xs" using "4.prems"(5) by (simp add: join_Cons)
    with free show ?thesis by simp
  qed (use "4.prems" in simp)
qed simp_all

text \<open>The order of the rows is the order of JavaScript's strings, in which a multiset of rows has one sorted list.\<close>

abbreviation row_le :: "string \<Rightarrow> string \<Rightarrow> bool" where
  "row_le a b \<equiv> \<not> str_less b a"

lemma str_less_trans: "str_less a b \<Longrightarrow> str_less b c \<Longrightarrow> str_less a c"
proof (induction a b arbitrary: c rule: str_less.induct)
  case (3 x s y t)
  then show ?case by (cases c) auto
qed (auto elim: str_less.elims)

lemma str_less_total: "str_less a b \<or> a = b \<or> str_less b a"
  by (induction a b rule: str_less.induct) (auto simp: unit_of_inj dest: linorder_neqE_nat, case_tac s, auto simp: unit_of_inj[symmetric])

lemma row_le_total: "total_preorder row_le"
  unfolding total_preorder_def by (metis str_less_irrefl str_less_total str_less_trans)

lemma sorted_rows_unique:
  "sorted_wrt row_le xs \<Longrightarrow> sorted_wrt row_le ys \<Longrightarrow> mset xs = mset ys \<Longrightarrow> xs = ys"
proof (induction xs arbitrary: ys)
  case (Cons x xs)
  obtain y ys' where ys: "ys = y # ys'" using Cons.prems(3) by (cases ys) auto
  have "set (x # xs) = set (y # ys')" using Cons.prems(3) ys by (metis mset_eq_setD)
  then have "row_le x y" "row_le y x" using Cons.prems(1,2) ys by auto
  then have "x = y" using str_less_total by blast
  then show ?case using Cons ys by auto
qed simp

lemma sort_rows_eq_iff: "sort_by row_le xs = sort_by row_le ys \<longleftrightarrow> mset xs = mset ys"
  using sorted_rows_unique[OF sorted_sort_by[OF row_le_total] sorted_sort_by[OF row_le_total]] by (metis mset_sort_by)

text \<open>A summary whose fields hold neither of the two separators.\<close>

definition separable :: "jsval \<Rightarrow> bool" where
  "separable s \<longleftrightarrow> list_all (\<lambda>f. CHR 0x00 \<notin> set f \<and> CHR 0x0A \<notin> set f) (row_fields s)"

lemma rows_eq_iff:
  assumes "separable s" "separable t"
  shows "join_with [CHR 0x00] (row_fields s) = join_with [CHR 0x00] (row_fields t) \<longleftrightarrow> row_fields s = row_fields t"
  using join_inj[of "row_fields s" "row_fields t" "CHR 0x00"] assms
  by (auto simp: separable_def list_all_iff) (simp add: row_fields_def)

lemma row_no_newline: "separable s \<Longrightarrow> CHR 0x0A \<notin> set (join_with [CHR 0x00] (row_fields s))"
  by (simp add: separable_def row_fields_def)

lemma mset_map_eq:
  assumes "\<forall>x \<in> set xs \<union> set ys. \<forall>y \<in> set xs \<union> set ys. f x = f y \<longleftrightarrow> g x = g y"
  shows "mset (map f xs) = mset (map f ys) \<longleftrightarrow> mset (map g xs) = mset (map g ys)"
proof -
  define h where "h z = g (SOME x. x \<in> set xs \<union> set ys \<and> f x = z)" for z
  define k where "k z = f (SOME x. x \<in> set xs \<union> set ys \<and> g x = z)" for z
  have h: "h (f x) = g x" and k: "k (g x) = f x" if "x \<in> set xs \<union> set ys" for x
    unfolding h_def k_def using that assms by (metis (mono_tags, lifting) someI_ex)+
  have "image_mset h (mset (map f zs)) = mset (map g zs)" "image_mset k (mset (map g zs)) = mset (map f zs)" if "set zs \<subseteq> set xs \<union> set ys" for zs
    using h k that by (auto simp flip: mset_map simp: subset_iff intro!: arg_cong[where f = mset] map_cong)
  from this[of xs] this[of ys] show ?thesis by (metis Un_upper1 Un_upper2)
qed

lemma payload_eq_iff:
  assumes "list_all separable xs" "list_all separable ys"
  shows "digest_payload xs = digest_payload ys
    \<longleftrightarrow> mset (map row_fields (filter visible_row xs)) = mset (map row_fields (filter visible_row ys))"
proof -
  let ?j = "\<lambda>s. join_with [CHR 0x00] (row_fields s)"
  let ?c = "canonicalVisibleQuestions"
  have free: "list_all (\<lambda>r. CHR 0x0A \<notin> set r) (?c zs)" if "list_all separable zs" for zs
    using that row_no_newline by (auto simp: canonicalVisibleQuestions_def list_all_iff)
  have "digest_payload xs = digest_payload ys \<longleftrightarrow> ?c xs = ?c ys"
    using join_lines_inj[OF free[OF assms(1)] free[OF assms(2)]] by (auto simp: digest_payload_def Let_def)
  also have "\<dots> \<longleftrightarrow> mset (map ?j (filter visible_row xs)) = mset (map ?j (filter visible_row ys))"
    unfolding canonicalVisibleQuestions_def by (rule sort_rows_eq_iff)
  also have "\<dots> \<longleftrightarrow> mset (map row_fields (filter visible_row xs)) = mset (map row_fields (filter visible_row ys))"
    using assms rows_eq_iff by (intro mset_map_eq) (auto simp: list_all_iff)
  finally show ?thesis .
qed

lemma remembered:
  "map_of (foldl remember_key seen xs) key \<noteq> None
    \<longleftrightarrow> map_of seen key \<noteq> None \<or> key \<noteq> [] \<and> (\<exists>s \<in> set xs. truthy (pget s ''id'') \<and> questionTextKey (pget s ''text'') = key)"
  by (induction xs arbitrary: seen) (auto simp: remember_key_def Let_def alist_simps)

lemma no_duplicates_iff:
  "findDuplicateQuestions summaries questions = []
    \<longleftrightarrow> (\<forall>q \<in> set questions. \<forall>s \<in> set summaries. truthy (pget s ''id'') \<longrightarrow> questionTextKey (asked_text q) \<noteq> []
           \<longrightarrow> questionTextKey (pget s ''text'') \<noteq> questionTextKey (asked_text q))"
proof -
  have "findDuplicateQuestions summaries questions = []
      \<longleftrightarrow> (\<forall>iq \<in> set (zip [0..<length questions] questions). duplicate_of (foldl remember_key [] summaries) iq = None)"
    by (simp add: findDuplicateQuestions_def List.map_filter_def filter_empty_conv)
  also have "\<dots> \<longleftrightarrow> (\<forall>q \<in> set questions. duplicate_of (foldl remember_key [] summaries) (0, q) = None)"
  proof -
    have "duplicate_of m (i, q) = None \<longleftrightarrow> duplicate_of m (0, q) = None" for m i q
      by (auto simp: duplicate_of_def Let_def split: option.splits)
    moreover have "snd ` set (zip [0..<length questions] questions) = set questions" by (metis length_map map_nth map_snd_zip length_upt minus_nat.diff_0 list.set_map)
    ultimately show ?thesis by (metis (no_types, lifting) imageE image_eqI prod.collapse)
  qed
  also have "\<dots> \<longleftrightarrow> (\<forall>q \<in> set questions. questionTextKey (asked_text q) = []
      \<or> map_of (foldl remember_key [] summaries) (questionTextKey (asked_text q)) = None)"
    by (auto simp: duplicate_of_def Let_def split: option.splits)
  also have "\<dots> \<longleftrightarrow> (\<forall>q \<in> set questions. \<forall>s \<in> set summaries. truthy (pget s ''id'') \<longrightarrow> questionTextKey (asked_text q) \<noteq> []
           \<longrightarrow> questionTextKey (pget s ''text'') \<noteq> questionTextKey (asked_text q))"
  proof -
    have "map_of (foldl remember_key [] summaries) key = None
        \<longleftrightarrow> key = [] \<or> (\<forall>s \<in> set summaries. truthy (pget s ''id'') \<longrightarrow> questionTextKey (pget s ''text'') \<noteq> key)" for key
      using remembered[of "[]" summaries key] by auto
    then show ?thesis by auto
  qed
  finally show ?thesis .
qed

lemma hex_not_space: "hex_char c \<Longrightarrow> \<not> js_space c" and hex_lower: "hex_char c \<Longrightarrow> lower_char c = c"
  by (auto simp: hex_char_def js_space_def lower_char_def)

lemma digest_normal: "digest_pattern d \<Longrightarrow> normalizeOptionalDigest (JStr d) = Inr (Some d)"
proof -
  assume d: "digest_pattern d"
  have hex: "hex_char c" if "c \<in> set d" for c using d that by (auto simp: digest_pattern_def list_all_iff)
  have "d \<noteq> []" using d by (auto simp: digest_pattern_def)
  then have "\<not> js_space (hd d)" "\<not> js_space (hd (rev d))" using hex hex_not_space by (simp_all add: hd_rev)
  then have "js_trim d = d" using \<open>d \<noteq> []\<close> by (simp add: js_trim_def dropWhile_idem_hd)
  moreover have "toLowerCase d = d" using hex hex_lower unfolding toLowerCase_def by (intro map_idI) blast
  ultimately show ?thesis using d \<open>d \<noteq> []\<close> by (simp add: normalizeOptionalDigest_def)
qed

text \<open>The sessions in view are those of \<open>shared/session-ancestry.mjs\<close>, as long as no session spells its parent only the other way.\<close>

lemma visible_sessions_are_descendants:
  assumes "\<forall>s \<in> set sessions. trim_or_empty (pget s ''parentSessionID'') = [] \<longrightarrow> trim_or_empty (pget s ''parentSessionId'') = []"
  shows "resolveVisibleSessionIDs origin sessions = descendantSessionIDs origin (ArrSource sessions)"
proof -
  have "tree_child m s = add_child m s" if "s \<in> set sessions" for m s
    using assms that by (cases "nullish s") (auto simp: tree_child_def add_child_def sessionParentID_def normalizeSessionID_def Let_def elim: nullish.elims)
  then have "foldl tree_child m sessions = foldl add_child m sessions" for m
    by (intro foldl_cong) auto
  then show ?thesis by (simp add: resolveVisibleSessionIDs_def descendantSessionIDs_def normalizeSessionID_def Let_def)
qed

lemma alias_child_not_visible:
  "resolveVisibleSessionIDs (JStr ''r'') [JObj [(''id'', JStr ''c''), (''parentSessionId'', JStr ''r'')]] = [''r'']"
  "descendantSessionIDs (JStr ''r'') (ArrSource [JObj [(''id'', JStr ''c''), (''parentSessionId'', JStr ''r'')]]) = [''r'', ''c'']"
  by code_simp+

text \<open>A closing quote before the final period stays in the key, so the quoted sentence is another question.\<close>

lemma quote_before_period_kept:
  "questionTextKey (JStr ''\"Ship it\".'') = ''ship it\"''" "questionTextKey (JStr ''Ship it.'') = ''ship it''"
  by code_simp+

section \<open>Property\<close>

text \<open>
  C11: Look before you ask. An ask that presents the digest of the questions its agent listed is accepted exactly when the pending
  questions are still the listed ones, row by row, and no question it proposes repeats the text of one of them; for a hash
  without a collision on the two sets and fields without the separators NUL and newline.
\<close>

theorem ask_accepted_iff_view_current:
  assumes "list_all separable listed" "list_all separable pending"
    and "\<forall>s. digest_pattern (sha256 s)"
    and "sha256 (digest_payload listed) = sha256 (digest_payload pending) \<longrightarrow> digest_payload listed = digest_payload pending"
  shows "assertAskPrecondition (JStr (visibleQuestionDigest sha256 listed)) (visibleQuestionDigest sha256 pending)
        (findDuplicateQuestions pending questions) = None
    \<longleftrightarrow> mset (map row_fields (filter visible_row listed)) = mset (map row_fields (filter visible_row pending))
      \<and> (\<forall>q \<in> set questions. \<forall>s \<in> set pending. truthy (pget s ''id'') \<longrightarrow> questionTextKey (asked_text q) \<noteq> []
           \<longrightarrow> questionTextKey (pget s ''text'') \<noteq> questionTextKey (asked_text q))"
proof -
  have "normalizeOptionalDigest (JStr (visibleQuestionDigest sha256 listed)) = Inr (Some (visibleQuestionDigest sha256 listed))"
    using assms(3) by (simp add: visibleQuestionDigest_def digest_normal)
  then have "assertAskPrecondition (JStr (visibleQuestionDigest sha256 listed)) (visibleQuestionDigest sha256 pending)
        (findDuplicateQuestions pending questions) = None
      \<longleftrightarrow> digest_payload listed = digest_payload pending \<and> findDuplicateQuestions pending questions = []"
    using assms(4) by (auto simp: assertAskPrecondition_def visibleQuestionDigest_def)
  then show ?thesis by (simp only: payload_eq_iff[OF assms(1,2)] no_duplicates_iff)
qed

definition demo_pending :: "jsval list" where
  "demo_pending = [JObj [(''id'', JStr ''q1''), (''status'', JStr ''open''), (''sessionID'', JStr ''s''), (''text'', JStr ''Which name?''),
     (''askedAt'', JNum (Fin 7))]]"

definition demo_hash :: "string \<Rightarrow> string" where
  "demo_hash s = (if s = [] then replicate 64 CHR ''0'' else replicate 64 CHR ''a'')"

text \<open>A repeated question is refused, another one asked, and nothing is accepted on a digest from before \<open>q1\<close>.\<close>

theorem ask_accepted_iff_view_current_witness:
  "assertAskPrecondition (JStr (visibleQuestionDigest demo_hash demo_pending)) (visibleQuestionDigest demo_hash demo_pending)
      (findDuplicateQuestions demo_pending [JStr ''Which port?'']) = None
   \<and> assertAskPrecondition (JStr (visibleQuestionDigest demo_hash demo_pending)) (visibleQuestionDigest demo_hash demo_pending)
      (findDuplicateQuestions demo_pending [JStr '' which  NAME '']) \<noteq> None
   \<and> assertAskPrecondition (JStr (visibleQuestionDigest demo_hash [])) (visibleQuestionDigest demo_hash demo_pending)
      (findDuplicateQuestions demo_pending []) \<noteq> None"
proof -
  have sep: "list_all separable demo_pending" "list_all separable []" by code_simp+
  have hash: "\<forall>s. digest_pattern (demo_hash s)" by (auto simp: demo_hash_def) code_simp+
  have ne: "demo_hash (digest_payload []) \<noteq> demo_hash (digest_payload demo_pending)" by code_simp
  have keys: "questionTextKey (asked_text (JStr ''Which port?'')) = ''which port''"
    "questionTextKey (asked_text (JStr '' which  NAME '')) = ''which name''" by code_simp+
  have pend: "map (\<lambda>s. (truthy (pget s ''id''), questionTextKey (pget s ''text''))) demo_pending = [(True, ''which name'')]"
    "filter visible_row demo_pending = demo_pending" by code_simp+
  note same = ask_accepted_iff_view_current[OF sep(1,1) hash, simplified]
  note old = ask_accepted_iff_view_current[OF sep(2,1) hash] ne
  show ?thesis using same[of "[JStr ''Which port?'']"] same[of "[JStr '' which  NAME '']"] old keys pend
    by (auto simp: demo_pending_def)
qed

end
