(* ===== verification/QuestionStore.thy ===== *)
theory QuestionStore
  imports QuestionDedupe
begin

text \<open>
  The store of questions: \<open>src/core/questions/questions-store.mjs\<close>, \<open>questions-store-index.mjs\<close>, the default answers and
  delivery retries of \<open>question-maintenance.mjs\<close> and the revision of a default, \<open>question-answer-revision.mjs\<close>. The state is
  the documents by question id, the index of open questions and its mirrors by agent. Every operation reads a document, decides on
  its update, writes the document and then rewrites the indexes; a decision is a function of the document that was read, and
  \<open>writeIndexes\<close> is one step, as it runs under the lock of the index. The database is taken to answer what was last written or
  404; the clock, \<open>localeCompare\<close> and the fresh ids are arguments.
\<close>

section \<open>State and indexes\<close>

record qstore =
  qs_docs :: "(string \<times> jsval) list"
  qs_index :: "jsval list"
  qs_indexedAt :: jsval
  qs_mirrors :: "(string \<times> jsval list) list"

definition empty_store :: qstore where
  "empty_store = \<lparr>qs_docs = [], qs_index = [], qs_indexedAt = Null, qs_mirrors = []\<rparr>"

definition doc_at :: "qstore \<Rightarrow> string \<Rightarrow> jsval" where
  "doc_at st k = (case map_of (qs_docs st) k of None \<Rightarrow> Null | Some d \<Rightarrow> d)"

definition put_doc :: "string \<Rightarrow> jsobj \<Rightarrow> qstore \<Rightarrow> qstore" where
  "put_doc k d st = st\<lparr>qs_docs := AList.update k (JObj d) (qs_docs st)\<rparr>"

fun somes :: "'a option list \<Rightarrow> 'a list" where
  "somes [] = []"
| "somes (None # xs) = somes xs"
| "somes (Some x # xs) = x # somes xs"

definition touched_questions :: "qstore \<Rightarrow> string list \<Rightarrow> js_error + question list" where
  "touched_questions st ids = and_then (try_map (\<lambda>k. normalizeQuestionDoc (doc_at st k)) ids) (\<lambda>qs. Inr (somes qs))"

definition index_map :: "jsval list \<Rightarrow> (jsval \<times> jsval) list" where
  "index_map summaries =
     foldl (\<lambda>m s. if truthy (pget s ''id'') then AList.update (pget s ''id'') s m else m) [] summaries"

definition touch_index :: "(jsval \<times> jsval) list \<Rightarrow> question \<Rightarrow> (jsval \<times> jsval) list" where
  "touch_index m q =
     (if qu_status q = StOpen then AList.update (JStr (qu_id q)) (JObj (summarizeQuestion q)) m
      else AList.delete (JStr (qu_id q)) m)"

definition index_agents :: "jsval list \<Rightarrow> string option list \<Rightarrow> string list" where
  "index_agents summaries touchedAgentIDs =
     uniq (filter (\<lambda>a. a \<noteq> []) (map (\<lambda>s. js_String (js_or (pget s ''agentID'') (JStr []))) summaries @ somes touchedAgentIDs))"

definition owned_by :: "string \<Rightarrow> jsval list \<Rightarrow> jsval list" where
  "owned_by agent summaries = filter (\<lambda>s. pget s ''agentID'' = JStr agent) summaries"

definition rewrite_mirrors :: "jsval list \<Rightarrow> string list \<Rightarrow> (string \<times> jsval list) list \<Rightarrow> (string \<times> jsval list) list" where
  "rewrite_mirrors summaries agents mirrors = foldl (\<lambda>m a. AList.update a (owned_by a summaries) m) mirrors agents"

definition writeIndexes :: "(string \<Rightarrow> string \<Rightarrow> int) \<Rightarrow> jsval \<Rightarrow> string list \<Rightarrow> string option list \<Rightarrow> qstore \<Rightarrow> js_error + qstore" where
  "writeIndexes lc now questionIDs touchedAgentIDs st =
     and_then (touched_questions st questionIDs) (\<lambda>touched.
       let summaries = sort_by (compareSummaries lc) (map snd (foldl touch_index (index_map (qs_index st)) touched))
       in Inr (st\<lparr>qs_index := summaries, qs_indexedAt := now,
                 qs_mirrors := rewrite_mirrors summaries (index_agents summaries touchedAgentIDs) (qs_mirrors st)\<rparr>))"

section \<open>Reading\<close>

definition read_question_doc :: "string \<Rightarrow> qstore \<Rightarrow> store_error + question" where
  "read_question_doc k st =
     (case normalizeQuestionDoc (doc_at st k) of
        Inl e \<Rightarrow> Inl (Thrown e)
      | Inr None \<Rightarrow> Inl (NotFound (''Question not found: '' @ k))
      | Inr (Some q) \<Rightarrow> Inr q)"

definition required_id :: "jsval \<Rightarrow> string \<Rightarrow> store_error + string" where
  "required_id v fieldName = (case normalizeRequiredString v fieldName of Inl e \<Rightarrow> Inl (Thrown e) | Inr s \<Rightarrow> Inr s)"

definition getQuestion :: "jsval \<Rightarrow> qstore \<Rightarrow> store_error + question" where
  "getQuestion questionID st = and_then (required_id questionID ''questionID'') (\<lambda>k. read_question_doc k st)"

definition readQuestionsByID :: "string list \<Rightarrow> qstore \<Rightarrow> js_error + question list" where
  "readQuestionsByID ids st = touched_questions st ids"

definition listQuestionsInSessions :: "string list \<Rightarrow> qstore \<Rightarrow> js_error + question list" where
  "listQuestionsInSessions sessionIDs st =
     and_then (touched_questions st (map fst (qs_docs st)))
       (\<lambda>qs. Inr (filter (\<lambda>q. case qu_sessionID q of None \<Rightarrow> False | Some s \<Rightarrow> s \<in> set sessionIDs) qs))"

definition listGroupIDs :: "(string \<Rightarrow> string \<Rightarrow> int) \<Rightarrow> string \<Rightarrow> qstore \<Rightarrow> js_error + string list" where
  "listGroupIDs lc groupID st =
     and_then (touched_questions st (map fst (qs_docs st)))
       (\<lambda>qs. Inr (map qu_id (sort_by (compareQuestions lc) (filter (\<lambda>q. qu_groupID q = Some groupID) qs))))"

definition listForAgent :: "string \<Rightarrow> qstore \<Rightarrow> jsval list" where
  "listForAgent agent st = (case map_of (qs_mirrors st) agent of None \<Rightarrow> [] | Some s \<Rightarrow> s)"

section \<open>Updates\<close>

text \<open>
  A written document is the question and fields that no reader looks for; both are the result of the operation.
\<close>

type_synonym update = "question \<times> jsobj"

definition update_obj :: "update \<Rightarrow> jsobj" where
  "update_obj u = ospread (question_obj (fst u)) (snd u)"

definition write_update :: "(string \<Rightarrow> string \<Rightarrow> int) \<Rightarrow> jsval \<Rightarrow> string \<Rightarrow> question \<Rightarrow> update \<Rightarrow> qstore \<Rightarrow> store_error + qstore \<times> update" where
  "write_update lc now k q u st =
     (case writeIndexes lc now [k] [qu_agentID q] (put_doc k (update_obj u) st) of
        Inl e \<Rightarrow> Inl (Thrown e) | Inr st' \<Rightarrow> Inr (st', u))"

definition answer_source :: "jsval \<Rightarrow> string" where
  "answer_source inp =
     (if normalizeOptionalString (js_or (pget inp ''answerSource'') (pget inp ''answer_source'')) = AGENT_ANSWER_SOURCE
      then AGENT_ANSWER_SOURCE else USER_ANSWER_SOURCE)"

definition answer_update :: "jsval \<Rightarrow> string \<Rightarrow> jsval \<Rightarrow> question \<Rightarrow> store_error + update" where
  "answer_update inp answer now q =
     (case assertOpen q ''answered'' of Some e \<Rightarrow> Inl e
      | None \<Rightarrow>
          let source = answer_source inp
          in Inr (q\<lparr>qu_status := StAnswered, qu_answer := Some answer, qu_answerSource := Some source, qu_answeredAt := now,
             qu_answeredByUserID := (if source = USER_ANSWER_SOURCE then optional_string (js_or (pget inp ''userID'') (pget inp ''user_id'')) else None),
             qu_answeredByAgentID := (if source = AGENT_ANSWER_SOURCE
                then optional_string (js_or (pget inp ''answeredByAgentID'') (pget inp ''answered_by_agent_id'')) else None),
             qu_answerFrameID := optional_string (js_or (pget inp ''answerFrameID'') (pget inp ''answer_frame_id'')),
             qu_wakeSuppressed := (normalizeWakeSuppressed (pget inp ''wakeSuppressed'') \<or> qu_wakeSuppressed q),
             qu_updatedAt := now\<rparr>, []))"

definition answerQuestion :: "(string \<Rightarrow> string \<Rightarrow> int) \<Rightarrow> jsval \<Rightarrow> jsval \<Rightarrow> jsval \<Rightarrow> qstore \<Rightarrow> store_error + qstore \<times> update" where
  "answerQuestion lc now questionID inp st =
     and_then (required_id questionID ''questionID'') (\<lambda>k.
     case normalizeAnswerText (pget inp ''answer'') of Inl e \<Rightarrow> Inl (Thrown e)
     | Inr answer \<Rightarrow>
         and_then (read_question_doc k st) (\<lambda>q. and_then (answer_update inp answer now q) (\<lambda>u. write_update lc now k q u st)))"

definition undeliverable_update :: "jsval \<Rightarrow> jsval \<Rightarrow> question \<Rightarrow> store_error + update" where
  "undeliverable_update inp now q =
     (case assertCanMarkUndeliverable q of Some e \<Rightarrow> Inl e
      | None \<Rightarrow>
          let reason = (case optional_string (pget inp ''reason'') of None \<Rightarrow> ''undeliverable'' | Some r \<Rightarrow> r)
          in Inr (q\<lparr>qu_status := StUndeliverable,
             qu_answer := (case optional_string (pget inp ''answer'') of None \<Rightarrow> qu_answer q | Some a \<Rightarrow> Some a),
             qu_answeredAt := js_nc (qu_answeredAt q) now,
             qu_answeredByUserID := (case optional_string (js_or (pget inp ''userID'') (pget inp ''user_id'')) of
                 None \<Rightarrow> qu_answeredByUserID q | Some s \<Rightarrow> Some s),
             qu_dismissalReason := Some reason, qu_updatedAt := now\<rparr>,
             [(''deliveryFailedAt'', now), (''deliveryFailureReason'', JStr reason)]))"

definition markUndeliverable :: "(string \<Rightarrow> string \<Rightarrow> int) \<Rightarrow> jsval \<Rightarrow> jsval \<Rightarrow> jsval \<Rightarrow> qstore \<Rightarrow> store_error + qstore \<times> update" where
  "markUndeliverable lc now questionID inp st =
     and_then (required_id questionID ''questionID'') (\<lambda>k. and_then (read_question_doc k st) (\<lambda>q.
     and_then (undeliverable_update inp now q) (\<lambda>u. write_update lc now k q u st)))"

definition dismiss_update :: "jsval \<Rightarrow> jsval \<Rightarrow> question \<Rightarrow> store_error + update" where
  "dismiss_update inp now q =
     (case assertOpen q ''dismissed'' of Some e \<Rightarrow> Inl e
      | None \<Rightarrow> Inr (q\<lparr>qu_status := StDismissed, qu_dismissalReason := optional_string (pget inp ''reason''), qu_updatedAt := now\<rparr>, []))"

definition dismissQuestion :: "(string \<Rightarrow> string \<Rightarrow> int) \<Rightarrow> jsval \<Rightarrow> jsval \<Rightarrow> jsval \<Rightarrow> qstore \<Rightarrow> store_error + qstore \<times> update" where
  "dismissQuestion lc now questionID inp st =
     and_then (required_id questionID ''questionID'') (\<lambda>k. and_then (read_question_doc k st) (\<lambda>q.
     and_then (dismiss_update inp now q) (\<lambda>u. write_update lc now k q u st)))"

text \<open>A frame is attached without a look at the indexes, whose entries do not name it.\<close>

definition attachQuestionFrame :: "jsval \<Rightarrow> jsval \<Rightarrow> jsval \<Rightarrow> qstore \<Rightarrow> store_error + qstore \<times> update" where
  "attachQuestionFrame now questionID frameID st =
     and_then (required_id questionID ''questionID'') (\<lambda>k. and_then (required_id frameID ''frameID'') (\<lambda>frame.
     and_then (read_question_doc k st) (\<lambda>q.
       if qu_frameID q \<noteq> None then Inr (st, (q, []))
       else let u = (q\<lparr>qu_frameID := Some frame, qu_updatedAt := now\<rparr>, []) in Inr (put_doc k (update_obj u) st, u))))"

definition markRead :: "(string \<Rightarrow> string \<Rightarrow> int) \<Rightarrow> jsval \<Rightarrow> jsval \<Rightarrow> qstore \<Rightarrow> store_error + qstore \<times> update" where
  "markRead lc now questionID st =
     and_then (required_id questionID ''questionID'') (\<lambda>k. and_then (read_question_doc k st) (\<lambda>q.
       if truthy (qu_readAt q) then Inr (st, (q, []))
       else write_update lc now k q (q\<lparr>qu_readAt := now, qu_updatedAt := now\<rparr>, []) st))"

section \<open>Default answers, retries and revisions\<close>

fun later_than :: "jsnum \<Rightarrow> rat \<Rightarrow> bool" where
  "later_than (Fin q) now = (now < q)"
| "later_than PosInf now = True"
| "later_than _ now = False"

definition default_update :: "rat \<Rightarrow> question \<Rightarrow> string + update" where
  "default_update now q =
     (if qu_status q \<noteq> StOpen then Inl (''not-open:'' @ status_text (qu_status q))
      else case qu_defaultAnswer q of None \<Rightarrow> Inl ''no-default''
      | Some answer \<Rightarrow>
        (case qu_defaultDueAt q of None \<Rightarrow> Inl ''not-due''
         | Some due \<Rightarrow>
             if later_than due now then Inl ''not-due''
             else Inr (q\<lparr>qu_status := StAnswered, qu_answer := Some answer, qu_answerSource := Some DEFAULT_ANSWER_SOURCE,
                qu_answeredAt := JNum due, qu_answeredByUserID := None, qu_updatedAt := JNum (Fin now)\<rparr>,
                [(''answeredByDefaultAt'', JNum (Fin now))])))"

definition applyDefaultAnswer :: "(string \<Rightarrow> string \<Rightarrow> int) \<Rightarrow> rat \<Rightarrow> jsval \<Rightarrow> qstore \<Rightarrow> store_error + qstore \<times> (string + update)" where
  "applyDefaultAnswer lc now questionID st =
     and_then (getQuestion questionID st) (\<lambda>q.
       case default_update now q of
         Inl reason \<Rightarrow> Inr (st, Inl reason)
       | Inr u \<Rightarrow> and_then (write_update lc (JNum (Fin now)) (qu_id q) q u st) (\<lambda>(st', u'). Inr (st', Inr u')))"

definition DELIVERY_RETRY_DELAYS_MS :: "rat list" where
  "DELIVERY_RETRY_DELAYS_MS = [30000, 120000, 480000, 1920000, 7200000]"

definition next_delay :: "int \<Rightarrow> rat option" where
  "next_delay attempts =
     (if 0 \<le> attempts \<and> nat attempts < length DELIVERY_RETRY_DELAYS_MS then Some (DELIVERY_RETRY_DELAYS_MS ! nat attempts) else None)"

definition failure_update :: "string \<Rightarrow> rat \<Rightarrow> question \<Rightarrow> update" where
  "failure_update reason now q =
     (q\<lparr>qu_status := StUndeliverable, qu_deliveryAttempts := qu_deliveryAttempts q + 1,
        qu_deliveryLastReason := Some (if reason = [] then ''undeliverable'' else reason),
        qu_nextDeliveryAt := map_option (\<lambda>d. Fin (now + d)) (next_delay (qu_deliveryAttempts q)), qu_updatedAt := JNum (Fin now)\<rparr>,
      [(''deliveryFailedAt'', JNum (Fin now))])"

definition recordDeliveryFailure :: "(string \<Rightarrow> string \<Rightarrow> int) \<Rightarrow> rat \<Rightarrow> jsval \<Rightarrow> string \<Rightarrow> qstore \<Rightarrow> store_error + qstore \<times> update" where
  "recordDeliveryFailure lc now questionID reason st =
     and_then (getQuestion questionID st) (\<lambda>q. write_update lc (JNum (Fin now)) (qu_id q) q (failure_update reason now q) st)"

definition retry_due :: "rat \<Rightarrow> jsval \<Rightarrow> bool" where
  "retry_due now doc =
     (pget doc ''status'' = JStr ''undeliverable'' \<and> \<not> nullish (pget doc ''nextDeliveryAt'')
      \<and> \<not> later_than (js_Number (pget doc ''nextDeliveryAt'')) now)"

fun retry_loop :: "rat \<Rightarrow> qstore \<Rightarrow> int \<Rightarrow> jsval list \<Rightarrow> question list \<Rightarrow> question list" where
  "retry_loop now st limit [] due = due"
| "retry_loop now st limit (doc # docs) due =
     (if limit \<le> int (length due) then due
      else if \<not> retry_due now doc then retry_loop now st limit docs due
      else case getQuestion (pget doc ''id'') st of Inl _ \<Rightarrow> retry_loop now st limit docs due
           | Inr q \<Rightarrow> retry_loop now st limit docs (due @ [q]))"

definition next_delivery :: "question \<Rightarrow> jsnum" where
  "next_delivery q = (case qu_nextDeliveryAt q of None \<Rightarrow> Fin 0 | Some n \<Rightarrow> n)"

definition findRetryableDeliveries :: "rat \<Rightarrow> jsval \<Rightarrow> qstore \<Rightarrow> question list" where
  "findRetryableDeliveries now limit st =
     sort_by (\<lambda>l r. sort_le (next_delivery l) (next_delivery r)) (retry_loop now st (opt_default limit 25) (map snd (qs_docs st)) [])"

definition redeliver_update :: "rat \<Rightarrow> question \<Rightarrow> string + update" where
  "redeliver_update now q =
     (if qu_status q \<noteq> StUndeliverable then Inl (''not-undeliverable:'' @ status_text (qu_status q))
      else Inr (q\<lparr>qu_status := StAnswered, qu_nextDeliveryAt := None, qu_updatedAt := JNum (Fin now)\<rparr>,
                [(''deliveryFailureReason'', Null), (''redeliveredAt'', JNum (Fin now))]))"

definition markRedelivered :: "(string \<Rightarrow> string \<Rightarrow> int) \<Rightarrow> rat \<Rightarrow> jsval \<Rightarrow> qstore \<Rightarrow> store_error + qstore \<times> (string + update)" where
  "markRedelivered lc now questionID st =
     and_then (getQuestion questionID st) (\<lambda>q.
       case redeliver_update now q of
         Inl reason \<Rightarrow> Inr (st, Inl reason)
       | Inr u \<Rightarrow> and_then (write_update lc (JNum (Fin now)) (qu_id q) q u st) (\<lambda>(st', u'). Inr (st', Inr u')))"

definition isRevisableDefaultAnswer :: "question \<Rightarrow> bool" where
  "isRevisableDefaultAnswer q = (\<not> qu_deleted q \<and> qu_status q = StAnswered \<and> qu_answerSource q = Some DEFAULT_ANSWER_SOURCE)"

definition isAcknowledgedDefaultAnswer :: "question \<Rightarrow> bool" where
  "isAcknowledgedDefaultAnswer q = (qu_acknowledgedAt q \<noteq> None)"

text \<open>
  The result of a revision: refused with a reason, confirmed before, or confirmed or replaced now. The document that is read holds no
  time at which the default was applied, so the time kept for the superseded default is \<open>answeredAt\<close>.
\<close>

datatype revision = NotRevised string | AlreadyConfirmed | Confirmed update | Replaced update

definition revision_of :: "jsval \<Rightarrow> string option \<Rightarrow> rat \<Rightarrow> question \<Rightarrow> revision" where
  "revision_of inp answer now q =
     (if \<not> isRevisableDefaultAnswer q
      then NotRevised (''not-a-default:'' @ status_text (qu_status q) @ '':'' @ (case qu_answerSource q of None \<Rightarrow> ''null'' | Some s \<Rightarrow> s))
      else let user = optional_string (js_or (pget inp ''userID'') (pget inp ''user_id''));
               frame = optional_string (js_or (pget inp ''answerFrameID'') (pget inp ''answer_frame_id''))
           in case answer of
                None \<Rightarrow>
                  if qu_acknowledgedAt q \<noteq> None then AlreadyConfirmed
                  else Confirmed (q\<lparr>qu_answerSource := Some DEFAULT_ANSWER_SOURCE,
                         qu_answeredByUserID := (case user of None \<Rightarrow> qu_answeredByUserID q | Some s \<Rightarrow> Some s),
                         qu_answerFrameID := frame, qu_acknowledgedAt := Some (Fin now), qu_supersededDefaultAnswer := None,
                         qu_supersededDefaultAt := None, qu_revisedAt := None, qu_wakeSuppressed := False, qu_updatedAt := JNum (Fin now)\<rparr>, [])
              | Some a \<Rightarrow>
                  Replaced (q\<lparr>qu_status := StAnswered, qu_answer := Some a, qu_answerSource := Some USER_ANSWER_SOURCE,
                     qu_answeredByUserID := user, qu_answerFrameID := frame, qu_supersededDefaultAnswer := qu_answer q,
                     qu_supersededDefaultAt := opt_number (qu_answeredAt q), qu_revisedAt := Some (Fin now), qu_acknowledgedAt := None,
                     qu_wakeSuppressed := False, qu_updatedAt := JNum (Fin now)\<rparr>, []))"

definition reviseAnswer :: "(string \<Rightarrow> string \<Rightarrow> int) \<Rightarrow> rat \<Rightarrow> jsval \<Rightarrow> jsval \<Rightarrow> qstore \<Rightarrow> store_error + qstore \<times> question \<times> revision" where
  "reviseAnswer lc now questionID inp st =
     and_then (required_id questionID ''questionID'') (\<lambda>k.
     and_then (if normalizeRevisionIntent (pget inp ''intent'') = IntentConfirm then Inr None
               else case normalizeAnswerText (pget inp ''answer'') of Inl e \<Rightarrow> Inl (Thrown e) | Inr a \<Rightarrow> Inr (Some a)) (\<lambda>answer.
     and_then (read_question_doc k st) (\<lambda>q.
       let r = revision_of inp answer now q
       in case r of
            Confirmed u \<Rightarrow> and_then (write_update lc (JNum (Fin now)) k q u st) (\<lambda>(st', u'). Inr (st', fst u', r))
          | Replaced u \<Rightarrow> and_then (write_update lc (JNum (Fin now)) k q u st) (\<lambda>(st', u'). Inr (st', fst u', r))
          | _ \<Rightarrow> Inr (st, q, r))))"

section \<open>Asking\<close>

definition ABSENT_AT_FIRST :: "string list" where
  "ABSENT_AT_FIRST = [''supersededDefaultAnswer'', ''supersededDefaultAt'', ''revisedAt'', ''acknowledgedAt'', ''answeredByAgentID'',
     ''deliveryAttempts'', ''deliveryLastReason'', ''nextDeliveryAt'']"

definition created_obj :: "question \<Rightarrow> jsobj" where
  "created_obj q = filter (\<lambda>(k, _). k \<notin> set ABSENT_AT_FIRST) (question_obj q)"

definition either_key :: "jsval \<Rightarrow> string \<Rightarrow> string \<Rightarrow> jsval" where
  "either_key inp k k' = js_or (pget inp k) (pget inp k')"

definition new_question :: "jsval \<Rightarrow> question_mode \<Rightarrow> string \<Rightarrow> string \<Rightarrow> string \<Rightarrow> rat \<Rightarrow> nat \<Rightarrow> string \<Rightarrow> asked_question \<Rightarrow> question" where
  "new_question inp mode sid agent groupID now offset newID entry =
     (let asked = now + of_nat offset; stamp = JNum (Fin asked)
      in \<lparr>qu_id = newID, qu_groupID = Some groupID, qu_index = int offset + 1, qu_status = StOpen, qu_mode = mode,
          qu_sessionID = Some sid, qu_agentID = Some agent,
          qu_interactionID = optional_string (either_key inp ''interactionID'' ''interaction_id''),
          qu_frameID = optional_string (either_key inp ''frameID'' ''frame_id''),
          qu_toolCallFrameID = optional_string (either_key inp ''toolCallFrameID'' ''tool_call_frame_id''),
          qu_toolOutputID = optional_string (either_key inp ''toolOutputID'' ''tool_output_id''),
          qu_todoIDs = map js_String (arr_of (pget inp ''todoIDs'')),
          qu_focusAtAsk = optional_string (either_key inp ''focusAtAsk'' ''focus_at_ask''),
          qu_contextRefs = (if aq_contextRefs entry \<noteq> [] then aq_contextRefs entry
             else normalizeContextRefs (either_key inp ''contextRefs'' ''context_refs'')),
          qu_text = aq_text entry, qu_priority = aq_priority entry, qu_answer = None, qu_defaultAnswer = aq_defaultAnswer entry,
          qu_defaultTimeoutMs = aq_timeoutMs entry,
          qu_defaultDueAt = (case (aq_defaultAnswer entry, aq_timeoutMs entry) of (Some _, Some ms) \<Rightarrow> Some (Fin (asked + of_int ms)) | _ \<Rightarrow> None),
          qu_answerSource = None, qu_supersededDefaultAnswer = None, qu_supersededDefaultAt = None, qu_revisedAt = None,
          qu_acknowledgedAt = None, qu_wakeSuppressed = False, qu_answeredAt = Null, qu_answeredClock = Null, qu_answeredByUserID = None,
          qu_answeredByAgentID = None, qu_answerFrameID = None, qu_dismissalReason = None, qu_deliveryAttempts = 0,
          qu_deliveryLastReason = None, qu_nextDeliveryAt = None, qu_askedAt = stamp, qu_askedClock = Null, qu_createdAt = stamp,
          qu_updatedAt = stamp, qu_readAt = Null, qu_deleted = False\<rparr>)"

text \<open>The group id is drawn first, then one id for each question.\<close>

definition createQuestions :: "(string \<Rightarrow> string \<Rightarrow> int) \<Rightarrow> rat \<Rightarrow> string \<Rightarrow> string list \<Rightarrow> jsval \<Rightarrow> qstore \<Rightarrow> js_error + qstore \<times> question list" where
  "createQuestions lc now groupID newIDs inp st =
     and_then (normalizeQuestionList (pget inp ''questions'')) (\<lambda>entries.
     and_then (normalizeMode (pget inp ''mode'')) (\<lambda>mode.
     and_then (normalizeRequiredString (either_key inp ''sessionID'' ''session_id'') ''sessionID'') (\<lambda>sid.
     and_then (normalizeRequiredString (either_key inp ''agentID'' ''agent_id'') ''agentID'') (\<lambda>agent.
       let created = map (\<lambda>(offset, newID, entry). new_question inp mode sid agent groupID now offset newID entry)
                       (zip [0..<length entries] (zip newIDs entries));
           st' = foldl (\<lambda>st q. put_doc (qu_id q) (created_obj q) st) st created
       in and_then (writeIndexes lc (JNum (Fin now)) (map qu_id created) [] st') (\<lambda>st''. Inr (st'', created))))))"

section \<open>Listing\<close>

fun str_includes :: "string \<Rightarrow> string \<Rightarrow> bool" where
  "str_includes [] sub = (sub = [])"
| "str_includes (c # cs) sub = (starts_with (c # cs) sub \<or> str_includes cs sub)"

definition wants_descendants :: "jsval \<Rightarrow> bool" where
  "wants_descendants filters =
     (pget filters ''includeDescendants'' = JBool True \<or> pget filters ''include_descendants'' = JBool True)"

text \<open>
  The sessions are what the session tree answered, or the reason why it is unavailable. A read of a tree that is unavailable throws,
  unless the caller allows it; then it covers the named session alone and carries the warning.
\<close>

definition listed_sessions :: "string + jsval list \<Rightarrow> jsval \<Rightarrow> string + string list option \<times> string option" where
  "listed_sessions tree filters =
     (let sid = normalizeOptionalString (either_key filters ''sessionID'' ''session_id'');
          rootID = normalizeOptionalString (either_key filters ''rootSessionID'' ''root_session_id'');
          origin = (if rootID \<noteq> [] then rootID else if wants_descendants filters then sid else [])
      in if origin = [] then Inr (None, None)
         else case tree of
                Inr sessions \<Rightarrow> Inr (Some (resolveVisibleSessionIDs (JStr origin) sessions), None)
              | Inl reason \<Rightarrow>
                  if pget filters ''allowUnavailableSessionTree'' = JBool True
                  then Inr (Some (resolveVisibleSessionIDs (JStr origin) []), Some reason) else Inl reason)"

definition in_sessions :: "jsval \<Rightarrow> string list option \<Rightarrow> jsval \<Rightarrow> bool" where
  "in_sessions filters visible s =
     (let sid = normalizeOptionalString (either_key filters ''sessionID'' ''session_id'')
      in case visible of
           Some ids \<Rightarrow> pget s ''sessionID'' \<in> JStr ` set ids
         | None \<Rightarrow> sid = [] \<or> pget s ''sessionID'' = JStr sid)"

definition matches_filters :: "jsval \<Rightarrow> jsval \<Rightarrow> bool" where
  "matches_filters filters s =
     (let agent = normalizeOptionalString (either_key filters ''agentID'' ''agent_id'');
          group = normalizeOptionalString (either_key filters ''groupID'' ''group_id'');
          query = toLowerCase (normalizeOptionalString (either_key filters ''query'' ''q''));
          priority = toLowerCase (normalizeOptionalString (pget filters ''priority''))
      in (agent = [] \<or> pget s ''agentID'' = JStr agent) \<and> (group = [] \<or> pget s ''groupID'' = JStr group)
         \<and> (priority = [] \<or> pget s ''priority'' = JStr priority)
         \<and> (query = [] \<or> str_includes (toLowerCase (js_String (js_or (pget s ''text'') (JStr [])))) query))"

definition listOpen :: "string + jsval list \<Rightarrow> jsval \<Rightarrow> qstore \<Rightarrow> string + jsval list \<times> string option" where
  "listOpen tree filters st =
     and_then (listed_sessions tree filters) (\<lambda>(visible, warning).
       Inr (filter (\<lambda>s. in_sessions filters visible s \<and> matches_filters filters s) (qs_index st), warning))"

record visible_questions =
  vq_rootSessionID :: string
  vq_sessionIDs :: "string list"
  vq_openDigest :: string
  vq_questions :: "question list"
  vq_warning :: "string option"

definition listVisibleQuestions :: "(string \<Rightarrow> string \<Rightarrow> int) \<Rightarrow> (string \<Rightarrow> string) \<Rightarrow> string + jsval list \<Rightarrow> jsval \<Rightarrow> jsval \<Rightarrow> jsval
    \<Rightarrow> qstore \<Rightarrow> js_error + visible_questions" where
  "listVisibleQuestions lc sha256 tree sessionID rootSessionID status st =
     (let origin = (if normalizeOptionalString rootSessionID \<noteq> [] then normalizeOptionalString rootSessionID else normalizeOptionalString sessionID);
          visible = resolveVisibleSessionIDs (JStr origin) (case tree of Inl _ \<Rightarrow> [] | Inr sessions \<Rightarrow> sessions);
          pending = selectVisiblePendingQuestions (qs_index st) visible;
          wanted = (if normalizeOptionalString status = [] then ''open'' else normalizeOptionalString status)
      in if origin = [] then Inl (TypeError ''listVisibleQuestions requires sessionID'')
         else and_then (if wanted = ''open'' then readQuestionsByID (map (\<lambda>s. js_String (pget s ''id'')) pending) st
                        else listQuestionsInSessions visible st) (\<lambda>qs.
              Inr \<lparr>vq_rootSessionID = origin, vq_sessionIDs = visible, vq_openDigest = visibleQuestionDigest sha256 pending,
                   vq_questions = sort_by (compareQuestions lc) (filter (\<lambda>q. wanted = ''all'' \<or> status_text (qu_status q) = wanted) qs),
                   vq_warning = (case tree of Inl reason \<Rightarrow> Some reason | Inr _ \<Rightarrow> None)\<rparr>))"

definition getGroup :: "(string \<Rightarrow> string \<Rightarrow> int) \<Rightarrow> jsval \<Rightarrow> qstore \<Rightarrow> store_error + string \<times> question list" where
  "getGroup lc groupID st =
     and_then (required_id groupID ''groupID'') (\<lambda>g.
     case listGroupIDs lc g st of Inl e \<Rightarrow> Inl (Thrown e)
     | Inr ids \<Rightarrow> and_then (try_map (\<lambda>k. getQuestion (JStr k) st) ids) (\<lambda>siblings.
         if siblings = [] then Inl (NotFound (''Question group not found: '' @ g)) else Inr (g, siblings)))"

section \<open>Rebuilding the indexes\<close>

definition reindex :: "(string \<Rightarrow> string \<Rightarrow> int) \<Rightarrow> jsval \<Rightarrow> qstore \<Rightarrow> js_error + qstore \<times> string list" where
  "reindex lc now st =
     and_then (touched_questions st (map fst (qs_docs st))) (\<lambda>qs.
       let questions = sort_by (compareQuestions lc) qs
       in and_then (writeIndexes lc now (map qu_id questions) (map (\<lambda>a. Some (fst a)) (qs_mirrors st)) st)
            (\<lambda>st'. Inr (st', map qu_id (filter (\<lambda>q. qu_status q = StOpen) questions))))"

end
