(* ===== verification/QuestionRepair.thy ===== *)
theory QuestionRepair
  imports QuestionStore
begin

text \<open>
  The repair of the question indexes at boot, \<open>src/core/questions/question-index-repair.mjs\<close>: the documents are scanned, the
  indexes they call for are compared with those that exist, and only when something differs the indexes are rewritten.
\<close>

section \<open>Comparing\<close>

lemma element_size: "x \<in> set xs \<Longrightarrow> size x \<le> size_list size xs"
  by (induction xs) auto

lemma entry_size: "(k, v) \<in> set ps \<Longrightarrow> size v \<le> size_list (size_prod (\<lambda>x. 0) size) ps"
  by (induction ps) auto

function sameValue :: "jsval \<Rightarrow> jsval \<Rightarrow> bool" where
  "sameValue left right =
     (case (left, right) of
        (JArr xs, JArr ys) \<Rightarrow> length xs = length ys \<and> (\<forall>(x, y) \<in> set (zip xs ys). sameValue x y)
      | (JObj ps, JObj qs) \<Rightarrow> length ps = length qs \<and> (\<forall>(k, v) \<in> set ps. has_own qs k \<and> sameValue v (oget qs k))
      | _ \<Rightarrow> left = right)"
  by auto
termination
  by (relation "measure (size \<circ> fst)") (auto dest!: set_zip_leftD dest: element_size entry_size simp: less_Suc_eq_le)

declare sameValue.simps [simp del]

definition sameSummaries :: "jsval list \<Rightarrow> jsobj list \<Rightarrow> bool" where
  "sameSummaries existing expected =
     list_all (\<lambda>wanted. case map_of (index_map existing) (oget wanted ''id'') of None \<Rightarrow> False
       | Some present \<Rightarrow> list_all (\<lambda>(k, v). sameValue (pget present k) v) wanted) expected"

definition sameIDs :: "string list \<Rightarrow> string list \<Rightarrow> bool" where
  "sameIDs left right = (sort_by row_le left = sort_by row_le right)"

definition countDifference :: "string list \<Rightarrow> string list \<Rightarrow> nat" where
  "countDifference before after =
     length (filter (\<lambda>k. k \<notin> set after) (uniq before)) + length (filter (\<lambda>k. k \<notin> set before) (uniq after))"

section \<open>Repair\<close>

definition isScannableQuestion :: "jsval \<Rightarrow> bool" where
  "isScannableQuestion doc =
     (is_obj doc \<and> trim_or_empty (pget doc ''id'') \<noteq> [] \<and> trim_or_empty (pget doc ''text'') \<noteq> [] \<and> status_of (pget doc ''status'') \<noteq> None)"

definition open_doc :: "jsval \<Rightarrow> bool" where
  "open_doc doc = (pget doc ''status'' = JStr ''open'')"

definition mirror_ids :: "string \<Rightarrow> jsval list \<Rightarrow> string list" where
  "mirror_ids agent scanned =
     map (\<lambda>d. js_String (pget d ''id'')) (filter (\<lambda>d. open_doc d \<and> truthy (pget d ''agentID'') \<and> js_String (pget d ''agentID'') = agent) scanned)"

definition expected_agents :: "jsval list \<Rightarrow> string list" where
  "expected_agents scanned = uniq (map (\<lambda>d. js_String (pget d ''agentID'')) (filter (\<lambda>d. open_doc d \<and> truthy (pget d ''agentID'')) scanned))"

definition expected_summaries :: "jsval list \<Rightarrow> js_error + jsobj list" where
  "expected_summaries scanned =
     and_then (try_map normalizeQuestionDoc (filter open_doc scanned)) (\<lambda>qs. Inr (map summarizeQuestion (somes qs)))"

definition indexesAlreadyCorrect :: "qstore \<Rightarrow> jsval list \<Rightarrow> jsobj list \<Rightarrow> bool" where
  "indexesAlreadyCorrect st scanned summaries =
     (sameIDs (map (\<lambda>s. js_String (pget s ''id'')) (filter (\<lambda>s. truthy (pget s ''id'')) (qs_index st)))
              (map (\<lambda>d. js_String (pget d ''id'')) (filter open_doc scanned))
      \<and> sameSummaries (qs_index st) summaries
      \<and> list_all (\<lambda>a. sameIDs (map (\<lambda>s. js_String (pget s ''id'')) (listForAgent a st)) (mirror_ids a scanned))
          (map fst (qs_mirrors st) @ expected_agents scanned))"

datatype repair = BlindScan | AlreadyCorrect "string list" | Rewritten nat "string list"

definition repairQuestionIndex :: "(string \<Rightarrow> string \<Rightarrow> int) \<Rightarrow> jsval \<Rightarrow> qstore \<Rightarrow> js_error + qstore \<times> repair" where
  "repairQuestionIndex lc now st =
     (let existing = map (\<lambda>s. js_String (pget s ''id'')) (filter (\<lambda>s. truthy (pget s ''id'')) (qs_index st));
          scanned = filter isScannableQuestion (map snd (qs_docs st));
          openIDs = sort_by row_le (map (\<lambda>d. js_String (pget d ''id'')) (filter open_doc scanned))
      in if qs_docs st = [] \<and> existing \<noteq> [] then Inr (st, BlindScan)
         else and_then (expected_summaries scanned) (\<lambda>summaries.
           if indexesAlreadyCorrect st scanned summaries then Inr (st, AlreadyCorrect openIDs)
           else and_then (writeIndexes lc now (map (\<lambda>d. js_String (pget d ''id'')) scanned) (map (\<lambda>a. Some (fst a)) (qs_mirrors st)) st)
             (\<lambda>st'. Inr (st', Rewritten (countDifference existing openIDs) openIDs))))"

end
