(* ===== verification/QuestionIndex.thy ===== *)
theory QuestionIndex
  imports QuestionRepair
begin

text \<open>
  What \<open>writeIndexes\<close> of \<open>src/core/questions/questions-store.mjs\<close> does to the index of open questions and to its mirrors,
  and the repair of \<open>question-index-repair.mjs\<close> on top of it. A document is readable when it reads as a question with its id.
\<close>

section \<open>Readable documents\<close>

definition reads :: "qstore \<Rightarrow> string \<Rightarrow> question \<Rightarrow> bool" where
  "reads st k q \<longleftrightarrow> normalizeQuestionDoc (doc_at st k) = Inr (Some q) \<and> qu_id q = k"

definition docs_ok :: "qstore \<Rightarrow> bool" where
  "docs_ok st \<longleftrightarrow> distinct (map fst (qs_docs st)) \<and> (\<forall>k \<in> fst ` set (qs_docs st). \<exists>q. reads st k q)"

definition entry_of :: "jsval list \<Rightarrow> string \<Rightarrow> jsval option" where
  "entry_of summaries k = map_of (index_map summaries) (JStr k)"

text \<open>An index in which every entry has an id of its own.\<close>

definition index_ok :: "jsval list \<Rightarrow> bool" where
  "index_ok summaries \<longleftrightarrow> distinct (map (\<lambda>s. pget s ''id'') summaries) \<and> (\<forall>s \<in> set summaries. truthy (pget s ''id'') \<and> is_str (pget s ''id''))"

lemma reads_unique: "reads st k q \<Longrightarrow> reads st k q' \<Longrightarrow> q = q'"
  by (simp add: reads_def)

lemma reads_qid: "reads st k q \<Longrightarrow> qu_id q = k"
  by (simp add: reads_def)

lemma reads_key: "reads st k q \<Longrightarrow> k \<in> fst ` set (qs_docs st)"
  by (auto simp: reads_def doc_at_def normalizeQuestionDoc_def split: option.splits dest: map_of_SomeD intro: rev_image_eqI)

lemma reads_id_nonempty: "reads st k q \<Longrightarrow> k \<noteq> []"
  by (auto simp: reads_def normalizeQuestionDoc_def read_question_def and_then_Inr split: jsval.splits option.splits if_splits)

lemma update_new: "k \<notin> fst ` set m \<Longrightarrow> AList.update k v m = m @ [(k, v)]"
  by (induction m) auto

lemma in_update: "p \<in> set (AList.update k v m) \<Longrightarrow> p = (k, v) \<or> p \<in> set m"
  by (induction m) (auto split: if_splits)

lemma index_map_append:
  "distinct (map fst m @ map (\<lambda>s. pget s ''id'') xs) \<Longrightarrow> \<forall>s \<in> set xs. truthy (pget s ''id'') \<Longrightarrow>
    foldl (\<lambda>m s. if truthy (pget s ''id'') then AList.update (pget s ''id'') s m else m) m xs = m @ map (\<lambda>s. (pget s ''id'', s)) xs"
proof (induction xs arbitrary: m)
  case (Cons s xs)
  then have "AList.update (pget s ''id'') s m = m @ [(pget s ''id'', s)]"
    by (intro update_new) auto
  with Cons show ?case by auto
qed simp

lemma index_map_ok: "index_ok summaries \<Longrightarrow> index_map summaries = map (\<lambda>s. (pget s ''id'', s)) summaries"
  unfolding index_map_def index_ok_def by (subst index_map_append) auto

lemma entry_of_iff: "index_ok summaries \<Longrightarrow> entry_of summaries k = Some s \<longleftrightarrow> s \<in> set summaries \<and> pget s ''id'' = JStr k"
  by (auto simp: entry_of_def index_map_ok index_ok_def map_of_eq_Some_iff comp_def image_iff)

lemma index_ok_perm: "mset xs = mset ys \<Longrightarrow> index_ok xs = index_ok ys"
  unfolding index_ok_def by (metis (mono_tags, lifting) mset_eq_imp_distinct_iff mset_eq_setD mset_map)

lemma entry_of_perm: "mset xs = mset ys \<Longrightarrow> index_ok xs \<Longrightarrow> entry_of xs k = entry_of ys k"
  by (intro option_eqI) (metis entry_of_iff index_ok_perm mset_eq_setD)

section \<open>Rewriting\<close>

text \<open>The map from which the index is rebuilt: the ids are the keys of the entries.\<close>

definition entry_map_ok :: "(jsval \<times> jsval) list \<Rightarrow> bool" where
  "entry_map_ok m \<longleftrightarrow> distinct (map fst m) \<and> (\<forall>(k, s) \<in> set m. pget s ''id'' = k \<and> truthy k \<and> is_str k)"

lemma entry_map_index: "index_ok summaries \<Longrightarrow> entry_map_ok (index_map summaries)"
  by (simp add: entry_map_ok_def index_map_ok comp_def) (auto simp: index_ok_def)

lemma entry_map_values: "entry_map_ok m \<Longrightarrow> map (\<lambda>s. pget s ''id'') (map snd m) = map fst m"
  by (auto simp: entry_map_ok_def)

lemma index_of_entry_map:
  assumes "entry_map_ok m"
  shows "index_ok (map snd m)" "entry_of (map snd m) k = map_of m (JStr k)"
proof -
  have "\<forall>s \<in> set (map snd m). truthy (pget s ''id'') \<and> is_str (pget s ''id'')" using assms by (auto simp: entry_map_ok_def)
  then show ok: "index_ok (map snd m)"
    unfolding index_ok_def entry_map_values[OF assms] using assms by (simp add: entry_map_ok_def)
  have "map (\<lambda>s. (pget s ''id'', s)) (map snd m) = m"
    using assms by (induction m) (auto simp: entry_map_ok_def)
  then show "entry_of (map snd m) k = map_of m (JStr k)" unfolding entry_of_def index_map_ok[OF ok] by simp
qed

lemma touch_index_ok:
  assumes "entry_map_ok m" "qu_id q \<noteq> []"
  shows "entry_map_ok (touch_index m q)"
proof (cases "qu_status q = StOpen")
  case True
  have "\<forall>p \<in> set (AList.update (JStr (qu_id q)) (JObj (summarizeQuestion q)) m). pget (snd p) ''id'' = fst p \<and> truthy (fst p) \<and> is_str (fst p)"
    using assms by (auto simp: entry_map_ok_def dest!: in_update)
  then show ?thesis using assms True by (auto simp: entry_map_ok_def touch_index_def distinct_update)
next
  case False
  have "set (AList.delete (JStr (qu_id q)) m) \<subseteq> set m" by (auto simp: AList.delete_eq)
  then show ?thesis using assms False by (auto simp: entry_map_ok_def touch_index_def distinct_delete)
qed

definition entry_for :: "question \<Rightarrow> jsval option" where
  "entry_for q = (if qu_status q = StOpen then Some (JObj (summarizeQuestion q)) else None)"

lemma touch_index_entry:
  "map_of (touch_index m q) (JStr k) = (if k = qu_id q then entry_for q else map_of m (JStr k))"
  by (simp add: touch_index_def entry_for_def alist_simps)

lemma touch_loop:
  assumes "entry_map_ok m" "\<forall>q \<in> set qs. qu_id q \<noteq> []" "\<forall>q \<in> set qs. \<forall>q' \<in> set qs. qu_id q = qu_id q' \<longrightarrow> q = q'"
  shows "entry_map_ok (foldl touch_index m qs)"
    "q \<in> set qs \<Longrightarrow> map_of (foldl touch_index m qs) (JStr (qu_id q)) = entry_for q"
    "k \<notin> qu_id ` set qs \<Longrightarrow> map_of (foldl touch_index m qs) (JStr k) = map_of m (JStr k)"
proof -
  show "entry_map_ok (foldl touch_index m qs)"
    using assms(1,2) by (induction qs arbitrary: m) (auto intro: touch_index_ok)
  show other: "k \<notin> qu_id ` set qs \<Longrightarrow> map_of (foldl touch_index m qs) (JStr k) = map_of m (JStr k)" for k
    by (induction qs arbitrary: m) (auto simp: touch_index_entry)
  show "q \<in> set qs \<Longrightarrow> map_of (foldl touch_index m qs) (JStr (qu_id q)) = entry_for q"
    using assms(3)
  proof (induction qs arbitrary: m)
    case (Cons p ps)
    show ?case
    proof (cases "q \<in> set ps")
      case False
      then have "q = p" using Cons.prems by simp
      moreover have "qu_id q \<notin> qu_id ` set ps" using False Cons.prems by auto
      then have "map_of (foldl touch_index (touch_index m p) ps) (JStr (qu_id q)) = map_of (touch_index m p) (JStr (qu_id q))"
        by (induction ps arbitrary: m p) (auto simp: touch_index_entry)
      ultimately show ?thesis by (simp add: touch_index_entry)
    qed (use Cons in auto)
  qed simp
qed

lemma somes_set: "set (somes xs) = {x. Some x \<in> set xs}"
  by (induction xs rule: somes.induct) auto

lemma touched_readable:
  assumes "docs_ok st"
  obtains qs where "touched_questions st ids = Inr qs" "set qs = {q. \<exists>k \<in> set ids. reads st k q}"
proof -
  define f where "f k = (case normalizeQuestionDoc (doc_at st k) of Inl _ \<Rightarrow> None | Inr r \<Rightarrow> r)" for k
  have n: "normalizeQuestionDoc (doc_at st k) = Inr (f k)" for k
  proof (cases "k \<in> fst ` set (qs_docs st)")
    case True
    then show ?thesis using assms by (auto simp: docs_ok_def reads_def f_def)
  next
    case False
    then have "doc_at st k = Null" by (simp add: doc_at_def map_of_eq_None_iff[THEN iffD2])
    then show ?thesis by (simp add: f_def normalizeQuestionDoc_def)
  qed
  have id: "reads st k q \<longleftrightarrow> f k = Some q" for k q
  proof
    assume "f k = Some q"
    then have d: "normalizeQuestionDoc (doc_at st k) = Inr (Some q)" by (simp add: n)
    then have "k \<in> fst ` set (qs_docs st)"
      by (auto simp: doc_at_def normalizeQuestionDoc_def split: option.splits dest: map_of_SomeD intro: rev_image_eqI)
    then obtain q' where "reads st k q'" using assms by (auto simp: docs_ok_def)
    with d show "reads st k q" by (simp add: reads_def)
  qed (simp add: reads_def n)
  have "try_map (\<lambda>k. normalizeQuestionDoc (doc_at st k)) ids = Inr (map f ids)"
    by (induction ids) (simp_all add: n)
  then have "touched_questions st ids = Inr (somes (map f ids))" by (simp add: touched_questions_def)
  then show thesis by (rule that) (auto simp: somes_set id intro: rev_image_eqI)
qed

lemma mirror_loop:
  "map_of (rewrite_mirrors summaries agents m) a = (if a \<in> set agents then Some (owned_by a summaries) else map_of m a)"
  unfolding rewrite_mirrors_def by (induction agents arbitrary: m) (auto simp: alist_simps)

text \<open>Everything the components above need to know of \<open>writeIndexes\<close>.\<close>

lemma writeIndexes_spec:
  assumes docs: "docs_ok st" and ix: "index_ok (qs_index st)"
  obtains st' where "writeIndexes lc now ids agents st = Inr st'" "qs_docs st' = qs_docs st" "index_ok (qs_index st')"
    "\<And>k q. k \<in> set ids \<Longrightarrow> reads st k q \<Longrightarrow> entry_of (qs_index st') k = entry_for q"
    "\<And>k. k \<notin> set ids \<or> (\<nexists>q. reads st k q) \<Longrightarrow> entry_of (qs_index st') k = entry_of (qs_index st) k"
    "\<And>a. listForAgent a st' = (if a \<in> set (index_agents (qs_index st') agents) then owned_by a (qs_index st') else listForAgent a st)"
proof -
  obtain qs where qs: "touched_questions st ids = Inr qs" "set qs = {q. \<exists>k \<in> set ids. reads st k q}"
    by (rule touched_readable[OF docs])
  let ?m = "foldl touch_index (index_map (qs_index st)) qs"
  let ?new = "sort_by (compareSummaries lc) (map snd ?m)"
  define st' where "st' = st\<lparr>qs_index := ?new, qs_indexedAt := now, qs_mirrors := rewrite_mirrors ?new (index_agents ?new agents) (qs_mirrors st)\<rparr>"
  have ne: "\<forall>q \<in> set qs. qu_id q \<noteq> []" using qs(2) reads_id_nonempty reads_qid by blast
  have un: "\<forall>q \<in> set qs. \<forall>q' \<in> set qs. qu_id q = qu_id q' \<longrightarrow> q = q'"
  proof (intro ballI impI)
    fix q q' assume "q \<in> set qs" "q' \<in> set qs" and eq: "qu_id q = qu_id q'"
    then obtain k k' where k: "reads st k q" "reads st k' q'" using qs(2) by blast
    then have "k = k'" using eq by (simp add: reads_qid)
    with k show "q = q'" by (simp add: reads_unique)
  qed
  note loop = touch_loop[OF entry_map_index[OF ix] ne un]
  have ok: "index_ok ?new" using index_of_entry_map(1)[OF loop(1)] index_ok_perm[of ?new "map snd ?m"] by simp
  have entry: "entry_of ?new k = map_of ?m (JStr k)" for k
    using entry_of_perm[of ?new "map snd ?m"] ok index_of_entry_map(2)[OF loop(1)] by simp
  have "entry_of (qs_index st') k = entry_for q" if "k \<in> set ids" "reads st k q" for k q
  proof -
    have "q \<in> set qs" using that qs(2) by blast
    then show ?thesis using loop(2)[of q] entry reads_qid[OF that(2)] by (simp add: st'_def)
  qed
  moreover have "entry_of (qs_index st') k = entry_of (qs_index st) k" if "k \<notin> set ids \<or> (\<nexists>q. reads st k q)" for k
  proof -
    have "k \<notin> qu_id ` set qs" unfolding qs(2) using that reads_qid by blast
    then show ?thesis using loop(3) entry by (simp add: st'_def entry_of_def)
  qed
  moreover have "listForAgent a st' = (if a \<in> set (index_agents (qs_index st') agents) then owned_by a (qs_index st') else listForAgent a st)" for a
    by (simp add: st'_def listForAgent_def mirror_loop)
  moreover have "writeIndexes lc now ids agents st = Inr st'" by (simp add: writeIndexes_def qs(1) st'_def Let_def)
  moreover have "qs_docs st' = qs_docs st" "index_ok (qs_index st')" using ok by (simp_all add: st'_def)
  ultimately show thesis using that by blast
qed

end
