(* ===== verification/QuestionLifecycle.thy ===== *)
theory QuestionLifecycle
  imports QuestionIndex
begin

text \<open>
  The store of questions as a state machine. The operations of \<open>src/core/questions/questions-store.mjs\<close>,
  \<open>question-maintenance.mjs\<close> and \<open>question-answer-revision.mjs\<close> write a document and later, under the lock of the index,
  rewrite the indexes; between the two any other operation may run. A state is the store with the rewrites that are still to
  come, a step writes a document or carries out a rewrite.
\<close>

section \<open>Documents the operations write\<close>

definition stored_ok :: "question \<Rightarrow> bool" where
  "stored_ok q \<longleftrightarrow> question_ok q \<and> opt_nonblank (qu_answer q) \<and> (\<forall>d. qu_defaultDueAt q = Some d \<longrightarrow> truthy (JNum d))"

definition extras_ok :: "jsobj \<Rightarrow> bool" where
  "extras_ok ex \<longleftrightarrow> distinct (map fst ex) \<and> fst ` set ex \<inter> set QUESTION_KEYS = {}"

definition asked_ok :: "asked_question \<Rightarrow> bool" where
  "asked_ok e \<longleftrightarrow> nonblank (aq_text e) \<and> opt_nonblank (aq_defaultAnswer e) \<and> pred_option (\<lambda>i. 0 \<le> i) (aq_timeoutMs e)
     \<and> list_all ref_ok (aq_contextRefs e)"

lemma extras_known [simp]:
  "extras_ok []" "extras_ok [(''deliveryFailedAt'', v), (''deliveryFailureReason'', w)]" "extras_ok [(''answeredByDefaultAt'', v)]"
  "extras_ok [(''deliveryFailedAt'', v)]" "extras_ok [(''deliveryFailureReason'', v), (''redeliveredAt'', w)]"
  by (simp_all add: extras_ok_def QUESTION_KEYS_def)

lemma doc_at_put: "doc_at (put_doc k d st) k' = (if k' = k then JObj d else doc_at st k')"
  by (simp add: doc_at_def put_doc_def alist_simps)

lemma reads_put:
  assumes "stored_ok q" "extras_ok ex"
  shows "reads (put_doc k (update_obj (q, ex)) st) k' q' \<longleftrightarrow> (if k' = k then q' = q \<and> qu_id q = k else reads st k' q')"
proof -
  have "oget (ospread (question_obj q) ex) key = oget (question_obj q) key" if "key \<in> set QUESTION_KEYS" for key
    using assms(2) that by (subst oget_ospread) (auto simp: extras_ok_def has_own_keys)
  then have "normalizeQuestionDoc (JObj (update_obj (q, ex))) = Inr (Some q)"
    using assms(1) by (intro question_read_back) (auto simp: stored_ok_def update_obj_def)
  then show ?thesis by (auto simp: reads_def doc_at_put)
qed

lemma oget_filter: "oget (filter (\<lambda>(k, _). k \<notin> A) d) k = (if k \<in> A then Undefined else oget d k)"
  by (induction d) (auto split: if_splits)

lemma undefined_reads: "optional_string Undefined = None" "opt_number Undefined = None" "opt_default Undefined d = d"
  by (simp_all add: optional_string_def normalizeOptionalString_def opt_number_def opt_default_def)

definition fresh_question :: "question \<Rightarrow> bool" where
  "fresh_question q \<longleftrightarrow> qu_supersededDefaultAnswer q = None \<and> qu_supersededDefaultAt q = None \<and> qu_revisedAt q = None \<and> qu_acknowledgedAt q = None
     \<and> qu_answeredByAgentID q = None \<and> qu_deliveryAttempts q = 0 \<and> qu_deliveryLastReason q = None \<and> qu_nextDeliveryAt q = None"

lemma created_read_back:
  assumes q: "question_ok q" and fresh: "fresh_question q"
  shows "normalizeQuestionDoc (JObj (created_obj q)) = Inr (Some q)"
proof -
  note get = oget_filter[of "set ABSENT_AT_FIRST" "question_obj q", folded created_obj_def]
  have g: "list_all (\<lambda>k. oget (created_obj q) k = (if k \<in> set ABSENT_AT_FIRST then Undefined else oget (question_obj q) k)) QUESTION_KEYS"
    by (simp add: list_all_iff get)
  note g = g[unfolded QUESTION_KEYS_def ABSENT_AT_FIRST_def list.pred_inject question_gets, simplified]
  note ok = q[unfolded question_ok_def] and fr = fresh[unfolded fresh_question_def]
  have trimmed: "js_trim (qu_id q) = qu_id q" "js_trim (qu_text q) = qu_text q" "qu_id q \<noteq> []" "qu_text q \<noteq> []"
    using ok by (simp_all add: nonblank_def)
  have "read_question (created_obj q) (qu_id q) (qu_text q) (qu_status q) = Inr q"
    unfolding read_question_def
    by (simp only: g question_gets ok trimmed read_priority read_timeout and_then_simps read_str_val read_int_val read_mode_text read_num_val read_todos
        read_refs read_answer kept_or truthy_or normalizeWakeSuppressed_def jsval.inject simp_thms undefined_reads) (use fr in \<open>cases q, simp\<close>)
  then show ?thesis by (simp add: normalizeQuestionDoc_def g trimmed)
qed

lemma reads_created:
  assumes "stored_ok q" "fresh_question q"
  shows "reads (put_doc k (created_obj q) st) k' q' \<longleftrightarrow> (if k' = k then q' = q \<and> qu_id q = k else reads st k' q')"
  using created_read_back[of q] assms by (auto simp: reads_def doc_at_put stored_ok_def)

lemma normalize_asked_ok: "normalize_asked i v = Inr e \<Longrightarrow> asked_ok e"
  by (auto simp: normalize_asked_def asked_ok_def and_then_Inr normalizeQuestionText_def nonblank_def intro: timeout_ok
      split: jsval.splits if_splits)

lemma new_question_ok:
  assumes "asked_ok e" "nonblank newID" "nonblank groupID" "nonblank sid" "nonblank agent" "0 < now"
  shows "stored_ok (new_question inp mode sid agent groupID now offset newID e)"
    "fresh_question (new_question inp mode sid agent groupID now offset newID e)"
proof -
  have pos: "0 < now + of_nat offset" using assms(6) by (simp add: add_pos_nonneg)
  have due: "truthy (JNum (Fin (now + of_nat offset + of_int ms)))" if "aq_timeoutMs e = Some ms" for ms
  proof -
    have "0 \<le> ms" using assms(1) that by (simp add: asked_ok_def)
    then have "0 < now + of_nat offset + of_int ms" using pos by (simp add: add_pos_nonneg)
    then show ?thesis by simp
  qed
  show "stored_ok (new_question inp mode sid agent groupID now offset newID e)"
    unfolding stored_ok_def
  proof (intro conjI)
    show "opt_nonblank (qu_answer (new_question inp mode sid agent groupID now offset newID e))" by (simp add: new_question_def Let_def)
    show "question_ok (new_question inp mode sid agent groupID now offset newID e)"
      using assms pos by (simp add: question_ok_def new_question_def Let_def asked_ok_def kept_def)
    show "\<forall>d. qu_defaultDueAt (new_question inp mode sid agent groupID now offset newID e) = Some d \<longrightarrow> truthy (JNum d)"
      using due by (auto simp: new_question_def Let_def split: option.splits simp del: truthy.simps)
  qed
qed (simp add: new_question_def fresh_question_def Let_def)

section \<open>Operations\<close>

datatype store_op =
    OpAnswer jsval
  | OpUndeliverable jsval
  | OpDismiss jsval
  | OpAttach string
  | OpRead
  | OpDefault
  | OpFailure string
  | OpRedeliver
  | OpRevise jsval

fun ok_of :: "'e + 'a \<Rightarrow> 'a option" where
  "ok_of (Inl _) = None"
| "ok_of (Inr a) = Some a"

definition revision_answer :: "jsval \<Rightarrow> store_error + string option" where
  "revision_answer inp =
     (if normalizeRevisionIntent (pget inp ''intent'') = IntentConfirm then Inr None
      else case normalizeAnswerText (pget inp ''answer'') of Inl e \<Rightarrow> Inl (Thrown e) | Inr a \<Rightarrow> Inr (Some a))"

text \<open>The update an operation decides on for the document it has read, if it writes at all.\<close>

fun decide :: "store_op \<Rightarrow> rat \<Rightarrow> question \<Rightarrow> update option" where
  "decide (OpAnswer inp) now q =
     (case normalizeAnswerText (pget inp ''answer'') of Inl _ \<Rightarrow> None | Inr a \<Rightarrow> ok_of (answer_update inp a (JNum (Fin now)) q))"
| "decide (OpUndeliverable inp) now q = ok_of (undeliverable_update inp (JNum (Fin now)) q)"
| "decide (OpDismiss inp) now q = ok_of (dismiss_update inp (JNum (Fin now)) q)"
| "decide (OpAttach frame) now q =
     (if qu_frameID q \<noteq> None \<or> js_trim frame = [] then None
      else Some (q\<lparr>qu_frameID := Some (js_trim frame), qu_updatedAt := JNum (Fin now)\<rparr>, []))"
| "decide OpRead now q =
     (if truthy (qu_readAt q) then None else Some (q\<lparr>qu_readAt := JNum (Fin now), qu_updatedAt := JNum (Fin now)\<rparr>, []))"
| "decide OpDefault now q = ok_of (default_update now q)"
| "decide (OpFailure reason) now q = Some (failure_update reason now q)"
| "decide OpRedeliver now q = ok_of (redeliver_update now q)"
| "decide (OpRevise inp) now q =
     (case revision_answer inp of Inl _ \<Rightarrow> None
      | Inr answer \<Rightarrow> (case revision_of inp answer now q of Confirmed u \<Rightarrow> Some u | Replaced u \<Rightarrow> Some u | _ \<Rightarrow> None))"

text \<open>
  The one condition on what an operation is handed: a reason given for a failed delivery is empty or has a character that is not
  white space, as every reason the program passes is. A blank one would be stored as it is and read back as none.
\<close>

fun reason_ok :: "store_op \<Rightarrow> bool" where
  "reason_ok (OpFailure reason) = (reason = [] \<or> nonblank reason)"
| "reason_ok _ = True"

lemma due_kept: "stored_ok q \<Longrightarrow> qu_defaultDueAt q = Some d \<Longrightarrow> kept (JNum d)"
  by (simp add: stored_ok_def kept_def)

lemma opt_case_ok [simp]: "opt_nonblank (case optional_string v of None \<Rightarrow> x | Some s \<Rightarrow> Some s) = (optional_string v = None \<longrightarrow> opt_nonblank x)"
  using optional_string_ok[of v] by (cases "optional_string v") auto

lemma answer_known [simp]: "nonblank USER_ANSWER_SOURCE" "nonblank AGENT_ANSWER_SOURCE" "nonblank DEFAULT_ANSWER_SOURCE"
  by (simp_all add: nonblank_def USER_ANSWER_SOURCE_def AGENT_ANSWER_SOURCE_def DEFAULT_ANSWER_SOURCE_def js_trim_def js_space_def)

lemma trimmed_nonblank: "js_trim s \<noteq> [] \<Longrightarrow> nonblank (js_trim s)"
  by (simp add: nonblank_def)

definition kept_identity :: "question \<Rightarrow> question \<Rightarrow> bool" where
  "kept_identity q q' \<longleftrightarrow> qu_id q' = qu_id q \<and> qu_agentID q' = qu_agentID q \<and> (qu_status q \<noteq> StOpen \<longrightarrow> qu_status q' \<noteq> StOpen)"

lemma decide_ok:
  assumes "decide op now q = Some u" "reason_ok op" "stored_ok q" "0 < now"
  shows "stored_ok (fst u)" "extras_ok (snd u)" "kept_identity q (fst u)"
proof -
  have t: "truthy (JNum (Fin now))" "kept (JNum (Fin now))" using assms(4) by (simp_all add: kept_def)
  have ok: "question_ok q" using assms(3) by (simp add: stored_ok_def)
  have "stored_ok (fst u) \<and> extras_ok (snd u) \<and> kept_identity q (fst u)"
  proof (cases op)
    case (OpAnswer inp)
    then obtain a where a: "normalizeAnswerText (pget inp ''answer'') = Inr a" "answer_update inp a (JNum (Fin now)) q = Inr u"
      using assms(1) by (auto elim: ok_of.elims split: sum.splits)
    have "nonblank a" using a(1) by (auto simp: normalizeAnswerText_def nonblank_def split: if_splits jsval.splits)
    then show ?thesis using a(2) assms(3) t
      by (cases "assertOpen q ''answered''")
        (clarsimp simp: answer_update_def Let_def answer_source_def stored_ok_def kept_identity_def question_ok_def simp del: truthy.simps)+
  next
    case (OpUndeliverable inp)
    then have u: "undeliverable_update inp (JNum (Fin now)) q = Inr u"
      using assms(1) by (cases "undeliverable_update inp (JNum (Fin now)) q") auto
    have reason: "nonblank (case optional_string v of None \<Rightarrow> ''undeliverable'' | Some r \<Rightarrow> r)" for v
      using optional_string_ok[of v] by (cases "optional_string v") (auto simp: nonblank_def js_trim_def js_space_def)
    have "kept (js_nc (qu_answeredAt q) (JNum (Fin now)))" using ok t(2) by (auto simp: js_nc_def question_ok_def)
    then show ?thesis using u assms(3) ok t(1) reason
      unfolding undeliverable_update_def Let_def
      by (cases "assertCanMarkUndeliverable q")
        (clarsimp simp: stored_ok_def kept_identity_def question_ok_def simp del: truthy.simps)+
  next
    case (OpDismiss inp)
    then show ?thesis using assms ok t
      by (cases "assertOpen q ''dismissed''")
        (clarsimp simp: dismiss_update_def stored_ok_def kept_identity_def question_ok_def simp del: truthy.simps)+
  next
    case (OpAttach frame)
    then show ?thesis using assms ok t
      by (cases "qu_frameID q \<noteq> None \<or> js_trim frame = []")
        (clarsimp simp: stored_ok_def kept_identity_def question_ok_def trimmed_nonblank simp del: truthy.simps)+
  next
    case OpRead
    then show ?thesis using assms ok t
      by (cases "truthy (qu_readAt q)")
        (clarsimp simp: stored_ok_def kept_identity_def question_ok_def simp del: truthy.simps)+
  next
    case OpDefault
    then show ?thesis using assms ok t due_kept[OF assms(3)]
      by (clarsimp simp: default_update_def stored_ok_def kept_identity_def question_ok_def simp del: truthy.simps split: if_split_asm option.split_asm)
  next
    case (OpFailure reason)
    have "nonblank (if reason = [] then ''undeliverable'' else reason)"
      using assms(2) OpFailure by (auto simp: nonblank_def js_trim_def js_space_def)
    then show ?thesis using assms OpFailure ok t
      by (clarsimp simp: failure_update_def stored_ok_def kept_identity_def question_ok_def simp del: truthy.simps)
  next
    case OpRedeliver
    then show ?thesis using assms ok t
      by (clarsimp simp: redeliver_update_def stored_ok_def kept_identity_def question_ok_def simp del: truthy.simps split: if_split_asm)
  next
    case (OpRevise inp)
    then obtain answer where r: "revision_answer inp = Inr answer" "revision_of inp answer now q = Confirmed u \<or> revision_of inp answer now q = Replaced u"
      using assms(1) by (auto split: sum.splits revision.splits)
    show ?thesis
    proof (cases answer)
      case None
      then show ?thesis using r(2) assms(3) t(1)
        by (clarsimp simp: revision_of_def Let_def stored_ok_def kept_identity_def question_ok_def simp del: truthy.simps split: if_splits)
    next
      case (Some a)
      then have "nonblank a"
        using r(1) by (auto simp: revision_answer_def normalizeAnswerText_def nonblank_def split: if_splits sum.splits jsval.splits)
      with Some show ?thesis using r(2) assms(3) t(1)
        by (clarsimp simp: revision_of_def Let_def stored_ok_def kept_identity_def question_ok_def isRevisableDefaultAnswer_def
            simp del: truthy.simps split: if_splits)
    qed
  qed
  then show "stored_ok (fst u)" "extras_ok (snd u)" "kept_identity q (fst u)" by simp_all
qed

section \<open>Steps\<close>

record qsystem =
  sy_store :: qstore
  sy_calls :: "(string list \<times> string option list) list"

definition initial :: qsystem where
  "initial = \<lparr>sy_store = empty_store, sy_calls = []\<rparr>"

text \<open>
  Asking writes one document after another and rewrites the indexes for all of them at the end: a written document either opens a
  rewrite or joins one that is open. An update writes its document and leaves its rewrite to come; attaching a frame leaves none.
  A rebuild may ask for a rewrite of any documents and mirrors at any time. The rewrites come in any order.
\<close>

inductive qstep :: "(string \<Rightarrow> string \<Rightarrow> int) \<Rightarrow> qsystem \<Rightarrow> qsystem \<Rightarrow> bool" for lc where
  ask: "\<lbrakk>asked_ok e; nonblank newID; nonblank groupID; nonblank sid; nonblank agent; 0 < now;
      newID \<notin> fst ` set (qs_docs (sy_store s)); open_call = None \<or> open_call = Some ids \<and> (ids, []) \<in> set (sy_calls s);
      q = new_question inp mode sid agent groupID now offset newID e\<rbrakk>
    \<Longrightarrow> qstep lc s (s\<lparr>sy_store := put_doc newID (created_obj q) (sy_store s),
         sy_calls := (case open_call of None \<Rightarrow> ([newID], []) # sy_calls s
                      | Some ids \<Rightarrow> (ids @ [newID], []) # remove1 (ids, []) (sy_calls s))\<rparr>)"
| update: "\<lbrakk>reads (sy_store s) k q; decide op now q = Some u; reason_ok op; 0 < now\<rbrakk>
    \<Longrightarrow> qstep lc s (s\<lparr>sy_store := put_doc k (update_obj u) (sy_store s),
         sy_calls := (case op of OpAttach _ \<Rightarrow> sy_calls s | _ \<Rightarrow> ([k], [qu_agentID q]) # sy_calls s)\<rparr>)"
| rebuild: "qstep lc s (s\<lparr>sy_calls := (ids, agents) # sy_calls s\<rparr>)"
| rewrite: "\<lbrakk>call \<in> set (sy_calls s); writeIndexes lc now (fst call) (snd call) (sy_store s) = Inr st\<rbrakk>
    \<Longrightarrow> qstep lc s (s\<lparr>sy_store := st, sy_calls := remove1 call (sy_calls s)\<rparr>)"

section \<open>Invariant\<close>

definition docs_stored :: "qstore \<Rightarrow> bool" where
  "docs_stored st \<longleftrightarrow> distinct (map fst (qs_docs st)) \<and> (\<forall>k \<in> fst ` set (qs_docs st). \<exists>q. reads st k q \<and> stored_ok q)"

text \<open>A rewrite to come that covers all of the given ids and agents.\<close>

definition to_come :: "(string list \<times> string option list) list \<Rightarrow> string set \<Rightarrow> string option set \<Rightarrow> bool" where
  "to_come cs ids agents \<longleftrightarrow> (\<exists>c \<in> set cs. ids \<subseteq> set (fst c) \<and> agents \<subseteq> set (snd c))"

text \<open>An entry that disagrees with its document is in a rewrite to come, with its agent when the entry is to be removed.\<close>

definition entry_follows :: "qstore \<Rightarrow> (string list \<times> string option list) list \<Rightarrow> string \<Rightarrow> question \<Rightarrow> bool" where
  "entry_follows st cs k q \<longleftrightarrow> (entry_of (qs_index st) k = entry_for q \<or> to_come cs {k} {})
     \<and> (\<forall>x. entry_of (qs_index st) k = Some x \<longrightarrow> pget x ''agentID'' = str_val (qu_agentID q)
          \<and> (qu_status q \<noteq> StOpen \<longrightarrow> to_come cs {k} {qu_agentID q}))"

definition entries_known :: "qstore \<Rightarrow> bool" where
  "entries_known st \<longleftrightarrow> index_ok (qs_index st) \<and> (\<forall>k x. entry_of (qs_index st) k = Some x \<longrightarrow> (\<exists>q. reads st k q))"

definition mirror_follows :: "qstore \<Rightarrow> (string list \<times> string option list) list \<Rightarrow> string \<Rightarrow> bool" where
  "mirror_follows st cs a \<longleftrightarrow> listForAgent a st = owned_by a (qs_index st) \<or> to_come cs {} {Some a}"

definition system_ok :: "qsystem \<Rightarrow> bool" where
  "system_ok s \<longleftrightarrow> docs_stored (sy_store s) \<and> entries_known (sy_store s)
     \<and> (\<forall>k q. reads (sy_store s) k q \<longrightarrow> entry_follows (sy_store s) (sy_calls s) k q)
     \<and> (\<forall>a. a \<noteq> [] \<longrightarrow> mirror_follows (sy_store s) (sy_calls s) a)"

lemma docs_stored_ok: "docs_stored st \<Longrightarrow> docs_ok st"
  by (auto simp: docs_stored_def docs_ok_def)

lemma stored_read:
  assumes "docs_stored st" "reads st k q"
  shows "stored_ok q"
proof -
  obtain q' where "reads st k q'" "stored_ok q'" using assms(1) reads_key[OF assms(2)] unfolding docs_stored_def by blast
  then show ?thesis using reads_unique[OF assms(2)] by simp
qed

lemma put_doc_simps [simp]: "qs_index (put_doc k d st) = qs_index st" "qs_mirrors (put_doc k d st) = qs_mirrors st"
  "listForAgent a (put_doc k d st) = listForAgent a st"
  by (simp_all add: put_doc_def listForAgent_def)

lemma docs_stored_put:
  assumes ok: "docs_stored st" and q: "stored_ok q" "qu_id q = k"
    and rd: "\<And>k' q'. reads (put_doc k d st) k' q' \<longleftrightarrow> (if k' = k then q' = q \<and> qu_id q = k else reads st k' q')"
  shows "docs_stored (put_doc k d st)"
  unfolding docs_stored_def
proof (intro conjI ballI)
  show "distinct (map fst (qs_docs (put_doc k d st)))" using ok by (simp add: put_doc_def docs_stored_def distinct_update)
  have keys: "fst ` set (qs_docs (put_doc k d st)) \<subseteq> insert k (fst ` set (qs_docs st))"
    by (auto simp: put_doc_def dest!: in_update)
  fix k' assume "k' \<in> fst ` set (qs_docs (put_doc k d st))"
  with keys have "k' = k \<or> k' \<in> fst ` set (qs_docs st)" by blast
  then consider "k' = k" | "k' \<noteq> k" "k' \<in> fst ` set (qs_docs st)" by blast
  then show "\<exists>q'. reads (put_doc k d st) k' q' \<and> stored_ok q'"
  proof cases
    case 1
    then show ?thesis using q rd[of k q] by (intro exI[of _ q]) simp
  next
    case 2
    then obtain q' where "reads st k' q'" "stored_ok q'" using ok unfolding docs_stored_def by blast
    then show ?thesis using rd[of k' q'] 2(1) by auto
  qed
qed

text \<open>Every rewrite to come stays to come, with at least its ids and agents.\<close>

definition calls_grow :: "(string list \<times> string option list) list \<Rightarrow> (string list \<times> string option list) list \<Rightarrow> bool" where
  "calls_grow cs cs' \<longleftrightarrow> (\<forall>c \<in> set cs. to_come cs' (set (fst c)) (set (snd c)))"

lemma to_come_mono: "to_come cs A B \<Longrightarrow> A' \<subseteq> A \<Longrightarrow> B' \<subseteq> B \<Longrightarrow> to_come cs A' B'"
  unfolding to_come_def by (meson subset_trans)

lemma to_come_grow: "calls_grow cs cs' \<Longrightarrow> to_come cs A B \<Longrightarrow> to_come cs' A B"
  unfolding calls_grow_def to_come_def[of cs] using to_come_mono by blast

lemma calls_grow_Cons: "calls_grow cs (c # cs)"
  by (auto simp: calls_grow_def to_come_def)

lemma calls_grow_refl: "calls_grow cs cs"
  by (auto simp: calls_grow_def to_come_def)

lemma entry_follows_grow: "entry_follows st cs k q \<Longrightarrow> calls_grow cs cs' \<Longrightarrow> entry_follows st cs' k q"
  unfolding entry_follows_def using to_come_grow by blast

lemma mirror_follows_grow: "mirror_follows st cs a \<Longrightarrow> calls_grow cs cs' \<Longrightarrow> mirror_follows st cs' a"
  unfolding mirror_follows_def using to_come_grow by blast

lemma put_doc_follows [simp]:
  "entry_follows (put_doc k d st) cs k' q = entry_follows st cs k' q" "mirror_follows (put_doc k d st) cs a = mirror_follows st cs a"
  by (simp_all add: entry_follows_def mirror_follows_def)

text \<open>A write of a document, with the rewrites there are afterwards.\<close>

lemma write_keeps:
  assumes ok: "system_ok s" and q: "stored_ok q" "qu_id q = k"
    and rd: "\<And>k' q'. reads (put_doc k d (sy_store s)) k' q' \<longleftrightarrow> (if k' = k then q' = q \<and> qu_id q = k else reads (sy_store s) k' q')"
    and calls: "calls_grow (sy_calls s) cs"
    and own: "entry_follows (sy_store s) cs k q"
  shows "system_ok (s\<lparr>sy_store := put_doc k d (sy_store s), sy_calls := cs\<rparr>)"
proof -
  let ?st = "sy_store s"
  have docs: "docs_stored ?st" and kn: "entries_known ?st" and mi: "\<And>a. a \<noteq> [] \<Longrightarrow> mirror_follows ?st (sy_calls s) a"
    and en: "\<And>k q. reads ?st k q \<Longrightarrow> entry_follows ?st (sy_calls s) k q"
    using ok by (simp_all add: system_ok_def)
  have "\<exists>q'. reads (put_doc k d ?st) k' q'" if "reads ?st k' q0" for k' q0
    using that q(2) rd[of k' q] rd[of k' q0] by (cases "k' = k") auto
  then have "entries_known (put_doc k d ?st)" using kn unfolding entries_known_def put_doc_simps by blast
  moreover have "entry_follows ?st cs k' q'" if r: "reads (put_doc k d ?st) k' q'" for k' q'
  proof (cases "k' = k")
    case True
    then show ?thesis using r rd[of k' q'] own by simp
  next
    case False
    then have "reads ?st k' q'" using r rd[of k' q'] by simp
    then show ?thesis using en entry_follows_grow calls by blast
  qed
  ultimately show ?thesis
    using docs_stored_put[OF docs q rd] mirror_follows_grow[OF mi calls] by (simp add: system_ok_def)
qed

lemma to_come_remove: "to_come cs A B \<Longrightarrow> \<not> (A \<subseteq> set (fst c) \<and> B \<subseteq> set (snd c)) \<Longrightarrow> to_come (remove1 c cs) A B"
  unfolding to_come_def by (metis in_set_remove1)

lemma agents_of_index: "owned_by a summaries \<noteq> [] \<Longrightarrow> a \<noteq> [] \<Longrightarrow> a \<in> set (index_agents summaries touched)"
  by (force simp: owned_by_def index_agents_def filter_empty_conv js_or_def image_iff)

lemma agents_touched: "Some a \<in> set touched \<Longrightarrow> a \<noteq> [] \<Longrightarrow> a \<in> set (index_agents summaries touched)"
  by (simp add: index_agents_def somes_set)

lemma entry_for_agent: "entry_for q = Some x \<Longrightarrow> pget x ''agentID'' = str_val (qu_agentID q)"
  by (auto simp: entry_for_def summarizeQuestion_def split: if_splits)

lemma owned_entry: "index_ok summaries \<Longrightarrow> owned_by a summaries \<noteq> [] \<longleftrightarrow> (\<exists>k x. entry_of summaries k = Some x \<and> pget x ''agentID'' = JStr a)"
  unfolding owned_by_def filter_empty_conv by (auto simp: entry_of_iff) (metis index_ok_def is_str.elims(2))

lemma rewrite_documents:
  assumes "writeIndexes lc now ids agents st = Inr st'"
  shows "qs_docs st' = qs_docs st"
  using assms by (auto simp: writeIndexes_def and_then_Inr Let_def)

lemma rewrite_keeps:
  assumes ok: "system_ok s" and c: "c \<in> set (sy_calls s)" and w: "writeIndexes lc now (fst c) (snd c) (sy_store s) = Inr st"
  shows "system_ok (s\<lparr>sy_store := st, sy_calls := remove1 c (sy_calls s)\<rparr>)"
proof -
  let ?st = "sy_store s" and ?cs = "remove1 c (sy_calls s)"
  have docs: "docs_stored ?st" and kn: "entries_known ?st" and mi: "\<And>a. a \<noteq> [] \<Longrightarrow> mirror_follows ?st (sy_calls s) a"
    and en: "\<And>k q. reads ?st k q \<Longrightarrow> entry_follows ?st (sy_calls s) k q"
    using ok by (simp_all add: system_ok_def)
  have ix: "index_ok (qs_index ?st)" using kn by (simp add: entries_known_def)
  obtain st' where "writeIndexes lc now (fst c) (snd c) ?st = Inr st'" and d': "qs_docs st' = qs_docs ?st" and ix': "index_ok (qs_index st')"
    and hit': "\<And>k q. k \<in> set (fst c) \<Longrightarrow> reads ?st k q \<Longrightarrow> entry_of (qs_index st') k = entry_for q"
    and miss': "\<And>k. k \<notin> set (fst c) \<or> (\<nexists>q. reads ?st k q) \<Longrightarrow> entry_of (qs_index st') k = entry_of (qs_index ?st) k"
    and mirror': "\<And>a. listForAgent a st' = (if a \<in> set (index_agents (qs_index st') (snd c)) then owned_by a (qs_index st') else listForAgent a ?st)"
    using writeIndexes_spec[OF docs_stored_ok[OF docs] ix] by blast
  then have [simp]: "st' = st" using w by simp
  have rd: "reads st k q \<longleftrightarrow> reads ?st k q" for k q using d' by (simp add: reads_def doc_at_def)
  have "docs_stored st" using docs d' by (simp add: docs_stored_def rd)
  moreover have "entries_known st"
    unfolding entries_known_def rd
  proof (intro conjI allI impI)
    show "index_ok (qs_index st)" using ix' by simp
    fix k x assume e: "entry_of (qs_index st) k = Some x"
    show "\<exists>q. reads ?st k q"
    proof (rule ccontr)
      assume n: "\<nexists>q. reads ?st k q"
      then have "entry_of (qs_index ?st) k = Some x" using miss'[of k] e by simp
      then show False using kn n unfolding entries_known_def by blast
    qed
  qed
  moreover have "entry_follows st ?cs k q" if r: "reads ?st k q" for k q
  proof (cases "k \<in> set (fst c)")
    case True
    then have "entry_of (qs_index st) k = entry_for q" using hit' r by simp
    moreover have "entry_for q = Some x \<Longrightarrow> qu_status q = StOpen" for x by (simp add: entry_for_def split: if_splits)
    ultimately show ?thesis unfolding entry_follows_def using entry_for_agent by auto
  next
    case False
    then have "entry_of (qs_index st) k = entry_of (qs_index ?st) k" using miss' by simp
    moreover have "to_come (sy_calls s) {k} B \<Longrightarrow> to_come ?cs {k} B" for B using False to_come_remove by blast
    ultimately show ?thesis using en[OF r] unfolding entry_follows_def by metis
  qed
  moreover have "mirror_follows st ?cs a" if a: "a \<noteq> []" for a
  proof (cases "a \<in> set (index_agents (qs_index st) (snd c))")
    case True
    then show ?thesis using mirror' by (simp add: mirror_follows_def)
  next
    case False
    then have gone: "Some a \<notin> set (snd c)" "owned_by a (qs_index st) = []" using a agents_touched agents_of_index by blast+
    then have keep: "to_come (sy_calls s) A {Some a} \<Longrightarrow> to_come ?cs {} {Some a}" for A
      using to_come_remove to_come_mono by (metis empty_subsetI insert_subset subset_refl)
    show ?thesis
    proof (cases "owned_by a (qs_index ?st) = []")
      case True
      then show ?thesis using mi[OF a] keep gone(2) mirror'[of a] False by (auto simp: mirror_follows_def)
    next
      case owns: False
      then obtain k x where x: "entry_of (qs_index ?st) k = Some x" "pget x ''agentID'' = JStr a" using owned_entry[OF ix] by blast
      then obtain q where r: "reads ?st k q" using kn unfolding entries_known_def by blast
      have "qu_agentID q = Some a"
        using en[OF r] x by (cases "qu_agentID q") (auto simp: entry_follows_def)
      moreover have "qu_status q \<noteq> StOpen"
      proof
        assume o: "qu_status q = StOpen"
        have "\<exists>x'. entry_of (qs_index st) k = Some x' \<and> pget x' ''agentID'' = JStr a"
        proof (cases "k \<in> set (fst c)")
          case True
          then have "entry_of (qs_index st) k = entry_for q" using hit' r by simp
          then show ?thesis using o \<open>qu_agentID q = Some a\<close> entry_for_agent[of q] by (auto simp: entry_for_def)
        next
          case False
          then show ?thesis using miss'[of k] x by simp
        qed
        then show False using owned_entry[of "qs_index st" a] ix' gone(2) by (metis \<open>st' = st\<close>)
      qed
      ultimately show ?thesis using en[OF r] x(1) keep by (auto simp: entry_follows_def mirror_follows_def)
    qed
  qed
  ultimately show ?thesis by (simp add: system_ok_def rd)
qed

lemma new_entry_follows:
  assumes "system_ok s" "k \<notin> fst ` set (qs_docs (sy_store s))" "to_come cs {k} {}"
  shows "entry_follows (sy_store s) cs k q"
proof -
  have "entry_of (qs_index (sy_store s)) k = None"
    using assms(1,2) reads_key unfolding system_ok_def entries_known_def by (meson not_Some_eq)
  then show ?thesis using assms(3) by (simp add: entry_follows_def)
qed

lemma updated_entry_follows:
  assumes en: "entry_follows st cs k q" and id: "kept_identity q q'"
    and calls: "calls_grow cs cs'" "entry_for q' = entry_for q \<and> qu_status q' = qu_status q \<or> ([k], [qu_agentID q]) \<in> set cs'"
  shows "entry_follows st cs' k q'"
proof -
  have agent: "qu_agentID q' = qu_agentID q" using id by (simp add: kept_identity_def)
  have "to_come cs' {k} {qu_agentID q}" if "([k], [qu_agentID q]) \<in> set cs'" using that by (force simp: to_come_def)
  moreover have "to_come cs' {k} {}" if "([k], [qu_agentID q]) \<in> set cs'" using that by (force simp: to_come_def)
  ultimately show ?thesis using entry_follows_grow[OF en calls(1)] calls(2) agent by (auto simp: entry_follows_def)
qed

lemma attach_same_entry: "decide (OpAttach frame) now q = Some u \<Longrightarrow> entry_for (fst u) = entry_for q \<and> qu_status (fst u) = qu_status q"
  by (auto simp: entry_for_def summarizeQuestion_def split: if_splits)

lemma step_keeps:
  assumes "qstep lc s s'" "system_ok s"
  shows "system_ok s'"
  using assms
proof (cases rule: qstep.cases)
  case (ask e newID groupID sid agent now open_call ids q inp mode offset)
  let ?cs = "case open_call of None \<Rightarrow> ([newID], []) # sy_calls s | Some ids \<Rightarrow> (ids @ [newID], []) # remove1 (ids, []) (sy_calls s)"
  have q: "stored_ok q" "fresh_question q" "qu_id q = newID" using new_question_ok ask by (simp_all add: new_question_def Let_def)
  have grow: "calls_grow (sy_calls s) ?cs"
    unfolding calls_grow_def
  proof
    fix c assume c: "c \<in> set (sy_calls s)"
    show "to_come ?cs (set (fst c)) (set (snd c))"
    proof (cases "open_call = Some (fst c) \<and> snd c = []")
      case True
      then show ?thesis by (auto simp: to_come_def)
    next
      case False
      then have "c \<in> set ?cs" using c by (cases open_call) (auto intro: in_set_remove1[THEN iffD2])
      then show ?thesis by (auto simp: to_come_def)
    qed
  qed
  have "to_come ?cs {newID} {}" by (cases open_call) (auto simp: to_come_def)
  then have "entry_follows (sy_store s) ?cs newID q" by (intro new_entry_follows assms(2) ask(8))
  then show ?thesis unfolding ask(1) using write_keeps[OF assms(2) q(1,3) reads_created[OF q(1,2)] grow] by simp
next
  case (update k q op now u)
  let ?cs = "case op of OpAttach _ \<Rightarrow> sy_calls s | _ \<Rightarrow> ([k], [qu_agentID q]) # sy_calls s"
  have sq: "stored_ok q" and en: "entry_follows (sy_store s) (sy_calls s) k q"
    using assms(2) stored_read update(2) by (auto simp: system_ok_def)
  note u = decide_ok[OF update(3,4) sq update(5)]
  have "qu_id (fst u) = k" using u(3) reads_qid[OF update(2)] by (simp add: kept_identity_def)
  moreover have grow: "calls_grow (sy_calls s) ?cs" by (cases op) (simp_all add: calls_grow_Cons calls_grow_refl)
  moreover have "entry_for (fst u) = entry_for q \<and> qu_status (fst u) = qu_status q \<or> ([k], [qu_agentID q]) \<in> set ?cs"
  proof (cases "\<exists>frame. op = OpAttach frame")
    case True
    then show ?thesis using attach_same_entry update(3) by blast
  next
    case False
    then show ?thesis by (cases op) simp_all
  qed
  then have "entry_follows (sy_store s) ?cs k (fst u)" using updated_entry_follows[OF en u(3) grow] by blast
  ultimately show ?thesis
    unfolding update(1) using write_keeps[OF assms(2) u(1) _ _ grow] reads_put[OF u(1,2), of k] by simp
next
  case (rebuild ids agents)
  have "calls_grow (sy_calls s) ((ids, agents) # sy_calls s)" by (rule calls_grow_Cons)
  then show ?thesis using assms(2) entry_follows_grow mirror_follows_grow unfolding rebuild system_ok_def by simp blast
next
  case (rewrite call now st)
  then show ?thesis using rewrite_keeps assms(2) by blast
qed

definition reached :: "(string \<Rightarrow> string \<Rightarrow> int) \<Rightarrow> qsystem \<Rightarrow> bool" where
  "reached lc s \<longleftrightarrow> (qstep lc)\<^sup>*\<^sup>* initial s"

lemma initial_ok: "system_ok initial"
  by (simp add: initial_def empty_store_def system_ok_def docs_stored_def entries_known_def index_ok_def entry_of_def index_map_def
      reads_def doc_at_def normalizeQuestionDoc_def mirror_follows_def listForAgent_def owned_by_def)

lemma reached_ok: "reached lc s \<Longrightarrow> system_ok s"
  unfolding reached_def by (induction rule: rtranclp_induct) (auto intro: initial_ok step_keeps)

section \<open>What holds of every document\<close>

text \<open>A property of questions that a new one has and every decision keeps holds of every document of every reachable store.\<close>

lemma reads_fresh:
  assumes "system_ok s" "newID \<notin> fst ` set (qs_docs (sy_store s))" "stored_ok q" "fresh_question q" "reads (sy_store s) k q'"
  shows "reads (put_doc newID (created_obj q) (sy_store s)) k q'"
proof -
  have "k \<noteq> newID" using assms(2) reads_key[OF assms(5)] by blast
  then show ?thesis using assms(5) by (simp add: reads_created[OF assms(3,4)])
qed

text \<open>What a step does to a document that is there, and which documents there are after it.\<close>

lemma step_documents:
  assumes "qstep lc s s'" "system_ok s"
  obtains
    (fresh) newID q where "\<And>k q'. reads (sy_store s') k q' \<longleftrightarrow> (if k = newID then q' = q else reads (sy_store s) k q')"
      "\<nexists>q'. reads (sy_store s) newID q'" "\<exists>inp mode sid agent groupID now offset e. q = new_question inp mode sid agent groupID now offset newID e"
  | (updated) k0 q0 op now u where "reads (sy_store s) k0 q0" "decide op now q0 = Some u" "reason_ok op" "0 < now"
      "\<And>k q'. reads (sy_store s') k q' \<longleftrightarrow> (if k = k0 then q' = fst u else reads (sy_store s) k q')"
  | (same) "\<And>k q'. reads (sy_store s') k q' \<longleftrightarrow> reads (sy_store s) k q'"
  using assms(1)
proof (cases rule: qstep.cases)
  case (ask e newID groupID sid agent now open_call ids q inp mode offset)
  have q: "stored_ok q" "fresh_question q" "qu_id q = newID" using new_question_ok ask by (simp_all add: new_question_def Let_def)
  have "reads (sy_store s') k q' \<longleftrightarrow> (if k = newID then q' = q else reads (sy_store s) k q')" for k q'
    using reads_created[OF q(1,2), of newID "sy_store s" k q'] q(3) by (simp add: ask(1))
  moreover have "\<nexists>q'. reads (sy_store s) newID q'" using ask(8) reads_key by blast
  ultimately show thesis by (rule fresh) (use ask(10) in blast)
next
  case (update k q op now u)
  have "stored_ok q" using assms(2) stored_read update(2) by (auto simp: system_ok_def)
  note u = decide_ok[OF update(3,4) this update(5)]
  have "qu_id (fst u) = k" using u(3) reads_qid[OF update(2)] by (simp add: kept_identity_def)
  then have "reads (sy_store s') k' q' \<longleftrightarrow> (if k' = k then q' = fst u else reads (sy_store s) k' q')" for k' q'
    using reads_put[OF u(1,2), of k "sy_store s" k' q'] by (simp add: update(1))
  then show thesis by (rule updated[OF update(2-5)])
next
  case (rebuild ids agents)
  then show thesis by (intro same) simp
next
  case (rewrite call now st)
  have "qs_docs st = qs_docs (sy_store s)" using rewrite(3) by (rule rewrite_documents)
  then have "reads (sy_store s') k q \<longleftrightarrow> reads (sy_store s) k q" for k q by (simp add: reads_def doc_at_def rewrite(1))
  then show thesis by (rule same)
qed

lemma documents_keep:
  assumes new: "\<And>inp mode sid agent groupID now offset newID e. P (new_question inp mode sid agent groupID now offset newID e)"
    and upd: "\<And>op now q u. decide op now q = Some u \<Longrightarrow> reason_ok op \<Longrightarrow> P q \<Longrightarrow> P (fst u)"
    and s: "reached lc s" "reads (sy_store s) k q"
  shows "P q"
proof -
  have "(qstep lc)\<^sup>*\<^sup>* initial s" using s(1) by (simp add: reached_def)
  then have "\<forall>k q. reads (sy_store s) k q \<longrightarrow> P q"
  proof (induction rule: rtranclp_induct)
    case base
    then show ?case by (simp add: reads_def initial_def empty_store_def doc_at_def normalizeQuestionDoc_def)
  next
    case (step s s')
    have "system_ok s" using step(1) reached_ok unfolding reached_def by blast
    with step(2) show ?case
    proof (cases rule: step_documents)
      case (fresh newID q)
      then show ?thesis using step.IH new by auto
    next
      case (updated k0 q0 op now u)
      then show ?thesis using step.IH upd by auto
    next
      case same
      then show ?thesis using step.IH by simp
    qed
  qed
  then show ?thesis using s(2) by blast
qed

definition answered_by_someone :: "question \<Rightarrow> bool" where
  "answered_by_someone q \<longleftrightarrow> qu_status q \<in> {StAnswered, StUndeliverable} \<and> qu_answerSource q \<in> {Some USER_ANSWER_SOURCE, Some AGENT_ANSWER_SOURCE}
     \<and> qu_answer q \<noteq> None"

definition retry_ok :: "question \<Rightarrow> bool" where
  "retry_ok q \<longleftrightarrow> 0 \<le> qu_deliveryAttempts q \<and> (qu_nextDeliveryAt q \<noteq> None \<longrightarrow> 1 \<le> qu_deliveryAttempts q \<and> qu_deliveryAttempts q \<le> 5)"

lemma sources_differ [simp]: "USER_ANSWER_SOURCE \<noteq> DEFAULT_ANSWER_SOURCE" "AGENT_ANSWER_SOURCE \<noteq> DEFAULT_ANSWER_SOURCE"
  "USER_ANSWER_SOURCE \<noteq> AGENT_ANSWER_SOURCE"
  by (simp_all add: USER_ANSWER_SOURCE_def AGENT_ANSWER_SOURCE_def DEFAULT_ANSWER_SOURCE_def)

lemma ok_of_Some [simp]: "ok_of r = Some u \<longleftrightarrow> r = Inr u"
  by (cases r) auto

lemma open_assert: "assertOpen q what = None \<Longrightarrow> qu_status q = StOpen"
  by (cases "qu_status q") (simp_all add: assertOpen_def TERMINAL_STATUSES_def split: if_splits)

text \<open>The answer after an operation has been handed one: only markUndeliverable takes the answer of a question that has one.\<close>

fun handed_back :: "store_op \<Rightarrow> string option \<Rightarrow> string option" where
  "handed_back (OpUndeliverable inp) answer =
     (case optional_string (pget inp ''answer'') of None \<Rightarrow> answer | Some given \<Rightarrow> Some given)"
| "handed_back _ answer = answer"

lemma decide_final:
  assumes "decide op now q = Some u" "answered_by_someone q"
  shows "answered_by_someone (fst u) \<and> qu_answer (fst u) = handed_back op (qu_answer q) \<and> qu_answerSource (fst u) = qu_answerSource q"
proof -
  have q: "qu_status q \<noteq> StOpen" "qu_answerSource q \<noteq> Some DEFAULT_ANSWER_SOURCE" "qu_answer q \<noteq> None"
    using assms(2) sources_differ by (auto simp: answered_by_someone_def)
  show ?thesis
  proof (cases op)
    case (OpAnswer inp)
    then show ?thesis using assms(1) q open_assert[of q "''answered''"]
      by (cases "assertOpen q ''answered''") (clarsimp simp: answer_update_def split: sum.split_asm)+
  next
    case (OpUndeliverable inp)
    then have "undeliverable_update inp (JNum (Fin now)) q = Inr u" using assms(1) by simp
    then show ?thesis using assms(2) q(3) OpUndeliverable unfolding undeliverable_update_def Let_def
      by (cases "assertCanMarkUndeliverable q") (auto simp: answered_by_someone_def split: option.splits)
  next
    case (OpDismiss inp)
    then show ?thesis using assms(1) q open_assert[of q "''dismissed''"]
      by (cases "assertOpen q ''dismissed''") (clarsimp simp: dismiss_update_def)+
  next
    case (OpRevise inp)
    have "\<not> isRevisableDefaultAnswer q" using q(2) by (simp add: isRevisableDefaultAnswer_def)
    then show ?thesis using assms(1) OpRevise by (clarsimp simp: revision_of_def split: sum.split_asm)
  qed (use assms q in \<open>clarsimp simp: answered_by_someone_def default_update_def failure_update_def redeliver_update_def
      split: if_split_asm\<close>)+
qed

text \<open>
  Runs that record what was written: the log has an entry for every update, with the document's key and the operation; steps that
  change no document (rewrites, rebuilds) and steps that only add one leave no entry.
\<close>

inductive qrun :: "(string \<Rightarrow> string \<Rightarrow> int) \<Rightarrow> qsystem \<Rightarrow> (string \<times> store_op) list \<Rightarrow> qsystem \<Rightarrow> bool" for lc s where
  start: "qrun lc s [] s"
| quiet: "\<lbrakk>qrun lc s w s1; qstep lc s1 s2; \<forall>k q. reads (sy_store s1) k q \<longrightarrow> reads (sy_store s2) k q\<rbrakk> \<Longrightarrow> qrun lc s w s2"
| wrote: "\<lbrakk>qrun lc s w s1; qstep lc s1 s2; reads (sy_store s1) k q; decide op now q = Some u; reason_ok op; 0 < now;
      \<forall>k' q'. reads (sy_store s2) k' q' \<longleftrightarrow> (if k' = k then q' = fst u else reads (sy_store s1) k' q')\<rbrakk>
    \<Longrightarrow> qrun lc s (w @ [(k, op)]) s2"

definition answer_after :: "(string \<times> store_op) list \<Rightarrow> string \<Rightarrow> string option \<Rightarrow> string option" where
  "answer_after w k answer = foldl (\<lambda>a (k', op). if k' = k then handed_back op a else a) answer w"

lemma answer_after_snoc [simp]: "answer_after [] k a = a"
  "answer_after (w @ [(k', op)]) k a = (if k' = k then handed_back op (answer_after w k a) else answer_after w k a)"
  by (simp_all add: answer_after_def)

lemma qrun_steps: "qrun lc s w s' \<Longrightarrow> (qstep lc)\<^sup>*\<^sup>* s s'"
  by (induction rule: qrun.induct) auto

text \<open>Every run of the machine has a log.\<close>

lemma steps_logged:
  assumes "(qstep lc)\<^sup>*\<^sup>* s s'" "reached lc s"
  obtains w where "qrun lc s w s'"
proof -
  have "\<exists>w. qrun lc s w s'" using assms
  proof (induction rule: rtranclp_induct)
    case base
    then show ?case using qrun.start by blast
  next
    case (step s1 s2)
    then obtain w where w: "qrun lc s w s1" by blast
    have "reached lc s1" using step(1,4) unfolding reached_def by (meson rtranclp_trans)
    from step(2) reached_ok[OF this] show ?case
    proof (cases rule: step_documents)
      case (fresh newID q)
      then have "\<forall>k q. reads (sy_store s1) k q \<longrightarrow> reads (sy_store s2) k q" by metis
      then show ?thesis using qrun.quiet[OF w step(2)] by blast
    next
      case (updated k0 q0 op now u)
      then show ?thesis using qrun.wrote[OF w step(2) updated(1-4)] by blast
    next
      case same
      then show ?thesis using qrun.quiet[OF w step(2)] by blast
    qed
  qed
  then show thesis using that by blast
qed

lemma answered_along_run:
  assumes "qrun lc s w s'" "reads (sy_store s) k q" "answered_by_someone q"
  shows "\<exists>q'. reads (sy_store s') k q' \<and> answered_by_someone q' \<and> qu_answerSource q' = qu_answerSource q
     \<and> qu_answer q' = answer_after w k (qu_answer q)"
  using assms
proof (induction rule: qrun.induct)
  case (wrote w s1 s2 k0 q0 op now u)
  then obtain q' where q': "reads (sy_store s1) k q'" "answered_by_someone q'" "qu_answerSource q' = qu_answerSource q"
      "qu_answer q' = answer_after w k (qu_answer q)" by blast
  show ?case
  proof (cases "k0 = k")
    case True
    then have "q0 = q'" using reads_unique wrote.hyps(3) q'(1) by blast
    then show ?thesis using decide_final[OF wrote.hyps(4)] q' wrote.hyps(7) True by auto
  next
    case False
    then show ?thesis using q' wrote.hyps(7) by auto
  qed
qed auto

lemma new_retry_ok: "retry_ok (new_question inp mode sid agent groupID now offset newID e)"
  by (simp add: retry_ok_def new_question_def Let_def)

lemma decide_retry:
  assumes "decide op now q = Some u" "retry_ok q"
  shows "retry_ok (fst u)"
proof (cases op)
  case (OpFailure reason)
  have "next_delay (qu_deliveryAttempts q) \<noteq> None \<Longrightarrow> qu_deliveryAttempts q < 5"
    by (auto simp: next_delay_def DELIVERY_RETRY_DELAYS_MS_def split: if_splits)
  then show ?thesis using assms OpFailure by (clarsimp simp: retry_ok_def failure_update_def)
next
  case (OpRevise inp)
  then show ?thesis using assms
    by (clarsimp simp: retry_ok_def revision_of_def Let_def split: sum.split_asm option.split_asm if_split_asm)
qed (use assms in \<open>clarsimp simp: retry_ok_def answer_update_def undeliverable_update_def dismiss_update_def default_update_def
    redeliver_update_def Let_def split: if_split_asm option.split_asm sum.split_asm\<close>)+

section \<open>Operations are runs\<close>

text \<open>
  A completed operation of the store is a run of the steps, with the rewrites of other operations still to come as before.
\<close>

definition sys :: "qstore \<Rightarrow> (string list \<times> string option list) list \<Rightarrow> qsystem" where
  "sys st cs = \<lparr>sy_store = st, sy_calls = cs\<rparr>"

lemma sys_simps [simp]: "sy_store (sys st cs) = st" "sy_calls (sys st cs) = cs" "(sys st cs)\<lparr>sy_store := st', sy_calls := cs'\<rparr> = sys st' cs'"
  by (simp_all add: sys_def)

fun reindexes :: "store_op \<Rightarrow> bool" where
  "reindexes (OpAttach _) = False"
| "reindexes _ = True"

lemma rewrite_now:
  assumes "writeIndexes lc t ids agents st = Inr st'"
  shows "(qstep lc)\<^sup>*\<^sup>* (sys st ((ids, agents) # cs)) (sys st' cs)"
  using qstep.rewrite[of "(ids, agents)" "sys st ((ids, agents) # cs)" lc t st'] assms by simp

lemma update_run:
  assumes "reads st k q" "decide op now q = Some u" "reason_ok op" "0 < now" "reindexes op" "write_update lc t k q u st = Inr (st', u')"
  shows "(qstep lc)\<^sup>*\<^sup>* (sys st cs) (sys st' cs)"
proof -
  have "qstep lc (sys st cs) (sys (put_doc k (update_obj u) st) (([k], [qu_agentID q]) # cs))"
    using qstep.update[of "sys st cs" k q op now u lc] assms(1-5) by (cases op) simp_all
  moreover have "writeIndexes lc t [k] [qu_agentID q] (put_doc k (update_obj u) st) = Inr st'"
    using assms(6) by (simp add: write_update_def split: sum.splits)
  ultimately show ?thesis using rewrite_now by (meson converse_rtranclp_into_rtranclp)
qed

lemma read_doc_reads:
  assumes "docs_stored st" "read_question_doc k st = Inr q"
  shows "reads st k q"
proof -
  have n: "normalizeQuestionDoc (doc_at st k) = Inr (Some q)" using assms(2) by (simp add: read_question_doc_def split: sum.splits option.splits)
  then have "k \<in> fst ` set (qs_docs st)"
    by (auto simp: doc_at_def normalizeQuestionDoc_def split: option.splits dest: map_of_SomeD intro: rev_image_eqI)
  then obtain q' where "reads st k q'" using assms(1) unfolding docs_stored_def by blast
  then show ?thesis using n by (simp add: reads_def)
qed

text \<open>The operations by their name in the machine.\<close>

definition just_store :: "'e + qstore \<times> 'a \<Rightarrow> 'e + qstore" where
  "just_store r = and_then r (\<lambda>(st, _). Inr st)"

fun perform :: "(string \<Rightarrow> string \<Rightarrow> int) \<Rightarrow> rat \<Rightarrow> jsval \<Rightarrow> store_op \<Rightarrow> qstore \<Rightarrow> store_error + qstore" where
  "perform lc now qid (OpAnswer inp) st = just_store (answerQuestion lc (JNum (Fin now)) qid inp st)"
| "perform lc now qid (OpUndeliverable inp) st = just_store (markUndeliverable lc (JNum (Fin now)) qid inp st)"
| "perform lc now qid (OpDismiss inp) st = just_store (dismissQuestion lc (JNum (Fin now)) qid inp st)"
| "perform lc now qid (OpAttach frame) st = just_store (attachQuestionFrame (JNum (Fin now)) qid (JStr frame) st)"
| "perform lc now qid OpRead st = just_store (markRead lc (JNum (Fin now)) qid st)"
| "perform lc now qid OpDefault st = just_store (applyDefaultAnswer lc now qid st)"
| "perform lc now qid (OpFailure reason) st = just_store (recordDeliveryFailure lc now qid reason st)"
| "perform lc now qid OpRedeliver st = just_store (markRedelivered lc now qid st)"
| "perform lc now qid (OpRevise inp) st = just_store (reviseAnswer lc now qid inp st)"

lemma maybe_written:
  assumes "(case r of Inl reason \<Rightarrow> Inr (st, Inl reason)
      | Inr u \<Rightarrow> and_then (write_update lc t k q u st) (\<lambda>(st', u'). Inr (st', Inr u'))) = Inr (st', x)"
  shows "st' = st \<or> (\<exists>u u'. r = Inr u \<and> write_update lc t k q u st = Inr (st', u'))"
  using assms by (cases r) (auto simp: and_then_Inr)

text \<open>An operation either leaves the store alone, or writes what the machine decides.\<close>

lemma perform_cases:
  assumes "perform lc now qid op st = Inr st'" "docs_stored st"
  obtains (nothing) "st' = st"
  | (writes) k q u u' where "reads st k q" "decide op now q = Some u" "reindexes op" "write_update lc (JNum (Fin now)) k q u st = Inr (st', u')"
  | (attaches) k q u where "reads st k q" "decide op now q = Some u" "\<not> reindexes op" "st' = put_doc k (update_obj u) st"
proof (cases op)
  case (OpAnswer inp)
  then obtain k a q u u' where r: "read_question_doc k st = Inr q" "normalizeAnswerText (pget inp ''answer'') = Inr a"
      "answer_update inp a (JNum (Fin now)) q = Inr u" "write_update lc (JNum (Fin now)) k q u st = Inr (st', u')"
    using assms(1)
    by (cases "normalizeAnswerText (pget inp ''answer'')") (auto simp: just_store_def answerQuestion_def and_then_Inr)
  show thesis by (rule writes[OF read_doc_reads[OF assms(2) r(1)] _ _ r(4)]) (simp_all add: OpAnswer r)
next
  case (OpUndeliverable inp)
  then obtain k q u u' where r: "read_question_doc k st = Inr q" "undeliverable_update inp (JNum (Fin now)) q = Inr u"
      "write_update lc (JNum (Fin now)) k q u st = Inr (st', u')"
    using assms(1) by (auto simp: just_store_def markUndeliverable_def and_then_Inr)
  show thesis by (rule writes[OF read_doc_reads[OF assms(2) r(1)] _ _ r(3)]) (simp_all add: OpUndeliverable r)
next
  case (OpDismiss inp)
  then obtain k q u u' where r: "read_question_doc k st = Inr q" "dismiss_update inp (JNum (Fin now)) q = Inr u"
      "write_update lc (JNum (Fin now)) k q u st = Inr (st', u')"
    using assms(1) by (auto simp: just_store_def dismissQuestion_def and_then_Inr)
  show thesis by (rule writes[OF read_doc_reads[OF assms(2) r(1)] _ _ r(3)]) (simp_all add: OpDismiss r)
next
  case (OpAttach frame)
  have trimmed: "required_id (JStr frame) ''frameID'' = Inr f \<Longrightarrow> f = js_trim frame \<and> f \<noteq> []" for f
    by (auto simp: required_id_def normalizeRequiredString_def normalizeOptionalString_def split: if_split_asm)
  obtain x where "attachQuestionFrame (JNum (Fin now)) qid (JStr frame) st = Inr (st', x)"
    using assms(1) OpAttach by (auto simp: just_store_def and_then_Inr)
  then obtain k f q where f: "required_id (JStr frame) ''frameID'' = Inr f" and r: "read_question_doc k st = Inr q"
      "(if qu_frameID q \<noteq> None then Inr (st, q, [])
        else Inr (put_doc k (update_obj (q\<lparr>qu_frameID := Some f, qu_updatedAt := JNum (Fin now)\<rparr>, [])) st,
                  q\<lparr>qu_frameID := Some f, qu_updatedAt := JNum (Fin now)\<rparr>, [])) = (Inr (st', x) :: store_error + qstore \<times> update)"
    unfolding attachQuestionFrame_def and_then_Inr Let_def by blast
  note f = trimmed[OF f]
  show thesis
  proof (cases "qu_frameID q")
    case None
    then show thesis using r f by (intro attaches[OF read_doc_reads[OF assms(2) r(1)]]) (auto simp: OpAttach)
  next
    case (Some a)
    then have "st' = st" using r(2) by simp
    then show thesis by (rule nothing)
  qed
next
  case OpRead
  let ?u = "\<lambda>q. (q\<lparr>qu_readAt := JNum (Fin now), qu_updatedAt := JNum (Fin now)\<rparr>, [])"
  obtain x where "markRead lc (JNum (Fin now)) qid st = Inr (st', x)"
    using assms(1) OpRead by (auto simp: just_store_def and_then_Inr)
  then obtain k q where r: "read_question_doc k st = Inr q"
      "(if truthy (qu_readAt q) then Inr (st, q, []) else write_update lc (JNum (Fin now)) k q (?u q) st) = Inr (st', x)"
    unfolding markRead_def and_then_Inr by blast
  show thesis
  proof (cases "truthy (qu_readAt q)")
    case True
    then have "st' = st" using r(2) by simp
    then show thesis by (rule nothing)
  next
    case False
    then show thesis using r(2) by (intro writes[OF read_doc_reads[OF assms(2) r(1)]]) (auto simp: OpRead)
  qed
next
  case OpDefault
  obtain x where "applyDefaultAnswer lc now qid st = Inr (st', x)"
    using assms(1) OpDefault by (auto simp: just_store_def and_then_Inr)
  then obtain k q where r: "read_question_doc k st = Inr q" "st' = st \<or> (\<exists>u u'. default_update now q = Inr u
      \<and> write_update lc (JNum (Fin now)) (qu_id q) q u st = Inr (st', u'))"
    unfolding applyDefaultAnswer_def getQuestion_def and_then_Inr using maybe_written by blast
  note rd = read_doc_reads[OF assms(2) r(1)]
  show thesis
  proof (cases "st' = st")
    case False
    then show thesis using r(2) writes[OF rd] by (auto simp: OpDefault reads_qid[OF rd])
  qed (rule nothing)
next
  case (OpFailure reason)
  then obtain k q u' where r: "read_question_doc k st = Inr q"
      "write_update lc (JNum (Fin now)) (qu_id q) q (failure_update reason now q) st = Inr (st', u')"
    using assms(1) by (clarsimp simp: just_store_def recordDeliveryFailure_def getQuestion_def and_then_Inr)
  note rd = read_doc_reads[OF assms(2) r(1)]
  show thesis using r(2) writes[OF rd] by (auto simp: OpFailure reads_qid[OF rd])
next
  case OpRedeliver
  obtain x where "markRedelivered lc now qid st = Inr (st', x)"
    using assms(1) OpRedeliver by (auto simp: just_store_def and_then_Inr)
  then obtain k q where r: "read_question_doc k st = Inr q" "st' = st \<or> (\<exists>u u'. redeliver_update now q = Inr u
      \<and> write_update lc (JNum (Fin now)) (qu_id q) q u st = Inr (st', u'))"
    unfolding markRedelivered_def getQuestion_def and_then_Inr using maybe_written by blast
  note rd = read_doc_reads[OF assms(2) r(1)]
  show thesis
  proof (cases "st' = st")
    case False
    then show thesis using r(2) writes[OF rd] by (auto simp: OpRedeliver reads_qid[OF rd])
  qed (rule nothing)
next
  case (OpRevise inp)
  obtain x where "reviseAnswer lc now qid inp st = Inr (st', x)"
    using assms(1) OpRevise by (auto simp: just_store_def and_then_Inr)
  then obtain k q answer where r: "read_question_doc k st = Inr q" "revision_answer inp = Inr answer" and
      c: "(case revision_of inp answer now q of
          Confirmed u \<Rightarrow> and_then (write_update lc (JNum (Fin now)) k q u st) (\<lambda>(st', u'). Inr (st', fst u', revision_of inp answer now q))
        | Replaced u \<Rightarrow> and_then (write_update lc (JNum (Fin now)) k q u st) (\<lambda>(st', u'). Inr (st', fst u', revision_of inp answer now q))
        | _ \<Rightarrow> Inr (st, q, revision_of inp answer now q)) = Inr (st', x)"
    unfolding reviseAnswer_def revision_answer_def[symmetric] and_then_Inr Let_def by blast
  have w: "st' = st \<or> (\<exists>u u'. (revision_of inp answer now q = Confirmed u \<or> revision_of inp answer now q = Replaced u)
      \<and> write_update lc (JNum (Fin now)) k q u st = Inr (st', u'))"
    using c by (cases "revision_of inp answer now q") (auto simp: and_then_Inr)
  show thesis
  proof (cases "st' = st")
    case False
    then show thesis using r(2) w writes[OF read_doc_reads[OF assms(2) r(1)]] by (auto simp: OpRevise)
  qed (rule nothing)
qed

text \<open>Questions of one call are asked one after another; a later one joins the rewrite of the first.\<close>

lemma ask_run:
  fixes inp mode sid agent groupID now
  assumes "\<forall>(offset, newID, e) \<in> set entries. asked_ok e \<and> nonblank newID" "nonblank groupID" "nonblank sid" "nonblank agent" "0 < now"
    "distinct (map (\<lambda>(_, newID, _). newID) entries)" "(\<lambda>(_, newID, _). newID) ` set entries \<inter> fst ` set (qs_docs st) = {}"
  defines "new \<equiv> map (\<lambda>(offset, newID, e). new_question inp mode sid agent groupID now offset newID e)"
  shows "entries \<noteq> [] \<or> ids \<noteq> None \<Longrightarrow>
    (qstep lc)\<^sup>*\<^sup>* (sys st (case ids of None \<Rightarrow> cs | Some i \<Rightarrow> (i, []) # cs))
      (sys (foldl (\<lambda>st q. put_doc (qu_id q) (created_obj q) st) st (new entries))
           (((case ids of None \<Rightarrow> [] | Some i \<Rightarrow> i) @ map qu_id (new entries), []) # cs))"
  using assms(1,6,7)
proof (induction entries arbitrary: st ids)
  case Nil
  then show ?case by (cases ids) (simp_all add: new_def)
next
  case (Cons x entries)
  obtain offset newID e where x: "x = (offset, newID, e)" by (cases x)
  let ?q = "new_question inp mode sid agent groupID now offset newID e"
  have id: "qu_id ?q = newID" by (simp add: new_question_def Let_def)
  let ?st = "put_doc newID (created_obj ?q) st" and ?ids = "(case ids of None \<Rightarrow> [] | Some i \<Rightarrow> i) @ [newID]"
  let ?s = "sys st (case ids of None \<Rightarrow> cs | Some i \<Rightarrow> (i, []) # cs)"
  have "qstep lc ?s (sys ?st ((?ids, []) # cs))"
    using qstep.ask[of e newID groupID sid agent now ?s ids "the ids" ?q inp mode offset lc] Cons.prems assms(2-5)
    by (cases ids) (simp_all add: x)
  moreover have keys: "fst ` set (qs_docs ?st) \<subseteq> insert newID (fst ` set (qs_docs st))" by (auto simp: put_doc_def dest!: in_update)
  have "newID \<notin> (\<lambda>(_, newID, _). newID) ` set entries" "(\<lambda>(_, newID, _). newID) ` set entries \<inter> fst ` set (qs_docs st) = {}"
    using Cons.prems(3,4) by (auto simp: x)
  with keys have "(\<lambda>(_, newID, _). newID) ` set entries \<inter> fst ` set (qs_docs ?st) = {}" by blast
  then have "(qstep lc)\<^sup>*\<^sup>* (sys ?st (case Some ?ids of None \<Rightarrow> cs | Some i \<Rightarrow> (i, []) # cs))
      (sys (foldl (\<lambda>st q. put_doc (qu_id q) (created_obj q) st) ?st (new entries))
           (((case Some ?ids of None \<Rightarrow> [] | Some i \<Rightarrow> i) @ map qu_id (new entries), []) # cs))"
    using Cons.prems(2,3) by (intro Cons.IH) auto
  ultimately show ?case by (simp add: x id new_def converse_rtranclp_into_rtranclp)
qed

section \<open>Runs that can be made\<close>

text \<open>Operations do return: a rewrite never fails on a reachable store.\<close>

lemma settle:
  assumes "reached lc (sys st (c # cs))"
  obtains st' where "reached lc (sys st' cs)" "qs_docs st' = qs_docs st"
proof -
  have ok: "docs_ok st" "index_ok (qs_index st)" using reached_ok[OF assms] docs_stored_ok by (simp_all add: system_ok_def entries_known_def)
  obtain st' where w: "writeIndexes lc Null (fst c) (snd c) st = Inr st'" by (rule writeIndexes_spec[OF ok])
  have "(qstep lc)\<^sup>*\<^sup>* (sys st (c # cs)) (sys st' cs)" using rewrite_now[of lc Null "fst c" "snd c" st st' cs] w by simp
  then have "reached lc (sys st' cs)" using assms unfolding reached_def by (meson rtranclp_trans)
  then show thesis by (rule that) (rule rewrite_documents[OF w])
qed

lemma update_settled:
  assumes "reached lc (sys st [])" "reads st k q" "decide op now q = Some u" "reason_ok op" "0 < now" "reindexes op"
  obtains st' where "reached lc (sys st' [])" "reads st' k (fst u)" "(qstep lc)\<^sup>*\<^sup>* (sys st []) (sys st' [])"
proof -
  have docs: "docs_stored st" using reached_ok[OF assms(1)] by (simp add: system_ok_def)
  note u = decide_ok[OF assms(3,4) stored_read[OF docs assms(2)] assms(5)]
  let ?st = "put_doc k (update_obj u) st"
  have step: "qstep lc (sys st []) (sys ?st [([k], [qu_agentID q])])"
    using qstep.update[of "sys st []" k q op now u lc] assms(2-6) by (cases op) simp_all
  then have s1: "reached lc (sys ?st [([k], [qu_agentID q])])" using assms(1) unfolding reached_def by (simp add: rtranclp.rtrancl_into_rtrancl)
  have ok: "docs_ok ?st" "index_ok (qs_index ?st)"
    using reached_ok[OF s1] docs_stored_ok by (simp_all add: system_ok_def entries_known_def)
  obtain st' where w: "writeIndexes lc Null [k] [qu_agentID q] ?st = Inr st'" by (rule writeIndexes_spec[OF ok])
  have run: "(qstep lc)\<^sup>*\<^sup>* (sys st []) (sys st' [])" using converse_rtranclp_into_rtranclp[OF step rewrite_now[OF w]] .
  have "qu_id (fst u) = k" using u(3) reads_qid[OF assms(2)] by (simp add: kept_identity_def)
  then have "reads ?st k (fst u)" using reads_put[OF u(1,2), of k st k "fst u"] by simp
  then have "reads st' k (fst u)" using rewrite_documents[OF w] by (simp add: reads_def doc_at_def)
  moreover have "reached lc (sys st' [])" using assms(1) run unfolding reached_def by (meson rtranclp_trans)
  ultimately show thesis using that run by blast
qed

definition sample_entry :: asked_question where
  "sample_entry = \<lparr>aq_text = ''Deploy?'', aq_priority = NormalPriority, aq_defaultAnswer = None, aq_timeoutMs = None, aq_contextRefs = []\<rparr>"

definition sample_question :: question where
  "sample_question = new_question (JObj []) ModeWait ''ses1'' ''agent1'' ''group1'' 1000 0 ''q1'' sample_entry"

definition sample_answer :: jsval where
  "sample_answer = JObj [(''answer'', JStr ''yes''), (''userID'', JStr ''u1'')]"

lemma sample_asked:
  obtains st where "reached lc (sys st [])" "reads st ''q1'' sample_question"
proof -
  have ok: "asked_ok sample_entry" "nonblank ''q1''" "nonblank ''group1''" "nonblank ''ses1''" "nonblank ''agent1''"
    by (simp_all add: asked_ok_def sample_entry_def nonblank_def js_trim_def js_space_def)
  let ?st = "put_doc ''q1'' (created_obj sample_question) empty_store"
  have "qstep lc initial (sys ?st [([''q1''], [])])"
    using qstep.ask[of sample_entry "''q1''" "''group1''" "''ses1''" "''agent1''" 1000 initial None "[]" sample_question "JObj []" ModeWait 0 lc] ok
    by (simp add: sample_question_def initial_def empty_store_def sys_def)
  then have s1: "reached lc (sys ?st [([''q1''], [])])" unfolding reached_def by blast
  have q: "stored_ok sample_question" "fresh_question sample_question" "qu_id sample_question = ''q1''"
    using new_question_ok[OF ok, of 1000 "JObj []" ModeWait 0] unfolding sample_question_def by (simp_all add: new_question_def Let_def)
  have "reads ?st ''q1'' sample_question" using reads_created[OF q(1,2), of "''q1''" empty_store "''q1''"] q(3) by simp
  moreover obtain st' where "reached lc (sys st' [])" "qs_docs st' = qs_docs ?st" by (rule settle[OF s1])
  ultimately show thesis using that by (simp add: reads_def doc_at_def)
qed

lemma sample_answered:
  obtains st q where "reached lc (sys st [])" "reads st ''q1'' q" "answered_by_someone q" "qu_answer q = Some ''yes''"
    "qu_deliveryAttempts q = 0" "qu_status q = StAnswered" "\<not> qu_deleted q"
proof -
  obtain st where st: "reached lc (sys st [])" "reads st ''q1'' sample_question" by (rule sample_asked)
  have a: "normalizeAnswerText (pget sample_answer ''answer'') = Inr ''yes''"
    by (simp add: sample_answer_def normalizeAnswerText_def js_trim_def js_space_def)
  have s: "answer_source sample_answer = USER_ANSWER_SOURCE"
    by (simp add: answer_source_def sample_answer_def normalizeOptionalString_def js_or_def AGENT_ANSWER_SOURCE_def)
  have "qu_status sample_question = StOpen" "\<not> qu_deleted sample_question" by (simp_all add: sample_question_def new_question_def Let_def)
  then obtain u where u: "answer_update sample_answer ''yes'' (JNum (Fin 2000)) sample_question = Inr u"
      "answered_by_someone (fst u)" "qu_answer (fst u) = Some ''yes''" "qu_deliveryAttempts (fst u) = qu_deliveryAttempts sample_question"
      "qu_status (fst u) = StAnswered" "\<not> qu_deleted (fst u)"
    by (simp add: answer_update_def assertOpen_def TERMINAL_STATUSES_def s Let_def answered_by_someone_def)
  have "decide (OpAnswer sample_answer) 2000 sample_question = Some u" by (simp add: a u(1))
  from update_settled[OF st this]
  obtain st' where "reached lc (sys st' [])" "reads st' ''q1'' (fst u)" by auto
  moreover have "qu_deliveryAttempts sample_question = 0" by (simp add: sample_question_def new_question_def Let_def)
  ultimately show thesis using that u by simp
qed

section \<open>Properties\<close>

text \<open>
  C12: each operation on a question (answering, dismissing, marking undeliverable, attaching a frame, marking read, applying the
  default, recording a failed delivery, marking redelivered, revising) is, when it completes, a run of the machine that leaves the
  rewrites of the other operations as they were: whatever holds of every reachable state holds of the store under any sequence of
  operations. The conditions: the stored documents are documents the store reads back (as in every reachable state), the clock is
  past zero, and a reason given for a failed delivery is empty or not blank.
\<close>

theorem operation_is_a_run:
  assumes "docs_stored st" "perform lc now qid op st = Inr st'" "0 < now" "reason_ok op"
  shows "(qstep lc)\<^sup>*\<^sup>* (sys st cs) (sys st' cs)"
  using assms(2,1)
proof (cases rule: perform_cases)
  case (writes k q u u')
  then show ?thesis using update_run assms(3,4) by blast
next
  case (attaches k q u)
  then obtain frame where "op = OpAttach frame" by (cases op) auto
  then show ?thesis using qstep.update[of "sys st cs" k q op now u lc] attaches assms(3,4) by auto
qed simp

text \<open>
  C9: the index of open questions is exact whenever no rewrite is to come, whatever operations ran and in whatever order their
  rewrites ran: its entries are the summaries of the open questions, each once, and the mirror of every agent is the part of the
  index that is the agent's.
\<close>

theorem open_index_exact_when_idle:
  assumes "reached lc s" "sy_calls s = []"
  shows "set (qs_index (sy_store s)) = {JObj (summarizeQuestion q) |k q. reads (sy_store s) k q \<and> qu_status q = StOpen}
     \<and> distinct (qs_index (sy_store s))
     \<and> (\<forall>a. a \<noteq> [] \<longrightarrow> listForAgent a (sy_store s) = owned_by a (qs_index (sy_store s)))"
proof -
  let ?st = "sy_store s"
  have ix: "index_ok (qs_index ?st)" and kn: "entries_known ?st"
    and en: "\<And>k q. reads ?st k q \<Longrightarrow> entry_of (qs_index ?st) k = entry_for q"
    and mi: "\<And>a. a \<noteq> [] \<Longrightarrow> listForAgent a ?st = owned_by a (qs_index ?st)"
    using reached_ok[OF assms(1)] assms(2)
    by (auto simp: system_ok_def entries_known_def entry_follows_def mirror_follows_def to_come_def)
  have "x \<in> set (qs_index ?st) \<longleftrightarrow> (\<exists>k q. reads ?st k q \<and> qu_status q = StOpen \<and> x = JObj (summarizeQuestion q))" for x
  proof
    assume x: "x \<in> set (qs_index ?st)"
    then obtain k where "pget x ''id'' = JStr k" using ix by (auto simp: index_ok_def elim: is_str.elims)
    then have e: "entry_of (qs_index ?st) k = Some x" using x ix by (simp add: entry_of_iff)
    then obtain q where "reads ?st k q" using kn unfolding entries_known_def by blast
    then show "\<exists>k q. reads ?st k q \<and> qu_status q = StOpen \<and> x = JObj (summarizeQuestion q)"
      using e en[of k q] by (intro exI[of _ k] exI[of _ q]) (auto simp: entry_for_def split: if_splits)
  next
    assume "\<exists>k q. reads ?st k q \<and> qu_status q = StOpen \<and> x = JObj (summarizeQuestion q)"
    then obtain k q where "reads ?st k q" "qu_status q = StOpen" "x = JObj (summarizeQuestion q)" by blast
    then have "entry_of (qs_index ?st) k = Some x" using en by (simp add: entry_for_def)
    then show "x \<in> set (qs_index ?st)" using ix by (simp add: entry_of_iff)
  qed
  moreover have "distinct (qs_index ?st)" using ix by (simp add: index_ok_def distinct_map)
  ultimately show ?thesis using mi by blast
qed

text \<open>
  C10: what a person or an agent answered stays answered: whatever operations come after it (a default that falls due, a dismissal,
  failed or repeated deliveries, a revision), the document is there, never opens again and keeps the source of its answer; and its
  answer is the one it had, unless markUndeliverable was handed another one since, in which case it is the last one handed.
\<close>

theorem given_answer_stays:
  assumes "reached lc s" "(qstep lc)\<^sup>*\<^sup>* s s'" "reads (sy_store s) k q" "answered_by_someone q"
  shows "(\<exists>w. qrun lc s w s') \<and> (\<forall>w. qrun lc s w s' \<longrightarrow>
     (\<exists>q'. reads (sy_store s') k q' \<and> answered_by_someone q' \<and> qu_answerSource q' = qu_answerSource q
        \<and> qu_answer q' = answer_after w k (qu_answer q)))"
  using steps_logged[OF assms(2,1)] answered_along_run assms(3,4) by metis

text \<open>
  C15: a question that waits for another delivery attempt has failed at least once and at most five times, so no question is retried
  for ever.
\<close>

theorem delivery_retries_are_bounded:
  assumes "reached lc s" "reads (sy_store s) k q" "qu_nextDeliveryAt q \<noteq> None"
  shows "1 \<le> qu_deliveryAttempts q \<and> qu_deliveryAttempts q \<le> 5"
proof -
  have "retry_ok q"
    by (rule documents_keep[where P = retry_ok, OF _ _ assms(1,2)])
      (rule new_retry_ok, rule decide_retry)
  then show ?thesis using assms(3) by (simp add: retry_ok_def)
qed

section \<open>Witnesses\<close>

definition handed_no :: store_op where
  "handed_no = OpUndeliverable (JObj [(''answer'', JStr ''no'')])"

lemma sample_handed_back:
  assumes "reached lc (sys st [])" "reads st ''q1'' q" "answered_by_someone q" "qu_status q = StAnswered" "\<not> qu_deleted q"
  obtains u st' where "decide handed_no 3000 q = Some u" "perform lc 3000 (JStr ''q1'') handed_no st = Inr st'" "qu_answer (fst u) = Some ''no''"
proof -
  have can: "assertCanMarkUndeliverable q = None" using assms(4,5) by (simp add: assertCanMarkUndeliverable_def)
  have given: "optional_string (pget (JObj [(''answer'', JStr ''no'')]) ''answer'') = Some ''no''"
    by (simp add: optional_string_def normalizeOptionalString_def js_trim_def js_space_def)
  obtain u where u: "undeliverable_update (JObj [(''answer'', JStr ''no'')]) (JNum (Fin 3000)) q = Inr u" "qu_answer (fst u) = Some ''no''"
    using can given unfolding undeliverable_update_def Let_def by simp
  have d: "decide handed_no 3000 q = Some u" by (simp add: handed_no_def u(1))
  let ?st = "put_doc ''q1'' (update_obj u) st"
  have "qstep lc (sys st []) (sys ?st [([''q1''], [qu_agentID q])])"
    using qstep.update[of "sys st []" "''q1''" q handed_no 3000 u lc] assms(2) d by (simp add: handed_no_def)
  then have s1: "reached lc (sys ?st [([''q1''], [qu_agentID q])])"
    using assms(1) unfolding reached_def by (rule rtranclp.rtrancl_into_rtrancl[rotated])
  have "docs_ok ?st" "index_ok (qs_index ?st)" using reached_ok[OF s1] docs_stored_ok by (simp_all add: system_ok_def entries_known_def)
  then obtain st' where "writeIndexes lc (JNum (Fin 3000)) [''q1''] [qu_agentID q] ?st = Inr st'" by (rule writeIndexes_spec)
  moreover have "read_question_doc ''q1'' st = Inr q" using assms(2) by (simp add: read_question_doc_def reads_def)
  moreover have "required_id (JStr ''q1'') ''questionID'' = Inr ''q1''"
    by (simp add: required_id_def normalizeRequiredString_def normalizeOptionalString_def js_trim_def js_space_def)
  ultimately have "perform lc 3000 (JStr ''q1'') handed_no st = Inr st'"
    using u(1) by (simp add: just_store_def markUndeliverable_def write_update_def handed_no_def)
  then show thesis using that d u(2) by blast
qed

theorem operation_is_a_run_witness:
  "\<exists>st st' q. reached (\<lambda>_ _. 0) (sys st []) \<and> reads st ''q1'' q \<and> qu_answer q = Some ''yes''
     \<and> perform (\<lambda>_ _. 0) 3000 (JStr ''q1'') handed_no st = Inr st' \<and> (qstep (\<lambda>_ _. 0))\<^sup>*\<^sup>* (sys st []) (sys st' [])"
proof -
  let ?lc = "(\<lambda>_ _. 0) :: string \<Rightarrow> string \<Rightarrow> int"
  obtain st q where st: "reached ?lc (sys st [])" "reads st ''q1'' q" "answered_by_someone q" "qu_answer q = Some ''yes''"
      "qu_status q = StAnswered" "\<not> qu_deleted q" by (rule sample_answered)
  obtain st' where p: "perform ?lc 3000 (JStr ''q1'') handed_no st = Inr st'" by (rule sample_handed_back[OF st(1-3,5,6)])
  have docs: "docs_stored st" using reached_ok[OF st(1)] by (simp add: system_ok_def)
  have "(qstep ?lc)\<^sup>*\<^sup>* (sys st []) (sys st' [])" using operation_is_a_run[OF docs p] by (simp add: handed_no_def)
  with st p show ?thesis by blast
qed

theorem open_index_exact_when_idle_witness:
  "\<exists>st. reached (\<lambda>_ _. 0) (sys st []) \<and> JObj (summarizeQuestion sample_question) \<in> set (qs_index st)"
proof -
  let ?lc = "(\<lambda>_ _. 0) :: string \<Rightarrow> string \<Rightarrow> int"
  obtain st where st: "reached ?lc (sys st [])" "reads st ''q1'' sample_question" by (rule sample_asked)
  have "qu_status sample_question = StOpen" by (simp add: sample_question_def new_question_def Let_def)
  then show ?thesis using open_index_exact_when_idle[OF st(1)] st by (intro exI[of _ st]) auto
qed

theorem given_answer_stays_witness:
  "\<exists>s s' q q'. reached (\<lambda>_ _. 0) s \<and> (qstep (\<lambda>_ _. 0))\<^sup>*\<^sup>* s s' \<and> reads (sy_store s) ''q1'' q \<and> qu_answer q = Some ''yes''
     \<and> qrun (\<lambda>_ _. 0) s [(''q1'', handed_no)] s' \<and> reads (sy_store s') ''q1'' q' \<and> answered_by_someone q' \<and> qu_answer q' = Some ''no''"
proof -
  let ?lc = "(\<lambda>_ _. 0) :: string \<Rightarrow> string \<Rightarrow> int"
  obtain st q where st: "reached ?lc (sys st [])" "reads st ''q1'' q" "answered_by_someone q" "qu_answer q = Some ''yes''"
      "qu_status q = StAnswered" "\<not> qu_deleted q" by (rule sample_answered)
  obtain u where d: "decide handed_no 3000 q = Some u" by (rule sample_handed_back[OF st(1-3,5,6)])
  let ?s' = "sys (put_doc ''q1'' (update_obj u) st) [([''q1''], [qu_agentID q])]"
  have step: "qstep ?lc (sys st []) ?s'"
    using qstep.update[of "sys st []" "''q1''" q handed_no 3000 u ?lc] st(2) d by (simp add: handed_no_def)
  have "docs_stored st" using reached_ok[OF st(1)] by (simp add: system_ok_def)
  note u = decide_ok[OF d _ stored_read[OF this st(2)]]
  have "reads (sy_store ?s') k' q' \<longleftrightarrow> (if k' = ''q1'' then q' = fst u else reads (sy_store (sys st [])) k' q')" for k' q'
    using reads_put[OF u(1,2), of "''q1''" st k' q'] u(3) reads_qid[OF st(2)] by (simp add: kept_identity_def handed_no_def)
  then have run: "qrun ?lc (sys st []) [(''q1'', handed_no)] ?s'"
    using qrun.wrote[OF qrun.start step _ d, of "''q1''"] st(2) by (simp add: handed_no_def)
  have kept: "answer_after [(''q1'', handed_no)] ''q1'' (Some ''yes'') = Some ''no''"
    by (simp add: answer_after_def handed_no_def optional_string_def normalizeOptionalString_def js_trim_def js_space_def)
  from given_answer_stays[OF st(1) r_into_rtranclp[of "qstep ?lc", OF step], of "''q1''" q] st(2,3) run
  obtain q' where "reads (sy_store ?s') ''q1'' q'" "answered_by_someone q'" "qu_answer q' = answer_after [(''q1'', handed_no)] ''q1'' (qu_answer q)"
    by auto
  with st(1,2,4) kept run r_into_rtranclp[of "qstep ?lc", OF step] show ?thesis
    by (intro exI[of _ "sys st []"] exI[of _ ?s'] exI[of _ q] exI[of _ q']) simp
qed

theorem delivery_retries_are_bounded_witness:
  "\<exists>s q. reached (\<lambda>_ _. 0) s \<and> reads (sy_store s) ''q1'' q \<and> qu_nextDeliveryAt q = Some (Fin 33000) \<and> 1 \<le> qu_deliveryAttempts q"
proof -
  let ?lc = "(\<lambda>_ _. 0) :: string \<Rightarrow> string \<Rightarrow> int"
  obtain st q where st: "reached ?lc (sys st [])" "reads st ''q1'' q" "qu_deliveryAttempts q = 0" by (rule sample_answered)
  obtain st' where st': "reached ?lc (sys st' [])" "reads st' ''q1'' (fst (failure_update [] 3000 q))"
    by (rule update_settled[OF st(1,2), of "OpFailure []" 3000]) auto
  have n: "qu_nextDeliveryAt (fst (failure_update [] 3000 q)) = Some (Fin 33000)"
    using st(3) by (simp add: failure_update_def next_delay_def DELIVERY_RETRY_DELAYS_MS_def)
  have "1 \<le> qu_deliveryAttempts (fst (failure_update [] 3000 q))"
    using delivery_retries_are_bounded[OF st'(1), of "''q1''"] st'(2) n by simp
  with n st' show ?thesis by (intro exI[of _ "sys st' []"] exI[of _ "fst (failure_update [] 3000 q)"]) simp
qed

end
