(* ===== verification/WhereClause.thy ===== *)
theory WhereClause
  imports JSValue
begin

text \<open>
  The normalizer of where clauses, \<open>src/core/database/where-clause.mjs\<close>: condition objects, shorthand field maps, groups, arrays,
  JSON texts and condition strings become one tree. \<open>JSON.parse\<close> is an argument that answers a value or the message of its error.
  The recursion goes through \<open>JSON.parse\<close>, so it is bounded by fuel; a weight of the input is shown to be enough.
\<close>

section \<open>Trees\<close>

datatype where_op = OpEq | OpNe | OpGt | OpGte | OpLt | OpLte | OpIn | OpContains | OpPrefix | OpExists

definition WHERE_OPERATORS :: "where_op list" where
  "WHERE_OPERATORS = [OpEq, OpNe, OpGt, OpGte, OpLt, OpLte, OpIn, OpContains, OpPrefix, OpExists]"

fun op_text :: "where_op \<Rightarrow> string" where
  "op_text OpEq = ''eq''"
| "op_text OpNe = ''ne''"
| "op_text OpGt = ''gt''"
| "op_text OpGte = ''gte''"
| "op_text OpLt = ''lt''"
| "op_text OpLte = ''lte''"
| "op_text OpIn = ''in''"
| "op_text OpContains = ''contains''"
| "op_text OpPrefix = ''prefix''"
| "op_text OpExists = ''exists''"

datatype where_tree =
    Condition string where_op jsval
  | AllOf "where_tree option list"
  | AnyOf "where_tree option list"
  | Negation where_tree

definition WHERE_SHAPE_HELP :: string where
  "WHERE_SHAPE_HELP = ''where accepts {field:\"authorType\",op:\"eq\",value:\"user\"}, shorthand {authorType:\"user\"} or {authorType:{eq:\"user\"}}, and/or/not groups, or a string such as \"authorType=eq user, createdAt=gt 1793120000000000\".''"

definition whereError :: "string \<Rightarrow> js_error" where
  "whereError message = TypeError (message @ ''. '' @ WHERE_SHAPE_HELP)"

section \<open>Conditions\<close>

definition normalizeField :: "jsval \<Rightarrow> js_error + string" where
  "normalizeField v =
     (if trim_or_empty v = [] then Inl (whereError ''where condition requires a non-empty field'') else Inr (trim_or_empty v))"

definition op_of :: "string \<Rightarrow> where_op option" where
  "op_of s = find (\<lambda>op. op_text op = s) WHERE_OPERATORS"

definition strip_dollar :: "string \<Rightarrow> string" where
  "strip_dollar s = (case s of [] \<Rightarrow> [] | c # cs \<Rightarrow> if c = CHR ''$'' then cs else s)"

definition normalizeOperator :: "jsval \<Rightarrow> js_error + where_op" where
  "normalizeOperator v =
     (let op = toLowerCase (strip_dollar (trim_or_empty v))
      in if op = [] then Inl (whereError ''where condition requires an operator'')
         else case op_of op of None \<Rightarrow> Inl (whereError (''unsupported where operator: '' @ op)) | Some w \<Rightarrow> Inr w)"

definition condition_value :: "jsobj \<Rightarrow> jsval" where
  "condition_value d =
     (if has_own d ''value'' then oget d ''value'' else if has_own d ''val'' then oget d ''val'' else JBool True)"

definition checked_condition :: "string \<Rightarrow> where_op \<Rightarrow> jsval \<Rightarrow> js_error + where_tree" where
  "checked_condition field op v =
     (let v' = (if op = OpExists then JBool True else v)
      in if op = OpIn \<and> \<not> is_arr v' then Inl (whereError ''where op \"in\" requires an array value'') else Inr (Condition field op v'))"

definition normalizeCondition :: "jsobj \<Rightarrow> js_error + where_tree" where
  "normalizeCondition d =
     and_then (normalizeField (js_nc (js_nc (oget d ''field'') (oget d ''name'')) (oget d ''key''))) (\<lambda>field.
     and_then (normalizeOperator (js_nc (oget d ''op'') (oget d ''operator''))) (\<lambda>op.
     checked_condition field op (condition_value d)))"

definition conditionsForField :: "string \<Rightarrow> jsval \<Rightarrow> js_error + where_tree list" where
  "conditionsForField fieldName spec =
     and_then (normalizeField (JStr fieldName)) (\<lambda>field.
       case spec of
         JArr _ \<Rightarrow> Inr [Condition field OpIn spec]
       | JObj d \<Rightarrow>
           if list_ex (\<lambda>(k, _). k \<in> {''op'', ''operator'', ''value''}) d
           then and_then (normalizeCondition (oset d ''field'' (js_nc (oget d ''field'') (JStr field)))) (\<lambda>c. Inr [c])
           else and_then (try_map (\<lambda>(rawOp, v). and_then (normalizeOperator (JStr rawOp)) (\<lambda>op. checked_condition field op v)) d) (\<lambda>cs.
             if cs = [] then Inl (whereError (''where field \"'' @ field @ ''\" has no operator'')) else Inr cs)
       | _ \<Rightarrow> Inr [Condition field OpEq spec])"

fun conjunction :: "where_tree list \<Rightarrow> where_tree" where
  "conjunction [c] = c"
| "conjunction cs = AllOf (map Some cs)"

section \<open>Condition strings\<close>

definition field_char :: "char \<Rightarrow> bool" where
  "field_char c = (let n = of_char c :: nat in
     (65 \<le> n \<and> n \<le> 90) \<or> (97 \<le> n \<and> n \<le> 122) \<or> (48 \<le> n \<and> n \<le> 57) \<or> c \<in> set ''_.-'')"

definition word_char :: "char \<Rightarrow> bool" where
  "word_char c \<longleftrightarrow> field_char c \<and> c \<notin> {CHR ''.'', CHR ''-''}"

text \<open>An operator at the start of a text, closed by a word boundary, and the text after it and an optional colon.\<close>

definition op_prefix :: "string \<Rightarrow> (string \<times> string) option" where
  "op_prefix t =
     (case find (\<lambda>op. toLowerCase (take (length (op_text op)) t) = op_text op
            \<and> (case drop (length (op_text op)) t of [] \<Rightarrow> True | c # _ \<Rightarrow> \<not> word_char c)) WHERE_OPERATORS of
        None \<Rightarrow> None
      | Some op \<Rightarrow>
          let r = dropWhile js_space (drop (length (op_text op)) t)
          in Some (take (length (op_text op)) t, case r of [] \<Rightarrow> [] | c # r' \<Rightarrow> if c = CHR '':'' then dropWhile js_space r' else r))"

definition line_end :: "char \<Rightarrow> bool" where
  "line_end c \<longleftrightarrow> c = CHR 0x0A \<or> c = CHR 0x0D"

definition trim_end :: "string \<Rightarrow> string" where
  "trim_end s = rev (dropWhile js_space (rev s))"

text \<open>The groups of the condition's regular expression.\<close>

definition condition_match :: "string \<Rightarrow> (string \<times> string option \<times> string) option" where
  "condition_match s =
     (let t = dropWhile js_space s; field = takeWhile field_char t
      in case dropWhile js_space (dropWhile field_char t) of
           [] \<Rightarrow> None
         | c # t2 \<Rightarrow>
             if field = [] \<or> c \<notin> {CHR ''='', CHR '':''} then None
             else let t3 = dropWhile js_space t2;
                      (op, rest) = (case op_prefix t3 of None \<Rightarrow> (None, t3) | Some (w, r) \<Rightarrow> (Some w, r))
                  in if list_ex line_end (trim_end rest) then None else Some (field, op, trim_end rest))"

definition quoted_with :: "char \<Rightarrow> string \<Rightarrow> bool" where
  "quoted_with q text \<longleftrightarrow> text \<noteq> [] \<and> hd text = q \<and> last text = q"

definition parseScalar :: "(string \<Rightarrow> string + jsval) \<Rightarrow> string \<Rightarrow> jsval" where
  "parseScalar parse v =
     (let text = js_trim v
      in if text = [] then JStr []
         else if quoted_with (CHR 0x22) text \<or> quoted_with (CHR 0x27) text then JStr (butlast (tl text))
         else case parse text of Inl _ \<Rightarrow> JStr text | Inr j \<Rightarrow> j)"

definition parseConditionString :: "(string \<Rightarrow> string + jsval) \<Rightarrow> string \<Rightarrow> js_error + where_tree" where
  "parseConditionString parse v =
     (case condition_match v of
        None \<Rightarrow> Inl (whereError (''where condition \"'' @ v @ ''\" is not understood; '' @ WHERE_SHAPE_HELP))
      | Some (f, op, raw) \<Rightarrow>
          and_then (normalizeField (JStr f)) (\<lambda>field.
          and_then (normalizeOperator (JStr (case op of None \<Rightarrow> ''eq'' | Some w \<Rightarrow> w))) (\<lambda>op.
            if op = OpExists then Inr (Condition field op (JBool True))
            else let value = parseScalar parse raw
                 in if op = OpIn \<and> \<not> is_arr value
                    then Inl (whereError ''where op \"in\" requires an array value, for example name=in:[\"a\",\"b\"]'')
                    else Inr (Condition field op value))))"

text \<open>The state of \<open>splitTopLevel\<close>: the part that is read, the depth and the open quote. A step may complete a part.\<close>

type_synonym splitting = "string \<times> nat \<times> char option"

definition split_char :: "char \<Rightarrow> char option \<Rightarrow> char \<Rightarrow> splitting \<Rightarrow> string option \<times> splitting" where
  "split_char sep prev c st =
     (case st of (current, depth, quote) \<Rightarrow>
        (case quote of
           Some q \<Rightarrow> (None, current @ [c], depth, if c = q \<and> prev \<noteq> Some (CHR 0x5C) then None else quote)
         | None \<Rightarrow>
             if c = CHR 0x22 \<or> c = CHR 0x27 then (None, current @ [c], depth, Some c)
             else if c \<in> set ''[{('' then (None, current @ [c], Suc depth, None)
             else if c \<in> set '']})'' then (None, current @ [c], depth - 1, None)
             else if c = sep \<and> depth = 0 then (Some current, [], depth, None)
             else (None, current @ [c], depth, None)))"

primrec split_loop :: "char \<Rightarrow> string \<Rightarrow> char option \<Rightarrow> splitting \<Rightarrow> string list" where
  "split_loop sep [] prev st = [fst st]"
| "split_loop sep (c # cs) prev st =
     (case split_char sep prev c st of
        (None, st') \<Rightarrow> split_loop sep cs (Some c) st'
      | (Some part, st') \<Rightarrow> part # split_loop sep cs (Some c) st')"

definition splitTopLevel :: "string \<Rightarrow> char \<Rightarrow> string list" where
  "splitTopLevel v separator = split_loop separator v None ([], 0, None)"

section \<open>Clauses\<close>

text \<open>A result is missing when the fuel does not reach.\<close>

type_synonym 'a fueled = "(js_error + 'a) option"

fun wbind :: "'a fueled \<Rightarrow> ('a \<Rightarrow> 'b fueled) \<Rightarrow> 'b fueled" where
  "wbind None f = None"
| "wbind (Some (Inl e)) f = Some (Inl e)"
| "wbind (Some (Inr a)) f = f a"

fun wmap :: "('a \<Rightarrow> 'b fueled) \<Rightarrow> 'a list \<Rightarrow> 'b list fueled" where
  "wmap f [] = Some (Inr [])"
| "wmap f (x # xs) = wbind (f x) (\<lambda>y. wbind (wmap f xs) (\<lambda>ys. Some (Inr (y # ys))))"

definition CONDITION_KEYS :: "string list" where
  "CONDITION_KEYS = [''field'', ''name'', ''key'', ''op'', ''operator'', ''value'', ''val'']"

definition parseWhereString :: "(string \<Rightarrow> string + jsval) \<Rightarrow> (jsval \<Rightarrow> where_tree option fueled) \<Rightarrow> string \<Rightarrow> where_tree option fueled" where
  "parseWhereString parse sub s =
     (let text = js_trim s
      in if text = [] then Some (Inl (whereError ''where string must not be empty''))
         else if hd text = CHR ''{'' \<or> hd text = CHR ''['' then
           (case parse text of Inl message \<Rightarrow> Some (Inl (whereError (''where JSON could not be parsed: '' @ message)))
            | Inr j \<Rightarrow> sub j)
         else Some (and_then (try_map (parseConditionString parse) (filter (\<lambda>p. p \<noteq> []) (map js_trim (splitTopLevel text (CHR '',''))))) (\<lambda>cs.
           if cs = [] then Inl (whereError ''where string must contain at least one condition'') else Inr (Some (conjunction cs)))))"

definition normalizeObject :: "(jsval \<Rightarrow> where_tree option fueled) \<Rightarrow> jsobj \<Rightarrow> where_tree option fueled" where
  "normalizeObject sub d =
     (if d = [] then Some (Inl (whereError ''where must contain at least one condition or and/or/not group''))
      else if has_own d ''and'' then
        (case oget d ''and'' of JArr xs \<Rightarrow> wbind (wmap sub xs) (\<lambda>cs. Some (Inr (Some (AllOf cs))))
         | _ \<Rightarrow> Some (Inl (whereError ''where.and must be an array'')))
      else if has_own d ''or'' then
        (case oget d ''or'' of JArr xs \<Rightarrow> wbind (wmap sub xs) (\<lambda>cs. Some (Inr (Some (AnyOf cs))))
         | _ \<Rightarrow> Some (Inl (whereError ''where.or must be an array'')))
      else if has_own d ''not'' then
        wbind (sub (oget d ''not'')) (\<lambda>child. Some (case child of
          None \<Rightarrow> Inl (whereError ''where.not must contain a condition'') | Some c \<Rightarrow> Inr (Some (Negation c))))
      else if list_ex (\<lambda>(k, _). k \<in> set CONDITION_KEYS) d then Some (and_then (normalizeCondition d) (\<lambda>c. Inr (Some c)))
      else Some (and_then (try_map (\<lambda>(field, spec). conditionsForField field spec) d) (\<lambda>css.
        if concat css = [] then Inl (whereError ''where must contain at least one condition'') else Inr (Some (conjunction (concat css))))))"

fun normalizeWhereClause :: "(string \<Rightarrow> string + jsval) \<Rightarrow> nat \<Rightarrow> jsval \<Rightarrow> where_tree option fueled" where
  "normalizeWhereClause parse 0 v = None"
| "normalizeWhereClause parse (Suc n) v =
     (if nullish v then Some (Inr None)
      else case v of
        JStr s \<Rightarrow> parseWhereString parse (normalizeWhereClause parse n) s
      | JArr xs \<Rightarrow> wbind (wmap (normalizeWhereClause parse n) xs) (\<lambda>cs. Some (
          case cs of [] \<Rightarrow> Inl (whereError ''where array must contain at least one condition'')
          | [c] \<Rightarrow> Inr c
          | _ \<Rightarrow> Inr (Some (AllOf cs))))
      | JObj d \<Rightarrow> normalizeObject (normalizeWhereClause parse n) d
      | _ \<Rightarrow> Some (Inl (whereError ''where must be an object or a condition string'')))"

section \<open>Enough fuel\<close>

fun weight :: "jsval \<Rightarrow> nat" where
  "weight (JStr s) = Suc (length s)"
| "weight (JArr xs) = Suc (sum_list (map weight xs))"
| "weight (JObj ps) = Suc (sum_list (map (\<lambda>p. weight (snd p)) ps))"
| "weight _ = 1"

text \<open>A JSON text is at least as long as what it denotes is heavy.\<close>

definition json_shrinks :: "(string \<Rightarrow> string + jsval) \<Rightarrow> bool" where
  "json_shrinks parse \<longleftrightarrow> (\<forall>t v. parse t = Inr v \<longrightarrow> weight v \<le> length t)"

lemma element_weight: "x \<in> set xs \<Longrightarrow> weight x < weight (JArr xs)"
  by (simp add: less_Suc_eq_le member_le_sum_list)

lemma oget_weight:
  assumes "has_own d k"
  shows "weight (oget d k) < weight (JObj d)"
proof -
  have "(k, oget d k) \<in> set d" using assms by (auto simp: has_own_def oget_def dest: map_of_SomeD split: option.splits)
  then have "weight (oget d k) \<in> set (map (\<lambda>p. weight (snd p)) d)" by force
  then show ?thesis by (simp add: less_Suc_eq_le member_le_sum_list del: set_map)
qed

lemma trim_length: "length (js_trim s) \<le> length s"
  unfolding js_trim_def by (metis length_dropWhile_le length_rev le_trans)

lemma wmap_returns: "(\<And>x. x \<in> set xs \<Longrightarrow> f x \<noteq> None) \<Longrightarrow> wmap f xs \<noteq> None"
proof (induction xs)
  case (Cons x xs)
  then obtain r rs where "f x = Some r" "wmap f xs = Some rs" by (meson list.set_intros not_Some_eq)
  then show ?case by (cases r; cases rs) simp_all
qed simp

lemma wbind_None: "wbind r f = None \<longleftrightarrow> r = None \<or> (\<exists>a. r = Some (Inr a) \<and> f a = None)"
  by (cases "(r, f)" rule: wbind.cases) auto

lemma wbind_Inr: "wbind r f = Some (Inr b) \<longleftrightarrow> (\<exists>a. r = Some (Inr a) \<and> f a = Some (Inr b))"
  by (cases "(r, f)" rule: wbind.cases) auto

lemma wmap_Inr: "wmap f xs = Some (Inr ys) \<longleftrightarrow> list_all2 (\<lambda>x y. f x = Some (Inr y)) xs ys"
  by (induction xs arbitrary: ys) (auto simp: wbind_Inr list_all2_Cons1)

lemma object_returns:
  assumes "\<And>k. has_own d k \<Longrightarrow> sub (oget d k) \<noteq> None" "\<And>k xs. has_own d k \<Longrightarrow> oget d k = JArr xs \<Longrightarrow> wmap sub xs \<noteq> None"
  shows "normalizeObject sub d \<noteq> None"
proof
  assume n: "normalizeObject sub d = None"
  consider k xs where "has_own d k" "oget d k = JArr xs" "wmap sub xs = None" | "has_own d ''not''" "sub (oget d ''not'') = None"
    using n unfolding normalizeObject_def wbind_None by (auto simp: wbind_None split: if_split_asm jsval.split_asm)
  then show False using assms by cases metis+
qed

lemma normalize_simps [simp]:
  "normalizeWhereClause parse (Suc n) Null = Some (Inr None)"
  "normalizeWhereClause parse (Suc n) (JStr s) = parseWhereString parse (normalizeWhereClause parse n) s"
  "normalizeWhereClause parse (Suc n) (JArr xs) = wbind (wmap (normalizeWhereClause parse n) xs) (\<lambda>cs. Some (
     case cs of [] \<Rightarrow> Inl (whereError ''where array must contain at least one condition'') | [c] \<Rightarrow> Inr c | _ \<Rightarrow> Inr (Some (AllOf cs))))"
  "normalizeWhereClause parse (Suc n) (JObj d) = normalizeObject (normalizeWhereClause parse n) d"
  by simp_all

lemma normalize_returns: "json_shrinks parse \<Longrightarrow> weight v \<le> n \<Longrightarrow> normalizeWhereClause parse n v \<noteq> None"
proof (induction n arbitrary: v)
  case 0
  then show ?case by (cases v) simp_all
next
  case (Suc n)
  have kids: "normalizeWhereClause parse n x \<noteq> None" if "weight x < weight v" for x using Suc that by simp
  show ?case
  proof (cases v)
    case (JStr s)
    have "normalizeWhereClause parse n j \<noteq> None" if "parse (js_trim s) = Inr j" for j
    proof -
      have "weight j \<le> length (js_trim s)" using Suc.prems(1) that by (simp add: json_shrinks_def)
      then show ?thesis using kids[of j] trim_length[of s] JStr by simp
    qed
    then show ?thesis using JStr by (auto simp: parseWhereString_def Let_def split: sum.splits)
  next
    case (JArr xs)
    have "wmap (normalizeWhereClause parse n) xs \<noteq> None" using kids element_weight JArr by (intro wmap_returns) blast
    then show ?thesis using JArr by (simp add: wbind_None)
  next
    case (JObj d)
    have own: "normalizeWhereClause parse n (oget d k) \<noteq> None" if "has_own d k" for k using kids oget_weight[OF that] JObj by simp
    have deep: "wmap (normalizeWhereClause parse n) xs \<noteq> None" if "has_own d k" "oget d k = JArr xs" for k xs
    proof (rule wmap_returns)
      fix x assume "x \<in> set xs"
      then have "weight x < weight (JObj d)" using element_weight oget_weight[OF that(1)] that(2) by (metis order.strict_trans)
      then show "normalizeWhereClause parse n x \<noteq> None" using kids JObj by simp
    qed
    show ?thesis using object_returns[of d "normalizeWhereClause parse n", OF own deep] JObj by simp
  qed simp_all
qed

declare normalizeWhereClause.simps(2) [simp del]

section \<open>Canonical trees\<close>

fun where_ok :: "where_tree \<Rightarrow> bool" where
  "where_ok (Condition field op v) \<longleftrightarrow> field \<noteq> [] \<and> js_trim field = field \<and> (op = OpIn \<longrightarrow> is_arr v) \<and> (op = OpExists \<longrightarrow> v = JBool True)"
| "where_ok (AllOf cs) = list_all (\<lambda>c. case c of None \<Rightarrow> True | Some w \<Rightarrow> where_ok w) cs"
| "where_ok (AnyOf cs) = list_all (\<lambda>c. case c of None \<Rightarrow> True | Some w \<Rightarrow> where_ok w) cs"
| "where_ok (Negation w) = where_ok w"

fun where_obj :: "where_tree \<Rightarrow> jsval" where
  "where_obj (Condition field op v) = JObj [(''field'', JStr field), (''op'', JStr (op_text op)), (''value'', v)]"
| "where_obj (AllOf cs) = JObj [(''and'', JArr (map (\<lambda>c. case c of None \<Rightarrow> Null | Some w \<Rightarrow> where_obj w) cs))]"
| "where_obj (AnyOf cs) = JObj [(''or'', JArr (map (\<lambda>c. case c of None \<Rightarrow> Null | Some w \<Rightarrow> where_obj w) cs))]"
| "where_obj (Negation w) = JObj [(''not'', where_obj w)]"

lemma op_of_text [simp]: "op_of (op_text op) = Some op"
  by (cases op) (simp_all add: op_of_def WHERE_OPERATORS_def)

lemma op_text_normal [simp]: "normalizeOperator (JStr (op_text op)) = Inr op"
proof -
  have "toLowerCase (strip_dollar (trim_or_empty (JStr (op_text op)))) = op_text op" "op_text op \<noteq> []"
    by (cases op; simp add: js_trim_def js_space_def strip_dollar_def toLowerCase_def lower_char_def)+
  then show ?thesis by (simp add: normalizeOperator_def)
qed

lemma field_ok: "normalizeField v = Inr field \<Longrightarrow> field \<noteq> [] \<and> js_trim field = field"
  by (auto simp: normalizeField_def split: if_splits)

lemma checked_ok: "checked_condition field op v = Inr w \<Longrightarrow> field \<noteq> [] \<Longrightarrow> js_trim field = field \<Longrightarrow> where_ok w"
  by (auto simp: checked_condition_def Let_def split: if_splits)

lemma normalizeCondition_ok: "normalizeCondition d = Inr w \<Longrightarrow> where_ok w"
  by (auto simp: normalizeCondition_def and_then_Inr dest: field_ok intro: checked_ok)

lemma try_map_result: "try_map f xs = Inr ys \<Longrightarrow> y \<in> set ys \<Longrightarrow> \<exists>x \<in> set xs. f x = Inr y"
  unfolding try_map_Inr_iff by (induction xs ys rule: list_all2_induct) auto

lemma conditionsForField_ok:
  assumes "conditionsForField fieldName spec = Inr cs"
  shows "\<forall>c \<in> set cs. where_ok c"
proof -
  obtain field where f: "normalizeField (JStr fieldName) = Inr field" using assms by (auto simp: conditionsForField_def and_then_Inr)
  note ok = field_ok[OF f]
  show ?thesis
  proof (cases spec)
    case (JObj d)
    show ?thesis
    proof (cases "list_ex (\<lambda>(k, _). k \<in> {''op'', ''operator'', ''value''}) d")
      case True
      then show ?thesis using assms JObj f by (auto simp: conditionsForField_def and_then_Inr dest: normalizeCondition_ok)
    next
      case False
      then have "try_map (\<lambda>(rawOp, v). and_then (normalizeOperator (JStr rawOp)) (\<lambda>op. checked_condition field op v)) d = Inr cs"
        using assms JObj f unfolding conditionsForField_def by (auto simp: and_then_Inr split: if_split_asm)
      then show ?thesis using ok by (auto simp: and_then_Inr dest!: try_map_result intro: checked_ok)
    qed
  qed (use assms f ok in \<open>auto simp: conditionsForField_def\<close>)
qed

lemma parseConditionString_ok:
  assumes "parseConditionString parse v = Inr w"
  shows "where_ok w"
proof -
  obtain f op' raw where "condition_match v = Some (f, op', raw)" using assms by (auto simp: parseConditionString_def split: option.splits)
  with assms obtain field op where f: "normalizeField (JStr f) = Inr field" and
    w: "(if op = OpExists then Inr (Condition field op (JBool True))
         else let value = parseScalar parse raw
              in if op = OpIn \<and> \<not> is_arr value
                 then Inl (whereError ''where op \"in\" requires an array value, for example name=in:[\"a\",\"b\"]'')
                 else Inr (Condition field op value)) = Inr w"
    by (auto simp: parseConditionString_def and_then_Inr)
  show ?thesis using w field_ok[OF f] by (auto simp: Let_def split: if_split_asm)
qed

lemma conjunction_ok: "\<forall>c \<in> set cs. where_ok c \<Longrightarrow> where_ok (conjunction cs)"
  by (cases cs rule: conjunction.cases) (auto simp: list_all_iff)

lemma fields_ok:
  assumes "try_map (\<lambda>(field, spec). conditionsForField field spec) d = Inr css"
  shows "\<forall>cs \<in> set css. \<forall>c \<in> set cs. where_ok c"
proof
  fix cs assume "cs \<in> set css"
  then obtain x where "(\<lambda>(field, spec). conditionsForField field spec) x = Inr cs" using try_map_result[OF assms] by blast
  then show "\<forall>c \<in> set cs. where_ok c" using conditionsForField_ok by (cases x) auto
qed

lemma normalized_ok: "normalizeWhereClause parse n v = Some (Inr (Some w)) \<Longrightarrow> where_ok w"
proof (induction n arbitrary: v w)
  case (Suc n)
  let ?sub = "normalizeWhereClause parse n"
  have kids: "list_all (\<lambda>c. case c of None \<Rightarrow> True | Some w \<Rightarrow> where_ok w) cs" if "wmap ?sub xs = Some (Inr cs)" for xs cs
    using that Suc.IH by (fastforce simp: wmap_Inr list_all2_conv_all_nth list_all_length split: option.splits)
  show ?case
  proof (cases v)
    case (JStr s)
    then show ?thesis using Suc.prems Suc.IH
      by (auto simp: parseWhereString_def Let_def and_then_Inr intro!: conjunction_ok dest!: try_map_result parseConditionString_ok
          split: if_split_asm sum.split_asm)
  next
    case (JArr xs)
    then obtain cs where "wmap ?sub xs = Some (Inr cs)"
      "(case cs of [] \<Rightarrow> Inl (whereError ''where array must contain at least one condition'') | [c] \<Rightarrow> Inr c | _ \<Rightarrow> Inr (Some (AllOf cs))) = Inr (Some w)"
      using Suc.prems by (auto simp: wbind_Inr)
    then show ?thesis using kids by (fastforce split: list.split_asm option.split_asm)
  next
    case (JObj d)
    then have "normalizeObject ?sub d = Some (Inr (Some w))" using Suc.prems by simp
    then show ?thesis
      unfolding normalizeObject_def
      by (auto simp: wbind_Inr kids and_then_Inr intro!: conjunction_ok dest: normalizeCondition_ok
          split: if_split_asm jsval.split_asm option.split_asm) (use Suc.IH fields_ok in blast)+
  qed (use Suc.prems in \<open>simp_all add: normalizeWhereClause.simps(2)\<close>)
qed simp

lemma children_fixed:
  assumes "\<And>w. Some w \<in> set cs \<Longrightarrow> normalizeWhereClause parse (Suc m) (where_obj w) = Some (Inr (Some w))"
  shows "wmap (normalizeWhereClause parse (Suc m)) (map (\<lambda>c. case c of None \<Rightarrow> Null | Some w \<Rightarrow> where_obj w) cs) = Some (Inr cs)"
  using assms
proof (induction cs)
  case (Cons c cs)
  then have "wmap (normalizeWhereClause parse (Suc m)) (map (\<lambda>c. case c of None \<Rightarrow> Null | Some w \<Rightarrow> where_obj w) cs) = Some (Inr cs)"
    by simp
  moreover have "normalizeWhereClause parse (Suc m) (case c of None \<Rightarrow> Null | Some w \<Rightarrow> where_obj w) = Some (Inr c)"
    using Cons.prems by (cases c) auto
  ultimately show ?case by simp
qed simp

lemma child_size: "Some w \<in> set cs \<Longrightarrow> Suc (size w) < size_list (size_option size) cs"
  by (induction cs) auto

lemma canonical_fixed: "where_ok w \<Longrightarrow> Suc (size w) < n \<Longrightarrow> normalizeWhereClause parse n (where_obj w) = Some (Inr (Some w))"
proof (induction w arbitrary: n rule: where_ok.induct)
  case (1 field op v)
  obtain m where "n = Suc m" using 1 by (cases n) auto
  moreover have "normalizeOperator (JStr (op_text op)) = Inr op" by simp
  ultimately show ?case using 1 by (auto simp: normalizeObject_def has_own_def normalizeCondition_def CONDITION_KEYS_def
        normalizeField_def condition_value_def checked_condition_def js_nc_def simp del: op_text_normal op_text.simps)
next
  case (2 cs)
  then obtain m where m: "n = Suc (Suc m)" by (cases n; cases "n - 1") auto
  have "normalizeWhereClause parse (Suc m) (where_obj w) = Some (Inr (Some w))" if "Some w \<in> set cs" for w
  proof (rule "2.IH"[OF that refl])
    show "where_ok w" using "2.prems"(1) that by (force simp: list_all_iff)
    show "Suc (size w) < Suc m" using "2.prems"(2) child_size[OF that] m by simp
  qed
  note kids = children_fixed[OF this]
  then show ?case by (simp add: m normalizeObject_def has_own_def)
next
  case (3 cs)
  then obtain m where m: "n = Suc (Suc m)" by (cases n; cases "n - 1") auto
  have "normalizeWhereClause parse (Suc m) (where_obj w) = Some (Inr (Some w))" if "Some w \<in> set cs" for w
  proof (rule "3.IH"[OF that refl])
    show "where_ok w" using "3.prems"(1) that by (force simp: list_all_iff)
    show "Suc (size w) < Suc m" using "3.prems"(2) child_size[OF that] m by simp
  qed
  note kids = children_fixed[OF this]
  then show ?case by (simp add: m normalizeObject_def has_own_def)
next
  case (4 w)
  then obtain m where "n = Suc m" by (cases n) auto
  then show ?case using 4 by (simp add: normalizeObject_def has_own_def)
qed

section \<open>Properties\<close>

text \<open>
  C26: Whatever spelling a caller uses (a condition object with its aliases, a shorthand map, groups, arrays, a JSON text or a
  condition string), an accepted clause is canonical: fields are trimmed and not blank, \<open>in\<close> has an array and \<open>exists\<close> has \<open>true\<close>;
  and the canonical form is a fixed point, so normalizing an accepted clause again changes nothing.
\<close>

theorem accepted_clause_is_canonical:
  assumes "normalizeWhereClause parse n v = Some (Inr (Some w))"
  shows "where_ok w \<and> (\<exists>m. \<forall>k \<ge> m. normalizeWhereClause parse k (where_obj w) = Some (Inr (Some w)))"
proof -
  have ok: "where_ok w" using assms by (rule normalized_ok)
  then have "\<forall>k \<ge> Suc (Suc (size w)). normalizeWhereClause parse k (where_obj w) = Some (Inr (Some w))" using canonical_fixed by auto
  then show ?thesis using ok by blast
qed

text \<open>
  C27: Normalizing always returns, with a tree or an error, although it re-enters itself through \<open>JSON.parse\<close>: fuel by the weight of
  the input is enough, because a JSON text is at least as long as what it denotes is heavy.
\<close>

theorem where_normalization_returns:
  assumes "json_shrinks parse"
  shows "\<exists>r. normalizeWhereClause parse (weight v) v = Some r"
  using normalize_returns[OF assms, of v "weight v"] by auto

definition demo_parse :: "string \<Rightarrow> string + jsval" where
  "demo_parse t = (if t = ''17'' then Inr (JNum (Fin 17)) else if t = ''[]'' then Inr (JArr []) else Inl ''bad'')"

theorem accepted_clause_is_canonical_witness:
  "normalizeWhereClause demo_parse 1 (JStr ''authorType = EQ user, createdAt=gt 17'')
     = Some (Inr (Some (AllOf [Some (Condition ''authorType'' OpEq (JStr ''user'')), Some (Condition ''createdAt'' OpGt (JNum (Fin 17)))])))
   \<and> where_ok (AllOf [Some (Condition ''authorType'' OpEq (JStr ''user'')), Some (Condition ''createdAt'' OpGt (JNum (Fin 17)))])"
proof -
  have r: "normalizeWhereClause demo_parse 1 (JStr ''authorType = EQ user, createdAt=gt 17'')
     = Some (Inr (Some (AllOf [Some (Condition ''authorType'' OpEq (JStr ''user'')), Some (Condition ''createdAt'' OpGt (JNum (Fin 17)))])))"
    by code_simp
  show ?thesis using r accepted_clause_is_canonical[OF r] by blast
qed

theorem where_normalization_returns_witness:
  "json_shrinks demo_parse \<and> (\<exists>r. normalizeWhereClause demo_parse (weight (JArr [JStr ''[]''])) (JArr [JStr ''[]'']) = Some r)"
proof -
  have s: "json_shrinks demo_parse" by (auto simp: json_shrinks_def demo_parse_def split: if_splits)
  then show ?thesis using where_normalization_returns by blast
qed

text \<open>A shorthand map cannot filter by a field that is called like a key of a condition.\<close>

lemma name_shorthand_refused:
  "normalizeWhereClause parse (Suc n) (JObj [(''name'', JStr ''x'')]) = Some (Inl (whereError ''where condition requires an operator''))"
  by (simp add: normalizeObject_def has_own_def CONDITION_KEYS_def normalizeCondition_def normalizeField_def js_nc_def normalizeOperator_def
      strip_dollar_def toLowerCase_def js_trim_def js_space_def)

text \<open>A value whose first word is an operator loses it: the text before it is read as the operator.\<close>

lemma leading_word_taken_for_operator:
  "parseConditionString demo_parse ''state=in progress'' = Inl (whereError ''where op \"in\" requires an array value, for example name=in:[\"a\",\"b\"]'')"
  "parseConditionString demo_parse ''title=Contains: bugs'' = Inr (Condition ''title'' OpContains (JStr ''bugs''))"
  by code_simp+

end
