(* ===== verification/Mentions.thy ===== *)
theory Mentions
  imports JSONText DocumentUtils
begin

text \<open>
  Mentions of actors in the text of a message: \<open>src/core/mentions/mention-resolver.mjs\<close> and the decision of
  \<open>mention-frame-plugin.mjs\<close>. A text is scanned for \<open>@name\<close> and \<open>@"name"\<close>; the references are resolved by up to three services, each a
  list of methods that may be missing, answer, answer 404 or throw; the map of mentioned actors is merged into the frame's own.
\<close>

section \<open>Parsing\<close>

definition letter_or_digit :: "char \<Rightarrow> bool" where
  "letter_or_digit c = (let n = of_char c :: nat in (65 \<le> n \<and> n \<le> 90) \<or> (97 \<le> n \<and> n \<le> 122) \<or> (48 \<le> n \<and> n \<le> 57))"

definition isUnquotedMentionChar :: "char \<Rightarrow> bool" where
  "isUnquotedMentionChar c \<longleftrightarrow> letter_or_digit c \<or> c \<in> set ''_.:-''"

definition isMentionBoundary :: "char option \<Rightarrow> bool" where
  "isMentionBoundary prev = (case prev of None \<Rightarrow> True | Some c \<Rightarrow> \<not> (letter_or_digit c \<or> c \<in> set ''_.-''))"

definition trimUnquotedMentionEnd :: "string \<Rightarrow> string" where
  "trimUnquotedMentionEnd w = rev (dropWhile (\<lambda>c. c \<in> set ''.,!?;:'') (rev w))"

text \<open>A mention with the text it takes after its \<open>@\<close>.\<close>

record parsed_mention =
  pm_consumed :: string
  pm_reference :: string
  pm_quoted :: bool

fun quoted_loop :: "char \<Rightarrow> string \<Rightarrow> string \<Rightarrow> string \<Rightarrow> parsed_mention option" where
  "quoted_loop q consumed v [] = None"
| "quoted_loop q consumed v [c] =
     (if c = q \<and> js_trim v \<noteq> [] then Some \<lparr>pm_consumed = consumed @ [c], pm_reference = js_trim v, pm_quoted = True\<rparr> else None)"
| "quoted_loop q consumed v (c # d # cs) =
     (if c = CHR 0x5C then quoted_loop q (consumed @ [c, d]) (v @ [d]) cs
      else if c = q then
        (if js_trim v = [] then None else Some \<lparr>pm_consumed = consumed @ [c], pm_reference = js_trim v, pm_quoted = True\<rparr>)
      else quoted_loop q (consumed @ [c]) (v @ [c]) (d # cs))"

definition parseQuotedMention :: "char \<Rightarrow> string \<Rightarrow> parsed_mention option" where
  "parseQuotedMention q cs = quoted_loop q [q] [] cs"

definition parseMentionAt :: "string \<Rightarrow> parsed_mention option" where
  "parseMentionAt cs =
     (case cs of
        [] \<Rightarrow> None
      | first # rest \<Rightarrow>
          if first = CHR 0x22 \<or> first = CHR 0x27 then parseQuotedMention first rest
          else let w = trimUnquotedMentionEnd (takeWhile isUnquotedMentionChar cs)
               in if w = [] then None else Some \<lparr>pm_consumed = w, pm_reference = w, pm_quoted = False\<rparr>)"

text \<open>The mentions of a text, repeated references included, with the character before it.\<close>

function mentions_from :: "char option \<Rightarrow> string \<Rightarrow> parsed_mention list" where
  "mentions_from prev [] = []"
| "mentions_from prev (c # cs) =
     (if c \<noteq> CHR ''@'' \<or> \<not> isMentionBoundary prev then mentions_from (Some c) cs
      else case parseMentionAt cs of
             None \<Rightarrow> mentions_from (Some c) cs
           | Some m \<Rightarrow> m # mentions_from (Some (last (c # pm_consumed m))) (drop (length (pm_consumed m)) cs))"
  by pat_completeness auto
termination
  by (relation "measure (length \<circ> snd)") auto

fun first_by_reference :: "string list \<Rightarrow> parsed_mention list \<Rightarrow> parsed_mention list" where
  "first_by_reference seen [] = []"
| "first_by_reference seen (m # ms) =
     (if pm_reference m \<in> set seen then first_by_reference seen ms else m # first_by_reference (pm_reference m # seen) ms)"

definition reference_obj :: "parsed_mention \<Rightarrow> jsval" where
  "reference_obj m = JObj [(''raw'', JStr (CHR ''@'' # pm_consumed m)), (''reference'', JStr (pm_reference m)), (''quoted'', JBool (pm_quoted m))]"

definition parseMentionReferences :: "jsval \<Rightarrow> parsed_mention list" where
  "parseMentionReferences text = (case text of JStr s \<Rightarrow> first_by_reference [] (mentions_from None s) | _ \<Rightarrow> [])"

section \<open>Actors\<close>

definition nonblank_str :: "jsval \<Rightarrow> bool" where
  "nonblank_str v = (case v of JStr s \<Rightarrow> js_trim s \<noteq> [] | _ \<Rightarrow> False)"

definition firstString :: "jsval list \<Rightarrow> string" where
  "firstString vs = (case find nonblank_str vs of Some (JStr s) \<Rightarrow> js_trim s | _ \<Rightarrow> [])"

record mention =
  mn_id :: string
  mn_type :: string
  mn_name :: string
  mn_username :: "string option"
  mn_fullName :: string
  mn_reference :: jsval

definition mention_obj :: "mention \<Rightarrow> jsobj" where
  "mention_obj m = [(''id'', JStr (mn_id m)), (''type'', JStr (mn_type m)), (''name'', JStr (mn_name m)),
     (''username'', case mn_username m of None \<Rightarrow> Null | Some s \<Rightarrow> JStr s), (''fullName'', JStr (mn_fullName m)), (''reference'', mn_reference m)]"

definition normalizeActorMention :: "jsval \<Rightarrow> jsval \<Rightarrow> mention option" where
  "normalizeActorMention actor reference =
     (if \<not> is_obj actor then None
      else let aid = firstString [pget actor ''id'', pget actor ''actorID'', pget actor ''userID'', pget actor ''agentID''];
               kind = firstString [pget actor ''type'', pget actor ''actorType'', pget actor ''kind''];
               username = firstString [pget actor ''username'', pget actor ''userName''];
               fullName = firstString [pget actor ''fullName'', pget actor ''full_name'', pget actor ''displayName'', pget actor ''name'', JStr username, JStr aid]
           in if aid = [] then None
              else Some \<lparr>mn_id = aid,
                 mn_type = (if kind \<noteq> [] then kind else if truthy (pget actor ''pluginID'') then ''agent'' else ''user''),
                 mn_name = firstString [pget actor ''name'', pget actor ''displayName'', JStr username, JStr fullName, JStr aid],
                 mn_username = (if username = [] then None else Some username), mn_fullName = fullName, mn_reference = reference\<rparr>)"

text \<open>What a method of a service does with a reference, and a service as its methods in the order they are tried.\<close>

datatype answer = Answer jsval | Status404 | Failed js_error

type_synonym service = "(string \<Rightarrow> answer) option list"

fun callResolver :: "service \<Rightarrow> string \<Rightarrow> js_error + jsval" where
  "callResolver [] reference = Inr Null"
| "callResolver (None # methods) reference = callResolver methods reference"
| "callResolver (Some m # methods) reference =
     (case m reference of
        Failed e \<Rightarrow> Inl e
      | Status404 \<Rightarrow> callResolver methods reference
      | Answer v \<Rightarrow> if truthy v then Inr v else callResolver methods reference)"

record services =
  actorResolver :: service
  agentManager :: service
  userManager :: service

definition typed_actor :: "string \<Rightarrow> jsval \<Rightarrow> jsval" where
  "typed_actor kind actor = JObj (oset (props_of actor) ''type'' (js_or (pget actor ''type'') (JStr kind)))"

definition resolveActor :: "services \<Rightarrow> string \<Rightarrow> js_error + jsval" where
  "resolveActor sv reference =
     and_then (callResolver (actorResolver sv) reference) (\<lambda>actor.
       if truthy actor then Inr actor
       else and_then (callResolver (agentManager sv) reference) (\<lambda>agent.
         if truthy agent then Inr (typed_actor ''agent'' agent)
         else and_then (callResolver (userManager sv) reference) (\<lambda>user.
           Inr (if truthy user then typed_actor ''user'' user else Null))))"

type_synonym mention_map = "(string \<times> mention) list"

definition add_mention :: "mention_map \<Rightarrow> mention option \<Rightarrow> mention_map" where
  "add_mention ms m = (case m of None \<Rightarrow> ms | Some a \<Rightarrow> AList.update (mn_id a) a ms)"

fun resolve_references :: "services \<Rightarrow> mention_map \<Rightarrow> jsval list \<Rightarrow> js_error + mention_map" where
  "resolve_references sv ms [] = Inr ms"
| "resolve_references sv ms (v # vs) =
     (let reference = trim_or_empty (if is_str v then v else pget v ''reference'')
      in if reference = [] then resolve_references sv ms vs
         else and_then (resolveActor sv reference) (\<lambda>actor.
           resolve_references sv (add_mention ms (normalizeActorMention actor (JStr reference))) vs))"

definition resolveMentionActors :: "services \<Rightarrow> jsval \<Rightarrow> js_error + mention_map" where
  "resolveMentionActors sv references = resolve_references sv [] (arr_of references)"

definition mentions_val :: "mention_map \<Rightarrow> jsval" where
  "mentions_val ms = JObj (map (\<lambda>(k, m). (k, JObj (mention_obj m))) ms)"

definition merge_entry :: "mention_map \<Rightarrow> string \<times> jsval \<Rightarrow> mention_map" where
  "merge_entry ms e =
     (case e of (actorID, v) \<Rightarrow>
        add_mention ms (normalizeActorMention (JObj (oset (props_of v) ''id'' (js_or (pget v ''id'') (JStr actorID))))
          (js_or (pget v ''reference'') (JStr actorID))))"

definition mergeMentionMaps :: "jsval list \<Rightarrow> mention_map" where
  "mergeMentionMaps maps = foldl (\<lambda>ms v. foldl merge_entry ms (props_of v)) [] maps"

text \<open>The keys of the two maps are sorted before their JSON texts are compared.\<close>

definition sortMentionMap :: "jsval \<Rightarrow> jsval" where
  "sortMentionMap v = JObj (sort_by (\<lambda>p q. \<not> str_less (fst q) (fst p)) (props_of v))"

definition mentionsEqual :: "jsval \<Rightarrow> jsval \<Rightarrow> bool" where
  "mentionsEqual l r = (json_stringify (sortMentionMap l) = json_stringify (sortMentionMap r))"

section \<open>The plugin\<close>

definition shouldInspectFrame :: "jsval \<Rightarrow> bool" where
  "shouldInspectFrame frame =
     (pget frame ''type'' = JStr ''UserMessage'' \<and> pget frame ''hidden'' \<noteq> JBool True
      \<and> (case pget (pget frame ''content'') ''text'' of JStr s \<Rightarrow> CHR ''@'' \<in> set s | _ \<Rightarrow> False))"

text \<open>The mentions the plugin writes to a frame; nothing when it only passes the frame on.\<close>

definition mentions_to_persist :: "services \<Rightarrow> jsval \<Rightarrow> js_error + mention_map option" where
  "mentions_to_persist sv frame =
     (if \<not> shouldInspectFrame frame then Inr None
      else let references = parseMentionReferences (pget (pget frame ''content'') ''text'')
           in if references = [] then Inr None
              else and_then (resolveMentionActors sv (JArr (map reference_obj references))) (\<lambda>resolved.
                let mentions = mergeMentionMaps [pget frame ''mentions'', mentions_val resolved]
                in Inr (if mentions = [] \<or> mentionsEqual (pget frame ''mentions'') (mentions_val mentions) then None else Some mentions)))"

section \<open>Reading back what was written\<close>

text \<open>How a name is written as a mention: as it stands when it can be, quoted and escaped otherwise.\<close>

definition plain_name :: "string \<Rightarrow> bool" where
  "plain_name name \<longleftrightarrow> name \<noteq> [] \<and> list_all isUnquotedMentionChar name \<and> last name \<notin> set ''.,!?;:''"

definition escape_name :: "string \<Rightarrow> string" where
  "escape_name name = concat (map (\<lambda>c. if c = CHR 0x22 \<or> c = CHR 0x5C then [CHR 0x5C, c] else [c]) name)"

definition render_mention :: "string \<Rightarrow> string" where
  "render_mention name = (if plain_name name then CHR ''@'' # name else CHR ''@'' # CHR 0x22 # escape_name name @ [CHR 0x22])"

lemma quoted_loop_close:
  "quoted_loop (CHR 0x22) con v (CHR 0x22 # post)
     = (if js_trim v = [] then None else Some \<lparr>pm_consumed = con @ [CHR 0x22], pm_reference = js_trim v, pm_quoted = True\<rparr>)"
  by (cases post) simp_all

lemma quoted_loop_escaped:
  "quoted_loop (CHR 0x22) con v (escape_name name @ CHR 0x22 # post)
     = (if js_trim (v @ name) = [] then None
        else Some \<lparr>pm_consumed = con @ escape_name name @ [CHR 0x22], pm_reference = js_trim (v @ name), pm_quoted = True\<rparr>)"
proof (induction name arbitrary: con v)
  case (Cons c name)
  have [simp]: "escape_name (c # name) = (if c = CHR 0x22 \<or> c = CHR 0x5C then [CHR 0x5C, c] else [c]) @ escape_name name"
    by (simp add: escape_name_def)
  show ?case
  proof (cases "c = CHR 0x22 \<or> c = CHR 0x5C")
    case True
    then show ?thesis by (auto simp: Cons.IH)
  next
    case False
    obtain d ds where "escape_name name @ CHR 0x22 # post = d # ds" by (cases "escape_name name @ CHR 0x22 # post") auto
    with False Cons.IH[of "con @ [c]" "v @ [c]"] show ?thesis by simp
  qed
qed (simp add: escape_name_def quoted_loop_close)

lemma trim_end_id: "w \<noteq> [] \<Longrightarrow> last w \<notin> set ''.,!?;:'' \<Longrightarrow> trimUnquotedMentionEnd w = w"
  by (cases w rule: rev_cases) (simp_all add: trimUnquotedMentionEnd_def)

lemma mentions_skip:
  "CHR ''@'' \<notin> set pre \<Longrightarrow> mentions_from prev (pre @ s) = mentions_from (if pre = [] then prev else Some (last pre)) s"
  by (induction pre arbitrary: prev) auto

lemma first_char_plain: "isUnquotedMentionChar c \<Longrightarrow> c \<noteq> CHR 0x22 \<and> c \<noteq> CHR 0x27"
  by (auto simp: isUnquotedMentionChar_def letter_or_digit_def)

lemma plain_mention:
  assumes "plain_name name" "post = [] \<or> \<not> isUnquotedMentionChar (hd post)"
  shows "parseMentionAt (name @ post) = Some \<lparr>pm_consumed = name, pm_reference = name, pm_quoted = False\<rparr>"
proof -
  obtain c cs where c: "name = c # cs" using assms(1) by (cases name) (auto simp: plain_name_def)
  have "isUnquotedMentionChar c" using assms(1) c by (simp add: plain_name_def)
  moreover have "takeWhile isUnquotedMentionChar (name @ post) = name"
    using assms by (cases post) (auto simp: plain_name_def list_all_iff takeWhile_append2 takeWhile_eq_all_conv)
  ultimately show ?thesis using assms(1) c by (simp add: parseMentionAt_def first_char_plain trim_end_id plain_name_def Let_def)
qed

section \<open>Maps settle\<close>

definition mention_ok :: "mention \<Rightarrow> bool" where
  "mention_ok m \<longleftrightarrow> (\<forall>s \<in> {mn_id m, mn_type m, mn_name m, mn_fullName m} \<union> set_option (mn_username m). s \<noteq> [] \<and> js_trim s = s) \<and> truthy (mn_reference m)"

definition map_ok :: "mention_map \<Rightarrow> bool" where
  "map_ok ms \<longleftrightarrow> distinct (map fst ms) \<and> (\<forall>(k, m) \<in> set ms. k = mn_id m \<and> mention_ok m)"

lemma firstString_trimmed [simp]: "js_trim (firstString vs) = firstString vs"
  by (auto simp: firstString_def split: option.splits jsval.splits)

lemma firstString_nonblank: "firstString vs \<noteq> [] \<longleftrightarrow> (\<exists>v \<in> set vs. nonblank_str v)"
proof (cases "find nonblank_str vs")
  case (Some v)
  then have "nonblank_str v" "v \<in> set vs" by (auto dest: find_SomeD)
  then show ?thesis using Some by (auto simp: firstString_def nonblank_str_def split: jsval.splits)
next
  case None
  then have "\<forall>v \<in> set vs. \<not> nonblank_str v" by (simp add: find_None_iff)
  then show ?thesis using None by (simp add: firstString_def)
qed

lemma firstString_Cons: "s \<noteq> [] \<Longrightarrow> js_trim s = s \<Longrightarrow> firstString (JStr s # vs) = s"
  by (simp add: firstString_def nonblank_str_def)

lemma normalized_mention_ok:
  assumes "normalizeActorMention actor reference = Some m" "truthy reference"
  shows "mention_ok m"
proof -
  let ?aid = "firstString [pget actor ''id'', pget actor ''actorID'', pget actor ''userID'', pget actor ''agentID'']"
  let ?kind = "firstString [pget actor ''type'', pget actor ''actorType'', pget actor ''kind'']"
  let ?user = "firstString [pget actor ''username'', pget actor ''userName'']"
  let ?full = "firstString [pget actor ''fullName'', pget actor ''full_name'', pget actor ''displayName'', pget actor ''name'', JStr ?user, JStr ?aid]"
  let ?name = "firstString [pget actor ''name'', pget actor ''displayName'', JStr ?user, JStr ?full, JStr ?aid]"
  have m: "m = \<lparr>mn_id = ?aid, mn_type = (if ?kind \<noteq> [] then ?kind else if truthy (pget actor ''pluginID'') then ''agent'' else ''user''),
      mn_name = ?name, mn_username = (if ?user = [] then None else Some ?user), mn_fullName = ?full, mn_reference = reference\<rparr>"
    and aid: "?aid \<noteq> []"
    using assms(1) unfolding normalizeActorMention_def Let_def by (auto simp del: firstString_trimmed split: if_split_asm)
  have "nonblank_str (JStr ?aid)" using aid unfolding nonblank_str_def by simp
  then have "?full \<noteq> []" "?name \<noteq> []" unfolding firstString_nonblank by (meson list.set_intros)+
  moreover have "js_trim ''agent'' = ''agent''" "js_trim ''user'' = ''user''" by (simp_all add: js_trim_def js_space_def)
  ultimately show ?thesis using aid assms(2) unfolding m mention_ok_def by simp
qed

lemma mention_read_back:
  assumes "mention_ok m"
  shows "merge_entry ms (mn_id m, JObj (mention_obj m)) = AList.update (mn_id m) m ms"
proof -
  have ok: "mn_id m \<noteq> []" "js_trim (mn_id m) = mn_id m" "mn_type m \<noteq> []" "js_trim (mn_type m) = mn_type m" "mn_name m \<noteq> []"
    "js_trim (mn_name m) = mn_name m" "mn_fullName m \<noteq> []" "js_trim (mn_fullName m) = mn_fullName m" "truthy (mn_reference m)"
    "\<And>s. mn_username m = Some s \<Longrightarrow> s \<noteq> [] \<and> js_trim s = s"
    using assms by (auto simp: mention_ok_def)
  have un: "firstString [case mn_username m of None \<Rightarrow> Null | Some s \<Rightarrow> JStr s, Undefined] = (case mn_username m of None \<Rightarrow> [] | Some s \<Rightarrow> s)"
    using ok(10) by (cases "mn_username m") (simp_all add: firstString_def nonblank_str_def)
  have "normalizeActorMention (JObj (oset (mention_obj m) ''id'' (JStr (mn_id m)))) (mn_reference m) = Some m"
    using ok un by (cases m; cases "mn_username m") (simp_all add: normalizeActorMention_def mention_obj_def firstString_Cons Let_def)
  then show ?thesis using ok by (simp add: merge_entry_def add_mention_def mention_obj_def js_or_def)
qed

lemma update_keeps_ok: "map_ok ms \<Longrightarrow> mention_ok m \<Longrightarrow> map_ok (AList.update (mn_id m) m ms)"
proof -
  assume ok: "map_ok ms" "mention_ok m"
  have "\<forall>p \<in> set (AList.update (mn_id m) m ms). p = (mn_id m, m) \<or> p \<in> set ms"
    by (induction ms) (auto split: if_splits)
  then have "\<forall>(k, a) \<in> set (AList.update (mn_id m) m ms). k = mn_id a \<and> mention_ok a" using ok unfolding map_ok_def by fastforce
  then show ?thesis using ok by (simp add: map_ok_def distinct_update)
qed

lemma entry_keeps_ok:
  assumes "map_ok ms" "k \<noteq> []"
  shows "map_ok (merge_entry ms (k, v))"
proof (cases "normalizeActorMention (JObj (oset (props_of v) ''id'' (js_or (pget v ''id'') (JStr k)))) (js_or (pget v ''reference'') (JStr k))")
  case (Some m)
  have "truthy (js_or (pget v ''reference'') (JStr k))" using assms(2) by (simp add: js_or_def)
  then have "mention_ok m" using normalized_mention_ok[OF Some] by simp
  then show ?thesis using Some assms(1) update_keeps_ok by (simp add: merge_entry_def add_mention_def)
qed (use assms in \<open>simp add: merge_entry_def add_mention_def\<close>)

lemma entries_keep_ok: "map_ok ms \<Longrightarrow> [] \<notin> fst ` set es \<Longrightarrow> map_ok (foldl merge_entry ms es)"
proof (induction es arbitrary: ms)
  case (Cons e es)
  obtain k v where "e = (k, v)" by (cases e)
  then show ?case using Cons entry_keeps_ok by auto
qed simp

lemma update_present: "distinct (map fst ms) \<Longrightarrow> map_of ms k = Some m \<Longrightarrow> AList.update k m ms = ms"
  by (induction ms) (auto split: if_splits dest: map_of_SomeD)

lemma merge_own:
  assumes "map_ok ms" "map_ok rs"
  shows "foldl merge_entry ms (props_of (mentions_val rs)) = foldl (\<lambda>ms (k, m). AList.update k m ms) ms rs"
  using assms(2)
proof (induction rs arbitrary: ms)
  case (Cons r rs)
  obtain m where "r = (mn_id m, m)" "mention_ok m" using Cons.prems by (cases r) (auto simp: map_ok_def)
  moreover have "map_ok rs" using Cons.prems by (auto simp: map_ok_def)
  ultimately show ?case using Cons.IH mention_read_back by (simp add: mentions_val_def)
qed (simp add: mentions_val_def)

lemma updates_present:
  "distinct (map fst ms) \<Longrightarrow> \<forall>(k, m) \<in> set rs. map_of ms k = Some m \<Longrightarrow> foldl (\<lambda>ms (k, m). AList.update k m ms) ms rs = ms"
  by (induction rs) (auto simp: update_present)

lemma updates_other: "k \<notin> fst ` set rs \<Longrightarrow> map_of (foldl (\<lambda>ms (k, m). AList.update k m ms) ms rs) k = map_of ms k"
  by (induction rs arbitrary: ms) (auto simp: alist_simps)

lemma updates_lookup:
  "distinct (map fst rs) \<Longrightarrow> (k, m) \<in> set rs \<Longrightarrow> map_of (foldl (\<lambda>ms (k, m). AList.update k m ms) ms rs) k = Some m"
proof (induction rs arbitrary: ms)
  case (Cons r rs)
  then show ?case by (cases "r = (k, m)") (auto simp: updates_other alist_simps)
qed simp

lemma updates_from_empty:
  "distinct (map fst ms @ map fst rs) \<Longrightarrow> foldl (\<lambda>ms (k, m). AList.update k m ms) ms rs = ms @ rs"
proof (induction rs arbitrary: ms)
  case (Cons r rs)
  obtain k m where r: "r = (k, m)" by (cases r)
  have "AList.update k m ms = ms @ [(k, m)]" if "k \<notin> fst ` set ms" using that by (induction ms) auto
  then show ?case using Cons r by auto
qed simp

lemma resolved_ok: "map_ok ms \<Longrightarrow> resolve_references sv ms vs = Inr rs \<Longrightarrow> map_ok rs"
proof (induction vs arbitrary: ms)
  case (Cons v vs)
  let ?reference = "trim_or_empty (if is_str v then v else pget v ''reference'')"
  show ?case
  proof (cases "?reference = []")
    case False
    then obtain actor where a: "resolve_references sv (add_mention ms (normalizeActorMention actor (JStr ?reference))) vs = Inr rs"
      using Cons.prems(2) by (auto simp: Let_def and_then_Inr)
    have "map_ok (add_mention ms (normalizeActorMention actor (JStr ?reference)))"
    proof (cases "normalizeActorMention actor (JStr ?reference)")
      case (Some m)
      then have "mention_ok m" using False normalized_mention_ok by simp
      then show ?thesis using Some Cons.prems(1) update_keeps_ok by (simp add: add_mention_def)
    qed (use Cons.prems in \<open>simp add: add_mention_def\<close>)
    then show ?thesis using Cons.IH a by blast
  qed (use Cons in simp)
qed simp

lemma updates_ok: "map_ok ms \<Longrightarrow> map_ok rs \<Longrightarrow> map_ok (foldl (\<lambda>ms (k, m). AList.update k m ms) ms rs)"
proof (induction rs arbitrary: ms)
  case (Cons x rs)
  obtain a where x: "x = (mn_id a, a)" and a: "mention_ok a" using Cons.prems(2) unfolding map_ok_def by (cases x) auto
  have "map_ok rs" using Cons.prems(2) unfolding map_ok_def by simp
  from Cons.IH[OF update_keeps_ok[OF Cons.prems(1) a] this] show ?case by (simp only: x foldl.simps prod.case)
qed simp

lemma map_ok_distinct: "map_ok ms \<Longrightarrow> distinct (map fst ms)"
  by (simp add: map_ok_def)

lemma map_ok_Nil: "map_ok []"
  by (simp add: map_ok_def)

lemma merged_again:
  assumes "[] \<notin> fst ` set (props_of old)" "resolveMentionActors sv refs = Inr resolved"
  shows "mergeMentionMaps [mentions_val (mergeMentionMaps [old, mentions_val resolved]), mentions_val resolved]
    = mergeMentionMaps [old, mentions_val resolved]"
proof -
  let ?upd = "foldl (\<lambda>ms (k, m). AList.update k m ms)"
  have r: "map_ok resolved" using resolved_ok[OF map_ok_Nil] assms(2) by (simp add: resolveMentionActors_def)
  have b: "map_ok (foldl merge_entry [] (props_of old))" by (rule entries_keep_ok[OF map_ok_Nil assms(1)])
  define m where "m = ?upd (foldl merge_entry [] (props_of old)) resolved"
  have eq: "mergeMentionMaps [old, mentions_val resolved] = m" by (simp only: mergeMentionMaps_def foldl.simps merge_own[OF b r] m_def)
  have ok: "map_ok m" unfolding m_def by (rule updates_ok[OF b r])
  have own: "foldl merge_entry [] (props_of (mentions_val m)) = m"
    unfolding merge_own[OF map_ok_Nil ok] by (subst updates_from_empty) (simp_all add: map_ok_distinct[OF ok])
  have "\<forall>(k, a) \<in> set resolved. map_of m k = Some a"
    unfolding m_def by (auto intro: updates_lookup map_ok_distinct[OF r])
  then have "?upd m resolved = m" by (rule updates_present[OF map_ok_distinct[OF ok]])
  then show ?thesis by (simp only: eq) (simp only: mergeMentionMaps_def foldl.simps own merge_own[OF ok r])
qed

section \<open>Properties\<close>

lemma no_more_mentions: "CHR ''@'' \<notin> set s \<Longrightarrow> mentions_from prev s = []"
  by (induction s arbitrary: prev) auto

text \<open>
  C30: A written mention reads back. Whatever name an actor has, as long as it is not blank and has no blanks around it, when
  \<open>@name\<close>, or the quoted and escaped form where the name needs it, is written after text without another \<open>@\<close> that does
  not end in a word, and is not followed at once by a character an unquoted mention may have, then that name is the first reference of
  the message, read from exactly the text written; the others are those of the text behind it, and there are none when that has no
  \<open>@\<close>.
\<close>

theorem written_mention_reads_back:
  assumes "name \<noteq> []" "js_trim name = name" "CHR ''@'' \<notin> set pre" "pre = [] \<or> isMentionBoundary (Some (last pre))"
    and "post = [] \<or> \<not> isUnquotedMentionChar (hd post)"
  shows "\<exists>m ms. parseMentionReferences (JStr (pre @ render_mention name @ post)) = m # ms
     \<and> pm_reference m = name \<and> CHR ''@'' # pm_consumed m = render_mention name
     \<and> ms = first_by_reference [name] (mentions_from (Some (last (render_mention name))) post)
     \<and> (CHR ''@'' \<notin> set post \<longrightarrow> ms = [])"
proof -
  obtain r where r: "render_mention name = CHR ''@'' # r" by (cases "plain_name name") (simp_all add: render_mention_def)
  obtain m where m: "parseMentionAt (r @ post) = Some m" "pm_reference m = name" "CHR ''@'' # pm_consumed m = render_mention name"
    using plain_mention[of name post] quoted_loop_escaped[of "[CHR 0x22]" "[]" name post] assms(1,2,5) r
    by (cases "plain_name name") (auto simp: render_mention_def parseMentionAt_def parseQuotedMention_def)
  have "isMentionBoundary (if pre = [] then None else Some (last pre))" using assms(4) by (auto simp: isMentionBoundary_def)
  moreover have "pm_consumed m = r" using m(3) r by simp
  ultimately have "mentions_from None (pre @ render_mention name @ post) = m # mentions_from (Some (last (render_mention name))) post"
    using mentions_skip[OF assms(3), of None "CHR ''@'' # r @ post"] m(1) by (simp add: r)
  then have "parseMentionReferences (JStr (pre @ render_mention name @ post))
      = m # first_by_reference [name] (mentions_from (Some (last (render_mention name))) post)"
    using m(2) by (simp add: parseMentionReferences_def)
  then show ?thesis using m(2,3) no_more_mentions by auto
qed

text \<open>
  The mention plugin settles in one step: when it has written the mentions of a frame, inspecting the written frame with the
  same services writes nothing more, so it never merges the same frame again and again.
\<close>

theorem mention_plugin_settles:
  assumes "mentions_to_persist sv (JObj d) = Inr (Some m)" "[] \<notin> fst ` set (props_of (oget d ''mentions''))"
  shows "mentions_to_persist sv (JObj (oset d ''mentions'' (mentions_val m))) = Inr None"
proof -
  let ?references = "parseMentionReferences (pget (oget d ''content'') ''text'')"
  have see: "shouldInspectFrame (JObj d)" "?references \<noteq> []"
    using assms(1) by (auto simp: mentions_to_persist_def Let_def split: if_split_asm)
  then obtain resolved where r: "resolveMentionActors sv (JArr (map reference_obj ?references)) = Inr resolved"
      "m = mergeMentionMaps [oget d ''mentions'', mentions_val resolved]"
    using assms(1) by (auto simp: mentions_to_persist_def Let_def and_then_Inr split: if_split_asm)
  have "shouldInspectFrame (JObj (oset d ''mentions'' (mentions_val m)))" using see(1) by (simp add: shouldInspectFrame_def)
  moreover have "mergeMentionMaps [mentions_val m, mentions_val resolved] = m" using merged_again[OF assms(2) r(1)] r(2) by simp
  ultimately show ?thesis using see(2) r(1) by (simp add: mentions_to_persist_def mentionsEqual_def)
qed

section \<open>Witnesses\<close>

theorem written_mention_reads_back_witness:
  "\<exists>m. parseMentionReferences (JStr (''to '' @ render_mention ''Dr. \"Who\"'' @ '', hello'')) = [m] \<and> pm_reference m = ''Dr. \"Who\"''"
proof -
  have "js_trim ''Dr. \"Who\"'' = ''Dr. \"Who\"''" "isMentionBoundary (Some (last ''to ''))" "\<not> isUnquotedMentionChar (hd '', hello'')"
    by code_simp+
  then show ?thesis using written_mention_reads_back[of "''Dr. \"Who\"''" "''to ''" "'', hello''"] by auto
qed

definition demo_services :: services where
  "demo_services = \<lparr>actorResolver = [], agentManager = [None, Some (\<lambda>r. if r = ''zav'' then Answer (JObj [(''id'', JStr ''a1'')]) else Status404)],
     userManager = [Some (\<lambda>r. Status404)]\<rparr>"

definition demo_message :: jsobj where
  "demo_message = [(''type'', JStr ''UserMessage''), (''content'', JObj [(''text'', JStr ''hi @zav, mail x@zav'')])]"

theorem mention_plugin_settles_witness:
  "\<exists>m. mentions_to_persist demo_services (JObj demo_message) = Inr (Some m) \<and> map fst m = [''a1'']
     \<and> mentions_to_persist demo_services (JObj (oset demo_message ''mentions'' (mentions_val m))) = Inr None"
proof -
  have "mentions_to_persist demo_services (JObj demo_message)
      = Inr (Some [(''a1'', \<lparr>mn_id = ''a1'', mn_type = ''agent'', mn_name = ''a1'', mn_username = None, mn_fullName = ''a1'', mn_reference = JStr ''zav''\<rparr>)])"
    by code_simp
  moreover have "[] \<notin> fst ` set (props_of (oget demo_message ''mentions''))" by code_simp
  ultimately show ?thesis using mention_plugin_settles[of demo_services demo_message] by auto
qed

text \<open>An address is not a mention: what stands before the \<open>@\<close> is part of a word.\<close>

lemma address_is_no_mention: "parseMentionReferences (JStr ''write to bob@example.com'') = []"
  by code_simp

end
