(* ===== verification/FrameVisibility.thy ===== *)
theory FrameVisibility
  imports QuestionDedupe
begin

text \<open>
  Which frames a person sees in a thread: \<open>src/shared/coordination-visibility.mjs\<close>, \<open>src/shared/frame-window-filters.mjs\<close> and the
  sentence of \<open>inviteWakeText\<close> in \<open>src/core/tools/session-invite-wake.mjs\<close>, which a card takes apart again. The filters of the window
  exist twice, as a predicate on a frame and as a test on the path of its file that may only reject what the predicate rejects.
\<close>

section \<open>Text\<close>

fun split_first :: "string \<Rightarrow> string \<Rightarrow> (string \<times> string) option" where
  "split_first sep [] = (if sep = [] then Some ([], []) else None)"
| "split_first sep (c # cs) =
     (if starts_with (c # cs) sep then Some ([], drop (length sep) (c # cs))
      else map_option (\<lambda>(a, b). (c # a, b)) (split_first sep cs))"

definition split_last :: "string \<Rightarrow> string \<Rightarrow> (string \<times> string) option" where
  "split_last sep s = map_option (\<lambda>(a, b). (rev b, rev a)) (split_first (rev sep) (rev s))"

definition hasText :: "jsval \<Rightarrow> bool" where
  "hasText v = (trim_or_empty v \<noteq> [])"

section \<open>Coordination wakes\<close>

definition SURFACED_WAKE_AUTHORS :: "string list" where
  "SURFACED_WAKE_AUTHORS = [''internal:session-invite'', ''internal:session-message'']"

definition NEVER_SURFACED_AUTHORS :: "string list" where
  "NEVER_SURFACED_AUTHORS = [''internal:pending-tool-recovery'', ''internal:question-deadline'', ''internal:compaction'',
     ''internal:runtime-recovery'', ''internal:session-merge'', ''internal:session-participant'', ''internal:scheduled-frame-cancel'',
     ''internal:scheduled-frame-queue'', ''internal:frame-store'', ''internal:slash-command-router'', ''internal:process-manager'',
     ''internal:autonomous-chain'', ''internal:agent-continuation'']"

fun str_or_empty :: "jsval \<Rightarrow> string" where
  "str_or_empty (JStr s) = s"
| "str_or_empty _ = []"

definition isCoordinationWakeFrame :: "jsval \<Rightarrow> bool" where
  "isCoordinationWakeFrame frame =
     (let author = str_or_empty (pget frame ''authorID'')
      in pget frame ''hidden'' = JBool True \<and> pget frame ''deleted'' \<noteq> JBool True \<and> pget frame ''phantom'' \<noteq> JBool True
         \<and> pget frame ''type'' = JStr ''UserMessage'' \<and> starts_with author ''internal:''
         \<and> author \<in> set SURFACED_WAKE_AUTHORS \<and> author \<notin> set NEVER_SURFACED_AUTHORS
         \<and> hasText (pget frame ''targetAgentID'') \<and> hasText (pget (pget frame ''content'') ''text''))"

definition is_object :: "jsval \<Rightarrow> bool" where
  "is_object v = (is_obj v \<or> is_arr v)"

definition isThreadVisibleFrame :: "jsval \<Rightarrow> bool" where
  "isThreadVisibleFrame frame =
     (is_object frame \<and> pget frame ''agentOnly'' \<noteq> JBool True \<and> (pget frame ''hidden'' \<noteq> JBool True \<or> isCoordinationWakeFrame frame))"

section \<open>The card of a wake\<close>

definition or_else :: "jsval \<Rightarrow> jsval \<Rightarrow> string \<Rightarrow> string" where
  "or_else a b d = js_String (js_or a (js_or b (JStr d)))"

definition INVITE_HEAD :: string where
  "INVITE_HEAD = ''You have been invited to \"''"

definition INVITE_WAKE_SUFFIX :: string where
  "INVITE_WAKE_SUFFIX = '', review the session context now''"

definition inviteWakeText :: "jsval \<Rightarrow> jsval \<Rightarrow> jsval \<Rightarrow> string" where
  "inviteWakeText session agent inviter =
     INVITE_HEAD @ or_else (pget session ''title'') (pget session ''id'') ''this session''
     @ ''\" by '' @ or_else (pget inviter ''name'') (pget inviter ''id'') ''the coordinator''
     @ ''. '' @ or_else (pget agent ''name'') (pget agent ''id'') ''there''
     @ INVITE_WAKE_SUFFIX @ '' and wait for the coordinator's assignment before changing files.''"

record wake_card =
  wc_invitee :: string
  wc_inviter :: string
  wc_sessionTitle :: string
  wc_instruction :: string
  wc_text :: string

definition describeCoordinationWake :: "jsval \<Rightarrow> wake_card" where
  "describeCoordinationWake frame =
     (let text = trim_or_empty (pget (pget frame ''content'') ''text'');
          agentName = pget (pget frame ''content'') ''agentName'';
          invitee = (if hasText agentName then trim_or_empty agentName
                     else if hasText (pget frame ''targetAgentID'') then str_or_empty (pget frame ''targetAgentID'') else []);
          unknown = \<lparr>wc_invitee = invitee, wc_inviter = [], wc_sessionTitle = [], wc_instruction = text, wc_text = text\<rparr>
      in case split_first INVITE_WAKE_SUFFIX text of
           None \<Rightarrow> unknown
         | Some (head, tail) \<Rightarrow>
             if \<not> starts_with head INVITE_HEAD then unknown
             else case split_last ''\" by '' (drop (length INVITE_HEAD) head) of
                    None \<Rightarrow> unknown
                  | Some (title, rest) \<Rightarrow>
                      let inviter = (if trim_or_empty (JStr invitee) \<noteq> [] \<and> ends_with rest (''. '' @ invitee)
                                     then take (length rest - length invitee - 2) rest
                                     else case split_last ''. '' rest of None \<Rightarrow> rest | Some (before, _) \<Rightarrow> before);
                          part = drop (length inviter) rest;
                          inviteePart = (if part \<noteq> [] \<and> hd part = CHR ''.'' then dropWhile js_space (tl part) else part);
                          instruction = js_trim (inviteePart @ INVITE_WAKE_SUFFIX @ tail)
                      in \<lparr>wc_invitee = invitee, wc_inviter = js_trim inviter, wc_sessionTitle = title,
                           wc_instruction = (if instruction = [] then text else instruction), wc_text = text\<rparr>)"

section \<open>Filter rows and categories\<close>

datatype filter_key = KUser | KAgent | KQuestion | KSession | KTools | KCommands | KCompaction | KDeleted

fun key_text :: "filter_key \<Rightarrow> string" where
  "key_text KUser = ''user''"
| "key_text KAgent = ''agent''"
| "key_text KQuestion = ''question''"
| "key_text KSession = ''session''"
| "key_text KTools = ''tools''"
| "key_text KCommands = ''commands''"
| "key_text KCompaction = ''compaction''"
| "key_text KDeleted = ''deleted''"

definition FRAME_FILTER_KEYS :: "filter_key list" where
  "FRAME_FILTER_KEYS = [KUser, KAgent, KQuestion, KSession, KTools, KCommands, KCompaction, KDeleted]"

definition is_category :: "filter_key \<Rightarrow> bool" where
  "is_category k = (k \<noteq> KDeleted)"

definition FRAME_FILTER_CATEGORY_KEYS :: "filter_key list" where
  "FRAME_FILTER_CATEGORY_KEYS = filter is_category FRAME_FILTER_KEYS"

definition type_text :: "jsval \<Rightarrow> string" where
  "type_text v = js_String (js_or v (JStr []))"

definition isToolFrameType :: "string \<Rightarrow> bool" where
  "isToolFrameType t = (t = ''ToolCall'' \<or> t = ''ToolResult'' \<or> ends_with t ''ToolFrame'')"

definition isCommandFrameType :: "string \<Rightarrow> bool" where
  "isCommandFrameType t = (t = ''ShellToolFrame'' \<or> t = ''CommandResult'')"

definition isNeverVisibleType :: "string \<Rightarrow> bool" where
  "isNeverVisibleType t = (t = ''MessageDone'')"

fun type_has :: "string \<Rightarrow> filter_key \<Rightarrow> bool" where
  "type_has t KUser = (t = ''UserMessage'' \<or> t = ''UserDraft'')"
| "type_has t KAgent = (t = ''AgentMessage'' \<or> t = ''AgentProgress'')"
| "type_has t KQuestion = (t = ''Question'')"
| "type_has t KSession = (t = ''Session'' \<or> t = ''SessionSpawn'')"
| "type_has t KCompaction = (t = ''CompactionFrame'')"
| "type_has t KCommands = isCommandFrameType t"
| "type_has t KTools = isToolFrameType t"
| "type_has t KDeleted = False"

definition frameCategoriesFromType :: "string \<Rightarrow> filter_key list" where
  "frameCategoriesFromType t = (if t = [] then [] else filter (type_has t) FRAME_FILTER_CATEGORY_KEYS)"

section \<open>Filters\<close>

type_synonym filters = "filter_key \<Rightarrow> bool"

definition defaultFrameWindowFilters :: filters where
  "defaultFrameWindowFilters = is_category"

definition normalizeFrameQuery :: "jsval \<Rightarrow> string" where
  "normalizeFrameQuery v = (case v of JStr s \<Rightarrow> take 200 (collapse_spaces False (js_trim s)) | _ \<Rightarrow> [])"

definition normalizeWindowFilters :: "jsval \<Rightarrow> filters" where
  "normalizeWindowFilters inp k = (case pget inp (key_text k) of JBool b \<Rightarrow> b | _ \<Rightarrow> defaultFrameWindowFilters k)"

definition windowFiltersAreDefault :: "jsval \<Rightarrow> jsval \<Rightarrow> bool" where
  "windowFiltersAreDefault inp query =
     (normalizeFrameQuery query = [] \<and> list_all (\<lambda>k. normalizeWindowFilters inp k = defaultFrameWindowFilters k) FRAME_FILTER_KEYS)"

definition selected_keys :: "jsval \<Rightarrow> filter_key list" where
  "selected_keys inp = filter (normalizeWindowFilters inp) FRAME_FILTER_CATEGORY_KEYS"

text \<open>The test on types that the filters allow, if they allow one.\<close>

definition frameTypeMatcherForFilters :: "jsval \<Rightarrow> (string \<Rightarrow> bool) option" where
  "frameTypeMatcherForFilters inp =
     (if selected_keys inp = [] then Some (\<lambda>_. False)
      else if KSession \<in> set (selected_keys inp) then None
      else Some (\<lambda>t. list_ex (normalizeWindowFilters inp) (frameCategoriesFromType t)))"

definition frameTypeFromPath :: "string \<Rightarrow> string" where
  "frameTypeFromPath path =
     (let name = rev (takeWhile (\<lambda>c. c \<noteq> CHR ''/'') (rev path)); digits = takeWhile is_dec_digit name
      in case dropWhile is_dec_digit name of
           [] \<Rightarrow> []
         | c # rest \<Rightarrow>
             let seg = takeWhile (\<lambda>c. c \<noteq> CHR ''-'') rest
             in if digits \<noteq> [] \<and> c = CHR ''-'' \<and> dropWhile (\<lambda>c. c \<noteq> CHR ''-'') rest \<noteq> [] then seg else [])"

definition pathMatchesWindowFilters :: "string \<Rightarrow> jsval \<Rightarrow> bool" where
  "pathMatchesWindowFilters path inp =
     (let t = frameTypeFromPath path
      in t \<noteq> [] \<and> \<not> isNeverVisibleType t \<and> (case frameTypeMatcherForFilters inp of None \<Rightarrow> True | Some matcher \<Rightarrow> matcher t))"

fun SINGLE_TYPE_CATEGORIES :: "filter_key \<Rightarrow> string list" where
  "SINGLE_TYPE_CATEGORIES KUser = [''UserMessage'', ''UserDraft'']"
| "SINGLE_TYPE_CATEGORIES KAgent = [''AgentMessage'', ''AgentProgress'']"
| "SINGLE_TYPE_CATEGORIES KQuestion = [''Question'']"
| "SINGLE_TYPE_CATEGORIES KCompaction = [''CompactionFrame'']"
| "SINGLE_TYPE_CATEGORIES _ = []"

definition frameTypesForFilters :: "jsval \<Rightarrow> string list option" where
  "frameTypesForFilters inp =
     (let selected = selected_keys inp
      in if selected = [] then Some []
         else if KSession \<in> set selected \<or> KTools \<in> set selected \<or> KCommands \<in> set selected then None
         else if length selected = length FRAME_FILTER_CATEGORY_KEYS then None
         else Some (sort_by row_le (uniq (concat (map SINGLE_TYPE_CATEGORIES selected)))))"

definition pathMatchesTypes :: "string \<Rightarrow> string list option \<Rightarrow> bool" where
  "pathMatchesTypes path types =
     (case types of None \<Rightarrow> True | Some ts \<Rightarrow> ts \<noteq> [] \<and> frameTypeFromPath path \<noteq> [] \<and> frameTypeFromPath path \<in> set ts)"

section \<open>Frames\<close>

definition frameReferencesSession :: "jsval \<Rightarrow> bool" where
  "frameReferencesSession frame =
     list_ex (\<lambda>r. pget r ''type'' = JStr ''session''
        \<and> (case pget r ''id'' of JStr s \<Rightarrow> js_trim s \<noteq> [] | v \<Rightarrow> nullish v)) (arr_of (pget (pget frame ''content'') ''references''))"

definition frameSpawnsSession :: "jsval \<Rightarrow> bool" where
  "frameSpawnsSession frame = (isToolFrameType (type_text (pget frame ''type'')) \<and> hasText (pget (pget frame ''content'') ''sessionID''))"

definition AUTHORED_TYPES :: "string list" where
  "AUTHORED_TYPES = [''UserMessage'', ''UserDraft'', ''AgentMessage'', ''AgentProgress'', ''Question'']"

definition author_key :: "jsval \<Rightarrow> filter_key option" where
  "author_key frame =
     (if type_text (pget frame ''type'') \<in> set AUTHORED_TYPES
      then if pget frame ''authorType'' = JStr ''user'' then Some KUser
           else if pget frame ''authorType'' = JStr ''agent'' then Some KAgent else None
      else None)"

definition frameFilterCategories :: "jsval \<Rightarrow> filter_key list" where
  "frameFilterCategories frame =
     (if \<not> truthy frame then []
      else let keys = frameCategoriesFromType (type_text (pget frame ''type''))
           in filter (\<lambda>k. k \<in> set keys \<or> author_key frame = Some k \<or> k = KSession \<and> (frameReferencesSession frame \<or> frameSpawnsSession frame))
                FRAME_FILTER_CATEGORY_KEYS)"

fun wildcard_loop :: "string list \<Rightarrow> string \<Rightarrow> bool" where
  "wildcard_loop [] haystack = True"
| "wildcard_loop (s # segments) haystack =
     (case split_first s haystack of None \<Rightarrow> False | Some (_, rest) \<Rightarrow> wildcard_loop segments rest)"

definition wildcard_segments :: "string \<Rightarrow> string list" where
  "wildcard_segments needle = filter (\<lambda>w. w \<noteq> []) (map js_trim (split_on (CHR ''*'') needle))"

definition query_tokens :: "string \<Rightarrow> string list" where
  "query_tokens needle = filter (\<lambda>w. w \<noteq> []) (split_on (CHR '' '') (map (\<lambda>c. if js_space c then CHR '' '' else c) needle))"

definition frameQueryMatchesText :: "string \<Rightarrow> jsval \<Rightarrow> bool" where
  "frameQueryMatchesText text query =
     (let needle = toLowerCase (normalizeFrameQuery query); haystack = toLowerCase text
      in if needle = [] then True
         else if haystack = [] then False
         else if CHR ''*'' \<in> set needle then wildcard_loop (wildcard_segments needle) haystack
         else list_all (\<lambda>w. split_first w haystack \<noteq> None) (query_tokens needle))"

definition frameSearchText :: "jsval \<Rightarrow> string" where
  "frameSearchText frame =
     (let content = pget frame ''content'';
          parts = pget frame ''type'' # map (pget content) [''text'', ''title'', ''summary'', ''name'', ''toolName'', ''command'', ''query'']
            @ concat (map (\<lambda>r. map (pget r) [''type'', ''title'', ''name'', ''id'']) (filter is_object (arr_of (pget content ''references''))))
      in join_with [CHR 0x0A] (filter (\<lambda>s. s \<noteq> []) (map str_or_empty parts)))"

definition frameMatchesQuery :: "jsval \<Rightarrow> jsval \<Rightarrow> bool" where
  "frameMatchesQuery frame query = (normalizeFrameQuery query = [] \<or> frameQueryMatchesText (frameSearchText frame) query)"

definition frameMatchesWindowFilters :: "jsval \<Rightarrow> jsval \<Rightarrow> jsval \<Rightarrow> bool" where
  "frameMatchesWindowFilters frame inp query =
     (let normal = normalizeWindowFilters inp; categories = frameFilterCategories frame
      in truthy frame \<and> pget frame ''agentOnly'' \<noteq> JBool True
         \<and> (isThreadVisibleFrame frame \<or> normal KDeleted)
         \<and> pget frame ''phantom'' \<noteq> JBool True \<and> \<not> isNeverVisibleType (type_text (pget frame ''type''))
         \<and> (pget frame ''deleted'' \<noteq> JBool True \<or> normal KDeleted)
         \<and> (if categories = [] then list_ex normal FRAME_FILTER_CATEGORY_KEYS else list_ex normal categories)
         \<and> frameMatchesQuery frame query)"

section \<open>Counts\<close>

definition count_frame :: "(filter_key \<Rightarrow> nat) \<Rightarrow> jsval \<Rightarrow> (filter_key \<Rightarrow> nat)" where
  "count_frame counts frame =
     (if \<not> truthy frame \<or> pget frame ''phantom'' = JBool True \<or> isNeverVisibleType (type_text (pget frame ''type''))
         \<or> pget frame ''agentOnly'' = JBool True then counts
      else let counts' = (if pget frame ''deleted'' = JBool True \<or> pget frame ''hidden'' = JBool True
                          then counts(KDeleted := counts KDeleted + 1) else counts)
           in foldl (\<lambda>c k. c(k := c k + 1)) counts' (frameFilterCategories frame))"

definition emptyFilterCounts :: "filter_key \<Rightarrow> nat" where
  "emptyFilterCounts k = 0"

definition frameFilterCounts :: "jsval \<Rightarrow> filter_key \<Rightarrow> nat" where
  "frameFilterCounts frames = foldl count_frame emptyFilterCounts (arr_of frames)"

definition count_path :: "(filter_key \<Rightarrow> nat) \<Rightarrow> string \<Rightarrow> (filter_key \<Rightarrow> nat)" where
  "count_path counts path =
     (let t = frameTypeFromPath path
      in if t = [] \<or> isNeverVisibleType t then counts else foldl (\<lambda>c k. c(k := c k + 1)) counts (frameCategoriesFromType t))"

text \<open>The two rows that paths cannot answer stay \<open>null\<close>; adding one to \<open>null\<close> gives a number again.\<close>

definition countFilterMatches :: "string list \<Rightarrow> filter_key \<Rightarrow> nat option" where
  "countFilterMatches paths k =
     (let n = foldl count_path emptyFilterCounts paths k
      in if k \<in> {KDeleted, KSession} \<and> n = 0 then None else Some n)"

section \<open>Searching text\<close>

lemma split_first_append: "split_first sep s = Some (a, b) \<Longrightarrow> s = a @ sep @ b"
proof (induction s arbitrary: a)
  case (Cons c cs)
  show ?case
  proof (cases "starts_with (c # cs) sep")
    case True
    then have "sep @ drop (length sep) (c # cs) = c # cs" by (metis append_take_drop_id starts_with_def)
    with Cons.prems True show ?thesis by auto
  next
    case False
    with Cons.prems obtain a' where "split_first sep cs = Some (a', b)" "a = c # a'" by (auto split: if_splits)
    with Cons.IH show ?thesis by simp
  qed
qed (simp split: if_splits)

lemma starts_with_prefix [simp]: "starts_with (p @ r) p"
  by (simp add: starts_with_def)

lemma split_first_here: "split_first sep (sep @ r) = Some ([], r)"
proof (cases "sep @ r")
  case (Cons c cs)
  have "starts_with (c # cs) sep" by (metis Cons starts_with_prefix)
  moreover have "drop (length sep) (c # cs) = r" by (metis Cons append_eq_conv_conj)
  ultimately show ?thesis by (simp add: Cons)
qed simp

lemma split_first_later: "\<not> starts_with (c # cs) sep \<Longrightarrow> split_first sep (c # cs) = map_option (\<lambda>(a, b). (c # a, b)) (split_first sep cs)"
  by simp

lemma split_first_finds: "split_first sep (p @ sep @ r) \<noteq> None"
proof (induction p)
  case Nil
  show ?case by (simp add: split_first_here)
next
  case (Cons c p)
  then show ?case by auto
qed

lemma split_first_iff_occurs: "split_first sep s \<noteq> None \<longleftrightarrow> (\<exists>p r. s = p @ sep @ r)"
  using split_first_append split_first_finds by fastforce

lemma split_first_is_first: "split_first sep (p @ sep @ r) = Some (a, b) \<Longrightarrow> \<exists>x. b = x @ r"
proof (induction p arbitrary: a)
  case Nil
  then show ?case by (simp add: split_first_here)
next
  case (Cons c p)
  show ?case
  proof (cases "starts_with (c # p @ sep @ r) sep")
    case True
    with Cons.prems have "b = drop (length sep) ((c # p @ sep) @ r)" by simp
    then have "b = drop (length sep) (c # p @ sep) @ r" by (simp only: drop_append) simp
    then show ?thesis by blast
  next
    case False
    with Cons.prems obtain a' where "split_first sep (p @ sep @ r) = Some (a', b)" by auto
    then show ?thesis by (rule Cons.IH)
  qed
qed

text \<open>A separator whose first character does not occur before it splits there.\<close>

lemma split_first_fresh_head:
  assumes "c \<notin> set a"
  shows "split_first (c # sep) (a @ (c # sep) @ b) = Some (a, b)"
  using assms
proof (induction a)
  case Nil
  show ?case using split_first_here [of "c # sep" b] by simp
next
  case (Cons x a)
  then have "\<not> starts_with (x # a @ (c # sep) @ b) (c # sep)" by (auto simp: starts_with_def)
  with Cons show ?case by (simp add: split_first_later)
qed

text \<open>So does one whose last character occurs nowhere before its own end.\<close>

lemma split_first_fresh_last:
  assumes "c \<notin> set (a @ s)"
  shows "split_first (s @ [c]) (a @ s @ [c] @ b) = Some (a, b)"
  using assms
proof (induction a)
  case Nil
  show ?case using split_first_here [of "s @ [c]" b] by simp
next
  case (Cons x a)
  have "\<not> starts_with (x # a @ s @ [c] @ b) (s @ [c])"
  proof
    assume "starts_with (x # a @ s @ [c] @ b) (s @ [c])"
    then have "take (length s + 1) ((x # a @ s) @ [c] @ b) ! length s = (s @ [c]) ! length s" by (simp add: starts_with_def)
    moreover have "take (length s + 1) ((x # a @ s) @ [c] @ b) ! length s = ((x # a @ s) @ [c] @ b) ! length s"
      by (rule nth_take) simp
    moreover have "((x # a @ s) @ [c] @ b) ! length s = (x # a @ s) ! length s" by (rule nth_append_left) simp
    ultimately have "(x # a @ s) ! length s = c" by simp
    moreover have "length s < length (x # a @ s)" by simp
    ultimately have "c \<in> set (x # a @ s)" using nth_mem by metis
    with Cons.prems show False by simp
  qed
  with Cons show ?case by (simp add: split_first_later)
qed

lemma split_last_fresh_head:
  assumes "c \<notin> set (s @ b)"
  shows "split_last (c # s) (a @ (c # s) @ b) = Some (a, b)"
  using assms split_first_fresh_last [of c "rev b" "rev s" "rev a"] by (simp add: split_last_def)

text \<open>The pieces of a wildcard query, in order and apart from one another.\<close>

fun occur_in_order :: "string list \<Rightarrow> string \<Rightarrow> bool" where
  "occur_in_order [] h = True"
| "occur_in_order (s # segments) h = (\<exists>p r. h = p @ s @ r \<and> occur_in_order segments r)"

lemma occur_in_order_later: "occur_in_order segments h \<Longrightarrow> occur_in_order segments (x @ h)"
  by (cases segments) (auto, metis append_assoc)

lemma wildcard_is_ordered_occurrence: "wildcard_loop segments h = occur_in_order segments h"
proof (induction segments arbitrary: h)
  case (Cons s segments)
  show ?case
  proof (cases "split_first s h")
    case None
    then have "\<not> occur_in_order (s # segments) h" using split_first_iff_occurs [of s h] by auto
    with None show ?thesis by simp
  next
    case (Some ab)
    obtain a b where ab: "ab = (a, b)" by (cases ab)
    have h: "h = a @ s @ b" using Some ab split_first_append by simp
    have "occur_in_order segments b" if hp: "h = p @ s @ r" and later: "occur_in_order segments r" for p r
    proof -
      obtain x where "b = x @ r" using split_first_is_first [of s p r a b] Some ab hp by auto
      then show ?thesis using occur_in_order_later [OF later] by simp
    qed
    then show ?thesis using Some ab h Cons.IH by auto
  qed
qed simp

section \<open>The path test\<close>

lemma category_in_keys [simp]: "k \<in> set FRAME_FILTER_CATEGORY_KEYS \<longleftrightarrow> k \<noteq> KDeleted"
  by (cases k) (simp_all add: FRAME_FILTER_CATEGORY_KEYS_def FRAME_FILTER_KEYS_def is_category_def)

lemma type_category: "k \<in> set (frameCategoriesFromType t) \<longleftrightarrow> t \<noteq> [] \<and> k \<noteq> KDeleted \<and> type_has t k"
  by (auto simp: frameCategoriesFromType_def)

lemma frame_category:
  "k \<in> set (frameFilterCategories frame) \<longleftrightarrow>
     truthy frame \<and> k \<noteq> KDeleted
     \<and> (k \<in> set (frameCategoriesFromType (type_text (pget frame ''type''))) \<or> author_key frame = Some k
        \<or> k = KSession \<and> (frameReferencesSession frame \<or> frameSpawnsSession frame))"
  by (simp add: frameFilterCategories_def Let_def)

lemma list_ex_in: "list_ex P xs \<longleftrightarrow> (\<exists>x \<in> set xs. P x)"
  by (induction xs) auto

lemma path_test_is:
  "pathMatchesWindowFilters path inp \<longleftrightarrow>
     frameTypeFromPath path \<noteq> [] \<and> \<not> isNeverVisibleType (frameTypeFromPath path)
     \<and> (normalizeWindowFilters inp KSession
        \<or> (\<exists>k \<in> set (frameCategoriesFromType (frameTypeFromPath path)). normalizeWindowFilters inp k))"
  by (auto simp: pathMatchesWindowFilters_def frameTypeMatcherForFilters_def selected_keys_def list_ex_in Let_def filter_empty_conv type_category)

lemma matching_frame:
  assumes "frameMatchesWindowFilters frame inp query"
  shows "truthy frame" "\<not> isNeverVisibleType (type_text (pget frame ''type''))" "frameMatchesQuery frame query"
    and "frameFilterCategories frame \<noteq> [] \<Longrightarrow> \<exists>k \<in> set (frameFilterCategories frame). normalizeWindowFilters inp k"
  using assms by (simp_all add: frameMatchesWindowFilters_def Let_def list_ex_in split: if_splits)

lemma type_categories_kept: "truthy frame \<Longrightarrow> k \<in> set (frameCategoriesFromType (type_text (pget frame ''type'')))
    \<Longrightarrow> k \<in> set (frameFilterCategories frame)"
  by (simp add: frame_category type_category)

lemma single_types: "type_has t k \<Longrightarrow> k \<notin> {KSession, KTools, KCommands, KDeleted} \<Longrightarrow> t \<in> set (SINGLE_TYPE_CATEGORIES k)"
  by (cases k) auto

text \<open>The list of types the store scans with rejects no path the test accepts.\<close>

lemma type_list_weaker:
  assumes "pathMatchesWindowFilters path inp"
  shows "pathMatchesTypes path (frameTypesForFilters inp)"
proof -
  let ?t = "frameTypeFromPath path"
  have selected: "k \<in> set (selected_keys inp) \<longleftrightarrow> k \<noteq> KDeleted \<and> normalizeWindowFilters inp k" for k
    by (auto simp: selected_keys_def)
  obtain k where k: "?t \<noteq> []" "k \<in> set (selected_keys inp)" "k = KSession \<or> type_has ?t k"
    using assms by (auto simp: path_test_is selected type_category)
  show ?thesis
  proof (cases "frameTypesForFilters inp")
    case (Some ts)
    then have wide: "KSession \<notin> set (selected_keys inp)" "KTools \<notin> set (selected_keys inp)" "KCommands \<notin> set (selected_keys inp)"
      and ts: "ts = sort_by row_le (uniq (concat (map SINGLE_TYPE_CATEGORIES (selected_keys inp))))"
      using k(2) by (auto simp: frameTypesForFilters_def Let_def split: if_splits)
    have "?t \<in> set (SINGLE_TYPE_CATEGORIES k)" using k wide by (intro single_types) (auto simp: selected)
    then have "?t \<in> set ts" using k(2) by (auto simp: ts)
    then show ?thesis using k(1) Some by (auto simp: pathMatchesTypes_def)
  qed (simp add: pathMatchesTypes_def)
qed

text \<open>C28: Neither test on a path, the one by predicate and the list of types the store scans with, ever rejects a frame that the predicate
  on frames accepts, when the path carries the type of the frame, the type belongs to a category, and the author of the frame adds no
  category to those of its type.\<close>

theorem path_prefilter_sound:
  assumes matches: "frameMatchesWindowFilters frame inp query"
    and path: "frameTypeFromPath path = type_text (pget frame ''type'')"
    and typed: "frameCategoriesFromType (type_text (pget frame ''type'')) \<noteq> []"
    and author: "\<And>k. author_key frame = Some k \<Longrightarrow> k \<in> set (frameCategoriesFromType (type_text (pget frame ''type'')))"
  shows "pathMatchesWindowFilters path inp \<and> pathMatchesTypes path (frameTypesForFilters inp)"
proof -
  let ?t = "type_text (pget frame ''type'')"
  note facts = matching_frame [OF matches]
  obtain k0 where k0: "k0 \<in> set (frameCategoriesFromType ?t)" using typed by (cases "frameCategoriesFromType ?t") auto
  then have t: "?t \<noteq> []" by (simp add: type_category)
  have "frameFilterCategories frame \<noteq> []" using type_categories_kept [OF facts(1) k0] by auto
  then obtain k where k: "k \<in> set (frameFilterCategories frame)" "normalizeWindowFilters inp k" using facts(4) by blast
  then have "k = KSession \<or> k \<in> set (frameCategoriesFromType ?t)" using author by (auto simp: frame_category)
  with k(2) have "pathMatchesWindowFilters path inp" using facts(2) t by (auto simp: path_test_is path)
  then show ?thesis using type_list_weaker by blast
qed

definition sample_frame :: "string \<Rightarrow> string \<Rightarrow> jsval" where
  "sample_frame type author = JObj [(''type'', JStr type), (''authorType'', JStr author), (''content'', JObj [(''text'', JStr ''hi'')])]"

text \<open>The filters with exactly the given rows selected, and with one.\<close>

definition only_rows :: "filter_key list \<Rightarrow> jsval" where
  "only_rows ks = JObj (map (\<lambda>j. (key_text j, JBool (j \<in> set ks))) FRAME_FILTER_KEYS)"

lemma only_rows_selects [simp]: "normalizeWindowFilters (only_rows ks) j \<longleftrightarrow> j \<in> set ks"
  by (cases j) (simp_all add: normalizeWindowFilters_def only_rows_def FRAME_FILTER_KEYS_def)

definition only_filter :: "filter_key \<Rightarrow> jsval" where
  "only_filter k = only_rows [k]"

lemma only_filter_selects [simp]: "normalizeWindowFilters (only_filter k) j \<longleftrightarrow> j = k"
  by (simp add: only_filter_def)

lemma no_query [simp]: "frameMatchesQuery frame Undefined"
  by (simp add: frameMatchesQuery_def normalizeFrameQuery_def)

lemma sample_matches: "frameMatchesWindowFilters (sample_frame ''Question'' ''agent'') (only_filter KAgent) Undefined"
    "frameMatchesWindowFilters (sample_frame ''Question'' ''agent'') (only_filter KQuestion) Undefined"
    "frameMatchesWindowFilters (sample_frame ''UserMessage'' ''user'') (only_filter KUser) Undefined"
    "frameMatchesWindowFilters (sample_frame ''SystemNotice'' ''system'') (only_filter KUser) Undefined"
  by (simp_all add: frameMatchesWindowFilters_def sample_frame_def Let_def frameFilterCategories_def frameCategoriesFromType_def type_text_def
       author_key_def AUTHORED_TYPES_def FRAME_FILTER_CATEGORY_KEYS_def FRAME_FILTER_KEYS_def is_category_def isNeverVisibleType_def
       isToolFrameType_def isCommandFrameType_def ends_with_def frameReferencesSession_def frameSpawnsSession_def js_or_def
       isThreadVisibleFrame_def is_object_def)

lemma digit_facts: "is_dec_digit CHR ''0''" "is_dec_digit CHR ''7''" "\<not> is_dec_digit CHR ''-''"
  by (simp_all add: is_digit_in_def digit_val_def)

theorem path_prefilter_sound_witness:
  "pathMatchesWindowFilters ''/frames/0007-UserMessage-f1.json'' (only_filter KUser)
     \<and> pathMatchesTypes ''/frames/0007-UserMessage-f1.json'' (frameTypesForFilters (only_filter KUser))"
  by (rule path_prefilter_sound [OF sample_matches(3)])
    (simp_all add: sample_frame_def type_text_def js_or_def frameTypeFromPath_def digit_facts frameCategoriesFromType_def
       FRAME_FILTER_CATEGORY_KEYS_def FRAME_FILTER_KEYS_def is_category_def author_key_def AUTHORED_TYPES_def Let_def split: if_splits)

text \<open>Without the two conditions on the type and the author the test rejects frames that match: a question an agent asked when only
  the row of agents is selected, and a frame of a type that has no row.\<close>

lemma path_prefilter_loses_frames:
  "frameMatchesWindowFilters (sample_frame ''Question'' ''agent'') (only_filter KAgent) Undefined
     \<and> \<not> pathMatchesWindowFilters ''/frames/0007-Question-f1.json'' (only_filter KAgent)
     \<and> \<not> pathMatchesTypes ''/frames/0007-Question-f1.json'' (frameTypesForFilters (only_filter KAgent))"
  "frameMatchesWindowFilters (sample_frame ''SystemNotice'' ''system'') (only_filter KUser) Undefined
     \<and> \<not> pathMatchesWindowFilters ''/frames/0007-SystemNotice-f1.json'' (only_filter KUser)
     \<and> \<not> pathMatchesTypes ''/frames/0007-SystemNotice-f1.json'' (frameTypesForFilters (only_filter KUser))"
  by (simp_all add: sample_matches path_test_is pathMatchesTypes_def frameTypesForFilters_def selected_keys_def frameTypeFromPath_def digit_facts frameCategoriesFromType_def
       FRAME_FILTER_CATEGORY_KEYS_def FRAME_FILTER_KEYS_def is_category_def Let_def isToolFrameType_def isCommandFrameType_def ends_with_def)

section \<open>The counts beside the rows\<close>

lemma counting: "distinct ks \<Longrightarrow> foldl (\<lambda>c k. c(k := c k + (1 :: nat))) c ks k = c k + (if k \<in> set ks then 1 else 0)"
  by (induction ks arbitrary: c) auto

lemma categories_distinct: "distinct (frameFilterCategories frame)"
  by (simp add: frameFilterCategories_def Let_def FRAME_FILTER_CATEGORY_KEYS_def FRAME_FILTER_KEYS_def)

lemma count_frame_at:
  "count_frame c frame k = c k +
     (if truthy frame \<and> pget frame ''phantom'' \<noteq> JBool True \<and> \<not> isNeverVisibleType (type_text (pget frame ''type''))
         \<and> pget frame ''agentOnly'' \<noteq> JBool True
         \<and> (if k = KDeleted then pget frame ''deleted'' = JBool True \<or> pget frame ''hidden'' = JBool True
            else k \<in> set (frameFilterCategories frame)) then 1 else 0)"
proof -
  have "k \<notin> set (frameFilterCategories frame)" if "k = KDeleted" using that by (simp add: frame_category)
  then show ?thesis
    unfolding count_frame_def Let_def counting [OF categories_distinct] by simp
qed

definition every_filter :: jsval where
  "every_filter = JObj (map (\<lambda>j. (key_text j, JBool True)) FRAME_FILTER_KEYS)"

lemma every_filter_selects [simp]: "normalizeWindowFilters every_filter j"
  by (cases j) (simp_all add: normalizeWindowFilters_def every_filter_def FRAME_FILTER_KEYS_def)

text \<open>The frames of some category that are shown when exactly the given rows are selected and there is no query.\<close>

definition shown_with :: "filter_key list \<Rightarrow> jsval \<Rightarrow> bool" where
  "shown_with ks frame \<longleftrightarrow> frameFilterCategories frame \<noteq> [] \<and> frameMatchesWindowFilters frame (only_rows ks) Undefined"

definition hidden_or_deleted :: "jsval \<Rightarrow> bool" where
  "hidden_or_deleted frame \<longleftrightarrow> pget frame ''deleted'' = JBool True \<or> pget frame ''hidden'' = JBool True"

lemma shown_with_hidden_row:
  assumes "k \<noteq> KDeleted"
  shows "shown_with [k, KDeleted] frame \<longleftrightarrow>
     truthy frame \<and> pget frame ''phantom'' \<noteq> JBool True \<and> \<not> isNeverVisibleType (type_text (pget frame ''type''))
         \<and> pget frame ''agentOnly'' \<noteq> JBool True \<and> k \<in> set (frameFilterCategories frame)"
proof -
  have "KDeleted \<notin> set (frameFilterCategories frame)" by (simp add: frame_category)
  then show ?thesis using assms by (auto simp: shown_with_def frameMatchesWindowFilters_def Let_def list_ex_in)
qed

lemma shown_with_more: "shown_with [k] frame \<Longrightarrow> shown_with [k, KDeleted] frame"
  by (auto simp: shown_with_def frameMatchesWindowFilters_def Let_def list_ex_in)

lemma shown_with_all:
  "frameMatchesWindowFilters frame every_filter Undefined \<longleftrightarrow>
     truthy frame \<and> pget frame ''phantom'' \<noteq> JBool True \<and> \<not> isNeverVisibleType (type_text (pget frame ''type''))
         \<and> pget frame ''agentOnly'' \<noteq> JBool True"
proof -
  have "list_ex (normalizeWindowFilters every_filter) (frameFilterCategories frame)" if "frameFilterCategories frame \<noteq> []"
    using that by (cases "frameFilterCategories frame") auto
  moreover have "list_ex (normalizeWindowFilters every_filter) FRAME_FILTER_CATEGORY_KEYS"
    by (simp add: FRAME_FILTER_CATEGORY_KEYS_def FRAME_FILTER_KEYS_def is_category_def)
  ultimately show ?thesis by (auto simp: frameMatchesWindowFilters_def Let_def)
qed

lemma counts_by_row:
  "frameFilterCounts frames k = length (filter (\<lambda>f. if k = KDeleted then frameMatchesWindowFilters f every_filter Undefined \<and> hidden_or_deleted f
     else shown_with [k, KDeleted] f) (arr_of frames))"
proof -
  have "foldl count_frame c fs k = c k + length (filter (\<lambda>f. if k = KDeleted then frameMatchesWindowFilters f every_filter Undefined \<and> hidden_or_deleted f
     else shown_with [k, KDeleted] f) fs)" for c fs
    by (induction fs arbitrary: c) (auto simp: count_frame_at shown_with_hidden_row shown_with_all hidden_or_deleted_def)
  then show ?thesis by (simp add: frameFilterCounts_def emptyFilterCounts_def)
qed

text \<open>C29: What the count beside a row of the filters counts. For a category it is the number of the given frames of some category that are
  shown when that row alone is selected, and besides it the number of those that are shown only when the row of hidden frames is selected
  with it. For the row of hidden frames it is the number of hidden or deleted frames that are shown with every row selected. No frame is
  counted that no selection shows.\<close>

theorem filter_counts_are_exact:
  "frameFilterCounts frames k =
     (if k = KDeleted then length (filter (\<lambda>f. frameMatchesWindowFilters f every_filter Undefined \<and> hidden_or_deleted f) (arr_of frames))
      else length (filter (shown_with [k]) (arr_of frames)) + length (filter (\<lambda>f. shown_with [k, KDeleted] f \<and> \<not> shown_with [k] f) (arr_of frames)))"
proof -
  have "length (filter (shown_with [k, KDeleted]) fs)
      = length (filter (shown_with [k]) fs) + length (filter (\<lambda>f. shown_with [k, KDeleted] f \<and> \<not> shown_with [k] f) fs)" for fs
    by (induction fs) (auto dest: shown_with_more)
  then show ?thesis by (simp add: counts_by_row)
qed

text \<open>A deleted message is counted beside the row of users although that row alone does not show it.\<close>

lemma deleted_message_counted:
  "let frame = JObj [(''type'', JStr ''UserMessage''), (''authorType'', JStr ''user''), (''deleted'', JBool True)]
   in frameFilterCounts (JArr [frame]) KUser = 1 \<and> \<not> frameMatchesWindowFilters frame (only_filter KUser) Undefined"
  by code_simp

section \<open>The card of an invitation\<close>

lemma js_trim_bare: "\<not> js_space (hd s) \<Longrightarrow> \<not> js_space (last s) \<Longrightarrow> js_trim s = s"
  by (cases "s = []") (simp_all add: js_trim_def dropWhile_idem_hd hd_rev)

lemma js_trim_hd: "js_trim s = s \<Longrightarrow> s \<noteq> [] \<Longrightarrow> \<not> js_space (hd s)"
proof
  assume trim: "js_trim s = s" and "s \<noteq> []" and "js_space (hd s)"
  then have "length (dropWhile js_space s) < length s" by (cases s) (auto simp: le_imp_less_Suc length_dropWhile_le)
  moreover have "length (js_trim s) \<le> length (dropWhile js_space s)"
    by (simp add: js_trim_def) (metis length_dropWhile_le length_rev)
  ultimately show False using trim by simp
qed

text \<open>The card of an invitation reads back what the sentence was written from: when the names and the title are trimmed and carry no
  comma, and neither name carries a double quote, the card names the one invited, the inviter and the session (whose title may itself
  contain quotes and periods, as the inviter's name may contain periods), and its instruction is the rest of the sentence.\<close>

theorem invitation_reads_back:
  assumes frame: "pget frame ''content'' = JObj [(''text'', JStr (inviteWakeText session agent inviter)), (''agentName'', JStr invitee)]"
    and agent: "or_else (pget agent ''name'') (pget agent ''id'') ''there'' = invitee"
    and inviter: "or_else (pget inviter ''name'') (pget inviter ''id'') ''the coordinator'' = name"
    and title: "or_else (pget session ''title'') (pget session ''id'') ''this session'' = title"
    and trimmed: "js_trim invitee = invitee" "invitee \<noteq> []" "js_trim name = name"
    and commas: "CHR '','' \<notin> set (title @ name @ invitee)"
    and quotes: "CHR ''\"'' \<notin> set (name @ invitee)"
  shows "wc_invitee (describeCoordinationWake frame) = invitee \<and> wc_inviter (describeCoordinationWake frame) = name
    \<and> wc_sessionTitle (describeCoordinationWake frame) = title
    \<and> wc_instruction (describeCoordinationWake frame) =
        invitee @ INVITE_WAKE_SUFFIX @ '' and wait for the coordinator's assignment before changing files.''"
proof -
  define tail where "tail = '' and wait for the coordinator's assignment before changing files.''"
  define head where "head = INVITE_HEAD @ title @ ''\" by '' @ name @ ''. '' @ invitee"
  have sentence: "inviteWakeText session agent inviter = head @ INVITE_WAKE_SUFFIX @ tail"
    by (simp add: inviteWakeText_def agent inviter title head_def tail_def)
  have edges: "\<not> js_space (hd (head @ INVITE_WAKE_SUFFIX @ tail))" "\<not> js_space (last (head @ INVITE_WAKE_SUFFIX @ tail))"
    by (simp_all add: head_def INVITE_HEAD_def tail_def INVITE_WAKE_SUFFIX_def js_space_def)
  have whole: "js_trim (head @ INVITE_WAKE_SUFFIX @ tail) = head @ INVITE_WAKE_SUFFIX @ tail"
    using edges by (rule js_trim_bare)
  have "\<not> js_space (hd invitee)" using trimmed(1,2) js_trim_hd by metis
  then have card: "js_trim (invitee @ INVITE_WAKE_SUFFIX @ tail) = invitee @ INVITE_WAKE_SUFFIX @ tail"
    using trimmed(2) edges(2) by (intro js_trim_bare) (simp_all add: tail_def)
  have no_comma: "CHR '','' \<notin> set head" using commas by (simp add: head_def INVITE_HEAD_def)
  have at_suffix: "split_first INVITE_WAKE_SUFFIX (head @ INVITE_WAKE_SUFFIX @ tail) = Some (head, tail)"
    unfolding INVITE_WAKE_SUFFIX_def using no_comma by (rule split_first_fresh_head)
  have at_quote: "split_last ''\" by '' (title @ ''\" by '' @ name @ ''. '' @ invitee) = Some (title, name @ ''. '' @ invitee)"
    using quotes by (intro split_last_fresh_head) simp
  have greeting: "starts_with head INVITE_HEAD" "drop (length INVITE_HEAD) head = title @ ''\" by '' @ name @ ''. '' @ invitee"
    by (simp_all add: head_def)
  have invitee_part: "dropWhile js_space ('' '' @ invitee) = invitee"
    using \<open>\<not> js_space (hd invitee)\<close> trimmed(2) by (cases invitee) (simp_all add: js_space_def)
  have tail_of: "ends_with (name @ ''. '' @ invitee) (''. '' @ invitee)" by (simp add: ends_with_def)
  show ?thesis
    unfolding describeCoordinationWake_def
    by (simp add: frame sentence Let_def whole hasText_def trimmed at_suffix greeting(1) greeting(2) [simplified] at_quote [simplified]
         tail_of [simplified] invitee_part [simplified] card flip: tail_def)
qed

theorem invitation_reads_back_witness:
  "wc_inviter (describeCoordinationWake (JObj [(''content'', JObj [(''text'', JStr (inviteWakeText
        (JObj [(''title'', JStr ''the \"big\" refactor'')]) (JObj [(''name'', JStr ''Zav'')]) (JObj [(''name'', JStr ''Dr. Smith'')]))),
      (''agentName'', JStr ''Zav'')])])) = ''Dr. Smith''"
  using invitation_reads_back
    [of "JObj [(''content'', JObj [(''text'', JStr (inviteWakeText (JObj [(''title'', JStr ''the \"big\" refactor'')])
           (JObj [(''name'', JStr ''Zav'')]) (JObj [(''name'', JStr ''Dr. Smith'')]))), (''agentName'', JStr ''Zav'')])]"
        "JObj [(''title'', JStr ''the \"big\" refactor'')]" "JObj [(''name'', JStr ''Zav'')]" "JObj [(''name'', JStr ''Dr. Smith'')]"
        "''Zav''" "''Dr. Smith''" "''the \"big\" refactor''"]
  by (simp add: or_else_def js_or_def js_trim_def js_space_def)

end
