(* ===== verification/FrameFiles.thy ===== *)
theory FrameFiles
  imports FrameManager FrameVisibility HybridClock JSONText
begin

text \<open>
  The files of the frame store: \<open>src/core/aeordb/frame-store-paths.mjs\<close>, \<open>frame-store-constants.mjs\<close>, \<open>frame-store-ordering.mjs\<close>,
  \<open>frame-store-errors.mjs\<close>, \<open>frame-store-normalizers.mjs\<close>, \<open>frame-store-serialization.mjs\<close>, \<open>aeordb-file-utils.mjs\<close> and the directory
  listing of \<open>frame-store-commit.mjs\<close>. The document database is the record \<open>docdb\<close> of what its operations answer during one call of the
  store; \<open>JSON.parse\<close>, \<open>decodeURIComponent\<close> and \<open>localeCompare\<close> are fields of it. A total the database reports is a whole number or absent.
\<close>

section \<open>The document database\<close>

datatype store_error = Refused js_error | Failure (fe_status: "nat option") (fe_message: string)

definition failed_with :: "nat \<Rightarrow> store_error \<Rightarrow> bool" where
  "failed_with code e = (case e of Failure (Some s) _ \<Rightarrow> s = code | _ \<Rightarrow> False)"

fun error_text :: "store_error \<Rightarrow> string" where
  "error_text (Refused (TypeError m)) = m"
| "error_text (Refused (GenericError m)) = m"
| "error_text (Failure _ m) = m"

record listing =
  ls_total :: "int option"
  ls_items :: "jsval list"

record docdb =
  db_listDirectory :: "string \<Rightarrow> string \<Rightarrow> nat \<Rightarrow> nat \<Rightarrow> store_error + listing"
  db_fetchFiles :: "(string list \<Rightarrow> store_error + (string \<Rightarrow> jsval)) option"
  db_getFile :: "string \<Rightarrow> store_error + jsval"
  db_parse :: "string \<Rightarrow> string + jsval"
  db_decode :: "string \<Rightarrow> js_error + string"
  db_localeCompare :: "string \<Rightarrow> string \<Rightarrow> int"

section \<open>Constants and normalizers\<close>

definition ORDER_WIDTH :: nat where
  "ORDER_WIDTH = 16"

definition DEFAULT_FRAME_LIST_LIMIT :: nat where
  "DEFAULT_FRAME_LIST_LIMIT = 1000"

definition MAX_FRAME_LIST_LIMIT :: nat where
  "MAX_FRAME_LIST_LIMIT = 5000"

definition DIRECTORY_PAGE_LIMIT :: nat where
  "DIRECTORY_PAGE_LIMIT = 500"

definition whole_number :: "jsval \<Rightarrow> int option" where
  "whole_number v = (case js_Number v of Fin q \<Rightarrow> if num_is_integer (Fin q) then Some \<lfloor>q\<rfloor> else None | _ \<Rightarrow> None)"

definition positive_limit :: "nat \<Rightarrow> jsval \<Rightarrow> nat \<Rightarrow> store_error + nat" where
  "positive_limit most v fallback =
     (if nullish v then Inr fallback
      else case whole_number v of
             Some n \<Rightarrow> if n < 1 then Inl (Refused (TypeError ''limit must be a positive integer'')) else Inr (min (nat n) most)
           | None \<Rightarrow> Inl (Refused (TypeError ''limit must be a positive integer'')))"

definition normalizeStoreLimit :: "jsval \<Rightarrow> nat \<Rightarrow> store_error + nat" where
  "normalizeStoreLimit = positive_limit 500"

definition normalizeLargeLimit :: "jsval \<Rightarrow> nat \<Rightarrow> store_error + nat" where
  "normalizeLargeLimit = positive_limit MAX_FRAME_LIST_LIMIT"

definition normalizeOffset :: "jsval \<Rightarrow> store_error + nat" where
  "normalizeOffset v =
     (if nullish v then Inr 0
      else case whole_number v of
             Some n \<Rightarrow> if n < 0 then Inl (Refused (TypeError ''offset must be a non-negative integer'')) else Inr (nat n)
           | None \<Rightarrow> Inl (Refused (TypeError ''offset must be a non-negative integer'')))"

definition normalizeWindowOrder :: "jsval \<Rightarrow> store_error + nat option" where
  "normalizeWindowOrder v =
     (if nullish v then Inr None
      else case whole_number v of
             Some n \<Rightarrow> if n < 0 then Inl (Refused (TypeError ''before must be a non-negative integer'')) else Inr (Some (nat n))
           | None \<Rightarrow> Inl (Refused (TypeError ''before must be a non-negative integer'')))"

definition push_path :: "string list \<Rightarrow> jsval \<Rightarrow> string list" where
  "push_path unique v = (let item = trim_or_empty v in if item = [] then unique else push_new unique item)"

definition uniquePaths :: "jsval list \<Rightarrow> string list" where
  "uniquePaths vs = foldl push_path [] vs"

definition normalizePreviewTotal :: "int option \<Rightarrow> nat" where
  "normalizePreviewTotal t = (case t of Some n \<Rightarrow> if 0 < n then nat n else 0 | None \<Rightarrow> 0)"

definition normalizePreviewCount :: "jsval \<Rightarrow> nat" where
  "normalizePreviewCount v = (case whole_number v of Some n \<Rightarrow> if n < 1 then 5 else min (nat n) 20 | None \<Rightarrow> 5)"

definition push_session_id :: "nat \<Rightarrow> string list \<Rightarrow> string \<Rightarrow> string list" where
  "push_session_id most ids v = (if most \<le> length ids then ids else push_new ids v)"

definition normalizeSessionIDs :: "jsval \<Rightarrow> jsval \<Rightarrow> string list" where
  "normalizeSessionIDs sessionIDs maxSessions =
     (let most = (case maxSessions of JNum (Fin q) \<Rightarrow> if num_is_integer (Fin q) \<and> 0 < q then nat \<lfloor>q\<rfloor> else 100 | _ \<Rightarrow> 100)
      in foldl (push_session_id most) [] (filter (\<lambda>s. s \<noteq> []) (map trim_or_empty (arr_of sessionIDs))))"

definition isPendingStoredFrame :: "jsval \<Rightarrow> bool" where
  "isPendingStoredFrame frame =
     (truthy (pget frame ''id'') \<and> truthy (pget frame ''type'') \<and> pget frame ''deleted'' \<noteq> JBool True
      \<and> (case js_Number (pget frame ''scheduledAt'') of Fin q \<Rightarrow> 0 < q | _ \<Rightarrow> False)
      \<and> pget frame ''scheduledStatus'' \<noteq> JStr ''fired'' \<and> pget frame ''scheduledStatus'' \<noteq> JStr ''cancelled'')"

definition isPreviewVisibleFrame :: "jsval \<Rightarrow> bool" where
  "isPreviewVisibleFrame frame =
     (truthy (pget frame ''id'') \<and> isThreadVisibleFrame frame \<and> pget frame ''deleted'' \<noteq> JBool True
      \<and> pget frame ''phantom'' \<noteq> JBool True \<and> pget frame ''type'' \<noteq> JStr ''MessageDone'')"

section \<open>Paths\<close>

text \<open>\<open>encodeURIComponent\<close>: letters, digits and a few marks stay, any other character is the escape of its UTF-8 bytes.\<close>

definition unreserved :: "char \<Rightarrow> bool" where
  "unreserved c = (let n = of_char c :: nat in (65 \<le> n \<and> n \<le> 90) \<or> (97 \<le> n \<and> n \<le> 122) \<or> (48 \<le> n \<and> n \<le> 57) \<or> c \<in> set ''-_.!~*'' \<or> n \<in> {39, 40, 41})"

definition upper_hex :: "nat \<Rightarrow> char" where
  "upper_hex d = (if d < 10 then char_of (48 + d) else char_of (55 + d))"

definition percent :: "nat \<Rightarrow> string" where
  "percent byte = [CHR 0x25, upper_hex (byte div 16), upper_hex (byte mod 16)]"

definition encode_char :: "char \<Rightarrow> string" where
  "encode_char c =
     (let n = of_char c :: nat
      in if unreserved c then [c] else if n < 128 then percent n else percent (192 + n div 64) @ percent (128 + n mod 64))"

definition encodeSegment :: "jsval \<Rightarrow> string" where
  "encodeSegment v = concat (map encode_char (js_String v))"

definition strip_slashes :: "string \<Rightarrow> string" where
  "strip_slashes s = rev (dropWhile (\<lambda>c. c = CHR ''/'') (rev (dropWhile (\<lambda>c. c = CHR ''/'') s)))"

definition normalizeRoot :: "jsval \<Rightarrow> js_error + string" where
  "normalizeRoot v =
     (case v of
        JStr s \<Rightarrow> if s = [] then Inl (TypeError ''rootPath must be a non-empty string'')
          else let normalized = CHR ''/'' # strip_slashes s in Inr (if normalized = ''/'' then [] else normalized)
      | _ \<Rightarrow> Inl (TypeError ''rootPath must be a non-empty string''))"

text \<open>
  \<open>String(n)\<close> of a whole number. A number is the double nearest to a numeral, to even when two are as near; up to 53 bits
  every whole number is one. It prints as the shortest numeral that is read as it, the nearest one of that length, filled up with
  zeros; from 10^21 on with an exponent. Numerals past the largest double are not modelled.
\<close>

fun bit_count :: "nat \<Rightarrow> nat" where
  "bit_count n = (if n = 0 then 0 else Suc (bit_count (n div 2)))"

declare bit_count.simps [simp del]

definition nearest_double :: "nat \<Rightarrow> nat" where
  "nearest_double n =
     (let unit = 2 ^ (bit_count n - 53); low = n div unit; rest = n mod unit
      in unit * (if unit < 2 * rest \<or> (2 * rest = unit \<and> odd low) then low + 1 else low))"

definition numeral_with :: "nat \<Rightarrow> nat \<Rightarrow> nat option" where
  "numeral_with n e =
     (let unit = 10 ^ e in List.find (\<lambda>m. nearest_double (m * unit) = n) [(n + unit div 2) div unit, n div unit, n div unit + 1])"

fun shortest_from :: "nat \<Rightarrow> nat \<Rightarrow> nat \<times> nat" where
  "shortest_from n 0 = (n, 0)"
| "shortest_from n (Suc e) = (case numeral_with n (Suc e) of Some m \<Rightarrow> (m, Suc e) | None \<Rightarrow> shortest_from n e)"

definition shortest_numeral :: "nat \<Rightarrow> nat \<times> nat" where
  "shortest_numeral n = shortest_from n (length (nat_digits n) - 1)"

definition order_text :: "nat \<Rightarrow> string" where
  "order_text n =
     (case shortest_numeral n of (m, e) \<Rightarrow>
        if n < 10 ^ 21 then nat_digits m @ replicate e (CHR ''0'')
        else let d = nat_digits m
             in hd d # (if tl d = [] then [] else CHR ''.'' # tl d) @ ''e+'' @ nat_digits (length d - 1 + e))"

definition padOrder :: "jsval \<Rightarrow> js_error + string" where
  "padOrder order =
     (case order of
        JNum (Fin q) \<Rightarrow> if q < 0 then Inl (TypeError (''Invalid order: '' @ js_String order))
          else Inr (padStart ORDER_WIDTH (order_text (nat (js_trunc q))))
      | _ \<Rightarrow> Inl (TypeError (''Invalid order: '' @ js_String order)))"

definition sessionPath :: "string \<Rightarrow> jsval \<Rightarrow> string" where
  "sessionPath base sessionID = base @ ''/sessions/'' @ encodeSegment sessionID @ ''/session.json''"

definition interactionsPath :: "string \<Rightarrow> jsval \<Rightarrow> string" where
  "interactionsPath base sessionID = base @ ''/sessions/'' @ encodeSegment sessionID @ ''/interactions''"

definition commitPath :: "string \<Rightarrow> jsval \<Rightarrow> jsval \<Rightarrow> js_error + string" where
  "commitPath base sessionID commit =
     and_then (padOrder (pget commit ''order'')) (\<lambda>order.
       Inr (base @ ''/sessions/'' @ encodeSegment sessionID @ ''/commits/'' @ order @ ''-'' @ encodeSegment (pget commit ''id'') @ ''.json''))"

definition framePath :: "string \<Rightarrow> jsval \<Rightarrow> jsval \<Rightarrow> js_error + string" where
  "framePath base sessionID frame =
     (let interactionID = js_or (js_or (pget frame ''interactionID'') (pget frame ''interactionId'')) (pget frame ''id'')
      in and_then (padOrder (pget frame ''order'')) (\<lambda>order.
           Inr (interactionsPath base sessionID @ ''/'' @ encodeSegment interactionID @ ''/frames/'' @ order @ ''-''
                @ encodeSegment (pget frame ''type'') @ ''-'' @ encodeSegment (pget frame ''id'') @ ''.json'')))"

definition refPath :: "string \<Rightarrow> jsval \<Rightarrow> jsval \<Rightarrow> string" where
  "refPath base sessionID refName = base @ ''/sessions/'' @ encodeSegment sessionID @ ''/refs/'' @ encodeSegment refName @ ''.json''"

definition has_infix :: "string \<Rightarrow> string \<Rightarrow> bool" where
  "has_infix s sub = (split_first sub s \<noteq> None)"

definition shouldIgnoreSessionDirectory :: "string \<Rightarrow> bool" where
  "shouldIgnoreSessionDirectory path = (has_infix path ''/.aeordb-config'' \<or> has_infix path ''/.aeordb-indexes'')"

definition pathSegmentAfter :: "string \<Rightarrow> string \<Rightarrow> string" where
  "pathSegmentAfter parentPath itemPath =
     (let prefix = rev (dropWhile (\<lambda>c. c = CHR ''/'') (rev parentPath)) @ ''/''
      in if \<not> starts_with itemPath prefix then [] else takeWhile (\<lambda>c. c \<noteq> CHR ''/'') (drop (length prefix) itemPath))"

definition file_name :: "string \<Rightarrow> string" where
  "file_name path = rev (takeWhile (\<lambda>c. c \<noteq> CHR ''/'') (rev path))"

definition leading_order :: "string \<Rightarrow> nat option" where
  "leading_order name =
     (let digits = takeWhile is_dec_digit name
      in if digits \<noteq> [] \<and> starts_with (dropWhile is_dec_digit name) ''-'' then Some (nearest_double (digits_val 10 digits)) else None)"

definition frameOrderFromPath :: "string \<Rightarrow> nat" where
  "frameOrderFromPath path = (case leading_order (file_name path) of Some n \<Rightarrow> n | None \<Rightarrow> 9007199254740991)"

definition path_le :: "(string \<Rightarrow> string \<Rightarrow> int) \<Rightarrow> string \<Rightarrow> string \<Rightarrow> bool" where
  "path_le localeCompare l r =
     (if frameOrderFromPath l \<noteq> frameOrderFromPath r then frameOrderFromPath l < frameOrderFromPath r else localeCompare l r \<le> 0)"

definition sortFramePathsByOrder :: "docdb \<Rightarrow> string list \<Rightarrow> string list" where
  "sortFramePathsByOrder db paths = sort_by (path_le (db_localeCompare db)) paths"

section \<open>Reading files\<close>

fun pathsFromItems :: "jsval list \<Rightarrow> jsval list" where
  "pathsFromItems [] = []"
| "pathsFromItems (item # items) =
     (if truthy (pget item ''path'') then pget item ''path'' # pathsFromItems items
      else if truthy (pget item ''@path'') then pget item ''@path'' # pathsFromItems items else pathsFromItems items)"

text \<open>
  The regular expression of the repair, as a scan: pairs of backslashes stay, an escape JSON has stays, and the backslash of any other
  escape goes.
\<close>

definition json_escape :: "char \<Rightarrow> bool" where
  "json_escape c = (c \<in> set ''/bfnrtu'' \<or> c = CHR 0x22 \<or> c = CHR 0x5C)"

fun repairInvalidEscapes :: "string \<Rightarrow> string" where
  "repairInvalidEscapes [] = []"
| "repairInvalidEscapes [c] = (if c = CHR 0x5C then [] else [c])"
| "repairInvalidEscapes (c # d # cs) =
     (if c \<noteq> CHR 0x5C then c # repairInvalidEscapes (d # cs)
      else if d = CHR 0x5C then c # d # repairInvalidEscapes cs
      else if json_escape d then c # repairInvalidEscapes (d # cs)
      else repairInvalidEscapes (d # cs))"

definition parseFetchedJSON :: "docdb \<Rightarrow> string \<Rightarrow> jsval \<Rightarrow> store_error + jsval" where
  "parseFetchedJSON db path entry =
     (if nullish entry then Inl (Failure (Some 404) (''AeorDB multi-fetch omitted '' @ path))
      else let content = (if has_own (props_of entry) ''content'' then pget entry ''content'' else entry)
           in case content of
                JStr s \<Rightarrow>
                  (case db_parse db s of
                     Inr v \<Rightarrow> Inr v
                   | Inl e \<Rightarrow>
                       let failure = Inl (Failure None (''AeorDB multi-fetch returned non-JSON content for '' @ path @ '': '' @ e));
                           repaired = repairInvalidEscapes s
                       in if repaired \<noteq> s then (case db_parse db repaired of Inr v \<Rightarrow> Inr v | Inl _ \<Rightarrow> failure) else failure)
              | v \<Rightarrow> Inr (if nullish v then Null else v))"

type_synonym file_read = "string \<times> (store_error + jsval)"

text \<open>One read per path, in the order of the paths; without \<open>continueOnError\<close> the first failure ends the reads.\<close>

definition read_each :: "bool \<Rightarrow> (string \<Rightarrow> store_error + jsval) \<Rightarrow> string list \<Rightarrow> store_error + file_read list" where
  "read_each continueOnError get paths =
     (if continueOnError then Inr (map (\<lambda>p. (p, get p)) paths)
      else try_map (\<lambda>p. and_then (get p) (\<lambda>v. Inr (p, Inr v))) paths)"

definition readJSONFiles :: "docdb \<Rightarrow> bool \<Rightarrow> bool \<Rightarrow> string list \<Rightarrow> store_error + file_read list" where
  "readJSONFiles db fallbackOnBatchError continueOnError paths =
     (if paths = [] then Inr []
      else let one_by_one = read_each continueOnError (db_getFile db) paths
           in case db_fetchFiles db of
                None \<Rightarrow> one_by_one
              | Some fetch \<Rightarrow>
                  (case and_then (fetch paths) (\<lambda>batch. read_each continueOnError (\<lambda>p. parseFetchedJSON db p (batch p)) paths) of
                     Inr reads \<Rightarrow> Inr reads
                   | Inl e \<Rightarrow> if fallbackOnBatchError then one_by_one else Inl e))"

section \<open>Frames that cannot be read\<close>

definition parseFrameOrderFromPath :: "string \<Rightarrow> nat" where
  "parseFrameOrderFromPath path = (case leading_order (file_name path) of Some n \<Rightarrow> n | None \<Rightarrow> 0)"

fun interaction_segment :: "string \<Rightarrow> string option" where
  "interaction_segment [] = None"
| "interaction_segment (c # cs) =
     (let rest = drop (length ''/interactions/'') (c # cs); seg = takeWhile (\<lambda>c. c \<noteq> CHR ''/'') rest
      in if starts_with (c # cs) ''/interactions/'' \<and> seg \<noteq> [] \<and> starts_with (drop (length seg) rest) ''/frames/'' then Some seg
         else interaction_segment cs)"

definition parseInteractionIDFromPath :: "docdb \<Rightarrow> string \<Rightarrow> js_error + jsval" where
  "parseInteractionIDFromPath db path =
     (case interaction_segment path of None \<Rightarrow> Inr Null | Some seg \<Rightarrow> and_then (db_decode db seg) (\<lambda>s. Inr (JStr s)))"

definition load_error_frame :: "jsval \<Rightarrow> jsval \<Rightarrow> string \<Rightarrow> jsobj \<Rightarrow> jsobj \<Rightarrow> jsval" where
  "load_error_frame sessionID interactionID frameID stamps content =
     JObj ([(''id'', JStr frameID), (''type'', JStr ''FrameLoadError''), (''sessionID'', sessionID), (''interactionID'', interactionID),
        (''parentID'', Null), (''authorType'', JStr ''system''), (''authorID'', JStr ''internal:frame-store'')] @ stamps
        @ [(''hidden'', JBool False), (''deleted'', JBool False), (''phantom'', JBool False), (''content'', JObj content)])"

definition createFrameLoadError :: "docdb \<Rightarrow> jsval \<Rightarrow> string \<Rightarrow> store_error \<Rightarrow> store_error + jsval" where
  "createFrameLoadError db sessionID path e =
     (let name = file_name path; fileName = (if name = [] then ''unknown-frame.json'' else name); zero = JNum (Fin 0)
      in case parseInteractionIDFromPath db path of
           Inl bad \<Rightarrow> Inl (Refused bad)
         | Inr interactionID \<Rightarrow>
             Inr (load_error_frame sessionID interactionID (''load-error:'' @ fileName)
               [(''order'', JNum (Fin (of_nat (parseFrameOrderFromPath path)))), (''timestamp'', zero), (''createdAt'', zero), (''updatedAt'', zero),
                (''createdClock'', Null), (''updatedClock'', Null)]
               [(''text'', JStr ''Frame could not be loaded from the document store. Original database evidence was not modified.''),
                (''path'', JStr path),
                (''error'', JStr (if error_text e = [] then ''Unknown frame load failure'' else error_text e))]))"

definition createCommittedFrameLoadError :: "jsval \<Rightarrow> jsval \<Rightarrow> jsval \<Rightarrow> jsval" where
  "createCommittedFrameLoadError sessionID commit frameID =
     (let order = (case pget commit ''order'' of JNum n \<Rightarrow> JNum n | _ \<Rightarrow> JNum (Fin 0));
          timestamp = js_or (pget commit ''timestamp'') (JNum (Fin 0));
          clock = js_or (js_or (pget commit ''clock'') (pget commit ''createdClock'')) Null
      in load_error_frame sessionID Null (''load-error:'' @ js_String (js_or (pget commit ''id'') order) @ '':'' @ js_String frameID)
           [(''order'', JNum (Fin max_safe_integer)), (''commitOrder'', order), (''timestamp'', timestamp), (''createdAt'', timestamp),
            (''updatedAt'', timestamp), (''createdClock'', clock), (''updatedClock'', clock)]
           [(''text'', JStr ''Committed frame could not be loaded from the document store. Original database evidence was not modified.''),
            (''commitID'', js_or (pget commit ''id'') Null), (''commitOrder'', order), (''frameID'', frameID),
            (''error'', JStr ''Committed frame body is missing or unreadable.'')])"

section \<open>The order of stored frames\<close>

definition isClosedAgentMessage :: "jsval \<Rightarrow> bool" where
  "isClosedAgentMessage frame =
     (pget frame ''type'' = JStr ''AgentMessage''
      \<and> (lifecycle_of frame ''status'' = JStr ''closed'' \<or> frame_content frame ''status'' = JStr ''complete''))"

definition sortUpdatedClock :: "jsval \<Rightarrow> jsval" where
  "sortUpdatedClock frame =
     (if FrameManager.nonblank (pget frame ''updatedClock'') \<noteq> [] then pget frame ''updatedClock'' else pget frame ''createdClock'')"

definition sortUpdatedAt :: "jsval \<Rightarrow> jsval" where
  "sortUpdatedAt frame = numberOr (pget frame ''updatedAt'') (js_or (pget frame ''createdAt'') (JNum (Fin 0)))"

definition logicalSortClock :: "jsval \<Rightarrow> jsval" where
  "logicalSortClock frame =
     (if isClosedAgentMessage frame then js_or (lifecycle_of frame ''closedClock'') (sortUpdatedClock frame) else pget frame ''createdClock'')"

definition logicalSortTime :: "jsval \<Rightarrow> jsval" where
  "logicalSortTime frame =
     (if isClosedAgentMessage frame then numberOr (lifecycle_of frame ''closedAt'') (sortUpdatedAt frame) else pget frame ''createdAt'')"

definition storedCommitOrder :: "jsval \<Rightarrow> jsval" where
  "storedCommitOrder frame = numberOr (pget frame ''commitOrder'') (js_or (pget frame ''order'') (JNum (Fin 0)))"

text \<open>\<open>a || b || ...\<close> over the results of comparisons.\<close>

fun first_difference :: "rat list \<Rightarrow> rat" where
  "first_difference [] = 0"
| "first_difference (c # cs) = (if c \<noteq> 0 then c else first_difference cs)"

definition compareStoredFrames :: "(string \<Rightarrow> string \<Rightarrow> int) \<Rightarrow> jsval \<Rightarrow> jsval \<Rightarrow> rat" where
  "compareStoredFrames localeCompare a b =
     first_difference [compareClock localeCompare (logicalSortClock a) (logicalSortClock b), compareNumber (logicalSortTime a) (logicalSortTime b),
       compareNumber (pget a ''order'') (pget b ''order''), compareNumber (storedCommitOrder a) (storedCommitOrder b),
       of_int (localeCompare (js_String (pget a ''id'')) (js_String (pget b ''id'')))]"

definition compareSessionOrder :: "(string \<Rightarrow> string \<Rightarrow> int) \<Rightarrow> jsval \<Rightarrow> jsval \<Rightarrow> rat" where
  "compareSessionOrder localeCompare a b =
     first_difference [compareClock localeCompare (pget b ''updatedClock'') (pget a ''updatedClock''), compareNumber (pget b ''updatedAt'') (pget a ''updatedAt''),
       compareClock localeCompare (pget b ''createdClock'') (pget a ''createdClock''), compareNumber (pget b ''createdAt'') (pget a ''createdAt''),
       of_int (localeCompare (type_text (pget a ''id'')) (type_text (pget b ''id'')))]"

definition compareScheduledFrameOrder :: "(string \<Rightarrow> string \<Rightarrow> int) \<Rightarrow> jsval \<Rightarrow> jsval \<Rightarrow> rat" where
  "compareScheduledFrameOrder localeCompare a b =
     first_difference [compareNumber (pget a ''scheduledAt'') (pget b ''scheduledAt''),
       compareClock localeCompare (pget a ''updatedClock'') (pget b ''updatedClock''), compareNumber (pget a ''updatedAt'') (pget b ''updatedAt''),
       of_int (localeCompare (type_text (pget a ''id'')) (type_text (pget b ''id'')))]"

definition compareFrameFileVersion :: "(string \<Rightarrow> string \<Rightarrow> int) \<Rightarrow> jsval \<Rightarrow> jsval \<Rightarrow> rat" where
  "compareFrameFileVersion localeCompare a b =
     first_difference [compareClock localeCompare (sortUpdatedClock a) (sortUpdatedClock b), compareNumber (sortUpdatedAt a) (sortUpdatedAt b),
       compareNumber (pget a ''commitOrder'') (pget b ''commitOrder''), compareNumber (pget a ''order'') (pget b ''order'')]"

definition storedCommitFrameIDs :: "jsval \<Rightarrow> jsval list" where
  "storedCommitFrameIDs commit =
     (let changed = filter truthy (map (\<lambda>c. pget c ''frameID'') (arr_of (pget commit ''changes'')))
      in if changed \<noteq> [] then changed else filter truthy (arr_of (pget commit ''frameIDs'')))"

definition newest_version :: "docdb \<Rightarrow> (jsval \<times> jsval) list \<Rightarrow> jsval \<Rightarrow> (jsval \<times> jsval) list" where
  "newest_version db byID frame =
     (let k = pget frame ''id''
      in if \<not> truthy k then byID
         else case map_of byID k of
                None \<Rightarrow> AList.update k frame byID
              | Some existing \<Rightarrow>
                  if compareFrameFileVersion (db_localeCompare db) existing frame \<le> 0 then AList.update k frame byID else byID)"

definition place_committed :: "jsval \<Rightarrow> (jsval \<times> jsval) list \<Rightarrow> jsval \<Rightarrow> (jsval \<times> jsval) list \<Rightarrow> jsval \<Rightarrow> (jsval \<times> jsval) list" where
  "place_committed sessionID frameByID commit output frameID =
     (case map_of frameByID frameID of
        None \<Rightarrow> AList.update frameID (createCommittedFrameLoadError sessionID commit frameID) output
      | Some frame \<Rightarrow> AList.update frameID (JObj (oset (props_of frame) ''commitOrder'' (pget commit ''order''))) output)"

definition orderFramesByCommits :: "docdb \<Rightarrow> jsval \<Rightarrow> jsval list \<Rightarrow> jsval list \<Rightarrow> jsval list" where
  "orderFramesByCommits db sessionID frames commits =
     (let frameByID = foldl (newest_version db) [] frames;
          outputByID = foldl (\<lambda>out commit. foldl (place_committed sessionID frameByID commit) out (storedCommitFrameIDs commit)) [] commits;
          ordered = map snd outputByID @ map snd (filter (\<lambda>(k, _). k \<notin> fst ` set outputByID) frameByID)
      in sort_by (\<lambda>a b. compareStoredFrames (db_localeCompare db) a b \<le> 0) ordered)"

section \<open>What is written\<close>

function stripHTML :: "string \<Rightarrow> string" where
  "stripHTML [] = []"
| "stripHTML (c # cs) =
     (if c = CHR ''<'' \<and> CHR ''>'' \<in> set cs then CHR '' '' # stripHTML (tl (dropWhile (\<lambda>d. d \<noteq> CHR ''>'') cs)) else c # stripHTML cs)"
  by pat_completeness auto
termination
  by (relation "measure length") (auto simp: le_imp_less_Suc order_trans [OF diff_le_self length_dropWhile_le])

definition extractContentText :: "jsval \<Rightarrow> string" where
  "extractContentText frame =
     (let content = pget frame ''content''
      in if nullish content then []
         else if is_str content then str_or_empty content
         else if is_str (pget content ''text'') then str_or_empty (pget content ''text'')
         else if is_str (pget content ''html'') then stripHTML (str_or_empty (pget content ''html''))
         else if is_str (pget content ''output'') then str_or_empty (pget content ''output'')
         else if is_str (pget content ''result'') then str_or_empty (pget content ''result'')
         else case json_stringify content of None \<Rightarrow> [] | Some t \<Rightarrow> t)"

definition serializeFrame :: "jsval \<Rightarrow> jsval \<Rightarrow> jsval" where
  "serializeFrame sessionID frame =
     JObj (oset (oset (oset (oset (props_of frame) ''sessionID'' (js_or (pget frame ''sessionID'') sessionID))
       ''contentText'' (JStr (extractContentText frame))) ''hiddenIndex'' (JStr (js_String (JBool (pget frame ''hidden'' = JBool True)))))
       ''deletedIndex'' (JStr (js_String (JBool (pget frame ''deleted'' = JBool True)))))"

definition serializeCommit :: "jsval \<Rightarrow> jsval list \<Rightarrow> jsval" where
  "serializeCommit commit frames = JObj (oset (props_of commit) ''frameIDs'' (JArr (map (\<lambda>f. pget f ''id'') frames)))"

text \<open>
  The files written to save a commit, in their order (its frames, the commit, the refs), and the error that ended the writes early. A
  write that the database refuses ends them too; that is left to the caller of the list.
\<close>

type_synonym writes = "(string \<times> jsval) list \<times> js_error option"

definition write_path :: "js_error + string \<Rightarrow> jsval \<Rightarrow> writes \<Rightarrow> writes" where
  "write_path path v after =
     (case path of Inl e \<Rightarrow> ([], Some e) | Inr p \<Rightarrow> (case after of (ws, e) \<Rightarrow> ((p, v) # ws, e)))"

fun save_frames :: "string \<Rightarrow> jsval \<Rightarrow> jsval list \<Rightarrow> writes \<Rightarrow> writes" where
  "save_frames base sessionID [] after = after"
| "save_frames base sessionID (frame # frames) after =
     (if \<not> truthy (pget frame ''id'') \<or> \<not> truthy (pget frame ''type'')
      then ([], Some (TypeError ''saveFrame() requires frame.id and frame.type''))
      else write_path (framePath base sessionID frame) (serializeFrame sessionID frame) (save_frames base sessionID frames after))"

definition saveRefs :: "string \<Rightarrow> jsval \<Rightarrow> (jsval \<times> jsval) list \<Rightarrow> writes" where
  "saveRefs base sessionID refs =
     (map (\<lambda>(name, order). (refPath base sessionID name, JObj [(''name'', name), (''commitOrder'', order)])) refs, None)"

definition saveCommit :: "string \<Rightarrow> jsval \<Rightarrow> jsval \<Rightarrow> jsval \<Rightarrow> (jsval \<times> jsval) list \<Rightarrow> writes" where
  "saveCommit base sessionID commit frames refs =
     (if \<not> truthy sessionID then ([], Some (TypeError ''sessionID is required to save a commit''))
      else if \<not> truthy (pget commit ''id'') \<or> (case pget commit ''order'' of JNum _ \<Rightarrow> False | _ \<Rightarrow> True)
        then ([], Some (TypeError ''saveCommit() requires a commit with id and order''))
      else save_frames base sessionID (arr_of frames)
             (write_path (commitPath base sessionID commit) (serializeCommit commit (arr_of frames)) (saveRefs base sessionID refs)))"

section \<open>Listing a directory\<close>

function directory_pages :: "docdb \<Rightarrow> string \<Rightarrow> string \<Rightarrow> nat \<Rightarrow> nat \<Rightarrow> jsval list \<Rightarrow> store_error + jsval list" where
  "directory_pages db path glob remaining cursor paths =
     (if remaining = 0 then Inr paths
      else let pageLimit = min DIRECTORY_PAGE_LIMIT remaining
           in case db_listDirectory db path glob pageLimit cursor of
                Inl e \<Rightarrow> Inl e
              | Inr result \<Rightarrow>
                  let pagePaths = pathsFromItems (ls_items result)
                  in if length pagePaths < pageLimit then Inr (paths @ pagePaths)
                     else directory_pages db path glob (remaining - pageLimit) (cursor + pageLimit) (paths @ pagePaths))"
  by pat_completeness auto
termination
  by (relation "measure (\<lambda>(db, path, glob, remaining, cursor, paths). remaining)") (auto simp: DIRECTORY_PAGE_LIMIT_def)

declare directory_pages.simps [simp del]

text \<open>The limits the callers pass are whole numbers; none of them means the default.\<close>

definition listDirectoryPaths :: "docdb \<Rightarrow> string \<Rightarrow> string \<Rightarrow> nat option \<Rightarrow> nat \<Rightarrow> store_error + string list" where
  "listDirectoryPaths db path glob wanted offset =
     and_then (normalizeLargeLimit (case wanted of None \<Rightarrow> Undefined | Some n \<Rightarrow> JNum (Fin (of_nat n))) DEFAULT_FRAME_LIST_LIMIT) (\<lambda>most.
       and_then (directory_pages db path glob most offset []) (\<lambda>paths. Inr (uniquePaths paths)))"

section \<open>A directory that keeps still\<close>

text \<open>
  What the store relies on: during a call the database lists the same paths in the same order, answers a page of them from an offset on,
  at most \<open>most\<close> at a time, and reports how many there are.
\<close>

definition path_item :: "string \<Rightarrow> jsval" where
  "path_item p = JObj [(''path'', JStr p)]"

definition serves :: "docdb \<Rightarrow> nat \<Rightarrow> string \<Rightarrow> string \<Rightarrow> string list \<Rightarrow> bool" where
  "serves db most path glob L \<longleftrightarrow>
     1 \<le> most \<and> (\<forall>n offset. db_listDirectory db path glob n offset =
       Inr \<lparr>ls_total = Some (int (length L)), ls_items = map path_item (take (min n most) (drop offset L))\<rparr>)"

definition clean_paths :: "string list \<Rightarrow> bool" where
  "clean_paths L \<longleftrightarrow> distinct L \<and> (\<forall>p \<in> set L. p \<noteq> [] \<and> js_trim p = p)"

text \<open>The rows one call of the listing can reach: a page shorter than the store's own page ends it.\<close>

definition reach :: "nat \<Rightarrow> nat" where
  "reach most = (if DIRECTORY_PAGE_LIMIT \<le> most then MAX_FRAME_LIST_LIMIT else most)"

lemma servesD: "serves db most path glob L \<Longrightarrow> db_listDirectory db path glob n offset =
    Inr \<lparr>ls_total = Some (int (length L)), ls_items = map path_item (take (min n most) (drop offset L))\<rparr>"
  "serves db most path glob L \<Longrightarrow> 1 \<le> most"
  by (simp_all add: serves_def)

lemma paths_of_items: "\<forall>p \<in> set L. p \<noteq> [] \<Longrightarrow> pathsFromItems (map path_item L) = map JStr L"
  by (induction L) (simp_all add: path_item_def)

lemma clean_part: "clean_paths L \<Longrightarrow> clean_paths (take n (drop k L))"
  by (auto simp: clean_paths_def dest!: in_set_takeD in_set_dropD)

lemma unique_clean: "clean_paths L \<Longrightarrow> uniquePaths (map JStr L) = L"
proof -
  assume clean: "clean_paths L"
  then have "foldl push_path acc (map JStr L) = foldl push_new acc L" for acc
    by (induction L arbitrary: acc) (simp_all add: clean_paths_def push_path_def)
  then show ?thesis using clean uniq_distinct [of L] by (simp add: uniquePaths_def clean_paths_def uniq_def)
qed

lemma wide_pages:
  assumes "serves db most path glob L" "clean_paths L" "DIRECTORY_PAGE_LIMIT \<le> most"
  shows "directory_pages db path glob n k acc = Inr (acc @ map JStr (take n (drop k L)))"
proof (induction n arbitrary: k acc rule: less_induct)
  case (less n)
  let ?m = "min DIRECTORY_PAGE_LIMIT n"
  have nonempty: "\<forall>p \<in> set (take ?m (drop k L)). p \<noteq> []" using assms(2) by (auto simp: clean_paths_def dest!: in_set_takeD in_set_dropD)
  have page: "pathsFromItems (map path_item (take (min ?m most) (drop k L))) = map JStr (take ?m (drop k L))"
    using paths_of_items [OF nonempty] assms(3) by (simp add: min.absorb1 min.coboundedI1)
  show ?case
  proof (cases "n = 0 \<or> length (take ?m (drop k L)) < ?m")
    case True
    then have "n \<noteq> 0 \<Longrightarrow> take ?m (drop k L) = take n (drop k L)" by auto
    with True show ?thesis
      by (subst directory_pages.simps) (auto simp: servesD(1) [OF assms(1)] Let_def page simp del: length_take)
  next
    case False
    then have n: "n \<noteq> 0" "n - ?m < n" by (simp_all add: DIRECTORY_PAGE_LIMIT_def)
    have "take n (drop k L) = take ?m (drop k L) @ take (n - ?m) (drop (k + ?m) L)"
      using take_add [of ?m "n - ?m" "drop k L"] by (simp add: add.commute)
    with False n less.IH [OF n(2), of "k + ?m"] show ?thesis
      by (subst directory_pages.simps) (auto simp: servesD(1) [OF assms(1)] Let_def page simp del: length_take)
  qed
qed

lemma narrow_page:
  assumes "serves db most path glob L" "clean_paths L" "most < DIRECTORY_PAGE_LIMIT"
  shows "directory_pages db path glob n k [] = Inr (map JStr (take (min n most) (drop k L)))"
proof -
  have items: "pathsFromItems (map path_item (take j (drop k L))) = map JStr (take j (drop k L))" for j
    using assms(2) by (intro paths_of_items) (auto simp: clean_paths_def dest!: in_set_takeD in_set_dropD)
  show ?thesis
  proof (cases "n \<le> most")
    case True
    then have [simp]: "min DIRECTORY_PAGE_LIMIT n = n" "min n most = n" using assms(3) by auto
    show ?thesis
      by (subst directory_pages.simps, simp add: servesD(1) [OF assms(1)] Let_def items) (simp add: directory_pages.simps)
  next
    case False
    then have m: "min (min DIRECTORY_PAGE_LIMIT n) most = most" "min n most = most" "n \<noteq> 0"
        "most < min DIRECTORY_PAGE_LIMIT n" using assms(3) by auto
    have "length (take most (drop k L)) < min DIRECTORY_PAGE_LIMIT n" by (rule le_less_trans [OF _ m(4)]) simp
    with m show ?thesis
      by (subst directory_pages.simps) (simp add: servesD(1) [OF assms(1)] Let_def items del: length_take)
  qed
qed

lemma limit_is: "1 \<le> n \<Longrightarrow> normalizeLargeLimit (JNum (Fin (of_nat n))) d = Inr (min n MAX_FRAME_LIST_LIMIT)"
  by (simp add: normalizeLargeLimit_def positive_limit_def whole_number_def)

theorem listing_is_slice:
  assumes "serves db most path glob L" "clean_paths L" "1 \<le> n"
  shows "listDirectoryPaths db path glob (Some n) k = Inr (take (min n (reach most)) (drop k L))"
proof -
  have "directory_pages db path glob (min n MAX_FRAME_LIST_LIMIT) k [] = Inr (map JStr (take (min n (reach most)) (drop k L)))"
  proof (cases "DIRECTORY_PAGE_LIMIT \<le> most")
    case False
    then have "most < DIRECTORY_PAGE_LIMIT" "min (min n MAX_FRAME_LIST_LIMIT) most = min n (reach most)"
      by (auto simp: reach_def MAX_FRAME_LIST_LIMIT_def DIRECTORY_PAGE_LIMIT_def)
    then show ?thesis using narrow_page [OF assms(1,2)] by simp
  qed (simp add: wide_pages [OF assms(1,2)] reach_def)
  then show ?thesis using clean_part [OF assms(2)]
    by (simp add: listDirectoryPaths_def limit_is [OF assms(3)] unique_clean)
qed

section \<open>Reading never drops a path\<close>

theorem every_path_is_read: "\<exists>reads. readJSONFiles db True True paths = Inr reads \<and> map fst reads = paths"
  by (cases "db_fetchFiles db")
    (auto simp: readJSONFiles_def read_each_def Let_def comp_def and_then_def split: sum.splits)

fun escapes_ok :: "string \<Rightarrow> bool" where
  "escapes_ok [] = True"
| "escapes_ok [c] = (c \<noteq> CHR 0x5C)"
| "escapes_ok (c # d # cs) = (if c = CHR 0x5C then json_escape d \<and> escapes_ok cs else escapes_ok (d # cs))"

lemma escapes_ok_Cons: "c \<noteq> CHR 0x5C \<Longrightarrow> escapes_ok (c # cs) = escapes_ok cs"
  by (cases cs) auto

lemma repair_other: "c \<noteq> CHR 0x5C \<Longrightarrow> repairInvalidEscapes (c # cs) = c # repairInvalidEscapes cs"
  by (cases cs) auto

lemma json_escape_backslash [simp]: "json_escape (CHR 0x5C)"
  by (simp add: json_escape_def)

theorem repair_makes_escapes_valid:
  "escapes_ok (repairInvalidEscapes s) \<and> (escapes_ok s \<longrightarrow> repairInvalidEscapes s = s)"
  by (induction s rule: repairInvalidEscapes.induct) (auto simp: escapes_ok_Cons repair_other)

section \<open>The path of a frame\<close>

lemma upper_hex_code: "d < 16 \<Longrightarrow> (of_char (upper_hex d) :: nat) = (if d < 10 then 48 + d else 55 + d)"
  by (simp add: upper_hex_def)

lemma upper_hex_no_slash: "d < 16 \<Longrightarrow> upper_hex d \<noteq> CHR ''/''"
proof
  assume "d < 16" and "upper_hex d = CHR ''/''"
  then have "(of_char (CHR ''/'') :: nat) = (if d < 10 then 48 + d else 55 + d)" using upper_hex_code by metis
  moreover have "(of_char (CHR ''/'') :: nat) = 47" by simp
  ultimately show False by (simp split: if_splits)
qed

lemma no_slash: "CHR ''/'' \<notin> set (encodeSegment v)"
proof -
  have percent: "CHR ''/'' \<notin> set (percent n)" if "n < 256" for n
  proof -
    have "n div 16 < 16" using that by (simp add: less_mult_imp_div_less)
    then show ?thesis using upper_hex_no_slash [of "n div 16"] upper_hex_no_slash [of "n mod 16"] by (auto simp: percent_def)
  qed
  have "CHR ''/'' \<notin> set (encode_char c)" for c
  proof -
    have n: "of_char c < (256 :: nat)" by simp
    then have "of_char c div 64 < (4 :: nat)" by (intro less_mult_imp_div_less) simp
    moreover have "of_char c mod 64 < (64 :: nat)" by simp
    ultimately have "192 + of_char c div 64 < (256 :: nat)" "128 + of_char c mod 64 < (256 :: nat)" by linarith+
    moreover have "\<not> unreserved (CHR ''/'')" by (simp add: unreserved_def)
    ultimately show ?thesis using percent n by (auto simp: encode_char_def Let_def)
  qed
  then show ?thesis by (simp add: encodeSegment_def)
qed

lemma file_name_last: "CHR ''/'' \<notin> set s \<Longrightarrow> file_name (a @ CHR ''/'' # s) = s"
proof -
  assume "CHR ''/'' \<notin> set s"
  then have "takeWhile (\<lambda>c. c \<noteq> CHR ''/'') (rev s @ CHR ''/'' # rev a) = rev s" by (subst takeWhile_append2) auto
  then show ?thesis by (simp add: file_name_def)
qed

lemma nat_digits_read: "digits_val 10 (nat_digits n) = n \<and> list_all is_dec_digit (nat_digits n)"
proof (induction n rule: nat_digits.induct)
  case (1 n)
  show ?case
  proof (cases "n < 10")
    case True
    then show ?thesis by (subst (1 2) nat_digits.simps) (simp add: digits_val_def digit_char)
  next
    case False
    have "n mod 10 < 10" by simp
    with False "1.IH" [OF False] show ?thesis
      by (subst (1 2) nat_digits.simps) (simp add: digits_val_snoc digit_char)
  qed
qed

lemma digits_val_zeros: "digits_val 10 (replicate k (CHR ''0'') @ s) = digits_val 10 s" "digits_val 10 (s @ replicate k (CHR ''0'')) = digits_val 10 s * 10 ^ k"
proof -
  show "digits_val 10 (replicate k (CHR ''0'') @ s) = digits_val 10 s"
    by (induction k) (simp_all add: digits_val_def digit_val_def)
  have "digits_val 10 (s @ replicate k (CHR ''0'')) = digits_val 10 s * 10 ^ k"
  proof (induction k)
    case (Suc k)
    have "s @ replicate (Suc k) (CHR ''0'') = (s @ replicate k (CHR ''0'')) @ [CHR ''0'']" by (simp add: replicate_append_same)
    then show ?case by (simp only: digits_val_snoc Suc) (simp add: digit_val_def)
  qed simp
  then show "digits_val 10 (s @ replicate k (CHR ''0'')) = digits_val 10 s * 10 ^ k" .
qed

text \<open>A number below 10^21 prints as a numeral that reads back as it.\<close>

lemma shortest_from_reads: "nearest_double n = n \<Longrightarrow> shortest_from n k = (m, e) \<Longrightarrow> nearest_double (m * 10 ^ e) = n"
  by (induction k) (auto simp: numeral_with_def Let_def find_Some_iff split: option.splits if_splits)

lemma shortest_numeral_reads: "nearest_double n = n \<Longrightarrow> shortest_numeral n = (m, e) \<Longrightarrow> nearest_double (m * 10 ^ e) = n"
  unfolding shortest_numeral_def by (rule shortest_from_reads)

lemma padded_read:
  assumes "nearest_double n = n" "n < 10 ^ 21"
  shows "nearest_double (digits_val 10 (padStart w (order_text n))) = n" "list_all is_dec_digit (padStart w (order_text n))"
    "padStart w (order_text n) \<noteq> []"
proof -
  obtain m e where me: "shortest_numeral n = (m, e)" by (cases "shortest_numeral n")
  have t: "order_text n = nat_digits m @ replicate e (CHR ''0'')" using assms(2) by (simp add: order_text_def me)
  show "nearest_double (digits_val 10 (padStart w (order_text n))) = n"
    using shortest_numeral_reads[OF assms(1) me] by (simp add: padStart_def digits_val_zeros t nat_digits_read)
  show "list_all is_dec_digit (padStart w (order_text n))"
    using nat_digits_read [of m] by (auto simp: padStart_def list_all_iff digit_facts t)
  show "padStart w (order_text n) \<noteq> []" by (simp add: padStart_def t)
qed

lemma bit_count_le: "n < 2 ^ k \<Longrightarrow> bit_count n \<le> k"
proof (induction n arbitrary: k rule: bit_count.induct)
  case (1 n)
  show ?case
  proof (cases "n = 0")
    case True
    then show ?thesis by (simp add: bit_count.simps)
  next
    case False
    then obtain j where k: "k = Suc j" using "1.prems" by (cases k) auto
    then have "n div 2 < 2 ^ j" using "1.prems" by auto
    with False "1.IH"[of j] k show ?thesis by (subst bit_count.simps) simp
  qed
qed

lemma nearest_double_safe: "n < 2 ^ 53 \<Longrightarrow> nearest_double n = n"
  using bit_count_le[of n 53] by (simp add: nearest_double_def Let_def)

lemma leading_order_read:
  assumes "list_all is_dec_digit d" "d \<noteq> []"
  shows "leading_order (d @ ''-'' @ rest) = Some (nearest_double (digits_val 10 d))" "dropWhile is_dec_digit (d @ ''-'' @ rest) = ''-'' @ rest"
    "takeWhile is_dec_digit (d @ ''-'' @ rest) = d"
proof -
  have all: "\<And>c. c \<in> set d \<Longrightarrow> is_dec_digit c" using assms(1) by (simp add: list_all_iff)
  show "dropWhile is_dec_digit (d @ ''-'' @ rest) = ''-'' @ rest" "takeWhile is_dec_digit (d @ ''-'' @ rest) = d"
    using all by (simp_all add: dropWhile_append2 takeWhile_append2 digit_facts)
  then show "leading_order (d @ ''-'' @ rest) = Some (nearest_double (digits_val 10 d))"
    using assms(2) starts_with_prefix [of "''-''" rest] by (simp add: leading_order_def)
qed

lemma takeWhile_before: "\<not> P y \<Longrightarrow> takeWhile P (a @ y # b) = takeWhile P a"
  by (induction a) auto

text \<open>
  C31: The path of a frame reads back: the order the store sorts and pages by is the order the frame was stored with, without its
  fraction, for every number below 10^21 (past the safe integers too), and the type the filters test is the encoded type of the frame
  up to its first hyphen, so the whole of it when it has none. From 10^21 on neither does (lemma huge_order_is_lost).
\<close>

theorem frame_path_reads_back:
  assumes "framePath base sessionID frame = Inr p" "pget frame ''order'' = JNum (Fin q)"
    and "nearest_double (nat (js_trunc q)) = nat (js_trunc q)" "q < 10 ^ 21"
  shows "frameOrderFromPath p = nat (js_trunc q) \<and> parseFrameOrderFromPath p = nat (js_trunc q)
    \<and> frameTypeFromPath p = takeWhile (\<lambda>c. c \<noteq> CHR ''-'') (encodeSegment (pget frame ''type'')) \<and> has_infix p ''/frames/''"
proof -
  let ?d = "padStart ORDER_WIDTH (order_text (nat (js_trunc q)))"
  let ?rest = "encodeSegment (pget frame ''type'') @ ''-'' @ encodeSegment (pget frame ''id'') @ ''.json''"
  have small: "nat (js_trunc q) < 10 ^ 21"
  proof (cases "0 \<le> q")
    case True
    then have "\<lfloor>q\<rfloor> < 10 ^ 21" using assms(4) by (simp add: floor_less_iff)
    with True show ?thesis by (simp add: js_trunc_def nat_less_iff)
  qed (simp add: js_trunc_def)
  note read = padded_read[OF assms(3) small]
  have digits: "list_all is_dec_digit ?d" "?d \<noteq> []" by (rule read)+
  obtain a where p: "p = a @ ''/frames/'' @ ?d @ ''-'' @ ?rest"
    using assms(1,2) by (auto simp: framePath_def padOrder_def Let_def and_then_Inr split: if_splits)
  have "CHR ''/'' \<notin> set ?d" using digits(1) by (auto simp: list_all_iff is_digit_in_def digit_val_def)
  then have name: "file_name p = ?d @ ''-'' @ ?rest"
    using file_name_last [of "?d @ ''-'' @ ?rest" "a @ ''/frames''"] no_slash by (simp add: p)
  have "frameTypeFromPath p = takeWhile (\<lambda>c. c \<noteq> CHR ''-'') ?rest"
    using leading_order_read(2,3) [OF digits, of ?rest] digits(2) name
    by (simp add: frameTypeFromPath_def file_name_def Let_def dropWhile_eq_Nil_conv)
  also have "\<dots> = takeWhile (\<lambda>c. c \<noteq> CHR ''-'') (encodeSegment (pget frame ''type''))"
    by (simp add: takeWhile_before)
  finally have type: "frameTypeFromPath p = takeWhile (\<lambda>c. c \<noteq> CHR ''-'') (encodeSegment (pget frame ''type''))" .
  have "leading_order (file_name p) = Some (nat (js_trunc q))"
    using leading_order_read(1) [OF digits, of ?rest] by (simp add: name read)
  moreover have "has_infix p ''/frames/''" unfolding p has_infix_def by (rule split_first_finds)
  ultimately show ?thesis using type by (simp add: frameOrderFromPath_def parseFrameOrderFromPath_def)
qed

definition demo_frame :: jsval where
  "demo_frame = JObj [(''id'', JStr ''f''), (''interactionID'', JStr ''i''), (''type'', JStr ''UserMessage''), (''order'', JNum (Fin 12))]"

lemma demo_segments [simp]:
  "encodeSegment (JStr ''s'') = ''s''" "encodeSegment (JStr ''i'') = ''i''" "encodeSegment (JStr ''f'') = ''f''"
  "encodeSegment (JStr ''UserMessage'') = ''UserMessage''"
  by code_simp+

lemma demo_digits: "nat_digits 12 = ''12''" "nat_digits 1 = ''1''" "nat_digits (Suc 0) = ''1''" "nat_digits 21 = ''21''"
  by (simp_all add: nat_digits.simps char_of_def bit_0)

lemma shortest_step: "0 < k \<Longrightarrow> shortest_from n k = (case numeral_with n k of Some m \<Rightarrow> (m, k) | None \<Rightarrow> shortest_from n (k - 1))"
  by (cases k) (simp_all split: option.split)

lemma bit_count_numeral: "bit_count (numeral k) = Suc (bit_count (numeral k div 2))" "bit_count 0 = 0" "bit_count (Suc 0) = 1" "bit_count 1 = 1"
  by (simp_all add: bit_count.simps)

lemma small_order_text: "order_text 12 = ''12''"
  by (simp add: order_text_def shortest_numeral_def demo_digits numeral_with_def nearest_double_safe Let_def)

lemma demo_pad: "replicate 14 (CHR ''0'') = ''00000000000000''" "replicate 11 (CHR ''0'') = ''00000000000''"
  by (simp_all add: eval_nat_numeral)

lemma demo_path: "framePath ''/kikx'' (JStr ''s'') demo_frame = Inr ''/kikx/sessions/s/interactions/i/frames/0000000000000012-UserMessage-f.json''"
  by (simp add: framePath_def demo_frame_def padOrder_def js_or_def interactionsPath_def small_order_text js_trunc_def padStart_def ORDER_WIDTH_def
      demo_pad)

theorem frame_path_reads_back_witness:
  "frameOrderFromPath ''/kikx/sessions/s/interactions/i/frames/0000000000000012-UserMessage-f.json'' = 12"
  using frame_path_reads_back [OF demo_path, of 12] nearest_double_safe[of 12] by (simp add: demo_frame_def)

text \<open>Past the safe integers the name has the shortest numeral: 2^60 is stored as 1152921504606847000, which reads back as 2^60.\<close>

lemma large_order_text: "order_text 1152921504606846976 = ''1152921504606847000'' \<and> nearest_double 1152921504606847000 = 1152921504606846976"
proof -
  let ?n = "1152921504606846976 :: nat"
  have d: "nat_digits ?n = ''1152921504606846976''" "nat_digits 1152921504606847 = ''1152921504606847''"
    by (simp_all add: nat_digits.simps char_of_def bit_0)
  have none: "numeral_with ?n 18 = None" "numeral_with ?n 17 = None" "numeral_with ?n 16 = None" "numeral_with ?n 15 = None"
    "numeral_with ?n 14 = None" "numeral_with ?n 13 = None" "numeral_with ?n 12 = None" "numeral_with ?n 11 = None" "numeral_with ?n 10 = None"
    "numeral_with ?n 9 = None" "numeral_with ?n 8 = None" "numeral_with ?n 7 = None" "numeral_with ?n 6 = None" "numeral_with ?n 5 = None"
    "numeral_with ?n 4 = None"
    by (simp_all add: numeral_with_def nearest_double_def bit_count_numeral Let_def)
  have some: "numeral_with ?n 3 = Some 1152921504606847" "nearest_double 1152921504606847000 = ?n"
    by (simp_all add: numeral_with_def nearest_double_def bit_count_numeral Let_def)
  have "length (nat_digits ?n) = 19" by (simp add: d)
  then have "shortest_numeral ?n = (1152921504606847, 3)" by (simp add: shortest_numeral_def shortest_step none some)
  then show ?thesis using some by (simp add: order_text_def d numeral_3_eq_3)
qed

definition huge_frame :: jsval where
  "huge_frame = JObj [(''id'', JStr ''f''), (''interactionID'', JStr ''i''), (''type'', JStr ''UserMessage''), (''order'', JNum (Fin (10 ^ 21)))]"

lemma huge_order_text: "order_text 1000000000000000000000 = ''1e+21''"
proof -
  have "length (nat_digits 1000000000000000000000) = 22" by (simp add: nat_digits.simps)
  moreover have "nearest_double 1000000000000000000000 = 1000000000000000000000" by (simp add: nearest_double_def bit_count_numeral)
  then have "numeral_with 1000000000000000000000 21 = Some 1" by (simp add: numeral_with_def)
  ultimately have "shortest_numeral 1000000000000000000000 = (1, 21)" by (simp add: shortest_numeral_def shortest_step)
  then show ?thesis by (simp add: order_text_def demo_digits Let_def)
qed

lemma huge_order_is_lost:
  "let p = ''/kikx/sessions/s/interactions/i/frames/000000000001e+21-UserMessage-f.json''
   in framePath ''/kikx'' (JStr ''s'') huge_frame = Inr p \<and> frameOrderFromPath p = 9007199254740991 \<and> frameTypeFromPath p = []"
proof -
  have "padOrder (JNum (Fin (10 ^ 21))) = Inr ''000000000001e+21''"
    using huge_order_text by (simp add: padOrder_def js_trunc_def padStart_def ORDER_WIDTH_def demo_pad)
  then have "framePath ''/kikx'' (JStr ''s'') huge_frame = Inr ''/kikx/sessions/s/interactions/i/frames/000000000001e+21-UserMessage-f.json''"
    by (simp add: framePath_def huge_frame_def js_or_def interactionsPath_def)
  moreover have "file_name ''/kikx/sessions/s/interactions/i/frames/000000000001e+21-UserMessage-f.json'' = ''000000000001e+21-UserMessage-f.json''"
    "leading_order ''000000000001e+21-UserMessage-f.json'' = None"
    "frameTypeFromPath ''/kikx/sessions/s/interactions/i/frames/000000000001e+21-UserMessage-f.json'' = []"
    by code_simp+
  ultimately show ?thesis by (simp add: Let_def frameOrderFromPath_def)
qed

end
