(* ===== verification/WindowScan.thy ===== *)
theory WindowScan
  imports FrameEngine FrameFiles
begin

text \<open>
  Counting and searching the frames of a session on disk: \<open>src/core/aeordb/frame-store-window-scan.mjs\<close>. Both walk the directory of the
  frames page by page; a search reads the bodies of the frames whose paths do not rule them out and stops one match after it has enough.
\<close>

section \<open>Counts of a whole session\<close>

definition MAX_COUNT_SCAN_FRAMES :: nat where
  "MAX_COUNT_SCAN_FRAMES = 200000"

definition COUNT_PAGE_SIZE :: nat where
  "COUNT_PAGE_SIZE = 1000"

definition frames_glob :: string where
  "frames_glob = ''**/frames/*.json''"

definition scan_total :: "int option \<Rightarrow> nat" where
  "scan_total t = (case t of Some n \<Rightarrow> nat n | None \<Rightarrow> 0)"

definition framesOnly :: "string list \<Rightarrow> string list" where
  "framesOnly page = filter (\<lambda>p. has_infix p ''/frames/'') page"

lemma push_all_longer: "length paths \<le> length (foldl push_new paths page)"
  using foldl_push_new_prefix [of paths page] by auto

function count_walk :: "docdb \<Rightarrow> string \<Rightarrow> nat \<Rightarrow> string list \<Rightarrow> nat \<Rightarrow> store_error + string list" where
  "count_walk db path cap paths cursor =
     (if cap \<le> length paths then Inr paths
      else case listDirectoryPaths db path frames_glob (Some (min COUNT_PAGE_SIZE (cap - length paths))) cursor of
             Inl e \<Rightarrow> Inl e
           | Inr page \<Rightarrow>
               if page = [] then Inr paths
               else let paths' = foldl push_new paths page
                    in if length paths' = length paths then Inr paths' else count_walk db path cap paths' (cursor + length page))"
  by pat_completeness auto
termination
proof (relation "measure (\<lambda>(db, path, cap, paths, cursor). cap - length paths)", goal_cases)
  case (2 db path cap paths cursor page paths')
  then have "length paths < length paths'" using push_all_longer [of paths page] by simp
  with 2 show ?case by simp
qed simp

declare count_walk.simps [simp del]

record session_counts =
  sc_counts :: "filter_key \<Rightarrow> nat option"
  sc_total :: nat
  sc_scanned :: nat
  sc_truncated :: bool

definition countSessionFrames :: "docdb \<Rightarrow> string \<Rightarrow> store_error + session_counts" where
  "countSessionFrames db path =
     (let none = \<lparr>sc_counts = countFilterMatches [], sc_total = 0, sc_scanned = 0, sc_truncated = False\<rparr>
      in case db_listDirectory db path frames_glob 1 0 of
           Inl e \<Rightarrow> if failed_with 404 e then Inr none else Inl e
         | Inr probe \<Rightarrow>
             let found = scan_total (ls_total probe)
             in if found = 0 then Inr none
                else and_then (count_walk db path (min found MAX_COUNT_SCAN_FRAMES) [] 0) (\<lambda>paths.
                  let framePaths = framesOnly paths
                  in Inr \<lparr>sc_counts = countFilterMatches framePaths, sc_total = found, sc_scanned = length framePaths,
                       sc_truncated = (length paths < found)\<rparr>))"

section \<open>Filtered windows\<close>

definition FILTERED_PAGE_SIZE :: nat where
  "FILTERED_PAGE_SIZE = 1000"

definition MAX_FILTERED_SCAN_FRAMES :: nat where
  "MAX_FILTERED_SCAN_FRAMES = 200000"

definition DEFAULT_FILTERED_LIMIT :: nat where
  "DEFAULT_FILTERED_LIMIT = 100"

definition normalizeScanLimit :: "jsval \<Rightarrow> nat" where
  "normalizeScanLimit v =
     (case js_Number v of Fin q \<Rightarrow> if q \<le> 0 then DEFAULT_FILTERED_LIMIT else min (nat \<lfloor>q\<rfloor>) MAX_FILTERED_SCAN_FRAMES | _ \<Rightarrow> DEFAULT_FILTERED_LIMIT)"

definition normalizeScanOrder :: "jsval \<Rightarrow> rat option" where
  "normalizeScanOrder v =
     (if nullish v \<or> v = JStr [] then None else case js_Number v of Fin q \<Rightarrow> Some q | _ \<Rightarrow> None)"

text \<open>What a read adds to the matches: the frame when it passes the filters, a frame that says so when it could not be read.\<close>

definition row_of :: "docdb \<Rightarrow> jsval \<Rightarrow> jsval \<Rightarrow> jsval \<Rightarrow> string \<Rightarrow> store_error + jsval \<Rightarrow> store_error + jsval option" where
  "row_of db sessionID inp query path r =
     (case r of
        Inl e \<Rightarrow> and_then (createFrameLoadError db sessionID path e) (\<lambda>f. Inr (Some f))
      | Inr v \<Rightarrow> Inr (if frameMatchesWindowFilters v inp query then Some v else None))"

fun hydrate_reads :: "docdb \<Rightarrow> jsval \<Rightarrow> jsval \<Rightarrow> jsval \<Rightarrow> nat \<Rightarrow> jsval list \<Rightarrow> file_read list \<Rightarrow> store_error + jsval list" where
  "hydrate_reads db sessionID inp query most matches [] = Inr matches"
| "hydrate_reads db sessionID inp query most matches ((path, r) # reads) =
     and_then (row_of db sessionID inp query path r) (\<lambda>row.
       case row of
         None \<Rightarrow> hydrate_reads db sessionID inp query most matches reads
       | Some f \<Rightarrow> if most < length (matches @ [f]) then Inr (matches @ [f])
                   else hydrate_reads db sessionID inp query most (matches @ [f]) reads)"

definition hydrate_page :: "docdb \<Rightarrow> jsval \<Rightarrow> jsval \<Rightarrow> jsval \<Rightarrow> nat \<Rightarrow> jsval list \<Rightarrow> string list \<Rightarrow> store_error + jsval list" where
  "hydrate_page db sessionID inp query most matches paths =
     and_then (readJSONFiles db True True paths) (hydrate_reads db sessionID inp query most matches)"

definition in_range :: "rat option \<Rightarrow> rat option \<Rightarrow> string \<Rightarrow> bool" where
  "in_range before after path =
     ((case before of None \<Rightarrow> True | Some b \<Rightarrow> rat_of_nat (frameOrderFromPath path) < b)
      \<and> (case after of None \<Rightarrow> True | Some a \<Rightarrow> a < rat_of_nat (frameOrderFromPath path)))"

definition candidate :: "jsval \<Rightarrow> rat option \<Rightarrow> rat option \<Rightarrow> string \<Rightarrow> bool" where
  "candidate inp before after path = (in_range before after path \<and> pathMatchesTypes path (frameTypesForFilters inp))"

text \<open>The two walks answer the matches and whether they ran out of rows.\<close>

function anchored_walk ::
  "docdb \<Rightarrow> string \<Rightarrow> (jsval list \<Rightarrow> string list \<Rightarrow> store_error + jsval list) \<Rightarrow> (string \<Rightarrow> bool) \<Rightarrow> nat \<Rightarrow> nat \<Rightarrow> nat
     \<Rightarrow> jsval list \<Rightarrow> bool \<Rightarrow> store_error + jsval list \<times> bool" where
  "anchored_walk db path gather wanted most cap cursor matches exhausted =
     (if cap \<le> cursor \<or> most < length matches then Inr (matches, exhausted)
      else let want = min FILTERED_PAGE_SIZE (cap - cursor)
           in case listDirectoryPaths db path frames_glob (Some want) cursor of
                Inl e \<Rightarrow> Inl e
              | Inr page \<Rightarrow>
                  if page = [] then Inr (matches, True)
                  else case gather matches (filter wanted (sortFramePathsByOrder db (framesOnly page))) of
                         Inl e \<Rightarrow> Inl e
                       | Inr matches' \<Rightarrow>
                           anchored_walk db path gather wanted most cap (cursor + length page) matches' (exhausted \<or> length page < want))"
  by pat_completeness auto
termination
  by (relation "measure (\<lambda>(db, path, gather, wanted, most, cap, cursor, matches, exhausted). cap - cursor)") (auto intro: diff_less_mono2)

function plain_walk ::
  "docdb \<Rightarrow> string \<Rightarrow> (jsval list \<Rightarrow> string list \<Rightarrow> store_error + jsval list) \<Rightarrow> (string \<Rightarrow> bool) \<Rightarrow> nat \<Rightarrow> nat
     \<Rightarrow> jsval list \<Rightarrow> bool \<Rightarrow> store_error + jsval list \<times> bool" where
  "plain_walk db path gather wanted most end' matches exhausted =
     (if end' = 0 \<or> most < length matches then Inr (matches, exhausted)
      else let start = end' - FILTERED_PAGE_SIZE; want = end' - start
           in case listDirectoryPaths db path frames_glob (Some want) start of
                Inl e \<Rightarrow> Inl e
              | Inr page \<Rightarrow>
                  if page = [] then Inr (matches, True)
                  else case gather matches (filter wanted (rev (sortFramePathsByOrder db (framesOnly page)))) of
                         Inl e \<Rightarrow> Inl e
                       | Inr matches' \<Rightarrow> plain_walk db path gather wanted most start matches' (exhausted \<or> length page < want))"
  by pat_completeness auto
termination
  by (relation "measure (\<lambda>(db, path, gather, wanted, most, end', matches, exhausted). end')") (auto simp: FILTERED_PAGE_SIZE_def)

declare anchored_walk.simps [simp del] plain_walk.simps [simp del]

function find_path_walk :: "docdb \<Rightarrow> string \<Rightarrow> string \<Rightarrow> nat \<Rightarrow> nat \<Rightarrow> store_error + string option" where
  "find_path_walk db path suffix cap cursor =
     (if cap \<le> cursor then Inr None
      else let want = min COUNT_PAGE_SIZE (cap - cursor)
           in case listDirectoryPaths db path frames_glob (Some want) cursor of
                Inl e \<Rightarrow> Inl e
              | Inr page \<Rightarrow>
                  if page = [] then Inr None
                  else case find (\<lambda>p. ends_with p suffix) page of
                         Some p \<Rightarrow> Inr (Some p)
                       | None \<Rightarrow> if length page < want then Inr None else find_path_walk db path suffix cap (cursor + length page))"
  by pat_completeness auto
termination
  by (relation "measure (\<lambda>(db, path, suffix, cap, cursor). cap - cursor)") (auto intro: diff_less_mono2)

declare find_path_walk.simps [simp del]

definition id_suffix :: "string \<Rightarrow> string" where
  "id_suffix frameID = ''-'' @ encodeSegment (JStr frameID) @ ''.json''"

definition direct_lookup :: "docdb \<Rightarrow> string \<Rightarrow> string \<Rightarrow> store_error + string option" where
  "direct_lookup db path suffix =
     and_then (listDirectoryPaths db path (''**/frames/*'' @ suffix) (Some 1) 0) (\<lambda>direct.
       Inr (if direct \<noteq> [] \<and> ends_with (hd direct) suffix then Some (hd direct) else None))"

definition findFramePathByID :: "docdb \<Rightarrow> string \<Rightarrow> string \<Rightarrow> nat \<Rightarrow> store_error + string option" where
  "findFramePathByID db path frameID found =
     and_then (direct_lookup db path (id_suffix frameID)) (\<lambda>direct.
       if direct \<noteq> None then Inr direct else find_path_walk db path (id_suffix frameID) (min found MAX_FILTERED_SCAN_FRAMES) 0)"

record filtered_window =
  fw_frames :: "jsval list"
  fw_total :: nat
  fw_hasMore :: bool
  fw_exhausted :: bool
  fw_truncated :: bool
  fw_oldestOrder :: "jsnum option"
  fw_newestOrder :: "jsnum option"
  fw_startFound :: "bool option"

definition number_of_order :: "jsval \<Rightarrow> jsnum" where
  "number_of_order frame = js_Number (pget frame ''order'')"

definition sort_number :: "jsval \<Rightarrow> jsnum" where
  "sort_number frame = (if number_of_order frame = NaN then Fin 0 else number_of_order frame)"

text \<open>\<open>Math.min\<close> and \<open>Math.max\<close> of a list that is not empty.\<close>

definition math_best :: "(jsnum \<Rightarrow> jsnum \<Rightarrow> bool) \<Rightarrow> jsnum list \<Rightarrow> jsnum option" where
  "math_best better ns =
     (if ns = [] then None else if NaN \<in> set ns then Some NaN else Some (foldl (\<lambda>a b. if better b a then b else a) (hd ns) (tl ns)))"

definition ascending :: "jsval list \<Rightarrow> jsval list" where
  "ascending frames = sort_by (\<lambda>l r. \<not> num_lt (sort_number r) (sort_number l)) frames"

definition scan_result :: "(jsval list \<Rightarrow> jsval list) \<Rightarrow> nat \<Rightarrow> nat \<Rightarrow> nat \<Rightarrow> bool \<Rightarrow> bool option \<Rightarrow> jsval list \<times> bool \<Rightarrow> filtered_window" where
  "scan_result project most found cap anchored startFound r =
     (case r of (matches, exhausted) \<Rightarrow>
        let hasMore = most < length matches; selected = take most matches; orders = map number_of_order selected
        in \<lparr>fw_frames = project (ascending selected), fw_total = found, fw_hasMore = (hasMore \<and> \<not> anchored),
             fw_exhausted = ((exhausted \<or> \<not> hasMore) \<and> \<not> hasMore), fw_truncated = (cap < found \<and> \<not> hasMore),
             fw_oldestOrder = math_best num_lt orders, fw_newestOrder = math_best (\<lambda>a b. num_lt b a) orders, fw_startFound = startFound\<rparr>)"

definition empty_scan :: "nat \<Rightarrow> filtered_window" where
  "empty_scan found = \<lparr>fw_frames = [], fw_total = found, fw_hasMore = False, fw_exhausted = True, fw_truncated = False,
     fw_oldestOrder = None, fw_newestOrder = None, fw_startFound = None\<rparr>"

definition listFilteredFrameWindow ::
  "docdb \<Rightarrow> jsval \<Rightarrow> jsval \<Rightarrow> string \<Rightarrow> (jsval list \<Rightarrow> jsval list) \<Rightarrow> store_error + filtered_window" where
  "listFilteredFrameWindow db sessionID options path project =
     (if trim_or_empty sessionID = [] then Inl (Refused (TypeError ''listFilteredFrameWindow() requires sessionID''))
      else let inp = pget options ''filters''; query = pget options ''query''; most = normalizeScanLimit (pget options ''limit'');
               before = normalizeScanOrder (pget options ''before''); after = normalizeScanOrder (pget options ''after'');
               startID = trim_or_empty (pget options ''start'');
               gather = hydrate_page db sessionID inp query most
           in case db_listDirectory db path frames_glob 1 0 of
                Inl e \<Rightarrow> Inl e
              | Inr probe \<Rightarrow>
                  let found = scan_total (ls_total probe); cap = min found MAX_FILTERED_SCAN_FRAMES
                  in if found = 0 \<or> frameTypesForFilters inp = Some [] then Inr (empty_scan found)
                     else and_then (if startID = [] then Inr None else findFramePathByID db path startID found) (\<lambda>anchor.
                       let startFound = (if startID = [] then None else Some (anchor \<noteq> None))
                       in case anchor of
                            Some anchorPath \<Rightarrow>
                              and_then (anchored_walk db path gather
                                  (\<lambda>p. frameOrderFromPath anchorPath \<le> frameOrderFromPath p \<and> candidate inp before after p) most cap 0 [] False)
                                (\<lambda>r. Inr (scan_result project most found cap True startFound r))
                          | None \<Rightarrow>
                              and_then (plain_walk db path gather (candidate inp before after) most cap [] False)
                                (\<lambda>r. Inr (scan_result project most found cap False startFound r))))"

section \<open>The counts cover the session\<close>

lemma reach_pos: "1 \<le> most \<Longrightarrow> 1 \<le> reach most"
  by (simp add: reach_def MAX_FRAME_LIST_LIMIT_def)

lemma push_next_page:
  assumes "distinct L"
  shows "foldl push_new (take k L) (take n (drop k L)) = take (k + n) L"
proof -
  have "distinct (take k L @ take n (drop k L))" using assms by (metis distinct_take take_add)
  from foldl_push_new_distinct_id [OF this] show ?thesis by (simp add: take_add)
qed

lemma count_walk_reads_all:
  assumes "serves db most path frames_glob L" "clean_paths L" "cap \<le> length L" "k \<le> cap"
  shows "count_walk db path cap (take k L) k = Inr (take cap L)"
  using assms(4)
proof (induction "cap - k" arbitrary: k rule: less_induct)
  case less
  show ?case
  proof (cases "k = cap")
    case True
    then show ?thesis using assms(3) by (subst count_walk.simps) simp
  next
    case False
    define n where "n = min (min COUNT_PAGE_SIZE (cap - k)) (reach most)"
    have len: "length (take k L) = k" "k < cap" using less.prems False assms(3) by auto
    have n: "1 \<le> n" "n \<le> cap - k"
      using reach_pos [OF servesD(2) [OF assms(1)]] len(2) by (auto simp: n_def COUNT_PAGE_SIZE_def)
    have page: "listDirectoryPaths db path frames_glob (Some (min COUNT_PAGE_SIZE (cap - k))) k = Inr (take n (drop k L))"
      unfolding n_def using len(2) by (intro listing_is_slice [OF assms(1,2)]) (simp add: COUNT_PAGE_SIZE_def)
    have size: "length (take n (drop k L)) = n" using n(2) assms(3) len(2) by simp
    have pushed: "foldl push_new (take k L) (take n (drop k L)) = take (k + n) L"
      using assms(2) by (intro push_next_page) (simp add: clean_paths_def)
    have "length (take (k + n) L) = k + n" using n(2) assms(3) len(2) by simp
    moreover have "count_walk db path cap (take (k + n) L) (k + n) = Inr (take cap L)"
      using n len(2) by (intro less.hyps) auto
    ultimately show ?thesis
      by (subst count_walk.simps) (use n(1) len page size pushed in \<open>auto simp: Let_def\<close>)
  qed
qed

text \<open>
  C32: The counts of a session cover all of it: however few paths the database answers at a time, the walk reads every path of the directory
  up to the cap of 200000, each once, so the counts are those of all its frames and \<open>truncated\<close> is set exactly above the cap.
\<close>

theorem session_counts_are_complete:
  assumes "serves db most path frames_glob L" "clean_paths L"
  shows "countSessionFrames db path = Inr \<lparr>sc_counts = countFilterMatches (framesOnly (take 200000 L)), sc_total = length L,
     sc_scanned = length (framesOnly (take 200000 L)), sc_truncated = (200000 < length L)\<rparr>"
proof (cases "L = []")
  case True
  then show ?thesis by (simp add: countSessionFrames_def servesD(1) [OF assms(1)] scan_total_def framesOnly_def Let_def)
next
  case False
  have "count_walk db path (min (length L) MAX_COUNT_SCAN_FRAMES) [] 0 = Inr (take (min (length L) MAX_COUNT_SCAN_FRAMES) L)"
    using count_walk_reads_all [OF assms, of "min (length L) MAX_COUNT_SCAN_FRAMES" 0] by simp
  moreover have "take (min (length L) n) L = take n L" for n by (simp add: min_def)
  ultimately show ?thesis
    using False by (simp add: countSessionFrames_def servesD(1) [OF assms(1)] scan_total_def Let_def MAX_COUNT_SCAN_FRAMES_def min_def)
qed

section \<open>The search finds the newest matches\<close>

definition reads_as :: "docdb \<Rightarrow> (string \<Rightarrow> store_error + jsval) \<Rightarrow> bool" where
  "reads_as db rd \<longleftrightarrow> (\<forall>ps. readJSONFiles db True True ps = Inr (map (\<lambda>p. (p, rd p)) ps))"

text \<open>The directory lists the frames of a session, in ascending order of their numbers.\<close>

definition frame_listing :: "docdb \<Rightarrow> string list \<Rightarrow> bool" where
  "frame_listing db L \<longleftrightarrow>
     clean_paths L \<and> (\<forall>p \<in> set L. has_infix p ''/frames/'') \<and> sorted_wrt (path_le (db_localeCompare db)) L"

lemma hydrate_reads_is:
  assumes "\<forall>p \<in> set ps. row_of db sessionID inp query p (rd p) = Inr (row p)" "length ms \<le> most"
  shows "hydrate_reads db sessionID inp query most ms (map (\<lambda>p. (p, rd p)) ps) = Inr (take (Suc most) (ms @ List.map_filter row ps))"
  using assms
proof (induction ps arbitrary: ms)
  case (Cons p ps)
  show ?case
  proof (cases "row p")
    case None
    with Cons show ?thesis by simp
  next
    case (Some f)
    show ?thesis
    proof (cases "length ms = most")
      case True
      then have "take (Suc most) (ms @ f # List.map_filter row ps) = ms @ [f]" by simp
      with Cons.prems Some True show ?thesis by simp
    next
      case False
      with Cons.prems have "length (ms @ [f]) \<le> most" by simp
      from Cons.IH [OF _ this] Cons.prems False Some show ?thesis by simp
    qed
  qed
qed simp

lemma hydrate_page_is:
  assumes "reads_as db rd" "\<forall>p \<in> set ps. row_of db sessionID inp query p (rd p) = Inr (row p)" "length ms \<le> most"
  shows "hydrate_page db sessionID inp query most ms ps = Inr (take (Suc most) (ms @ List.map_filter row ps))"
  using hydrate_reads_is [OF assms(2,3)] assms(1) by (simp add: hydrate_page_def reads_as_def)

lemma page_in_order:
  assumes "frame_listing db L"
  shows "sortFramePathsByOrder db (framesOnly (take n (drop k L))) = take n (drop k L)"
proof -
  have "filter (\<lambda>p. has_infix p ''/frames/'') (take n (drop k L)) = take n (drop k L)"
    using assms by (auto simp: frame_listing_def filter_id_conv dest!: in_set_takeD in_set_dropD)
  moreover have "sorted_wrt (path_le (db_localeCompare db)) (take n (drop k L))"
    using assms by (simp add: frame_listing_def sorted_wrt_take sorted_wrt_drop)
  ultimately show ?thesis by (simp add: framesOnly_def sortFramePathsByOrder_def sort_by_sorted)
qed

lemma map_filter_append: "List.map_filter f (xs @ ys) = List.map_filter f xs @ List.map_filter f ys"
  by (simp add: List.map_filter_def)

lemma take_filled: "length ms = Suc n \<Longrightarrow> take (Suc n) (ms @ xs) = ms"
  by simp

lemma take_take_append: "take n (take n xs @ ys) = take n (xs @ ys)"
  by (cases "n \<le> length xs") simp_all

lemma plain_walk_finds:
  assumes "serves db most path frames_glob L" "DIRECTORY_PAGE_LIMIT \<le> most" "frame_listing db L"
    and gather: "\<And>ms ps. set ps \<subseteq> set L \<Longrightarrow> length ms \<le> bound \<Longrightarrow> gather ms ps = Inr (take (Suc bound) (ms @ List.map_filter row ps))"
    and "e \<le> length L" "length ms \<le> Suc bound"
  shows "\<exists>x. plain_walk db path gather wanted bound e ms done =
     Inr (take (Suc bound) (ms @ List.map_filter row (filter wanted (rev (take e L)))), x)"
  using assms(5,6)
proof (induction e arbitrary: ms "done" rule: less_induct)
  case (less e)
  show ?case
  proof (cases "e = 0 \<or> bound < length ms")
    case True
    then show ?thesis using less.prems(2) by (subst plain_walk.simps) auto
  next
    case False
    define k where "k = e - FILTERED_PAGE_SIZE"
    have k: "k < e" "1 \<le> e - k" "e - k \<le> 1000" using False by (auto simp: k_def FILTERED_PAGE_SIZE_def)
    have clean: "clean_paths L" using assms(3) by (simp add: frame_listing_def)
    have "min (e - k) (reach most) = e - k" using k(3) assms(2) by (simp add: reach_def MAX_FRAME_LIST_LIMIT_def)
    then have page: "listDirectoryPaths db path frames_glob (Some (e - k)) k = Inr (take (e - k) (drop k L))"
      using listing_is_slice [OF assms(1) clean k(2)] by simp
    let ?p = "take (e - k) (drop k L)"
    define ms' where "ms' = take (Suc bound) (ms @ List.map_filter row (filter wanted (rev ?p)))"
    have p: "?p \<noteq> []" using k(1) less.prems(1) by simp
    have "set (filter wanted (rev ?p)) \<subseteq> set L" by (auto dest!: in_set_takeD in_set_dropD)
    with False have g: "gather ms (filter wanted (rev ?p)) = Inr ms'" unfolding ms'_def by (intro gather) auto
    have step: "plain_walk db path gather wanted bound e ms done = plain_walk db path gather wanted bound k ms' (done \<or> length ?p < e - k)"
      using False p by (subst plain_walk.simps) (simp add: Let_def page page_in_order [OF assms(3)] g k_def [symmetric])
    have "length ms' \<le> Suc bound" by (simp add: ms'_def)
    then obtain x where x: "plain_walk db path gather wanted bound k ms' (done \<or> length ?p < e - k) =
        Inr (take (Suc bound) (ms' @ List.map_filter row (filter wanted (rev (take k L)))), x)"
      using less.IH [OF k(1)] k(1) less.prems(1) by fastforce
    have "take e L = take k L @ ?p" using take_add [of k "e - k" L] k(1) by simp
    then have "take (Suc bound) (ms' @ List.map_filter row (filter wanted (rev (take k L))))
        = take (Suc bound) (ms @ List.map_filter row (filter wanted (rev (take e L))))"
      unfolding ms'_def take_take_append by (simp only: rev_append filter_append map_filter_append append_assoc)
    with x show ?thesis by (simp only: step) blast
  qed
qed

lemma anchored_walk_finds:
  assumes "serves db most path frames_glob L" "DIRECTORY_PAGE_LIMIT \<le> most" "frame_listing db L"
    and gather: "\<And>ms ps. set ps \<subseteq> set L \<Longrightarrow> length ms \<le> bound \<Longrightarrow> gather ms ps = Inr (take (Suc bound) (ms @ List.map_filter row ps))"
    and "cap \<le> length L" "length ms \<le> Suc bound" "k \<le> cap"
  shows "\<exists>x. anchored_walk db path gather wanted bound cap k ms done =
     Inr (take (Suc bound) (ms @ List.map_filter row (filter wanted (drop k (take cap L)))), x)"
  using assms(6,7)
proof (induction "cap - k" arbitrary: k ms "done" rule: less_induct)
  case less
  show ?case
  proof (cases "cap \<le> k \<or> bound < length ms")
    case True
    then show ?thesis using less.prems by (subst anchored_walk.simps) auto
  next
    case False
    define n where "n = min FILTERED_PAGE_SIZE (cap - k)"
    have n: "1 \<le> n" "n \<le> cap - k" "n \<le> 1000" using False by (auto simp: n_def FILTERED_PAGE_SIZE_def)
    have clean: "clean_paths L" using assms(3) by (simp add: frame_listing_def)
    have "min n (reach most) = n" using n(3) assms(2) by (simp add: reach_def MAX_FRAME_LIST_LIMIT_def)
    then have page: "listDirectoryPaths db path frames_glob (Some n) k = Inr (take n (drop k L))"
      using listing_is_slice [OF assms(1) clean n(1)] by simp
    let ?p = "take n (drop k L)"
    define ms' where "ms' = take (Suc bound) (ms @ List.map_filter row (filter wanted ?p))"
    have p: "?p \<noteq> []" "length ?p = n" using n False assms(5) by auto
    have "set (filter wanted ?p) \<subseteq> set L" by (auto dest!: in_set_takeD in_set_dropD)
    with False have g: "gather ms (filter wanted ?p) = Inr ms'" unfolding ms'_def by (intro gather) auto
    have step: "anchored_walk db path gather wanted bound cap k ms done = anchored_walk db path gather wanted bound cap (k + n) ms' done"
      using False p by (subst anchored_walk.simps) (simp add: Let_def page page_in_order [OF assms(3)] g n_def [symmetric] del: take_eq_Nil length_take)
    have "length ms' \<le> Suc bound" by (simp add: ms'_def)
    then obtain x where x: "anchored_walk db path gather wanted bound cap (k + n) ms' done =
        Inr (take (Suc bound) (ms' @ List.map_filter row (filter wanted (drop (k + n) (take cap L)))), x)"
      using less.hyps [of "k + n" ms' "done"] n False by fastforce
    have "drop k (take cap L) = ?p @ drop (k + n) (take cap L)"
      using append_take_drop_id [of n "drop k (take cap L)"] n(2) by (simp add: drop_take min.absorb1 add.commute)
    then have "take (Suc bound) (ms' @ List.map_filter row (filter wanted (drop (k + n) (take cap L))))
        = take (Suc bound) (ms @ List.map_filter row (filter wanted (drop k (take cap L))))"
      unfolding ms'_def take_take_append by (simp only: filter_append map_filter_append append_assoc)
    with x show ?thesis by (simp only: step) blast
  qed
qed

text \<open>The matches of a search, newest first: rows that the paths do not rule out and whose bodies pass or cannot be read.\<close>

definition newest_first :: "jsval \<Rightarrow> jsval \<Rightarrow> (string \<Rightarrow> jsval option) \<Rightarrow> string list \<Rightarrow> jsval list" where
  "newest_first options inp row L =
     List.map_filter row (filter (candidate inp (normalizeScanOrder (pget options ''before'')) (normalizeScanOrder (pget options ''after'')))
       (rev (take MAX_FILTERED_SCAN_FRAMES L)))"

text \<open>
  C33: A filtered window without a start anchor holds exactly the newest matches among the first 200000 frames of a session, listed in
  order by a database that answers at least 500 rows a call. A match is a frame between the cursors whose path has a selected type (the
  prefilter, which rules out some frames the filters would show) and whose body passes the filters and the query, or the load error of a
  body that cannot be read. The matches are taken from the newest on up to the limit and shown in ascending order, and \<open>hasMore\<close>
  is set exactly when another match was left out. With a start anchor the code takes the oldest matches from the anchor on and never
  sets \<open>hasMore\<close>, which is not part of this.
\<close>

theorem filtered_window_is_newest_matches:
  assumes dir: "serves db most path frames_glob L" "DIRECTORY_PAGE_LIMIT \<le> most" "frame_listing db L"
    and bodies: "reads_as db rd"
    and rows: "\<forall>p \<in> set L. row_of db sessionID (pget options ''filters'') (pget options ''query'') p (rd p) = Inr (row p)"
    and plain: "trim_or_empty sessionID \<noteq> []" "trim_or_empty (pget options ''start'') = []" "project [] = []"
  shows "\<exists>w. listFilteredFrameWindow db sessionID options path project = Inr w
    \<and> fw_frames w = project (ascending (take (normalizeScanLimit (pget options ''limit'')) (newest_first options (pget options ''filters'') row L)))
    \<and> (fw_hasMore w \<longleftrightarrow> normalizeScanLimit (pget options ''limit'') < length (newest_first options (pget options ''filters'') row L))"
proof -
  let ?inp = "pget options ''filters''" and ?query = "pget options ''query''" and ?bound = "normalizeScanLimit (pget options ''limit'')"
  let ?M = "newest_first options ?inp row L" and ?cap = "min (length L) MAX_FILTERED_SCAN_FRAMES"
  show ?thesis
  proof (cases "L = [] \<or> frameTypesForFilters ?inp = Some []")
    case True
    then have "?M = []" by (auto simp: newest_first_def candidate_def[abs_def] pathMatchesTypes_def List.map_filter_def)
    with True show ?thesis
      using plain by (auto simp: listFilteredFrameWindow_def servesD(1) [OF dir(1)] scan_total_def Let_def empty_scan_def ascending_def)
  next
    case False
    have gather: "hydrate_page db sessionID ?inp ?query ?bound ms ps = Inr (take (Suc ?bound) (ms @ List.map_filter row ps))"
      if "set ps \<subseteq> set L" "length ms \<le> ?bound" for ms ps
      using that rows by (intro hydrate_page_is [OF bodies]) auto
    have top: "take ?cap L = take MAX_FILTERED_SCAN_FRAMES L" by (simp add: min_def)
    obtain x where walk: "plain_walk db path (hydrate_page db sessionID ?inp ?query ?bound)
        (candidate ?inp (normalizeScanOrder (pget options ''before'')) (normalizeScanOrder (pget options ''after''))) ?bound ?cap [] False
        = Inr (take (Suc ?bound) ?M, x)"
      using plain_walk_finds [OF dir gather, of ?cap "[]"] by (fastforce simp: top newest_first_def)
    have "take ?bound (take (Suc ?bound) ?M) = take ?bound ?M" by simp
    moreover have "?bound < length (take (Suc ?bound) ?M) \<longleftrightarrow> ?bound < length ?M" by auto
    ultimately show ?thesis
      using False plain(1,2) walk
      by (simp add: listFilteredFrameWindow_def servesD(1) [OF dir(1)] scan_total_def Let_def scan_result_def del: length_take take_take)
  qed
qed

section \<open>Witnesses\<close>

definition demo_paths :: "string list" where
  "demo_paths = [''/k/interactions/i/frames/0001-UserMessage-a.json'', ''/k/interactions/i/frames/0002-UserMessage-b.json'']"

definition demo_body :: jsval where
  "demo_body = sample_frame ''UserMessage'' ''user''"

definition demo_db :: docdb where
  "demo_db = \<lparr>db_listDirectory = (\<lambda>_ _ n offset. Inr \<lparr>ls_total = Some (int (length demo_paths)),
       ls_items = map path_item (take (min n 500) (drop offset demo_paths))\<rparr>),
     db_fetchFiles = None, db_getFile = (\<lambda>_. Inr demo_body), db_parse = (\<lambda>_. Inr Null), db_decode = Inr, db_localeCompare = (\<lambda>_ _. 0)\<rparr>"

lemma demo_serves: "serves demo_db 500 path glob demo_paths"
  by (simp add: serves_def demo_db_def)

lemma demo_orders: "frameOrderFromPath ''/k/interactions/i/frames/0001-UserMessage-a.json'' = 1"
    "frameOrderFromPath ''/k/interactions/i/frames/0002-UserMessage-b.json'' = 2"
  by code_simp+

lemma demo_clean: "clean_paths demo_paths"
  by (simp add: clean_paths_def demo_paths_def js_trim_def js_space_def)

lemma demo_frames: "framesOnly demo_paths = demo_paths"
  by code_simp

lemma demo_listing: "frame_listing demo_db demo_paths"
  using demo_clean demo_frames
  by (simp add: frame_listing_def framesOnly_def filter_id_conv) (simp add: demo_paths_def path_le_def demo_orders)

lemma demo_reads: "reads_as demo_db (\<lambda>_. Inr demo_body)"
  by (simp add: reads_as_def readJSONFiles_def read_each_def demo_db_def)

lemma demo_matches: "frameMatchesWindowFilters demo_body Undefined Undefined"
  by (simp add: demo_body_def frameMatchesWindowFilters_def sample_frame_def Let_def frameFilterCategories_def frameCategoriesFromType_def type_text_def
       author_key_def AUTHORED_TYPES_def FRAME_FILTER_CATEGORY_KEYS_def FRAME_FILTER_KEYS_def is_category_def isNeverVisibleType_def
       isToolFrameType_def isCommandFrameType_def ends_with_def frameReferencesSession_def frameSpawnsSession_def js_or_def
       normalizeWindowFilters_def defaultFrameWindowFilters_def isThreadVisibleFrame_def is_object_def)

lemma demo_types: "frameTypesForFilters Undefined = None"
  by (simp add: frameTypesForFilters_def selected_keys_def normalizeWindowFilters_def defaultFrameWindowFilters_def
      FRAME_FILTER_CATEGORY_KEYS_def FRAME_FILTER_KEYS_def is_category_def)

theorem session_counts_are_complete_witness:
  "countSessionFrames demo_db ''/k'' = Inr \<lparr>sc_counts = countFilterMatches demo_paths, sc_total = 2, sc_scanned = 2, sc_truncated = False\<rparr>"
  using session_counts_are_complete [OF demo_serves demo_clean, of "''/k''"] demo_frames by (simp add: demo_paths_def)

theorem filtered_window_is_newest_matches_witness:
  "\<exists>w. listFilteredFrameWindow demo_db (JStr ''s'') (JObj [(''limit'', JNum (Fin 1))]) ''/k'' (\<lambda>fs. fs) = Inr w
     \<and> fw_frames w = [demo_body] \<and> fw_hasMore w"
proof -
  have rows: "\<forall>p \<in> set demo_paths. row_of demo_db (JStr ''s'') (pget (JObj [(''limit'', JNum (Fin 1))]) ''filters'')
      (pget (JObj [(''limit'', JNum (Fin 1))]) ''query'') p (Inr demo_body) = Inr (Some demo_body)"
    by (simp add: row_of_def demo_matches)
  have M: "newest_first (JObj [(''limit'', JNum (Fin 1))]) Undefined (\<lambda>_. Some demo_body) demo_paths = [demo_body, demo_body]"
    by (simp add: newest_first_def demo_paths_def MAX_FILTERED_SCAN_FRAMES_def candidate_def[abs_def] in_range_def normalizeScanOrder_def
        pathMatchesTypes_def demo_types List.map_filter_def)
  show ?thesis
    using filtered_window_is_newest_matches [OF demo_serves _ demo_listing demo_reads rows, of "\<lambda>fs. fs" "''/k''"] M
    by (simp add: DIRECTORY_PAGE_LIMIT_def normalizeScanLimit_def MAX_FILTERED_SCAN_FRAMES_def ascending_def js_trim_def js_space_def)
qed

end
