(* ===== verification/FrameWindows.thy ===== *)
theory FrameWindows
  imports WindowScan
begin

text \<open>
  The windows of a session on disk: \<open>src/core/aeordb/frame-store-preview.mjs\<close>, the readers of \<open>frame-store-commit.mjs\<close> and the scheduled
  frames of \<open>frame-store-scheduled.mjs\<close>. A window is a slice of the directory, found by a count of its rows and a binary search for a
  cursor; the bodies of its rows are read and, for a client, projected to messages.
\<close>

section \<open>Frames of a list of paths\<close>

definition frames_of_read :: "docdb \<Rightarrow> jsval \<Rightarrow> file_read \<Rightarrow> store_error + jsval list" where
  "frames_of_read db sessionID read =
     (case read of (path, r) \<Rightarrow>
        (case r of
           Inl e \<Rightarrow> and_then (createFrameLoadError db sessionID path e) (\<lambda>f. Inr [f])
         | Inr v \<Rightarrow> Inr (if truthy (pget v ''id'') \<and> truthy (pget v ''type'') then [v] else [])))"

definition load_frames :: "docdb \<Rightarrow> jsval \<Rightarrow> string list \<Rightarrow> store_error + jsval list" where
  "load_frames db sessionID paths =
     and_then (readJSONFiles db True True paths) (\<lambda>reads.
       and_then (try_map (frames_of_read db sessionID) reads) (\<lambda>fss. Inr (concat fss)))"

section \<open>What a client is sent of a frame\<close>

definition drop_key :: "bool \<Rightarrow> string \<Rightarrow> jsobj \<Rightarrow> jsobj" where
  "drop_key b k ps = (if b \<and> has_own ps k then odel ps k else ps)"

definition window_content :: "jsval \<Rightarrow> jsobj \<Rightarrow> jsobj" where
  "window_content frame content =
     (let answer = (pget frame ''type'' = JStr ''AgentMessage'' \<and> oget content ''status'' \<noteq> JStr ''streaming'');
          next1 = drop_key answer ''toolResults'' (drop_key answer ''thinking'' content);
          next2 = drop_key (pget frame ''type'' = JStr ''CompactionFrame'' \<and> is_arr (oget next1 ''frameIDs'')) ''frameIDs'' next1
      in drop_key (truthy (oget next2 ''toolOutputID'') \<and> is_str (oget next2 ''preview'')) ''preview'' next2)"

definition projectClientFrameForWindow :: "jsval \<Rightarrow> jsval" where
  "projectClientFrameForWindow frame =
     (case pget frame ''content'' of
        JObj content \<Rightarrow>
          let result = drop_key True ''contentText'' (props_of frame); new = window_content frame content
          in JObj (if new \<noteq> content then oset result ''content'' (JObj new) else result)
      | _ \<Rightarrow> frame)"

definition client_window :: "docdb \<Rightarrow> jsval list \<Rightarrow> jsval list" where
  "client_window db frames = projectFrameMessages (db_localeCompare db) (JArr frames)"

section \<open>Finding a row\<close>

function find_offset_walk :: "docdb \<Rightarrow> string \<Rightarrow> string \<Rightarrow> nat \<Rightarrow> nat \<Rightarrow> store_error + nat option" where
  "find_offset_walk db path suffix found cursor =
     (if found \<le> cursor then Inr None
      else case listDirectoryPaths db path frames_glob (Some DIRECTORY_PAGE_LIMIT) cursor of
             Inl e \<Rightarrow> Inl e
           | Inr paths \<Rightarrow>
               if paths = [] then Inr None
               else case find_index (\<lambda>p. ends_with p suffix) paths of
                      Some i \<Rightarrow> Inr (Some (cursor + i))
                    | None \<Rightarrow> if length paths < DIRECTORY_PAGE_LIMIT then Inr None
                              else find_offset_walk db path suffix found (cursor + length paths))"
  by pat_completeness auto
termination
  by (relation "measure (\<lambda>(db, path, suffix, found, cursor). found - cursor)") (auto intro: diff_less_mono2)

declare find_offset_walk.simps [simp del]

definition all_rows :: "docdb \<Rightarrow> string \<Rightarrow> nat \<Rightarrow> store_error + jsval list" where
  "all_rows db path found = and_then (db_listDirectory db path frames_glob found 0) (\<lambda>r. Inr (pathsFromItems (ls_items r)))"

definition findFrameOffsetByID :: "docdb \<Rightarrow> string \<Rightarrow> string \<Rightarrow> nat \<Rightarrow> store_error + nat option" where
  "findFrameOffsetByID db path frameID found =
     (let suffix = id_suffix frameID; walk = find_offset_walk db path suffix found 0
      in and_then (direct_lookup db path suffix) (\<lambda>direct.
           case direct of
             None \<Rightarrow> walk
           | Some p \<Rightarrow> and_then (all_rows db path found) (\<lambda>rows.
               case find_index (\<lambda>r. r = JStr p) rows of Some i \<Rightarrow> Inr (Some i) | None \<Rightarrow> walk)))"

function boundary_search :: "nat list \<Rightarrow> nat \<Rightarrow> nat \<Rightarrow> nat \<Rightarrow> nat" where
  "boundary_search orders before low high =
     (if low < high
      then let mid = (low + high) div 2
           in if before \<le> orders ! mid then boundary_search orders before low mid else boundary_search orders before (mid + 1) high
      else low)"
  by pat_completeness auto
termination
  by (relation "measure (\<lambda>(orders, before, low, high). high - low)") auto

declare boundary_search.simps [simp del]

definition findFrameOffsetAtOrAfter :: "docdb \<Rightarrow> string \<Rightarrow> nat \<Rightarrow> nat \<Rightarrow> store_error + nat" where
  "findFrameOffsetAtOrAfter db path before found =
     and_then (all_rows db path found) (\<lambda>rows.
       Inr (boundary_search (map (\<lambda>r. frameOrderFromPath (js_String r)) rows) before 0 (length rows)))"

definition findOrderBoundary :: "string list \<Rightarrow> nat \<Rightarrow> nat" where
  "findOrderBoundary sortedPaths before =
     (case find_index (\<lambda>p. before \<le> frameOrderFromPath p) sortedPaths of Some i \<Rightarrow> i | None \<Rightarrow> length sortedPaths)"

section \<open>Windows\<close>

record raw_window =
  rw_frames :: "jsval list"
  rw_total :: nat
  rw_startOffset :: "nat option"
  rw_hasMore :: bool
  rw_hasMoreNewer :: "bool option"
  rw_startFound :: "bool option"
  rw_oldestOrder :: "nat option"
  rw_newestOrder :: "nat option"

datatype frame_window = Filtered filtered_window | Raw raw_window

definition emptyFrameWindow :: "nat \<Rightarrow> bool option \<Rightarrow> raw_window" where
  "emptyFrameWindow found startFound =
     \<lparr>rw_frames = [], rw_total = found, rw_startOffset = None, rw_hasMore = False, rw_hasMoreNewer = None, rw_startFound = startFound,
       rw_oldestOrder = None, rw_newestOrder = None\<rparr>"

definition wanted_types :: "jsval \<Rightarrow> string list option" where
  "wanted_types v =
     (case v of JArr vs \<Rightarrow> Some (uniq (filter (\<lambda>t. js_trim t \<noteq> []) (map str_or_empty vs))) | _ \<Rightarrow> None)"

definition window_glob :: "string list option \<Rightarrow> string \<Rightarrow> string" where
  "window_glob types startID =
     (case types of
        Some [t] \<Rightarrow> if startID = [] then ''**/frames/*-'' @ encodeSegment (JStr t) @ ''-*.json'' else frames_glob
      | _ \<Rightarrow> frames_glob)"

text \<open>The rows of a window with the offset of the first: none when the start frame is not there.\<close>

definition window_rows ::
  "docdb \<Rightarrow> string \<Rightarrow> string \<Rightarrow> nat \<Rightarrow> nat option \<Rightarrow> nat option \<Rightarrow> string \<Rightarrow> nat \<Rightarrow> store_error + (nat \<times> nat \<times> string list) option" where
  "window_rows db path glob most before after startID found =
     (if 0 < found
      then and_then (if startID = [] then Inr (Some None) else and_then (findFrameOffsetByID db path startID found) (\<lambda>i.
             Inr (case i of None \<Rightarrow> None | Some k \<Rightarrow> Some (Some k)))) (\<lambda>byID.
        case byID of
          None \<Rightarrow> Inr None
        | Some start \<Rightarrow>
            and_then
              (case (start, after, before) of
                 (Some k, _) \<Rightarrow> Inr (k, min found (k + most))
               | (None, Some a, _) \<Rightarrow> and_then (findFrameOffsetAtOrAfter db path (a + 1) found) (\<lambda>k. Inr (k, min found (k + most)))
               | (None, None, None) \<Rightarrow> Inr (found - most, found)
               | (None, None, Some b) \<Rightarrow> and_then (findFrameOffsetAtOrAfter db path b found) (\<lambda>k. Inr (k - most, k)))
              (\<lambda>(startOffset, endOffset).
                and_then (listDirectoryPaths db path glob (Some (endOffset - startOffset)) startOffset) (\<lambda>paths.
                  Inr (Some (found, startOffset, paths)))))
      else and_then (listDirectoryPaths db path glob (Some MAX_FRAME_LIST_LIMIT) 0) (\<lambda>paths.
        let allSorted = sortFramePathsByOrder db (framesOnly paths); n = length allSorted;
            endOffset = (case before of None \<Rightarrow> n | Some b \<Rightarrow> findOrderBoundary allSorted b); startOffset = endOffset - most
        in Inr (Some (n, startOffset, take (endOffset - startOffset) (drop startOffset allSorted)))))"

definition raw_window_of ::
  "docdb \<Rightarrow> jsval \<Rightarrow> bool \<Rightarrow> string list option \<Rightarrow> nat option \<Rightarrow> string \<Rightarrow> nat \<times> nat \<times> string list \<Rightarrow> store_error + raw_window" where
  "raw_window_of db sessionID raw types after startID rows =
     (case rows of (found, startOffset, paths) \<Rightarrow>
        let windowPaths = sortFramePathsByOrder db (framesOnly paths)
        in if found = 0 \<or> windowPaths = [] then Inr (emptyFrameWindow found None)
           else let readPaths = (case types of None \<Rightarrow> windowPaths
                      | Some ts \<Rightarrow> filter (\<lambda>p. list_ex (\<lambda>t. has_infix p (''-'' @ t @ ''-'')) ts) windowPaths)
                in and_then (load_frames db sessionID readPaths) (\<lambda>frames.
                  Inr \<lparr>rw_frames = (if raw then frames else map projectClientFrameForWindow (filter isPreviewVisibleFrame (client_window db frames))),
                    rw_total = found, rw_startOffset = Some startOffset, rw_hasMore = (0 < startOffset),
                    rw_hasMoreNewer = (if startID \<noteq> [] \<or> after \<noteq> None then Some (startOffset + length windowPaths < found) else None),
                    rw_startFound = (if startID \<noteq> [] then Some True else None),
                    rw_oldestOrder = Some (frameOrderFromPath (hd windowPaths)), rw_newestOrder = Some (frameOrderFromPath (last windowPaths))\<rparr>))"

definition listRawFrameWindow :: "docdb \<Rightarrow> string \<Rightarrow> jsval \<Rightarrow> jsval \<Rightarrow> store_error + raw_window" where
  "listRawFrameWindow db base sessionID options =
     and_then (normalizeLargeLimit (pget options ''limit'') DEFAULT_FRAME_LIST_LIMIT) (\<lambda>most.
     and_then (normalizeWindowOrder (pget options ''before'')) (\<lambda>before.
     and_then (normalizeWindowOrder (pget options ''after'')) (\<lambda>after.
       let startID = trim_or_empty (pget options ''start''); types = wanted_types (pget options ''frameTypes'');
           path = interactionsPath base sessionID; glob = window_glob types startID
       in case db_listDirectory db path glob 1 0 of
            Inl e \<Rightarrow> if failed_with 404 e then Inr (emptyFrameWindow 0 None) else Inl e
          | Inr probe \<Rightarrow>
              let found = normalizePreviewTotal (ls_total probe)
              in and_then (window_rows db path glob most before after startID found) (\<lambda>rows.
                   case rows of
                     None \<Rightarrow> Inr (emptyFrameWindow found (Some False))
                   | Some r \<Rightarrow> raw_window_of db sessionID (pget options ''raw'' = JBool True) types after startID r))))"

definition listFrameWindow :: "docdb \<Rightarrow> string \<Rightarrow> jsval \<Rightarrow> jsval \<Rightarrow> store_error + frame_window" where
  "listFrameWindow db base sessionID options =
     (if \<not> truthy sessionID then Inl (Refused (TypeError ''listFrameWindow() requires sessionID''))
      else if \<not> windowFiltersAreDefault (pget options ''filters'') (pget options ''query'')
      then and_then (listFilteredFrameWindow db sessionID options (interactionsPath base sessionID)
             (\<lambda>frames. map projectClientFrameForWindow (client_window db frames))) (\<lambda>w. Inr (Filtered w))
      else and_then (listRawFrameWindow db base sessionID options) (\<lambda>w. Inr (Raw w)))"

section \<open>Pages\<close>

record page_index =
  pi_pageSize :: nat
  pi_totalRawFrames :: nat
  pi_totalPages :: nat

definition listFramePageIndex :: "docdb \<Rightarrow> string \<Rightarrow> jsval \<Rightarrow> jsval \<Rightarrow> store_error + page_index" where
  "listFramePageIndex db base sessionID pageSize =
     (if \<not> truthy sessionID then Inl (Refused (TypeError ''listFramePageIndex() requires sessionID''))
      else and_then (normalizeLargeLimit pageSize 120) (\<lambda>n.
        case db_listDirectory db (interactionsPath base sessionID) frames_glob 1 0 of
          Inl e \<Rightarrow> if failed_with 404 e then Inr \<lparr>pi_pageSize = n, pi_totalRawFrames = 0, pi_totalPages = 0\<rparr> else Inl e
        | Inr probe \<Rightarrow>
            let found = normalizePreviewTotal (ls_total probe)
            in Inr \<lparr>pi_pageSize = n, pi_totalRawFrames = found, pi_totalPages = (found + n - 1) div n\<rparr>))"

record frame_page =
  fp_index :: page_index
  fp_pageIndex :: "nat option"
  fp_frames :: "jsval list"
  fp_offsets :: "(nat \<times> nat) option"
  fp_hasMoreBefore :: bool
  fp_hasMoreAfter :: bool
  fp_orders :: "(nat \<times> nat) option"

text \<open>\<open>None\<close> is the page number \<open>Infinity\<close>.\<close>

definition page_number :: "jsval \<Rightarrow> nat option" where
  "page_number v = (case js_Number v of Fin q \<Rightarrow> Some (nat (js_trunc q)) | PosInf \<Rightarrow> None | _ \<Rightarrow> Some 0)"

definition listFramePage :: "docdb \<Rightarrow> string \<Rightarrow> jsval \<Rightarrow> jsval \<Rightarrow> jsval \<Rightarrow> store_error + frame_page" where
  "listFramePage db base sessionID pageSize pageIndex =
     (if \<not> truthy sessionID then Inl (Refused (TypeError ''listFramePage() requires sessionID''))
      else and_then (normalizeLargeLimit pageSize 120) (\<lambda>n.
        and_then (listFramePageIndex db base sessionID (JNum (Fin (of_nat n)))) (\<lambda>index.
          let blank = (\<lambda>before after. \<lparr>fp_index = index, fp_pageIndex = page_number pageIndex, fp_frames = [], fp_offsets = None,
                 fp_hasMoreBefore = before, fp_hasMoreAfter = after, fp_orders = None\<rparr>)
          in if pi_totalPages index = 0 then Inr (blank False False)
             else case page_number pageIndex of
                    None \<Rightarrow> Inl (Failure (Some 404) ''frame page is out of range'')
                  | Some i \<Rightarrow>
                      if pi_totalPages index \<le> i then Inl (Failure (Some 404) ''frame page is out of range'')
                      else and_then (listDirectoryPaths db (interactionsPath base sessionID) frames_glob (Some n) (i * n)) (\<lambda>page.
                        let paths = sortFramePathsByOrder db (framesOnly page); before = (0 < i); after = (i + 1 < pi_totalPages index)
                        in if paths = [] then Inr (blank before after)
                           else and_then (load_frames db sessionID paths) (\<lambda>frames.
                             Inr \<lparr>fp_index = index, fp_pageIndex = Some i, fp_frames = frames, fp_offsets = Some (i * n, i * n + length paths),
                               fp_hasMoreBefore = before, fp_hasMoreAfter = after,
                               fp_orders = Some (frameOrderFromPath (hd paths), frameOrderFromPath (last paths))\<rparr>)))))"

section \<open>Previews\<close>

text \<open>
  The tail is read again at twice its length until it shows enough heads; answers the heads and the offset it stopped at. A limit of 0, which
  no caller passes, ends in the error of the listing.
\<close>

function preview_heads :: "docdb \<Rightarrow> string \<Rightarrow> jsval \<Rightarrow> nat \<Rightarrow> nat \<Rightarrow> nat \<Rightarrow> nat \<Rightarrow> store_error + jsval list \<times> nat" where
  "preview_heads db path sessionID found maxRawLimit previewCount rawLimit =
     (let offset = found - rawLimit
      in case and_then (listDirectoryPaths db path frames_glob (Some rawLimit) offset) (\<lambda>tail.
             load_frames db sessionID (sortFramePathsByOrder db (framesOnly tail))) of
           Inl e \<Rightarrow> Inl e
         | Inr frames \<Rightarrow>
             let heads = filter isPreviewVisibleFrame (client_window db frames)
             in if previewCount \<le> length heads \<or> offset = 0 \<or> maxRawLimit \<le> rawLimit \<or> rawLimit = 0 then Inr (heads, offset)
                else preview_heads db path sessionID found maxRawLimit previewCount (min maxRawLimit (rawLimit * 2)))"
  by pat_completeness auto
termination
  by (relation "measure (\<lambda>(db, path, sessionID, found, maxRawLimit, previewCount, rawLimit). maxRawLimit - rawLimit)") auto

declare preview_heads.simps [simp del]

definition last_n :: "nat \<Rightarrow> 'a list \<Rightarrow> 'a list" where
  "last_n n xs = drop (length xs - n) xs"

definition loadSessionPreviewHeads :: "docdb \<Rightarrow> string \<Rightarrow> jsval \<Rightarrow> nat \<Rightarrow> nat \<Rightarrow> store_error + jsval list \<times> bool" where
  "loadSessionPreviewHeads db base sessionID maxRawLimit previewCount =
     (let path = interactionsPath base sessionID
      in and_then (db_listDirectory db path frames_glob 1 0) (\<lambda>probe.
           let found = normalizePreviewTotal (ls_total probe)
           in if found = 0 then Inr ([], False)
              else and_then (preview_heads db path sessionID found maxRawLimit previewCount (min maxRawLimit (max previewCount (previewCount * 2))))
                (\<lambda>(heads, offset).
                  Inr (map projectClientFrameForWindow (last_n previewCount heads), previewCount < length heads \<or> 0 < offset))))"

record preview =
  pv_sessionID :: string
  pv_session :: jsval
  pv_heads :: "jsval list"
  pv_truncated :: bool
  pv_error :: "string option"

definition loadSessionManifests :: "docdb \<Rightarrow> string \<Rightarrow> string list \<Rightarrow> store_error + (jsval \<times> jsval) list" where
  "loadSessionManifests db base sessionIDs =
     and_then (readJSONFiles db True True (map (\<lambda>s. sessionPath base (JStr s)) sessionIDs)) (\<lambda>reads.
       Inr (foldl (\<lambda>m (_, r). case r of Inr v \<Rightarrow> if truthy (pget v ''id'') then AList.update (pget v ''id'') v m else m | Inl _ \<Rightarrow> m) [] reads))"

definition session_preview :: "docdb \<Rightarrow> string \<Rightarrow> (jsval \<times> jsval) list \<Rightarrow> nat \<Rightarrow> nat \<Rightarrow> string \<Rightarrow> preview" where
  "session_preview db base sessions maxRawLimit previewCount sessionID =
     (case map_of sessions (JStr sessionID) of
        None \<Rightarrow> \<lparr>pv_sessionID = sessionID, pv_session = Null, pv_heads = [], pv_truncated = False, pv_error = Some ''session not found''\<rparr>
      | Some session \<Rightarrow>
          (case loadSessionPreviewHeads db base (JStr sessionID) maxRawLimit previewCount of
             Inr (heads, partial) \<Rightarrow> \<lparr>pv_sessionID = sessionID, pv_session = session, pv_heads = heads, pv_truncated = partial, pv_error = None\<rparr>
           | Inl e \<Rightarrow> \<lparr>pv_sessionID = sessionID, pv_session = session, pv_heads = [], pv_truncated = False,
               pv_error = Some (if error_text e = [] then ''preview unavailable'' else error_text e)\<rparr>))"

definition listSessionPreviews :: "docdb \<Rightarrow> string \<Rightarrow> jsval \<Rightarrow> jsval \<Rightarrow> store_error + preview list" where
  "listSessionPreviews db base sessionIDs options =
     (let ids = normalizeSessionIDs sessionIDs (pget options ''maxSessions'')
      in if ids = [] then Inr []
         else let previewCount = normalizePreviewCount (pget options ''previewCount'')
              in and_then (loadSessionManifests db base ids) (\<lambda>sessions.
                   Inr (map (session_preview db base sessions (min 400 (previewCount * 8)) previewCount) ids)))"

section \<open>Readers of the runtime\<close>

definition all_json :: string where
  "all_json = ''**/*.json''"

definition sort_stored :: "docdb \<Rightarrow> jsval list \<Rightarrow> jsval list" where
  "sort_stored db frames = sort_by (\<lambda>a b. compareStoredFrames (db_localeCompare db) a b \<le> 0) frames"

definition commit_number :: "jsval \<Rightarrow> rat" where
  "commit_number commit = (case pget commit ''order'' of JNum (Fin q) \<Rightarrow> q | _ \<Rightarrow> 0)"

definition compareCommitOrder :: "(string \<Rightarrow> string \<Rightarrow> int) \<Rightarrow> jsval \<Rightarrow> jsval \<Rightarrow> rat" where
  "compareCommitOrder localeCompare a b =
     first_difference [commit_number a - commit_number b, of_int (localeCompare (js_String (pget a ''id'')) (js_String (pget b ''id'')))]"

definition listCommits :: "docdb \<Rightarrow> string \<Rightarrow> jsval \<Rightarrow> nat \<Rightarrow> nat \<Rightarrow> store_error + jsval list" where
  "listCommits db base sessionID n offset =
     (case listDirectoryPaths db (base @ ''/sessions/'' @ encodeSegment sessionID @ ''/commits'') all_json (Some n) offset of
        Inl e \<Rightarrow> if failed_with 404 e then Inr [] else Inl e
      | Inr paths \<Rightarrow>
          and_then (readJSONFiles db True True paths) (\<lambda>reads.
            let commits = concat (map (\<lambda>(_, r). case r of
                  Inr c \<Rightarrow> if truthy (pget c ''id'') \<and> (case pget c ''order'' of JNum _ \<Rightarrow> True | _ \<Rightarrow> False) then [c] else [] | Inl _ \<Rightarrow> []) reads)
            in Inr (sort_by (\<lambda>a b. compareCommitOrder (db_localeCompare db) a b \<le> 0) commits)))"

definition listLatestFrames :: "docdb \<Rightarrow> string \<Rightarrow> jsval \<Rightarrow> nat \<Rightarrow> store_error + jsval list" where
  "listLatestFrames db base sessionID n =
     (let path = interactionsPath base sessionID;
          tail = and_then (db_listDirectory db path frames_glob 1 0) (\<lambda>probe.
            case ls_total probe of
              Some found \<Rightarrow> if 0 < found then and_then (listDirectoryPaths db path frames_glob (Some n) (nat found - n)) (\<lambda>ps. Inr (Some ps)) else Inr None
            | None \<Rightarrow> Inr None)
      in case tail of
           Inl e \<Rightarrow> if failed_with 404 e then Inr [] else Inl e
         | Inr found \<Rightarrow>
             and_then (case found of
                 Some ps \<Rightarrow> Inr ps
               | None \<Rightarrow> and_then (listDirectoryPaths db path frames_glob (Some 5000) 0) (\<lambda>ps. Inr (last_n n (sortFramePathsByOrder db ps))))
               (\<lambda>paths. and_then (load_frames db sessionID (sortFramePathsByOrder db (framesOnly paths))) (\<lambda>frames. Inr (sort_stored db frames))))"

definition listFrames :: "docdb \<Rightarrow> string \<Rightarrow> jsval \<Rightarrow> jsval \<Rightarrow> store_error + jsval list" where
  "listFrames db base sessionID options =
     (if \<not> truthy sessionID then Inl (Refused (TypeError ''listFrames() requires sessionID''))
      else and_then (normalizeLargeLimit (pget options ''limit'') DEFAULT_FRAME_LIST_LIMIT) (\<lambda>n.
        and_then (normalizeOffset (pget options ''offset'')) (\<lambda>offset.
          if pget options ''latest'' = JBool True then listLatestFrames db base sessionID n
          else and_then (listDirectoryPaths db (interactionsPath base sessionID) all_json (Some n) offset) (\<lambda>paths.
            and_then (load_frames db sessionID (framesOnly paths)) (\<lambda>frames.
              and_then (listCommits db base sessionID n offset) (\<lambda>commits.
                Inr (if commits = [] then sort_stored db frames else orderFramesByCommits db sessionID frames commits)))))))"

section \<open>Scheduled frames\<close>

text \<open>\<open>None\<close> of the search is a database without one; it answers the items of its result.\<close>

definition scheduled_fallback_error :: "store_error \<Rightarrow> bool" where
  "scheduled_fallback_error e =
     (failed_with 404 e \<or> failed_with 500 e \<or> failed_with 400 e
      \<or> list_ex (\<lambda>w. has_infix (toLowerCase (error_text e)) w) [''index'', ''scheduledat'', ''search'', ''query''])"

definition sort_scheduled :: "docdb \<Rightarrow> jsval list \<Rightarrow> jsval list" where
  "sort_scheduled db frames = sort_by (\<lambda>a b. compareScheduledFrameOrder (db_localeCompare db) a b \<le> 0) frames"

definition readScheduledFramePaths :: "docdb \<Rightarrow> jsval list \<Rightarrow> store_error + jsval list" where
  "readScheduledFramePaths db paths =
     and_then (readJSONFiles db True True (framesOnly (uniquePaths paths))) (\<lambda>reads.
       Inr (sort_scheduled db (concat (map (\<lambda>(_, r). case r of Inr v \<Rightarrow> if isPendingStoredFrame v then [v] else [] | Inl _ \<Rightarrow> []) reads))))"

definition searchScheduledFrames :: "docdb \<Rightarrow> (nat \<Rightarrow> nat \<Rightarrow> store_error + jsval list) option \<Rightarrow> nat \<Rightarrow> nat \<Rightarrow> store_error + jsval list option" where
  "searchScheduledFrames db search n offset =
     (case search of
        None \<Rightarrow> Inr None
      | Some ask \<Rightarrow>
          (case ask n offset of
             Inl e \<Rightarrow> if scheduled_fallback_error e then Inr None else Inl e
           | Inr items \<Rightarrow> and_then (readScheduledFramePaths db (pathsFromItems items)) (\<lambda>frames. Inr (Some frames))))"

definition listScheduledFramesFallback :: "docdb \<Rightarrow> string \<Rightarrow> jsval list \<Rightarrow> nat \<Rightarrow> nat \<Rightarrow> store_error + jsval list" where
  "listScheduledFramesFallback db base sessions n offset =
     and_then (try_map (\<lambda>session. listFrames db base (pget session ''id'') (JObj [(''limit'', JNum (Fin 500)), (''offset'', JNum (Fin 0))])) sessions) (\<lambda>frames.
       Inr (take n (drop offset (sort_scheduled db (filter isPendingStoredFrame (concat frames))))))"

definition listScheduledFrames ::
  "docdb \<Rightarrow> string \<Rightarrow> (nat \<Rightarrow> nat \<Rightarrow> store_error + jsval list) option \<Rightarrow> (store_error + jsval list) \<Rightarrow> jsval \<Rightarrow> store_error + jsval list" where
  "listScheduledFrames db base search sessions options =
     and_then (normalizeStoreLimit (pget options ''limit'') 500) (\<lambda>n.
       and_then (normalizeOffset (pget options ''offset'')) (\<lambda>offset.
         and_then (searchScheduledFrames db search n offset) (\<lambda>frames.
           case frames of
             Some fs \<Rightarrow> Inr fs
           | None \<Rightarrow> and_then sessions (\<lambda>ss. listScheduledFramesFallback db base ss n offset))))"

section \<open>The binary search\<close>

lemma boundary_search_invariant:
  assumes "sorted orders" "low \<le> high" "high \<le> length orders" "\<forall>i < low. orders ! i < before" "\<forall>i \<ge> high. i < length orders \<longrightarrow> before \<le> orders ! i"
  shows "let r = boundary_search orders before low high in r \<le> length orders \<and> (\<forall>i < r. orders ! i < before) \<and> (\<forall>i \<ge> r. i < length orders \<longrightarrow> before \<le> orders ! i)"
  using assms
proof (induction orders before low high rule: boundary_search.induct)
  case (1 orders before low high)
  show ?case
  proof (cases "low < high")
    case False
    with "1.prems" show ?thesis by (subst boundary_search.simps) (auto simp: Let_def)
  next
    case True
    define mid where "mid = (low + high) div 2"
    have mid: "low \<le> mid" "mid < high" using True by (auto simp: mid_def)
    have mono: "orders ! i \<le> orders ! j" if "i \<le> j" "j < length orders" for i j
      using that "1.prems"(1) by (simp add: sorted_nth_mono)
    show ?thesis
    proof (cases "before \<le> orders ! mid")
      case above: True
      have "\<forall>i \<ge> mid. i < length orders \<longrightarrow> before \<le> orders ! i" using mono above by (meson order_trans)
      with "1.IH"(1) [OF True mid_def above] "1.prems" mid True above show ?thesis
        by (subst boundary_search.simps) (simp add: mid_def [symmetric] Let_def)
    next
      case below: False
      have "\<forall>i < mid + 1. orders ! i < before" using mono [of _ mid] below mid(2) "1.prems"(3)
        by (metis Suc_eq_plus1 less_Suc_eq_le linorder_not_le order_le_less_trans order_less_le_trans)
      with "1.IH"(2) [OF True mid_def below] "1.prems" mid True below show ?thesis
        by (subst boundary_search.simps) (simp add: mid_def [symmetric] Let_def)
    qed
  qed
qed

lemma boundary_is_count:
  assumes "sorted orders" "r \<le> length orders" "\<forall>i < r. orders ! i < before" "\<forall>i \<ge> r. i < length orders \<longrightarrow> before \<le> orders ! i"
  shows "r = length (filter (\<lambda>q. q < before) orders)"
proof -
  have "filter (\<lambda>q. q < before) (take r orders) = take r orders" using assms(2,3) by (auto simp: filter_id_conv in_set_conv_nth)
  moreover have "filter (\<lambda>q. q < before) (drop r orders) = []" using assms(2,4) by (auto simp: filter_empty_conv in_set_conv_nth not_less)
  ultimately have "filter (\<lambda>q. q < before) orders = take r orders" by (metis append_Nil2 append_take_drop_id filter_append)
  with assms(2) show ?thesis by simp
qed

lemma binary_search_counts:
  assumes "sorted orders"
  shows "boundary_search orders before 0 (length orders) = length (filter (\<lambda>q. q < before) orders)"
  using boundary_search_invariant [OF assms, of 0 "length orders" before] boundary_is_count [OF assms] by (simp add: Let_def)

definition rows_below :: "nat \<Rightarrow> string list \<Rightarrow> nat" where
  "rows_below before L = length (filter (\<lambda>p. frameOrderFromPath p < before) L)"

lemma rows_below_le: "rows_below before L \<le> length L"
  by (simp add: rows_below_def)

lemma rows_below_map: "rows_below before L = length (filter (\<lambda>q. q < before) (map frameOrderFromPath L))"
  by (simp add: rows_below_def filter_map comp_def)

text \<open>Among the first rows only: the count stops there.\<close>

lemma rows_below_take:
  assumes "sorted (map frameOrderFromPath L)"
  shows "rows_below before (take m L) = min m (rows_below before L)"
proof -
  let ?o = "map frameOrderFromPath L" and ?r = "rows_below before L"
  have r: "?r = boundary_search ?o before 0 (length ?o)" using binary_search_counts [OF assms] by (simp add: rows_below_def filter_map comp_def)
  have b: "?r \<le> length ?o" "\<forall>i < ?r. ?o ! i < before" "\<forall>i \<ge> ?r. i < length ?o \<longrightarrow> before \<le> ?o ! i"
    using boundary_search_invariant [OF assms, of 0 "length ?o" before, unfolded Let_def] unfolding r by auto
  have "min (length L) (min m ?r) = length (filter (\<lambda>q. q < before) (take m ?o))"
  proof (rule boundary_is_count)
    show "sorted (take m ?o)" using assms by (rule sorted_wrt_take)
    show "\<forall>i < min (length L) (min m ?r). take m ?o ! i < before" using b by auto
    show "\<forall>i \<ge> min (length L) (min m ?r). i < length (take m ?o) \<longrightarrow> before \<le> take m ?o ! i" using b by auto
  qed simp
  then have "rows_below before (take m L) = min (length L) (min m ?r)" by (simp only: rows_below_map take_map)
  then show ?thesis using rows_below_le [of before L] by linarith
qed

text \<open>The cursor is looked for among the rows of one answer of the database, which are the first \<open>most\<close>.\<close>

lemma offset_at_or_after:
  assumes "serves db most path frames_glob L" "clean_paths L" "sorted (map frameOrderFromPath L)"
  shows "findFrameOffsetAtOrAfter db path before (length L) = Inr (min most (rows_below before L))"
proof -
  have "pathsFromItems (map path_item (take most L)) = map JStr (take most L)"
    using assms(2) by (intro paths_of_items) (auto simp: clean_paths_def dest: in_set_takeD)
  then have "all_rows db path (length L) = Inr (map JStr (take most L))"
    by (cases "length L \<le> most") (simp_all add: all_rows_def servesD(1) [OF assms(1)])
  moreover have "sorted (map frameOrderFromPath (take most L))" using assms(3) by (simp add: take_map [symmetric] sorted_wrt_take)
  ultimately show ?thesis using binary_search_counts [of "map frameOrderFromPath (take most L)" before] rows_below_take [OF assms(3), of before most]
    by (simp add: findFrameOffsetAtOrAfter_def comp_def rows_below_def filter_map)
qed

section \<open>Windows before and after a cursor\<close>

text \<open>
  A session on disk whose rows the database lists in ascending order, at least a page of 500 and at most \<open>most\<close> at a time, every frame
  with a number of its own.
\<close>

definition stored_session :: "docdb \<Rightarrow> nat \<Rightarrow> string \<Rightarrow> string list \<Rightarrow> bool" where
  "stored_session db most path L \<longleftrightarrow>
     serves db most path frames_glob L \<and> DIRECTORY_PAGE_LIMIT \<le> most \<and> clean_paths L \<and> L \<noteq> []
     \<and> sorted_wrt (<) (map frameOrderFromPath L)"

definition empty_request :: store_error where
  "empty_request = Refused (TypeError ''limit must be a positive integer'')"

lemma empty_listing: "listDirectoryPaths db path glob (Some 0) k = Inl empty_request"
  by (simp add: listDirectoryPaths_def normalizeLargeLimit_def positive_limit_def whole_number_def empty_request_def)

lemma stored_slice:
  assumes "stored_session db most path L" "1 \<le> n" "n \<le> MAX_FRAME_LIST_LIMIT"
  shows "listDirectoryPaths db path frames_glob (Some n) k = Inr (take n (drop k L))"
  using assms listing_is_slice [of db most path frames_glob L n k] by (simp add: stored_session_def reach_def)

lemma stored_offset: "stored_session db most path L \<Longrightarrow> findFrameOffsetAtOrAfter db path before (length L) = Inr (min most (rows_below before L))"
  by (intro offset_at_or_after) (auto simp: stored_session_def strict_sorted_imp_sorted)

lemma window_before:
  assumes "stored_session db most path L" "1 \<le> n" "n \<le> MAX_FRAME_LIST_LIMIT"
  shows "window_rows db path frames_glob n (Some before) None [] (length L) =
     (let k = min most (rows_below before L)
      in if k = 0 then Inl empty_request else Inr (Some (length L, k - n, take (k - (k - n)) (drop (k - n) L))))"
proof -
  define k where "k = min most (rows_below before L)"
  have "L \<noteq> []" using assms(1) by (simp add: stored_session_def)
  moreover have "0 < k \<Longrightarrow> listDirectoryPaths db path frames_glob (Some (k - (k - n))) (k - n) = Inr (take (k - (k - n)) (drop (k - n) L))"
    using assms(2,3) by (intro stored_slice [OF assms(1)]) auto
  ultimately show ?thesis
    by (cases "k = 0") (simp_all add: window_rows_def stored_offset [OF assms(1)] k_def [symmetric] empty_listing)
qed

text \<open>
  C34: A window over all frames after a cursor, in a session whose rows have ascending numbers of their own, from a database that answers
  at least 500 rows a call. When it answers the whole listing in one call the window holds the next rows: those whose number is above the
  cursor, the lowest first, as many as asked for. When the cursor is the newest frame or beyond it, so that there is nothing newer, the
  request does not answer an empty window but fails. When the listing is longer than one answer, the cursor is only looked for among the
  rows of that answer: a cursor past them is answered with the rows right behind them, which the client may have seen long ago.
\<close>

theorem window_after_cursor:
  assumes "stored_session db most path L" "1 \<le> n" "n \<le> MAX_FRAME_LIST_LIMIT"
  shows "window_rows db path frames_glob n before (Some after) [] (length L) =
     (let k = min most (rows_below (after + 1) L) in if k = length L then Inl empty_request else Inr (Some (length L, k, take n (drop k L))))"
proof -
  define k where "k = min most (rows_below (after + 1) L)"
  have k: "min most (rows_below (Suc after) L) = k" by (simp add: k_def)
  have "L \<noteq> []" using assms(1) by (simp add: stored_session_def)
  moreover have "k < length L \<Longrightarrow> listDirectoryPaths db path frames_glob (Some (min (length L) (k + n) - k)) k = Inr (take n (drop k L))"
    using assms(2,3) by (subst stored_slice [OF assms(1)]) (auto simp: min_def)
  moreover have "k \<le> length L" using rows_below_le [of "after + 1" L] by (simp add: k_def)
  ultimately show ?thesis
    by (cases "k = length L") (simp_all add: window_rows_def stored_offset [OF assms(1)] k Let_def empty_listing)
qed

section \<open>Paging back shows every frame once\<close>

text \<open>
  What a client does: it asks for the newest window and, while there is more, for the window before the oldest number it was answered;
  with the rows of all the windows, oldest first.
\<close>

fun page_back :: "nat \<Rightarrow> docdb \<Rightarrow> string \<Rightarrow> nat \<Rightarrow> nat \<Rightarrow> nat option \<Rightarrow> string list option" where
  "page_back 0 db path n found before = None"
| "page_back (Suc fuel) db path n found before =
     (case window_rows db path frames_glob n before None [] found of
        Inr (Some (_, start, rows)) \<Rightarrow>
          if start = 0 then Some rows
          else map_option (\<lambda>older. older @ rows) (page_back fuel db path n found (Some (frameOrderFromPath (hd rows))))
      | _ \<Rightarrow> None)"

lemma rows_below_nth:
  assumes "sorted_wrt (<) (map frameOrderFromPath L)" "e < length L"
  shows "rows_below (frameOrderFromPath (L ! e)) L = e"
proof -
  let ?o = "map frameOrderFromPath L"
  have strict: "?o ! i < ?o ! j" if "i < j" "j < length L" for i j
    using assms(1) that by (simp only: sorted_wrt_iff_nth_less length_map)
  have "e = length (filter (\<lambda>q. q < ?o ! e) ?o)"
  proof (rule boundary_is_count)
    show "sorted ?o" using assms(1) by (rule strict_sorted_imp_sorted)
    show "\<forall>i < e. ?o ! i < ?o ! e" using strict assms(2) by blast
    show "\<forall>i \<ge> e. i < length ?o \<longrightarrow> ?o ! e \<le> ?o ! i" using strict by (metis le_neq_implies_less length_map less_imp_le order_refl)
  qed (use assms(2) in simp)
  then show ?thesis using assms(2) by (simp add: rows_below_def filter_map comp_def)
qed

lemma page_back_from:
  assumes "stored_session db most path L" "1 \<le> n" "n \<le> MAX_FRAME_LIST_LIMIT" "0 < e" "e < length L" "e \<le> fuel"
  shows "page_back fuel db path n (length L) (Some (frameOrderFromPath (L ! e))) = Some (take (min most e) L)"
  using assms(4-6)
proof (induction fuel arbitrary: e)
  case (Suc fuel)
  define k where "k = min most e"
  have strict: "sorted_wrt (<) (map frameOrderFromPath L)" and most: "0 < most"
    using assms(1) by (simp_all add: stored_session_def DIRECTORY_PAGE_LIMIT_def)
  then have k: "0 < k" "k \<le> e" "k \<le> most" "k < length L" using Suc.prems by (auto simp: k_def)
  have w: "window_rows db path frames_glob n (Some (frameOrderFromPath (L ! e))) None [] (length L)
      = Inr (Some (length L, k - n, take (k - (k - n)) (drop (k - n) L)))"
    using window_before [OF assms(1-3)] rows_below_nth [OF strict Suc.prems(2)] k by (simp add: k_def [symmetric])
  show ?case
  proof (cases "k - n = 0")
    case True
    with w show ?thesis by (simp add: k_def)
  next
    case False
    then have s: "0 < k - n" "k - n < length L" "k - n \<le> fuel" "k - n < k" using Suc.prems k assms(2) by auto
    have "take (k - (k - n)) (drop (k - n) L) \<noteq> []" "hd (take (k - (k - n)) (drop (k - n) L)) = L ! (k - n)"
      using s by (auto simp: hd_drop_conv_nth)
    moreover have "take (k - n) L @ take (k - (k - n)) (drop (k - n) L) = take k L"
      using take_add [of "k - n" "k - (k - n)" L] s(4) by simp
    moreover have "min most (k - n) = k - n" using k(3) by simp
    ultimately show ?thesis using w Suc.IH [OF s(1-3)] False by (simp add: k_def)
  qed
qed simp

text \<open>
  C35: What a client sees that starts at the newest window over all frames and asks, while \<open>hasMore\<close> is set, for the window before the
  oldest number it has, in a session whose rows have ascending numbers of their own, from a database that answers at least 500 and at most
  \<open>most\<close> rows a call: the newest window, and of the rows before it the first \<open>most\<close>, each once and in order, whatever the
  window size. So paging back shows the whole session when the rows before the newest window fit one answer; in a longer session it skips
  the rows between.
\<close>

theorem paging_back_shows_everything:
  assumes "stored_session db most path L" "1 \<le> n" "n \<le> MAX_FRAME_LIST_LIMIT"
  shows "page_back (length L) db path n (length L) None = Some (take (min most (length L - n)) L @ drop (length L - n) L)
    \<and> (length L - n \<le> most \<longrightarrow> page_back (length L) db path n (length L) None = Some L)"
proof -
  let ?s = "length L - n"
  have L: "L \<noteq> []" using assms(1) by (simp add: stored_session_def)
  then obtain fuel where fuel: "length L = Suc fuel" by (cases L) auto
  have "listDirectoryPaths db path frames_glob (Some (length L - ?s)) ?s = Inr (drop ?s L)"
    using L assms(2,3) by (subst stored_slice [OF assms(1)]) (auto simp: Suc_le_eq)
  then have w: "window_rows db path frames_glob n None None [] (length L) = Inr (Some (length L, ?s, drop ?s L))"
    using L by (simp add: window_rows_def)
  have "page_back (length L) db path n (length L) None = Some (take (min most ?s) L @ drop ?s L)"
  proof (cases "?s = 0")
    case True
    then show ?thesis using w by (simp add: fuel [symmetric]) (simp add: fuel)
  next
    case False
    then have s: "0 < ?s" "?s < length L" "?s \<le> fuel" using assms(2) L fuel by auto
    have "page_back fuel db path n (length L) (Some (frameOrderFromPath (hd (drop ?s L)))) = Some (take (min most ?s) L)"
      using page_back_from [OF assms s] s(2) by (simp add: hd_drop_conv_nth)
    with w False have "page_back (Suc fuel) db path n (length L) None = Some (take (min most ?s) L @ drop ?s L)" by simp
    then show ?thesis by (simp add: fuel)
  qed
  then show ?thesis by (simp add: min_def)
qed

section \<open>Scheduled frames are pending\<close>

text \<open>
  Whatever way the scheduled frames are found, by the search of the database or by reading every session, each of them is pending: it has
  an id and a type, a time, is not deleted, and has neither fired nor been cancelled.
\<close>

lemma scheduled_frames_are_pending:
  assumes "listScheduledFrames db base search sessions options = Inr frames" "f \<in> set frames"
  shows "isPendingStoredFrame f"
proof -
  have read: "isPendingStoredFrame f" if "readScheduledFramePaths db paths = Inr fs" "f \<in> set fs" for paths fs
    using that by (auto simp: readScheduledFramePaths_def and_then_Inr sort_scheduled_def split: sum.splits if_splits)
  have fallback: "isPendingStoredFrame f" if "listScheduledFramesFallback db base ss n offset = Inr fs" "f \<in> set fs" for ss n offset fs
    using that by (auto simp: listScheduledFramesFallback_def and_then_Inr sort_scheduled_def dest!: in_set_takeD in_set_dropD)
  have search: "isPendingStoredFrame f" if "searchScheduledFrames db search n offset = Inr (Some fs)" "f \<in> set fs" for n offset fs
    using that read by (auto simp: searchScheduledFrames_def and_then_Inr split: option.splits sum.splits if_splits)
  show ?thesis
    using assms search fallback by (auto simp: listScheduledFrames_def and_then_Inr split: option.splits)
qed

section \<open>Witnesses\<close>

lemma demo_session: "stored_session demo_db 500 path demo_paths"
  using demo_serves demo_clean
  by (simp add: stored_session_def DIRECTORY_PAGE_LIMIT_def) (simp add: demo_paths_def demo_orders)

lemma demo_size: "length demo_paths = 2" "rows_below 3 demo_paths = 2"
  by (simp_all add: demo_paths_def rows_below_def demo_orders)

theorem window_after_cursor_witness:
  "window_rows demo_db ''/k'' frames_glob 1 None (Some 2) [] 2 = Inl empty_request"
  using window_after_cursor [OF demo_session, of 1 "''/k''" None 2, unfolded demo_size] by (simp add: MAX_FRAME_LIST_LIMIT_def demo_size)

theorem paging_back_shows_everything_witness: "page_back 2 demo_db ''/k'' 1 2 None = Some demo_paths"
  using paging_back_shows_everything [OF demo_session, of 1 "''/k''", unfolded demo_size] by (simp add: MAX_FRAME_LIST_LIMIT_def)

definition due_frame :: jsval where
  "due_frame = JObj [(''id'', JStr ''f''), (''type'', JStr ''Timer''), (''scheduledAt'', JNum (Fin 5))]"

definition due_db :: docdb where
  "due_db = demo_db\<lparr>db_getFile := (\<lambda>_. Inr due_frame)\<rparr>"

lemma due_listed: "listScheduledFrames due_db ''/k'' (Some (\<lambda>_ _. Inr [path_item ''/k/frames/1-Timer-f.json''])) (Inr []) Undefined = Inr [due_frame]"
  by code_simp

lemma scheduled_frames_are_pending_witness: "isPendingStoredFrame due_frame"
  by (rule scheduled_frames_are_pending [OF due_listed]) simp

text \<open>
  A window of one type counts and slices the rows of that type but looks its cursor up among all rows: the draft with number 2 is in the
  window of drafts before 2.
\<close>

definition draft_body :: jsval where
  "draft_body = JObj [(''id'', JStr ''a''), (''type'', JStr ''UserDraft'')]"

definition draft_db :: docdb where
  "draft_db = demo_db\<lparr>db_getFile := (\<lambda>_. Inr draft_body), db_listDirectory := (\<lambda>_ glob n offset.
     let rows = (if glob = frames_glob then [''/k/frames/1-UserMessage-b.json''] else []) @ [''/k/frames/2-UserDraft-a.json'']
     in Inr \<lparr>ls_total = Some (int (length rows)), ls_items = map path_item (take n (drop offset rows))\<rparr>)\<rparr>"

definition draft_request :: "jsobj \<Rightarrow> jsval" where
  "draft_request cursor = JObj ([(''limit'', JNum (Fin 1)), (''raw'', JBool True), (''frameTypes'', JArr [JStr ''UserDraft''])] @ cursor)"

lemma typed_window_ignores_cursor:
  "map_option (\<lambda>w. (rw_frames w, rw_oldestOrder w))
     (case listRawFrameWindow draft_db ''/k'' (JStr ''s'') (draft_request [(''before'', JNum (Fin 2))]) of Inr w \<Rightarrow> Some w | Inl _ \<Rightarrow> None)
   = Some ([draft_body], Some 2)"
  by code_simp

end
