(* ===== verification/ForkStore.thy ===== *)
theory ForkStore
  imports ForkSource FrameWindows
begin

text \<open>
  The frames of a fork when the pages come from the repository's own frame store: the loop of \<open>src/core/context/session-fork-source.mjs\<close>
  over \<open>listFrames\<close> of \<open>src/core/aeordb/frame-store-commit.mjs\<close>.
\<close>

definition store_pages :: "docdb \<Rightarrow> string \<Rightarrow> list_frames" where
  "store_pages db base k n offset =
     (case listFrames db base (JStr k) (JObj [(''limit'', JNum (Fin (of_int n))), (''offset'', JNum (Fin (of_nat offset)))]) of
        Inl e \<Rightarrow> Inl (GenericError (error_text e)) | Inr frames \<Rightarrow> Inr (JArr frames))"

text \<open>Three files, of which the first has lost its type; no commits.\<close>

definition fork_file :: "string \<Rightarrow> jsval" where
  "fork_file path =
     (if path = ''/k/frames/1-Note-a.json'' then JObj [(''id'', JStr ''a'')]
      else if path = ''/k/frames/2-Note-b.json'' then JObj [(''id'', JStr ''b''), (''type'', JStr ''Note'')]
      else JObj [(''id'', JStr ''c''), (''type'', JStr ''Note'')])"

definition fork_db :: docdb where
  "fork_db = demo_db\<lparr>db_getFile := (\<lambda>path. Inr (fork_file path)), db_listDirectory := (\<lambda>path glob n offset.
     let rows = if path = ''/k/sessions/parent/interactions'' then [''/k/frames/1-Note-a.json'', ''/k/frames/2-Note-b.json'', ''/k/frames/3-Note-c.json''] else []
     in Inr \<lparr>ls_total = Some (int (length rows)), ls_items = map path_item (take n (drop offset rows))\<rparr>)\<rparr>"

definition cold_runtime :: fork_runtime where
  "cold_runtime = \<lparr>fr_ensureSessionEntry = None, fr_listFrames = Some (store_pages fork_db ''/k'')\<rparr>"

definition cold_context :: fork_context where
  "cold_context = \<lparr>fc_sessionID = JStr ''other'', fc_servicesEngine = None, fc_frameEngine = None\<rparr>"

text \<open>
  The store leaves a file without an id or a type out of its page, and the loop takes a page shorter than it asked for as the last: in pages
  of two, the fork gets the frame b alone and neither finds c nor fails. In pages of three it gets b and c.
\<close>

lemma short_page_ends_the_fork:
  "resolveForkParentFrames (Some cold_runtime) (JObj [(''id'', JStr ''parent'')]) cold_context Undefined (JNum (Fin 2))
     = ([0], Inr [JObj [(''id'', JStr ''b''), (''type'', JStr ''Note'')]])"
  "resolveForkParentFrames (Some cold_runtime) (JObj [(''id'', JStr ''parent'')]) cold_context Undefined (JNum (Fin 3))
     = ([0], Inr [JObj [(''id'', JStr ''b''), (''type'', JStr ''Note'')], JObj [(''id'', JStr ''c''), (''type'', JStr ''Note'')]])"
  by code_simp+

end
