(* ===== verification/SessionSuspension.thy ===== *)
theory SessionSuspension
  imports SessionAncestry JSONText
begin

text \<open>
  Suspending the agents of a session: \<open>src/core/runtime/frame-runtime-session-suspension.mjs\<close>, \<open>session-suspension-persistence.mjs\<close>,
  \<open>suspension-warning.mjs\<close> and the part of \<open>inviteAgentToSession\<close> (\<open>frame-runtime-sessions.mjs\<close>) that freezes a newcomer. A loaded session
  is a record with its suspension, the warnings to be given, the agents warned, cancelled and running, the number of pins that hold it in memory and
  whether its frames were loaded with it; sets keep insertion order. The suspension
  is mirrored in the stored session and rebuilt from it and from the frames when the session is loaded again. After a load the warned set of
  the suspension and that of the entry are one object, until the next suspension of the session, which is as long as \<open>su_restarted\<close> is set;
  only the removal of a participant treats the two differently.
\<close>

section \<open>Warnings\<close>

definition suspension_lines :: "bool \<Rightarrow> string list \<Rightarrow> string \<Rightarrow> bool \<Rightarrow> string list" where
  "suspension_lines isCoordinator suspended platform restarted =
     (let names = (if suspended = [] then ''none'' else join_with '', '' suspended); windows = (platform = ''win32'');
          first = ''!!!WARNING!!! The user just suspended this session.''
      in if isCoordinator then
        [first,
         (if windows then ''ALL IN-FLIGHT tool calls were ABORTED (Windows cannot suspend processes). Do not assume any interrupted command succeeded.''
          else if restarted then ''The server restarted while this session was suspended. In-flight commands did not survive that restart; inspect their recorded status before restarting any work.''
          else ''All in-flight commands were PAUSED with SIGSTOP and remain suspended. They will not make progress until explicitly resumed.''),
         ''Suspended agents: '' @ names @ ''.'',
         ''You are the coordinator and have been woken only because a real user sent this message. Every non-coordinator bot remains suspended until you explicitly resume it.'',
         ''Your job now is recovery: tell the user which bots are suspended, ask what they want to happen, and use session-control (action list/resume/suspend) for agents plus exec-list/exec-status/exec-resume/exec-kill for commands. On Windows, restart interrupted work only after user or coordinator confirmation.'',
         ''Do not assume the session is healthy until you have inspected the suspended agents and their commands.'']
      else
        [first,
         (if windows then ''ALL IN-FLIGHT tool calls were ABORTED (Windows cannot suspend processes). Check their status and restart only when the coordinator or user confirms.''
          else if restarted then ''The server restarted while this session was suspended. Your in-flight commands did not survive that restart; inspect their recorded status before restarting any work.''
          else ''Your in-flight commands were PAUSED with SIGSTOP and remain suspended. They will not make progress until explicitly resumed.''),
         ''Use exec-list and exec-status to inspect your commands, then exec-resume to continue one or exec-kill to terminate one as appropriate. You may only manage your own commands.'',
         ''You were explicitly resumed by the coordinator. Do not assume other suspended bots or their commands are healthy.''])"

definition buildSuspensionWarning :: "bool \<Rightarrow> string list \<Rightarrow> string \<Rightarrow> bool \<Rightarrow> string" where
  "buildSuspensionWarning isCoordinator suspended platform restarted = join_with [CHR 0x0A] (suspension_lines isCoordinator suspended platform restarted)"

record warning =
  wn_message :: string
  wn_suspended :: "string list"

section \<open>State\<close>

record suspension =
  su_active :: bool
  su_suspendedAt :: jsval
  su_suspendedByUserID :: jsval
  su_coordinatorAgentID :: jsval
  su_reason :: jsval
  su_agents :: "string list"
  su_warned :: "string list"
  su_restarted :: bool

record session_entry =
  sn_session :: jsobj
  sn_suspension :: "suspension option"
  sn_pending :: "(string \<times> warning) list"
  sn_warned :: "string list"
  sn_cancelled :: "string list"
  sn_running :: "string list"
  sn_activeRuns :: nat
  sn_framesLoaded :: bool

definition push_all :: "string list \<Rightarrow> string list \<Rightarrow> string list" where
  "push_all xs ys = foldl push_new xs ys"

definition without :: "string list \<Rightarrow> string list \<Rightarrow> string list" where
  "without xs ys = filter (\<lambda>x. x \<notin> set ys) xs"

definition normalizeSuspendedAgentIDs :: "jsval \<Rightarrow> string list" where
  "normalizeSuspendedAgentIDs v = uniq (filter (\<lambda>s. js_trim s \<noteq> []) (concat (map (\<lambda>x. case x of JStr s \<Rightarrow> [s] | _ \<Rightarrow> []) (arr_of v))))"

definition active_suspension :: "session_entry \<Rightarrow> suspension option" where
  "active_suspension e = (case sn_suspension e of Some s \<Rightarrow> if su_active s then Some s else None | None \<Rightarrow> None)"

definition ids_val :: "string list \<Rightarrow> jsval" where
  "ids_val ids = JArr (map JStr ids)"

definition or_null :: "jsval \<Rightarrow> jsval" where
  "or_null v = js_or v Null"

section \<open>The stored snapshot\<close>

definition buildSessionSuspensionSnapshot :: "session_entry \<Rightarrow> jsval option" where
  "buildSessionSuspensionSnapshot e =
     (let s = active_suspension e; pending = map fst (sn_pending e)
      in if s = None \<and> pending = [] \<and> sn_warned e = [] then None
         else let get = (\<lambda>f. case s of None \<Rightarrow> Undefined | Some x \<Rightarrow> f x)
              in Some (JObj [(''version'', JNum (Fin 1)), (''active'', JBool (s \<noteq> None)), (''suspendedAt'', or_null (get su_suspendedAt)),
                (''suspendedByUserID'', or_null (get su_suspendedByUserID)),
                (''coordinatorAgentID'', js_or (get su_coordinatorAgentID) (or_null (oget (sn_session e) ''coordinatorAgentID''))),
                (''reason'', or_null (get su_reason)), (''suspendedAgentIDs'', ids_val (case s of None \<Rightarrow> [] | Some x \<Rightarrow> su_agents x)),
                (''pendingWarningAgentIDs'', ids_val pending), (''warnedAgentIDs'', ids_val (sn_warned e))]))"

definition syncSessionSuspensionSnapshot :: "session_entry \<Rightarrow> session_entry" where
  "syncSessionSuspensionSnapshot e =
     (let session = odel (sn_session e) ''halt'' ; e' = e\<lparr>sn_session := session\<rparr>
      in e'\<lparr>sn_session := (case buildSessionSuspensionSnapshot e' of
             Some snapshot \<Rightarrow> oset session ''suspension'' snapshot | None \<Rightarrow> odel session ''suspension'')\<rparr>)"

section \<open>Operations\<close>

text \<open>Where an operation writes the mirror it also queues a save of the stored session, which is left out.\<close>

definition suspend_session_entry :: "jsval \<Rightarrow> jsval \<Rightarrow> session_entry \<Rightarrow> session_entry" where
  "suspend_session_entry now options e =
     (let ids = normalizeSuspendedAgentIDs (pget options ''agentIDs''); prior = active_suspension e;
          was = (\<lambda>f. case prior of None \<Rightarrow> Undefined | Some s \<Rightarrow> f s);
          old = (case prior of None \<Rightarrow> [] | Some s \<Rightarrow> su_agents s); oldWarned = (case prior of None \<Rightarrow> [] | Some s \<Rightarrow> su_warned s);
          suspended = push_all old ids
      in syncSessionSuspensionSnapshot (e\<lparr>
           sn_suspension := Some \<lparr>su_active = True,
             su_suspendedAt = js_or (pget options ''suspendedAt'') (js_or (was su_suspendedAt) now),
             su_suspendedByUserID = js_or (pget options ''userID'') (or_null (was su_suspendedByUserID)),
             su_coordinatorAgentID = js_or (pget options ''coordinatorAgentID'')
               (js_or (oget (sn_session e) ''coordinatorAgentID'') (or_null (was su_coordinatorAgentID))),
             su_reason = js_or (pget options ''reason'') (js_or (was su_reason) (JStr ''user-suspend'')),
             su_agents = suspended, su_warned = without oldWarned ids, su_restarted = False\<rparr>,
           sn_pending := [], sn_warned := without (push_all (sn_warned e) oldWarned) ids, sn_cancelled := push_all (sn_cancelled e) suspended\<rparr>))"

definition suspend_agent_entry :: "jsval \<Rightarrow> string \<Rightarrow> session_entry \<Rightarrow> session_entry" where
  "suspend_agent_entry now agentID e =
     (let s = (case sn_suspension e of
            Some s \<Rightarrow> s
          | None \<Rightarrow> \<lparr>su_active = True, su_suspendedAt = now, su_suspendedByUserID = Null,
              su_coordinatorAgentID = or_null (oget (sn_session e) ''coordinatorAgentID''), su_reason = JStr ''agent-suspend'',
              su_agents = [], su_warned = [], su_restarted = False\<rparr>)
      in syncSessionSuspensionSnapshot (e\<lparr>
           sn_suspension := Some (s\<lparr>su_active := True, su_agents := push_new (su_agents s) agentID, su_warned := without (su_warned s) [agentID]\<rparr>),
           sn_warned := without (sn_warned e) [agentID], sn_pending := AList.delete agentID (sn_pending e),
           sn_cancelled := push_new (sn_cancelled e) agentID\<rparr>))"

definition resume_agent_entry :: "string \<Rightarrow> string \<Rightarrow> session_entry \<Rightarrow> bool \<times> session_entry" where
  "resume_agent_entry platform agentID e =
     (case sn_suspension e of
        None \<Rightarrow> (False, e)
      | Some s \<Rightarrow>
          if agentID = [] then (False, e)
          else let removed = (agentID \<in> set (su_agents s)); rest = without (su_agents s) [agentID];
                   warn = \<lparr>wn_message = buildSuspensionWarning (JStr agentID = su_coordinatorAgentID s) (su_agents s) platform (su_restarted s),
                     wn_suspended = su_agents s\<rparr>;
                   e' = e\<lparr>sn_suspension := (if rest = [] then None else Some (s\<lparr>su_agents := rest, su_warned := without (su_warned s) [agentID]\<rparr>)),
                     sn_warned := without (sn_warned e) [agentID], sn_cancelled := without (sn_cancelled e) [agentID],
                     sn_pending := (if removed \<and> su_active s then AList.update agentID warn (sn_pending e) else sn_pending e)\<rparr>
               in (removed, if removed then syncSessionSuspensionSnapshot e' else e'))"

definition consume_warning_entry :: "string \<Rightarrow> jsval \<Rightarrow> string \<Rightarrow> session_entry \<Rightarrow> warning option \<times> session_entry" where
  "consume_warning_entry platform options agentID e =
     (if agentID = [] then (None, e)
      else case active_suspension e of
             None \<Rightarrow>
               (case map_of (sn_pending e) agentID of
                  None \<Rightarrow> (None, e)
                | Some pending \<Rightarrow>
                    (Some pending, syncSessionSuspensionSnapshot (e\<lparr>sn_pending := AList.delete agentID (sn_pending e), sn_warned := push_new (sn_warned e) agentID\<rparr>)))
           | Some s \<Rightarrow>
               let isCoordinator = (JStr agentID = su_coordinatorAgentID s \<or> pget options ''isCoordinator'' = JBool True)
               in if \<not> isCoordinator \<and> agentID \<in> set (su_warned s) then (None, e)
                  else let e' = e\<lparr>sn_suspension := Some (s\<lparr>su_warned := push_new (su_warned s) agentID\<rparr>),
                             sn_warned := push_new (sn_warned e) agentID, sn_pending := AList.delete agentID (sn_pending e)\<rparr>;
                           ids = (if isCoordinator then without (su_agents s) [agentID] else su_agents s);
                           os = js_String (js_or (pget options ''platform'') (JStr platform))
                       in (Some \<lparr>wn_message = buildSuspensionWarning isCoordinator ids os (su_restarted s), wn_suspended = ids\<rparr>,
                           if isCoordinator then e' else syncSessionSuspensionSnapshot e'))"

text \<open>An agent that joins a suspended session is suspended with it.\<close>

definition freeze_newcomer :: "string \<Rightarrow> session_entry \<Rightarrow> session_entry" where
  "freeze_newcomer agentID e =
     (case active_suspension e of
        None \<Rightarrow> e
      | Some s \<Rightarrow> syncSessionSuspensionSnapshot (e\<lparr>
          sn_suspension := Some (s\<lparr>su_agents := push_new (su_agents s) agentID, su_warned := without (su_warned s) [agentID]\<rparr>),
          sn_warned := without (sn_warned e) [agentID], sn_cancelled := push_new (sn_cancelled e) agentID\<rparr>))"

text \<open>A participant that is removed from the session leaves its suspension.\<close>

definition release_leaver :: "string \<Rightarrow> session_entry \<Rightarrow> session_entry" where
  "release_leaver agentID e =
     (case sn_suspension e of
        None \<Rightarrow> e
      | Some s \<Rightarrow> syncSessionSuspensionSnapshot (e\<lparr>
          sn_suspension := Some (s\<lparr>su_agents := without (su_agents s) [agentID], su_warned := without (su_warned s) [agentID]\<rparr>),
          sn_warned := (if su_restarted s then without (sn_warned e) [agentID] else sn_warned e),
          sn_cancelled := without (sn_cancelled e) [agentID]\<rparr>))"

definition agent_suspended :: "string \<Rightarrow> session_entry \<Rightarrow> bool" where
  "agent_suspended agentID e = (case active_suspension e of None \<Rightarrow> False | Some s \<Rightarrow> agentID \<noteq> [] \<and> agentID \<in> set (su_agents s))"

section \<open>The runtime\<close>

type_synonym sessions = "(string \<times> session_entry) list"

definition suspendSession :: "jsval \<Rightarrow> string \<Rightarrow> jsval \<Rightarrow> sessions \<Rightarrow> bool \<times> sessions" where
  "suspendSession now sessionID options rt =
     (case map_of rt sessionID of None \<Rightarrow> (False, rt) | Some e \<Rightarrow> (True, AList.update sessionID (suspend_session_entry now options e) rt))"

definition suspendAgent :: "jsval \<Rightarrow> string \<Rightarrow> string \<Rightarrow> sessions \<Rightarrow> bool \<times> sessions" where
  "suspendAgent now sessionID agentID rt =
     (case map_of rt sessionID of
        None \<Rightarrow> (False, rt)
      | Some e \<Rightarrow> if agentID = [] then (False, rt) else (True, AList.update sessionID (suspend_agent_entry now agentID e) rt))"

definition resumeAgent :: "string \<Rightarrow> string \<Rightarrow> string \<Rightarrow> sessions \<Rightarrow> bool \<times> sessions" where
  "resumeAgent platform sessionID agentID rt =
     (case map_of rt sessionID of
        None \<Rightarrow> (False, rt)
      | Some e \<Rightarrow> (case resume_agent_entry platform agentID e of (removed, e') \<Rightarrow> (removed, AList.update sessionID e' rt)))"

definition consumeAgentSuspensionWarning :: "string \<Rightarrow> string \<Rightarrow> string \<Rightarrow> jsval \<Rightarrow> sessions \<Rightarrow> warning option \<times> sessions" where
  "consumeAgentSuspensionWarning platform sessionID agentID options rt =
     (case map_of rt sessionID of
        None \<Rightarrow> (None, rt)
      | Some e \<Rightarrow> (case consume_warning_entry platform options agentID e of (w, e') \<Rightarrow> (w, AList.update sessionID e' rt)))"

definition isSessionSuspended :: "string \<Rightarrow> sessions \<Rightarrow> bool" where
  "isSessionSuspended sessionID rt = (case map_of rt sessionID of None \<Rightarrow> False | Some e \<Rightarrow> active_suspension e \<noteq> None)"

definition isAgentSuspended :: "string \<Rightarrow> string \<Rightarrow> sessions \<Rightarrow> bool" where
  "isAgentSuspended sessionID agentID rt = (case map_of rt sessionID of None \<Rightarrow> False | Some e \<Rightarrow> agent_suspended agentID e)"

definition listActiveAgentRuns :: "string \<Rightarrow> sessions \<Rightarrow> string list" where
  "listActiveAgentRuns sessionID rt = (case map_of rt sessionID of None \<Rightarrow> [] | Some e \<Rightarrow> sn_running e)"

text \<open>From \<open>frame-runtime-sessions.mjs\<close>: the runs of one agent, or of all, are marked as cancelled.\<close>

definition cancelAgentRuns :: "string \<Rightarrow> string option \<Rightarrow> sessions \<Rightarrow> string list \<times> sessions" where
  "cancelAgentRuns sessionID target rt =
     (case map_of rt sessionID of
        None \<Rightarrow> ([], rt)
      | Some e \<Rightarrow>
          let cancelled = (case target of None \<Rightarrow> sn_running e | Some t \<Rightarrow> filter (\<lambda>a. t = [] \<or> a = t) (sn_running e))
          in (cancelled, AList.update sessionID (e\<lparr>sn_cancelled := push_all (sn_cancelled e) cancelled\<rparr>) rt))"

definition persistSessionSuspension :: "string \<Rightarrow> sessions \<Rightarrow> suspension option \<times> sessions" where
  "persistSessionSuspension sessionID rt =
     (case map_of rt sessionID of
        None \<Rightarrow> (None, rt)
      | Some e \<Rightarrow> (sn_suspension e, AList.update sessionID (syncSessionSuspensionSnapshot e) rt))"

definition getSessionSuspension :: "string \<Rightarrow> sessions \<Rightarrow> suspension option" where
  "getSessionSuspension sessionID rt = (case map_of rt sessionID of None \<Rightarrow> None | Some e \<Rightarrow> active_suspension e)"

section \<open>Rebuilding a suspension\<close>

definition SESSION_SUSPEND_AUTHOR_ID :: string where
  "SESSION_SUSPEND_AUTHOR_ID = ''internal:user-suspend''"

definition SESSION_RESUME_AUTHOR_ID :: string where
  "SESSION_RESUME_AUTHOR_ID = ''internal:user-resume''"

definition LEGACY_SESSION_SUSPEND_AUTHOR_ID :: string where
  "LEGACY_SESSION_SUSPEND_AUTHOR_ID = ''internal:user-halt''"

text \<open>\<open>normalizeOptional\<close> and \<open>normalizeTimestamp\<close> answer \<open>null\<close> for what they refuse.\<close>

definition normalizeOptional :: "jsval \<Rightarrow> jsval" where
  "normalizeOptional v = (if trim_or_empty v = [] then Null else JStr (trim_or_empty v))"

definition normalizeTimestamp :: "jsval \<Rightarrow> jsval" where
  "normalizeTimestamp v = (case js_Number v of Fin q \<Rightarrow> JNum (Fin q) | _ \<Rightarrow> Null)"

record replay =
  rp_active :: bool
  rp_suspendedAt :: jsval
  rp_suspendedByUserID :: jsval
  rp_coordinatorAgentID :: jsval
  rp_reason :: jsval
  rp_suspended :: "string list"
  rp_pending :: "string list"
  rp_warned :: "string list"
  rp_legacy :: bool

definition createSuspensionReplayState :: "jsval \<Rightarrow> jsobj \<Rightarrow> replay" where
  "createSuspensionReplayState snapshot session =
     (let active = (pget snapshot ''active'' = JBool True); by_user = pget snapshot ''suspendedByUserID''; halted_by = pget snapshot ''haltedByUserID''
      in \<lparr>rp_active = active, rp_suspendedAt = normalizeTimestamp (js_nc (pget snapshot ''suspendedAt'') (pget snapshot ''haltedAt'')),
           rp_suspendedByUserID = (if is_str by_user then by_user else if is_str halted_by then halted_by else Null),
           rp_coordinatorAgentID = js_or (normalizeOptional (pget snapshot ''coordinatorAgentID'')) (normalizeOptional (oget session ''coordinatorAgentID'')),
           rp_reason = js_or (normalizeOptional (pget snapshot ''reason'')) (if active then JStr ''user-suspend'' else Null),
           rp_suspended = (if active then normalizeSuspendedAgentIDs (pget snapshot ''suspendedAgentIDs'') else []),
           rp_pending = normalizeSuspendedAgentIDs (pget snapshot ''pendingWarningAgentIDs''),
           rp_warned = normalizeSuspendedAgentIDs (pget snapshot ''warnedAgentIDs''), rp_legacy = False\<rparr>)"

fun agent_key :: "jsval \<Rightarrow> string list" where
  "agent_key (JStr s) = [s]"
| "agent_key _ = []"

definition resumeSuspendedAgent :: "jsval \<Rightarrow> replay \<Rightarrow> replay" where
  "resumeSuspendedAgent agentID st =
     (if \<not> truthy agentID then st
      else let ids = agent_key agentID; suspended = without (rp_suspended st) ids; gone = filter (\<lambda>x. x \<in> set (rp_suspended st)) ids
           in st\<lparr>rp_suspended := suspended, rp_pending := push_all (rp_pending st) (without gone (rp_warned st)),
                rp_active := (rp_active st \<and> suspended \<noteq> [])\<rparr>)"

definition applySuspensionFrame :: "replay \<Rightarrow> jsval \<Rightarrow> replay" where
  "applySuspensionFrame st0 frame =
     (if \<not> truthy frame then st0
      else let content = pget frame ''content'';
               st = (if \<not> rp_legacy st0 then st0
                     else if pget frame ''type'' = JStr ''UserMessage'' \<and> pget frame ''authorType'' = JStr ''user''
                       then resumeSuspendedAgent (rp_coordinatorAgentID st0) st0
                     else if pget frame ''authorType'' = JStr ''agent'' \<and> truthy (pget frame ''authorID'')
                       then resumeSuspendedAgent (pget frame ''authorID'') st0 else st0)
           in if pget frame ''authorType'' \<noteq> JStr ''system'' then st
              else if pget frame ''authorID'' = JStr SESSION_SUSPEND_AUTHOR_ID \<or> pget frame ''authorID'' = JStr LEGACY_SESSION_SUSPEND_AUTHOR_ID
              then let ids = normalizeSuspendedAgentIDs (js_or (pget content ''suspendedAgentIDs'') (pget content ''haltedAgentIDs''))
                   in if ids = [] then st
                      else st\<lparr>rp_suspended := push_all (rp_suspended st) ids, rp_active := True,
                        rp_suspendedAt := js_or (normalizeTimestamp (pget frame ''timestamp'')) (js_or (normalizeTimestamp (pget frame ''createdAt'')) (rp_suspendedAt st)),
                        rp_suspendedByUserID := js_or (normalizeOptional (pget content ''suspendedByUserID''))
                          (js_or (normalizeOptional (pget content ''haltedByUserID'')) (rp_suspendedByUserID st)),
                        rp_coordinatorAgentID := js_or (normalizeOptional (pget content ''coordinatorAgentID'')) (rp_coordinatorAgentID st),
                        rp_reason := js_or (normalizeOptional (pget content ''reason'')) (JStr ''user-suspend''),
                        rp_legacy := (pget frame ''authorID'' = JStr LEGACY_SESSION_SUSPEND_AUTHOR_ID \<or> pget content ''kind'' \<noteq> JStr ''session-suspend'')\<rparr>
              else if pget frame ''authorID'' = JStr SESSION_RESUME_AUTHOR_ID then resumeSuspendedAgent (normalizeOptional (pget content ''resumedAgentID'')) st
              else st)"

definition replaySuspensionFrames :: "replay \<Rightarrow> jsval \<Rightarrow> replay" where
  "replaySuspensionFrames st frames = foldl applySuspensionFrame st (arr_of frames)"

text \<open>The state counts as restarted only after the warnings have been built.\<close>

definition buildPendingSuspensionWarning :: "string \<Rightarrow> jsobj \<Rightarrow> replay \<Rightarrow> string \<Rightarrow> warning" where
  "buildPendingSuspensionWarning platform session st agentID =
     (let isCoordinator = (JStr agentID = rp_coordinatorAgentID st \<or> JStr agentID = oget session ''coordinatorAgentID'');
          ids = (if isCoordinator then without (rp_suspended st) [agentID] else rp_suspended st)
      in \<lparr>wn_message = buildSuspensionWarning isCoordinator ids platform False, wn_suspended = ids\<rparr>)"

definition buildHydratedSuspension :: "string \<Rightarrow> jsval \<Rightarrow> jsobj \<Rightarrow> jsval \<Rightarrow> jsval \<Rightarrow> suspension option \<times> (string \<times> warning) list \<times> string list" where
  "buildHydratedSuspension platform now session snapshot frames =
     (let st = replaySuspensionFrames (createSuspensionReplayState snapshot session) frames
      in (if rp_suspended st = [] then None
          else Some \<lparr>su_active = True, su_suspendedAt = js_or (rp_suspendedAt st) now, su_suspendedByUserID = rp_suspendedByUserID st,
                 su_coordinatorAgentID = js_or (rp_coordinatorAgentID st) (or_null (oget session ''coordinatorAgentID'')),
                 su_reason = js_or (rp_reason st) (JStr ''user-suspend''), su_agents = rp_suspended st, su_warned = rp_warned st, su_restarted = True\<rparr>,
          map (\<lambda>a. (a, buildPendingSuspensionWarning platform session st a)) (without (rp_pending st) (rp_suspended st)),
          rp_warned st))"

definition stored_snapshot :: "jsobj \<Rightarrow> jsval" where
  "stored_snapshot session = js_or (oget session ''suspension'') (or_null (oget session ''halt''))"

definition restore_entry :: "string \<Rightarrow> jsval \<Rightarrow> jsval \<Rightarrow> session_entry \<Rightarrow> session_entry" where
  "restore_entry platform now frames e =
     (case buildHydratedSuspension platform now (sn_session e) (stored_snapshot (sn_session e)) frames of
        (s, pending, warned) \<Rightarrow>
          syncSessionSuspensionSnapshot (e\<lparr>sn_suspension := s, sn_pending := pending, sn_warned := warned,
            sn_cancelled := push_all (sn_cancelled e) (case s of None \<Rightarrow> [] | Some x \<Rightarrow> su_agents x)\<rparr>))"

definition hydrateSessionSuspension :: "string \<Rightarrow> jsval \<Rightarrow> string \<Rightarrow> jsval \<Rightarrow> sessions \<Rightarrow> sessions" where
  "hydrateSessionSuspension platform now sessionID frames rt =
     (case map_of rt sessionID of None \<Rightarrow> rt | Some e \<Rightarrow> AList.update sessionID (restore_entry platform now frames e) rt)"

section \<open>Recorded resumes\<close>

definition createResumeFrame :: "jsval \<Rightarrow> string \<Rightarrow> string \<Rightarrow> string \<Rightarrow> jsval \<Rightarrow> jsval \<Rightarrow> jsval" where
  "createResumeFrame frameID sessionID agentID agentName reason timestamp =
     (let name = (if js_trim agentName = [] then agentID else js_trim agentName)
      in JObj [(''id'', frameID), (''type'', JStr ''AgentMessage''), (''sessionID'', JStr sessionID), (''interactionID'', Null), (''parentID'', Null),
           (''authorType'', JStr ''system''), (''authorID'', JStr SESSION_RESUME_AUTHOR_ID), (''authorDisplayName'', JStr ''System''),
           (''timestamp'', timestamp), (''createdAt'', timestamp), (''updatedAt'', timestamp), (''hidden'', JBool True), (''deleted'', JBool False),
           (''content'', JObj [(''text'', JStr (''User Resumed '' @ name)), (''status'', JStr ''success''), (''kind'', JStr ''agent-resume''),
              (''resumedAgentID'', JStr agentID), (''resumedAgentName'', JStr name), (''reason'', reason)])])"

text \<open>The frames written for the agents that were suspended, with the entry after it; ids and names of the frames are arguments.\<close>

definition record_resumes ::
  "string \<Rightarrow> (nat \<Rightarrow> jsval) \<Rightarrow> (string \<Rightarrow> string) \<Rightarrow> jsval \<Rightarrow> string \<Rightarrow> jsval \<Rightarrow> jsval \<Rightarrow> session_entry \<Rightarrow> jsval list \<times> session_entry" where
  "record_resumes platform new_id name_of now sessionID agentIDs options e =
     (case active_suspension e of
        None \<Rightarrow> ([], e)
      | Some s \<Rightarrow>
          let ids = filter (\<lambda>a. a \<in> set (su_agents s)) (normalizeSuspendedAgentIDs agentIDs)
          in if ids = [] then ([], e)
             else (map (\<lambda>(i, a). createResumeFrame (new_id i) sessionID a (name_of a) (js_or (pget options ''reason'') (JStr ''resume'')) now) (enumerate 0 ids),
                   syncSessionSuspensionSnapshot (foldl (\<lambda>e a. snd (resume_agent_entry platform a e)) e ids)))"

section \<open>The mirror is in step with the suspension\<close>

lemma push_all_simps [simp]: "set (push_all xs ys) = set xs \<union> set ys" "distinct xs \<Longrightarrow> distinct (push_all xs ys)"
  by (simp_all add: push_all_def foldl_push_new_set foldl_push_new_distinct)

lemma set_push_new [simp]: "set (push_new xs x) = insert x (set xs)"
  by (auto simp: push_new_def)

lemma distinct_push_new [simp]: "distinct xs \<Longrightarrow> distinct (push_new xs x)"
  by (simp add: push_new_def)

lemma without_simps [simp]: "without [] ys = []" "set (without xs ys) = set xs - set ys" "distinct xs \<Longrightarrow> distinct (without xs ys)"
  by (auto simp: without_def)

definition agents_ok :: "string list \<Rightarrow> bool" where
  "agents_ok ids = (distinct ids \<and> (\<forall>a\<in>set ids. js_trim a \<noteq> []))"

lemma agents_ok_normalized [simp, intro]: "agents_ok (normalizeSuspendedAgentIDs v)"
  by (simp add: agents_ok_def normalizeSuspendedAgentIDs_def)

lemma agents_okI [simp, intro]:
  "agents_ok []"
  "agents_ok xs \<Longrightarrow> agents_ok ys \<Longrightarrow> agents_ok (push_all xs ys)"
  "agents_ok xs \<Longrightarrow> js_trim a \<noteq> [] \<Longrightarrow> agents_ok (push_new xs a)"
  "agents_ok xs \<Longrightarrow> agents_ok (without xs ys)"
  by (auto simp: agents_ok_def)

lemma normalize_ids_val [simp]: "agents_ok ids \<Longrightarrow> normalizeSuspendedAgentIDs (ids_val ids) = ids"
proof -
  assume ok_ids: "agents_ok ids"
  have "concat (map ((\<lambda>x. case x of JStr s \<Rightarrow> [s] | _ \<Rightarrow> []) \<circ> JStr) ids) = ids" by (induction ids) auto
  moreover have "filter (\<lambda>s. js_trim s \<noteq> []) ids = ids" using ok_ids by (auto simp: agents_ok_def intro: filter_True)
  ultimately show ?thesis using ok_ids by (simp add: normalizeSuspendedAgentIDs_def ids_val_def agents_ok_def uniq_distinct)
qed

text \<open>The agents a load would find suspended in the stored session, and the agents that are.\<close>

definition stored_agents :: "jsobj \<Rightarrow> string list" where
  "stored_agents session =
     (let snapshot = stored_snapshot session
      in if pget snapshot ''active'' = JBool True then normalizeSuspendedAgentIDs (pget snapshot ''suspendedAgentIDs'') else [])"

definition suspended_agents :: "session_entry \<Rightarrow> string list" where
  "suspended_agents e = (case sn_suspension e of None \<Rightarrow> [] | Some s \<Rightarrow> su_agents s)"

definition well_suspended :: "session_entry \<Rightarrow> bool" where
  "well_suspended e = ((\<forall>s. sn_suspension e = Some s \<longrightarrow> su_active s) \<and> agents_ok (suspended_agents e))"

definition in_step :: "session_entry \<Rightarrow> bool" where
  "in_step e = (well_suspended e \<and> stored_agents (sn_session e) = suspended_agents e)"

lemma sync_keeps [simp]:
  "sn_running (syncSessionSuspensionSnapshot e) = sn_running e" "sn_activeRuns (syncSessionSuspensionSnapshot e) = sn_activeRuns e"
  "sn_framesLoaded (syncSessionSuspensionSnapshot e) = sn_framesLoaded e"
  "sn_suspension (syncSessionSuspensionSnapshot e) = sn_suspension e" "sn_pending (syncSessionSuspensionSnapshot e) = sn_pending e"
  "sn_warned (syncSessionSuspensionSnapshot e) = sn_warned e" "sn_cancelled (syncSessionSuspensionSnapshot e) = sn_cancelled e"
  by (simp_all add: syncSessionSuspensionSnapshot_def Let_def)

lemma suspended_sync [simp]:
  "suspended_agents (syncSessionSuspensionSnapshot e) = suspended_agents e"
  "well_suspended (syncSessionSuspensionSnapshot e) = well_suspended e"
  "active_suspension (syncSessionSuspensionSnapshot e) = active_suspension e"
  by (simp_all add: suspended_agents_def well_suspended_def active_suspension_def)

lemma active_when_well [simp]: "well_suspended e \<Longrightarrow> active_suspension e = sn_suspension e"
  by (auto simp: well_suspended_def active_suspension_def split: option.split)

lemma agent_suspended_iff: "well_suspended e \<Longrightarrow> agent_suspended a e = (a \<in> set (suspended_agents e))"
  by (auto simp: agent_suspended_def suspended_agents_def well_suspended_def agents_ok_def js_trim_def split: option.split)

lemma stored_after_sync:
  assumes "well_suspended e"
  shows "stored_agents (sn_session (syncSessionSuspensionSnapshot e)) = suspended_agents e"
proof -
  define e' where "e' = e\<lparr>sn_session := odel (sn_session e) ''halt''\<rparr>"
  have e': "active_suspension e' = sn_suspension e" "suspended_agents e' = suspended_agents e"
    using assms active_when_well [OF assms] by (simp_all add: e'_def active_suspension_def suspended_agents_def)
  show ?thesis
  proof (cases "buildSessionSuspensionSnapshot e'")
    case None
    then have "sn_suspension e = None" using e' by (simp add: buildSessionSuspensionSnapshot_def Let_def split: if_splits)
    then show ?thesis using None
      by (simp add: syncSessionSuspensionSnapshot_def Let_def e'_def [symmetric] stored_agents_def stored_snapshot_def or_null_def suspended_agents_def)
  next
    case (Some snapshot)
    then have snapshot: "pget snapshot ''active'' = JBool (sn_suspension e \<noteq> None)"
        "pget snapshot ''suspendedAgentIDs'' = ids_val (case sn_suspension e of None \<Rightarrow> [] | Some x \<Rightarrow> su_agents x)" "truthy snapshot"
      using e' by (auto simp: buildSessionSuspensionSnapshot_def Let_def split: if_splits)
    have "agents_ok (suspended_agents e)" using assms by (simp add: well_suspended_def)
    with snapshot Some show ?thesis
      by (auto simp: syncSessionSuspensionSnapshot_def Let_def e'_def [symmetric] stored_agents_def stored_snapshot_def suspended_agents_def split: option.split)
  qed
qed

lemma in_step_sync: "well_suspended e \<Longrightarrow> in_step (syncSessionSuspensionSnapshot e)"
  by (simp add: in_step_def stored_after_sync)

lemma in_step_well [dest]: "in_step e \<Longrightarrow> well_suspended e"
  by (simp add: in_step_def)

section \<open>What every operation does to the suspended agents\<close>

lemma suspend_session_step:
  assumes "well_suspended e"
  shows "in_step (suspend_session_entry now options e)"
    "suspended_agents (suspend_session_entry now options e) = push_all (suspended_agents e) (normalizeSuspendedAgentIDs (pget options ''agentIDs''))"
proof -
  have "suspended_agents e = (case sn_suspension e of None \<Rightarrow> [] | Some s \<Rightarrow> su_agents s)" by (simp add: suspended_agents_def)
  moreover have "agents_ok (suspended_agents e)" using assms by (simp add: well_suspended_def)
  ultimately show "in_step (suspend_session_entry now options e)"
    "suspended_agents (suspend_session_entry now options e) = push_all (suspended_agents e) (normalizeSuspendedAgentIDs (pget options ''agentIDs''))"
    using assms unfolding suspend_session_entry_def Let_def
    by (auto intro!: in_step_sync agents_okI simp: well_suspended_def suspended_agents_def active_suspension_def split: option.splits)
qed

lemma suspend_agent_step:
  assumes "well_suspended e" "js_trim a \<noteq> []"
  shows "in_step (suspend_agent_entry now a e)" "suspended_agents (suspend_agent_entry now a e) = push_new (suspended_agents e) a"
  using assms unfolding suspend_agent_entry_def Let_def
  by (auto intro!: in_step_sync agents_okI simp: well_suspended_def suspended_agents_def split: option.splits)

lemma freeze_newcomer_step:
  assumes "in_step e" "js_trim a \<noteq> []"
  shows "in_step (freeze_newcomer a e)"
    "suspended_agents (freeze_newcomer a e) = (if sn_suspension e = None then [] else push_new (suspended_agents e) a)"
proof -
  have well: "well_suspended e" using assms(1) by blast
  show "in_step (freeze_newcomer a e)"
    "suspended_agents (freeze_newcomer a e) = (if sn_suspension e = None then [] else push_new (suspended_agents e) a)"
    using assms well unfolding freeze_newcomer_def active_when_well [OF well]
    by (auto intro!: in_step_sync agents_okI simp: well_suspended_def suspended_agents_def split: option.splits)
qed

lemma release_leaver_step:
  assumes "in_step e"
  shows "in_step (release_leaver a e)" "suspended_agents (release_leaver a e) = without (suspended_agents e) [a]"
  using assms unfolding release_leaver_def
  by (auto intro!: in_step_sync agents_okI simp: in_step_def well_suspended_def suspended_agents_def stored_after_sync split: option.splits)

lemma without_absent [simp]: "a \<notin> set xs \<Longrightarrow> without xs [a] = xs"
  by (auto simp: without_def intro: filter_True)

lemma resume_agent_step:
  assumes "in_step e"
  shows "in_step (snd (resume_agent_entry platform a e))"
    "suspended_agents (snd (resume_agent_entry platform a e)) = without (suspended_agents e) [a]"
    "fst (resume_agent_entry platform a e) = (a \<in> set (suspended_agents e))"
proof -
  have well: "well_suspended e" and stored: "stored_agents (sn_session e) = suspended_agents e" using assms by (auto simp: in_step_def)
  have blank: "[] \<notin> set (suspended_agents e)" using well by (auto simp: well_suspended_def agents_ok_def js_trim_def)
  show "in_step (snd (resume_agent_entry platform a e))"
    "suspended_agents (snd (resume_agent_entry platform a e)) = without (suspended_agents e) [a]"
    "fst (resume_agent_entry platform a e) = (a \<in> set (suspended_agents e))"
    using well stored blank unfolding resume_agent_entry_def Let_def
    by (auto intro!: agents_okI simp: well_suspended_def suspended_agents_def in_step_def stored_after_sync split: option.splits if_splits)
qed

lemma consume_warning_step:
  assumes "in_step e"
  shows "in_step (snd (consume_warning_entry platform options a e))"
    "suspended_agents (snd (consume_warning_entry platform options a e)) = suspended_agents e"
proof -
  have well: "well_suspended e" and stored: "stored_agents (sn_session e) = suspended_agents e" using assms by (auto simp: in_step_def)
  show "in_step (snd (consume_warning_entry platform options a e))"
    "suspended_agents (snd (consume_warning_entry platform options a e)) = suspended_agents e"
    using well stored unfolding consume_warning_entry_def Let_def active_when_well [OF well]
    by (auto intro!: agents_okI simp: well_suspended_def suspended_agents_def in_step_def stored_after_sync split: option.splits if_splits)
qed

lemma resume_all_step:
  "in_step e \<Longrightarrow> in_step (foldl (\<lambda>e a. snd (resume_agent_entry platform a e)) e ids) \<and>
     suspended_agents (foldl (\<lambda>e a. snd (resume_agent_entry platform a e)) e ids) = without (suspended_agents e) ids"
proof (induction ids arbitrary: e)
  case (Cons a ids)
  have "without (without xs [a]) ids = without xs (a # ids)" for xs :: "string list" by (simp add: without_def conj_commute)
  with Cons resume_agent_step [OF Cons.prems] show ?case by simp
qed (simp add: without_def)

lemma record_resumes_step:
  assumes "in_step e"
  shows "in_step (snd (record_resumes platform new_id name_of now sessionID agentIDs options e))"
    "suspended_agents (snd (record_resumes platform new_id name_of now sessionID agentIDs options e)) =
       without (suspended_agents e) (normalizeSuspendedAgentIDs agentIDs)"
proof -
  let ?ids = "filter (\<lambda>a. a \<in> set (suspended_agents e)) (normalizeSuspendedAgentIDs agentIDs)"
  have well: "well_suspended e" using assms by blast
  have same: "without (suspended_agents e) ?ids = without (suspended_agents e) (normalizeSuspendedAgentIDs agentIDs)"
    by (auto simp: without_def intro!: filter_cong)
  have none: "?ids = [] \<Longrightarrow> without (suspended_agents e) (normalizeSuspendedAgentIDs agentIDs) = suspended_agents e"
    using same by (simp add: without_def)
  have idle: "sn_suspension e = None \<Longrightarrow> suspended_agents e = []" by (simp add: suspended_agents_def)
  show "in_step (snd (record_resumes platform new_id name_of now sessionID agentIDs options e))"
    "suspended_agents (snd (record_resumes platform new_id name_of now sessionID agentIDs options e)) =
       without (suspended_agents e) (normalizeSuspendedAgentIDs agentIDs)"
    using assms resume_all_step [OF assms, of platform ?ids] same none idle in_step_sync
    unfolding record_resumes_def Let_def active_when_well [OF well] suspended_agents_def [symmetric]
    by (auto simp: without_def suspended_agents_def split: option.split)
qed

section \<open>Loading\<close>

text \<open>The frames a load reads as markers of a suspension or a resume, and a list of frames that holds none.\<close>

definition suspension_marker :: "jsval \<Rightarrow> bool" where
  "suspension_marker f = (pget f ''authorType'' = JStr ''system'' \<and>
     pget f ''authorID'' \<in> {JStr SESSION_SUSPEND_AUTHOR_ID, JStr LEGACY_SESSION_SUSPEND_AUTHOR_ID, JStr SESSION_RESUME_AUTHOR_ID})"

definition no_markers :: "jsval \<Rightarrow> bool" where
  "no_markers frames = (\<forall>f\<in>set (arr_of frames). \<not> suspension_marker f)"

text \<open>
  Frames without a halt of the old form, after which a load takes a frame of an agent, or of a user, for a resume. The agents the resume
  markers among some frames name.
\<close>

definition modern_frames :: "jsval \<Rightarrow> bool" where
  "modern_frames frames = (\<forall>f\<in>set (arr_of frames). suspension_marker f \<longrightarrow> pget f ''authorID'' = JStr SESSION_RESUME_AUTHOR_ID \<or>
     pget f ''authorID'' = JStr SESSION_SUSPEND_AUTHOR_ID \<and> pget (pget f ''content'') ''kind'' = JStr ''session-suspend'')"

definition marker_lifts :: "jsval \<Rightarrow> string list" where
  "marker_lifts f = (if pget f ''authorType'' = JStr ''system'' \<and> pget f ''authorID'' = JStr SESSION_RESUME_AUTHOR_ID
     then agent_key (normalizeOptional (pget (pget f ''content'') ''resumedAgentID'')) else [])"

definition lifted_by :: "jsval \<Rightarrow> string list" where
  "lifted_by frames = concat (map marker_lifts (arr_of frames))"

lemma replay_no_markers: "no_markers frames \<Longrightarrow> \<not> rp_legacy st \<Longrightarrow> replaySuspensionFrames st frames = st"
proof -
  have "\<forall>f\<in>set fs. \<not> suspension_marker f \<Longrightarrow> \<not> rp_legacy st \<Longrightarrow> foldl applySuspensionFrame st fs = st" for fs
    by (induction fs) (simp_all add: applySuspensionFrame_def suspension_marker_def Let_def)
  then show "no_markers frames \<Longrightarrow> \<not> rp_legacy st \<Longrightarrow> replaySuspensionFrames st frames = st"
    by (simp add: no_markers_def replaySuspensionFrames_def)
qed

lemma no_markers_modern: "no_markers frames \<Longrightarrow> modern_frames frames \<and> lifted_by frames = []"
  by (auto simp: no_markers_def modern_frames_def lifted_by_def marker_lifts_def suspension_marker_def)

lemma resume_suspended_simps [simp]:
  "rp_suspended (resumeSuspendedAgent v st) = (if truthy v then without (rp_suspended st) (agent_key v) else rp_suspended st)"
  "rp_legacy (resumeSuspendedAgent v st) = rp_legacy st"
  by (simp_all add: resumeSuspendedAgent_def Let_def)

lemma apply_frame_ok: "agents_ok (rp_suspended st) \<Longrightarrow> agents_ok (rp_suspended (applySuspensionFrame st f))"
  by (simp add: applySuspensionFrame_def Let_def agents_okI)

lemma replay_ok: "agents_ok (rp_suspended st) \<Longrightarrow> agents_ok (rp_suspended (replaySuspensionFrames st frames))"
proof -
  have "agents_ok (rp_suspended st) \<Longrightarrow> agents_ok (rp_suspended (foldl applySuspensionFrame st fs))" for fs
    by (induction fs arbitrary: st) (simp_all add: apply_frame_ok)
  then show "agents_ok (rp_suspended st) \<Longrightarrow> agents_ok (rp_suspended (replaySuspensionFrames st frames))"
    by (simp add: replaySuspensionFrames_def)
qed

lemma apply_frame_keeps:
  assumes "\<not> rp_legacy st" "modern_frames (JArr [f])"
  shows "\<not> rp_legacy (applySuspensionFrame st f)"
    "set (rp_suspended st) \<subseteq> set (rp_suspended (applySuspensionFrame st f)) \<union> set (marker_lifts f)"
  using assms by (auto simp: applySuspensionFrame_def modern_frames_def suspension_marker_def marker_lifts_def Let_def
      SESSION_SUSPEND_AUTHOR_ID_def SESSION_RESUME_AUTHOR_ID_def LEGACY_SESSION_SUSPEND_AUTHOR_ID_def split: if_splits)

lemma replay_keeps:
  assumes "\<not> rp_legacy st" "modern_frames frames"
  shows "set (rp_suspended st) \<subseteq> set (rp_suspended (replaySuspensionFrames st frames)) \<union> set (lifted_by frames)"
proof -
  have "\<not> rp_legacy st \<Longrightarrow> modern_frames (JArr fs) \<Longrightarrow>
      set (rp_suspended st) \<subseteq> set (rp_suspended (foldl applySuspensionFrame st fs)) \<union> set (concat (map marker_lifts fs))" for fs
  proof (induction fs arbitrary: st)
    case (Cons f fs)
    then have "modern_frames (JArr [f])" "modern_frames (JArr fs)" by (simp_all add: modern_frames_def)
    with Cons.prems(1) apply_frame_keeps [of st f] Cons.IH [of "applySuspensionFrame st f"] show ?case by auto
  qed simp
  moreover have "modern_frames (JArr (arr_of frames))" using assms(2) by (simp add: modern_frames_def)
  ultimately show ?thesis using assms(1) by (simp add: replaySuspensionFrames_def lifted_by_def)
qed

text \<open>What a load does with the suspended agents, for any frames, for frames of the present form, and for frames without markers.\<close>

lemma restored_agents:
  "suspended_agents (restore_entry platform now frames e) =
     rp_suspended (replaySuspensionFrames (createSuspensionReplayState (stored_snapshot (sn_session e)) (sn_session e)) frames)"
  by (simp add: restore_entry_def buildHydratedSuspension_def suspended_agents_def Let_def)

lemma replay_start:
  "rp_suspended (createSuspensionReplayState (stored_snapshot session) session) = stored_agents session"
  "\<not> rp_legacy (createSuspensionReplayState (stored_snapshot session) session)" "agents_ok (stored_agents session)"
  by (auto simp: createSuspensionReplayState_def stored_agents_def Let_def)

lemma restore_in_step: "in_step (restore_entry platform now frames e)"
proof -
  have "agents_ok (suspended_agents (restore_entry platform now frames e))" by (simp add: restored_agents replay_ok replay_start)
  moreover have "sn_suspension (restore_entry platform now frames e) = Some s \<Longrightarrow> su_active s" for s
    by (auto simp: restore_entry_def buildHydratedSuspension_def Let_def split: if_splits)
  ultimately have "well_suspended (restore_entry platform now frames e)" by (simp add: well_suspended_def)
  then show ?thesis unfolding restore_entry_def by (auto intro!: in_step_sync split: prod.split)
qed

lemma restore_keeps:
  "modern_frames frames \<Longrightarrow> set (stored_agents (sn_session e)) \<subseteq> set (suspended_agents (restore_entry platform now frames e)) \<union> set (lifted_by frames)"
  using replay_keeps [OF replay_start(2), of frames] by (simp add: restored_agents replay_start)

lemma hydrate_suspended:
  assumes "no_markers frames"
  shows "suspended_agents (restore_entry platform now frames e) = stored_agents (sn_session e)"
  using replay_no_markers [OF assms replay_start(2)] by (simp add: restored_agents replay_start)

section \<open>Runs\<close>

text \<open>
  One operation on the entry, with the agents it resumes or takes out of the session. A load starts from a new entry over the stored session,
  the queued save done, or from the entry that is there when its frames were not loaded with it; it lifts the suspension of the agents named by
  the resume markers it finds. Loads that find a halt of the old form are left out.
\<close>

definition new_entry :: "jsobj \<Rightarrow> session_entry" where
  "new_entry session = \<lparr>sn_session = session, sn_suspension = None, sn_pending = [], sn_warned = [], sn_cancelled = [], sn_running = [],
     sn_activeRuns = 0, sn_framesLoaded = True\<rparr>"

inductive entry_step :: "session_entry \<Rightarrow> string list \<Rightarrow> session_entry \<Rightarrow> bool" where
  suspend_all: "entry_step e [] (suspend_session_entry now options e)"
| suspend_one: "js_trim a \<noteq> [] \<Longrightarrow> entry_step e [] (suspend_agent_entry now a e)"
| resume_one: "entry_step e [a] (snd (resume_agent_entry platform a e))"
| resume_recorded:
    "entry_step e (normalizeSuspendedAgentIDs agentIDs) (snd (record_resumes platform new_id name_of now sessionID agentIDs options e))"
| warn: "entry_step e [] (snd (consume_warning_entry platform options a e))"
| join: "js_trim a \<noteq> [] \<Longrightarrow> entry_step e [] (freeze_newcomer a e)"
| leave: "entry_step e [a] (release_leaver a e)"
| load: "modern_frames frames \<Longrightarrow> entry_step e (lifted_by frames) (restore_entry platform now frames (new_entry (sn_session e)))"
| load_frames: "modern_frames frames \<Longrightarrow> entry_step e (lifted_by frames) (restore_entry platform now frames e \<lparr>sn_framesLoaded := True\<rparr>)"

inductive entry_run :: "session_entry \<Rightarrow> string list \<Rightarrow> session_entry \<Rightarrow> bool" where
  stay: "entry_run e [] e"
| go_on: "entry_run e resumed e' \<Longrightarrow> entry_step e' more_resumed e'' \<Longrightarrow> entry_run e (resumed @ more_resumed) e''"

inductive_cases entry_stepE: "entry_step e resumed e'"

definition fresh_entry :: "session_entry \<Rightarrow> bool" where
  "fresh_entry e = (sn_suspension e = None \<and> oget (sn_session e) ''suspension'' = Undefined \<and> oget (sn_session e) ''halt'' = Undefined)"

lemma fresh_in_step: "fresh_entry e \<Longrightarrow> in_step e"
  by (simp add: fresh_entry_def in_step_def well_suspended_def suspended_agents_def stored_agents_def stored_snapshot_def or_null_def)

lemma entry_step_facts:
  assumes "entry_step e resumed e'" "in_step e"
  shows "in_step e' \<and> set (suspended_agents e) \<subseteq> set (suspended_agents e') \<union> set resumed"
  using assms
proof (cases rule: entry_step.cases)
  case (join a)
  have "sn_suspension e = None \<Longrightarrow> suspended_agents e = []" by (simp add: suspended_agents_def)
  then show ?thesis using join freeze_newcomer_step [OF assms(2), of a] by auto
next
  case (load frames platform now)
  then show ?thesis using assms(2) restore_in_step restore_keeps [OF load(3), of "new_entry (sn_session e)"]
    by (auto simp: in_step_def new_entry_def)
next
  case (load_frames frames platform now)
  have same: "in_step (x\<lparr>sn_framesLoaded := True\<rparr>) = in_step x" "suspended_agents (x\<lparr>sn_framesLoaded := True\<rparr>) = suspended_agents x" for x
    by (simp_all add: in_step_def well_suspended_def suspended_agents_def)
  show ?thesis using load_frames assms(2) restore_in_step restore_keeps [OF load_frames(3), of e] by (auto simp: in_step_def [of e] same)
next
  case (resume_recorded agentIDs platform new_id name_of now sessionID options)
  then show ?thesis using assms(2) record_resumes_step by auto
qed (use assms(2) in \<open>auto simp: suspend_session_step suspend_agent_step resume_agent_step release_leaver_step consume_warning_step in_step_well\<close>)

lemma entry_run_facts:
  "entry_run e resumed e' \<Longrightarrow> in_step e \<Longrightarrow> in_step e' \<and> set (suspended_agents e) \<subseteq> set (suspended_agents e') \<union> set resumed"
proof (induction rule: entry_run.induct)
  case (go_on e resumed e' more_resumed e'')
  with entry_step_facts [OF go_on.hyps(2)] show ?case by auto
qed simp

section \<open>A suspension lasts until it is lifted\<close>



section \<open>One warning for each resume\<close>

lemma map_of_resume [simp]: "map_of (AList.update k v m) k = Some v" "map_of (AList.delete k m) k = None"
  by (simp_all add: alist_simps)

lemma consume_cleared:
  assumes "active_suspension e = None" "map_of (sn_pending e) a = Some w" "a \<noteq> []"
  shows "fst (consume_warning_entry platform options a e) = Some w"
    "fst (consume_warning_entry platform options' a (snd (consume_warning_entry platform options a e))) = None"
  using assms by (simp_all add: consume_warning_entry_def Let_def) (simp add: active_suspension_def)

lemma consume_active:
  assumes "active_suspension e = Some s" "a \<noteq> []" "JStr a \<noteq> su_coordinatorAgentID s" "pget options ''isCoordinator'' \<noteq> JBool True"
    "pget options' ''isCoordinator'' \<noteq> JBool True" "a \<notin> set (su_warned s)"
  shows "fst (consume_warning_entry platform options a e) \<noteq> None"
    "fst (consume_warning_entry platform options' a (snd (consume_warning_entry platform options a e))) = None"
proof -
  have "su_active s" using assms(1) by (auto simp: active_suspension_def split: option.splits if_splits)
  then show "fst (consume_warning_entry platform options a e) \<noteq> None"
    "fst (consume_warning_entry platform options' a (snd (consume_warning_entry platform options a e))) = None"
    using assms by (simp_all add: consume_warning_entry_def Let_def) (simp add: active_suspension_def)
qed

text \<open>
  When an agent other than the coordinator is resumed, the next request for its warning gives one and the request
  after that gives none, whether or not other agents are still suspended; and after the resume the agent is neither suspended nor cancelled.
\<close>

theorem resumed_agent_is_warned_once:
  assumes "fresh_entry e0" "entry_run e0 before e" "resume_agent_entry platform a e = (True, e')"
    "JStr a \<noteq> (case active_suspension e of None \<Rightarrow> Null | Some s \<Rightarrow> su_coordinatorAgentID s)"
    "pget options ''isCoordinator'' \<noteq> JBool True"
  shows "fst (consume_warning_entry platform options a e') \<noteq> None \<and>
     fst (consume_warning_entry platform options a (snd (consume_warning_entry platform options a e'))) = None \<and>
     \<not> agent_suspended a e' \<and> a \<notin> set (sn_cancelled e')"
proof -
  have e: "in_step e" using entry_run_facts [OF assms(2) fresh_in_step [OF assms(1)]] by blast
  then have well: "well_suspended e" by blast
  obtain s where s: "sn_suspension e = Some s" "su_active s" "a \<in> set (su_agents s)" "a \<noteq> []"
    using assms(3) well by (auto simp: resume_agent_entry_def Let_def well_suspended_def split: option.splits if_splits)
  have e': "in_step e'" "suspended_agents e' = without (suspended_agents e) [a]"
    using resume_agent_step [OF e, of platform a] assms(3) by simp_all
  then have gone: "\<not> agent_suspended a e'" by (simp add: agent_suspended_iff in_step_well)
  have pending: "map_of (sn_pending e') a \<noteq> None" and cancelled: "a \<notin> set (sn_cancelled e')"
    using assms(3) s by (auto simp: resume_agent_entry_def Let_def split: if_splits)
  have "fst (consume_warning_entry platform options a e') \<noteq> None \<and>
     fst (consume_warning_entry platform options a (snd (consume_warning_entry platform options a e'))) = None"
  proof (cases "active_suspension e'")
    case None
    then show ?thesis using pending s(4) consume_cleared [OF None] by auto
  next
    case (Some s')
    then have "su_warned s' = without (su_warned s) [a]" "su_coordinatorAgentID s' = su_coordinatorAgentID s"
      using assms(3) s by (auto simp: resume_agent_entry_def active_suspension_def Let_def split: if_splits)
    then show ?thesis using consume_active [OF Some s(4)] assms(4,5) s(1) active_when_well [OF well] by auto
  qed
  with gone cancelled show ?thesis by blast
qed

section \<open>Witnesses and markers that outlive a change\<close>

definition empty_entry :: session_entry where
  "empty_entry = new_entry []"

lemma empty_entry_session [simp]: "sn_session empty_entry = []" "sn_suspension empty_entry = None" "sn_warned empty_entry = []"
  by (simp_all add: empty_entry_def new_entry_def)

definition halted_entry :: session_entry where
  "halted_entry = suspend_agent_entry Null ''a'' empty_entry"

lemma halted_run: "fresh_entry empty_entry" "entry_run empty_entry [] halted_entry"
proof -
  show "fresh_entry empty_entry" by (simp add: fresh_entry_def)
  have "entry_step empty_entry [] halted_entry"
    unfolding halted_entry_def by (rule suspend_one) (simp add: js_trim_def js_space_def)
  from go_on [OF stay this] show "entry_run empty_entry [] halted_entry" by simp
qed

lemma halted_suspended: "agent_suspended ''a'' halted_entry"
  by (simp add: agent_suspended_def halted_entry_def suspend_agent_entry_def empty_entry_def Let_def active_suspension_def push_new_def)


text \<open>Among the frames of the load are those of a person and the notice the system writes when a participant is removed.\<close>

definition plain_frames :: jsval where
  "plain_frames = JArr [JObj [(''authorType'', JStr ''user'')],
     JObj [(''type'', JStr ''SystemNotice''), (''authorType'', JStr ''system''), (''authorID'', JStr ''internal:session-participant'')]]"


lemma resumed_agent_is_warned_once_witness:
  "fst (consume_warning_entry ''linux'' Null ''a'' (snd (resume_agent_entry ''linux'' ''a'' halted_entry))) \<noteq> None"
proof -
  have "active_suspension halted_entry \<noteq> None" "map_option su_coordinatorAgentID (active_suspension halted_entry) = Some Null"
    "fst (resume_agent_entry ''linux'' ''a'' halted_entry)"
    by code_simp+
  then show ?thesis
    using resumed_agent_is_warned_once [OF halted_run, of "''linux''" "''a''" "snd (resume_agent_entry ''linux'' ''a'' halted_entry)" Null]
    by (cases "resume_agent_entry ''linux'' ''a'' halted_entry") auto
qed

text \<open>
  A marker among the loaded frames is applied again although the snapshot is newer: the frame of an earlier resume lifts a suspension that
  wrote no frame, as those of a coordinator's halt, and the frame of an earlier suspension renews one lifted without a frame.
\<close>

definition old_suspend_frame :: jsval where
  "old_suspend_frame = JObj [(''authorType'', JStr ''system''), (''authorID'', JStr SESSION_SUSPEND_AUTHOR_ID),
     (''content'', JObj [(''kind'', JStr ''session-suspend''), (''suspendedAgentIDs'', JArr [JStr ''a''])])]"

lemma old_resume_frame_lifts_newer_halt:
  "\<not> agent_suspended ''a'' (restore_entry ''linux'' Null (JArr [createResumeFrame Null ''s'' ''a'' [] (JStr ''resume'') Null])
     (empty_entry\<lparr>sn_session := sn_session halted_entry\<rparr>))"
  by code_simp

lemma old_suspend_frame_renews_lifted_suspension:
  "let lifted = snd (resume_agent_entry ''linux'' ''a'' halted_entry)
   in \<not> agent_suspended ''a'' lifted \<and>
      agent_suspended ''a'' (restore_entry ''linux'' Null (JArr [old_suspend_frame]) (empty_entry\<lparr>sn_session := sn_session lifted\<rparr>))"
  by code_simp

text \<open>Removing the last suspended agent leaves a suspension that holds nobody, into which the next newcomer is frozen.\<close>

lemma leaver_leaves_empty_suspension:
  "let e = release_leaver ''a'' halted_entry
   in active_suspension e \<noteq> None \<and> suspended_agents e = [] \<and> agent_suspended ''b'' (freeze_newcomer ''b'' e)"
  by code_simp

text \<open>A warning rebuilt on a load never speaks of the restart, whatever is suspended.\<close>

lemma rebuilt_warning_omits_restart:
  "(a, w) \<in> set (fst (snd (buildHydratedSuspension platform now session snapshot frames))) \<Longrightarrow>
     \<exists>isCoordinator ids. wn_message w = buildSuspensionWarning isCoordinator ids platform False"
proof -
  assume "(a, w) \<in> set (fst (snd (buildHydratedSuspension platform now session snapshot frames)))"
  then obtain st where "w = buildPendingSuspensionWarning platform session st a" by (auto simp: buildHydratedSuspension_def Let_def)
  then show ?thesis by (metis (no_types) buildPendingSuspensionWarning_def warning.select_convs(1))
qed

end
