(* ===== verification/SessionLoading.thy ===== *)
theory SessionLoading
  imports SessionSuspension
begin

text \<open>
  The sessions held in memory: \<open>ensureSessionEntry\<close> and \<open>requireSessionEntry\<close> of \<open>src/core/runtime/frame-runtime-sessions.mjs\<close> and the pins
  and evictions of \<open>frame-runtime.mjs\<close>. The loaded sessions are a list in the order of the map, the least recently used first. What the store
  answers is an argument, nothing where it throws. The limit is a positive number, as the constructor demands. The
  frame engine, the store's listener and the message counts of the manifest are left out.
\<close>

section \<open>Pins and evictions\<close>

definition touchSession :: "string \<Rightarrow> sessions \<Rightarrow> sessions" where
  "touchSession k rt = (case map_of rt k of None \<Rightarrow> rt | Some e \<Rightarrow> AList.delete k rt @ [(k, e)])"

definition evictSession :: "string \<Rightarrow> sessions \<Rightarrow> bool \<times> sessions" where
  "evictSession k rt = (case map_of rt k of None \<Rightarrow> (False, rt) | Some _ \<Rightarrow> (True, AList.delete k rt))"

lemma delete_absent: "k \<notin> fst ` set rt \<Longrightarrow> AList.delete k rt = rt"
  by (auto simp: AList.delete_eq image_iff intro!: filter_True)

lemma evict_runtime [simp]: "snd (evictSession k rt) = AList.delete k rt"
  by (auto simp: evictSession_def map_of_eq_None_iff delete_absent split: option.split)

definition idle_entry :: "string \<times> session_entry \<Rightarrow> bool" where
  "idle_entry x = (sn_activeRuns (snd x) = 0)"

lemma find_idle_in: "List.find idle_entry rt = Some x \<Longrightarrow> x \<in> set rt \<and> idle_entry x"
  by (metis find_Some_iff nth_mem)

text \<open>Above the limit the first session that nothing pins is dropped, until the limit holds or every session is pinned.\<close>

function evictOverflowSessionRuntimes :: "nat \<Rightarrow> sessions \<Rightarrow> sessions" where
  "evictOverflowSessionRuntimes limit rt =
     (if length rt \<le> limit then rt
      else case List.find idle_entry rt of None \<Rightarrow> rt | Some victim \<Rightarrow> evictOverflowSessionRuntimes limit (snd (evictSession (fst victim) rt)))"
  by pat_completeness auto
termination
proof (relation "measure (length \<circ> snd)")
  fix limit :: nat and rt :: sessions and victim
  assume "List.find idle_entry rt = Some victim"
  then have "victim \<in> set rt" by (simp add: find_idle_in)
  then have "length (AList.delete (fst victim) rt) < length rt" by (auto simp: AList.delete_eq intro!: length_filter_less)
  then show "((limit, snd (evictSession (fst victim) rt)), limit, rt) \<in> measure (length \<circ> snd)" by simp
qed simp

declare evictOverflowSessionRuntimes.simps [simp del]

text \<open>The same loop with the number of rounds as an argument, by which it is evaluated.\<close>

fun evict_rounds :: "nat \<Rightarrow> nat \<Rightarrow> sessions \<Rightarrow> sessions" where
  "evict_rounds 0 limit rt = rt"
| "evict_rounds (Suc n) limit rt =
     (if length rt \<le> limit then rt
      else case List.find idle_entry rt of None \<Rightarrow> rt | Some victim \<Rightarrow> evict_rounds n limit (snd (evictSession (fst victim) rt)))"

lemma evict_rounds_enough: "length rt \<le> n \<Longrightarrow> evict_rounds n limit rt = evictOverflowSessionRuntimes limit rt"
proof (induction n arbitrary: rt)
  case (Suc n)
  have "evict_rounds n limit (snd (evictSession (fst v) rt)) = evictOverflowSessionRuntimes limit (snd (evictSession (fst v) rt))"
    if "List.find idle_entry rt = Some v" for v
  proof (rule Suc.IH)
    have "v \<in> set rt" using that by (simp add: find_idle_in)
    then have "length (AList.delete (fst v) rt) < length rt" by (auto simp: AList.delete_eq intro!: length_filter_less)
    then show "length (snd (evictSession (fst v) rt)) \<le> n" using Suc.prems by simp
  qed
  then show ?case by (subst evictOverflowSessionRuntimes.simps) (auto split: option.split)
qed (subst evictOverflowSessionRuntimes.simps, simp)

lemma evict_code [code]: "evictOverflowSessionRuntimes limit rt = evict_rounds (length rt) limit rt"
  by (simp add: evict_rounds_enough)

definition pinSession :: "string \<Rightarrow> sessions \<Rightarrow> session_entry option \<times> sessions" where
  "pinSession k rt =
     (case map_of rt k of
        None \<Rightarrow> (None, rt)
      | Some e \<Rightarrow> let e' = e\<lparr>sn_activeRuns := sn_activeRuns e + 1\<rparr> in (Some e', touchSession k (AList.update k e' rt)))"

definition unpinSession :: "nat \<Rightarrow> string \<Rightarrow> sessions \<Rightarrow> session_entry option \<times> sessions" where
  "unpinSession limit k rt =
     (case map_of rt k of
        None \<Rightarrow> (None, rt)
      | Some e \<Rightarrow> let e' = e\<lparr>sn_activeRuns := sn_activeRuns e - 1\<rparr> in (Some e', evictOverflowSessionRuntimes limit (AList.update k e' rt)))"

section \<open>Loading\<close>

record loading =
  ld_limit :: nat
  ld_session :: "string \<Rightarrow> jsobj option"
  ld_frames :: "string \<Rightarrow> jsval option"
  ld_platform :: string
  ld_now :: jsval

definition requireSessionEntry :: "string \<Rightarrow> sessions \<Rightarrow> js_error + session_entry \<times> sessions" where
  "requireSessionEntry k rt =
     (case map_of rt k of None \<Rightarrow> Inl (GenericError (''Unknown session: '' @ k)) | Some e \<Rightarrow> Inr (e, touchSession k rt))"

text \<open>The entry answered and the sessions after the load; nothing where the code throws. The frames are asked for with the default limit.\<close>

definition ensureSessionEntry_runtime :: "loading \<Rightarrow> string \<Rightarrow> sessions \<Rightarrow> (session_entry \<times> sessions) option" where
  "ensureSessionEntry_runtime ld k rt =
     (case map_of rt k of
        Some e \<Rightarrow>
          if sn_framesLoaded e then Some (e, touchSession k rt)
          else (case ld_frames ld k of
                  None \<Rightarrow> None
                | Some frames \<Rightarrow>
                    let e' = restore_entry (ld_platform ld) (ld_now ld) frames e \<lparr>sn_framesLoaded := True\<rparr>
                    in Some (e', touchSession k (AList.update k e' rt)))
      | None \<Rightarrow>
          (case ld_session ld k of
             None \<Rightarrow> None
           | Some session \<Rightarrow>
               if \<not> truthy (oget session ''id'') then None
               else (case ld_frames ld k of
                       None \<Rightarrow> None
                     | Some frames \<Rightarrow>
                         let rt' = evictOverflowSessionRuntimes (ld_limit ld) (rt @ [(k, new_entry session)])
                         in Some (restore_entry (ld_platform ld) (ld_now ld) frames (new_entry session),
                              hydrateSessionSuspension (ld_platform ld) (ld_now ld) k frames rt'))))"

section \<open>What a load does to the other sessions\<close>

lemma map_of_aupdate [simp]: "map_of (AList.update k v m) j = (if j = k then Some v else map_of m j)"
  by (simp add: alist_simps)

lemma map_of_adelete [simp]: "map_of (AList.delete k m) j = (if j = k then None else map_of m j)"
  by (simp add: alist_simps)

lemma touch_keeps [simp]: "map_of (touchSession k rt) j = map_of rt j"
  by (auto simp: touchSession_def map_add_def split: option.split)

lemma evict_others: "map_of (evictOverflowSessionRuntimes limit rt) j \<in> {map_of rt j, None}"
proof (induction limit rt rule: evictOverflowSessionRuntimes.induct)
  case (1 limit rt)
  then show ?case
    by (subst evictOverflowSessionRuntimes.simps) (auto split: option.split if_splits)
qed

lemma hydrate_others [simp]: "map_of (hydrateSessionSuspension platform now k frames rt) j =
    (if j = k then map_option (restore_entry platform now frames) (map_of rt k) else map_of rt j)"
  by (simp add: hydrateSessionSuspension_def split: option.split)

lemma restore_reads [simp]:
  "sn_activeRuns (restore_entry platform now frames e) = sn_activeRuns e"
  "sn_framesLoaded (restore_entry platform now frames e) = sn_framesLoaded e"
  by (simp_all add: restore_entry_def split: prod.split)

lemma ensure_others:
  assumes "ensureSessionEntry_runtime ld k rt = Some (e, rt')" "j \<noteq> k"
  shows "map_of rt' j \<in> {map_of rt j, None}"
proof (cases "map_of rt k")
  case (Some e0)
  then show ?thesis using assms by (auto simp: ensureSessionEntry_runtime_def Let_def split: if_splits option.splits)
next
  case None
  then obtain session where "map_of rt' j = map_of (evictOverflowSessionRuntimes (ld_limit ld) (rt @ [(k, new_entry session)])) j"
    using assms by (auto simp: ensureSessionEntry_runtime_def Let_def split: if_splits option.splits)
  moreover have "map_of (rt @ [(k, new_entry session)]) j = map_of rt j" using assms(2) by (simp add: map_add_def split: option.split)
  ultimately show ?thesis using evict_others [of "ld_limit ld" "rt @ [(k, new_entry session)]" j] by simp
qed

lemma ensure_itself:
  assumes "ensureSessionEntry_runtime ld k rt = Some (e, rt')"
  shows "map_of rt' k \<in> {Some e, None}"
proof (cases "map_of rt k")
  case None
  then have "map_of (rt @ [(k, new_entry session)]) k = Some (new_entry session)" for session by (simp add: map_add_def)
  then show ?thesis using assms None evict_others [of "ld_limit ld" "rt @ [(k, new_entry session)]" k for session]
    by (fastforce simp: ensureSessionEntry_runtime_def Let_def split: if_splits option.splits)
qed (use assms in \<open>auto simp: ensureSessionEntry_runtime_def Let_def split: if_splits option.splits\<close>)

text \<open>The entries a load may answer for a session, given those that were there.\<close>

definition load_result :: "loading \<Rightarrow> sessions \<Rightarrow> string \<Rightarrow> session_entry \<Rightarrow> bool" where
  "load_result ld rt k e =
     (\<exists>frames. ld_frames ld k = Some frames \<and>
        ((\<exists>e0. map_of rt k = Some e0 \<and> \<not> sn_framesLoaded e0 \<and> e = restore_entry (ld_platform ld) (ld_now ld) frames e0 \<lparr>sn_framesLoaded := True\<rparr>) \<or>
         (\<exists>session. ld_session ld k = Some session \<and> e = restore_entry (ld_platform ld) (ld_now ld) frames (new_entry session))))"

lemma ensure_answers: "ensureSessionEntry_runtime ld k rt = Some (e, rt') \<Longrightarrow> map_of rt k = Some e \<or> load_result ld rt k e"
  unfolding ensureSessionEntry_runtime_def load_result_def Let_def by (auto split: if_splits option.splits)

lemma load_result_loaded: "load_result ld rt k e \<Longrightarrow> sn_framesLoaded e"
  by (auto simp: load_result_def new_entry_def)

lemma load_result_again:
  "load_result ld rt k e \<Longrightarrow> (\<And>e0. map_of rt k = Some e0 \<Longrightarrow> map_of rt0 k = Some e0 \<or> load_result ld rt0 k e0) \<Longrightarrow> load_result ld rt0 k e"
  unfolding load_result_def [of ld rt] using load_result_loaded by (fastforce simp: load_result_def)

section \<open>The session that is loaded stays\<close>

definition pins :: "sessions \<Rightarrow> nat" where
  "pins rt = length (filter (\<lambda>x. \<not> idle_entry x) rt)"

definition has_room :: "nat \<Rightarrow> sessions \<Rightarrow> bool" where
  "has_room limit rt = (distinct (map fst rt) \<and> pins rt < limit)"

lemma pins_simps [simp]: "pins [] = 0" "pins (x # rt) = (if idle_entry x then pins rt else Suc (pins rt))" "pins (rt @ rt') = pins rt + pins rt'"
  by (simp_all add: pins_def)

lemma pins_update: "map_of rt k = Some e \<Longrightarrow> sn_activeRuns e' = sn_activeRuns e \<Longrightarrow> pins (AList.update k e' rt) = pins rt"
  by (induction rt) (auto simp: idle_entry_def)

lemma room_update: "has_room limit rt \<Longrightarrow> map_of rt k = Some e \<Longrightarrow> sn_activeRuns e' = sn_activeRuns e \<Longrightarrow> has_room limit (AList.update k e' rt)"
  by (simp add: has_room_def pins_update distinct_update)

lemma pins_delete:
  "distinct (map fst rt) \<Longrightarrow> map_of rt k = Some e \<Longrightarrow> pins rt = pins (AList.delete k rt) + (if sn_activeRuns e = 0 then 0 else 1)"
proof (induction rt)
  case (Cons x rt)
  show ?case
  proof (cases "fst x = k")
    case True
    then have "AList.delete k (x # rt) = rt" using Cons.prems(1) delete_absent [of k rt] by (cases x) auto
    then show ?thesis using True Cons.prems(2) by (cases x) (simp add: idle_entry_def)
  next
    case False
    then show ?thesis using Cons by (cases x) (simp add: idle_entry_def)
  qed
qed simp

lemma room_touch: "has_room limit rt \<Longrightarrow> has_room limit (touchSession k rt)"
proof (cases "map_of rt k")
  case (Some e)
  moreover assume room: "has_room limit rt"
  moreover have "distinct (map fst (AList.delete k rt))" using room by (simp add: has_room_def AList.distinct_delete)
  ultimately show ?thesis using pins_delete [of rt k e]
    by (auto simp: touchSession_def has_room_def idle_entry_def AList.delete_keys image_set [symmetric])
qed (simp add: touchSession_def)

lemma evict_keeps_newest:
  "has_room limit rt \<Longrightarrow> k \<notin> fst ` set rt \<Longrightarrow> \<exists>rest. evictOverflowSessionRuntimes limit (rt @ [(k, e)]) = rest @ [(k, e)] \<and> has_room limit rest \<and> k \<notin> fst ` set rest"
proof (induction "length rt" arbitrary: rt rule: less_induct)
  case less
  show ?case
  proof (cases "length rt < limit")
    case True
    then have "evictOverflowSessionRuntimes limit (rt @ [(k, e)]) = rt @ [(k, e)]" by (subst evictOverflowSessionRuntimes.simps) simp
    with less.prems show ?thesis by blast
  next
    case False
    then have "pins rt < length rt" using less.prems(1) by (simp add: has_room_def)
    then have "\<exists>x\<in>set rt. idle_entry x" by (metis filter_True less_irrefl pins_def)
    then obtain v where v: "List.find idle_entry rt = Some v" by (cases "List.find idle_entry rt") (auto simp: find_None_iff)
    then have inside: "v \<in> set rt" "idle_entry v" using find_idle_in by blast+
    have found: "List.find idle_entry (rt @ [(k, e)]) = Some v" using v by (induction rt) (auto split: if_splits)
    have other: "fst v \<noteq> k" using inside less.prems(2) by force
    let ?rt = "AList.delete (fst v) rt"
    have dist: "distinct (map fst rt)" using less.prems(1) by (simp add: has_room_def)
    have "map_of rt (fst v) = Some (snd v)" using inside dist by simp
    then have "pins ?rt = pins rt" using pins_delete [OF dist] inside(2) by (simp add: idle_entry_def)
    moreover have "distinct (map fst ?rt)" using dist by (simp add: AList.distinct_delete)
    ultimately have room: "has_room limit ?rt" using less.prems(1) by (simp add: has_room_def)
    have "length ?rt < length rt" using inside(1) by (auto simp: AList.delete_eq intro!: length_filter_less)
    moreover have "k \<notin> fst ` set ?rt" using less.prems(2) by (auto simp: AList.delete_eq)
    ultimately obtain rest where rest: "evictOverflowSessionRuntimes limit (?rt @ [(k, e)]) = rest @ [(k, e)]" "has_room limit rest" "k \<notin> fst ` set rest"
      using less.hyps [OF _ room] by blast
    have "snd (evictSession (fst v) (rt @ [(k, e)])) = ?rt @ [(k, e)]" using other by (simp add: AList.delete_eq)
    then have "evictOverflowSessionRuntimes limit (rt @ [(k, e)]) = evictOverflowSessionRuntimes limit (?rt @ [(k, e)])"
      using False found by (subst evictOverflowSessionRuntimes.simps) simp
    with rest show ?thesis by metis
  qed
qed

lemma ensure_stays:
  assumes "ensureSessionEntry_runtime ld k rt = Some (e, rt')" "has_room (ld_limit ld) rt"
  shows "map_of rt' k = Some e" "has_room (ld_limit ld) rt'"
proof -
  have "map_of rt' k = Some e \<and> has_room (ld_limit ld) rt'"
  proof (cases "map_of rt k")
    case (Some e0)
    then show ?thesis using assms room_touch room_update [OF assms(2) Some]
      by (auto simp: ensureSessionEntry_runtime_def Let_def split: if_splits option.splits)
  next
    case None
    then have new: "k \<notin> fst ` set rt" by (simp add: map_of_eq_None_iff)
    from assms(1) None obtain session frames where e: "e = restore_entry (ld_platform ld) (ld_now ld) frames (new_entry session)"
      and rt': "rt' = hydrateSessionSuspension (ld_platform ld) (ld_now ld) k frames (evictOverflowSessionRuntimes (ld_limit ld) (rt @ [(k, new_entry session)]))"
      by (auto simp: ensureSessionEntry_runtime_def Let_def split: if_splits option.splits)
    obtain rest where rest: "evictOverflowSessionRuntimes (ld_limit ld) (rt @ [(k, new_entry session)]) = rest @ [(k, new_entry session)]"
      "has_room (ld_limit ld) rest" "k \<notin> fst ` set rest"
      using evict_keeps_newest [OF assms(2) new] by blast
    have "map_of rest k = None" using rest(3) by (simp add: map_of_eq_None_iff)
    then have found: "map_of (rest @ [(k, new_entry session)]) k = Some (new_entry session)" by (simp add: map_add_def)
    have "has_room (ld_limit ld) (rest @ [(k, new_entry session)])" using rest(2,3) by (auto simp: has_room_def idle_entry_def new_entry_def)
    from room_update [OF this found] found show ?thesis
      unfolding e rt' rest(1) hydrateSessionSuspension_def by simp
  qed
  then show "map_of rt' k = Some e" "has_room (ld_limit ld) rt'" by simp_all
qed

text \<open>With every other session pinned and the limit reached, the session that is loaded is the one that is dropped.\<close>

lemma pinned_load_is_dropped:
  assumes "map_of rt k = None" "\<forall>x\<in>set rt. \<not> idle_entry x" "limit \<le> length rt"
  shows "map_of (evictOverflowSessionRuntimes limit (rt @ [(k, new_entry session)])) k = None"
proof -
  have "List.find idle_entry rt = None" using assms(2) by (simp add: find_None_iff)
  then have "List.find idle_entry (rt @ [(k, new_entry session)]) = Some (k, new_entry session)"
    by (induction rt) (auto simp: idle_entry_def new_entry_def split: if_splits)
  moreover have "map_of (evictOverflowSessionRuntimes limit (snd (evictSession k (rt @ [(k, new_entry session)])))) k = None"
    using evict_others [of limit "snd (evictSession k (rt @ [(k, new_entry session)]))" k] by simp
  ultimately show ?thesis using assms(3) by (subst evictOverflowSessionRuntimes.simps) simp
qed

end
