(* ===== verification/TreeHalt.thy ===== *)
theory TreeHalt
  imports SessionLoading CoordinatorScope SessionSubtree
begin

text \<open>
  Halting sessions: \<open>src/core/agents/coordinator-tree-halt.mjs\<close>, \<open>agent-cancellation.mjs\<close>, \<open>src/core/commands/command-target.mjs\<close>
  and \<open>cancel-command.mjs\<close>. The loaded sessions are those of \<open>SessionSuspension\<close>, and the properties take the loads of
  \<open>SessionLoading\<close>, with their evictions. What the callers inject is an argument: loading a session (nothing when that throws), the session
  listings, the agent a reference names, and the pausing of a session's commands. The manifests that are saved are part of the state; the
  store does not fail to save one.
\<close>

section \<open>Who may halt what\<close>

type_synonym loader = "string \<Rightarrow> sessions \<Rightarrow> (session_entry \<times> sessions) option"
type_synonym halt_listing = "js_error + jsval"

definition runtime_getSession :: "sessions \<Rightarrow> string \<Rightarrow> jsval" where
  "runtime_getSession rt k = (case map_of rt k of None \<Rightarrow> Null | Some e \<Rightarrow> JObj (sn_session e))"

definition loaded_listing :: "jsval \<Rightarrow> halt_listing option \<Rightarrow> halt_listing option \<Rightarrow> sessions \<Rightarrow> halt_listing" where
  "loaded_listing given listSessions runtimeList rt =
     and_then (if is_arr given then Inr given else case listSessions of None \<Rightarrow> Inr Null | Some r \<Rightarrow> r) (\<lambda>first.
       let loaded = (if truthy first then first
             else case runtimeList of None \<Rightarrow> first | Some (Inl _) \<Rightarrow> Null | Some (Inr v) \<Rightarrow> or_null v);
           cached = map (\<lambda>(_, e). JObj (sn_session e)) (filter (\<lambda>(_, e). truthy (oget (sn_session e) ''id'')) rt)
       in Inr (if loaded = JArr [] \<and> cached \<noteq> [] then JArr cached else loaded))"

definition list_by_id :: "jsobj \<Rightarrow> jsval \<Rightarrow> jsobj" where
  "list_by_id byID listed = (let k = normalizeID (pget listed ''id'') in if k = [] then byID else oset byID k listed)"

definition session_lookup :: "sessions \<Rightarrow> jsobj \<Rightarrow> string \<Rightarrow> jsval" where
  "session_lookup rt byID k = js_or (runtime_getSession rt k) (or_null (oget byID (js_trim k)))"

text \<open>The walk up from a target that is not loaded; the first argument after the loader bounds it by the depth of the chain.\<close>

fun hydrate_up :: "loader \<Rightarrow> nat \<Rightarrow> string list \<Rightarrow> string \<Rightarrow> jsobj \<Rightarrow> sessions \<Rightarrow> jsobj \<times> sessions" where
  "hydrate_up load 0 hydrated cursor byID rt = (byID, rt)"
| "hydrate_up load (Suc left) hydrated cursor byID rt =
     (if cursor = [] \<or> cursor \<in> set hydrated then (byID, rt)
      else case load cursor rt of
             None \<Rightarrow> (byID, rt)
           | Some (e, rt') \<Rightarrow> hydrate_up load left (cursor # hydrated) (parentSessionIDOf (JObj (sn_session e))) (oset byID cursor (JObj (sn_session e))) rt')"

definition halt_sources :: "loader \<Rightarrow> jsval \<Rightarrow> string \<Rightarrow> sessions \<Rightarrow> jsobj \<times> sessions" where
  "halt_sources load loaded target rt =
     (let byID = foldl list_by_id [] (arr_of loaded)
      in if truthy (session_lookup rt byID target) then (byID, rt)
         else hydrate_up load COORDINATOR_MAX_ANCESTOR_DEPTH [] target byID rt)"

record halt_scope =
  hs_allowed :: bool
  hs_reason :: string
  hs_message :: string
  hs_target :: "string option"
  hs_sessionIDs :: "string list"
  hs_refused :: "(string \<times> string) list"
  hs_ownerSessionID :: "string option"
  hs_truncated :: bool
  hs_incomplete :: bool

fun authority_text :: "authority_reason \<Rightarrow> string" where
  "authority_text BySelf = ''self''"
| "authority_text ByAncestor = ''ancestor''"
| "authority_text NotCoordinator = ''not-coordinator''"
| "authority_text UnknownSession = ''unknown-session''"

definition check_authority :: "jsval \<Rightarrow> (string \<Rightarrow> jsval) \<Rightarrow> string \<Rightarrow> authority" where
  "check_authority actor getSession sessionID = hasCoordinatorAuthority actor (JStr sessionID) Undefined (FunSource getSession) Undefined"

definition buildRefusalMessage :: "jsval \<Rightarrow> string \<Rightarrow> authority \<Rightarrow> (string \<Rightarrow> jsval) \<Rightarrow> string" where
  "buildRefusalMessage actor target authority getSession =
     (let responsible = (if au_chain authority = [] then None
            else cr_coordinatorAgentID (resolveSessionCoordinator (JStr target) (FunSource getSession) None Undefined));
          reasonText = (if au_reason authority = NotCoordinator
            then js_String actor @ '' is not the coordinator of '' @ target @ '' or of any of its ancestors.''
            else ''Authority could not be established for '' @ target @ '' ('' @ authority_text (au_reason authority) @ '').'');
          hint = (case responsible of None \<Rightarrow> [] | Some a \<Rightarrow> '' The coordinator responsible for '' @ target @ '' is '' @ a @ ''.'')
      in ''Refused: '' @ reasonText @ hint @ '' Coordinator authority flows down the session tree, so a coordinator may halt its own session and its descendants, never a parent or a sibling branch.'')"

definition refused_scope :: "string \<Rightarrow> string \<Rightarrow> string option \<Rightarrow> (string \<times> string) list \<Rightarrow> halt_scope" where
  "refused_scope reason message target refused = \<lparr>hs_allowed = False, hs_reason = reason, hs_message = message, hs_target = target,
     hs_sessionIDs = [], hs_refused = refused, hs_ownerSessionID = None, hs_truncated = False, hs_incomplete = False\<rparr>"

definition resolveHaltScope ::
  "loader \<Rightarrow> jsval \<Rightarrow> halt_listing option \<Rightarrow> halt_listing option \<Rightarrow> jsval \<Rightarrow> jsval \<Rightarrow> jsval \<Rightarrow> bool \<Rightarrow> sessions \<Rightarrow> js_error + halt_scope \<times> sessions" where
  "resolveHaltScope load given listSessions runtimeList actor targetSessionID currentSessionID includeSubtree rt =
     (let target = (if normalizeID targetSessionID \<noteq> [] then normalizeID targetSessionID else normalizeID currentSessionID)
      in if target = [] then Inr (refused_scope ''no-session'' ''No session was named and the caller has no current session.'' None [], rt)
         else and_then (loaded_listing given listSessions runtimeList rt) (\<lambda>loaded.
           case halt_sources load loaded target rt of (byID, rt') \<Rightarrow>
           let getSession = session_lookup rt' byID; authority = check_authority actor getSession target
           in Inr (
             (if \<not> truthy (getSession target)
              then refused_scope ''unknown-session'' (''Session '' @ target @ '' does not exist or is not loaded.'') (Some target) []
              else if \<not> au_allowed authority
              then refused_scope (authority_text (au_reason authority)) (buildRefusalMessage actor target authority getSession) (Some target)
                [(target, authority_text (au_reason authority))]
              else let scope = \<lparr>hs_allowed = True, hs_reason = authority_text (au_reason authority), hs_message = [], hs_target = Some target,
                     hs_sessionIDs = [target], hs_refused = [], hs_ownerSessionID = au_ownerSessionID authority, hs_truncated = False, hs_incomplete = False\<rparr>
                in if \<not> includeSubtree then scope
                else let subtree = resolveSubtreeSessionIDs (JStr target) (if is_arr loaded then ListedSessions (arr_of loaded) else NoChildren) Undefined;
                         allowed = (\<lambda>s. au_allowed (check_authority actor getSession s))
                     in scope\<lparr>hs_sessionIDs := filter allowed (st_sessionIDs subtree),
                          hs_refused := map (\<lambda>s. (s, authority_text (au_reason (check_authority actor getSession s)))) (filter (\<lambda>s. \<not> allowed s) (st_sessionIDs subtree)),
                          hs_truncated := (st_truncated subtree \<or> \<not> is_arr loaded), hs_incomplete := \<not> is_arr loaded\<rparr>), rt')))"

section \<open>The halt\<close>

type_synonym manifests = "(string \<times> jsobj) list"

record halt_state =
  ha_runtime :: sessions
  ha_saved :: manifests
  ha_refused :: "(string \<times> string) list"
  ha_cancelled :: "(string \<times> string list) list"
  ha_empty :: "string list"
  ha_commands :: "(string \<times> jsval) list"

definition suspend_options :: "jsval \<Rightarrow> jsval \<Rightarrow> jsval \<Rightarrow> jsval" where
  "suspend_options ids session reason = JObj [(''agentIDs'', ids), (''coordinatorAgentID'', or_null (pget session ''coordinatorAgentID'')),
     (''userID'', Null), (''reason'', reason)]"

definition save_manifest :: "string \<Rightarrow> sessions \<Rightarrow> manifests \<Rightarrow> manifests" where
  "save_manifest k rt saved = (case map_of rt k of None \<Rightarrow> saved | Some e \<Rightarrow> AList.update k (sn_session e) saved)"

definition halt_session :: "loader \<Rightarrow> (string \<Rightarrow> string option \<Rightarrow> jsval) \<Rightarrow> jsval \<Rightarrow> jsval \<Rightarrow> string option \<Rightarrow> halt_state \<Rightarrow> string \<Rightarrow> halt_state" where
  "halt_session load pause now reason agent st sessionID =
     (case load sessionID (ha_runtime st) of
        None \<Rightarrow> st\<lparr>ha_refused := ha_refused st @ [(sessionID, ''unloadable'')]\<rparr>
      | Some (_, rt) \<Rightarrow>
          let ids = (case agent of Some a \<Rightarrow> [a] | None \<Rightarrow> participantAgentIDsOf (runtime_getSession rt sessionID));
              rt1 = (case agent of Some a \<Rightarrow> snd (suspendAgent now sessionID a rt) | None \<Rightarrow> rt);
              rt2 = (if ids = [] then rt1 else snd (suspendSession now sessionID (suspend_options (ids_val ids) (runtime_getSession rt1 sessionID) reason) rt1))
          in case cancelAgentRuns sessionID agent rt2 of (cancelled, rt3) \<Rightarrow>
             let rt4 = snd (persistSessionSuspension sessionID rt3)
             in st\<lparr>ha_runtime := rt4, ha_saved := save_manifest sessionID rt4 (ha_saved st), ha_cancelled := ha_cancelled st @ [(sessionID, cancelled)],
               ha_empty := (if cancelled = [] then ha_empty st @ [sessionID] else ha_empty st),
               ha_commands := ha_commands st @ [(sessionID, js_or (pause sessionID agent) (JArr []))]\<rparr>)"

record halt_result =
  hr_scope :: halt_scope
  hr_cancelled :: "(string \<times> string list) list"
  hr_emptySessions :: "string list"
  hr_suspendedCommandIDs :: "(string \<times> jsval) list"
  hr_targetAgentID :: "string option"
  hr_target :: "string option"
  hr_targetError :: "string option"

fun thrown_message :: "js_error \<Rightarrow> string" where
  "thrown_message (TypeError m) = m"
| "thrown_message (GenericError m) = m"

text \<open>The agent a reference names: the id the manager answers, or what went wrong.\<close>

definition resolve_target :: "(string \<Rightarrow> js_error + string option) \<Rightarrow> jsval \<Rightarrow> string option \<times> string option \<times> string option" where
  "resolve_target resolve target =
     (let label = trim_or_empty target
      in if label = [] then (None, None, None)
         else case resolve label of
                Inr (Some (c # cs)) \<Rightarrow> (Some (c # cs), Some label, None)
              | Inr _ \<Rightarrow> (None, Some label, Some (''No agent matches '' @ label @ ''.''))
              | Inl e \<Rightarrow> (None, Some label, Some (if thrown_message e = [] then ''Could not resolve '' @ label @ ''.'' else thrown_message e)))"

text \<open>The result, the sessions loaded after the halt and the manifests it saved.\<close>

definition haltSessionTree ::
  "loader \<Rightarrow> jsval \<Rightarrow> halt_listing option \<Rightarrow> halt_listing option \<Rightarrow> (string \<Rightarrow> js_error + string option) \<Rightarrow> (string \<Rightarrow> string option \<Rightarrow> jsval) \<Rightarrow> jsval \<Rightarrow>
     jsval \<Rightarrow> jsval \<Rightarrow> jsval \<Rightarrow> bool \<Rightarrow> jsval \<Rightarrow> jsval \<Rightarrow> sessions \<Rightarrow> js_error + halt_result \<times> sessions \<times> manifests" where
  "haltSessionTree load given listSessions runtimeList resolve pause now actor targetSessionID currentSessionID includeSubtree target reason rt =
     and_then (resolveHaltScope load given listSessions runtimeList actor targetSessionID currentSessionID includeSubtree rt) (\<lambda>(scope, rt').
       if \<not> hs_allowed scope
       then Inr (\<lparr>hr_scope = scope, hr_cancelled = [], hr_emptySessions = [], hr_suspendedCommandIDs = [],
         hr_targetAgentID = None, hr_target = None, hr_targetError = None\<rparr>, rt', [])
       else case resolve_target resolve target of (agent, label, problem) \<Rightarrow>
         let st = foldl (halt_session load pause now reason agent)
               \<lparr>ha_runtime = rt', ha_saved = [], ha_refused = hs_refused scope, ha_cancelled = [], ha_empty = [], ha_commands = []\<rparr> (hs_sessionIDs scope)
         in Inr (\<lparr>hr_scope = scope\<lparr>hs_refused := ha_refused st\<rparr>, hr_cancelled = ha_cancelled st, hr_emptySessions = ha_empty st,
              hr_suspendedCommandIDs = ha_commands st, hr_targetAgentID = agent, hr_target = label, hr_targetError = problem\<rparr>, ha_runtime st, ha_saved st))"

definition plural :: "nat \<Rightarrow> string" where
  "plural n = (if n = 1 then [] else ''s'')"

definition describeHaltResult :: "halt_result option \<Rightarrow> string" where
  "describeHaltResult result =
     (case result of
        None \<Rightarrow> ''Nothing was halted.''
      | Some r \<Rightarrow>
          let scope = hr_scope r; ids = hs_sessionIDs scope
          in if \<not> hs_allowed scope then (if hs_message scope \<noteq> [] then hs_message scope else ''Halt refused ('' @ hs_reason scope @ '').'')
             else let reached = filter (\<lambda>(_, agents). agents \<noteq> []) (hr_cancelled r); n = sum_list (map (length \<circ> snd) reached)
                  in join_with '' '' (
                    [if n = 0 then (if 1 < length ids then ''No active runs in any of '' @ nat_digits (length ids) @ '' sessions ('' @ join_with '', '' ids @ '').''
                        else ''No active agent runs.'')
                     else ''Suspended '' @ nat_digits n @ '' active agent'' @ plural n @ '' in '' @ nat_digits (length reached) @ '' session'' @ plural (length reached) @ '': '' @
                       join_with ''; '' (map (\<lambda>(s, agents). s @ '' ('' @ join_with '', '' agents @ '')'') reached) @ ''.''] @
                    (if hr_emptySessions r \<noteq> [] \<and> 0 < n then [''No active runs in: '' @ join_with '', '' (hr_emptySessions r) @ ''.''] else []) @
                    (if hs_refused scope \<noteq> [] then [''Refused: '' @ join_with ''; '' (map (\<lambda>(s, why). s @ '' ('' @ why @ '')'') (hs_refused scope)) @ ''.''] else []) @
                    (if hs_incomplete scope then [''Only the named session was reached: the caller could not enumerate child sessions, so no descendants were walked. Do not treat this as a subtree halt.'']
                     else if hs_truncated scope then [''The subtree was too large to walk completely; some sessions were not visited.''] else []) @
                    (case hr_targetError r of None \<Rightarrow> [] | Some m \<Rightarrow> if m = [] then [] else [m])))"

section \<open>The user's stop\<close>

record stop_result =
  sp_cancelledAgentIDs :: "string list"
  sp_suspendedAgentIDs :: jsval
  sp_suspendedCommandIDs :: jsval
  sp_targetAgentID :: "string option"
  sp_target :: "string option"
  sp_frame :: "jsval option"

definition or_null_str :: "string option \<Rightarrow> jsval" where
  "or_null_str s = (case s of None \<Rightarrow> Null | Some t \<Rightarrow> JStr t)"

definition blank_line :: string where
  "blank_line = [CHR 0x0A, CHR 0x0A]"

definition suspension_text :: "bool \<Rightarrow> string option \<Rightarrow> string" where
  "suspension_text windows target =
     (case target of
        Some t \<Rightarrow> ''User Suspended '' @ t @ blank_line @ ''The user requested cancellation for this agent. '' @
          (if windows then ''Its in-flight commands were aborted'' else ''Its in-flight commands are paused'') @
          '' and it will remain suspended until the coordinator resumes it.''
      | None \<Rightarrow> ''User Suspended the Session'' @ blank_line @
          ''You just suspended the session. All bots except the coordinator remain asleep until you decide what happens next. '' @
          (if windows then ''All in-flight commands were aborted.'' else ''All in-flight commands are paused and remain suspended.'') @
          '' The coordinator can still be interacted with and can help you recover.'' @ blank_line @
          ''Tell your coordinator what is wrong and what you want to have happen next. This session remains suspended until you instruct the coordinator how to resume it.'')"

definition appendSuspensionNotice ::
  "string \<Rightarrow> jsval \<Rightarrow> jsval \<Rightarrow> string \<Rightarrow> string option \<Rightarrow> string option \<Rightarrow> jsval \<Rightarrow> jsval \<Rightarrow> jsval \<Rightarrow> jsval" where
  "appendSuspensionNotice platform frameID now sessionID target agent suspended commands session =
     JObj [(''id'', frameID), (''type'', JStr ''AgentMessage''), (''sessionID'', JStr sessionID), (''interactionID'', Null), (''parentID'', Null),
       (''authorType'', JStr ''system''), (''authorID'', JStr ''internal:user-suspend''), (''authorDisplayName'', JStr ''System''),
       (''timestamp'', now), (''createdAt'', now), (''updatedAt'', now), (''hidden'', JBool False), (''deleted'', JBool False),
       (''content'', JObj [(''text'', JStr (suspension_text (platform = ''win32'') target)), (''status'', JStr ''error''), (''kind'', JStr ''session-suspend''),
          (''suspendedAgentIDs'', suspended), (''suspendedCommandIDs'', commands), (''coordinatorAgentID'', or_null (pget session ''coordinatorAgentID'')),
          (''reason'', JStr ''user-suspend''), (''commandsAborted'', JBool (platform = ''win32'')), (''target'', or_null_str target),
          (''targetAgentID'', or_null_str agent)])]"

definition stop_ids :: "string option \<Rightarrow> jsval \<Rightarrow> jsval" where
  "stop_ids agent session =
     (case agent of
        Some a \<Rightarrow> JArr [JStr a]
      | None \<Rightarrow> if is_arr (pget session ''participantAgentIDs'') then pget session ''participantAgentIDs'' else JArr [])"

text \<open>The frame engine's id generator answers the id of the notice; without one no notice is written.\<close>

definition suspendSessionAgents ::
  "(string \<Rightarrow> js_error + string option) option \<Rightarrow> (string \<Rightarrow> string option \<Rightarrow> jsval) \<Rightarrow> string \<Rightarrow> jsval option \<Rightarrow> jsval \<Rightarrow> string \<Rightarrow> jsval \<Rightarrow>
     sessions \<Rightarrow> js_error + stop_result \<times> sessions" where
  "suspendSessionAgents resolve pause platform newID now sessionID target rt =
     (let reference = trim_or_empty target; label = (if reference = [] then None else Some reference)
      in if sessionID = [] then Inl (TypeError ''sessionID is required'')
         else and_then (if reference = [] then Inr None
                        else case resolve of None \<Rightarrow> Inl (GenericError ''Targeted cancellation requires an agent manager'') | Some f \<Rightarrow> f reference) (\<lambda>found.
           let agent = (case found of Some (c # cs) \<Rightarrow> Some (c # cs) | _ \<Rightarrow> None)
           in case map_of rt sessionID of
                None \<Rightarrow> Inl (GenericError (''Unknown session: '' @ sessionID))
              | Some e \<Rightarrow>
                  let session = JObj (sn_session e); ids = stop_ids agent session;
                      rt1 = snd (suspendSession now sessionID (suspend_options ids session (JStr ''user-suspend'')) rt);
                      commands = js_or (pause sessionID agent) (JArr [])
                  in case cancelAgentRuns sessionID agent rt1 of (cancelled, rt2) \<Rightarrow>
                     let notice = map_option (\<lambda>i. appendSuspensionNotice platform i now sessionID label agent ids commands session) newID;
                         rt3 = (if notice = None then rt2 else snd (persistSessionSuspension sessionID rt2))
                     in Inr (\<lparr>sp_cancelledAgentIDs = cancelled, sp_suspendedAgentIDs = ids, sp_suspendedCommandIDs = commands, sp_targetAgentID = agent,
                          sp_target = label, sp_frame = notice\<rparr>, rt3)))"

section \<open>The command\<close>

fun replace_pair :: "char \<Rightarrow> char \<Rightarrow> char \<Rightarrow> string \<Rightarrow> string" where
  "replace_pair p q r [] = []"
| "replace_pair p q r [x] = [x]"
| "replace_pair p q r (x # y # xs) = (if x = p \<and> y = q then r # replace_pair p q r xs else x # replace_pair p q r (y # xs))"

definition unescapeQuotedReference :: "string \<Rightarrow> char \<Rightarrow> string" where
  "unescapeQuotedReference s quote = js_trim (replace_pair (CHR 0x5C) (CHR 0x5C) (CHR 0x5C) (replace_pair (CHR 0x5C) quote quote s))"

definition is_quote :: "char \<Rightarrow> bool" where
  "is_quote c = (c = CHR 0x22 \<or> c = CHR 0x27)"

definition unquoteReference :: "string \<Rightarrow> string \<Rightarrow> js_error + string" where
  "unquoteReference reference usage =
     (if reference \<noteq> [] \<and> is_quote (hd reference)
      then if last reference = hd reference then Inr (unescapeQuotedReference (butlast (tl reference)) (hd reference)) else Inl (GenericError usage)
      else Inr reference)"

definition option_text :: "jsval \<Rightarrow> string \<Rightarrow> string \<Rightarrow> string" where
  "option_text options k otherwise = js_String (js_or (pget options k) (JStr otherwise))"

definition parseCommandTarget :: "jsval \<Rightarrow> jsval \<Rightarrow> js_error + string \<times> string" where
  "parseCommandTarget args options =
     (let usage = option_text options ''usage'' ''A target is required.'';
          prefixUsage = (\<lambda>type. option_text options ''prefixUsage'' (''Usage: '' @ option_text options ''command'' ''command'' @ '' '' @ type @ '':name''))
      in if trim_or_empty args = [] then Inl (GenericError usage)
         else and_then (unquoteReference (trim_or_empty args) (option_text options ''quoteUsage'' usage)) (\<lambda>reference.
           let type = (if starts_with (toLowerCase reference) ''agent:'' then ''agent'' else if starts_with (toLowerCase reference) ''team:'' then ''team'' else [])
           in if type = [] then Inr ([], reference)
              else if is_arr (pget options ''allowedTypes'') \<and> JStr type \<notin> set (arr_of (pget options ''allowedTypes''))
              then Inl (GenericError (option_text options ''disallowedMessage'' (option_text options ''command'' ''This command'' @ '' can only target an agent.'')))
              else and_then (unquoteReference (js_trim (drop (length type + 1) reference)) (prefixUsage type)) (\<lambda>name.
                if name = [] then Inl (GenericError (prefixUsage type)) else Inr (type, name))))"

record cancel_args =
  ca_sessionID :: "string option"
  ca_target :: "string option"
  ca_includeSubtree :: bool

definition parseCancelArgs :: "jsval \<Rightarrow> cancel_args" where
  "parseCancelArgs args =
     (let rest = trim_or_empty args; named = (\<lambda>s. if s = [] then None else Some s);
          after = drop 8 rest; reference = takeWhile (\<lambda>c. \<not> js_space c) after
      in if starts_with (toLowerCase rest) ''session:'' \<and> reference \<noteq> []
         then let narrow = (hd reference = CHR ''!'')
              in \<lparr>ca_sessionID = named (if narrow then tl reference else reference), ca_target = named (js_trim (drop (length reference) after)),
                   ca_includeSubtree = \<not> narrow\<rparr>
         else \<lparr>ca_sessionID = None, ca_target = named rest, ca_includeSubtree = True\<rparr>)"

record cancel_services =
  cs_load :: loader
  cs_list :: halt_listing
  cs_resolve :: "string \<Rightarrow> js_error + string option"
  cs_pause :: "string \<Rightarrow> string option \<Rightarrow> jsval"
  cs_platform :: string
  cs_newID :: "jsval option"
  cs_now :: jsval

definition cancel_target_options :: jsval where
  "cancel_target_options = JObj [(''command'', JStr ''/cancel''), (''usage'', JStr ''Usage: /cancel [agent]''),
     (''quoteUsage'', JStr (''Usage: /cancel '' @ [CHR 0x22] @ ''agent name'' @ [CHR 0x22])), (''allowedTypes'', JArr [JStr ''agent'']),
     (''disallowedMessage'', JStr ''/cancel can only target an agent; teams are not active runs.'')]"

definition cancelLocally :: "cancel_services \<Rightarrow> string \<Rightarrow> string option \<Rightarrow> sessions \<Rightarrow> js_error + (string \<times> string) \<times> sessions" where
  "cancelLocally sv sessionID target rt =
     and_then (case target of None \<Rightarrow> Inr Null
               | Some t \<Rightarrow> if js_trim t = [] then Inr Null
                   else and_then (parseCommandTarget (JStr t) cancel_target_options) (\<lambda>(_, reference). Inr (JStr reference))) (\<lambda>reference.
       and_then (suspendSessionAgents (Some (cs_resolve sv)) (cs_pause sv) (cs_platform sv) (cs_newID sv) (cs_now sv) sessionID reference rt) (\<lambda>(result, rt').
         let n = length (sp_cancelledAgentIDs result)
         in Inr ((''ok'',
              (if n = 0 then (case sp_target result of Some t \<Rightarrow> ''No active run for '' @ t @ ''.'' | None \<Rightarrow> ''No active agent runs.'')
               else case sp_target result of Some t \<Rightarrow> ''Suspension requested for '' @ t @ ''.''
                    | None \<Rightarrow> ''Suspension requested for '' @ nat_digits n @ '' active agent'' @ plural n @ ''.'')), rt')))"

text \<open>The command answers a status and a message; the context may name the agent and the session.\<close>

definition execute_cancel :: "cancel_services \<Rightarrow> jsval \<Rightarrow> jsval \<Rightarrow> jsval \<Rightarrow> sessions \<Rightarrow> js_error + (string \<times> string) \<times> sessions" where
  "execute_cancel sv context args frame rt =
     (let parsed = parseCancelArgs args; isHuman = (pget frame ''authorType'' \<noteq> JStr ''agent'');
          actor = (if isHuman then Null else js_or (pget frame ''authorID'') (or_null (pget (pget context ''agent'') ''id'')));
          current = js_or (pget frame ''sessionID'') (or_null (pget (pget context ''session'') ''id''))
      in if isHuman \<and> ca_sessionID parsed = None
         then cancelLocally sv (case current of JStr s \<Rightarrow> s | _ \<Rightarrow> []) (ca_target parsed) rt
         else and_then (haltSessionTree (cs_load sv) Null (Some (cs_list sv)) (Some (cs_list sv)) (cs_resolve sv) (cs_pause sv) (cs_now sv) actor
             (case ca_sessionID parsed of Some s \<Rightarrow> JStr s | None \<Rightarrow> current) current (ca_includeSubtree parsed) (or_null_str (ca_target parsed))
             (JStr (if isHuman then ''user-suspend'' else ''coordinator-halt'')) rt) (\<lambda>(result, rt', _).
           Inr ((if hs_allowed (hr_scope result) then ''ok'' else ''error'', describeHaltResult (Some result)), rt')))"

section \<open>Who is reached\<close>

lemma subtree_within:
  assumes "s \<in> set (st_sessionIDs (resolveSubtreeSessionIDs (JStr target) src Undefined))" "src = ListedSessions sessions \<or> src = NoChildren \<and> sessions = []"
  shows "s \<in> set (descendantSessionIDs (JStr target) (ArrSource sessions))"
proof -
  have root: "x \<in> set (descendants_loop m q (x # ids))" for x m q ids
    using descendants_loop_grows [of m q "x # ids"] by auto
  have "max_nodes Undefined = 1000" by (simp add: max_nodes_def)
  then show ?thesis using assms root
    by (auto simp: resolveSubtreeSessionIDs_def descendantSessionIDs_def Let_def subtree_loop_prefix
        simp del: descendants_loop.simps subtree_loop.simps split: if_splits dest: in_set_takeD)
qed

lemma scope_facts:
  assumes "resolveHaltScope load given ls rl actor named current sub rt = Inr (scope, rt1)" "s \<in> set (hs_sessionIDs scope)"
  obtains target loaded byID where "target = (if normalizeID named \<noteq> [] then normalizeID named else normalizeID current)"
    "loaded_listing given ls rl rt = Inr loaded" "halt_sources load loaded target rt = (byID, rt1)"
    "au_allowed (check_authority actor (session_lookup rt1 byID) s)" "s \<in> set (descendantSessionIDs (JStr target) (ArrSource (arr_of loaded)))"
proof -
  define target where "target = (if normalizeID named \<noteq> [] then normalizeID named else normalizeID current)"
  have trimmed: "js_trim target = target" by (auto simp: target_def normalizeID_def)
  have some: "target \<noteq> []" using assms by (auto simp: resolveHaltScope_def target_def [symmetric] refused_scope_def split: if_splits)
  obtain loaded where loaded: "loaded_listing given ls rl rt = Inr loaded"
    using assms some by (cases "loaded_listing given ls rl rt") (auto simp: resolveHaltScope_def target_def [symmetric])
  obtain byID where src: "halt_sources load loaded target rt = (byID, rt1)"
    using assms some loaded by (auto simp: resolveHaltScope_def target_def [symmetric] Let_def split: prod.splits)
  have self: "target \<in> set (descendantSessionIDs (JStr target) (ArrSource sessions))" for sessions
    using some trimmed descendants_loop_grows [of "foldl add_child [] sessions" "[target]" "[target]"]
    by (auto simp: descendantSessionIDs_def simp del: descendants_loop.simps)
  note subtree = subtree_within [of s target "if is_arr loaded then ListedSessions (arr_of loaded) else NoChildren" "arr_of loaded"]
  have none: "\<not> is_arr loaded \<Longrightarrow> arr_of loaded = []" by (cases loaded) auto
  have "au_allowed (check_authority actor (session_lookup rt1 byID) s) \<and> s \<in> set (descendantSessionIDs (JStr target) (ArrSource (arr_of loaded)))"
    using assms some loaded src self subtree none
    by (auto simp: resolveHaltScope_def target_def [symmetric] Let_def refused_scope_def split: if_splits)
  then show ?thesis using that target_def loaded src by blast
qed

section \<open>What a halt does to the loaded sessions\<close>

lemma op_others [simp]:
  "j \<noteq> k \<Longrightarrow> map_of (snd (suspendAgent now k a rt)) j = map_of rt j"
  "j \<noteq> k \<Longrightarrow> map_of (snd (suspendSession now k options rt)) j = map_of rt j"
  "j \<noteq> k \<Longrightarrow> map_of (snd (cancelAgentRuns k t rt)) j = map_of rt j"
  "j \<noteq> k \<Longrightarrow> map_of (snd (persistSessionSuspension k rt)) j = map_of rt j"
  "j \<noteq> k \<Longrightarrow> map_of (save_manifest k rt saved) j = map_of saved j"
  by (simp_all add: suspendAgent_def suspendSession_def cancelAgentRuns_def persistSessionSuspension_def save_manifest_def Let_def split: option.split)

text \<open>A session other than the one that is halted is as it was, or evicted by the load.\<close>

lemma halt_session_others:
  assumes "j \<noteq> k"
  shows "map_of (ha_runtime (halt_session (ensureSessionEntry_runtime ld) pause now reason agent st k)) j \<in> {map_of (ha_runtime st) j, None}"
    "map_of (ha_saved (halt_session (ensureSessionEntry_runtime ld) pause now reason agent st k)) j = map_of (ha_saved st) j"
proof -
  have "map_of (ha_runtime (halt_session (ensureSessionEntry_runtime ld) pause now reason agent st k)) j \<in> {map_of (ha_runtime st) j, None} \<and>
      map_of (ha_saved (halt_session (ensureSessionEntry_runtime ld) pause now reason agent st k)) j = map_of (ha_saved st) j"
  proof (cases "ensureSessionEntry_runtime ld k (ha_runtime st)")
    case (Some answer)
    obtain e rt where "answer = (e, rt)" by (cases answer)
    with Some ensure_others [of ld k "ha_runtime st" e rt j] assms show ?thesis
      by (cases agent) (simp_all add: halt_session_def Let_def case_prod_unfold)
  qed (simp add: halt_session_def)
  then show "map_of (ha_runtime (halt_session (ensureSessionEntry_runtime ld) pause now reason agent st k)) j \<in> {map_of (ha_runtime st) j, None}"
    "map_of (ha_saved (halt_session (ensureSessionEntry_runtime ld) pause now reason agent st k)) j = map_of (ha_saved st) j" by blast+
qed

lemma halt_sessions_others:
  "j \<notin> set ks \<Longrightarrow>
     map_of (ha_runtime (foldl (halt_session (ensureSessionEntry_runtime ld) pause now reason agent) st ks)) j \<in> {map_of (ha_runtime st) j, None} \<and>
     map_of (ha_saved (foldl (halt_session (ensureSessionEntry_runtime ld) pause now reason agent) st ks)) j = map_of (ha_saved st) j"
proof (induction ks arbitrary: st)
  case (Cons k ks)
  from Cons.prems have "j \<noteq> k" "j \<notin> set ks" by auto
  with Cons.IH [of "halt_session (ensureSessionEntry_runtime ld) pause now reason agent st k"] halt_session_others [of j k ld pause now reason agent st]
  show ?case by auto
qed simp

lemma sync_reads [simp]:
  "k \<noteq> ''halt'' \<Longrightarrow> k \<noteq> ''suspension'' \<Longrightarrow> oget (sn_session (syncSessionSuspensionSnapshot e)) k = oget (sn_session e) k"
  by (simp add: syncSessionSuspensionSnapshot_def Let_def split: option.split)

lemma suspend_reads [simp]:
  "oget (sn_session (suspend_session_entry now options e)) ''participantAgentIDs'' = oget (sn_session e) ''participantAgentIDs''"
  "oget (sn_session (suspend_agent_entry now a e)) ''participantAgentIDs'' = oget (sn_session e) ''participantAgentIDs''"
  "sn_running (suspend_session_entry now options e) = sn_running e" "sn_running (suspend_agent_entry now a e) = sn_running e"
  "sn_activeRuns (suspend_session_entry now options e) = sn_activeRuns e" "sn_activeRuns (suspend_agent_entry now a e) = sn_activeRuns e"
  by (simp_all add: suspend_session_entry_def suspend_agent_entry_def Let_def)

lemma agent_suspended_sync [simp]: "agent_suspended a (syncSessionSuspensionSnapshot e) = agent_suspended a e"
  by (simp add: agent_suspended_def)

lemma agent_suspended_cancelled [simp]: "agent_suspended a (e\<lparr>sn_cancelled := c\<rparr>) = agent_suspended a e"
  by (simp add: agent_suspended_def active_suspension_def)

lemma suspend_agent_suspends: "a \<noteq> [] \<Longrightarrow> agent_suspended a (suspend_agent_entry now a e)"
  by (simp add: suspend_agent_entry_def agent_suspended_def active_suspension_def Let_def)

lemma suspend_session_suspends:
  assumes "a \<in> set (normalizeSuspendedAgentIDs (pget options ''agentIDs'')) \<or> agent_suspended a e" "a \<noteq> []"
  shows "agent_suspended a (suspend_session_entry now options e)"
proof -
  have "agent_suspended a e \<Longrightarrow> a \<in> set (case active_suspension e of None \<Rightarrow> [] | Some s \<Rightarrow> su_agents s)"
    by (auto simp: agent_suspended_def split: option.splits)
  then show ?thesis using assms by (auto simp: suspend_session_entry_def agent_suspended_def active_suspension_def Let_def)
qed

text \<open>The agents a halt is after in a session: the one it names, or every participant.\<close>

definition halt_targets :: "string option \<Rightarrow> jsobj \<Rightarrow> string set" where
  "halt_targets agent session = (case agent of Some a \<Rightarrow> {a} | None \<Rightarrow> set (participantAgentIDsOf (JObj session)))"

definition halted :: "string option \<Rightarrow> session_entry \<Rightarrow> bool" where
  "halted agent e = (\<forall>a\<in>halt_targets agent (sn_session e). agent_suspended a e \<and> (a \<in> set (sn_running e) \<longrightarrow> a \<in> set (sn_cancelled e)))"

text \<open>What a stored manifest says of them; a blank id is not stored.\<close>

definition halt_stored :: "string option \<Rightarrow> jsobj \<Rightarrow> bool" where
  "halt_stored agent session = (\<forall>a\<in>halt_targets agent session. js_trim a \<noteq> [] \<longrightarrow> a \<in> set (stored_agents session))"

lemma stored_names:
  assumes "agent_suspended a e" "js_trim a \<noteq> []"
  shows "a \<in> set (stored_agents (sn_session (syncSessionSuspensionSnapshot e)))"
proof -
  obtain s where s: "active_suspension e = Some s" "a \<in> set (su_agents s)" using assms(1) by (auto simp: agent_suspended_def split: option.splits)
  have listed: "a \<in> set (normalizeSuspendedAgentIDs (ids_val ids))" if "a \<in> set ids" for ids
    using that assms(2) by (auto simp: normalizeSuspendedAgentIDs_def ids_val_def)
  define e' where "e' = e\<lparr>sn_session := odel (sn_session e) ''halt''\<rparr>"
  have e': "active_suspension e' = Some s" using s(1) by (simp add: e'_def active_suspension_def)
  obtain snapshot where snapshot: "buildSessionSuspensionSnapshot e' = Some snapshot" "pget snapshot ''active'' = JBool True"
      "pget snapshot ''suspendedAgentIDs'' = ids_val (su_agents s)" "truthy snapshot"
    using e' by (simp add: buildSessionSuspensionSnapshot_def Let_def)
  then show ?thesis using listed [OF s(2)]
    by (simp add: syncSessionSuspensionSnapshot_def Let_def e'_def [symmetric] stored_agents_def stored_snapshot_def)
qed

lemma participants_normalized: "normalizeSuspendedAgentIDs (ids_val (participantAgentIDsOf s)) = participantAgentIDsOf s"
proof -
  have "distinct out \<Longrightarrow> distinct (foldl push_normalized out vs)" for out vs
    by (induction vs arbitrary: out) (auto simp: push_normalized_def Let_def)
  then have "distinct (participantAgentIDsOf s)" by (simp add: participantAgentIDsOf_def normalizeIDList_def)
  moreover have "\<forall>a\<in>set (participantAgentIDsOf s). js_trim a \<noteq> []" using participants_nonblank by force
  ultimately show ?thesis by (simp add: agents_ok_def)
qed

text \<open>What the halt of a session that is loaded leaves: the entry, halted, and its manifest, saved.\<close>

definition session_halted :: "string option \<Rightarrow> string \<Rightarrow> halt_state \<Rightarrow> bool" where
  "session_halted agent k st = (\<exists>m. map_of (ha_saved st) k = Some m \<and> halt_stored agent m \<and>
     (\<forall>e. map_of (ha_runtime st) k = Some e \<longrightarrow> sn_session e = m \<and> halted agent e))"

lemma halt_storedI: "halted agent e \<Longrightarrow> halt_stored agent (sn_session (syncSessionSuspensionSnapshot e))"
  using stored_names [of _ e] by (auto simp: halted_def halt_stored_def halt_targets_def participantAgentIDsOf_def split: option.splits)

lemma halted_sync [simp]: "halted agent (syncSessionSuspensionSnapshot e) = halted agent e"
  by (simp add: halted_def halt_targets_def participantAgentIDsOf_def split: option.split)

lemma halt_session_entry:
  assumes "ensureSessionEntry_runtime ld k (ha_runtime st) = Some (e, rt)" "map_of rt k = Some e" "agent \<noteq> Some []"
  shows "\<exists>e'. map_of (ha_runtime (halt_session (ensureSessionEntry_runtime ld) pause now reason agent st k)) k = Some (syncSessionSuspensionSnapshot e') \<and>
     map_of (ha_saved (halt_session (ensureSessionEntry_runtime ld) pause now reason agent st k)) k = Some (sn_session (syncSessionSuspensionSnapshot e')) \<and> halted agent e'"
proof (cases agent)
  case (Some a)
  with assms show ?thesis
    by (auto simp: halt_session_def suspendAgent_def suspendSession_def cancelAgentRuns_def persistSessionSuspension_def save_manifest_def Let_def
        halted_def halt_targets_def suspend_session_suspends suspend_agent_suspends intro!: exI)
next
  case None
  let ?ps = "participantAgentIDsOf (JObj (sn_session e))"
  have "a \<in> set ?ps \<Longrightarrow> agent_suspended a (suspend_session_entry now (suspend_options (ids_val ?ps) session reason) e)" for a session
    using participants_nonblank [of a "JObj (sn_session e)"]
    by (intro suspend_session_suspends) (auto simp: suspend_options_def participants_normalized)
  with None assms(1,2) show ?thesis
    by (auto simp: halt_session_def suspendSession_def cancelAgentRuns_def persistSessionSuspension_def save_manifest_def Let_def
        halted_def halt_targets_def runtime_getSession_def participantAgentIDsOf_def intro!: exI)
qed

lemma halt_session_halts:
  assumes "ensureSessionEntry_runtime ld k (ha_runtime st) = Some (e, rt)" "map_of rt k = Some e" "agent \<noteq> Some []"
  shows "session_halted agent k (halt_session (ensureSessionEntry_runtime ld) pause now reason agent st k)"
  using halt_session_entry [OF assms, of pause now reason] halt_storedI by (auto simp: session_halted_def)

lemma op_room [simp]:
  "has_room limit rt \<Longrightarrow> has_room limit (snd (suspendAgent now k a rt))"
  "has_room limit rt \<Longrightarrow> has_room limit (snd (suspendSession now k options rt))"
  "has_room limit rt \<Longrightarrow> has_room limit (snd (cancelAgentRuns k t rt))"
  "has_room limit rt \<Longrightarrow> has_room limit (snd (persistSessionSuspension k rt))"
  by (auto simp: suspendAgent_def suspendSession_def cancelAgentRuns_def persistSessionSuspension_def Let_def intro!: room_update split: option.split)

lemma halt_session_room:
  assumes "has_room (ld_limit ld) (ha_runtime st)"
  shows "has_room (ld_limit ld) (ha_runtime (halt_session (ensureSessionEntry_runtime ld) pause now reason agent st k))"
proof (cases "ensureSessionEntry_runtime ld k (ha_runtime st)")
  case (Some answer)
  obtain e rt where "answer = (e, rt)" by (cases answer)
  with Some ensure_stays(2) [OF _ assms] show ?thesis by (cases agent) (auto simp: halt_session_def Let_def case_prod_unfold)
qed (use assms in \<open>simp add: halt_session_def\<close>)

lemma halt_sessions_room:
  "has_room (ld_limit ld) (ha_runtime st) \<Longrightarrow> has_room (ld_limit ld) (ha_runtime (foldl (halt_session (ensureSessionEntry_runtime ld) pause now reason agent) st ks))"
  by (induction ks arbitrary: st) (simp_all add: halt_session_room)

lemma hydrate_up_room:
  "has_room (ld_limit ld) rt \<Longrightarrow> has_room (ld_limit ld) (snd (hydrate_up (ensureSessionEntry_runtime ld) n hydrated cursor byID rt))"
proof (induction n arbitrary: hydrated cursor byID rt)
  case (Suc n)
  then show ?case using ensure_stays(2) [of ld cursor rt] by (auto split: option.split)
qed simp

lemma halt_refusals_grow: "\<exists>more. ha_refused (foldl (halt_session load pause now reason agent) st ks) = ha_refused st @ more"
proof (induction ks arbitrary: st)
  case (Cons k ks)
  have "\<exists>more. ha_refused (halt_session load pause now reason agent st k) = ha_refused st @ more"
    by (auto simp: halt_session_def Let_def split: option.split prod.split)
  with Cons [of "halt_session load pause now reason agent st k"] show ?case by auto
qed simp

lemma halt_sessions_halt:
  assumes "has_room (ld_limit ld) (ha_runtime st)" "agent \<noteq> Some []"
    "k \<in> set ks" "(k, ''unloadable'') \<notin> set (ha_refused (foldl (halt_session (ensureSessionEntry_runtime ld) pause now reason agent) st ks))"
  shows "session_halted agent k (foldl (halt_session (ensureSessionEntry_runtime ld) pause now reason agent) st ks)"
  using assms(3,4)
proof (induction ks rule: rev_induct)
  case (snoc x ks)
  let ?st = "foldl (halt_session (ensureSessionEntry_runtime ld) pause now reason agent) st ks"
  have grow: "(k, ''unloadable'') \<notin> set (ha_refused ?st)"
    using snoc.prems(2) halt_refusals_grow [of "ensureSessionEntry_runtime ld" pause now reason agent ?st "[x]"] by auto
  show ?case
  proof (cases "k = x")
    case True
    have "ensureSessionEntry_runtime ld x (ha_runtime ?st) = None \<Longrightarrow>
        (x, ''unloadable'') \<in> set (ha_refused (halt_session (ensureSessionEntry_runtime ld) pause now reason agent ?st x))"
      by (simp add: halt_session_def)
    with True snoc.prems(2) obtain e rt where "ensureSessionEntry_runtime ld x (ha_runtime ?st) = Some (e, rt)" by fastforce
    with ensure_stays(1) [OF this halt_sessions_room [OF assms(1)]] show ?thesis using True halt_session_halts [OF _ _ assms(2)] by simp
  next
    case False
    with snoc.IH snoc.prems(1) grow have "session_halted agent k ?st" by simp
    with halt_session_others [OF False, of ld pause now reason agent ?st] show ?thesis by (auto simp: session_halted_def)
  qed
qed simp

text \<open>A load of a manifest that a halt has saved finds its agents suspended, unless a marker among the frames lifts the suspension.\<close>

lemma stored_halt_is_found:
  assumes "halt_stored agent (sn_session loaded)" "modern_frames frames" "a \<in> halt_targets agent (sn_session loaded)" "js_trim a \<noteq> []"
    "a \<notin> set (lifted_by frames)"
  shows "agent_suspended a (restore_entry platform now frames loaded)"
proof -
  have "a \<in> set (stored_agents (sn_session loaded))" using assms by (simp add: halt_stored_def)
  with restore_keeps [OF assms(2), of loaded platform now] assms(5) show ?thesis
    using restore_in_step agent_suspended_iff in_step_well by blast
qed

text \<open>What the walk up leaves of a session that is there: its entry, or what a load of it answers.\<close>

lemma hydrate_up_loads:
  assumes "\<And>e0. map_of rt j = Some e0 \<Longrightarrow> map_of rt0 j = Some e0 \<or> load_result ld rt0 j e0"
    "map_of (snd (hydrate_up (ensureSessionEntry_runtime ld) n hydrated cursor byID rt)) j = Some e"
  shows "map_of rt0 j = Some e \<or> load_result ld rt0 j e"
  using assms
proof (induction n arbitrary: hydrated cursor byID rt)
  case (Suc n)
  show ?case
  proof (cases "cursor = [] \<or> cursor \<in> set hydrated \<or> ensureSessionEntry_runtime ld cursor rt = None")
    case True
    then show ?thesis using Suc.prems by (auto split: if_splits)
  next
    case False
    then obtain e1 rt1 where load: "ensureSessionEntry_runtime ld cursor rt = Some (e1, rt1)" by auto
    have "map_of rt0 j = Some e0 \<or> load_result ld rt0 j e0" if "map_of rt1 j = Some e0" for e0
    proof (cases "j = cursor")
      case True
      with ensure_itself [OF load] that have "e0 = e1" by simp
      with ensure_answers [OF load] True Suc.prems(1) load_result_again [of ld rt j e0 rt0] show ?thesis by blast
    next
      case False
      with ensure_others [OF load False] that have "map_of rt j = Some e0" by auto
      then show ?thesis by (rule Suc.prems(1))
    qed
    with Suc.IH [of rt1 "cursor # hydrated"] Suc.prems(2) False load show ?thesis by auto
  qed
qed simp

section \<open>Properties\<close>

definition halt_run :: "loader \<Rightarrow> (string \<Rightarrow> string option \<Rightarrow> jsval) \<Rightarrow> jsval \<Rightarrow> jsval \<Rightarrow> string option \<Rightarrow> halt_scope \<Rightarrow> sessions \<Rightarrow> halt_state" where
  "halt_run load pause now reason agent scope rt = foldl (halt_session load pause now reason agent)
     \<lparr>ha_runtime = rt, ha_saved = [], ha_refused = hs_refused scope, ha_cancelled = [], ha_empty = [], ha_commands = []\<rparr> (hs_sessionIDs scope)"

lemma halt_unfold:
  assumes "haltSessionTree load given ls rl resolve pause now actor named current sub target reason rt = Inr (r, rt', saved)"
  obtains scope rt1 where "resolveHaltScope load given ls rl actor named current sub rt = Inr (scope, rt1)"
    "hs_allowed (hr_scope r) = hs_allowed scope" "\<not> hs_allowed scope \<Longrightarrow> rt' = rt1 \<and> saved = []"
    "hs_allowed scope \<Longrightarrow> hs_sessionIDs (hr_scope r) = hs_sessionIDs scope \<and> hr_targetAgentID r \<noteq> Some [] \<and>
       hs_refused (hr_scope r) = ha_refused (halt_run load pause now reason (hr_targetAgentID r) scope rt1) \<and>
       rt' = ha_runtime (halt_run load pause now reason (hr_targetAgentID r) scope rt1) \<and>
       saved = ha_saved (halt_run load pause now reason (hr_targetAgentID r) scope rt1)"
proof -
  have named: "fst (resolve_target resolve target) \<noteq> Some []"
    by (auto simp: resolve_target_def Let_def split: sum.split option.split list.split)
  obtain scope rt1 where "resolveHaltScope load given ls rl actor named current sub rt = Inr (scope, rt1)"
    using assms by (cases "resolveHaltScope load given ls rl actor named current sub rt") (auto simp: haltSessionTree_def)
  with that [of scope rt1] assms named show ?thesis
    by (auto simp: haltSessionTree_def halt_run_def Let_def split: prod.splits if_splits)
qed

text \<open>What resolving the scope does to the loaded sessions: nothing, or the walk up.\<close>

lemma halt_sources_runtime: "\<exists>hydrated cursor byID n. snd (halt_sources load loaded target rt) \<in> {rt, snd (hydrate_up load n hydrated cursor byID rt)}"
  by (auto simp: halt_sources_def Let_def)

lemma scope_runtime:
  assumes "resolveHaltScope load given ls rl actor named current sub rt = Inr (scope, rt1)"
  shows "rt1 = rt \<or> (\<exists>hydrated cursor byID n. rt1 = snd (hydrate_up load n hydrated cursor byID rt))"
proof -
  have "rt1 = rt \<or> (\<exists>loaded target. rt1 = snd (halt_sources load loaded target rt))"
    using assms unfolding resolveHaltScope_def and_then_def Let_def by (auto split: sum.splits prod.splits if_splits) (metis snd_conv)+
  with halt_sources_runtime show ?thesis by (metis insert_iff singletonD)
qed

text \<open>
  C38: Safety. While fewer sessions are pinned than the limit of loaded sessions, a halt that was allowed saves, for every session it reports
  reached and not unloadable, a manifest that names each agent it was after there (the one named, or every participant) as suspended, so that
  a load finds these agents suspended unless a resume marker among the frames names them (no halt marker of the old form among them); and when
  the session was not evicted again by the loads of later sessions, it is loaded with that manifest, these agents are suspended and their runs
  are cancelled.
\<close>

theorem halt_suspends_its_scope:
  assumes "has_room (ld_limit ld) rt"
    "haltSessionTree (ensureSessionEntry_runtime ld) given ls rl resolve pause now actor named current sub target reason rt = Inr (r, rt', saved)"
    "hs_allowed (hr_scope r)" "s \<in> set (hs_sessionIDs (hr_scope r))" "(s, ''unloadable'') \<notin> set (hs_refused (hr_scope r))"
  shows "\<exists>m. map_of saved s = Some m \<and> halt_stored (hr_targetAgentID r) m \<and>
     (\<forall>a frames platform now loaded. a \<in> halt_targets (hr_targetAgentID r) m \<and> js_trim a \<noteq> [] \<and> sn_session loaded = m \<and>
        modern_frames frames \<and> a \<notin> set (lifted_by frames) \<longrightarrow> agent_suspended a (restore_entry platform now frames loaded)) \<and>
     (\<forall>e. map_of rt' s = Some e \<longrightarrow> sn_session e = m \<and> halted (hr_targetAgentID r) e)"
proof -
  from halt_unfold [OF assms(2)] obtain scope rt1 where scope: "resolveHaltScope (ensureSessionEntry_runtime ld) given ls rl actor named current sub rt = Inr (scope, rt1)"
    and run: "hs_sessionIDs (hr_scope r) = hs_sessionIDs scope" "hr_targetAgentID r \<noteq> Some []"
    "hs_refused (hr_scope r) = ha_refused (halt_run (ensureSessionEntry_runtime ld) pause now reason (hr_targetAgentID r) scope rt1)"
    "rt' = ha_runtime (halt_run (ensureSessionEntry_runtime ld) pause now reason (hr_targetAgentID r) scope rt1)"
    "saved = ha_saved (halt_run (ensureSessionEntry_runtime ld) pause now reason (hr_targetAgentID r) scope rt1)"
    using assms(3) by metis
  have "has_room (ld_limit ld) rt1" using scope_runtime [OF scope] assms(1) hydrate_up_room by metis
  then have "session_halted (hr_targetAgentID r) s (halt_run (ensureSessionEntry_runtime ld) pause now reason (hr_targetAgentID r) scope rt1)"
    using halt_sessions_halt [OF _ run(2), of ld _ s "hs_sessionIDs scope"] assms(4,5) run(1,3) by (simp add: halt_run_def)
  then show ?thesis using run(4,5) stored_halt_is_found by (auto simp: session_halted_def)
qed

text \<open>
  C39: Safety. A halt does nothing to a session that lies outside the subtree of its target, nor to one the actor has no authority over, but
  load or evict it: it saves no manifest for it, and when the session is loaded afterwards its entry is the one it had before, or what a load
  of it, in the walk to the ancestors of the target, answers.
\<close>

theorem halt_spares_what_it_may_not_reach:
  assumes "haltSessionTree (ensureSessionEntry_runtime ld) given ls rl resolve pause now actor (JStr t) current sub target reason rt = Inr (r, rt', saved)"
    "js_trim t \<noteq> []" "loaded_listing given ls rl rt = Inr loaded" "halt_sources (ensureSessionEntry_runtime ld) loaded (js_trim t) rt = (byID, rt1)"
    "\<not> au_allowed (check_authority actor (session_lookup rt1 byID) j) \<or> j \<notin> set (descendantSessionIDs (JStr t) (ArrSource (arr_of loaded)))"
  shows "map_of saved j = None \<and> (\<forall>e. map_of rt' j = Some e \<longrightarrow> map_of rt j = Some e \<or> load_result ld rt j e)"
proof -
  have target: "(if normalizeID (JStr t) \<noteq> [] then normalizeID (JStr t) else normalizeID current) = js_trim t" using assms(2) by simp
  have same: "descendantSessionIDs (JStr (js_trim t)) src = descendantSessionIDs (JStr t) src" for src by (simp add: descendantSessionIDs_def)
  obtain scope where scope: "resolveHaltScope (ensureSessionEntry_runtime ld) given ls rl actor (JStr t) current sub rt = Inr (scope, rt1)"
    using assms(2-4) by (auto simp: resolveHaltScope_def Let_def)
  have spared: "j \<notin> set (hs_sessionIDs scope)"
  proof
    assume "j \<in> set (hs_sessionIDs scope)"
    from scope_facts [OF scope this, unfolded target] assms(3-5) same show False by (metis (no_types, lifting) Inr_inject fst_conv)
  qed
  let ?run = "halt_run (ensureSessionEntry_runtime ld) pause now reason (hr_targetAgentID r) scope rt1"
  from halt_unfold [OF assms(1)] scope have "rt' = rt1 \<and> saved = [] \<or> rt' = ha_runtime ?run \<and> saved = ha_saved ?run"
    by (metis Inr_inject prod.inject)
  moreover have "map_of (ha_runtime ?run) j \<in> {map_of rt1 j, None} \<and> map_of (ha_saved ?run) j = None"
    using halt_sessions_others [OF spared, of ld pause now reason "hr_targetAgentID r"
        "\<lparr>ha_runtime = rt1, ha_saved = [], ha_refused = hs_refused scope, ha_cancelled = [], ha_empty = [], ha_commands = []\<rparr>"]
    by (simp add: halt_run_def)
  ultimately have "map_of saved j = None" "map_of rt' j \<in> {map_of rt1 j, None}" by auto
  moreover have "map_of rt j = Some e \<or> load_result ld rt j e" if "map_of rt1 j = Some e" for e
    using scope_runtime [OF scope]
  proof (elim disjE exE)
    fix hydrated cursor byID' n assume "rt1 = snd (hydrate_up (ensureSessionEntry_runtime ld) n hydrated cursor byID' rt)"
    with that show ?thesis using hydrate_up_loads [of rt j rt ld n hydrated cursor byID' e] by auto
  qed (use that in simp)
  ultimately show ?thesis by auto
qed

text \<open>A load applies the frames it finds to what the snapshot says.\<close>

lemma hydrate_agent_suspended:
  "agent_suspended a (restore_entry platform now frames e) =
     (a \<noteq> [] \<and> a \<in> set (rp_suspended (replaySuspensionFrames (createSuspensionReplayState (stored_snapshot (sn_session e)) (sn_session e)) frames)))"
  by (auto simp: restore_entry_def buildHydratedSuspension_def agent_suspended_def active_suspension_def Let_def split: if_splits)

lemma notice_replayed:
  assumes "is_arr ids"
  shows "rp_suspended (applySuspensionFrame st (appendSuspensionNotice platform i now s label agent ids commands session)) =
     push_all (rp_suspended st) (normalizeSuspendedAgentIDs ids)"
    "normalizeSuspendedAgentIDs ids \<noteq> [] \<or> \<not> rp_legacy st \<Longrightarrow>
       \<not> rp_legacy (applySuspensionFrame st (appendSuspensionNotice platform i now s label agent ids commands session))"
  using assms by (cases ids; simp add: applySuspensionFrame_def appendSuspensionNotice_def SESSION_SUSPEND_AUTHOR_ID_def
      LEGACY_SESSION_SUSPEND_AUTHOR_ID_def Let_def push_all_def)+

lemma replay_append: "replaySuspensionFrames st (JArr (xs @ y # ys)) = replaySuspensionFrames (applySuspensionFrame (replaySuspensionFrames st (JArr xs)) y) (JArr ys)"
  by (simp add: replaySuspensionFrames_def)

lemma stop_entry:
  assumes "map_of rt s = Some e0"
  shows "\<exists>cancelled. map_of (snd (persistSessionSuspension s (snd (cancelAgentRuns s agent (snd (suspendSession now s options rt)))))) s =
     Some (syncSessionSuspensionSnapshot (suspend_session_entry now options e0 \<lparr>sn_cancelled := cancelled\<rparr>))"
  using assms by (simp add: suspendSession_def cancelAgentRuns_def persistSessionSuspension_def Let_def) blast

lemma stop_unfold:
  assumes "map_of rt s = Some e0" "suspendSessionAgents resolve pause platform newID now s target rt = Inr (r, rt')" "sp_frame r = Some notice"
  obtains ids session agent i label commands where "is_arr ids" "sp_suspendedAgentIDs r = ids"
    "notice = appendSuspensionNotice platform i now s label agent ids commands session"
    "rt' = snd (persistSessionSuspension s (snd (cancelAgentRuns s agent (snd (suspendSession now s (suspend_options ids session (JStr ''user-suspend'')) rt)))))"
proof -
  let ?reference = "trim_or_empty target"
  obtain found where found: "(if ?reference = [] then Inr None
      else case resolve of None \<Rightarrow> Inl (GenericError ''Targeted cancellation requires an agent manager'') | Some f \<Rightarrow> f ?reference) = Inr found"
  proof (cases "(if ?reference = [] then Inr None
      else case resolve of None \<Rightarrow> Inl (GenericError ''Targeted cancellation requires an agent manager'') | Some f \<Rightarrow> f ?reference)")
    case (Inl problem)
    with assms(2) show ?thesis by (simp add: suspendSessionAgents_def Let_def split: if_splits)
  qed (use that in blast)
  define agent where "agent = (case found of Some (c # cs) \<Rightarrow> Some (c # cs) | _ \<Rightarrow> None)"
  define session where "session = JObj (sn_session e0)"
  let ?ids = "stop_ids agent session"
  have "is_arr ?ids" by (simp add: stop_ids_def split: option.split)
  have r: "s \<noteq> []" using assms(2) by (auto simp: suspendSessionAgents_def split: if_splits)
  obtain cancelled rt2 where c: "cancelAgentRuns s agent (snd (suspendSession now s (suspend_options ?ids session (JStr ''user-suspend'')) rt)) = (cancelled, rt2)"
    by (meson surj_pair)
  have "sp_suspendedAgentIDs r = ?ids \<and> (\<exists>i label commands. notice = appendSuspensionNotice platform i now s label agent ?ids commands session) \<and>
      rt' = snd (persistSessionSuspension s rt2)"
    using assms r c unfolding suspendSessionAgents_def found Let_def and_then_simps agent_def [symmetric]
    by (auto simp flip: session_def split: if_splits) blast+
  with that [OF \<open>is_arr ?ids\<close>] c show ?thesis by fastforce
qed

lemma suspended_by_stop:
  assumes "in_step e0" "e = syncSessionSuspensionSnapshot (suspend_session_entry now (suspend_options ids session reason) e0 \<lparr>sn_cancelled := cancelled\<rparr>)"
  shows "in_step e \<and> suspended_agents e = push_all (suspended_agents e0) (normalizeSuspendedAgentIDs ids)"
proof -
  let ?e1 = "suspend_session_entry now (suspend_options ids session reason) e0"
  have well0: "well_suspended e0" using assms(1) by blast
  have "suspended_agents (?e1\<lparr>sn_cancelled := cancelled\<rparr>) = push_all (suspended_agents e0) (normalizeSuspendedAgentIDs ids)"
    using suspend_session_step(2) [OF well0, of now "suspend_options ids session reason"]
    by (simp add: suspended_agents_def suspend_options_def)
  moreover have "well_suspended (?e1\<lparr>sn_cancelled := cancelled\<rparr>)"
    using in_step_well [OF suspend_session_step(1) [OF well0]] by (simp add: well_suspended_def suspended_agents_def)
  ultimately show ?thesis using assms(2) in_step_sync by simp
qed

text \<open>
  C40: Round trip. Every agent the user's stop is after is suspended when the stop has returned. A load of the session that finds the notice
  among its frames, whatever precedes it, reports each of them suspended too, unless a resume marker after the notice names it (no halt marker of the
  old form after it). Where the other frames of the load hold no marker of a suspension or a resume, the load answers for every agent as
  the session did after the stop.
\<close>

theorem stop_survives_a_load:
  assumes "map_of rt s = Some e0" "in_step e0" "suspendSessionAgents resolve pause platform newID now s target rt = Inr (r, rt')"
    "sp_frame r = Some notice" "map_of rt' s = Some e" "sn_session loaded = sn_session e"
  shows "(a \<in> set (normalizeSuspendedAgentIDs (sp_suspendedAgentIDs r)) \<longrightarrow> agent_suspended a e) \<and>
     (a \<in> set (normalizeSuspendedAgentIDs (sp_suspendedAgentIDs r)) \<and> modern_frames (JArr newer) \<and> a \<notin> set (lifted_by (JArr newer)) \<longrightarrow>
        agent_suspended a (restore_entry platform' now' (JArr (older @ notice # newer)) loaded)) \<and>
     (no_markers (JArr (older @ newer)) \<longrightarrow>
        agent_suspended a (restore_entry platform' now' (JArr (older @ notice # newer)) loaded) = agent_suspended a e)"
proof -
  let ?ids = "sp_suspendedAgentIDs r"
  from stop_unfold [OF assms(1,3,4)] obtain session agent where arr: "is_arr ?ids"
    and notice: "\<exists>i label commands. notice = appendSuspensionNotice platform i now s label agent ?ids commands session"
    and after: "rt' = snd (persistSessionSuspension s (snd (cancelAgentRuns s agent (snd (suspendSession now s (suspend_options ?ids session (JStr ''user-suspend'')) rt)))))"
    by metis
  from stop_entry [OF assms(1)] after assms(5) obtain cancelled where e: "e = syncSessionSuspensionSnapshot
      (suspend_session_entry now (suspend_options ?ids session (JStr ''user-suspend'')) e0 \<lparr>sn_cancelled := cancelled\<rparr>)"
    by (metis option.inject)
  from suspended_by_stop [OF assms(2) e] have step: "in_step e" and now_in: "suspended_agents e = push_all (suspended_agents e0) (normalizeSuspendedAgentIDs ?ids)"
    by blast+
  let ?load = "restore_entry platform' now' (JArr (older @ notice # newer)) loaded"
  let ?st = "replaySuspensionFrames (createSuspensionReplayState (stored_snapshot (sn_session loaded)) (sn_session loaded)) (JArr older)"
  have load: "suspended_agents ?load = rp_suspended (replaySuspensionFrames (applySuspensionFrame ?st notice) (JArr newer))"
    by (simp add: restored_agents replay_append)
  have noticed: "rp_suspended (applySuspensionFrame ?st notice) = push_all (rp_suspended ?st) (normalizeSuspendedAgentIDs ?ids)"
    and modern: "normalizeSuspendedAgentIDs ?ids \<noteq> [] \<or> \<not> rp_legacy ?st \<Longrightarrow> \<not> rp_legacy (applySuspensionFrame ?st notice)"
    using notice notice_replayed [OF arr] by auto
  have "a \<in> set (suspended_agents ?load)"
    if "a \<in> set (normalizeSuspendedAgentIDs ?ids)" "modern_frames (JArr newer)" "a \<notin> set (lifted_by (JArr newer))"
  proof -
    have "normalizeSuspendedAgentIDs ?ids \<noteq> [] \<or> \<not> rp_legacy ?st" using that(1) by (cases "normalizeSuspendedAgentIDs ?ids") simp_all
    from replay_keeps [OF modern [OF this] that(2)] that(1,3) show ?thesis unfolding load noticed by auto
  qed
  moreover have "set (suspended_agents ?load) = set (suspended_agents e)" if "no_markers (JArr (older @ newer))"
  proof -
    have "no_markers (JArr older)" "no_markers (JArr newer)" using that by (simp_all add: no_markers_def)
    then have st: "?st = createSuspensionReplayState (stored_snapshot (sn_session loaded)) (sn_session loaded)"
      and "suspended_agents ?load = rp_suspended (applySuspensionFrame ?st notice)"
      using load modern replay_no_markers [OF _ replay_start(2)] replay_no_markers [of "JArr newer"] by (simp_all add: replay_start)
    moreover have "rp_suspended ?st = suspended_agents e" using st step assms(6) by (simp add: replay_start in_step_def)
    ultimately show ?thesis using noticed now_in by auto
  qed
  ultimately show ?thesis using step now_in restore_in_step [of platform' now' "JArr (older @ notice # newer)" loaded]
    by (auto simp: agent_suspended_iff in_step_well)
qed

section \<open>A reference that names nobody\<close>

text \<open>When the agent named cannot be resolved the error is kept for the message and the halt goes on as though none had been named.\<close>

lemma unresolved_target_halts_everyone:
  assumes "resolve (trim_or_empty target) = Inl problem \<or> resolve (trim_or_empty target) = Inr None"
  shows "(case haltSessionTree load given ls rl resolve pause now actor named current sub target reason rt of Inl e \<Rightarrow> Inl e | Inr (r, rt', saved) \<Rightarrow> Inr (rt', saved)) =
     (case haltSessionTree load given ls rl resolve pause now actor named current sub Null reason rt of Inl e \<Rightarrow> Inl e | Inr (r, rt', saved) \<Rightarrow> Inr (rt', saved))"
proof -
  have "fst (resolve_target resolve target) = None" "fst (resolve_target resolve Null) = None"
    using assms by (auto simp: resolve_target_def Let_def)
  then show ?thesis by (auto simp: haltSessionTree_def and_then_def Let_def split: sum.splits prod.splits)
qed

text \<open>A person who names a session is refused: the command passes no actor for a person.\<close>

lemma no_actor_no_authority: "\<not> au_allowed (check_authority Null getSession s)"
  by (simp add: check_authority_def hasCoordinatorAuthority_def normalizeID_def)

lemma no_actor_no_halt:
  assumes "haltSessionTree load given ls rl resolve pause now Null named current sub target reason rt = Inr (r, rt', saved)"
  shows "\<not> hs_allowed (hr_scope r)"
proof -
  from halt_unfold [OF assms] obtain scope rt1 where
    "resolveHaltScope load given ls rl Null named current sub rt = Inr (scope, rt1)" "hs_allowed (hr_scope r) = hs_allowed scope" by metis
  then show ?thesis
    by (auto simp: resolveHaltScope_def and_then_def refused_scope_def Let_def no_actor_no_authority split: if_splits sum.splits prod.splits)
qed

lemma human_cannot_name_a_session:
  assumes "pget frame ''authorType'' \<noteq> JStr ''agent''" "ca_sessionID (parseCancelArgs args) \<noteq> None"
    "execute_cancel sv context args frame rt = Inr ((status, message), rt')"
  shows "status = ''error''"
  using assms no_actor_no_halt
  by (fastforce simp: execute_cancel_def and_then_def Let_def split: sum.splits if_splits option.splits)

text \<open>An empty quoted name is no name: the person's stop then takes every participant.\<close>

lemma empty_quotes_name_nobody: "parseCommandTarget (JStr [CHR 0x22, CHR 0x22]) cancel_target_options = Inr ([], [])"
  by code_simp

section \<open>Witnesses\<close>

definition listed_session :: "string \<Rightarrow> string \<Rightarrow> string \<Rightarrow> jsobj" where
  "listed_session k parent agent = [(''id'', JStr k), (''parentSessionID'', JStr parent), (''participantAgentIDs'', JArr [JStr agent]), (''coordinatorAgentID'', JStr agent)]"

definition tree_runtime :: sessions where
  "tree_runtime = map (\<lambda>(k, parent, agent). (k, empty_entry\<lparr>sn_session := listed_session k parent agent, sn_running := [agent]\<rparr>))
     [(''p'', [], ''z''), (''c'', ''p'', ''a''), (''d'', ''p'', ''b''), (''g'', ''c'', ''a'')]"

definition tree_listing :: jsval where
  "tree_listing = JArr (map (\<lambda>(_, e). JObj (sn_session e)) tree_runtime)"

text \<open>At most one session is loaded: that of \<open>d\<close> gives way to that of \<open>c\<close>, and that to the one of its child \<open>g\<close>.\<close>

definition tree_loading :: loading where
  "tree_loading = \<lparr>ld_limit = 1, ld_session = (\<lambda>k. map_option sn_session (map_of tree_runtime k)), ld_frames = (\<lambda>_. Some (JArr [])),
     ld_platform = ''linux'', ld_now = Null\<rparr>"

definition one_loaded :: sessions where
  "one_loaded = [(''d'', new_entry (listed_session ''d'' ''p'' ''b''))]"

definition tree_halt :: "js_error + halt_result \<times> sessions \<times> manifests" where
  "tree_halt = haltSessionTree (ensureSessionEntry_runtime tree_loading) tree_listing None None (\<lambda>_. Inr None) (\<lambda>_ _. JArr []) Null (JStr ''z'') (JStr ''c'') Undefined True Null
     (JStr ''coordinator-halt'') one_loaded"

lemma tree_room: "has_room (ld_limit tree_loading) one_loaded"
  by (simp add: has_room_def tree_loading_def one_loaded_def idle_entry_def new_entry_def)

definition tree_start :: halt_state where
  "tree_start = \<lparr>ha_runtime = one_loaded, ha_saved = [], ha_refused = [], ha_cancelled = [], ha_empty = [], ha_commands = []\<rparr>"

definition tree_step :: "halt_state \<Rightarrow> string \<Rightarrow> halt_state" where
  "tree_step = halt_session (ensureSessionEntry_runtime tree_loading) (\<lambda>_ _. JArr []) Null (JStr ''coordinator-halt'') None"

lemma tree_scope:
  "(case resolveHaltScope (ensureSessionEntry_runtime tree_loading) tree_listing None None (JStr ''z'') (JStr ''c'') Undefined True one_loaded of
      Inl _ \<Rightarrow> False | Inr (scope, rt) \<Rightarrow> hs_allowed scope \<and> hs_sessionIDs scope = [''c'', ''g''] \<and> hs_refused scope = [] \<and> rt = one_loaded)"
  by code_simp

lemma tree_steps:
  "ha_refused (tree_step (tree_step tree_start ''c'') ''g'') = []" "map fst (ha_runtime (tree_step (tree_step tree_start ''c'') ''g'')) = [''g'']"
  "map_option (\<lambda>m. participantAgentIDsOf (JObj m)) (map_of (ha_saved (tree_step (tree_step tree_start ''c'') ''g'')) ''c'') = Some [''a'']"
  by code_simp+

lemma tree_halt_value:
  "(case tree_halt of Inl _ \<Rightarrow> False | Inr (r, rt', saved) \<Rightarrow> hs_allowed (hr_scope r) \<and> hs_sessionIDs (hr_scope r) = [''c'', ''g''] \<and>
      hs_refused (hr_scope r) = [] \<and> hr_targetAgentID r = None \<and> map fst rt' = [''g''] \<and>
      map_option (\<lambda>m. participantAgentIDsOf (JObj m)) (map_of saved ''c'') = Some [''a''])"
proof -
  obtain scope where "resolveHaltScope (ensureSessionEntry_runtime tree_loading) tree_listing None None (JStr ''z'') (JStr ''c'') Undefined True one_loaded = Inr (scope, one_loaded)"
    "hs_allowed scope" "hs_sessionIDs scope = [''c'', ''g'']" "hs_refused scope = []"
    using tree_scope by (auto split: sum.splits prod.splits)
  then show ?thesis using tree_steps
    by (simp add: tree_halt_def haltSessionTree_def resolve_target_def Let_def flip: tree_start_def tree_step_def)
qed

lemma halt_suspends_its_scope_witness:
  "(case tree_halt of Inl _ \<Rightarrow> False | Inr (r, rt', saved) \<Rightarrow> map_of rt' ''c'' = None \<and>
      (\<exists>m. map_of saved ''c'' = Some m \<and> ''a'' \<in> set (stored_agents m)) \<and> (\<forall>e. map_of rt' ''g'' = Some e \<longrightarrow> halted None e))"
proof -
  obtain r rt' saved where d: "tree_halt = Inr (r, rt', saved)" "hs_allowed (hr_scope r)" "hs_sessionIDs (hr_scope r) = [''c'', ''g'']"
    "hs_refused (hr_scope r) = []" "hr_targetAgentID r = None" "map fst rt' = [''g'']"
    "map_option (\<lambda>m. participantAgentIDsOf (JObj m)) (map_of saved ''c'') = Some [''a'']"
    using tree_halt_value by (auto split: sum.splits prod.splits)
  note halts = halt_suspends_its_scope [OF tree_room d(1) [unfolded tree_halt_def] d(2)]
  have "map_of rt' ''c'' = None" using d(6) by (cases rt') auto
  moreover have "\<exists>m. map_of saved ''c'' = Some m \<and> ''a'' \<in> set (stored_agents m)"
    using halts [of "''c''"] d(3-5,7) by (auto simp: halt_stored_def halt_targets_def js_trim_def js_space_def)
  moreover have "\<forall>e. map_of rt' ''g'' = Some e \<longrightarrow> halted None e" using halts [of "''g''"] d(3-5) by auto
  ultimately show ?thesis unfolding d(1) by simp
qed

lemma tree_sources:
  "loaded_listing tree_listing None None one_loaded = Inr tree_listing"
  "snd (halt_sources (ensureSessionEntry_runtime tree_loading) tree_listing ''c'' one_loaded) = one_loaded"
  "''d'' \<notin> set (descendantSessionIDs (JStr ''c'') (ArrSource (arr_of tree_listing)))" "js_trim ''c'' = ''c''"
  by code_simp+

lemma halt_spares_what_it_may_not_reach_witness:
  "(case tree_halt of Inl _ \<Rightarrow> False | Inr (r, rt', saved) \<Rightarrow> map_of saved ''d'' = None)"
proof -
  obtain r rt' saved where d: "tree_halt = Inr (r, rt', saved)" using tree_halt_value by (auto split: sum.splits)
  obtain byID where src: "halt_sources (ensureSessionEntry_runtime tree_loading) tree_listing ''c'' one_loaded = (byID, one_loaded)"
    using tree_sources(2) by (metis prod.collapse)
  from halt_spares_what_it_may_not_reach [OF d [unfolded tree_halt_def] _ tree_sources(1), unfolded tree_sources(4), OF _ src, of "''d''"]
  show ?thesis unfolding d using tree_sources(3) by simp
qed

text \<open>
  With the limit reached by sessions that are pinned, the session to be halted is dropped as soon as it is loaded: it is reported as reached and
  not refused, but nobody is suspended and nothing is saved.
\<close>

definition pinned_halt :: "js_error + halt_result \<times> sessions \<times> manifests" where
  "pinned_halt = haltSessionTree (ensureSessionEntry_runtime tree_loading) tree_listing None None (\<lambda>_. Inr None) (\<lambda>_ _. JArr []) Null (JStr ''z'') (JStr ''c'') Undefined False Null
     (JStr ''coordinator-halt'') (map (\<lambda>(k, e). (k, e\<lparr>sn_activeRuns := 1\<rparr>)) one_loaded)"

lemma pinned_limit_halts_nobody:
  "(case pinned_halt of Inl _ \<Rightarrow> False | Inr (r, rt', saved) \<Rightarrow> hs_allowed (hr_scope r) \<and> hs_sessionIDs (hr_scope r) = [''c''] \<and>
      hs_refused (hr_scope r) = [] \<and> map_of rt' ''c'' = None \<and> saved = [])"
  by code_simp

definition tree_stop :: "js_error + stop_result \<times> sessions" where
  "tree_stop = suspendSessionAgents None (\<lambda>_ _. JArr []) ''linux'' (Some (JStr ''f'')) (JNum (Fin 5)) ''c'' Null tree_runtime"

lemma tree_stop_value:
  "(case tree_stop of Inl _ \<Rightarrow> False | Inr (r, rt') \<Rightarrow> sp_frame r \<noteq> None \<and> map_of rt' ''c'' \<noteq> None \<and>
      normalizeSuspendedAgentIDs (sp_suspendedAgentIDs r) = [''a''])"
  by code_simp

lemma tree_entry: "map_of tree_runtime ''c'' = Some (empty_entry\<lparr>sn_session := listed_session ''c'' ''p'' ''a'', sn_running := [''a'']\<rparr>)"
  by (simp add: tree_runtime_def)

text \<open>The load of the witness finds the resume of another agent before the notice and a message of a person after it.\<close>

lemma stop_survives_a_load_witness:
  "(case tree_stop of Inl _ \<Rightarrow> False | Inr (r, rt') \<Rightarrow> \<exists>notice e. sp_frame r = Some notice \<and> map_of rt' ''c'' = Some e \<and>
      agent_suspended ''a'' (restore_entry ''linux'' Null (JArr ([createResumeFrame Null ''c'' ''b'' [] Null Null] @ notice # [JObj [(''authorType'', JStr ''user'')]]))
        (new_entry (sn_session e))))"
proof -
  obtain r rt' notice e where d: "tree_stop = Inr (r, rt')" "sp_frame r = Some notice" "map_of rt' ''c'' = Some e"
    "normalizeSuspendedAgentIDs (sp_suspendedAgentIDs r) = [''a'']"
    using tree_stop_value by (auto split: sum.splits prod.splits)
  have "in_step (empty_entry\<lparr>sn_session := listed_session ''c'' ''p'' ''a'', sn_running := [''a'']\<rparr>)"
    by (rule fresh_in_step) (simp add: fresh_entry_def listed_session_def)
  moreover have "modern_frames (JArr [JObj [(''authorType'', JStr ''user'')]])" "lifted_by (JArr [JObj [(''authorType'', JStr ''user'')]]) = []" by code_simp+
  ultimately show ?thesis
    using stop_survives_a_load [OF tree_entry _ d(1) [unfolded tree_stop_def] d(2,3), where loaded = "new_entry (sn_session e)" and a = "''a''"
        and newer = "[JObj [(''authorType'', JStr ''user'')]]" and older = "[createResumeFrame Null ''c'' ''b'' [] Null Null]"
        and platform' = "''linux''" and now' = Null]
    unfolding d(1) using d(2-4) by (simp add: new_entry_def)
qed

end
