(* ===== verification/Spec2Isabelle.thy ===== *)
theory Spec2Isabelle
  imports SessionAncestry CoordinatorScope SessionSubtree HybridClock DeepMerge FrameEngine FrameStore
    FramePriority SelectorCompiler FrameRouter FrameManager SessionPreferences DocumentRanges MutationAuthority RecurringRule
    ProviderRetry CompactorSelection ChunkedCompaction CompactionSummary MergePlan ForkSource RecurringTimer QuestionLifecycle
    WhereClause Mentions FrameVisibility FrameWindows ForkStore SessionSuspension SessionLoading TreeHalt
begin

text \<open>
  Verification library for the decision core of kikx, a server on which agents and users work in a tree of sessions.

  \<^bold>\<open>The program.\<close> Everything that happens in a session is a frame; the frame engine merges frames, versions them and records
  each change as a commit; the router delivers commits to plugins, above all to the plugin that starts agent turns; sessions form
  a tree that decides who sees what and which agent coordinates whom; when the frames outgrow a model they are compacted; stores
  keep the frames, clocks order them, documents are read in ranges. The library models the parts of \<open>src/src/\<close> in which
  these decisions are made and leaves the input and output around them as arguments.

  \<^bold>\<open>Theories and sources.\<close> File names are relative to \<open>src/src/\<close>; a definition has the name of the function
  it translates wherever that is possible, and helper definitions are the loops and branches of the function they precede.

  \<^item> \<open>Prelude\<close>, \<open>JSValue\<close>, \<open>JSONText\<close>, \<open>UpwardChain\<close>: insertion-ordered maps, stable sorting, JavaScript values with
    truthiness, \<open>||\<close>, \<open>??\<close>, \<open>Number\<close>, \<open>String\<close>, \<open>JSON.stringify\<close>, exceptions as the left of a sum, chains of links.
  \<^item> \<open>SessionAncestry\<close>: \<open>shared/session-ancestry.mjs\<close>, \<open>shared/session-actors.mjs\<close>. \<open>CoordinatorScope\<close>:
    \<open>core/agents/coordinator-scope.mjs\<close>. \<open>SessionSubtree\<close>: \<open>core/agents/session-subtree.mjs\<close>. \<open>MutationAuthority\<close>:
    \<open>core/agents/mutation-authority.mjs\<close>, \<open>end-turn-notification.mjs\<close>. Sessions are records looked up in a function, a map or an array
    (\<open>session_source\<close>); the parent link is a partial function and a chain is a list of linked ids.
  \<^item> \<open>HybridClock\<close>: \<open>core/clock/hybrid-logical-clock.mjs\<close>; the state is the record \<open>clock\<close>, the wall clock is an argument of \<open>tick\<close>,
    \<open>observe\<close> and \<open>seed\<close>.
  \<^item> \<open>DeepMerge\<close>, \<open>FrameEngine\<close>, \<open>FrameStore\<close>: \<open>core/frames/deep-merge.mjs\<close>, \<open>core/frames/frame-engine.mjs\<close>. The state of the engine is
    the record \<open>engine\<close> over an explicit heap of frames, because histories and the current map share objects and the code mutates them;
    \<open>FrameStore\<close> holds its invariant and the lemmas about \<open>engine_merge\<close>.
  \<^item> \<open>FramePriority\<close>, \<open>SelectorCompiler\<close>, \<open>FrameRouter\<close>: \<open>shared/frame-priority.mjs\<close>, \<open>core/routing/selector-compiler.mjs\<close>,
    \<open>core/routing/frame-router.mjs\<close>. The router's asynchronous loops are the transitions of a step relation; each resumption after an
    \<open>await\<close> is a step, in any order.
  \<^item> \<open>FrameManager\<close>: \<open>shared/frame-manager/frame-manager.mjs\<close>, the projection of frames to messages and the incremental count.
  \<^item> \<open>CompactorSelection\<close>, \<open>CompactionContext\<close>, \<open>ChunkedCompaction\<close>, \<open>CompactionSummary\<close>: \<open>core/compaction/\<close>; \<open>MergePlan\<close>:
    \<open>core/merge/session-merge-plan.mjs\<close>; \<open>ForkSource\<close>: \<open>core/context/session-fork-source.mjs\<close>, which \<open>ForkStore\<close> runs on the frame store; \<open>ProviderRetry\<close>:
    \<open>core/agents/provider-retry.mjs\<close>, where the generator is the trace of what its consumer sees.
  \<^item> \<open>SessionPreferences\<close>: \<open>shared/session-preferences.mjs\<close>, \<open>core/preferences/session-preferences.mjs\<close>. \<open>RecurringRule\<close>:
    \<open>core/scheduling/recurring-rule.mjs\<close>. \<open>DocumentUtils\<close>, \<open>DocumentRanges\<close>: \<open>core/database/document-utils.mjs\<close>, \<open>document-ranges.mjs\<close>,
    \<open>document-text-utils.mjs\<close> and the error types.
  \<^item> \<open>WhereClause\<close>: \<open>core/database/where-clause.mjs\<close>; the tree is a datatype and the recursion runs on fuel.
  \<^item> \<open>Mentions\<close>: \<open>core/mentions/\<close>, where a service is the list of its methods. \<open>FrameVisibility\<close>:
    \<open>shared/coordination-visibility.mjs\<close>, \<open>shared/frame-window-filters.mjs\<close>, \<open>core/tools/session-invite-wake.mjs\<close>; a frame is a JavaScript
    value and a filter a function on the rows.
  \<^item> \<open>FrameFiles\<close>, \<open>WindowScan\<close>, \<open>FrameWindows\<close>: the frame store of \<open>core/aeordb/\<close> (\<open>frame-store-*.mjs\<close>, \<open>aeordb-file-utils.mjs\<close>). The
    document database is the record \<open>docdb\<close> of what its operations answer during a call; saving a commit is the list of its writes.
  \<^item> \<open>SessionSuspension\<close>, \<open>SessionLoading\<close>, \<open>TreeHalt\<close>: \<open>core/runtime/frame-runtime-session-suspension.mjs\<close>, \<open>session-suspension-persistence.mjs\<close>,
    \<open>suspension-warning.mjs\<close>; the loads, pins and evictions of \<open>frame-runtime-sessions.mjs\<close> and \<open>frame-runtime.mjs\<close>; \<open>core/agents/coordinator-tree-halt.mjs\<close>, \<open>agent-cancellation.mjs\<close>, \<open>core/commands/cancel-command.mjs\<close>,
    \<open>command-target.mjs\<close>. A loaded session is the record \<open>session_entry\<close>; \<open>entry_step\<close> is one operation on it and \<open>in_step\<close> the invariant
    that the stored snapshot names the agents suspended. A halt composes the authority of \<open>CoordinatorScope\<close>, the walk of \<open>SessionSubtree\<close> and the
    suspension of every session reached, over loads that may evict other sessions; the manifests it saves are part of its result. The walk up to a target that is not loaded is bounded by the depth of an ancestor chain, as in the code.
  \<^item> \<open>SingleMerge\<close>, \<open>ScheduledQueue\<close>, \<open>RecurringTimer\<close>: \<open>core/runtime/scheduled-frame-queue.mjs\<close> with the session entries of
    \<open>frame-runtime.mjs\<close> and \<open>frame-runtime-sessions.mjs\<close> it needs, \<open>core/scheduling/recurring-timer-schedule.mjs\<close> and
    \<open>recurring-timer-frame-plugin.mjs\<close>. The state is the record \<open>runtime\<close>: the queue of entries, the loaded sessions, each with its engine,
    and the clock; a status change is a merge into that engine.
  \<^item> \<open>QuestionDoc\<close>, \<open>QuestionDedupe\<close>, \<open>QuestionStore\<close>, \<open>QuestionIndex\<close>, \<open>QuestionRepair\<close>, \<open>QuestionLifecycle\<close>: \<open>core/questions/\<close>. The state
    is the record \<open>qstore\<close> of documents, open index and mirrors; \<open>QuestionLifecycle\<close> is the store as a step relation in which a document and
    its index rewrite are written in two steps and any other operation may come between them.

  \<^bold>\<open>What the lemmas show.\<close> Each theory proves the loops of its component equal to a closed form or to a reference definition,
  then the invariants, then the properties. The walks over the session tree are related to reachability along parent links; the
  coordinator rules to the first recorded coordinator on the chain. The engine keeps \<open>engine_ok\<close> (histories end with the current frame, limits,
  commit index) in every reachable state, and a refused merge is undone. The router's step relation keeps that commits on a common
  frame stay in order and that no waiter is left behind; the two share commits, and the root theory shows that what the engine records
  the router resolves. Interfaces are locales interpreted on the model: the laws of a token estimator, on which the chunk bounds rest,
  are discharged for the default one. Compaction is shown to split the frames by their order at the boundary it
  records, which loses none where the frames are in order, and a request to fit its budget or the size of a frame cut to the minimum. A scheduled
  frame is routed at most once and a timer has one live occurrence; the index of open questions is exact whenever no rewrite is to
  come, a given answer stays but for a delivery that is handed another one, and every completed operation of the question store is a run of its
  step relation. A fork is exactly the pages that were read. The test on the path of a frame is related to the predicate on frames, the counts
  of the filters to what one row shows, hidden or deleted frames included. On disk a count covers the session whatever page the database
  answers and a search finds the newest matches; windows and paging are exact for the rows a database lists in one call. Clock stamps
  always increase and their texts do while the counter fits its columns. A suspension lasts until an operation or a resume marker lifts it,
  the stored manifest restores it, and a halt leaves it in every manifest of its scope, whatever is evicted meanwhile, as long as the pinned
  sessions leave room for one more.

  \<^bold>\<open>Arguments of the model.\<close> \<open>localeCompare\<close>, the wall clock, id generators, the commit validator, plugins and their tasks,
  \<open>Date.parse\<close>, the zone data of \<open>Intl\<close>, \<open>JSON.parse\<close>, SHA-256, the document reader, session loaders and the persistence of
  a promotion, providers, \<open>compactOnce\<close>, the runtime and the frame store are parameters; where a theorem needs a law of one of them, the law
  is a hypothesis and the witness instantiates it.

  \<^bold>\<open>Bounds and fuel.\<close> Loops that the code bounds are bounded the same way: 64 ancestors of a coordinator walk, 1000 sessions of a subtree,
  200 versions and 2000 commits, 64 rounds of session loading, 14 days of a recurrence search, 4 levels of chunked compaction, 6 attempts to settle a
  truncation count, 20000 frames of a fork; each terminates in Isabelle by that bound. Walks without a bound of their own are
  option-valued and shown to return on every tree with finitely many parent links. The plugin chain runs with a depth that its lemmas show to
  be enough; the where clause runs with the weight of its input. Counters of commits are below \<open>2^53\<close> where a theorem says so; texts are below \<open>10^16\<close> characters where the width of a
  count matters.

  \<^bold>\<open>Conventions.\<close> A number is an exact rational, an infinity or \<open>NaN\<close>; the rounding of binary64 is not modelled but for the order in a
  file's name, which is the nearest double. An asynchronous function runs without another in between, except in the router and the question
  store, whose steps interleave. A string is a list
  of characters below 256 except in \<open>DocumentRanges\<close>, which has UTF-16 units and UTF-8 bytes. Objects are plain and keep insertion order.

  \<^bold>\<open>Not modelled.\<close> The browser client, HTTP routes and event streams, the database drivers, plugin loading and
  signatures, tools that run processes or read the network and the file system, authentication, mail, configuration files,
  OCR and scripts are input and output, or glue around it. \<open>src/old-app/\<close> is the archived former application. Of the runtime
  only the session entries, their loads and evictions, and their suspension are modelled; question wakes, the agent manager and the services that merge or fork sessions are not.
\<close>

section \<open>Recorded commits reach the router\<close>

text \<open>
  C1: What the engine records the router can deliver: after a merge that returned frames, for every change of
  the recorded commit the router resolves a version of that very frame which carries the order of the commit,
  never a later one.
\<close>

theorem recorded_commit_is_routed:
  assumes "engine_reachable cf st" "1 \<le> cf_historyLimit cf" "1 \<le> cf_commitLimit cf" "en_commitOrder st < 9007199254740992"
    and "engine_merge cf frames options st = Inr (st', results)" "results \<noteq> []"
  shows "\<exists>c. getLatestCommit st' = Some c \<and> (\<forall>ch \<in> set (cm_changes c).
    \<exists>f. fst (resolveCommitFrame (getVersionHistory st' (ch_frameID ch)) (routed c)) = Some f
      \<and> oget f ''id'' = ch_frameID ch \<and> oget f ''commitOrder'' = JNum (Fin (cm_order c)))"
proof -
  obtain inputs where inputs: "frames = JArr inputs" using assms(5) by (cases frames) (simp_all add: engine_merge_def)
  have ok: "engine_ok cf st" "commits_ok cf st" using reachable_ok[OF assms(1-3)] by auto
  from ok(1) assms(5)[unfolded inputs]
  obtain m st1 c es where r: "merging_ok cf st m" "createCommit cf (mg_changes m) options (mg_engine m) = (st1, c)"
    "st' = emit_all es (recorded cf c m st1)"
    by (cases rule: engine_merge_cases) (use assms(6) in simp_all)
  note rec = recorded_ok[OF r(1) ok(2) assms(3,4) r(2)]
  have ok': "engine_ok cf st'" and readable: "commit_readable st' c" and latest: "getLatestCommit st' = Some c"
    using rec(1,3,7) by (simp_all add: r(3) commit_readable_def)
  have "\<exists>f. fst (resolveCommitFrame (getVersionHistory st' (ch_frameID ch)) (routed c)) = Some f
      \<and> oget f ''id'' = ch_frameID ch \<and> oget f ''commitOrder'' = JNum (Fin (cm_order c))" if "ch \<in> set (cm_changes c)" for ch
  proof -
    obtain a where a: "engine_get st' (ch_frameID ch) = Some a" "oget (frame_at st' a) ''commitOrder'' = JNum (Fin (cm_order c))"
      using readable \<open>ch \<in> set (cm_changes c)\<close> by (auto simp: commit_readable_def)
    have "history_ok cf st' (ch_frameID ch)" using ok' by (simp add: engine_ok_def)
    with a(1) obtain vs where vs: "map_of (en_history st') (ch_frameID ch) = Some vs" "vs \<noteq> []" "last vs = a"
      "\<forall>v \<in> set vs. frame_ok st' (ch_frameID ch) v"
      by (auto simp: history_ok_def engine_get_def split: option.splits)
    let ?fs = "map (frame_at st') vs" and ?P = "\<lambda>f. oget f ''commitOrder'' = JNum (Fin (cm_order c))"
    have "frame_at st' a \<in> set ?fs" using vs(2,3) by auto
    with a(2) find_index_None[of ?P ?fs] obtain i where i: "find_index ?P ?fs = Some i" by fastforce
    from find_index_Some[OF i] have "i < length vs" "?P (?fs ! i)" by auto
    moreover from this vs(4) have "oget (?fs ! i) ''id'' = ch_frameID ch" by (simp add: frame_ok_def)
    ultimately show ?thesis
      using i vs(1) by (simp add: resolveCommitFrame_def getVersionHistory_def routed_def)
  qed
  with latest show ?thesis by blast
qed

theorem recorded_commit_is_routed_witness:
  "\<exists>st' c. engine_merge demo_config demo_frames (JObj []) (new_engine 0) = Inr (st', [0]) \<and> getLatestCommit st' = Some c
    \<and> (\<forall>ch \<in> set (cm_changes c). fst (resolveCommitFrame (getVersionHistory st' (ch_frameID ch)) (routed c)) \<noteq> None)"
proof -
  obtain st' where m: "engine_merge demo_config demo_frames (JObj []) (new_engine 0) = Inr (st', [0])" by (rule demo_merge_obtain)
  have ex: "\<exists>c. getLatestCommit st' = Some c \<and> (\<forall>ch \<in> set (cm_changes c).
    \<exists>f. fst (resolveCommitFrame (getVersionHistory st' (ch_frameID ch)) (routed c)) = Some f
      \<and> oget f ''id'' = ch_frameID ch \<and> oget f ''commitOrder'' = JNum (Fin (cm_order c)))"
    by (rule recorded_commit_is_routed[OF engine_reachable.created _ _ _ m]) (simp_all add: new_engine_def)
  then obtain c where c: "getLatestCommit st' = Some c"
    "\<forall>ch \<in> set (cm_changes c). fst (resolveCommitFrame (getVersionHistory st' (ch_frameID ch)) (routed c)) \<noteq> None"
    by fastforce
  with m show ?thesis by blast
qed

end
